(* ===== verification/Bytes.thy ===== *)
theory Bytes
  imports Main "HOL-Library.Word"
begin

text \<open>
  The prelude: machine integers, byte buffers and the little-endian field access that the
  codecs under \<^verbatim>\<open>src/src/shared\<close> share (each C file has its own \<^verbatim>\<open>static put\<close>,
  \<^verbatim>\<open>static get\<close>, \<^verbatim>\<open>filled\<close> or \<^verbatim>\<open>allzero\<close> helper with the same body). A C buffer is a
  list of bytes of the buffer's size, \<open>memcpy\<close> writes inside it and never changes its size,
  and \<open>span\<close> is the part of a buffer that a call receives as pointer and length.
\<close>

unbundle bit_operations_syntax

type_synonym u8 = "8 word"
type_synonym u16 = "16 word"
type_synonym u32 = "32 word"
type_synonym u64 = "64 word"

named_theorems buffer_simps \<open>spans and lengths of buffers after writes\<close>

section \<open>Buffers\<close>

definition span :: "'a list \<Rightarrow> nat \<Rightarrow> nat \<Rightarrow> 'a list" where
  "span b off n = take n (drop off b)"

definition memcpy :: "'a list \<Rightarrow> nat \<Rightarrow> 'a list \<Rightarrow> 'a list" where
  "memcpy dst off src = take (length dst) (take off dst @ src @ drop (off + length src) dst)"

definition zeros :: "nat \<Rightarrow> u8 list" where
  "zeros n = replicate n 0"

lemma length_memcpy [simp, buffer_simps]: "length (memcpy dst off src) = length dst"
  by (simp add: memcpy_def)

lemma length_span [simp]: "length (span b off n) = min n (length b - off)"
  by (simp add: span_def)

lemma min_diff_right [simp]: "off + n \<le> m \<Longrightarrow> min n (m - off) = (n :: nat)"
  by simp

lemma length_zeros [simp, buffer_simps]: "length (zeros n) = n"
  by (simp add: zeros_def)

lemma nth_memcpy:
  "i < length dst \<Longrightarrow>
   memcpy dst off src ! i = (if off \<le> i \<and> i < off + length src then src ! (i - off) else dst ! i)"
  by (auto simp: memcpy_def nth_append min_def)

lemma nth_span: "i < n \<Longrightarrow> off + i < length b \<Longrightarrow> span b off n ! i = b ! (off + i)"
  by (simp add: span_def)

lemma span_memcpy_same [buffer_simps]:
  "n = length src \<Longrightarrow> off + n \<le> length dst \<Longrightarrow> span (memcpy dst off src) off n = src"
  by (rule nth_equalityI) (auto simp: nth_span nth_memcpy)

lemma span_memcpy_other [buffer_simps]:
  "o' + n \<le> off \<or> off + length src \<le> o' \<Longrightarrow> span (memcpy dst off src) o' n = span dst o' n"
  by (rule nth_equalityI) (auto simp: nth_span nth_memcpy)

lemma span_zeros [buffer_simps]: "off + n \<le> m \<Longrightarrow> span (zeros m) off n = zeros n"
  by (simp add: span_def zeros_def)

lemma span_full [simp]: "n = length b \<Longrightarrow> span b 0 n = b"
  by (simp add: span_def)

lemma span_span: "o2 + n2 \<le> n1 \<Longrightarrow> span (span b o1 n1) o2 n2 = span b (o1 + o2) n2"
  by (rule nth_equalityI) (auto simp: nth_span add.assoc)

lemma memcpy_span_self: "off + n \<le> length b \<Longrightarrow> memcpy b off (span b off n) = b"
  by (rule nth_equalityI) (auto simp: nth_memcpy nth_span)

lemma memcpy_nil [simp]: "memcpy b off [] = b"
  by (simp add: memcpy_def)

lemma nth_memcpy_outside:
  "i < off \<or> off + length src \<le> i \<Longrightarrow> i < length dst \<Longrightarrow> memcpy dst off src ! i = dst ! i"
  by (auto simp: nth_memcpy)

lemma span_eq_iff:
  "length a = length b \<Longrightarrow>
   span a off n = span b off n \<longleftrightarrow> (\<forall>i. off \<le> i \<and> i < off + n \<and> i < length a \<longrightarrow> a ! i = b ! i)"
proof -
  assume len: "length a = length b"
  have "span a off n = span b off n \<longleftrightarrow>
      (\<forall>i < min n (length a - off). a ! (off + i) = b ! (off + i))"
    using len by (auto simp: list_eq_iff_nth_eq nth_span)
  also have "\<dots> \<longleftrightarrow> (\<forall>i. off \<le> i \<and> i < off + n \<and> i < length a \<longrightarrow> a ! i = b ! i)"
  proof (intro iffI allI impI)
    fix i
    assume h: "\<forall>i < min n (length a - off). a ! (off + i) = b ! (off + i)"
      and i: "off \<le> i \<and> i < off + n \<and> i < length a"
    have "i - off < min n (length a - off)" using i by auto
    with h have "a ! (off + (i - off)) = b ! (off + (i - off))" by blast
    with i show "a ! i = b ! i" by simp
  qed auto
  finally show ?thesis .
qed

text \<open>\<^verbatim>\<open>memset(dst+off, value, n)\<close>.\<close>

definition memset :: "'a list \<Rightarrow> nat \<Rightarrow> 'a \<Rightarrow> nat \<Rightarrow> 'a list" where
  "memset dst off x n = memcpy dst off (replicate n x)"

lemma length_memset [simp, buffer_simps]: "length (memset dst off x n) = length dst"
  by (simp add: memset_def)

text \<open>\<^verbatim>\<open>filled\<close> of \<^verbatim>\<open>journal.c\<close> and \<^verbatim>\<open>allzero\<close> of \<^verbatim>\<open>envelope.c\<close>.\<close>

fun filled :: "u8 list \<Rightarrow> u8 \<Rightarrow> bool" where
  "filled [] v = True"
| "filled (b # bs) v = (if b \<noteq> v then False else filled bs v)"

definition allzero :: "u8 list \<Rightarrow> bool" where
  "allzero bs \<longleftrightarrow> foldl (\<lambda>x b. x OR b) 0 bs = 0"

lemma filled_iff: "filled bs v \<longleftrightarrow> (\<forall>b \<in> set bs. b = v)"
  by (induction bs) auto

lemma filled_replicate [simp]: "filled (replicate n v) v"
  by (simp add: filled_iff)

lemma filled_append [simp]: "filled (xs @ ys) v \<longleftrightarrow> filled xs v \<and> filled ys v"
  by (auto simp: filled_iff)

lemma or_word_eq_0_iff: "(a OR b :: 'a::len word) = 0 \<longleftrightarrow> a = 0 \<and> b = 0"
  by (auto simp: bit_eq_iff bit_simps)

lemma foldl_or_0_iff: "foldl (\<lambda>x b. x OR b) a bs = (0 :: u8) \<longleftrightarrow> a = 0 \<and> filled bs 0"
  by (induction bs arbitrary: a) (auto simp: or_word_eq_0_iff)

lemma allzero_iff: "allzero bs \<longleftrightarrow> filled bs 0"
  by (simp add: allzero_def foldl_or_0_iff)

lemma and_push_bit_1: "(w AND push_bit n 1) \<noteq> 0 \<longleftrightarrow> bit (w :: 'a::len word) n"
proof -
  have "bit (w AND push_bit n 1) k \<longleftrightarrow> k = n \<and> bit w n" for k
    by (auto simp: bit_and_iff bit_exp_iff dest: bit_imp_le_length)
  moreover have "(w AND push_bit n 1) \<noteq> 0 \<longleftrightarrow> (\<exists>k. bit (w AND push_bit n 1) k)"
    by (metis bit_0_eq bit_eqI bot_apply bot_bool_def)
  ultimately show ?thesis by simp
qed

lemma bit_or_push_bit_1: "bit (w OR 2 ^ n :: 'a::len word) k \<longleftrightarrow> bit w k \<or> k = n \<and> n < LENGTH('a)"
  by (auto simp: bit_or_iff bit_exp_iff)

section \<open>Exclusive or of buffers\<close>

definition xor_bytes :: "u8 list \<Rightarrow> u8 list \<Rightarrow> u8 list" where
  "xor_bytes a b = map2 (XOR) a b"

lemma length_xor_bytes [simp]: "length (xor_bytes a b) = min (length a) (length b)"
  by (simp add: xor_bytes_def)

lemma xor_bytes_cancel: "length a \<le> length b \<Longrightarrow> xor_bytes (xor_bytes a b) b = a"
  by (rule nth_equalityI) (auto simp: xor_bytes_def xor.assoc)

lemma xor_bytes_commute: "length a = length b \<Longrightarrow> xor_bytes a b = xor_bytes b a"
  by (rule nth_equalityI) (auto simp: xor_bytes_def xor.commute)

lemma xor_bytes_assoc: "xor_bytes (xor_bytes a b) c = xor_bytes a (xor_bytes b c)"
  by (rule nth_equalityI) (auto simp: xor_bytes_def xor.assoc)

lemma xor_bytes_zeros: "length a = n \<Longrightarrow> xor_bytes (zeros n) a = a"
  by (rule nth_equalityI) (auto simp: xor_bytes_def zeros_def)

lemma xor_bytes_self: "xor_bytes a a = zeros (length a)"
  by (rule nth_equalityI) (auto simp: xor_bytes_def zeros_def)

section \<open>Little-endian fields\<close>

text \<open>\<^verbatim>\<open>put(p,v,n)\<close>: \<open>p[i] = (uint8_t)(v >> (8*i))\<close> for \<open>i < n\<close>, and
  \<^verbatim>\<open>get(p,n)\<close>: \<open>v |= (uint64_t)p[i] << (8*i)\<close> for \<open>i < n\<close>.\<close>

definition le_bytes :: "'a::len word \<Rightarrow> nat \<Rightarrow> u8 list" where
  "le_bytes v n = map (\<lambda>i. ucast (drop_bit (8 * i) v)) [0..<n]"

definition put :: "u8 list \<Rightarrow> nat \<Rightarrow> 'a::len word \<Rightarrow> nat \<Rightarrow> u8 list" where
  "put p off v n = memcpy p off (le_bytes v n)"

fun get_from :: "nat \<Rightarrow> u8 list \<Rightarrow> u64" where
  "get_from i [] = 0"
| "get_from i (b # bs) = push_bit (8 * i) (ucast b) OR get_from (Suc i) bs"

definition get :: "u8 list \<Rightarrow> nat \<Rightarrow> nat \<Rightarrow> u64" where
  "get p off n = get_from 0 (span p off n)"

lemma length_le_bytes [simp, buffer_simps]: "length (le_bytes v n) = n"
  by (simp add: le_bytes_def)

lemma length_put [simp, buffer_simps]: "length (put p off v n) = length p"
  by (simp add: put_def)

lemma span_put_same [buffer_simps]:
  "off + n \<le> length p \<Longrightarrow> span (put p off v n) off n = le_bytes v n"
  by (simp add: put_def span_memcpy_same)

lemma span_put_other [buffer_simps]:
  "o' + m \<le> off \<or> off + n \<le> o' \<Longrightarrow> span (put p off v n) o' m = span p o' m"
  by (simp add: put_def span_memcpy_other)

lemma nth_put_other:
  "i < off \<or> off + n \<le> i \<Longrightarrow> i < length p \<Longrightarrow> put p off v n ! i = p ! i"
  by (simp add: put_def nth_memcpy_outside)

lemma bit_byte_at:
  "bit (push_bit (8 * i) (ucast (b :: u8)) :: u64) k \<longleftrightarrow> k < 64 \<and> k div 8 = i \<and> bit b (k mod 8)"
proof (cases "k div 8 = i")
  case True
  then have "k = 8 * i + k mod 8" by presburger
  then obtain r where r: "k = 8 * i + r" "r < 8" by (metis mod_less_divisor zero_less_numeral)
  then show ?thesis by (auto simp: bit_simps)
next
  case False
  then have "k < 8 * i \<or> 8 \<le> k - 8 * i" by linarith
  with False show ?thesis using bit_imp_le_length [of b "k - 8 * i"] by (auto simp: bit_simps)
qed

lemma bit_get_from:
  "bit (get_from i bs) k \<longleftrightarrow>
     i \<le> k div 8 \<and> k < 64 \<and> k div 8 - i < length bs \<and> bit (bs ! (k div 8 - i)) (k mod 8)"
proof (induction i bs rule: get_from.induct)
  case (1 i)
  then show ?case by simp
next
  case (2 i b bs)
  show ?case
  proof (cases "Suc i \<le> k div 8")
    case True
    then obtain d where "k div 8 - i = Suc d" and "k div 8 - Suc i = d" and "k div 8 \<noteq> i"
      by (metis Suc_diff_Suc Suc_le_eq nat_neq_iff)
    with True show ?thesis by (simp add: bit_or_iff bit_byte_at "2.IH")
  next
    case False
    then show ?thesis by (auto simp: bit_or_iff bit_byte_at "2.IH" not_less_eq_eq)
  qed
qed

lemma nth_le_bytes: "i < n \<Longrightarrow> le_bytes v n ! i = ucast (drop_bit (8 * i) v)"
  by (simp add: le_bytes_def)

lemma bit_nth_le_bytes:
  "i < n \<Longrightarrow> bit (le_bytes v n ! i) k \<longleftrightarrow> k < 8 \<and> bit v (8 * i + k)"
  by (auto simp: nth_le_bytes bit_simps)

lemma get_from_le_bytes:
  "get_from 0 (le_bytes (v :: 'a::len word) n) = take_bit (8 * n) (ucast v)"
proof (rule bit_word_eqI)
  fix k assume k: "k < LENGTH(64)"
  have "k div 8 < n \<longleftrightarrow> k < 8 * n" by linarith
  with k show "bit (get_from 0 (le_bytes v n)) k \<longleftrightarrow> bit (take_bit (8 * n) (ucast v :: u64)) k"
    by (auto simp: bit_get_from bit_nth_le_bytes bit_simps)
qed

lemma get_le_bytes [buffer_simps]:
  "LENGTH('a) \<le> 8 * n \<Longrightarrow> LENGTH('a) \<le> 64 \<Longrightarrow>
   get_from 0 (le_bytes (v :: 'a::len word) n) = ucast v"
  unfolding get_from_le_bytes
  by (rule bit_word_eqI) (auto simp: bit_simps dest: bit_imp_le_length)

lemma ucast_ucast_id_le: "LENGTH('a) \<le> LENGTH('b) \<Longrightarrow> ucast (ucast (v :: 'a::len word) :: 'b::len word) = v"
  by (rule bit_word_eqI) (auto simp: bit_simps)

lemma ucast_u16_u64 [simp]: "ucast (ucast (v :: u16) :: u64) = v"
  by (rule ucast_ucast_id_le) simp

lemma ucast_u32_u64 [simp]: "ucast (ucast (v :: u32) :: u64) = v"
  by (rule ucast_ucast_id_le) simp

lemma ucast_u8_u64 [simp]: "ucast (ucast (v :: u8) :: u64) = v"
  by (rule ucast_ucast_id_le) simp

lemma le_bytes_get:
  "length bs = n \<Longrightarrow> n \<le> 8 \<Longrightarrow> le_bytes (get_from 0 bs) n = bs"
  by (rule nth_equalityI)
    (auto intro!: bit_word_eqI simp: bit_nth_le_bytes bit_get_from)

lemma le_bytes_inject:
  "LENGTH('a) \<le> 8 * n \<Longrightarrow> LENGTH('a) \<le> 64 \<Longrightarrow>
   le_bytes (v :: 'a::len word) n = le_bytes w n \<longleftrightarrow> v = w"
  using get_le_bytes [of n v] get_le_bytes [of n w] ucast_ucast_id_le [where 'b = 64, of v]
    ucast_ucast_id_le [where 'b = 64, of w] by auto

lemma get_put_same [buffer_simps]:
  "off + n \<le> length p \<Longrightarrow> LENGTH('a) \<le> 8 * n \<Longrightarrow> LENGTH('a) \<le> 64 \<Longrightarrow>
   get (put p off (v :: 'a::len word) n) off n = ucast v"
  by (simp add: get_def span_put_same get_le_bytes)

lemma get_put_other [buffer_simps]:
  "o' + m \<le> off \<or> off + n \<le> o' \<Longrightarrow> get (put p off v n) o' m = get p o' m"
  by (simp add: get_def span_put_other)

lemma get_memcpy_other [buffer_simps]:
  "o' + m \<le> off \<or> off + length src \<le> o' \<Longrightarrow> get (memcpy p off src) o' m = get p o' m"
  by (simp add: get_def span_memcpy_other)

section \<open>Domain labels\<close>

text \<open>A \<^verbatim>\<open>static const char label[]="..."\<close> has the terminating zero byte, and
  \<^verbatim>\<open>sizeof(label)\<close> counts it; a magic that is copied by its length has none.\<close>

definition ascii :: "string \<Rightarrow> u8 list" where
  "ascii s = map of_char s"

definition label :: "string \<Rightarrow> u8 list" where
  "label s = ascii s @ [0]"

lemma length_ascii [simp]: "length (ascii s) = length s"
  by (simp add: ascii_def)

lemma length_label [simp]: "length (label s) = Suc (length s)"
  by (simp add: label_def)

section \<open>Constant-time comparison\<close>

text \<open>\<^verbatim>\<open>fv_tag_equal\<close> of \<^verbatim>\<open>hmac.c\<close>: accumulates all 32 differences before it decides.\<close>

definition fv_tag_equal :: "u8 list \<Rightarrow> u8 list \<Rightarrow> bool" where
  "fv_tag_equal a b \<longleftrightarrow>
     foldl (\<lambda>difference i. difference OR (a ! i XOR b ! i)) 0 [0..<32] = 0"

lemma xor_word_eq_0_iff: "(a XOR b :: 'a::len word) = 0 \<longleftrightarrow> a = b"
  by (auto simp: bit_eq_iff bit_simps)

lemma foldl_difference_0_iff:
  "foldl (\<lambda>d i. d OR (a ! i XOR b ! i)) (d :: u8) xs = 0 \<longleftrightarrow> d = 0 \<and> (\<forall>i \<in> set xs. a ! i = b ! i)"
  by (induction xs arbitrary: d) (auto simp: or_word_eq_0_iff xor_word_eq_0_iff)

lemma fv_tag_equal_iff [simp]:
  "length a = 32 \<Longrightarrow> length b = 32 \<Longrightarrow> fv_tag_equal a b \<longleftrightarrow> a = b"
  by (auto simp: fv_tag_equal_def foldl_difference_0_iff list_eq_iff_nth_eq)

lemma fv_tag_equal_refl [simp]: "fv_tag_equal a a"
  unfolding fv_tag_equal_def foldl_difference_0_iff by simp

text \<open>Sectors of a buffer after a copy of whole sectors.\<close>

lemma span_memcpy_block:
  assumes "length bs = n * 512" "(i + n) * 512 \<le> length c"
  shows "span (memcpy c (i * 512) bs) (k * 512) 512 =
    (if i \<le> k \<and> k < i + n then span bs ((k - i) * 512) 512 else span c (k * 512) 512)"
proof (cases "i \<le> k \<and> k < i + n")
  case True
  then obtain m where m: "k = i + m" "m < n" by (metis add_less_cancel_left le_Suc_ex)
  then have "m * 512 + 512 \<le> n * 512" by auto
  with assms m show ?thesis
    by (auto intro!: nth_equalityI simp: nth_span nth_memcpy add_mult_distrib)
next
  case False
  then have "k * 512 + 512 \<le> i * 512 \<or> i * 512 + length bs \<le> k * 512" using assms(1) by auto
  with False show ?thesis by (auto simp: span_memcpy_other)
qed

end
