(* ===== verification/Random_Bytes.thy ===== *)
theory Random_Bytes
  imports Bytes
begin

text \<open>
  The device random source (\<^verbatim>\<open>src/src/shared/security/random.c\<close>): a CTR-DRBG of Mbed TLS, reseeded
  from hardware entropy on every request, behind a continuous health test. The DRBG is a parameter:
  its entry points receive the entropy callback and thread its state. Byte buffers that the code
  zeroizes on failure are absent results here.
\<close>

record 's fv_entropy =
  en_source :: 's
  en_previous :: "u8 list"
  en_blocks :: u32
  en_previous_valid :: bool
  en_failed :: bool

text \<open>\<^verbatim>\<open>fv_entropy_block\<close>: one 192-bit block or a failure.\<close>

type_synonym 's fv_entropy_block = "'s \<Rightarrow> u8 list option \<times> 's"

type_synonym 's entropy_callback = "'s fv_entropy \<Rightarrow> nat \<Rightarrow> u8 list option \<times> 's fv_entropy"

record ('c, 's) drbg_lib =
  drbg_set_nonce_len :: "bool"
  drbg_seed :: "'s entropy_callback \<Rightarrow> 's fv_entropy \<Rightarrow> u8 list \<Rightarrow> 'c option \<times> 's fv_entropy"
  drbg_random :: "'s entropy_callback \<Rightarrow> 'c \<Rightarrow> 's fv_entropy \<Rightarrow> nat \<Rightarrow> (u8 list \<times> 'c) option \<times> 's fv_entropy"
  drbg_max_request :: nat

record ('c, 's) fv_random =
  fr_drbg :: "'c option"
  fr_entropy :: "'s fv_entropy"
  fr_ready :: bool

text \<open>The two accumulators of the block check: no byte set, or no byte different from 255.\<close>

definition block_stuck :: "u8 list \<Rightarrow> bool" where
  "block_stuck block \<longleftrightarrow>
     foldl (\<lambda>any b. any OR b) 0 block = 0 \<or> foldl (\<lambda>not_ff b. not_ff OR (b XOR 255)) 0 block = 0"

function entropy_loop ::
  "'s fv_entropy_block \<Rightarrow> nat \<Rightarrow> u8 list \<Rightarrow> 's fv_entropy \<Rightarrow> u8 list option \<times> 's fv_entropy" where
  "entropy_loop source remaining out e =
     (if remaining = 0 then (Some out, e)
      else if en_failed e then (None, e)
      else case source (en_source e) of
        (None, s) \<Rightarrow> (None, e\<lparr>en_source := s\<rparr>)
      | (Some block, s) \<Rightarrow>
         (let e = e\<lparr>en_source := s\<rparr> in
          if block_stuck block \<or> (en_previous_valid e \<and> en_previous e = block) then (None, e)
          else
            (let e = e\<lparr>en_previous := block, en_previous_valid := True, en_blocks := en_blocks e + 1\<rparr>;
                 n = (if remaining < 24 then remaining else 24)
             in entropy_loop source (remaining - n) (out @ take n block) e)))"
  by pat_completeness auto
termination
  by (relation "measure (\<lambda>(source, remaining, out, e). remaining)") auto

declare entropy_loop.simps [simp del]

definition entropy :: "'s fv_entropy_block \<Rightarrow> 's entropy_callback" where
  "entropy source e n =
     (case entropy_loop source n [] e of
        (None, e) \<Rightarrow> (None, e\<lparr>en_failed := True\<rparr>)
      | (Some out, e) \<Rightarrow> (Some out, e))"

definition fv_random_clear :: "'s \<Rightarrow> ('c, 's) fv_random" where
  "fv_random_clear s = \<lparr>fr_drbg = None,
     fr_entropy = \<lparr>en_source = s, en_previous = zeros 24, en_blocks = 0, en_previous_valid = False, en_failed = False\<rparr>,
     fr_ready = False\<rparr>"

definition forget_block :: "'s fv_entropy \<Rightarrow> 's fv_entropy" where
  "forget_block e = e\<lparr>en_previous := zeros 24, en_previous_valid := False, en_failed := True\<rparr>"

definition fv_random_init :: "('c, 's) drbg_lib \<Rightarrow> 's fv_entropy_block option \<Rightarrow> 's \<Rightarrow> bool \<times> ('c, 's) fv_random" where
  "fv_random_init D source s =
     (let r = fv_random_clear s in
      case source of None \<Rightarrow> (False, r\<lparr>fr_entropy := forget_block (fr_entropy r)\<rparr>)
      | Some source \<Rightarrow>
        if \<not> drbg_set_nonce_len D then (False, r\<lparr>fr_entropy := forget_block (fr_entropy r)\<rparr>)
        else case drbg_seed D (entropy source) (fr_entropy r) (label ''FV2/RP2354/CTR-DRBG/v1'') of
          (None, e) \<Rightarrow> (False, r\<lparr>fr_entropy := forget_block e\<rparr>)
        | (Some c, e) \<Rightarrow> (True, r\<lparr>fr_drbg := Some c, fr_entropy := e, fr_ready := True\<rparr>))"

definition fv_random_generate ::
  "('c, 's) drbg_lib \<Rightarrow> 's fv_entropy_block \<Rightarrow> ('c, 's) fv_random \<Rightarrow> nat \<Rightarrow> u8 list option \<times> ('c, 's) fv_random" where
  "fv_random_generate D source r n =
     (if n = 0 \<or> n > drbg_max_request D then (None, r)
      else if \<not> fr_ready r \<or> en_failed (fr_entropy r) then (None, r)
      else case fr_drbg r of None \<Rightarrow> (None, r)
      | Some c \<Rightarrow>
        (case drbg_random D (entropy source) c (fr_entropy r) n of
           (None, e) \<Rightarrow> (None, r\<lparr>fr_drbg := None, fr_entropy := forget_block e, fr_ready := False\<rparr>)
         | (Some (out, c), e) \<Rightarrow> (Some out, r\<lparr>fr_drbg := Some c, fr_entropy := e\<rparr>)))"

section \<open>The continuous test\<close>

text \<open>A chain of blocks after \<open>prev\<close>: none is stuck and none repeats its predecessor.\<close>

fun fresh_chain :: "u8 list option \<Rightarrow> u8 list list \<Rightarrow> bool" where
  "fresh_chain prev [] = True"
| "fresh_chain prev (b # bs) \<longleftrightarrow> \<not> filled b 0 \<and> \<not> filled b 255 \<and> prev \<noteq> Some b \<and> fresh_chain (Some b) bs"

definition last_block :: "'s fv_entropy \<Rightarrow> u8 list option" where
  "last_block e = (if en_previous_valid e then Some (en_previous e) else None)"

lemma foldl_not_ff: "foldl (\<lambda>x b. x OR (b XOR 255)) a bs = (0 :: u8) \<longleftrightarrow> a = 0 \<and> filled bs 255"
proof (induction bs arbitrary: a)
  case (Cons b bs)
  have "(b XOR 255 = (0 :: u8)) \<longleftrightarrow> b = 255" by (rule xor_word_eq_0_iff)
  then show ?case using Cons by (auto simp: or_word_eq_0_iff)
qed simp

lemma block_stuck_iff: "block_stuck b \<longleftrightarrow> filled b 0 \<or> filled b 255"
  by (simp add: block_stuck_def foldl_or_0_iff foldl_not_ff)

lemma entropy_loop_spec:
  assumes source: "\<And>s b s'. source s = (Some b, s') \<Longrightarrow> length b = 24"
  shows "entropy_loop source n acc e = (Some out, e') \<Longrightarrow>
    \<exists>blocks. out = acc @ take n (concat blocks) \<and> n \<le> length (concat blocks) \<and> length blocks = (n + 23) div 24 \<and>
      (\<forall>b \<in> set blocks. length b = 24) \<and>
      fresh_chain (last_block e) blocks \<and> (blocks \<noteq> [] \<longrightarrow> last_block e' = Some (last blocks))"
proof (induction n arbitrary: acc e rule: less_induct)
  case (less n)
  show ?case
  proof (cases "n = 0")
    case True
    then show ?thesis using less.prems by (intro exI [of _ "[]"]) (simp add: entropy_loop.simps)
  next
    case False
    define m where "m = (if n < 24 then n else 24)"
    obtain block s where src: "source (en_source e) = (Some block, s)"
      and ok: "\<not> block_stuck block" "\<not> (en_previous_valid e \<and> en_previous e = block)"
      and r: "entropy_loop source (n - m) (acc @ take m block)
        (e\<lparr>en_source := s, en_previous := block, en_previous_valid := True, en_blocks := en_blocks e + 1\<rparr>) = (Some out, e')"
      using less.prems False
      by (subst (asm) entropy_loop.simps) (auto simp: m_def Let_def split: if_splits prod.splits option.splits)
    have lb: "length block = 24" using source [OF src] .
    obtain bs where bs: "out = (acc @ take m block) @ take (n - m) (concat bs)" "n - m \<le> length (concat bs)"
      "length bs = (n - m + 23) div 24" "\<forall>b \<in> set bs. length b = 24" "fresh_chain (Some block) bs"
      "bs \<noteq> [] \<longrightarrow> last_block e' = Some (last bs)" "bs = [] \<longrightarrow> n - m = 0"
      using less.IH [OF _ r] False by (fastforce simp: m_def last_block_def)
    have "bs = [] \<longrightarrow> last_block e' = Some block"
      using bs(7) r by (auto simp: entropy_loop.simps last_block_def)
    then show ?thesis
      using bs ok lb False
      by (intro exI [of _ "block # bs"])
        (auto simp: m_def block_stuck_iff last_block_def split: if_splits)
  qed
qed

text \<open>The continuous entropy test: bytes are only delivered to the generator when every hardware
  block behind them passed the test. The output is the concatenation of blocks of 24 bytes, as few as
  the request needs, none of them all zero or all one bits and none equal to the block before it,
  across requests too; any other outcome latches the failure and delivers nothing.\<close>

theorem entropy_continuous_test:
  assumes "\<forall>s b s'. source s = (Some b, s') \<longrightarrow> length b = 24"
    and "entropy source e n = (res, e')"
  shows "case res of
      None \<Rightarrow> en_failed e'
    | Some out \<Rightarrow> \<exists>blocks. out = take n (concat blocks) \<and> length out = n \<and> length blocks = (n + 23) div 24 \<and>
        fresh_chain (last_block e) blocks \<and> (blocks \<noteq> [] \<longrightarrow> last_block e' = Some (last blocks))"
proof (cases res)
  case None
  then show ?thesis using assms(2) by (auto simp: entropy_def split: prod.splits option.splits)
next
  case (Some out)
  then have "entropy_loop source n [] e = (Some out, e')"
    using assms(2) by (auto simp: entropy_def split: prod.splits option.splits)
  from entropy_loop_spec [OF _ this] assms(1) show ?thesis using Some by fastforce
qed

lemma entropy_continuous_test_witness:
  "\<exists>blocks. replicate 24 (1 :: u8) @ replicate 6 2 = take 30 (concat blocks) \<and> fresh_chain None blocks"
proof -
  define source :: "nat fv_entropy_block" where "source = (\<lambda>i. (Some (replicate 24 (of_nat i)), Suc i))"
  define e where "e = \<lparr>en_source = 1 :: nat, en_previous = [], en_blocks = 0, en_previous_valid = False, en_failed = False\<rparr>"
  have "block_stuck (replicate 24 (1 :: u8)) = False" "block_stuck (replicate 24 (2 :: u8)) = False"
    by (simp_all add: block_stuck_iff filled_iff)
  moreover have "replicate 24 (2 :: u8) \<noteq> replicate 24 1" by (simp add: replicate_eq_replicate)
  ultimately have "\<exists>e'. entropy source e 30 = (Some (replicate 24 1 @ replicate 6 2), e')"
    by (simp add: entropy_def entropy_loop.simps source_def e_def Let_def)
  then obtain e' where "entropy source e 30 = (Some (replicate 24 1 @ replicate 6 2), e')" ..
  moreover have "\<forall>s b s'. source s = (Some b, s') \<longrightarrow> length b = 24" by (auto simp: source_def)
  ultimately show ?thesis
    using entropy_continuous_test [of source e 30 "Some (replicate 24 1 @ replicate 6 2)" e']
    by (auto simp: last_block_def e_def)
qed

definition random_dead :: "('c, 's) fv_random \<Rightarrow> bool" where
  "random_dead r \<longleftrightarrow> \<not> fr_ready r \<or> en_failed (fr_entropy r) \<or> fr_drbg r = None"

lemma generate_dead: "random_dead r \<Longrightarrow> fv_random_generate D src r n = (None, r)"
  by (auto simp: random_dead_def fv_random_generate_def)

lemma init_failed_dead: "fv_random_init D source s = (False, r) \<Longrightarrow> random_dead r"
  by (auto simp: fv_random_init_def fv_random_clear_def random_dead_def Let_def
      split: if_splits option.splits prod.splits)

lemma generate_failed_dead:
  assumes "fv_random_generate D src r0 n0 = (None, r)" "0 < n0" "n0 \<le> drbg_max_request D"
  shows "random_dead r"
proof (cases "random_dead r0")
  case True
  then show ?thesis using assms(1) generate_dead [of r0] by simp
next
  case False
  then obtain c where "fr_drbg r0 = Some c" by (auto simp: random_dead_def)
  with False assms show ?thesis
    by (cases "drbg_random D (entropy src) c (fr_entropy r0) n0" rule: prod.exhaust)
      (auto simp: fv_random_generate_def random_dead_def split: option.splits)
qed

text \<open>Failures of the random source are final: a failed initialization or request leaves the object
  unable to produce anything, and every later request of any length is refused until it is initialized anew.\<close>

theorem random_failure_latched:
  "(fv_random_init D source s = (False, r) \<longrightarrow> fv_random_generate D src r n = (None, r)) \<and>
   (fv_random_generate D src r0 n0 = (None, r) \<longrightarrow> 0 < n0 \<longrightarrow> n0 \<le> drbg_max_request D \<longrightarrow>
      fv_random_generate D src r n = (None, r))"
  by (intro conjI impI; rule generate_dead) (erule init_failed_dead, erule (2) generate_failed_dead)

definition test_drbg :: "(unit, unit) drbg_lib" where
  "test_drbg = \<lparr>drbg_set_nonce_len = True, drbg_seed = (\<lambda>_ e _. (Some (), e)),
     drbg_random = (\<lambda>_ c e n. (Some (replicate n 1, c), e)), drbg_max_request = 1024\<rparr>"

lemma random_failure_latched_witness:
  "fst (fv_random_init test_drbg None ()) = False \<and>
   fv_random_generate test_drbg (\<lambda>s. (None, s)) (snd (fv_random_init test_drbg None ())) 16 =
     (None, snd (fv_random_init test_drbg None ()))"
proof -
  have "fst (fv_random_init test_drbg None ()) = False" by (simp add: fv_random_init_def Let_def)
  moreover from this have "fv_random_init test_drbg None () = (False, snd (fv_random_init test_drbg None ()))"
    by (metis prod.collapse)
  ultimately show ?thesis using random_failure_latched [of test_drbg None "()" _ "\<lambda>s. (None, s)" 16] by blast
qed

end
