(* ===== verification/Session_Timer.thy ===== *)
theory Session_Timer
  imports Bytes
begin

text \<open>
  The inactivity timer of an unlocked session (\<^verbatim>\<open>src/src/shared/security/session_timer.c\<close>): a
  deadline in milliseconds at 64 bits, saturating instead of wrapping. The property is the timer's
  contract: activity only ever extends the deadline, expiry cannot be undone, and the remaining time
  shown never exceeds the configured timeout.
\<close>

record fv_session_timer =
  timeout_seconds :: u32
  deadline_ms :: u64

definition deadline :: "u32 \<Rightarrow> u64 \<Rightarrow> u64" where
  "deadline seconds now_ms =
     (let duration_ms = ucast seconds * 1000 :: u64
      in if duration_ms > 0xffffffffffffffff - now_ms then 0xffffffffffffffff else now_ms + duration_ms)"

definition fv_session_timer_start :: "u32 \<Rightarrow> u64 \<Rightarrow> fv_session_timer" where
  "fv_session_timer_start seconds now_ms =
     \<lparr>timeout_seconds = seconds, deadline_ms = (if seconds \<noteq> 0 then deadline seconds now_ms else 0)\<rparr>"

definition fv_session_timer_stop :: fv_session_timer where
  "fv_session_timer_stop = \<lparr>timeout_seconds = 0, deadline_ms = 0\<rparr>"

definition fv_session_timer_expired :: "fv_session_timer \<Rightarrow> u64 \<Rightarrow> bool" where
  "fv_session_timer_expired t now_ms \<longleftrightarrow> timeout_seconds t \<noteq> 0 \<and> now_ms \<ge> deadline_ms t"

definition fv_session_timer_touch :: "fv_session_timer \<Rightarrow> u64 \<Rightarrow> bool \<times> fv_session_timer" where
  "fv_session_timer_touch t now_ms =
     (if timeout_seconds t = 0 \<or> fv_session_timer_expired t now_ms then (False, t)
      else let next = deadline (timeout_seconds t) now_ms
           in (True, if next > deadline_ms t then t\<lparr>deadline_ms := next\<rparr> else t))"

definition fv_session_timer_remaining :: "fv_session_timer \<Rightarrow> u64 \<Rightarrow> u32" where
  "fv_session_timer_remaining t now_ms =
     (if timeout_seconds t = 0 \<or> fv_session_timer_expired t now_ms then 0
      else
        (let milliseconds = deadline_ms t - now_ms;
             seconds = milliseconds div 1000 + (if milliseconds mod 1000 \<noteq> 0 then 1 else 0)
         in if seconds > ucast (timeout_seconds t) then timeout_seconds t else ucast seconds))"

section \<open>Arithmetic of the deadline\<close>

lemma unat_duration: "unat (ucast (s :: u32) * 1000 :: u64) = unat s * 1000"
proof -
  have "unat s < 2 ^ 32" using unsigned_less [of s, where 'a = nat] by simp
  then show ?thesis by (simp add: unat_word_ariths unsigned_ucast_eq take_bit_eq_mod)
qed

lemma unat_deadline: "unat (deadline s now) = min (unat now + unat s * 1000) (2 ^ 64 - 1)"
proof -
  have c: "unat (0xffffffffffffffff - now) = 2 ^ 64 - 1 - unat now"
    using unsigned_less [of now, where 'a = nat] by (subst unat_sub) (simp_all add: word_le_nat_alt)
  have b: "unat now < 2 ^ 64" using unsigned_less [of now, where 'a = nat] by simp
  show ?thesis
  proof (cases "(ucast s * 1000 :: u64) > 0xffffffffffffffff - now")
    case True
    then have "unat s * 1000 > 2 ^ 64 - 1 - unat now" by (simp add: word_less_nat_alt c unat_duration)
    then show ?thesis using True by (simp add: deadline_def)
  next
    case False
    then have "unat now + unat s * 1000 \<le> 2 ^ 64 - 1"
      using b by (simp add: word_less_nat_alt c unat_duration not_less)
    then show ?thesis using False by (simp add: deadline_def unat_word_ariths(1) unat_duration)
  qed
qed

lemma remaining_bound: "fv_session_timer_remaining t now \<le> timeout_seconds t"
proof -
  have "ucast s \<le> timeout_seconds t" if "\<not> (s :: u64) > ucast (timeout_seconds t)" for s
  proof -
    have "unat s \<le> unat (timeout_seconds t)"
      using that by (simp add: not_less word_le_nat_alt unsigned_ucast_eq take_bit_eq_mod)
    moreover have "unat (timeout_seconds t) < 2 ^ 32" using unsigned_less [of "timeout_seconds t", where 'a = nat] by simp
    ultimately show ?thesis by (simp add: word_le_nat_alt unsigned_ucast_eq take_bit_eq_mod)
  qed
  then show ?thesis by (simp add: fv_session_timer_remaining_def Let_def)
qed

text \<open>The inactivity timer: a timer started with a timeout expires exactly when the clock reaches
  the start plus the timeout (saturated at the end of the 64-bit range); activity before that instant
  moves the deadline forward to the activity plus the timeout and never backwards, even with delayed
  timestamps; after expiry activity is refused and changes nothing; the remaining time is zero exactly
  when no time is left and never more than the timeout.\<close>

theorem session_timer_contract:
  "(seconds \<noteq> 0 \<longrightarrow>
     (fv_session_timer_expired (fv_session_timer_start seconds now) later \<longleftrightarrow>
      min (unat now + unat seconds * 1000) (2 ^ 64 - 1) \<le> unat later)) \<and>
   (case fv_session_timer_touch t now of
      (ok, t') \<Rightarrow> ok = (timeout_seconds t \<noteq> 0 \<and> unat now < unat (deadline_ms t)) \<and>
        timeout_seconds t' = timeout_seconds t \<and>
        unat (deadline_ms t') =
          (if ok then max (unat (deadline_ms t)) (min (unat now + unat (timeout_seconds t) * 1000) (2 ^ 64 - 1))
           else unat (deadline_ms t))) \<and>
   fv_session_timer_remaining t now \<le> timeout_seconds t \<and> \<not> fv_session_timer_expired fv_session_timer_stop now"
  using remaining_bound [of t now]
  by (auto simp: fv_session_timer_expired_def fv_session_timer_start_def fv_session_timer_touch_def
      fv_session_timer_stop_def unat_deadline Let_def word_le_nat_alt word_less_nat_alt not_le split: prod.splits)

lemma session_timer_contract_witness:
  "fv_session_timer_expired (fv_session_timer_start 60 5000) 65000 \<and>
   \<not> fv_session_timer_expired (fv_session_timer_start 60 5000) 64999"
  using session_timer_contract [of 60 5000 65000] session_timer_contract [of 60 5000 64999] by simp

end
