(* ===== verification/Cipher.thy ===== *)
theory Cipher
  imports Twofish
begin

text \<open>
  The sector cipher of Fuse Vault: the block cipher backends
  (\<^verbatim>\<open>src/src/shared/crypto/backends\<close>), XTS over one 512-byte sector
  (\<^verbatim>\<open>cipher.c\<close>).
  AES, Camellia and ARIA come from Mbed TLS and SM4 from GmSSL; their key schedules and block
  functions are the parameter \<open>cipher_lib\<close>, whose schedules are opaque byte strings. Every cipher
  backend promises the contract of the locale \<open>block_cipher\<close>.
\<close>

definition FV_SECTOR_BYTES :: nat where "FV_SECTOR_BYTES = 512"
definition FV_XTS_KEY_BYTES :: nat where "FV_XTS_KEY_BYTES = 64"
definition FV_MAX_LAYERS :: nat where "FV_MAX_LAYERS = 4"

lemmas sector_defs [simp] = FV_SECTOR_BYTES_def FV_XTS_KEY_BYTES_def FV_MAX_LAYERS_def

datatype fv_status = FV_OK | FV_INVALID | FV_CRYPTO_ERROR

text \<open>An algorithm number can come from outside, so the enum stays an integer with named values.\<close>

type_synonym fv_algorithm = u32

definition FV_AES_256_XTS :: fv_algorithm where "FV_AES_256_XTS = 1"
definition FV_CAMELLIA_256_XTS :: fv_algorithm where "FV_CAMELLIA_256_XTS = 2"
definition FV_SM4_128_XTS :: fv_algorithm where "FV_SM4_128_XTS = 3"
definition FV_ARIA_256_XTS :: fv_algorithm where "FV_ARIA_256_XTS = 4"
definition FV_TWOFISH_256_XTS :: fv_algorithm where "FV_TWOFISH_256_XTS = 5"

lemmas algorithm_defs = FV_AES_256_XTS_def FV_CAMELLIA_256_XTS_def FV_SM4_128_XTS_def
  FV_ARIA_256_XTS_def FV_TWOFISH_256_XTS_def

section \<open>Backends\<close>

text \<open>\<open>None\<close> is a non-zero return code of the library. SM4 and Twofish cannot fail.\<close>

record cipher_lib =
  aes_setkey_enc :: "u8 list \<Rightarrow> u8 list option"
  aes_setkey_dec :: "u8 list \<Rightarrow> u8 list option"
  aes_crypt_ecb :: "u8 list \<Rightarrow> bool \<Rightarrow> u8 list \<Rightarrow> u8 list option"
  camellia_setkey_enc :: "u8 list \<Rightarrow> u8 list option"
  camellia_setkey_dec :: "u8 list \<Rightarrow> u8 list option"
  camellia_crypt_ecb :: "u8 list \<Rightarrow> bool \<Rightarrow> u8 list \<Rightarrow> u8 list option"
  aria_setkey_enc :: "u8 list \<Rightarrow> u8 list option"
  aria_setkey_dec :: "u8 list \<Rightarrow> u8 list option"
  aria_crypt_ecb :: "u8 list \<Rightarrow> u8 list \<Rightarrow> u8 list option"
  sm4_set_encrypt_key :: "u8 list \<Rightarrow> u8 list"
  sm4_set_decrypt_key :: "u8 list \<Rightarrow> u8 list"
  sm4_encrypt :: "u8 list \<Rightarrow> u8 list \<Rightarrow> u8 list"

text \<open>The union \<^verbatim>\<open>fv_key_context\<close>; \<open>Key_Cleared\<close> is the zeroized storage. A backend is only
  called on the member its own \<^verbatim>\<open>init\<close> wrote; the model gives \<open>None\<close> on any other.\<close>

datatype fv_key_context =
    Key_Cleared
  | Key_Aes "u8 list" "u8 list" "u8 list"
  | Key_Camellia "u8 list" "u8 list" "u8 list"
  | Key_Sm4 "u8 list" "u8 list" "u8 list"
  | Key_Aria "u8 list" "u8 list" "u8 list"
  | Key_Twofish fv_twofish_ctx fv_twofish_ctx

record fv_cipher_ops =
  ops_name :: string
  ops_init :: "u8 list \<Rightarrow> fv_key_context option"
  ops_block :: "fv_key_context \<Rightarrow> bool \<Rightarrow> bool \<Rightarrow> u8 list \<Rightarrow> u8 list option"

text \<open>The three Mbed TLS \<^verbatim>\<open>init\<close> functions have one shape: three schedules from the two
  256-bit key halves, failing as soon as one fails.\<close>

definition aes_init :: "cipher_lib \<Rightarrow> u8 list \<Rightarrow> fv_key_context option" where
  "aes_init L k =
     (case aes_setkey_enc L (span k 0 32) of None \<Rightarrow> None | Some enc \<Rightarrow>
      case aes_setkey_dec L (span k 0 32) of None \<Rightarrow> None | Some dec \<Rightarrow>
      case aes_setkey_enc L (span k 32 32) of None \<Rightarrow> None | Some tweak \<Rightarrow>
        Some (Key_Aes enc dec tweak))"

fun aes_block :: "cipher_lib \<Rightarrow> fv_key_context \<Rightarrow> bool \<Rightarrow> bool \<Rightarrow> u8 list \<Rightarrow> u8 list option" where
  "aes_block L (Key_Aes e d t) enc tweak inp =
     aes_crypt_ecb L (if tweak then t else if enc then e else d) enc inp"
| "aes_block L _ enc tweak inp = None"

definition cam_init :: "cipher_lib \<Rightarrow> u8 list \<Rightarrow> fv_key_context option" where
  "cam_init L k =
     (case camellia_setkey_enc L (span k 0 32) of None \<Rightarrow> None | Some enc \<Rightarrow>
      case camellia_setkey_dec L (span k 0 32) of None \<Rightarrow> None | Some dec \<Rightarrow>
      case camellia_setkey_enc L (span k 32 32) of None \<Rightarrow> None | Some tweak \<Rightarrow>
        Some (Key_Camellia enc dec tweak))"

fun cam_block :: "cipher_lib \<Rightarrow> fv_key_context \<Rightarrow> bool \<Rightarrow> bool \<Rightarrow> u8 list \<Rightarrow> u8 list option" where
  "cam_block L (Key_Camellia e d t) enc tweak inp =
     camellia_crypt_ecb L (if tweak then t else if enc then e else d) enc inp"
| "cam_block L _ enc tweak inp = None"

definition aria_init :: "cipher_lib \<Rightarrow> u8 list \<Rightarrow> fv_key_context option" where
  "aria_init L k =
     (case aria_setkey_enc L (span k 0 32) of None \<Rightarrow> None | Some enc \<Rightarrow>
      case aria_setkey_dec L (span k 0 32) of None \<Rightarrow> None | Some dec \<Rightarrow>
      case aria_setkey_enc L (span k 32 32) of None \<Rightarrow> None | Some tweak \<Rightarrow>
        Some (Key_Aria enc dec tweak))"

fun aria_block :: "cipher_lib \<Rightarrow> fv_key_context \<Rightarrow> bool \<Rightarrow> bool \<Rightarrow> u8 list \<Rightarrow> u8 list option" where
  "aria_block L (Key_Aria e d t) enc tweak inp =
     aria_crypt_ecb L (if tweak then t else if enc then e else d) inp"
| "aria_block L _ enc tweak inp = None"

definition sm4_init :: "cipher_lib \<Rightarrow> u8 list \<Rightarrow> fv_key_context option" where
  "sm4_init L k =
     Some (Key_Sm4 (sm4_set_encrypt_key L (span k 0 16)) (sm4_set_decrypt_key L (span k 0 16))
             (sm4_set_encrypt_key L (span k 16 16)))"

fun sm4_block :: "cipher_lib \<Rightarrow> fv_key_context \<Rightarrow> bool \<Rightarrow> bool \<Rightarrow> u8 list \<Rightarrow> u8 list option" where
  "sm4_block L (Key_Sm4 e d t) enc tweak inp =
     Some (sm4_encrypt L (if tweak then t else if enc then e else d) inp)"
| "sm4_block L _ enc tweak inp = None"

definition twofish_init :: "u8 list \<Rightarrow> fv_key_context option" where
  "twofish_init k =
     Some (Key_Twofish (fv_twofish_setkey (span k 0 32)) (fv_twofish_setkey (span k 32 32)))"

fun twofish_block :: "fv_key_context \<Rightarrow> bool \<Rightarrow> bool \<Rightarrow> u8 list \<Rightarrow> u8 list option" where
  "twofish_block (Key_Twofish data tw) enc tweak inp =
     Some (if tweak then fv_twofish_encrypt tw inp
           else if enc then fv_twofish_encrypt data inp
           else fv_twofish_decrypt data inp)"
| "twofish_block _ enc tweak inp = None"

definition fv_aes_ops :: "cipher_lib \<Rightarrow> fv_cipher_ops" where
  "fv_aes_ops L = \<lparr>ops_name = ''AES-256-XTS'', ops_init = aes_init L, ops_block = aes_block L\<rparr>"

definition fv_camellia_ops :: "cipher_lib \<Rightarrow> fv_cipher_ops" where
  "fv_camellia_ops L =
     \<lparr>ops_name = ''Camellia-256-XTS'', ops_init = cam_init L, ops_block = cam_block L\<rparr>"

definition fv_aria_ops :: "cipher_lib \<Rightarrow> fv_cipher_ops" where
  "fv_aria_ops L = \<lparr>ops_name = ''ARIA-256-XTS'', ops_init = aria_init L, ops_block = aria_block L\<rparr>"

definition fv_sm4_ops :: "cipher_lib \<Rightarrow> fv_cipher_ops" where
  "fv_sm4_ops L = \<lparr>ops_name = ''SM4-128-XTS'', ops_init = sm4_init L, ops_block = sm4_block L\<rparr>"

definition fv_twofish_ops :: fv_cipher_ops where
  "fv_twofish_ops =
     \<lparr>ops_name = ''Twofish-256-XTS'', ops_init = twofish_init, ops_block = twofish_block\<rparr>"

section \<open>A cipher object\<close>

record fv_cipher =
  c_ops :: "fv_cipher_ops option"
  c_key :: fv_key_context

definition fv_cipher_clear :: fv_cipher where
  "fv_cipher_clear = \<lparr>c_ops = None, c_key = Key_Cleared\<rparr>"

definition fv_cipher_name :: "fv_cipher \<Rightarrow> string" where
  "fv_cipher_name c = (case c_ops c of Some o' \<Rightarrow> ops_name o' | None \<Rightarrow> ''uninitialized'')"

definition fv_cipher_key_bytes :: "fv_algorithm \<Rightarrow> nat" where
  "fv_cipher_key_bytes a =
     (if a = FV_AES_256_XTS \<or> a = FV_CAMELLIA_256_XTS \<or> a = FV_ARIA_256_XTS \<or> a = FV_TWOFISH_256_XTS
      then 64 else if a = FV_SM4_128_XTS then 32 else 0)"

definition cipher_ops_of :: "cipher_lib \<Rightarrow> fv_algorithm \<Rightarrow> fv_cipher_ops option" where
  "cipher_ops_of L a =
     (if a = FV_AES_256_XTS then Some (fv_aes_ops L)
      else if a = FV_CAMELLIA_256_XTS then Some (fv_camellia_ops L)
      else if a = FV_SM4_128_XTS then Some (fv_sm4_ops L)
      else if a = FV_ARIA_256_XTS then Some (fv_aria_ops L)
      else if a = FV_TWOFISH_256_XTS then Some fv_twofish_ops
      else None)"

text \<open>\<open>k = []\<close> stands for the null pointer. The object is cleared first, so its old value has no
  influence.\<close>

definition fv_cipher_init ::
    "cipher_lib \<Rightarrow> fv_algorithm \<Rightarrow> u8 list \<Rightarrow> nat \<Rightarrow> fv_cipher \<times> fv_status" where
  "fv_cipher_init L a k n =
     (let bytes = fv_cipher_key_bytes a in
      if k = [] \<or> bytes = 0 \<or> n \<noteq> bytes \<or> span k 0 (bytes div 2) = span k (bytes div 2) (bytes div 2)
      then (fv_cipher_clear, FV_INVALID)
      else case cipher_ops_of L a of None \<Rightarrow> (fv_cipher_clear, FV_INVALID)
        | Some o' \<Rightarrow>
          (case ops_init o' k of None \<Rightarrow> (fv_cipher_clear, FV_CRYPTO_ERROR)
           | Some key \<Rightarrow> (\<lparr>c_ops = Some o', c_key = key\<rparr>, FV_OK)))"

section \<open>XTS over a sector\<close>

text \<open>The doubling loop: \<open>carry\<close> runs from byte 0 to byte 15, and the last one is folded back.\<close>

fun shift_left_carry :: "u8 list \<Rightarrow> u8 \<Rightarrow> u8 list \<times> u8" where
  "shift_left_carry [] carry = ([], carry)"
| "shift_left_carry (t # ts) carry =
     (let next = drop_bit 7 t;
          (rest, c) = shift_left_carry ts next
      in ((push_bit 1 t OR carry) # rest, c))"

definition tweak_double :: "u8 list \<Rightarrow> u8 list" where
  "tweak_double tweak =
     (let (t, carry) = shift_left_carry tweak 0
      in t[0 := t ! 0 XOR (0x87 AND (0 - carry))])"

text \<open>The sector loop. A buffer is given with its address: with \<open>same\<close> the input is the output
  buffer itself, so a block is read from what the loop has written so far. An error of the block
  function leaves the blocks written before it.\<close>

fun crypt_blocks ::
    "fv_cipher_ops \<Rightarrow> fv_key_context \<Rightarrow> bool \<Rightarrow> bool \<Rightarrow> u8 list \<Rightarrow> nat list \<Rightarrow> u8 list \<Rightarrow> u8 list
     \<Rightarrow> fv_status \<times> u8 list" where
  "crypt_blocks o' k enc same inp [] tweak out = (FV_OK, out)"
| "crypt_blocks o' k enc same inp (i # is) tweak out =
     (let offset = 16 * i;
          src = (if same then out else inp);
          block = xor_bytes (span src offset 16) tweak
      in case ops_block o' k enc False block of
           None \<Rightarrow> (FV_CRYPTO_ERROR, out)
         | Some block \<Rightarrow>
             crypt_blocks o' k enc same inp is (tweak_double tweak)
               (memcpy out offset (xor_bytes block tweak)))"

definition addresses_ok :: "nat \<Rightarrow> nat \<Rightarrow> bool" where
  "addresses_ok x y \<longleftrightarrow> \<not> (x \<noteq> y \<and> (if x > y then x - y else y - x) < FV_SECTOR_BYTES)"

definition crypt ::
    "fv_cipher \<Rightarrow> u64 \<Rightarrow> nat \<times> u8 list \<Rightarrow> nat \<times> u8 list \<Rightarrow> bool \<Rightarrow> fv_status \<times> u8 list" where
  "crypt c lba = (\<lambda>(x, inp) (y, out) enc.
     case c_ops c of None \<Rightarrow> (FV_INVALID, out)
     | Some o' \<Rightarrow>
       if \<not> addresses_ok x y then (FV_INVALID, out)
       else (case ops_block o' (c_key c) True True (put (zeros 16) 0 lba 8) of
               None \<Rightarrow> (FV_CRYPTO_ERROR, out)
             | Some tweak \<Rightarrow> crypt_blocks o' (c_key c) enc (x = y) inp [0..<32] tweak out))"

definition fv_cipher_encrypt where "fv_cipher_encrypt c l i o' = crypt c l i o' True"
definition fv_cipher_decrypt where "fv_cipher_decrypt c l i o' = crypt c l i o' False"

section \<open>The contract of a block cipher\<close>

locale block_cipher =
  fixes init :: "u8 list \<Rightarrow> fv_key_context option"
    and block :: "fv_key_context \<Rightarrow> bool \<Rightarrow> bool \<Rightarrow> u8 list \<Rightarrow> u8 list option"
  assumes block_length: "init k = Some c \<Longrightarrow> length b = 16 \<Longrightarrow> block c enc tw b = Some e \<Longrightarrow> length e = 16"
    and block_inverse: "init k = Some c \<Longrightarrow> length b = 16 \<Longrightarrow> block c True False b = Some e \<Longrightarrow>
      block c False False e = Some b"

interpretation twofish_cipher: block_cipher twofish_init twofish_block
  by unfold_locales (auto simp: twofish_init_def twofish_decrypt_encrypt split: if_splits)

text \<open>What Mbed TLS and GmSSL document about their ciphers: a block is sixteen bytes, and the
  decryption schedule of a key undoes its encryption schedule.\<close>

definition schedule_law ::
    "(u8 list \<Rightarrow> u8 list option) \<Rightarrow> (u8 list \<Rightarrow> u8 list option) \<Rightarrow>
     (u8 list \<Rightarrow> bool \<Rightarrow> u8 list \<Rightarrow> u8 list option) \<Rightarrow> bool" where
  "schedule_law setenc setdec ecb \<longleftrightarrow>
     (\<forall>s enc b e. length b = 16 \<longrightarrow> ecb s enc b = Some e \<longrightarrow> length e = 16) \<and>
     (\<forall>k s d b e. setenc k = Some s \<longrightarrow> setdec k = Some d \<longrightarrow> length b = 16 \<longrightarrow>
        ecb s True b = Some e \<longrightarrow> ecb d False e = Some b)"

definition cipher_law :: "cipher_lib \<Rightarrow> bool" where
  "cipher_law L \<longleftrightarrow>
     schedule_law (aes_setkey_enc L) (aes_setkey_dec L) (aes_crypt_ecb L) \<and>
     schedule_law (camellia_setkey_enc L) (camellia_setkey_dec L) (camellia_crypt_ecb L) \<and>
     schedule_law (aria_setkey_enc L) (aria_setkey_dec L) (\<lambda>s _. aria_crypt_ecb L s) \<and>
     schedule_law (\<lambda>k. Some (sm4_set_encrypt_key L k)) (\<lambda>k. Some (sm4_set_decrypt_key L k))
       (\<lambda>s _ b. Some (sm4_encrypt L s b))"

lemma schedule_lawD:
  "schedule_law se sd ecb \<Longrightarrow> length b = 16 \<Longrightarrow> ecb s enc b = Some e \<Longrightarrow> length e = 16"
  "schedule_law se sd ecb \<Longrightarrow> se k = Some s \<Longrightarrow> sd k = Some d \<Longrightarrow> length b = 16 \<Longrightarrow>
     ecb s True b = Some e \<Longrightarrow> ecb d False e = Some b"
  unfolding schedule_law_def by blast+

lemma aes_block_cipher:
  assumes "cipher_law L"
  shows "block_cipher (aes_init L) (aes_block L)"
proof -
  have s: "schedule_law (aes_setkey_enc L) (aes_setkey_dec L) (aes_crypt_ecb L)"
    using assms by (simp add: cipher_law_def)
  show ?thesis
    by unfold_locales (auto simp: aes_init_def intro: schedule_lawD(1) [OF s] schedule_lawD(2) [OF s]
        split: option.splits)
qed

lemma cam_block_cipher:
  assumes "cipher_law L"
  shows "block_cipher (cam_init L) (cam_block L)"
proof -
  have s: "schedule_law (camellia_setkey_enc L) (camellia_setkey_dec L) (camellia_crypt_ecb L)"
    using assms by (simp add: cipher_law_def)
  show ?thesis
    by unfold_locales (auto simp: cam_init_def intro: schedule_lawD(1) [OF s] schedule_lawD(2) [OF s]
        split: option.splits)
qed

lemma aria_block_cipher:
  assumes "cipher_law L"
  shows "block_cipher (aria_init L) (aria_block L)"
proof -
  have s: "schedule_law (aria_setkey_enc L) (aria_setkey_dec L) (\<lambda>s _. aria_crypt_ecb L s)"
    using assms by (simp add: cipher_law_def)
  show ?thesis
    by unfold_locales (auto simp: aria_init_def intro: schedule_lawD(1) [OF s] schedule_lawD(2) [OF s]
        split: option.splits)
qed

lemma sm4_block_cipher:
  assumes "cipher_law L"
  shows "block_cipher (sm4_init L) (sm4_block L)"
proof -
  have s: "schedule_law (\<lambda>k. Some (sm4_set_encrypt_key L k)) (\<lambda>k. Some (sm4_set_decrypt_key L k))
      (\<lambda>s _ b. Some (sm4_encrypt L s b))"
    using assms by (simp add: cipher_law_def)
  have l: "length (sm4_encrypt L x b) = 16" if "length b = 16" for x b
    using schedule_lawD(1) [OF s that] by blast
  have i: "sm4_encrypt L (sm4_set_decrypt_key L k) (sm4_encrypt L (sm4_set_encrypt_key L k) b) = b"
    if "length b = 16" for k b
    using schedule_lawD(2) [OF s refl refl that refl] by simp
  show ?thesis
    by unfold_locales (auto simp: sm4_init_def l i)
qed

lemma ops_of_block_cipher:
  "cipher_law L \<Longrightarrow> cipher_ops_of L a = Some o' \<Longrightarrow> block_cipher (ops_init o') (ops_block o')"
  by (auto simp: cipher_ops_of_def fv_aes_ops_def fv_camellia_ops_def fv_aria_ops_def fv_sm4_ops_def
      fv_twofish_ops_def aes_block_cipher cam_block_cipher aria_block_cipher sm4_block_cipher
      twofish_cipher.block_cipher_axioms split: if_splits)

section \<open>XTS decryption inverts XTS encryption\<close>

lemma length_shift_left_carry [simp]: "length (fst (shift_left_carry t c)) = length t"
  by (induction t c rule: shift_left_carry.induct) (auto split: prod.splits)

lemma length_tweak_double [simp]: "length (tweak_double t) = length t"
  using length_shift_left_carry [of t 0]
  by (cases "shift_left_carry t 0") (simp add: tweak_double_def)

text \<open>The doubling loop read as arithmetic on 128-bit little-endian numbers: multiplication by \<open>x\<close> in
  GF(2^128) with the polynomial \<open>x^128 + x^7 + x^2 + x + 1\<close>.\<close>

definition tweak_value :: "u8 list \<Rightarrow> 128 word" where
  "tweak_value t = foldr (\<lambda>b v. ucast b OR push_bit 8 v) t 0"

definition gf128_double :: "128 word \<Rightarrow> 128 word" where
  "gf128_double v = push_bit 1 v XOR (if bit v 127 then 0x87 else 0)"

lemma bit_times_2: "bit (b * 2 :: 'a::len word) k \<longleftrightarrow> 0 < k \<and> k < LENGTH('a) \<and> bit b (k - 1)"
proof -
  have "b * 2 = push_bit 1 b" by (simp add: push_bit_eq_mult)
  then show ?thesis by (simp only: bit_push_bit_iff) (auto simp: bit_push_bit_iff Suc_le_eq)
qed

lemma top_bit: "drop_bit 7 (b :: u8) = of_bool (bit b 7)"
proof (rule bit_word_eqI)
  fix n
  show "bit (drop_bit 7 b) n \<longleftrightarrow> bit (of_bool (bit b 7) :: u8) n"
    using bit_imp_le_length [of b "7 + n"] by (cases n) (auto simp: bit_simps)
qed

lemma bit_tweak_value:
  "bit (tweak_value t) k \<longleftrightarrow> k < 128 \<and> k div 8 < length t \<and> bit (t ! (k div 8)) (k mod 8)"
proof (induction t arbitrary: k)
  case (Cons b t)
  show ?case
  proof (cases "k < 8")
    case True
    then show ?thesis by (auto simp: tweak_value_def bit_simps)
  next
    case False
    then obtain m where "k = 8 + m" using le_Suc_ex not_less by blast
    moreover have "(8 + m) div 8 = Suc (m div 8)" by simp
    ultimately show ?thesis using Cons.IH [of m] bit_imp_le_length [of b "8 + m"]
      by (auto simp: tweak_value_def bit_simps)
  qed
qed (simp add: tweak_value_def)

lemma shift_left_carry_bits:
  "carry \<in> {0, 1} \<Longrightarrow> k < 8 * length t \<Longrightarrow>
   bit (fst (shift_left_carry t carry) ! (k div 8)) (k mod 8) \<longleftrightarrow>
   (if k = 0 then carry = 1 else bit (t ! ((k - 1) div 8)) ((k - 1) mod 8))"
proof (induction t arbitrary: carry k)
  case (Cons b t)
  have c7: "drop_bit 7 b \<in> {0, 1}" by (simp add: top_bit)
  have f: "fst (shift_left_carry (b # t) carry) =
      (push_bit 1 b OR carry) # fst (shift_left_carry t (drop_bit 7 b))"
    by (simp add: Let_def split: prod.splits)
  show ?case
  proof (cases "k < 8")
    case True
    then have "fst (shift_left_carry (b # t) carry) ! (k div 8) = push_bit 1 b OR carry"
      by (simp only: f div_less nth_Cons_0)
    moreover have "bit carry k \<longleftrightarrow> k = 0 \<and> carry = 1" using Cons.prems(1) by (auto simp: bit_simps)
    ultimately show ?thesis using True
      by (cases k) (auto simp: bit_or_iff bit_times_2 simp del: shift_left_carry.simps)
  next
    case False
    then obtain m where m: "k = 8 + m" using le_Suc_ex not_less by blast
    have d: "(8 + x) div 8 = Suc (x div 8)" "(8 + x) mod 8 = x mod 8" for x :: nat by simp_all
    have "bit (fst (shift_left_carry (b # t) carry) ! (k div 8)) (k mod 8) \<longleftrightarrow>
        bit (fst (shift_left_carry t (drop_bit 7 b)) ! (m div 8)) (m mod 8)"
      by (simp only: f m d nth_Cons_Suc)
    also have "\<dots> \<longleftrightarrow> (if m = 0 then drop_bit 7 b = 1 else bit (t ! ((m - 1) div 8)) ((m - 1) mod 8))"
      using Cons.prems m by (intro Cons.IH [OF c7]) simp
    also have "\<dots> \<longleftrightarrow> bit ((b # t) ! ((k - 1) div 8)) ((k - 1) mod 8)"
    proof (cases m)
      case 0
      then show ?thesis by (simp add: m top_bit)
    next
      case (Suc j)
      then have "k - 1 = 8 + j" by (simp add: m)
      with Suc show ?thesis by (simp only: d nth_Cons_Suc) simp
    qed
    finally show ?thesis by (simp add: m)
  qed
qed simp

lemma shift_left_carry_out:
  "snd (shift_left_carry t carry) = (if t = [] then carry else drop_bit 7 (last t))"
  by (induction t carry rule: shift_left_carry.induct) (auto simp: Let_def split: prod.splits)

text \<open>C32. The byte-wise tweak update of the XTS loop, with its running carry and its masked
  feedback byte, multiplies the 128-bit tweak by \<open>x\<close> in GF(2^128).\<close>

theorem tweak_double_is_gf128:
  assumes "length tweak = 16"
  shows "length (tweak_double tweak) = 16 \<and> tweak_value (tweak_double tweak) = gf128_double (tweak_value tweak)"
proof
  show "length (tweak_double tweak) = 16" using assms by simp
  obtain t c where s: "shift_left_carry tweak 0 = (t, c)" by (cases "shift_left_carry tweak 0")
  have t: "t = fst (shift_left_carry tweak 0)" and c: "c = drop_bit 7 (tweak ! 15)"
    using s shift_left_carry_out [of tweak 0] assms by (auto simp: last_conv_nth)
  have lt: "length t = 16" using length_shift_left_carry [of tweak 0] assms s by simp
  have top: "bit (tweak_value tweak) 127 \<longleftrightarrow> bit (tweak ! 15) 7" using assms by (simp add: bit_tweak_value)
  have c': "c = of_bool (bit (tweak_value tweak) 127)"
    unfolding c top by (rule top_bit)
  have mask: "(0x87 AND - c) = (if bit (tweak_value tweak) 127 then 0x87 else (0 :: u8))"
    unfolding c' by simp
  have low: "bit (0x87 :: 128 word) k \<longleftrightarrow> k < 8 \<and> bit (0x87 :: u8) k" for k
  proof -
    have "(0x87 :: 128 word) = ucast (0x87 :: u8)" by simp
    then show ?thesis by (simp only: bit_ucast_iff) (auto dest: bit_imp_le_length)
  qed
  show "tweak_value (tweak_double tweak) = gf128_double (tweak_value tweak)"
  proof (rule bit_word_eqI)
    fix k assume k: "k < LENGTH(128)"
    have b: "bit (t ! (k div 8)) (k mod 8) \<longleftrightarrow> k \<noteq> 0 \<and> bit (tweak_value tweak) (k - 1)"
      using shift_left_carry_bits [of 0 k tweak] k assms by (auto simp: t bit_tweak_value)
    have "bit (tweak_value (tweak_double tweak)) k \<longleftrightarrow>
        bit (t ! (k div 8)) (k mod 8) \<noteq> (k < 8 \<and> bit (tweak_value tweak) 127 \<and> bit (0x87 :: u8) k)"
      using k lt by (auto simp: tweak_double_def s bit_tweak_value mask bit_xor_iff nth_list_update)
    moreover have "bit (gf128_double (tweak_value tweak)) k \<longleftrightarrow>
        (k \<noteq> 0 \<and> bit (tweak_value tweak) (k - 1)) \<noteq>
        (bit (tweak_value tweak) 127 \<and> bit (0x87 :: 128 word) k)"
      using k by (auto simp: gf128_double_def bit_xor_iff bit_times_2)
    ultimately show "bit (tweak_value (tweak_double tweak)) k \<longleftrightarrow> bit (gf128_double (tweak_value tweak)) k"
      using b low [of k] by blast
  qed
qed

lemma tweak_double_is_gf128_witness:
  "tweak_value (tweak_double (zeros 15 @ [0x80])) = gf128_double (tweak_value (zeros 15 @ [0x80]))"
  using tweak_double_is_gf128 [of "zeros 15 @ [0x80]"] by simp

lemma span_block_other: "(i :: nat) \<noteq> j \<Longrightarrow> length b = 16 \<Longrightarrow>
    span (memcpy out (16 * i) b) (16 * j) 16 = span out (16 * j) 16"
  by (rule span_memcpy_other) auto

lemma crypt_blocks_length [simp]:
  "length (snd (crypt_blocks o' k enc same inp is tw out)) = length out"
  by (induction o' k enc same inp "is" tw out rule: crypt_blocks.induct)
    (auto simp: Let_def split: option.splits)

definition copy_blocks :: "u8 list \<Rightarrow> nat list \<Rightarrow> u8 list \<Rightarrow> u8 list" where
  "copy_blocks inp is out = fold (\<lambda>i out. memcpy out (16 * i) (span inp (16 * i) 16)) is out"

lemma copy_blocks_all:
  assumes "length out = 16 * n" "length inp = 16 * n"
  shows "copy_blocks inp [0..<n] out = inp"
proof -
  have "copy_blocks inp [0..<m] out = memcpy out 0 (take (16 * m) inp)" if "m \<le> n" for m
    using that
  proof (induction m)
    case (Suc m)
    then have "copy_blocks inp [0..<m] out = memcpy out 0 (take (16 * m) inp)" by simp
    then show ?case using Suc.prems assms
      by (auto intro!: nth_equalityI simp: copy_blocks_def nth_memcpy nth_span)
  qed (simp add: copy_blocks_def)
  from this [of n] show ?thesis using assms by (simp add: memcpy_def)
qed

lemma crypt_blocks_same:
  assumes len: "\<And>b e. length b = 16 \<Longrightarrow> ops_block o' k enc False b = Some e \<Longrightarrow> length e = 16"
  shows "distinct is \<Longrightarrow> length tw = 16 \<Longrightarrow> \<forall>i \<in> set is. 16 * i + 16 \<le> length inp \<Longrightarrow>
    \<forall>i \<in> set is. span out (16 * i) 16 = span inp (16 * i) 16 \<Longrightarrow>
    crypt_blocks o' k enc True any is tw out = crypt_blocks o' k enc False inp is tw out"
proof (induction "is" arbitrary: tw out)
  case (Cons i "is")
  show ?case
  proof (cases "ops_block o' k enc False (xor_bytes (span inp (16 * i) 16) tw)")
    case None
    with Cons.prems show ?thesis by simp
  next
    case (Some e)
    with Cons.prems have le: "length e = 16" by (intro len [OF _ Some]) simp
    have ne: "j \<in> set is \<Longrightarrow> i \<noteq> j" for j using Cons.prems by auto
    then have "crypt_blocks o' k enc True any is (tweak_double tw) (memcpy out (16 * i) (xor_bytes e tw)) =
        crypt_blocks o' k enc False inp is (tweak_double tw) (memcpy out (16 * i) (xor_bytes e tw))"
      using Cons.prems le by (intro Cons.IH) (auto simp: span_block_other [OF ne])
    with Some Cons.prems show ?thesis by simp
  qed
qed simp

context block_cipher
begin

lemma decrypt_blocks:
  assumes "init ky = Some k"
  shows "distinct is \<Longrightarrow> length tw = 16 \<Longrightarrow> length out = length inp \<Longrightarrow>
    \<forall>i \<in> set is. 16 * i + 16 \<le> length inp \<Longrightarrow>
    crypt_blocks \<lparr>ops_name = nm, ops_init = init, ops_block = block\<rparr> k True False inp is tw out = (FV_OK, out') \<Longrightarrow>
    (\<forall>j. j \<notin> set is \<longrightarrow> span out' (16 * j) 16 = span out (16 * j) 16) \<and>
    ((\<forall>i \<in> set is. span c (16 * i) 16 = span out' (16 * i) 16) \<longrightarrow>
     crypt_blocks \<lparr>ops_name = nm, ops_init = init, ops_block = block\<rparr> k False False c is tw out2 =
       (FV_OK, copy_blocks inp is out2))"
proof (induction "is" arbitrary: tw out out2)
  case Nil
  then show ?case by (simp add: copy_blocks_def)
next
  case (Cons i "is")
  let ?x = "xor_bytes (span inp (16 * i) 16) tw"
  have lx: "length ?x = 16" using Cons.prems by simp
  obtain e where e: "block k True False ?x = Some e"
    and run: "crypt_blocks \<lparr>ops_name = nm, ops_init = init, ops_block = block\<rparr> k True False inp is
      (tweak_double tw) (memcpy out (16 * i) (xor_bytes e tw)) = (FV_OK, out')"
    using Cons.prems by (auto simp: Let_def split: option.splits)
  have le: "length e = 16" by (rule block_length [OF assms lx e])
  note IH = Cons.IH [OF _ _ _ _ run]
  have others: "\<forall>j. j \<notin> set is \<longrightarrow> span out' (16 * j) 16 =
      span (memcpy out (16 * i) (xor_bytes e tw)) (16 * j) 16"
    using IH Cons.prems by simp
  have here: "span out' (16 * i) 16 = xor_bytes e tw"
    using others Cons.prems le by (simp add: span_memcpy_same)
  have inv: "block k False False e = Some ?x" by (rule block_inverse [OF assms lx e])
  have undo: "xor_bytes ?x tw = span inp (16 * i) 16" "xor_bytes (xor_bytes e tw) tw = e"
    using Cons.prems le by (auto intro!: xor_bytes_cancel)
  show ?case
  proof (intro conjI impI allI)
    fix j assume "j \<notin> set (i # is)"
    then show "span out' (16 * j) 16 = span out (16 * j) 16"
      using others le Cons.prems by (simp add: span_block_other)
  next
    assume c: "\<forall>i \<in> set (i # is). span c (16 * i) 16 = span out' (16 * i) 16"
    have "crypt_blocks \<lparr>ops_name = nm, ops_init = init, ops_block = block\<rparr> k False False c is
        (tweak_double tw) (memcpy out2 (16 * i) (span inp (16 * i) 16)) =
        (FV_OK, copy_blocks inp is (memcpy out2 (16 * i) (span inp (16 * i) 16)))"
      using IH [THEN conjunct2] c Cons.prems by simp
    with c show "crypt_blocks \<lparr>ops_name = nm, ops_init = init, ops_block = block\<rparr> k False False c (i # is) tw out2 =
        (FV_OK, copy_blocks inp (i # is) out2)"
      by (simp add: Let_def here undo inv copy_blocks_def)
  qed
qed

text \<open>One sector: whatever buffers the two calls use, the second call gives the plaintext back.\<close>

lemma crypt_inverse:
  assumes k: "init ky = Some k"
    and c: "c = \<lparr>c_ops = Some \<lparr>ops_name = nm, ops_init = init, ops_block = block\<rparr>, c_key = k\<rparr>"
    and lens: "length inp = 512" "length out = 512" "length out2 = 512"
    and inplace: "x = y \<Longrightarrow> out = inp" "x2 = y2 \<Longrightarrow> out2 = ct"
    and enc: "crypt c lba (x, inp) (y, out) True = (FV_OK, ct)"
    and ok: "addresses_ok x2 y2"
  shows "crypt c lba (x2, ct) (y2, out2) False = (FV_OK, inp)"
proof -
  let ?o = "\<lparr>ops_name = nm, ops_init = init, ops_block = block\<rparr>"
  obtain tw where tw: "block k True True (put (zeros 16) 0 lba 8) = Some tw"
    and run: "crypt_blocks ?o k True (x = y) inp [0..<32] tw out = (FV_OK, ct)"
    using enc by (auto simp: crypt_def c split: option.splits if_splits)
  have ltw: "length tw = 16" by (rule block_length [OF k _ tw]) simp
  have bl: "length e = 16" if "length b = 16" "ops_block ?o k en False b = Some e" for b e en
    using block_length [OF k that(1)] that(2) by simp
  have run': "crypt_blocks ?o k True False inp [0..<32] tw out = (FV_OK, ct)"
  proof (cases "x = y")
    case True
    have "crypt_blocks ?o k True True inp [0..<32] tw inp = crypt_blocks ?o k True False inp [0..<32] tw inp"
      by (rule crypt_blocks_same) (use bl ltw lens in auto)
    with True run inplace show ?thesis by simp
  qed (use run in simp)
  have lct: "length ct = 512"
    using crypt_blocks_length [of ?o k True False inp "[0..<32]" tw out] run' lens by simp
  have "crypt_blocks ?o k False False ct [0..<32] tw out2 = (FV_OK, copy_blocks inp [0..<32] out2)"
    using decrypt_blocks [OF k _ ltw _ _ run'] lens by simp
  then have dec: "crypt_blocks ?o k False False ct [0..<32] tw out2 = (FV_OK, inp)"
    using copy_blocks_all [of out2 32 inp] lens by simp
  have "crypt_blocks ?o k False (x2 = y2) ct [0..<32] tw out2 = (FV_OK, inp)"
  proof (cases "x2 = y2")
    case True
    have "crypt_blocks ?o k False True ct [0..<32] tw ct = crypt_blocks ?o k False False ct [0..<32] tw ct"
      by (rule crypt_blocks_same) (use bl ltw lct in auto)
    with True dec inplace show ?thesis by simp
  qed (use dec in simp)
  with tw ok show ?thesis by (simp add: crypt_def c)
qed

end

end
