(* ===== verification/Key_Wrap.thy ===== *)
theory Key_Wrap
  imports Cipher
begin

text \<open>
  RFC 3394 key wrapping: \<^verbatim>\<open>src/src/shared/security/key_wrap.c\<close>, which selects one of the five
  block ciphers, over the loops of \<^verbatim>\<open>src/third_party/nettle_keywrap/keywrap.c\<close>. The block callback
  of the code records a library error in a sticky flag and yields zeros; it is the state \<open>e\<close> of the
  loops. The loops run for a fixed number of rounds.
\<close>

section \<open>The wrapping loops\<close>

text \<open>\<^verbatim>\<open>bswap64_if_le(t)\<close> as the eight bytes it has in memory.\<close>

definition be64 :: "nat \<Rightarrow> u8 list" where
  "be64 t = rev (le_bytes (of_nat t :: u64) 8)"

lemma length_be64 [simp]: "length (be64 t) = 8"
  by (simp add: be64_def)

type_synonym block_callback = "bool \<Rightarrow> u8 list \<Rightarrow> bool \<times> u8 list"
type_synonym wrap_state = "bool \<times> u8 list \<times> u8 list"

definition wrap_step :: "block_callback \<Rightarrow> nat \<Rightarrow> nat \<times> nat \<Rightarrow> wrap_state \<Rightarrow> wrap_state" where
  "wrap_step encrypt n = (\<lambda>(j, i) (e, A, R).
     let (e, B) = encrypt e (A @ span R (i * 8) 8)
     in (e, xor_bytes (take 8 B) (be64 (n * j + (i + 1))), memcpy R (i * 8) (drop 8 B)))"

definition unwrap_step :: "block_callback \<Rightarrow> nat \<Rightarrow> nat \<times> nat \<Rightarrow> wrap_state \<Rightarrow> wrap_state" where
  "unwrap_step decrypt n = (\<lambda>(j, i) (e, A, R).
     let (e, B) = decrypt e (xor_bytes A (be64 (n * j + (i + 1))) @ span R (i * 8) 8)
     in (e, take 8 B, memcpy R (i * 8) (drop 8 B)))"

text \<open>\<^verbatim>\<open>for (j = 0; j < 6; j++) for (i = 0; i < n; i++)\<close>; unwrapping runs it backwards.\<close>

definition wrap_rounds :: "nat \<Rightarrow> (nat \<times> nat) list" where
  "wrap_rounds n = concat (map (\<lambda>j. map (\<lambda>i. (j, i)) [0..<n]) [0..<6])"

definition fv_nettle_keywrap16 :: "block_callback \<Rightarrow> u8 list \<Rightarrow> u8 list \<Rightarrow> bool \<times> u8 list" where
  "fv_nettle_keywrap16 encrypt iv cleartext =
     (let n = length cleartext div 8;
          (e, A, R) = fold (wrap_step encrypt n) (wrap_rounds n) (False, iv, cleartext)
      in (e, A @ R))"

definition fv_nettle_keyunwrap16 :: "block_callback \<Rightarrow> u8 list \<Rightarrow> nat \<Rightarrow> u8 list \<Rightarrow> bool \<times> bool \<times> u8 list" where
  "fv_nettle_keyunwrap16 decrypt iv cleartext_length ciphertext =
     (let n = cleartext_length div 8;
          (e, A, R) = fold (unwrap_step decrypt n) (rev (wrap_rounds n))
            (False, span ciphertext 0 8, span ciphertext 8 cleartext_length)
      in (e, A = iv, R))"

section \<open>Share wrapping\<close>

text \<open>The union in \<^verbatim>\<open>block_context\<close>, with the member its \<open>id\<close> selects.\<close>

datatype block_context =
    Wrap_Aes "u8 list"
  | Wrap_Camellia "u8 list"
  | Wrap_Sm4 "u8 list"
  | Wrap_Aria "u8 list"
  | Wrap_Twofish fv_twofish_ctx

definition wrap_setup :: "cipher_lib \<Rightarrow> u16 \<Rightarrow> u8 list \<Rightarrow> bool \<Rightarrow> block_context option" where
  "wrap_setup L ident k decrypt =
     (if ident = 1 then map_option Wrap_Aes ((if decrypt then aes_setkey_dec L else aes_setkey_enc L) k)
      else if ident = 5 then Some (Wrap_Twofish (fv_twofish_setkey k))
      else if ident = 4 then map_option Wrap_Aria ((if decrypt then aria_setkey_dec L else aria_setkey_enc L) k)
      else if ident = 3
      then Some (Wrap_Sm4 ((if decrypt then sm4_set_decrypt_key L else sm4_set_encrypt_key L) (span k 0 16)))
      else map_option Wrap_Camellia ((if decrypt then camellia_setkey_dec L else camellia_setkey_enc L) k))"

fun wrap_block :: "cipher_lib \<Rightarrow> block_context \<Rightarrow> bool \<Rightarrow> u8 list \<Rightarrow> u8 list option" where
  "wrap_block L (Wrap_Aes s) decrypt inp = aes_crypt_ecb L s (\<not> decrypt) inp"
| "wrap_block L (Wrap_Twofish t) decrypt inp =
     Some (if decrypt then fv_twofish_decrypt t inp else fv_twofish_encrypt t inp)"
| "wrap_block L (Wrap_Aria s) decrypt inp = aria_crypt_ecb L s inp"
| "wrap_block L (Wrap_Sm4 s) decrypt inp = Some (sm4_encrypt L s inp)"
| "wrap_block L (Wrap_Camellia s) decrypt inp = camellia_crypt_ecb L s (\<not> decrypt) inp"

text \<open>The callback \<^verbatim>\<open>crypt\<close>; once an error is recorded no block function runs.\<close>

definition wrap_crypt :: "cipher_lib \<Rightarrow> block_context \<Rightarrow> bool \<Rightarrow> block_callback" where
  "wrap_crypt L c decrypt e inp =
     (if length inp = 16 \<and> \<not> e
      then (case wrap_block L c decrypt inp of None \<Rightarrow> (True, zeros 16) | Some out \<Rightarrow> (False, out))
      else (True, zeros (length inp)))"

definition wrap_iv :: "u8 list" where "wrap_iv = replicate 8 0xa6"

definition wrap_run :: "cipher_lib \<Rightarrow> u16 \<Rightarrow> u8 list \<Rightarrow> u8 list \<Rightarrow> bool \<Rightarrow> u8 list option" where
  "wrap_run L ident k inp decrypt =
     (if ident \<noteq> 1 \<and> ident \<noteq> 2 \<and> ident \<noteq> 3 \<and> ident \<noteq> 4 \<and> ident \<noteq> 5 then None
      else case wrap_setup L ident k decrypt of None \<Rightarrow> None
      | Some c \<Rightarrow>
        if decrypt
        then (let (e, valid, out) = fv_nettle_keyunwrap16 (wrap_crypt L c True) wrap_iv 32 inp
              in if \<not> valid then None else if e then None else Some out)
        else (let (e, out) = fv_nettle_keywrap16 (wrap_crypt L c False) wrap_iv inp
              in if e then None else Some out))"

definition fv_share_wrap :: "cipher_lib \<Rightarrow> u16 \<Rightarrow> u8 list \<Rightarrow> u8 list \<Rightarrow> u8 list option" where
  "fv_share_wrap L ident k inp = wrap_run L ident k inp False"

definition fv_share_unwrap :: "cipher_lib \<Rightarrow> u16 \<Rightarrow> u8 list \<Rightarrow> u8 list \<Rightarrow> u8 list option" where
  "fv_share_unwrap L ident k inp = wrap_run L ident k inp True"

section \<open>Unwrapping inverts wrapping\<close>

text \<open>What the loops rely on: a callback that reports no error has produced a block that the other
  callback takes back, and an error is never forgotten.\<close>

definition callback_inverse :: "block_callback \<Rightarrow> block_callback \<Rightarrow> bool" where
  "callback_inverse f g \<longleftrightarrow>
     (\<forall>I. fst (f True I)) \<and>
     (\<forall>I B. length I = 16 \<longrightarrow> f False I = (False, B) \<longrightarrow> length B = 16 \<and> g False B = (False, I))"

lemma wrap_fold_sticky:
  "callback_inverse f g \<Longrightarrow> fst (fold (wrap_step f n) xs (True, A, R))"
proof (induction xs arbitrary: A R)
  case (Cons x xs)
  have "fst (wrap_step f n x (True, A, R))"
    using Cons.prems by (auto simp: wrap_step_def Let_def callback_inverse_def split: prod.splits)
      (metis fst_conv)
  then obtain A1 R1 where "wrap_step f n x (True, A, R) = (True, A1, R1)"
    by (cases "wrap_step f n x (True, A, R)") auto
  then show ?case using Cons by simp
qed simp

lemma unwrap_wrap_step:
  assumes inv: "callback_inverse f g" and w: "wrap_step f n (j, i) (e, A, R) = (False, A', R')"
    and len: "length A = 8" "i * 8 + 8 \<le> length R"
  shows "\<not> e \<and> length A' = 8 \<and> length R' = length R \<and> unwrap_step g n (j, i) (False, A', R') = (False, A, R)"
proof -
  obtain B where f: "f e (A @ span R (i * 8) 8) = (False, B)"
    and A': "A' = xor_bytes (take 8 B) (be64 (n * j + (i + 1)))" and R': "R' = memcpy R (i * 8) (drop 8 B)"
    using w by (auto simp: wrap_step_def Let_def split: prod.splits)
  have l: "length (A @ span R (i * 8) 8) = 16" using len by simp
  have e: "\<not> e"
  proof
    assume e
    moreover have "fst (f True (A @ span R (i * 8) 8))" using inv by (simp add: callback_inverse_def)
    ultimately show False using f by simp
  qed
  then have f': "f False (A @ span R (i * 8) 8) = (False, B)" using f by simp
  have B: "length B = 16" "g False B = (False, A @ span R (i * 8) 8)"
    using inv l f' unfolding callback_inverse_def by blast+
  have "xor_bytes A' (be64 (n * j + (i + 1))) = take 8 B"
    unfolding A' by (rule xor_bytes_cancel) (simp add: B)
  moreover have "span R' (i * 8) 8 = drop 8 B" using len B by (simp add: R' span_memcpy_same)
  moreover have "memcpy R' (i * 8) (span R (i * 8) 8) = R"
    using len B by (intro nth_equalityI) (auto simp: R' nth_memcpy nth_span)
  ultimately show ?thesis using e B A' R' len by (simp add: unwrap_step_def)
qed

lemma unwrap_wrap_fold:
  assumes inv: "callback_inverse f g"
  shows "fold (wrap_step f n) xs (e, A, R) = (False, A', R') \<Longrightarrow> length A = 8 \<Longrightarrow>
     (\<And>j i. (j, i) \<in> set xs \<Longrightarrow> i * 8 + 8 \<le> length R) \<Longrightarrow>
     \<not> e \<and> length A' = 8 \<and> length R' = length R \<and> fold (unwrap_step g n) (rev xs) (False, A', R') = (False, A, R)"
proof (induction xs arbitrary: e A R)
  case (Cons x xs)
  obtain j i where x: "x = (j, i)" by (cases x)
  obtain e1 A1 R1 where s: "wrap_step f n (j, i) (e, A, R) = (e1, A1, R1)" by (cases "wrap_step f n (j, i) (e, A, R)")
  have rest: "fold (wrap_step f n) xs (e1, A1, R1) = (False, A', R')" using Cons.prems(1) x s by simp
  have l1: "length R1 = length R" using s by (auto simp: wrap_step_def Let_def split: prod.splits)
  have xi: "i * 8 + 8 \<le> length R" by (rule Cons.prems(3) [of j]) (simp add: x)
  have "\<not> e1" using wrap_fold_sticky [OF inv, of n xs A1 R1] rest by (cases e1) auto
  with s have s': "wrap_step f n (j, i) (e, A, R) = (False, A1, R1)" by simp
  note st = unwrap_wrap_step [OF inv s' Cons.prems(2) xi]
  have "\<not> e1 \<and> length A' = 8 \<and> length R' = length R1 \<and>
      fold (unwrap_step g n) (rev xs) (False, A', R') = (False, A1, R1)"
    by (rule Cons.IH [OF rest]) (use st Cons.prems(3) l1 in auto)
  then show ?case using st x by simp
qed simp

lemma wrap_rounds_bound: "(j, i) \<in> set (wrap_rounds n) \<Longrightarrow> i < n"
  by (auto simp: wrap_rounds_def)

lemma keyunwrap_keywrap:
  assumes "callback_inverse f g" "fv_nettle_keywrap16 f iv clear = (False, c)"
    and "length iv = 8" "length clear = 8 * n"
  shows "length c = 8 * n + 8 \<and> fv_nettle_keyunwrap16 g iv (8 * n) c = (False, True, clear)"
proof -
  obtain A R where w: "fold (wrap_step f n) (wrap_rounds n) (False, iv, clear) = (False, A, R)" and c: "c = A @ R"
    using assms(2,4) by (auto simp: fv_nettle_keywrap16_def Let_def split: prod.splits)
  have "length A = 8 \<and> length R = length clear \<and>
      fold (unwrap_step g n) (rev (wrap_rounds n)) (False, A, R) = (False, iv, clear)"
    using unwrap_wrap_fold [OF assms(1) w assms(3)] wrap_rounds_bound [of _ _ n] assms(4) by fastforce
  then show ?thesis
    using c assms(4) by (simp add: fv_nettle_keyunwrap16_def Let_def span_def)
qed

lemma wrap_block_inverse:
  assumes law: "cipher_law L" and s: "wrap_setup L ident k False = Some c" "wrap_setup L ident k True = Some d"
    and b: "length b = 16" "wrap_block L c False b = Some e"
  shows "length e = 16 \<and> wrap_block L d True e = Some b"
proof -
  have l: "schedule_law (aes_setkey_enc L) (aes_setkey_dec L) (aes_crypt_ecb L)"
     "schedule_law (camellia_setkey_enc L) (camellia_setkey_dec L) (camellia_crypt_ecb L)"
     "schedule_law (aria_setkey_enc L) (aria_setkey_dec L) (\<lambda>s _. aria_crypt_ecb L s)"
     "schedule_law (\<lambda>k. Some (sm4_set_encrypt_key L k)) (\<lambda>k. Some (sm4_set_decrypt_key L k))
       (\<lambda>s _ b. Some (sm4_encrypt L s b))"
    using law by (simp_all add: cipher_law_def)
  have sm4: "length (sm4_encrypt L x b) = 16"
    "sm4_encrypt L (sm4_set_decrypt_key L y) (sm4_encrypt L (sm4_set_encrypt_key L y) b) = b" for x y
    using schedule_lawD(1) [OF l(4) b(1) refl] schedule_lawD(2) [OF l(4) refl refl b(1) refl] by simp_all
  show ?thesis
  proof (cases c)
    case (Wrap_Aes x)
    with s b show ?thesis
      using schedule_lawD(1) [OF l(1) b(1)] schedule_lawD(2) [OF l(1) _ _ b(1)]
      by (auto simp: wrap_setup_def split: if_splits)
  next
    case (Wrap_Camellia x)
    with s b show ?thesis
      using schedule_lawD(1) [OF l(2) b(1)] schedule_lawD(2) [OF l(2) _ _ b(1)]
      by (auto simp: wrap_setup_def split: if_splits)
  next
    case (Wrap_Aria x)
    with s b show ?thesis
      using schedule_lawD(1) [OF l(3) b(1)] schedule_lawD(2) [OF l(3) _ _ b(1)]
      by (auto simp: wrap_setup_def split: if_splits)
  next
    case (Wrap_Sm4 x)
    with s b show ?thesis using sm4 by (auto simp: wrap_setup_def split: if_splits)
  next
    case (Wrap_Twofish x)
    with s b show ?thesis by (auto simp: wrap_setup_def twofish_decrypt_encrypt split: if_splits)
  qed
qed

lemma wrap_crypt_inverse:
  assumes "cipher_law L" "wrap_setup L ident k False = Some c" "wrap_setup L ident k True = Some d"
  shows "callback_inverse (wrap_crypt L c False) (wrap_crypt L d True)"
  using wrap_block_inverse [OF assms]
  by (auto simp: callback_inverse_def wrap_crypt_def split: option.splits if_splits)

definition unwrap_ready :: "cipher_lib \<Rightarrow> bool" where
  "unwrap_ready L \<longleftrightarrow> (\<forall>ident k. length k = 32 \<longrightarrow> wrap_setup L ident k True \<noteq> None)"

lemma share_unwrap_wrap:
  assumes "cipher_law L" "unwrap_ready L" "length k = 32" "length s = 32" "fv_share_wrap L ident k s = Some w"
  shows "length w = 40 \<and> fv_share_unwrap L ident k w = Some s"
proof -
  obtain c where c: "wrap_setup L ident k False = Some c"
    "fv_nettle_keywrap16 (wrap_crypt L c False) wrap_iv s = (False, w)"
    and i: "ident = 1 \<or> ident = 2 \<or> ident = 3 \<or> ident = 4 \<or> ident = 5"
    using assms(5) by (auto simp: fv_share_wrap_def wrap_run_def split: if_splits option.splits prod.splits)
  obtain d where d: "wrap_setup L ident k True = Some d"
    using assms(2,3) unfolding unwrap_ready_def by blast
  have "length w = 40 \<and> fv_nettle_keyunwrap16 (wrap_crypt L d True) wrap_iv 32 w = (False, True, s)"
    using keyunwrap_keywrap [OF wrap_crypt_inverse [OF assms(1) c(1) d] c(2), of 4] assms(4)
    by (simp add: wrap_iv_def)
  then show ?thesis using d i by (auto simp: fv_share_unwrap_def wrap_run_def)
qed

section \<open>Wrapping does not fail\<close>

definition callback_total :: "block_callback \<Rightarrow> bool" where
  "callback_total f \<longleftrightarrow> (\<forall>I. length I = 16 \<longrightarrow> (\<exists>B. f False I = (False, B) \<and> length B = 16))"

lemma wrap_fold_total:
  assumes "callback_total f"
  shows "length A = 8 \<Longrightarrow> (\<And>j i. (j, i) \<in> set xs \<Longrightarrow> i * 8 + 8 \<le> length R) \<Longrightarrow>
    \<not> fst (fold (wrap_step f n) xs (False, A, R))"
proof (induction xs arbitrary: A R)
  case (Cons x xs)
  obtain j i where x: "x = (j, i)" by (cases x)
  have "i * 8 + 8 \<le> length R" by (rule Cons.prems(2) [of j]) (simp add: x)
  then have "length (A @ span R (i * 8) 8) = 16" using Cons.prems(1) by simp
  then obtain B where B: "f False (A @ span R (i * 8) 8) = (False, B)" "length B = 16"
    using assms unfolding callback_total_def by blast
  have "\<not> fst (fold (wrap_step f n) xs (False, xor_bytes (take 8 B) (be64 (n * j + (i + 1))), memcpy R (i * 8) (drop 8 B)))"
    by (rule Cons.IH) (use B Cons.prems(2) in auto)
  then show ?case using B by (simp add: x wrap_step_def)
qed simp

lemma share_wrap_total:
  assumes "ident \<in> {1, 2, 3, 4, 5}" "wrap_setup L ident k False = Some c" "callback_total (wrap_crypt L c False)" "length s = 32"
  shows "\<exists>w. fv_share_wrap L ident k s = Some w"
proof -
  have "\<not> fst (fold (wrap_step (wrap_crypt L c False) 4) (wrap_rounds 4) (False, wrap_iv, s))"
    by (rule wrap_fold_total [OF assms(3)]) (use assms(4) wrap_rounds_bound [of _ _ 4] in \<open>fastforce simp: wrap_iv_def\<close>)+
  then obtain A R where "fold (wrap_step (wrap_crypt L c False) 4) (wrap_rounds 4) (False, wrap_iv, s) = (False, A, R)"
    by (cases "fold (wrap_step (wrap_crypt L c False) 4) (wrap_rounds 4) (False, wrap_iv, s)") auto
  then show ?thesis using assms by (auto simp: fv_share_wrap_def wrap_run_def fv_nettle_keywrap16_def)
qed

lemma twofish_share_wrap_total: "length s = 32 \<Longrightarrow> \<exists>w. fv_share_wrap L 5 k s = Some w"
  by (rule share_wrap_total [where c = "Wrap_Twofish (fv_twofish_setkey k)"])
    (simp_all add: wrap_setup_def callback_total_def wrap_crypt_def)

end
