(* ===== verification/Hash.thy ===== *)
theory Hash
  imports Bytes
begin

text \<open>
  HMAC-SHA-256 with prepared pads (\<^verbatim>\<open>src/src/shared/crypto/hmac.c\<close>) and the key derivation
  functions built on it (\<^verbatim>\<open>src/src/shared/security/key_derivation.c\<close>: HKDF extract and
  expand, PBKDF2). SHA-256 itself is Mbed TLS, which is not in the repository: \<open>sha_lib\<close> holds
  the entry points the code calls (\<^verbatim>\<open>mbedtls_sha256_starts\<close>, \<^verbatim>\<open>_update\<close>, \<^verbatim>\<open>_finish\<close> and the one-shot
  \<^verbatim>\<open>mbedtls_sha256\<close>), a context being the opaque bytes of
  \<^verbatim>\<open>mbedtls_sha256_context\<close>, and \<open>None\<close> is a nonzero return code. \<open>sha_law\<close> is its
  documented behaviour: finishing a context yields the one-shot digest of the concatenation
  of the updates. A NULL pointer with length zero is the empty list.
\<close>

record sha_lib =
  sha_starts :: "u8 list option"
  sha_absorb :: "u8 list \<Rightarrow> u8 list \<Rightarrow> u8 list option"
  sha_finish :: "u8 list \<Rightarrow> u8 list option"
  sha_oneshot :: "u8 list \<Rightarrow> u8 list option"

section \<open>HMAC\<close>

record fv_hmac =
  hm_inner :: "u8 list"
  hm_outer :: "u8 list"
  hm_ipad :: "u8 list"
  hm_opad :: "u8 list"
  hm_ready :: bool

definition xor_all :: "u8 list \<Rightarrow> u8 \<Rightarrow> u8 list" where
  "xor_all block v = map (\<lambda>b. b XOR v) block"

definition fv_hmac_init :: "sha_lib \<Rightarrow> u8 list \<Rightarrow> fv_hmac option" where
  "fv_hmac_init L key =
     (if key = [] then None
      else case (if 64 < length key
                 then map_option (memcpy (zeros 64) 0) (sha_oneshot L key)
                 else Some (memcpy (zeros 64) 0 key)) of
        None \<Rightarrow> None
      | Some block0 \<Rightarrow>
         (let block = xor_all block0 0x36; ipad = block in
          case sha_starts L of None \<Rightarrow> None
          | Some c \<Rightarrow>
            (case sha_absorb L c block of None \<Rightarrow> None
             | Some inner \<Rightarrow>
               (let block = xor_all block (0x36 XOR 0x5c); opad = block in
                case sha_starts L of None \<Rightarrow> None
                | Some c \<Rightarrow>
                  (case sha_absorb L c block of None \<Rightarrow> None
                   | Some outer \<Rightarrow>
                     Some \<lparr>hm_inner = inner, hm_outer = outer, hm_ipad = ipad, hm_opad = opad,
                           hm_ready = True\<rparr>)))))"

definition fv_hmac_compute_software ::
  "sha_lib \<Rightarrow> fv_hmac \<Rightarrow> u8 list \<Rightarrow> u8 list \<Rightarrow> u8 list option" where
  "fv_hmac_compute_software L h prefix data =
     (if \<not> hm_ready h then None
      else case sha_absorb L (hm_inner h) prefix of None \<Rightarrow> None
      | Some c \<Rightarrow>
        (case sha_absorb L c data of None \<Rightarrow> None
         | Some c \<Rightarrow>
           (case sha_finish L c of None \<Rightarrow> None
            | Some inner \<Rightarrow>
              (case sha_absorb L (hm_outer h) inner of None \<Rightarrow> None
               | Some c \<Rightarrow> sha_finish L c))))"

text \<open>The software backend; the Pico accelerator is a build option of the same contract.\<close>

definition fv_hmac_compute :: "sha_lib \<Rightarrow> fv_hmac \<Rightarrow> u8 list \<Rightarrow> u8 list \<Rightarrow> u8 list option" where
  "fv_hmac_compute L h prefix data = fv_hmac_compute_software L h prefix data"

subsection \<open>HMAC is RFC 2104\<close>

fun sha_feed :: "sha_lib \<Rightarrow> u8 list \<Rightarrow> u8 list list \<Rightarrow> u8 list option" where
  "sha_feed L c [] = Some c"
| "sha_feed L c (x # xs) =
     (case sha_absorb L c x of None \<Rightarrow> None | Some c' \<Rightarrow> sha_feed L c' xs)"

definition sha_law :: "sha_lib \<Rightarrow> bool" where
  "sha_law L \<longleftrightarrow>
     (\<forall>c0 parts c. sha_starts L = Some c0 \<longrightarrow> sha_feed L c0 parts = Some c \<longrightarrow>
        sha_finish L c = sha_oneshot L (concat parts))"

definition hmac_block :: "sha_lib \<Rightarrow> u8 list \<Rightarrow> u8 list option" where
  "hmac_block L key =
     (if 64 < length key then map_option (memcpy (zeros 64) 0) (sha_oneshot L key)
      else Some (memcpy (zeros 64) 0 key))"

text \<open>\<open>H((K xor opad) | H((K xor ipad) | text))\<close>, the definition in RFC 2104.\<close>

definition hmac_spec :: "sha_lib \<Rightarrow> u8 list \<Rightarrow> u8 list \<Rightarrow> u8 list option" where
  "hmac_spec L key text =
     (case hmac_block L key of None \<Rightarrow> None
      | Some k \<Rightarrow>
        (case sha_oneshot L (xor_all k 0x36 @ text) of None \<Rightarrow> None
         | Some inner \<Rightarrow> sha_oneshot L (xor_all k 0x5c @ inner)))"

lemma xor_all_xor_all: "xor_all (xor_all b v) w = xor_all b (v XOR w)"
  by (simp add: xor_all_def xor.assoc)

lemma sha_law_finish2:
  assumes "sha_law L" "sha_starts L = Some c0"
    "sha_absorb L c0 a = Some c1" "sha_absorb L c1 b = Some c2"
  shows "sha_finish L c2 = sha_oneshot L (a @ b)"
proof -
  have "sha_feed L c0 [a, b] = Some c2" using assms(3,4) by simp
  with assms(1,2) have "sha_finish L c2 = sha_oneshot L (concat [a, b])"
    unfolding sha_law_def by blast
  then show ?thesis by simp
qed

lemma sha_law_finish3:
  assumes "sha_law L" "sha_starts L = Some c0"
    "sha_absorb L c0 a = Some c1" "sha_absorb L c1 b = Some c2"
    "sha_absorb L c2 d = Some c3"
  shows "sha_finish L c3 = sha_oneshot L (a @ b @ d)"
proof -
  have "sha_feed L c0 [a, b, d] = Some c3" using assms(3-5) by simp
  with assms(1,2) have "sha_finish L c3 = sha_oneshot L (concat [a, b, d])"
    unfolding sha_law_def by blast
  then show ?thesis by simp
qed

lemma fv_hmac_init_Some:
  assumes "fv_hmac_init L key = Some h"
  obtains k c0 where "hmac_block L key = Some k" "sha_starts L = Some c0"
    "sha_absorb L c0 (xor_all k 0x36) = Some (hm_inner h)"
    "sha_absorb L c0 (xor_all k 0x5c) = Some (hm_outer h)" "hm_ready h" "key \<noteq> []"
proof -
  have x: "(0x36 :: u8) XOR 0x6a = 0x5c" by simp
  show thesis
    using assms that
    by (auto simp: fv_hmac_init_def hmac_block_def Let_def xor_all_xor_all x
        split: if_splits option.splits)
qed

lemma fv_hmac_init_ready: "fv_hmac_init L key = Some h \<Longrightarrow> hm_ready h"
  by (erule fv_hmac_init_Some)

lemma fv_hmac_compute_spec:
  assumes law: "sha_law L" and h: "fv_hmac_init L key = Some h"
    and r: "fv_hmac_compute L h prefix data = Some tag"
  shows "hmac_spec L key (prefix @ data) = Some tag"
proof -
  obtain k c0 where k: "hmac_block L key = Some k" "sha_starts L = Some c0"
    "sha_absorb L c0 (xor_all k 0x36) = Some (hm_inner h)"
    "sha_absorb L c0 (xor_all k 0x5c) = Some (hm_outer h)" "hm_ready h"
    using h by (rule fv_hmac_init_Some)
  from r k(5) obtain c1 c2 inner c3 where
    "sha_absorb L (hm_inner h) prefix = Some c1"
    "sha_absorb L c1 data = Some c2"
    "sha_finish L c2 = Some inner"
    "sha_absorb L (hm_outer h) inner = Some c3"
    "sha_finish L c3 = Some tag"
    by (auto simp: fv_hmac_compute_def fv_hmac_compute_software_def split: option.splits if_splits)
  with sha_law_finish3 [OF law k(2,3)] sha_law_finish2 [OF law k(2,4)] k(1)
  show ?thesis by (simp add: hmac_spec_def)
qed

section \<open>HKDF\<close>

definition init_key :: "sha_lib \<Rightarrow> u8 list \<Rightarrow> fv_hmac option" where
  "init_key L key = fv_hmac_init L (if key = [] then zeros 32 else key)"

definition fv_hkdf_extract :: "sha_lib \<Rightarrow> u8 list \<Rightarrow> u8 list \<Rightarrow> u8 list option" where
  "fv_hkdf_extract L salt ikm =
     (case init_key L salt of None \<Rightarrow> None | Some h \<Rightarrow> fv_hmac_compute L h [] ikm)"

text \<open>The loop of \<^verbatim>\<open>fv_hkdf_expand\<close>: \<open>t\<close> and \<open>previous\<close> are the last block and
  how many of its bytes enter the next message, \<open>left\<close> is \<^verbatim>\<open>bytes-written\<close>.\<close>

function hkdf_loop ::
  "sha_lib \<Rightarrow> fv_hmac \<Rightarrow> u8 list \<Rightarrow> u8 list \<Rightarrow> nat \<Rightarrow> u32 \<Rightarrow> nat \<Rightarrow> u8 list \<Rightarrow> u8 list option" where
  "hkdf_loop L h info t previous counter left out =
     (if left = 0 then Some out
      else case fv_hmac_compute L h [] (take previous t @ info @ [ucast counter]) of
        None \<Rightarrow> None
      | Some t' \<Rightarrow>
         (let n = (if 32 < left then 32 else left) in
          hkdf_loop L h info t' 32 (counter + 1) (left - n) (out @ take n t')))"
  by pat_completeness auto
termination
  by (relation "measure (\<lambda>(L, h, info, t, previous, counter, left, out). left)") auto

declare hkdf_loop.simps [simp del]

definition fv_hkdf_expand :: "sha_lib \<Rightarrow> u8 list \<Rightarrow> u8 list \<Rightarrow> nat \<Rightarrow> u8 list option" where
  "fv_hkdf_expand L prk info bytes =
     (if bytes = 0 \<or> 255 * 32 < bytes then None
      else if 256 < length info then None
      else case fv_hmac_init L prk of None \<Rightarrow> None
      | Some h \<Rightarrow> hkdf_loop L h info (zeros 32) 0 1 bytes [])"

text \<open>RFC 5869: \<open>T(0)\<close> is empty and \<open>T(i)\<close> is the HMAC of \<open>T(i-1) | info | i\<close>.\<close>

fun hkdf_T :: "sha_lib \<Rightarrow> fv_hmac \<Rightarrow> u8 list \<Rightarrow> nat \<Rightarrow> u8 list option" where
  "hkdf_T L h info 0 = Some []"
| "hkdf_T L h info (Suc i) =
     (case hkdf_T L h info i of None \<Rightarrow> None
      | Some t \<Rightarrow> fv_hmac_compute L h [] (t @ info @ [of_nat (Suc i)]))"

fun hkdf_okm :: "sha_lib \<Rightarrow> fv_hmac \<Rightarrow> u8 list \<Rightarrow> nat \<Rightarrow> nat \<Rightarrow> u8 list option" where
  "hkdf_okm L h info i 0 = Some []"
| "hkdf_okm L h info i (Suc n) =
     (case hkdf_T L h info (Suc i) of None \<Rightarrow> None
      | Some t \<Rightarrow> (case hkdf_okm L h info (Suc i) n of None \<Rightarrow> None
                    | Some ts \<Rightarrow> Some (t @ ts)))"

text \<open>Digests have 32 bytes, as the C buffers that receive them.\<close>

definition digest_law :: "sha_lib \<Rightarrow> bool" where
  "digest_law L \<longleftrightarrow> (\<forall>c d. sha_finish L c = Some d \<longrightarrow> length d = 32)"

lemma length_hmac:
  "digest_law L \<Longrightarrow> fv_hmac_compute L h p d = Some tag \<Longrightarrow> length tag = 32"
  by (auto simp: digest_law_def fv_hmac_compute_def fv_hmac_compute_software_def
      split: option.splits if_splits)

lemma length_hkdf_extract:
  "digest_law L \<Longrightarrow> fv_hkdf_extract L salt ikm = Some prk \<Longrightarrow> length prk = 32"
  by (auto simp: fv_hkdf_extract_def length_hmac split: option.splits)

lemma ucast_of_nat_u8: "ucast (of_nat n :: u32) = (of_nat n :: u8)"
  by (rule bit_word_eqI) (auto simp: bit_simps)

lemma hkdf_loop_T:
  assumes "digest_law L" and "left \<le> n * 32" and "hkdf_T L h info i = Some (take previous t)"
    and "hkdf_okm L h info i n = Some okm"
  shows "hkdf_loop L h info t previous (of_nat (Suc i)) left out = Some (out @ take left okm)"
  using assms(2-)
proof (induction n arbitrary: left t previous i out okm)
  case 0
  then show ?case by (simp add: hkdf_loop.simps)
next
  case (Suc n)
  show ?case
  proof (cases "left = 0")
    case True
    then show ?thesis by (simp add: hkdf_loop.simps)
  next
    case False
    from Suc.prems(3) obtain t' ts where
      t': "hkdf_T L h info (Suc i) = Some t'" and ts: "hkdf_okm L h info (Suc i) n = Some ts"
      and okm: "okm = t' @ ts" by (auto split: option.splits)
    from t' Suc.prems(2) have hm:
      "fv_hmac_compute L h [] (take previous t @ info @ [of_nat (Suc i)]) = Some t'" by simp
    then have len: "length t' = 32" by (rule length_hmac [OF assms(1)])
    let ?m = "if 32 < left then 32 else left"
    have IH: "hkdf_loop L h info t' 32 (of_nat (Suc (Suc i))) (left - ?m) (out @ take ?m t') =
        Some ((out @ take ?m t') @ take (left - ?m) ts)"
      by (rule Suc.IH) (use Suc.prems(1) t' ts len in auto)
    have "take left okm = take ?m t' @ take (left - ?m) ts"
      using len by (auto simp: okm)
    moreover have "ucast (of_nat (Suc i) :: u32) = (of_nat (Suc i) :: u8)"
      by (rule ucast_of_nat_u8)
    moreover have "of_nat (Suc i) + 1 = (of_nat (Suc (Suc i)) :: u32)" by simp
    ultimately show ?thesis using IH False hm
      by (subst hkdf_loop.simps) (simp add: Let_def del: of_nat_Suc)
  qed
qed

text \<open>\<^verbatim>\<open>fv_hkdf_expand\<close> is the first \<open>bytes\<close> bytes of \<open>T(1) | T(2) | \<dots>\<close> of RFC 5869.\<close>

lemma fv_hkdf_expand_okm:
  assumes "digest_law L" and "0 < bytes" "bytes \<le> 8160" "length info \<le> 256"
    and "fv_hmac_init L prk = Some h" and "bytes \<le> n * 32"
    and "hkdf_okm L h info 0 n = Some okm"
  shows "fv_hkdf_expand L prk info bytes = Some (take bytes okm)"
proof -
  have "hkdf_loop L h info (zeros 32) 0 (of_nat (Suc 0)) bytes [] = Some ([] @ take bytes okm)"
    by (rule hkdf_loop_T [where n = n]) (use assms in auto)
  with assms show ?thesis by (simp add: fv_hkdf_expand_def)
qed

lemma hkdf_loop_length:
  assumes "digest_law L" and "hkdf_loop L h info t previous counter left out = Some r"
  shows "length r = length out + left"
  using assms
proof (induction L h info t previous counter left out rule: hkdf_loop.induct)
  case (1 L h info t previous counter left out)
  show ?case
  proof (cases "left = 0")
    case True
    with "1.prems"(2) show ?thesis by (simp add: hkdf_loop.simps [of L h])
  next
    case False
    with "1.prems"(2) obtain t' where t':
      "fv_hmac_compute L h [] (take previous t @ info @ [ucast counter]) = Some t'"
      and rest: "hkdf_loop L h info t' 32 (counter + 1) (left - (if 32 < left then 32 else left))
         (out @ take (if 32 < left then 32 else left) t') = Some r"
      by (auto simp: hkdf_loop.simps [of L h] Let_def split: option.splits)
    have "length t' = 32" using "1.prems"(1) t' by (rule length_hmac)
    with "1.IH" [OF False t' refl "1.prems"(1) rest] False show ?thesis by auto
  qed
qed


lemma length_hkdf_expand:
  "digest_law L \<Longrightarrow> fv_hkdf_expand L prk info n = Some out \<Longrightarrow> length out = n"
  by (auto simp: fv_hkdf_expand_def split: if_splits option.splits dest: hkdf_loop_length)

section \<open>PBKDF2\<close>

fun pbkdf2_loop :: "sha_lib \<Rightarrow> fv_hmac \<Rightarrow> nat \<Rightarrow> u8 list \<Rightarrow> u8 list \<Rightarrow> u8 list option" where
  "pbkdf2_loop L h 0 u out = Some out"
| "pbkdf2_loop L h (Suc n) u out =
     (case fv_hmac_compute L h [] u of None \<Rightarrow> None
      | Some u' \<Rightarrow> pbkdf2_loop L h n u' (xor_bytes out u'))"

definition fv_pbkdf2_sha256_32 ::
  "sha_lib \<Rightarrow> u8 list \<Rightarrow> u8 list \<Rightarrow> u32 \<Rightarrow> u8 list option" where
  "fv_pbkdf2_sha256_32 L password salt iterations =
     (if iterations = 0 then None
      else case init_key L password of None \<Rightarrow> None
      | Some h \<Rightarrow>
        (case fv_hmac_compute L h salt [0, 0, 0, 1] of None \<Rightarrow> None
         | Some u \<Rightarrow> pbkdf2_loop L h (unat iterations - 1) u u))"

text \<open>RFC 8018: \<open>U(1) = PRF(P, S | INT(1))\<close>, \<open>U(c) = PRF(P, U(c-1))\<close>; the block is the
  exclusive or of all of them.\<close>

fun pbkdf2_U :: "sha_lib \<Rightarrow> fv_hmac \<Rightarrow> u8 list \<Rightarrow> nat \<Rightarrow> u8 list option" where
  "pbkdf2_U L h salt 0 = fv_hmac_compute L h salt [0, 0, 0, 1]"
| "pbkdf2_U L h salt (Suc c) = Option.bind (pbkdf2_U L h salt c) (fv_hmac_compute L h [])"

fun pbkdf2_F :: "sha_lib \<Rightarrow> fv_hmac \<Rightarrow> u8 list \<Rightarrow> nat \<Rightarrow> u8 list option" where
  "pbkdf2_F L h salt 0 = pbkdf2_U L h salt 0"
| "pbkdf2_F L h salt (Suc c) =
     Option.bind (pbkdf2_F L h salt c)
       (\<lambda>f. map_option (xor_bytes f) (pbkdf2_U L h salt (Suc c)))"

lemma pbkdf2_loop_F:
  assumes "pbkdf2_U L h salt c = Some u" and "pbkdf2_F L h salt c = Some out"
  shows "pbkdf2_loop L h n u out = pbkdf2_F L h salt (c + n)"
  using assms
proof (induction n arbitrary: c u out)
  case 0
  then show ?case by simp
next
  case (Suc n)
  show ?case
  proof (cases "fv_hmac_compute L h [] u")
    case None
    have "pbkdf2_U L h salt (Suc (c + k)) = None" for k
      using None Suc.prems(1) by (induction k) auto
    then have "pbkdf2_F L h salt (Suc (c + n)) = None"
      by (cases "pbkdf2_F L h salt (c + n)") (auto simp del: pbkdf2_U.simps)
    with None show ?thesis by simp
  next
    case (Some u')
    with Suc.prems have "pbkdf2_U L h salt (Suc c) = Some u'"
      and "pbkdf2_F L h salt (Suc c) = Some (xor_bytes out u')" by auto
    from Suc.IH [OF this] Some show ?thesis by simp
  qed
qed

lemma length_pbkdf2_loop:
  "digest_law L \<Longrightarrow> length out = 32 \<Longrightarrow> pbkdf2_loop L h n u out = Some r \<Longrightarrow> length r = 32"
proof (induction n arbitrary: u out)
  case (Suc n)
  then obtain u' where u': "fv_hmac_compute L h [] u = Some u'"
    and r: "pbkdf2_loop L h n u' (xor_bytes out u') = Some r" by (auto split: option.splits)
  have "length (xor_bytes out u') = 32"
    using Suc.prems(2) length_hmac [OF Suc.prems(1) u'] by simp
  from Suc.IH [OF Suc.prems(1) this r] show ?case .
qed simp

lemma length_pbkdf2:
  "digest_law L \<Longrightarrow> fv_pbkdf2_sha256_32 L pw salt i = Some out \<Longrightarrow> length out = 32"
  by (auto simp: fv_pbkdf2_sha256_32_def split: if_splits option.splits
      dest: length_hmac intro: length_pbkdf2_loop)

section \<open>A library that does not fail\<close>

text \<open>The software SHA-256 of Mbed TLS returns 0 on every call with a started context. Under it the
  derivations succeed on all arguments the code accepts.\<close>

definition sha_total :: "sha_lib \<Rightarrow> bool" where
  "sha_total L \<longleftrightarrow> sha_starts L \<noteq> None \<and> (\<forall>c x. sha_absorb L c x \<noteq> None) \<and>
     (\<forall>c. sha_finish L c \<noteq> None) \<and> (\<forall>m. sha_oneshot L m \<noteq> None)"

lemma hmac_init_total: "sha_total L \<Longrightarrow> key \<noteq> [] \<Longrightarrow> \<exists>h. fv_hmac_init L key = Some h"
  by (auto simp: sha_total_def fv_hmac_init_def Let_def simp del: not_None_eq split: option.splits)

lemma hmac_compute_total: "sha_total L \<Longrightarrow> hm_ready h \<Longrightarrow> \<exists>t. fv_hmac_compute L h p d = Some t"
  by (auto simp: sha_total_def fv_hmac_compute_def fv_hmac_compute_software_def simp del: not_None_eq
      split: option.splits)

lemma hmac_total:
  assumes "sha_total L" "key \<noteq> []"
  obtains h where "fv_hmac_init L key = Some h" "\<And>p d. \<exists>t. fv_hmac_compute L h p d = Some t"
  using hmac_init_total [OF assms] hmac_compute_total [OF assms(1)] fv_hmac_init_ready by blast

lemma init_key_total:
  assumes "sha_total L"
  obtains h where "init_key L key = Some h" "\<And>p d. \<exists>t. fv_hmac_compute L h p d = Some t"
proof -
  have "(if key = [] then zeros 32 else key) \<noteq> []" by (simp add: zeros_def)
  then show thesis using hmac_total [OF assms] that by (auto simp: init_key_def)
qed

lemma hkdf_extract_total: "sha_total L \<Longrightarrow> \<exists>prk. fv_hkdf_extract L salt ikm = Some prk"
  by (rule init_key_total [of L salt]) (auto simp: fv_hkdf_extract_def)

lemma hkdf_loop_total:
  "(\<And>p d. \<exists>t. fv_hmac_compute L h p d = Some t) \<Longrightarrow> \<exists>okm. hkdf_loop L h info t previous counter left out = Some okm"
proof (induction L h info t previous counter left out rule: hkdf_loop.induct)
  case (1 L h info t previous counter left out)
  obtain t' where t': "fv_hmac_compute L h [] (take previous t @ info @ [ucast counter]) = Some t'"
    using "1.prems" by blast
  show ?case
    by (cases "left = 0", simp add: hkdf_loop.simps)
      (subst hkdf_loop.simps, simp add: t' Let_def, intro conjI impI;
        use "1.IH" [OF _ t' refl "1.prems"] in \<open>simp add: Let_def\<close>)
qed

lemma hkdf_expand_total:
  assumes "sha_total L" "prk \<noteq> []" "0 < bytes" "bytes \<le> 8160" "length info \<le> 256"
  shows "\<exists>okm. fv_hkdf_expand L prk info bytes = Some okm"
  by (rule hmac_total [OF assms(1,2)]) (use assms(3-5) hkdf_loop_total in \<open>auto simp: fv_hkdf_expand_def\<close>)

lemma pbkdf2_loop_total:
  "(\<And>p d. \<exists>t. fv_hmac_compute L h p d = Some t) \<Longrightarrow> \<exists>out'. pbkdf2_loop L h n u out = Some out'"
proof (induction n arbitrary: u out)
  case (Suc n)
  obtain t where "fv_hmac_compute L h [] u = Some t" using Suc.prems by blast
  then show ?case using Suc by simp
qed simp

lemma pbkdf2_total:
  assumes "sha_total L" "0 < iterations"
  shows "\<exists>out. fv_pbkdf2_sha256_32 L pw salt iterations = Some out"
proof -
  obtain h where h: "init_key L pw = Some h" "\<And>p d. \<exists>t. fv_hmac_compute L h p d = Some t"
    using init_key_total [OF assms(1)] by blast
  obtain u where "fv_hmac_compute L h salt [0, 0, 0, 1] = Some u" using h(2) by blast
  then show ?thesis using h assms(2) pbkdf2_loop_total [OF h(2)] by (simp add: fv_pbkdf2_sha256_32_def)
qed

section \<open>Properties\<close>

text \<open>A SHA-256 stand-in for evaluating the witnesses: the context is the message so far, the
  digest its first 32 bytes, zero padded.\<close>

definition test_sha :: sha_lib where
  "test_sha = \<lparr>sha_starts = Some [], sha_absorb = (\<lambda>c x. Some (c @ x)),
     sha_finish = (\<lambda>c. Some (take 32 (c @ zeros 32))),
     sha_oneshot = (\<lambda>m. Some (take 32 (m @ zeros 32)))\<rparr>"

lemma test_sha_feed: "sha_feed test_sha c parts = Some (c @ concat parts)"
  by (induction parts arbitrary: c) (auto simp: test_sha_def)

lemma sha_law_test_sha [simp]: "sha_law test_sha"
  by (auto simp: sha_law_def test_sha_feed) (auto simp: test_sha_def)

lemma digest_law_test_sha [simp]: "digest_law test_sha"
  by (auto simp: digest_law_def test_sha_def)

lemma sha_total_test_sha [simp]: "sha_total test_sha"
  by (auto simp: sha_total_def test_sha_def)

definition test_hmac :: fv_hmac where
  "test_hmac = \<lparr>hm_inner = xor_all (memcpy (zeros 64) 0 [7]) 0x36,
     hm_outer = xor_all (memcpy (zeros 64) 0 [7]) 0x5c,
     hm_ipad = xor_all (memcpy (zeros 64) 0 [7]) 0x36,
     hm_opad = xor_all (memcpy (zeros 64) 0 [7]) 0x5c, hm_ready = True\<rparr>"

lemma test_hmac_init: "fv_hmac_init test_sha [7] = Some test_hmac"
  by (simp add: fv_hmac_init_def test_sha_def test_hmac_def Let_def xor_all_xor_all)

lemma test_hmac_compute:
  "fv_hmac_compute test_sha test_hmac p d =
     Some (take 32 (xor_all (memcpy (zeros 64) 0 [7]) 0x5c))"
  by (simp add: fv_hmac_compute_def fv_hmac_compute_software_def test_sha_def test_hmac_def xor_all_def)

text \<open>A tag computed with a prepared HMAC context, whatever the split of the message into
  prefix and data, is the RFC 2104 HMAC-SHA-256 of the whole message under the key given to
  \<^verbatim>\<open>fv_hmac_init\<close> (hashed first when longer than a block), for any SHA-256 library whose
  streaming interface agrees with its one-shot digest.\<close>

theorem hmac_is_rfc2104:
  assumes "sha_law L" and "fv_hmac_init L key = Some h"
    and "fv_hmac_compute L h prefix data = Some tag"
  shows "hmac_spec L key (prefix @ data) = Some tag"
  using assms by (rule fv_hmac_compute_spec)

theorem hmac_is_rfc2104_witness:
  "hmac_spec test_sha [7] ([1] @ [2]) = Some (take 32 (xor_all (memcpy (zeros 64) 0 [7]) 0x5c))"
  by (rule hmac_is_rfc2104 [OF sha_law_test_sha test_hmac_init test_hmac_compute])

text \<open>HKDF-Expand is RFC 5869: the output is the first \<open>bytes\<close> bytes of
  \<open>T(1) | T(2) | \<dots>\<close>, where each block is the HMAC of the previous one, the context and the
  block number, for every length the code accepts.\<close>

theorem hkdf_expand_is_rfc5869:
  assumes "digest_law L" and "0 < bytes" and "bytes \<le> 8160" and "length info \<le> 256"
    and "fv_hmac_init L prk = Some h" and "bytes \<le> n * 32"
    and "hkdf_okm L h info 0 n = Some okm"
  shows "fv_hkdf_expand L prk info bytes = Some (take bytes okm) \<and> length (take bytes okm) = bytes"
  using fv_hkdf_expand_okm [OF assms] length_hkdf_expand [OF assms(1)] by blast

theorem hkdf_expand_is_rfc5869_witness:
  "fv_hkdf_expand test_sha [7] [9] 40 =
     Some (take 40 (take 32 (xor_all (memcpy (zeros 64) 0 [7]) 0x5c) @
                    take 32 (xor_all (memcpy (zeros 64) 0 [7]) 0x5c))) \<and>
   length (take 40 (take 32 (xor_all (memcpy (zeros 64) 0 [7]) 0x5c) @
                    take 32 (xor_all (memcpy (zeros 64) 0 [7]) 0x5c))) = 40"
proof -
  have "hkdf_okm test_sha test_hmac [9] 0 2 =
      Some (take 32 (xor_all (memcpy (zeros 64) 0 [7]) 0x5c) @
            take 32 (xor_all (memcpy (zeros 64) 0 [7]) 0x5c))"
    by (simp add: numeral_2_eq_2 test_hmac_compute)
  then show ?thesis
    by (intro hkdf_expand_is_rfc5869 [OF digest_law_test_sha _ _ _ test_hmac_init]) auto
qed

text \<open>PBKDF2 is RFC 8018: with \<open>c\<close> iterations the result is the exclusive or of
  \<open>U(1), \<dots>, U(c)\<close>, and a failing HMAC anywhere fails the derivation.\<close>

theorem pbkdf2_is_rfc8018:
  assumes "0 < iterations" and "init_key L password = Some h"
  shows "fv_pbkdf2_sha256_32 L password salt iterations =
           pbkdf2_F L h salt (unat iterations - 1)"
proof (cases "fv_hmac_compute L h salt [0, 0, 0, 1]")
  case None
  have "pbkdf2_F L h salt n = None" for n using None by (induction n) auto
  with None assms show ?thesis by (simp add: fv_pbkdf2_sha256_32_def)
next
  case (Some u)
  then have "pbkdf2_loop L h n u u = pbkdf2_F L h salt (0 + n)" for n
    by (intro pbkdf2_loop_F) auto
  with Some assms show ?thesis by (simp add: fv_pbkdf2_sha256_32_def)
qed

theorem pbkdf2_is_rfc8018_witness:
  "fv_pbkdf2_sha256_32 test_sha [7] [5] 2 = pbkdf2_F test_sha test_hmac [5] (unat (2 :: u32) - 1)"
  by (rule pbkdf2_is_rfc8018) (simp_all add: init_key_def test_hmac_init)

end
