(* ===== verification/Codec.thy ===== *)
theory Codec
  imports Bytes
begin

text \<open>
  The contract of the canonical codecs of Fuse Vault. Every decoder in the code re-encodes what
  it read and compares the result with its input, so that constants, redundant fields and
  reserved bytes are checked with the fields. The locale states what that gives: a decoder
  accepts exactly the encodings, and it returns the encoded value (up to \<open>norm\<close>, the identity
  but for the legacy layout version of the volume descriptor). A C array in a structure has a
  fixed size; \<open>wf\<close> says so of the lists that stand for it. The authentication policy, the
  volume descriptor and the journal record interpret it.
\<close>

locale canonical_codec =
  fixes enc :: "'a \<Rightarrow> u8 list option"
    and dec :: "u8 list \<Rightarrow> 'a option"
    and norm :: "'a \<Rightarrow> 'a"
    and wf :: "'a \<Rightarrow> bool"
  assumes dec_canonical: "dec b = Some a \<Longrightarrow> enc a = Some b"
    and dec_wf: "dec b = Some a \<Longrightarrow> wf a"
    and dec_enc: "wf a \<Longrightarrow> enc a = Some b \<Longrightarrow> dec b = Some (norm a)"
begin

lemma dec_inject: "dec b = Some a \<Longrightarrow> dec b' = Some a \<Longrightarrow> b = b'"
  by (auto dest!: dec_canonical)

lemma enc_inject: "wf a \<Longrightarrow> wf a' \<Longrightarrow> enc a = Some b \<Longrightarrow> enc a' = Some b \<Longrightarrow> norm a = norm a'"
  by (auto dest!: dec_enc)

lemma dec_norm: "dec b = Some a \<Longrightarrow> norm a = a"
  using dec_enc [OF dec_wf dec_canonical] by fastforce

lemma enc_norm: "wf a \<Longrightarrow> enc a = Some b \<Longrightarrow> enc (norm a) = Some b"
  by (rule dec_canonical) (rule dec_enc)

lemma dec_iff: "dec b = Some a \<longleftrightarrow> wf a \<and> enc a = Some b \<and> norm a = a"
  by (metis dec_canonical dec_enc dec_norm dec_wf)

lemma dec_accepts_iff: "(\<exists>a. dec b = Some a) \<longleftrightarrow> (\<exists>a. wf a \<and> enc a = Some b)"
  by (metis dec_canonical dec_enc dec_wf)

end

end
