(* ===== verification/Pipeline.thy ===== *)
theory Pipeline
  imports Cipher
begin

text \<open>
  The cascade of up to four XTS layers (\<^verbatim>\<open>src/src/shared/crypto/pipeline.c\<close>): the checks of
  its keys, the order of its layers and the round trip of a sector through all of them.
\<close>

section \<open>The cascade\<close>

record fv_pipeline =
  pl_count :: nat
  pl_layers :: "fv_cipher list"

definition fv_pipeline_clear :: fv_pipeline where
  "fv_pipeline_clear = \<lparr>pl_count = 0, pl_layers = replicate FV_MAX_LAYERS fv_cipher_clear\<rparr>"

definition keys_overlap :: "fv_algorithm list \<Rightarrow> u8 list list \<Rightarrow> nat \<Rightarrow> nat \<Rightarrow> bool" where
  "keys_overlap a keys i j \<longleftrightarrow>
     (let bytes = fv_cipher_key_bytes (a ! i); other = fv_cipher_key_bytes (a ! j);
          m = (if bytes < other then bytes else other)
      in span (keys ! i) 0 m = span (keys ! j) 0 m)"

fun pipeline_init_loop ::
    "cipher_lib \<Rightarrow> fv_algorithm list \<Rightarrow> u8 list list \<Rightarrow> nat \<Rightarrow> nat list \<Rightarrow> fv_pipeline
     \<Rightarrow> fv_pipeline \<times> fv_status" where
  "pipeline_init_loop L a keys n [] p = (p\<lparr>pl_count := n\<rparr>, FV_OK)"
| "pipeline_init_loop L a keys n (i # is) p =
     (let bytes = fv_cipher_key_bytes (a ! i) in
      if bytes = 0 then (fv_pipeline_clear, FV_INVALID)
      else if list_ex (keys_overlap a keys i) [0..<i] then (fv_pipeline_clear, FV_INVALID)
      else case fv_cipher_init L (a ! i) (keys ! i) bytes of (c, s) \<Rightarrow>
        if s \<noteq> FV_OK then (fv_pipeline_clear, s)
        else pipeline_init_loop L a keys n is (p\<lparr>pl_layers := (pl_layers p)[i := c]\<rparr>))"

definition fv_pipeline_init ::
    "cipher_lib \<Rightarrow> fv_algorithm list \<Rightarrow> u8 list list \<Rightarrow> nat \<Rightarrow> fv_pipeline \<times> fv_status" where
  "fv_pipeline_init L a keys n =
     (if a = [] \<or> keys = [] \<or> n = 0 \<or> n > FV_MAX_LAYERS then (fv_pipeline_clear, FV_INVALID)
      else pipeline_init_loop L a keys n [0..<n] fv_pipeline_clear)"

fun run_layers ::
    "fv_pipeline \<Rightarrow> u64 \<Rightarrow> bool \<Rightarrow> nat list \<Rightarrow> nat \<times> u8 list \<Rightarrow> nat \<times> u8 list \<Rightarrow> fv_status \<times> u8 list" where
  "run_layers p l enc [] inp (y, out) = (FV_OK, out)"
| "run_layers p l enc (i # is) inp (y, out) =
     (let index = (if enc then i else pl_count p - 1 - i);
          c = pl_layers p ! index
      in case (if enc then fv_cipher_encrypt c l inp (y, out) else fv_cipher_decrypt c l inp (y, out))
         of (s, out) \<Rightarrow> if s \<noteq> FV_OK then (s, out) else run_layers p l enc is (y, out) (y, out))"

definition pipeline_run ::
    "fv_pipeline \<Rightarrow> u64 \<Rightarrow> nat \<times> u8 list \<Rightarrow> nat \<times> u8 list \<Rightarrow> bool \<Rightarrow> fv_status \<times> u8 list" where
  "pipeline_run p l inp out enc =
     (if pl_count p = 0 \<or> pl_count p > FV_MAX_LAYERS then (FV_INVALID, snd out)
      else run_layers p l enc [0..<pl_count p] inp out)"

definition fv_pipeline_encrypt where "fv_pipeline_encrypt p l i o' = pipeline_run p l i o' True"
definition fv_pipeline_decrypt where "fv_pipeline_decrypt p l i o' = pipeline_run p l i o' False"


text \<open>A toy library (every cipher is an exclusive or with the key) on which the properties are
  applied.\<close>

definition test_ecb :: "u8 list \<Rightarrow> u8 list \<Rightarrow> u8 list" where
  "test_ecb s b = xor_bytes b (take 16 (s @ zeros 16))"

definition test_ciphers :: cipher_lib where
  "test_ciphers = \<lparr>aes_setkey_enc = Some, aes_setkey_dec = Some, aes_crypt_ecb = (\<lambda>s e b. Some (test_ecb s b)),
     camellia_setkey_enc = Some, camellia_setkey_dec = Some, camellia_crypt_ecb = (\<lambda>s e b. Some (test_ecb s b)),
     aria_setkey_enc = Some, aria_setkey_dec = Some, aria_crypt_ecb = (\<lambda>s b. Some (test_ecb s b)),
     sm4_set_encrypt_key = (\<lambda>k. k), sm4_set_decrypt_key = (\<lambda>k. k), sm4_encrypt = test_ecb\<rparr>"

lemma cipher_law_test: "cipher_law test_ciphers"
  by (auto simp: cipher_law_def schedule_law_def test_ciphers_def test_ecb_def xor_bytes_cancel)

definition test_key :: "nat \<Rightarrow> u8 list" where
  "test_key i = map of_nat [i..<i + 64]"

definition test_pipeline :: "fv_pipeline \<times> fv_status" where
  "test_pipeline = fv_pipeline_init test_ciphers [FV_TWOFISH_256_XTS, FV_SM4_128_XTS] [test_key 0, test_key 7] 2"

section \<open>A prepared cascade\<close>

lemma keys_overlap_iff: "keys_overlap a keys i j \<longleftrightarrow>
    span (keys ! i) 0 (min (fv_cipher_key_bytes (a ! i)) (fv_cipher_key_bytes (a ! j))) =
    span (keys ! j) 0 (min (fv_cipher_key_bytes (a ! i)) (fv_cipher_key_bytes (a ! j)))"
  by (simp add: keys_overlap_def Let_def min_def)

definition cipher_ready :: "fv_cipher \<Rightarrow> bool" where
  "cipher_ready c \<longleftrightarrow>
     (\<exists>o' ky k. c = \<lparr>c_ops = Some o', c_key = k\<rparr> \<and> block_cipher (ops_init o') (ops_block o') \<and>
        ops_init o' ky = Some k)"

definition pipeline_ready :: "fv_pipeline \<Rightarrow> bool" where
  "pipeline_ready p \<longleftrightarrow> 0 < pl_count p \<and> pl_count p \<le> 4 \<and> length (pl_layers p) = 4 \<and>
     (\<forall>i < pl_count p. cipher_ready (pl_layers p ! i))"

lemma cipher_init_ready:
  "cipher_law L \<Longrightarrow> fv_cipher_init L a k n = (c, FV_OK) \<Longrightarrow> cipher_ready c"
  unfolding cipher_ready_def fv_cipher_init_def
  by (auto simp: Let_def dest: ops_of_block_cipher split: if_splits option.splits)

lemma cipher_init_not_ok: "fv_cipher_init L a k n = (c, s) \<Longrightarrow> s \<noteq> FV_OK \<Longrightarrow> c = fv_cipher_clear"
  by (auto simp: fv_cipher_init_def Let_def split: if_splits option.splits)

lemma cipher_init_ok_halves:
  "fv_cipher_init L a k n = (c, FV_OK) \<Longrightarrow>
   n = fv_cipher_key_bytes a \<and> 0 < n \<and> span k 0 (n div 2) \<noteq> span k (n div 2) (n div 2)"
  by (auto simp: fv_cipher_init_def Let_def split: if_splits option.splits)

lemma pipeline_init_loop_ok:
  "pipeline_init_loop L a keys n is p = (q, FV_OK) \<Longrightarrow> distinct is \<Longrightarrow>
   \<forall>i \<in> set is. i < length (pl_layers p) \<Longrightarrow>
   pl_count q = n \<and> length (pl_layers q) = length (pl_layers p) \<and>
   (\<forall>i. i \<notin> set is \<longrightarrow> pl_layers q ! i = pl_layers p ! i) \<and>
   (\<forall>i \<in> set is. fv_cipher_init L (a ! i) (keys ! i) (fv_cipher_key_bytes (a ! i)) =
        (pl_layers q ! i, FV_OK) \<and> (\<forall>j < i. \<not> keys_overlap a keys i j))"
proof (induction L a keys n "is" p rule: pipeline_init_loop.induct)
  case (2 L a keys n i "is" p)
  obtain c where c: "fv_cipher_init L (a ! i) (keys ! i) (fv_cipher_key_bytes (a ! i)) = (c, FV_OK)"
    and no: "\<not> list_ex (keys_overlap a keys i) [0..<i]" "fv_cipher_key_bytes (a ! i) \<noteq> 0"
    and run: "pipeline_init_loop L a keys n is (p\<lparr>pl_layers := (pl_layers p)[i := c]\<rparr>) = (q, FV_OK)"
    using "2.prems"(1) by (auto simp: Let_def split: if_splits prod.splits)
  have IH: "pl_count q = n \<and> length (pl_layers q) = length (pl_layers p) \<and>
      (\<forall>j. j \<notin> set is \<longrightarrow> pl_layers q ! j = (pl_layers p)[i := c] ! j) \<and>
      (\<forall>i \<in> set is. fv_cipher_init L (a ! i) (keys ! i) (fv_cipher_key_bytes (a ! i)) =
        (pl_layers q ! i, FV_OK) \<and> (\<forall>j < i. \<not> keys_overlap a keys i j))"
    using "2.IH" [OF refl no(2) no(1) c [symmetric] _ run] "2.prems" by simp
  moreover have "pl_layers q ! i = c" using IH "2.prems" by simp
  ultimately show ?case using c no "2.prems" by (auto simp: list_ex_iff)
qed auto

lemma pipeline_init_loop_fails:
  "pipeline_init_loop L a keys n is p = (q, s) \<Longrightarrow> s \<noteq> FV_OK \<Longrightarrow> q = fv_pipeline_clear"
  by (induction L a keys n "is" p rule: pipeline_init_loop.induct)
    (auto simp: Let_def split: if_splits prod.splits)

lemma pipeline_init_ready:
  assumes "cipher_law L" "fv_pipeline_init L a keys n = (p, FV_OK)"
  shows "pipeline_ready p"
proof -
  have n: "0 < n" "n \<le> 4"
    and run: "pipeline_init_loop L a keys n [0..<n] fv_pipeline_clear = (p, FV_OK)"
    using assms(2) by (auto simp: fv_pipeline_init_def split: if_splits)
  note ok = pipeline_init_loop_ok [OF run]
  have "cipher_ready (pl_layers p ! i)" if "i < n" for i
  proof (rule cipher_init_ready [OF assms(1)])
    show "fv_cipher_init L (a ! i) (keys ! i) (fv_cipher_key_bytes (a ! i)) = (pl_layers p ! i, FV_OK)"
      using ok n that by (auto simp: fv_pipeline_clear_def)
  qed
  with ok n show ?thesis by (auto simp: pipeline_ready_def fv_pipeline_clear_def)
qed

text \<open>A cascade is only ever prepared from independent keys: when \<open>fv_pipeline_init\<close> succeeds the
  pipeline has exactly the requested number of layers, between one and four, every layer was
  initialised with its algorithm and key, no layer has equal data and tweak key halves, and no two
  layers agree on the key bytes they both consume. When it fails the pipeline is left cleared.\<close>

theorem pipeline_init_keys_independent:
  assumes "fv_pipeline_init L a keys n = (p, s)"
  shows "(s = FV_OK \<longrightarrow> pl_count p = n \<and> 0 < n \<and> n \<le> FV_MAX_LAYERS \<and>
      (\<forall>i < n. let b = fv_cipher_key_bytes (a ! i) in
         fv_cipher_init L (a ! i) (keys ! i) b = (pl_layers p ! i, FV_OK) \<and>
         span (keys ! i) 0 (b div 2) \<noteq> span (keys ! i) (b div 2) (b div 2)) \<and>
      (\<forall>i < n. \<forall>j < i. let m = min (fv_cipher_key_bytes (a ! i)) (fv_cipher_key_bytes (a ! j)) in
         span (keys ! i) 0 m \<noteq> span (keys ! j) 0 m)) \<and>
    (s \<noteq> FV_OK \<longrightarrow> p = fv_pipeline_clear)"
proof (cases s)
  case FV_OK
  then have n: "0 < n" "n \<le> 4"
    and run: "pipeline_init_loop L a keys n [0..<n] fv_pipeline_clear = (p, FV_OK)"
    using assms by (auto simp: fv_pipeline_init_def split: if_splits)
  note ok = pipeline_init_loop_ok [OF run]
  have layer: "fv_cipher_init L (a ! i) (keys ! i) (fv_cipher_key_bytes (a ! i)) = (pl_layers p ! i, FV_OK)"
    if "i < n" for i using ok n that by (auto simp: fv_pipeline_clear_def)
  have dist: "\<not> keys_overlap a keys i j" if "i < n" "j < i" for i j
    using ok n that by (auto simp: fv_pipeline_clear_def)
  have "pl_count p = n" using ok n by (auto simp: fv_pipeline_clear_def)
  then show ?thesis using FV_OK n layer dist cipher_init_ok_halves [OF layer]
    by (simp add: Let_def keys_overlap_iff)
qed (use assms pipeline_init_loop_fails in \<open>auto simp: fv_pipeline_init_def split: if_splits\<close>)

section \<open>The round trip of a sector\<close>

text \<open>The layers that a run visits, as a list of ciphers.\<close>

fun cascade :: "u64 \<Rightarrow> bool \<Rightarrow> fv_cipher list \<Rightarrow> nat \<times> u8 list \<Rightarrow> nat \<times> u8 list \<Rightarrow> fv_status \<times> u8 list" where
  "cascade l enc [] inp (y, out) = (FV_OK, out)"
| "cascade l enc (c # cs) inp (y, out) =
     (case crypt c l inp (y, out) enc of (s, out) \<Rightarrow>
        if s \<noteq> FV_OK then (s, out) else cascade l enc cs (y, out) (y, out))"

lemma run_layers_cascade:
  "run_layers p l enc is inp (y, out) =
   cascade l enc (map (\<lambda>i. pl_layers p ! (if enc then i else pl_count p - 1 - i)) is) inp (y, out)"
  by (induction "is" arbitrary: inp out)
    (auto simp: fv_cipher_encrypt_def fv_cipher_decrypt_def Let_def split: prod.splits)

lemma map_index_rev: "map (\<lambda>i. f (n - Suc i)) [0..<n] = rev (map f [0..<n])"
  by (rule nth_equalityI) (auto simp: rev_nth)

lemma cascade_snoc:
  "cs \<noteq> [] \<Longrightarrow> cascade l enc (cs @ [c]) inp (y, out) =
   (case cascade l enc cs inp (y, out) of (s, m) \<Rightarrow>
      if s \<noteq> FV_OK then (s, m) else crypt c l (y, m) (y, m) enc)"
proof (induction cs arbitrary: inp out)
  case (Cons a cs)
  then show ?case
    by (cases cs) (auto split: prod.splits fv_status.splits)
qed simp

lemma crypt_length: "length (snd (crypt c l (x, inp) (y, out) enc)) = length out"
  by (auto simp: crypt_def split: option.splits)

lemma ready_crypt_inverse:
  assumes "cipher_ready c"
    and "length inp = 512" "length out = 512" "length out2 = 512"
    and "x = y \<Longrightarrow> out = inp" "x2 = y2 \<Longrightarrow> out2 = ct"
    and "crypt c l (x, inp) (y, out) True = (FV_OK, ct)" "addresses_ok x2 y2"
  shows "crypt c l (x2, ct) (y2, out2) False = (FV_OK, inp)"
proof -
  obtain o' ky k where c: "c = \<lparr>c_ops = Some o', c_key = k\<rparr>"
    and bc: "block_cipher (ops_init o') (ops_block o')" and i: "ops_init o' ky = Some k"
    using assms(1) by (auto simp: cipher_ready_def)
  have "c = \<lparr>c_ops = Some \<lparr>ops_name = ops_name o', ops_init = ops_init o', ops_block = ops_block o'\<rparr>,
      c_key = k\<rparr>" using c by simp
  then show ?thesis by (rule block_cipher.crypt_inverse [OF bc i _ assms(2-8)])
qed

lemma cascade_inverse:
  "cs \<noteq> [] \<Longrightarrow> \<forall>c \<in> set cs. cipher_ready c \<Longrightarrow> length inp = 512 \<Longrightarrow> length out = 512 \<Longrightarrow>
   length out2 = 512 \<Longrightarrow> (x = y \<longrightarrow> out = inp) \<Longrightarrow> (x2 = y2 \<longrightarrow> out2 = ct) \<Longrightarrow> addresses_ok x2 y2 \<Longrightarrow>
   cascade l True cs (x, inp) (y, out) = (FV_OK, ct) \<Longrightarrow>
   cascade l False (rev cs) (x2, ct) (y2, out2) = (FV_OK, inp)"
proof (induction cs arbitrary: x inp out)
  case (Cons c cs)
  obtain m where m: "crypt c l (x, inp) (y, out) True = (FV_OK, m)"
    and rest: "cascade l True cs (y, m) (y, m) = (FV_OK, ct)"
    using Cons.prems by (auto split: prod.splits if_splits)
  have lm: "length m = 512" using crypt_length [of c l x inp y out True] m Cons.prems by simp
  show ?case
  proof (cases "cs = []")
    case True
    with rest have "m = ct" by simp
    with m have "crypt c l (x2, ct) (y2, out2) False = (FV_OK, inp)"
      using Cons.prems by (intro ready_crypt_inverse [where inp = inp and out = out]) auto
    with True show ?thesis by simp
  next
    case False
    have "cascade l False (rev cs) (x2, ct) (y2, out2) = (FV_OK, m)"
      by (rule Cons.IH [OF False _ lm lm]) (use Cons.prems rest in auto)
    moreover have "crypt c l (y2, m) (y2, m) False = (FV_OK, inp)"
      by (rule ready_crypt_inverse [OF _ _ _ lm _ _ m]) (use Cons.prems in \<open>auto simp: addresses_ok_def\<close>)
    ultimately show ?thesis using False by (simp add: cascade_snoc)
  qed
qed simp

lemma ready_pipeline_inverse:
  assumes "pipeline_ready p"
    and "length inp = 512" "length out = 512" "length out2 = 512"
    and "x = y \<longrightarrow> out = inp" "x2 = y2 \<longrightarrow> out2 = ct" "addresses_ok x2 y2"
    and "fv_pipeline_encrypt p lba (x, inp) (y, out) = (FV_OK, ct)"
  shows "fv_pipeline_decrypt p lba (x2, ct) (y2, out2) = (FV_OK, inp)"
proof -
  let ?cs = "map (\<lambda>i. pl_layers p ! i) [0..<pl_count p]"
  have cnt: "0 < pl_count p" "pl_count p \<le> 4" and rdy: "\<forall>c \<in> set ?cs. cipher_ready c"
    using assms(1) by (auto simp: pipeline_ready_def)
  have "cascade lba True ?cs (x, inp) (y, out) = (FV_OK, ct)"
    using assms(8) cnt by (simp add: fv_pipeline_encrypt_def pipeline_run_def run_layers_cascade)
  then have "cascade lba False (rev ?cs) (x2, ct) (y2, out2) = (FV_OK, inp)"
    using cnt by (intro cascade_inverse [OF _ rdy assms(2-7)]) auto
  with cnt show ?thesis
    by (simp add: fv_pipeline_decrypt_def pipeline_run_def run_layers_cascade map_index_rev)
qed

text \<open>C31. Decryption inverts encryption through the whole cascade: a sector that a prepared pipeline
  (any algorithms, one to four layers) encrypted at an address decrypts at the same address to the
  original 512 bytes, whether either call works in place or between disjoint buffers.\<close>

theorem pipeline_round_trip:
  assumes "cipher_law L" "fv_pipeline_init L a keys n = (p, FV_OK)"
    and "length inp = FV_SECTOR_BYTES" "length out = FV_SECTOR_BYTES" "length out2 = FV_SECTOR_BYTES"
    and "x = y \<longrightarrow> out = inp" "x2 = y2 \<longrightarrow> out2 = ct" "addresses_ok x2 y2"
    and "fv_pipeline_encrypt p lba (x, inp) (y, out) = (FV_OK, ct)"
  shows "fv_pipeline_decrypt p lba (x2, ct) (y2, out2) = (FV_OK, inp)"
  using ready_pipeline_inverse [OF pipeline_init_ready [OF assms(1,2)]] assms(3-9) by simp

section \<open>The properties at work\<close>

lemma test_keys:
  "test_key 0 \<noteq> []" "span (test_key 0) 0 32 \<noteq> span (test_key 0) 32 32"
  "test_key 7 \<noteq> []" "span (test_key 7) 0 16 \<noteq> span (test_key 7) 16 16"
  "span (test_key 7) 0 32 \<noteq> span (test_key 0) 0 32"
  by code_simp+

lemma small_lists: "[0..<2] = [0, 1]" "[0..<1] = [0]" "replicate 4 (c :: fv_cipher) = [c, c, c, c]"
  by (simp_all add: upt_rec numeral_eq_Suc)

lemma test_pipeline_eq:
  "test_pipeline =
    (\<lparr>pl_count = 2, pl_layers =
      [\<lparr>c_ops = Some fv_twofish_ops, c_key = Key_Twofish (fv_twofish_setkey (span (test_key 0) 0 32))
          (fv_twofish_setkey (span (test_key 0) 32 32))\<rparr>,
       \<lparr>c_ops = Some (fv_sm4_ops test_ciphers), c_key = Key_Sm4 (span (test_key 7) 0 16)
          (span (test_key 7) 0 16) (span (test_key 7) 16 16)\<rparr>, fv_cipher_clear, fv_cipher_clear]\<rparr>, FV_OK)"
  by (simp add: test_pipeline_def fv_pipeline_init_def small_lists fv_cipher_init_def Let_def
      fv_cipher_key_bytes_def algorithm_defs cipher_ops_of_def test_keys fv_twofish_ops_def
      twofish_init_def fv_sm4_ops_def sm4_init_def fv_pipeline_clear_def keys_overlap_iff test_ciphers_def)

lemma crypt_blocks_total:
  assumes "\<And>b. \<exists>e. ops_block o' k enc False b = Some e"
  shows "fst (crypt_blocks o' k enc same inp is tw out) = FV_OK"
proof (induction "is" arbitrary: tw out)
  case (Cons i "is")
  obtain e where "ops_block o' k enc False (xor_bytes (span (if same then out else inp) (16 * i) 16) tw) = Some e"
    using assms by blast
  with Cons.IH show ?case by (simp add: Let_def)
qed simp

lemma crypt_total:
  assumes "c_ops c = Some o'" "\<And>enc tw b. \<exists>e. ops_block o' (c_key c) enc tw b = Some e" "addresses_ok x y"
  shows "fst (crypt c l (x, inp) (y, out) enc) = FV_OK"
proof -
  obtain tw where "ops_block o' (c_key c) True True (put (zeros 16) 0 l 8) = Some tw"
    using assms(2) by blast
  then show ?thesis using assms by (simp add: crypt_def crypt_blocks_total)
qed

lemma test_pipeline_encrypts:
  "fst (fv_pipeline_encrypt (fst test_pipeline) l (x, inp) (x, out)) = FV_OK"
proof -
  have ok: "fst (crypt (pl_layers (fst test_pipeline) ! i) l (x, inp) (x, out) True) = FV_OK"
    if "i \<in> {0, 1}" for i inp out
    using that by (auto intro!: crypt_total simp: test_pipeline_eq addresses_ok_def fv_twofish_ops_def
        fv_sm4_ops_def)
  have "pl_count (fst test_pipeline) = 2" by (simp add: test_pipeline_eq)
  then show ?thesis using ok [of 0] ok [of 1]
    by (simp add: fv_pipeline_encrypt_def pipeline_run_def run_layers_cascade small_lists split: prod.splits)
      (metis fst_conv)
qed

lemma pipeline_init_keys_independent_witness:
  "pl_count (fst test_pipeline) = 2 \<and>
   span (test_key 7) 0 32 \<noteq> span (test_key 0) 0 32"
proof -
  have eq: "fv_pipeline_init test_ciphers [FV_TWOFISH_256_XTS, FV_SM4_128_XTS] [test_key 0, test_key 7] 2 =
      (fst test_pipeline, FV_OK)"
    using test_pipeline_eq by (simp add: test_pipeline_def)
  show ?thesis
    using pipeline_init_keys_independent [OF eq] test_keys by (simp add: Let_def)
qed

lemma pipeline_round_trip_witness:
  "\<exists>ct. fv_pipeline_encrypt (fst test_pipeline) 7 (0, zeros 512) (0, zeros 512) = (FV_OK, ct) \<and>
     fv_pipeline_decrypt (fst test_pipeline) 7 (1000, ct) (2000, zeros 512) = (FV_OK, zeros 512)"
proof -
  have eq: "fv_pipeline_init test_ciphers [FV_TWOFISH_256_XTS, FV_SM4_128_XTS] [test_key 0, test_key 7] 2 =
      (fst test_pipeline, FV_OK)"
    using test_pipeline_eq by (simp add: test_pipeline_def)
  obtain ct where ct: "fv_pipeline_encrypt (fst test_pipeline) 7 (0, zeros 512) (0, zeros 512) = (FV_OK, ct)"
    using test_pipeline_encrypts [of 7 0 "zeros 512" "zeros 512"] by (metis prod.collapse)
  then show ?thesis
    using pipeline_round_trip [OF cipher_law_test eq, of "zeros 512" "zeros 512" "zeros 512" 0 0 1000 2000 ct 7]
    by (simp add: addresses_ok_def)
qed

end
