(* ===== verification/Volume.thy ===== *)
theory Volume
  imports Codec Pipeline
begin

text \<open>
  The volume descriptor and its 128-byte record (\<^verbatim>\<open>src/src/shared/storage/volume_format.c\<close>): the
  geometry check against the capacity of the card, the canonical codec and the binary search for
  the largest volume that fits. Block counts are 64-bit words, as in the code.
\<close>

definition FV_VOLUME_METADATA_BASE :: u64 where "FV_VOLUME_METADATA_BASE = 2064"
definition UINT32_MAX :: u64 where "UINT32_MAX = 0xffffffff"

record fv_volume_descriptor =
  layout_version :: u16
  volume_id :: "u8 list"
  logical_blocks :: u64
  layer_count :: u8
  cipher_ids :: "u16 list"

text \<open>The sizes of the C arrays.\<close>

definition descriptor_wf :: "fv_volume_descriptor \<Rightarrow> bool" where
  "descriptor_wf d \<longleftrightarrow> length (volume_id d) = 16 \<and> length (cipher_ids d) = 4"

text \<open>\<^verbatim>\<open>n/k+(n%k!=0)\<close>, written out in the code wherever it is used.\<close>

definition div_up :: "u64 \<Rightarrow> u64 \<Rightarrow> u64" where
  "div_up n k = n div k + (if n mod k \<noteq> 0 then 1 else 0)"

definition volume_bitmap :: "u16 \<Rightarrow> u64 \<Rightarrow> u64" where
  "volume_bitmap version m = (if version = 2 then div_up m 4096 else 0)"

definition volume_ids_ok :: "fv_volume_descriptor \<Rightarrow> bool" where
  "volume_ids_ok d \<longleftrightarrow>
     foldl (\<lambda>nonzero b. nonzero OR b) 0 (volume_id d) \<noteq> 0 \<and>
     list_all (\<lambda>i. if i < unat (layer_count d)
                   then fv_cipher_key_bytes (ucast (cipher_ids d ! i)) \<noteq> 0
                   else cipher_ids d ! i = 0) [0..<FV_MAX_LAYERS]"

definition volume_fits :: "fv_volume_descriptor \<Rightarrow> u64 \<Rightarrow> bool" where
  "volume_fits d capacity \<longleftrightarrow>
     (let n = logical_blocks d;
          m = div_up n 15;
          bitmap = volume_bitmap (layout_version d) m
      in capacity \<ge> FV_VOLUME_METADATA_BASE \<and> bitmap \<le> capacity - FV_VOLUME_METADATA_BASE \<and>
         m \<le> capacity - FV_VOLUME_METADATA_BASE - bitmap \<and>
         n \<le> capacity - FV_VOLUME_METADATA_BASE - bitmap - m)"

definition volume_valid :: "fv_volume_descriptor \<Rightarrow> u64 \<Rightarrow> bool" where
  "volume_valid d capacity \<longleftrightarrow>
     (if layout_version d > 2 \<or> logical_blocks d = 0 \<or> layer_count d < 1 \<or>
         unat (layer_count d) > FV_MAX_LAYERS then False
      else if \<not> volume_ids_ok d then False
      else volume_fits d capacity)"

text \<open>\<^verbatim>\<open>"FV2VOL01"\<close>.\<close>

definition volume_magic :: "u8 list" where
  "volume_magic = [0x46, 0x56, 0x32, 0x56, 0x4F, 0x4C, 0x30, 0x31]"

definition fv_volume_descriptor_encode :: "fv_volume_descriptor \<Rightarrow> u64 \<Rightarrow> u8 list option" where
  "fv_volume_descriptor_encode d capacity =
     (if \<not> volume_valid d capacity then None
      else
        (let out = zeros 128;
             out = memcpy out 0 volume_magic;
             out = put out 8 (if layout_version d \<noteq> 0 then layout_version d else 1) 2;
             out = put out 10 (512 :: u64) 2;
             out = memcpy out 16 (volume_id d);
             out = put out 32 (512 :: u64) 4;
             out = put out 36 (1 :: u64) 2;
             out = put out 38 (1 :: u64) 2;
             m = div_up (logical_blocks d) 15;
             bitmap = volume_bitmap (layout_version d) m;
             out = put out 40 (logical_blocks d) 8;
             out = put out 48 (FV_VOLUME_METADATA_BASE + bitmap) 8;
             out = put out 56 m 8;
             out = put out 64 (FV_VOLUME_METADATA_BASE + bitmap + m) 8;
             out = (if bitmap \<noteq> 0
                    then put (put out 100 FV_VOLUME_METADATA_BASE 8) 108 bitmap 8 else out);
             out = put out 72 (16 :: u64) 8;
             out = put out 80 (2048 :: u64) 8;
             out = memcpy out 88 [layer_count d];
             out = memcpy out 89 [1];
             out = foldl (\<lambda>out i. put out (92 + 2 * i) (cipher_ids d ! i) 2) out [0..<FV_MAX_LAYERS]
         in Some out))"

definition fv_volume_descriptor_decode :: "u8 list \<Rightarrow> u64 \<Rightarrow> fv_volume_descriptor option" where
  "fv_volume_descriptor_decode inp capacity =
     (if length inp \<noteq> 128 then None
      else
        (let version = ucast (get inp 8 2) :: u16 in
         if version \<noteq> 1 \<and> version \<noteq> 2 then None
         else
           (let d = \<lparr>layout_version = version, volume_id = span inp 16 16,
                     logical_blocks = get inp 40 8, layer_count = inp ! 88,
                     cipher_ids = map (\<lambda>i. ucast (get inp (92 + 2 * i) 2)) [0..<FV_MAX_LAYERS]\<rparr>
            in case fv_volume_descriptor_encode d capacity of None \<Rightarrow> None
               | Some canonical \<Rightarrow> if inp \<noteq> canonical then None else Some d)))"

text \<open>The binary search; not returning is \<open>None\<close>.\<close>

partial_function (option) max_blocks_loop :: "u64 \<Rightarrow> u64 \<Rightarrow> u64 \<Rightarrow> u64 option" where
  [code]: "max_blocks_loop available low high =
     (if low < high then
        let n = low + (high - low + 1) div 2;
            m = div_up n 15;
            b = div_up m 4096
        in if n + m + b \<le> available then max_blocks_loop available n high
           else max_blocks_loop available low (n - 1)
      else Some low)"

definition fv_volume_max_blocks :: "u64 \<Rightarrow> u64 option" where
  "fv_volume_max_blocks capacity =
     (if capacity \<le> FV_VOLUME_METADATA_BASE then Some 0
      else
        (let available = capacity - FV_VOLUME_METADATA_BASE
         in max_blocks_loop available 0 (if available < UINT32_MAX then available else UINT32_MAX)))"

section \<open>The codec\<close>

definition descriptor_norm :: "fv_volume_descriptor \<Rightarrow> fv_volume_descriptor" where
  "descriptor_norm d = d\<lparr>layout_version := (if layout_version d \<noteq> 0 then layout_version d else 1)\<rparr>"

lemma length_volume_magic [simp]: "length volume_magic = 8"
  by (simp add: volume_magic_def)

lemma four: "[0..<4] = [0, 1, 2, 3 :: nat]"
  by (simp add: upt_rec numeral_eq_Suc)

lemma volume_norm_valid:
  "volume_valid (descriptor_norm d) capacity = volume_valid d capacity"
  by (auto simp: volume_valid_def descriptor_norm_def volume_ids_ok_def volume_fits_def volume_bitmap_def)

lemma volume_encode_norm:
  "fv_volume_descriptor_encode (descriptor_norm d) capacity = fv_volume_descriptor_encode d capacity"
  unfolding fv_volume_descriptor_encode_def volume_norm_valid
  by (simp add: descriptor_norm_def volume_bitmap_def cong: if_cong)

lemma length_volume_encode: "fv_volume_descriptor_encode d capacity = Some b \<Longrightarrow> length b = 128"
  by (auto simp: fv_volume_descriptor_encode_def Let_def four split: if_splits)

lemma volume_encode_fields:
  assumes "fv_volume_descriptor_encode d capacity = Some b" "descriptor_wf d"
  shows "get b 8 2 = ucast (if layout_version d \<noteq> 0 then layout_version d else 1)"
    "span b 16 16 = volume_id d" "get b 40 8 = logical_blocks d" "b ! 88 = layer_count d"
    "get b 92 2 = ucast (cipher_ids d ! 0)" "get b 94 2 = ucast (cipher_ids d ! 1)"
    "get b 96 2 = ucast (cipher_ids d ! 2)" "get b 98 2 = ucast (cipher_ids d ! 3)"
proof -
  define m where "m = div_up (logical_blocks d) 15"
  define bm where "bm = volume_bitmap (layout_version d) m"
  define a where "a = put (put (put (memcpy (put (put (memcpy (zeros 128) 0 volume_magic) 8
      (if layout_version d \<noteq> 0 then layout_version d else 1) 2) 10 (512 :: u64) 2) 16 (volume_id d))
      32 (512 :: u64) 4) 36 (1 :: u64) 2) 38 (1 :: u64) 2"
  define c where "c = put (put (put (put a 40 (logical_blocks d) 8) 48 (FV_VOLUME_METADATA_BASE + bm) 8) 56 m 8) 64
      (FV_VOLUME_METADATA_BASE + bm + m) 8"
  define e where "e = (if bm \<noteq> 0 then put (put c 100 FV_VOLUME_METADATA_BASE 8) 108 bm 8 else c)"
  define f where "f = memcpy (memcpy (put (put e 72 (16 :: u64) 8) 80 (2048 :: u64) 8) 88 [layer_count d]) 89 [1]"
  have b: "b = put (put (put (put f 92 (cipher_ids d ! 0) 2) 94 (cipher_ids d ! 1) 2) 96 (cipher_ids d ! 2) 2)
      98 (cipher_ids d ! 3) 2"
    using assms by (auto simp: fv_volume_descriptor_encode_def Let_def four a_def c_def e_def f_def m_def bm_def
        split: if_splits)
  have len: "length a = 128" "length c = 128" "length e = 128" "length f = 128" "length (volume_id d) = 16"
    using assms(2) by (simp_all add: a_def c_def e_def f_def descriptor_wf_def)
  show "get b 8 2 = ucast (if layout_version d \<noteq> 0 then layout_version d else 1)"
    using len by (simp add: b f_def e_def c_def a_def get_put_other get_memcpy_other get_put_same)
  show "span b 16 16 = volume_id d"
    using len by (simp add: b f_def e_def c_def a_def span_put_other span_memcpy_other span_memcpy_same)
  show "get b 40 8 = logical_blocks d"
    using len by (simp add: b f_def e_def c_def get_put_other get_memcpy_other get_put_same)
  show "b ! 88 = layer_count d"
    using len by (simp add: b f_def nth_put_other nth_memcpy)
  show "get b 92 2 = ucast (cipher_ids d ! 0)" "get b 94 2 = ucast (cipher_ids d ! 1)"
    "get b 96 2 = ucast (cipher_ids d ! 2)" "get b 98 2 = ucast (cipher_ids d ! 3)"
    using len by (simp_all add: b get_put_other get_put_same)
qed

lemma volume_decode_encode:
  assumes "descriptor_wf d" "fv_volume_descriptor_encode d capacity = Some b"
  shows "fv_volume_descriptor_decode b capacity = Some (descriptor_norm d)"
proof -
  note f = volume_encode_fields [OF assms(2,1)]
  have v: "layout_version d \<le> 2"
    using assms(2) by (auto simp: fv_volume_descriptor_encode_def volume_valid_def split: if_splits)
  have ids: "cipher_ids d = [cipher_ids d ! 0, cipher_ids d ! 1, cipher_ids d ! 2, cipher_ids d ! 3]"
    using assms(1) by (auto simp: descriptor_wf_def less_Suc_eq numeral_eq_Suc intro!: nth_equalityI)
  have v': "layout_version d = 0 \<or> layout_version d = 1 \<or> layout_version d = 2"
  proof -
    have "unat (layout_version d) \<le> 2" using v by (simp add: word_le_nat_alt)
    then show ?thesis by (simp add: word_unat_eq_iff) arith
  qed
  have "\<lparr>layout_version = (if layout_version d \<noteq> 0 then layout_version d else 1),
      volume_id = span b 16 16, logical_blocks = get b 40 8, layer_count = b ! 88,
      cipher_ids = map (\<lambda>i. ucast (get b (92 + 2 * i) 2)) [0..<4]\<rparr> = descriptor_norm d"
    using ids by (simp add: f four descriptor_norm_def)
  then show ?thesis
    using v' assms(2) volume_encode_norm [of d capacity] length_volume_encode [OF assms(2)]
    by (auto simp: fv_volume_descriptor_decode_def Let_def f(1))
qed

lemma volume_decode_canonical:
  "fv_volume_descriptor_decode b capacity = Some d \<Longrightarrow> fv_volume_descriptor_encode d capacity = Some b"
  by (auto simp: fv_volume_descriptor_decode_def Let_def split: if_splits option.splits)

lemma volume_decode_wf: "fv_volume_descriptor_decode b capacity = Some d \<Longrightarrow> descriptor_wf d"
  by (auto simp: fv_volume_descriptor_decode_def Let_def descriptor_wf_def split: if_splits option.splits)

interpretation volume_codec: canonical_codec
  "\<lambda>d. fv_volume_descriptor_encode d capacity" "\<lambda>b. fv_volume_descriptor_decode b capacity"
  descriptor_norm descriptor_wf for capacity
  by unfold_locales
    (auto intro: volume_decode_canonical volume_decode_wf volume_decode_encode)

text \<open>The descriptor codec is canonical at every card capacity: a 128-byte record decodes to a
  descriptor exactly when it is that descriptor's encoding and names layout 1 or 2; constants,
  redundant layout fields and reserved bytes are thereby checked, and a record never has two readings.\<close>

theorem volume_descriptor_canonical:
  "fv_volume_descriptor_decode b capacity = Some d \<longleftrightarrow>
   descriptor_wf d \<and> fv_volume_descriptor_encode d capacity = Some b \<and> layout_version d \<noteq> 0"
proof -
  have "descriptor_norm d = d \<longleftrightarrow> layout_version d \<noteq> 0"
    by (cases d) (simp add: descriptor_norm_def)
  then show ?thesis using volume_codec.dec_iff [of b capacity d] by simp
qed

section \<open>The largest volume\<close>

definition cdiv :: "nat \<Rightarrow> nat \<Rightarrow> nat" where
  "cdiv n k = n div k + (if n mod k \<noteq> 0 then 1 else 0)"

text \<open>Sectors a layout-2 volume occupies: data, tag metadata and bitmap.\<close>

definition sectors_needed :: "nat \<Rightarrow> nat" where
  "sectors_needed n = n + cdiv n 15 + cdiv (cdiv n 15) 4096"

lemma cdiv_mono:
  assumes "n \<le> m"
  shows "cdiv n k \<le> cdiv m k"
proof (cases "n div k = m div k")
  case True
  then have "n mod k \<le> m mod k"
    using assms by (metis add_le_cancel_left mult_div_mod_eq)
  with True show ?thesis by (auto simp: cdiv_def)
next
  case False
  then have "n div k < m div k" using div_le_mono [OF assms, of k] by linarith
  then show ?thesis by (simp add: cdiv_def)
qed

lemma cdiv_le: "0 < k \<Longrightarrow> cdiv n k \<le> n"
proof (cases "n div k = n")
  case True
  assume "0 < k"
  then show ?thesis using True by (cases "n = 0") (auto simp: cdiv_def div_eq_dividend_iff)
next
  case False
  then have "n div k < n" using div_le_dividend [of n k] by linarith
  then show ?thesis by (simp add: cdiv_def)
qed

lemma sectors_needed_mono: "n \<le> m \<Longrightarrow> sectors_needed n \<le> sectors_needed m"
  unfolding sectors_needed_def by (intro add_mono cdiv_mono) auto

lemma unat_div_up: "2 \<le> k \<Longrightarrow> unat (div_up n k) = cdiv (unat n) (unat k)"
proof -
  assume "2 \<le> k"
  then have k: "2 \<le> unat k" by (simp add: word_le_nat_alt)
  have "unat n div unat k \<le> unat n div 2" using k by (intro div_le_mono2) auto
  also have "\<dots> < 2 ^ 64 - 1" using unsigned_less [of n, where 'a = nat] by simp
  finally have "unat n div unat k + 1 < 2 ^ 64" by simp
  then have "unat (n div k + 1) = unat n div unat k + 1"
    by (simp add: unat_word_ariths unat_div)
  then show ?thesis by (auto simp: div_up_def cdiv_def unat_div unat_mod word_unat_eq_iff)
qed

lemma unat_div_up_15 [simp]: "unat (div_up n 15) = cdiv (unat n) 15"
  by (subst unat_div_up) (auto simp: word_le_nat_alt)

lemma unat_div_up_4096 [simp]: "unat (div_up n 4096) = cdiv (unat n) 4096"
  by (subst unat_div_up) (auto simp: word_le_nat_alt)

lemma needed_unat:
  assumes "n \<le> UINT32_MAX"
  shows "unat (n + div_up n 15 + div_up (div_up n 15) 4096) = sectors_needed (unat n)"
proof -
  have "unat n < 2 ^ 32" using assms by (simp add: UINT32_MAX_def word_le_nat_alt)
  moreover have "cdiv (unat n) 15 \<le> unat n" "cdiv (cdiv (unat n) 15) 4096 \<le> cdiv (unat n) 15"
    by (simp_all add: cdiv_le)
  ultimately show ?thesis by (simp add: unat_word_ariths sectors_needed_def)
qed

lemma mid_unat:
  assumes "low < high" "high \<le> UINT32_MAX"
  shows "unat (low + (high - low + 1) div 2) = unat low + (unat high - unat low + 1) div 2"
proof -
  have b: "unat low < unat high" "unat high < 2 ^ 32"
    using assms by (auto simp: UINT32_MAX_def word_le_nat_alt word_less_nat_alt)
  have "unat (high - low + 1) = unat high - unat low + 1"
    using b by (simp add: unat_word_ariths unat_sub word_le_nat_alt)
  with b show ?thesis by (simp add: unat_word_ariths unat_div)
qed

lemma max_blocks_loop_exact:
  assumes "low \<le> high" "high \<le> UINT32_MAX" "sectors_needed (unat low) \<le> unat available"
  shows "\<exists>r. max_blocks_loop available low high = Some r \<and> r \<le> high \<and>
    sectors_needed (unat r) \<le> unat available \<and>
    (\<forall>n. unat r < n \<longrightarrow> n \<le> unat high \<longrightarrow> unat available < sectors_needed n)"
  using assms
proof (induction "unat high - unat low" arbitrary: low high rule: less_induct)
  case less
  show ?case
  proof (cases "low < high")
    case False
    with less.prems show ?thesis by (subst max_blocks_loop.simps) auto
  next
    case True
    define n where "n = low + (high - low + 1) div 2"
    have b: "unat low < unat high" "unat high < 2 ^ 32"
      using True less.prems by (auto simp: UINT32_MAX_def word_le_nat_alt word_less_nat_alt)
    have n: "unat n = unat low + (unat high - unat low + 1) div 2"
      unfolding n_def using mid_unat [OF True less.prems(2)] .
    have nb: "unat low < unat n" "unat n \<le> unat high" using b by (simp_all add: n)
    then have nm: "n \<le> UINT32_MAX" using less.prems(2) by (simp add: word_le_nat_alt)
    note needed = needed_unat [OF nm]
    have step: "max_blocks_loop available low high =
        (if n + div_up n 15 + div_up (div_up n 15) 4096 \<le> available
         then max_blocks_loop available n high else max_blocks_loop available low (n - 1))"
      using True by (subst max_blocks_loop.simps) (simp add: Let_def n_def)
    show ?thesis
    proof (cases "sectors_needed (unat n) \<le> unat available")
      case True
      then have "n + div_up n 15 + div_up (div_up n 15) 4096 \<le> available"
        using needed by (simp add: word_le_nat_alt)
      then show ?thesis using less.hyps [of high n] True nb less.prems
        by (simp add: step word_le_nat_alt)
    next
      case False
      then have no: "\<not> n + div_up n 15 + div_up (div_up n 15) 4096 \<le> available"
        using needed by (simp add: word_le_nat_alt)
      have n1: "unat (n - 1) = unat n - 1" using nb by (simp add: unat_sub word_le_nat_alt)
      have "\<exists>r. max_blocks_loop available low (n - 1) = Some r \<and> r \<le> n - 1 \<and>
          sectors_needed (unat r) \<le> unat available \<and>
          (\<forall>k. unat r < k \<longrightarrow> k \<le> unat (n - 1) \<longrightarrow> unat available < sectors_needed k)"
        using nb less.prems n1 by (intro less.hyps) (auto simp: word_le_nat_alt)
      then obtain r where r: "max_blocks_loop available low (n - 1) = Some r" "unat r \<le> unat n - 1"
          "sectors_needed (unat r) \<le> unat available"
          "\<forall>k. unat r < k \<longrightarrow> k \<le> unat n - 1 \<longrightarrow> unat available < sectors_needed k"
        using n1 by (auto simp: word_le_nat_alt)
      have "unat available < sectors_needed k" if "unat r < k" "k \<le> unat high" for k
        using r(4) that False sectors_needed_mono [of "unat n" k] by (cases "k < unat n") auto
      with r nb no show ?thesis by (auto simp: step word_le_nat_alt intro!: exI [of _ r])
    qed
  qed
qed

lemma volume_fits_unat:
  assumes "layout_version d = 2"
  shows "volume_fits d capacity \<longleftrightarrow> 2064 \<le> unat capacity \<and>
    sectors_needed (unat (logical_blocks d)) \<le> unat capacity - 2064"
proof (cases "2064 \<le> unat capacity")
  case True
  define c where "c = capacity - FV_VOLUME_METADATA_BASE"
  have c: "unat c = unat capacity - 2064"
    using True by (simp add: c_def FV_VOLUME_METADATA_BASE_def unat_sub word_le_nat_alt)
  define m where "m = div_up (logical_blocks d) 15"
  define b where "b = div_up m 4096"
  have s: "sectors_needed (unat (logical_blocks d)) = unat (logical_blocks d) + unat m + unat b"
    by (simp add: sectors_needed_def m_def b_def)
  have "volume_fits d capacity \<longleftrightarrow> b \<le> c \<and> m \<le> c - b \<and> logical_blocks d \<le> c - b - m"
    using assms True
    by (simp add: volume_fits_def Let_def volume_bitmap_def b_def m_def c_def FV_VOLUME_METADATA_BASE_def
        word_le_nat_alt)
  also have "\<dots> \<longleftrightarrow> unat (logical_blocks d) + unat m + unat b \<le> unat c"
    by (auto simp: word_le_nat_alt unat_sub)
  finally show ?thesis using True s c by simp
next
  case False
  then show ?thesis by (simp add: volume_fits_def Let_def FV_VOLUME_METADATA_BASE_def word_le_nat_alt)
qed

lemma volume_valid_unat:
  assumes "layout_version d = 2" "volume_ids_ok d" "1 \<le> layer_count d" "layer_count d \<le> 4"
  shows "volume_valid d capacity \<longleftrightarrow> logical_blocks d \<noteq> 0 \<and> 2064 \<le> unat capacity \<and>
    sectors_needed (unat (logical_blocks d)) \<le> unat capacity - 2064"
  using assms volume_fits_unat [OF assms(1), of capacity]
  by (auto simp: volume_valid_def word_le_nat_alt word_less_nat_alt)

lemma sectors_needed_ge: "n \<le> sectors_needed n"
  by (simp add: sectors_needed_def)

text \<open>The binary search of \<open>fv_volume_max_blocks\<close> returns, and its answer is exact: among the
  layout-2 descriptors with valid identifiers that the 32-bit USB block address can reach, the
  geometry check accepts precisely those with at most that many blocks. No usable sector is lost
  and none beyond the card is promised.\<close>

theorem volume_max_blocks_exact:
  "\<exists>r. fv_volume_max_blocks capacity = Some r \<and>
     (\<forall>d. layout_version d = 2 \<longrightarrow> volume_ids_ok d \<longrightarrow> 1 \<le> layer_count d \<longrightarrow> layer_count d \<le> 4 \<longrightarrow>
        logical_blocks d \<le> UINT32_MAX \<longrightarrow>
        (volume_valid d capacity \<longleftrightarrow> logical_blocks d \<noteq> 0 \<and> logical_blocks d \<le> r))"
proof (cases "capacity \<le> FV_VOLUME_METADATA_BASE")
  case True
  then have "unat capacity \<le> 2064" by (simp add: FV_VOLUME_METADATA_BASE_def word_le_nat_alt)
  then have "\<not> (2064 \<le> unat capacity \<and> sectors_needed (unat n) \<le> unat capacity - 2064)" if "n \<noteq> 0" for n :: u64
  proof -
    have "0 < unat n" using that by (simp add: unat_gt_0)
    then show ?thesis using sectors_needed_ge [of "unat n"] \<open>unat capacity \<le> 2064\<close> by linarith
  qed
  with True show ?thesis by (auto simp: fv_volume_max_blocks_def volume_valid_unat)
next
  case False
  define available where "available = capacity - FV_VOLUME_METADATA_BASE"
  have av: "unat available = unat capacity - 2064" "2064 \<le> unat capacity"
    using False by (simp_all add: available_def FV_VOLUME_METADATA_BASE_def unat_sub word_le_nat_alt)
  let ?high = "if available < UINT32_MAX then available else UINT32_MAX"
  have "?high \<le> UINT32_MAX" by auto
  then obtain r where r: "max_blocks_loop available 0 ?high = Some r" "r \<le> ?high"
      "sectors_needed (unat r) \<le> unat available"
      "\<And>n. unat r < n \<Longrightarrow> n \<le> unat ?high \<Longrightarrow> unat available < sectors_needed n"
    using max_blocks_loop_exact [of 0 ?high available] by (auto simp: sectors_needed_def cdiv_def)
  have key: "sectors_needed (unat n) \<le> unat available \<longleftrightarrow> n \<le> r" if "n \<le> UINT32_MAX" for n :: u64
  proof
    assume fits: "sectors_needed (unat n) \<le> unat available"
    then have "unat n \<le> unat ?high"
      using that sectors_needed_ge [of "unat n"] by (simp add: word_le_nat_alt)
    with fits r(4) [of "unat n"] show "n \<le> r" by (force simp: word_le_nat_alt)
  next
    assume "n \<le> r"
    then show "sectors_needed (unat n) \<le> unat available"
      using sectors_needed_mono [of "unat n" "unat r"] r(3) by (simp add: word_le_nat_alt)
  qed
  have "fv_volume_max_blocks capacity = Some r"
    using False r(1) unfolding fv_volume_max_blocks_def available_def by (simp only: Let_def if_False)
  with key av show ?thesis by (auto simp: volume_valid_unat)
qed

definition test_descriptor :: "u64 \<Rightarrow> fv_volume_descriptor" where
  "test_descriptor blocks = \<lparr>layout_version = 2, volume_id = 1 # zeros 15, logical_blocks = blocks,
     layer_count = 1, cipher_ids = [5, 0, 0, 0]\<rparr>"

lemma test_descriptor_ids: "volume_ids_ok (test_descriptor blocks)"
  by (simp add: volume_ids_ok_def test_descriptor_def four fv_cipher_key_bytes_def algorithm_defs
      foldl_or_0_iff)

lemma volume_max_blocks_exact_witness:
  "\<exists>r. fv_volume_max_blocks 10000 = Some r \<and>
     (volume_valid (test_descriptor 7000) 10000 \<longleftrightarrow> 7000 \<le> r) \<and>
     (volume_valid (test_descriptor 8000) 10000 \<longleftrightarrow> 8000 \<le> r)"
proof -
  obtain r where r: "fv_volume_max_blocks 10000 = Some r"
    and v: "\<forall>d. layout_version d = 2 \<longrightarrow> volume_ids_ok d \<longrightarrow> 1 \<le> layer_count d \<longrightarrow> layer_count d \<le> 4 \<longrightarrow>
        logical_blocks d \<le> UINT32_MAX \<longrightarrow>
        (volume_valid d 10000 \<longleftrightarrow> logical_blocks d \<noteq> 0 \<and> logical_blocks d \<le> r)"
    using volume_max_blocks_exact [of 10000] by blast
  show ?thesis
    using r v [rule_format, of "test_descriptor 7000"] v [rule_format, of "test_descriptor 8000"]
      test_descriptor_ids [of 7000] test_descriptor_ids [of 8000]
    by (simp add: test_descriptor_def UINT32_MAX_def)
qed

end
