(* ===== verification/Working_Keys.thy ===== *)
theory Working_Keys
  imports Hash Volume
begin

text \<open>
  The working keys of an unlocked volume (\<^verbatim>\<open>fv_derive_working_keys\<close> in
  \<^verbatim>\<open>src/src/shared/security/key_derivation.c\<close>): HKDF from the volume master key, salted by the
  volume id, one expansion per cascade layer and one for the sector HMAC, each with its own label.
  The property shows that the expansions are domain separated.
\<close>

definition UINT64_MAX :: u64 where "UINT64_MAX = 0xffffffffffffffff"

lemma sequence_next: "p \<noteq> UINT64_MAX \<Longrightarrow> p < p + (1 :: u64)"
proof -
  assume "p \<noteq> UINT64_MAX"
  moreover have "p = UINT64_MAX" if "1 + p = 0"
  proof -
    have "p = - 1" using that by (simp add: add_eq_0_iff)
    then show ?thesis by (simp add: UINT64_MAX_def)
  qed
  ultimately have "1 + p \<noteq> 0" by blast
  then have "unat (1 + p) = Suc (unat p)" by (rule unatSuc)
  then show ?thesis by (simp add: word_less_nat_alt add.commute)
qed

record fv_working_keys =
  wk_layers :: "u8 list list"
  wk_integrity :: "u8 list"

definition fv_working_keys_clear :: fv_working_keys where
  "fv_working_keys_clear = \<lparr>wk_layers = replicate 4 (zeros 64), wk_integrity = zeros 32\<rparr>"

definition layer_info :: "u8 list \<Rightarrow> nat \<Rightarrow> u16 \<Rightarrow> u8 list" where
  "layer_info digest i ident =
     label ''FV2/xts-layer/v1'' @ digest @ le_bytes (of_nat i :: u32) 4 @
     [ucast ident, ucast (drop_bit 8 ident)]"

definition integrity_info :: "u8 list \<Rightarrow> u8 list" where
  "integrity_info digest = label ''FV2/sector-hmac/v1'' @ digest"

fun working_layers ::
  "sha_lib \<Rightarrow> fv_volume_descriptor \<Rightarrow> u8 list \<Rightarrow> u8 list \<Rightarrow> nat list \<Rightarrow> u8 list list \<Rightarrow> u8 list list option" where
  "working_layers SL d digest prk [] ls = Some ls"
| "working_layers SL d digest prk (i # is) ls =
     (case fv_hkdf_expand SL prk (layer_info digest i (cipher_ids d ! i))
             (fv_cipher_key_bytes (ucast (cipher_ids d ! i))) of None \<Rightarrow> None
      | Some okm \<Rightarrow> working_layers SL d digest prk is (ls[i := memcpy (ls ! i) 0 okm]))"

definition fv_derive_working_keys :: "sha_lib \<Rightarrow> u8 list \<Rightarrow> fv_volume_descriptor \<Rightarrow> fv_working_keys option" where
  "fv_derive_working_keys SL vmk d =
     (case fv_volume_descriptor_encode d UINT64_MAX of None \<Rightarrow> None
      | Some descriptor \<Rightarrow>
        (case sha_oneshot SL descriptor of None \<Rightarrow> None
         | Some digest \<Rightarrow>
           (case fv_hkdf_extract SL (volume_id d) vmk of None \<Rightarrow> None
            | Some prk \<Rightarrow>
              (case working_layers SL d digest prk [0..<unat (layer_count d)] (wk_layers fv_working_keys_clear) of
                 None \<Rightarrow> None
               | Some ls \<Rightarrow>
                 (case fv_hkdf_expand SL prk (integrity_info digest) 32 of None \<Rightarrow> None
                  | Some k \<Rightarrow> Some \<lparr>wk_layers = ls, wk_integrity = k\<rparr>)))))"

section \<open>The layers are independent expansions\<close>

lemma working_layers_spec:
  "working_layers SL d digest prk xs ls = Some ls' \<Longrightarrow> distinct xs \<Longrightarrow>
   length ls' = length ls \<and> (\<forall>i < length ls. i \<notin> set xs \<longrightarrow> ls' ! i = ls ! i) \<and>
   (\<forall>i \<in> set xs. i < length ls \<longrightarrow> (\<exists>okm.
      fv_hkdf_expand SL prk (layer_info digest i (cipher_ids d ! i)) (fv_cipher_key_bytes (ucast (cipher_ids d ! i))) = Some okm \<and>
      ls' ! i = memcpy (ls ! i) 0 okm))"
proof (induction xs arbitrary: ls)
  case (Cons x xs)
  obtain okm where h: "fv_hkdf_expand SL prk (layer_info digest x (cipher_ids d ! x))
      (fv_cipher_key_bytes (ucast (cipher_ids d ! x))) = Some okm"
    and r: "working_layers SL d digest prk xs (ls[x := memcpy (ls ! x) 0 okm]) = Some ls'"
    using Cons.prems(1) by (auto split: option.splits)
  note ih = Cons.IH [OF r]
  have d: "x \<notin> set xs" "distinct xs" using Cons.prems(2) by auto
  have "ls[x := memcpy (ls ! x) 0 okm] ! i = ls ! i" if "i \<in> set xs" for i
    using that d by (metis nth_list_update_neq)
  then show ?case
    using ih [OF d(2)] d h by (auto simp: nth_list_update)
qed simp

lemma append_eq_length: "length a = length b \<Longrightarrow> a @ c = b @ d \<longleftrightarrow> a = b \<and> c = d"
  by (rule append_eq_append_conv) simp

lemma layer_info_inject:
  assumes "i < 4" "j < 4" "layer_info digest i a = layer_info digest j b"
  shows "i = j"
proof -
  have "le_bytes (of_nat i :: u32) 4 = le_bytes (of_nat j :: u32) 4"
    using assms(3) by (simp add: layer_info_def append_eq_length)
  then have "(of_nat i :: u32) = of_nat j" by (simp add: le_bytes_inject)
  then show ?thesis using assms(1,2) by (simp add: of_nat_eq_iff word_of_nat_eq_iff take_bit_nat_eq_self)
qed

lemma layer_info_not_integrity: "layer_info digest i a \<noteq> integrity_info digest'"
proof
  assume "layer_info digest i a = integrity_info digest'"
  then have "layer_info digest i a ! 4 = integrity_info digest' ! 4" by simp
  then show False by (simp add: layer_info_def integrity_info_def label_def ascii_def nth_append)
qed

text \<open>Working keys are bound to the volume and mutually domain separated: from a descriptor that
  encodes, every active layer's key is the HKDF expansion, of exactly the length its cipher uses, of
  one pseudorandom key under an information string naming the descriptor's digest, the position and
  the cipher; these strings differ between layers and from the sector HMAC's; inactive layers stay zero.\<close>

theorem working_keys_domain_separated:
  assumes "fv_derive_working_keys SL vmk d = Some k"
  shows "\<exists>b digest prk.
    fv_volume_descriptor_encode d UINT64_MAX = Some b \<and> sha_oneshot SL b = Some digest \<and>
    fv_hkdf_extract SL (volume_id d) vmk = Some prk \<and>
    fv_hkdf_expand SL prk (integrity_info digest) 32 = Some (wk_integrity k) \<and>
    (\<forall>i < unat (layer_count d). \<exists>okm.
       fv_hkdf_expand SL prk (layer_info digest i (cipher_ids d ! i)) (fv_cipher_key_bytes (ucast (cipher_ids d ! i))) = Some okm \<and>
       wk_layers k ! i = memcpy (zeros 64) 0 okm) \<and>
    (\<forall>i < 4. unat (layer_count d) \<le> i \<longrightarrow> wk_layers k ! i = zeros 64) \<and>
    (\<forall>i < 4. layer_info digest i (cipher_ids d ! i) \<noteq> integrity_info digest \<and>
       (\<forall>j < 4. i \<noteq> j \<longrightarrow> layer_info digest i (cipher_ids d ! i) \<noteq> layer_info digest j (cipher_ids d ! j)))"
proof -
  obtain b digest prk ls where e: "fv_volume_descriptor_encode d UINT64_MAX = Some b" "sha_oneshot SL b = Some digest"
    "fv_hkdf_extract SL (volume_id d) vmk = Some prk"
    "working_layers SL d digest prk [0..<unat (layer_count d)] (replicate 4 (zeros 64)) = Some ls"
    "fv_hkdf_expand SL prk (integrity_info digest) 32 = Some (wk_integrity k)" "wk_layers k = ls"
    using assms by (auto simp: fv_derive_working_keys_def fv_working_keys_clear_def split: option.splits)
  have n: "unat (layer_count d) \<le> 4"
    using e(1) by (auto simp: fv_volume_descriptor_encode_def volume_valid_def split: if_splits)
  note w = working_layers_spec [OF e(4)]
  have "\<forall>i < unat (layer_count d). \<exists>okm.
       fv_hkdf_expand SL prk (layer_info digest i (cipher_ids d ! i)) (fv_cipher_key_bytes (ucast (cipher_ids d ! i))) = Some okm \<and>
       wk_layers k ! i = memcpy (zeros 64) 0 okm"
    "\<forall>i < 4. unat (layer_count d) \<le> i \<longrightarrow> wk_layers k ! i = zeros 64"
    using w e(6) n by auto
  moreover have "\<forall>i < 4. layer_info digest i (cipher_ids d ! i) \<noteq> integrity_info digest \<and>
       (\<forall>j < 4. i \<noteq> j \<longrightarrow> layer_info digest i (cipher_ids d ! i) \<noteq> layer_info digest j (cipher_ids d ! j))"
    using layer_info_inject layer_info_not_integrity by blast
  ultimately show ?thesis using e by blast
qed

lemma working_layers_total:
  assumes "sha_total SL" "prk \<noteq> []" "length digest \<le> 200"
  shows "(\<And>i. i \<in> set xs \<Longrightarrow> fv_cipher_key_bytes (ucast (cipher_ids d ! i)) \<noteq> 0) \<Longrightarrow>
    \<exists>ls'. working_layers SL d digest prk xs ls = Some ls'"
proof (induction xs arbitrary: ls)
  case (Cons x xs)
  have "0 < fv_cipher_key_bytes (ucast (cipher_ids d ! x))" "fv_cipher_key_bytes (ucast (cipher_ids d ! x)) \<le> 8160"
    using Cons.prems [of x] by (auto simp: fv_cipher_key_bytes_def split: if_splits)
  moreover have "length (layer_info digest x (cipher_ids d ! x)) \<le> 256"
    using assms(3) by (simp add: layer_info_def)
  ultimately obtain okm where "fv_hkdf_expand SL prk (layer_info digest x (cipher_ids d ! x))
      (fv_cipher_key_bytes (ucast (cipher_ids d ! x))) = Some okm"
    using hkdf_expand_total [OF assms(1,2)] by blast
  then show ?case using Cons by simp
qed simp

lemma derive_working_keys_total:
  assumes "sha_total SL" "digest_law SL" "\<And>m x. sha_oneshot SL m = Some x \<Longrightarrow> length x = 32"
    and "fv_volume_descriptor_encode d UINT64_MAX = Some b"
  shows "\<exists>k. fv_derive_working_keys SL vmk d = Some k"
proof -
  obtain digest prk where digest: "sha_oneshot SL b = Some digest" "length digest = 32"
    and prk: "fv_hkdf_extract SL (volume_id d) vmk = Some prk" "length prk = 32"
    using assms(1,3) hkdf_extract_total [OF assms(1), of "volume_id d" vmk] length_hkdf_extract [OF assms(2)]
    by (metis option.exhaust_sel sha_total_def)
  have "fv_cipher_key_bytes (ucast (cipher_ids d ! i)) \<noteq> 0" if "i < unat (layer_count d)" for i
    using assms(4) that by (auto simp: fv_volume_descriptor_encode_def volume_valid_def volume_ids_ok_def
        list_all_iff split: if_splits)
  then obtain ls where "working_layers SL d digest prk [0..<unat (layer_count d)] (wk_layers fv_working_keys_clear) = Some ls"
    using working_layers_total [OF assms(1), of prk digest "[0..<unat (layer_count d)]" d] digest prk by fastforce
  moreover obtain k where "fv_hkdf_expand SL prk (integrity_info digest) 32 = Some k"
    using hkdf_expand_total [OF assms(1), of prk 32 "integrity_info digest"] digest prk
    by (fastforce simp: integrity_info_def)
  ultimately show ?thesis using assms(4) digest prk by (simp add: fv_derive_working_keys_def)
qed

lemma volume_encode_total: "volume_valid d capacity \<Longrightarrow> \<exists>b. fv_volume_descriptor_encode d capacity = Some b"
  by (simp add: fv_volume_descriptor_encode_def Let_def)

lemma working_keys_domain_separated_witness:
  "\<exists>k digest prk. fv_derive_working_keys test_sha (replicate 32 3) (test_descriptor 7000) = Some k \<and>
     fv_hkdf_expand test_sha prk (integrity_info digest) 32 = Some (wk_integrity k)"
proof -
  have "volume_valid (test_descriptor 7000) UINT64_MAX"
    using test_descriptor_ids [of 7000]
    by (simp add: volume_valid_def volume_fits_def Let_def test_descriptor_def div_up_def volume_bitmap_def
        FV_VOLUME_METADATA_BASE_def UINT64_MAX_def)
  then obtain b where b: "fv_volume_descriptor_encode (test_descriptor 7000) UINT64_MAX = Some b"
    using volume_encode_total by blast
  have "sha_oneshot test_sha m = Some x \<Longrightarrow> length x = 32" for m x by (auto simp: test_sha_def)
  then have "\<exists>k. fv_derive_working_keys test_sha (replicate 32 3) (test_descriptor 7000) = Some k"
    by (intro derive_working_keys_total [OF _ _ _ b]) simp_all
  then obtain k where k: "fv_derive_working_keys test_sha (replicate 32 3) (test_descriptor 7000) = Some k" ..
  show ?thesis using working_keys_domain_separated [OF k] k by blast
qed

end
