(* ===== verification/Policy.thy ===== *)
theory Policy
  imports Codec
begin

text \<open>
  The authentication policy and its sixteen-byte record
  (\<^verbatim>\<open>src/src/shared/security/policy.c\<close>, types in
  \<^verbatim>\<open>src/src/shared/security/include/fuse_vault/security.h\<close>). The C enum
  \<^verbatim>\<open>fv_limit_action\<close> is read back from storage, so it is kept as an unsigned integer with
  named values rather than a datatype.
\<close>

definition FV_AUTH_POLICY_BYTES :: nat where
  "FV_AUTH_POLICY_BYTES = 16"

definition FV_LIMIT_DESTROY :: u32 where "FV_LIMIT_DESTROY = 1"
definition FV_LIMIT_LOCKOUT :: u32 where "FV_LIMIT_LOCKOUT = 2"
definition FV_LIMIT_NONE :: u32 where "FV_LIMIT_NONE = 5"

lemmas limit_defs = FV_LIMIT_DESTROY_def FV_LIMIT_LOCKOUT_def FV_LIMIT_NONE_def

record fv_auth_policy =
  max_attempts :: u32
  limit_action :: u32
  auto_lock_seconds :: u32
  screen_sleep_seconds :: u16

definition fv_auth_policy_default :: fv_auth_policy where
  "fv_auth_policy_default = \<lparr>max_attempts = 10, limit_action = FV_LIMIT_DESTROY,
     auto_lock_seconds = 300, screen_sleep_seconds = 0\<rparr>"

definition auto_lock_allowed :: "u32 \<Rightarrow> bool" where
  "auto_lock_allowed s \<longleftrightarrow> s \<in> set [0, 60, 120, 300, 600, 900, 1800]"

definition screen_sleep_allowed :: "u16 \<Rightarrow> bool" where
  "screen_sleep_allowed s \<longleftrightarrow> s \<in> set [0, 30, 60, 120, 300, 600, 0xffff]"

definition fv_auth_policy_encode :: "fv_auth_policy \<Rightarrow> u8 list option" where
  "fv_auth_policy_encode p =
     (if (if limit_action p = FV_LIMIT_NONE then max_attempts p \<noteq> 0
          else max_attempts p = 0 \<or>
               (limit_action p \<noteq> FV_LIMIT_DESTROY \<and> limit_action p \<noteq> FV_LIMIT_LOCKOUT)) then None
      else if \<not> auto_lock_allowed (auto_lock_seconds p) then None
      else if \<not> screen_sleep_allowed (screen_sleep_seconds p) then None
      else
        (let out = zeros 16;
             out = memcpy out 0 [1];
             out = memcpy out 2 [16];
             out = put out 4 (max_attempts p) 4;
             out = memcpy out 8 [ucast (limit_action p)];
             out = put out 10 (auto_lock_seconds p) 4;
             out = memcpy out 14 [ucast (screen_sleep_seconds p)];
             out = memcpy out 15 [ucast (drop_bit 8 (screen_sleep_seconds p))]
         in Some out))"

definition fv_auth_policy_decode :: "u8 list \<Rightarrow> fv_auth_policy option" where
  "fv_auth_policy_decode inp =
     (if length inp \<noteq> 16 then None
      else
        (let p = \<lparr>max_attempts = ucast (get inp 4 4), limit_action = ucast (get inp 8 2),
                  auto_lock_seconds = ucast (get inp 10 4),
                  screen_sleep_seconds = ucast (get inp 14 2)\<rparr>
         in case fv_auth_policy_encode p of None \<Rightarrow> None
            | Some encoded \<Rightarrow> if inp \<noteq> encoded then None else Some p))"

section \<open>Well-formed policies\<close>

definition policy_ok :: "fv_auth_policy \<Rightarrow> bool" where
  "policy_ok p \<longleftrightarrow>
     (limit_action p = FV_LIMIT_NONE \<and> max_attempts p = 0 \<or>
      (limit_action p = FV_LIMIT_DESTROY \<or> limit_action p = FV_LIMIT_LOCKOUT) \<and> max_attempts p \<noteq> 0)
     \<and> auto_lock_allowed (auto_lock_seconds p) \<and> screen_sleep_allowed (screen_sleep_seconds p)"

lemma policy_encode_Some_iff: "(\<exists>b. fv_auth_policy_encode p = Some b) \<longleftrightarrow> policy_ok p"
  by (auto simp: fv_auth_policy_encode_def policy_ok_def limit_defs Let_def)

lemma policy_encode_ok: "fv_auth_policy_encode p = Some b \<Longrightarrow> policy_ok p"
  using policy_encode_Some_iff by blast

lemma length_policy_encode: "fv_auth_policy_encode p = Some b \<Longrightarrow> length b = 16"
  by (auto simp: fv_auth_policy_encode_def Let_def split: if_splits)

lemma policy_none_attempts: "policy_ok p \<Longrightarrow> limit_action p = FV_LIMIT_NONE \<longleftrightarrow> max_attempts p = 0"
  by (auto simp: policy_ok_def limit_defs)

section \<open>Field access of the encoding\<close>

lemma get2_split:
  assumes "off + 2 \<le> length p"
  shows "get p off 2 = ucast (p ! off) OR push_bit 8 (ucast (p ! Suc off))"
proof -
  have "span p off 2 = [p ! off, p ! Suc off]"
    using assms by (auto simp: span_def take_Suc_conv_app_nth drop_Suc numeral_2_eq_2 nth_tl
        intro!: nth_equalityI simp: less_Suc_eq nth_append)
  then show ?thesis by (simp add: get_def)
qed

lemma policy_eta:
  "\<lparr>max_attempts = max_attempts p, limit_action = limit_action p,
    auto_lock_seconds = auto_lock_seconds p, screen_sleep_seconds = screen_sleep_seconds p\<rparr> = p"
  by simp

lemma policy_decode_encode:
  assumes "fv_auth_policy_encode p = Some b"
  shows "fv_auth_policy_decode b = Some p"
proof -
  have ok: "policy_ok p" using assms by (rule policy_encode_ok)
  then have la: "limit_action p \<in> {1, 2, 5}" by (auto simp: policy_ok_def limit_defs)
  define b0 where "b0 = put (memcpy (memcpy (zeros 16) 0 [1]) 2 [16]) 4 (max_attempts p) 4"
  define b1 where "b1 = put (memcpy b0 8 [ucast (limit_action p)]) 10 (auto_lock_seconds p) 4"
  have b: "b = memcpy (memcpy b1 14 [ucast (screen_sleep_seconds p)]) 15
                 [ucast (drop_bit 8 (screen_sleep_seconds p))]"
    using assms by (auto simp: fv_auth_policy_encode_def Let_def b0_def b1_def split: if_splits)
  have len: "length b0 = 16" "length b1 = 16" "length b = 16" by (simp_all add: b b1_def b0_def)
  have m: "ucast (get b 4 4) = max_attempts p"
    by (simp add: b b1_def b0_def buffer_simps)
  have a: "ucast (get b 10 4) = auto_lock_seconds p"
    using len by (simp add: b b1_def buffer_simps)
  have l: "ucast (get b 8 2) = limit_action p"
  proof -
    have "get b 8 2 = get (memcpy b0 8 [ucast (limit_action p)]) 8 2"
      by (simp add: b b1_def buffer_simps)
    also have "\<dots> = ucast (ucast (limit_action p) :: u8)"
    proof -
      have "b0 ! 9 = 0" by (simp add: b0_def nth_put_other nth_memcpy_outside zeros_def)
      then show ?thesis using len by (simp add: get2_split nth_memcpy)
    qed
    finally show ?thesis using la by auto
  qed
  have s: "ucast (get b 14 2) = screen_sleep_seconds p"
  proof -
    have "get b 14 2 = ucast (ucast (screen_sleep_seconds p) :: u8) OR
        push_bit 8 (ucast (ucast (drop_bit 8 (screen_sleep_seconds p)) :: u8))"
      using len by (simp add: get2_split b nth_memcpy)
    then show ?thesis by (auto intro!: bit_word_eqI simp: bit_simps)
  qed
  show ?thesis using len assms
    by (simp add: fv_auth_policy_decode_def Let_def m a l s policy_eta)
qed

lemma policy_decode_canonical:
  "fv_auth_policy_decode b = Some p \<Longrightarrow> fv_auth_policy_encode p = Some b"
  by (auto simp: fv_auth_policy_decode_def Let_def split: if_splits option.splits)

interpretation policy_codec:
  canonical_codec fv_auth_policy_encode fv_auth_policy_decode "\<lambda>p. p" "\<lambda>_. True"
  by unfold_locales (auto intro: policy_decode_canonical policy_decode_encode)

lemma policy_decode_ok: "fv_auth_policy_decode b = Some p \<Longrightarrow> policy_ok p"
  by (rule policy_encode_ok) (rule policy_codec.dec_canonical)

lemma policy_default_ok [simp]: "policy_ok fv_auth_policy_default"
  by (simp add: policy_ok_def fv_auth_policy_default_def auto_lock_allowed_def
      screen_sleep_allowed_def)

text \<open>The policy codec is canonical: a sixteen-byte record decodes to a policy exactly when it
  is the encoding of that policy, and only policies with a known action, a matching attempt budget
  and an offered timer choice have an encoding. No second byte string stands for a policy.\<close>

theorem policy_codec_canonical:
  "(fv_auth_policy_decode b = Some p \<longleftrightarrow> fv_auth_policy_encode p = Some b) \<and>
   ((\<exists>b. fv_auth_policy_encode p = Some b) \<longleftrightarrow> policy_ok p)"
  using policy_codec.dec_iff policy_encode_Some_iff by blast

end
