(* ===== verification/Envelope.thy ===== *)
theory Envelope
  imports Key_Wrap Working_Keys Policy Pipeline
begin

text \<open>
  The credential envelope (\<^verbatim>\<open>src/src/shared/security/envelope.c\<close>): a 512-byte header whose first part
  is the volume descriptor and the authentication policy, and which holds the volume master key split
  into one share per cascade layer, each wrapped under a key derived from the credential and the
  device binding, and a MAC over everything. \<open>fv_envelope_seal\<close> builds it and \<open>fv_envelope_open\<close>
  recovers the master key; the random source is a state passed along. The properties show that
  parsing accepts exactly the canonical headers and that opening with the same credential and binding
  undoes sealing.
\<close>

definition FV_ENVELOPE_CONSTRUCTION :: u16 where "FV_ENVELOPE_CONSTRUCTION = 0x0101"

record fv_envelope_config =
  ec_volume :: fv_volume_descriptor
  ec_device_id :: "u8 list"
  ec_credential_generation :: u64
  ec_credential_profile :: u16
  ec_iterations :: u32
  ec_token_slot :: u32
  ec_policy :: fv_auth_policy

record fv_kdf_limits =
  kdf_minimum :: u32
  kdf_maximum :: u32

text \<open>A random source: the request's bytes, or \<open>None\<close> for a failure, and the source's next state.\<close>

type_synonym 'r fv_random_bytes = "'r \<Rightarrow> nat \<Rightarrow> u8 list option \<times> 'r"

definition kdf_cost :: "u32 \<Rightarrow> fv_kdf_limits \<Rightarrow> bool" where
  "kdf_cost iterations l \<longleftrightarrow>
     kdf_minimum l \<noteq> 0 \<and> kdf_maximum l \<ge> kdf_minimum l \<and> iterations \<ge> kdf_minimum l \<and> iterations \<le> kdf_maximum l"

definition profile_secret :: "u16 \<Rightarrow> u8 list \<Rightarrow> bool" where
  "profile_secret p secret \<longleftrightarrow>
     (if secret = [] \<or> length secret > 256 \<or> (p < 1 \<or> p > 4) then False
      else if p = 2 \<and> list_ex (\<lambda>b. b < 1 \<or> b > 5) secret then False
      else if p = 3 \<or> p = 4
      then length secret = 4 \<and> \<not> list_ex (\<lambda>b. b \<ge> (if p = 3 then 100 else 64)) secret
      else True)"

definition envelope_encode :: "fv_envelope_config \<Rightarrow> u64 \<Rightarrow> fv_kdf_limits \<Rightarrow> u8 list option" where
  "envelope_encode c capacity limits =
     (if \<not> kdf_cost (ec_iterations c) limits \<or> ec_credential_generation c = 0 \<or>
         ec_credential_profile c < 1 \<or> ec_credential_profile c > 4 \<or> allzero (ec_device_id c) then None
      else case fv_volume_descriptor_encode (ec_volume c) capacity of None \<Rightarrow> None
      | Some v \<Rightarrow>
        (case fv_auth_policy_encode (ec_policy c) of None \<Rightarrow> None
         | Some p \<Rightarrow>
           (let h = memcpy (memcpy (zeros 512) 0 v) 208 p;
                h = memcpy h 128 (ec_device_id c);
                h = put h 144 (ec_credential_generation c) 8;
                h = put h 152 (ec_credential_profile c) 2;
                h = put h 154 (1 :: u64) 2;
                h = put h 156 (ec_iterations c) 4;
                h = put h 192 FV_ENVELOPE_CONSTRUCTION 2;
                h = memcpy h 194 [layer_count (ec_volume c)];
                h = put h 196 (40 * ucast (layer_count (ec_volume c)) :: u64) 2;
                h = put h 200 (ec_token_slot c) 4
            in Some (foldl (\<lambda>h i. put h (224 + 2 * i) (cipher_ids (ec_volume c) ! i) 2) h
                       [0..<unat (layer_count (ec_volume c))]))))"

definition fv_envelope_parse :: "u8 list \<Rightarrow> u64 \<Rightarrow> fv_kdf_limits \<Rightarrow> fv_envelope_config option" where
  "fv_envelope_parse h capacity limits =
     (if length h \<noteq> 512 then None
      else case fv_volume_descriptor_decode (span h 0 128) capacity of None \<Rightarrow> None
      | Some v \<Rightarrow>
        (case fv_auth_policy_decode (span h 208 16) of None \<Rightarrow> None
         | Some p \<Rightarrow>
           (let c = \<lparr>ec_volume = v, ec_device_id = span h 128 16, ec_credential_generation = get h 144 8,
                     ec_credential_profile = ucast (get h 152 2), ec_iterations = ucast (get h 156 4),
                     ec_token_slot = ucast (get h 200 4), ec_policy = p\<rparr>
            in case envelope_encode c capacity limits of None \<Rightarrow> None
               | Some canonical \<Rightarrow>
                 (let canonical = memcpy canonical 160 (span h 160 32);
                      canonical = memcpy canonical 256 (span h 256 (40 * unat (layer_count v)));
                      canonical = memcpy canonical 416 (span h 416 32)
                  in if canonical \<noteq> h then None else Some c))))"

definition fv_vault_binding :: "sha_lib \<Rightarrow> u8 list \<Rightarrow> u8 list \<Rightarrow> u32 \<Rightarrow> u8 list \<Rightarrow> u8 list option" where
  "fv_vault_binding SL binding_key token slot ident =
     (let ctx = label ''FV2/vault-binding/v1'' @ le_bytes slot 4 @ ident
      in case fv_hmac_init SL binding_key of None \<Rightarrow> None
         | Some h \<Rightarrow> fv_hmac_compute SL h ctx token)"

definition share_info :: "u8 list \<Rightarrow> u8 list \<Rightarrow> nat \<Rightarrow> u8 list" where
  "share_info h context i =
     label ''FV2/share-wrap/v1'' @ context @ le_bytes (of_nat i :: u32) 4 @ span h (224 + 2 * i) 2"

fun derive_shares ::
  "sha_lib \<Rightarrow> u8 list \<Rightarrow> u8 list \<Rightarrow> u8 list \<Rightarrow> nat list \<Rightarrow> u8 list list option" where
  "derive_shares SL h context prk [] = Some []"
| "derive_shares SL h context prk (i # is) =
     (case fv_hkdf_expand SL prk (share_info h context i) 32 of None \<Rightarrow> None
      | Some k \<Rightarrow> map_option (Cons k) (derive_shares SL h context prk is))"

definition envelope_derive ::
  "sha_lib \<Rightarrow> u8 list \<Rightarrow> u8 list \<Rightarrow> u8 list \<Rightarrow> (u8 list list \<times> u8 list) option" where
  "envelope_derive SL h binding secret =
     (if \<not> profile_secret (ucast (get h 152 2)) secret then None
      else case sha_oneshot SL (span h 0 128) of None \<Rightarrow> None
      | Some digest \<Rightarrow>
        (let context = digest @ span h 128 128;
             prefix = label ''FV2/unlock-input/v2'' @ context @ le_bytes (of_nat (length secret) :: u32) 4
         in case fv_hmac_init SL binding of None \<Rightarrow> None
         | Some hm \<Rightarrow>
           (case fv_hmac_compute SL hm prefix secret of None \<Rightarrow> None
            | Some bound \<Rightarrow>
              (case fv_pbkdf2_sha256_32 SL bound (label ''FV2/password-salt/v1'' @ span h 160 32) (ucast (get h 156 4)) of
                 None \<Rightarrow> None
               | Some password \<Rightarrow>
                 (case fv_hkdf_extract SL (span h 160 32) password of None \<Rightarrow> None
                  | Some prk \<Rightarrow>
                    (case derive_shares SL h context prk [0..<unat (h ! 194)] of None \<Rightarrow> None
                     | Some keys \<Rightarrow>
                       (case fv_hkdf_expand SL prk (label ''FV2/envelope-mac/v1'' @ context) 32 of None \<Rightarrow> None
                        | Some mac \<Rightarrow> Some (keys, mac))))))))"

definition envelope_authenticate :: "sha_lib \<Rightarrow> u8 list \<Rightarrow> u8 list \<Rightarrow> u8 list option" where
  "envelope_authenticate SL h k =
     (case fv_hmac_init SL k of None \<Rightarrow> None
      | Some hm \<Rightarrow> fv_hmac_compute SL hm (label ''FV2/envelope/v1'') (span h 0 416 @ span h 448 64))"

text \<open>The share loop of \<^verbatim>\<open>fv_envelope_seal\<close>: random shares, and the last one such that all of them
  add up to the master key.\<close>

fun seal_shares ::
  "cipher_lib \<Rightarrow> 'r fv_random_bytes \<Rightarrow> fv_envelope_config \<Rightarrow> u8 list list \<Rightarrow> nat list \<Rightarrow> u8 list \<Rightarrow> u8 list \<Rightarrow> 'r
   \<Rightarrow> u8 list option \<times> 'r" where
  "seal_shares L rng c keys [] rest h r = (Some h, r)"
| "seal_shares L rng c keys (i # is) rest h r =
     (if i + 1 < unat (layer_count (ec_volume c))
      then case rng r 32 of (None, r) \<Rightarrow> (None, r)
        | (Some share, r) \<Rightarrow>
          (case fv_share_wrap L (cipher_ids (ec_volume c) ! i) (keys ! i) share of None \<Rightarrow> (None, r)
           | Some w \<Rightarrow> seal_shares L rng c keys is (xor_bytes rest share) (memcpy h (256 + 40 * i) w) r)
      else case fv_share_wrap L (cipher_ids (ec_volume c) ! i) (keys ! i) rest of None \<Rightarrow> (None, r)
        | Some w \<Rightarrow> seal_shares L rng c keys is rest (memcpy h (256 + 40 * i) w) r)"

definition fv_envelope_seal ::
  "sha_lib \<Rightarrow> cipher_lib \<Rightarrow> 'r fv_random_bytes \<Rightarrow> fv_envelope_config \<Rightarrow> u64 \<Rightarrow> fv_kdf_limits \<Rightarrow> u8 list \<Rightarrow> u8 list
   \<Rightarrow> u8 list \<Rightarrow> 'r \<Rightarrow> u8 list option \<times> 'r" where
  "fv_envelope_seal SL L rng c capacity limits binding secret vmk r =
     (case envelope_encode c capacity limits of None \<Rightarrow> (None, r)
      | Some h \<Rightarrow>
        (if \<not> profile_secret (ec_credential_profile c) secret then (None, r)
         else case rng r 32 of (None, r) \<Rightarrow> (None, r)
         | (Some salt, r) \<Rightarrow>
           (let h = memcpy h 160 salt in
            case envelope_derive SL h binding secret of None \<Rightarrow> (None, r)
            | Some (keys, mac) \<Rightarrow>
              (case seal_shares L rng c keys [0..<unat (layer_count (ec_volume c))] vmk h r of
                 (None, r) \<Rightarrow> (None, r)
               | (Some h, r) \<Rightarrow>
                 (case envelope_authenticate SL h mac of None \<Rightarrow> (None, r)
                  | Some tag \<Rightarrow> (Some (memcpy h 416 tag), r))))))"

fun open_shares ::
  "cipher_lib \<Rightarrow> fv_envelope_config \<Rightarrow> u8 list list \<Rightarrow> u8 list \<Rightarrow> nat list \<Rightarrow> u8 list \<Rightarrow> u8 list option" where
  "open_shares L c keys h [] candidate = Some candidate"
| "open_shares L c keys h (i # is) candidate =
     (case fv_share_unwrap L (cipher_ids (ec_volume c) ! i) (keys ! i) (span h (256 + 40 * i) 40) of None \<Rightarrow> None
      | Some share \<Rightarrow> open_shares L c keys h is (xor_bytes candidate share))"

definition fv_envelope_open ::
  "sha_lib \<Rightarrow> cipher_lib \<Rightarrow> u8 list \<Rightarrow> u64 \<Rightarrow> fv_kdf_limits \<Rightarrow> u8 list \<Rightarrow> u8 list \<Rightarrow> u8 list option" where
  "fv_envelope_open SL L h capacity limits binding secret =
     (case fv_envelope_parse h capacity limits of None \<Rightarrow> None
      | Some c \<Rightarrow>
        (case envelope_derive SL h binding secret of None \<Rightarrow> None
         | Some (keys, mac) \<Rightarrow>
           (case envelope_authenticate SL h mac of None \<Rightarrow> None
            | Some tag \<Rightarrow>
              if \<not> fv_tag_equal tag (span h 416 32) then None
              else open_shares L c keys h [0..<unat (layer_count (ec_volume c))] (zeros 32))))"

section \<open>The header fields\<close>

lemma put_ids:
  "length (foldl (\<lambda>h i. put h (224 + 2 * i) (f i) 2) h xs) = length h"
  "o' + m \<le> 224 \<Longrightarrow> span (foldl (\<lambda>h i. put h (224 + 2 * i) (f i) 2) h xs) o' m = span h o' m"
  by (induction xs arbitrary: h) (simp_all add: span_put_other)

lemma nth_of_span: "i < length b \<Longrightarrow> b ! i = span b i 1 ! 0"
  by (simp add: nth_span)

lemma envelope_encode_fields:
  assumes "envelope_encode c capacity limits = Some h" "length (ec_device_id c) = 16"
  obtains v p where
    "fv_volume_descriptor_encode (ec_volume c) capacity = Some v" "fv_auth_policy_encode (ec_policy c) = Some p"
    "length h = 512" "span h 0 128 = v" "span h 208 16 = p" "span h 128 16 = ec_device_id c"
    "get h 144 8 = ec_credential_generation c" "get h 152 2 = ucast (ec_credential_profile c)"
    "get h 156 4 = ucast (ec_iterations c)" "get h 200 4 = ucast (ec_token_slot c)"
    "h ! 194 = layer_count (ec_volume c)" "unat (layer_count (ec_volume c)) \<le> 4"
proof -
  obtain v p where v: "fv_volume_descriptor_encode (ec_volume c) capacity = Some v"
    and p: "fv_auth_policy_encode (ec_policy c) = Some p"
    using assms(1) by (auto simp: envelope_encode_def split: if_splits option.splits)
  have lv: "length v = 128" "length p = 16" using length_volume_encode [OF v] length_policy_encode [OF p] by simp_all
  have n: "unat (layer_count (ec_volume c)) \<le> 4"
    using v by (auto simp: fv_volume_descriptor_encode_def volume_valid_def split: if_splits)
  define a where "a = put (put (put (put (memcpy (memcpy (memcpy (zeros 512) 0 v) 208 p) 128 (ec_device_id c))
    144 (ec_credential_generation c) 8) 152 (ec_credential_profile c) 2) 154 (1 :: u64) 2) 156 (ec_iterations c) 4"
  define b where "b = put (put (memcpy (put a 192 FV_ENVELOPE_CONSTRUCTION 2) 194 [layer_count (ec_volume c)])
    196 (40 * ucast (layer_count (ec_volume c)) :: u64) 2) 200 (ec_token_slot c) 4"
  have h: "h = foldl (\<lambda>h i. put h (224 + 2 * i) (cipher_ids (ec_volume c) ! i) 2) b [0..<unat (layer_count (ec_volume c))]"
    using assms(1) unfolding envelope_encode_def v p option.case Let_def a_def b_def
    by (simp only: option.inject option.distinct(1) split: if_splits)
  have la: "length a = 512" "length b = 512" by (simp_all add: a_def b_def)
  have s: "span h o' m = span b o' m" if "o' + m \<le> 224" for o' m using that by (simp add: h put_ids)
  have g: "get h o' m = get b o' m" if "o' + m \<le> 224" for o' m using s [OF that] by (simp add: get_def)
  show thesis
  proof (rule that [OF v p])
    show "length h = 512" using la by (simp add: h put_ids)
    then have "h ! 194 = span h 194 1 ! 0" by (intro nth_of_span) simp
    also have "\<dots> = b ! 194" using la by (simp add: s nth_span)
    finally show "h ! 194 = layer_count (ec_volume c)" using la by (simp add: b_def nth_put_other nth_memcpy)
  qed (use lv la n assms(2) in \<open>simp_all add: s g a_def b_def span_put_other span_memcpy_other span_memcpy_same
      get_put_other get_memcpy_other get_put_same\<close>)
qed

section \<open>Headers and their overlay\<close>

text \<open>Two headers with the same configuration: they differ at most in the salt, the wrapped shares of
  \<open>n\<close> layers and the tag.\<close>

definition same_header :: "nat \<Rightarrow> u8 list \<Rightarrow> u8 list \<Rightarrow> bool" where
  "same_header n a h \<longleftrightarrow> length a = 512 \<and> length h = 512 \<and>
     (\<forall>i < 512. \<not> (160 \<le> i \<and> i < 192) \<longrightarrow> \<not> (256 \<le> i \<and> i < 256 + 40 * n) \<longrightarrow> \<not> (416 \<le> i \<and> i < 448) \<longrightarrow> h ! i = a ! i)"

lemma same_header_span:
  "same_header n a h \<Longrightarrow> o' + m \<le> 160 \<or> 192 \<le> o' \<and> o' + m \<le> 256 \<Longrightarrow> span h o' m = span a o' m"
  by (subst span_eq_iff) (auto simp: same_header_def)

lemma same_header_overlay:
  assumes "same_header n a h" "n \<le> 4"
  shows "memcpy (memcpy (memcpy a 160 (span h 160 32)) 256 (span h 256 (40 * n))) 416 (span h 416 32) = h"
  using assms by (intro nth_equalityI) (auto simp: same_header_def nth_memcpy nth_span)

definition envelope_norm :: "fv_envelope_config \<Rightarrow> fv_envelope_config" where
  "envelope_norm c = c\<lparr>ec_volume := descriptor_norm (ec_volume c)\<rparr>"

lemma envelope_encode_norm: "envelope_encode (envelope_norm c) capacity limits = envelope_encode c capacity limits"
proof -
  have e: "layer_count (descriptor_norm v) = layer_count v" "cipher_ids (descriptor_norm v) = cipher_ids v" for v
    by (simp_all add: descriptor_norm_def)
  show ?thesis by (simp add: envelope_encode_def envelope_norm_def volume_encode_norm e cong: option.case_cong)
qed

lemma envelope_parse_same:
  assumes enc: "envelope_encode c capacity limits = Some a" and wf: "length (ec_device_id c) = 16" "descriptor_wf (ec_volume c)"
    and same: "same_header (unat (layer_count (ec_volume c))) a h"
  shows "fv_envelope_parse h capacity limits = Some (envelope_norm c)"
proof -
  obtain v p where f: "fv_volume_descriptor_encode (ec_volume c) capacity = Some v" "fv_auth_policy_encode (ec_policy c) = Some p"
    "length a = 512" "span a 0 128 = v" "span a 208 16 = p" "span a 128 16 = ec_device_id c"
    "get a 144 8 = ec_credential_generation c" "get a 152 2 = ucast (ec_credential_profile c)"
    "get a 156 4 = ucast (ec_iterations c)" "get a 200 4 = ucast (ec_token_slot c)"
    "a ! 194 = layer_count (ec_volume c)" "unat (layer_count (ec_volume c)) \<le> 4"
    using envelope_encode_fields [OF enc wf(1)] .
  note s = same_header_span [OF same]
  have g: "get h o' m = get a o' m" if "o' + m \<le> 160 \<or> 192 \<le> o' \<and> o' + m \<le> 256" for o' m
    using s [OF that] by (simp add: get_def)
  have lh: "length h = 512" using same by (simp add: same_header_def)
  have d: "fv_volume_descriptor_decode (span h 0 128) capacity = Some (descriptor_norm (ec_volume c))"
    using volume_decode_encode [OF wf(2) f(1)] f(4) s [of 0 128] by simp
  have q: "fv_auth_policy_decode (span h 208 16) = Some (ec_policy c)"
    using policy_decode_encode [OF f(2)] f(5) s [of 208 16] by simp
  have c': "\<lparr>ec_volume = descriptor_norm (ec_volume c), ec_device_id = span h 128 16, ec_credential_generation = get h 144 8,
      ec_credential_profile = ucast (get h 152 2), ec_iterations = ucast (get h 156 4),
      ec_token_slot = ucast (get h 200 4), ec_policy = ec_policy c\<rparr> = envelope_norm c"
    by (simp add: envelope_norm_def g s f)
  have l: "layer_count (descriptor_norm (ec_volume c)) = layer_count (ec_volume c)" by (simp add: descriptor_norm_def)
  show ?thesis
    using same_header_overlay [OF same f(12)] enc
    by (simp add: fv_envelope_parse_def lh d q c' envelope_encode_norm l Let_def)
qed

lemma envelope_derive_same:
  assumes "length a = 512" "length h = 512" "\<And>i. i < 256 \<Longrightarrow> h ! i = a ! i" "unat (a ! 194) \<le> 4"
  shows "envelope_derive SL h binding secret = envelope_derive SL a binding secret"
proof -
  have s: "span h o' m = span a o' m" if "o' + m \<le> 256" for o' m
    using that assms(1-3) by (subst span_eq_iff) auto
  have g: "get h 152 2 = get a 152 2" "get h 156 4 = get a 156 4" by (simp_all add: get_def s)
  have sh: "derive_shares SL h ctx prk xs = derive_shares SL a ctx prk xs" if "\<forall>i \<in> set xs. i < 4" for ctx prk xs
    using that by (induction xs) (auto simp: share_info_def s split: option.splits)
  have x: "h ! 194 = a ! 194" using assms(3) [of 194] by simp
  have "derive_shares SL h ctx prk [0..<unat (a ! 194)] = derive_shares SL a ctx prk [0..<unat (a ! 194)]" for ctx prk
    by (rule sh) (use assms(4) in auto)
  then show ?thesis by (simp add: envelope_derive_def g s x Let_def cong: option.case_cong)
qed

section \<open>Shares\<close>

lemma derive_shares_length:
  "digest_law SL \<Longrightarrow> derive_shares SL h ctx prk xs = Some ks \<Longrightarrow>
   length ks = length xs \<and> (\<forall>k \<in> set ks. length k = 32)"
  by (induction xs arbitrary: ks) (auto split: option.splits dest: length_hkdf_expand)

lemma envelope_derive_keys:
  assumes "digest_law SL" "envelope_derive SL h binding secret = Some (keys, mac)"
  shows "length keys = unat (h ! 194) \<and> (\<forall>k \<in> set keys. length k = 32) \<and> length mac = 32"
proof -
  obtain ctx prk where "derive_shares SL h ctx prk [0..<unat (h ! 194)] = Some keys"
    "\<exists>info. fv_hkdf_expand SL prk info 32 = Some mac"
    using assms(2) by (auto simp: envelope_derive_def Let_def split: if_splits option.splits)
  then show ?thesis using derive_shares_length [OF assms(1)] length_hkdf_expand [OF assms(1)] by fastforce
qed

definition rng_law :: "'r fv_random_bytes \<Rightarrow> bool" where
  "rng_law rng \<longleftrightarrow> (\<forall>r n b r'. rng r n = (Some b, r') \<longrightarrow> length b = n)"

lemma xor_shares:
  assumes "length a = 32" "length b = 32" "length s = 32"
  shows "xor_bytes (xor_bytes a s) (xor_bytes b s) = xor_bytes a b"
proof -
  have "(x XOR z) XOR (y XOR z) = x XOR y" for x y z :: u8
    by (auto intro!: bit_word_eqI simp: bit_simps)
  with assms show ?thesis by (intro nth_equalityI) (simp_all add: xor_bytes_def)
qed

lemma seal_shares_spec:
  assumes law: "cipher_law L" "unwrap_ready L" "rng_law rng" and n: "n = unat (layer_count (ec_volume c))" "n \<le> 4"
    and keys: "length keys = n" "\<forall>k \<in> set keys. length k = 32"
  shows "i < n \<Longrightarrow> seal_shares L rng c keys [i..<n] rest h r = (Some h', r') \<Longrightarrow> length rest = 32 \<Longrightarrow> length h = 512 \<Longrightarrow>
    length h' = 512 \<and> (\<forall>k < 512. \<not> (256 + 40 * i \<le> k \<and> k < 256 + 40 * n) \<longrightarrow> h' ! k = h ! k) \<and>
    (\<forall>g cand. (\<forall>j. i \<le> j \<and> j < n \<longrightarrow> span g (256 + 40 * j) 40 = span h' (256 + 40 * j) 40) \<longrightarrow> length cand = 32 \<longrightarrow>
       open_shares L c keys g [i..<n] cand = Some (xor_bytes cand rest))"
proof (induction "n - i" arbitrary: i rest h r)
  case (Suc m)
  have up: "[i..<n] = i # [Suc i..<n]" using Suc.prems(1) by (rule upt_conv_Cons)
  have ki: "length (keys ! i) = 32" using keys Suc.prems(1) by simp
  show ?case
  proof (cases "i + 1 < n")
    case True
    obtain share r1 w where g: "rng r 32 = (Some share, r1)"
      and w: "fv_share_wrap L (cipher_ids (ec_volume c) ! i) (keys ! i) share = Some w"
      and more: "seal_shares L rng c keys [Suc i..<n] (xor_bytes rest share) (memcpy h (256 + 40 * i) w) r1 = (Some h', r')"
      using Suc.prems(2) True n(1) unfolding up by (auto split: prod.splits option.splits)
    have ls: "length share = 32" using law(3) g unfolding rng_law_def by blast
    note u = share_unwrap_wrap [OF law(1,2) ki ls w]
    have ih: "length h' = 512 \<and> (\<forall>k < 512. \<not> (256 + 40 * Suc i \<le> k \<and> k < 256 + 40 * n) \<longrightarrow> h' ! k = memcpy h (256 + 40 * i) w ! k) \<and>
      (\<forall>g cand. (\<forall>j. Suc i \<le> j \<and> j < n \<longrightarrow> span g (256 + 40 * j) 40 = span h' (256 + 40 * j) 40) \<longrightarrow> length cand = 32 \<longrightarrow>
         open_shares L c keys g [Suc i..<n] cand = Some (xor_bytes cand (xor_bytes rest share)))"
      by (rule Suc.hyps(1)) (use Suc.hyps(2) Suc.prems True more ls in auto)
    have here: "span h' (256 + 40 * i) 40 = w"
    proof (rule nth_equalityI)
      fix k assume "k < length (span h' (256 + 40 * i) 40)"
      then have "k < 40" "256 + 40 * i + k < 512" using ih by auto
      then show "span h' (256 + 40 * i) 40 ! k = w ! k"
        using ih u Suc.prems by (simp add: nth_span nth_memcpy)
    qed (use ih u Suc.prems n(2) in simp)
    have "xor_bytes (xor_bytes cand share) (xor_bytes rest share) = xor_bytes cand rest" if "length cand = 32" for cand
      using xor_shares [OF that Suc.prems(3) ls] .
    then show ?thesis
      using ih here u Suc.prems ls by (auto simp: up nth_memcpy)
  next
    case False
    then have i: "Suc i = n" using Suc.prems(1) by simp
    obtain w where w: "fv_share_wrap L (cipher_ids (ec_volume c) ! i) (keys ! i) rest = Some w"
      and h': "h' = memcpy h (256 + 40 * i) w"
      using Suc.prems(2) False n(1) i unfolding up by (auto split: prod.splits option.splits)
    note u = share_unwrap_wrap [OF law(1,2) ki Suc.prems(3) w]
    have "span h' (256 + 40 * i) 40 = w" using u Suc.prems n(2) by (simp add: h' span_memcpy_same)
    then show ?thesis using u i Suc.prems by (auto simp: up h' nth_memcpy)
  qed
qed simp

section \<open>Properties\<close>

text \<open>C28. Opening undoes sealing: a header that was sealed for a configuration, a device binding and
  a credential parses back to that configuration (legacy layout 0 reads as 1) and, opened with the
  same binding and credential, yields the volume master key that was sealed. The random source only
  has to deliver as many bytes as asked; salt and shares may take any value.\<close>

theorem envelope_open_seal:
  assumes "cipher_law L" "unwrap_ready L" "digest_law SL" "rng_law rng"
    and "length (ec_device_id c) = 16" "descriptor_wf (ec_volume c)" "length vmk = 32"
    and "fv_envelope_seal SL L rng c capacity limits binding secret vmk r = (Some h, r')"
  shows "fv_envelope_parse h capacity limits = Some (envelope_norm c) \<and>
    fv_envelope_open SL L h capacity limits binding secret = Some vmk"
proof -
  obtain a salt r1 keys mac hs tag where enc: "envelope_encode c capacity limits = Some a"
    and rg: "rng r 32 = (Some salt, r1)"
    and dv: "envelope_derive SL (memcpy a 160 salt) binding secret = Some (keys, mac)"
    and sh: "seal_shares L rng c keys [0..<unat (layer_count (ec_volume c))] vmk (memcpy a 160 salt) r1 = (Some hs, r')"
    and au: "envelope_authenticate SL hs mac = Some tag" and h: "h = memcpy hs 416 tag"
    using assms(8) by (auto simp: fv_envelope_seal_def Let_def split: option.splits prod.splits if_splits)
  define n where "n = unat (layer_count (ec_volume c))"
  obtain v where f: "length a = 512" "a ! 194 = layer_count (ec_volume c)" "n \<le> 4"
    and v: "fv_volume_descriptor_encode (ec_volume c) capacity = Some v"
    using envelope_encode_fields [OF enc assms(5)] unfolding n_def by metis
  have n0: "0 < n" using v
    by (auto simp: n_def fv_volume_descriptor_encode_def volume_valid_def unat_gt_0 split: if_splits)
  have salt: "length salt = 32" using assms(4) rg unfolding rng_law_def by blast
  have x: "memcpy a 160 salt ! 194 = a ! 194" using f salt by (simp add: nth_memcpy)
  have ks: "length keys = n" "\<forall>k \<in> set keys. length k = 32"
    using envelope_derive_keys [OF assms(3) dv] f(2) x by (simp_all add: n_def)
  note ss = seal_shares_spec [OF assms(1,2,4) n_def f(3) ks n0 sh [folded n_def] assms(7)]
  have hs: "length hs = 512" "\<And>k. k < 512 \<Longrightarrow> \<not> (256 \<le> k \<and> k < 256 + 40 * n) \<Longrightarrow> hs ! k = memcpy a 160 salt ! k"
    using ss f(1) by auto
  have tag: "length tag = 32"
    using au assms(3) by (auto simp: envelope_authenticate_def split: option.splits dest: length_hmac)
  have lh: "length h = 512" using hs by (simp add: h)
  have same: "same_header n a h"
    using f hs salt tag lh by (auto simp: same_header_def h nth_memcpy)
  have pre: "h ! k = memcpy a 160 salt ! k" if "k < 256" for k
    using that hs tag by (simp add: h nth_memcpy)
  have d: "envelope_derive SL h binding secret = Some (keys, mac)"
    using envelope_derive_same [of "memcpy a 160 salt" h SL binding secret] pre lh f x dv by (simp add: n_def)
  have au': "envelope_authenticate SL h mac = Some tag"
    using au tag by (simp add: envelope_authenticate_def h span_memcpy_other cong: option.case_cong)
  have t: "span h 416 32 = tag" using tag hs by (simp add: h span_memcpy_same)
  have "span h (256 + 40 * j) 40 = span hs (256 + 40 * j) 40" if "j < n" for j
    using that f(3) by (simp add: h span_memcpy_other)
  then have o': "open_shares L c keys h [0..<n] (zeros 32) = Some vmk"
    using ss f(1) by (simp add: xor_bytes_zeros [OF assms(7)])
  have oc: "open_shares L (envelope_norm c) ks g xs cand = open_shares L c ks g xs cand" for ks g xs cand
    by (induction xs arbitrary: cand) (auto simp: envelope_norm_def descriptor_norm_def split: option.splits)
  have ln: "layer_count (ec_volume (envelope_norm c)) = layer_count (ec_volume c)"
    by (simp add: envelope_norm_def descriptor_norm_def)
  note p = envelope_parse_same [OF enc assms(5,6) same [unfolded n_def]]
  show ?thesis using p d au' t o' by (simp add: fv_envelope_open_def oc ln n_def)
qed

section \<open>Sealing does not fail\<close>

lemma derive_shares_total:
  assumes "sha_total SL" "prk \<noteq> []" "length ctx = 160" "length h = 512"
  shows "(\<forall>i \<in> set xs. i < 4) \<Longrightarrow> \<exists>ks. derive_shares SL h ctx prk xs = Some ks"
proof (induction xs)
  case (Cons x xs)
  have "\<exists>k. fv_hkdf_expand SL prk (share_info h ctx x) 32 = Some k"
    by (rule hkdf_expand_total [OF assms(1,2)]) (use assms(3,4) Cons.prems in \<open>simp_all add: share_info_def\<close>)
  then show ?case using Cons by auto
qed simp

definition sha_sound :: "sha_lib \<Rightarrow> bool" where
  "sha_sound SL \<longleftrightarrow> sha_total SL \<and> digest_law SL \<and> (\<forall>m x. sha_oneshot SL m = Some x \<longrightarrow> length x = 32)"

lemma envelope_derive_total:
  assumes "sha_sound SL" "binding \<noteq> []" "profile_secret (ucast (get h 152 2)) secret" "length h = 512"
    and "(ucast (get h 156 4) :: u32) \<noteq> 0" "unat (h ! 194) \<le> 4"
  shows "\<exists>keys mac. envelope_derive SL h binding secret = Some (keys, mac)"
proof -
  have t: "sha_total SL" "digest_law SL" and o: "\<And>m x. sha_oneshot SL m = Some x \<Longrightarrow> length x = 32"
    using assms(1) by (auto simp: sha_sound_def)
  obtain digest where d: "sha_oneshot SL (span h 0 128) = Some digest" "length digest = 32"
    using t(1) o by (metis option.exhaust_sel sha_total_def)
  obtain hm where hm: "fv_hmac_init SL binding = Some hm" and c: "\<And>p x. \<exists>z. fv_hmac_compute SL hm p x = Some z"
    using hmac_total [OF t(1) assms(2)] by blast
  define ctx where "ctx = digest @ span h 128 128"
  have ctx: "length ctx = 160" using d assms(4) by (simp add: ctx_def)
  obtain bound where b: "fv_hmac_compute SL hm (label ''FV2/unlock-input/v2'' @ ctx @ le_bytes (of_nat (length secret) :: u32) 4) secret = Some bound"
    using c by blast
  obtain pw where pw: "fv_pbkdf2_sha256_32 SL bound (label ''FV2/password-salt/v1'' @ span h 160 32) (ucast (get h 156 4)) = Some pw"
    using pbkdf2_total [OF t(1)] assms(5) by (meson word_coorder.not_eq_extremum)
  obtain prk where prk: "fv_hkdf_extract SL (span h 160 32) pw = Some prk" using hkdf_extract_total [OF t(1)] by blast
  then have "prk \<noteq> []" using length_hkdf_extract [OF t(2)] by fastforce
  then obtain ks mac where "derive_shares SL h ctx prk [0..<unat (h ! 194)] = Some ks"
    "fv_hkdf_expand SL prk (label ''FV2/envelope-mac/v1'' @ ctx) 32 = Some mac"
    using derive_shares_total [OF t(1) _ ctx assms(4), of prk "[0..<unat (h ! 194)]"] assms(6)
      hkdf_expand_total [OF t(1), of prk 32 "label ''FV2/envelope-mac/v1'' @ ctx"] ctx by fastforce
  then show ?thesis using assms(3) d hm b pw prk by (simp add: envelope_derive_def Let_def ctx_def)
qed

lemma seal_shares_total:
  assumes "\<And>r n. \<exists>b r'. rng r n = (Some b, r') \<and> length b = n"
    and "\<And>i k s. i < n \<Longrightarrow> length s = 32 \<Longrightarrow> \<exists>w. fv_share_wrap L (cipher_ids (ec_volume c) ! i) k s = Some w"
  shows "length v = 32 \<Longrightarrow> (\<forall>i \<in> set xs. i < n) \<Longrightarrow> \<exists>h' r'. seal_shares L rng c keys xs v h r = (Some h', r')"
proof (induction xs arbitrary: v h r)
  case (Cons i xs)
  obtain b r1 where b: "rng r 32 = (Some b, r1)" "length b = 32" using assms(1) by blast
  obtain w where w: "fv_share_wrap L (cipher_ids (ec_volume c) ! i) (keys ! i) b = Some w" using assms(2) b Cons.prems(2) by fastforce
  obtain w' where w': "fv_share_wrap L (cipher_ids (ec_volume c) ! i) (keys ! i) v = Some w'" using assms(2) Cons.prems by fastforce
  show ?case using Cons b w w' by simp
qed simp

lemma envelope_seal_total:
  assumes "sha_sound SL" "envelope_encode c capacity limits = Some a" "length (ec_device_id c) = 16"
    and "profile_secret (ec_credential_profile c) secret" "binding \<noteq> []" "length vmk = 32"
    and rng: "\<And>r n. \<exists>b r'. rng r n = (Some b, r') \<and> length b = n"
    and wrap: "\<And>i k s. i < unat (layer_count (ec_volume c)) \<Longrightarrow> length s = 32 \<Longrightarrow> \<exists>w. fv_share_wrap L (cipher_ids (ec_volume c) ! i) k s = Some w"
  shows "\<exists>h r'. fv_envelope_seal SL L rng c capacity limits binding secret vmk r = (Some h, r')"
proof -
  obtain salt r1 where g: "rng r 32 = (Some salt, r1)" "length salt = 32" using rng by blast
  obtain v p where f: "length a = 512" "get a 152 2 = ucast (ec_credential_profile c)" "get a 156 4 = ucast (ec_iterations c)"
    "a ! 194 = layer_count (ec_volume c)" "unat (layer_count (ec_volume c)) \<le> 4"
    using envelope_encode_fields [OF assms(2,3)] by metis
  have it: "ec_iterations c \<noteq> 0"
    using assms(2) by (auto simp: envelope_encode_def kdf_cost_def split: if_splits)
  have "\<exists>keys mac. envelope_derive SL (memcpy a 160 salt) binding secret = Some (keys, mac)"
    by (rule envelope_derive_total [OF assms(1,5)]) (use f g it assms(4) in \<open>simp_all add: get_memcpy_other nth_memcpy\<close>)
  then obtain keys mac where d: "envelope_derive SL (memcpy a 160 salt) binding secret = Some (keys, mac)" by blast
  have t: "sha_total SL" "digest_law SL" using assms(1) by (auto simp: sha_sound_def)
  have "mac \<noteq> []" using envelope_derive_keys [OF t(2) d] by auto
  then obtain hm where hm: "fv_hmac_init SL mac = Some hm" "\<And>p x. \<exists>z. fv_hmac_compute SL hm p x = Some z"
    using hmac_total [OF t(1)] by blast
  obtain hs r2 where "seal_shares L rng c keys [0..<unat (layer_count (ec_volume c))] vmk (memcpy a 160 salt) r1 = (Some hs, r2)"
    using seal_shares_total [where rng = rng and n = "unat (layer_count (ec_volume c))" and L = L and c = c, OF rng wrap assms(6),
        of "[0..<unat (layer_count (ec_volume c))]" keys "memcpy a 160 salt" r1] by auto
  moreover obtain tag where "envelope_authenticate SL hs mac = Some tag"
    using hm by (auto simp: envelope_authenticate_def)
  ultimately show ?thesis using assms(2,4) g d by (simp add: fv_envelope_seal_def)
qed

section \<open>The properties at work\<close>

definition test_config :: fv_envelope_config where
  "test_config = \<lparr>ec_volume = test_descriptor 7000, ec_device_id = replicate 16 9, ec_credential_generation = 1,
     ec_credential_profile = 2, ec_iterations = 1000, ec_token_slot = 3, ec_policy = fv_auth_policy_default\<rparr>"

definition test_limits :: fv_kdf_limits where
  "test_limits = \<lparr>kdf_minimum = 1000, kdf_maximum = 2000\<rparr>"

definition test_rng :: "unit fv_random_bytes" where
  "test_rng r n = (Some (replicate n 7), r)"

lemma sha_sound_test_sha [simp]: "sha_sound test_sha"
  using sha_total_test_sha digest_law_test_sha unfolding sha_sound_def by (auto simp: test_sha_def)

lemma unwrap_ready_test: "unwrap_ready test_ciphers"
  by (simp add: unwrap_ready_def wrap_setup_def test_ciphers_def)

lemma rng_law_test: "rng_law test_rng"
  by (auto simp: rng_law_def test_rng_def)

lemma test_descriptor_valid: "volume_valid (test_descriptor 7000) 10000"
  using test_descriptor_ids [of 7000]
  by (simp add: volume_valid_def volume_fits_def Let_def test_descriptor_def div_up_def volume_bitmap_def
      FV_VOLUME_METADATA_BASE_def)

lemma test_config_encode: "\<exists>a. envelope_encode test_config 10000 test_limits = Some a"
proof -
  obtain v where v: "fv_volume_descriptor_encode (test_descriptor 7000) 10000 = Some v"
    using volume_encode_total [OF test_descriptor_valid] by blast
  obtain p where p: "fv_auth_policy_encode fv_auth_policy_default = Some p"
    using policy_encode_Some_iff policy_default_ok by blast
  have "\<not> allzero (replicate 16 9)" by (simp add: allzero_iff filled_iff)
  then show ?thesis
    by (simp add: envelope_encode_def test_config_def kdf_cost_def test_limits_def v p Let_def)
qed

lemma test_seal:
  "\<exists>h. fv_envelope_seal test_sha test_ciphers test_rng test_config 10000 test_limits (replicate 32 4) [1, 2, 5] (replicate 32 8) () =
     (Some h, ())"
proof -
  obtain a where a: "envelope_encode test_config 10000 test_limits = Some a" using test_config_encode by blast
  have "\<exists>h r'. fv_envelope_seal test_sha test_ciphers test_rng test_config 10000 test_limits (replicate 32 4) [1, 2, 5] (replicate 32 8) () =
     (Some h, r')"
    by (rule envelope_seal_total [OF _ a])
      (simp_all add: test_config_def profile_secret_def test_rng_def test_descriptor_def twofish_share_wrap_total)
  then show ?thesis by simp
qed

lemma envelope_open_seal_witness:
  "\<exists>h. fv_envelope_seal test_sha test_ciphers test_rng test_config 10000 test_limits (replicate 32 4) [1, 2, 5] (replicate 32 8) () =
     (Some h, ()) \<and>
     fv_envelope_open test_sha test_ciphers h 10000 test_limits (replicate 32 4) [1, 2, 5] = Some (replicate 32 8)"
proof -
  obtain h where h: "fv_envelope_seal test_sha test_ciphers test_rng test_config 10000 test_limits (replicate 32 4) [1, 2, 5]
      (replicate 32 8) () = (Some h, ())" using test_seal by blast
  have "length (ec_device_id test_config) = 16" "descriptor_wf (ec_volume test_config)" "length (replicate 32 (8 :: u8)) = 32"
    by (simp_all add: test_config_def descriptor_wf_def test_descriptor_def)
  from envelope_open_seal [OF cipher_law_test unwrap_ready_test digest_law_test_sha rng_law_test this h] h
  show ?thesis by blast
qed

end
