(* ===== verification/Device_State.thy ===== *)
theory Device_State
  imports Envelope
begin

text \<open>
  The logical device state and the interface through which the vault reaches it
  (\<^verbatim>\<open>src/src/shared/security/include/fuse_vault/vault.h\<close>): the authority is implemented by the
  enrollment (OTP token and flash journal). A status can come from flash, so the enum stays an
  integer. A callback takes and returns the adapter's state; its integer result is \<open>True\<close> for 0.
\<close>

definition FV_ENROLLMENT_EMPTY :: u32 where "FV_ENROLLMENT_EMPTY = 1"
definition FV_ENROLLMENT_ACTIVE :: u32 where "FV_ENROLLMENT_ACTIVE = 2"
definition FV_ENROLLMENT_LOCKED :: u32 where "FV_ENROLLMENT_LOCKED = 3"
definition FV_ENROLLMENT_DESTROY_PENDING :: u32 where "FV_ENROLLMENT_DESTROY_PENDING = 4"
definition FV_ENROLLMENT_DESTROYED :: u32 where "FV_ENROLLMENT_DESTROYED = 5"

lemmas enrollment_defs = FV_ENROLLMENT_EMPTY_def FV_ENROLLMENT_ACTIVE_def FV_ENROLLMENT_LOCKED_def
  FV_ENROLLMENT_DESTROY_PENDING_def FV_ENROLLMENT_DESTROYED_def

record fv_device_state =
  ds_status :: u32
  ds_sequence :: u64
  ds_credential_generation :: u64
  ds_device_id :: "u8 list"
  ds_volume_id :: "u8 list"
  ds_header_hash :: "u8 list"
  ds_token_slot :: u32
  ds_attempts :: u32
  ds_attempt_pending :: bool
  ds_policy :: fv_auth_policy

text \<open>The sizes of the C arrays.\<close>

definition device_state_wf :: "fv_device_state \<Rightarrow> bool" where
  "device_state_wf s \<longleftrightarrow> length (ds_device_id s) = 16 \<and> length (ds_volume_id s) = 16 \<and> length (ds_header_hash s) = 32"

text \<open>\<^verbatim>\<open>memset(s,0,sizeof(*s))\<close>.\<close>

definition zero_state :: fv_device_state where
  "zero_state = \<lparr>ds_status = 0, ds_sequence = 0, ds_credential_generation = 0, ds_device_id = zeros 16,
     ds_volume_id = zeros 16, ds_header_hash = zeros 32, ds_token_slot = 0, ds_attempts = 0,
     ds_attempt_pending = False,
     ds_policy = \<lparr>max_attempts = 0, limit_action = 0, auto_lock_seconds = 0, screen_sleep_seconds = 0\<rparr>\<rparr>"

record 'a fv_device_authority =
  au_load :: "'a \<Rightarrow> fv_device_state option \<times> 'a"
  au_commit :: "u64 \<Rightarrow> fv_device_state \<Rightarrow> 'a \<Rightarrow> bool \<times> 'a"
  au_binding :: "u8 list \<Rightarrow> u32 \<Rightarrow> 'a \<Rightarrow> u8 list option \<times> 'a"
  au_destroy :: "(u32 \<Rightarrow> 'a \<Rightarrow> bool \<times> 'a) option"

end
