(* ===== verification/Journal.thy ===== *)
theory Journal
  imports Device_State Codec
begin

text \<open>
  The flash journal of device states (\<^verbatim>\<open>src/src/shared/security/journal.c\<close>): two banks of eight
  512-byte records, each an authenticated body page followed by a commit page. \<open>fv_journal_load\<close>
  scans for the record with the largest sequence number, \<open>fv_journal_commit\<close> appends the next one,
  erasing the other bank when the current one is full, with every program and erase verified by
  reading back. Flash access goes through \<open>fv_journal_io\<close>, whose functions thread the state of the
  flash. An index that is -1 in the code is \<open>None\<close>.
\<close>

definition FV_JOURNAL_BYTES :: nat where "FV_JOURNAL_BYTES = 8192"
definition FV_OTP_TOKEN_SLOTS :: u32 where "FV_OTP_TOKEN_SLOTS = 228"

datatype fv_journal_result = FV_JOURNAL_OK | FV_JOURNAL_EMPTY | FV_JOURNAL_IO | FV_JOURNAL_CORRUPT

record 'f fv_journal_io =
  io_read :: "nat \<Rightarrow> nat \<Rightarrow> 'f \<Rightarrow> u8 list option \<times> 'f"
  io_program :: "nat \<Rightarrow> u8 list \<Rightarrow> 'f \<Rightarrow> bool \<times> 'f"
  io_erase :: "nat \<Rightarrow> 'f \<Rightarrow> bool \<times> 'f"

record fv_journal =
  j_key :: "u8 list"
  j_device_id :: "u8 list"

definition fv_journal_key :: "sha_lib \<Rightarrow> u8 list \<Rightarrow> u8 list \<Rightarrow> u32 \<Rightarrow> u8 list option" where
  "fv_journal_key SL token ident slot =
     (if slot \<ge> FV_OTP_TOKEN_SLOTS then None
      else case fv_hkdf_extract SL ident token of None \<Rightarrow> None
      | Some prk \<Rightarrow> fv_hkdf_expand SL prk (label ''FV2/enrollment-state-mac/v2'' @ le_bytes slot 4) 32)"

definition fv_journal_init :: "u8 list \<Rightarrow> u8 list \<Rightarrow> fv_journal" where
  "fv_journal_init k ident = \<lparr>j_key = k, j_device_id = ident\<rparr>"

definition fv_journal_clear :: fv_journal where
  "fv_journal_clear = \<lparr>j_key = zeros 32, j_device_id = zeros 16\<rparr>"

section \<open>Records\<close>

definition journal_tag :: "sha_lib \<Rightarrow> fv_journal \<Rightarrow> u8 list \<Rightarrow> u8 list \<Rightarrow> u8 list option" where
  "journal_tag SL j domain data =
     (case fv_hmac_init SL (j_key j) of None \<Rightarrow> None | Some h \<Rightarrow> fv_hmac_compute SL h domain data)"

definition body_ok :: "fv_journal \<Rightarrow> fv_device_state \<Rightarrow> bool" where
  "body_ok j s \<longleftrightarrow>
     (if ds_sequence s = 0 \<or> ds_device_id s \<noteq> j_device_id j \<or> ds_status s < FV_ENROLLMENT_EMPTY \<or>
         ds_status s > FV_ENROLLMENT_DESTROYED \<or> ds_token_slot s \<ge> FV_OTP_TOKEN_SLOTS then False
      else if ds_status s = FV_ENROLLMENT_EMPTY
      then \<not> (ds_credential_generation s \<noteq> 0 \<or> ds_attempts s \<noteq> 0 \<or> ds_attempt_pending s \<or>
              \<not> filled (ds_volume_id s) 0 \<or> \<not> filled (ds_header_hash s) 0)
      else \<not> (ds_credential_generation s = 0 \<or> ds_attempts s > max_attempts (ds_policy s) \<or>
              (ds_attempt_pending s \<and> ds_attempts s = 0) \<or> filled (ds_volume_id s) 0 \<or> filled (ds_header_hash s) 0))"

definition journal_body :: "sha_lib \<Rightarrow> fv_journal \<Rightarrow> fv_device_state \<Rightarrow> u8 list option" where
  "journal_body SL j s =
     (if \<not> body_ok j s then None
      else case fv_auth_policy_encode (ds_policy s) of None \<Rightarrow> None
      | Some p \<Rightarrow>
        (let out = memcpy (zeros 256) 96 p;
             out = memcpy out 0 (ascii ''FV2STATE'');
             out = put out 8 (2 :: u64) 2;
             out = put out 10 (256 :: u64) 2;
             out = put out 12 (ds_status s) 4;
             out = put out 16 (ds_sequence s) 8;
             out = memcpy out 24 (ds_device_id s);
             out = memcpy out 40 (ds_volume_id s);
             out = put out 56 (ds_credential_generation s) 8;
             out = memcpy out 64 (ds_header_hash s);
             out = put out 112 (ds_attempts s) 4;
             out = put out 116 (if ds_attempt_pending s then 1 else 0 :: u64) 4;
             out = put out 120 (ds_token_slot s) 4
         in map_option (memcpy out 224)
              (journal_tag SL j (label ''FV2/device-state/body/v2'') (span out 0 224))))"

definition journal_marker :: "sha_lib \<Rightarrow> fv_journal \<Rightarrow> u8 list \<Rightarrow> u8 list option" where
  "journal_marker SL j b =
     (let out = memcpy (zeros 256) 0 (ascii ''FV2COMIT'');
          out = memcpy out 8 (span b 16 8)
      in case sha_oneshot SL b of None \<Rightarrow> None
         | Some digest \<Rightarrow>
           (let out = memcpy out 16 digest
            in map_option (memcpy out 224)
                 (journal_tag SL j (label ''FV2/device-state/commit/v2'') (span out 0 224))))"

text \<open>A whole record, as \<^verbatim>\<open>decode\<close> and \<^verbatim>\<open>fv_journal_commit\<close> build it.\<close>

definition journal_record :: "sha_lib \<Rightarrow> fv_journal \<Rightarrow> fv_device_state \<Rightarrow> u8 list option" where
  "journal_record SL j s =
     (case journal_body SL j s of None \<Rightarrow> None
      | Some b \<Rightarrow> map_option (\<lambda>m. b @ m) (journal_marker SL j b))"

definition journal_decode :: "sha_lib \<Rightarrow> fv_journal \<Rightarrow> u8 list \<Rightarrow> fv_device_state option" where
  "journal_decode SL j b =
     (if get b 116 4 > 1 then None
      else case fv_auth_policy_decode (span b 96 16) of None \<Rightarrow> None
      | Some p \<Rightarrow>
        (let candidate =
           \<lparr>ds_status = ucast (get b 12 4), ds_sequence = get b 16 8, ds_credential_generation = get b 56 8,
            ds_device_id = span b 24 16, ds_volume_id = span b 40 16, ds_header_hash = span b 64 32,
            ds_token_slot = ucast (get b 120 4), ds_attempts = ucast (get b 112 4),
            ds_attempt_pending = (get b 116 4 \<noteq> 0), ds_policy = p\<rparr>
         in case journal_record SL j candidate of None \<Rightarrow> None
            | Some canonical \<Rightarrow> if b \<noteq> canonical then None else Some candidate))"

section \<open>The scan\<close>

record scan_result =
  sc_latest :: fv_device_state
  sc_latest_index :: nat
  sc_last_used :: "nat option list"
  sc_first_blank :: "nat option"
  sc_found :: bool
  sc_latest_record :: "u8 list"
  sc_non_blank :: bool

definition scan_start :: scan_result where
  "scan_start = \<lparr>sc_latest = zero_state, sc_latest_index = 0, sc_last_used = [None, None], sc_first_blank = None,
     sc_found = False, sc_latest_record = [], sc_non_blank = False\<rparr>"

text \<open>One iteration on the record that was read; \<open>None\<close> is the return of \<^verbatim>\<open>FV_JOURNAL_CORRUPT\<close>.\<close>

definition scan_record :: "sha_lib \<Rightarrow> fv_journal \<Rightarrow> nat \<Rightarrow> u8 list \<Rightarrow> scan_result \<Rightarrow> scan_result option" where
  "scan_record SL j i record r =
     (if filled record 255
      then Some (if sc_first_blank r = None then r\<lparr>sc_first_blank := Some i\<rparr> else r)
      else
        (let r = r\<lparr>sc_non_blank := True, sc_last_used := (sc_last_used r)[i div 8 := Some i]\<rparr> in
         if filled (span record 256 256) 255 then Some r
         else case journal_decode SL j record of None \<Rightarrow> None
         | Some s \<Rightarrow>
           if sc_found r \<and> ds_sequence s = ds_sequence (sc_latest r) \<and> record \<noteq> sc_latest_record r then None
           else if \<not> sc_found r \<or> ds_sequence s > ds_sequence (sc_latest r)
           then Some (r\<lparr>sc_found := True, sc_latest := s, sc_latest_index := i, sc_latest_record := record\<rparr>)
           else Some r))"

fun scan_loop ::
  "sha_lib \<Rightarrow> 'f fv_journal_io \<Rightarrow> fv_journal \<Rightarrow> nat list \<Rightarrow> scan_result \<Rightarrow> 'f \<Rightarrow> fv_journal_result \<times> scan_result \<times> 'f" where
  "scan_loop SL io j [] r f =
     (if sc_found r then FV_JOURNAL_OK else if sc_non_blank r then FV_JOURNAL_CORRUPT else FV_JOURNAL_EMPTY, r, f)"
| "scan_loop SL io j (i # is) r f =
     (case io_read io (i * 512) 512 f of
        (None, f) \<Rightarrow> (FV_JOURNAL_IO, r, f)
      | (Some record, f) \<Rightarrow>
        (case scan_record SL j i record r of None \<Rightarrow> (FV_JOURNAL_CORRUPT, r, f)
         | Some r \<Rightarrow> scan_loop SL io j is r f))"

definition journal_scan :: "sha_lib \<Rightarrow> 'f fv_journal_io \<Rightarrow> fv_journal \<Rightarrow> 'f \<Rightarrow> fv_journal_result \<times> scan_result \<times> 'f" where
  "journal_scan SL io j f = scan_loop SL io j [0..<16] scan_start f"

definition fv_journal_load ::
  "sha_lib \<Rightarrow> 'f fv_journal_io \<Rightarrow> fv_journal \<Rightarrow> 'f \<Rightarrow> fv_journal_result \<times> fv_device_state \<times> 'f" where
  "fv_journal_load SL io j f =
     (let (result, r, f) = journal_scan SL io j f
      in (result, if result = FV_JOURNAL_OK then sc_latest r else zero_state, f))"

section \<open>Commit\<close>

text \<open>The check after an erase: all eight records of the bank read back as blank.\<close>

fun bank_blank :: "'f fv_journal_io \<Rightarrow> nat \<Rightarrow> nat list \<Rightarrow> 'f \<Rightarrow> bool \<times> 'f" where
  "bank_blank io bank [] f = (True, f)"
| "bank_blank io bank (i # is) f =
     (case io_read io (bank * 4096 + i * 512) 512 f of
        (None, f) \<Rightarrow> (False, f)
      | (Some verify, f) \<Rightarrow> if \<not> filled verify 255 then (False, f) else bank_blank io bank is f)"

text \<open>The slot for the next record: after the last one used in the bank of the latest, or the start
  of the other bank, erased first. \<open>None\<close> is an error return of \<^verbatim>\<open>FV_JOURNAL_IO\<close>.\<close>

definition commit_slot :: "'f fv_journal_io \<Rightarrow> scan_result \<Rightarrow> 'f \<Rightarrow> nat option option \<times> 'f" where
  "commit_slot io r f =
     (if \<not> sc_found r then (Some (sc_first_blank r), f)
      else
        (let bank = sc_latest_index r div 8;
             index = (case sc_last_used r ! bank of None \<Rightarrow> 0 | Some u \<Rightarrow> u + 1)
         in if index \<ge> (bank + 1) * 8
            then (let bank = 1 - bank in
                  case io_erase io bank f of (False, f) \<Rightarrow> (None, f)
                  | (True, f) \<Rightarrow>
                    (case bank_blank io bank [0..<8] f of (False, f) \<Rightarrow> (None, f)
                     | (True, f) \<Rightarrow> (Some (Some (bank * 8)), f)))
            else (Some (Some index), f)))"

definition commit_write ::
  "'f fv_journal_io \<Rightarrow> nat \<Rightarrow> u8 list \<Rightarrow> 'f \<Rightarrow> fv_journal_result \<times> 'f" where
  "commit_write io index record f =
     (let offset = index * 512 in
      case io_read io offset 512 f of (None, f) \<Rightarrow> (FV_JOURNAL_CORRUPT, f)
      | (Some verify, f) \<Rightarrow>
        if \<not> filled verify 255 then (FV_JOURNAL_CORRUPT, f)
        else case io_program io offset (span record 0 256) f of (False, f) \<Rightarrow> (FV_JOURNAL_IO, f)
        | (True, f) \<Rightarrow>
          (case io_read io offset 256 f of (None, f) \<Rightarrow> (FV_JOURNAL_IO, f)
           | (Some verify, f) \<Rightarrow>
             if span record 0 256 \<noteq> verify then (FV_JOURNAL_IO, f)
             else case io_program io (offset + 256) (span record 256 256) f of (False, f) \<Rightarrow> (FV_JOURNAL_IO, f)
             | (True, f) \<Rightarrow>
               (case io_read io offset 512 f of (None, f) \<Rightarrow> (FV_JOURNAL_IO, f)
                | (Some verify, f) \<Rightarrow> if record \<noteq> verify then (FV_JOURNAL_IO, f) else (FV_JOURNAL_OK, f))))"

definition fv_journal_commit ::
  "sha_lib \<Rightarrow> 'f fv_journal_io \<Rightarrow> fv_journal \<Rightarrow> u64 \<Rightarrow> fv_device_state \<Rightarrow> 'f \<Rightarrow> fv_journal_result \<times> 'f" where
  "fv_journal_commit SL io j previous s f =
     (if previous = UINT64_MAX \<or> ds_sequence s \<noteq> previous + 1 then (FV_JOURNAL_CORRUPT, f)
      else
        (let (status, r, f) = journal_scan SL io j f in
         if status = FV_JOURNAL_IO \<or> status = FV_JOURNAL_CORRUPT \<or>
            (if status = FV_JOURNAL_EMPTY then previous \<noteq> 0 else ds_sequence (sc_latest r) \<noteq> previous)
         then (FV_JOURNAL_CORRUPT, f)
         else case journal_record SL j s of None \<Rightarrow> (FV_JOURNAL_CORRUPT, f)
         | Some record \<Rightarrow>
           (case commit_slot io r f of
              (None, f) \<Rightarrow> (FV_JOURNAL_IO, f)
            | (Some None, f) \<Rightarrow> (FV_JOURNAL_CORRUPT, f)
            | (Some (Some index), f) \<Rightarrow> commit_write io index record f)))"

section \<open>The record codec is canonical\<close>

lemma length_journal_body: "journal_body SL j s = Some b \<Longrightarrow> length b = 256"
  by (auto simp: journal_body_def Let_def split: if_splits option.splits)

lemma length_journal_marker: "journal_marker SL j b = Some m \<Longrightarrow> length m = 256"
  by (auto simp: journal_marker_def Let_def split: if_splits option.splits)

lemma length_journal_record: "journal_record SL j s = Some b \<Longrightarrow> length b = 512"
  using length_journal_body [of SL j s] length_journal_marker [of SL j]
  by (fastforce simp: journal_record_def split: option.splits)

lemma journal_decode_record: "journal_decode SL j b = Some s \<Longrightarrow> journal_record SL j s = Some b"
  by (auto simp: journal_decode_def Let_def split: if_splits option.splits)

lemma journal_decode_wf: 
  assumes "journal_decode SL j b = Some s"
  shows "device_state_wf s"
proof -
  have "length b = 512" using length_journal_record [OF journal_decode_record [OF assms]] .
  then show ?thesis
    using assms by (auto simp: journal_decode_def Let_def device_state_wf_def split: if_splits option.splits)
qed

lemma journal_body_fields:
  assumes "journal_body SL j s = Some b" "device_state_wf s"
  shows "fv_auth_policy_encode (ds_policy s) = Some (span b 96 16)"
    "get b 12 4 = ucast (ds_status s)" "get b 16 8 = ds_sequence s" "span b 24 16 = ds_device_id s"
    "span b 40 16 = ds_volume_id s" "get b 56 8 = ds_credential_generation s" "span b 64 32 = ds_header_hash s"
    "get b 112 4 = ucast (ds_attempts s)" "get b 116 4 = (if ds_attempt_pending s then 1 else 0)"
    "get b 120 4 = ucast (ds_token_slot s)"
proof -
  obtain p t where p: "fv_auth_policy_encode (ds_policy s) = Some p"
    and b: "b = memcpy (put (put (put (memcpy (put (memcpy (memcpy (put (put (put (put (memcpy (memcpy (zeros 256) 96 p)
        0 (ascii ''FV2STATE'')) 8 (2 :: u64) 2) 10 (256 :: u64) 2) 12 (ds_status s) 4) 16 (ds_sequence s) 8)
        24 (ds_device_id s)) 40 (ds_volume_id s)) 56 (ds_credential_generation s) 8) 64 (ds_header_hash s))
        112 (ds_attempts s) 4) 116 (if ds_attempt_pending s then 1 else 0 :: u64) 4) 120 (ds_token_slot s) 4) 224 t"
    using assms(1) by (auto simp: journal_body_def Let_def split: if_splits option.splits)
  have l: "length p = 16" "length (ds_device_id s) = 16" "length (ds_volume_id s) = 16" "length (ds_header_hash s) = 32"
    using length_policy_encode [OF p] assms(2) by (simp_all add: device_state_wf_def)
  note f = span_put_other span_memcpy_other span_memcpy_same get_put_other get_memcpy_other get_put_same
  show "fv_auth_policy_encode (ds_policy s) = Some (span b 96 16)" using l p by (simp add: b f)
  show "get b 12 4 = ucast (ds_status s)" "get b 16 8 = ds_sequence s" "span b 24 16 = ds_device_id s"
    "span b 40 16 = ds_volume_id s" using l by (simp_all add: b f)
  show "get b 56 8 = ds_credential_generation s" "span b 64 32 = ds_header_hash s"
    "get b 112 4 = ucast (ds_attempts s)" using l by (simp_all add: b f)
  show "get b 120 4 = ucast (ds_token_slot s)" using l by (simp add: b f)
  show "get b 116 4 = (if ds_attempt_pending s then 1 else 0)" using l by (auto simp: b f get_def get_from_le_bytes span_put_same)
qed

lemma journal_record_decode:
  assumes "device_state_wf s" "journal_record SL j s = Some b"
  shows "journal_decode SL j b = Some s"
proof -
  obtain c m where c: "journal_body SL j s = Some c" and b: "b = c @ m"
    using assms(2) by (auto simp: journal_record_def split: option.splits)
  note f = journal_body_fields [OF c assms(1)]
  have l: "length c = 256" using length_journal_body [OF c] .
  have sp: "span b o' n = span c o' n" if "o' + n \<le> 256" for o' n using that l by (simp add: b span_def)
  have g: "get b o' n = get c o' n" if "o' + n \<le> 256" for o' n using sp [OF that] by (simp add: get_def)
  have e: "(\<lparr>ds_status = ucast (get b 12 4), ds_sequence = get b 16 8, ds_credential_generation = get b 56 8,
       ds_device_id = span b 24 16, ds_volume_id = span b 40 16, ds_header_hash = span b 64 32,
       ds_token_slot = ucast (get b 120 4), ds_attempts = ucast (get b 112 4),
       ds_attempt_pending = (get b 116 4 \<noteq> 0), ds_policy = ds_policy s\<rparr> :: fv_device_state) = s"
    by (simp add: sp g f)
  have p: "fv_auth_policy_decode (span b 96 16) = Some (ds_policy s)" "\<not> get b 116 4 > 1"
    using policy_decode_encode [OF f(1)] by (simp_all add: sp g f)
  show ?thesis unfolding journal_decode_def p(1) option.case Let_def e assms(2) using p(2) by simp
qed

interpretation journal_codec: canonical_codec "journal_record SL j" "journal_decode SL j" "\<lambda>s. s" device_state_wf
  for SL j
  by unfold_locales (auto intro: journal_decode_record journal_decode_wf journal_record_decode)

end
