(* ===== verification/Journal_Scan.thy ===== *)
theory Journal_Scan
  imports Journal
begin

text \<open>
  What a scan of the journal finds. \<open>flash_law\<close> is what the journal relies on of the flash: a read
  returns the stored bytes, a program touches only its 256-byte page and an erase only its bank;
  neither is assumed to achieve what was asked, and an interrupted one may leave any content.
  \<open>journal_inv\<close> is the invariant of the journal: every record with a commit page decodes, and no two
  have the same sequence number.
\<close>

definition flash_law :: "'f fv_journal_io \<Rightarrow> ('f \<Rightarrow> u8 list) \<Rightarrow> bool" where
  "flash_law io mem \<longleftrightarrow>
     (\<forall>f. length (mem f) = 8192) \<and>
     (\<forall>off n f b f'. io_read io off n f = (b, f') \<longrightarrow> mem f' = mem f \<and> (b = None \<or> b = Some (span (mem f) off n))) \<and>
     (\<forall>off page f ok f'. io_program io off page f = (ok, f') \<longrightarrow>
        (\<forall>k < 8192. k < off \<or> off + 256 \<le> k \<longrightarrow> mem f' ! k = mem f ! k)) \<and>
     (\<forall>bank f ok f'. io_erase io bank f = (ok, f') \<longrightarrow>
        (\<forall>k < 8192. k < bank * 4096 \<or> bank * 4096 + 4096 \<le> k \<longrightarrow> mem f' ! k = mem f ! k))"

lemma flash_lawD:
  assumes "flash_law io mem"
  shows "length (mem f) = 8192"
    "io_read io off n f = (b, f') \<Longrightarrow> mem f' = mem f"
    "io_read io off n f = (Some x, f') \<Longrightarrow> x = span (mem f) off n"
    "io_program io off page f = (ok, f') \<Longrightarrow> k < 8192 \<Longrightarrow> k < off \<or> off + 256 \<le> k \<Longrightarrow> mem f' ! k = mem f ! k"
    "io_erase io bank f = (ok, f') \<Longrightarrow> k < 8192 \<Longrightarrow> k < bank * 4096 \<or> bank * 4096 + 4096 \<le> k \<Longrightarrow> mem f' ! k = mem f ! k"
  using assms unfolding flash_law_def by blast+

section \<open>Records of the flash contents\<close>

definition rec_at :: "u8 list \<Rightarrow> nat \<Rightarrow> u8 list" where
  "rec_at m i = span m (i * 512) 512"

definition rec_blank :: "u8 list \<Rightarrow> nat \<Rightarrow> bool" where
  "rec_blank m i \<longleftrightarrow> filled (rec_at m i) 255"

definition has_commit :: "u8 list \<Rightarrow> nat \<Rightarrow> bool" where
  "has_commit m i \<longleftrightarrow> \<not> filled (span (rec_at m i) 256 256) 255"

definition rec_state :: "sha_lib \<Rightarrow> fv_journal \<Rightarrow> u8 list \<Rightarrow> nat \<Rightarrow> fv_device_state option" where
  "rec_state SL j m i = journal_decode SL j (rec_at m i)"

lemma blank_no_commit: "rec_blank m i \<Longrightarrow> \<not> has_commit m i"
  by (auto simp: rec_blank_def has_commit_def filled_iff span_def dest: in_set_takeD in_set_dropD)

lemma rec_at_cong: "length a = length b \<Longrightarrow> (\<And>k. i * 512 \<le> k \<Longrightarrow> k < i * 512 + 512 \<Longrightarrow> k < length a \<Longrightarrow> a ! k = b ! k) \<Longrightarrow>
    rec_at a i = rec_at b i"
  unfolding rec_at_def by (subst span_eq_iff) auto

lemma has_commit_cong: "rec_at a i = rec_at b i \<Longrightarrow> has_commit a i = has_commit b i"
  by (simp add: has_commit_def)

lemma rec_state_cong: "rec_at a i = rec_at b i \<Longrightarrow> rec_state SL j a i = rec_state SL j b i"
  by (simp add: rec_state_def)

definition journal_inv :: "sha_lib \<Rightarrow> fv_journal \<Rightarrow> u8 list \<Rightarrow> bool" where
  "journal_inv SL j m \<longleftrightarrow>
     (\<forall>i < 16. has_commit m i \<longrightarrow> rec_state SL j m i \<noteq> None) \<and>
     (\<forall>i < 16. \<forall>k < 16. i \<noteq> k \<longrightarrow> has_commit m i \<longrightarrow> has_commit m k \<longrightarrow>
        map_option ds_sequence (rec_state SL j m i) \<noteq> map_option ds_sequence (rec_state SL j m k))"

text \<open>The state that the contents of the flash stand for.\<close>

definition latest :: "sha_lib \<Rightarrow> fv_journal \<Rightarrow> u8 list \<Rightarrow> fv_device_state \<Rightarrow> bool" where
  "latest SL j m s \<longleftrightarrow>
     (\<exists>i < 16. has_commit m i \<and> rec_state SL j m i = Some s) \<and>
     (\<forall>i < 16. has_commit m i \<longrightarrow> (\<forall>x. rec_state SL j m i = Some x \<longrightarrow> ds_sequence x \<le> ds_sequence s))"

lemma latest_unique:
  assumes "journal_inv SL j m" "latest SL j m a" "latest SL j m b"
  shows "a = b"
proof -
  obtain i k where i: "i < 16" "has_commit m i" "rec_state SL j m i = Some a"
    and k: "k < 16" "has_commit m k" "rec_state SL j m k = Some b"
    using assms(2,3) unfolding latest_def by blast
  have "ds_sequence a \<le> ds_sequence b" "ds_sequence b \<le> ds_sequence a"
    using assms(2,3) i k unfolding latest_def by blast+
  then have "map_option ds_sequence (rec_state SL j m i) = map_option ds_sequence (rec_state SL j m k)"
    using i k by simp
  then have "i = k" using assms(1) i k unfolding journal_inv_def by blast
  with i k show ?thesis by simp
qed

section \<open>The scan as a function of the contents\<close>

fun scan_recs :: "sha_lib \<Rightarrow> fv_journal \<Rightarrow> u8 list \<Rightarrow> nat list \<Rightarrow> scan_result \<Rightarrow> scan_result option" where
  "scan_recs SL j m [] r = Some r"
| "scan_recs SL j m (i # is) r =
     (case scan_record SL j i (rec_at m i) r of None \<Rightarrow> None | Some r \<Rightarrow> scan_recs SL j m is r)"

lemma scan_recs_append:
  "scan_recs SL j m (xs @ ys) r = (case scan_recs SL j m xs r of None \<Rightarrow> None | Some r \<Rightarrow> scan_recs SL j m ys r)"
  by (induction xs arbitrary: r) (auto split: option.splits)

lemma scan_loop_recs:
  assumes law: "flash_law io mem"
  shows "scan_loop SL io j is r f = (res, r', f') \<Longrightarrow>
    mem f' = mem f \<and>
    (res = FV_JOURNAL_IO \<or>
     (case scan_recs SL j (mem f) is r of None \<Rightarrow> res = FV_JOURNAL_CORRUPT
      | Some x \<Rightarrow> r' = x \<and> res = (if sc_found x then FV_JOURNAL_OK
          else if sc_non_blank x then FV_JOURNAL_CORRUPT else FV_JOURNAL_EMPTY)))"
proof (induction "is" arbitrary: r f)
  case (Cons i "is")
  obtain b f1 where rd: "io_read io (i * 512) 512 f = (b, f1)" by (cases "io_read io (i * 512) 512 f")
  have m: "mem f1 = mem f" using flash_lawD(2) [OF law rd] .
  show ?case
  proof (cases b)
    case None
    then show ?thesis using Cons.prems rd m by simp
  next
    case (Some x)
    have x: "x = rec_at (mem f) i" using flash_lawD(3) [OF law] rd Some by (simp add: rec_at_def)
    show ?thesis
    proof (cases "scan_record SL j i x r")
      case None
      then show ?thesis using Cons.prems rd Some m x by simp
    next
      case (Some r1)
      then have "scan_loop SL io j is r1 f1 = (res, r', f')" using Cons.prems rd \<open>b = Some x\<close> by simp
      from Cons.IH [OF this] m x Some show ?thesis by simp
    qed
  qed
qed (auto split: if_splits)

text \<open>What is known of the accumulated result after the first \<open>n\<close> records.\<close>

definition scan_slots :: "u8 list \<Rightarrow> nat \<Rightarrow> scan_result \<Rightarrow> bool" where
  "scan_slots m n r \<longleftrightarrow>
     (sc_non_blank r \<longleftrightarrow> (\<exists>i < n. \<not> rec_blank m i)) \<and>
     length (sc_last_used r) = 2 \<and>
     (\<forall>b < 2. case sc_last_used r ! b of None \<Rightarrow> \<forall>i < n. i div 8 = b \<longrightarrow> rec_blank m i
        | Some u \<Rightarrow> u < n \<and> u div 8 = b \<and> (\<forall>i < n. i div 8 = b \<longrightarrow> u < i \<longrightarrow> rec_blank m i)) \<and>
     (case sc_first_blank r of None \<Rightarrow> \<forall>i < n. \<not> rec_blank m i | Some i \<Rightarrow> i < n \<and> rec_blank m i)"

definition scan_core :: "sha_lib \<Rightarrow> fv_journal \<Rightarrow> u8 list \<Rightarrow> nat \<Rightarrow> scan_result \<Rightarrow> bool" where
  "scan_core SL j m n r \<longleftrightarrow>
     (\<forall>i < n. has_commit m i \<longrightarrow> rec_state SL j m i \<noteq> None) \<and>
     (sc_found r \<longleftrightarrow> (\<exists>i < n. has_commit m i)) \<and>
     (sc_found r \<longrightarrow> sc_latest_index r < n \<and> has_commit m (sc_latest_index r) \<and>
        rec_state SL j m (sc_latest_index r) = Some (sc_latest r) \<and> sc_latest_record r = rec_at m (sc_latest_index r) \<and>
        (\<forall>i < n. has_commit m i \<longrightarrow> (\<forall>s. rec_state SL j m i = Some s \<longrightarrow> ds_sequence s \<le> ds_sequence (sc_latest r))))"

lemma scan_start_ok: "scan_slots m 0 scan_start" "scan_core SL j m 0 scan_start"
  by (auto simp: scan_slots_def scan_core_def scan_start_def less_Suc_eq numeral_2_eq_2)

lemma less_Suc_all: "(\<forall>i < Suc n. P i) \<longleftrightarrow> (\<forall>i < n. P i) \<and> P n"
  by (auto simp: less_Suc_eq)

lemma less_Suc_ex: "(\<exists>i < Suc n. P i) \<longleftrightarrow> (\<exists>i < n. P i) \<or> P n"
  by (auto simp: less_Suc_eq)

lemma scan_slots_blank:
  assumes "scan_slots m n r" "rec_blank m n"
  shows "scan_slots m (Suc n) (if sc_first_blank r = None then r\<lparr>sc_first_blank := Some n\<rparr> else r)"
proof -
  have l: "case sc_last_used r ! b of None \<Rightarrow> \<forall>i < Suc n. i div 8 = b \<longrightarrow> rec_blank m i
      | Some u \<Rightarrow> u < Suc n \<and> u div 8 = b \<and> (\<forall>i < Suc n. i div 8 = b \<longrightarrow> u < i \<longrightarrow> rec_blank m i)" if "b < 2" for b
  proof -
    have "case sc_last_used r ! b of None \<Rightarrow> \<forall>i < n. i div 8 = b \<longrightarrow> rec_blank m i
      | Some u \<Rightarrow> u < n \<and> u div 8 = b \<and> (\<forall>i < n. i div 8 = b \<longrightarrow> u < i \<longrightarrow> rec_blank m i)"
      using assms(1) that unfolding scan_slots_def by blast
    with assms(2) show ?thesis by (auto simp: less_Suc_all split: option.splits)
  qed
  show ?thesis using assms l by (auto simp: scan_slots_def less_Suc_ex split: option.splits)
qed

lemma scan_slots_used:
  assumes "scan_slots m n r" "\<not> rec_blank m n" "n < 16"
    and "sc_non_blank r' = True" "sc_last_used r' = (sc_last_used r)[n div 8 := Some n]" "sc_first_blank r' = sc_first_blank r"
  shows "scan_slots m (Suc n) r'"
proof -
  have n8: "n div 8 < 2" using assms(3) by simp
  have l: "case sc_last_used r' ! b of None \<Rightarrow> \<forall>i < Suc n. i div 8 = b \<longrightarrow> rec_blank m i
      | Some u \<Rightarrow> u < Suc n \<and> u div 8 = b \<and> (\<forall>i < Suc n. i div 8 = b \<longrightarrow> u < i \<longrightarrow> rec_blank m i)" if "b < 2" for b
  proof (cases "b = n div 8")
    case True
    then show ?thesis using assms(1,5) n8 by (simp add: scan_slots_def)
  next
    case False
    have "case sc_last_used r ! b of None \<Rightarrow> \<forall>i < n. i div 8 = b \<longrightarrow> rec_blank m i
      | Some u \<Rightarrow> u < n \<and> u div 8 = b \<and> (\<forall>i < n. i div 8 = b \<longrightarrow> u < i \<longrightarrow> rec_blank m i)"
      using assms(1) that unfolding scan_slots_def by blast
    with False assms(5) show ?thesis by (auto simp: less_Suc_all split: option.splits)
  qed
  have "case sc_first_blank r of None \<Rightarrow> \<forall>i < n. \<not> rec_blank m i | Some i \<Rightarrow> i < n \<and> rec_blank m i"
    using assms(1) unfolding scan_slots_def by blast
  then show ?thesis
    using assms l by (auto simp: scan_slots_def less_Suc_all less_Suc_ex split: option.splits)
qed

lemma scan_core_skip:
  assumes "scan_core SL j m n r" "\<not> has_commit m n"
    and "sc_found r' = sc_found r" "sc_latest r' = sc_latest r" "sc_latest_index r' = sc_latest_index r"
      "sc_latest_record r' = sc_latest_record r"
  shows "scan_core SL j m (Suc n) r'"
  using assms unfolding scan_core_def less_Suc_all less_Suc_ex by (simp add: less_SucI)

lemma scan_core_commit:
  assumes "scan_core SL j m n r" "has_commit m n" "rec_state SL j m n = Some s"
    and c: "if \<not> sc_found r \<or> ds_sequence s > ds_sequence (sc_latest r)
        then sc_found r' \<and> sc_latest r' = s \<and> sc_latest_index r' = n \<and> sc_latest_record r' = rec_at m n
        else sc_found r' = sc_found r \<and> sc_latest r' = sc_latest r \<and> sc_latest_index r' = sc_latest_index r \<and>
          sc_latest_record r' = sc_latest_record r"
  shows "scan_core SL j m (Suc n) r'"
proof (cases "\<not> sc_found r \<or> ds_sequence s > ds_sequence (sc_latest r)")
  case True
  have "ds_sequence x \<le> ds_sequence s" if "i < n" "has_commit m i" "rec_state SL j m i = Some x" for i x
  proof -
    have "sc_found r" using assms(1) that unfolding scan_core_def by blast
    then have "ds_sequence x \<le> ds_sequence (sc_latest r)" "ds_sequence s > ds_sequence (sc_latest r)"
      using assms(1) True that unfolding scan_core_def by blast+
    then show ?thesis by simp
  qed
  then show ?thesis
    using True assms unfolding scan_core_def less_Suc_all less_Suc_ex by auto
next
  case False
  then show ?thesis
    using assms unfolding scan_core_def less_Suc_all less_Suc_ex by (auto simp: less_SucI)
qed

lemma scan_record_step:
  assumes "scan_slots m n r" "scan_core SL j m n r" "scan_record SL j n (rec_at m n) r = Some r'" "n < 16"
  shows "scan_slots m (Suc n) r' \<and> scan_core SL j m (Suc n) r'"
proof (cases "rec_blank m n")
  case True
  have r': "r' = (if sc_first_blank r = None then r\<lparr>sc_first_blank := Some n\<rparr> else r)"
    using assms(3) True by (simp add: scan_record_def rec_blank_def)
  show ?thesis
    using scan_slots_blank [OF assms(1) True] scan_core_skip [OF assms(2) blank_no_commit [OF True], of r']
    unfolding r' by auto
next
  case nb: False
  define r1 where "r1 = r\<lparr>sc_non_blank := True, sc_last_used := (sc_last_used r)[n div 8 := Some n]\<rparr>"
  show ?thesis
  proof (cases "has_commit m n")
    case False
    then have "r' = r1"
      using assms(3) nb by (simp add: scan_record_def rec_blank_def has_commit_def r1_def Let_def)
    then show ?thesis
      using scan_slots_used [OF assms(1) nb assms(4), of r'] scan_core_skip [OF assms(2) False, of r'] by (simp add: r1_def)
  next
    case True
    obtain s where s: "rec_state SL j m n = Some s"
      and r': "r' = (if \<not> sc_found r \<or> ds_sequence s > ds_sequence (sc_latest r)
        then r1\<lparr>sc_found := True, sc_latest := s, sc_latest_index := n, sc_latest_record := rec_at m n\<rparr> else r1)"
      using assms(3) nb True
      by (auto simp: scan_record_def rec_blank_def has_commit_def rec_state_def r1_def Let_def split: if_splits option.splits)
    show ?thesis
      using scan_slots_used [OF assms(1) nb assms(4), of r'] scan_core_commit [OF assms(2) True s, of r']
      by (auto simp: r' r1_def)
  qed
qed

lemma scan_recs_upto:
  "scan_recs SL j m [0..<n] scan_start = Some r \<Longrightarrow> n \<le> 16 \<Longrightarrow> scan_slots m n r \<and> scan_core SL j m n r"
proof (induction n arbitrary: r)
  case 0
  then show ?case using scan_start_ok by simp
next
  case (Suc n)
  obtain r0 where r0: "scan_recs SL j m [0..<n] scan_start = Some r0" "scan_record SL j n (rec_at m n) r0 = Some r"
    using Suc.prems(1) by (auto simp: scan_recs_append split: option.splits)
  then show ?case using Suc.IH [OF r0(1)] Suc.prems(2) scan_record_step [OF _ _ r0(2)] by simp
qed

lemma scan_recs_total:
  assumes "journal_inv SL j m"
  shows "n \<le> 16 \<Longrightarrow> \<exists>r. scan_recs SL j m [0..<n] scan_start = Some r"
proof (induction n)
  case (Suc n)
  then obtain r where r: "scan_recs SL j m [0..<n] scan_start = Some r" by auto
  note u = scan_recs_upto [OF r]
  have "scan_record SL j n (rec_at m n) r \<noteq> None"
  proof
    assume none: "scan_record SL j n (rec_at m n) r = None"
    then have c: "has_commit m n" and nb: "\<not> rec_blank m n"
      by (auto simp: scan_record_def has_commit_def rec_blank_def Let_def split: if_splits)
    then obtain s where s: "rec_state SL j m n = Some s" using assms Suc.prems unfolding journal_inv_def by fastforce
    have f: "sc_found r" "ds_sequence s = ds_sequence (sc_latest r)"
      using none c nb s
      by (auto simp: scan_record_def has_commit_def rec_blank_def rec_state_def Let_def split: if_splits)
    have l: "sc_latest_index r < n" "has_commit m (sc_latest_index r)" "rec_state SL j m (sc_latest_index r) = Some (sc_latest r)"
      using u f(1) Suc.prems unfolding scan_core_def by simp_all
    then show False
      using assms c s f(2) Suc.prems unfolding journal_inv_def
      by (metis (no_types, lifting) Suc_le_eq less_trans nat_neq_iff option.simps(9))
  qed
  then show ?case using r by (auto simp: scan_recs_append)
qed simp

section \<open>Loading\<close>

lemma scan_latest:
  assumes "scan_core SL j m 16 r"
  shows "sc_found r \<Longrightarrow> latest SL j m (sc_latest r)" "\<not> sc_found r \<Longrightarrow> \<not> latest SL j m s"
  using assms unfolding scan_core_def latest_def by blast+

lemma journal_scan_spec:
  assumes law: "flash_law io mem" and s: "journal_scan SL io j f = (res, r, f')"
  shows "mem f' = mem f"
    "res = FV_JOURNAL_OK \<Longrightarrow> scan_slots (mem f) 16 r \<and> scan_core SL j (mem f) 16 r \<and> sc_found r"
    "res = FV_JOURNAL_EMPTY \<Longrightarrow> scan_slots (mem f) 16 r \<and> scan_core SL j (mem f) 16 r \<and> \<not> sc_found r \<and> (\<forall>i < 16. rec_blank (mem f) i)"
    "res = FV_JOURNAL_CORRUPT \<Longrightarrow> journal_inv SL j (mem f) \<Longrightarrow> (\<forall>i < 16. \<not> has_commit (mem f) i) \<and> (\<exists>i < 16. \<not> rec_blank (mem f) i)"
proof -
  note l = scan_loop_recs [OF law s [unfolded journal_scan_def]]
  show "mem f' = mem f" using l by blast
  have u: "scan_recs SL j (mem f) [0..<16] scan_start = Some x \<Longrightarrow> scan_slots (mem f) 16 x \<and> scan_core SL j (mem f) 16 x" for x
    using scan_recs_upto by blast
  show "res = FV_JOURNAL_OK \<Longrightarrow> scan_slots (mem f) 16 r \<and> scan_core SL j (mem f) 16 r \<and> sc_found r"
    using l u by (auto split: option.splits if_splits)
  show "res = FV_JOURNAL_EMPTY \<Longrightarrow> scan_slots (mem f) 16 r \<and> scan_core SL j (mem f) 16 r \<and> \<not> sc_found r \<and> (\<forall>i < 16. rec_blank (mem f) i)"
    using l u by (auto simp: scan_slots_def split: option.splits if_splits)
  assume c: "res = FV_JOURNAL_CORRUPT" and inv: "journal_inv SL j (mem f)"
  obtain x where x: "scan_recs SL j (mem f) [0..<16] scan_start = Some x" using scan_recs_total [OF inv] by blast
  then have "\<not> sc_found x" "sc_non_blank x" using l c by (auto split: if_splits)
  then show "(\<forall>i < 16. \<not> has_commit (mem f) i) \<and> (\<exists>i < 16. \<not> rec_blank (mem f) i)"
    using u [OF x] unfolding scan_slots_def scan_core_def by blast
qed

lemma journal_scan_bad:
  assumes "flash_law io mem" "journal_scan SL io j f = (res, r, f')"
    and "i < 16" "has_commit (mem f) i" "rec_state SL j (mem f) i = None"
  shows "res = FV_JOURNAL_IO \<or> res = FV_JOURNAL_CORRUPT"
  using journal_scan_spec(2,3) [OF assms(1,2)] assms(3-5)
  by (cases res) (auto simp: scan_core_def dest: blank_no_commit)

lemma journal_load_spec:
  assumes "flash_law io mem" "fv_journal_load SL io j f = (res, s, f')"
  shows "mem f' = mem f"
    "res = FV_JOURNAL_OK \<Longrightarrow> latest SL j (mem f) s"
    "res = FV_JOURNAL_EMPTY \<Longrightarrow> (\<forall>i < 16. rec_blank (mem f) i)"
    "journal_inv SL j (mem f) \<Longrightarrow> latest SL j (mem f) x \<Longrightarrow> res = FV_JOURNAL_IO \<or> res = FV_JOURNAL_OK \<and> s = x"
proof -
  obtain r where r: "journal_scan SL io j f = (res, r, f')" and s: "res = FV_JOURNAL_OK \<Longrightarrow> s = sc_latest r"
    using assms(2) by (auto simp: fv_journal_load_def Let_def split: prod.splits if_splits)
  note sc = journal_scan_spec [OF assms(1) r]
  show "mem f' = mem f" by (rule sc(1))
  show ok: "res = FV_JOURNAL_OK \<Longrightarrow> latest SL j (mem f) s" using sc(2) s scan_latest(1) by blast
  show "res = FV_JOURNAL_EMPTY \<Longrightarrow> (\<forall>i < 16. rec_blank (mem f) i)" using sc(3) by blast
  assume inv: "journal_inv SL j (mem f)" and x: "latest SL j (mem f) x"
  then obtain i where "i < 16" "has_commit (mem f) i" unfolding latest_def by blast
  then show "res = FV_JOURNAL_IO \<or> res = FV_JOURNAL_OK \<and> s = x"
    using sc(3,4) inv ok x latest_unique [OF inv] blank_no_commit by (cases res) blast+
qed

end
