(* ===== verification/Journal_Commit.thy ===== *)
theory Journal_Commit
  imports Journal_Scan
begin

text \<open>
  Committing to the journal: what the flash holds after \<open>fv_journal_commit\<close>, whatever the outcome and
  wherever it was cut, and what a later load makes of it.
\<close>

section \<open>Writing one record\<close>

lemma rec_at_full: "length m = 8192 \<Longrightarrow> i < 16 \<Longrightarrow> length (rec_at m i) = 512"
  by (simp add: rec_at_def)

lemma filled_span_sub: "filled b v \<Longrightarrow> filled (span b o' n) v"
  by (auto simp: filled_iff span_def dest: in_set_takeD in_set_dropD)

text \<open>Memory \<open>b\<close> is memory \<open>a\<close> but for record \<open>i\<close>.\<close>

definition only_rec :: "nat \<Rightarrow> u8 list \<Rightarrow> u8 list \<Rightarrow> bool" where
  "only_rec i a b \<longleftrightarrow> (\<forall>k < 16. k \<noteq> i \<longrightarrow> rec_at b k = rec_at a k)"

lemma program_only_rec:
  assumes law: "flash_law io mem" and p: "io_program io (i * 512 + o') page f = (ok, f')" and o': "o' = 0 \<or> o' = 256"
  shows "only_rec i (mem f) (mem f')"
  unfolding only_rec_def
proof (intro allI impI)
  fix k assume k: "k < 16" "k \<noteq> i"
  show "rec_at (mem f') k = rec_at (mem f) k"
  proof (rule rec_at_cong)
    show "length (mem f') = length (mem f)" using flash_lawD(1) [OF law] by simp
    fix x assume "k * 512 \<le> x" "x < k * 512 + 512" "x < length (mem f')"
    then show "mem f' ! x = mem f ! x"
      using flash_lawD(1) [OF law, of f'] k o' by (intro flash_lawD(4) [OF law p]) auto
  qed
qed

lemma program_other_page:
  assumes law: "flash_law io mem" and p: "io_program io (i * 512 + o') page f = (ok, f')" and i: "i < 16"
    and o': "o' = 0 \<and> q = 256 \<or> o' = 256 \<and> q = 0"
  shows "span (rec_at (mem f') i) q 256 = span (rec_at (mem f) i) q 256"
proof -
  have l: "length (mem f) = 8192" "length (mem f') = 8192" using flash_lawD(1) [OF law] by auto
  have "span (mem f') (i * 512 + q) 256 = span (mem f) (i * 512 + q) 256"
    using l o' by (subst span_eq_iff) (auto intro!: flash_lawD(4) [OF law p])
  moreover have "span (rec_at m i) q 256 = span m (i * 512 + q) 256" for m :: "u8 list"
    unfolding rec_at_def using o' by (intro span_span) auto
  ultimately show ?thesis by simp
qed

lemma only_rec_trans: "only_rec i a b \<Longrightarrow> only_rec i b c \<Longrightarrow> only_rec i a c"
  by (simp add: only_rec_def)

lemma commit_write_spec:
  assumes law: "flash_law io mem" and i: "i < 16" and w: "commit_write io i record f = (res, f')"
    and rl: "length record = 512"
  shows "res \<noteq> FV_JOURNAL_OK \<and> mem f' = mem f \<or>
    rec_blank (mem f) i \<and> only_rec i (mem f) (mem f') \<and>
    (\<not> has_commit (mem f') i \<or> span (rec_at (mem f') i) 0 256 = span record 0 256) \<and>
    (res = FV_JOURNAL_OK \<longrightarrow> rec_at (mem f') i = record)"
proof -
  note D = flash_lawD [OF law]
  obtain v0 f0 where r0: "io_read io (i * 512) 512 f = (v0, f0)" by (cases "io_read io (i * 512) 512 f")
  have m0: "mem f0 = mem f" using D(2) [OF r0] .
  show ?thesis
  proof (cases "\<exists>v. v0 = Some v \<and> filled v 255")
    case False
    then show ?thesis using w r0 m0 by (auto simp: commit_write_def Let_def split: option.splits if_splits)
  next
    case True
    then have blank: "rec_blank (mem f) i" using D(3) r0 by (auto simp: rec_blank_def rec_at_def)
    obtain ok1 f1 where p1: "io_program io (i * 512) (span record 0 256) f0 = (ok1, f1)"
      by (cases "io_program io (i * 512) (span record 0 256) f0")
    have p1': "io_program io (i * 512 + 0) (span record 0 256) f0 = (ok1, f1)" using p1 by simp
    have o1: "only_rec i (mem f) (mem f1)" using program_only_rec [OF law p1'] m0 by simp
    have "span (rec_at (mem f1) i) 256 256 = span (rec_at (mem f) i) 256 256"
      using program_other_page [OF law p1' i] m0 by simp
    then have nc1: "\<not> has_commit (mem f1) i"
      using blank_no_commit [OF blank] by (simp add: has_commit_def)
    obtain v2 f2 where r2: "io_read io (i * 512) 256 f1 = (v2, f2)" by (cases "io_read io (i * 512) 256 f1")
    have m2: "mem f2 = mem f1" using D(2) [OF r2] .
    show ?thesis
    proof (cases "ok1 \<and> v2 = Some (span record 0 256)")
      case False
      then have "res \<noteq> FV_JOURNAL_OK \<and> mem f' = mem f1"
        using w r0 True p1 r2 m2 by (auto simp: commit_write_def Let_def split: option.splits if_splits bool.splits)
      then show ?thesis using blank o1 nc1 by simp
    next
      case ok: True
      have b2: "span (rec_at (mem f2) i) 0 256 = span record 0 256"
        using D(3) [of "i * 512" 256 f1] r2 ok m2 by (simp add: rec_at_def span_span)
      obtain ok3 f3 where p3: "io_program io (i * 512 + 256) (span record 256 256) f2 = (ok3, f3)"
        by (cases "io_program io (i * 512 + 256) (span record 256 256) f2")
      have o3: "only_rec i (mem f) (mem f3)"
        using only_rec_trans [OF o1] program_only_rec [OF law p3] m2 by simp
      have b3: "span (rec_at (mem f3) i) 0 256 = span record 0 256"
        using program_other_page [OF law p3 i] b2 by simp
      obtain v4 f4 where r4: "io_read io (i * 512) 512 f3 = (v4, f4)" by (cases "io_read io (i * 512) 512 f3")
      have m4: "mem f4 = mem f3" using D(2) [OF r4] .
      have "(f' = f3 \<or> f' = f4) \<and> (res = FV_JOURNAL_OK \<longrightarrow> v4 = Some record)"
        using w r0 True p1 r2 ok p3 r4 by (auto simp: commit_write_def Let_def split: option.splits if_splits bool.splits)
      moreover have "v4 = Some record \<Longrightarrow> rec_at (mem f3) i = record"
        using D(3) [of "i * 512" 512 f3] r4 by (simp add: rec_at_def)
      ultimately show ?thesis using blank o3 b3 m4 by auto
    qed
  qed
qed

section \<open>Choosing the slot\<close>

definition only_bank :: "nat \<Rightarrow> u8 list \<Rightarrow> u8 list \<Rightarrow> bool" where
  "only_bank bank a b \<longleftrightarrow> (\<forall>k < 16. k div 8 \<noteq> bank \<longrightarrow> rec_at b k = rec_at a k)"

lemma erase_only_bank:
  assumes law: "flash_law io mem" and e: "io_erase io bank f = (ok, f')"
  shows "only_bank bank (mem f) (mem f')"
  unfolding only_bank_def
proof (intro allI impI)
  fix k assume k: "k < 16" "k div 8 \<noteq> bank"
  then have kb: "k < bank * 8 \<or> bank * 8 + 8 \<le> k" by auto
  show "rec_at (mem f') k = rec_at (mem f) k"
  proof (rule rec_at_cong)
    show "length (mem f') = length (mem f)" using flash_lawD(1) [OF law] by simp
    fix x assume "k * 512 \<le> x" "x < k * 512 + 512" "x < length (mem f')"
    then show "mem f' ! x = mem f ! x"
      using flash_lawD(1) [OF law, of f'] kb by (intro flash_lawD(5) [OF law e]) auto
  qed
qed

lemma bank_blank_spec:
  assumes law: "flash_law io mem"
  shows "bank_blank io bank xs f = (ok, f') \<Longrightarrow> mem f' = mem f \<and> (ok \<longrightarrow> (\<forall>i \<in> set xs. rec_blank (mem f) (bank * 8 + i)))"
proof (induction xs arbitrary: f)
  case (Cons i xs)
  obtain v f1 where r: "io_read io (bank * 4096 + i * 512) 512 f = (v, f1)"
    by (cases "io_read io (bank * 4096 + i * 512) 512 f")
  have m: "mem f1 = mem f" using flash_lawD(2) [OF law r] .
  have b: "rec_blank (mem f) (bank * 8 + i)" if "v = Some x" "filled x 255" for x
    using flash_lawD(3) [OF law] r that by (simp add: rec_blank_def rec_at_def algebra_simps)
  show ?case
    using Cons.prems Cons.IH [of f1] r m b by (auto split: option.splits if_splits)
qed simp

lemma commit_slot_spec:
  assumes law: "flash_law io mem" and sc: "scan_slots (mem f) 16 r" "scan_core SL j (mem f) 16 r"
    and c: "commit_slot io r f = (x, f')"
  shows "x = Some None \<Longrightarrow> mem f' = mem f"
    "x = None \<Longrightarrow> sc_found r \<and> (\<exists>bank < 2. bank \<noteq> sc_latest_index r div 8 \<and> (\<exists>ok f1. io_erase io bank f = (ok, f1) \<and> mem f' = mem f1))"
    "x = Some (Some i) \<Longrightarrow> i < 16 \<and>
      (mem f' = mem f \<or> sc_found r \<and> (\<exists>bank < 2. bank \<noteq> sc_latest_index r div 8 \<and> only_bank bank (mem f) (mem f') \<and>
        (\<forall>k < 16. k div 8 = bank \<longrightarrow> rec_blank (mem f') k)))"
proof -
  have fb: "sc_first_blank r = Some b \<Longrightarrow> b < 16" for b using sc(1) by (auto simp: scan_slots_def)
  have *: "(x = Some None \<longrightarrow> mem f' = mem f) \<and>
    (x = None \<longrightarrow> sc_found r \<and> (\<exists>bank < 2. bank \<noteq> sc_latest_index r div 8 \<and> (\<exists>ok f1. io_erase io bank f = (ok, f1) \<and> mem f' = mem f1))) \<and>
    (\<forall>i. x = Some (Some i) \<longrightarrow> i < 16 \<and>
      (mem f' = mem f \<or> sc_found r \<and> (\<exists>bank < 2. bank \<noteq> sc_latest_index r div 8 \<and> only_bank bank (mem f) (mem f') \<and>
        (\<forall>k < 16. k div 8 = bank \<longrightarrow> rec_blank (mem f') k))))"
  proof (cases "sc_found r")
    case False
    then show ?thesis using c fb by (auto simp: commit_slot_def)
  next
    case True
    define bank where "bank = sc_latest_index r div 8"
    have li: "sc_latest_index r < 16" using sc(2) True by (simp add: scan_core_def)
    then have b2: "bank < 2" by (simp add: bank_def)
    define index where "index = (case sc_last_used r ! bank of None \<Rightarrow> 0 | Some u \<Rightarrow> u + 1)"
    show ?thesis
    proof (cases "index \<ge> (bank + 1) * 8")
      case False
      then show ?thesis using c True b2 by (auto simp: commit_slot_def Let_def index_def bank_def)
    next
      case full: True
      define ob where "ob = 1 - bank"
      have ob: "ob < 2" "ob \<noteq> bank" using b2 by (auto simp: ob_def less_2_cases_iff)
      obtain ok f1 where e: "io_erase io ob f = (ok, f1)" by (cases "io_erase io ob f")
      obtain ok2 f2 where bb: "bank_blank io ob [0..<8] f1 = (ok2, f2)" by (cases "bank_blank io ob [0..<8] f1")
      note bs = bank_blank_spec [OF law bb]
      have blank: "rec_blank (mem f2) k" if "ok2" "k < 16" "k div 8 = ob" for k
      proof -
        have "k mod 8 \<in> set [0..<8]" "ob * 8 + k mod 8 = k" using that(3) by auto
        then show ?thesis using bs that(1) by fastforce
      qed
      have cs: "(x, f') = (if \<not> ok then (None, f1) else if \<not> ok2 then (None, f2) else (Some (Some (ob * 8)), f2))"
        using c True full e bb by (auto simp: commit_slot_def Let_def index_def bank_def ob_def split: if_splits)
      have "only_bank ob (mem f) (mem f2)" using erase_only_bank [OF law e] bs by simp
      then show ?thesis
        using cs ob True e bs blank unfolding bank_def by (auto split: if_splits)
    qed
  qed
  show "x = Some None \<Longrightarrow> mem f' = mem f" using * by blast
  show "x = None \<Longrightarrow> sc_found r \<and> (\<exists>bank < 2. bank \<noteq> sc_latest_index r div 8 \<and> (\<exists>ok f1. io_erase io bank f = (ok, f1) \<and> mem f' = mem f1))"
    using * by blast
  show "x = Some (Some i) \<Longrightarrow> i < 16 \<and>
      (mem f' = mem f \<or> sc_found r \<and> (\<exists>bank < 2. bank \<noteq> sc_latest_index r div 8 \<and> only_bank bank (mem f) (mem f') \<and>
        (\<forall>k < 16. k div 8 = bank \<longrightarrow> rec_blank (mem f') k)))"
    using * by blast
qed

section \<open>Invariant and latest state under changes of the contents\<close>

lemma latestI:
  "i < 16 \<Longrightarrow> has_commit m i \<Longrightarrow> rec_state SL j m i = Some s \<Longrightarrow>
   (\<And>k x. k < 16 \<Longrightarrow> has_commit m k \<Longrightarrow> rec_state SL j m k = Some x \<Longrightarrow> ds_sequence x \<le> ds_sequence s) \<Longrightarrow> latest SL j m s"
  unfolding latest_def by blast

text \<open>Dropping records other than a latest one changes nothing that counts.\<close>

lemma inv_drop:
  assumes inv: "journal_inv SL j a" and sub: "\<And>k. k < 16 \<Longrightarrow> has_commit b k \<Longrightarrow> rec_at b k = rec_at a k"
  shows "journal_inv SL j b"
proof -
  have "has_commit a k" "rec_state SL j b k = rec_state SL j a k" if "k < 16" "has_commit b k" for k
    using sub [OF that] that has_commit_cong rec_state_cong by blast+
  then show ?thesis using inv unfolding journal_inv_def by metis
qed

lemma latest_drop:
  assumes inv: "journal_inv SL j a" and sub: "\<And>k. k < 16 \<Longrightarrow> has_commit b k \<Longrightarrow> rec_at b k = rec_at a k"
    and i: "i < 16" "has_commit a i" "rec_state SL j a i = Some s" "rec_at b i = rec_at a i" and l: "latest SL j a s"
  shows "latest SL j b x \<longleftrightarrow> x = s"
proof -
  have h: "has_commit a k \<and> rec_state SL j b k = rec_state SL j a k" if "k < 16" "has_commit b k" for k
    using sub [OF that] that has_commit_cong rec_state_cong by metis
  have "latest SL j b s"
  proof (rule latestI [of i])
    show "i < 16" "has_commit b i" "rec_state SL j b i = Some s"
      using i has_commit_cong [OF i(4)] rec_state_cong [OF i(4)] by simp_all
    fix k y assume "k < 16" "has_commit b k" "rec_state SL j b k = Some y"
    then show "ds_sequence y \<le> ds_sequence s" using h l unfolding latest_def by metis
  qed
  then show ?thesis using latest_unique [OF inv_drop [OF inv sub]] by blast
qed

text \<open>Adding a record with a larger sequence number.\<close>

lemma inv_add:
  assumes inv: "journal_inv SL j a" and o': "only_rec i a b" and i: "i < 16" "has_commit b i" "rec_state SL j b i = Some s"
    and big: "\<And>k x. k < 16 \<Longrightarrow> has_commit a k \<Longrightarrow> rec_state SL j a k = Some x \<Longrightarrow> ds_sequence x < ds_sequence s"
  shows "journal_inv SL j b \<and> (latest SL j b x \<longleftrightarrow> x = s)"
proof -
  have h: "has_commit b k = has_commit a k" "rec_state SL j b k = rec_state SL j a k" if "k < 16" "k \<noteq> i" for k
    using o' that has_commit_cong rec_state_cong unfolding only_rec_def by metis+
  have ne: "\<exists>y. rec_state SL j b k = Some y \<and> ds_sequence y < ds_sequence s" if "k < 16" "k \<noteq> i" "has_commit b k" for k
    using inv big h that unfolding journal_inv_def by (metis option.exhaust)
  have inv': "journal_inv SL j b"
    unfolding journal_inv_def
  proof (intro conjI allI impI)
    fix k assume "k < 16" "has_commit b k"
    then show "rec_state SL j b k \<noteq> None" using ne i(3) by (cases "k = i") auto
  next
    fix k l assume kl: "k < 16" "l < 16" "k \<noteq> l" "has_commit b k" "has_commit b l"
    show "map_option ds_sequence (rec_state SL j b k) \<noteq> map_option ds_sequence (rec_state SL j b l)"
    proof (cases "k = i \<or> l = i")
      case True
      then show ?thesis using ne [of k] ne [of l] kl i(3) by auto
    next
      case False
      then show ?thesis using inv kl h unfolding journal_inv_def by metis
    qed
  qed
  moreover have "latest SL j b s"
    by (rule latestI [OF i]) (use ne i(3) in \<open>metis option.inject order.strict_implies_order order_refl\<close>)
  ultimately show ?thesis using latest_unique by blast
qed

end
