(* ===== verification/Versioned_Cell.thy ===== *)
theory Versioned_Cell
  imports Bytes
begin

text \<open>
  The interface of a durable state with version numbers, as the vault relies on it and the journal
  provides it (\<^verbatim>\<open>fv_device_authority\<close> in \<^verbatim>\<open>vault.h\<close>: "success means durable, error may be uncertain;
  reject stale writers; never restore older state"). \<open>current\<close> is the state that the medium stands for,
  if any, and \<open>fresh\<close> a medium that never held one. The lemmas are about arbitrary sequences of loads
  and commits, with whatever outcome each of them has.
\<close>

datatype 's cell_op = Cell_Load | Cell_Commit u64 's

fun cell_run :: "('f \<Rightarrow> 's option \<times> 'f) \<Rightarrow> (u64 \<Rightarrow> 's \<Rightarrow> 'f \<Rightarrow> bool \<times> 'f) \<Rightarrow> 's cell_op list \<Rightarrow> 'f \<Rightarrow> 'f" where
  "cell_run load commit [] f = f"
| "cell_run load commit (Cell_Load # ops) f = cell_run load commit ops (snd (load f))"
| "cell_run load commit (Cell_Commit p s # ops) f = cell_run load commit ops (snd (commit p s f))"

definition ops_wf :: "('s \<Rightarrow> bool) \<Rightarrow> 's cell_op list \<Rightarrow> bool" where
  "ops_wf valid ops \<longleftrightarrow> (\<forall>p s. Cell_Commit p s \<in> set ops \<longrightarrow> valid s)"

locale versioned_cell =
  fixes load :: "'f \<Rightarrow> 's option \<times> 'f"
    and commit :: "u64 \<Rightarrow> 's \<Rightarrow> 'f \<Rightarrow> bool \<times> 'f"
    and inv :: "'f \<Rightarrow> bool"
    and current :: "'f \<Rightarrow> 's \<Rightarrow> bool"
    and fresh :: "'f \<Rightarrow> bool"
    and valid :: "'s \<Rightarrow> bool"
    and version :: "'s \<Rightarrow> u64"
  assumes current_unique: "inv f \<Longrightarrow> current f a \<Longrightarrow> current f b \<Longrightarrow> a = b"
    and fresh_none: "inv f \<Longrightarrow> fresh f \<Longrightarrow> \<not> current f s"
    and load_keeps: "inv f \<Longrightarrow> load f = (r, f') \<Longrightarrow> inv f' \<and> (current f' x \<longleftrightarrow> current f x) \<and> (fresh f' \<longleftrightarrow> fresh f)"
    and load_current: "inv f \<Longrightarrow> load f = (Some s, f') \<Longrightarrow> current f s \<and> valid s"
    and commit_keeps: "inv f \<Longrightarrow> valid s \<Longrightarrow> commit p s f = (ok, f') \<Longrightarrow> inv f' \<and> (fresh f' \<longrightarrow> fresh f)"
    and commit_step: "inv f \<Longrightarrow> valid s \<Longrightarrow> commit p s f = (ok, f') \<Longrightarrow> current f' x \<Longrightarrow>
      current f x \<or> x = s \<and> p < version s \<and> (if fresh f then p = 0 else \<exists>z. current f z \<and> version z = p)"
    and commit_durable: "inv f \<Longrightarrow> valid s \<Longrightarrow> commit p s f = (True, f') \<Longrightarrow> current f' s"
begin

lemma commit_then_load:
  "inv f \<Longrightarrow> valid s \<Longrightarrow> commit p s f = (True, f') \<Longrightarrow> load f' = (Some x, f'') \<Longrightarrow> x = s"
  using commit_keeps commit_durable load_current current_unique by metis

lemma stale_commit_fails:
  "inv f \<Longrightarrow> valid s \<Longrightarrow> current f z \<Longrightarrow> version z \<noteq> p \<Longrightarrow> commit p s f = (ok, f') \<Longrightarrow> current f' x \<Longrightarrow> x = z"
  using commit_step [of f s p ok f' x] current_unique fresh_none by metis

lemma run_keeps:
  "inv f \<Longrightarrow> ops_wf valid ops \<Longrightarrow> \<not> fresh f \<Longrightarrow> (\<And>y. current f y \<Longrightarrow> v \<le> version y) \<Longrightarrow>
   inv (cell_run load commit ops f) \<and> \<not> fresh (cell_run load commit ops f) \<and>
   (\<forall>y. current (cell_run load commit ops f) y \<longrightarrow> v \<le> version y)"
proof (induction ops arbitrary: f)
  case (Cons op ops)
  have valid: "ops_wf valid ops" using Cons.prems(2) by (simp add: ops_wf_def)
  show ?case
  proof (cases op)
    case Cell_Load
    obtain r f' where l: "load f = (r, f')" by (cases "load f")
    then show ?thesis
      using Cons.IH [of f'] Cons.prems load_keeps [OF Cons.prems(1) l] valid Cell_Load by simp
  next
    case (Cell_Commit p s)
    obtain ok f' where c: "commit p s f = (ok, f')" by (cases "commit p s f")
    have s: "valid s" using Cons.prems(2) Cell_Commit by (simp add: ops_wf_def)
    note k = commit_keeps [OF Cons.prems(1) s c]
    have "v \<le> version y" if "current f' y" for y
      using commit_step [OF Cons.prems(1) s c that] Cons.prems(3,4)
      by (auto intro: order_trans dest: order.strict_implies_order)
    then show ?thesis using Cons.IH [of f'] Cons.prems k valid Cell_Commit c by simp
  qed
qed simp

text \<open>Whatever is loaded, committed, interrupted or refused, the state never goes back.\<close>

lemma no_rollback:
  assumes "inv f" "ops_wf valid ops" "current f x" "current (cell_run load commit ops f) y"
  shows "version x \<le> version y"
proof -
  have "version x \<le> version z" if "current f z" for z using current_unique [OF assms(1) assms(3) that] by simp
  then show ?thesis
    using run_keeps [OF assms(1,2), of "version x"] fresh_none [OF assms(1)] assms(3,4) by blast
qed

end

end
