(* ===== verification/Journal_Correct.thy ===== *)
theory Journal_Correct
  imports Journal_Commit Versioned_Cell
begin

text \<open>
  The journal as a durable versioned state. Theorems: a commit is atomic under arbitrary interruption
  and durable on success; a sequence of loads and commits never restores an older state; on flash that
  works, every commit of the next valid state succeeds. The journal interprets \<open>versioned_cell\<close>.
\<close>

text \<open>A torn erase can leave anything in its bank; what the journal relies on is that it does not
  leave a different record that authenticates under the device's journal key.\<close>

definition torn_erase_law :: "sha_lib \<Rightarrow> 'f fv_journal_io \<Rightarrow> fv_journal \<Rightarrow> ('f \<Rightarrow> u8 list) \<Rightarrow> bool" where
  "torn_erase_law SL io j mem \<longleftrightarrow>
     (\<forall>bank f ok f'. io_erase io bank f = (ok, f') \<longrightarrow>
        (\<forall>k < 16. k div 8 = bank \<longrightarrow> has_commit (mem f') k \<longrightarrow>
           rec_state SL j (mem f') k = None \<or> rec_at (mem f') k = rec_at (mem f) k))"

definition journal_bad :: "sha_lib \<Rightarrow> fv_journal \<Rightarrow> u8 list \<Rightarrow> bool" where
  "journal_bad SL j m \<longleftrightarrow> (\<exists>i < 16. has_commit m i \<and> rec_state SL j m i = None)"

section \<open>Outcomes of a commit\<close>

lemma latest_exists:
  assumes "journal_inv SL j m" "i < 16" "has_commit m i"
  shows "\<exists>s. latest SL j m s"
proof -
  obtain r where r: "scan_recs SL j m [0..<16] scan_start = Some r" using scan_recs_total [OF assms(1)] by blast
  then have c: "scan_core SL j m 16 r" using scan_recs_upto by blast
  then have "sc_found r" using assms(2,3) unfolding scan_core_def by blast
  then show ?thesis using scan_latest(1) [OF c] by blast
qed

lemma latest_drop_iff:
  assumes inv: "journal_inv SL j a" and sub: "\<And>k. k < 16 \<Longrightarrow> has_commit b k \<Longrightarrow> rec_at b k = rec_at a k"
    and keep: "\<And>i s. i < 16 \<Longrightarrow> has_commit a i \<Longrightarrow> rec_state SL j a i = Some s \<Longrightarrow> latest SL j a s \<Longrightarrow> rec_at b i = rec_at a i"
  shows "latest SL j b x \<longleftrightarrow> latest SL j a x"
proof (cases "\<exists>s. latest SL j a s")
  case True
  then obtain s where s: "latest SL j a s" ..
  then obtain i where i: "i < 16" "has_commit a i" "rec_state SL j a i = Some s" unfolding latest_def by blast
  show ?thesis
    using latest_drop [OF inv sub i keep [OF i s] s, of x] latest_unique [OF inv s] s by blast
next
  case False
  have "\<not> latest SL j b x"
  proof
    assume "latest SL j b x"
    then obtain k where "k < 16" "has_commit b k" unfolding latest_def by blast
    then have "k < 16" "has_commit a k" using sub has_commit_cong by blast+
    then show False using latest_exists [OF inv] False by blast
  qed
  with False show ?thesis by blast
qed

lemma record_has_commit:
  assumes "journal_record SL j s = Some b"
  shows "\<not> filled (span b 256 256) 255"
proof -
  obtain c t where c: "journal_body SL j s = Some c" and m: "journal_marker SL j c = Some t" and b: "b = c @ t"
    using assms by (auto simp: journal_record_def split: option.splits)
  have l: "length c = 256" "length t = 256" using length_journal_body [OF c] length_journal_marker [OF m] by simp_all
  obtain digest tag where t: "t = memcpy (memcpy (memcpy (memcpy (zeros 256) 0 (ascii ''FV2COMIT'')) 8 (span c 16 8)) 16 digest) 224 tag"
    using m by (auto simp: journal_marker_def Let_def split: option.splits)
  have x: "t ! 0 = 0x46" by (simp add: t nth_memcpy ascii_def)
  have "span b 256 256 = t" using l by (simp add: b span_def)
  moreover have "t ! 0 = 255" if "filled t 255" using that l by (simp add: filled_iff)
  ultimately show ?thesis using x by auto
qed

lemma same_body_same_state:
  assumes "device_state_wf s" "journal_record SL j s = Some b" "journal_decode SL j c = Some x"
    and "span c 0 256 = span b 0 256"
  shows "x = s"
proof -
  note x = journal_codec.dec_canonical [OF assms(3)] journal_codec.dec_wf [OF assms(3)]
  obtain b1 m1 where b1: "journal_body SL j s = Some b1" "b = b1 @ m1" "journal_marker SL j b1 = Some m1"
    using assms(2) by (auto simp: journal_record_def split: option.splits)
  obtain c1 n1 where c1: "journal_body SL j x = Some c1" "c = c1 @ n1" "journal_marker SL j c1 = Some n1"
    using x(1) by (auto simp: journal_record_def split: option.splits)
  have "c1 = b1" using assms(4) b1 c1 length_journal_body [OF b1(1)] length_journal_body [OF c1(1)] by (simp add: span_def)
  then have "c = b" using b1 c1 by simp
  then show ?thesis using x assms(1,2) journal_codec.enc_inject by metis
qed

text \<open>The three things a commit of \<open>s\<close> over \<open>m\<close> can leave.\<close>

definition left_old :: "sha_lib \<Rightarrow> fv_journal \<Rightarrow> u8 list \<Rightarrow> u8 list \<Rightarrow> bool" where
  "left_old SL j m m' \<longleftrightarrow> journal_inv SL j m' \<and> (\<forall>x. latest SL j m' x \<longleftrightarrow> latest SL j m x)"

definition left_new :: "sha_lib \<Rightarrow> fv_journal \<Rightarrow> u64 \<Rightarrow> fv_device_state \<Rightarrow> u8 list \<Rightarrow> u8 list \<Rightarrow> bool" where
  "left_new SL j p s m m' \<longleftrightarrow> journal_inv SL j m' \<and> (\<forall>x. latest SL j m' x \<longleftrightarrow> x = s) \<and> p < ds_sequence s \<and>
     (if \<forall>i < 16. rec_blank m i then p = 0 else \<exists>z. latest SL j m z \<and> ds_sequence z = p)"

lemma commit_write_outcome:
  assumes law: "flash_law io mem" and inv: "journal_inv SL j (mem f)" and wf: "device_state_wf s"
    and rec: "journal_record SL j s = Some b" and i: "i < 16" and w: "commit_write io i b f = (res, f')"
    and big: "\<And>k x. k < 16 \<Longrightarrow> has_commit (mem f) k \<Longrightarrow> rec_state SL j (mem f) k = Some x \<Longrightarrow> ds_sequence x < ds_sequence s"
  shows "res \<noteq> FV_JOURNAL_OK \<and> (journal_bad SL j (mem f') \<or> left_old SL j (mem f) (mem f')) \<or>
    journal_inv SL j (mem f') \<and> (\<forall>x. latest SL j (mem f') x \<longleftrightarrow> x = s)"
proof -
  have ok: "left_old SL j (mem f) (mem f)" using inv by (simp add: left_old_def)
  note sp = commit_write_spec [OF law i w length_journal_record [OF rec]]
  show ?thesis
  proof (cases "res \<noteq> FV_JOURNAL_OK \<and> mem f' = mem f")
    case True
    then show ?thesis using ok by simp
  next
    case False
    with sp have blank: "rec_blank (mem f) i" and o': "only_rec i (mem f) (mem f')"
      and page: "\<not> has_commit (mem f') i \<or> span (rec_at (mem f') i) 0 256 = span b 0 256"
      and done': "res = FV_JOURNAL_OK \<Longrightarrow> rec_at (mem f') i = b" by auto
    show ?thesis
    proof (cases "has_commit (mem f') i")
      case nc: False
      then have "res \<noteq> FV_JOURNAL_OK" using done' record_has_commit [OF rec] by (auto simp: has_commit_def)
      have sub: "rec_at (mem f') k = rec_at (mem f) k" if "k < 16" "has_commit (mem f') k" for k
        using o' that nc unfolding only_rec_def by blast
      have "rec_at (mem f') k = rec_at (mem f) k" if "k < 16" "has_commit (mem f) k" for k
        using o' that blank_no_commit [OF blank] unfolding only_rec_def by blast
      then have "left_old SL j (mem f) (mem f')"
        using inv_drop [OF inv sub] latest_drop_iff [OF inv sub] unfolding left_old_def by blast
      with \<open>res \<noteq> FV_JOURNAL_OK\<close> show ?thesis by blast
    next
      case c: True
      show ?thesis
      proof (cases "rec_state SL j (mem f') i")
        case None
        then have "res \<noteq> FV_JOURNAL_OK"
          using done' journal_codec.dec_enc [OF wf rec] by (auto simp: rec_state_def)
        then show ?thesis using None c i unfolding journal_bad_def by blast
      next
        case (Some x)
        then have "x = s" using same_body_same_state [OF wf rec, of "rec_at (mem f') i" x] page c by (simp add: rec_state_def)
        then show ?thesis using inv_add [OF inv o' i c, of s] big Some by blast
      qed
    qed
  qed
qed

lemma left_old_drop_bank:
  assumes inv: "journal_inv SL j a" and l: "latest SL j a s" and i: "i < 16" "has_commit a i" "rec_state SL j a i = Some s"
    and bank: "i div 8 \<noteq> bank" "only_bank bank a b"
    and in_bank: "\<And>k. k < 16 \<Longrightarrow> k div 8 = bank \<Longrightarrow> has_commit b k \<Longrightarrow> rec_at b k = rec_at a k"
  shows "left_old SL j a b"
proof -
  have sub: "\<And>k. k < 16 \<Longrightarrow> has_commit b k \<Longrightarrow> rec_at b k = rec_at a k"
    using bank(2) in_bank unfolding only_bank_def by blast
  have bi: "rec_at b i = rec_at a i" using bank i unfolding only_bank_def by blast
  have "latest SL j b x \<longleftrightarrow> x = s" for x by (rule latest_drop [OF inv _ i bi l]) (rule sub)
  moreover have "journal_inv SL j b" by (rule inv_drop [OF inv]) (rule sub)
  moreover have "latest SL j a x \<longleftrightarrow> x = s" for x using latest_unique [OF inv l] l by blast
  ultimately show ?thesis by (simp add: left_old_def)
qed

lemma commit_outcome:
  assumes law: "flash_law io mem" and torn: "torn_erase_law SL io j mem" and inv: "journal_inv SL j (mem f)"
    and wf: "device_state_wf s" and c: "fv_journal_commit SL io j p s f = (res, f')"
  shows "res \<noteq> FV_JOURNAL_OK \<and> (journal_bad SL j (mem f') \<or> left_old SL j (mem f) (mem f')) \<or> left_new SL j p s (mem f) (mem f')"
proof -
  obtain st r f1 where sc: "journal_scan SL io j f = (st, r, f1)" by (cases "journal_scan SL io j f")
  note S = journal_scan_spec [OF law sc]
  have same: "left_old SL j (mem f) (mem f)" using inv by (simp add: left_old_def)
  let ?g = "p = UINT64_MAX \<or> ds_sequence s \<noteq> p + 1"
  let ?h = "st = FV_JOURNAL_IO \<or> st = FV_JOURNAL_CORRUPT \<or>
    (if st = FV_JOURNAL_EMPTY then p \<noteq> 0 else ds_sequence (sc_latest r) \<noteq> p)"
  show ?thesis
  proof (cases "?g \<or> ?h \<or> journal_record SL j s = None")
    case True
    then have "res = FV_JOURNAL_CORRUPT \<and> mem f' = mem f"
      using c sc S(1) by (auto simp: fv_journal_commit_def Let_def split: if_splits)
    with same show ?thesis by simp
  next
    case False
    then obtain b where b: "journal_record SL j s = Some b" by blast
    have p: "p < ds_sequence s" using False sequence_next by metis
    have st: "st = FV_JOURNAL_OK \<and> sc_found r \<and> ds_sequence (sc_latest r) = p \<or>
        st = FV_JOURNAL_EMPTY \<and> \<not> sc_found r \<and> p = 0 \<and> (\<forall>i < 16. rec_blank (mem f) i)"
      using False S(2,3) by (cases st) auto
    have slots: "scan_slots (mem f) 16 r" "scan_core SL j (mem f) 16 r" using st S(2,3) by blast+
    have prev: "if \<forall>i < 16. rec_blank (mem f) i then p = 0 else \<exists>z. latest SL j (mem f) z \<and> ds_sequence z = p"
      using st scan_latest(1) [OF slots(2)] slots(2) blank_no_commit unfolding scan_core_def by auto
    have big: "ds_sequence x < ds_sequence s" if "k < 16" "has_commit (mem f) k" "rec_state SL j (mem f) k = Some x" for k x
    proof -
      have "sc_found r" "ds_sequence x \<le> ds_sequence (sc_latest r)" using slots(2) that unfolding scan_core_def by blast+
      then show ?thesis using st p by auto
    qed
    obtain x f2 where cs: "commit_slot io r f1 = (x, f2)" by (cases "commit_slot io r f1")
    have slots1: "scan_slots (mem f1) 16 r" "scan_core SL j (mem f1) 16 r" using slots S(1) by simp_all
    note C = commit_slot_spec [OF law slots1 cs]
    have found: "latest SL j (mem f) (sc_latest r)" "sc_latest_index r < 16" "has_commit (mem f) (sc_latest_index r)"
      "rec_state SL j (mem f) (sc_latest_index r) = Some (sc_latest r)" if "sc_found r"
      using that scan_latest(1) [OF slots(2)] slots(2) unfolding scan_core_def by blast+
    have dropped: "left_old SL j (mem f) m" if "sc_found r" "bank \<noteq> sc_latest_index r div 8" "only_bank bank (mem f) m"
      "\<And>k. k < 16 \<Longrightarrow> k div 8 = bank \<Longrightarrow> has_commit m k \<Longrightarrow> rec_at m k = rec_at (mem f) k" for bank m
      using left_old_drop_bank [OF inv found [OF that(1)] that(2) [symmetric] that(3,4)] by blast
    show ?thesis
    proof (cases x)
      case None
      obtain bank ok g where bk: "sc_found r" "bank \<noteq> sc_latest_index r div 8" "io_erase io bank f1 = (ok, g)" "mem f2 = mem g"
        using C(2) [OF None] by blast
      have res: "res = FV_JOURNAL_IO" "f' = f2"
        using c sc False b cs None by (simp_all add: fv_journal_commit_def)
      have ob: "only_bank bank (mem f) (mem f2)" using erase_only_bank [OF law bk(3)] bk(4) S(1) by simp
      have tr: "rec_state SL j (mem f2) k = None \<or> rec_at (mem f2) k = rec_at (mem f) k"
        if "k < 16" "k div 8 = bank" "has_commit (mem f2) k" for k
        using torn bk(3,4) that S(1) unfolding torn_erase_law_def by metis
      show ?thesis
      proof (cases "journal_bad SL j (mem f2)")
        case True
        then show ?thesis using res by simp
      next
        case nb: False
        have "left_old SL j (mem f) (mem f2)"
          by (rule dropped [OF bk(1,2) ob]) (use tr nb [unfolded journal_bad_def] in blast)
        then show ?thesis using res by simp
      qed
    next
      case (Some y)
      show ?thesis
      proof (cases y)
        case None
        then have "res = FV_JOURNAL_CORRUPT \<and> mem f' = mem f"
          using c sc False b cs Some C(1) S(1) by (simp add: fv_journal_commit_def)
        with same show ?thesis by simp
      next
        case (Some i)
        with \<open>x = Some y\<close> have x: "x = Some (Some i)" by simp
        have w: "commit_write io i b f2 = (res, f')"
          using c sc False b cs x by (simp add: fv_journal_commit_def)
        have old2: "left_old SL j (mem f) (mem f2)"
        proof (cases "mem f2 = mem f")
          case True
          then show ?thesis using same by simp
        next
          case False
          then obtain bank where bk: "sc_found r" "bank \<noteq> sc_latest_index r div 8" "only_bank bank (mem f) (mem f2)"
            "\<forall>k < 16. k div 8 = bank \<longrightarrow> rec_blank (mem f2) k" using C(3) [OF x] S(1) by auto
          show ?thesis by (rule dropped [OF bk(1-3)]) (use bk(4) blank_no_commit in blast)
        qed
        have inv2: "journal_inv SL j (mem f2)" using old2 by (simp add: left_old_def)
        have big2: "ds_sequence x < ds_sequence s" if k: "k < 16" "has_commit (mem f2) k" "rec_state SL j (mem f2) k = Some x" for k x
        proof -
          obtain z where z: "latest SL j (mem f2) z" using latest_exists [OF inv2 k(1,2)] ..
          then have "latest SL j (mem f) z" using old2 by (simp add: left_old_def)
          then have "ds_sequence z < ds_sequence s" using big unfolding latest_def by blast
          moreover have "ds_sequence x \<le> ds_sequence z" using z k unfolding latest_def by blast
          ultimately show ?thesis by simp
        qed
        have i: "i < 16" using C(3) [OF x] by blast
        have "res \<noteq> FV_JOURNAL_OK \<and> (journal_bad SL j (mem f') \<or> left_old SL j (mem f2) (mem f')) \<or>
            journal_inv SL j (mem f') \<and> (\<forall>x. latest SL j (mem f') x \<longleftrightarrow> x = s)"
          by (rule commit_write_outcome [OF law inv2 wf b i w]) (rule big2)
        then show ?thesis using old2 p prev unfolding left_old_def left_new_def by auto
      qed
    qed
  qed
qed

section \<open>The journal is a versioned cell\<close>

definition cell_load :: "sha_lib \<Rightarrow> 'f fv_journal_io \<Rightarrow> fv_journal \<Rightarrow> 'f \<Rightarrow> fv_device_state option \<times> 'f" where
  "cell_load SL io j f =
     (case fv_journal_load SL io j f of (res, s, f) \<Rightarrow> (if res = FV_JOURNAL_OK then Some s else None, f))"

definition cell_commit :: "sha_lib \<Rightarrow> 'f fv_journal_io \<Rightarrow> fv_journal \<Rightarrow> u64 \<Rightarrow> fv_device_state \<Rightarrow> 'f \<Rightarrow> bool \<times> 'f" where
  "cell_commit SL io j p s f = (case fv_journal_commit SL io j p s f of (res, f) \<Rightarrow> (res = FV_JOURNAL_OK, f))"

definition cell_inv :: "sha_lib \<Rightarrow> 'f fv_journal_io \<Rightarrow> fv_journal \<Rightarrow> ('f \<Rightarrow> u8 list) \<Rightarrow> 'f \<Rightarrow> bool" where
  "cell_inv SL io j mem f \<longleftrightarrow> flash_law io mem \<and> torn_erase_law SL io j mem \<and>
     (journal_inv SL j (mem f) \<or> journal_bad SL j (mem f))"

definition cell_current :: "sha_lib \<Rightarrow> fv_journal \<Rightarrow> ('f \<Rightarrow> u8 list) \<Rightarrow> 'f \<Rightarrow> fv_device_state \<Rightarrow> bool" where
  "cell_current SL j mem f s \<longleftrightarrow> journal_inv SL j (mem f) \<and> latest SL j (mem f) s"

definition cell_fresh :: "('f \<Rightarrow> u8 list) \<Rightarrow> 'f \<Rightarrow> bool" where
  "cell_fresh mem f \<longleftrightarrow> (\<forall>i < 16. rec_blank (mem f) i)"

lemma bad_not_inv: "journal_bad SL j m \<Longrightarrow> \<not> journal_inv SL j m"
  unfolding journal_bad_def journal_inv_def by blast

lemma bad_load:
  assumes "flash_law io mem" "journal_bad SL j (mem f)" "fv_journal_load SL io j f = (res, s, f')"
  shows "res = FV_JOURNAL_IO \<or> res = FV_JOURNAL_CORRUPT"
proof -
  obtain r where r: "journal_scan SL io j f = (res, r, f')"
    using assms(3) by (auto simp: fv_journal_load_def Let_def split: prod.splits if_splits)
  then show ?thesis using journal_scan_bad [OF assms(1) r] assms(2) unfolding journal_bad_def by blast
qed

lemma bad_commit:
  assumes "flash_law io mem" "journal_bad SL j (mem f)" "fv_journal_commit SL io j p s f = (res, f')"
  shows "res = FV_JOURNAL_CORRUPT \<and> mem f' = mem f"
proof -
  obtain st r f1 where sc: "journal_scan SL io j f = (st, r, f1)" by (cases "journal_scan SL io j f")
  have "st = FV_JOURNAL_IO \<or> st = FV_JOURNAL_CORRUPT"
    using journal_scan_bad [OF assms(1) sc] assms(2) unfolding journal_bad_def by blast
  then show ?thesis
    using assms(3) sc journal_scan_spec(1) [OF assms(1) sc] by (auto simp: fv_journal_commit_def Let_def split: if_splits)
qed

lemma load_wf:
  assumes "flash_law io mem" "fv_journal_load SL io j f = (FV_JOURNAL_OK, s, f')"
  shows "device_state_wf s"
  using journal_load_spec(2) [OF assms] journal_codec.dec_wf unfolding latest_def rec_state_def by blast

lemma commit_not_fresh:
  assumes "flash_law io mem" "torn_erase_law SL io j mem" "journal_inv SL j (mem f)" "device_state_wf s"
    and "fv_journal_commit SL io j p s f = (res, f')" "cell_fresh mem f'"
  shows "cell_fresh mem f"
proof (rule ccontr)
  assume nf: "\<not> cell_fresh mem f"
  have no: "\<not> latest SL j (mem f') x" for x
    using assms(6) blank_no_commit unfolding cell_fresh_def latest_def by blast
  have nb: "\<not> journal_bad SL j (mem f')"
    using assms(6) blank_no_commit unfolding cell_fresh_def journal_bad_def by blast
  from commit_outcome [OF assms(1-5)] no nb have old: "\<not> latest SL j (mem f) x" for x
    unfolding left_old_def left_new_def by blast
  obtain st r f1 where sc: "journal_scan SL io j f = (st, r, f1)" by (cases "journal_scan SL io j f")
  note S = journal_scan_spec [OF assms(1) sc]
  have "st = FV_JOURNAL_IO \<or> st = FV_JOURNAL_CORRUPT"
    using S(2,3) old scan_latest(1) nf unfolding cell_fresh_def by (cases st) blast+
  then have "mem f' = mem f"
    using assms(5) sc S(1) by (auto simp: fv_journal_commit_def Let_def split: if_splits)
  then show False using assms(6) nf unfolding cell_fresh_def by simp
qed

interpretation journal_cell: versioned_cell "cell_load SL io j" "cell_commit SL io j" "cell_inv SL io j mem"
  "cell_current SL j mem" "cell_fresh mem" device_state_wf ds_sequence
  for SL io j mem
proof
  fix f f' :: 'a and a b s x :: fv_device_state and r :: "fv_device_state option" and p :: u64 and ok :: bool
  show "cell_current SL j mem f a \<Longrightarrow> cell_current SL j mem f b \<Longrightarrow> a = b"
    unfolding cell_current_def using latest_unique by blast
  show "cell_fresh mem f \<Longrightarrow> \<not> cell_current SL j mem f s"
    unfolding cell_fresh_def cell_current_def latest_def using blank_no_commit by blast
  show "cell_inv SL io j mem f \<Longrightarrow> cell_load SL io j f = (r, f') \<Longrightarrow>
      cell_inv SL io j mem f' \<and> cell_current SL j mem f' x = cell_current SL j mem f x \<and> cell_fresh mem f' = cell_fresh mem f"
    using journal_load_spec(1) [of io mem SL j f]
    by (auto simp: cell_load_def cell_inv_def cell_current_def cell_fresh_def split: prod.splits)
  show "cell_inv SL io j mem f \<Longrightarrow> cell_load SL io j f = (Some s, f') \<Longrightarrow> cell_current SL j mem f s \<and> device_state_wf s"
    using journal_load_spec(2) [of io mem SL j f] load_wf [of io mem SL j f] bad_load [of io mem SL j f]
    by (fastforce simp: cell_load_def cell_inv_def cell_current_def split: prod.splits if_splits)
  assume inv: "cell_inv SL io j mem f" and s: "device_state_wf s" and c: "cell_commit SL io j p s f = (ok, f')"
  then obtain res where res: "fv_journal_commit SL io j p s f = (res, f')" "ok = (res = FV_JOURNAL_OK)"
    by (auto simp: cell_commit_def split: prod.splits)
  have law: "flash_law io mem" "torn_erase_law SL io j mem" using inv by (simp_all add: cell_inv_def)
  have bad: "res \<noteq> FV_JOURNAL_OK \<and> mem f' = mem f" if "journal_bad SL j (mem f)"
    using bad_commit [OF law(1) that res(1)] by simp
  have out: "res \<noteq> FV_JOURNAL_OK \<and> (journal_bad SL j (mem f') \<or> left_old SL j (mem f) (mem f')) \<or> left_new SL j p s (mem f) (mem f')"
    if "journal_inv SL j (mem f)" using commit_outcome [OF law that s res(1)] .
  show "cell_inv SL io j mem f' \<and> (cell_fresh mem f' \<longrightarrow> cell_fresh mem f)"
    using inv bad out commit_not_fresh [OF law _ s res(1)] law
    unfolding cell_inv_def left_old_def left_new_def cell_fresh_def by metis
  show "cell_current SL j mem f' x \<Longrightarrow> cell_current SL j mem f x \<or> x = s \<and> p < ds_sequence s \<and>
      (if cell_fresh mem f then p = 0 else \<exists>z. cell_current SL j mem f z \<and> ds_sequence z = p)"
    using inv bad out bad_not_inv
    unfolding cell_inv_def left_old_def left_new_def cell_fresh_def cell_current_def by metis
  show "cell_commit SL io j p s f = (True, f') \<Longrightarrow> cell_current SL j mem f' s"
    using inv bad out res c unfolding cell_inv_def left_new_def cell_current_def by auto
qed

end
