(* ===== verification/Journal_Live.thy ===== *)
theory Journal_Live
  imports Journal_Correct
begin

text \<open>
  Progress of the journal on flash that works (programs of blank pages and erases achieve what was
  asked), a model of such flash in memory, and the properties of the journal with their witnesses.
\<close>

definition working_flash :: "'f fv_journal_io \<Rightarrow> ('f \<Rightarrow> u8 list) \<Rightarrow> bool" where
  "working_flash io mem \<longleftrightarrow> flash_law io mem \<and>
     (\<forall>off n f. off + n \<le> 8192 \<longrightarrow> fst (io_read io off n f) \<noteq> None) \<and>
     (\<forall>off page f. off + 256 \<le> 8192 \<longrightarrow> length page = 256 \<longrightarrow> filled (span (mem f) off 256) 255 \<longrightarrow>
        (\<exists>f'. io_program io off page f = (True, f') \<and> span (mem f') off 256 = page)) \<and>
     (\<forall>bank f. bank < 2 \<longrightarrow> (\<exists>f'. io_erase io bank f = (True, f') \<and> (\<forall>k < 16. k div 8 = bank \<longrightarrow> rec_blank (mem f') k)))"

lemma working_flash_law: "working_flash io mem \<Longrightarrow> flash_law io mem"
  by (simp add: working_flash_def)

lemma working_read:
  assumes "working_flash io mem" "off + n \<le> 8192"
  shows "\<exists>f'. io_read io off n f = (Some (span (mem f) off n), f') \<and> mem f' = mem f"
proof -
  obtain b f' where r: "io_read io off n f = (b, f')" by (cases "io_read io off n f")
  moreover have "fst (io_read io off n f) \<noteq> None" using assms unfolding working_flash_def by blast
  ultimately obtain x where "b = Some x" by auto
  with r flash_lawD(2,3) [OF working_flash_law [OF assms(1)], of off n f] show ?thesis by auto
qed

lemma working_program:
  assumes "working_flash io mem" "off + 256 \<le> 8192" "length page = 256" "filled (span (mem f) off 256) 255"
  shows "\<exists>f'. io_program io off page f = (True, f') \<and> span (mem f') off 256 = page"
  using assms unfolding working_flash_def by blast

lemma working_scan:
  assumes "working_flash io mem"
  shows "\<forall>i \<in> set is. i < 16 \<Longrightarrow> fst (scan_loop SL io j is r f) \<noteq> FV_JOURNAL_IO"
proof (induction "is" arbitrary: r f)
  case (Cons i "is")
  obtain f' where rd: "io_read io (i * 512) 512 f = (Some (span (mem f) (i * 512) 512), f')"
    using working_read [OF assms, of "i * 512" 512] Cons.prems by auto
  then show ?case using Cons by (auto split: option.splits)
qed simp

lemma working_bank_blank:
  assumes "working_flash io mem" "bank < 2"
  shows "\<forall>i \<in> set is. i < 8 \<and> rec_blank (mem f) (bank * 8 + i) \<Longrightarrow> fst (bank_blank io bank is f)"
proof (induction "is" arbitrary: f)
  case (Cons i "is")
  obtain f' where rd: "io_read io (bank * 4096 + i * 512) 512 f = (Some (span (mem f) (bank * 4096 + i * 512) 512), f')"
    and m: "mem f' = mem f"
    using working_read [OF assms(1), of "bank * 4096 + i * 512" 512] Cons.prems assms(2) by auto
  have "filled (span (mem f) (bank * 4096 + i * 512) 512) 255"
    using Cons.prems by (simp add: rec_blank_def rec_at_def algebra_simps)
  then show ?case using Cons rd m by simp
qed simp

lemma working_slot:
  assumes w: "working_flash io mem" and sc: "scan_slots (mem f) 16 r" "scan_core SL j (mem f) 16 r"
    and ok: "sc_found r \<or> (\<forall>i < 16. rec_blank (mem f) i)"
  shows "\<exists>i f'. commit_slot io r f = (Some (Some i), f') \<and> rec_blank (mem f') i \<and> i < 16"
proof (cases "sc_found r")
  case False
  have "case sc_first_blank r of None \<Rightarrow> \<forall>i < 16. \<not> rec_blank (mem f) i | Some i \<Rightarrow> i < 16 \<and> rec_blank (mem f) i"
    using sc(1) unfolding scan_slots_def by blast
  moreover have "rec_blank (mem f) 0" using False ok by simp
  ultimately show ?thesis using False by (cases "sc_first_blank r") (auto simp: commit_slot_def)
next
  case True
  define bank where "bank = sc_latest_index r div 8"
  have li: "sc_latest_index r < 16" "has_commit (mem f) (sc_latest_index r)" using sc(2) True by (simp_all add: scan_core_def)
  then have b2: "bank < 2" by (simp add: bank_def)
  have used: "case sc_last_used r ! bank of None \<Rightarrow> \<forall>i < 16. i div 8 = bank \<longrightarrow> rec_blank (mem f) i
      | Some u \<Rightarrow> u < 16 \<and> u div 8 = bank \<and> (\<forall>i < 16. i div 8 = bank \<longrightarrow> u < i \<longrightarrow> rec_blank (mem f) i)"
    using sc(1) b2 unfolding scan_slots_def by blast
  then obtain u where u: "sc_last_used r ! bank = Some u" "u < 16" "u div 8 = bank"
    "\<And>i. i < 16 \<Longrightarrow> i div 8 = bank \<Longrightarrow> u < i \<Longrightarrow> rec_blank (mem f) i"
    using li blank_no_commit unfolding bank_def by (cases "sc_last_used r ! (sc_latest_index r div 8)") auto
  show ?thesis
  proof (cases "u + 1 \<ge> (bank + 1) * 8")
    case False
    then have "(u + 1) div 8 = bank" "u + 1 < 16" using u(3) b2 by auto
    then show ?thesis using False u(4) [of "u + 1"] True u(1) by (simp add: commit_slot_def Let_def bank_def)
  next
    case full: True
    define ob where "ob = 1 - bank"
    have ob: "ob < 2" by (simp add: ob_def)
    obtain f1 where e: "io_erase io ob f = (True, f1)" and bl: "\<forall>k < 16. k div 8 = ob \<longrightarrow> rec_blank (mem f1) k"
      using w ob unfolding working_flash_def by blast
    have bi: "rec_blank (mem f1) (ob * 8 + i)" if "i < 8" for i using bl that ob by auto
    obtain ok2 f2 where bb: "bank_blank io ob [0..<8] f1 = (ok2, f2)" by (cases "bank_blank io ob [0..<8] f1")
    have ok2: "ok2" using working_bank_blank [OF w ob, of "[0..<8]" f1] bi bb by auto
    have "mem f2 = mem f1" using bank_blank_spec [OF working_flash_law [OF w] bb] by blast
    then show ?thesis
      using full True u(1) e bb ok2 bi [of 0] ob by (auto simp: commit_slot_def Let_def bank_def ob_def)
  qed
qed

lemma span_split: "span b o' (n + k) = span b o' n @ span b (o' + n) k"
  unfolding span_def take_add drop_drop by (simp add: add.commute)

lemma working_write:
  assumes w: "working_flash io mem" and i: "i < 16" "rec_blank (mem f) i" and l: "length record = 512"
  shows "\<exists>f'. commit_write io i record f = (FV_JOURNAL_OK, f')"
proof -
  note law = working_flash_law [OF w]
  have pages: "span (rec_at m i) q 256 = span m (i * 512 + q) 256" if "q + 256 \<le> 512" for m :: "u8 list" and q
    unfolding rec_at_def using that by (intro span_span)
  obtain f0 where r0: "io_read io (i * 512) 512 f = (Some (span (mem f) (i * 512) 512), f0)" "mem f0 = mem f"
    using working_read [OF w, of "i * 512" 512] i by auto
  have bl: "filled (span (mem f) (i * 512) 512) 255" using i(2) by (simp add: rec_blank_def rec_at_def)
  have bl0: "filled (span (mem f) (i * 512) 256) 255" "filled (span (mem f) (i * 512 + 256) 256) 255"
    using bl span_split [of "mem f" "i * 512" 256 256] by simp_all
  obtain f1 where p1: "io_program io (i * 512) (span record 0 256) f0 = (True, f1)" "span (mem f1) (i * 512) 256 = span record 0 256"
    using working_program [OF w, of "i * 512" "span record 0 256" f0] bl0(1) i l r0(2) by auto
  obtain f2 where r2: "io_read io (i * 512) 256 f1 = (Some (span (mem f1) (i * 512) 256), f2)" "mem f2 = mem f1"
    using working_read [OF w, of "i * 512" 256] i by auto
  have p1': "io_program io (i * 512 + 0) (span record 0 256) f0 = (True, f1)" using p1 by simp
  have bl2: "filled (span (mem f2) (i * 512 + 256) 256) 255"
    using program_other_page [OF law p1' i(1), of 256] bl0(2) r0(2) r2(2) by (simp add: pages)
  obtain f3 where p3: "io_program io (i * 512 + 256) (span record 256 256) f2 = (True, f3)"
    "span (mem f3) (i * 512 + 256) 256 = span record 256 256"
    using working_program [OF w, of "i * 512 + 256" "span record 256 256" f2] bl2 i l by auto
  have "span (mem f3) (i * 512) 256 = span record 0 256"
    using program_other_page [OF law p3(1) i(1), of 0] p1(2) r2(2) by (simp add: pages)
  then have whole: "span (mem f3) (i * 512) 512 = record"
    using p3(2) span_split [of "mem f3" "i * 512" 256 256] span_split [of "record" 0 256 256] l by simp
  obtain f4 where r4: "io_read io (i * 512) 512 f3 = (Some (span (mem f3) (i * 512) 512), f4)"
    using working_read [OF w, of "i * 512" 512] i by auto
  show ?thesis
    using r0 bl p1 r2 p3 r4 whole by (simp add: commit_write_def Let_def)
qed

lemma working_commit:
  assumes w: "working_flash io mem" and inv: "journal_inv SL j (mem f)" and b: "journal_record SL j s = Some b"
    and p: "p \<noteq> UINT64_MAX" "ds_sequence s = p + 1"
    and z: "if cell_fresh mem f then p = 0 else \<exists>z. latest SL j (mem f) z \<and> ds_sequence z = p"
  shows "\<exists>f'. fv_journal_commit SL io j p s f = (FV_JOURNAL_OK, f')"
proof -
  note law = working_flash_law [OF w]
  obtain st r f1 where sc: "journal_scan SL io j f = (st, r, f1)" by (cases "journal_scan SL io j f")
  note S = journal_scan_spec [OF law sc]
  have io: "st \<noteq> FV_JOURNAL_IO" using working_scan [OF w, of "[0..<16]" SL j scan_start f] sc by (simp add: journal_scan_def)
  have st: "st = FV_JOURNAL_EMPTY \<and> p = 0 \<and> (\<forall>i < 16. rec_blank (mem f) i) \<or>
      st = FV_JOURNAL_OK \<and> ds_sequence (sc_latest r) = p \<and> sc_found r"
  proof (cases "cell_fresh mem f")
    case True
    then have "\<not> has_commit (mem f) i" if "i < 16" for i using blank_no_commit that unfolding cell_fresh_def by blast
    then show ?thesis
      using S(2,4) inv io True z unfolding cell_fresh_def scan_core_def by (cases st) auto
  next
    case False
    then obtain y where y: "latest SL j (mem f) y" "ds_sequence y = p" using z by auto
    then obtain i where "i < 16" "has_commit (mem f) i" unfolding latest_def by blast
    then have "st = FV_JOURNAL_OK" using S(3,4) inv io False unfolding cell_fresh_def by (cases st) blast+
    then show ?thesis using S(2) scan_latest(1) latest_unique [OF inv] y by metis
  qed
  have sl: "scan_slots (mem f1) 16 r" "scan_core SL j (mem f1) 16 r" using st S by auto
  have "sc_found r \<or> (\<forall>i < 16. rec_blank (mem f1) i)" using st S(1) by auto
  from working_slot [OF w sl this] obtain i f2 where
    cs: "commit_slot io r f1 = (Some (Some i), f2)" "rec_blank (mem f2) i" "i < 16" by blast
  obtain f3 where "commit_write io i b f2 = (FV_JOURNAL_OK, f3)"
    using working_write [OF w cs(3,2) length_journal_record [OF b]] by blast
  then show ?thesis using p st sc b cs(1) by (auto simp: fv_journal_commit_def)
qed

section \<open>Records of valid states\<close>

lemma journal_tag_total: "sha_total SL \<Longrightarrow> j_key j \<noteq> [] \<Longrightarrow> \<exists>t. journal_tag SL j d x = Some t"
  by (rule hmac_total [of SL "j_key j"]) (auto simp: journal_tag_def)

lemma journal_record_total:
  assumes "sha_total SL" "j_key j \<noteq> []" "body_ok j s" "policy_ok (ds_policy s)"
  shows "\<exists>b. journal_record SL j s = Some b"
proof -
  obtain p where p: "fv_auth_policy_encode (ds_policy s) = Some p" using assms(4) policy_encode_Some_iff by blast
  have t: "\<exists>t. journal_tag SL j d x = Some t" for d x using journal_tag_total [OF assms(1,2)] .
  have "\<exists>b. journal_body SL j s = Some b"
    using assms(3) p t by (auto simp: journal_body_def Let_def)
  then obtain b where b: "journal_body SL j s = Some b" ..
  obtain g where g: "sha_oneshot SL b = Some g" using assms(1) unfolding sha_total_def by blast
  have "\<exists>m. journal_marker SL j b = Some m" using t by (auto simp: journal_marker_def Let_def g)
  then show ?thesis using b by (auto simp: journal_record_def)
qed

section \<open>Flash in memory\<close>

definition flash_bytes :: "u8 list \<Rightarrow> u8 list" where
  "flash_bytes f = take 8192 (f @ replicate 8192 255)"

definition ram_flash :: "u8 list fv_journal_io" where
  "ram_flash = \<lparr>io_read = (\<lambda>off n f. (Some (span (flash_bytes f) off n), f)),
     io_program = (\<lambda>off page f. if length page = 256 then (True, memcpy (flash_bytes f) off page) else (False, f)),
     io_erase = (\<lambda>bank f. (True, memcpy (flash_bytes f) (bank * 4096) (replicate 4096 255)))\<rparr>"

lemma length_flash_bytes [simp]: "length (flash_bytes f) = 8192"
  by (simp add: flash_bytes_def)

lemma flash_bytes_id: "length f = 8192 \<Longrightarrow> flash_bytes f = f"
  by (simp add: flash_bytes_def)

lemma ram_flash_law: "flash_law ram_flash flash_bytes"
  by (auto simp: flash_law_def ram_flash_def flash_bytes_id nth_memcpy split: if_splits)

lemma erased_blank:
  assumes "k < 16" "k div 8 = bank"
  shows "rec_blank (memcpy (flash_bytes f) (bank * 4096) (replicate 4096 255)) k"
proof -
  have "rec_at (memcpy (flash_bytes f) (bank * 4096) (replicate 4096 255)) k = replicate 512 255"
    unfolding rec_at_def by (rule nth_equalityI) (use assms in \<open>auto simp: nth_span nth_memcpy\<close>)
  then show ?thesis by (simp add: rec_blank_def)
qed

lemma ram_working_flash: "working_flash ram_flash flash_bytes"
  unfolding working_flash_def
  by (intro conjI allI impI ram_flash_law)
    (auto simp: ram_flash_def flash_bytes_id span_memcpy_same erased_blank)

lemma ram_torn_erase_law: "torn_erase_law SL ram_flash j flash_bytes"
  unfolding torn_erase_law_def
  by (auto simp: ram_flash_def flash_bytes_id dest!: blank_no_commit [OF erased_blank])

lemma blank_flash: "rec_blank (flash_bytes []) i"
  by (auto simp: rec_blank_def rec_at_def flash_bytes_def filled_iff span_def dest!: in_set_takeD in_set_dropD)

lemma blank_flash_inv: "journal_inv SL j (flash_bytes [])"
  using blank_no_commit [OF blank_flash] by (simp add: journal_inv_def)

definition test_journal :: fv_journal where
  "test_journal = \<lparr>j_key = [7], j_device_id = replicate 16 9\<rparr>"

definition test_state :: "u64 \<Rightarrow> fv_device_state" where
  "test_state n = zero_state\<lparr>ds_status := FV_ENROLLMENT_EMPTY, ds_sequence := n, ds_device_id := replicate 16 9,
     ds_policy := fv_auth_policy_default\<rparr>"

lemma test_state_wf: "device_state_wf (test_state n)"
  by (simp add: test_state_def device_state_wf_def zero_state_def)

lemma test_state_record: "n \<noteq> 0 \<Longrightarrow> \<exists>b. journal_record test_sha test_journal (test_state n) = Some b"
  by (rule journal_record_total)
    (simp_all add: test_journal_def test_state_def zero_state_def body_ok_def enrollment_defs FV_OTP_TOKEN_SLOTS_def
      filled_iff zeros_def)

lemma test_first_commit:
  "\<exists>f. fv_journal_commit test_sha ram_flash test_journal 0 (test_state 1) [] = (FV_JOURNAL_OK, f)"
proof -
  obtain b where b: "journal_record test_sha test_journal (test_state 1) = Some b" using test_state_record [of 1] by auto
  show ?thesis
    by (rule working_commit [OF ram_working_flash blank_flash_inv b])
      (simp_all add: UINT64_MAX_def test_state_def cell_fresh_def blank_flash)
qed

section \<open>Properties\<close>

text \<open>C13. A journal commit is atomic and durable under arbitrary interruption of flash programming and
  erasing: a later load that succeeds returns the committed state or the one that was current before,
  nothing else; after a successful commit it can only return the committed state (or report a read
  error); and once a state was current no later outcome lets a load return an older one or report an
  empty journal: uncertain contents are reported as corrupt.\<close>

theorem journal_commit_atomic:
  assumes "flash_law io mem" "torn_erase_law SL io j mem" "journal_inv SL j (mem f)" "device_state_wf s"
    and "fv_journal_commit SL io j previous s f = (res, f')" "fv_journal_load SL io j f' = (res2, s2, f2)"
  shows "(res2 = FV_JOURNAL_OK \<longrightarrow> s2 = s \<or> latest SL j (mem f) s2) \<and>
    (res = FV_JOURNAL_OK \<longrightarrow> journal_inv SL j (mem f') \<and> (res2 = FV_JOURNAL_IO \<or> res2 = FV_JOURNAL_OK \<and> s2 = s)) \<and>
    (\<forall>s0. latest SL j (mem f) s0 \<longrightarrow>
       res2 = FV_JOURNAL_IO \<or> res2 = FV_JOURNAL_CORRUPT \<or> res2 = FV_JOURNAL_OK \<and> ds_sequence s0 \<le> ds_sequence s2)"
proof -
  note L = journal_load_spec [OF assms(1,6)]
  note B = bad_load [OF assms(1) _ assms(6)]
  consider (bad) "res \<noteq> FV_JOURNAL_OK" "journal_bad SL j (mem f')"
    | (old) "res \<noteq> FV_JOURNAL_OK" "left_old SL j (mem f) (mem f')"
    | (new) "left_new SL j previous s (mem f) (mem f')"
    using commit_outcome [OF assms(1-5)] by blast
  then show ?thesis
  proof cases
    case bad
    then show ?thesis using B by auto
  next
    case old
    then have "\<And>x. latest SL j (mem f') x \<longleftrightarrow> latest SL j (mem f) x" "journal_inv SL j (mem f')" by (simp_all add: left_old_def)
    then show ?thesis using old(1) L(2,4) by auto
  next
    case new
    then have i: "journal_inv SL j (mem f')" "latest SL j (mem f') s" "\<And>x. latest SL j (mem f') x \<longleftrightarrow> x = s"
      and p: "previous < ds_sequence s" "\<And>z. latest SL j (mem f) z \<Longrightarrow> ds_sequence z = previous"
      using latest_unique [OF assms(3)] blank_no_commit unfolding left_new_def latest_def by (auto split: if_splits)
    show ?thesis using L(4) [OF i(1,2)] i p by auto
  qed
qed

lemma journal_commit_atomic_witness:
  "\<exists>f res s2 f2. fv_journal_commit test_sha ram_flash test_journal 0 (test_state 1) [] = (FV_JOURNAL_OK, f) \<and>
     fv_journal_load test_sha ram_flash test_journal f = (res, s2, f2) \<and>
     (res = FV_JOURNAL_IO \<or> res = FV_JOURNAL_OK \<and> s2 = test_state 1)"
proof -
  obtain f where f: "fv_journal_commit test_sha ram_flash test_journal 0 (test_state 1) [] = (FV_JOURNAL_OK, f)"
    using test_first_commit by blast
  obtain res s2 f2 where l: "fv_journal_load test_sha ram_flash test_journal f = (res, s2, f2)"
    by (cases "fv_journal_load test_sha ram_flash test_journal f")
  show ?thesis
    using journal_commit_atomic [OF ram_flash_law ram_torn_erase_law blank_flash_inv test_state_wf f l] f l by blast
qed

text \<open>C14. No rollback: along any sequence of loads and commits, with any outcomes and interruptions,
  the sequence number of the state that the journal stands for never decreases.\<close>

theorem journal_no_rollback:
  assumes "flash_law io mem" "torn_erase_law SL io j mem" "journal_inv SL j (mem f)"
    and "\<forall>p s. Cell_Commit p s \<in> set ops \<longrightarrow> device_state_wf s"
    and "latest SL j (mem f) x" "f' = cell_run (cell_load SL io j) (cell_commit SL io j) ops f"
    and "fv_journal_load SL io j f' = (FV_JOURNAL_OK, y, f'')"
  shows "ds_sequence x \<le> ds_sequence y"
proof -
  have inv: "cell_inv SL io j mem f" and cur: "cell_current SL j mem f x"
    using assms(1-3,5) by (simp_all add: cell_inv_def cell_current_def)
  have wf: "ops_wf device_state_wf ops" using assms(4) by (simp add: ops_wf_def)
  have keep: "cell_inv SL io j mem f'"
    using journal_cell.run_keeps [OF inv wf, of "ds_sequence x"] journal_cell.fresh_none [OF inv] cur
      journal_cell.current_unique [OF inv] assms(6) by (metis order_refl)
  have "cell_load SL io j f' = (Some y, f'')" using assms(7) by (simp add: cell_load_def)
  then have "cell_current SL j mem f' y" using journal_cell.load_current [OF keep] by blast
  then show ?thesis using journal_cell.no_rollback [OF inv wf cur] assms(6) by blast
qed

lemma journal_no_rollback_witness:
  "\<exists>f g f'' y. fv_journal_commit test_sha ram_flash test_journal 0 (test_state 1) [] = (FV_JOURNAL_OK, f) \<and>
     g = cell_run (cell_load test_sha ram_flash test_journal) (cell_commit test_sha ram_flash test_journal)
       [Cell_Load, Cell_Commit 7 (test_state 3)] f \<and>
     (fv_journal_load test_sha ram_flash test_journal g = (FV_JOURNAL_OK, y, f'') \<longrightarrow> 1 \<le> ds_sequence y)"
proof -
  obtain f where f: "fv_journal_commit test_sha ram_flash test_journal 0 (test_state 1) [] = (FV_JOURNAL_OK, f)"
    using test_first_commit by blast
  have new: "left_new test_sha test_journal 0 (test_state 1) (flash_bytes []) (flash_bytes f)"
    using commit_outcome [OF ram_flash_law ram_torn_erase_law blank_flash_inv test_state_wf f] by simp
  define g where "g = cell_run (cell_load test_sha ram_flash test_journal) (cell_commit test_sha ram_flash test_journal)
       [Cell_Load, Cell_Commit 7 (test_state 3)] f"
  have wf: "\<forall>p s. Cell_Commit p s \<in> set [Cell_Load, Cell_Commit 7 (test_state 3)] \<longrightarrow> device_state_wf s"
    using test_state_wf by auto
  have l: "journal_inv test_sha test_journal (flash_bytes f)" "latest test_sha test_journal (flash_bytes f) (test_state 1)"
    using new by (simp_all add: left_new_def)
  have "1 \<le> ds_sequence y" if "fv_journal_load test_sha ram_flash test_journal g = (FV_JOURNAL_OK, y, f'')" for y f''
    using journal_no_rollback [OF ram_flash_law ram_torn_erase_law l(1) wf l(2) g_def that] by (simp add: test_state_def)
  then show ?thesis using f g_def by blast
qed

text \<open>Progress: on working flash the commit of a valid successor of the current state (or of a
  first state to an untouched journal) succeeds, also when it has to erase the other bank.\<close>

theorem journal_commit_live:
  assumes "working_flash io mem" "journal_inv SL j (mem f)" "sha_total SL" "j_key j \<noteq> []"
    and "body_ok j s" "policy_ok (ds_policy s)" "previous \<noteq> UINT64_MAX" "ds_sequence s = previous + 1"
    and "if \<forall>i < 16. rec_blank (mem f) i then previous = 0 else \<exists>z. latest SL j (mem f) z \<and> ds_sequence z = previous"
  shows "\<exists>f'. fv_journal_commit SL io j previous s f = (FV_JOURNAL_OK, f')"
proof -
  obtain b where "journal_record SL j s = Some b" using journal_record_total [OF assms(3-6)] ..
  then show ?thesis using working_commit [OF assms(1,2) _ assms(7,8)] assms(9) by (simp add: cell_fresh_def)
qed

lemma journal_commit_live_witness:
  "\<exists>f. fv_journal_commit test_sha ram_flash test_journal 0 (test_state 1) [] = (FV_JOURNAL_OK, f)"
  by (rule journal_commit_live [OF ram_working_flash blank_flash_inv])
    (simp_all add: test_journal_def test_state_def zero_state_def body_ok_def enrollment_defs FV_OTP_TOKEN_SLOTS_def
      filled_iff zeros_def UINT64_MAX_def blank_flash)

end
