(* ===== verification/Enrollment.thy ===== *)
theory Enrollment
  imports Journal_Live
begin

text \<open>
  Enrollment of the device (\<^verbatim>\<open>src/src/shared/security/enrollment.c\<close>): tokens in one-time-programmable
  memory, a status mask with three bits per token slot on OTP page 3, and the flash journal whose key
  is derived from the token. It provides the authority that the vault uses (\<^verbatim>\<open>load\<close>, \<^verbatim>\<open>commit\<close>,
  \<^verbatim>\<open>binding\<close>, \<^verbatim>\<open>destroy\<close>). OTP and flash access are parameters that thread the state \<open>'h\<close> of the
  hardware; a boolean result is \<open>True\<close> for the return code 0.
\<close>

definition FV_OTP_MASK_PAGE :: nat where "FV_OTP_MASK_PAGE = 3"
definition FV_OTP_TOKEN_PAGE :: nat where "FV_OTP_TOKEN_PAGE = 4"
definition FV_OTP_SLOTS :: nat where "FV_OTP_SLOTS = 228"
definition FV_OTP_TOKENS_PER_PAGE :: nat where "FV_OTP_TOKENS_PER_PAGE = 4"
definition FV_OTP_TOKEN_ROW_STRIDE :: nat where "FV_OTP_TOKEN_ROW_STRIDE = 16"
definition FV_OTP_SECRET_ROWS :: nat where "FV_OTP_SECRET_ROWS = 16"
definition FV_OTP_SLOTS_PER_MASK_ROW :: nat where "FV_OTP_SLOTS_PER_MASK_ROW = 8"

lemmas otp_defs [simp] = FV_OTP_MASK_PAGE_def FV_OTP_TOKEN_PAGE_def FV_OTP_SLOTS_def FV_OTP_TOKENS_PER_PAGE_def
  FV_OTP_TOKEN_ROW_STRIDE_def FV_OTP_SECRET_ROWS_def FV_OTP_SLOTS_PER_MASK_ROW_def

definition FV_OTP_MASK_UNUSED :: u32 where "FV_OTP_MASK_UNUSED = 0"
definition FV_OTP_MASK_STARTED :: u32 where "FV_OTP_MASK_STARTED = 4"
definition FV_OTP_MASK_READY :: u32 where "FV_OTP_MASK_READY = 6"
definition FV_OTP_MASK_REVOKED :: u32 where "FV_OTP_MASK_REVOKED = 7"
definition FV_OTP_MASK_REVOKING :: u32 where "FV_OTP_MASK_REVOKING = 5"

lemmas mask_defs = FV_OTP_MASK_UNUSED_def FV_OTP_MASK_STARTED_def FV_OTP_MASK_READY_def FV_OTP_MASK_REVOKED_def
  FV_OTP_MASK_REVOKING_def

record 'h fv_otp_io =
  otp_read_raw :: "nat \<Rightarrow> 'h \<Rightarrow> u32 option \<times> 'h"
  otp_write_raw :: "nat \<Rightarrow> u32 \<Rightarrow> 'h \<Rightarrow> bool \<times> 'h"
  otp_read_secret :: "nat \<Rightarrow> 'h \<Rightarrow> u8 list option \<times> 'h"
  otp_write_secret :: "nat \<Rightarrow> u8 list \<Rightarrow> 'h \<Rightarrow> bool \<times> 'h"
  otp_can_program :: "nat \<Rightarrow> 'h \<Rightarrow> bool \<times> 'h"

text \<open>\<^verbatim>\<open>fv_enrollment_device\<close> less its two I/O tables, which are the parameters \<open>OT\<close> and \<open>io\<close> below.\<close>

record fv_enrollment_device =
  ed_journal :: fv_journal
  ed_device_id :: "u8 list"
  ed_opened :: bool
  ed_terminal :: bool
  ed_token_slot :: nat

record fv_enrollment_inventory =
  mask_blank :: int
  tokens_blank :: int
  inv_flash_blank :: int

section \<open>Rows, tokens and the mask\<close>

definition token_page :: "nat \<Rightarrow> nat" where
  "token_page slot = FV_OTP_TOKEN_PAGE + slot div FV_OTP_TOKENS_PER_PAGE"

definition token_row_offset :: "nat \<Rightarrow> nat" where
  "token_row_offset slot = (slot mod FV_OTP_TOKENS_PER_PAGE) * FV_OTP_TOKEN_ROW_STRIDE"

definition mask_row :: "nat \<Rightarrow> nat" where
  "mask_row slot = slot div FV_OTP_SLOTS_PER_MASK_ROW"

definition mask_bit :: "nat \<Rightarrow> nat" where
  "mask_bit slot = (slot mod FV_OTP_SLOTS_PER_MASK_ROW) * 3"

definition read_row :: "'h fv_otp_io \<Rightarrow> nat \<Rightarrow> nat \<Rightarrow> 'h \<Rightarrow> u32 option \<times> 'h" where
  "read_row OT page row h = otp_read_raw OT (page * 64 + row) h"

text \<open>The loops of \<^verbatim>\<open>blank\<close> and \<^verbatim>\<open>token_blank\<close>: 1 all rows zero, 0 occupied, -1 unreadable.\<close>

fun rows_blank :: "'h fv_otp_io \<Rightarrow> nat \<Rightarrow> nat list \<Rightarrow> 'h \<Rightarrow> int \<times> 'h" where
  "rows_blank OT page [] h = (1, h)"
| "rows_blank OT page (i # is) h =
     (case read_row OT page i h of (None, h) \<Rightarrow> (- 1, h)
      | (Some v, h) \<Rightarrow> if v \<noteq> 0 then (0, h) else rows_blank OT page is h)"

definition page_blank :: "'h fv_otp_io \<Rightarrow> nat \<Rightarrow> 'h \<Rightarrow> int \<times> 'h" where
  "page_blank OT page h = rows_blank OT page [0..<64] h"

definition token_rows :: "nat \<Rightarrow> nat list" where
  "token_rows slot = map (\<lambda>i. token_row_offset slot + i) [0..<FV_OTP_SECRET_ROWS]"

definition token_blank :: "'h fv_otp_io \<Rightarrow> nat \<Rightarrow> 'h \<Rightarrow> int \<times> 'h" where
  "token_blank OT slot h = rows_blank OT (token_page slot) (token_rows slot) h"

definition fv_enrollment_token_blank :: "'h fv_otp_io \<Rightarrow> nat \<Rightarrow> 'h \<Rightarrow> int \<times> 'h" where
  "fv_enrollment_token_blank OT slot h = (if slot \<ge> FV_OTP_SLOTS then (- 1, h) else token_blank OT slot h)"

text \<open>\<^verbatim>\<open>can_program || write_raw || read_row || v!=value\<close>, shared by \<^verbatim>\<open>write_row\<close> and \<^verbatim>\<open>mask_write\<close>.\<close>

definition program_row :: "'h fv_otp_io \<Rightarrow> nat \<Rightarrow> nat \<Rightarrow> u32 \<Rightarrow> 'h \<Rightarrow> bool \<times> 'h" where
  "program_row OT page row val h =
     (case otp_can_program OT page h of (False, h) \<Rightarrow> (False, h)
      | (True, h) \<Rightarrow>
        (case otp_write_raw OT (page * 64 + row) val h of (False, h) \<Rightarrow> (False, h)
         | (True, h) \<Rightarrow>
           (case read_row OT page row h of (None, h) \<Rightarrow> (False, h)
            | (Some v, h) \<Rightarrow> (v = val, h))))"

definition write_row :: "'h fv_otp_io \<Rightarrow> nat \<Rightarrow> nat \<Rightarrow> u32 \<Rightarrow> 'h \<Rightarrow> bool \<times> 'h" where
  "write_row OT page row val h =
     (case read_row OT page row h of (None, h) \<Rightarrow> (False, h)
      | (Some v, h) \<Rightarrow>
        if v = val then (True, h)
        else if v AND NOT val \<noteq> 0 then (False, h)
        else program_row OT page row val h)"

definition mask_field :: "u32 \<Rightarrow> nat \<Rightarrow> u32" where
  "mask_field v slot = drop_bit (mask_bit slot) v AND 7"

definition mask_read :: "'h fv_otp_io \<Rightarrow> nat \<Rightarrow> 'h \<Rightarrow> u32 option \<times> 'h" where
  "mask_read OT slot h =
     (if slot \<ge> FV_OTP_SLOTS then (None, h)
      else case read_row OT FV_OTP_MASK_PAGE (mask_row slot) h of (None, h) \<Rightarrow> (None, h)
      | (Some v, h) \<Rightarrow> (Some (mask_field v slot), h))"

definition mask_write :: "'h fv_otp_io \<Rightarrow> nat \<Rightarrow> u32 \<Rightarrow> 'h \<Rightarrow> bool \<times> 'h" where
  "mask_write OT slot state h =
     (if slot \<ge> FV_OTP_SLOTS then (False, h)
      else case read_row OT FV_OTP_MASK_PAGE (mask_row slot) h of (None, h) \<Rightarrow> (False, h)
      | (Some v, h) \<Rightarrow>
        if mask_field v slot AND NOT state \<noteq> 0 then (False, h)
        else
          (let newv = (v AND NOT (push_bit (mask_bit slot) 7)) OR push_bit (mask_bit slot) state
           in if v = newv then (True, h)
              else program_row OT FV_OTP_MASK_PAGE (mask_row slot) newv h))"

definition secret_row :: "nat \<Rightarrow> nat" where
  "secret_row slot = token_page slot * 64 + token_row_offset slot"

definition read_token :: "'h fv_otp_io \<Rightarrow> nat \<Rightarrow> 'h \<Rightarrow> u8 list option \<times> 'h" where
  "read_token OT slot h = otp_read_secret OT (secret_row slot) h"

definition write_token :: "'h fv_otp_io \<Rightarrow> nat \<Rightarrow> u8 list \<Rightarrow> 'h \<Rightarrow> bool \<times> 'h" where
  "write_token OT slot secret h =
     (case token_blank OT slot h of (b, h) \<Rightarrow>
        if b \<noteq> 1 then (False, h)
        else case otp_can_program OT (token_page slot) h of (False, h) \<Rightarrow> (False, h)
        | (True, h) \<Rightarrow> otp_write_secret OT (secret_row slot) secret h)"

definition fv_enrollment_init :: "u8 list \<Rightarrow> fv_enrollment_device" where
  "fv_enrollment_init ident = \<lparr>ed_journal = fv_journal_clear, ed_device_id = ident, ed_opened = False,
     ed_terminal = False, ed_token_slot = 0\<rparr>"

definition fv_enrollment_clear :: fv_enrollment_device where
  "fv_enrollment_clear = fv_enrollment_init (zeros 16)"

section \<open>Inspection\<close>

record mask_inventory =
  mi_ready :: "nat option"
  mi_last_revoked :: "nat option"
  mi_started :: bool

fun inspect_loop :: "'h fv_otp_io \<Rightarrow> nat list \<Rightarrow> mask_inventory \<Rightarrow> 'h \<Rightarrow> mask_inventory option \<times> 'h" where
  "inspect_loop OT [] v h = (if mi_ready v \<noteq> None \<and> mi_started v then None else Some v, h)"
| "inspect_loop OT (slot # slots) v h =
     (case mask_read OT slot h of (None, h) \<Rightarrow> (None, h)
      | (Some state, h) \<Rightarrow>
        if state = FV_OTP_MASK_UNUSED then inspect_loop OT slots v h
        else if state = FV_OTP_MASK_STARTED \<or> state = FV_OTP_MASK_REVOKING
        then inspect_loop OT slots (v\<lparr>mi_started := True\<rparr>) h
        else if state = FV_OTP_MASK_REVOKED then inspect_loop OT slots (v\<lparr>mi_last_revoked := Some slot\<rparr>) h
        else if state = FV_OTP_MASK_READY
        then (if mi_ready v \<noteq> None then (None, h) else inspect_loop OT slots (v\<lparr>mi_ready := Some slot\<rparr>) h)
        else (None, h))"

definition inspect_mask :: "'h fv_otp_io \<Rightarrow> 'h \<Rightarrow> mask_inventory option \<times> 'h" where
  "inspect_mask OT h =
     inspect_loop OT [0..<FV_OTP_SLOTS] \<lparr>mi_ready = None, mi_last_revoked = None, mi_started = False\<rparr> h"

definition reset_session :: "fv_enrollment_device \<Rightarrow> fv_enrollment_device" where
  "reset_session d = d\<lparr>ed_opened := False, ed_terminal := False, ed_journal := fv_journal_clear\<rparr>"

definition open_token ::
  "sha_lib \<Rightarrow> 'h fv_otp_io \<Rightarrow> nat \<Rightarrow> fv_enrollment_device \<times> 'h \<Rightarrow> bool \<times> fv_enrollment_device \<times> 'h" where
  "open_token SL OT slot = (\<lambda>(d, h).
     let d = reset_session d in
     case read_token OT slot h of (None, h) \<Rightarrow> (False, d, h)
     | (Some token, h) \<Rightarrow>
       (case fv_journal_key SL token (ed_device_id d) (of_nat slot) of None \<Rightarrow> (False, d, h)
        | Some k \<Rightarrow>
          (True, d\<lparr>ed_journal := fv_journal_init k (ed_device_id d), ed_token_slot := slot, ed_opened := True\<rparr>, h)))"

fun burned_loop :: "'h fv_otp_io \<Rightarrow> nat \<Rightarrow> nat list \<Rightarrow> 'h \<Rightarrow> int \<times> 'h" where
  "burned_loop OT page [] h = (1, h)"
| "burned_loop OT page (i # is) h =
     (case read_row OT page i h of (None, h) \<Rightarrow> (- 1, h)
      | (Some raw, h) \<Rightarrow> if raw \<noteq> 0xffffff then (0, h) else burned_loop OT page is h)"

definition burned :: "'h fv_otp_io \<Rightarrow> nat \<Rightarrow> 'h \<Rightarrow> int \<times> 'h" where
  "burned OT slot h = burned_loop OT (token_page slot) (token_rows slot) h"

fun burn_loop :: "'h fv_otp_io \<Rightarrow> nat \<Rightarrow> nat list \<Rightarrow> 'h \<Rightarrow> bool \<times> 'h" where
  "burn_loop OT page [] h = (True, h)"
| "burn_loop OT page (i # is) h =
     (case write_row OT page i 0xffffff h of (False, h) \<Rightarrow> (False, h) | (True, h) \<Rightarrow> burn_loop OT page is h)"

definition finish_burn :: "'h fv_otp_io \<Rightarrow> nat \<Rightarrow> 'h \<Rightarrow> bool \<times> 'h" where
  "finish_burn OT slot h = burn_loop OT (token_page slot) (token_rows slot) h"

fun flash_blank_loop :: "'h fv_journal_io \<Rightarrow> nat list \<Rightarrow> 'h \<Rightarrow> int \<times> 'h" where
  "flash_blank_loop io [] h = (1, h)"
| "flash_blank_loop io (i # is) h =
     (case io_read io (i * 256) 256 h of (None, h) \<Rightarrow> (- 1, h)
      | (Some p, h) \<Rightarrow> if \<not> filled p 255 then (0, h) else flash_blank_loop io is h)"

definition flash_blank :: "'h fv_journal_io \<Rightarrow> 'h \<Rightarrow> int \<times> 'h" where
  "flash_blank io h = flash_blank_loop io [0..<FV_JOURNAL_BYTES div 256] h"

fun tokens_blank_loop :: "'h fv_otp_io \<Rightarrow> nat list \<Rightarrow> int \<Rightarrow> 'h \<Rightarrow> int \<times> 'h" where
  "tokens_blank_loop OT [] b h = (b, h)"
| "tokens_blank_loop OT (slot # slots) b h =
     (case token_blank OT slot h of (t, h) \<Rightarrow>
        tokens_blank_loop OT slots (if t < 0 then - 1 else if t = 0 \<and> b = 1 then 0 else b) h)"

definition fv_enrollment_inspect :: "'h fv_otp_io \<Rightarrow> 'h fv_journal_io \<Rightarrow> 'h \<Rightarrow> fv_enrollment_inventory \<times> 'h" where
  "fv_enrollment_inspect OT io h =
     (case page_blank OT FV_OTP_MASK_PAGE h of (m, h) \<Rightarrow>
      case flash_blank io h of (fl, h) \<Rightarrow>
      case tokens_blank_loop OT [0..<FV_OTP_SLOTS] 1 h of (t, h) \<Rightarrow>
        (\<lparr>mask_blank = m, tokens_blank = t, inv_flash_blank = fl\<rparr>, h))"

fun erase_banks :: "'h fv_journal_io \<Rightarrow> nat list \<Rightarrow> 'h \<Rightarrow> bool \<times> 'h" where
  "erase_banks io [] h = (True, h)"
| "erase_banks io (bank # banks) h =
     (case io_erase io bank h of (False, h) \<Rightarrow> (False, h) | (True, h) \<Rightarrow> erase_banks io banks h)"

fun can_program_all :: "'h fv_otp_io \<Rightarrow> nat list \<Rightarrow> 'h \<Rightarrow> bool \<times> 'h" where
  "can_program_all OT [] h = (True, h)"
| "can_program_all OT (p # ps) h =
     (case otp_can_program OT p h of (False, h) \<Rightarrow> (False, h) | (True, h) \<Rightarrow> can_program_all OT ps h)"

definition fv_enrollment_prepare_flash ::
  "'h fv_otp_io \<Rightarrow> 'h fv_journal_io \<Rightarrow> fv_enrollment_device \<times> 'h \<Rightarrow> bool \<times> fv_enrollment_device \<times> 'h" where
  "fv_enrollment_prepare_flash OT io = (\<lambda>(d, h).
     case fv_enrollment_inspect OT io h of (v, h) \<Rightarrow>
       if mask_blank v \<noteq> 1 \<or> tokens_blank v \<noteq> 1 \<or> inv_flash_blank v < 0 then (False, d, h)
       else case can_program_all OT [FV_OTP_MASK_PAGE..<FV_OTP_TOKEN_PAGE + (FV_OTP_SLOTS + FV_OTP_TOKENS_PER_PAGE - 1) div FV_OTP_TOKENS_PER_PAGE] h of
         (False, h) \<Rightarrow> (False, d, h)
       | (True, h) \<Rightarrow>
         (let d = d\<lparr>ed_opened := False, ed_journal := fv_journal_clear\<rparr> in
          if inv_flash_blank v = 1 then (True, d, h)
          else case erase_banks io [0..<2] h of (False, h) \<Rightarrow> (False, d, h)
          | (True, h) \<Rightarrow> (case flash_blank io h of (b, h) \<Rightarrow> (b = 1, d, h))))"

section \<open>The authority\<close>

definition enrollment_load ::
  "sha_lib \<Rightarrow> 'h fv_otp_io \<Rightarrow> 'h fv_journal_io \<Rightarrow> fv_enrollment_device \<times> 'h \<Rightarrow> fv_device_state option \<times> fv_enrollment_device \<times> 'h" where
  "enrollment_load SL OT io = (\<lambda>(d, h).
     case mask_read OT (ed_token_slot d) h of (None, h) \<Rightarrow> (None, d, h)
     | (Some state, h) \<Rightarrow>
       if ed_terminal d
       then if state \<noteq> FV_OTP_MASK_REVOKED then (None, d, h)
         else (case burned OT (ed_token_slot d) h of (b, h) \<Rightarrow>
           if b < 0 then (None, d, h)
           else (Some (zero_state\<lparr>ds_status := (if b \<noteq> 0 then FV_ENROLLMENT_DESTROYED else FV_ENROLLMENT_DESTROY_PENDING),
                   ds_token_slot := of_nat (ed_token_slot d), ds_credential_generation := 1,
                   ds_policy := fv_auth_policy_default, ds_device_id := ed_device_id d\<rparr>), d, h))
       else if \<not> ed_opened d \<or> state \<noteq> FV_OTP_MASK_READY then (None, d, h)
       else (case fv_journal_load SL io (ed_journal d) h of (r, s, h) \<Rightarrow>
         if r \<noteq> FV_JOURNAL_OK \<or> ds_token_slot s \<noteq> of_nat (ed_token_slot d) then (None, d, h)
         else if ds_status s = FV_ENROLLMENT_EMPTY \<or> ds_status s = FV_ENROLLMENT_ACTIVE \<or>
                 ds_status s = FV_ENROLLMENT_LOCKED \<or> ds_status s = FV_ENROLLMENT_DESTROY_PENDING
         then (Some s, d, h) else (None, d, h)))"

definition enrollment_commit ::
  "sha_lib \<Rightarrow> 'h fv_otp_io \<Rightarrow> 'h fv_journal_io \<Rightarrow> u64 \<Rightarrow> fv_device_state \<Rightarrow> fv_enrollment_device \<times> 'h
   \<Rightarrow> bool \<times> fv_enrollment_device \<times> 'h" where
  "enrollment_commit SL OT io previous s = (\<lambda>(d, h).
     if ds_token_slot s \<noteq> of_nat (ed_token_slot d) then (False, d, h)
     else case mask_read OT (ed_token_slot d) h of (None, h) \<Rightarrow> (False, d, h)
     | (Some state, h) \<Rightarrow>
       if ed_terminal d
       then if state = FV_OTP_MASK_REVOKED \<and> ds_status s = FV_ENROLLMENT_DESTROYED
         then (case burned OT (ed_token_slot d) h of (b, h) \<Rightarrow> (b = 1, d, h))
         else (False, d, h)
       else if ed_opened d \<and> state = FV_OTP_MASK_READY
       then (case fv_journal_commit SL io (ed_journal d) previous s h of (r, h) \<Rightarrow> (r = FV_JOURNAL_OK, d, h))
       else (False, d, h))"

definition enrollment_binding ::
  "sha_lib \<Rightarrow> 'h fv_otp_io \<Rightarrow> 'h fv_journal_io \<Rightarrow> u8 list \<Rightarrow> u32 \<Rightarrow> fv_enrollment_device \<times> 'h
   \<Rightarrow> u8 list option \<times> fv_enrollment_device \<times> 'h" where
  "enrollment_binding SL OT io ident slot = (\<lambda>(d, h).
     case enrollment_load SL OT io (d, h) of (None, d, h) \<Rightarrow> (None, d, h)
     | (Some s, d, h) \<Rightarrow>
       if ds_token_slot s \<noteq> slot \<or> (ds_status s \<noteq> FV_ENROLLMENT_EMPTY \<and> ds_status s \<noteq> FV_ENROLLMENT_ACTIVE)
       then (None, d, h)
       else if ds_status s = FV_ENROLLMENT_ACTIVE \<and> ident \<noteq> ds_volume_id s then (None, d, h)
       else case read_token OT (unat slot) h of (None, h) \<Rightarrow> (None, d, h)
       | (Some token, h) \<Rightarrow> (fv_vault_binding SL token token slot ident, d, h))"

definition enrollment_destroy ::
  "sha_lib \<Rightarrow> 'h fv_otp_io \<Rightarrow> 'h fv_journal_io \<Rightarrow> u32 \<Rightarrow> fv_enrollment_device \<times> 'h \<Rightarrow> bool \<times> fv_enrollment_device \<times> 'h" where
  "enrollment_destroy SL OT io slot = (\<lambda>(d, h).
     if unat slot \<ge> FV_OTP_SLOTS then (False, d, h)
     else case enrollment_load SL OT io (d, h) of (None, d, h) \<Rightarrow> (False, d, h)
     | (Some s, d, h) \<Rightarrow>
       if ds_token_slot s \<noteq> slot \<or> ds_status s \<noteq> FV_ENROLLMENT_DESTROY_PENDING then (False, d, h)
       else case mask_write OT (unat slot) FV_OTP_MASK_REVOKED h of (False, h) \<Rightarrow> (False, d, h)
       | (True, h) \<Rightarrow>
         (let d = d\<lparr>ed_terminal := True, ed_opened := False, ed_journal := fv_journal_clear\<rparr>
          in case finish_burn OT (unat slot) h of (ok, h) \<Rightarrow> (ok, d, h)))"

definition fv_enrollment_authority ::
  "sha_lib \<Rightarrow> 'h fv_otp_io \<Rightarrow> 'h fv_journal_io \<Rightarrow> (fv_enrollment_device \<times> 'h) fv_device_authority" where
  "fv_enrollment_authority SL OT io =
     \<lparr>au_load = enrollment_load SL OT io, au_commit = enrollment_commit SL OT io,
      au_binding = enrollment_binding SL OT io, au_destroy = Some (enrollment_destroy SL OT io)\<rparr>"

definition fv_enrollment_request_destruction ::
  "sha_lib \<Rightarrow> 'h fv_otp_io \<Rightarrow> 'h fv_journal_io \<Rightarrow> fv_enrollment_device \<times> 'h \<Rightarrow> bool \<times> fv_enrollment_device \<times> 'h" where
  "fv_enrollment_request_destruction SL OT io = (\<lambda>(d, h).
     case enrollment_load SL OT io (d, h) of (None, d, h) \<Rightarrow> (False, d, h)
     | (Some s, d, h) \<Rightarrow>
       if ds_status s = FV_ENROLLMENT_DESTROYED then (True, d, h)
       else if ds_status s = FV_ENROLLMENT_EMPTY \<or> ds_sequence s = UINT64_MAX then (False, d, h)
       else
         (let next = s\<lparr>ds_sequence := ds_sequence s + 1, ds_status := FV_ENROLLMENT_DESTROY_PENDING,
                       ds_attempt_pending := False\<rparr>
          in case (if ds_status s \<noteq> FV_ENROLLMENT_DESTROY_PENDING
                   then (case enrollment_commit SL OT io (ds_sequence s) next (d, h) of (ok, w) \<Rightarrow> (ok, next, w))
                   else (True, s, d, h)) of
             (False, s, w) \<Rightarrow> (False, w)
           | (True, s, w) \<Rightarrow>
             (case enrollment_destroy SL OT io (ds_token_slot s) w of (False, w) \<Rightarrow> (False, w)
              | (True, w) \<Rightarrow>
                if ds_sequence s = UINT64_MAX then (False, w)
                else enrollment_commit SL OT io (ds_sequence s)
                       (s\<lparr>ds_sequence := ds_sequence s + 1, ds_status := FV_ENROLLMENT_DESTROYED\<rparr>) w)))"

section \<open>Opening and provisioning\<close>

definition fv_enrollment_open ::
  "sha_lib \<Rightarrow> 'h fv_otp_io \<Rightarrow> 'h fv_journal_io \<Rightarrow> fv_enrollment_device \<times> 'h \<Rightarrow> int \<times> fv_enrollment_device \<times> 'h" where
  "fv_enrollment_open SL OT io = (\<lambda>(d, h).
     let d = reset_session d in
     case inspect_mask OT h of (None, h) \<Rightarrow> (- 1, d, h)
     | (Some v, h) \<Rightarrow>
       (case mi_ready v of
          Some slot \<Rightarrow>
            (case open_token SL OT slot (d, h) of (False, w) \<Rightarrow> (- 1, w)
             | (True, w) \<Rightarrow> (case enrollment_load SL OT io w of (None, w) \<Rightarrow> (- 1, w) | (Some s, w) \<Rightarrow> (0, w)))
        | None \<Rightarrow>
          if mi_started v then (2, d, h)
          else case mi_last_revoked v of
            Some slot \<Rightarrow> (0, d\<lparr>ed_terminal := True, ed_token_slot := slot\<rparr>, h)
          | None \<Rightarrow>
            (case fv_enrollment_inspect OT io h of (i, h) \<Rightarrow>
               if mask_blank i < 0 \<or> tokens_blank i < 0 \<or> inv_flash_blank i < 0 then (- 1, d, h)
               else if tokens_blank i = 0 then (2, d, h)
               else (if inv_flash_blank i = 1 then 1 else - 1, d, h))))"

text \<open>The first loop of \<^verbatim>\<open>fv_enrollment_provision\<close>: interrupted slots are revoked and revoked ones burnt.\<close>

definition abandon_slot :: "'h fv_otp_io \<Rightarrow> nat \<Rightarrow> 'h \<Rightarrow> bool \<times> 'h" where
  "abandon_slot OT slot h =
     (case mask_read OT slot h of (None, h) \<Rightarrow> (False, h)
      | (Some state, h) \<Rightarrow>
        (case (if state = FV_OTP_MASK_STARTED
               then (case mask_write OT slot FV_OTP_MASK_REVOKING h of (ok, h) \<Rightarrow> (ok, FV_OTP_MASK_REVOKING, h))
               else (True, state, h)) of
           (False, state, h) \<Rightarrow> (False, h)
         | (True, state, h) \<Rightarrow>
           (case (if state = FV_OTP_MASK_REVOKING
                  then (case mask_write OT slot FV_OTP_MASK_REVOKED h of (ok, h) \<Rightarrow> (ok, FV_OTP_MASK_REVOKED, h))
                  else (True, state, h)) of
              (False, state, h) \<Rightarrow> (False, h)
            | (True, state, h) \<Rightarrow>
              if state = FV_OTP_MASK_REVOKED then finish_burn OT slot h else (True, h))))"

fun abandon_loop :: "'h fv_otp_io \<Rightarrow> nat list \<Rightarrow> 'h \<Rightarrow> bool \<times> 'h" where
  "abandon_loop OT [] h = (True, h)"
| "abandon_loop OT (slot # slots) h =
     (case abandon_slot OT slot h of (False, h) \<Rightarrow> (False, h) | (True, h) \<Rightarrow> abandon_loop OT slots h)"

text \<open>The second loop: the first unused slot whose rows are blank; \<open>Some None\<close> when there is none.\<close>

fun free_slot :: "'h fv_otp_io \<Rightarrow> nat list \<Rightarrow> 'h \<Rightarrow> nat option option \<times> 'h" where
  "free_slot OT [] h = (Some None, h)"
| "free_slot OT (slot # slots) h =
     (case mask_read OT slot h of (None, h) \<Rightarrow> (None, h)
      | (Some state, h) \<Rightarrow>
        if state \<noteq> FV_OTP_MASK_UNUSED then free_slot OT slots h
        else (case token_blank OT slot h of (b, h) \<Rightarrow>
          if b < 0 then (None, h) else if b = 1 then (Some (Some slot), h) else free_slot OT slots h))"

definition first_state :: "fv_enrollment_device \<Rightarrow> nat \<Rightarrow> fv_device_state" where
  "first_state d slot = zero_state\<lparr>ds_status := FV_ENROLLMENT_EMPTY, ds_sequence := 1, ds_token_slot := of_nat slot,
     ds_policy := fv_auth_policy_default, ds_device_id := ed_device_id d\<rparr>"

text \<open>From the reserved slot to READY.\<close>

definition provision_slot ::
  "sha_lib \<Rightarrow> 'h fv_otp_io \<Rightarrow> 'h fv_journal_io \<Rightarrow> 'r fv_random_bytes \<Rightarrow> nat \<Rightarrow> fv_enrollment_device \<times> 'h \<times> 'r
   \<Rightarrow> bool \<times> fv_enrollment_device \<times> 'h \<times> 'r" where
  "provision_slot SL OT io rng slot = (\<lambda>(d, h, r).
     case mask_write OT slot FV_OTP_MASK_STARTED h of (False, h) \<Rightarrow> (False, d, h, r)
     | (True, h) \<Rightarrow>
       (case rng r 32 of (None, r) \<Rightarrow> (False, d, h, r)
        | (Some secret, r) \<Rightarrow>
          (case write_token OT slot secret h of (False, h) \<Rightarrow> (False, d, h, r)
           | (True, h) \<Rightarrow>
             (case read_token OT slot h of (None, h) \<Rightarrow> (False, d, h, r)
              | (Some verify, h) \<Rightarrow>
                if \<not> fv_tag_equal secret verify then (False, d, h, r)
                else case open_token SL OT slot (d, h) of (False, d, h) \<Rightarrow> (False, d, h, r)
                | (True, d, h) \<Rightarrow>
                  (case erase_banks io [0..<2] h of (False, h) \<Rightarrow> (False, d, h, r)
                   | (True, h) \<Rightarrow>
                     (case flash_blank io h of (b, h) \<Rightarrow>
                        if b \<noteq> 1 then (False, d, h, r)
                        else case fv_journal_commit SL io (ed_journal d) 0 (first_state d slot) h of (c, h) \<Rightarrow>
                          if c \<noteq> FV_JOURNAL_OK then (False, d, h, r)
                          else case mask_write OT slot FV_OTP_MASK_READY h of (ok, h) \<Rightarrow> (ok, d, h, r)))))))"

definition fv_enrollment_provision ::
  "sha_lib \<Rightarrow> 'h fv_otp_io \<Rightarrow> 'h fv_journal_io \<Rightarrow> 'r fv_random_bytes \<Rightarrow> fv_enrollment_device \<times> 'h \<times> 'r
   \<Rightarrow> bool \<times> fv_enrollment_device \<times> 'h \<times> 'r" where
  "fv_enrollment_provision SL OT io rng = (\<lambda>(d, h, r).
     case inspect_mask OT h of (None, h) \<Rightarrow> (False, d, h, r)
     | (Some v, h) \<Rightarrow>
       if mi_ready v \<noteq> None
       then (case fv_enrollment_open SL OT io (d, h) of (res, d, h) \<Rightarrow>
         if res \<noteq> 0 then (False, d, h, r)
         else case enrollment_load SL OT io (d, h) of (None, d, h) \<Rightarrow> (False, d, h, r)
         | (Some s, d, h) \<Rightarrow> (ds_status s = FV_ENROLLMENT_EMPTY, d, h, r))
       else
         (let d = reset_session d in
          case abandon_loop OT [0..<FV_OTP_SLOTS] h of (False, h) \<Rightarrow> (False, d, h, r)
          | (True, h) \<Rightarrow>
            (case free_slot OT [0..<FV_OTP_SLOTS] h of
               (None, h) \<Rightarrow> (False, d, h, r)
             | (Some None, h) \<Rightarrow> (False, d, h, r)
             | (Some (Some slot), h) \<Rightarrow>
               (case can_program_all OT [FV_OTP_MASK_PAGE, token_page slot] h of (False, h) \<Rightarrow> (False, d, h, r)
                | (True, h) \<Rightarrow>
                  (case provision_slot SL OT io rng slot (d, h, r) of
                     (True, d, h, r) \<Rightarrow> (True, d, h, r)
                   | (False, d, h, r) \<Rightarrow>
                     (False, d\<lparr>ed_opened := False, ed_journal := fv_journal_clear\<rparr>, h, r))))))"

end
