(* ===== verification/Block_Device.thy ===== *)
theory Block_Device
  imports Bytes
begin

text \<open>
  The block device interface of \<^verbatim>\<open>src/src/shared/storage/include/fuse_vault/block_device.h\<close> and
  the session access modes of \<^verbatim>\<open>access_mode.h\<close>. A device is a record of operations on a device
  state of any type \<open>'d\<close>; every operation returns the new state, failing or not. Block addresses
  and counts are natural numbers: each caller checks them against the capacity before it adds.
\<close>

datatype fv_block_result =
    FV_BLOCK_OK
  | FV_BLOCK_ERROR_INVALID_ARGUMENT
  | FV_BLOCK_ERROR_NOT_READY
  | FV_BLOCK_ERROR_OUT_OF_RANGE
  | FV_BLOCK_ERROR_IO
  | FV_BLOCK_ERROR_READ_ONLY
  | FV_BLOCK_ERROR_INTEGRITY

definition FV_BLOCK_SIZE :: nat where "FV_BLOCK_SIZE = 512"

record 'd fv_block_device_ops =
  blk_read :: "'d \<Rightarrow> nat \<Rightarrow> nat \<Rightarrow> fv_block_result \<times> u8 list \<times> 'd"
  blk_write :: "'d \<Rightarrow> nat \<Rightarrow> nat \<Rightarrow> u8 list \<Rightarrow> fv_block_result \<times> 'd"
  blk_sync :: "'d \<Rightarrow> fv_block_result \<times> 'd"
  blk_count :: "'d \<Rightarrow> nat"
  blk_present :: "'d \<Rightarrow> bool"

text \<open>What the code relies on in a storage card: a successful transfer moves the addressed sectors
  and nothing else, and a failed one may damage only the sectors it addressed. The size a card
  reports is not part of the law: a driver that has lost its card reports none. \<open>cells\<close> is the content of the card.\<close>

definition disk_law :: "'d fv_block_device_ops \<Rightarrow> ('d \<Rightarrow> nat \<Rightarrow> u8 list) \<Rightarrow> bool" where
  "disk_law B cells \<longleftrightarrow>
     (\<forall>d a. length (cells d a) = 512) \<and>
     (\<forall>d first n r bs d'. blk_read B d first n = (r, bs, d') \<longrightarrow>
        cells d' = cells d \<and> length bs = n * 512 \<and>
        (r = FV_BLOCK_OK \<longrightarrow> (\<forall>i < n. span bs (i * 512) 512 = cells d (first + i)))) \<and>
     (\<forall>d first n data r d'. blk_write B d first n data = (r, d') \<longrightarrow> length data = n * 512 \<longrightarrow>
        (\<forall>a. a < first \<or> first + n \<le> a \<longrightarrow> cells d' a = cells d a) \<and>
        (r = FV_BLOCK_OK \<longrightarrow> (\<forall>i < n. cells d' (first + i) = span data (i * 512) 512))) \<and>
     (\<forall>d r d'. blk_sync B d = (r, d') \<longrightarrow> cells d' = cells d)"

lemma disk_lawD:
  assumes "disk_law B cells"
  shows "length (cells d a) = 512"
    and "blk_read B d first n = (r, bs, d') \<Longrightarrow> cells d' = cells d"
    and "blk_read B d first n = (r, bs, d') \<Longrightarrow> length bs = n * 512"
    and "blk_read B d first n = (FV_BLOCK_OK, bs, d') \<Longrightarrow> i < n \<Longrightarrow> span bs (i * 512) 512 = cells d (first + i)"
    and "blk_write B d first n data = (r, d') \<Longrightarrow> length data = n * 512 \<Longrightarrow> a < first \<or> first + n \<le> a \<Longrightarrow>
      cells d' a = cells d a"
    and "blk_write B d first n data = (FV_BLOCK_OK, d') \<Longrightarrow> length data = n * 512 \<Longrightarrow> i < n \<Longrightarrow>
      cells d' (first + i) = span data (i * 512) 512"
    and "blk_sync B d = (r, d') \<Longrightarrow> cells d' = cells d"
proof -
  note l = assms [unfolded disk_law_def]
  have c: "\<forall>d a. length (cells d a) = 512"
    using l by (elim conjE)
  have rd: "\<forall>d first n r bs d'. blk_read B d first n = (r, bs, d') \<longrightarrow>
        cells d' = cells d \<and> length bs = n * 512 \<and>
        (r = FV_BLOCK_OK \<longrightarrow> (\<forall>i < n. span bs (i * 512) 512 = cells d (first + i)))"
    using l by (elim conjE)
  have wr: "\<forall>d first n data r d'. blk_write B d first n data = (r, d') \<longrightarrow> length data = n * 512 \<longrightarrow>
        (\<forall>a. a < first \<or> first + n \<le> a \<longrightarrow> cells d' a = cells d a) \<and>
        (r = FV_BLOCK_OK \<longrightarrow> (\<forall>i < n. cells d' (first + i) = span data (i * 512) 512))"
    using l by (elim conjE)
  have sy: "\<forall>d r d'. blk_sync B d = (r, d') \<longrightarrow> cells d' = cells d"
    using l by (elim conjE)
  show "length (cells d a) = 512" using c by blast
  show "blk_read B d first n = (r, bs, d') \<Longrightarrow> cells d' = cells d"
    and "blk_read B d first n = (r, bs, d') \<Longrightarrow> length bs = n * 512"
    and "blk_read B d first n = (FV_BLOCK_OK, bs, d') \<Longrightarrow> i < n \<Longrightarrow> span bs (i * 512) 512 = cells d (first + i)"
    using rd by fast+
  show "blk_write B d first n data = (r, d') \<Longrightarrow> length data = n * 512 \<Longrightarrow> a < first \<or> first + n \<le> a \<Longrightarrow>
      cells d' a = cells d a"
    and "blk_write B d first n data = (FV_BLOCK_OK, d') \<Longrightarrow> length data = n * 512 \<Longrightarrow> i < n \<Longrightarrow>
      cells d' (first + i) = span data (i * 512) 512"
    using wr by fast+
  show "blk_sync B d = (r, d') \<Longrightarrow> cells d' = cells d"
    using sy by fast+
qed

text \<open>A card in memory, on which the properties are applied.\<close>

fun write_cells :: "(nat \<Rightarrow> u8 list) \<Rightarrow> nat \<Rightarrow> nat \<Rightarrow> u8 list \<Rightarrow> nat \<Rightarrow> u8 list" where
  "write_cells c first n data a =
     (if first \<le> a \<and> a < first + n then span data ((a - first) * 512) 512 else c a)"

definition ram_read :: "(nat \<Rightarrow> u8 list) \<Rightarrow> nat \<Rightarrow> nat \<Rightarrow> u8 list" where
  "ram_read c first n = concat (map (\<lambda>i. take 512 (c (first + i) @ zeros 512)) [0..<n])"

definition ram_cells :: "(nat \<Rightarrow> u8 list) \<Rightarrow> nat \<Rightarrow> u8 list" where
  "ram_cells c a = take 512 (c a @ zeros 512)"

definition ram_device :: "nat \<Rightarrow> (nat \<Rightarrow> u8 list) fv_block_device_ops" where
  "ram_device sz = \<lparr>
     blk_read = (\<lambda>c first n. (FV_BLOCK_OK, ram_read c first n, c)),
     blk_write = (\<lambda>c first n data. (FV_BLOCK_OK, write_cells c first n data)),
     blk_sync = (\<lambda>c. (FV_BLOCK_OK, c)), blk_count = (\<lambda>c. sz), blk_present = (\<lambda>c. True)\<rparr>"

lemma length_ram_cells [simp]: "length (ram_cells c a) = 512"
  by (simp add: ram_cells_def)

lemma ram_read_cells: "ram_read c first n = concat (map (\<lambda>i. ram_cells c (first + i)) [0..<n])"
  by (simp add: ram_read_def ram_cells_def)

lemma length_concat_512: "(\<And>i. length (f i) = 512) \<Longrightarrow> length (concat (map f [0..<n])) = n * 512"
  by (induction n) auto

lemma span_concat_512:
  "(\<And>i. length (f i) = 512) \<Longrightarrow> i < n \<Longrightarrow> span (concat (map f [0..<n])) (i * 512) 512 = f i"
proof (induction n)
  case (Suc n)
  have l: "length (concat (map f [0..<n])) = n * 512" by (rule length_concat_512) (rule Suc.prems)
  show ?case
  proof (cases "i < n")
    case True
    then have "i * 512 + 512 \<le> n * 512" by auto
    with True Suc l show ?thesis by (simp add: span_def)
  next
    case False
    then have "i = n" using Suc.prems by simp
    with l Suc.prems show ?thesis by (simp add: span_def)
  qed
qed simp

lemma disk_law_ram: "disk_law (ram_device sz) ram_cells"
  unfolding disk_law_def ram_device_def
  by (auto simp: ram_read_cells length_concat_512 span_concat_512 ram_cells_def)

section \<open>Access modes\<close>

text \<open>The switch values outside the enumeration deny everything; \<open>FV_ACCESS_OTHER\<close> stands for
  them.\<close>

datatype fv_access_mode =
    FV_ACCESS_LOCKED
  | FV_ACCESS_FULL
  | FV_ACCESS_PASSKEYS_ONLY
  | FV_ACCESS_FILES_READ_ONLY
  | FV_ACCESS_OTHER

definition fv_access_valid :: "fv_access_mode \<Rightarrow> bool" where
  "fv_access_valid mode \<longleftrightarrow>
     mode = FV_ACCESS_FULL \<or> mode = FV_ACCESS_PASSKEYS_ONLY \<or> mode = FV_ACCESS_FILES_READ_ONLY"

definition fv_access_files :: "fv_access_mode \<Rightarrow> bool" where
  "fv_access_files mode \<longleftrightarrow> mode = FV_ACCESS_FULL \<or> mode = FV_ACCESS_FILES_READ_ONLY"

definition fv_access_writable :: "fv_access_mode \<Rightarrow> bool" where
  "fv_access_writable mode \<longleftrightarrow> mode = FV_ACCESS_FULL"

definition fv_access_fido :: "fv_access_mode \<Rightarrow> bool" where
  "fv_access_fido mode \<longleftrightarrow> mode = FV_ACCESS_FULL \<or> mode = FV_ACCESS_PASSKEYS_ONLY"

definition fv_access_admin :: "fv_access_mode \<Rightarrow> bool" where
  "fv_access_admin mode \<longleftrightarrow> mode = FV_ACCESS_FULL"

end
