(* ===== verification/Auth_Store.thy ===== *)
theory Auth_Store
  imports Block_Device Hash
begin

text \<open>
  The authenticated sector store (\<^verbatim>\<open>src/src/shared/storage/auth_store.c\<close>): every ciphertext
  sector has a state byte and an HMAC tag in a metadata sector (15 entries each); a layout-2
  volume also keeps a bitmap of the metadata sectors that were ever written, which precedes them.
  \<open>fv_auth_store\<close> is the C object: its geometry, the cached bitmap sector and the cached run of
  metadata sectors. Block numbers are natural numbers: the open checks every region against the
  card's capacity, and every later sum stays below it. The time statistics are left out. Buffers
  are given with their address, of which the code checks null (0) and alignment.
\<close>

definition FV_TAGS_PER_BLOCK :: nat where "FV_TAGS_PER_BLOCK = 15"
definition FV_AUTH_MAX_BATCH_SECTORS :: nat where "FV_AUTH_MAX_BATCH_SECTORS = 128"
definition FV_TAG_CACHE_BLOCKS :: nat where
  "FV_TAG_CACHE_BLOCKS = (FV_AUTH_MAX_BATCH_SECTORS + 2 * FV_TAGS_PER_BLOCK - 2) div FV_TAGS_PER_BLOCK"

text \<open>Two words, one bit for each sector of a batch.\<close>

type_synonym fv_auth_unset_mask = "u64 list"

definition fv_auth_sector_unset :: "fv_auth_unset_mask \<Rightarrow> nat \<Rightarrow> bool" where
  "fv_auth_sector_unset unset sector \<longleftrightarrow> (drop_bit (sector mod 64) (unset ! (sector div 64)) AND 1) \<noteq> 0"

record fv_auth_store =
  as_base :: nat
  as_blocks :: nat
  as_metadata_blocks :: nat
  as_data_base :: nat
  as_bitmap_base :: nat
  as_bitmap_blocks :: nat
  as_bitmap_cached_sector :: nat
  as_bitmap_cached :: bool
  as_cache_initialized :: u16
  as_bitmap_cache :: "u8 list"
  as_volume :: "u8 list"
  as_hmac :: fv_hmac
  as_ready :: bool
  as_cache_first :: nat
  as_cache_count :: nat
  as_cache :: "u8 list"

definition cleared_hmac :: fv_hmac where
  "cleared_hmac = \<lparr>hm_inner = [], hm_outer = [], hm_ipad = zeros 64, hm_opad = zeros 64, hm_ready = False\<rparr>"

definition fv_auth_close :: fv_auth_store where
  "fv_auth_close = \<lparr>as_base = 0, as_blocks = 0, as_metadata_blocks = 0, as_data_base = 0,
     as_bitmap_base = 0, as_bitmap_blocks = 0, as_bitmap_cached_sector = 0, as_bitmap_cached = False,
     as_cache_initialized = 0, as_bitmap_cache = zeros 512, as_volume = zeros 16, as_hmac = cleared_hmac,
     as_ready = False, as_cache_first = 0, as_cache_count = 0,
     as_cache = zeros (FV_TAG_CACHE_BLOCKS * 512)\<rparr>"

definition div_ceil :: "nat \<Rightarrow> nat \<Rightarrow> nat" where
  "div_ceil n k = n div k + (if n mod k \<noteq> 0 then 1 else 0)"

definition open_store ::
    "sha_lib \<Rightarrow> bool \<Rightarrow> 'd fv_block_device_ops \<Rightarrow> 'd \<Rightarrow> nat \<Rightarrow> nat \<Rightarrow> u8 list \<Rightarrow> u8 list
     \<Rightarrow> fv_block_result \<times> fv_auth_store" where
  "open_store SL bitmap B d base blocks volume key =
     (if blocks = 0 \<or> volume = [] \<or> key = [] then (FV_BLOCK_ERROR_INVALID_ARGUMENT, fv_auth_close)
      else
        (let meta = div_ceil blocks 15; capacity = blk_count B d;
             bmap = (if bitmap then div_ceil meta 4096 else 0)
         in if base > capacity \<or> bmap > capacity - base \<or> meta > capacity - base - bmap \<or>
               blocks > capacity - base - bmap - meta then (FV_BLOCK_ERROR_OUT_OF_RANGE, fv_auth_close)
            else case fv_hmac_init SL key of
              None \<Rightarrow> (FV_BLOCK_ERROR_INVALID_ARGUMENT, fv_auth_close)
            | Some h \<Rightarrow>
                (FV_BLOCK_OK,
                 fv_auth_close\<lparr>as_hmac := h, as_base := base + bmap, as_blocks := blocks,
                   as_metadata_blocks := meta, as_data_base := base + bmap + meta,
                   as_bitmap_base := base, as_bitmap_blocks := bmap, as_volume := volume,
                   as_ready := True\<rparr>)))"

definition fv_auth_open where
  "fv_auth_open SL B d base blocks volume key = open_store SL False B d base blocks volume key"

definition fv_auth_open_bitmap where
  "fv_auth_open_bitmap SL B d base blocks volume key = open_store SL True B d base blocks volume key"

definition store_fault :: "fv_auth_store \<Rightarrow> fv_auth_store" where
  "store_fault s = s\<lparr>as_ready := False, as_cache_count := 0, as_bitmap_cached := False\<rparr>"

definition meta_read :: "'d fv_block_device_ops \<Rightarrow> fv_auth_store \<Rightarrow> 'd \<Rightarrow> nat \<Rightarrow> nat
    \<Rightarrow> fv_block_result \<times> u8 list \<times> 'd" where
  "meta_read B s d first n = blk_read B d (as_base s + first) n"

definition meta_write :: "'d fv_block_device_ops \<Rightarrow> fv_auth_store \<Rightarrow> 'd \<Rightarrow> nat \<Rightarrow> nat \<Rightarrow> u8 list
    \<Rightarrow> fv_block_result \<times> 'd" where
  "meta_write B s d first n data = blk_write B d (as_base s + first) n data"

section \<open>Formatting\<close>

text \<open>The progress callback is an effect outside the store; the model returns the list of the
  \<^verbatim>\<open>(completed, total)\<close> pairs it was called with. \<open>k\<close> is \<^verbatim>\<open>sectors-1\<close>, which the
  argument check has made a natural number.\<close>

function format_loop ::
    "'d fv_block_device_ops \<Rightarrow> fv_auth_store \<Rightarrow> nat \<Rightarrow> nat \<Rightarrow> nat \<Rightarrow> 'd \<Rightarrow> (nat \<times> nat) list
     \<Rightarrow> fv_block_result \<times> 'd \<times> (nat \<times> nat) list" where
  "format_loop B s k tot first d calls =
     (if first < tot then
        (let n = (if tot - first > Suc k then Suc k else tot - first);
             scratch = zeros (n * 512)
         in case (if as_bitmap_blocks s \<noteq> 0 then blk_write B d (as_bitmap_base s + first) n scratch
                  else meta_write B s d first n scratch) of
              (r, d) \<Rightarrow> if r \<noteq> FV_BLOCK_OK then (r, d, calls)
                        else format_loop B s k tot (first + n) d (calls @ [(first + n, tot)]))
      else (FV_BLOCK_OK, d, calls))"
  by pat_completeness auto
termination
  by (relation "measure (\<lambda>(B, s, k, tot, first, d, calls). tot - first)") (auto split: if_splits)

declare format_loop.simps [simp del]

definition fv_auth_format_buffered ::
    "'d fv_block_device_ops \<Rightarrow> fv_auth_store \<Rightarrow> nat \<Rightarrow> nat \<Rightarrow> 'd
     \<Rightarrow> fv_block_result \<times> fv_auth_store \<times> 'd \<times> (nat \<times> nat) list" where
  "fv_auth_format_buffered B s scratch sectors d =
     (if \<not> as_ready s then (FV_BLOCK_ERROR_NOT_READY, s, d, [])
      else if scratch = 0 \<or> scratch mod 4 \<noteq> 0 \<or> sectors = 0 \<or> sectors > 256
           then (FV_BLOCK_ERROR_INVALID_ARGUMENT, s, d, [])
      else
        (let s = s\<lparr>as_cache_count := 0, as_bitmap_cached := False\<rparr>;
             tot = (if as_bitmap_blocks s \<noteq> 0 then as_bitmap_blocks s else as_metadata_blocks s)
         in case format_loop B s (sectors - 1) tot 0 d [(0, tot)] of (r, d, calls) \<Rightarrow>
              if r \<noteq> FV_BLOCK_OK then (r, store_fault s, d, calls)
              else case blk_sync B d of (r, d) \<Rightarrow>
                (r, if r = FV_BLOCK_OK then s else store_fault s, d, calls)))"

text \<open>\<^verbatim>\<open>fv_auth_format\<close> lends the store's own cache as scratch, which leaves it zeroed. It passes no
  callback.\<close>

definition fv_auth_format ::
    "'d fv_block_device_ops \<Rightarrow> fv_auth_store \<Rightarrow> 'd \<Rightarrow> fv_block_result \<times> fv_auth_store \<times> 'd" where
  "fv_auth_format B s d =
     (case fv_auth_format_buffered B s 4 FV_TAG_CACHE_BLOCKS d of (r, s', d', _) \<Rightarrow>
        (r, if as_ready s then s'\<lparr>as_cache := zeros (FV_TAG_CACHE_BLOCKS * 512)\<rparr> else s', d'))"

section \<open>Cache\<close>

definition store_validate :: "fv_auth_store \<Rightarrow> nat \<Rightarrow> nat \<Rightarrow> nat \<Rightarrow> fv_block_result" where
  "store_validate s lba n p =
     (if p = 0 \<or> p mod 4 \<noteq> 0 \<or> n = 0 \<or> n > FV_AUTH_MAX_BATCH_SECTORS then FV_BLOCK_ERROR_INVALID_ARGUMENT
      else if \<not> as_ready s then FV_BLOCK_ERROR_NOT_READY
      else if lba \<ge> as_blocks s \<or> n > as_blocks s - lba then FV_BLOCK_ERROR_OUT_OF_RANGE
      else FV_BLOCK_OK)"

definition bitmap_load ::
    "'d fv_block_device_ops \<Rightarrow> nat \<Rightarrow> fv_auth_store \<times> 'd \<Rightarrow> fv_block_result \<times> fv_auth_store \<times> 'd" where
  "bitmap_load B metadata_sector = (\<lambda>(s, d).
     let sector = metadata_sector div 4096 in
     if as_bitmap_cached s \<and> as_bitmap_cached_sector s = sector then (FV_BLOCK_OK, s, d)
     else
       (let s = s\<lparr>as_bitmap_cached := False\<rparr> in
        case blk_read B d (as_bitmap_base s + sector) 1 of (r, bs, d) \<Rightarrow>
          let s = s\<lparr>as_bitmap_cache := bs\<rparr> in
          if r \<noteq> FV_BLOCK_OK then (r, s, d)
          else (FV_BLOCK_OK, s\<lparr>as_bitmap_cached_sector := sector, as_bitmap_cached := True\<rparr>, d)))"

definition bitmap_bit :: "fv_auth_store \<Rightarrow> nat \<Rightarrow> bool" where
  "bitmap_bit s metadata_sector \<longleftrightarrow>
     (let b = metadata_sector mod 4096
      in (as_bitmap_cache s ! (b div 8) AND push_bit (b mod 8) 1) \<noteq> 0)"

text \<open>The first loop of \<^verbatim>\<open>load\<close>: which metadata sectors of the run were ever written.\<close>

fun load_bits ::
    "'d fv_block_device_ops \<Rightarrow> nat \<Rightarrow> nat list \<Rightarrow> fv_auth_store \<times> 'd
     \<Rightarrow> fv_block_result \<times> fv_auth_store \<times> 'd" where
  "load_bits B first [] (s, d) = (FV_BLOCK_OK, s, d)"
| "load_bits B first (i # is) (s, d) =
     (case bitmap_load B (first + i) (s, d) of (r, s, d) \<Rightarrow>
        if r \<noteq> FV_BLOCK_OK then (r, store_fault s, d)
        else load_bits B first is
          (if bitmap_bit s (first + i)
           then s\<lparr>as_cache_initialized := as_cache_initialized s OR push_bit i 1\<rparr> else s, d))"

definition initialized_bit :: "fv_auth_store \<Rightarrow> nat \<Rightarrow> bool" where
  "initialized_bit s i \<longleftrightarrow> (as_cache_initialized s AND push_bit i 1) \<noteq> 0"

function run_end :: "(nat \<Rightarrow> bool) \<Rightarrow> nat \<Rightarrow> nat \<Rightarrow> nat" where
  "run_end P n i = (if i < n \<and> P i then run_end P n (Suc i) else i)"
  by pat_completeness auto
termination by (relation "measure (\<lambda>(P, n, i). n - i)") auto

declare run_end.simps [simp del]

lemma run_end_ge: "i \<le> run_end P n i"
  by (induction P n i rule: run_end.induct) (subst run_end.simps, auto)

lemma run_end_greater: "i < n \<Longrightarrow> P i \<Longrightarrow> i < run_end P n i"
  using run_end_ge [of "Suc i" P n] by (subst run_end.simps) simp

text \<open>The second loop: written runs are read together.\<close>

function load_runs ::
    "'d fv_block_device_ops \<Rightarrow> nat \<Rightarrow> nat \<Rightarrow> nat \<Rightarrow> fv_auth_store \<Rightarrow> 'd
     \<Rightarrow> fv_block_result \<times> fv_auth_store \<times> 'd" where
  "load_runs B first n i s d =
     (if i < n then
        if \<not> initialized_bit s i then load_runs B first n (Suc i) s d
        else
          (let start = i; i = run_end (initialized_bit s) n i in
           case meta_read B s d (first + start) (i - start) of (r, bs, d) \<Rightarrow>
             let s = s\<lparr>as_cache := memcpy (as_cache s) (start * 512) bs\<rparr> in
             if r \<noteq> FV_BLOCK_OK then (r, store_fault s, d) else load_runs B first n i s d)
      else (FV_BLOCK_OK, s, d))"
  by pat_completeness auto
termination
  by (relation "measure (\<lambda>(B, first, n, i, s, d). n - i)") (auto simp: run_end_greater diff_less_mono2)

declare load_runs.simps [simp del]

definition load_fill ::
    "'d fv_block_device_ops \<Rightarrow> nat \<Rightarrow> nat \<Rightarrow> fv_auth_store \<Rightarrow> 'd \<Rightarrow> fv_block_result \<times> fv_auth_store \<times> 'd" where
  "load_fill B first n s d =
     (if as_bitmap_blocks s = 0 then
        (case meta_read B s d first n of (r, bs, d) \<Rightarrow>
           let s = s\<lparr>as_cache := memcpy (as_cache s) 0 bs\<rparr> in
           if r \<noteq> FV_BLOCK_OK then (r, store_fault s, d) else (FV_BLOCK_OK, s, d))
      else
        (case load_bits B first [0..<n] (s, d) of (r, s, d) \<Rightarrow>
           if r \<noteq> FV_BLOCK_OK then (r, s, d)
           else load_runs B first n 0 (s\<lparr>as_cache := memset (as_cache s) 0 0 (n * 512)\<rparr>) d))"

definition load ::
    "'d fv_block_device_ops \<Rightarrow> nat \<Rightarrow> nat \<Rightarrow> fv_auth_store \<times> 'd \<Rightarrow> fv_block_result \<times> fv_auth_store \<times> 'd" where
  "load B lba cnt = (\<lambda>(s, d).
     let first = lba div 15; last = (lba + cnt - 1) div 15 in
     if as_cache_count s \<noteq> 0 \<and> first \<ge> as_cache_first s \<and> last < as_cache_first s + as_cache_count s
     then (FV_BLOCK_OK, s, d)
     else
       (let n = last - first + 1 in
        case load_fill B first n (s\<lparr>as_cache_count := 0, as_cache_initialized := 0\<rparr>) d of (r, s, d) \<Rightarrow>
          if r \<noteq> FV_BLOCK_OK then (r, s, d)
          else (FV_BLOCK_OK, s\<lparr>as_cache_first := first, as_cache_count := n\<rparr>, d)))"

text \<open>The offset in the cache of the metadata sector of a block.\<close>

definition store_entry :: "fv_auth_store \<Rightarrow> nat \<Rightarrow> nat" where
  "store_entry s lba = (lba div 15 - as_cache_first s) * 512"

text \<open>\<^verbatim>\<open>"FV-SECTOR-MAC"\<close>, two zero bytes and the version byte.\<close>

definition sector_mac_domain :: "u8 list" where
  "sector_mac_domain =
     [0x46, 0x56, 0x2D, 0x53, 0x45, 0x43, 0x54, 0x4F, 0x52, 0x2D, 0x4D, 0x41, 0x43, 0, 0, 1]"

definition store_tag :: "sha_lib \<Rightarrow> fv_auth_store \<Rightarrow> nat \<Rightarrow> u8 list \<Rightarrow> u8 list option" where
  "store_tag SL s lba data =
     (let context = memcpy (zeros 40) 0 sector_mac_domain;
          context = memcpy context 16 (as_volume s);
          context = put context 32 (of_nat lba :: u64) 8
      in fv_hmac_compute SL (as_hmac s) context data)"

section \<open>Writing\<close>

text \<open>The do-while loop of \<^verbatim>\<open>publish\<close>: marks the metadata sectors of one bitmap sector.\<close>

function publish_marks ::
    "nat \<Rightarrow> nat \<Rightarrow> nat \<Rightarrow> nat \<Rightarrow> fv_auth_store \<times> nat \<times> bool \<Rightarrow> fv_auth_store \<times> nat \<times> bool" where
  "publish_marks first offset cnt page (s, i, changed) =
     (let b = (first + i) mod 4096;
          (s, changed) =
            (if \<not> initialized_bit s (offset + i)
             then (s\<lparr>as_bitmap_cache := (as_bitmap_cache s)[b div 8 := as_bitmap_cache s ! (b div 8) OR push_bit (b mod 8) 1]\<rparr>, True)
             else (s, changed));
          i = Suc i
      in if i < cnt \<and> (first + i) div 4096 = page then publish_marks first offset cnt page (s, i, changed)
         else (s, i, changed))"
  by pat_completeness auto
termination
  by (relation "measure (\<lambda>(first, offset, cnt, page, s, i, changed). cnt - i)") auto

declare publish_marks.simps [simp del]

lemma publish_marks_greater: "i < fst (snd (publish_marks first offset cnt page (s, i, changed)))"
proof (induction first offset cnt page "(s, i, changed)" arbitrary: s i changed rule: publish_marks.induct)
  case (1 first offset cnt page s i changed)
  show ?case
    using "1.hyps" by (subst publish_marks.simps) (fastforce simp: Let_def dest: Suc_lessD)
qed

function publish_loop ::
    "'d fv_block_device_ops \<Rightarrow> nat \<Rightarrow> nat \<Rightarrow> nat \<Rightarrow> nat \<Rightarrow> fv_auth_store \<Rightarrow> 'd
     \<Rightarrow> fv_block_result \<times> fv_auth_store \<times> 'd" where
  "publish_loop B first offset cnt i s d =
     (if i < cnt then
        (let sector = first + i in
         case bitmap_load B sector (s, d) of (r, s, d) \<Rightarrow>
           if r \<noteq> FV_BLOCK_OK then (r, s, d)
           else (let m = publish_marks first offset cnt (sector div 4096) (s, i, False);
                     s = fst m; i = fst (snd m); changed = snd (snd m)
            in if changed then
                 (case blk_write B d (as_bitmap_base s + sector div 4096) 1 (as_bitmap_cache s) of (r, d) \<Rightarrow>
                    if r \<noteq> FV_BLOCK_OK then (r, s, d)
                    else case blk_sync B d of (r, d) \<Rightarrow>
                      if r \<noteq> FV_BLOCK_OK then (r, s, d) else publish_loop B first offset cnt i s d)
               else publish_loop B first offset cnt i s d))
      else (FV_BLOCK_OK, s, d))"
  by pat_completeness auto
termination
  by (relation "measure (\<lambda>(B, first, offset, cnt, i, s, d). cnt - i)")
    (auto intro!: diff_less_mono2 simp: publish_marks_greater)

declare publish_loop.simps [simp del]

definition publish ::
    "'d fv_block_device_ops \<Rightarrow> nat \<Rightarrow> nat \<Rightarrow> fv_auth_store \<times> 'd \<Rightarrow> fv_block_result \<times> fv_auth_store \<times> 'd" where
  "publish B first cnt = (\<lambda>(s, d).
     let offset = first - as_cache_first s;
         unset = (push_bit offset (push_bit cnt 1 - 1) :: u32)
     in if as_bitmap_blocks s = 0 \<or> (ucast (as_cache_initialized s) AND unset) = unset then (FV_BLOCK_OK, s, d)
        else case blk_sync B d of (r, d) \<Rightarrow>
          if r \<noteq> FV_BLOCK_OK then (r, s, d)
          else case publish_loop B first offset cnt 0 s d of (r, s, d) \<Rightarrow>
            if r \<noteq> FV_BLOCK_OK then (r, s, d)
            else (FV_BLOCK_OK, s\<lparr>as_cache_initialized := as_cache_initialized s OR ucast unset\<rparr>, d))"

text \<open>The tag loop of \<^verbatim>\<open>fv_auth_write\<close>: \<open>False\<close> when an HMAC failed.\<close>

fun write_tags ::
    "sha_lib \<Rightarrow> nat \<Rightarrow> u8 list \<Rightarrow> nat list \<Rightarrow> fv_auth_store \<Rightarrow> bool \<times> fv_auth_store" where
  "write_tags SL lba data [] s = (True, s)"
| "write_tags SL lba data (i # is) s =
     (let e = store_entry s (lba + i); n = (lba + i) mod 15
      in case store_tag SL s (lba + i) (span data (i * 512) 512) of
           None \<Rightarrow> (False, s)
         | Some t \<Rightarrow>
             write_tags SL lba data is
               (s\<lparr>as_cache := (memcpy (as_cache s) (e + 32 + n * 32) t)[e + n := 1]\<rparr>))"

definition fv_auth_write ::
    "sha_lib \<Rightarrow> 'd fv_block_device_ops \<Rightarrow> nat \<Rightarrow> nat \<Rightarrow> nat \<times> u8 list \<Rightarrow> fv_auth_store \<times> 'd
     \<Rightarrow> fv_block_result \<times> fv_auth_store \<times> 'd" where
  "fv_auth_write SL B lba cnt = (\<lambda>(p, data) (s, d).
     let r = store_validate s lba cnt p in
     if r \<noteq> FV_BLOCK_OK then (r, s, d)
     else case load B lba cnt (s, d) of (r, s, d) \<Rightarrow>
       if r \<noteq> FV_BLOCK_OK then (r, s, d)
       else case write_tags SL lba data [0..<cnt] s of (ok, s) \<Rightarrow>
         if \<not> ok then (FV_BLOCK_ERROR_IO, store_fault s, d)
         else case blk_write B d (as_data_base s + lba) cnt data of (r, d) \<Rightarrow>
           if r \<noteq> FV_BLOCK_OK then (r, store_fault s, d)
           else
             (let first = lba div 15; n = (lba + cnt - 1) div 15 - first + 1
              in case meta_write B s d first n (span (as_cache s) (store_entry s lba) (n * 512)) of (r, d) \<Rightarrow>
                   case (if r = FV_BLOCK_OK then publish B first n (s, d) else (r, s, d)) of (r, s, d) \<Rightarrow>
                     (r, if r = FV_BLOCK_OK then s else store_fault s, d)))"

section \<open>Reading\<close>

fun read_states ::
    "nat \<Rightarrow> fv_auth_store \<Rightarrow> nat list \<Rightarrow> fv_auth_unset_mask \<Rightarrow> fv_block_result \<times> fv_auth_unset_mask" where
  "read_states lba s [] unset = (FV_BLOCK_OK, unset)"
| "read_states lba s (i # is) unset =
     (let state = as_cache s ! (store_entry s (lba + i) + (lba + i) mod 15)
      in if state = 0
         then read_states lba s is (unset[i div 64 := unset ! (i div 64) OR push_bit (i mod 64) 1])
         else if state \<noteq> 1 then (FV_BLOCK_ERROR_INTEGRITY, unset)
         else read_states lba s is unset)"

function read_runs ::
    "'d fv_block_device_ops \<Rightarrow> fv_auth_store \<Rightarrow> fv_auth_unset_mask \<Rightarrow> nat \<Rightarrow> nat \<Rightarrow> nat \<Rightarrow> u8 list \<Rightarrow> 'd
     \<Rightarrow> fv_block_result \<times> u8 list \<times> 'd" where
  "read_runs B s unset lba cnt i data d =
     (if i < cnt then
        if fv_auth_sector_unset unset i then read_runs B s unset lba cnt (Suc i) (memset data (i * 512) 0 512) d
        else
          (let e = run_end (\<lambda>j. \<not> fv_auth_sector_unset unset j) cnt (Suc i)
           in case blk_read B d (as_data_base s + lba + i) (e - i) of (r, bs, d) \<Rightarrow>
                let data = memcpy data (i * 512) bs in
                if r \<noteq> FV_BLOCK_OK then (r, data, d) else read_runs B s unset lba cnt e data d)
      else (FV_BLOCK_OK, data, d))"
  by pat_completeness auto
termination
  by (relation "measure (\<lambda>(B, s, unset, lba, cnt, i, data, d). cnt - i)")
    (auto intro!: diff_less_mono2 simp: Suc_le_lessD [OF run_end_ge])

declare read_runs.simps [simp del]

fun read_verify ::
    "sha_lib \<Rightarrow> fv_auth_store \<Rightarrow> fv_auth_unset_mask \<Rightarrow> nat \<Rightarrow> u8 list \<Rightarrow> nat list \<Rightarrow> fv_block_result" where
  "read_verify SL s unset lba data [] = FV_BLOCK_OK"
| "read_verify SL s unset lba data (i # is) =
     (if fv_auth_sector_unset unset i then read_verify SL s unset lba data is
      else
        (let stored = span (as_cache s) (store_entry s (lba + i) + 32 + (lba + i) mod 15 * 32) 32
         in case store_tag SL s (lba + i) (span data (i * 512) 512) of
              None \<Rightarrow> FV_BLOCK_ERROR_IO
            | Some computed \<Rightarrow>
                if \<not> fv_tag_equal computed stored then FV_BLOCK_ERROR_INTEGRITY
                else read_verify SL s unset lba data is))"

definition no_unset :: fv_auth_unset_mask where "no_unset = [0, 0]"

text \<open>The label \<^verbatim>\<open>fail\<close>.\<close>

definition read_fail ::
    "fv_block_result \<Rightarrow> nat \<Rightarrow> u8 list \<Rightarrow> fv_auth_store \<Rightarrow> 'd
     \<Rightarrow> fv_block_result \<times> u8 list \<times> fv_auth_unset_mask \<times> fv_auth_store \<times> 'd" where
  "read_fail r cnt data s d =
     (let s = s\<lparr>as_cache_count := 0\<rparr>
      in (r, memset data 0 0 (cnt * 512), no_unset,
          if r = FV_BLOCK_ERROR_INTEGRITY then s else store_fault s, d))"

definition fv_auth_read_batch ::
    "sha_lib \<Rightarrow> 'd fv_block_device_ops \<Rightarrow> nat \<Rightarrow> nat \<Rightarrow> nat \<times> u8 list \<Rightarrow> fv_auth_store \<times> 'd
     \<Rightarrow> fv_block_result \<times> u8 list \<times> fv_auth_unset_mask \<times> fv_auth_store \<times> 'd" where
  "fv_auth_read_batch SL B lba cnt = (\<lambda>(p, data) (s, d).
     let r = store_validate s lba cnt p in
     if r \<noteq> FV_BLOCK_OK then (r, data, no_unset, s, d)
     else case load B lba cnt (s, d) of (r, s, d) \<Rightarrow>
       if r \<noteq> FV_BLOCK_OK then read_fail r cnt data s d
       else case read_states lba s [0..<cnt] no_unset of (r, unset) \<Rightarrow>
         if r \<noteq> FV_BLOCK_OK then read_fail r cnt data s d
         else case read_runs B s unset lba cnt 0 data d of (r, data, d) \<Rightarrow>
           if r \<noteq> FV_BLOCK_OK then read_fail r cnt data s d
           else
             (let r = read_verify SL s unset lba data [0..<cnt]
              in if r \<noteq> FV_BLOCK_OK then read_fail r cnt data s d else (FV_BLOCK_OK, data, unset, s, d)))"

definition fv_auth_read ::
    "sha_lib \<Rightarrow> 'd fv_block_device_ops \<Rightarrow> nat \<Rightarrow> nat \<Rightarrow> nat \<times> u8 list \<Rightarrow> fv_auth_store \<times> 'd
     \<Rightarrow> fv_block_result \<times> u8 list \<times> u64 \<times> fv_auth_store \<times> 'd" where
  "fv_auth_read SL B lba cnt buf = (\<lambda>(s, d).
     if cnt > 64 then (FV_BLOCK_ERROR_INVALID_ARGUMENT, snd buf, 0, s, d)
     else case fv_auth_read_batch SL B lba cnt buf (s, d) of (r, data, unset, s, d) \<Rightarrow>
       (r, data, unset ! 0, s, d))"

end
