(* ===== verification/Auth_Store_Cache.thy ===== *)
theory Auth_Store_Cache
  imports Auth_Store
begin

text \<open>
  What the cache of the authenticated store means: the logical content of a metadata sector on
  the card, the invariant that ties the cached bitmap sector and the cached run of metadata
  sectors to it, and the proof that \<open>load\<close> establishes it for the sectors of a request.
\<close>

section \<open>The store on the card\<close>

definition bit_on_disk :: "('d \<Rightarrow> nat \<Rightarrow> u8 list) \<Rightarrow> fv_auth_store \<Rightarrow> 'd \<Rightarrow> nat \<Rightarrow> bool" where
  "bit_on_disk cells s d j \<longleftrightarrow>
     bit (cells d (as_bitmap_base s + j div 4096) ! (j mod 4096 div 8)) (j mod 4096 mod 8)"

text \<open>A metadata sector that the bitmap does not name reads as zeros, whatever the card holds.\<close>

definition meta_view :: "('d \<Rightarrow> nat \<Rightarrow> u8 list) \<Rightarrow> fv_auth_store \<Rightarrow> 'd \<Rightarrow> nat \<Rightarrow> u8 list" where
  "meta_view cells s d j =
     (if as_bitmap_blocks s \<noteq> 0 \<and> \<not> bit_on_disk cells s d j then zeros 512
      else cells d (as_base s + j))"

definition same_config :: "fv_auth_store \<Rightarrow> fv_auth_store \<Rightarrow> bool" where
  "same_config s s' \<longleftrightarrow> as_base s' = as_base s \<and> as_blocks s' = as_blocks s \<and>
     as_metadata_blocks s' = as_metadata_blocks s \<and> as_data_base s' = as_data_base s \<and>
     as_bitmap_base s' = as_bitmap_base s \<and> as_bitmap_blocks s' = as_bitmap_blocks s \<and>
     as_volume s' = as_volume s \<and> as_hmac s' = as_hmac s"

definition geometry_inv :: "fv_auth_store \<Rightarrow> bool" where
  "geometry_inv s \<longleftrightarrow> as_metadata_blocks s = div_ceil (as_blocks s) 15 \<and>
     as_base s = as_bitmap_base s + as_bitmap_blocks s \<and>
     as_data_base s = as_base s + as_metadata_blocks s \<and>
     (as_bitmap_blocks s = 0 \<or> as_bitmap_blocks s = div_ceil (as_metadata_blocks s) 4096) \<and>
     length (as_cache s) = 5120 \<and> length (as_bitmap_cache s) = 512"

definition bitmap_inv :: "('d \<Rightarrow> nat \<Rightarrow> u8 list) \<Rightarrow> fv_auth_store \<Rightarrow> 'd \<Rightarrow> bool" where
  "bitmap_inv cells s d \<longleftrightarrow> (as_bitmap_cached s \<longrightarrow>
     as_bitmap_cache s = cells d (as_bitmap_base s + as_bitmap_cached_sector s) \<and>
     as_bitmap_cached_sector s < as_bitmap_blocks s)"

definition cache_inv :: "('d \<Rightarrow> nat \<Rightarrow> u8 list) \<Rightarrow> fv_auth_store \<Rightarrow> 'd \<Rightarrow> bool" where
  "cache_inv cells s d \<longleftrightarrow> as_cache_count s \<le> 10 \<and>
     (as_cache_count s \<noteq> 0 \<longrightarrow> as_cache_first s + as_cache_count s \<le> as_metadata_blocks s) \<and>
     (\<forall>i < as_cache_count s. span (as_cache s) (i * 512) 512 = meta_view cells s d (as_cache_first s + i)) \<and>
     (as_bitmap_blocks s \<noteq> 0 \<longrightarrow>
        (\<forall>i < as_cache_count s. initialized_bit s i \<longleftrightarrow> bit_on_disk cells s d (as_cache_first s + i)))"

definition store_inv :: "('d \<Rightarrow> nat \<Rightarrow> u8 list) \<Rightarrow> fv_auth_store \<Rightarrow> 'd \<Rightarrow> bool" where
  "store_inv cells s d \<longleftrightarrow> geometry_inv s \<and> bitmap_inv cells s d \<and> cache_inv cells s d"

lemma same_config_refl [simp]: "same_config s s"
  by (simp add: same_config_def)

lemma same_config_trans: "same_config a b \<Longrightarrow> same_config b c \<Longrightarrow> same_config a c"
  by (simp add: same_config_def)

lemma meta_view_cong:
  "same_config s s' \<Longrightarrow> cells d' = cells d \<Longrightarrow> meta_view cells s' d' = meta_view cells s d"
  by (auto simp: meta_view_def bit_on_disk_def same_config_def)

lemma bit_on_disk_cong:
  "same_config s s' \<Longrightarrow> cells d' = cells d \<Longrightarrow> bit_on_disk cells s' d' = bit_on_disk cells s d"
  by (auto simp: bit_on_disk_def same_config_def)

lemma store_inv_cong:
  assumes "store_inv cells s d" "cells d' = cells d"
  shows "store_inv cells s d'"
proof -
  have "geometry_inv s" "bitmap_inv cells s d'"
    using assms by (auto simp: store_inv_def geometry_inv_def bitmap_inv_def)
  moreover have "cache_inv cells s d'"
    using assms(1) unfolding cache_inv_def store_inv_def
      meta_view_cong [of s s cells d' d, OF same_config_refl assms(2)]
      bit_on_disk_cong [of s s cells d' d, OF same_config_refl assms(2)] by blast
  ultimately show ?thesis by (simp add: store_inv_def)
qed

lemma initialized_bit_iff: "initialized_bit s i \<longleftrightarrow> bit (as_cache_initialized s) i"
  unfolding initialized_bit_def by (rule and_push_bit_1)

lemma bitmap_bit_iff: "bitmap_bit s j \<longleftrightarrow> bit (as_bitmap_cache s ! (j mod 4096 div 8)) (j mod 4096 mod 8)"
  unfolding bitmap_bit_def Let_def by (rule and_push_bit_1)

lemma div_ceil_greater: "0 < k \<Longrightarrow> i < n \<Longrightarrow> i div k < div_ceil n k"
proof -
  assume k: "0 < k" and i: "i < n"
  have "i div k \<le> n div k" using i by (intro div_le_mono) simp
  moreover have "i div k \<noteq> n div k" if "n mod k = 0"
  proof
    assume "i div k = n div k"
    moreover have "k * (n div k) = n" using that by auto
    moreover have "k * (i div k) \<le> i" by simp
    ultimately show False using i by simp
  qed
  ultimately show ?thesis by (auto simp: div_ceil_def)
qed

section \<open>Loading the cache\<close>

lemma bitmap_load_spec:
  assumes law: "disk_law B cells" and inv: "bitmap_inv cells s d" "length (as_bitmap_cache s) = 512"
    and j: "j div 4096 < as_bitmap_blocks s"
    and run: "bitmap_load B j (s, d) = (r, s', d')"
  shows "cells d' = cells d \<and> same_config s s' \<and>
    bitmap_inv cells s' d' \<and> length (as_bitmap_cache s') = 512 \<and>
    as_cache s' = as_cache s \<and> as_cache_initialized s' = as_cache_initialized s \<and>
    as_cache_first s' = as_cache_first s \<and> as_cache_count s' = as_cache_count s \<and> as_ready s' = as_ready s \<and>
    (r = FV_BLOCK_OK \<longrightarrow> as_bitmap_cached s' \<and> as_bitmap_cached_sector s' = j div 4096 \<and>
       as_bitmap_cache s' = cells d (as_bitmap_base s + j div 4096))"
proof (cases "as_bitmap_cached s \<and> as_bitmap_cached_sector s = j div 4096")
  case True
  with run inv show ?thesis by (auto simp: bitmap_load_def bitmap_inv_def)
next
  case False
  obtain r1 bs d1 where rd: "blk_read B d (as_bitmap_base s + j div 4096) 1 = (r1, bs, d1)"
    by (cases "blk_read B d (as_bitmap_base s + j div 4096) 1") auto
  have len: "length bs = 512" using disk_lawD(3) [OF law rd] by simp
  have "bs = cells d (as_bitmap_base s + j div 4096)" if "r1 = FV_BLOCK_OK"
    using disk_lawD(4) [OF law rd [unfolded that], of 0] len by simp
  with False run rd len j show ?thesis
    using disk_lawD(2) [OF law rd]
    by (auto simp: bitmap_load_def Let_def bitmap_inv_def same_config_def split: if_splits)
qed

lemma load_bits_spec:
  assumes law: "disk_law B cells" and bm: "as_bitmap_blocks s = div_ceil (as_metadata_blocks s) 4096"
  shows "bitmap_inv cells s d \<Longrightarrow> length (as_bitmap_cache s) = 512 \<Longrightarrow> \<forall>i \<in> set is. i < 16 \<Longrightarrow>
    \<forall>i \<in> set is. first + i < as_metadata_blocks s \<Longrightarrow>
    load_bits B first is (s, d) = (r, s', d') \<Longrightarrow>
    cells d' = cells d \<and> same_config s s' \<and>
    bitmap_inv cells s' d' \<and> length (as_bitmap_cache s') = 512 \<and> as_cache s' = as_cache s \<and>
    (r = FV_BLOCK_OK \<longrightarrow> as_ready s' = as_ready s \<and> (\<forall>k. initialized_bit s' k \<longleftrightarrow>
       initialized_bit s k \<or> k \<in> set is \<and> bit_on_disk cells s d (first + k)))"
  using bm
proof (induction "is" arbitrary: s d)
  case (Cons i "is")
  obtain r1 s1 d1 where ld: "bitmap_load B (first + i) (s, d) = (r1, s1, d1)"
    by (cases "bitmap_load B (first + i) (s, d)") auto
  have j: "(first + i) div 4096 < as_bitmap_blocks s"
    using Cons.prems by (simp add: div_ceil_greater)
  note sp = bitmap_load_spec [OF law Cons.prems(1,2) j ld]
  show ?case
  proof (cases "r1 = FV_BLOCK_OK")
    case False
    with sp ld Cons.prems(5) show ?thesis
      by (auto simp: store_fault_def same_config_def bitmap_inv_def)
  next
    case True
    define s2 where "s2 = (if bitmap_bit s1 (first + i)
        then s1\<lparr>as_cache_initialized := as_cache_initialized s1 OR push_bit i 1\<rparr> else s1)"
    have rest: "load_bits B first is (s2, d1) = (r, s', d')"
      using ld True Cons.prems(5) by (simp add: s2_def)
    have cfg: "same_config s s2" and inv: "bitmap_inv cells s2 d1" "length (as_bitmap_cache s2) = 512"
      and eqs: "cells d1 = cells d" "as_cache s2 = as_cache s" "as_ready s2 = as_ready s"
      using sp by (auto simp: s2_def same_config_def bitmap_inv_def)
    have bb: "bitmap_bit s1 (first + i) \<longleftrightarrow> bit_on_disk cells s d (first + i)"
      using sp True by (simp add: bitmap_bit_iff bit_on_disk_def)
    have ib: "initialized_bit s2 k \<longleftrightarrow> initialized_bit s k \<or> k = i \<and> bit_on_disk cells s d (first + i)" for k
      using sp Cons.prems(3) by (auto simp: s2_def bb initialized_bit_iff bit_or_push_bit_1)
    have "as_bitmap_blocks s2 = div_ceil (as_metadata_blocks s2) 4096" "\<forall>i \<in> set is. first + i < as_metadata_blocks s2"
      using cfg Cons.prems by (auto simp: same_config_def)
    from Cons.IH [OF inv _ this(2) rest this(1)] Cons.prems(3)
    show ?thesis
      using cfg eqs bit_on_disk_cong [OF cfg eqs(1)] by (auto simp: ib dest: same_config_trans)
  qed
qed auto

lemma run_end_le: "i \<le> n \<Longrightarrow> run_end P n i \<le> n"
  by (induction P n i rule: run_end.induct) (subst run_end.simps, auto)

lemma run_end_all: "i \<le> k \<Longrightarrow> k < run_end P n i \<Longrightarrow> P k"
proof (induction P n i rule: run_end.induct)
  case (1 P n i)
  have step: "run_end P n i = (if i < n \<and> P i then run_end P n (Suc i) else i)"
    by (subst run_end.simps) simp
  show ?case
  proof (cases "i < n \<and> P i \<and> i \<noteq> k")
    case True
    with "1" step show ?thesis by simp
  next
    case False
    with "1.prems" step show ?thesis by (auto split: if_splits)
  qed
qed

lemma load_runs_spec:
  assumes law: "disk_law B cells"
  shows "n * 512 \<le> length (as_cache s) \<Longrightarrow> i \<le> n \<Longrightarrow> load_runs B first n i s d = (r, s', d') \<Longrightarrow>
    cells d' = cells d \<and> same_config s s' \<and>
    as_bitmap_cache s' = as_bitmap_cache s \<and> length (as_cache s') = length (as_cache s) \<and>
    (bitmap_inv cells s d \<longrightarrow> bitmap_inv cells s' d') \<and>
    (r = FV_BLOCK_OK \<longrightarrow> as_ready s' = as_ready s \<and> as_cache_initialized s' = as_cache_initialized s \<and>
       (\<forall>k < n. span (as_cache s') (k * 512) 512 =
          (if i \<le> k \<and> initialized_bit s k then cells d (as_base s + first + k)
           else span (as_cache s) (k * 512) 512)))"
proof (induction "n - i" arbitrary: i s d rule: less_induct)
  case less
  note step = less.prems(3) [unfolded load_runs.simps [of B first n i s d]]
  consider (stop) "\<not> i < n" | (skip) "i < n" "\<not> initialized_bit s i" | (run) "i < n" "initialized_bit s i"
    by blast
  then show ?case
  proof cases
    case stop
    with step show ?thesis by auto
  next
    case skip
    then have eq: "load_runs B first n (Suc i) s d = (r, s', d')" using step by simp
    have "i \<le> k \<and> initialized_bit s k \<longleftrightarrow> Suc i \<le> k \<and> initialized_bit s k" for k
      using skip by (auto simp: le_eq_less_or_eq Suc_le_eq)
    with less.hyps [of "Suc i", OF _ less.prems(1) _ eq] skip show ?thesis by simp
  next
    case run
    define e where "e = run_end (initialized_bit s) n i"
    have e: "i < e" "e \<le> n" "\<And>k. i \<le> k \<Longrightarrow> k < e \<Longrightarrow> initialized_bit s k"
      using run by (auto simp: e_def run_end_greater run_end_le intro: run_end_all)
    obtain r1 bs d1 where rd: "blk_read B d (as_base s + (first + i)) (e - i) = (r1, bs, d1)"
      by (cases "blk_read B d (as_base s + (first + i)) (e - i)") auto
    define s1 where "s1 = s\<lparr>as_cache := memcpy (as_cache s) (i * 512) bs\<rparr>"
    have c1: "cells d1 = cells d" and len: "length bs = (e - i) * 512"
      using disk_lawD(2,3) [OF law rd] by blast+
    have cfg: "same_config s s1" by (simp add: s1_def same_config_def)
    have bi: "bitmap_inv cells s1 d1" if "bitmap_inv cells s d" using that c1 by (simp add: s1_def bitmap_inv_def)
    show ?thesis
    proof (cases "r1 = FV_BLOCK_OK")
      case False
      then have "r = r1 \<and> s' = store_fault s1 \<and> d' = d1"
        using step run rd by (simp add: Let_def meta_read_def e_def s1_def)
      with False c1 show ?thesis by (auto simp: store_fault_def same_config_def bitmap_inv_def s1_def)
    next
      case True
      have ini: "initialized_bit s1 = initialized_bit s" by (simp add: s1_def fun_eq_iff initialized_bit_def)
      have "i + (e - i) = e" using e by simp
      moreover have "e * 512 \<le> length (as_cache s)" using e less.prems(1) by (meson mult_le_mono1 le_trans)
      ultimately have blk: "span (as_cache s1) (k * 512) 512 =
          (if i \<le> k \<and> k < e then cells d (as_base s + first + k) else span (as_cache s) (k * 512) 512)" for k
        using span_memcpy_block [OF len, of i "as_cache s" k]
          disk_lawD(4) [OF law rd [unfolded True], of "k - i"] e
        by (auto simp: s1_def add.assoc)
      have rest: "load_runs B first n e s1 d1 = (r, s', d')"
        using step run rd True by (simp add: Let_def meta_read_def e_def s1_def)
      have ind: "cells d' = cells d1 \<and> same_config s1 s' \<and>
        as_bitmap_cache s' = as_bitmap_cache s1 \<and> length (as_cache s') = length (as_cache s1) \<and>
        (bitmap_inv cells s1 d1 \<longrightarrow> bitmap_inv cells s' d') \<and>
        (r = FV_BLOCK_OK \<longrightarrow> as_ready s' = as_ready s1 \<and> as_cache_initialized s' = as_cache_initialized s1 \<and>
         (\<forall>k < n. span (as_cache s') (k * 512) 512 =
          (if e \<le> k \<and> initialized_bit s1 k then cells d1 (as_base s1 + first + k)
           else span (as_cache s1) (k * 512) 512)))"
        by (rule less.hyps [OF _ _ e(2) rest]) (use e run less.prems(1) in \<open>auto simp: s1_def\<close>)
      have "(if e \<le> k \<and> initialized_bit s1 k then cells d1 (as_base s1 + first + k)
           else span (as_cache s1) (k * 512) 512) =
          (if i \<le> k \<and> initialized_bit s k then cells d (as_base s + first + k)
           else span (as_cache s) (k * 512) 512)" for k
        using e c1 ini blk [of k] by (auto simp: s1_def not_le)
      with ind cfg c1 bi show ?thesis by (auto simp: s1_def dest: same_config_trans)
    qed
  qed
qed

text \<open>The metadata run of a request has at most ten sectors and lies inside the metadata region.\<close>

lemma run_bounds:
  assumes "0 < cnt" "cnt \<le> 128" "lba + cnt \<le> blocks" "i < cnt"
  shows "(lba + cnt - 1) div 15 - lba div 15 + 1 \<le> 10" "lba div 15 \<le> (lba + i) div 15"
    "(lba + i) div 15 \<le> (lba + cnt - 1) div 15" "(lba + cnt - 1) div 15 < div_ceil blocks 15"
proof -
  show "(lba + cnt - 1) div 15 - lba div 15 + 1 \<le> 10" using assms by linarith
  show "lba div 15 \<le> (lba + i) div 15" by (rule div_le_mono) simp
  show "(lba + i) div 15 \<le> (lba + cnt - 1) div 15" using assms by (intro div_le_mono) simp
  show "(lba + cnt - 1) div 15 < div_ceil blocks 15" using assms by (intro div_ceil_greater) auto
qed

lemma load_fill_spec:
  assumes law: "disk_law B cells" and inv: "store_inv cells s d" and n: "n \<le> 10" "0 < n"
    and fit: "first + n \<le> as_metadata_blocks s"
    and s1: "s1 = s\<lparr>as_cache_count := 0, as_cache_initialized := 0\<rparr>"
    and run: "load_fill B first n s1 d = (r, s2, d2)"
  shows "cells d2 = cells d \<and> same_config s s2 \<and>
    geometry_inv s2 \<and> bitmap_inv cells s2 d2 \<and>
    (r = FV_BLOCK_OK \<longrightarrow> as_ready s2 = as_ready s \<and>
       store_inv cells (s2\<lparr>as_cache_first := first, as_cache_count := n\<rparr>) d2)"
proof (cases "as_bitmap_blocks s = 0")
  case True
  obtain r1 bs d1 where rd: "blk_read B d (as_base s + first) n = (r1, bs, d1)"
    by (cases "blk_read B d (as_base s + first) n") auto
  have c1: "cells d1 = cells d" and len: "length bs = n * 512"
    using disk_lawD(2,3) [OF law rd] by blast+
  have lc: "length (as_cache s) = 5120" using inv by (simp add: store_inv_def geometry_inv_def)
  have blk: "span (memcpy (as_cache s) 0 bs) (k * 512) 512 = cells d (as_base s + first + k)"
    if "r1 = FV_BLOCK_OK" "k < n" for k
    using span_memcpy_block [OF len, of 0 "as_cache s" k] disk_lawD(4) [OF law rd [unfolded that(1)] that(2)]
      that n lc by simp
  have out: "d2 = d1" "r = r1" "s2 = (if r1 = FV_BLOCK_OK then s1\<lparr>as_cache := memcpy (as_cache s) 0 bs\<rparr>
      else store_fault (s1\<lparr>as_cache := memcpy (as_cache s) 0 bs\<rparr>))"
    using run rd True by (auto simp: load_fill_def s1 meta_read_def Let_def split: if_splits)
  show ?thesis
    using inv True blk n fit c1
    by (auto simp: out s1 store_fault_def store_inv_def geometry_inv_def bitmap_inv_def cache_inv_def
        same_config_def meta_view_def add.assoc)
next
  case False
  have bm: "as_bitmap_blocks s1 = div_ceil (as_metadata_blocks s1) 4096"
    and pre: "bitmap_inv cells s1 d" "length (as_bitmap_cache s1) = 512"
    using inv False by (auto simp: s1 store_inv_def geometry_inv_def bitmap_inv_def)
  obtain r3 s3 d3 where lb: "load_bits B first [0..<n] (s1, d) = (r3, s3, d3)"
    by (cases "load_bits B first [0..<n] (s1, d)") auto
  have cfg1: "same_config s s1" by (simp add: s1 same_config_def)
  have "cells d3 = cells d \<and> same_config s1 s3 \<and>
    bitmap_inv cells s3 d3 \<and> length (as_bitmap_cache s3) = 512 \<and> as_cache s3 = as_cache s1 \<and>
    (r3 = FV_BLOCK_OK \<longrightarrow> as_ready s3 = as_ready s1 \<and> (\<forall>k. initialized_bit s3 k \<longleftrightarrow>
       initialized_bit s1 k \<or> k \<in> set [0..<n] \<and> bit_on_disk cells s1 d (first + k)))"
    by (rule load_bits_spec [OF law bm pre _ _ lb]) (use n fit in \<open>auto simp: s1\<close>)
  moreover have "\<not> initialized_bit s1 k" for k by (simp add: s1 initialized_bit_def)
  ultimately have b: "cells d3 = cells d" "same_config s1 s3"
      "bitmap_inv cells s3 d3" "length (as_bitmap_cache s3) = 512" "as_cache s3 = as_cache s"
      "r3 = FV_BLOCK_OK \<Longrightarrow> as_ready s3 = as_ready s"
      "r3 = FV_BLOCK_OK \<Longrightarrow> initialized_bit s3 k \<longleftrightarrow> k < n \<and> bit_on_disk cells s d (first + k)" for k
    using bit_on_disk_cong [OF cfg1, of cells d d] by (auto simp: s1)
  have geo: "geometry_inv s" using inv by (simp add: store_inv_def)
  show ?thesis
  proof (cases "r3 = FV_BLOCK_OK")
    case False
    then have "r = r3 \<and> s2 = s3 \<and> d2 = d3" using run lb \<open>as_bitmap_blocks s \<noteq> 0\<close> by (simp add: load_fill_def s1)
    with b False geo cfg1 show ?thesis by (auto simp: geometry_inv_def same_config_def)
  next
    case True
    define s4 where "s4 = s3\<lparr>as_cache := memset (as_cache s3) 0 0 (n * 512)\<rparr>"
    have lr: "load_runs B first n 0 s4 d3 = (r, s2, d2)"
      using run lb True \<open>as_bitmap_blocks s \<noteq> 0\<close> by (simp add: load_fill_def s1 s4_def)
    have l4: "length (as_cache s4) = 5120" using geo b by (simp add: s4_def geometry_inv_def)
    have "n * 512 \<le> length (as_cache s4)" using n l4 by simp
    note lrs = load_runs_spec [OF law this _ lr, simplified]
    have cfg4: "same_config s s4" using b(2) cfg1 by (auto simp: s4_def same_config_def)
    have cfg2: "same_config s s2" using same_config_trans [OF cfg4] lrs by blast
    have cc: "cells d2 = cells d" using lrs b by simp_all
    have bi4: "bitmap_inv cells s4 d3" using b(3) by (simp add: s4_def bitmap_inv_def)
    have zero: "span (as_cache s4) (k * 512) 512 = zeros 512" if "k < n" for k
    proof -
      have "k * 512 + 512 \<le> n * 512" using that by auto
      then show ?thesis using n geo b(5)
        by (auto simp: s4_def memset_def geometry_inv_def zeros_def nth_span nth_memcpy intro!: nth_equalityI)
    qed
    have ini: "initialized_bit s4 k \<longleftrightarrow> k < n \<and> bit_on_disk cells s d (first + k)" for k
      using b(7) [OF True] by (simp add: s4_def initialized_bit_def)
    have view: "span (as_cache s2) (k * 512) 512 = meta_view cells s d (first + k)"
      if "r = FV_BLOCK_OK" "k < n" for k
      using lrs that zero ini b(1) cfg4 \<open>as_bitmap_blocks s \<noteq> 0\<close>
      by (auto simp: meta_view_def same_config_def add.assoc)
    have ini2: "initialized_bit s2 k \<longleftrightarrow> k < n \<and> bit_on_disk cells s d (first + k)" if "r = FV_BLOCK_OK" for k
      using lrs that ini by (simp add: initialized_bit_def)
    have geo2: "geometry_inv s2"
      using geo cfg2 cc lrs l4 b(4) by (auto simp: geometry_inv_def same_config_def s4_def)
    have "cache_inv cells (s2\<lparr>as_cache_first := first, as_cache_count := n\<rparr>) d2" if "r = FV_BLOCK_OK"
    proof -
      have c: "same_config s (s2\<lparr>as_cache_first := first, as_cache_count := n\<rparr>)"
        using cfg2 by (simp add: same_config_def)
      show ?thesis
        unfolding cache_inv_def meta_view_cong [of s _ cells d2 d, OF c cc(1)]
          bit_on_disk_cong [of s _ cells d2 d, OF c cc(1)]
        using n fit cfg2 view [OF that] ini2 [OF that] by (simp add: same_config_def initialized_bit_def)
    qed
    moreover have "bitmap_inv cells s2 d2" using lrs bi4 by blast
    ultimately show ?thesis using cc cfg2 geo2 lrs b(6) [OF True]
      by (auto simp: store_inv_def geometry_inv_def bitmap_inv_def s4_def)
  qed
qed

lemma load_spec:
  assumes law: "disk_law B cells" and inv: "store_inv cells s d"
    and req: "0 < cnt" "cnt \<le> 128" "lba + cnt \<le> as_blocks s"
    and run: "load B lba cnt (s, d) = (r, s', d')"
  shows "cells d' = cells d \<and> same_config s s' \<and>
    geometry_inv s' \<and> bitmap_inv cells s' d' \<and>
    (r = FV_BLOCK_OK \<longrightarrow> store_inv cells s' d' \<and> as_ready s' = as_ready s \<and> as_cache_count s' \<noteq> 0 \<and>
       as_cache_first s' \<le> lba div 15 \<and> (lba + cnt - 1) div 15 < as_cache_first s' + as_cache_count s')"
proof (cases "as_cache_count s \<noteq> 0 \<and> lba div 15 \<ge> as_cache_first s \<and>
    (lba + cnt - 1) div 15 < as_cache_first s + as_cache_count s")
  case True
  with run inv show ?thesis by (auto simp: load_def Let_def store_inv_def)
next
  case False
  define first where "first = lba div 15"
  define n where "n = (lba + cnt - 1) div 15 - first + 1"
  define s1 where "s1 = s\<lparr>as_cache_count := 0, as_cache_initialized := 0\<rparr>"
  obtain r2 s2 d2 where cold: "load_fill B first n s1 d = (r2, s2, d2)"
    by (cases "load_fill B first n s1 d") auto
  have "as_metadata_blocks s = div_ceil (as_blocks s) 15" using inv by (simp add: store_inv_def geometry_inv_def)
  then have n: "n \<le> 10" "0 < n" "first + n \<le> as_metadata_blocks s"
    using run_bounds [OF req, of 0] req(1) by (auto simp: n_def first_def)
  have "load B lba cnt (s, d) = (case load_fill B first n s1 d of (r, s, d) \<Rightarrow>
      if r \<noteq> FV_BLOCK_OK then (r, s, d)
      else (FV_BLOCK_OK, s\<lparr>as_cache_first := first, as_cache_count := n\<rparr>, d))"
    using False unfolding load_def Let_def prod.case first_def n_def s1_def by (rule if_not_P)
  then have "(r, s', d') = (if r2 \<noteq> FV_BLOCK_OK then (r2, s2, d2)
      else (FV_BLOCK_OK, s2\<lparr>as_cache_first := first, as_cache_count := n\<rparr>, d2))"
    using run by (simp only: cold prod.case)
  moreover have "(lba + cnt - 1) div 15 < first + n" by (simp add: n_def)
  ultimately show ?thesis
    using load_fill_spec [OF law inv n s1_def cold] n(2)
    by (auto simp: first_def same_config_def geometry_inv_def bitmap_inv_def split: if_splits)
qed

end
