(* ===== verification/Auth_Store_Read.thy ===== *)
theory Auth_Store_Read
  imports Auth_Store_Cache
begin

text \<open>
  What a sector of the authenticated store is, as a function of the card's content alone, and the
  proof that a batch read returns exactly that: authenticated ciphertext, or an unset sector.
\<close>

datatype sector = Sector_Unset | Sector_Data "u8 list" | Sector_Corrupt

definition sector_state :: "('d \<Rightarrow> nat \<Rightarrow> u8 list) \<Rightarrow> fv_auth_store \<Rightarrow> 'd \<Rightarrow> nat \<Rightarrow> u8" where
  "sector_state cells s d x = meta_view cells s d (x div 15) ! (x mod 15)"

definition sector_tag :: "('d \<Rightarrow> nat \<Rightarrow> u8 list) \<Rightarrow> fv_auth_store \<Rightarrow> 'd \<Rightarrow> nat \<Rightarrow> u8 list" where
  "sector_tag cells s d x = span (meta_view cells s d (x div 15)) (32 + x mod 15 * 32) 32"

definition sector_lookup ::
    "sha_lib \<Rightarrow> ('d \<Rightarrow> nat \<Rightarrow> u8 list) \<Rightarrow> fv_auth_store \<Rightarrow> 'd \<Rightarrow> nat \<Rightarrow> sector" where
  "sector_lookup SL cells s d x =
     (let data = cells d (as_data_base s + x) in
      if sector_state cells s d x = 0 then Sector_Unset
      else if sector_state cells s d x \<noteq> 1 then Sector_Corrupt
      else case store_tag SL s x data of None \<Rightarrow> Sector_Corrupt
        | Some t \<Rightarrow> if fv_tag_equal t (sector_tag cells s d x) then Sector_Data data else Sector_Corrupt)"

lemma store_tag_cong: "same_config s s' \<Longrightarrow> store_tag SL s' = store_tag SL s"
  by (simp add: fun_eq_iff store_tag_def same_config_def)

lemma sector_lookup_cong:
  "same_config s s' \<Longrightarrow> cells d' = cells d \<Longrightarrow> sector_lookup SL cells s' d' = sector_lookup SL cells s d"
proof (rule ext)
  fix x
  assume c: "same_config s s'" "cells d' = cells d"
  then have "as_data_base s' = as_data_base s" by (simp add: same_config_def)
  with meta_view_cong [OF c] store_tag_cong [OF c(1), of SL] c(2)
  show "sector_lookup SL cells s' d' x = sector_lookup SL cells s d x"
    by (simp add: sector_lookup_def sector_state_def sector_tag_def Let_def cong: option.case_cong)
qed

section \<open>Entries in the cache\<close>

definition cached :: "fv_auth_store \<Rightarrow> nat \<Rightarrow> bool" where
  "cached s x \<longleftrightarrow> as_cache_first s \<le> x div 15 \<and> x div 15 < as_cache_first s + as_cache_count s"

lemma cached_entry:
  assumes "store_inv cells s d" "cached s x"
  shows "as_cache s ! (store_entry s x + x mod 15) = sector_state cells s d x"
    and "span (as_cache s) (store_entry s x + 32 + x mod 15 * 32) 32 = sector_tag cells s d x"
    and "store_entry s x + 512 \<le> 5120"
proof -
  define q where "q = x div 15 - as_cache_first s"
  have q: "q < as_cache_count s" "as_cache_first s + q = x div 15"
    using assms(2) by (auto simp: q_def cached_def)
  have v: "span (as_cache s) (q * 512) 512 = meta_view cells s d (x div 15)"
    using assms(1) q by (metis store_inv_def cache_inv_def)
  have b: "q * 512 + 512 \<le> 5120" "length (as_cache s) = 5120"
    using assms(1) q by (auto simp: store_inv_def cache_inv_def geometry_inv_def)
  then show "store_entry s x + 512 \<le> 5120" by (simp add: store_entry_def q_def)
  have m: "x mod 15 < 15" by simp
  show "as_cache s ! (store_entry s x + x mod 15) = sector_state cells s d x"
    using b m by (simp add: sector_state_def store_entry_def nth_span flip: v q_def)
  have "32 + x mod 15 * 32 + 32 \<le> 512" using m by linarith
  then show "span (as_cache s) (store_entry s x + 32 + x mod 15 * 32) 32 = sector_tag cells s d x"
    by (simp add: sector_tag_def store_entry_def span_span add.assoc flip: v q_def)
qed

lemma load_cached:
  assumes "as_cache_first s \<le> lba div 15" "(lba + cnt - 1) div 15 < as_cache_first s + as_cache_count s" "i < cnt"
  shows "cached s (lba + i)"
proof -
  have "lba div 15 \<le> (lba + i) div 15" by (rule div_le_mono) simp
  moreover have "(lba + i) div 15 \<le> (lba + cnt - 1) div 15" using assms(3) by (intro div_le_mono) simp
  ultimately show ?thesis using assms by (simp add: cached_def)
qed

section \<open>The loops of a read\<close>

lemma sector_unset_iff: "fv_auth_sector_unset u i \<longleftrightarrow> bit (u ! (i div 64)) (i mod 64)"
  by (simp add: fv_auth_sector_unset_def and_one_eq odd_iff_mod_2_eq_one bit_iff_odd_drop_bit)

lemma sector_unset_update:
  assumes "length u = 2" "i < 128" "j < 128"
  shows "fv_auth_sector_unset (u[i div 64 := u ! (i div 64) OR 2 ^ (i mod 64)]) j \<longleftrightarrow>
    fv_auth_sector_unset u j \<or> j = i"
proof -
  have "i div 64 < 2" using assms by simp
  moreover have "i div 64 = j div 64 \<Longrightarrow> i mod 64 = j mod 64 \<Longrightarrow> i = j" by (metis div_mod_decomp)
  ultimately show ?thesis using assms
    by (auto simp: sector_unset_iff nth_list_update bit_or_push_bit_1)
qed

lemma read_states_spec:
  "read_states lba s is u = (r, u') \<Longrightarrow> length u = 2 \<Longrightarrow> \<forall>i \<in> set is. i < 128 \<Longrightarrow> r = FV_BLOCK_OK \<Longrightarrow>
   length u' = 2 \<and>
   (\<forall>i \<in> set is. as_cache s ! (store_entry s (lba + i) + (lba + i) mod 15) \<in> {0, 1}) \<and>
   (\<forall>j < 128. fv_auth_sector_unset u' j \<longleftrightarrow> fv_auth_sector_unset u j \<or>
      j \<in> set is \<and> as_cache s ! (store_entry s (lba + j) + (lba + j) mod 15) = 0)"
proof (induction lba s "is" u rule: read_states.induct)
  case (2 lba s i "is" u)
  then show ?case
    by (auto simp: Let_def sector_unset_update split: if_splits)
qed auto

lemma read_runs_spec:
  assumes law: "disk_law B cells"
  shows "length data = cnt * 512 \<Longrightarrow> i \<le> cnt \<Longrightarrow> read_runs B s u lba cnt i data d = (r, out, d') \<Longrightarrow>
    cells d' = cells d \<and> length out = cnt * 512 \<and>
    (r = FV_BLOCK_OK \<longrightarrow> (\<forall>k < cnt. span out (k * 512) 512 =
       (if k < i then span data (k * 512) 512
        else if fv_auth_sector_unset u k then zeros 512 else cells d (as_data_base s + (lba + k)))))"
proof (induction "cnt - i" arbitrary: i data d rule: less_induct)
  case less
  note step = less.prems(3) [unfolded read_runs.simps [of B s u lba cnt i data d]]
  consider (stop) "\<not> i < cnt" | (skip) "i < cnt" "fv_auth_sector_unset u i" | (run) "i < cnt" "\<not> fv_auth_sector_unset u i"
    by blast
  then show ?case
  proof cases
    case stop
    with step less.prems show ?thesis by auto
  next
    case skip
    define m where "m = memset data (i * 512) 0 512"
    have eq: "read_runs B s u lba cnt (Suc i) m d = (r, out, d')" using step skip by (simp add: m_def)
    have blk: "span m (k * 512) 512 = (if k = i then zeros 512 else span data (k * 512) 512)" if "k < cnt" for k
    proof -
      have "(i + 1) * 512 \<le> length data" using skip less.prems(1) by simp
      from span_memcpy_block [of "zeros 512" 1 i data k, OF _ this] show ?thesis
        by (auto simp: m_def memset_def zeros_def [symmetric])
    qed
    have "length m = cnt * 512" using less.prems(1) by (simp add: m_def)
    from less.hyps [of "Suc i", OF _ this _ eq] skip blk show ?thesis by (auto simp: less_Suc_eq)
  next
    case run
    define e where "e = run_end (\<lambda>j. \<not> fv_auth_sector_unset u j) cnt (Suc i)"
    have e: "i < e" "e \<le> cnt" using run run_end_ge [of "Suc i"] run_end_le [of "Suc i" cnt] by (auto simp: e_def Suc_le_eq)
    have e3: "\<not> fv_auth_sector_unset u k" if "i \<le> k" "k < e" for k
      using run that run_end_all [of "Suc i" k "\<lambda>j. \<not> fv_auth_sector_unset u j" cnt]
      by (cases "k = i") (auto simp: e_def)
    obtain r1 bs d1 where rd: "blk_read B d (as_data_base s + lba + i) (e - i) = (r1, bs, d1)"
      by (cases "blk_read B d (as_data_base s + lba + i) (e - i)") auto
    define m where "m = memcpy data (i * 512) bs"
    have c1: "cells d1 = cells d" and len: "length bs = (e - i) * 512"
      using disk_lawD(2,3) [OF law rd] by blast+
    have lm: "length m = cnt * 512" using less.prems(1) by (simp add: m_def)
    show ?thesis
    proof (cases "r1 = FV_BLOCK_OK")
      case False
      then have "r = r1 \<and> out = m \<and> d' = d1" using step run rd by (simp add: Let_def e_def m_def)
      with False c1 lm show ?thesis by simp
    next
      case True
      have rest: "read_runs B s u lba cnt e m d1 = (r, out, d')"
        using step run rd True by (simp add: Let_def e_def m_def)
      have "i + (e - i) = e" "e * 512 \<le> length data" using e less.prems(1) by auto
      then have blk: "span m (k * 512) 512 = (if i \<le> k \<and> k < e then cells d (as_data_base s + (lba + k))
          else span data (k * 512) 512)" for k
        using span_memcpy_block [OF len, of i data k] disk_lawD(4) [OF law rd [unfolded True], of "k - i"] e
        by (auto simp: m_def add.assoc)
      have ind: "cells d' = cells d1 \<and> length out = cnt * 512 \<and>
        (r = FV_BLOCK_OK \<longrightarrow> (\<forall>k < cnt. span out (k * 512) 512 =
         (if k < e then span m (k * 512) 512
          else if fv_auth_sector_unset u k then zeros 512 else cells d1 (as_data_base s + (lba + k)))))"
        by (rule less.hyps [OF _ lm e(2) rest]) (use e run in auto)
      have "(if k < e then span m (k * 512) 512
          else if fv_auth_sector_unset u k then zeros 512 else cells d1 (as_data_base s + (lba + k))) =
        (if k < i then span data (k * 512) 512
        else if fv_auth_sector_unset u k then zeros 512 else cells d (as_data_base s + (lba + k)))" for k
        using e e3 blk [of k] c1 by auto
      with ind c1 show ?thesis by simp
    qed
  qed
qed

lemma read_verify_spec:
  "read_verify SL s u lba data is = FV_BLOCK_OK \<Longrightarrow> i \<in> set is \<Longrightarrow> \<not> fv_auth_sector_unset u i \<Longrightarrow>
   \<exists>t. store_tag SL s (lba + i) (span data (i * 512) 512) = Some t \<and>
     fv_tag_equal t (span (as_cache s) (store_entry s (lba + i) + 32 + (lba + i) mod 15 * 32) 32)"
  by (induction SL s u lba data "is" rule: read_verify.induct) (auto simp: Let_def split: if_splits option.splits)

section \<open>Reads return the authenticated content\<close>

lemma validate_ok:
  "store_validate s lba cnt p = FV_BLOCK_OK \<Longrightarrow> 0 < cnt \<and> cnt \<le> 128 \<and> lba + cnt \<le> as_blocks s \<and> as_ready s"
  by (auto simp: store_validate_def FV_AUTH_MAX_BATCH_SECTORS_def split: if_splits)

lemma read_fail_not_ok: "read_fail r cnt data s d = (FV_BLOCK_OK, x) \<Longrightarrow> r = FV_BLOCK_OK"
  by (auto simp: read_fail_def Let_def)

lemma read_batch_ok_iff:
  "fv_auth_read_batch SL B lba cnt (p, data) (s, d) = (FV_BLOCK_OK, out, u, s', d') \<longleftrightarrow>
   store_validate s lba cnt p = FV_BLOCK_OK \<and>
   (\<exists>d1. load B lba cnt (s, d) = (FV_BLOCK_OK, s', d1) \<and>
      read_states lba s' [0..<cnt] no_unset = (FV_BLOCK_OK, u) \<and>
      read_runs B s' u lba cnt 0 data d1 = (FV_BLOCK_OK, out, d') \<and>
      read_verify SL s' u lba out [0..<cnt] = FV_BLOCK_OK)"
  by (auto simp: fv_auth_read_batch_def Let_def dest: read_fail_not_ok split: prod.splits if_splits)

lemma not_no_unset: "i < 128 \<Longrightarrow> \<not> fv_auth_sector_unset no_unset i"
proof -
  assume "i < 128"
  then have "i div 64 < 2" by simp
  then show ?thesis by (auto simp: sector_unset_iff no_unset_def less_Suc_eq numeral_2_eq_2)
qed

lemma read_batch_sound:
  assumes law: "disk_law B cells" and inv: "store_inv cells s d" and len: "length data = cnt * 512"
    and run: "fv_auth_read_batch SL B lba cnt (p, data) (s, d) = (FV_BLOCK_OK, out, u, s', d')"
  shows "store_inv cells s' d' \<and> same_config s s' \<and> cells d' = cells d \<and> length out = cnt * 512 \<and>
    (\<forall>i < cnt. case sector_lookup SL cells s d (lba + i) of
        Sector_Unset \<Rightarrow> fv_auth_sector_unset u i \<and> span out (i * 512) 512 = zeros 512
      | Sector_Data x \<Rightarrow> \<not> fv_auth_sector_unset u i \<and> span out (i * 512) 512 = x
      | Sector_Corrupt \<Rightarrow> False)"
proof -
  obtain d1 where v: "store_validate s lba cnt p = FV_BLOCK_OK"
    and ld: "load B lba cnt (s, d) = (FV_BLOCK_OK, s', d1)"
    and st: "read_states lba s' [0..<cnt] no_unset = (FV_BLOCK_OK, u)"
    and rn: "read_runs B s' u lba cnt 0 data d1 = (FV_BLOCK_OK, out, d')"
    and vf: "read_verify SL s' u lba out [0..<cnt] = FV_BLOCK_OK"
    using run by (auto simp: read_batch_ok_iff)
  note req = validate_ok [OF v]
  have l: "cells d1 = cells d" "same_config s s'" "store_inv cells s' d1"
      "as_cache_first s' \<le> lba div 15" "(lba + cnt - 1) div 15 < as_cache_first s' + as_cache_count s'"
    using load_spec [OF law inv _ _ _ ld] req by auto
  have lu: "length no_unset = 2" "\<forall>i \<in> set [0..<cnt]. i < 128" using req by (auto simp: no_unset_def)
  note states = read_states_spec [OF st lu refl]
  note runs = read_runs_spec [OF law len _ rn]
  have inv': "store_inv cells s' d'"
    using l(3) runs by (intro store_inv_cong [OF l(3)]) auto
  have "case sector_lookup SL cells s d (lba + i) of
        Sector_Unset \<Rightarrow> fv_auth_sector_unset u i \<and> span out (i * 512) 512 = zeros 512
      | Sector_Data x \<Rightarrow> \<not> fv_auth_sector_unset u i \<and> span out (i * 512) 512 = x
      | Sector_Corrupt \<Rightarrow> False" if i: "i < cnt" for i
  proof -
    note c = cached_entry [OF l(3) load_cached [OF l(4,5) i]]
    have in01: "sector_state cells s' d1 (lba + i) \<in> {0, 1}"
      and u: "fv_auth_sector_unset u i \<longleftrightarrow> sector_state cells s' d1 (lba + i) = 0"
      unfolding c(1) [symmetric] using states i req not_no_unset [of i] by auto
    have o: "span out (i * 512) 512 =
        (if fv_auth_sector_unset u i then zeros 512 else cells d1 (as_data_base s' + (lba + i)))"
      using runs i by simp
    have lk: "sector_lookup SL cells s d (lba + i) = sector_lookup SL cells s' d1 (lba + i)"
      using sector_lookup_cong [OF l(2), of cells d1 d SL] l(1) by simp
    show ?thesis
    proof (cases "fv_auth_sector_unset u i")
      case True
      with u o show ?thesis unfolding lk by (simp add: sector_lookup_def)
    next
      case False
      then obtain t where t: "store_tag SL s' (lba + i) (cells d1 (as_data_base s' + (lba + i))) = Some t"
          "fv_tag_equal t (sector_tag cells s' d1 (lba + i))"
        using read_verify_spec [OF vf, of i] i o by (auto simp: c(2))
      with False u o in01 show ?thesis unfolding lk by (simp add: sector_lookup_def Let_def)
    qed
  qed
  with inv' l runs show ?thesis by simp
qed

end
