(* ===== verification/Auth_Store_Write.thy ===== *)
theory Auth_Store_Write
  imports Auth_Store_Read
begin

text \<open>
  Batch writes of the authenticated store: the tag loop changes exactly the entries of the
  written sectors, \<open>publish\<close> marks exactly the written metadata sectors in the bitmap, and a
  successful write makes the written sectors read back while every other sector keeps its value.
\<close>

section \<open>The tag loop\<close>

text \<open>The cache bytes of the entry of a block.\<close>

definition slot :: "fv_auth_store \<Rightarrow> nat \<Rightarrow> nat \<Rightarrow> bool" where
  "slot s x pos \<longleftrightarrow> pos = store_entry s x + x mod 15 \<or>
     store_entry s x + 32 + x mod 15 * 32 \<le> pos \<and> pos < store_entry s x + 32 + x mod 15 * 32 + 32"

lemma slot_range: "slot s x pos \<Longrightarrow> store_entry s x \<le> pos \<and> pos < store_entry s x + 512"
proof -
  have "x mod 15 < 15" by simp
  then show "slot s x pos \<Longrightarrow> ?thesis" by (auto simp: slot_def)
qed

lemma slot_disjoint:
  assumes "x \<noteq> y" "as_cache_first s \<le> x div 15" "as_cache_first s \<le> y div 15" "slot s x pos"
  shows "\<not> slot s y pos"
proof
  assume y: "slot s y pos"
  have "x div 15 - as_cache_first s = y div 15 - as_cache_first s"
    using slot_range [OF assms(4)] slot_range [OF y] by (simp add: store_entry_def)
  then have d: "x div 15 = y div 15" using assms by simp
  then have e: "store_entry s x = store_entry s y" by (simp add: store_entry_def)
  have "x mod 15 \<noteq> y mod 15" using d assms(1) by (metis div_mod_decomp)
  moreover have "x mod 15 < 15" "y mod 15 < 15" by simp_all
  ultimately show False using assms(4) y e by (auto simp: slot_def)
qed

lemma store_cache_self: "s = s\<lparr>as_cache := as_cache s\<rparr>"
  by simp

lemma store_tag_cache [simp]: "store_tag SL (s\<lparr>as_cache := c\<rparr>) = store_tag SL s"
  by (simp add: fun_eq_iff store_tag_def)

lemma store_entry_cache [simp]: "store_entry (s\<lparr>as_cache := c\<rparr>) = store_entry s"
  by (simp add: fun_eq_iff store_entry_def)

lemma slot_cache [simp]: "slot (s\<lparr>as_cache := c\<rparr>) = slot s"
  by (simp add: fun_eq_iff slot_def)

lemma length_store_tag: "digest_law SL \<Longrightarrow> store_tag SL s x data = Some t \<Longrightarrow> length t = 32"
  by (auto simp: store_tag_def Let_def dest: length_hmac)

lemma write_tags_spec:
  assumes dl: "digest_law SL"
  shows "write_tags SL lba data is (s\<lparr>as_cache := c0\<rparr>) = (ok, s') \<Longrightarrow> distinct is \<Longrightarrow>
    \<forall>i \<in> set is. as_cache_first s \<le> (lba + i) div 15 \<and> store_entry s (lba + i) + 512 \<le> length c0 \<Longrightarrow>
    \<exists>c. s' = s\<lparr>as_cache := c\<rparr> \<and> length c = length c0 \<and>
      (\<forall>pos < length c. (\<forall>i \<in> set is. \<not> slot s (lba + i) pos) \<longrightarrow> c ! pos = c0 ! pos) \<and>
      (ok \<longrightarrow> (\<forall>i \<in> set is. c ! (store_entry s (lba + i) + (lba + i) mod 15) = 1 \<and>
         store_tag SL s (lba + i) (span data (i * 512) 512) =
           Some (span c (store_entry s (lba + i) + 32 + (lba + i) mod 15 * 32) 32)))"
proof (induction "is" arbitrary: c0)
  case Nil
  then show ?case by auto
next
  case (Cons i "is")
  define e where "e = store_entry s (lba + i)"
  define n where "n = (lba + i) mod 15"
  have n: "n < 15" by (simp add: n_def)
  show ?case
  proof (cases "store_tag SL s (lba + i) (span data (i * 512) 512)")
    case None
    with Cons.prems(1) have "ok = False \<and> s' = s\<lparr>as_cache := c0\<rparr>" by simp
    then show ?thesis by (intro exI [of _ c0]) simp
  next
    case (Some t)
    have lt: "length t = 32" using length_store_tag [OF dl Some] .
    define c1 where "c1 = (memcpy c0 (e + 32 + n * 32) t)[e + n := 1]"
    have run: "write_tags SL lba data is (s\<lparr>as_cache := c1\<rparr>) = (ok, s')"
      using Cons.prems(1) Some by (simp add: Let_def c1_def e_def n_def)
    have fit: "e + 512 \<le> length c0" using Cons.prems(3) by (auto simp: e_def)
    have lc: "length c1 = length c0" by (simp add: c1_def)
    have pre: "distinct is" "\<forall>j \<in> set is. as_cache_first s \<le> (lba + j) div 15 \<and> store_entry s (lba + j) + 512 \<le> length c1"
      using Cons.prems(2,3) lc by auto
    obtain c where c: "s' = s\<lparr>as_cache := c\<rparr>" "length c = length c1"
      and keep: "\<And>pos. pos < length c \<Longrightarrow> \<forall>j \<in> set is. \<not> slot s (lba + j) pos \<Longrightarrow> c ! pos = c1 ! pos"
      and fin: "ok \<longrightarrow> (\<forall>j \<in> set is. c ! (store_entry s (lba + j) + (lba + j) mod 15) = 1 \<and>
         store_tag SL s (lba + j) (span data (j * 512) 512) =
           Some (span c (store_entry s (lba + j) + 32 + (lba + j) mod 15 * 32) 32))"
      using Cons.IH [OF run pre] by blast
    have out: "c1 ! pos = c0 ! pos" if "\<not> slot s (lba + i) pos" "pos < length c1" for pos
      using that lt n by (auto simp: c1_def nth_list_update nth_memcpy slot_def e_def n_def)
    have mine: "\<forall>j \<in> set is. \<not> slot s (lba + j) pos" if "slot s (lba + i) pos" for pos
    proof
      fix j assume j: "j \<in> set is"
      then have "lba + i \<noteq> lba + j" using Cons.prems(2) by auto
      then show "\<not> slot s (lba + j) pos"
        using slot_disjoint [of "lba + i" "lba + j" s pos] that Cons.prems(3) j by simp
    qed
    have st: "c ! (e + n) = 1"
    proof -
      have "slot s (lba + i) (e + n)" by (simp add: slot_def e_def n_def)
      then have "c ! (e + n) = c1 ! (e + n)" using mine fit n c(2) lc by (intro keep) auto
      then show ?thesis using fit n by (simp add: c1_def)
    qed
    have tg: "span c (e + 32 + n * 32) 32 = t"
    proof (rule nth_equalityI)
      show "length (span c (e + 32 + n * 32) 32) = length t" using fit n c(2) lc lt by simp
      fix k assume k: "k < length (span c (e + 32 + n * 32) 32)"
      then have k32: "k < 32" by simp
      define pos where "pos = e + 32 + n * 32 + k"
      have sl: "slot s (lba + i) pos" using k32 by (simp add: slot_def e_def n_def pos_def)
      have pl: "pos < length c" "pos \<noteq> e + n" using k32 n fit c(2) lc by (auto simp: pos_def)
      have "c ! pos = c1 ! pos" using mine [OF sl] pl by (intro keep) auto
      also have "\<dots> = t ! k" using pl k32 lt c(2) lc by (simp add: c1_def nth_memcpy pos_def)
      finally show "span c (e + 32 + n * 32) 32 ! k = t ! k" using k32 pl by (simp add: nth_span pos_def)
    qed
    have far: "\<forall>pos < length c. (\<forall>j \<in> set (i # is). \<not> slot s (lba + j) pos) \<longrightarrow> c ! pos = c0 ! pos"
      using c(2) keep out by simp
    show ?thesis
      using c lc far st tg Some fin by (intro exI [of _ c]) (simp add: e_def n_def)
  qed
qed

section \<open>Publishing\<close>

definition bitmap_at :: "u8 list \<Rightarrow> nat \<Rightarrow> bool" where
  "bitmap_at c b \<longleftrightarrow> bit (c ! (b div 8)) (b mod 8)"

lemma bit_on_disk_at:
  "bit_on_disk cells s d x \<longleftrightarrow> bitmap_at (cells d (as_bitmap_base s + x div 4096)) (x mod 4096)"
  by (simp add: bit_on_disk_def bitmap_at_def)

lemma bitmap_at_update:
  assumes "length c = 512" "b < 4096" "b' < 4096"
  shows "bitmap_at (c[b div 8 := c ! (b div 8) OR 2 ^ (b mod 8)]) b' \<longleftrightarrow> bitmap_at c b' \<or> b' = b"
proof -
  have "b div 8 < 512" using assms by simp
  moreover have "b div 8 = b' div 8 \<Longrightarrow> b mod 8 = b' mod 8 \<Longrightarrow> b = b'" by (metis div_mod_decomp)
  ultimately show ?thesis using assms by (auto simp: bitmap_at_def nth_list_update bit_or_push_bit_1)
qed

lemma initialized_bit_cache [simp]: "initialized_bit (s\<lparr>as_cache := c\<rparr>) = initialized_bit s"
  by (simp add: fun_eq_iff initialized_bit_def)

lemma initialized_bit_bitmap [simp]: "initialized_bit (s\<lparr>as_bitmap_cache := c\<rparr>) = initialized_bit s"
  by (simp add: fun_eq_iff initialized_bit_def)

lemma publish_marks_spec:
  "publish_marks first offset cnt page (s\<lparr>as_bitmap_cache := c0\<rparr>, i, ch) = (s', i', ch') \<Longrightarrow> length c0 = 512 \<Longrightarrow>
   i < cnt \<Longrightarrow> (first + i) div 4096 = page \<Longrightarrow>
   \<exists>c. s' = s\<lparr>as_bitmap_cache := c\<rparr> \<and> length c = 512 \<and> i < i' \<and> i' \<le> cnt \<and>
     (\<forall>j. i \<le> j \<and> j < i' \<longrightarrow> (first + j) div 4096 = page) \<and>
     (\<forall>b < 4096. bitmap_at c b \<longleftrightarrow> bitmap_at c0 b \<or>
        (\<exists>j. i \<le> j \<and> j < i' \<and> \<not> initialized_bit s (offset + j) \<and> b = (first + j) mod 4096)) \<and>
     (ch' \<longleftrightarrow> ch \<or> (\<exists>j. i \<le> j \<and> j < i' \<and> \<not> initialized_bit s (offset + j))) \<and>
     (\<not> ch' \<longrightarrow> c = c0)"
proof (induction "cnt - i" arbitrary: c0 i ch rule: less_induct)
  case less
  define b where "b = (first + i) mod 4096"
  define w where "w \<longleftrightarrow> \<not> initialized_bit s (offset + i)"
  define c1 where "c1 = (if w then c0[b div 8 := c0 ! (b div 8) OR push_bit (b mod 8) 1] else c0)"
  have stop: "s' = s\<lparr>as_bitmap_cache := c1\<rparr> \<and> i' = Suc i \<and> ch' = (ch \<or> w)"
    if "\<not> (Suc i < cnt \<and> (first + Suc i) div 4096 = page)"
    using less.prems(1) that
    by (subst (asm) publish_marks.simps) (cases w; auto simp: Let_def w_def b_def c1_def split: if_splits)
  have go: "publish_marks first offset cnt page (s\<lparr>as_bitmap_cache := c1\<rparr>, Suc i, ch \<or> w) = (s', i', ch')"
    if "Suc i < cnt \<and> (first + Suc i) div 4096 = page"
    using less.prems(1) that
    by (subst (asm) publish_marks.simps) (cases w; simp add: Let_def w_def b_def c1_def)
  have l1: "length c1 = 512" using less.prems(2) by (simp add: c1_def)
  have b: "b < 4096" by (simp add: b_def)
  have at1: "bitmap_at c1 x \<longleftrightarrow> bitmap_at c0 x \<or> w \<and> x = b" if "x < 4096" for x
    using bitmap_at_update [OF less.prems(2) b that] by (simp add: c1_def)
  have same: "\<not> w \<Longrightarrow> c1 = c0" by (simp add: c1_def)
  have one: "(\<exists>j. i \<le> j \<and> j < Suc i \<and> P j) \<longleftrightarrow> P i" for P by (metis le_refl lessI less_Suc_eq_le le_antisym)
  show ?case
  proof (cases "Suc i < cnt \<and> (first + Suc i) div 4096 = page")
    case False
    have pg: "\<forall>j. i \<le> j \<and> j < Suc i \<longrightarrow> (first + j) div 4096 = page"
      using less.prems(4) by (metis less_Suc_eq_le le_antisym)
    from stop [OF False] have eqs: "s' = s\<lparr>as_bitmap_cache := c1\<rparr>" "i' = Suc i" "ch' = (ch \<or> w)" by auto
    show ?thesis
      unfolding eqs one using l1 less.prems(3) at1 same pg
      by (intro exI [of _ c1]) (simp add: w_def b_def)
  next
    case True
    have "cnt - Suc i < cnt - i" using True by linarith
    from less.hyps [OF this go [OF True] l1] True
    obtain c where c: "s' = s\<lparr>as_bitmap_cache := c\<rparr>" "length c = 512" "Suc i < i'" "i' \<le> cnt"
      and pgs: "\<forall>j. Suc i \<le> j \<and> j < i' \<longrightarrow> (first + j) div 4096 = page"
      and at: "\<forall>b < 4096. bitmap_at c b \<longleftrightarrow> bitmap_at c1 b \<or>
        (\<exists>j. Suc i \<le> j \<and> j < i' \<and> \<not> initialized_bit s (offset + j) \<and> b = (first + j) mod 4096)"
      and chg: "ch' \<longleftrightarrow> (ch \<or> w) \<or> (\<exists>j. Suc i \<le> j \<and> j < i' \<and> \<not> initialized_bit s (offset + j))"
      and unch: "\<not> ch' \<longrightarrow> c = c1"
      by blast
    have split: "(\<exists>j. i \<le> j \<and> j < i' \<and> P j) \<longleftrightarrow> P i \<or> (\<exists>j. Suc i \<le> j \<and> j < i' \<and> P j)" for P
      using c(3) by (metis Suc_leD Suc_lessD le_refl not_less_eq_eq le_antisym)
    have pg: "\<forall>j. i \<le> j \<and> j < i' \<longrightarrow> (first + j) div 4096 = page"
      using pgs less.prems(4) by (metis Suc_leI order_le_less)
    have at': "\<forall>b < 4096. bitmap_at c b \<longleftrightarrow> bitmap_at c0 b \<or>
        (\<exists>j. i \<le> j \<and> j < i' \<and> \<not> initialized_bit s (offset + j) \<and> b = (first + j) mod 4096)"
      unfolding split using at at1 by (auto simp: w_def b_def)
    have chg': "ch' \<longleftrightarrow> ch \<or> (\<exists>j. i \<le> j \<and> j < i' \<and> \<not> initialized_bit s (offset + j))"
      unfolding split chg by (auto simp: w_def)
    have unch': "\<not> ch' \<longrightarrow> c = c0" using unch same chg by auto
    show ?thesis using c pg at' chg' unch' by (intro exI [of _ c]) simp
  qed
qed

text \<open>What marking a run of metadata sectors does to the bits on the card.\<close>

lemma marked_bits:
  assumes pages: "\<forall>j. i \<le> j \<and> j < i' \<longrightarrow> (first + j) div 4096 = page"
    and at: "\<forall>b < 4096. bitmap_at c b \<longleftrightarrow> bitmap_at (cells d (as_bitmap_base s + page)) b \<or>
        (\<exists>j. i \<le> j \<and> j < i' \<and> \<not> ini j \<and> b = (first + j) mod 4096)"
    and ini: "\<forall>j. i \<le> j \<and> j < i' \<longrightarrow> ini j \<longrightarrow> bit_on_disk cells s d (first + j)"
    and here: "cells d' (as_bitmap_base s + page) = c"
    and away: "\<And>a. a \<noteq> as_bitmap_base s + page \<Longrightarrow> cells d' a = cells d a"
  shows "bit_on_disk cells s d' x \<longleftrightarrow> bit_on_disk cells s d x \<or> first + i \<le> x \<and> x < first + i'"
proof (cases "x div 4096 = page")
  case True
  have eq: "x mod 4096 = (first + j) mod 4096 \<longleftrightarrow> x = first + j" if "i \<le> j" "j < i'" for j
    using pages that True by (metis div_mod_decomp)
  have "bit_on_disk cells s d' x \<longleftrightarrow> bit_on_disk cells s d x \<or> (\<exists>j. i \<le> j \<and> j < i' \<and> \<not> ini j \<and> x = first + j)"
    using True at here eq by (auto simp: bit_on_disk_at)
  also have "\<dots> \<longleftrightarrow> bit_on_disk cells s d x \<or> (\<exists>j. i \<le> j \<and> j < i' \<and> x = first + j)"
    using ini by blast
  also have "(\<exists>j. i \<le> j \<and> j < i' \<and> x = first + j) \<longleftrightarrow> first + i \<le> x \<and> x < first + i'"
    by (auto intro: exI [of _ "x - first"])
  finally show ?thesis .
next
  case False
  then have "\<not> (first + i \<le> x \<and> x < first + i')"
    using pages by (metis add_le_cancel_left add_less_cancel_left le_Suc_ex le_add1 le_trans)
  moreover have "bit_on_disk cells s d' x \<longleftrightarrow> bit_on_disk cells s d x"
    using False away by (simp add: bit_on_disk_at)
  ultimately show ?thesis by blast
qed

lemma publish_loop_spec:
  assumes law: "disk_law B cells"
  shows "bitmap_inv cells s d \<Longrightarrow> length (as_bitmap_cache s) = 512 \<Longrightarrow>
    as_bitmap_blocks s = div_ceil (as_metadata_blocks s) 4096 \<Longrightarrow> first + cnt \<le> as_metadata_blocks s \<Longrightarrow>
    \<forall>j. i \<le> j \<and> j < cnt \<longrightarrow> initialized_bit s (offset + j) \<longrightarrow> bit_on_disk cells s d (first + j) \<Longrightarrow>
    i \<le> cnt \<Longrightarrow> publish_loop B first offset cnt i s d = (r, s', d') \<Longrightarrow>
    same_config s s' \<and> as_cache s' = as_cache s \<and>
    as_cache_first s' = as_cache_first s \<and> as_cache_count s' = as_cache_count s \<and>
    as_cache_initialized s' = as_cache_initialized s \<and> as_ready s' = as_ready s \<and>
    length (as_bitmap_cache s') = 512 \<and>
    (\<forall>a. a < as_bitmap_base s \<or> as_bitmap_base s + as_bitmap_blocks s \<le> a \<longrightarrow> cells d' a = cells d a) \<and>
    (r = FV_BLOCK_OK \<longrightarrow> bitmap_inv cells s' d' \<and>
      (\<forall>x. bit_on_disk cells s d' x \<longleftrightarrow> bit_on_disk cells s d x \<or> first + i \<le> x \<and> x < first + cnt))"
proof (induction "cnt - i" arbitrary: i s d rule: less_induct)
  case less
  note step = less.prems(7) [unfolded publish_loop.simps [of B first offset cnt i s d]]
  show ?case
  proof (cases "i < cnt")
    case False
    with step less.prems show ?thesis by auto
  next
    case lt: True
    define page where "page = (first + i) div 4096"
    have pb: "page < as_bitmap_blocks s" using less.prems(3,4) lt by (simp add: page_def div_ceil_greater)
    obtain r1 s1 d1 where ld: "bitmap_load B (first + i) (s, d) = (r1, s1, d1)"
      by (cases "bitmap_load B (first + i) (s, d)") auto
    note bl = bitmap_load_spec [OF law less.prems(1,2) pb [unfolded page_def] ld, folded page_def]
    show ?thesis
    proof (cases "r1 = FV_BLOCK_OK")
      case False
      then have "r = r1 \<and> s' = s1 \<and> d' = d1" using step lt ld by simp
      with False bl show ?thesis by auto
    next
      case ok1: True
      obtain s2 i2 ch where m: "publish_marks first offset cnt page (s1, i, False) = (s2, i2, ch)"
        by (cases "publish_marks first offset cnt page (s1, i, False)") auto
      have m': "publish_marks first offset cnt page (s1\<lparr>as_bitmap_cache := as_bitmap_cache s1\<rparr>, i, False) = (s2, i2, ch)"
        using m by simp
      obtain c where s2: "s2 = s1\<lparr>as_bitmap_cache := c\<rparr>" and lc: "length c = 512" and i2: "i < i2" "i2 \<le> cnt"
        and pages: "\<forall>j. i \<le> j \<and> j < i2 \<longrightarrow> (first + j) div 4096 = page"
        and at: "\<forall>b < 4096. bitmap_at c b \<longleftrightarrow> bitmap_at (as_bitmap_cache s1) b \<or>
          (\<exists>j. i \<le> j \<and> j < i2 \<and> \<not> initialized_bit s1 (offset + j) \<and> b = (first + j) mod 4096)"
        and unch: "\<not> ch \<longrightarrow> c = as_bitmap_cache s1"
      proof -
        have "length (as_bitmap_cache s1) = 512" "(first + i) div 4096 = page" using bl by (auto simp: page_def)
        from publish_marks_spec [OF m' this(1) lt this(2)] show thesis by (elim exE conjE that)
      qed
      have s1c: "as_bitmap_cache s1 = cells d (as_bitmap_base s + page)" using bl ok1 by simp
      have ini: "initialized_bit s1 = initialized_bit s" "initialized_bit s2 = initialized_bit s"
        using bl by (simp_all add: fun_eq_iff initialized_bit_def s2)
      have cfg: "same_config s s2" using bl by (simp add: s2 same_config_def)
      have other: "as_cache s2 = as_cache s" "as_cache_first s2 = as_cache_first s" "as_cache_count s2 = as_cache_count s"
          "as_cache_initialized s2 = as_cache_initialized s" "as_ready s2 = as_ready s" "length (as_bitmap_cache s2) = 512"
        using bl lc by (simp_all add: s2)
      show ?thesis
      proof (cases "r = FV_BLOCK_OK \<or> \<not> ch \<or>
          (\<exists>d2 d3. blk_write B d1 (as_bitmap_base s + page) 1 c = (FV_BLOCK_OK, d2) \<and> blk_sync B d2 = (FV_BLOCK_OK, d3))")
        case go: True
        have "\<exists>d3. publish_loop B first offset cnt i2 s2 d3 = (r, s', d') \<and>
            cells d3 (as_bitmap_base s + page) = c \<and>
            (\<forall>a. a \<noteq> as_bitmap_base s + page \<longrightarrow> cells d3 a = cells d a)"
        proof (cases ch)
          case False
          with step lt ld ok1 m bl unch s1c show ?thesis by (intro exI [of _ d1]) (simp add: Let_def page_def)
        next
          case True
          obtain r2 d2 where w: "blk_write B d1 (as_bitmap_base s + page) 1 c = (r2, d2)"
            by (cases "blk_write B d1 (as_bitmap_base s + page) 1 c")
          obtain r3 d3 where sy: "blk_sync B d2 = (r3, d3)" by (cases "blk_sync B d2")
          have bb: "as_bitmap_base s2 = as_bitmap_base s" "as_bitmap_cache s2 = c" using cfg by (simp_all add: same_config_def s2)
          have ok: "r2 = FV_BLOCK_OK" "r3 = FV_BLOCK_OK"
            using go step lt ld ok1 m w sy True bb by (auto simp: Let_def page_def split: if_splits)
          have "publish_loop B first offset cnt i2 s2 d3 = (r, s', d')"
            using step lt ld ok1 m w sy True ok bb by (simp add: Let_def page_def)
          moreover have l1: "length c = 1 * 512" using lc by simp
          have "cells d2 (as_bitmap_base s + page) = c"
            using disk_lawD(6) [OF law w [unfolded ok] l1, of 0] lc by simp
          moreover have "cells d2 a = cells d1 a" if "a \<noteq> as_bitmap_base s + page" for a
            using disk_lawD(5) [OF law w l1, of a] that by force
          ultimately show ?thesis
            using disk_lawD(7) [OF law sy] bl by (intro exI [of _ d3]) simp
        qed
        then obtain d3 where rest: "publish_loop B first offset cnt i2 s2 d3 = (r, s', d')"
          and d3: "cells d3 (as_bitmap_base s + page) = c"
            "\<And>a. a \<noteq> as_bitmap_base s + page \<Longrightarrow> cells d3 a = cells d a" by blast
        have bits: "bit_on_disk cells s d3 x \<longleftrightarrow> bit_on_disk cells s d x \<or> first + i \<le> x \<and> x < first + i2" for x
        proof (rule marked_bits [where cells = cells and d = d and d' = d3 and s = s and c = c and page = page and
              ini = "\<lambda>j. initialized_bit s (offset + j)", OF pages _ _ d3(1,2)])
          show "\<forall>b < 4096. bitmap_at c b \<longleftrightarrow> bitmap_at (cells d (as_bitmap_base s + page)) b \<or>
            (\<exists>j. i \<le> j \<and> j < i2 \<and> \<not> initialized_bit s (offset + j) \<and> b = (first + j) mod 4096)"
            using at by (simp add: s1c ini)
          show "\<forall>j. i \<le> j \<and> j < i2 \<longrightarrow> initialized_bit s (offset + j) \<longrightarrow> bit_on_disk cells s d (first + j)"
            using less.prems(5) i2 by auto
        qed
        have bcfg: "bit_on_disk cells s2 x = bit_on_disk cells s x" for x
          using bit_on_disk_cong [of s s2 cells x x] cfg by simp
        have bi: "bitmap_inv cells s2 d3"
          using bl ok1 d3(1) pb by (auto simp: bitmap_inv_def s2 same_config_def)
        have pre: "as_bitmap_blocks s2 = div_ceil (as_metadata_blocks s2) 4096" "first + cnt \<le> as_metadata_blocks s2"
          using cfg less.prems(3,4) by (simp_all add: same_config_def)
        have rem: "\<forall>j. i2 \<le> j \<and> j < cnt \<longrightarrow> initialized_bit s2 (offset + j) \<longrightarrow> bit_on_disk cells s2 d3 (first + j)"
          using less.prems(5) i2 bits unfolding ini bcfg by auto
        have "cnt - i2 < cnt - i" using i2 by linarith
        note ih = less.hyps [OF this bi other(6) pre rem i2(2) rest]
        have "bit_on_disk cells s d' x \<longleftrightarrow> bit_on_disk cells s d x \<or> first + i \<le> x \<and> x < first + cnt" if "r = FV_BLOCK_OK" for x
        proof -
          have "bit_on_disk cells s d' x \<longleftrightarrow> bit_on_disk cells s d3 x \<or> first + i2 \<le> x \<and> x < first + cnt"
            using ih that by (simp add: bcfg)
          then show ?thesis using bits [of x] i2 by (cases "x < first + i2") simp_all
        qed
        moreover have "\<forall>a. a < as_bitmap_base s \<or> as_bitmap_base s + as_bitmap_blocks s \<le> a \<longrightarrow> cells d' a = cells d a"
          using ih d3(2) cfg pb by (auto simp: same_config_def)
        ultimately show ?thesis using ih d3(1) other cfg by (auto dest: same_config_trans)
      next
        case False
        then have ch: ch and nok: "r \<noteq> FV_BLOCK_OK" by auto
        have bb: "as_bitmap_base s2 = as_bitmap_base s" "as_bitmap_cache s2 = c" using cfg by (simp_all add: same_config_def s2)
        obtain r2 d2 where w: "blk_write B d1 (as_bitmap_base s + page) 1 c = (r2, d2)"
          by (cases "blk_write B d1 (as_bitmap_base s + page) 1 c")
        obtain r3 d3 where sy: "blk_sync B d2 = (r3, d3)" by (cases "blk_sync B d2")
        have out: "s' = s2 \<and> (d' = d2 \<or> d' = d3)"
          using False step lt ld ok1 m w sy ch bb by (auto simp: Let_def page_def split: if_splits)
        have l1: "length c = 1 * 512" using lc by simp
        have "cells d2 a = cells d a" if "a \<noteq> as_bitmap_base s + page" for a
          using disk_lawD(5) [OF law w l1, of a] that bl by force
        with out nok show ?thesis
          using disk_lawD(7) [OF law sy] bl other cfg pb by auto
      qed
    qed
  qed
qed

lemma run_mask_bit:
  "bit (push_bit offset (push_bit n 1 - 1) :: u32) k \<longleftrightarrow> offset \<le> k \<and> k < offset + n \<and> k < 32"
proof -
  have "(push_bit n 1 - 1 :: u32) = mask n" by (simp add: mask_eq_exp_minus_1)
  then show ?thesis by (auto simp: bit_push_bit_iff bit_mask_iff)
qed

lemma publish_spec:
  assumes law: "disk_law B cells" and geo: "geometry_inv s" and bi: "bitmap_inv cells s d"
    and fit: "first + n \<le> as_metadata_blocks s" and off: "as_cache_first s \<le> first"
    and small: "first - as_cache_first s + n \<le> 10"
    and ini: "as_bitmap_blocks s \<noteq> 0 \<Longrightarrow> \<forall>j < n. initialized_bit s (first - as_cache_first s + j) \<longleftrightarrow> bit_on_disk cells s d (first + j)"
    and run: "publish B first n (s, d) = (FV_BLOCK_OK, s', d')"
  shows "same_config s s' \<and> as_cache s' = as_cache s \<and>
    as_cache_first s' = as_cache_first s \<and> as_cache_count s' = as_cache_count s \<and> as_ready s' = as_ready s \<and>
    length (as_bitmap_cache s') = 512 \<and> bitmap_inv cells s' d' \<and>
    (\<forall>a. a < as_bitmap_base s \<or> as_base s \<le> a \<longrightarrow> cells d' a = cells d a) \<and>
    (as_bitmap_blocks s \<noteq> 0 \<longrightarrow>
      (\<forall>x. bit_on_disk cells s d' x \<longleftrightarrow> bit_on_disk cells s d x \<or> first \<le> x \<and> x < first + n) \<and>
      (\<forall>k. initialized_bit s' k \<longleftrightarrow> initialized_bit s k \<or>
         first - as_cache_first s \<le> k \<and> k < first - as_cache_first s + n))"
proof -
  define offset where "offset = first - as_cache_first s"
  define m where "m = (push_bit offset (push_bit n 1 - 1) :: u32)"
  have mbit: "bit m k \<longleftrightarrow> offset \<le> k \<and> k < offset + n" for k
    unfolding m_def run_mask_bit using small by (auto simp: offset_def)
  have lb: "length (as_bitmap_cache s) = 512" and base: "as_base s = as_bitmap_base s + as_bitmap_blocks s"
    using geo by (auto simp: geometry_inv_def)
  show ?thesis
  proof (cases "as_bitmap_blocks s = 0 \<or> (ucast (as_cache_initialized s) AND m) = m")
    case True
    have all: "initialized_bit s k" if "as_bitmap_blocks s \<noteq> 0" "offset \<le> k" "k < offset + n" for k
    proof -
      have "bit (ucast (as_cache_initialized s) AND m) k"
        using True that mbit by metis
      then show ?thesis by (auto simp: bit_and_iff bit_ucast_iff initialized_bit_iff)
    qed
    have on: "bit_on_disk cells s d x" if "as_bitmap_blocks s \<noteq> 0" "first \<le> x" "x < first + n" for x
      using ini [OF that(1)] all [OF that(1), of "offset + (x - first)"] that
      by (metis add_less_cancel_left le_add1 le_add_diff_inverse offset_def)
    have "s' = s \<and> d' = d" using run True by (simp add: publish_def Let_def offset_def m_def)
    then show ?thesis using bi lb all on by (auto simp: offset_def)
  next
    case False
    obtain r1 d1 where sy: "blk_sync B d = (r1, d1)" by (cases "blk_sync B d")
    obtain r2 s2 d2 where lp: "publish_loop B first offset n 0 s d1 = (r2, s2, d2)"
      by (cases "publish_loop B first offset n 0 s d1") auto
    have ok: "r1 = FV_BLOCK_OK" "r2 = FV_BLOCK_OK" "d' = d2"
        "s' = s2\<lparr>as_cache_initialized := as_cache_initialized s2 OR ucast m\<rparr>"
      using run False sy lp by (auto simp: publish_def Let_def offset_def m_def split: if_splits)
    have bm: "as_bitmap_blocks s = div_ceil (as_metadata_blocks s) 4096" using geo False by (simp add: geometry_inv_def)
    have c1: "cells d1 = cells d" using disk_lawD(7) [OF law sy] by auto
    have pre: "bitmap_inv cells s d1" "\<forall>j. 0 \<le> j \<and> j < n \<longrightarrow> initialized_bit s (offset + j) \<longrightarrow> bit_on_disk cells s d1 (first + j)"
      using bi c1 ini False by (auto simp: bitmap_inv_def offset_def bit_on_disk_def)
    note sp = publish_loop_spec [OF law pre(1) lb bm fit pre(2) _ lp [unfolded ok(2)]]
    have ib: "initialized_bit s' k \<longleftrightarrow> initialized_bit s k \<or> offset \<le> k \<and> k < offset + n" for k
      using sp small by (auto simp: ok(4) initialized_bit_iff bit_or_iff bit_ucast_iff mbit offset_def)
    have "bit_on_disk cells s d1 = bit_on_disk cells s d" by (rule bit_on_disk_cong) (use c1 in auto)
    then show ?thesis using sp ok c1 base ib
      by (auto simp: same_config_def bitmap_inv_def offset_def)
  qed
qed

section \<open>A successful write\<close>

lemma auth_write_ok_iff:
  "fv_auth_write SL B lba cnt (p, data) (s, d) = (FV_BLOCK_OK, s', d') \<longleftrightarrow>
   store_validate s lba cnt p = FV_BLOCK_OK \<and>
   (\<exists>s1 d1 s2 d2 d3. load B lba cnt (s, d) = (FV_BLOCK_OK, s1, d1) \<and>
      write_tags SL lba data [0..<cnt] s1 = (True, s2) \<and>
      blk_write B d1 (as_data_base s2 + lba) cnt data = (FV_BLOCK_OK, d2) \<and>
      meta_write B s2 d2 (lba div 15) ((lba + cnt - 1) div 15 - lba div 15 + 1)
        (span (as_cache s2) (store_entry s2 lba) (((lba + cnt - 1) div 15 - lba div 15 + 1) * 512)) = (FV_BLOCK_OK, d3) \<and>
      publish B (lba div 15) ((lba + cnt - 1) div 15 - lba div 15 + 1) (s2, d3) = (FV_BLOCK_OK, s', d'))"
  by (auto simp: fv_auth_write_def Let_def split: prod.splits if_splits)

text \<open>The state after the tag loop: \<open>c\<close> is the new cache.\<close>

definition tagged :: "sha_lib \<Rightarrow> nat \<Rightarrow> nat \<Rightarrow> u8 list \<Rightarrow> fv_auth_store \<Rightarrow> u8 list \<Rightarrow> bool" where
  "tagged SL lba cnt data s c \<longleftrightarrow> length c = length (as_cache s) \<and>
     (\<forall>pos < length c. (\<forall>i < cnt. \<not> slot s (lba + i) pos) \<longrightarrow> c ! pos = as_cache s ! pos) \<and>
     (\<forall>i < cnt. c ! (store_entry s (lba + i) + (lba + i) mod 15) = 1 \<and>
        store_tag SL s (lba + i) (span data (i * 512) 512) =
          Some (span c (store_entry s (lba + i) + 32 + (lba + i) mod 15 * 32) 32))"

lemma write_tags_tagged:
  assumes "digest_law SL" "store_inv cells s d"
    and "as_cache_first s \<le> lba div 15" "(lba + cnt - 1) div 15 < as_cache_first s + as_cache_count s"
    and "write_tags SL lba data [0..<cnt] s = (True, s2)"
  shows "\<exists>c. s2 = s\<lparr>as_cache := c\<rparr> \<and> tagged SL lba cnt data s c"
proof -
  have "length (as_cache s) = 5120" using assms(2) by (simp add: store_inv_def geometry_inv_def)
  then have "as_cache_first s \<le> (lba + i) div 15 \<and> store_entry s (lba + i) + 512 \<le> length (as_cache s)"
    if "i < cnt" for i
    using load_cached [OF assms(3,4) that] cached_entry(3) [OF assms(2)] by (simp add: cached_def)
  then have pre: "distinct [0..<cnt]" "\<forall>i \<in> set [0..<cnt]. as_cache_first s \<le> (lba + i) div 15 \<and>
      store_entry s (lba + i) + 512 \<le> length (as_cache s)" by auto
  have "write_tags SL lba data [0..<cnt] (s\<lparr>as_cache := as_cache s\<rparr>) = (True, s2)"
    using assms(5) by simp
  from write_tags_spec [OF assms(1) this pre] show ?thesis by (auto simp: tagged_def)
qed

text \<open>Cached sectors that the request does not touch keep their bytes.\<close>

lemma tagged_other_block:
  assumes t: "tagged SL lba cnt data s c" and fit: "k * 512 + 512 \<le> length (as_cache s)"
    and off: "as_cache_first s \<le> lba div 15"
    and k: "as_cache_first s + k < lba div 15 \<or> (lba + cnt - 1) div 15 < as_cache_first s + k"
  shows "span c (k * 512) 512 = span (as_cache s) (k * 512) 512"
proof (rule nth_equalityI)
  show "length (span c (k * 512) 512) = length (span (as_cache s) (k * 512) 512)"
    using t by (simp add: tagged_def)
  fix i assume "i < length (span c (k * 512) 512)"
  then have i: "i < 512" "k * 512 + i < length c" using fit t by (auto simp: tagged_def)
  have "\<not> slot s (lba + j) (k * 512 + i)" if j: "j < cnt" for j
  proof
    assume "slot s (lba + j) (k * 512 + i)"
    from slot_range [OF this] have "(lba + j) div 15 - as_cache_first s = k"
      using i(1) by (simp add: store_entry_def)
    moreover have "lba div 15 \<le> (lba + j) div 15" "(lba + j) div 15 \<le> (lba + cnt - 1) div 15"
      using j by (auto intro: div_le_mono)
    ultimately show False using k off by linarith
  qed
  then have "c ! (k * 512 + i) = as_cache s ! (k * 512 + i)" using t i by (simp add: tagged_def)
  then show "span c (k * 512) 512 ! i = span (as_cache s) (k * 512) 512 ! i"
    using i t by (simp add: nth_span tagged_def)
qed

text \<open>Entries of other blocks are kept, also in a metadata sector that is rewritten.\<close>

lemma tagged_other_entry:
  assumes t: "tagged SL lba cnt data s c" and fit: "store_entry s x + 512 \<le> length (as_cache s)"
    and off: "as_cache_first s \<le> lba div 15" "as_cache_first s \<le> x div 15" and x: "x < lba \<or> lba + cnt \<le> x"
  shows "c ! (store_entry s x + x mod 15) = as_cache s ! (store_entry s x + x mod 15)"
    and "span c (store_entry s x + 32 + x mod 15 * 32) 32 = span (as_cache s) (store_entry s x + 32 + x mod 15 * 32) 32"
proof -
  have m: "x mod 15 < 15" by simp
  have keep: "c ! pos = as_cache s ! pos" if sl: "slot s x pos" for pos
  proof -
    have "\<not> slot s (lba + j) pos" if "j < cnt" for j
    proof -
      have "x \<noteq> lba + j" using x that by auto
      moreover have "as_cache_first s \<le> (lba + j) div 15" using off(1) by (meson div_le_mono le_add1 le_trans)
      ultimately show ?thesis using slot_disjoint [OF _ off(2) _ sl] by blast
    qed
    moreover have "pos < length c" using slot_range [OF sl] fit t by (simp add: tagged_def)
    ultimately show ?thesis using t by (simp add: tagged_def)
  qed
  show "c ! (store_entry s x + x mod 15) = as_cache s ! (store_entry s x + x mod 15)"
    by (rule keep) (simp add: slot_def)
  show "span c (store_entry s x + 32 + x mod 15 * 32) 32 = span (as_cache s) (store_entry s x + 32 + x mod 15 * 32) 32"
    using fit m t by (intro nth_equalityI) (auto simp: nth_span tagged_def slot_def intro!: keep)
qed

lemma auth_write_correct:
  assumes law: "disk_law B cells" and dl: "digest_law SL" and inv: "store_inv cells s d"
    and len: "length data = cnt * 512"
    and run: "fv_auth_write SL B lba cnt (p, data) (s, d) = (FV_BLOCK_OK, s', d')"
  shows "store_inv cells s' d' \<and> same_config s s' \<and> as_ready s' \<and>
    (\<forall>i < cnt. sector_lookup SL cells s' d' (lba + i) = Sector_Data (span data (i * 512) 512)) \<and>
    (\<forall>x < as_blocks s. x < lba \<or> lba + cnt \<le> x \<longrightarrow> sector_lookup SL cells s' d' x = sector_lookup SL cells s d x) \<and>
    (\<forall>a. a < as_bitmap_base s \<or> as_data_base s + as_blocks s \<le> a \<longrightarrow> cells d' a = cells d a)"
proof -
  define first where "first = lba div 15"
  define n where "n = (lba + cnt - 1) div 15 - first + 1"
  obtain s1 d1 s2 d2 d3 where v: "store_validate s lba cnt p = FV_BLOCK_OK"
    and ld: "load B lba cnt (s, d) = (FV_BLOCK_OK, s1, d1)"
    and tg: "write_tags SL lba data [0..<cnt] s1 = (True, s2)"
    and dw: "blk_write B d1 (as_data_base s2 + lba) cnt data = (FV_BLOCK_OK, d2)"
    and mw: "blk_write B d2 (as_base s2 + first) n (span (as_cache s2) (store_entry s2 lba) (n * 512)) = (FV_BLOCK_OK, d3)"
    and pb: "publish B first n (s2, d3) = (FV_BLOCK_OK, s', d')"
    using run unfolding auth_write_ok_iff meta_write_def first_def n_def by blast
  have req: "0 < cnt" "cnt \<le> 128" "lba + cnt \<le> as_blocks s" "as_ready s" using validate_ok [OF v] by auto
  have l: "cells d1 = cells d" "same_config s s1" "store_inv cells s1 d1"
      "as_cache_first s1 \<le> lba div 15" "(lba + cnt - 1) div 15 < as_cache_first s1 + as_cache_count s1"
      "as_ready s1" "as_cache_count s1 \<noteq> 0"
    using load_spec [OF law inv req(1-3) ld] req(4) by auto
  obtain c where s2: "s2 = s1\<lparr>as_cache := c\<rparr>" and t: "tagged SL lba cnt data s1 c"
    using write_tags_tagged [OF dl l(3-5) tg] by blast
  have geo1: "geometry_inv s1" and bi1: "bitmap_inv cells s1 d1" and ci1: "cache_inv cells s1 d1"
    using l(3) by (simp_all add: store_inv_def)
  have lc: "length c = 5120" using t geo1 by (simp add: tagged_def geometry_inv_def)
  define off where "off = first - as_cache_first s1"
  have n: "0 < n" "off + n \<le> as_cache_count s1" "as_cache_first s1 + off = first" "first + n = (lba + cnt - 1) div 15 + 1"
  proof -
    have "first \<le> (lba + cnt - 1) div 15" using req(1) by (auto simp: first_def intro: div_le_mono)
    then show "0 < n" "off + n \<le> as_cache_count s1" "as_cache_first s1 + off = first" "first + n = (lba + cnt - 1) div 15 + 1"
      using l(4,5) by (auto simp: n_def off_def first_def)
  qed
  have cc: "as_cache_count s1 \<le> 10" "as_cache_first s1 + as_cache_count s1 \<le> as_metadata_blocks s1"
    using ci1 l(7) by (auto simp: cache_inv_def)
  have g: "as_base s1 = as_bitmap_base s1 + as_bitmap_blocks s1" "as_data_base s1 = as_base s1 + as_metadata_blocks s1"
    using geo1 by (auto simp: geometry_inv_def)
  have mlen: "length (span c (off * 512) (n * 512)) = n * 512" using n cc lc by simp
  have entry: "store_entry s1 lba = off * 512" by (simp add: store_entry_def off_def first_def)
  have mw': "blk_write B d2 (as_base s1 + first) n (span c (off * 512) (n * 512)) = (FV_BLOCK_OK, d3)"
    using mw by (simp add: s2 entry)
  have w3: "cells d3 (as_base s1 + first + k) = span c ((off + k) * 512) 512" if "k < n" for k
  proof -
    have "k * 512 + 512 \<le> n * 512" using that by auto
    then show ?thesis using disk_lawD(6) [OF law mw' mlen that]
      by (simp add: span_span add_mult_distrib)
  qed
  have w3o: "cells d3 a = cells d2 a" if "a < as_base s1 + first \<or> as_base s1 + (first + n) \<le> a" for a
    using disk_lawD(5) [OF law mw' mlen, of a] that by (simp add: add.assoc)
  have w2: "cells d2 (as_data_base s1 + lba + i) = span data (i * 512) 512" if "i < cnt" for i
    using disk_lawD(6) [OF law dw len that] by (simp add: s2)
  have w2o: "cells d2 a = cells d1 a" if "a < as_data_base s1 + lba \<or> as_data_base s1 + (lba + cnt) \<le> a" for a
    using disk_lawD(5) [OF law dw len, of a] that by (simp add: s2 add.assoc)
  have fn: "first + n \<le> as_metadata_blocks s1" using n cc by linarith
  have low: "cells d3 a = cells d1 a" if "a < as_base s1" for a using w3o [of a] w2o [of a] that g by auto
  have bod: "bit_on_disk cells s1 d3 x = bit_on_disk cells s1 d1 x" if "x < as_metadata_blocks s1" "as_bitmap_blocks s1 \<noteq> 0" for x
  proof -
    have "x div 4096 < as_bitmap_blocks s1" using that geo1 by (auto simp: geometry_inv_def div_ceil_greater)
    then show ?thesis using low [of "as_bitmap_base s1 + x div 4096"] g by (simp add: bit_on_disk_def)
  qed
  have cfg2: "same_config s1 s2" by (simp add: s2 same_config_def)
  have geo2: "geometry_inv s2" using geo1 lc by (auto simp: geometry_inv_def s2)
  have bi2: "bitmap_inv cells s2 d3" using bi1 low g by (auto simp: bitmap_inv_def s2)
  have bcong: "bit_on_disk cells s2 x = bit_on_disk cells s1 x" for x using bit_on_disk_cong [of s1 s2 cells x x] cfg2 by simp
  have ini2: "\<forall>j < n. initialized_bit s2 (first - as_cache_first s2 + j) \<longleftrightarrow> bit_on_disk cells s2 d3 (first + j)"
    if "as_bitmap_blocks s2 \<noteq> 0"
  proof (intro allI impI)
    fix j assume "j < n"
    then have "off + j < as_cache_count s1" "first + j < as_metadata_blocks s1" "as_cache_first s1 + (off + j) = first + j"
      using n fn by auto
    then show "initialized_bit s2 (first - as_cache_first s2 + j) \<longleftrightarrow> bit_on_disk cells s2 d3 (first + j)"
      using ci1 that bod [of "first + j"] unfolding bcong
      by (simp add: s2 cache_inv_def off_def initialized_bit_def)
  qed
  have sm: "first - as_cache_first s2 + n \<le> 10" "as_cache_first s2 \<le> first" "first + n \<le> as_metadata_blocks s2"
    using n cc fn l(4) by (auto simp: s2 off_def first_def)
  note pub = publish_spec [OF law geo2 bi2 sm(3,2,1) ini2 pb]
  have cfg': "same_config s1 s'" using pub cfg2 same_config_trans by blast
  have c': "as_cache s' = c" "as_cache_first s' = as_cache_first s1" "as_cache_count s' = as_cache_count s1"
    using pub by (auto simp: s2)
  have up: "cells d' a = cells d3 a" if "a < as_bitmap_base s1 \<or> as_base s1 \<le> a" for a
  proof -
    have "\<forall>a. a < as_bitmap_base s2 \<or> as_base s2 \<le> a \<longrightarrow> cells d' a = cells d3 a" using pub by blast
    then show ?thesis using that by (auto simp: s2)
  qed
  have bits: "bit_on_disk cells s1 d' x \<longleftrightarrow> bit_on_disk cells s1 d1 x \<or> first \<le> x \<and> x < first + n"
    if "x < as_metadata_blocks s1" "as_bitmap_blocks s1 \<noteq> 0" for x
  proof -
    have "as_bitmap_blocks s2 \<noteq> 0" using that by (simp add: s2)
    then have "\<forall>x. bit_on_disk cells s2 d' x \<longleftrightarrow> bit_on_disk cells s2 d3 x \<or> first \<le> x \<and> x < first + n"
      using pub by blast
    then show ?thesis using bod [OF that] unfolding bcong by blast
  qed
  have view: "meta_view cells s1 d' j = (if first \<le> j \<and> j < first + n then span c ((j - as_cache_first s1) * 512) 512
      else meta_view cells s1 d1 j)" if j: "j < as_metadata_blocks s1" for j
  proof (cases "first \<le> j \<and> j < first + n")
    case True
    have "cells d' (as_base s1 + j) = cells d3 (as_base s1 + first + (j - first))" using up True by simp
    also have "\<dots> = span c ((off + (j - first)) * 512) 512" using True by (intro w3) auto
    also have "off + (j - first) = j - as_cache_first s1" using True n(3) by simp
    finally show ?thesis using True bits [OF j] by (auto simp: meta_view_def)
  next
    case False
    have "cells d' (as_base s1 + j) = cells d1 (as_base s1 + j)"
      using up w3o [of "as_base s1 + j"] w2o [of "as_base s1 + j"] False j g by auto
    then show ?thesis using False bits [OF j] by (auto simp: meta_view_def)
  qed
  have mdb: "as_metadata_blocks s1 = div_ceil (as_blocks s1) 15" using geo1 by (simp add: geometry_inv_def)
  have mcong: "meta_view cells s' x = meta_view cells s1 x" for x using meta_view_cong [of s1 s' cells x x] cfg' by simp
  have bcong': "bit_on_disk cells s' x = bit_on_disk cells s1 x" for x using bit_on_disk_cong [of s1 s' cells x x] cfg' by simp
  have tcong: "store_tag SL s' = store_tag SL s1" using store_tag_cong cfg' .
  have cache': "cache_inv cells s' d'"
  proof -
    have "span c (k * 512) 512 = meta_view cells s1 d' (as_cache_first s1 + k)" if k: "k < as_cache_count s1" for k
    proof -
      have kj: "as_cache_first s1 + k < as_metadata_blocks s1" using k cc by linarith
      show ?thesis
      proof (cases "first \<le> as_cache_first s1 + k \<and> as_cache_first s1 + k < first + n")
        case True
        then show ?thesis using view [OF kj] by simp
      next
        case False
        have "span c (k * 512) 512 = span (as_cache s1) (k * 512) 512"
          using False k cc geo1 n(4) l(4)
          by (intro tagged_other_block [OF t]) (auto simp: geometry_inv_def first_def)
        then show ?thesis using view [OF kj] False ci1 k by (simp add: cache_inv_def)
      qed
    qed
    moreover have "initialized_bit s' k \<longleftrightarrow> bit_on_disk cells s1 d' (as_cache_first s1 + k)"
      if "k < as_cache_count s1" "as_bitmap_blocks s1 \<noteq> 0" for k
    proof -
      have b2: "as_bitmap_blocks s2 \<noteq> 0" using that by (simp add: s2)
      have "initialized_bit s' k \<longleftrightarrow> initialized_bit s2 k \<or> first - as_cache_first s2 \<le> k \<and> k < first - as_cache_first s2 + n"
        using pub b2 by blast
      then have "initialized_bit s' k \<longleftrightarrow> bit_on_disk cells s1 d1 (as_cache_first s1 + k) \<or> off \<le> k \<and> k < off + n"
        using ci1 that by (simp add: s2 cache_inv_def off_def)
      moreover have "off \<le> k \<and> k < off + n \<longleftrightarrow> first \<le> as_cache_first s1 + k \<and> as_cache_first s1 + k < first + n"
        using n(3) by linarith
      ultimately show ?thesis using bits [of "as_cache_first s1 + k"] that cc by simp
    qed
    ultimately show ?thesis
      using cc cfg' by (simp add: cache_inv_def c' mcong bcong' same_config_def)
  qed
  have geo': "geometry_inv s'" using geo2 pub lc by (auto simp: geometry_inv_def same_config_def s2)
  have inv': "store_inv cells s' d'" using geo' cache' pub by (simp add: store_inv_def)
  have cfg: "same_config s s'" using same_config_trans [OF l(2) cfg'] .
  have db: "as_data_base s' = as_data_base s1" "as_blocks s1 = as_blocks s" using cfg' l(2) by (simp_all add: same_config_def)
  have dat: "cells d' (as_data_base s1 + x) = (if lba \<le> x \<and> x < lba + cnt then span data ((x - lba) * 512) 512
      else cells d1 (as_data_base s1 + x))" for x
  proof -
    have "cells d' (as_data_base s1 + x) = cells d2 (as_data_base s1 + x)"
      using up [of "as_data_base s1 + x"] w3o [of "as_data_base s1 + x"] g fn by auto
    then show ?thesis using w2 [of "x - lba"] w2o [of "as_data_base s1 + x"] by (auto simp: add.assoc)
  qed
  have written: "sector_lookup SL cells s' d' (lba + i) = Sector_Data (span data (i * 512) 512)" if i: "i < cnt" for i
  proof -
    define x where "x = lba + i"
    have xr: "first \<le> x div 15" "x div 15 < first + n" "as_cache_first s1 \<le> x div 15" "x div 15 < as_metadata_blocks s1"
      using run_bounds [OF req(1-3) i] n(4) l(4) mdb db(2) by (auto simp: x_def first_def)
    have fit: "store_entry s1 x + 512 \<le> 5120"
      using cached_entry(3) [OF l(3) load_cached [OF l(4,5) i]] by (simp add: x_def)
    have vw: "meta_view cells s1 d' (x div 15) = span c (store_entry s1 x) 512"
      using view [OF xr(4)] xr by (simp add: store_entry_def)
    have m: "x mod 15 < 15" by simp
    have st: "sector_state cells s' d' x = 1"
    proof -
      have "c ! (store_entry s1 x + x mod 15) = 1" using t i by (simp add: tagged_def x_def)
      then show ?thesis using fit m lc by (simp add: sector_state_def mcong vw nth_span)
    qed
    have "32 + x mod 15 * 32 + 32 \<le> 512" using m by linarith
    then have tag: "sector_tag cells s' d' x = span c (store_entry s1 x + 32 + x mod 15 * 32) 32"
      by (simp add: sector_tag_def mcong vw span_span add.assoc)
    have dt: "cells d' (as_data_base s' + x) = span data (i * 512) 512" using dat [of x] i by (simp add: db x_def)
    have "store_tag SL s1 x (span data (i * 512) 512) = Some (span c (store_entry s1 x + 32 + x mod 15 * 32) 32)"
      using t i by (simp add: tagged_def x_def)
    then show ?thesis by (simp add: sector_lookup_def Let_def tcong st tag dt flip: x_def)
  qed
  have kept: "sector_lookup SL cells s' d' x = sector_lookup SL cells s d x"
    if x: "x < as_blocks s" "x < lba \<or> lba + cnt \<le> x" for x
  proof -
    have xm: "x div 15 < as_metadata_blocks s1" using x mdb db(2) by (simp add: div_ceil_greater)
    have e: "sector_state cells s' d' x = sector_state cells s1 d1 x \<and> sector_tag cells s' d' x = sector_tag cells s1 d1 x"
    proof (cases "first \<le> x div 15 \<and> x div 15 < first + n")
      case False
      have "meta_view cells s1 d' (x div 15) = meta_view cells s1 d1 (x div 15)"
        using view [OF xm] unfolding if_not_P [OF False] .
      then show ?thesis by (simp add: sector_state_def sector_tag_def mcong)
    next
      case True
      have ca: "cached s1 x" using True n l(4) by (auto simp: cached_def first_def)
      note ce = cached_entry [OF l(3) ca]
      have lcs: "length (as_cache s1) = 5120" using geo1 by (simp add: geometry_inv_def)
      have vw: "meta_view cells s1 d' (x div 15) = span c (store_entry s1 x) 512"
        using view [OF xm] True by (simp add: store_entry_def)
      have m: "x mod 15 < 15" by simp
      have mm: "32 + x mod 15 * 32 + 32 \<le> 512" using m by linarith
      have off2: "as_cache_first s1 \<le> x div 15" using ca by (simp add: cached_def)
      note te = tagged_other_entry [OF t _ l(4) off2 x(2)]
      show ?thesis
        using te ce lcs lc m mm
        by (simp add: sector_state_def sector_tag_def mcong vw nth_span span_span add.assoc)
    qed
    have dx: "cells d' (as_data_base s' + x) = cells d1 (as_data_base s1 + x)" using dat [of x] x by (auto simp: db)
    have "sector_lookup SL cells s' d' x = sector_lookup SL cells s1 d1 x"
      using e dx by (simp add: sector_lookup_def Let_def tcong cong: option.case_cong)
    then show ?thesis using sector_lookup_cong [of s s1 cells d1 d SL] l(1,2) by simp
  qed
  have frame: "cells d' a = cells d a" if "a < as_bitmap_base s \<or> as_data_base s + as_blocks s \<le> a" for a
    using up [of a] w3o [of a] w2o [of a] that l(1,2) g fn req(3) by (auto simp: same_config_def)
  have "as_ready s'" using pub l(6) by (simp add: s2)
  then show ?thesis using inv' cfg written kept frame by blast
qed

end
