(* ===== verification/Auth_Store_Correct.thy ===== *)
theory Auth_Store_Correct
  imports Auth_Store_Write
begin

text \<open>
  The promises of the authenticated store as a whole: a store that was opened satisfies the
  invariant, reads are authentic or empty, writes are read back (also by a store opened later) and
  touch nothing else, and on a card that does not fail every request in range succeeds.
\<close>

section \<open>Opening\<close>

lemma open_store_inv:
  assumes "open_store SL bm B d base blocks vol key = (FV_BLOCK_OK, s)"
  shows "store_inv cells s d'" "as_ready s"
    "as_blocks s = blocks" "as_volume s = vol" "as_bitmap_base s = base"
    "as_bitmap_blocks s = (if bm then div_ceil (div_ceil blocks 15) 4096 else 0)"
    "fv_hmac_init SL key = Some (as_hmac s)"
  using assms
  by (auto simp: open_store_def Let_def store_inv_def geometry_inv_def bitmap_inv_def cache_inv_def
      fv_auth_close_def FV_TAG_CACHE_BLOCKS_def FV_AUTH_MAX_BATCH_SECTORS_def FV_TAGS_PER_BLOCK_def
      split: if_splits option.splits)

lemma reopen_same_config:
  assumes "geometry_inv s" "fv_hmac_init SL key = Some (as_hmac s)"
    and "open_store SL (as_bitmap_blocks s \<noteq> 0) B d' (as_bitmap_base s) (as_blocks s) (as_volume s) key = (FV_BLOCK_OK, s2)"
  shows "same_config s s2"
proof -
  note o = open_store_inv(3-7) [OF assms(3)]
  have g2: "geometry_inv s2" using open_store_inv(1) [OF assms(3), where cells = "\<lambda>_ _. []" and d' = "()"] by (simp add: store_inv_def)
  have mb: "as_metadata_blocks s2 = as_metadata_blocks s" using g2 assms(1) o(1) by (simp add: geometry_inv_def)
  have bb: "as_bitmap_blocks s2 = as_bitmap_blocks s" using o(4) assms(1) by (auto simp: geometry_inv_def)
  have "as_base s2 = as_base s" using g2 assms(1) o(3) bb by (simp add: geometry_inv_def)
  moreover have "as_data_base s2 = as_data_base s" using g2 assms(1) mb calculation by (simp add: geometry_inv_def)
  ultimately show ?thesis using o assms(2) mb bb by (simp add: same_config_def)
qed

section \<open>A card that does not fail\<close>

definition reliable :: "'d fv_block_device_ops \<Rightarrow> bool" where
  "reliable B \<longleftrightarrow> (\<forall>d first n. fst (blk_read B d first n) = FV_BLOCK_OK) \<and>
     (\<forall>d first n data. fst (blk_write B d first n data) = FV_BLOCK_OK) \<and>
     (\<forall>d. fst (blk_sync B d) = FV_BLOCK_OK)"

lemma reliableD:
  "reliable B \<Longrightarrow> blk_read B d first n = (r, x) \<Longrightarrow> r = FV_BLOCK_OK"
  "reliable B \<Longrightarrow> blk_write B d first n data = (r, d') \<Longrightarrow> r = FV_BLOCK_OK"
  "reliable B \<Longrightarrow> blk_sync B d = (r, d') \<Longrightarrow> r = FV_BLOCK_OK"
  unfolding reliable_def by (metis fst_conv)+

lemma bitmap_load_reliable: "reliable B \<Longrightarrow> fst (bitmap_load B j (s, d)) = FV_BLOCK_OK"
  by (auto simp: bitmap_load_def Let_def dest: reliableD split: prod.splits)

lemma load_bits_reliable: "reliable B \<Longrightarrow> fst (load_bits B first is sd) = FV_BLOCK_OK"
  by (induction B first "is" sd rule: load_bits.induct)
    (auto split: prod.splits simp: bitmap_load_reliable prod_eq_iff)

lemma load_runs_reliable: "reliable B \<Longrightarrow> fst (load_runs B first n i s d) = FV_BLOCK_OK"
proof (induction "n - i" arbitrary: i s d rule: less_induct)
  case less
  show ?case
  proof (cases "i < n")
    case True
    obtain r bs d1 where rd: "meta_read B s d (first + i) (run_end (initialized_bit s) n i - i) = (r, bs, d1)"
      by (cases "meta_read B s d (first + i) (run_end (initialized_bit s) n i - i)") auto
    have "r = FV_BLOCK_OK" using rd reliableD(1) [OF less.prems] by (simp add: meta_read_def)
    then show ?thesis
      using True rd less.hyps [of "Suc i", OF _ less.prems]
        less.hyps [of "run_end (initialized_bit s) n i", OF _ less.prems] run_end_greater [of i n "initialized_bit s"]
      by (subst load_runs.simps) (auto simp: Let_def intro: diff_less_mono2)
  qed (subst load_runs.simps, simp)
qed

lemma load_reliable: "reliable B \<Longrightarrow> fst (load B lba cnt (s, d)) = FV_BLOCK_OK"
  using load_bits_reliable [of B] load_runs_reliable [of B]
  by (auto simp: load_def load_fill_def Let_def meta_read_def dest: reliableD split: prod.splits)
    (metis fst_conv)+

lemma write_tags_total:
  "(\<And>x dat. store_tag SL s x dat \<noteq> None) \<Longrightarrow> fst (write_tags SL lba data is s) = True"
  by (induction SL lba data "is" s rule: write_tags.induct) (auto simp: Let_def split: option.splits)

lemma publish_loop_reliable: "reliable B \<Longrightarrow> fst (publish_loop B first offset cnt i s d) = FV_BLOCK_OK"
proof (induction "cnt - i" arbitrary: i s d rule: less_induct)
  case less
  show ?case
  proof (cases "i < cnt")
    case True
    obtain r s1 d1 where bl: "bitmap_load B (first + i) (s, d) = (r, s1, d1)"
      by (cases "bitmap_load B (first + i) (s, d)") auto
    have r: "r = FV_BLOCK_OK" using bitmap_load_reliable [OF less.prems, of "first + i" s d] bl by simp
    define m where "m = publish_marks first offset cnt ((first + i) div 4096) (s1, i, False)"
    have i: "i < fst (snd m)" unfolding m_def by (rule publish_marks_greater)
    have ih: "fst (publish_loop B first offset cnt (fst (snd m)) s' d') = FV_BLOCK_OK" for s' d'
      using True i by (intro less.hyps less.prems) linarith
    show ?thesis
      using True r bl ih unfolding m_def
      by (subst publish_loop.simps) (auto simp: Let_def dest: reliableD [OF less.prems] split: prod.splits)
  qed (subst publish_loop.simps, simp)
qed

lemma publish_reliable: "reliable B \<Longrightarrow> fst (publish B first n (s, d)) = FV_BLOCK_OK"
  using publish_loop_reliable [of B]
  by (auto simp: publish_def Let_def dest: reliableD split: prod.splits) (metis fst_conv)+

lemma auth_write_reliable:
  assumes "reliable B" "store_validate s0 lba cnt p = FV_BLOCK_OK"
    and ld: "load B lba cnt (s0, d) = (FV_BLOCK_OK, s1, d1)"
    and tags: "\<And>x dat. store_tag SL s1 x dat \<noteq> None"
  shows "\<exists>s' d'. fv_auth_write SL B lba cnt (p, data) (s0, d) = (FV_BLOCK_OK, s', d')"
proof -
  obtain s2 where tg: "write_tags SL lba data [0..<cnt] s1 = (True, s2)"
    using write_tags_total [of SL s1] tags by (metis prod.collapse)
  obtain d2 where dw: "blk_write B d1 (as_data_base s2 + lba) cnt data = (FV_BLOCK_OK, d2)"
    using reliableD(2) [OF assms(1)] by (metis prod.collapse)
  obtain d3 where mw: "meta_write B s2 d2 (lba div 15) ((lba + cnt - 1) div 15 - lba div 15 + 1)
      (span (as_cache s2) (store_entry s2 lba) (((lba + cnt - 1) div 15 - lba div 15 + 1) * 512)) = (FV_BLOCK_OK, d3)"
    unfolding meta_write_def using reliableD(2) [OF assms(1)] by (metis prod.collapse)
  obtain s4 d4 where "publish B (lba div 15) ((lba + cnt - 1) div 15 - lba div 15 + 1) (s2, d3) = (FV_BLOCK_OK, s4, d4)"
    using publish_reliable [OF assms(1)] by (metis prod.collapse)
  with assms(2) ld tg dw mw show ?thesis unfolding auth_write_ok_iff by blast
qed

lemma read_states_total:
  "\<forall>i \<in> set is. as_cache s ! (store_entry s (lba + i) + (lba + i) mod 15) \<in> {0, 1} \<Longrightarrow>
   fst (read_states lba s is u) = FV_BLOCK_OK"
  by (induction lba s "is" u rule: read_states.induct) (auto simp: Let_def)

lemma read_runs_reliable: "reliable B \<Longrightarrow> fst (read_runs B s u lba cnt i data d) = FV_BLOCK_OK"
proof (induction "cnt - i" arbitrary: i data d rule: less_induct)
  case less
  show ?case
  proof (cases "i < cnt")
    case True
    define e where "e = run_end (\<lambda>j. \<not> fv_auth_sector_unset u j) cnt (Suc i)"
    have e: "i < e" using run_end_ge [of "Suc i"] by (simp add: e_def Suc_le_eq)
    have ih: "fst (read_runs B s u lba cnt j data' d') = FV_BLOCK_OK" if "i < j" for j data' d'
      using True that by (intro less.hyps less.prems) linarith
    obtain r bs d1 where rd: "blk_read B d (as_data_base s + lba + i) (e - i) = (r, bs, d1)"
      by (cases "blk_read B d (as_data_base s + lba + i) (e - i)") auto
    show ?thesis
      using True ih [OF e] ih [of "Suc i"] rd reliableD(1) [OF less.prems rd]
      by (subst read_runs.simps) (simp add: Let_def flip: e_def)
  qed (subst read_runs.simps, simp)
qed

lemma read_verify_total:
  "\<forall>i \<in> set is. \<not> fv_auth_sector_unset u i \<longrightarrow>
     (\<exists>t. store_tag SL s (lba + i) (span data (i * 512) 512) = Some t \<and>
        fv_tag_equal t (span (as_cache s) (store_entry s (lba + i) + 32 + (lba + i) mod 15 * 32) 32)) \<Longrightarrow>
   read_verify SL s u lba data is = FV_BLOCK_OK"
  by (induction SL s u lba data "is" rule: read_verify.induct) (auto simp: Let_def)

lemma auth_read_reliable:
  assumes rel: "reliable B" and law: "disk_law B cells" and inv: "store_inv cells s d"
    and v: "store_validate s lba cnt p = FV_BLOCK_OK" and len: "length data = cnt * 512"
    and good: "\<forall>i < cnt. sector_lookup SL cells s d (lba + i) \<noteq> Sector_Corrupt"
  shows "\<exists>out u s' d'. fv_auth_read_batch SL B lba cnt (p, data) (s, d) = (FV_BLOCK_OK, out, u, s', d')"
proof -
  note req = validate_ok [OF v]
  obtain s1 d1 where ld: "load B lba cnt (s, d) = (FV_BLOCK_OK, s1, d1)"
    using load_reliable [OF rel, of lba cnt s d] by (metis prod.collapse)
  have l: "cells d1 = cells d" "same_config s s1" "store_inv cells s1 d1"
      "as_cache_first s1 \<le> lba div 15" "(lba + cnt - 1) div 15 < as_cache_first s1 + as_cache_count s1"
    using load_spec [OF law inv _ _ _ ld] req by auto
  have lk: "sector_lookup SL cells s1 d1 (lba + i) \<noteq> Sector_Corrupt" if "i < cnt" for i
    using good that sector_lookup_cong [OF l(2), of cells d1 d SL] l(1) by simp
  have ce: "as_cache s1 ! (store_entry s1 (lba + i) + (lba + i) mod 15) = sector_state cells s1 d1 (lba + i)"
    "span (as_cache s1) (store_entry s1 (lba + i) + 32 + (lba + i) mod 15 * 32) 32 = sector_tag cells s1 d1 (lba + i)"
    if "i < cnt" for i
    using cached_entry(1,2) [OF l(3) load_cached [OF l(4,5) that]] .
  have st01: "sector_state cells s1 d1 (lba + i) \<in> {0, 1}" if "i < cnt" for i
    using lk [OF that] by (auto simp: sector_lookup_def Let_def split: if_splits)
  have "\<forall>i \<in> set [0..<cnt]. as_cache s1 ! (store_entry s1 (lba + i) + (lba + i) mod 15) \<in> {0, 1}"
    using ce(1) st01 by auto
  then obtain u where st: "read_states lba s1 [0..<cnt] no_unset = (FV_BLOCK_OK, u)"
    using read_states_total [of "[0..<cnt]" s1 lba no_unset] by (metis prod.collapse)
  have lu: "length no_unset = 2" "\<forall>i \<in> set [0..<cnt]. i < 128" using req by (auto simp: no_unset_def)
  note states = read_states_spec [OF st lu refl]
  obtain out d2 where rn: "read_runs B s1 u lba cnt 0 data d1 = (FV_BLOCK_OK, out, d2)"
    using read_runs_reliable [OF rel, of s1 u lba cnt 0 data d1] by (metis prod.collapse)
  have o: "span out (i * 512) 512 = (if fv_auth_sector_unset u i then zeros 512 else cells d1 (as_data_base s1 + (lba + i)))"
    if "i < cnt" for i using read_runs_spec [OF law len _ rn] that by simp
  have "read_verify SL s1 u lba out [0..<cnt] = FV_BLOCK_OK"
  proof (rule read_verify_total, intro ballI impI)
    fix i assume "i \<in> set [0..<cnt]" and nu: "\<not> fv_auth_sector_unset u i"
    then have i: "i < cnt" by simp
    have "sector_state cells s1 d1 (lba + i) \<noteq> 0"
      using states i req nu ce(1) [OF i] by (metis atLeastLessThan_iff atLeastLessThan_upt le0 less_le_trans)
    with st01 [OF i] lk [OF i] o [OF i] nu
    show "\<exists>t. store_tag SL s1 (lba + i) (span out (i * 512) 512) = Some t \<and>
        fv_tag_equal t (span (as_cache s1) (store_entry s1 (lba + i) + 32 + (lba + i) mod 15 * 32) 32)"
      by (auto simp: sector_lookup_def Let_def ce(2) [OF i] split: option.splits if_splits)
  qed
  with v ld st rn show ?thesis unfolding read_batch_ok_iff by blast
qed

lemma read_runs_length: "length (fst (snd (read_runs B s u lba cnt i data d))) = length data"
proof (induction "cnt - i" arbitrary: i data d rule: less_induct)
  case less
  show ?case
  proof (cases "i < cnt")
    case True
    define e where "e = run_end (\<lambda>j. \<not> fv_auth_sector_unset u j) cnt (Suc i)"
    have e: "i < e" using run_end_ge [of "Suc i"] by (simp add: e_def Suc_le_eq)
    have ih: "length (fst (snd (read_runs B s u lba cnt j data' d'))) = length data'" if "i < j" for j data' d'
      using True that by (intro less.hyps) linarith
    obtain r bs d1 where rd: "blk_read B d (as_data_base s + lba + i) (e - i) = (r, bs, d1)"
      by (cases "blk_read B d (as_data_base s + lba + i) (e - i)") auto
    show ?thesis
      using True ih [OF e] ih [of "Suc i"] rd
      by (subst read_runs.simps) (simp add: Let_def flip: e_def)
  qed (subst read_runs.simps, simp)
qed

lemma read_batch_failure:
  assumes "fv_auth_read_batch SL B lba cnt (p, data) (s, d) = (r, out, u, s', d')"
    and "r \<noteq> FV_BLOCK_OK" "store_validate s lba cnt p = FV_BLOCK_OK"
  shows "\<exists>data' s1 d1. length data' = length data \<and> read_fail r cnt data' s1 d1 = (r, out, u, s', d')"
proof -
  obtain r1 s1 d1 where ld: "load B lba cnt (s, d) = (r1, s1, d1)" by (cases "load B lba cnt (s, d)") auto
  obtain r2 u2 where st: "read_states lba s1 [0..<cnt] no_unset = (r2, u2)"
    by (cases "read_states lba s1 [0..<cnt] no_unset")
  obtain r3 data3 d3 where rn: "read_runs B s1 u2 lba cnt 0 data d1 = (r3, data3, d3)"
    by (cases "read_runs B s1 u2 lba cnt 0 data d1") auto
  have l3: "length data3 = length data" using read_runs_length [of B s1 u2 lba cnt 0 data d1] rn by simp
  define G where "G \<longleftrightarrow> (\<exists>data' s1 d1. length data' = length data \<and> read_fail r cnt data' s1 d1 = (r, out, u, s', d'))"
  have rf: "G" if "read_fail x cnt dat sx dx = (r, out, u, s', d')" "length dat = length data" for x dat sx dx
  proof -
    have "x = r" using that(1) by (auto simp: read_fail_def Let_def)
    with that show ?thesis unfolding G_def by blast
  qed
  have "G"
    using assms ld st rn unfolding fv_auth_read_batch_def Let_def prod.case
    by (simp split: if_splits) (rule rf, assumption, simp add: l3)+
  then show ?thesis by (simp add: G_def)
qed

section \<open>Properties\<close>

lemma concat_spans:
  "length a = n * 512 \<Longrightarrow> length b = n * 512 \<Longrightarrow> (\<And>i. i < n \<Longrightarrow> span a (i * 512) 512 = span b (i * 512) 512) \<Longrightarrow> a = b"
proof (rule nth_equalityI)
  fix k
  assume l: "length a = n * 512" "length b = n * 512" and e: "\<And>i. i < n \<Longrightarrow> span a (i * 512) 512 = span b (i * 512) 512"
    and k: "k < length a"
  have i: "k div 512 < n" using k l by (simp add: less_mult_imp_div_less)
  have "span a (k div 512 * 512) 512 ! (k mod 512) = span b (k div 512 * 512) 512 ! (k mod 512)" using e [OF i] by simp
  then show "a ! k = b ! k" using k l by (simp add: nth_span)
qed simp

text \<open>A batch read that succeeds is authentic: each returned sector is either unset (reported in
  the mask and zero-filled, never decrypted) or the ciphertext on the card whose HMAC over volume,
  address and content matches its stored tag. Corrupt sectors are never returned, the cache stays
  consistent and nothing on the card changes.\<close>

theorem auth_read_authentic:
  assumes "disk_law B cells" "store_inv cells s d" "length data = cnt * 512"
    and "fv_auth_read_batch SL B lba cnt (p, data) (s, d) = (FV_BLOCK_OK, out, u, s', d')"
  shows "store_inv cells s' d' \<and> same_config s s' \<and> cells d' = cells d \<and> length out = cnt * 512 \<and>
    (\<forall>i < cnt. case sector_lookup SL cells s d (lba + i) of
        Sector_Unset \<Rightarrow> fv_auth_sector_unset u i \<and> span out (i * 512) 512 = zeros 512
      | Sector_Data x \<Rightarrow> \<not> fv_auth_sector_unset u i \<and> span out (i * 512) 512 = x
      | Sector_Corrupt \<Rightarrow> False)"
  using assms by (rule read_batch_sound)


text \<open>C29. What a successful batch write stored is what any later successful read of these sectors
  returns, through the same store object or through one opened afterwards on the same card with the
  same key and layout; every sector outside the batch keeps its state and content, and no block of
  the card outside the store's own regions is touched.\<close>

theorem auth_write_then_read:
  assumes "disk_law B cells" "digest_law SL" "store_inv cells s d" "length data = cnt * 512"
    and "fv_auth_write SL B lba cnt (p, data) (s, d) = (FV_BLOCK_OK, s', d')"
    and "store_inv cells s2 d'" "same_config s s2" "length buf = cnt * 512"
    and "fv_auth_read_batch SL B lba cnt (q, buf) (s2, d') = (FV_BLOCK_OK, out, u, s3, d3)"
  shows "out = data \<and> (\<forall>i < cnt. \<not> fv_auth_sector_unset u i) \<and> store_inv cells s' d' \<and>
    (\<forall>x < as_blocks s. x < lba \<or> lba + cnt \<le> x \<longrightarrow> sector_lookup SL cells s' d' x = sector_lookup SL cells s d x) \<and>
    (\<forall>a. a < as_bitmap_base s \<or> as_data_base s + as_blocks s \<le> a \<longrightarrow> cells d' a = cells d a)"
proof -
  note w = auth_write_correct [OF assms(1-5)]
  note r = read_batch_sound [OF assms(1,6,8,9)]
  have c: "same_config s' s2" using w assms(7) by (auto simp: same_config_def)
  have "sector_lookup SL cells s2 d' (lba + i) = Sector_Data (span data (i * 512) 512)" if "i < cnt" for i
    using w that sector_lookup_cong [OF c, of cells d' d' SL] by simp
  with r have i: "span out (i * 512) 512 = span data (i * 512) 512 \<and> \<not> fv_auth_sector_unset u i" if "i < cnt" for i
    using that by fastforce
  then have "out = data" using r assms(4) by (intro concat_spans [of out cnt data]) auto
  with i w show ?thesis by blast
qed

text \<open>On a card whose transfers do not fail, the store makes progress: every accepted batch write
  returns success and every accepted read of sectors that are not corrupt does too.\<close>

theorem auth_store_live:
  assumes "disk_law B cells" "reliable B" "store_inv cells s d" "length data = cnt * 512"
    and "store_validate s lba cnt p = FV_BLOCK_OK"
    and "\<forall>x dat. \<exists>t. store_tag SL s x dat = Some t"
  shows "(\<exists>s' d'. fv_auth_write SL B lba cnt (p, data) (s, d) = (FV_BLOCK_OK, s', d')) \<and>
    ((\<forall>i < cnt. sector_lookup SL cells s d (lba + i) \<noteq> Sector_Corrupt) \<longrightarrow>
     (\<exists>out u s' d'. fv_auth_read_batch SL B lba cnt (p, data) (s, d) = (FV_BLOCK_OK, out, u, s', d')))"
proof -
  obtain s1 d1 where ld: "load B lba cnt (s, d) = (FV_BLOCK_OK, s1, d1)"
    using load_reliable [OF assms(2), of lba cnt s d] by (metis prod.collapse)
  have "same_config s s1" using load_spec [OF assms(1,3) _ _ _ ld] validate_ok [OF assms(5)] by auto
  then have tags: "store_tag SL s1 x dat \<noteq> None" for x dat
    using assms(6) store_tag_cong [of s s1 SL] by simp
  have "\<exists>s' d'. fv_auth_write SL B lba cnt (p, data) (s, d) = (FV_BLOCK_OK, s', d')"
    by (rule auth_write_reliable [OF assms(2,5) ld tags])
  then show ?thesis using auth_read_reliable [OF assms(2,1,3,5,4)] by blast
qed

section \<open>The properties at work\<close>

text \<open>A store of 100 sectors with a bitmap on a blank card in memory.\<close>

definition test_store :: fv_auth_store where
  "test_store = snd (open_store test_sha True (ram_device 500) (\<lambda>_. []) 10 100 (replicate 16 1) [7])"

abbreviation blank :: "nat \<Rightarrow> u8 list" where "blank \<equiv> (\<lambda>_. [])"

lemma test_store_open:
  "open_store test_sha True (ram_device 500) blank 10 100 (replicate 16 1) [7] = (FV_BLOCK_OK, test_store)"
  by (simp add: test_store_def open_store_def Let_def div_ceil_def ram_device_def test_hmac_init)

lemma test_store_facts:
  "store_inv ram_cells test_store blank" "as_ready test_store" "as_blocks test_store = 100"
  "as_hmac test_store = test_hmac" "as_bitmap_blocks test_store = 1" "as_bitmap_base test_store = 10"
  using open_store_inv [OF test_store_open] test_hmac_init by (auto simp: div_ceil_def)

lemma reliable_ram: "reliable (ram_device sz)"
  by (simp add: reliable_def ram_device_def)

lemma test_store_tag: "as_hmac s = test_hmac \<Longrightarrow> \<exists>t. store_tag test_sha s x dat = Some t"
  by (simp add: store_tag_def Let_def test_hmac_compute)

lemma test_store_validate: "store_validate test_store 14 3 4 = FV_BLOCK_OK"
  by (simp add: store_validate_def test_store_facts FV_AUTH_MAX_BATCH_SECTORS_def)

lemma test_store_write:
  "\<exists>s' d'. fv_auth_write test_sha (ram_device 500) 14 3 (4, replicate 1536 9) (test_store, blank) = (FV_BLOCK_OK, s', d')"
proof -
  obtain s1 d1 where ld: "load (ram_device 500) 14 3 (test_store, blank) = (FV_BLOCK_OK, s1, d1)"
    using load_reliable [OF reliable_ram, of 500 14 3 test_store blank] by (metis prod.collapse)
  have "same_config test_store s1"
    using load_spec [OF disk_law_ram test_store_facts(1) _ _ _ ld] test_store_facts by simp
  then have "\<And>x dat. store_tag test_sha s1 x dat \<noteq> None"
    using test_store_tag test_store_facts(4) by (auto simp: same_config_def)
  with auth_write_reliable [OF reliable_ram test_store_validate ld] show ?thesis by blast
qed

lemma test_store_write_read:
  assumes "fv_auth_write test_sha (ram_device 500) 14 3 (4, replicate 1536 9) (test_store, blank) = (FV_BLOCK_OK, s', d')"
  shows "\<exists>out u s3 d3. fv_auth_read_batch test_sha (ram_device 500) 14 3 (4, zeros 1536) (s', d') = (FV_BLOCK_OK, out, u, s3, d3)"
proof -
  note w = auth_write_correct [OF disk_law_ram digest_law_test_sha test_store_facts(1) _ assms]
  have v: "store_validate s' 14 3 4 = FV_BLOCK_OK"
    using w test_store_facts by (auto simp: store_validate_def same_config_def FV_AUTH_MAX_BATCH_SECTORS_def)
  show ?thesis
    by (rule auth_read_reliable [OF reliable_ram disk_law_ram _ v]) (use w in auto)
qed

lemma auth_read_authentic_witness:
  "\<exists>s' d' out u s3 d3.
     fv_auth_write test_sha (ram_device 500) 14 3 (4, replicate 1536 9) (test_store, blank) = (FV_BLOCK_OK, s', d') \<and>
     fv_auth_read_batch test_sha (ram_device 500) 14 3 (4, zeros 1536) (s', d') = (FV_BLOCK_OK, out, u, s3, d3) \<and>
     store_inv ram_cells s3 d3 \<and> length out = 1536"
proof -
  obtain s' d' where w: "fv_auth_write test_sha (ram_device 500) 14 3 (4, replicate 1536 9) (test_store, blank) = (FV_BLOCK_OK, s', d')"
    using test_store_write by blast
  obtain out u s3 d3 where r: "fv_auth_read_batch test_sha (ram_device 500) 14 3 (4, zeros 1536) (s', d') = (FV_BLOCK_OK, out, u, s3, d3)"
    using test_store_write_read [OF w] by blast
  have i: "store_inv ram_cells s' d'"
    using auth_write_correct [OF disk_law_ram digest_law_test_sha test_store_facts(1) _ w] by simp
  show ?thesis using w r auth_read_authentic [OF disk_law_ram i _ r] by auto
qed

lemma auth_write_then_read_witness:
  "\<exists>s' d' out u s3 d3.
     fv_auth_write test_sha (ram_device 500) 14 3 (4, replicate 1536 9) (test_store, blank) = (FV_BLOCK_OK, s', d') \<and>
     fv_auth_read_batch test_sha (ram_device 500) 14 3 (4, zeros 1536) (s', d') = (FV_BLOCK_OK, out, u, s3, d3) \<and>
     out = replicate 1536 9"
proof -
  obtain s' d' where w: "fv_auth_write test_sha (ram_device 500) 14 3 (4, replicate 1536 9) (test_store, blank) = (FV_BLOCK_OK, s', d')"
    using test_store_write by blast
  obtain out u s3 d3 where r: "fv_auth_read_batch test_sha (ram_device 500) 14 3 (4, zeros 1536) (s', d') = (FV_BLOCK_OK, out, u, s3, d3)"
    using test_store_write_read [OF w] by blast
  have i: "store_inv ram_cells s' d'" "same_config test_store s'"
    using auth_write_correct [OF disk_law_ram digest_law_test_sha test_store_facts(1) _ w] by simp_all
  show ?thesis
    using w r auth_write_then_read [OF disk_law_ram digest_law_test_sha test_store_facts(1) _ w i _ r] by auto
qed

lemma auth_store_live_witness:
  "\<exists>s' d'. fv_auth_write test_sha (ram_device 500) 14 3 (4, replicate 1536 9) (test_store, blank) = (FV_BLOCK_OK, s', d')"
  using auth_store_live [OF disk_law_ram reliable_ram test_store_facts(1) _ test_store_validate, of "replicate 1536 9" test_sha]
    test_store_tag test_store_facts(4) by simp

text \<open>A card whose reads fail.\<close>

definition dead_device :: "nat \<Rightarrow> (nat \<Rightarrow> u8 list) fv_block_device_ops" where
  "dead_device sz = (ram_device sz)\<lparr>blk_read := (\<lambda>c first n. (FV_BLOCK_ERROR_IO, replicate (n * 512) 5, c))\<rparr>"


end
