(* ===== verification/Vault.thy ===== *)
theory Vault
  imports Device_State Auth_Store_Correct
begin

text \<open>
  The vault (\<^verbatim>\<open>src/src/shared/security/vault.c\<close>): recovery of an interrupted attempt or destruction,
  creation, unlocking under the attempt budget, reverification, change of credential, and sector I/O
  through the cascade and the authenticated store. A platform is the table of callbacks (the card, the
  authority, the random source); \<open>vault_world\<close> is the state behind them. The session's pointer to its
  platform is the platform argument of its operations. Progress callbacks of the formatting are not
  passed on.
\<close>

record fv_vault =
  v_pipeline :: fv_pipeline
  v_store :: fv_auth_store
  v_config :: fv_envelope_config
  v_vmk :: "u8 list"
  v_unlocked :: bool
  v_header_repair_pending :: bool

datatype fv_vault_result =
  FV_VAULT_OK | FV_VAULT_INVALID | FV_VAULT_STATE | FV_VAULT_IO | FV_VAULT_AUTH | FV_VAULT_DENIED
  | FV_VAULT_CHANGED_NEEDS_MIRROR

record ('a, 'd, 'r) vault_world =
  w_authority :: 'a
  w_sd :: 'd
  w_random :: 'r

record ('a, 'd, 'r) fv_vault_platform =
  vp_sd :: "'d fv_block_device_ops"
  vp_authority :: "'a fv_device_authority"
  vp_random :: "'r fv_random_bytes option"
  vp_kdf_limits :: fv_kdf_limits
  vp_format_scratch :: nat
  vp_format_sectors :: nat
  vp_initialize_contents :: "(fv_vault \<Rightarrow> 'd \<Rightarrow> bool \<times> fv_vault \<times> 'd) option"

text \<open>\<^verbatim>\<open>mbedtls_platform_zeroize(v,sizeof(*v))\<close>.\<close>

definition zero_config :: fv_envelope_config where
  "zero_config = \<lparr>ec_volume = \<lparr>layout_version = 0, volume_id = zeros 16, logical_blocks = 0, layer_count = 0,
       cipher_ids = replicate 4 0\<rparr>, ec_device_id = zeros 16, ec_credential_generation = 0, ec_credential_profile = 0,
     ec_iterations = 0, ec_token_slot = 0, ec_policy = ds_policy zero_state\<rparr>"

definition fv_vault_lock :: fv_vault where
  "fv_vault_lock = \<lparr>v_pipeline = fv_pipeline_clear, v_store = fv_auth_close, v_config = zero_config, v_vmk = zeros 32,
     v_unlocked = False, v_header_repair_pending = False\<rparr>"

section \<open>Recovery\<close>

definition platform_valid :: "('a, 'd, 'r) fv_vault_platform \<Rightarrow> bool" where
  "platform_valid p \<longleftrightarrow> kdf_minimum (vp_kdf_limits p) \<noteq> 0 \<and> kdf_maximum (vp_kdf_limits p) \<ge> kdf_minimum (vp_kdf_limits p)"

definition media_valid :: "('a, 'd, 'r) fv_vault_platform \<Rightarrow> ('a, 'd, 'r) vault_world \<Rightarrow> bool" where
  "media_valid p w \<longleftrightarrow> blk_present (vp_sd p) (w_sd w)"

definition state_valid :: "fv_device_state \<Rightarrow> bool" where
  "state_valid s \<longleftrightarrow>
     (if ds_status s < FV_ENROLLMENT_EMPTY \<or> ds_status s > FV_ENROLLMENT_DESTROYED then False
      else if ds_status s = FV_ENROLLMENT_EMPTY
      then ds_attempts s = 0 \<and> \<not> ds_attempt_pending s \<and> ds_credential_generation s = 0
      else ds_credential_generation s \<noteq> 0 \<and> fv_auth_policy_encode (ds_policy s) \<noteq> None \<and>
        ds_attempts s \<le> max_attempts (ds_policy s) \<and> (\<not> ds_attempt_pending s \<or> ds_attempts s \<noteq> 0))"

definition vault_load ::
  "('a, 'd, 'r) fv_vault_platform \<Rightarrow> ('a, 'd, 'r) vault_world \<Rightarrow> fv_device_state option \<times> ('a, 'd, 'r) vault_world" where
  "vault_load p w = (case au_load (vp_authority p) (w_authority w) of (s, a) \<Rightarrow> (s, w\<lparr>w_authority := a\<rparr>))"

definition vault_commit ::
  "('a, 'd, 'r) fv_vault_platform \<Rightarrow> fv_device_state \<Rightarrow> ('a, 'd, 'r) vault_world
   \<Rightarrow> bool \<times> fv_device_state \<times> ('a, 'd, 'r) vault_world" where
  "vault_commit p s w =
     (let previous = ds_sequence s in
      if previous = UINT64_MAX then (False, s, w)
      else
        (let s = s\<lparr>ds_sequence := previous + 1\<rparr> in
         case au_commit (vp_authority p) previous s (w_authority w) of (ok, a) \<Rightarrow> (ok, s, w\<lparr>w_authority := a\<rparr>)))"

text \<open>The second half of \<^verbatim>\<open>limit\<close>, for a state with destruction pending.\<close>

definition limit_destroy ::
  "('a, 'd, 'r) fv_vault_platform \<Rightarrow> fv_device_state \<Rightarrow> ('a, 'd, 'r) vault_world \<Rightarrow> fv_vault_result \<times> ('a, 'd, 'r) vault_world" where
  "limit_destroy p s w =
     (if ds_status s = FV_ENROLLMENT_DESTROY_PENDING
      then case au_destroy (vp_authority p) of None \<Rightarrow> (FV_VAULT_STATE, w)
        | Some destroy \<Rightarrow>
          (case destroy (ds_token_slot s) (w_authority w) of
             (False, a) \<Rightarrow> (FV_VAULT_STATE, w\<lparr>w_authority := a\<rparr>)
           | (True, a) \<Rightarrow>
             (case vault_commit p (s\<lparr>ds_status := FV_ENROLLMENT_DESTROYED\<rparr>) (w\<lparr>w_authority := a\<rparr>) of
                (ok, s, w) \<Rightarrow> (if ok then FV_VAULT_DENIED else FV_VAULT_STATE, w)))
      else (FV_VAULT_DENIED, w))"

definition vault_limit ::
  "('a, 'd, 'r) fv_vault_platform \<Rightarrow> fv_device_state \<Rightarrow> ('a, 'd, 'r) vault_world \<Rightarrow> fv_vault_result \<times> ('a, 'd, 'r) vault_world" where
  "vault_limit p s w =
     (if ds_status s = FV_ENROLLMENT_ACTIVE
      then
        (let s = s\<lparr>ds_status := (if limit_action (ds_policy s) = FV_LIMIT_DESTROY
                                  then FV_ENROLLMENT_DESTROY_PENDING else FV_ENROLLMENT_LOCKED),
                   ds_attempt_pending := False\<rparr>
         in case vault_commit p s w of
              (False, s, w) \<Rightarrow> (FV_VAULT_STATE, w)
            | (True, s, w) \<Rightarrow> limit_destroy p s w)
      else limit_destroy p s w)"

definition vault_recover ::
  "('a, 'd, 'r) fv_vault_platform \<Rightarrow> ('a, 'd, 'r) vault_world
   \<Rightarrow> fv_vault_result \<times> fv_device_state \<times> ('a, 'd, 'r) vault_world" where
  "vault_recover p w =
     (if \<not> platform_valid p then (FV_VAULT_INVALID, zero_state, w)
      else case vault_load p w of (None, w) \<Rightarrow> (FV_VAULT_STATE, zero_state, w)
      | (Some s, w) \<Rightarrow>
        if \<not> state_valid s then (FV_VAULT_STATE, s, w)
        else if ds_status s = FV_ENROLLMENT_DESTROY_PENDING \<or>
           (ds_status s = FV_ENROLLMENT_ACTIVE \<and> limit_action (ds_policy s) \<noteq> FV_LIMIT_NONE \<and>
            ds_attempts s = max_attempts (ds_policy s))
        then (case vault_limit p s w of (r, w) \<Rightarrow> (r, s, w))
        else if ds_status s = FV_ENROLLMENT_LOCKED \<or> ds_status s = FV_ENROLLMENT_DESTROYED then (FV_VAULT_DENIED, s, w)
        else if ds_attempt_pending s
        then (case vault_commit p (s\<lparr>ds_attempt_pending := False\<rparr>) w of
                (ok, s, w) \<Rightarrow> (if ok then FV_VAULT_OK else FV_VAULT_STATE, s, w))
        else (FV_VAULT_OK, s, w))"

definition fv_vault_recover where
  "fv_vault_recover p w = (case vault_recover p w of (r, s, w) \<Rightarrow> (r, w))"

section \<open>Headers on the card\<close>

definition config_matches :: "fv_envelope_config \<Rightarrow> fv_device_state \<Rightarrow> bool" where
  "config_matches c s \<longleftrightarrow>
     ec_credential_generation c = ds_credential_generation s \<and> ec_token_slot c = ds_token_slot s \<and>
     ec_device_id c = ds_device_id s \<and> volume_id (ec_volume c) = ds_volume_id s \<and>
     max_attempts (ec_policy c) = max_attempts (ds_policy s) \<and> limit_action (ec_policy c) = limit_action (ds_policy s) \<and>
     auto_lock_seconds (ec_policy c) = auto_lock_seconds (ds_policy s) \<and>
     screen_sleep_seconds (ec_policy c) = screen_sleep_seconds (ds_policy s)"

definition capacity :: "('a, 'd, 'r) fv_vault_platform \<Rightarrow> ('a, 'd, 'r) vault_world \<Rightarrow> u64" where
  "capacity p w = of_nat (blk_count (vp_sd p) (w_sd w))"

fun select_loop ::
  "sha_lib \<Rightarrow> ('a, 'd, 'r) fv_vault_platform \<Rightarrow> fv_device_state \<Rightarrow> nat list \<Rightarrow> ('a, 'd, 'r) vault_world
   \<Rightarrow> (u8 list \<times> fv_envelope_config \<times> nat) option \<times> ('a, 'd, 'r) vault_world" where
  "select_loop SL p s [] w = (None, w)"
| "select_loop SL p s (i # is) w =
     (case blk_read (vp_sd p) (w_sd w) (i * 8) 1 of (r, h, d) \<Rightarrow>
        let w = w\<lparr>w_sd := d\<rparr> in
        if r \<noteq> FV_BLOCK_OK then select_loop SL p s is w
        else case sha_oneshot SL h of None \<Rightarrow> select_loop SL p s is w
        | Some hash \<Rightarrow>
          if \<not> fv_tag_equal hash (ds_header_hash s) then select_loop SL p s is w
          else case fv_envelope_parse h (capacity p w) (vp_kdf_limits p) of None \<Rightarrow> select_loop SL p s is w
          | Some c \<Rightarrow> if \<not> config_matches c s then select_loop SL p s is w else (Some (h, c, i), w))"

definition select_header ::
  "sha_lib \<Rightarrow> ('a, 'd, 'r) fv_vault_platform \<Rightarrow> fv_device_state \<Rightarrow> ('a, 'd, 'r) vault_world
   \<Rightarrow> (u8 list \<times> fv_envelope_config \<times> nat) option \<times> ('a, 'd, 'r) vault_world" where
  "select_header SL p s w = (if \<not> media_valid p w then (None, w) else select_loop SL p s [0..<2] w)"

definition fv_vault_credential_profile ::
  "sha_lib \<Rightarrow> ('a, 'd, 'r) fv_vault_platform \<Rightarrow> ('a, 'd, 'r) vault_world \<Rightarrow> fv_vault_result \<times> u16 \<times> ('a, 'd, 'r) vault_world" where
  "fv_vault_credential_profile SL p w =
     (if \<not> platform_valid p then (FV_VAULT_INVALID, 0, w)
      else case vault_load p w of (None, w) \<Rightarrow> (FV_VAULT_STATE, 0, w)
      | (Some s, w) \<Rightarrow>
        if \<not> state_valid s \<or> ds_status s \<noteq> FV_ENROLLMENT_ACTIVE then (FV_VAULT_STATE, 0, w)
        else case select_header SL p s w of (None, w) \<Rightarrow> (FV_VAULT_IO, 0, w)
        | (Some (h, c, i), w) \<Rightarrow> (FV_VAULT_OK, ec_credential_profile c, w))"

text \<open>\<open>True\<close> is success, the return value 0.\<close>

definition save_header ::
  "('a, 'd, 'r) fv_vault_platform \<Rightarrow> nat \<Rightarrow> u8 list \<Rightarrow> ('a, 'd, 'r) vault_world \<Rightarrow> bool \<times> ('a, 'd, 'r) vault_world" where
  "save_header p copy h w =
     (case blk_write (vp_sd p) (w_sd w) (copy * 8) 1 h of (r, d) \<Rightarrow>
        if r \<noteq> FV_BLOCK_OK then (False, w\<lparr>w_sd := d\<rparr>)
        else case blk_sync (vp_sd p) d of (r, d) \<Rightarrow>
          if r \<noteq> FV_BLOCK_OK then (False, w\<lparr>w_sd := d\<rparr>)
          else case blk_read (vp_sd p) d (copy * 8) 1 of (r, verify, d) \<Rightarrow>
            (r = FV_BLOCK_OK \<and> verify = h, w\<lparr>w_sd := d\<rparr>))"

definition repair_header_copy ::
  "('a, 'd, 'r) fv_vault_platform \<Rightarrow> nat \<Rightarrow> u8 list \<Rightarrow> ('a, 'd, 'r) vault_world \<Rightarrow> bool \<times> ('a, 'd, 'r) vault_world" where
  "repair_header_copy p copy h w =
     (case blk_read (vp_sd p) (w_sd w) (copy * 8) 1 of (r, other, d) \<Rightarrow>
        if r = FV_BLOCK_OK \<and> other = h then (True, w\<lparr>w_sd := d\<rparr>) else save_header p copy h (w\<lparr>w_sd := d\<rparr>))"

section \<open>Sessions\<close>

definition session_algorithms :: "fv_volume_descriptor \<Rightarrow> fv_algorithm list" where
  "session_algorithms v =
     map (\<lambda>i. if i < unat (layer_count v) then ucast (cipher_ids v ! i) else 0) [0..<4]"

definition initialize_session ::
  "sha_lib \<Rightarrow> cipher_lib \<Rightarrow> ('a, 'd, 'r) fv_vault_platform \<Rightarrow> fv_envelope_config \<Rightarrow> u8 list \<Rightarrow> ('a, 'd, 'r) vault_world
   \<Rightarrow> fv_vault option" where
  "initialize_session SL L p c vmk w =
     (let v = ec_volume c in
      case fv_derive_working_keys SL vmk v of None \<Rightarrow> None
      | Some keys \<Rightarrow>
        (case fv_pipeline_init L (session_algorithms v) (wk_layers keys) (unat (layer_count v)) of (pipeline, st) \<Rightarrow>
           if st \<noteq> FV_OK then None
           else case (if layout_version v = 2 then fv_auth_open_bitmap else fv_auth_open) SL (vp_sd p) (w_sd w)
                       (unat FV_VOLUME_METADATA_BASE) (unat (logical_blocks v)) (volume_id v) (wk_integrity keys) of
             (r, store) \<Rightarrow>
               if r \<noteq> FV_BLOCK_OK then None
               else Some \<lparr>v_pipeline = pipeline, v_store = store, v_config = c, v_vmk = vmk, v_unlocked = True,
                          v_header_repair_pending = False\<rparr>))"

definition vault_random ::
  "('a, 'd, 'r) fv_vault_platform \<Rightarrow> nat \<Rightarrow> ('a, 'd, 'r) vault_world \<Rightarrow> u8 list option \<times> ('a, 'd, 'r) vault_world" where
  "vault_random p n w =
     (case vp_random p of None \<Rightarrow> (None, w)
      | Some rng \<Rightarrow> (case rng (w_random w) n of (b, r) \<Rightarrow> (b, w\<lparr>w_random := r\<rparr>)))"

definition vault_binding ::
  "('a, 'd, 'r) fv_vault_platform \<Rightarrow> u8 list \<Rightarrow> u32 \<Rightarrow> ('a, 'd, 'r) vault_world \<Rightarrow> u8 list option \<times> ('a, 'd, 'r) vault_world" where
  "vault_binding p ident token w =
     (case au_binding (vp_authority p) ident token (w_authority w) of (b, a) \<Rightarrow> (b, w\<lparr>w_authority := a\<rparr>))"

definition vault_seal ::
  "sha_lib \<Rightarrow> cipher_lib \<Rightarrow> ('a, 'd, 'r) fv_vault_platform \<Rightarrow> fv_envelope_config \<Rightarrow> u8 list \<Rightarrow> u8 list \<Rightarrow> u8 list
   \<Rightarrow> ('a, 'd, 'r) vault_world \<Rightarrow> u8 list option \<times> ('a, 'd, 'r) vault_world" where
  "vault_seal SL L p c binding secret vmk w =
     (case vp_random p of None \<Rightarrow> (None, w)
      | Some rng \<Rightarrow>
        (case fv_envelope_seal SL L rng c (capacity p w) (vp_kdf_limits p) binding secret vmk (w_random w) of
           (h, r) \<Rightarrow> (h, w\<lparr>w_random := r\<rparr>)))"

definition vault_format ::
  "('a, 'd, 'r) fv_vault_platform \<Rightarrow> fv_auth_store \<Rightarrow> ('a, 'd, 'r) vault_world
   \<Rightarrow> fv_block_result \<times> fv_auth_store \<times> ('a, 'd, 'r) vault_world" where
  "vault_format p store w =
     (if vp_format_scratch p \<noteq> 0
      then (case fv_auth_format_buffered (vp_sd p) store (vp_format_scratch p) (vp_format_sectors p) (w_sd w) of
              (r, store, d, _) \<Rightarrow> (r, store, w\<lparr>w_sd := d\<rparr>))
      else (case fv_auth_format (vp_sd p) store (w_sd w) of (r, store, d) \<Rightarrow> (r, store, w\<lparr>w_sd := d\<rparr>)))"

definition vault_initialize_contents ::
  "('a, 'd, 'r) fv_vault_platform \<Rightarrow> fv_vault \<Rightarrow> ('a, 'd, 'r) vault_world \<Rightarrow> bool \<times> ('a, 'd, 'r) vault_world" where
  "vault_initialize_contents p v w =
     (case vp_initialize_contents p of None \<Rightarrow> (True, w)
      | Some init \<Rightarrow> (case init v (w_sd w) of (ok, _, d) \<Rightarrow> (ok, w\<lparr>w_sd := d\<rparr>)))"

section \<open>Creation\<close>

text \<open>The part of \<^verbatim>\<open>fv_vault_create\<close> after the keys exist: format, contents, both headers, anchor.\<close>

definition create_on_card ::
  "sha_lib \<Rightarrow> ('a, 'd, 'r) fv_vault_platform \<Rightarrow> fv_device_state \<Rightarrow> fv_envelope_config \<Rightarrow> u8 list \<Rightarrow> fv_vault
   \<Rightarrow> ('a, 'd, 'r) vault_world \<Rightarrow> fv_vault_result \<times> ('a, 'd, 'r) vault_world" where
  "create_on_card SL p s c header v w =
     (case vault_format p (v_store v) w of (r, store, w) \<Rightarrow>
        if r \<noteq> FV_BLOCK_OK then (FV_VAULT_IO, w)
        else case vault_initialize_contents p (v\<lparr>v_store := store\<rparr>) w of (False, w) \<Rightarrow> (FV_VAULT_IO, w)
        | (True, w) \<Rightarrow>
          (case save_header p 0 header w of (False, w) \<Rightarrow> (FV_VAULT_IO, w)
           | (True, w) \<Rightarrow>
             (case save_header p 1 header w of (False, w) \<Rightarrow> (FV_VAULT_IO, w)
              | (True, w) \<Rightarrow>
                (case sha_oneshot SL header of None \<Rightarrow> (FV_VAULT_STATE, w)
                 | Some hash \<Rightarrow>
                   (case vault_commit p
                           (s\<lparr>ds_status := FV_ENROLLMENT_ACTIVE, ds_credential_generation := 1, ds_policy := ec_policy c,
                              ds_volume_id := volume_id (ec_volume c), ds_header_hash := hash\<rparr>) w of
                      (ok, s, w) \<Rightarrow> (if ok then FV_VAULT_OK else FV_VAULT_STATE, w))))))"

definition fv_vault_create ::
  "sha_lib \<Rightarrow> cipher_lib \<Rightarrow> ('a, 'd, 'r) fv_vault_platform \<Rightarrow> u64 \<Rightarrow> u16 list \<Rightarrow> u8 \<Rightarrow> u16 \<Rightarrow> u32 \<Rightarrow> fv_auth_policy
   \<Rightarrow> u8 list \<Rightarrow> ('a, 'd, 'r) vault_world \<Rightarrow> fv_vault_result \<times> ('a, 'd, 'r) vault_world" where
  "fv_vault_create SL L p blocks algorithms cnt profile iterations policy secret w =
     (case vault_recover p w of (r, s, w) \<Rightarrow>
        if r \<noteq> FV_VAULT_OK then (r, w)
        else if ds_status s \<noteq> FV_ENROLLMENT_EMPTY then (FV_VAULT_DENIED, w)
        else if \<not> media_valid p w \<or> vp_random p = None \<or> algorithms = [] then (FV_VAULT_INVALID, w)
        else case vault_random p 16 w of (None, w) \<Rightarrow> (FV_VAULT_INVALID, w)
        | (Some vid, w) \<Rightarrow>
          (case vault_random p 32 w of (None, w) \<Rightarrow> (FV_VAULT_INVALID, w)
           | (Some vmk, w) \<Rightarrow>
             (let c = \<lparr>ec_volume = \<lparr>layout_version = 2, volume_id = vid, logical_blocks = blocks, layer_count = cnt,
                         cipher_ids = algorithms\<rparr>,
                       ec_device_id = ds_device_id s, ec_credential_generation = 1, ec_credential_profile = profile,
                       ec_iterations = iterations, ec_token_slot = ds_token_slot s, ec_policy = policy\<rparr>
              in case vault_binding p vid (ec_token_slot c) w of (None, w) \<Rightarrow> (FV_VAULT_INVALID, w)
              | (Some binding, w) \<Rightarrow>
                (case vault_seal SL L p c binding secret vmk w of (None, w) \<Rightarrow> (FV_VAULT_INVALID, w)
                 | (Some header, w) \<Rightarrow>
                   (case initialize_session SL L p c vmk w of None \<Rightarrow> (FV_VAULT_INVALID, w)
                    | Some v \<Rightarrow> create_on_card SL p s c header v w)))))"

section \<open>Unlocking\<close>

text \<open>The attempt itself: the credential is evaluated after it has been charged. The result is the
  master key, or \<open>None\<close> for \<^verbatim>\<open>failed\<close>.\<close>

definition evaluate_credential ::
  "sha_lib \<Rightarrow> cipher_lib \<Rightarrow> ('a, 'd, 'r) fv_vault_platform \<Rightarrow> fv_device_state \<Rightarrow> u8 list \<Rightarrow> u8 list
   \<Rightarrow> ('a, 'd, 'r) vault_world \<Rightarrow> u8 list option \<times> ('a, 'd, 'r) vault_world" where
  "evaluate_credential SL L p s header secret w =
     (case vault_binding p (ds_volume_id s) (ds_token_slot s) w of (None, w) \<Rightarrow> (None, w)
      | (Some binding, w) \<Rightarrow> (fv_envelope_open SL L header (capacity p w) (vp_kdf_limits p) binding secret, w))"

definition finish_unlock ::
  "sha_lib \<Rightarrow> cipher_lib \<Rightarrow> ('a, 'd, 'r) fv_vault_platform \<Rightarrow> u8 list \<Rightarrow> fv_envelope_config \<Rightarrow> nat \<Rightarrow> bool \<Rightarrow> u8 list
   \<Rightarrow> ('a, 'd, 'r) vault_world \<Rightarrow> fv_vault_result \<times> fv_vault \<times> ('a, 'd, 'r) vault_world" where
  "finish_unlock SL L p header c copy repair vmk w =
     (case initialize_session SL L p c vmk w of None \<Rightarrow> (FV_VAULT_STATE, fv_vault_lock, w)
      | Some v \<Rightarrow>
        if repair
        then (case repair_header_copy p (1 - copy) header w of (ok, w) \<Rightarrow>
                if \<not> media_valid p w then (FV_VAULT_IO, fv_vault_lock, w)
                else (FV_VAULT_OK, v\<lparr>v_header_repair_pending := \<not> ok\<rparr>, w))
        else (FV_VAULT_OK, v, w))"

definition settle_attempt ::
  "sha_lib \<Rightarrow> cipher_lib \<Rightarrow> ('a, 'd, 'r) fv_vault_platform \<Rightarrow> fv_device_state \<Rightarrow> bool \<Rightarrow> u8 list \<Rightarrow> fv_envelope_config \<Rightarrow> nat
   \<Rightarrow> bool \<Rightarrow> u8 list option \<Rightarrow> ('a, 'd, 'r) vault_world \<Rightarrow> fv_vault_result \<times> fv_vault \<times> ('a, 'd, 'r) vault_world" where
  "settle_attempt SL L p s limited header c copy repair vmk w =
     (case (if limited
            then vault_commit p (s\<lparr>ds_attempt_pending := False,
                                   ds_attempts := (if vmk \<noteq> None then 0 else ds_attempts s)\<rparr>) w
            else (True, s, w)) of
        (False, s, w) \<Rightarrow> (FV_VAULT_STATE, fv_vault_lock, w)
      | (True, s, w) \<Rightarrow>
        (case vmk of
           None \<Rightarrow>
             if limited \<and> ds_attempts s = max_attempts (ds_policy s)
             then (case vault_limit p s w of (r, w) \<Rightarrow> (r, fv_vault_lock, w))
             else (FV_VAULT_AUTH, fv_vault_lock, w)
         | Some k \<Rightarrow> finish_unlock SL L p header c copy repair k w))"

definition vault_unlock ::
  "sha_lib \<Rightarrow> cipher_lib \<Rightarrow> ('a, 'd, 'r) fv_vault_platform \<Rightarrow> u8 list \<Rightarrow> bool \<Rightarrow> ('a, 'd, 'r) vault_world
   \<Rightarrow> fv_vault_result \<times> fv_vault \<times> ('a, 'd, 'r) vault_world" where
  "vault_unlock SL L p secret repair w =
     (case vault_recover p w of (r, s, w) \<Rightarrow>
        if r \<noteq> FV_VAULT_OK then (r, fv_vault_lock, w)
        else if ds_status s \<noteq> FV_ENROLLMENT_ACTIVE then (FV_VAULT_DENIED, fv_vault_lock, w)
        else case select_header SL p s w of (None, w) \<Rightarrow> (FV_VAULT_IO, fv_vault_lock, w)
        | (Some (header, c, copy), w) \<Rightarrow>
          (let limited = (limit_action (ds_policy s) \<noteq> FV_LIMIT_NONE) in
           case (if limited
                 then vault_commit p (s\<lparr>ds_attempts := ds_attempts s + 1, ds_attempt_pending := True\<rparr>) w
                 else (True, s, w)) of
             (False, s, w) \<Rightarrow> (FV_VAULT_STATE, fv_vault_lock, w)
           | (True, s, w) \<Rightarrow>
             (case evaluate_credential SL L p s header secret w of (vmk, w) \<Rightarrow>
                settle_attempt SL L p s limited header c copy repair vmk w)))"

definition fv_vault_unlock where
  "fv_vault_unlock SL L p secret w = vault_unlock SL L p secret True w"

definition fv_vault_reverify ::
  "sha_lib \<Rightarrow> cipher_lib \<Rightarrow> ('a, 'd, 'r) fv_vault_platform \<Rightarrow> u8 list \<Rightarrow> fv_vault \<Rightarrow> ('a, 'd, 'r) vault_world
   \<Rightarrow> fv_vault_result \<times> fv_vault \<times> ('a, 'd, 'r) vault_world" where
  "fv_vault_reverify SL L p secret v w =
     (if \<not> v_unlocked v then (FV_VAULT_DENIED, v, w)
      else case vault_unlock SL L p secret False w of (r, candidate, w) \<Rightarrow>
        (let r = (if r = FV_VAULT_OK \<and>
                     (v_vmk candidate \<noteq> v_vmk v \<or>
                      volume_id (ec_volume (v_config candidate)) \<noteq> volume_id (ec_volume (v_config v)) \<or>
                      ec_credential_generation (v_config candidate) \<noteq> ec_credential_generation (v_config v))
                  then FV_VAULT_STATE else r)
         in (r, if r \<noteq> FV_VAULT_OK then fv_vault_lock else v, w)))"

section \<open>Changing the credential\<close>

definition policy_changed :: "fv_auth_policy \<Rightarrow> fv_auth_policy \<Rightarrow> bool" where
  "policy_changed a b \<longleftrightarrow> max_attempts a \<noteq> max_attempts b \<or> limit_action a \<noteq> limit_action b \<or>
     auto_lock_seconds a \<noteq> auto_lock_seconds b \<or> screen_sleep_seconds a \<noteq> screen_sleep_seconds b"

definition change_on_card ::
  "sha_lib \<Rightarrow> ('a, 'd, 'r) fv_vault_platform \<Rightarrow> fv_device_state \<Rightarrow> fv_envelope_config \<Rightarrow> nat \<Rightarrow> u8 list
   \<Rightarrow> ('a, 'd, 'r) vault_world \<Rightarrow> fv_vault_result \<times> ('a, 'd, 'r) vault_world" where
  "change_on_card SL p s c copy header w =
     (case save_header p (1 - copy) header w of (False, w) \<Rightarrow> (FV_VAULT_IO, w)
      | (True, w) \<Rightarrow>
        (case sha_oneshot SL header of None \<Rightarrow> (FV_VAULT_STATE, w)
         | Some hash \<Rightarrow>
           (case vault_commit p (s\<lparr>ds_credential_generation := ec_credential_generation c, ds_policy := ec_policy c,
                                   ds_header_hash := hash\<rparr>) w of
              (False, s, w) \<Rightarrow> (FV_VAULT_STATE, w)
            | (True, s, w) \<Rightarrow>
              (case save_header p copy header w of (ok, w) \<Rightarrow>
                 (if ok then FV_VAULT_OK else FV_VAULT_CHANGED_NEEDS_MIRROR, w)))))"

definition fv_vault_change_credential ::
  "sha_lib \<Rightarrow> cipher_lib \<Rightarrow> ('a, 'd, 'r) fv_vault_platform \<Rightarrow> u8 list \<Rightarrow> u8 list \<Rightarrow> u16 \<Rightarrow> u32 \<Rightarrow> fv_auth_policy \<Rightarrow> bool
   \<Rightarrow> ('a, 'd, 'r) vault_world \<Rightarrow> fv_vault_result \<times> fv_vault \<times> ('a, 'd, 'r) vault_world" where
  "fv_vault_change_credential SL L p current replacement profile iterations policy approved w =
     (case vault_unlock SL L p current False w of (r, v, w) \<Rightarrow>
        if r \<noteq> FV_VAULT_OK then (r, v, w)
        else case vault_load p w of (None, w) \<Rightarrow> (FV_VAULT_STATE, fv_vault_lock, w)
        | (Some s, w) \<Rightarrow>
          if \<not> state_valid s \<or> ds_status s \<noteq> FV_ENROLLMENT_ACTIVE then (FV_VAULT_STATE, fv_vault_lock, w)
          else case select_header SL p s w of (None, w) \<Rightarrow> (FV_VAULT_STATE, fv_vault_lock, w)
          | (Some (h0, old, copy), w) \<Rightarrow>
            if ds_credential_generation s = UINT64_MAX then (FV_VAULT_STATE, fv_vault_lock, w)
            else if vp_random p = None \<or> (\<not> approved \<and> policy_changed policy (ds_policy s))
            then (FV_VAULT_INVALID, fv_vault_lock, w)
            else
              (let c = (v_config v)\<lparr>ec_credential_generation := ec_credential_generation (v_config v) + 1,
                         ec_credential_profile := profile, ec_iterations := iterations, ec_policy := policy\<rparr>
               in case vault_binding p (volume_id (ec_volume c)) (ec_token_slot c) w of
                    (None, w) \<Rightarrow> (FV_VAULT_INVALID, fv_vault_lock, w)
                  | (Some binding, w) \<Rightarrow>
                    (case vault_seal SL L p c binding replacement (v_vmk v) w of
                       (None, w) \<Rightarrow> (FV_VAULT_INVALID, fv_vault_lock, w)
                     | (Some header, w) \<Rightarrow>
                       (case change_on_card SL p s c copy header w of (r, w) \<Rightarrow> (r, fv_vault_lock, w)))))"

section \<open>Sector I/O\<close>

text \<open>The sector loop of \<^verbatim>\<open>io\<close>, in place; \<open>None\<close> is the failure of a cipher.\<close>

fun crypt_sectors ::
  "fv_pipeline \<Rightarrow> bool \<Rightarrow> fv_auth_unset_mask \<Rightarrow> nat \<Rightarrow> nat \<Rightarrow> nat list \<Rightarrow> u8 list \<Rightarrow> u8 list option" where
  "crypt_sectors pl write unset lba a [] buf = Some buf"
| "crypt_sectors pl write unset lba a (i # is) buf =
     (if \<not> write \<and> fv_auth_sector_unset unset i then crypt_sectors pl write unset lba a is buf
      else
        (let sector = (a + i * 512, span buf (i * 512) 512) in
         case (if write then fv_pipeline_encrypt pl (of_nat (lba + i)) sector sector
               else fv_pipeline_decrypt pl (of_nat (lba + i)) sector sector) of (st, out) \<Rightarrow>
           if st \<noteq> FV_OK then None
           else crypt_sectors pl write unset lba a is (memcpy buf (i * 512) out)))"

text \<open>The label \<^verbatim>\<open>done\<close> of \<^verbatim>\<open>io\<close>.\<close>

definition io_done ::
  "bool \<Rightarrow> nat \<Rightarrow> fv_block_result \<Rightarrow> u8 list \<Rightarrow> fv_vault \<Rightarrow> ('a, 'd, 'r) vault_world
   \<Rightarrow> fv_block_result \<times> u8 list \<times> fv_vault \<times> ('a, 'd, 'r) vault_world" where
  "io_done write cnt r buf v w =
     (r, if write \<or> r \<noteq> FV_BLOCK_OK then memset buf 0 0 (cnt * 512) else buf,
      if (r \<noteq> FV_BLOCK_OK \<and> r \<noteq> FV_BLOCK_ERROR_INVALID_ARGUMENT \<and> r \<noteq> FV_BLOCK_ERROR_OUT_OF_RANGE \<and>
          r \<noteq> FV_BLOCK_ERROR_INTEGRITY) \<or> (v_unlocked v \<and> \<not> as_ready (v_store v))
      then fv_vault_lock else v, w)"

definition vault_io ::
  "sha_lib \<Rightarrow> ('a, 'd, 'r) fv_vault_platform \<Rightarrow> bool \<Rightarrow> nat \<Rightarrow> nat \<Rightarrow> nat \<times> u8 list \<Rightarrow> fv_vault \<times> ('a, 'd, 'r) vault_world
   \<Rightarrow> fv_block_result \<times> u8 list \<times> fv_vault \<times> ('a, 'd, 'r) vault_world" where
  "vault_io SL p write lba cnt = (\<lambda>(a, buf) (v, w).
     if a = 0 \<or> a mod 4 \<noteq> 0 \<or> cnt = 0 \<or> cnt > FV_AUTH_MAX_BATCH_SECTORS
     then (FV_BLOCK_ERROR_INVALID_ARGUMENT, buf, v, w)
     else if \<not> v_unlocked v then io_done write cnt FV_BLOCK_ERROR_NOT_READY buf v w
     else if \<not> media_valid p w then io_done write cnt FV_BLOCK_ERROR_NOT_READY buf fv_vault_lock w
     else if lba \<ge> unat (logical_blocks (ec_volume (v_config v))) \<or>
             cnt > unat (logical_blocks (ec_volume (v_config v))) - lba
     then io_done write cnt FV_BLOCK_ERROR_OUT_OF_RANGE buf v w
     else if write
     then (case crypt_sectors (v_pipeline v) True no_unset lba a [0..<cnt] buf of
             None \<Rightarrow> io_done write cnt FV_BLOCK_ERROR_IO buf fv_vault_lock w
           | Some buf \<Rightarrow>
             (case fv_auth_write SL (vp_sd p) lba cnt (a, buf) (v_store v, w_sd w) of (r, store, d) \<Rightarrow>
                if r \<noteq> FV_BLOCK_OK then io_done write cnt r buf (v\<lparr>v_store := store\<rparr>) (w\<lparr>w_sd := d\<rparr>)
                else (case blk_sync (vp_sd p) d of (r, d) \<Rightarrow>
                        io_done write cnt r buf (v\<lparr>v_store := store\<rparr>) (w\<lparr>w_sd := d\<rparr>))))
     else (case fv_auth_read_batch SL (vp_sd p) lba cnt (a, buf) (v_store v, w_sd w) of (r, buf, unset, store, d) \<Rightarrow>
             if r \<noteq> FV_BLOCK_OK then io_done write cnt r buf (v\<lparr>v_store := store\<rparr>) (w\<lparr>w_sd := d\<rparr>)
             else (case crypt_sectors (v_pipeline v) False unset lba a [0..<cnt] buf of
                     None \<Rightarrow> io_done write cnt FV_BLOCK_ERROR_IO buf fv_vault_lock (w\<lparr>w_sd := d\<rparr>)
                   | Some buf \<Rightarrow> io_done write cnt FV_BLOCK_OK buf (v\<lparr>v_store := store\<rparr>) (w\<lparr>w_sd := d\<rparr>))))"

definition fv_vault_read where "fv_vault_read SL p lba cnt buf vw = vault_io SL p False lba cnt buf vw"
definition fv_vault_write where "fv_vault_write SL p lba cnt buf vw = vault_io SL p True lba cnt buf vw"

end
