(* ===== verification/Vault_Attempts.thy ===== *)
theory Vault_Attempts
  imports Vault Versioned_Cell
begin

text \<open>
  The attempt budget. \<open>device_authority\<close> is the contract of the authority that the vault relies on:
  a durable versioned state (\<open>versioned_cell\<close>), callbacks that derive a binding or destroy the
  enrollment without rolling the state back, and a dead state that destruction leads to and nothing
  leaves. The lemmas follow a credential attempt through \<^verbatim>\<open>recover\<close>, the charge, the evaluation and
  the settlement.
\<close>

text \<open>What \<^verbatim>\<open>unlock\<close> does before it looks at the credential: it stops with a result, or it goes on with
  the charged state, the selected header and the world in which the credential is evaluated.\<close>

definition unlock_stage ::
  "sha_lib \<Rightarrow> ('a, 'd, 'r) fv_vault_platform \<Rightarrow> ('a, 'd, 'r) vault_world
   \<Rightarrow> (fv_vault_result \<times> ('a, 'd, 'r) vault_world)
      + (fv_device_state \<times> u8 list \<times> fv_envelope_config \<times> nat \<times> ('a, 'd, 'r) vault_world)" where
  "unlock_stage SL p w =
     (case vault_recover p w of (r, s, w) \<Rightarrow>
        if r \<noteq> FV_VAULT_OK then Inl (r, w)
        else if ds_status s \<noteq> FV_ENROLLMENT_ACTIVE then Inl (FV_VAULT_DENIED, w)
        else case select_header SL p s w of (None, w) \<Rightarrow> Inl (FV_VAULT_IO, w)
        | (Some (header, c, copy), w) \<Rightarrow>
          if limit_action (ds_policy s) = FV_LIMIT_NONE then Inr (s, header, c, copy, w)
          else case vault_commit p (s\<lparr>ds_attempts := ds_attempts s + 1, ds_attempt_pending := True\<rparr>) w of
            (False, s, w) \<Rightarrow> Inl (FV_VAULT_STATE, w)
          | (True, s, w) \<Rightarrow> Inr (s, header, c, copy, w))"

lemma vault_commit_policy: "vault_commit p s w = (ok, s', w') \<Longrightarrow> ds_policy s' = ds_policy s"
  by (auto simp: vault_commit_def Let_def split: if_splits prod.splits)

lemma unlock_by_stage:
  "vault_unlock SL L p secret repair w =
     (case unlock_stage SL p w of
        Inl (r, w') \<Rightarrow> (r, fv_vault_lock, w')
      | Inr (s, header, c, copy, w1) \<Rightarrow>
        (case evaluate_credential SL L p s header secret w1 of (vmk, w2) \<Rightarrow>
           settle_attempt SL L p s (limit_action (ds_policy s) \<noteq> FV_LIMIT_NONE) header c copy repair vmk w2))"
  by (auto simp: vault_unlock_def unlock_stage_def Let_def dest: vault_commit_policy split: prod.splits option.splits bool.splits)

definition attempt_key ::
  "sha_lib \<Rightarrow> cipher_lib \<Rightarrow> ('a, 'd, 'r) fv_vault_platform \<Rightarrow> u8 list \<Rightarrow> ('a, 'd, 'r) vault_world \<Rightarrow> u8 list option" where
  "attempt_key SL L p secret w =
     (case unlock_stage SL p w of Inl _ \<Rightarrow> None
      | Inr (s, header, c, copy, w1) \<Rightarrow> fst (evaluate_credential SL L p s header secret w1))"

text \<open>A series of attempts: how many credentials were evaluated, whether one of them opened the
  envelope, and the world at the end.\<close>

fun unlock_run ::
  "sha_lib \<Rightarrow> cipher_lib \<Rightarrow> ('a, 'd, 'r) fv_vault_platform \<Rightarrow> u8 list list \<Rightarrow> ('a, 'd, 'r) vault_world
   \<Rightarrow> nat \<times> bool \<times> ('a, 'd, 'r) vault_world" where
  "unlock_run SL L p [] w = (0, False, w)"
| "unlock_run SL L p (secret # secrets) w =
     (case fv_vault_unlock SL L p secret w of (r, v, w') \<Rightarrow>
      case unlock_run SL L p secrets w' of (k, opened, w'') \<Rightarrow>
        ((if isl (unlock_stage SL p w) then k else Suc k), attempt_key SL L p secret w \<noteq> None \<or> opened, w''))"

lemma select_loop_world: "select_loop SL p s is w = (x, w') \<Longrightarrow> w_authority w' = w_authority w \<and> w_random w' = w_random w"
proof (induction "is" arbitrary: w)
  case (Cons i "is")
  obtain r h d where rd: "blk_read (vp_sd p) (w_sd w) (i * 8) 1 = (r, h, d)" by (cases "blk_read (vp_sd p) (w_sd w) (i * 8) 1")
  show ?case using Cons.prems Cons.IH [of "w\<lparr>w_sd := d\<rparr>"] rd
    by (auto simp: Let_def split: if_splits option.splits)
qed simp

lemma select_header_world:
  "select_header SL p s w = (x, w') \<Longrightarrow> w_authority w' = w_authority w \<and> w_random w' = w_random w"
  by (auto simp: select_header_def dest: select_loop_world split: if_splits)

lemma unat_suc_below:
  fixes x m :: u32
  assumes "x < m"
  shows "unat (x + 1) = Suc (unat x)" "x + 1 \<le> m"
proof -
  have l: "Suc (unat x) \<le> unat m" using assms by (simp add: word_less_nat_alt Suc_le_eq)
  moreover have "unat m < 2 ^ 32" using unsigned_less [of m, where 'a = nat] by simp
  ultimately show u: "unat (x + 1) = Suc (unat x)" by (simp add: unat_word_ariths(1))
  show "x + 1 \<le> m" using l u by (simp add: word_le_nat_alt)
qed

lemma state_valid_settled:
  "state_valid x \<Longrightarrow> state_valid (x\<lparr>ds_attempt_pending := False\<rparr>)"
  "state_valid (x\<lparr>ds_sequence := q\<rparr>) = state_valid x"
  by (auto simp: state_valid_def split: if_splits)

locale device_authority = versioned_cell load commit inv current fresh device_state_wf ds_sequence
  for load :: "'a \<Rightarrow> fv_device_state option \<times> 'a"
    and commit :: "u64 \<Rightarrow> fv_device_state \<Rightarrow> 'a \<Rightarrow> bool \<times> 'a"
    and inv :: "'a \<Rightarrow> bool"
    and current :: "'a \<Rightarrow> fv_device_state \<Rightarrow> bool"
    and fresh :: "'a \<Rightarrow> bool" +
  fixes binding :: "u8 list \<Rightarrow> u32 \<Rightarrow> 'a \<Rightarrow> u8 list option \<times> 'a"
    and destroy :: "(u32 \<Rightarrow> 'a \<Rightarrow> bool \<times> 'a) option"
    and dead :: "'a \<Rightarrow> bool"
  assumes binding_keeps: "inv a \<Longrightarrow> binding i k a = (b, a') \<Longrightarrow> inv a' \<and> (current a' x \<longleftrightarrow> current a x)"
    and destroy_keeps: "inv a \<Longrightarrow> destroy = Some g \<Longrightarrow> g k a = (ok, a') \<Longrightarrow>
      dead a' \<or> inv a' \<and> (\<forall>x. current a' x \<longleftrightarrow> current a x)"
    and inv_alive: "inv a \<Longrightarrow> \<not> dead a"
    and dead_load: "dead a \<Longrightarrow> load a = (r, a') \<Longrightarrow> dead a' \<and>
      (\<forall>s. r = Some s \<longrightarrow> ds_status s = FV_ENROLLMENT_DESTROY_PENDING \<or> ds_status s = FV_ENROLLMENT_DESTROYED)"
    and dead_commit: "dead a \<Longrightarrow> commit p s a = (ok, a') \<Longrightarrow> dead a'"
    and dead_destroy: "dead a \<Longrightarrow> destroy = Some g \<Longrightarrow> g k a = (ok, a') \<Longrightarrow> dead a'"
begin

definition platform_of :: "('a, 'd, 'r) fv_vault_platform \<Rightarrow> bool" where
  "platform_of p \<longleftrightarrow> vp_authority p = \<lparr>au_load = load, au_commit = commit, au_binding = binding, au_destroy = destroy\<rparr>"

text \<open>A state that is active under \<open>policy\<close> with at least \<open>n\<close> attempts charged, or that grants nothing.\<close>

definition charged_state :: "fv_auth_policy \<Rightarrow> nat \<Rightarrow> fv_device_state \<Rightarrow> bool" where
  "charged_state policy n s \<longleftrightarrow> ds_status s = FV_ENROLLMENT_ACTIVE \<longrightarrow> ds_policy s = policy \<and> n \<le> unat (ds_attempts s)"

definition charged :: "fv_auth_policy \<Rightarrow> nat \<Rightarrow> 'a \<Rightarrow> bool" where
  "charged policy n a \<longleftrightarrow> dead a \<or> inv a \<and> (\<forall>s. current a s \<longrightarrow> charged_state policy n s)"

lemma vault_load_charged:
  assumes "platform_of p" "charged policy n (w_authority w)" "vault_load p w = (r, w')"
  shows "charged policy n (w_authority w') \<and> w_sd w' = w_sd w \<and>
    (\<forall>s. r = Some s \<longrightarrow> charged_state policy n s \<and>
       (dead (w_authority w') \<and> (ds_status s = FV_ENROLLMENT_DESTROY_PENDING \<or> ds_status s = FV_ENROLLMENT_DESTROYED) \<or>
        inv (w_authority w') \<and> device_state_wf s \<and> current (w_authority w') s))"
proof -
  obtain a where l: "load (w_authority w) = (r, a)" and w': "w' = w\<lparr>w_authority := a\<rparr>"
    using assms(1,3) by (auto simp: vault_load_def platform_of_def split: prod.splits)
  show ?thesis
  proof (cases "dead (w_authority w)")
    case True
    then show ?thesis using dead_load [OF True l] by (auto simp: w' charged_def charged_state_def enrollment_defs)
  next
    case False
    then have i: "inv (w_authority w)" "\<And>s. current (w_authority w) s \<Longrightarrow> charged_state policy n s"
      using assms(2) by (auto simp: charged_def)
    show ?thesis
      using load_keeps [OF i(1) l] load_current [OF i(1), of _ a] l i(2) by (auto simp: w' charged_def)
  qed
qed

text \<open>A commit of a sufficiently charged state keeps the charge, whether it succeeds, fails or is torn.\<close>

lemma vault_commit_charged:
  assumes "platform_of p" "charged policy n (w_authority w)" "vault_commit p s w = (ok, s', w')"
    and "dead (w_authority w) \<or> device_state_wf s" "charged_state policy n s"
  shows "charged policy n (w_authority w') \<and> w_sd w' = w_sd w \<and> (s' = s \<or> s' = s\<lparr>ds_sequence := ds_sequence s + 1\<rparr>) \<and>
    (ok \<longrightarrow> inv (w_authority w) \<longrightarrow> inv (w_authority w') \<and> device_state_wf s' \<and> current (w_authority w') s') \<and>
    (inv (w_authority w) \<longrightarrow> inv (w_authority w')) \<and>
    (dead (w_authority w) \<longrightarrow> dead (w_authority w'))"
proof (cases "ds_sequence s = UINT64_MAX")
  case True
  then show ?thesis using assms by (auto simp: vault_commit_def Let_def)
next
  case False
  let ?s = "s\<lparr>ds_sequence := ds_sequence s + 1\<rparr>"
  obtain a where c: "commit (ds_sequence s) ?s (w_authority w) = (ok, a)" and w': "w' = w\<lparr>w_authority := a\<rparr>" and s': "s' = ?s"
    using assms(1,3) False by (auto simp: vault_commit_def platform_of_def Let_def split: prod.splits)
  show ?thesis
  proof (cases "dead (w_authority w)")
    case True
    then show ?thesis using dead_commit [OF True c] inv_alive by (auto simp: w' s' charged_def)
  next
    case nd: False
    then have i: "inv (w_authority w)" "\<And>x. current (w_authority w) x \<Longrightarrow> charged_state policy n x"
      and wf: "device_state_wf ?s" using assms(2,4) by (auto simp: charged_def device_state_wf_def)
    have cs: "charged_state policy n ?s" using assms(5) by (auto simp: charged_state_def)
    have "charged_state policy n x" if "current a x" for x
      using commit_step [OF i(1) wf c that] i(2) cs by blast
    then show ?thesis
      using commit_keeps [OF i(1) wf c] commit_durable [OF i(1) wf, of "ds_sequence s" a] c wf nd by (auto simp: w' s' charged_def)
  qed
qed

lemma destroy_charged:
  assumes "charged policy n a" "destroy = Some g" "g k a = (ok, a')"
  shows "charged policy n a' \<and> (dead a \<longrightarrow> dead a')"
  using assms destroy_keeps dead_destroy unfolding charged_def by metis

lemma limit_destroy_charged:
  assumes p: "platform_of p" and c: "charged policy n (w_authority w)" and d: "dead (w_authority w) \<or> device_state_wf s"
    and st: "ds_status s \<noteq> FV_ENROLLMENT_ACTIVE" and run: "limit_destroy p s w = (r, w')"
  shows "charged policy n (w_authority w') \<and> w_sd w' = w_sd w \<and> r \<in> {FV_VAULT_STATE, FV_VAULT_DENIED}"
proof -
  have au: "au_destroy (vp_authority p) = destroy" using p by (simp add: platform_of_def)
  show ?thesis
  proof (cases "ds_status s = FV_ENROLLMENT_DESTROY_PENDING \<and> destroy \<noteq> None")
    case False
    then show ?thesis using run c st au by (auto simp: limit_destroy_def split: option.splits if_splits)
  next
    case True
    then obtain g where g: "destroy = Some g" by auto
    obtain ok a where a: "g (ds_token_slot s) (w_authority w) = (ok, a)" by (cases "g (ds_token_slot s) (w_authority w)")
    note dc = destroy_charged [OF c g a]
    let ?s = "s\<lparr>ds_status := FV_ENROLLMENT_DESTROYED\<rparr>" and ?w = "w\<lparr>w_authority := a\<rparr>"
    obtain ok2 s2 w2 where vc: "vault_commit p ?s ?w = (ok2, s2, w2)" by (cases "vault_commit p ?s ?w")
    have "charged policy n (w_authority w2) \<and> w_sd w2 = w_sd w"
      using vault_commit_charged [OF p _ vc, of policy n] dc d by (auto simp: charged_state_def enrollment_defs device_state_wf_def)
    then show ?thesis using run True au g a vc dc by (cases ok) (auto simp: limit_destroy_def)
  qed
qed

lemma vault_limit_charged:
  assumes p: "platform_of p" and c: "charged policy n (w_authority w)" and d: "dead (w_authority w) \<or> device_state_wf s"
    and run: "vault_limit p s w = (r, w')"
  shows "charged policy n (w_authority w') \<and> w_sd w' = w_sd w \<and> r \<in> {FV_VAULT_STATE, FV_VAULT_DENIED}"
proof (cases "ds_status s = FV_ENROLLMENT_ACTIVE")
  case False
  then show ?thesis using run limit_destroy_charged [OF p c d] by (simp add: vault_limit_def)
next
  case True
  define s1 where "s1 = s\<lparr>ds_status := (if limit_action (ds_policy s) = FV_LIMIT_DESTROY
      then FV_ENROLLMENT_DESTROY_PENDING else FV_ENROLLMENT_LOCKED), ds_attempt_pending := False\<rparr>"
  obtain ok s2 w2 where vc: "vault_commit p s1 w = (ok, s2, w2)" by (cases "vault_commit p s1 w")
  have k: "dead (w_authority w) \<or> device_state_wf s1" "charged_state policy n s1" "ds_status s1 \<noteq> FV_ENROLLMENT_ACTIVE"
    using d by (auto simp: s1_def device_state_wf_def charged_state_def enrollment_defs)
  note v = vault_commit_charged [OF p c vc k(1,2)]
  have s2: "ds_status s2 \<noteq> FV_ENROLLMENT_ACTIVE" "dead (w_authority w2) \<or> device_state_wf s2"
    using v k by (auto simp: device_state_wf_def)
  show ?thesis
  proof (cases ok)
    case False
    then show ?thesis using run True vc v by (auto simp: vault_limit_def Let_def s1_def)
  next
    case ok: True
    have "charged policy n (w_authority w2)" using v by blast
    from limit_destroy_charged [OF p this s2(2,1)] show ?thesis
      using run True vc v ok by (auto simp: vault_limit_def Let_def s1_def)
  qed
qed

lemma vault_recover_charged:
  assumes p: "platform_of p" and c: "charged policy n (w_authority w)" and run: "vault_recover p w = (r, s, w')"
  shows "charged policy n (w_authority w') \<and> w_sd w' = w_sd w \<and> r \<noteq> FV_VAULT_AUTH \<and>
    (r = FV_VAULT_OK \<longrightarrow> inv (w_authority w') \<and> device_state_wf s \<and> current (w_authority w') s \<and> charged_state policy n s \<and>
       state_valid s \<and> \<not> ds_attempt_pending s \<and>
       (ds_status s = FV_ENROLLMENT_ACTIVE \<longrightarrow> limit_action (ds_policy s) \<noteq> FV_LIMIT_NONE \<longrightarrow>
          ds_attempts s < max_attempts (ds_policy s)))"
proof -
  obtain ld w1 where l: "vault_load p w = (ld, w1)" by (cases "vault_load p w")
  note v = vault_load_charged [OF p c l]
  show ?thesis
  proof (cases "platform_valid p \<and> ld \<noteq> None")
    case False
    then show ?thesis using run c v l by (cases ld) (auto simp: vault_recover_def split: if_splits)
  next
    case True
    then obtain x where x: "ld = Some x" by auto
    have cs: "charged_state policy n x" and d: "dead (w_authority w1) \<or> device_state_wf x" and cw: "charged policy n (w_authority w1)"
      and al: "ds_status x \<noteq> FV_ENROLLMENT_DESTROY_PENDING \<Longrightarrow> ds_status x \<noteq> FV_ENROLLMENT_DESTROYED \<Longrightarrow>
        inv (w_authority w1) \<and> device_state_wf x \<and> current (w_authority w1) x"
      using v x by auto
    have run1: "(if \<not> state_valid x then (FV_VAULT_STATE, x, w1)
        else if ds_status x = FV_ENROLLMENT_DESTROY_PENDING \<or>
           (ds_status x = FV_ENROLLMENT_ACTIVE \<and> limit_action (ds_policy x) \<noteq> FV_LIMIT_NONE \<and>
            ds_attempts x = max_attempts (ds_policy x))
        then (case vault_limit p x w1 of (r, w) \<Rightarrow> (r, x, w))
        else if ds_status x = FV_ENROLLMENT_LOCKED \<or> ds_status x = FV_ENROLLMENT_DESTROYED then (FV_VAULT_DENIED, x, w1)
        else if ds_attempt_pending x
        then (case vault_commit p (x\<lparr>ds_attempt_pending := False\<rparr>) w1 of
                (ok, s, w) \<Rightarrow> (if ok then FV_VAULT_OK else FV_VAULT_STATE, s, w))
        else (FV_VAULT_OK, x, w1)) = (r, s, w')"
      using run True x l by (simp add: vault_recover_def)
    let ?y = "x\<lparr>ds_attempt_pending := False\<rparr>"
    obtain ok s2 w2 where vc: "vault_commit p ?y w1 = (ok, s2, w2)" by (cases "vault_commit p ?y w1")
    have y: "dead (w_authority w1) \<or> device_state_wf ?y" "charged_state policy n ?y"
      using d cs by (auto simp: device_state_wf_def charged_state_def)
    note vc' = vault_commit_charged [OF p cw vc y]
    have keep: "state_valid x \<Longrightarrow> state_valid s2 \<and> \<not> ds_attempt_pending s2 \<and> charged_state policy n s2 \<and>
        ds_status s2 = ds_status x \<and> ds_policy s2 = ds_policy x \<and> ds_attempts s2 = ds_attempts x"
      using conjunct1 [OF conjunct2 [OF conjunct2 [OF vc']]] y(2) by (elim disjE) (simp_all add: state_valid_settled charged_state_def)
    have below: "state_valid x \<Longrightarrow> ds_status x = FV_ENROLLMENT_ACTIVE \<Longrightarrow> ds_attempts x \<noteq> max_attempts (ds_policy x) \<Longrightarrow>
        ds_attempts x < max_attempts (ds_policy x)"
      by (auto simp: state_valid_def enrollment_defs)
    obtain r3 w3 where lm: "vault_limit p x w1 = (r3, w3)" by (cases "vault_limit p x w1")
    note lm' = vault_limit_charged [OF p cw d lm]
    show ?thesis
    proof (cases "state_valid x \<and> ds_status x \<noteq> FV_ENROLLMENT_DESTROY_PENDING \<and> ds_status x \<noteq> FV_ENROLLMENT_DESTROYED")
      case False
      then show ?thesis using run1 v lm lm' by (auto split: if_splits)
    next
      case t: True
      note al' = al [OF conjunct1 [OF conjunct2 [OF t]] conjunct2 [OF conjunct2 [OF t]]]
      show ?thesis
        using run1 v lm lm' vc vc' al' t keep below cs by (auto split: if_splits)
    qed
  qed
qed

text \<open>The credential is evaluated only in a world where the attempt has been charged durably.\<close>

lemma unlock_stage_charged:
  assumes p: "platform_of p" and c: "charged policy n (w_authority w)" and lim: "limit_action policy \<noteq> FV_LIMIT_NONE"
    and st: "unlock_stage SL p w = Inr (s, header, cfg, copy, w1)"
  shows "inv (w_authority w1) \<and> device_state_wf s \<and> current (w_authority w1) s \<and> ds_policy s = policy \<and>
    ds_status s = FV_ENROLLMENT_ACTIVE \<and> ds_attempt_pending s \<and>
    Suc n \<le> unat (ds_attempts s) \<and> ds_attempts s \<le> max_attempts policy \<and> charged policy (Suc n) (w_authority w1)"
proof -
  obtain r s0 w0 where rc: "vault_recover p w = (r, s0, w0)" by (cases "vault_recover p w")
  note R = vault_recover_charged [OF p c rc]
  obtain sel w2 where sh: "select_header SL p s0 w0 = (sel, w2)" by (cases "select_header SL p s0 w0")
  have a: "w_authority w2 = w_authority w0" using select_header_world [OF sh] by simp
  let ?s = "s0\<lparr>ds_attempts := ds_attempts s0 + 1, ds_attempt_pending := True\<rparr>"
  obtain ok s1 w3 where vc: "vault_commit p ?s w2 = (ok, s1, w3)" by (cases "vault_commit p ?s w2")
  have act: "r = FV_VAULT_OK" "ds_status s0 = FV_ENROLLMENT_ACTIVE"
    using st rc by (auto simp: unlock_stage_def split: if_splits)
  have P: "ds_policy s0 = policy" and n: "n \<le> unat (ds_attempts s0)" and lt: "ds_attempts s0 < max_attempts policy"
    and i0: "inv (w_authority w0)" "device_state_wf s0" "current (w_authority w0) s0"
    using R act lim by (auto simp: charged_state_def)
  have ok: "ok" "s = s1" "w1 = w3"
    using st rc sh vc act P lim by (auto simp: unlock_stage_def split: option.splits bool.splits prod.splits)
  have suc: "unat (ds_attempts s0 + 1) = Suc (unat (ds_attempts s0))"
    by (rule unat_suc_below(1) [OF lt])
  have sc: "current (w_authority w0) x \<Longrightarrow> x = s0" for x using current_unique [OF i0(1) _ i0(3)] .
  have c2: "charged policy n (w_authority w2)" using R a by simp
  note V = vault_commit_charged [OF p c2 vc]
  have V': "inv (w_authority w3)" "device_state_wf s1" "current (w_authority w3) s1"
      "s1 = ?s \<or> s1 = ?s\<lparr>ds_sequence := ds_sequence ?s + 1\<rparr>"
    using V i0 ok P n a suc by (auto simp: device_state_wf_def charged_state_def)
  have s1: "ds_policy s1 = policy" "ds_status s1 = FV_ENROLLMENT_ACTIVE" "ds_attempt_pending s1"
      "ds_attempts s1 = ds_attempts s0 + 1"
    using V'(4) P act by auto
  have le: "ds_attempts s1 \<le> max_attempts policy" using unat_suc_below(2) [OF lt] s1(4) by simp
  have ch: "charged policy (Suc n) (w_authority w3)"
    using V'(1) current_unique [OF V'(1) _ V'(3)] s1 suc n by (auto simp: charged_def charged_state_def)
  show ?thesis using V' s1 le ch suc n ok by simp
qed

lemma unlock_stage_stops:
  assumes p: "platform_of p" and c: "charged policy n (w_authority w)" and lim: "limit_action policy \<noteq> FV_LIMIT_NONE"
    and st: "unlock_stage SL p w = Inl (r, w')"
  shows "charged policy n (w_authority w')"
proof -
  obtain r0 s0 w0 where rc: "vault_recover p w = (r0, s0, w0)" by (cases "vault_recover p w")
  note R = vault_recover_charged [OF p c rc]
  obtain sel w2 where sh: "select_header SL p s0 w0 = (sel, w2)" by (cases "select_header SL p s0 w0")
  have a: "w_authority w2 = w_authority w0" using select_header_world [OF sh] by simp
  let ?s = "s0\<lparr>ds_attempts := ds_attempts s0 + 1, ds_attempt_pending := True\<rparr>"
  obtain ok s1 w3 where vc: "vault_commit p ?s w2 = (ok, s1, w3)" by (cases "vault_commit p ?s w2")
  have c2: "charged policy n (w_authority w2)" using R a by simp
  have "charged policy n (w_authority w3)"
    if act: "r0 = FV_VAULT_OK" "ds_status s0 = FV_ENROLLMENT_ACTIVE"
  proof -
    have "ds_policy s0 = policy" "n \<le> unat (ds_attempts s0)" "ds_attempts s0 < max_attempts policy" "device_state_wf s0"
      using R act lim by (auto simp: charged_state_def)
    then have "charged_state policy n ?s" "device_state_wf ?s"
      using unat_suc_below(1) [of "ds_attempts s0"] by (auto simp: charged_state_def device_state_wf_def)
    then show ?thesis using vault_commit_charged [OF p c2 vc] by blast
  qed
  then show ?thesis
    using st rc sh vc R c2 by (auto simp: unlock_stage_def split: if_splits option.splits bool.splits)
qed

lemma evaluate_keeps:
  assumes "platform_of p" "inv (w_authority w)" "evaluate_credential SL L p s h secret w = (vmk, w')"
  shows "inv (w_authority w') \<and> (current (w_authority w') x \<longleftrightarrow> current (w_authority w) x)"
proof -
  obtain b a where b: "binding (ds_volume_id s) (ds_token_slot s) (w_authority w) = (b, a)"
    by (cases "binding (ds_volume_id s) (ds_token_slot s) (w_authority w)")
  have "w_authority w' = a"
    using assms(1,3) b by (auto simp: evaluate_credential_def vault_binding_def platform_of_def split: option.splits)
  then show ?thesis using binding_keeps [OF assms(2) b] by simp
qed

lemma settle_wrong_charged:
  assumes p: "platform_of p" and lim: "limit_action (ds_policy s) \<noteq> FV_LIMIT_NONE"
    and i: "inv (w_authority w)" "device_state_wf s" "\<And>x. current (w_authority w) x \<Longrightarrow> x = s"
    and s: "ds_policy s = policy" "n \<le> unat (ds_attempts s)"
    and run: "settle_attempt SL L p s True header c copy repair None w = (r, v, w')"
  shows "charged policy n (w_authority w') \<and> r \<noteq> FV_VAULT_OK \<and> v = fv_vault_lock"
proof -
  let ?s = "s\<lparr>ds_attempt_pending := False, ds_attempts := ds_attempts s\<rparr>"
  obtain ok s1 w1 where vc: "vault_commit p ?s w = (ok, s1, w1)" by (cases "vault_commit p ?s w")
  have c: "charged policy n (w_authority w)" using i s by (auto simp: charged_def charged_state_def)
  have V: "charged policy n (w_authority w1)" "ok \<Longrightarrow> device_state_wf s1"
    using vault_commit_charged [OF p c vc] i s by (auto simp: device_state_wf_def charged_state_def)
  obtain r2 w2 where lm: "vault_limit p s1 w1 = (r2, w2)" by (cases "vault_limit p s1 w1")
  show ?thesis
  proof (cases ok)
    case False
    then show ?thesis using run vc V by (auto simp: settle_attempt_def)
  next
    case True
    then show ?thesis
      using run vc V vault_limit_charged [OF p V(1) _ lm] lm by (auto simp: settle_attempt_def split: if_splits)
  qed
qed

text \<open>One attempt with a credential that does not open the envelope.\<close>

lemma wrong_attempt_charged:
  assumes p: "platform_of p" and c: "charged policy n (w_authority w)" and lim: "limit_action policy \<noteq> FV_LIMIT_NONE"
    and wrong: "attempt_key SL L p secret w = None" and run: "fv_vault_unlock SL L p secret w = (r, v, w')"
  shows "charged policy (if isl (unlock_stage SL p w) then n else Suc n) (w_authority w') \<and>
    (\<not> isl (unlock_stage SL p w) \<longrightarrow> Suc n \<le> unat (max_attempts policy))"
proof (cases "unlock_stage SL p w")
  case (Inl x)
  then show ?thesis
    using run unlock_stage_stops [OF p c lim] unfolding fv_vault_unlock_def unlock_by_stage by (cases x) auto
next
  case (Inr x)
  then obtain s header cfg copy w1 where st: "unlock_stage SL p w = Inr (s, header, cfg, copy, w1)" by (cases x) auto
  note S = unlock_stage_charged [OF p c lim st]
  obtain vmk w2 where ev: "evaluate_credential SL L p s header secret w1 = (vmk, w2)"
    by (cases "evaluate_credential SL L p s header secret w1")
  have "vmk = None" using wrong st ev by (simp add: attempt_key_def)
  moreover have k: "inv (w_authority w2)" "current (w_authority w2) y \<Longrightarrow> y = s" for y
    using evaluate_keeps [OF p _ ev] S current_unique by blast+
  ultimately have "charged policy (Suc n) (w_authority w')"
    using settle_wrong_charged [of p s w2 policy "Suc n" SL L header cfg copy True r v w'] p lim S run st ev
    unfolding fv_vault_unlock_def unlock_by_stage by simp
  moreover have "unat (ds_attempts s) \<le> unat (max_attempts policy)" using S by (simp add: word_le_nat_alt)
  ultimately show ?thesis using S st by simp
qed

lemma guess_budget:
  assumes "platform_of p" "limit_action policy \<noteq> FV_LIMIT_NONE"
  shows "charged policy n (w_authority w) \<Longrightarrow> n \<le> unat (max_attempts policy) \<Longrightarrow>
    unlock_run SL L p secrets w = (k, False, w') \<Longrightarrow> n + k \<le> unat (max_attempts policy) \<and> charged policy (n + k) (w_authority w')"
proof (induction secrets arbitrary: n k w)
  case (Cons secret secrets)
  obtain r v w1 where u: "fv_vault_unlock SL L p secret w = (r, v, w1)" by (cases "fv_vault_unlock SL L p secret w")
  obtain k1 o1 w2 where rest: "unlock_run SL L p secrets w1 = (k1, o1, w2)" by (cases "unlock_run SL L p secrets w1")
  have e: "attempt_key SL L p secret w = None" "o1 = False" "w2 = w'" "k = (if isl (unlock_stage SL p w) then k1 else Suc k1)"
    using Cons.prems(3) u rest by auto
  note A = wrong_attempt_charged [OF assms(1) Cons.prems(1) assms(2) e(1) u]
  show ?case
    using Cons.IH [of "if isl (unlock_stage SL p w) then n else Suc n" w1 k1] A rest e Cons.prems(2) by (auto split: if_splits)
qed simp

end

end
