(* ===== verification/Enrollment_Authority.thy ===== *)
theory Enrollment_Authority
  imports Enrollment Vault_Attempts
begin

text \<open>
  The enrollment provides the authority that the vault relies on: while the token is alive its journal
  is a versioned cell, binding and refused destruction leave it alone, and a revoked token is dead for
  good. The attempt budget of the vault is stated on this authority.
\<close>

text \<open>OTP is not flash: accesses to it, successful or not, leave the journal's banks as they are.\<close>

definition otp_apart :: "'h fv_otp_io \<Rightarrow> ('h \<Rightarrow> u8 list) \<Rightarrow> bool" where
  "otp_apart OT mem \<longleftrightarrow>
     (\<forall>row h. mem (snd (otp_read_raw OT row h)) = mem h) \<and> (\<forall>row v h. mem (snd (otp_write_raw OT row v h)) = mem h) \<and>
     (\<forall>row h. mem (snd (otp_read_secret OT row h)) = mem h) \<and> (\<forall>row b h. mem (snd (otp_write_secret OT row b h)) = mem h) \<and>
     (\<forall>page h. mem (snd (otp_can_program OT page h)) = mem h)"

lemma otp_apartD:
  assumes "otp_apart OT mem"
  shows "otp_read_raw OT row h = (x, h') \<Longrightarrow> mem h' = mem h"
    and "otp_write_raw OT row v h = (ok, h') \<Longrightarrow> mem h' = mem h"
    and "otp_read_secret OT row h = (b, h') \<Longrightarrow> mem h' = mem h"
    and "otp_can_program OT page h = (ok, h') \<Longrightarrow> mem h' = mem h"
  using assms unfolding otp_apart_def by (metis snd_conv)+

lemma mask_read_apart: "otp_apart OT mem \<Longrightarrow> mask_read OT k h = (x, h') \<Longrightarrow> mem h' = mem h"
  by (auto simp: mask_read_def read_row_def dest: otp_apartD(1) split: if_splits prod.splits option.splits)

lemma program_row_apart: "otp_apart OT mem \<Longrightarrow> program_row OT page row v h = (ok, h') \<Longrightarrow> mem h' = mem h"
  by (auto simp: program_row_def read_row_def dest: otp_apartD split: prod.splits option.splits bool.splits)
    (metis otp_apartD)+

lemma mask_write_apart: "otp_apart OT mem \<Longrightarrow> mask_write OT k st h = (ok, h') \<Longrightarrow> mem h' = mem h"
  by (auto simp: mask_write_def read_row_def Let_def dest: otp_apartD(1) program_row_apart
      split: if_splits prod.splits option.splits) (metis otp_apartD(1) program_row_apart)+

lemma cell_cong:
  "mem f' = mem f \<Longrightarrow> cell_inv SL io j mem f' = cell_inv SL io j mem f"
  "mem f' = mem f \<Longrightarrow> cell_current SL j mem f' = cell_current SL j mem f"
  "mem f' = mem f \<Longrightarrow> cell_fresh mem f' = cell_fresh mem f"
  by (simp_all add: cell_inv_def cell_current_def cell_fresh_def fun_eq_iff)

section \<open>The enrollment as an authority\<close>

definition enrolled :: "sha_lib \<Rightarrow> 'h fv_otp_io \<Rightarrow> 'h fv_journal_io \<Rightarrow> ('h \<Rightarrow> u8 list) \<Rightarrow> fv_enrollment_device \<times> 'h \<Rightarrow> bool" where
  "enrolled SL OT io mem = (\<lambda>(d, h). \<not> ed_terminal d \<and> otp_apart OT mem \<and> cell_inv SL io (ed_journal d) mem h)"

definition enrolled_state :: "sha_lib \<Rightarrow> ('h \<Rightarrow> u8 list) \<Rightarrow> fv_enrollment_device \<times> 'h \<Rightarrow> fv_device_state \<Rightarrow> bool" where
  "enrolled_state SL mem = (\<lambda>(d, h). cell_current SL (ed_journal d) mem h)"

lemma enrollment_load_cases:
  assumes "otp_apart OT mem" "\<not> ed_terminal d" "enrollment_load SL OT io (d, h) = (r, d', h')"
  shows "d' = d \<and> (\<exists>h1. mem h1 = mem h \<and> (r = None \<and> h' = h1 \<or>
    (\<exists>x. cell_load SL io (ed_journal d) h1 = (x, h') \<and> (r = None \<or> r = x))))"
proof -
  obtain m h1 where m: "mask_read OT (ed_token_slot d) h = (m, h1)" by (cases "mask_read OT (ed_token_slot d) h")
  have k: "mem h1 = mem h" by (rule mask_read_apart [OF assms(1) m])
  obtain q s h2 where j: "fv_journal_load SL io (ed_journal d) h1 = (q, s, h2)" by (cases "fv_journal_load SL io (ed_journal d) h1")
  show ?thesis
  proof (cases "m = None \<or> \<not> ed_opened d \<or> m \<noteq> Some FV_OTP_MASK_READY")
    case True
    then show ?thesis using assms(2,3) m k by (auto simp: enrollment_load_def split: if_splits option.splits)
  next
    case False
    then show ?thesis
      using assms(2,3) m k j by (auto simp: enrollment_load_def cell_load_def split: if_splits)
  qed
qed

lemma enrollment_commit_cases:
  assumes "otp_apart OT mem" "\<not> ed_terminal d" "enrollment_commit SL OT io p s (d, h) = (ok, d', h')"
  shows "d' = d \<and> (\<exists>h1. mem h1 = mem h \<and> (\<not> ok \<and> h' = h1 \<or> cell_commit SL io (ed_journal d) p s h1 = (ok, h')))"
proof -
  obtain m h1 where m: "mask_read OT (ed_token_slot d) h = (m, h1)" by (cases "mask_read OT (ed_token_slot d) h")
  have k: "mem h1 = mem h" by (rule mask_read_apart [OF assms(1) m])
  show ?thesis
    using assms(2,3) m k by (auto simp: enrollment_commit_def cell_commit_def split: if_splits option.splits prod.splits)
qed

lemma terminal_stays:
  "ed_terminal d \<Longrightarrow> enrollment_load SL OT io (d, h) = (r, d', h') \<Longrightarrow> d' = d"
  "ed_terminal d \<Longrightarrow> enrollment_commit SL OT io p s (d, h) = (ok, d', h') \<Longrightarrow> d' = d"
  by (auto simp: enrollment_load_def enrollment_commit_def split: if_splits option.splits prod.splits)

lemma terminal_load:
  "ed_terminal d \<Longrightarrow> enrollment_load SL OT io (d, h) = (Some s, d', h') \<Longrightarrow>
   ds_status s = FV_ENROLLMENT_DESTROY_PENDING \<or> ds_status s = FV_ENROLLMENT_DESTROYED"
  by (auto simp: enrollment_load_def split: if_splits option.splits prod.splits)

lemma enrollment_destroy_cases:
  assumes "enrollment_destroy SL OT io k (d, h) = (ok, d', h')"
  shows "ed_terminal d' \<or> k \<ge> 228 \<and> (d', h') = (d, h) \<or> (\<exists>r h1. enrollment_load SL OT io (d, h) = (r, d', h1) \<and>
    (h' = h1 \<or> mask_write OT (unat k) FV_OTP_MASK_REVOKED h1 = (False, h')))"
proof (cases "unat k \<ge> FV_OTP_SLOTS")
  case True
  then show ?thesis using assms by (auto simp: enrollment_destroy_def word_le_nat_alt)
next
  case False
  obtain r d1 h1 where l: "enrollment_load SL OT io (d, h) = (r, d1, h1)" by (cases "enrollment_load SL OT io (d, h)")
  show ?thesis
    using assms False l by (auto simp: enrollment_destroy_def Let_def split: if_splits option.splits prod.splits bool.splits)
qed

definition enrolled_fresh :: "('h \<Rightarrow> u8 list) \<Rightarrow> fv_enrollment_device \<times> 'h \<Rightarrow> bool" where
  "enrolled_fresh mem = (\<lambda>(d, h). cell_fresh mem h)"

definition revoked :: "fv_enrollment_device \<times> 'h \<Rightarrow> bool" where
  "revoked = (\<lambda>(d, h). ed_terminal d)"

lemmas enrolled_defs = enrolled_def enrolled_state_def enrolled_fresh_def

lemma enrolled_load:
  assumes e: "enrolled SL OT io mem (d, h)" and l: "enrollment_load SL OT io (d, h) = (r, d', h')"
  shows "enrolled SL OT io mem (d', h') \<and> enrolled_state SL mem (d', h') = enrolled_state SL mem (d, h) \<and>
    enrolled_fresh mem (d', h') = enrolled_fresh mem (d, h) \<and>
    (\<forall>s. r = Some s \<longrightarrow> enrolled_state SL mem (d, h) s \<and> device_state_wf s)"
proof -
  have i: "otp_apart OT mem" "\<not> ed_terminal d" "cell_inv SL io (ed_journal d) mem h" using e by (auto simp: enrolled_def)
  obtain h1 where d': "d' = d" and h1: "mem h1 = mem h"
    and o: "r = None \<and> h' = h1 \<or> (\<exists>x. cell_load SL io (ed_journal d) h1 = (x, h') \<and> (r = None \<or> r = x))"
    using enrollment_load_cases [OF i(1,2) l] by blast
  have inv: "cell_inv SL io (ed_journal d) mem h1" using i(3) cell_cong(1) [of mem h1 h] h1 by blast
  note c = cell_cong(2) [of mem h1 h SL "ed_journal d", OF h1] cell_cong(3) [of mem h1 h, OF h1]
  from o show ?thesis
  proof
    assume "r = None \<and> h' = h1"
    then show ?thesis using d' i inv c by (simp add: enrolled_defs)
  next
    assume "\<exists>x. cell_load SL io (ed_journal d) h1 = (x, h') \<and> (r = None \<or> r = x)"
    then obtain x where x: "cell_load SL io (ed_journal d) h1 = (x, h')" "r = None \<or> r = x" by blast
    note k = journal_cell.load_keeps [OF inv x(1)]
    have "cell_current SL (ed_journal d) mem h' = cell_current SL (ed_journal d) mem h1" using k by (simp add: fun_eq_iff)
    moreover have "cell_current SL (ed_journal d) mem h1 s \<and> device_state_wf s" if "r = Some s" for s
      using journal_cell.load_current [OF inv, of s h'] x that by auto
    ultimately show ?thesis using k d' i c by (simp add: enrolled_defs)
  qed
qed

lemma enrolled_commit:
  assumes e: "enrolled SL OT io mem (d, h)" and s: "device_state_wf s"
    and l: "enrollment_commit SL OT io p s (d, h) = (ok, d', h')"
  shows "enrolled SL OT io mem (d', h') \<and> (enrolled_fresh mem (d', h') \<longrightarrow> enrolled_fresh mem (d, h)) \<and>
    (\<forall>x. enrolled_state SL mem (d', h') x \<longrightarrow> enrolled_state SL mem (d, h) x \<or> x = s \<and> p < ds_sequence s \<and>
      (if enrolled_fresh mem (d, h) then p = 0 else \<exists>z. enrolled_state SL mem (d, h) z \<and> ds_sequence z = p)) \<and>
    (ok \<longrightarrow> enrolled_state SL mem (d', h') s)"
proof -
  have i: "otp_apart OT mem" "\<not> ed_terminal d" "cell_inv SL io (ed_journal d) mem h" using e by (auto simp: enrolled_def)
  obtain h1 where d': "d' = d" and h1: "mem h1 = mem h"
    and o: "\<not> ok \<and> h' = h1 \<or> cell_commit SL io (ed_journal d) p s h1 = (ok, h')"
    using enrollment_commit_cases [OF i(1,2) l] by blast
  have inv: "cell_inv SL io (ed_journal d) mem h1" using i(3) cell_cong(1) [of mem h1 h] h1 by blast
  note c = cell_cong(2) [of mem h1 h SL "ed_journal d", OF h1] cell_cong(3) [of mem h1 h, OF h1]
  from o show ?thesis
  proof
    assume "\<not> ok \<and> h' = h1"
    then show ?thesis using d' i inv c by (simp add: enrolled_defs)
  next
    assume x: "cell_commit SL io (ed_journal d) p s h1 = (ok, h')"
    show ?thesis
      using journal_cell.commit_keeps [OF inv s x] journal_cell.commit_step [OF inv s x]
        journal_cell.commit_durable [OF inv s, of p h'] x d' i c
      by (simp add: enrolled_defs) (metis (full_types))
  qed
qed

lemma enrolled_binding:
  assumes e: "enrolled SL OT io mem (d, h)" and l: "enrollment_binding SL OT io ident k (d, h) = (b, d', h')"
  shows "enrolled SL OT io mem (d', h') \<and> enrolled_state SL mem (d', h') = enrolled_state SL mem (d, h)"
proof -
  obtain r d1 h1 where ld: "enrollment_load SL OT io (d, h) = (r, d1, h1)" by (cases "enrollment_load SL OT io (d, h)")
  note L = enrolled_load [OF e ld]
  have a: "otp_apart OT mem" using e by (simp add: enrolled_def)
  have "d' = d1 \<and> mem h' = mem h1"
    using l ld otp_apartD(3) [OF a] by (auto simp: enrollment_binding_def read_token_def split: if_splits option.splits prod.splits)
  then show ?thesis using L cell_cong [of mem h' h1] by (simp add: enrolled_defs)
qed

lemma enrolled_destroy:
  assumes e: "enrolled SL OT io mem (d, h)" and l: "enrollment_destroy SL OT io k (d, h) = (ok, d', h')"
  shows "revoked (d', h') \<or> enrolled SL OT io mem (d', h') \<and> enrolled_state SL mem (d', h') = enrolled_state SL mem (d, h)"
proof -
  have a: "otp_apart OT mem" using e by (simp add: enrolled_def)
  consider "ed_terminal d'" | "(d', h') = (d, h)"
    | r h1 where "enrollment_load SL OT io (d, h) = (r, d', h1)" "h' = h1 \<or> mask_write OT (unat k) FV_OTP_MASK_REVOKED h1 = (False, h')"
    using enrollment_destroy_cases [OF l] by blast
  then show ?thesis
  proof cases
    case 3
    have "mem h' = mem h1" using 3(2) mask_write_apart [OF a] by blast
    then show ?thesis using enrolled_load [OF e 3(1)] cell_cong [of mem h' h1] by (simp add: enrolled_defs)
  qed (use e in \<open>auto simp: revoked_def\<close>)
qed

lemma revoked_stays:
  "revoked (d, h) \<Longrightarrow> enrollment_load SL OT io (d, h) = (r, d', h') \<Longrightarrow> revoked (d', h') \<and>
     (\<forall>s. r = Some s \<longrightarrow> ds_status s = FV_ENROLLMENT_DESTROY_PENDING \<or> ds_status s = FV_ENROLLMENT_DESTROYED)"
  "revoked (d, h) \<Longrightarrow> enrollment_commit SL OT io p s (d, h) = (ok, d', h') \<Longrightarrow> revoked (d', h')"
  by (auto simp: revoked_def dest: terminal_stays terminal_load)

lemma revoked_destroy: "revoked (d, h) \<Longrightarrow> enrollment_destroy SL OT io k (d, h) = (ok, d', h') \<Longrightarrow> revoked (d', h')"
  using enrollment_destroy_cases [of SL OT io k d h ok d' h'] by (auto simp: revoked_def dest: terminal_stays(1))

interpretation enrollment: device_authority "enrollment_load SL OT io" "enrollment_commit SL OT io" "enrolled SL OT io mem"
  "enrolled_state SL mem" "enrolled_fresh mem" "enrollment_binding SL OT io" "Some (enrollment_destroy SL OT io)" revoked
  for SL OT io mem
proof (unfold_locales, goal_cases)
  case (1 f a b)
  then show ?case by (auto simp: enrolled_defs dest: journal_cell.current_unique)
next
  case (2 f s)
  then show ?case by (auto simp: enrolled_defs dest: journal_cell.fresh_none)
next
  case (3 f r f' x)
  then show ?case using enrolled_load [of SL OT io mem "fst f" "snd f" r "fst f'" "snd f'"] by simp
next
  case (4 f s f')
  then show ?case using enrolled_load [of SL OT io mem "fst f" "snd f" "Some s" "fst f'" "snd f'"] by simp
next
  case (5 f s p ok f')
  then show ?case using enrolled_commit [of SL OT io mem "fst f" "snd f" s p ok "fst f'" "snd f'"] by simp
next
  case (6 f s p ok f' x)
  then show ?case
    using enrolled_commit [of SL OT io mem "fst f" "snd f" s p ok "fst f'" "snd f'"] unfolding prod.collapse
    by (auto split: if_splits)
next
  case (7 f s p f')
  then show ?case using enrolled_commit [of SL OT io mem "fst f" "snd f" s p True "fst f'" "snd f'"] by simp
next
  case (8 a i k b a' x)
  then show ?case using enrolled_binding [of SL OT io mem "fst a" "snd a" i k b "fst a'" "snd a'"] by simp
next
  case (9 a g k ok a')
  then show ?case using enrolled_destroy [of SL OT io mem "fst a" "snd a" k ok "fst a'" "snd a'"] by auto
next
  case (10 a)
  then show ?case by (auto simp: enrolled_def revoked_def)
next
  case (11 a r a')
  then show ?case using revoked_stays(1) [of "fst a" "snd a" SL OT io r "fst a'" "snd a'"] by simp
next
  case (12 a p s ok a')
  then show ?case using revoked_stays(2) [of "fst a" "snd a" SL OT io p s ok "fst a'" "snd a'"] by simp
next
  case (13 a g k ok a')
  then show ?case using revoked_destroy [of "fst a" "snd a" SL OT io k ok "fst a'" "snd a'"] by auto
qed

section \<open>Properties\<close>

lemma enrollment_platform:
  "vp_authority p = fv_enrollment_authority SL OT io \<Longrightarrow> enrollment.platform_of SL OT io p"
  by (simp add: enrollment.platform_of_def fv_enrollment_authority_def)

lemma enrolled_charged:
  assumes "enrolled SL OT io mem a" "enrolled_state SL mem a s" "n = unat (ds_attempts s)"
  shows "enrollment.charged SL OT io mem (ds_policy s) n a"
proof -
  have "x = s" if "enrolled_state SL mem a x" for x by (rule enrollment.current_unique [OF assms(1) that assms(2)])
  then show ?thesis using assms(1,3) unfolding enrollment.charged_def enrollment.charged_state_def by blast
qed

text \<open>C3. An attempt is charged before the credential is looked at. With an attempt limit, unlocking
  either stops with the same result for every credential, or evaluates the credential in a state where
  the journal durably holds the attempt: active, marked pending, and with at least one more attempt
  than before, within the limit. Cutting the power afterwards therefore does not give the guess back.\<close>

theorem unlock_charges_before_evaluating:
  assumes "vp_authority p = fv_enrollment_authority SL OT io"
    and "enrolled SL OT io mem (w_authority w)" "enrolled_state SL mem (w_authority w) s0"
    and "limit_action (ds_policy s0) \<noteq> FV_LIMIT_NONE"
  shows "(\<exists>r w'. \<forall>secret repair. vault_unlock SL L p secret repair w = (r, fv_vault_lock, w')) \<or>
    (\<exists>s header c copy w1. enrolled_state SL mem (w_authority w1) s \<and> ds_status s = FV_ENROLLMENT_ACTIVE \<and>
       ds_attempt_pending s \<and> unat (ds_attempts s0) < unat (ds_attempts s) \<and> ds_attempts s \<le> max_attempts (ds_policy s0) \<and>
       (\<forall>secret repair. vault_unlock SL L p secret repair w =
          (case evaluate_credential SL L p s header secret w1 of (vmk, w2) \<Rightarrow>
             settle_attempt SL L p s True header c copy repair vmk w2)))"
proof (cases "unlock_stage SL p w")
  case (Inl x)
  then show ?thesis by (cases x) (auto simp: unlock_by_stage)
next
  case (Inr x)
  then obtain s header c copy w1 where st: "unlock_stage SL p w = Inr (s, header, c, copy, w1)" by (cases x) auto
  from enrollment.unlock_stage_charged [OF enrollment_platform [OF assms(1)] enrolled_charged [OF assms(2,3) refl] assms(4) st]
  have k: "enrolled_state SL mem (w_authority w1) s \<and> ds_status s = FV_ENROLLMENT_ACTIVE \<and> ds_attempt_pending s \<and>
      unat (ds_attempts s0) < unat (ds_attempts s) \<and> ds_attempts s \<le> max_attempts (ds_policy s0) \<and> ds_policy s = ds_policy s0"
    by simp
  then show ?thesis
    using assms(4) st by (intro disjI2 exI [of _ s] exI [of _ header] exI [of _ c] exI [of _ copy] exI [of _ w1])
      (simp add: unlock_by_stage)
qed

text \<open>C2. The budget of guesses. However many credentials are tried in sequence, with whatever results
  and interruptions of the journal in between, as long as none of them opens the envelope at most
  \<open>max_attempts\<close> minus the attempts already charged are evaluated; afterwards the journal still records
  every evaluated guess, or the enrollment is locked or destroyed.\<close>

theorem guess_budget_bounded:
  assumes "vp_authority p = fv_enrollment_authority SL OT io"
    and "enrolled SL OT io mem (w_authority w)" "enrolled_state SL mem (w_authority w) s0"
    and "limit_action (ds_policy s0) \<noteq> FV_LIMIT_NONE" "ds_attempts s0 \<le> max_attempts (ds_policy s0)"
    and "unlock_run SL L p secrets w = (k, False, w')"
  shows "unat (ds_attempts s0) + k \<le> unat (max_attempts (ds_policy s0)) \<and>
    (revoked (w_authority w') \<or>
     (\<forall>s. enrolled_state SL mem (w_authority w') s \<longrightarrow> ds_status s = FV_ENROLLMENT_ACTIVE \<longrightarrow>
        unat (ds_attempts s0) + k \<le> unat (ds_attempts s)))"
proof -
  have "unat (ds_attempts s0) \<le> unat (max_attempts (ds_policy s0))" using assms(5) by (simp add: word_le_nat_alt)
  from enrollment.guess_budget [OF enrollment_platform [OF assms(1)] assms(4) enrolled_charged [OF assms(2,3) refl] this assms(6)]
  show ?thesis by (auto simp: enrollment.charged_def enrollment.charged_state_def)
qed

section \<open>The properties at work\<close>

text \<open>An enrolled device with token slot 3 ready, its journal in flash memory, and a card that carries a
  header for it.\<close>

definition test_otp :: "u8 list fv_otp_io" where
  "test_otp = \<lparr>otp_read_raw = (\<lambda>row h. (Some (if row = 192 then 0xC00 else 0), h)), otp_write_raw = (\<lambda>row v h. (False, h)),
     otp_read_secret = (\<lambda>row h. (Some (replicate 32 6), h)), otp_write_secret = (\<lambda>row b h. (False, h)),
     otp_can_program = (\<lambda>page h. (False, h))\<rparr>"

definition test_device :: fv_enrollment_device where
  "test_device = \<lparr>ed_journal = test_journal, ed_device_id = replicate 16 9, ed_opened = True, ed_terminal = False,
     ed_token_slot = 3\<rparr>"

definition active_state :: "u8 list \<Rightarrow> fv_device_state" where
  "active_state header = zero_state\<lparr>ds_status := FV_ENROLLMENT_ACTIVE, ds_sequence := 1, ds_credential_generation := 1,
     ds_device_id := replicate 16 9, ds_volume_id := volume_id (test_descriptor 7000), ds_header_hash := take 32 header,
     ds_token_slot := 3, ds_policy := fv_auth_policy_default\<rparr>"

definition test_enrolled_platform :: "(fv_enrollment_device \<times> u8 list, nat \<Rightarrow> u8 list, unit) fv_vault_platform" where
  "test_enrolled_platform = \<lparr>vp_sd = ram_device 10000, vp_authority = fv_enrollment_authority test_sha test_otp ram_flash,
     vp_random = Some test_rng, vp_kdf_limits = test_limits, vp_format_scratch = 0, vp_format_sectors = 0,
     vp_initialize_contents = None\<rparr>"

lemma test_otp_apart: "otp_apart test_otp mem"
  by (simp add: otp_apart_def test_otp_def)

lemma volume_encode_magic: "fv_volume_descriptor_encode d c = Some v \<Longrightarrow> span v 0 8 = volume_magic \<and> length v = 128"
  by (auto simp: fv_volume_descriptor_encode_def Let_def put_def span_memcpy_other span_memcpy_same upt_rec split: if_splits)

lemma test_header:
  obtains a where "length a = 512" "\<not> filled (take 32 a) 0" "fv_envelope_parse a 10000 test_limits = Some (envelope_norm test_config)"
proof -
  obtain a where a: "envelope_encode test_config 10000 test_limits = Some a" using test_config_encode by blast
  have w: "length (ec_device_id test_config) = 16" "descriptor_wf (ec_volume test_config)"
    by (simp_all add: test_config_def descriptor_wf_def test_descriptor_def)
  obtain v where v: "fv_volume_descriptor_encode (ec_volume test_config) 10000 = Some v" "length a = 512" "span a 0 128 = v"
    using envelope_encode_fields [OF a w(1)] by metis
  have "same_header (unat (layer_count (ec_volume test_config))) a a" using v(2) by (simp add: same_header_def)
  note p = envelope_parse_same [OF a w this]
  have "span (span a 0 128) 0 8 = volume_magic" using volume_encode_magic [OF v(1)] v(3) by simp
  then have "take 8 (take 32 a) = volume_magic" by (simp add: span_def min_def)
  then have "set volume_magic \<subseteq> set (take 32 a)" using set_take_subset by metis
  then have "0x46 \<in> set (take 32 a)" by (simp add: volume_magic_def)
  moreover have "(0x46 :: u8) \<noteq> 0" by simp
  ultimately have "\<not> filled (take 32 a) 0" unfolding filled_iff by blast
  with that v(2) p show ?thesis by blast
qed

lemma test_enrolled:
  obtains header f where "length header = 512" "enrolled test_sha test_otp ram_flash flash_bytes (test_device, f)"
    "enrolled_state test_sha flash_bytes (test_device, f) (active_state header)"
    "fv_envelope_parse header 10000 test_limits = Some (envelope_norm test_config)"
proof -
  obtain a where a: "length a = 512" "\<not> filled (take 32 a) 0" "fv_envelope_parse a 10000 test_limits = Some (envelope_norm test_config)"
    using test_header by blast
  have wf: "device_state_wf (active_state a)"
    using a(1) by (simp add: active_state_def device_state_wf_def zero_state_def test_descriptor_def)
  obtain b where b: "journal_record test_sha test_journal (active_state a) = Some b"
    using journal_record_total [of test_sha test_journal "active_state a"] a(2)
    by (auto simp: test_journal_def active_state_def zero_state_def body_ok_def enrollment_defs FV_OTP_TOKEN_SLOTS_def
        filled_iff test_descriptor_def)
  obtain f where f: "fv_journal_commit test_sha ram_flash test_journal 0 (active_state a) [] = (FV_JOURNAL_OK, f)"
    using working_commit [OF ram_working_flash blank_flash_inv b, of 0]
    by (auto simp: UINT64_MAX_def active_state_def cell_fresh_def blank_flash)
  have i: "cell_inv test_sha ram_flash test_journal flash_bytes []"
    by (simp add: cell_inv_def ram_flash_law ram_torn_erase_law blank_flash_inv)
  have c: "cell_commit test_sha ram_flash test_journal 0 (active_state a) [] = (True, f)" by (simp add: cell_commit_def f)
  show ?thesis
    using that [OF a(1) _ _ a(3), of f] journal_cell.commit_keeps [OF i wf c] journal_cell.commit_durable [OF i wf c] test_otp_apart
    by (simp add: enrolled_def enrolled_state_def test_device_def)
qed

abbreviation test_enrolled_world :: "u8 list \<Rightarrow> u8 list \<Rightarrow> (fv_enrollment_device \<times> u8 list, nat \<Rightarrow> u8 list, unit) vault_world" where
  "test_enrolled_world header f \<equiv> \<lparr>w_authority = (test_device, f), w_sd = (\<lambda>a. if a = 0 then header else []), w_random = ()\<rparr>"

lemma unlock_charges_before_evaluating_witness:
  "\<exists>header f. enrolled_state test_sha flash_bytes (test_device, f) (active_state header) \<and>
    ((\<exists>r w'. \<forall>secret repair.
        vault_unlock test_sha test_ciphers test_enrolled_platform secret repair (test_enrolled_world header f) = (r, fv_vault_lock, w')) \<or>
     (\<exists>s w1 :: (fv_enrollment_device \<times> u8 list, nat \<Rightarrow> u8 list, unit) vault_world.
        enrolled_state test_sha flash_bytes (w_authority w1) s \<and> ds_attempt_pending s \<and> 0 < unat (ds_attempts s)))"
proof -
  obtain header f where t: "enrolled test_sha test_otp ram_flash flash_bytes (test_device, f)"
    "enrolled_state test_sha flash_bytes (test_device, f) (active_state header)" using test_enrolled by metis
  let ?w = "test_enrolled_world header f"
  have p: "vp_authority test_enrolled_platform = fv_enrollment_authority test_sha test_otp ram_flash"
    by (simp add: test_enrolled_platform_def)
  have l: "limit_action (ds_policy (active_state header)) \<noteq> FV_LIMIT_NONE"
    by (simp add: active_state_def fv_auth_policy_default_def limit_defs)
  have e: "enrolled test_sha test_otp ram_flash flash_bytes (w_authority ?w)"
    "enrolled_state test_sha flash_bytes (w_authority ?w) (active_state header)" using t by simp_all
  from unlock_charges_before_evaluating [OF p e l, of test_ciphers]
  have "(\<exists>r w'. \<forall>secret repair.
        vault_unlock test_sha test_ciphers test_enrolled_platform secret repair ?w = (r, fv_vault_lock, w')) \<or>
     (\<exists>s w1 :: (fv_enrollment_device \<times> u8 list, nat \<Rightarrow> u8 list, unit) vault_world.
        enrolled_state test_sha flash_bytes (w_authority w1) s \<and> ds_attempt_pending s \<and> 0 < unat (ds_attempts s))"
    by (elim disjE exE conjE) (blast, metis less_nat_zero_code neq0_conv)
  with t show ?thesis by blast
qed

lemma unlock_run_no_key:
  "(\<And>secret w. secret \<in> set secrets \<Longrightarrow> attempt_key SL L p secret w = None) \<Longrightarrow> \<exists>k w'. unlock_run SL L p secrets w = (k, False, w')"
proof (induction secrets arbitrary: w)
  case (Cons secret secrets)
  obtain r v w1 where u: "fv_vault_unlock SL L p secret w = (r, v, w1)" by (cases "fv_vault_unlock SL L p secret w")
  show ?case using Cons.IH [of w1] Cons.prems u by auto
qed simp

lemma empty_secret_key: "attempt_key SL L p [] w = None"
proof -
  have "fv_envelope_open SL L h c m b [] = None" for h c m b
    by (simp add: fv_envelope_open_def envelope_derive_def profile_secret_def split: option.splits)
  then show ?thesis by (auto simp: attempt_key_def evaluate_credential_def split: sum.splits prod.splits option.splits)
qed

lemma guess_budget_bounded_witness:
  "\<exists>header f k w'. unlock_run test_sha test_ciphers test_enrolled_platform [[], [], []] (test_enrolled_world header f) = (k, False, w') \<and>
     enrolled_state test_sha flash_bytes (test_device, f) (active_state header) \<and> k \<le> 10"
proof -
  obtain header f where t: "enrolled test_sha test_otp ram_flash flash_bytes (test_device, f)"
    "enrolled_state test_sha flash_bytes (test_device, f) (active_state header)" using test_enrolled by metis
  let ?w = "test_enrolled_world header f"
  have p: "vp_authority test_enrolled_platform = fv_enrollment_authority test_sha test_otp ram_flash"
    by (simp add: test_enrolled_platform_def)
  have l: "limit_action (ds_policy (active_state header)) \<noteq> FV_LIMIT_NONE" "ds_attempts (active_state header) = 0"
    "max_attempts (ds_policy (active_state header)) = 10"
    by (simp_all add: active_state_def fv_auth_policy_default_def limit_defs zero_state_def)
  have "\<exists>k w'. unlock_run test_sha test_ciphers test_enrolled_platform [[], [], []] ?w = (k, False, w')"
    by (rule unlock_run_no_key) (auto simp: empty_secret_key)
  then obtain k w' where r: "unlock_run test_sha test_ciphers test_enrolled_platform [[], [], []] ?w = (k, False, w')" by blast
  have e: "enrolled test_sha test_otp ram_flash flash_bytes (w_authority ?w)"
    "enrolled_state test_sha flash_bytes (w_authority ?w) (active_state header)" using t by simp_all
  have "k \<le> 10" using guess_budget_bounded [OF p e l(1) _ r] l(2,3) by simp
  with r t show ?thesis by blast
qed

end
