(* ===== verification/Enrollment_OTP.thy ===== *)
theory Enrollment_OTP
  imports Enrollment_Authority
begin

text \<open>
  Enrollment on one-time-programmable memory. A predicate on the hardware that every primitive read
  (and write) keeps is kept by the operations built from them; with it: opening the enrollment is
  read-only, writing a slot's status touches no other slot and never clears a bit, and a token that
  was revoked stays revoked through every sequence of operations and is never opened again.
\<close>

named_theorems keeps

text \<open>The hardware in a result of provisioning, which also returns the state of the random source.\<close>

definition hardware :: "'b \<times> 'd \<times> 'h \<times> 'r \<Rightarrow> 'h" where
  "hardware x = fst (snd (snd x))"

locale hardware_reads =
  fixes OT :: "'h fv_otp_io" and io :: "'h fv_journal_io" and P :: "'h \<Rightarrow> bool"
  assumes read_raw_keeps [keeps]: "P h \<Longrightarrow> P (snd (otp_read_raw OT q h))"
    and read_secret_keeps [keeps]: "P h \<Longrightarrow> P (snd (otp_read_secret OT q h))"
    and can_program_keeps [keeps]: "P h \<Longrightarrow> P (snd (otp_can_program OT q h))"
    and io_read_keeps [keeps]: "P h \<Longrightarrow> P (snd (io_read io a n h))"
begin

text \<open>One step of a program that threads the hardware, for results of one and of two components.\<close>

lemma bind_keeps:
  "P (snd x) \<Longrightarrow> (\<And>a h. P h \<Longrightarrow> P (snd (f a h))) \<Longrightarrow> P (snd (case x of (a, h) \<Rightarrow> f a h))"
  "P (snd x) \<Longrightarrow> (\<And>a h. P h \<Longrightarrow> P (snd (snd (g a h)))) \<Longrightarrow> P (snd (snd (case x of (a, h) \<Rightarrow> g a h)))"
  "P (snd (snd y)) \<Longrightarrow> (\<And>a w. P (snd w) \<Longrightarrow> P (snd (k a w))) \<Longrightarrow> P (snd (case y of (a, w) \<Rightarrow> k a w))"
  "P (snd (snd y)) \<Longrightarrow> (\<And>a w. P (snd w) \<Longrightarrow> P (snd (snd (l a w)))) \<Longrightarrow> P (snd (snd (case y of (a, w) \<Rightarrow> l a w)))"
  "P (snd (snd (snd z))) \<Longrightarrow> (\<And>a y. P (snd (snd y)) \<Longrightarrow> P (snd (snd (m a y)))) \<Longrightarrow> P (snd (snd (case z of (a, y) \<Rightarrow> m a y)))"
  "P (snd (snd y)) \<Longrightarrow> (\<And>a w. P (snd w) \<Longrightarrow> P (snd (snd (snd (n a w))))) \<Longrightarrow> P (snd (snd (snd (case y of (a, w) \<Rightarrow> n a w))))"
  by (simp_all add: split_def)

lemma case_keeps:
  "P (snd u) \<Longrightarrow> (\<And>v. P (snd (f v))) \<Longrightarrow> P (snd (case m of None \<Rightarrow> u | Some v \<Rightarrow> f v))"
  "P (snd (snd u')) \<Longrightarrow> (\<And>v. P (snd (snd (f' v)))) \<Longrightarrow> P (snd (snd (case m of None \<Rightarrow> u' | Some v \<Rightarrow> f' v)))"
  "P (snd u) \<Longrightarrow> P (snd v) \<Longrightarrow> P (snd (case b of True \<Rightarrow> u | False \<Rightarrow> v))"
  "P (snd (snd u')) \<Longrightarrow> P (snd (snd v')) \<Longrightarrow> P (snd (snd (case b of True \<Rightarrow> u' | False \<Rightarrow> v')))"
  "P (snd u) \<Longrightarrow> P (snd v) \<Longrightarrow> P (snd (if c then u else v))"
  "P (snd (snd u')) \<Longrightarrow> P (snd (snd v')) \<Longrightarrow> P (snd (snd (if c then u' else v')))"
  "P (snd (snd (snd u''))) \<Longrightarrow> P (snd (snd (snd v''))) \<Longrightarrow> P (snd (snd (snd (if c then u'' else v''))))"
  by (simp_all split: option.split bool.split)

lemma pair_keeps:
  "P h \<Longrightarrow> P (snd (a, h))" "P h \<Longrightarrow> P (snd (snd (a, b, h)))" "P (snd w) \<Longrightarrow> P (snd (snd (a, w)))"
  "P (snd w) \<Longrightarrow> P (snd (snd (snd (a, b, w))))"
  by simp_all

lemmas steps = bind_keeps case_keeps pair_keeps

lemma read_row_keeps [keeps]: "P h \<Longrightarrow> P (snd (read_row OT page row h))"
  by (simp add: read_row_def keeps)

lemma mask_read_keeps [keeps]: "P h \<Longrightarrow> P (snd (mask_read OT k h))"
  by (auto simp: mask_read_def split_def keeps split: option.split)

lemma read_token_keeps [keeps]: "P h \<Longrightarrow> P (snd (read_token OT k h))"
  by (simp add: read_token_def keeps)

lemma rows_blank_keeps [keeps]: "P h \<Longrightarrow> P (snd (rows_blank OT page is h))"
  by (induction "is" arbitrary: h) (auto simp: split_def keeps split: option.split)

lemma token_blank_keeps [keeps]: "P h \<Longrightarrow> P (snd (token_blank OT k h))"
  by (simp add: token_blank_def keeps)

lemma page_blank_keeps [keeps]: "P h \<Longrightarrow> P (snd (page_blank OT k h))"
  by (simp add: page_blank_def keeps)

lemma inspect_loop_keeps [keeps]: "P h \<Longrightarrow> P (snd (inspect_loop OT ks v h))"
  by (induction ks arbitrary: v h) (auto simp: split_def keeps split: option.split)

lemma inspect_mask_keeps [keeps]: "P h \<Longrightarrow> P (snd (inspect_mask OT h))"
  by (simp add: inspect_mask_def keeps)

lemma open_token_keeps [keeps]: "P (snd w) \<Longrightarrow> P (snd (snd (open_token SL OT k w)))"
  by (cases w) (auto simp: open_token_def split_def Let_def keeps split: option.split)

lemma burned_loop_keeps [keeps]: "P h \<Longrightarrow> P (snd (burned_loop OT page is h))"
  by (induction "is" arbitrary: h) (auto simp: split_def keeps split: option.split)

lemma burned_keeps [keeps]: "P h \<Longrightarrow> P (snd (burned OT k h))"
  by (simp add: burned_def keeps)

lemma flash_blank_loop_keeps [keeps]: "P h \<Longrightarrow> P (snd (flash_blank_loop io is h))"
  by (induction "is" arbitrary: h) (auto simp: split_def keeps split: option.split)

lemma flash_blank_keeps [keeps]: "P h \<Longrightarrow> P (snd (flash_blank io h))"
  by (simp add: flash_blank_def keeps)

lemma tokens_blank_loop_keeps [keeps]: "P h \<Longrightarrow> P (snd (tokens_blank_loop OT ks b h))"
  by (induction ks arbitrary: b h) (auto simp: split_def keeps)

lemma inspect_keeps [keeps]: "P h \<Longrightarrow> P (snd (fv_enrollment_inspect OT io h))"
  by (simp add: fv_enrollment_inspect_def split_def keeps)

lemma scan_loop_keeps [keeps]: "P h \<Longrightarrow> P (snd (snd (scan_loop SL io j is r h)))"
  by (induction "is" arbitrary: r h) (auto simp: split_def keeps split: option.split)

lemma journal_scan_keeps [keeps]: "P h \<Longrightarrow> P (snd (snd (journal_scan SL io j h)))"
  by (simp add: journal_scan_def keeps)

lemma journal_load_keeps [keeps]: "P h \<Longrightarrow> P (snd (snd (fv_journal_load SL io j h)))"
  by (simp add: fv_journal_load_def split_def Let_def keeps)

lemma enrollment_load_keeps [keeps]: "P (snd w) \<Longrightarrow> P (snd (snd (enrollment_load SL OT io w)))"
  by (cases w) (auto simp: enrollment_load_def split_def keeps split: option.split)

lemma enrollment_binding_keeps [keeps]:
  "P (snd w) \<Longrightarrow> P (snd (snd (enrollment_binding SL OT io i k w)))"
  by (cases w) (auto simp: enrollment_binding_def split_def keeps split: option.split)

lemma enrollment_open_keeps [keeps]: "P (snd w) \<Longrightarrow> P (snd (snd (fv_enrollment_open SL OT io w)))"
  by (cases w) (auto simp: fv_enrollment_open_def split_def Let_def keeps split: option.split bool.split)

lemma can_program_all_keeps [keeps]: "P h \<Longrightarrow> P (snd (can_program_all OT ps h))"
  by (induction ps arbitrary: h) (auto simp: split_def keeps split: bool.split)

lemma bank_blank_keeps [keeps]: "P h \<Longrightarrow> P (snd (bank_blank io b is h))"
  by (induction "is" arbitrary: h) (auto simp: split_def keeps split: option.split)

lemma free_slot_keeps [keeps]: "P h \<Longrightarrow> P (snd (free_slot OT ks h))"
  by (induction ks arbitrary: h) (auto simp: split_def keeps split: option.split)

end

locale hardware_writes = hardware_reads +
  assumes write_raw_keeps [keeps]: "P h \<Longrightarrow> P (snd (otp_write_raw OT q v h))"
    and write_secret_keeps [keeps]: "P h \<Longrightarrow> P (snd (otp_write_secret OT q b h))"
    and io_program_keeps [keeps]: "P h \<Longrightarrow> P (snd (io_program io a b h))"
    and io_erase_keeps [keeps]: "P h \<Longrightarrow> P (snd (io_erase io k h))"
begin

lemma program_row_keeps [keeps]:
  "P h \<Longrightarrow> P (snd (program_row OT page row v h))"
  by (auto simp: program_row_def split_def keeps split: option.split bool.split)

lemma write_row_keeps [keeps]:
  "P h \<Longrightarrow> P (snd (write_row OT page row v h))"
  by (auto simp: write_row_def split_def keeps split: option.split)

lemma mask_write_keeps [keeps]:
  "P h \<Longrightarrow> P (snd (mask_write OT k st h))"
  by (auto simp: mask_write_def split_def Let_def keeps split: option.split)

lemma write_token_keeps [keeps]:
  "P h \<Longrightarrow> P (snd (write_token OT k b h))"
  by (auto simp: write_token_def split_def keeps split: bool.split)

lemma burn_loop_keeps [keeps]:
  "P h \<Longrightarrow> P (snd (burn_loop OT page is h))"
  by (induction "is" arbitrary: h) (auto simp: split_def keeps split: bool.split)

lemma finish_burn_keeps [keeps]:
  "P h \<Longrightarrow> P (snd (finish_burn OT k h))"
  by (simp add: finish_burn_def keeps)

lemma erase_banks_keeps [keeps]: "P h \<Longrightarrow> P (snd (erase_banks io bs h))"
  by (induction bs arbitrary: h) (auto simp: split_def keeps split: bool.split)

lemma commit_slot_keeps [keeps]:
  "P h \<Longrightarrow> P (snd (commit_slot io r h))"
  by (auto simp: commit_slot_def split_def Let_def keeps split: bool.split)

lemma commit_write_keeps [keeps]: "P h \<Longrightarrow> P (snd (commit_write io i b h))"
  unfolding commit_write_def Let_def by (intro steps keeps | assumption)+

lemma journal_commit_keeps [keeps]: "P h \<Longrightarrow> P (snd (fv_journal_commit SL io j p s h))"
  unfolding fv_journal_commit_def Let_def by (intro steps keeps | assumption)+

lemma prepare_flash_keeps [keeps]: "P (snd w) \<Longrightarrow> P (snd (snd (fv_enrollment_prepare_flash OT io w)))"
  unfolding fv_enrollment_prepare_flash_def Let_def by (intro steps keeps | assumption)+

lemma enrollment_commit_keeps [keeps]: "P (snd w) \<Longrightarrow> P (snd (snd (enrollment_commit SL OT io p s w)))"
  unfolding enrollment_commit_def Let_def by (intro steps keeps | assumption)+

lemma enrollment_destroy_keeps [keeps]: "P (snd w) \<Longrightarrow> P (snd (snd (enrollment_destroy SL OT io k w)))"
  unfolding enrollment_destroy_def Let_def by (intro steps keeps | assumption)+

lemma request_destruction_keeps [keeps]: "P (snd w) \<Longrightarrow> P (snd (snd (fv_enrollment_request_destruction SL OT io w)))"
  unfolding fv_enrollment_request_destruction_def Let_def by (intro steps keeps | assumption)+

lemma abandon_slot_keeps [keeps]: "P h \<Longrightarrow> P (snd (abandon_slot OT k h))"
  unfolding abandon_slot_def Let_def by (intro steps keeps | assumption)+

lemma abandon_loop_keeps [keeps]:
  "P h \<Longrightarrow> P (snd (abandon_loop OT ks h))"
  by (induction ks arbitrary: h) (auto simp: split_def keeps split: bool.split)

lemma provision_keeps_steps:
  "P (snd x) \<Longrightarrow> (\<And>a h. P h \<Longrightarrow> P (hardware (f a h))) \<Longrightarrow> P (hardware (case x of (a, h) \<Rightarrow> f a h))"
  "P (snd (snd y)) \<Longrightarrow> (\<And>a w. P (snd w) \<Longrightarrow> P (hardware (g a w))) \<Longrightarrow> P (hardware (case y of (a, w) \<Rightarrow> g a w))"
  "P (hardware z) \<Longrightarrow> (\<And>a d h r. P h \<Longrightarrow> P (hardware (m a (d, h, r)))) \<Longrightarrow> P (hardware (case z of (a, w) \<Rightarrow> m a w))"
  "P (hardware u) \<Longrightarrow> (\<And>v. P (hardware (k v))) \<Longrightarrow> P (hardware (case o' of None \<Rightarrow> u | Some v \<Rightarrow> k v))"
  "P (hardware u) \<Longrightarrow> P (hardware v) \<Longrightarrow> P (hardware (case b of True \<Rightarrow> u | False \<Rightarrow> v))"
  "P (hardware u) \<Longrightarrow> P (hardware v) \<Longrightarrow> P (hardware (if c then u else v))"
  "P h \<Longrightarrow> P (hardware (ok, d, h, r))"
  by (simp_all add: hardware_def split_def split: option.split bool.split) (metis prod.collapse)

lemma provision_slot_keeps: "P h \<Longrightarrow> P (hardware (provision_slot SL OT io rng k (d, h, r)))"
proof -
  assume h: "P h"
  have rng: "(\<And>a r. P (hardware (f a r))) \<Longrightarrow> P (hardware (case rng q n of (a, r) \<Rightarrow> f a r))" for f q n
    by (simp add: split_def)
  show ?thesis unfolding provision_slot_def prod.case
    by (insert h) (intro rng | intro provision_keeps_steps pair_keeps keeps | assumption)+
qed

lemma provision_keeps: "P h \<Longrightarrow> P (hardware (fv_enrollment_provision SL OT io rng (d, h, r)))"
  unfolding fv_enrollment_provision_def prod.case Let_def
  by (intro provision_keeps_steps provision_slot_keeps pair_keeps keeps | assumption | simp add: hardware_def)+

end

section \<open>The law of OTP\<close>

text \<open>Reads leave every row and the flash as they are and report the row; programming sets bits that
  were asked for, clears none and leaves the other rows alone; flash is not OTP.\<close>

definition otp_law :: "'h fv_otp_io \<Rightarrow> 'h fv_journal_io \<Rightarrow> ('h \<Rightarrow> nat \<Rightarrow> u32) \<Rightarrow> ('h \<Rightarrow> u8 list) \<Rightarrow> bool" where
  "otp_law OT io rows mem \<longleftrightarrow>
     (\<forall>q h. rows (snd (otp_read_raw OT q h)) = rows h \<and> mem (snd (otp_read_raw OT q h)) = mem h \<and>
        (\<forall>v. fst (otp_read_raw OT q h) = Some v \<longrightarrow> v = rows h q)) \<and>
     (\<forall>q v h k i. bit (rows h k) i \<longrightarrow> bit (rows (snd (otp_write_raw OT q v h)) k) i) \<and>
     (\<forall>q v h i. bit (rows (snd (otp_write_raw OT q v h)) q) i \<longrightarrow> bit (rows h q) i \<or> bit v i) \<and>
     (\<forall>q v h k. k \<noteq> q \<longrightarrow> rows (snd (otp_write_raw OT q v h)) k = rows h k) \<and>
     (\<forall>q h. rows (snd (otp_read_secret OT q h)) = rows h \<and> mem (snd (otp_read_secret OT q h)) = mem h) \<and>
     (\<forall>q b h k i. bit (rows h k) i \<longrightarrow> bit (rows (snd (otp_write_secret OT q b h)) k) i) \<and>
     (\<forall>q h. rows (snd (otp_can_program OT q h)) = rows h \<and> mem (snd (otp_can_program OT q h)) = mem h) \<and>
     (\<forall>a n h. rows (snd (io_read io a n h)) = rows h \<and> mem (snd (io_read io a n h)) = mem h) \<and>
     (\<forall>a b h. rows (snd (io_program io a b h)) = rows h) \<and> (\<forall>b h. rows (snd (io_erase io b h)) = rows h)"

interpretation contents: hardware_reads OT io "\<lambda>h. otp_law OT io rows mem \<and> rows h = old_rows \<and> mem h = old_mem"
  for OT io rows mem old_rows old_mem
  by unfold_locales (auto simp: otp_law_def)

interpretation bits: hardware_writes OT io "\<lambda>h. otp_law OT io rows mem \<and> bit (rows h row) pos"
  for OT io rows mem row pos
  by unfold_locales (auto simp: otp_law_def)

section \<open>Status fields\<close>

definition slot_state :: "('h \<Rightarrow> nat \<Rightarrow> u32) \<Rightarrow> 'h \<Rightarrow> nat \<Rightarrow> u32" where
  "slot_state rows h k = mask_field (rows h (FV_OTP_MASK_PAGE * 64 + mask_row k)) k"

lemma seven_mask: "(7 :: u32) = mask 3"
  by (simp add: mask_eq_exp_minus_1)

lemma bit_mask_three: "bit (mask 3 :: u32) i \<longleftrightarrow> i < 3"
  by (auto simp: bit_mask_iff)

lemma bit_mask_field: "bit (mask_field v k) i \<longleftrightarrow> i < 3 \<and> bit v (mask_bit k + i)"
  unfolding mask_field_def seven_mask by (auto simp: bit_and_iff bit_drop_bit_eq bit_mask_three)

lemma mask_bit_bound: "mask_bit k + 3 \<le> 24"
proof -
  have "k mod 8 \<le> 7" by simp
  then show ?thesis by (simp add: mask_bit_def)
qed

definition mask_updated :: "u32 \<Rightarrow> nat \<Rightarrow> u32 \<Rightarrow> u32" where
  "mask_updated v k st = (v AND NOT (push_bit (mask_bit k) 7)) OR push_bit (mask_bit k) st"

definition three_bits :: "u32 \<Rightarrow> bool" where
  "three_bits st \<longleftrightarrow> (\<forall>j. bit st j \<longrightarrow> j < 3)"

lemma bit_mask_updated:
  assumes "three_bits st"
  shows "bit (mask_updated v k st) i \<longleftrightarrow>
    (if mask_bit k \<le> i \<and> i < mask_bit k + 3 then bit st (i - mask_bit k) else bit v i)"
  using assms [unfolded three_bits_def, rule_format, of "i - mask_bit k"] mask_bit_bound [of k] bit_imp_le_length [of v i]
  unfolding mask_updated_def seven_mask
  by (auto simp: bit_or_iff bit_and_iff bit_not_iff bit_push_bit_iff bit_mask_three)

lemma mask_fields_apart:
  assumes "j div 8 = k div 8" "j \<noteq> k" "i < 3"
  shows "\<not> (mask_bit k \<le> mask_bit j + i \<and> mask_bit j + i < mask_bit k + 3)"
proof -
  have "j mod 8 \<noteq> k mod 8" using assms by (metis div_mult_mod_eq)
  then show ?thesis using assms(3) by (simp add: mask_bit_def)
qed

lemma mask_updated_other:
  "three_bits st \<Longrightarrow> j div 8 = k div 8 \<Longrightarrow> j \<noteq> k \<Longrightarrow> i < 3 \<Longrightarrow>
   bit (mask_updated v k st) (mask_bit j + i) = bit v (mask_bit j + i)"
  using mask_fields_apart [of j k i] by (auto simp: bit_mask_updated)

lemma mask_field_updated: "three_bits st \<Longrightarrow> mask_field (mask_updated v k st) k = st"
  by (rule bit_eqI) (auto simp: bit_mask_field bit_mask_updated three_bits_def)

lemma otp_lawD:
  assumes "otp_law OT io rows mem"
  shows "otp_read_raw OT q h = (x, h') \<Longrightarrow> rows h' = rows h"
    and "otp_read_raw OT q h = (Some v, h') \<Longrightarrow> v = rows h q"
    and "otp_write_raw OT q v h = (ok, h') \<Longrightarrow> bit (rows h k) i \<Longrightarrow> bit (rows h' k) i"
    and "otp_write_raw OT q v h = (ok, h') \<Longrightarrow> bit (rows h' q) i \<Longrightarrow> bit (rows h q) i \<or> bit v i"
    and "otp_write_raw OT q v h = (ok, h') \<Longrightarrow> k \<noteq> q \<Longrightarrow> rows h' k = rows h k"
    and "otp_can_program OT q h = (ok, h') \<Longrightarrow> rows h' = rows h"
proof -
  note l = assms [unfolded otp_law_def]
  show "otp_read_raw OT q h = (x, h') \<Longrightarrow> rows h' = rows h" using l by (metis snd_conv)
  show "otp_read_raw OT q h = (Some v, h') \<Longrightarrow> v = rows h q" using l by (metis fst_conv)
  show "otp_write_raw OT q v h = (ok, h') \<Longrightarrow> bit (rows h k) i \<Longrightarrow> bit (rows h' k) i" using l by (metis snd_conv)
  show "otp_write_raw OT q v h = (ok, h') \<Longrightarrow> bit (rows h' q) i \<Longrightarrow> bit (rows h q) i \<or> bit v i" using l by (metis snd_conv)
  show "otp_write_raw OT q v h = (ok, h') \<Longrightarrow> k \<noteq> q \<Longrightarrow> rows h' k = rows h k" using l by (metis snd_conv)
  show "otp_can_program OT q h = (ok, h') \<Longrightarrow> rows h' = rows h" using l by (metis snd_conv)
qed

lemma program_row_spec:
  assumes law: "otp_law OT io rows mem" and run: "program_row OT page row v h = (ok, h')"
  shows "(\<forall>q. q \<noteq> page * 64 + row \<longrightarrow> rows h' q = rows h q) \<and>
    (\<forall>i. bit (rows h (page * 64 + row)) i \<longrightarrow> bit (rows h' (page * 64 + row)) i) \<and>
    (\<forall>i. bit (rows h' (page * 64 + row)) i \<longrightarrow> bit (rows h (page * 64 + row)) i \<or> bit v i) \<and>
    (ok \<longrightarrow> rows h' (page * 64 + row) = v)"
proof -
  let ?q = "page * 64 + row"
  obtain c h1 where 1: "otp_can_program OT page h = (c, h1)" by fastforce
  obtain w h2 where 2: "otp_write_raw OT ?q v h1 = (w, h2)" by fastforce
  obtain x h3 where 3: "otp_read_raw OT ?q h2 = (x, h3)" by fastforce
  note L = otp_lawD [OF law]
  have r1: "rows h1 = rows h" using L(6) [OF 1] .
  have r3: "rows h3 = rows h2" using L(1) [OF 3] .
  have x: "x = Some y \<Longrightarrow> y = rows h2 ?q" for y using L(2) 3 by blast
  have h': "h' = h1 \<and> \<not> ok \<or> h' = h2 \<and> \<not> ok \<or> h' = h3 \<and> (ok \<longrightarrow> x = Some v)"
    using run 1 2 3 by (auto simp: program_row_def read_row_def split: bool.splits option.splits)
  have w: "\<forall>q. q \<noteq> ?q \<longrightarrow> rows h2 q = rows h q" "\<forall>i. bit (rows h ?q) i \<longrightarrow> bit (rows h2 ?q) i"
    "\<forall>i. bit (rows h2 ?q) i \<longrightarrow> bit (rows h ?q) i \<or> bit v i"
    using L(3-5) [OF 2] r1 by auto
  show ?thesis using h' r1 r3 w x by auto
qed

lemma mask_read_spec:
  assumes "otp_law OT io rows mem" "mask_read OT k h = (x, h')"
  shows "rows h' = rows h \<and> (\<forall>st. x = Some st \<longrightarrow> k < FV_OTP_SLOTS \<and> st = slot_state rows h k)"
  using assms otp_lawD(1,2) [OF assms(1)]
  by (fastforce simp: mask_read_def read_row_def slot_state_def split: if_splits option.splits prod.splits)

lemma mask_write_spec:
  assumes law: "otp_law OT io rows mem" and st: "three_bits st" and run: "mask_write OT k st h = (ok, h')"
  shows "(\<forall>j. j \<noteq> k \<longrightarrow> slot_state rows h' j = slot_state rows h j) \<and>
    (\<forall>i. bit (slot_state rows h k) i \<longrightarrow> bit (slot_state rows h' k) i) \<and>
    (\<forall>i. bit (slot_state rows h' k) i \<longrightarrow> bit (slot_state rows h k) i \<or> bit st i) \<and>
    (ok \<longrightarrow> k < FV_OTP_SLOTS \<and> slot_state rows h' k = st) \<and>
    (slot_state rows h k AND NOT st \<noteq> 0 \<longrightarrow> \<not> ok \<and> rows h' = rows h)"
proof -
  let ?q = "FV_OTP_MASK_PAGE * 64 + mask_row k"
  obtain x h1 where 1: "read_row OT FV_OTP_MASK_PAGE (mask_row k) h = (x, h1)" by fastforce
  have r1: "rows h1 = rows h" and x: "x = Some v \<Longrightarrow> v = rows h ?q" for v
    using otp_lawD(1,2) [OF law] 1 by (auto simp: read_row_def)
  define new where "new = mask_updated (rows h ?q) k st"
  show ?thesis
  proof (cases "k \<ge> FV_OTP_SLOTS \<or> x = None \<or> slot_state rows h k AND NOT st \<noteq> 0")
    case True
    then have "\<not> ok \<and> rows h' = rows h"
      using run 1 r1 x by (auto simp: mask_write_def slot_state_def split: if_splits option.splits)
    then show ?thesis by (simp add: slot_state_def)
  next
    case False
    then obtain v where v: "x = Some v" and k: "k < FV_OTP_SLOTS" and z: "slot_state rows h k AND NOT st = 0" by auto
    have run1: "(if rows h ?q = new then (True, h1) else program_row OT FV_OTP_MASK_PAGE (mask_row k) new h1) = (ok, h')"
      using run 1 k v x z by (auto simp: mask_write_def slot_state_def Let_def new_def mask_updated_def split: if_splits)
    have new: "mask_field new k = st" unfolding new_def by (rule mask_field_updated [OF st])
    have low: "bit (rows h ?q) i \<Longrightarrow> bit new i" for i
    proof -
      assume b: "bit (rows h ?q) i"
      have "bit st (i - mask_bit k)" if "mask_bit k \<le> i" "i < mask_bit k + 3"
      proof (rule ccontr)
        assume "\<not> bit st (i - mask_bit k)"
        then have "bit (slot_state rows h k AND NOT st) (i - mask_bit k)"
          using b that mask_bit_bound [of k]
          by (auto simp: slot_state_def bit_and_iff bit_not_iff bit_mask_field)
        then show False using z by simp
      qed
      then show "bit new i" using b by (auto simp: new_def bit_mask_updated [OF st])
    qed
    have R: "(\<forall>q. q \<noteq> ?q \<longrightarrow> rows h' q = rows h q)" "\<forall>i. bit (rows h ?q) i \<longrightarrow> bit (rows h' ?q) i"
      "\<forall>i. bit (rows h' ?q) i \<longrightarrow> bit (rows h ?q) i \<or> bit new i" "ok \<longrightarrow> rows h' ?q = new"
      using run1 r1 program_row_spec [OF law, of FV_OTP_MASK_PAGE "mask_row k" new h1 ok h'] by (auto split: if_splits)
    have other: "slot_state rows h' j = slot_state rows h j" if "j \<noteq> k" for j
    proof (cases "mask_row j = mask_row k")
      case True
      then have row: "j div 8 = k div 8" by (simp add: mask_row_def)
      show ?thesis
        unfolding slot_state_def True
        by (rule bit_eqI) (use R(2,3) mask_updated_other [OF st row that] in \<open>auto simp: bit_mask_field new_def\<close>)
    qed (use R(1) in \<open>simp add: slot_state_def\<close>)
    have up: "bit (slot_state rows h' k) i \<Longrightarrow> bit (slot_state rows h k) i \<or> bit st i" for i
      using R(3) new unfolding slot_state_def by (metis bit_mask_field)
    have dn: "bit (slot_state rows h k) i \<Longrightarrow> bit (slot_state rows h' k) i" for i
      using R(2) by (auto simp: slot_state_def bit_mask_field)
    show ?thesis using other up dn R(4) new k z by (auto simp: slot_state_def)
  qed
qed

section \<open>Reading the mask\<close>

lemma inspect_loop_spec:
  assumes law: "otp_law OT io rows mem" and run: "inspect_loop OT ks v h = (Some v', h')"
  shows "(\<forall>k. mi_ready v' = Some k \<longrightarrow> mi_ready v = Some k \<or> k \<in> set ks \<and> slot_state rows h k = FV_OTP_MASK_READY) \<and>
    (mi_ready v \<noteq> None \<longrightarrow> mi_ready v' = mi_ready v) \<and>
    (\<forall>k \<in> set ks. slot_state rows h k = FV_OTP_MASK_READY \<longrightarrow> mi_ready v' = Some k) \<and>
    (mi_started v' \<longleftrightarrow> mi_started v \<or>
       (\<exists>k \<in> set ks. slot_state rows h k = FV_OTP_MASK_STARTED \<or> slot_state rows h k = FV_OTP_MASK_REVOKING)) \<and>
    (\<forall>k. mi_last_revoked v' = Some k \<longrightarrow> mi_last_revoked v = Some k \<or> k \<in> set ks \<and> slot_state rows h k = FV_OTP_MASK_REVOKED) \<and>
    (mi_last_revoked v' = None \<longleftrightarrow> mi_last_revoked v = None \<and> (\<forall>k \<in> set ks. slot_state rows h k \<noteq> FV_OTP_MASK_REVOKED)) \<and>
    \<not> (mi_ready v' \<noteq> None \<and> mi_started v')"
  using run
proof (induction ks arbitrary: v h)
  case Nil
  then show ?case by (auto split: if_splits)
next
  case (Cons k ks)
  obtain x h1 where m: "mask_read OT k h = (x, h1)" by fastforce
  note M = mask_read_spec [OF law m]
  obtain st where x: "x = Some st" using Cons.prems m by (cases x) auto
  have s: "slot_state rows h1 = slot_state rows h" "st = slot_state rows h k"
    using M x by (auto simp: slot_state_def fun_eq_iff)
  let ?go = "\<lambda>v. inspect_loop OT ks v h1 = (Some v', h')"
  consider "st = FV_OTP_MASK_UNUSED" "?go v"
    | "st = FV_OTP_MASK_STARTED \<or> st = FV_OTP_MASK_REVOKING" "?go (v\<lparr>mi_started := True\<rparr>)"
    | "st = FV_OTP_MASK_REVOKED" "?go (v\<lparr>mi_last_revoked := Some k\<rparr>)"
    | "st = FV_OTP_MASK_READY" "mi_ready v = None" "?go (v\<lparr>mi_ready := Some k\<rparr>)"
    using Cons.prems m x by (auto split: if_splits)
  then show ?case
  proof cases
    case 1
    then show ?thesis using Cons.IH [OF 1(2)] s by (auto simp: mask_defs)
  next
    case 2
    then show ?thesis using Cons.IH [OF 2(2)] s by (auto simp: mask_defs)
  next
    case 3
    then show ?thesis using Cons.IH [OF 3(2)] s by (auto simp: mask_defs)
  next
    case 4
    then show ?thesis using Cons.IH [OF 4(3)] s by (auto simp: mask_defs)
  qed
qed

text \<open>What the mask says, if it is not ambiguous.\<close>

lemma inspect_mask_spec:
  assumes law: "otp_law OT io rows mem" and run: "inspect_mask OT h = (Some v, h')"
  shows "(\<forall>k. mi_ready v = Some k \<longleftrightarrow> k < 228 \<and> slot_state rows h k = FV_OTP_MASK_READY)"
    and "mi_started v \<longleftrightarrow> (\<exists>k < 228. slot_state rows h k = FV_OTP_MASK_STARTED \<or> slot_state rows h k = FV_OTP_MASK_REVOKING)"
    and "\<forall>k. mi_last_revoked v = Some k \<longrightarrow> k < 228 \<and> slot_state rows h k = FV_OTP_MASK_REVOKED"
    and "mi_last_revoked v = None \<longleftrightarrow> (\<forall>k < 228. slot_state rows h k \<noteq> FV_OTP_MASK_REVOKED)"
    and "\<not> (mi_ready v \<noteq> None \<and> mi_started v)"
proof -
  note I = inspect_loop_spec [OF law run [unfolded inspect_mask_def], unfolded FV_OTP_SLOTS_def set_upt mask_inventory.simps
      option.distinct(2) simp_thms]
  have e: "k \<in> {0..<228} \<longleftrightarrow> k < 228" for k :: nat by simp
  note J = I [unfolded Bex_def Ball_def e]
  show "(\<forall>k. mi_ready v = Some k \<longleftrightarrow> k < 228 \<and> slot_state rows h k = FV_OTP_MASK_READY)" using J by blast
  show "mi_started v \<longleftrightarrow> (\<exists>k < 228. slot_state rows h k = FV_OTP_MASK_STARTED \<or> slot_state rows h k = FV_OTP_MASK_REVOKING)"
    using J by blast
  show "\<forall>k. mi_last_revoked v = Some k \<longrightarrow> k < 228 \<and> slot_state rows h k = FV_OTP_MASK_REVOKED" using J by blast
  show "mi_last_revoked v = None \<longleftrightarrow> (\<forall>k < 228. slot_state rows h k \<noteq> FV_OTP_MASK_REVOKED)" using J by blast
  show "\<not> (mi_ready v \<noteq> None \<and> mi_started v)" using J by blast
qed

lemma open_token_device: "open_token SL OT k (d, h) = (ok, d', h') \<Longrightarrow> if ok then ed_opened d' \<and> ed_token_slot d' = k else \<not> ed_opened d'"
  by (auto simp: open_token_def reset_session_def Let_def split: option.splits prod.splits)

lemma enrollment_load_device: "enrollment_load SL OT io (d, h) = (r, d', h') \<Longrightarrow> d' = d"
  by (auto simp: enrollment_load_def split: if_splits option.splits prod.splits)

lemma enrollment_open_cases:
  assumes law: "otp_law OT io rows mem" and run: "fv_enrollment_open SL OT io (d, h) = (r, d', h')"
  shows "r \<in> {- 1, 0, 1, 2} \<and>
    (ed_opened d' \<longrightarrow> ed_token_slot d' < 228 \<and> slot_state rows h (ed_token_slot d') = FV_OTP_MASK_READY \<and>
      (\<forall>k < 228. k \<noteq> ed_token_slot d' \<longrightarrow> slot_state rows h k \<notin> {FV_OTP_MASK_READY, FV_OTP_MASK_STARTED, FV_OTP_MASK_REVOKING})) \<and>
    (r = 0 \<and> \<not> ed_opened d' \<longrightarrow> ed_terminal d' \<and> slot_state rows h (ed_token_slot d') = FV_OTP_MASK_REVOKED \<and>
      (\<forall>k < 228. slot_state rows h k \<notin> {FV_OTP_MASK_READY, FV_OTP_MASK_STARTED, FV_OTP_MASK_REVOKING})) \<and>
    (r = 1 \<longrightarrow> (\<forall>k < 228. slot_state rows h k \<notin> {FV_OTP_MASK_READY, FV_OTP_MASK_STARTED, FV_OTP_MASK_REVOKING, FV_OTP_MASK_REVOKED}))"
proof -
  obtain x h1 where m: "inspect_mask OT h = (x, h1)" by fastforce
  show ?thesis
  proof (cases x)
    case None
    then show ?thesis using run m by (auto simp: fv_enrollment_open_def reset_session_def Let_def)
  next
    case (Some v)
    note S = inspect_mask_spec [OF law m [unfolded Some]]
    show ?thesis
    proof (cases "mi_ready v")
      case None
      obtain i h2 where ins: "fv_enrollment_inspect OT io h1 = (i, h2)" by fastforce
      have no: "\<forall>k < 228. slot_state rows h k \<noteq> FV_OTP_MASK_READY" using S(1) None by auto
      show ?thesis
      proof (cases "mi_started v")
        case True
        then show ?thesis using run m Some None by (auto simp: fv_enrollment_open_def reset_session_def Let_def)
      next
        case False
        then show ?thesis
          using run m Some None ins no S(2-4)
          by (cases "mi_last_revoked v") (auto simp: fv_enrollment_open_def reset_session_def Let_def split: if_splits)
      qed
    next
      case (Some k)
      obtain ok d1 h2 where o: "open_token SL OT k (reset_session d, h1) = (ok, d1, h2)" by (cases "open_token SL OT k (reset_session d, h1)")
      obtain l d2 h3 where ld: "enrollment_load SL OT io (d1, h2) = (l, d2, h3)" by (cases "enrollment_load SL OT io (d1, h2)")
      have d2: "d2 = d1" by (rule enrollment_load_device [OF ld])
      have k: "k < 228 \<and> slot_state rows h k = FV_OTP_MASK_READY" using S(1) Some by blast
      have others: "\<forall>j < 228. j \<noteq> k \<longrightarrow> slot_state rows h j \<notin> {FV_OTP_MASK_READY, FV_OTP_MASK_STARTED, FV_OTP_MASK_REVOKING}"
      proof (intro allI impI)
        fix j
        assume j: "j < 228" "j \<noteq> k"
        have "mi_ready v \<noteq> Some j" using Some j by simp
        then have "slot_state rows h j \<noteq> FV_OTP_MASK_READY" using S(1) j by blast
        moreover have "\<not> mi_started v" using S(5) Some by blast
        ultimately show "slot_state rows h j \<notin> {FV_OTP_MASK_READY, FV_OTP_MASK_STARTED, FV_OTP_MASK_REVOKING}"
          using S(2) j by blast
      qed
      have d': "d' = d1 \<and> (r = 0 \<longrightarrow> ok) \<and> (r = 0 \<or> r = - 1)"
        using run m \<open>x = Some v\<close> Some o ld d2 by (cases ok; cases l) (auto simp: fv_enrollment_open_def Let_def)
      show ?thesis
      proof (cases ok)
        case True
        then have "ed_opened d'" "ed_token_slot d' = k" using open_token_device [OF o] d' by simp_all
        then show ?thesis using d' k others by auto
      next
        case False
        then have "\<not> ed_opened d'" "r = - 1" using open_token_device [OF o] d' by auto
        then show ?thesis by simp
      qed
    qed
  qed
qed

section \<open>Sequences of operations\<close>

datatype enrollment_event =
    Enroll_Open
  | Enroll_Prepare_Flash
  | Enroll_Provision
  | Enroll_Load
  | Enroll_Commit u64 fv_device_state
  | Enroll_Binding "u8 list" u32
  | Enroll_Destroy u32
  | Enroll_Request_Destruction

fun enrollment_do ::
  "sha_lib \<Rightarrow> 'h fv_otp_io \<Rightarrow> 'h fv_journal_io \<Rightarrow> 'r fv_random_bytes \<Rightarrow> enrollment_event
   \<Rightarrow> fv_enrollment_device \<times> 'h \<times> 'r \<Rightarrow> fv_enrollment_device \<times> 'h \<times> 'r" where
  "enrollment_do SL OT io rng Enroll_Open (d, h, r) = (case fv_enrollment_open SL OT io (d, h) of (_, d, h) \<Rightarrow> (d, h, r))"
| "enrollment_do SL OT io rng Enroll_Prepare_Flash (d, h, r) = (case fv_enrollment_prepare_flash OT io (d, h) of (_, d, h) \<Rightarrow> (d, h, r))"
| "enrollment_do SL OT io rng Enroll_Provision (d, h, r) = (case fv_enrollment_provision SL OT io rng (d, h, r) of (_, d, h, r) \<Rightarrow> (d, h, r))"
| "enrollment_do SL OT io rng Enroll_Load (d, h, r) = (case enrollment_load SL OT io (d, h) of (_, d, h) \<Rightarrow> (d, h, r))"
| "enrollment_do SL OT io rng (Enroll_Commit p s) (d, h, r) = (case enrollment_commit SL OT io p s (d, h) of (_, d, h) \<Rightarrow> (d, h, r))"
| "enrollment_do SL OT io rng (Enroll_Binding i k) (d, h, r) = (case enrollment_binding SL OT io i k (d, h) of (_, d, h) \<Rightarrow> (d, h, r))"
| "enrollment_do SL OT io rng (Enroll_Destroy k) (d, h, r) = (case enrollment_destroy SL OT io k (d, h) of (_, d, h) \<Rightarrow> (d, h, r))"
| "enrollment_do SL OT io rng Enroll_Request_Destruction (d, h, r) =
     (case fv_enrollment_request_destruction SL OT io (d, h) of (_, d, h) \<Rightarrow> (d, h, r))"

context hardware_writes
begin

lemma enrollment_do_keeps:
  "P h \<Longrightarrow> P (fst (snd (enrollment_do SL OT io rng e (d, h, r))))"
  using enrollment_open_keeps [of "(d, h)" SL] prepare_flash_keeps [of "(d, h)"] provision_keeps [of h SL rng d r]
    enrollment_load_keeps [of "(d, h)" SL] enrollment_commit_keeps [of "(d, h)" SL]
    enrollment_binding_keeps [of "(d, h)" SL] enrollment_destroy_keeps [of "(d, h)" SL]
    request_destruction_keeps [of "(d, h)" SL]
  by (cases e) (simp_all add: split_def hardware_def)

lemma enrollment_run_keeps:
  "P (fst (snd x)) \<Longrightarrow> P (fst (snd (fold (enrollment_do SL OT io rng) es x)))"
proof (induction es arbitrary: x)
  case (Cons e es)
  then show ?case using enrollment_do_keeps [of "fst (snd x)" SL rng e "fst x" "snd (snd x)"] by simp
qed simp

end

lemma revoked_bits: "slot_state rows h k = FV_OTP_MASK_REVOKED \<longleftrightarrow> (\<forall>i < 3. bit (rows h (192 + mask_row k)) (mask_bit k + i))"
proof -
  have seven: "bit FV_OTP_MASK_REVOKED i \<longleftrightarrow> i < 3" for i
    unfolding mask_defs(4) seven_mask by (rule bit_mask_three)
  have st: "bit (slot_state rows h k) i \<longleftrightarrow> i < 3 \<and> bit (rows h (192 + mask_row k)) (mask_bit k + i)" for i
    by (simp add: slot_state_def bit_mask_field)
  show ?thesis
  proof
    assume "slot_state rows h k = FV_OTP_MASK_REVOKED"
    then show "\<forall>i < 3. bit (rows h (192 + mask_row k)) (mask_bit k + i)" using seven st by metis
  next
    assume "\<forall>i < 3. bit (rows h (192 + mask_row k)) (mask_bit k + i)"
    then show "slot_state rows h k = FV_OTP_MASK_REVOKED" by (intro bit_eqI) (auto simp: seven st)
  qed
qed

lemma revoked_stays_revoked:
  assumes "otp_law OT io rows mem" "slot_state rows h k = FV_OTP_MASK_REVOKED"
    and "fold (enrollment_do SL OT io rng) es (d, h, r) = (d', h', r')"
  shows "slot_state rows h' k = FV_OTP_MASK_REVOKED"
  unfolding revoked_bits
proof (intro allI impI)
  fix i :: nat
  assume "i < 3"
  then have "otp_law OT io rows mem \<and> bit (rows h (192 + mask_row k)) (mask_bit k + i)"
    using assms(1,2) by (simp add: revoked_bits)
  then show "bit (rows h' (192 + mask_row k)) (mask_bit k + i)"
    using bits.enrollment_run_keeps [where OT = OT and io = io and rows = rows and mem = mem and row = "192 + mask_row k" and
        pos = "mask_bit k + i" and x = "(d, h, r)" and SL = SL and rng = rng and es = es] assms(3) by simp
qed

lemma three_bits_revoked: "three_bits FV_OTP_MASK_REVOKED" "three_bits FV_OTP_MASK_STARTED" "three_bits FV_OTP_MASK_READY"
    "three_bits FV_OTP_MASK_REVOKING" "three_bits FV_OTP_MASK_UNUSED"
proof -
  have "three_bits (x AND mask 3)" for x by (simp add: three_bits_def bit_and_iff bit_mask_three)
  from this [of FV_OTP_MASK_REVOKED] this [of FV_OTP_MASK_STARTED] this [of FV_OTP_MASK_READY]
    this [of FV_OTP_MASK_REVOKING] this [of FV_OTP_MASK_UNUSED]
  show "three_bits FV_OTP_MASK_REVOKED" "three_bits FV_OTP_MASK_STARTED" "three_bits FV_OTP_MASK_READY"
    "three_bits FV_OTP_MASK_REVOKING" "three_bits FV_OTP_MASK_UNUSED"
    unfolding seven_mask [symmetric] by (simp_all add: mask_defs)
qed

lemma destroy_revokes:
  assumes law: "otp_law OT io rows mem" and run: "enrollment_destroy SL OT io k (d, h) = (True, d', h')"
  shows "unat k < 228 \<and> slot_state rows h' (unat k) = FV_OTP_MASK_REVOKED \<and> ed_terminal d' \<and> \<not> ed_opened d'"
proof -
  obtain s h1 h2 where k: "unat k < 228" and m: "mask_write OT (unat k) FV_OTP_MASK_REVOKED h1 = (True, h2)"
    and b: "finish_burn OT (unat k) h2 = (True, h')" and d': "ed_terminal d'" "\<not> ed_opened d'"
    using run by (auto simp: enrollment_destroy_def Let_def split: if_splits option.splits prod.splits bool.splits)
  have "slot_state rows h2 (unat k) = FV_OTP_MASK_REVOKED" using mask_write_spec [OF law three_bits_revoked(1) m] by simp
  then have "bit (rows h' (192 + mask_row (unat k))) (mask_bit (unat k) + i)" if "i < 3" for i
    using bits.finish_burn_keeps [where OT = OT and io = io and rows = rows and mem = mem and row = "192 + mask_row (unat k)" and
        pos = "mask_bit (unat k) + i" and h = h2 and k = "unat k"] law b that
    by (simp add: revoked_bits)
  then show ?thesis using k d' by (simp add: revoked_bits)
qed

section \<open>Properties\<close>

text \<open>Writing the status of a token slot changes no other slot, whether the write succeeds, is refused
  or is torn; a successful write leaves exactly the requested status, an interrupted one only bits
  of the old or the requested status, and a status that would need a bit cleared is refused without
  touching the memory.\<close>

theorem mask_write_exact:
  assumes "otp_law OT io rows mem" "three_bits st" "mask_write OT k st h = (ok, h')"
  shows "(\<forall>j. j \<noteq> k \<longrightarrow> slot_state rows h' j = slot_state rows h j) \<and>
    (\<forall>i. bit (slot_state rows h k) i \<longrightarrow> bit (slot_state rows h' k) i) \<and>
    (\<forall>i. bit (slot_state rows h' k) i \<longrightarrow> bit (slot_state rows h k) i \<or> bit st i) \<and>
    (ok \<longrightarrow> k < FV_OTP_SLOTS \<and> slot_state rows h' k = st) \<and>
    (slot_state rows h k AND NOT st \<noteq> 0 \<longrightarrow> \<not> ok \<and> rows h' = rows h)"
  using assms by (rule mask_write_spec)

text \<open>Opening the enrollment at boot is read-only and unambiguous: neither OTP nor flash changes; a
  token is opened only if its slot is the one READY slot and no slot is half provisioned or half
  revoked; a terminal result means a revoked slot and no usable one; and the virgin result 1 is given
  only when no slot was ever started.\<close>

theorem enrollment_open_read_only:
  assumes "otp_law OT io rows mem" "fv_enrollment_open SL OT io (d, h) = (r, d', h')"
  shows "rows h' = rows h \<and> mem h' = mem h \<and> r \<in> {- 1, 0, 1, 2} \<and>
    (ed_opened d' \<longrightarrow> ed_token_slot d' < 228 \<and> slot_state rows h (ed_token_slot d') = FV_OTP_MASK_READY \<and>
      (\<forall>k < 228. k \<noteq> ed_token_slot d' \<longrightarrow> slot_state rows h k \<notin> {FV_OTP_MASK_READY, FV_OTP_MASK_STARTED, FV_OTP_MASK_REVOKING})) \<and>
    (r = 0 \<and> \<not> ed_opened d' \<longrightarrow> ed_terminal d' \<and> slot_state rows h (ed_token_slot d') = FV_OTP_MASK_REVOKED \<and>
      (\<forall>k < 228. slot_state rows h k \<notin> {FV_OTP_MASK_READY, FV_OTP_MASK_STARTED, FV_OTP_MASK_REVOKING})) \<and>
    (r = 1 \<longrightarrow> (\<forall>k < 228. slot_state rows h k \<notin> {FV_OTP_MASK_READY, FV_OTP_MASK_STARTED, FV_OTP_MASK_REVOKING, FV_OTP_MASK_REVOKED}))"
  using enrollment_open_cases [OF assms] assms
    contents.enrollment_open_keeps [where OT = OT and io = io and rows = rows and mem = mem and old_rows = "rows h" and
      old_mem = "mem h" and w = "(d, h)" and SL = SL] by simp

text \<open>C4. Destruction is final. Once the authority's destroy has succeeded for a token slot, no sequence of
  enrollment operations (opening, provisioning, committing, destroying again, preparing flash), each
  with any outcome, makes the slot's status anything but revoked, and no later boot opens that token.\<close>

theorem destruction_is_final:
  assumes "otp_law OT io rows mem" "enrollment_destroy SL OT io k (d, h) = (True, d1, h1)"
    and "fold (enrollment_do SL OT io rng) events (d2, h1, r) = (d3, h3, r3)"
    and "fv_enrollment_open SL OT io (d3, h3) = (res, d4, h4)"
  shows "slot_state rows h3 (unat k) = FV_OTP_MASK_REVOKED \<and> (ed_opened d4 \<longrightarrow> ed_token_slot d4 \<noteq> unat k)"
proof -
  have r: "slot_state rows h3 (unat k) = FV_OTP_MASK_REVOKED"
    using revoked_stays_revoked [OF assms(1) _ assms(3)] destroy_revokes [OF assms(1,2)] by blast
  have "FV_OTP_MASK_REVOKED \<noteq> FV_OTP_MASK_READY" by (simp add: mask_defs)
  then show ?thesis using r enrollment_open_cases [OF assms(1,4)] by metis
qed

section \<open>The properties at work\<close>

text \<open>OTP rows and flash in memory. Programming a secret marks its sixteen rows.\<close>

type_synonym test_hardware = "(nat \<Rightarrow> u32) \<times> u8 list"

definition ram_otp :: "test_hardware fv_otp_io" where
  "ram_otp = \<lparr>otp_read_raw = (\<lambda>q h. (Some (fst h q), h)),
     otp_write_raw = (\<lambda>q v h. (True, (fst h)(q := fst h q OR v), snd h)),
     otp_read_secret = (\<lambda>q h. (Some (replicate 32 6), h)),
     otp_write_secret = (\<lambda>q b h. (True, (\<lambda>k. if q \<le> k \<and> k < q + 16 then fst h k OR 1 else fst h k), snd h)),
     otp_can_program = (\<lambda>page h. (True, h))\<rparr>"

definition ram_otp_flash :: "test_hardware fv_journal_io" where
  "ram_otp_flash = \<lparr>io_read = (\<lambda>a n h. (fst (io_read ram_flash a n (snd h)), h)),
     io_program = (\<lambda>a b h. (fst (io_program ram_flash a b (snd h)), fst h, snd (io_program ram_flash a b (snd h)))),
     io_erase = (\<lambda>k h. (fst (io_erase ram_flash k (snd h)), fst h, snd (io_erase ram_flash k (snd h))))\<rparr>"

lemma otp_law_ram: "otp_law ram_otp ram_otp_flash fst snd"
  by (auto simp: otp_law_def ram_otp_def ram_otp_flash_def bit_or_iff)

abbreviation revoked_rows :: "nat \<Rightarrow> u32" where "revoked_rows \<equiv> (\<lambda>_. 0)(192 := 0xE00)"

definition dying_device :: fv_enrollment_device where
  "dying_device = (fv_enrollment_init (replicate 16 9))\<lparr>ed_terminal := True, ed_token_slot := 3\<rparr>"

lemma mask_write_exact_witness:
  "\<exists>h'. mask_write ram_otp 3 FV_OTP_MASK_STARTED ((\<lambda>_. 0)(192 := 7), []) = (True, h') \<and>
     slot_state fst h' 0 = FV_OTP_MASK_REVOKED \<and> slot_state fst h' 3 = FV_OTP_MASK_STARTED"
proof -
  obtain ok h' where r: "mask_write ram_otp 3 FV_OTP_MASK_STARTED ((\<lambda>_. 0)(192 := 7), []) = (ok, h')"
    by (cases "mask_write ram_otp 3 FV_OTP_MASK_STARTED ((\<lambda>_. 0)(192 := 7), [])")
  have ok: "ok"
    using r by (simp add: mask_write_def read_row_def ram_otp_def mask_row_def mask_bit_def mask_field_def mask_defs program_row_def)
  have "slot_state fst ((\<lambda>_. 0)(192 := 7), [] :: u8 list) 0 = FV_OTP_MASK_REVOKED"
    by (simp add: slot_state_def mask_row_def mask_field_def mask_bit_def mask_defs)
  with r ok mask_write_exact [OF otp_law_ram three_bits_revoked(2) r] show ?thesis by auto
qed

lemma enrollment_open_read_only_witness:
  "\<exists>r d' h'. fv_enrollment_open test_sha ram_otp ram_otp_flash (test_device, revoked_rows, []) = (r, d', h') \<and>
     h' = (revoked_rows, [])"
proof -
  obtain r d' h' where o: "fv_enrollment_open test_sha ram_otp ram_otp_flash (test_device, revoked_rows, []) = (r, d', h')"
    by (cases "fv_enrollment_open test_sha ram_otp ram_otp_flash (test_device, revoked_rows, [])")
  show ?thesis using o enrollment_open_read_only [OF otp_law_ram o] by (simp add: prod_eq_iff)
qed

lemma dying_device_destroy:
  "\<exists>d1 h1. enrollment_destroy test_sha ram_otp ram_otp_flash 3 (dying_device, revoked_rows, []) = (True, d1, h1)"
  by (simp add: enrollment_destroy_def enrollment_load_def dying_device_def fv_enrollment_init_def mask_read_def read_row_def
      ram_otp_def mask_row_def mask_bit_def mask_field_def mask_defs burned_def token_rows_def upt_rec token_page_def
      token_row_offset_def enrollment_defs mask_write_def finish_burn_def write_row_def program_row_def Let_def)

lemma destruction_is_final_witness:
  "\<exists>d1 h1 d3 h3 r3 res d4 h4.
     enrollment_destroy test_sha ram_otp ram_otp_flash 3 (dying_device, revoked_rows, []) = (True, d1, h1) \<and>
     fold (enrollment_do test_sha ram_otp ram_otp_flash test_rng) [Enroll_Open, Enroll_Provision] (d1, h1, ()) = (d3, h3, r3) \<and>
     fv_enrollment_open test_sha ram_otp ram_otp_flash (d3, h3) = (res, d4, h4) \<and>
     slot_state fst h3 3 = FV_OTP_MASK_REVOKED"
proof -
  obtain d1 h1 where d: "enrollment_destroy test_sha ram_otp ram_otp_flash 3 (dying_device, revoked_rows, []) = (True, d1, h1)"
    using dying_device_destroy by blast
  obtain d3 h3 r3 where f: "fold (enrollment_do test_sha ram_otp ram_otp_flash test_rng) [Enroll_Open, Enroll_Provision] (d1, h1, ()) = (d3, h3, r3)"
    by (cases "fold (enrollment_do test_sha ram_otp ram_otp_flash test_rng) [Enroll_Open, Enroll_Provision] (d1, h1, ())")
  obtain res d4 h4 where o: "fv_enrollment_open test_sha ram_otp ram_otp_flash (d3, h3) = (res, d4, h4)"
    by (cases "fv_enrollment_open test_sha ram_otp ram_otp_flash (d3, h3)")
  have "slot_state fst h3 3 = FV_OTP_MASK_REVOKED" using destruction_is_final [OF otp_law_ram d f o] by simp
  with d f o show ?thesis by blast
qed

end
