(* ===== verification/Session_Access.thy ===== *)
theory Session_Access
  imports Vault
begin

text \<open>
  The authorization scope of a session (\<^verbatim>\<open>src/src/shared/security/session_access.c\<close>): one access mode
  per unlock, and a generation that changes with every change of scope.
\<close>

record fv_session_access =
  sa_mode :: fv_access_mode
  sa_generation :: u32

definition fv_session_mode :: "fv_session_access \<Rightarrow> fv_vault \<Rightarrow> fv_access_mode" where
  "fv_session_mode a v = (if v_unlocked v \<and> fv_access_valid (sa_mode a) then sa_mode a else FV_ACCESS_LOCKED)"

definition fv_session_lock :: "fv_session_access \<Rightarrow> fv_session_access \<times> fv_vault" where
  "fv_session_lock a = (a\<lparr>sa_mode := FV_ACCESS_LOCKED, sa_generation := sa_generation a + 1\<rparr>, fv_vault_lock)"

definition fv_session_unlock ::
  "sha_lib \<Rightarrow> cipher_lib \<Rightarrow> ('a, 'd, 'r) fv_vault_platform \<Rightarrow> u8 list \<Rightarrow> fv_access_mode
   \<Rightarrow> fv_session_access \<times> fv_vault \<times> ('a, 'd, 'r) vault_world
   \<Rightarrow> fv_vault_result \<times> fv_session_access \<times> fv_vault \<times> ('a, 'd, 'r) vault_world" where
  "fv_session_unlock SL L p secret mode = (\<lambda>(a, v, w).
     if \<not> fv_access_valid mode then (FV_VAULT_INVALID, a, v, w)
     else if v_unlocked v \<or> sa_mode a \<noteq> FV_ACCESS_LOCKED then (FV_VAULT_DENIED, a, v, w)
     else case fv_vault_unlock SL L p secret w of (result, v, w) \<Rightarrow>
       if result \<noteq> FV_VAULT_OK then (case fv_session_lock a of (a, v) \<Rightarrow> (result, a, v, w))
       else (FV_VAULT_OK, a\<lparr>sa_mode := mode, sa_generation := sa_generation a + 1\<rparr>, v, w))"

definition fv_session_reverify_fido ::
  "sha_lib \<Rightarrow> cipher_lib \<Rightarrow> ('a, 'd, 'r) fv_vault_platform \<Rightarrow> u8 list
   \<Rightarrow> fv_session_access \<times> fv_vault \<times> ('a, 'd, 'r) vault_world
   \<Rightarrow> fv_vault_result \<times> fv_session_access \<times> fv_vault \<times> ('a, 'd, 'r) vault_world" where
  "fv_session_reverify_fido SL L p secret = (\<lambda>(a, v, w).
     if \<not> fv_access_fido (fv_session_mode a v) then (FV_VAULT_DENIED, a, v, w)
     else case fv_vault_reverify SL L p secret v w of (result, v, w) \<Rightarrow>
       if result \<noteq> FV_VAULT_OK then (case fv_session_lock a of (a, v) \<Rightarrow> (result, a, v, w))
       else (result, a, v, w))"

end
