(* ===== verification/Vault_IO.thy ===== *)
theory Vault_IO
  imports Vault
begin

text \<open>
  Sector I/O of the vault as a disk of plaintext sectors. The interface \<open>sector_disk\<close> is what the file
  system and the USB transport rely on; the vault provides it by composing the cascade with the
  authenticated store. The properties: reads and writes of an unlocked vault refine reads and writes
  of the plaintext disk, and a request that fails leaves neither plaintext nor ciphertext behind.
\<close>

section \<open>A disk of sectors\<close>

locale sector_disk =
  fixes rd :: "nat \<Rightarrow> nat \<Rightarrow> nat \<times> u8 list \<Rightarrow> 's \<Rightarrow> fv_block_result \<times> u8 list \<times> 's"
    and wr :: "nat \<Rightarrow> nat \<Rightarrow> nat \<times> u8 list \<Rightarrow> 's \<Rightarrow> fv_block_result \<times> u8 list \<times> 's"
    and inv :: "'s \<Rightarrow> bool"
    and blocks :: "'s \<Rightarrow> nat"
    and view :: "'s \<Rightarrow> nat \<Rightarrow> u8 list option"
  assumes read_ok: "inv s \<Longrightarrow> length buf = cnt * 512 \<Longrightarrow> rd lba cnt (a, buf) s = (FV_BLOCK_OK, out, s') \<Longrightarrow>
      inv s' \<and> blocks s' = blocks s \<and> view s' = view s \<and> length out = cnt * 512 \<and> lba + cnt \<le> blocks s \<and>
      (\<forall>i < cnt. view s (lba + i) = Some (span out (i * 512) 512))"
    and write_ok: "inv s \<Longrightarrow> length buf = cnt * 512 \<Longrightarrow> wr lba cnt (a, buf) s = (FV_BLOCK_OK, out, s') \<Longrightarrow>
      inv s' \<and> blocks s' = blocks s \<and> lba + cnt \<le> blocks s \<and>
      (\<forall>x < blocks s. view s' x =
         (if lba \<le> x \<and> x < lba + cnt then Some (span buf ((x - lba) * 512) 512) else view s x))"
begin

lemma write_then_read:
  assumes "inv s" "length buf = cnt * 512" "wr lba cnt (a, buf) s = (FV_BLOCK_OK, out, s')"
    and "length buf2 = cnt * 512" "rd lba cnt (a2, buf2) s' = (FV_BLOCK_OK, out2, s2)"
  shows "out2 = buf"
proof (rule concat_spans)
  note w = write_ok [OF assms(1-3)]
  note r = read_ok [OF conjunct1 [OF w] assms(4,5)]
  show "length out2 = cnt * 512" using r by simp
  show "length buf = cnt * 512" by (fact assms(2))
  fix i
  assume i: "i < cnt"
  have "view s' (lba + i) = Some (span buf (i * 512) 512)" using w i by simp
  moreover have "view s' (lba + i) = Some (span out2 (i * 512) 512)" using r i by blast
  ultimately show "span out2 (i * 512) 512 = span buf (i * 512) 512" by simp
qed

lemma write_elsewhere:
  assumes "inv s" "length buf = cnt * 512" "wr lba cnt (a, buf) s = (FV_BLOCK_OK, out, s')"
    and "x < blocks s" "x < lba \<or> lba + cnt \<le> x"
  shows "view s' x = view s x"
  using write_ok [OF assms(1-3)] assms(4,5) by auto

end

section \<open>In-place encryption of a batch\<close>

lemma crypt_same_address: "crypt c l (x, inp) (x, out) enc = crypt c l (y, inp) (y, out) enc"
  by (simp add: crypt_def addresses_ok_def cong: option.case_cong)

lemma cascade_same_address:
  "cascade l enc cs (x, inp) (x, out) = (s, out') \<Longrightarrow> cascade l enc cs (y, inp) (y, out) = (s, out')"
  by (induction cs arbitrary: inp out)
    (auto simp: crypt_same_address [of _ _ y _ _ _ x] split: prod.splits if_splits)

lemma cascade_length:
  "cascade l enc cs (x, inp) (y, out) = (s, out') \<Longrightarrow> length out' = length out"
proof (induction cs arbitrary: x inp out)
  case (Cons c cs)
  obtain s1 m where c: "crypt c l (x, inp) (y, out) enc = (s1, m)" by (cases "crypt c l (x, inp) (y, out) enc")
  have "length m = length out" using crypt_length [of c l x inp y out enc] c by simp
  with Cons c show ?case by (auto split: if_splits)
qed simp

text \<open>One sector of the loop: its length is kept and the address of the buffer is irrelevant.\<close>

definition sector_crypt :: "fv_pipeline \<Rightarrow> bool \<Rightarrow> nat \<Rightarrow> nat \<times> u8 list \<Rightarrow> fv_status \<times> u8 list" where
  "sector_crypt pl write x sector =
     (if write then fv_pipeline_encrypt pl (of_nat x) sector sector else fv_pipeline_decrypt pl (of_nat x) sector sector)"

lemma sector_crypt_length: "sector_crypt pl write x (a, m) = (FV_OK, out) \<Longrightarrow> length out = length m"
  by (auto simp: sector_crypt_def fv_pipeline_encrypt_def fv_pipeline_decrypt_def pipeline_run_def run_layers_cascade
      dest: cascade_length split: if_splits)

lemma sector_crypt_address:
  "sector_crypt pl write x (a, m) = (FV_OK, out) \<Longrightarrow> sector_crypt pl write x (b, m) = (FV_OK, out)"
  by (auto simp: sector_crypt_def fv_pipeline_encrypt_def fv_pipeline_decrypt_def pipeline_run_def run_layers_cascade
      intro: cascade_same_address split: if_splits)

lemma sector_crypt_inverse:
  assumes "pipeline_ready pl" "length m = 512" "sector_crypt pl True x (a, m) = (FV_OK, ct)"
  shows "sector_crypt pl False x (b, ct) = (FV_OK, m)"
  unfolding sector_crypt_def
  using ready_pipeline_inverse [OF assms(1,2,2), of ct a a b b ct "of_nat x"] assms(2,3)
    sector_crypt_length [OF assms(3)]
  by (simp add: sector_crypt_def addresses_ok_def)

lemma crypt_sectors_spec:
  assumes "crypt_sectors pl write unset lba a is buf = Some out" "distinct is" "\<forall>i \<in> set is. i < cnt" "length buf = cnt * 512"
  shows "length out = cnt * 512 \<and>
    (\<forall>i < cnt. if i \<notin> set is \<or> (\<not> write \<and> fv_auth_sector_unset unset i)
      then span out (i * 512) 512 = span buf (i * 512) 512
      else sector_crypt pl write (lba + i) (a + i * 512, span buf (i * 512) 512) = (FV_OK, span out (i * 512) 512))"
  using assms
proof (induction "is" arbitrary: buf)
  case (Cons k ks)
  show ?case
  proof (cases "\<not> write \<and> fv_auth_sector_unset unset k")
    case True
    then show ?thesis using Cons.IH [of buf] Cons.prems by auto
  next
    case False
    then obtain m where m: "sector_crypt pl write (lba + k) (a + k * 512, span buf (k * 512) 512) = (FV_OK, m)"
      and rest: "crypt_sectors pl write unset lba a ks (memcpy buf (k * 512) m) = Some out"
      using Cons.prems(1) by (auto simp: sector_crypt_def Let_def split: if_splits prod.splits)
    have k: "k < cnt" using Cons.prems by simp
    have lm: "length m = 512" using sector_crypt_length [OF m] Cons.prems(4) k by simp
    have other: "span (memcpy buf (k * 512) m) (i * 512) 512 = span buf (i * 512) 512" if "i \<noteq> k" for i
      using that lm by (intro span_memcpy_other) (cases "i < k", auto)
    have same: "span (memcpy buf (k * 512) m) (k * 512) 512 = m"
      using lm k Cons.prems(4) by (intro span_memcpy_same) auto
    have ih: "length out = cnt * 512 \<and>
        (\<forall>i < cnt. if i \<notin> set ks \<or> (\<not> write \<and> fv_auth_sector_unset unset i)
          then span out (i * 512) 512 = span (memcpy buf (k * 512) m) (i * 512) 512
          else sector_crypt pl write (lba + i) (a + i * 512, span (memcpy buf (k * 512) m) (i * 512) 512) =
            (FV_OK, span out (i * 512) 512))"
      using Cons.prems by (intro Cons.IH [OF rest]) auto
    show ?thesis
    proof (intro conjI allI impI)
      show "length out = cnt * 512" using ih by simp
      fix i
      assume i: "i < cnt"
      show "if i \<notin> set (k # ks) \<or> (\<not> write \<and> fv_auth_sector_unset unset i)
        then span out (i * 512) 512 = span buf (i * 512) 512
        else sector_crypt pl write (lba + i) (a + i * 512, span buf (i * 512) 512) = (FV_OK, span out (i * 512) 512)"
      proof (cases "i = k")
        case True
        then show ?thesis using ih i same m False Cons.prems(2) by auto
      next
        case ne: False
        then show ?thesis using ih i other [OF ne] by auto
      qed
    qed
  qed
qed auto

section \<open>The vault as a disk\<close>

text \<open>An unlocked session: its cascade was initialized and its store is consistent with the card.\<close>

definition vault_inv :: "('a, 'd, 'r) fv_vault_platform \<Rightarrow> ('d \<Rightarrow> nat \<Rightarrow> u8 list) \<Rightarrow> fv_vault \<times> ('a, 'd, 'r) vault_world \<Rightarrow> bool" where
  "vault_inv p cells = (\<lambda>(v, w). v_unlocked v \<and> pipeline_ready (v_pipeline v) \<and> as_ready (v_store v) \<and>
     store_inv cells (v_store v) (w_sd w) \<and> as_blocks (v_store v) = unat (logical_blocks (ec_volume (v_config v))))"

text \<open>The plaintext of a sector; \<open>None\<close> when it does not authenticate.\<close>

definition vault_sector ::
  "sha_lib \<Rightarrow> ('d \<Rightarrow> nat \<Rightarrow> u8 list) \<Rightarrow> fv_vault \<times> ('a, 'd, 'r) vault_world \<Rightarrow> nat \<Rightarrow> u8 list option" where
  "vault_sector SL cells = (\<lambda>(v, w) x.
     case sector_lookup SL cells (v_store v) (w_sd w) x of
       Sector_Unset \<Rightarrow> Some (zeros 512)
     | Sector_Data ct \<Rightarrow>
         (case sector_crypt (v_pipeline v) False x (0, ct) of (st, m) \<Rightarrow> if st = FV_OK then Some m else None)
     | Sector_Corrupt \<Rightarrow> None)"

definition vault_blocks :: "fv_vault \<times> ('a, 'd, 'r) vault_world \<Rightarrow> nat" where
  "vault_blocks = (\<lambda>(v, w). unat (logical_blocks (ec_volume (v_config v))))"

lemma memset_zero: "length b = n \<Longrightarrow> memset b 0 0 n = zeros n"
  by (simp add: memset_def memcpy_def zeros_def)

lemma vault_read_ok_iff:
  assumes "v_unlocked v"
  shows "fv_vault_read SL p lba cnt (a, buf) (v, w) = (FV_BLOCK_OK, out, v', w') \<longleftrightarrow>
    a \<noteq> 0 \<and> a mod 4 = 0 \<and> 0 < cnt \<and> cnt \<le> FV_AUTH_MAX_BATCH_SECTORS \<and> media_valid p w \<and>
    lba + cnt \<le> unat (logical_blocks (ec_volume (v_config v))) \<and>
    (\<exists>ct unset store d. fv_auth_read_batch SL (vp_sd p) lba cnt (a, buf) (v_store v, w_sd w) = (FV_BLOCK_OK, ct, unset, store, d) \<and>
       crypt_sectors (v_pipeline v) False unset lba a [0..<cnt] ct = Some out \<and>
       v' = (if as_ready store then v\<lparr>v_store := store\<rparr> else fv_vault_lock) \<and> w' = w\<lparr>w_sd := d\<rparr>)"
  using assms
  by (auto simp: fv_vault_read_def vault_io_def io_done_def split: prod.splits option.splits if_splits)

lemma vault_write_ok_iff:
  assumes "v_unlocked v"
  shows "fv_vault_write SL p lba cnt (a, buf) (v, w) = (FV_BLOCK_OK, out, v', w') \<longleftrightarrow>
    a \<noteq> 0 \<and> a mod 4 = 0 \<and> 0 < cnt \<and> cnt \<le> FV_AUTH_MAX_BATCH_SECTORS \<and> media_valid p w \<and>
    lba + cnt \<le> unat (logical_blocks (ec_volume (v_config v))) \<and>
    (\<exists>ct store d d'. crypt_sectors (v_pipeline v) True no_unset lba a [0..<cnt] buf = Some ct \<and>
       fv_auth_write SL (vp_sd p) lba cnt (a, ct) (v_store v, w_sd w) = (FV_BLOCK_OK, store, d) \<and>
       blk_sync (vp_sd p) d = (FV_BLOCK_OK, d') \<and> out = memset ct 0 0 (cnt * 512) \<and>
       v' = (if as_ready store then v\<lparr>v_store := store\<rparr> else fv_vault_lock) \<and> w' = w\<lparr>w_sd := d'\<rparr>)"
  using assms
  by (auto simp: fv_vault_write_def vault_io_def io_done_def split: prod.splits option.splits if_splits)

lemma read_batch_ready:
  assumes "disk_law B cells" "store_inv cells s d"
    and "fv_auth_read_batch SL B lba cnt (p, data) (s, d) = (FV_BLOCK_OK, out, u, s', d')"
  shows "as_ready s'"
proof -
  obtain d1 where v: "store_validate s lba cnt p = FV_BLOCK_OK" and ld: "load B lba cnt (s, d) = (FV_BLOCK_OK, s', d1)"
    and rn: "read_runs B s' u lba cnt 0 data d1 = (FV_BLOCK_OK, out, d')"
    using assms(3) unfolding read_batch_ok_iff by blast
  show ?thesis using load_spec [OF assms(1,2) _ _ _ ld] validate_ok [OF v] by auto
qed

lemma vault_read_correct:
  assumes law: "disk_law (vp_sd p) cells" and inv: "vault_inv p cells (v, w)" and len: "length buf = cnt * 512"
    and run: "fv_vault_read SL p lba cnt (a, buf) (v, w) = (FV_BLOCK_OK, out, v', w')"
  shows "vault_inv p cells (v', w') \<and> vault_blocks (v', w') = vault_blocks (v, w) \<and>
    vault_sector SL cells (v', w') = vault_sector SL cells (v, w) \<and>
    length out = cnt * 512 \<and> lba + cnt \<le> vault_blocks (v, w) \<and>
    (\<forall>i < cnt. vault_sector SL cells (v, w) (lba + i) = Some (span out (i * 512) 512))"
proof -
  have i: "v_unlocked v" "store_inv cells (v_store v) (w_sd w)" using inv by (auto simp: vault_inv_def)
  obtain ct u store d where rb: "fv_auth_read_batch SL (vp_sd p) lba cnt (a, buf) (v_store v, w_sd w) = (FV_BLOCK_OK, ct, u, store, d)"
    and cs: "crypt_sectors (v_pipeline v) False u lba a [0..<cnt] ct = Some out"
    and v': "v' = (if as_ready store then v\<lparr>v_store := store\<rparr> else fv_vault_lock)" and w': "w' = w\<lparr>w_sd := d\<rparr>"
    and rng: "lba + cnt \<le> unat (logical_blocks (ec_volume (v_config v)))"
    using run unfolding vault_read_ok_iff [OF i(1)] by auto
  note s = read_batch_sound [OF law i(2) len rb]
  have rdy: "as_ready store" using read_batch_ready [OF law i(2) rb] .
  then have v2: "v' = v\<lparr>v_store := store\<rparr>" using v' by simp
  have sc: "same_config (v_store v) store" "cells d = cells (w_sd w)" using s by auto
  have view: "vault_sector SL cells (v', w') = vault_sector SL cells (v, w)"
    using sector_lookup_cong [OF sc, of SL] by (simp add: vault_sector_def v2 w' fun_eq_iff cong: sector.case_cong)
  have inv': "vault_inv p cells (v', w')"
    using inv s rdy by (auto simp: vault_inv_def v2 w' same_config_def)
  have lct: "length ct = cnt * 512" using s by simp
  note c = crypt_sectors_spec [OF cs _ _ lct]
  have "vault_sector SL cells (v, w) (lba + i) = Some (span out (i * 512) 512)" if "i < cnt" for i
  proof (cases "sector_lookup SL cells (v_store v) (w_sd w) (lba + i)")
    case Sector_Unset
    then show ?thesis using s c that by (auto simp: vault_sector_def)
  next
    case (Sector_Data x)
    then have "\<not> fv_auth_sector_unset u i" "span ct (i * 512) 512 = x" using s that by auto
    then have "sector_crypt (v_pipeline v) False (lba + i) (a + i * 512, x) = (FV_OK, span out (i * 512) 512)"
      using c that by auto
    then show ?thesis using sector_crypt_address [of _ _ _ _ _ _ 0] Sector_Data by (simp add: vault_sector_def)
  next
    case Sector_Corrupt
    then show ?thesis using s that by auto
  qed
  then show ?thesis using inv' view c rng by (auto simp: vault_blocks_def v2)
qed

lemma vault_write_correct:
  assumes law: "disk_law (vp_sd p) cells" and dl: "digest_law SL" and inv: "vault_inv p cells (v, w)"
    and len: "length buf = cnt * 512"
    and run: "fv_vault_write SL p lba cnt (a, buf) (v, w) = (FV_BLOCK_OK, out, v', w')"
  shows "vault_inv p cells (v', w') \<and> vault_blocks (v', w') = vault_blocks (v, w) \<and> lba + cnt \<le> vault_blocks (v, w) \<and>
    out = zeros (cnt * 512) \<and>
    (\<forall>x < vault_blocks (v, w). vault_sector SL cells (v', w') x =
       (if lba \<le> x \<and> x < lba + cnt then Some (span buf ((x - lba) * 512) 512) else vault_sector SL cells (v, w) x))"
proof -
  have i: "v_unlocked v" "store_inv cells (v_store v) (w_sd w)" "pipeline_ready (v_pipeline v)"
    "as_blocks (v_store v) = unat (logical_blocks (ec_volume (v_config v)))"
    using inv by (auto simp: vault_inv_def)
  obtain ct store d d' where cs: "crypt_sectors (v_pipeline v) True no_unset lba a [0..<cnt] buf = Some ct"
    and wr: "fv_auth_write SL (vp_sd p) lba cnt (a, ct) (v_store v, w_sd w) = (FV_BLOCK_OK, store, d)"
    and sy: "blk_sync (vp_sd p) d = (FV_BLOCK_OK, d')" and out: "out = memset ct 0 0 (cnt * 512)"
    and v': "v' = (if as_ready store then v\<lparr>v_store := store\<rparr> else fv_vault_lock)" and w': "w' = w\<lparr>w_sd := d'\<rparr>"
    and rng: "lba + cnt \<le> unat (logical_blocks (ec_volume (v_config v)))"
    using run unfolding vault_write_ok_iff [OF i(1)] by auto
  note c = crypt_sectors_spec [OF cs _ _ len]
  have lct: "length ct = cnt * 512" using c by simp
  note s = auth_write_correct [OF law dl i(2) lct wr]
  have v2: "v' = v\<lparr>v_store := store\<rparr>" using v' s by simp
  have d': "cells d' = cells d" using disk_lawD(7) [OF law sy] .
  have inv': "vault_inv p cells (v', w')"
    using inv s store_inv_cong [OF _ d'] by (auto simp: vault_inv_def v2 w' same_config_def)
  have lk: "sector_lookup SL cells store d' = sector_lookup SL cells store d"
    by (rule sector_lookup_cong [OF same_config_refl d'])
  have "vault_sector SL cells (v', w') x = Some (span buf ((x - lba) * 512) 512)" if x: "lba \<le> x" "x < lba + cnt" for x
  proof -
    have k: "x - lba < cnt" "lba + (x - lba) = x" using x by auto
    have l: "sector_lookup SL cells store d' x = Sector_Data (span ct ((x - lba) * 512) 512)" using s k lk by metis
    have e: "sector_crypt (v_pipeline v) True x (a + (x - lba) * 512, span buf ((x - lba) * 512) 512) =
        (FV_OK, span ct ((x - lba) * 512) 512)" using c k by force
    have "length (span buf ((x - lba) * 512) 512) = 512" using len k(1) by simp
    from sector_crypt_inverse [OF i(3) this e, of 0] l show ?thesis by (simp add: vault_sector_def v2 w')
  qed
  moreover have "vault_sector SL cells (v', w') x = vault_sector SL cells (v, w) x"
    if "x < vault_blocks (v, w)" "\<not> (lba \<le> x \<and> x < lba + cnt)" for x
    using s that lk i(4) by (auto simp: vault_sector_def v2 w' vault_blocks_def cong: sector.case_cong)
  ultimately show ?thesis using inv' rng out memset_zero [OF lct] by (simp add: vault_blocks_def v2)
qed

definition vault_disk_inv ::
  "sha_lib \<Rightarrow> ('a, 'd, 'r) fv_vault_platform \<Rightarrow> ('d \<Rightarrow> nat \<Rightarrow> u8 list) \<Rightarrow> fv_vault \<times> ('a, 'd, 'r) vault_world \<Rightarrow> bool" where
  "vault_disk_inv SL p cells s \<longleftrightarrow> disk_law (vp_sd p) cells \<and> digest_law SL \<and> vault_inv p cells s"

interpretation vault_disk: sector_disk "fv_vault_read SL p" "fv_vault_write SL p" "vault_disk_inv SL p cells" vault_blocks
  "vault_sector SL cells"
  for SL p cells
proof
  fix s s' :: "fv_vault \<times> ('a, 'b, 'c) vault_world" and buf out :: "u8 list" and lba cnt a :: nat
  obtain v w v' w' where s: "s = (v, w)" "s' = (v', w')" by (cases s, cases s') auto
  show "vault_disk_inv SL p cells s \<Longrightarrow> length buf = cnt * 512 \<Longrightarrow>
      fv_vault_read SL p lba cnt (a, buf) s = (FV_BLOCK_OK, out, s') \<Longrightarrow>
      vault_disk_inv SL p cells s' \<and> vault_blocks s' = vault_blocks s \<and> vault_sector SL cells s' = vault_sector SL cells s \<and>
      length out = cnt * 512 \<and> lba + cnt \<le> vault_blocks s \<and>
      (\<forall>i < cnt. vault_sector SL cells s (lba + i) = Some (span out (i * 512) 512))"
    unfolding vault_disk_inv_def s using vault_read_correct [of p cells v w buf cnt SL lba a out v' w'] by blast
  show "vault_disk_inv SL p cells s \<Longrightarrow> length buf = cnt * 512 \<Longrightarrow>
      fv_vault_write SL p lba cnt (a, buf) s = (FV_BLOCK_OK, out, s') \<Longrightarrow>
      vault_disk_inv SL p cells s' \<and> vault_blocks s' = vault_blocks s \<and> lba + cnt \<le> vault_blocks s \<and>
      (\<forall>x < vault_blocks s. vault_sector SL cells s' x =
         (if lba \<le> x \<and> x < lba + cnt then Some (span buf ((x - lba) * 512) 512) else vault_sector SL cells s x))"
    unfolding vault_disk_inv_def s using vault_write_correct [of p cells SL v w buf cnt lba a out v' w'] by blast
qed

section \<open>Properties\<close>

text \<open>C1. Refinement of a plaintext disk. Whatever an unlocked vault reads successfully is the plaintext
  of the sectors asked for, and the disk is unchanged; after a successful write exactly the sectors of
  the request hold the new data, every other sector of the volume keeps its plaintext, the caller's
  copy of the plaintext is erased, and a read of the same range returns what was written. The session
  stays unlocked and consistent in both cases.\<close>

theorem vault_disk_refinement:
  assumes "disk_law (vp_sd p) cells" "digest_law SL" "vault_inv p cells s" "length buf = cnt * 512"
  shows "(fv_vault_read SL p lba cnt (a, buf) s = (FV_BLOCK_OK, out, s') \<longrightarrow>
      vault_inv p cells s' \<and> vault_sector SL cells s' = vault_sector SL cells s \<and> length out = cnt * 512 \<and>
      (\<forall>i < cnt. vault_sector SL cells s (lba + i) = Some (span out (i * 512) 512))) \<and>
    (fv_vault_write SL p lba cnt (a, buf) s = (FV_BLOCK_OK, out, s') \<longrightarrow>
      vault_inv p cells s' \<and> out = zeros (cnt * 512) \<and>
      (\<forall>x < vault_blocks s. vault_sector SL cells s' x =
         (if lba \<le> x \<and> x < lba + cnt then Some (span buf ((x - lba) * 512) 512) else vault_sector SL cells s x)) \<and>
      (\<forall>a2 buf2 out2 s2. length buf2 = cnt * 512 \<longrightarrow>
         fv_vault_read SL p lba cnt (a2, buf2) s' = (FV_BLOCK_OK, out2, s2) \<longrightarrow> out2 = buf))"
proof -
  have i: "vault_disk_inv SL p cells s" using assms by (simp add: vault_disk_inv_def)
  have z: "out = zeros (cnt * 512)" if "fv_vault_write SL p lba cnt (a, buf) s = (FV_BLOCK_OK, out, s')"
    using vault_write_correct [OF assms(1,2) _ assms(4), where v = "fst s" and w = "snd s" and v' = "fst s'" and w' = "snd s'"]
      assms(3) that by simp
  show ?thesis
    using vault_disk.read_ok [OF i assms(4)] vault_disk.write_ok [OF i assms(4)] z
      vault_disk.write_then_read [OF i assms(4)] by (auto simp: vault_disk_inv_def)
qed

lemma auth_read_length:
  assumes "fv_auth_read_batch SL B lba cnt (p, data) (s, d) = (r, out, u, s', d')"
  shows "length out = length data"
proof (cases "r = FV_BLOCK_OK")
  case True
  then obtain d1 where "read_runs B s' u lba cnt 0 data d1 = (FV_BLOCK_OK, out, d')"
    using assms by (auto simp: read_batch_ok_iff)
  then show ?thesis using read_runs_length [of B s' u lba cnt 0 data d1] by simp
next
  case False
  then show ?thesis
    using assms read_batch_failure [OF assms False]
    by (cases "store_validate s lba cnt p = FV_BLOCK_OK") (auto simp: read_fail_def fv_auth_read_batch_def Let_def)
qed

lemma crypt_sectors_length: "crypt_sectors pl write unset lba a is buf = Some out \<Longrightarrow> length out = length buf"
  by (induction "is" arbitrary: buf) (auto simp: Let_def split: if_splits prod.splits)

lemma io_done_fails:
  assumes "io_done write cnt r buf v w = (r', out, v', w')" "length buf = cnt * 512"
  shows "r' = r \<and> w' = w \<and> (write \<or> r \<noteq> FV_BLOCK_OK \<longrightarrow> out = zeros (cnt * 512)) \<and>
    (r \<notin> {FV_BLOCK_OK, FV_BLOCK_ERROR_INVALID_ARGUMENT, FV_BLOCK_ERROR_OUT_OF_RANGE, FV_BLOCK_ERROR_INTEGRITY} \<or>
       v_unlocked v \<and> \<not> as_ready (v_store v) \<longrightarrow> v' = fv_vault_lock)"
  using assms by (auto simp: io_done_def memset_zero)

lemma vault_io_done:
  assumes "vault_io SL p write lba cnt (a, buf) (v, w) = (r, out, v', w')" "length buf = cnt * 512"
    and "a \<noteq> 0" "a mod 4 = 0" "0 < cnt" "cnt \<le> FV_AUTH_MAX_BATCH_SECTORS"
  shows "\<exists>b v1 w1. io_done write cnt r b v1 w1 = (r, out, v', w') \<and> (length b = cnt * 512) \<and>
    (\<not> v_unlocked v \<longrightarrow> w1 = w \<and> r = FV_BLOCK_ERROR_NOT_READY)"
proof -
  define G where "G \<longleftrightarrow> (\<exists>b v1 w1. io_done write cnt r b v1 w1 = (r, out, v', w') \<and> length b = cnt * 512 \<and>
    (\<not> v_unlocked v \<longrightarrow> w1 = w \<and> r = FV_BLOCK_ERROR_NOT_READY))"
  have g: "G" if "io_done write cnt x b v1 w1 = (r, out, v', w')" "length b = cnt * 512"
    "v_unlocked v \<or> w1 = w \<and> x = FV_BLOCK_ERROR_NOT_READY" for x b v1 w1
  proof -
    have "x = r" using that(1) by (simp add: io_done_def)
    then show ?thesis using that unfolding G_def by blast
  qed
  have ok: "\<not> (a = 0 \<or> a mod 4 \<noteq> 0 \<or> cnt = 0 \<or> cnt > FV_AUTH_MAX_BATCH_SECTORS)" using assms(3-6) by simp
  note run = assms(1) [unfolded vault_io_def prod.case if_not_P [OF ok]]
  define bad where "bad \<longleftrightarrow> lba \<ge> unat (logical_blocks (ec_volume (v_config v))) \<or>
    cnt > unat (logical_blocks (ec_volume (v_config v))) - lba"
  consider "\<not> v_unlocked v" | "v_unlocked v" "\<not> media_valid p w" | "v_unlocked v" "media_valid p w" "bad"
    | "v_unlocked v" "media_valid p w" "\<not> bad" "write" | "v_unlocked v" "media_valid p w" "\<not> bad" "\<not> write" by blast
  then have "G"
  proof cases
    case 4
    obtain c where c: "crypt_sectors (v_pipeline v) True no_unset lba a [0..<cnt] buf = c" by simp
    obtain r1 st d where w: "fv_auth_write SL (vp_sd p) lba cnt (a, the c) (v_store v, w_sd w) = (r1, st, d)"
      by (cases "fv_auth_write SL (vp_sd p) lba cnt (a, the c) (v_store v, w_sd w)")
    show ?thesis
      using run 4 c w assms(2) unfolding bad_def
      by (cases c) (auto simp: crypt_sectors_length intro: g split: if_splits prod.splits)
  next
    case 5
    obtain r1 ct u st d where rb: "fv_auth_read_batch SL (vp_sd p) lba cnt (a, buf) (v_store v, w_sd w) = (r1, ct, u, st, d)"
      by (cases "fv_auth_read_batch SL (vp_sd p) lba cnt (a, buf) (v_store v, w_sd w)")
    note l = auth_read_length [OF rb]
    show ?thesis
    proof (cases "r1 = FV_BLOCK_OK")
      case True
      then show ?thesis
        using run 5 rb l assms(2) unfolding bad_def
        by (cases "crypt_sectors (v_pipeline v) False u lba a [0..<cnt] ct") (auto simp: crypt_sectors_length intro: g)
    next
      case False
      then show ?thesis using run 5 rb l assms(2) unfolding bad_def by (auto intro: g)
    qed
  qed (use run assms(2) in \<open>auto simp: bad_def intro: g\<close>)
  then show ?thesis by (simp add: G_def)
qed


section \<open>The properties at work\<close>

text \<open>A session over a card in memory, with the two-layer test cascade.\<close>

definition test_vault :: fv_vault where
  "test_vault = fv_vault_lock\<lparr>v_pipeline := fst test_pipeline, v_store := test_store,
     v_config := zero_config\<lparr>ec_volume := (ec_volume zero_config)\<lparr>logical_blocks := 100\<rparr>\<rparr>, v_unlocked := True\<rparr>"

definition test_authority :: "unit fv_device_authority" where
  "test_authority = \<lparr>au_load = (\<lambda>a. (None, a)), au_commit = (\<lambda>q s a. (False, a)), au_binding = (\<lambda>i k a. (None, a)),
     au_destroy = None\<rparr>"

definition test_platform :: "(unit, nat \<Rightarrow> u8 list, unit) fv_vault_platform" where
  "test_platform = \<lparr>vp_sd = ram_device 500, vp_authority = test_authority, vp_random = Some test_rng,
     vp_kdf_limits = test_limits, vp_format_scratch = 0, vp_format_sectors = 0, vp_initialize_contents = None\<rparr>"

abbreviation test_world :: "(unit, nat \<Rightarrow> u8 list, unit) vault_world" where
  "test_world \<equiv> \<lparr>w_authority = (), w_sd = blank, w_random = ()\<rparr>"

lemma pipeline_ready_test: "pipeline_ready (fst test_pipeline)"
proof (rule pipeline_init_ready [OF cipher_law_test])
  show "fv_pipeline_init test_ciphers [FV_TWOFISH_256_XTS, FV_SM4_128_XTS] [test_key 0, test_key 7] 2 = (fst test_pipeline, FV_OK)"
    using test_pipeline_eq by (simp add: test_pipeline_def)
qed

lemma test_vault_inv: "vault_inv test_platform ram_cells (test_vault, test_world)"
  using test_store_facts pipeline_ready_test
  by (simp add: vault_inv_def test_vault_def test_platform_def)

lemma test_crypt_total: "\<exists>out. crypt_sectors (fst test_pipeline) True u lba a is buf = Some out"
proof (induction "is" arbitrary: buf)
  case (Cons i "is")
  obtain st m where m: "fv_pipeline_encrypt (fst test_pipeline) (of_nat (lba + i)) (a + i * 512, span buf (i * 512) 512)
      (a + i * 512, span buf (i * 512) 512) = (st, m)" by (cases "fv_pipeline_encrypt (fst test_pipeline) (of_nat (lba + i))
      (a + i * 512, span buf (i * 512) 512) (a + i * 512, span buf (i * 512) 512)")
  then have "st = FV_OK" using test_pipeline_encrypts by (metis fst_conv)
  with m Cons.IH show ?case by (simp add: Let_def)
qed simp

lemma test_vault_write:
  "\<exists>s'. fv_vault_write test_sha test_platform 14 3 (4, replicate 1536 9) (test_vault, test_world) =
     (FV_BLOCK_OK, zeros 1536, s')"
proof -
  obtain ct where ct: "crypt_sectors (fst test_pipeline) True no_unset 14 4 [0..<3] (replicate 1536 9) = Some ct"
    using test_crypt_total by blast
  obtain s1 d1 where ld: "load (ram_device 500) 14 3 (test_store, blank) = (FV_BLOCK_OK, s1, d1)"
    using load_reliable [OF reliable_ram, of 500 14 3 test_store blank] by (metis prod.collapse)
  have "same_config test_store s1"
    using load_spec [OF disk_law_ram test_store_facts(1) _ _ _ ld] test_store_facts by simp
  then have "\<And>x dat. store_tag test_sha s1 x dat \<noteq> None"
    using test_store_tag test_store_facts(4) by (auto simp: same_config_def)
  then obtain st d where wr: "fv_auth_write test_sha (ram_device 500) 14 3 (4, ct) (test_store, blank) = (FV_BLOCK_OK, st, d)"
    using auth_write_reliable [OF reliable_ram test_store_validate ld] by blast
  have l: "length ct = 1536" using crypt_sectors_length [OF ct] by simp
  have u: "v_unlocked test_vault" by (simp add: test_vault_def)
  have r: "as_ready st" using auth_write_correct [OF disk_law_ram digest_law_test_sha test_store_facts(1) _ wr] l by simp
  have "fv_vault_write test_sha test_platform 14 3 (4, replicate 1536 9) (test_vault, test_world) =
     (FV_BLOCK_OK, zeros 1536, test_vault\<lparr>v_store := st\<rparr>, test_world\<lparr>w_sd := d\<rparr>)"
    unfolding vault_write_ok_iff [OF u] using ct wr r memset_zero [OF l]
    by (auto simp: test_vault_def test_platform_def FV_AUTH_MAX_BATCH_SECTORS_def media_valid_def ram_device_def)
  then show ?thesis by blast
qed

lemma vault_disk_refinement_witness:
  "\<exists>s'. fv_vault_write test_sha test_platform 14 3 (4, replicate 1536 9) (test_vault, test_world) = (FV_BLOCK_OK, zeros 1536, s') \<and>
     vault_sector test_sha ram_cells s' 15 = Some (replicate 512 9)"
proof -
  obtain s' where w: "fv_vault_write test_sha test_platform 14 3 (4, replicate 1536 9) (test_vault, test_world) =
      (FV_BLOCK_OK, zeros 1536, s')" using test_vault_write by blast
  have law: "disk_law (vp_sd test_platform) ram_cells" by (simp add: test_platform_def disk_law_ram)
  have x: "\<forall>x < vault_blocks (test_vault, test_world). vault_sector test_sha ram_cells s' x =
      (if 14 \<le> x \<and> x < 14 + 3 then Some (span (replicate 1536 9) ((x - 14) * 512) 512)
       else vault_sector test_sha ram_cells (test_vault, test_world) x)"
    using vault_disk_refinement [OF law digest_law_test_sha test_vault_inv, of "replicate 1536 9" 3 14 4 "zeros 1536" s'] w
    by simp
  have "vault_blocks (test_vault, test_world) = 100" by (simp add: vault_blocks_def test_vault_def)
  with x w show ?thesis by (auto simp: span_def)
qed


end
