(* ===== verification/Session_Scope.thy ===== *)
theory Session_Scope
  imports Session_Access Vault_IO Vault_Attempts
begin

text \<open>
  The session as a state machine: the worker unlocks with a requested scope, reverifies, locks, and
  performs sector I/O. A scope is granted only by an unlock from the locked state, every grant and
  every lock has its own generation, and losing the card can only take authority away.
\<close>

datatype session_event =
    Session_Unlock "u8 list" fv_access_mode
  | Session_Reverify "u8 list"
  | Session_Lock
  | Session_IO bool nat nat "nat \<times> u8 list"

text \<open>What one event does, as the worker calls it.\<close>

fun session_do ::
  "sha_lib \<Rightarrow> cipher_lib \<Rightarrow> ('a, 'd, 'r) fv_vault_platform \<Rightarrow> session_event
   \<Rightarrow> fv_session_access \<times> fv_vault \<times> ('a, 'd, 'r) vault_world \<Rightarrow> fv_session_access \<times> fv_vault \<times> ('a, 'd, 'r) vault_world" where
  "session_do SL L p (Session_Unlock secret mode) st = snd (fv_session_unlock SL L p secret mode st)"
| "session_do SL L p (Session_Reverify secret) st = snd (fv_session_reverify_fido SL L p secret st)"
| "session_do SL L p Session_Lock (a, v, w) = (case fv_session_lock a of (a, v) \<Rightarrow> (a, v, w))"
| "session_do SL L p (Session_IO write lba cnt buf) (a, v, w) =
     (case vault_io SL p write lba cnt buf (v, w) of (r, out, v, w) \<Rightarrow> (a, v, w))"

inductive session_reach ::
  "sha_lib \<Rightarrow> cipher_lib \<Rightarrow> ('a, 'd, 'r) fv_vault_platform \<Rightarrow> fv_session_access \<times> fv_vault \<times> ('a, 'd, 'r) vault_world \<Rightarrow> bool"
  for SL L p where
  boot: "session_reach SL L p (\<lparr>sa_mode = FV_ACCESS_LOCKED, sa_generation = 0\<rparr>, fv_vault_lock, w)"
| event: "session_reach SL L p st \<Longrightarrow> session_reach SL L p (session_do SL L p e st)"

section \<open>Vault operations and the lock\<close>

lemma vault_lock_unlocked [simp]: "v_unlocked fv_vault_lock = False"
  by (simp add: fv_vault_lock_def)

lemma initialize_session_unlocked: "initialize_session SL L p c vmk w = Some v \<Longrightarrow> v_unlocked v \<and> v_config v = c \<and> v_vmk v = vmk"
  by (auto simp: initialize_session_def Let_def split: option.splits prod.splits if_splits)

lemma finish_unlock_result:
  "finish_unlock SL L p header c copy repair vmk w = (r, v, w') \<Longrightarrow> if r = FV_VAULT_OK then v_unlocked v else v = fv_vault_lock"
  by (auto simp: finish_unlock_def split: option.splits prod.splits if_splits dest: initialize_session_unlocked)

lemma vault_limit_not_ok: "vault_limit p s w = (r, w') \<Longrightarrow> r \<noteq> FV_VAULT_OK"
  by (auto simp: vault_limit_def limit_destroy_def Let_def split: if_splits prod.splits option.splits bool.splits)

lemma settle_attempt_result:
  "settle_attempt SL L p s lim header c copy repair vmk w = (r, v, w') \<Longrightarrow> if r = FV_VAULT_OK then v_unlocked v else v = fv_vault_lock"
  by (auto simp: settle_attempt_def split: option.splits prod.splits bool.splits if_splits
      dest: finish_unlock_result vault_limit_not_ok)

lemma unlock_stage_not_ok: "unlock_stage SL p w = Inl (r, w') \<Longrightarrow> r \<noteq> FV_VAULT_OK"
  by (auto simp: unlock_stage_def split: prod.splits if_splits option.splits bool.splits)

text \<open>A vault is left unlocked exactly by a successful unlock.\<close>

lemma vault_unlock_result:
  assumes "vault_unlock SL L p secret repair w = (r, v, w')"
  shows "if r = FV_VAULT_OK then v_unlocked v else v = fv_vault_lock"
proof (cases "unlock_stage SL p w")
  case (Inl x)
  then show ?thesis using assms unlock_stage_not_ok [of SL p w] by (cases x) (auto simp: unlock_by_stage)
next
  case (Inr x)
  then show ?thesis using assms by (cases x) (auto simp: unlock_by_stage split: prod.splits dest: settle_attempt_result)
qed

lemma reverify_result:
  "fv_vault_reverify SL L p secret v w = (r, v', w') \<Longrightarrow> v' = v \<or> v' = fv_vault_lock"
  by (auto simp: fv_vault_reverify_def Let_def split: prod.splits if_splits)

lemma io_done_session: "io_done write cnt r b v w = (r', out, v', w') \<Longrightarrow> v_unlocked v' \<Longrightarrow> v_unlocked v"
  by (auto simp: io_done_def split: if_splits)

lemma vault_io_session: "vault_io SL p write lba cnt buf (v, w) = (r, out, v', w') \<Longrightarrow> v_unlocked v' \<Longrightarrow> v_unlocked v"
  by (cases buf) (auto simp: vault_io_def split: if_splits prod.splits option.splits dest: io_done_session)

section \<open>Properties\<close>

lemma session_step:
  assumes "session_do SL L p e (a, v, w) = (a', v', w')" "v_unlocked v \<longrightarrow> fv_access_valid (sa_mode a)"
  shows "(v_unlocked v' \<longrightarrow> fv_access_valid (sa_mode a')) \<and>
    (a' = a \<and> (v_unlocked v' \<longrightarrow> v_unlocked v) \<or>
     sa_generation a' = sa_generation a + 1 \<and> sa_mode a' = FV_ACCESS_LOCKED \<and> v' = fv_vault_lock \<or>
     (\<exists>secret. e = Session_Unlock secret (sa_mode a') \<and> sa_generation a' = sa_generation a + 1 \<and>
        fv_access_valid (sa_mode a') \<and> \<not> v_unlocked v \<and> sa_mode a = FV_ACCESS_LOCKED \<and> v_unlocked v' \<and>
        fv_vault_unlock SL L p secret w = (FV_VAULT_OK, v', w')))"
proof (cases e)
  case (Session_Unlock secret mode)
  obtain r v1 w1 where u: "fv_vault_unlock SL L p secret w = (r, v1, w1)" by (cases "fv_vault_unlock SL L p secret w")
  have k: "if r = FV_VAULT_OK then v_unlocked v1 else v1 = fv_vault_lock"
    using vault_unlock_result u unfolding fv_vault_unlock_def by blast
  show ?thesis
    using assms u k Session_Unlock by (auto simp: fv_session_unlock_def fv_session_lock_def split: if_splits)
next
  case (Session_Reverify secret)
  obtain r v1 w1 where u: "fv_vault_reverify SL L p secret v w = (r, v1, w1)" by (cases "fv_vault_reverify SL L p secret v w")
  show ?thesis
    using assms u reverify_result [OF u] Session_Reverify
    by (auto simp: fv_session_reverify_fido_def fv_session_lock_def split: if_splits)
next
  case Session_Lock
  then show ?thesis using assms by (auto simp: fv_session_lock_def)
next
  case (Session_IO wr lba cnt buf)
  then show ?thesis using assms by (auto split: prod.splits dest: vault_io_session)
qed

lemma session_scoped: "session_reach SL L p (a, v, w) \<Longrightarrow> v_unlocked v \<longrightarrow> fv_access_valid (sa_mode a)"
proof (induction "(a, v, w)" arbitrary: a v w rule: session_reach.induct)
  case (event st e)
  obtain a0 v0 w0 where "st = (a0, v0, w0)" by (cases st)
  with event show ?case using session_step [of SL L p e a0 v0 w0 a v w] by simp
qed simp

text \<open>C11. The scope of a session. In every state the worker can reach, an open vault has a valid scope.
  Each further event either keeps scope and generation (and can only close the vault), or closes the
  session under a new generation, or is an unlock that was requested with exactly the scope it grants,
  from a locked session, after the vault accepted the credential, under a new generation. So scope
  never widens without an intervening lock and fresh verification.\<close>

theorem session_scope_exact:
  assumes "session_reach SL L p (a, v, w)" "session_do SL L p e (a, v, w) = (a', v', w')"
  shows "(v_unlocked v \<longrightarrow> fv_access_valid (sa_mode a)) \<and>
    (a' = a \<and> (fv_session_mode a' v' = fv_session_mode a v \<or> fv_session_mode a' v' = FV_ACCESS_LOCKED) \<or>
     sa_generation a' = sa_generation a + 1 \<and> fv_session_mode a' v' = FV_ACCESS_LOCKED \<and> v' = fv_vault_lock \<or>
     (\<exists>secret mode. e = Session_Unlock secret mode \<and> fv_session_mode a' v' = mode \<and> sa_generation a' = sa_generation a + 1 \<and>
        fv_session_mode a v = FV_ACCESS_LOCKED \<and> fv_vault_unlock SL L p secret w = (FV_VAULT_OK, v', w')))"
proof -
  note s = session_scoped [OF assms(1)]
  show ?thesis using session_step [OF assms(2) s] s by (auto simp: fv_session_mode_def)
qed

lemma session_scope_exact_witness:
  "session_reach test_sha test_ciphers test_platform (\<lparr>sa_mode = FV_ACCESS_LOCKED, sa_generation = 0\<rparr>, fv_vault_lock, test_world) \<and>
   (\<exists>a v w. session_do test_sha test_ciphers test_platform (Session_Unlock [1] FV_ACCESS_FULL)
      (\<lparr>sa_mode = FV_ACCESS_LOCKED, sa_generation = 0\<rparr>, fv_vault_lock, test_world) = (a, v, w) \<and>
      fv_session_mode a v = FV_ACCESS_LOCKED \<and> sa_generation a = 1)"
proof -
  let ?st = "(\<lparr>sa_mode = FV_ACCESS_LOCKED, sa_generation = 0\<rparr>, fv_vault_lock, test_world)"
  have r: "session_reach test_sha test_ciphers test_platform ?st" by (rule session_reach.boot)
  have p: "platform_valid test_platform" by (simp add: platform_valid_def test_platform_def test_limits_def)
  have "vault_load test_platform test_world = (None, test_world)"
    by (simp add: vault_load_def test_platform_def test_authority_def)
  then have "fv_vault_unlock test_sha test_ciphers test_platform [1] test_world = (FV_VAULT_STATE, fv_vault_lock, test_world)"
    using p by (simp add: fv_vault_unlock_def vault_unlock_def vault_recover_def)
  then have d: "session_do test_sha test_ciphers test_platform (Session_Unlock [1] FV_ACCESS_FULL) ?st =
      (\<lparr>sa_mode = FV_ACCESS_LOCKED, sa_generation = 1\<rparr>, fv_vault_lock, test_world)"
    by (simp add: fv_session_unlock_def fv_session_lock_def fv_access_valid_def)
  show ?thesis using r d session_scope_exact [OF r d] by (simp add: fv_session_mode_def)
qed

end
