(* ===== verification/Fido_Image.thy ===== *)
theory Fido_Image
  imports Bytes
begin

text \<open>
  The upgrade of a 64 KiB passkey image to the 128 KiB layout
  (\<^verbatim>\<open>src/src/shared/fido/image_upgrade.c\<close>). An image ends in two linked lists of records that grow
  downwards; the links hold absolute addresses, so moving the image up by \<open>DELTA\<close> means adding \<open>DELTA\<close>
  to every link, in place. Offsets are natural numbers: a checked link is below 2\<open>^\<close>17 and no sum
  wraps; a stored value is reduced to 32 bits. The relocation follows links without checking them, so
  its loop is a partial function, and that it returns is part of the property.
\<close>

definition FV_FIDO_STORE_BYTES :: nat where "FV_FIDO_STORE_BYTES = 131072"
definition OLD_BYTES :: nat where "OLD_BYTES = 65536"
definition ADDRESS_BASE :: nat where "ADDRESS_BASE = 4096"
definition DELTA :: nat where "DELTA = 65536"
definition ROM_END :: nat where "ROM_END = 65524"
definition ROM_START :: nat where "ROM_START = 49140"
definition DATA_END :: nat where "DATA_END = 49132"

lemmas image_layout =
  FV_FIDO_STORE_BYTES_def OLD_BYTES_def ADDRESS_BASE_def DELTA_def ROM_END_def ROM_START_def DATA_END_def

text \<open>The 32-bit fields of an image.\<close>

definition image_get :: "u8 list \<Rightarrow> nat \<Rightarrow> nat \<Rightarrow> nat" where
  "image_get img off n = unat (ucast (get img off n) :: u32)"

definition image_put :: "u8 list \<Rightarrow> nat \<Rightarrow> nat \<Rightarrow> u8 list" where
  "image_put img off v = put img off (of_nat v :: u32) 4"

function valid_loop :: "u8 list \<Rightarrow> nat \<Rightarrow> nat \<Rightarrow> nat \<Rightarrow> bool" where
  "valid_loop img start previous next =
     (if next = 0 then True
      else if next < ADDRESS_BASE + start \<or> next \<ge> ADDRESS_BASE + previous then False
      else
        (let offset = next - ADDRESS_BASE in
         if previous - offset < 12 \<or> image_get img (offset + 4) 4 \<noteq> ADDRESS_BASE + previous then False
         else if image_get img (offset + 10) 2 = 65535 \<and> previous - offset < 16 then False
         else
           (let (len, header) = (if image_get img (offset + 10) 2 = 65535 then (image_get img (offset + 12) 4, 16)
                                 else (image_get img (offset + 10) 2, 12))
            in if len > previous - offset - header then False
               else valid_loop img start offset (image_get img offset 4))))"
  by pat_completeness auto
termination
  by (relation "measure (\<lambda>(img, start, previous, next). previous)") auto

declare valid_loop.simps [simp del]

definition valid_list :: "u8 list \<Rightarrow> nat \<Rightarrow> nat \<Rightarrow> bool" where
  "valid_list img start end' = valid_loop img start end' (image_get img end' 4)"

partial_function (option) relocate_loop :: "u8 list \<Rightarrow> nat \<Rightarrow> u8 list option" where
  "relocate_loop img next =
     (if next = 0 then Some img
      else
        (let offset = next - ADDRESS_BASE;
             next = image_get img offset 4;
             img = image_put img offset (if next \<noteq> 0 then next + DELTA else 0);
             img = image_put img (offset + 4) (image_get img (offset + 4) 4 + DELTA)
         in relocate_loop img next))"

definition relocate :: "u8 list \<Rightarrow> nat \<Rightarrow> u8 list option" where
  "relocate img end' =
     (let next = image_get img end' 4
      in relocate_loop (if next \<noteq> 0 then image_put img end' (next + DELTA) else img) next)"

text \<open>The result is the image and whether it was accepted; \<open>None\<close> is an upgrade that does not return.\<close>

definition fv_fido_image_upgrade :: "u8 list \<Rightarrow> (bool \<times> u8 list) option" where
  "fv_fido_image_upgrade img =
     (if filled (take OLD_BYTES img) 255 then Some (True, replicate FV_FIDO_STORE_BYTES 255)
      else if \<not> valid_list img 0 DATA_END \<or> \<not> valid_list img ROM_START ROM_END then Some (False, img)
      else case relocate img DATA_END of None \<Rightarrow> None
      | Some img \<Rightarrow>
        (case relocate img ROM_END of None \<Rightarrow> None
         | Some img \<Rightarrow>
           (let img = memcpy img DELTA (take OLD_BYTES img)
            in Some (True, memset img 0 255 DELTA))))"

section \<open>The list of records\<close>

text \<open>The offsets of the records a list links, first to last; \<open>None\<close> when the list is malformed.\<close>

function records :: "u8 list \<Rightarrow> nat \<Rightarrow> nat \<Rightarrow> nat \<Rightarrow> nat list option" where
  "records img start previous next =
     (if next = 0 then Some []
      else
        (let offset = next - ADDRESS_BASE; len = image_get img (offset + 10) 2 in
         if next < ADDRESS_BASE + start \<or> next \<ge> ADDRESS_BASE + previous \<or> previous - offset < 12 \<or>
            image_get img (offset + 4) 4 \<noteq> ADDRESS_BASE + previous \<or>
            (if len = 65535 then previous - offset < 16 \<or> image_get img (offset + 12) 4 > previous - offset - 16
             else len > previous - offset - 12)
         then None
         else map_option (Cons offset) (records img start offset (image_get img offset 4))))"
  by pat_completeness auto
termination
  by (relation "measure (\<lambda>(img, start, previous, next). previous)") auto

declare records.simps [simp del]

definition file_list :: "u8 list \<Rightarrow> nat \<Rightarrow> nat \<Rightarrow> nat list option" where
  "file_list img start end' = records img start end' (image_get img end' 4)"

text \<open>The bytes of an image that hold links.\<close>

definition link_bytes :: "nat \<Rightarrow> nat list \<Rightarrow> nat set" where
  "link_bytes end' xs = {end'..<end' + 4} \<union> (\<Union>x \<in> set xs. {x..<x + 8})"

lemma valid_loop_records: "valid_loop img start previous next \<longleftrightarrow> records img start previous next \<noteq> None"
proof (induction img start previous "next" rule: records.induct)
  case (1 img start previous nxt)
  show ?case
    by (subst valid_loop.simps, subst records.simps) (auto simp: Let_def 1)
qed

lemma valid_list_iff: "valid_list img start end' \<longleftrightarrow> file_list img start end' \<noteq> None"
  by (simp add: valid_list_def file_list_def valid_loop_records)

lemma recordsE:
  assumes "records img start previous next = Some xs"
  obtains (Nil) "next = 0" "xs = []"
    | (Cons) x ys where "xs = x # ys" "next = ADDRESS_BASE + x" "start \<le> x" "x + 12 \<le> previous"
      "image_get img (x + 4) 4 = ADDRESS_BASE + previous"
      "if image_get img (x + 10) 2 = 65535 then x + 16 \<le> previous \<and> image_get img (x + 12) 4 \<le> previous - x - 16
       else image_get img (x + 10) 2 \<le> previous - x - 12"
      "records img start x (image_get img x 4) = Some ys"
proof (cases "next = 0")
  case True
  then show ?thesis using assms that(1) by (subst (asm) records.simps) simp
next
  case False
  show ?thesis
    using assms False
    by (subst (asm) records.simps)
      (auto simp: Let_def split: if_splits intro!: that(2) [where x = "next - ADDRESS_BASE"])
qed

lemma records_ConsI:
  assumes "start \<le> x" "x + 12 \<le> previous" "image_get img (x + 4) 4 = ADDRESS_BASE + previous"
    "if image_get img (x + 10) 2 = 65535 then x + 16 \<le> previous \<and> image_get img (x + 12) 4 \<le> previous - x - 16
       else image_get img (x + 10) 2 \<le> previous - x - 12"
    "records img start x (image_get img x 4) = Some ys"
  shows "records img start previous (ADDRESS_BASE + x) = Some (x # ys)"
  using assms by (subst records.simps) (auto simp: Let_def ADDRESS_BASE_def split: if_splits)

lemma records_NilI: "records img start previous 0 = Some []"
  by (subst records.simps) simp

lemma records_bounds:
  "records img start previous next = Some xs \<Longrightarrow> x \<in> set xs \<Longrightarrow> start \<le> x \<and> x + 12 \<le> previous"
proof (induction xs arbitrary: previous "next")
  case (Cons y ys)
  from Cons.prems(1) show ?case
    by (cases rule: recordsE) (use Cons.prems Cons.IH in fastforce)+
qed simp


section \<open>Relocation\<close>

lemma image_get_cong:
  assumes "length a = length b" "\<And>i. off \<le> i \<Longrightarrow> i < off + n \<Longrightarrow> a ! i = b ! i"
  shows "image_get a off n = image_get b off n"
proof -
  have "span a off n = span b off n" using assms by (simp add: span_eq_iff)
  then show ?thesis by (simp add: image_get_def get_def)
qed

lemma image_get_shift:
  assumes "d + off + n \<le> length a" "off + n \<le> length b" "\<And>i. off \<le> i \<Longrightarrow> i < off + n \<Longrightarrow> a ! (d + i) = b ! i"
  shows "image_get a (d + off) n = image_get b off n"
proof -
  have "span a (d + off) n = span b off n" using assms by (intro nth_equalityI) (auto simp: nth_span add.assoc)
  then show ?thesis by (simp add: image_get_def get_def)
qed

lemma image_get_put_same: "off + 4 \<le> length img \<Longrightarrow> v < 2 ^ 32 \<Longrightarrow> image_get (image_put img off v) off 4 = v"
  by (simp add: image_get_def image_put_def get_put_same unat_of_nat take_bit_nat_eq_self)

lemma image_get_put_other: "o' + m \<le> off \<or> off + 4 \<le> o' \<Longrightarrow> image_get (image_put img off v) o' m = image_get img o' m"
  by (simp add: image_get_def image_put_def get_put_other)

lemma length_image_put [simp]: "length (image_put img off v) = length img"
  by (simp add: image_put_def)

lemma nth_image_put_other: "i < off \<or> off + 4 \<le> i \<Longrightarrow> i < length img \<Longrightarrow> image_put img off v ! i = img ! i"
  by (simp add: image_put_def nth_put_other)

lemma records_cong:
  assumes "length a = length b" "\<And>i. start \<le> i \<Longrightarrow> i < previous \<Longrightarrow> a ! i = b ! i"
    and "records a start previous next = Some xs"
  shows "records b start previous next = Some xs"
  using assms
proof (induction xs arbitrary: previous "next")
  case Nil
  from Nil.prems(3) show ?case by (cases rule: recordsE) (auto simp: records_NilI)
next
  case (Cons x xs)
  have g: "image_get a off n = image_get b off n" if "start \<le> off" "off + n \<le> previous" for off n
    using that Cons.prems(1,2) by (intro image_get_cong) auto
  from Cons.prems(3) show ?case
  proof (cases rule: recordsE)
    case (Cons y ys)
    have "records b start x (image_get b x 4) = Some xs"
      using Cons Cons.IH [of x "image_get b x 4"] Cons.prems(1,2) g [of x 4] by simp
    then show ?thesis
      using Cons g [of "x + 4" 4] g [of "x + 10" 2] g [of "x + 12" 4]
      by (auto intro!: records_ConsI split: if_splits)
  qed simp
qed

text \<open>A link moved up.\<close>

definition shift :: "nat \<Rightarrow> nat" where
  "shift n = (if n = 0 then 0 else n + DELTA)"

lemma link_value:
  assumes "records img start previous next = Some xs" "previous \<le> OLD_BYTES"
  shows "next < 2 ^ 17" "shift next < 2 ^ 32"
proof -
  have "next < 2 ^ 17" using assms(1)
    by (cases rule: recordsE) (use assms(2) in \<open>auto simp: image_layout\<close>)
  then show "next < 2 ^ 17" "shift next < 2 ^ 32" by (auto simp: shift_def image_layout)
qed

text \<open>\<open>img'\<close> holds, \<open>d\<close> bytes up, what \<open>img\<close> holds below \<open>bound\<close>, with the links of the records \<open>xs\<close> moved.\<close>

definition moved :: "nat \<Rightarrow> nat \<Rightarrow> u8 list \<Rightarrow> u8 list \<Rightarrow> nat list \<Rightarrow> bool" where
  "moved d bound img img' xs \<longleftrightarrow>
     (\<forall>i < bound. i \<notin> (\<Union>x \<in> set xs. {x..<x + 8}) \<longrightarrow> img' ! (d + i) = img ! i) \<and>
     (\<forall>x \<in> set xs. image_get img' (d + x) 4 = shift (image_get img x 4) \<and>
        image_get img' (d + x + 4) 4 = image_get img (x + 4) 4 + DELTA)"

lemma relocate_loop_spec:
  assumes "records img start previous next = Some xs" "previous \<le> OLD_BYTES" "OLD_BYTES \<le> length img"
  shows "\<exists>img'. relocate_loop img next = Some img' \<and> length img' = length img \<and> moved 0 (length img) img img' xs"
  using assms
proof (induction xs arbitrary: previous "next" img)
  case Nil
  from Nil.prems(1) show ?case by (cases rule: recordsE) (auto simp: moved_def relocate_loop.simps)
next
  case (Cons x xs)
  from Cons.prems(1) show ?case
  proof (cases rule: recordsE)
    case (Cons y ys)
    then have r: "records img start x (image_get img x 4) = Some xs" and x: "x + 12 \<le> previous" "next = ADDRESS_BASE + x"
      and prev: "image_get img (x + 4) 4 = ADDRESS_BASE + previous" by auto
    have top: "x \<le> OLD_BYTES" "previous \<le> OLD_BYTES" "x + 12 \<le> length img" using x Cons.prems by auto
    define img1 where "img1 = image_put img x (shift (image_get img x 4))"
    define img2 where "img2 = image_put img1 (x + 4) (image_get img1 (x + 4) 4 + DELTA)"
    have len: "length img2 = length img" by (simp add: img1_def img2_def)
    have same: "img2 ! i = img ! i" if "i < length img" "i < x \<or> x + 8 \<le> i" for i
      using that by (auto simp: img1_def img2_def nth_image_put_other)
    have step: "relocate_loop img next = relocate_loop img2 (image_get img x 4)"
      by (subst relocate_loop.simps) (simp add: Let_def img1_def img2_def shift_def x(2) ADDRESS_BASE_def)
    have g1: "image_get img1 (x + 4) 4 = ADDRESS_BASE + previous" using prev by (simp add: img1_def image_get_put_other)
    have l0: "image_get img2 x 4 = shift (image_get img x 4)"
      using link_value [OF r top(1)] top(3) by (simp add: img1_def img2_def image_get_put_other image_get_put_same)
    have l4: "image_get img2 (x + 4) 4 = image_get img (x + 4) 4 + DELTA"
      using g1 prev top by (simp add: img2_def img1_def image_get_put_same image_layout)
    have r2: "records img2 start x (image_get img x 4) = Some xs"
      by (rule records_cong [OF len [symmetric] _ r]) (use same top in auto)
    obtain img' where i: "relocate_loop img2 (image_get img x 4) = Some img'" "length img' = length img2"
      "moved 0 (length img2) img2 img' xs"
      using Cons.IH [OF r2 top(1)] Cons.prems(3) len by auto
    have b: "y + 12 \<le> x" if "y \<in> set xs" for y using records_bounds [OF r that] by simp
    have keep: "img' ! i = img2 ! i" if "i < length img" "x \<le> i" for i
      using i(3) that len b unfolding moved_def by fastforce
    have fx: "image_get img' x 4 = image_get img2 x 4" "image_get img' (x + 4) 4 = image_get img2 (x + 4) 4"
      using keep top(3) i(2) len by (auto intro!: image_get_cong)
    have fy: "image_get img2 y 4 = image_get img y 4" "image_get img2 (y + 4) 4 = image_get img (y + 4) 4" if "y \<in> set xs" for y
      using same b [OF that] top(3) len by (auto intro!: image_get_cong)
    have "img' ! i = img ! i" if "i < length img" "i \<notin> (\<Union>y \<in> set (x # xs). {y..<y + 8})" for i
    proof -
      have "img' ! i = img2 ! i" using i(3) that len unfolding moved_def by auto
      also have "\<dots> = img ! i" using same [of i] that by auto
      finally show ?thesis .
    qed
    moreover have "image_get img' y 4 = shift (image_get img y 4) \<and> image_get img' (y + 4) 4 = image_get img (y + 4) 4 + DELTA"
      if "y \<in> set xs" for y using i(3) that fy [OF that] unfolding moved_def by auto
    ultimately have "moved 0 (length img) img img' (x # xs)"
      using fx l0 l4 unfolding moved_def by auto
    then show ?thesis using step i len by auto
  qed simp
qed

lemma records_moved:
  assumes "records img start previous next = Some xs" "moved DELTA previous img img' xs"
    and "previous \<le> OLD_BYTES" "OLD_BYTES \<le> length img" "DELTA + OLD_BYTES \<le> length img'"
  shows "records img' (DELTA + start) (DELTA + previous) (shift next) = Some (map ((+) DELTA) xs)"
  using assms
proof (induction xs arbitrary: previous "next")
  case Nil
  from Nil.prems(1) show ?case by (cases rule: recordsE) (auto simp: shift_def records_NilI)
next
  case (Cons x xs)
  from Cons.prems(1) show ?case
  proof (cases rule: recordsE)
    case (Cons y ys)
    then have r: "records img start x (image_get img x 4) = Some xs" and x: "x + 12 \<le> previous" "start \<le> x" "next = ADDRESS_BASE + x"
      and prev: "image_get img (x + 4) 4 = ADDRESS_BASE + previous" by auto
    have b: "y + 12 \<le> x" if "y \<in> set xs" for y using records_bounds [OF r that] by simp
    have same: "img' ! (DELTA + i) = img ! i" if "x + 8 \<le> i" "i < previous" for i
    proof -
      have "i \<notin> (\<Union>y \<in> set (x # xs). {y..<y + 8})" using that b by fastforce
      then show ?thesis using Cons.prems(2) that unfolding moved_def by blast
    qed
    have "moved DELTA x img img' xs" using Cons.prems(2) x(1) unfolding moved_def by auto
    then have ih: "records img' (DELTA + start) (DELTA + x) (shift (image_get img x 4)) = Some (map ((+) DELTA) xs)"
      using Cons.IH [OF r] Cons.prems(3-5) x(1) by simp
    have g: "image_get img' (DELTA + off) n = image_get img off n" if "x + 8 \<le> off" "off + n \<le> previous" for off n
      using that same Cons.prems(3-5) by (intro image_get_shift) auto
    have l: "image_get img' (DELTA + x) 4 = shift (image_get img x 4)" "image_get img' (DELTA + x + 4) 4 = ADDRESS_BASE + (DELTA + previous)"
      using Cons.prems(2) prev unfolding moved_def by auto
    have "records img' (DELTA + start) (DELTA + previous) (ADDRESS_BASE + (DELTA + x)) = Some ((DELTA + x) # map ((+) DELTA) xs)"
      using Cons l x ih g [of "x + 10" 2] g [of "x + 12" 4]
      by (intro records_ConsI) (auto simp: add.assoc split: if_splits)
    then show ?thesis using x(3) by (simp add: shift_def ADDRESS_BASE_def ac_simps)
  qed simp
qed


lemma relocate_spec:
  assumes "file_list img start end' = Some xs" "end' + 4 \<le> OLD_BYTES" "OLD_BYTES \<le> length img"
  shows "\<exists>img'. relocate img end' = Some img' \<and> length img' = length img \<and> moved 0 end' img img' xs \<and>
    image_get img' end' 4 = shift (image_get img end' 4) \<and>
    (\<forall>i < length img. i \<notin> link_bytes end' xs \<longrightarrow> img' ! i = img ! i)"
proof -
  define nxt where "nxt = image_get img end' 4"
  define img1 where "img1 = (if nxt \<noteq> 0 then image_put img end' (nxt + DELTA) else img)"
  have r: "records img start end' nxt = Some xs" using assms(1) by (simp add: file_list_def nxt_def)
  have b: "x + 12 \<le> end'" if "x \<in> set xs" for x using records_bounds [OF r that] by simp
  have l1: "length img1 = length img" by (simp add: img1_def)
  have same: "img1 ! i = img ! i" if "i < length img" "i < end' \<or> end' + 4 \<le> i" for i
    using that by (auto simp: img1_def nth_image_put_other)
  have r1: "records img1 start end' nxt = Some xs"
    by (rule records_cong [OF l1 [symmetric] _ r]) (use same assms in auto)
  have e1: "image_get img1 end' 4 = shift nxt"
    using link_value [OF r] assms(2,3) by (auto simp: img1_def shift_def nxt_def image_get_put_same)
  obtain img' where i: "relocate_loop img1 nxt = Some img'" "length img' = length img1" "moved 0 (length img1) img1 img' xs"
    using relocate_loop_spec [OF r1] assms l1 by auto
  have keep: "img' ! i = img1 ! i" if "i < length img" "i \<notin> (\<Union>x \<in> set xs. {x..<x + 8})" for i
    using i(3) that l1 unfolding moved_def by auto
  have "image_get img' end' 4 = image_get img1 end' 4"
  proof (rule image_get_cong)
    fix i
    assume "end' \<le> i" "i < end' + 4"
    then show "img' ! i = img1 ! i" using keep [of i] b assms(2,3) by fastforce
  qed (simp add: i(2))
  moreover have "image_get img1 x 4 = image_get img x 4" "image_get img1 (x + 4) 4 = image_get img (x + 4) 4" if "x \<in> set xs" for x
    using same b [OF that] assms(2,3) l1 by (auto intro!: image_get_cong)
  ultimately have "moved 0 end' img img' xs" "image_get img' end' 4 = shift nxt"
    "\<forall>i < length img. i \<notin> link_bytes end' xs \<longrightarrow> img' ! i = img ! i"
    using i e1 l1 keep same assms(2,3) unfolding moved_def link_bytes_def by auto
  moreover have "relocate img end' = relocate_loop img1 nxt" by (simp add: relocate_def img1_def nxt_def Let_def)
  ultimately show ?thesis using i l1 by (simp add: nxt_def)
qed

lemma moved_cong:
  assumes "moved d bound img a xs" "\<And>i. i < bound \<Longrightarrow> b ! (e + i) = a ! (d + i)" "\<And>x. x \<in> set xs \<Longrightarrow> x + 8 \<le> bound"
    and "e + bound \<le> length b" "d + bound \<le> length a"
  shows "moved e bound img b xs"
proof -
  have g: "image_get b (e + off) 4 = image_get a (d + off) 4" if "off + 4 \<le> bound" for off
  proof -
    have "span b (e + off) 4 = span a (d + off) 4"
      using assms(2,4,5) that by (intro nth_equalityI) (auto simp: nth_span add.assoc)
    then show ?thesis by (simp add: image_get_def get_def)
  qed
  show ?thesis
    using assms(1,2,3) g unfolding moved_def by (fastforce simp: add.assoc)
qed

lemma file_list_moved:
  assumes "file_list img start end' = Some xs" "moved DELTA end' img img' xs"
    and "image_get img' (DELTA + end') 4 = shift (image_get img end' 4)"
    and "end' \<le> OLD_BYTES" "OLD_BYTES \<le> length img" "DELTA + OLD_BYTES \<le> length img'"
  shows "file_list img' (DELTA + start) (DELTA + end') = Some (map ((+) DELTA) xs)"
  using records_moved [OF _ assms(2,4-6)] assms(1,3) by (simp add: file_list_def)

text \<open>The whole upgrade of a well-formed image that is not blank.\<close>

lemma upgrade_moves:
  assumes len: "length img = FV_FIDO_STORE_BYTES" and nb: "\<not> filled (take OLD_BYTES img) 255"
    and xs: "file_list img 0 DATA_END = Some xs" and ys: "file_list img ROM_START ROM_END = Some ys"
  shows "\<exists>img'. fv_fido_image_upgrade img = Some (True, img') \<and> length img' = FV_FIDO_STORE_BYTES \<and>
    file_list img' DELTA (DELTA + DATA_END) = Some (map ((+) DELTA) xs) \<and>
    file_list img' (DELTA + ROM_START) (DELTA + ROM_END) = Some (map ((+) DELTA) ys) \<and>
    (\<forall>i < OLD_BYTES. i \<notin> link_bytes DATA_END xs \<union> link_bytes ROM_END ys \<longrightarrow> img' ! (DELTA + i) = img ! i) \<and>
    take DELTA img' = replicate DELTA 255"
proof -
  have O: "OLD_BYTES \<le> length img" by (simp add: len image_layout)
  have bx: "x + 12 \<le> DATA_END" if "x \<in> set xs" for x
    using xs records_bounds that unfolding file_list_def by blast
  have by': "ROM_START \<le> y \<and> y + 12 \<le> ROM_END" if "y \<in> set ys" for y
    using ys records_bounds that unfolding file_list_def by blast
  obtain a where a: "relocate img DATA_END = Some a" "length a = length img" "moved 0 DATA_END img a xs"
      "image_get a DATA_END 4 = shift (image_get img DATA_END 4)"
      "\<forall>i < length img. i \<notin> link_bytes DATA_END xs \<longrightarrow> a ! i = img ! i"
    using relocate_spec [OF xs _ O] by (auto simp: image_layout)
  have keep1: "a ! i = img ! i" if "ROM_START \<le> i" "i < length img" for i
    using a(5) that bx unfolding link_bytes_def by (fastforce simp: image_layout)
  have "image_get a ROM_END 4 = image_get img ROM_END 4"
    using keep1 a(2) len by (intro image_get_cong) (auto simp: image_layout)
  moreover have "records a ROM_START ROM_END (image_get img ROM_END 4) = Some ys"
    using ys keep1 by (intro records_cong [OF a(2) [symmetric]]) (auto simp: file_list_def len image_layout)
  ultimately have ya: "file_list a ROM_START ROM_END = Some ys" by (simp add: file_list_def)
  obtain b where b: "relocate a ROM_END = Some b" "length b = length a" "moved 0 ROM_END a b ys"
      "image_get b ROM_END 4 = shift (image_get a ROM_END 4)"
      "\<forall>i < length a. i \<notin> link_bytes ROM_END ys \<longrightarrow> b ! i = a ! i"
    using relocate_spec [OF ya] O a(2) by (auto simp: image_layout)
  define img' where "img' = memset (memcpy b DELTA (take OLD_BYTES b)) 0 255 DELTA"
  have l': "length img' = FV_FIDO_STORE_BYTES" using a(2) b(2) len by (simp add: img'_def)
  have shifted: "img' ! (DELTA + i) = b ! i" if "i < OLD_BYTES" for i
    using that a(2) b(2) len by (simp add: img'_def memset_def nth_memcpy image_layout)
  have fst': "take DELTA img' = replicate DELTA 255"
    using a(2) b(2) len by (intro nth_equalityI) (auto simp: img'_def memset_def nth_memcpy image_layout)
  have keep2: "b ! i = a ! i" if "i < ROM_START" for i
  proof -
    have "i \<notin> link_bytes ROM_END ys" using that by' unfolding link_bytes_def by (fastforce simp: image_layout)
    then show ?thesis using b(5) that a(2) len by (auto simp: image_layout)
  qed
  have g: "image_get img' (DELTA + off) 4 = image_get b off 4" if "off + 4 \<le> OLD_BYTES" for off
    using that shifted l' a(2) b(2) len by (intro image_get_shift) (auto simp: image_layout)
  have "image_get b DATA_END 4 = image_get a DATA_END 4"
    using keep2 b(2) by (intro image_get_cong) (auto simp: image_layout)
  then have e: "image_get img' (DELTA + DATA_END) 4 = shift (image_get img DATA_END 4)"
    "image_get img' (DELTA + ROM_END) 4 = shift (image_get a ROM_END 4)"
    using g [of DATA_END] g [of ROM_END] a(4) b(4) by (simp_all add: image_layout)
  have m1: "moved DELTA DATA_END img img' xs"
    by (rule moved_cong [OF a(3)]) (use shifted keep2 bx a(2) len l' in \<open>force simp: image_layout\<close>)+
  have m2: "moved DELTA ROM_END a img' ys"
    by (rule moved_cong [OF b(3)]) (use shifted by' a(2) b(2) len l' in \<open>force simp: image_layout\<close>)+
  have f1: "file_list img' (DELTA + 0) (DELTA + DATA_END) = Some (map ((+) DELTA) xs)"
    by (rule file_list_moved [OF xs m1 e(1)]) (simp_all add: len l', simp_all add: image_layout)
  have f2: "file_list img' (DELTA + ROM_START) (DELTA + ROM_END) = Some (map ((+) DELTA) ys)"
    by (rule file_list_moved [OF ya m2 e(2)]) (simp_all add: len l' a(2), simp_all add: image_layout)
  have "img' ! (DELTA + i) = img ! i" if "i < OLD_BYTES" "i \<notin> link_bytes DATA_END xs \<union> link_bytes ROM_END ys" for i
    using shifted [OF that(1)] a(5) b(5) that a(2) len by (auto simp: image_layout)
  moreover have "fv_fido_image_upgrade img = Some (True, img')"
    using nb xs ys a(1) b(1) by (simp add: fv_fido_image_upgrade_def valid_list_iff img'_def Let_def)
  ultimately show ?thesis using f1 f2 fst' l' by auto
qed

section \<open>Properties\<close>

text \<open>C20. The upgrade returns for every image, however its links point: the list checks descend through the
  image and the relocation runs only on checked lists. It accepts exactly the blank images and those
  whose two lists are well formed, and leaves a rejected image as it was.\<close>

theorem image_upgrade_returns:
  assumes "length img = FV_FIDO_STORE_BYTES"
  shows "\<exists>ok img'. fv_fido_image_upgrade img = Some (ok, img') \<and> length img' = FV_FIDO_STORE_BYTES \<and>
    (ok \<longleftrightarrow> filled (take OLD_BYTES img) 255 \<or>
       file_list img 0 DATA_END \<noteq> None \<and> file_list img ROM_START ROM_END \<noteq> None) \<and>
    (\<not> ok \<longrightarrow> img' = img)"
proof (cases "filled (take OLD_BYTES img) 255")
  case True
  then show ?thesis by (auto simp: fv_fido_image_upgrade_def)
next
  case nb: False
  show ?thesis
  proof (cases "file_list img 0 DATA_END \<noteq> None \<and> file_list img ROM_START ROM_END \<noteq> None")
    case True
    then obtain xs ys where l: "file_list img 0 DATA_END = Some xs" "file_list img ROM_START ROM_END = Some ys" by auto
    show ?thesis using upgrade_moves [OF assms nb l] l by auto
  next
    case False
    then show ?thesis using nb assms by (auto simp: fv_fido_image_upgrade_def valid_list_iff)
  qed
qed

text \<open>C21. An accepted image that is not blank holds, in the upper half, the same two lists of records, each
  record moved up by the same distance and each link with it; every byte outside the links, so every
  credential payload, is unchanged, and the lower half is erased flash.\<close>

theorem image_upgrade_keeps_records:
  assumes "length img = FV_FIDO_STORE_BYTES" "\<not> filled (take OLD_BYTES img) 255"
    and "fv_fido_image_upgrade img = Some (True, img')"
  shows "\<exists>xs ys. file_list img 0 DATA_END = Some xs \<and> file_list img ROM_START ROM_END = Some ys \<and>
    file_list img' DELTA (DELTA + DATA_END) = Some (map ((+) DELTA) xs) \<and>
    file_list img' (DELTA + ROM_START) (DELTA + ROM_END) = Some (map ((+) DELTA) ys) \<and>
    (\<forall>i < OLD_BYTES. i \<notin> link_bytes DATA_END xs \<union> link_bytes ROM_END ys \<longrightarrow> img' ! (DELTA + i) = img ! i) \<and>
    take DELTA img' = replicate DELTA 255"
proof -
  obtain xs ys where l: "file_list img 0 DATA_END = Some xs" "file_list img ROM_START ROM_END = Some ys"
    using assms(2,3) by (auto simp: fv_fido_image_upgrade_def valid_list_iff split: if_splits)
  show ?thesis using upgrade_moves [OF assms(1,2) l] assms(3) l by auto
qed

section \<open>The properties at work\<close>

text \<open>An image with one empty record at the top of the data region and an empty list of read-only
  records.\<close>

definition test_image :: "u8 list" where
  "test_image = image_put (image_put (zeros FV_FIDO_STORE_BYTES) DATA_END (ADDRESS_BASE + (DATA_END - 12)))
     (DATA_END - 12 + 4) (ADDRESS_BASE + DATA_END)"

lemma image_get_zeros: "off + n \<le> m \<Longrightarrow> n \<le> 4 \<Longrightarrow> image_get (zeros m) off n = 0"
proof -
  have z: "get_from i (replicate k 0) = 0" for i k by (induction k arbitrary: i) auto
  show "off + n \<le> m \<Longrightarrow> n \<le> 4 \<Longrightarrow> image_get (zeros m) off n = 0"
    using z by (simp add: image_get_def get_def span_zeros) (simp add: zeros_def)
qed

lemmas test_image_fields = image_get_put_same image_get_put_other image_get_zeros

lemma test_image_lists:
  "length test_image = FV_FIDO_STORE_BYTES" "file_list test_image 0 DATA_END = Some [DATA_END - 12]"
  "file_list test_image ROM_START ROM_END = Some []"
proof -
  show "length test_image = FV_FIDO_STORE_BYTES" by (simp add: test_image_def)
  have "records test_image 0 DATA_END (ADDRESS_BASE + (DATA_END - 12)) = Some [DATA_END - 12]"
    by (rule records_ConsI) (simp_all add: test_image_def image_layout test_image_fields records_NilI)
  then show "file_list test_image 0 DATA_END = Some [DATA_END - 12]"
    by (simp add: file_list_def) (simp add: test_image_def image_layout test_image_fields)
  show "file_list test_image ROM_START ROM_END = Some []"
    by (simp add: file_list_def test_image_def image_layout test_image_fields records_NilI)
qed

lemma test_image_not_blank: "\<not> filled (take OLD_BYTES test_image) 255"
proof
  assume "filled (take OLD_BYTES test_image) 255"
  moreover have "take OLD_BYTES test_image ! 0 \<in> set (take OLD_BYTES test_image)"
    by (rule nth_mem) (simp add: test_image_lists(1), simp add: image_layout)
  ultimately have "test_image ! 0 = 255" by (simp add: filled_iff OLD_BYTES_def)
  moreover have "image_get test_image 0 1 = 0"
    by (simp add: test_image_def test_image_fields image_layout)
  moreover have "image_get img 0 1 = unat (ucast (ucast (img ! 0) :: u64) :: u32)" if "img \<noteq> []" for img
    using that by (cases img) (simp_all add: image_get_def get_def span_def)
  moreover have "test_image \<noteq> []" using test_image_lists(1) by (auto simp: FV_FIDO_STORE_BYTES_def)
  ultimately show False by simp
qed

lemma image_upgrade_returns_witness:
  "\<exists>img'. fv_fido_image_upgrade test_image = Some (True, img') \<and> length img' = FV_FIDO_STORE_BYTES"
  using image_upgrade_returns [OF test_image_lists(1)] test_image_lists by auto

lemma image_upgrade_keeps_records_witness:
  "\<exists>img'. fv_fido_image_upgrade test_image = Some (True, img') \<and>
     file_list img' DELTA (DELTA + DATA_END) = Some [DELTA + (DATA_END - 12)]"
proof -
  obtain img' where u: "fv_fido_image_upgrade test_image = Some (True, img')"
    using upgrade_moves [OF test_image_lists(1) test_image_not_blank test_image_lists(2,3)] by auto
  show ?thesis
    using u image_upgrade_keeps_records [OF test_image_lists(1) test_image_not_blank u] test_image_lists(2) by auto
qed

end
