(* ===== verification/Fido_Store.thy ===== *)
theory Fido_Store
  imports Fido_Image Vault_IO
begin

text \<open>
  The passkey snapshot store (\<^verbatim>\<open>src/src/shared/fido/store.c\<close>, first half): two banks of sectors below
  the volume, each with a manifest sector, an authenticated store and an encrypted image. A commit
  writes the inactive bank and publishes it with a manifest of a higher generation. The store's
  pointer to its vault is the vault argument of its operations. A bank context keeps its scratch
  buffer; the buffer has an aligned address (4).
\<close>

datatype fv_fido_store_result =
  FV_FIDO_STORE_OK | FV_FIDO_STORE_INVALID | FV_FIDO_STORE_LOCKED | FV_FIDO_STORE_IO | FV_FIDO_STORE_CORRUPT
  | FV_FIDO_STORE_STALE

definition FV_FIDO_REGION_BASE :: nat where "FV_FIDO_REGION_BASE = 16"
definition FV_FIDO_BANK_SECTORS :: nat where "FV_FIDO_BANK_SECTORS = 1024"
definition BATCH :: nat where "BATCH = 8"

record fv_fido_store =
  fs_descriptor :: "u8 list"
  fs_digest :: "u8 list"
  fs_credential_generation :: u64
  fs_generation :: u64
  fs_bank :: nat
  fs_ready :: bool

record bank_context =
  bc_pipeline :: fv_pipeline
  bc_sectors :: fv_auth_store
  bc_manifest_key :: "u8 list"
  bc_image_sectors :: nat
  bc_scratch :: "u8 list"

record snapshot =
  sn_generation :: u64
  sn_bank :: nat
  sn_image_bytes :: nat
  sn_digest :: "u8 list"

definition bank_base :: "nat \<Rightarrow> nat" where
  "bank_base bank = FV_FIDO_REGION_BASE + bank * FV_FIDO_BANK_SECTORS"

definition fv_fido_store_close :: fv_fido_store where
  "fv_fido_store_close = \<lparr>fs_descriptor = zeros 128, fs_digest = zeros 32, fs_credential_generation = 0, fs_generation = 0,
     fs_bank = 0, fs_ready = False\<rparr>"

section \<open>Authorization and keys\<close>

text \<open>The part of the checks that only looks at the session and the card.\<close>

definition vault_usable :: "('a, 'd, 'r) fv_vault_platform \<Rightarrow> fv_vault \<Rightarrow> ('a, 'd, 'r) vault_world \<Rightarrow> bool" where
  "vault_usable p v w \<longleftrightarrow> v_unlocked v \<and> blk_present (vp_sd p) (w_sd w) \<and>
     blk_count (vp_sd p) (w_sd w) \<ge> unat FV_VOLUME_METADATA_BASE"

definition vault_valid ::
  "('a, 'd, 'r) fv_vault_platform \<Rightarrow> fv_vault \<Rightarrow> ('a, 'd, 'r) vault_world \<Rightarrow> bool \<times> ('a, 'd, 'r) vault_world" where
  "vault_valid p v w =
     (if \<not> vault_usable p v w then (False, w)
      else case vault_load p w of (None, w) \<Rightarrow> (False, w)
      | (Some state, w) \<Rightarrow>
        (ds_status state = FV_ENROLLMENT_ACTIVE \<and> \<not> ds_attempt_pending state \<and>
         ds_credential_generation state = ec_credential_generation (v_config v) \<and>
         ds_token_slot state = ec_token_slot (v_config v) \<and>
         ds_volume_id state = volume_id (ec_volume (v_config v)) \<and> ds_device_id state = ec_device_id (v_config v), w))"

definition authorized ::
  "('a, 'd, 'r) fv_vault_platform \<Rightarrow> fv_vault \<Rightarrow> fv_fido_store \<Rightarrow> ('a, 'd, 'r) vault_world \<Rightarrow> bool \<times> ('a, 'd, 'r) vault_world" where
  "authorized p v s w =
     (if \<not> fs_ready s then (False, w)
      else case vault_valid p v w of (ok, w) \<Rightarrow>
        (ok \<and> fs_credential_generation s = ec_credential_generation (v_config v) \<and>
         fv_volume_descriptor_encode (ec_volume (v_config v)) UINT64_MAX = Some (fs_descriptor s), w))"

definition derive_info :: "string \<Rightarrow> u8 list \<Rightarrow> nat \<Rightarrow> nat \<Rightarrow> u8 list" where
  "derive_info purpose hash bank layer =
     label purpose @ hash @ le_bytes (of_nat bank :: u32) 4 @ le_bytes (of_nat layer :: u32) 4"

definition derive :: "sha_lib \<Rightarrow> fv_vault \<Rightarrow> string \<Rightarrow> nat \<Rightarrow> nat \<Rightarrow> nat \<Rightarrow> u8 list option" where
  "derive SL v purpose bank layer n =
     (if length purpose + 1 + 40 > 128 then None
      else case fv_volume_descriptor_encode (ec_volume (v_config v)) UINT64_MAX of None \<Rightarrow> None
      | Some descriptor \<Rightarrow>
        (case sha_oneshot SL descriptor of None \<Rightarrow> None
         | Some hash \<Rightarrow>
           (case fv_hkdf_extract SL (volume_id (ec_volume (v_config v))) (v_vmk v) of None \<Rightarrow> None
            | Some prk \<Rightarrow> fv_hkdf_expand SL prk (derive_info purpose hash bank layer) n)))"

definition fv_fido_store_engine_key ::
  "sha_lib \<Rightarrow> ('a, 'd, 'r) fv_vault_platform \<Rightarrow> fv_vault \<Rightarrow> fv_fido_store \<Rightarrow> ('a, 'd, 'r) vault_world
   \<Rightarrow> fv_fido_store_result \<times> u8 list \<times> ('a, 'd, 'r) vault_world" where
  "fv_fido_store_engine_key SL p v s w =
     (case authorized p v s w of (False, w) \<Rightarrow> (FV_FIDO_STORE_LOCKED, zeros 32, w)
      | (True, w) \<Rightarrow>
        (case derive SL v ''FV2/fido-engine/v1'' 0 0 32 of None \<Rightarrow> (FV_FIDO_STORE_INVALID, zeros 32, w)
         | Some key \<Rightarrow> (FV_FIDO_STORE_OK, key, w)))"

section \<open>Banks\<close>

definition bank_close :: bank_context where
  "bank_close = \<lparr>bc_pipeline = fv_pipeline_clear, bc_sectors = fv_auth_close, bc_manifest_key = zeros 32,
     bc_image_sectors = 0, bc_scratch = zeros (BATCH * 512)\<rparr>"

text \<open>The layer loop of \<^verbatim>\<open>bank_open\<close> and \<^verbatim>\<open>j_bind\<close>: the keys of the cascade.\<close>

fun fido_layers ::
  "sha_lib \<Rightarrow> fv_vault \<Rightarrow> string \<Rightarrow> nat \<Rightarrow> nat list \<Rightarrow> u8 list list \<Rightarrow> u8 list list option" where
  "fido_layers SL v purpose bank [] keys = Some keys"
| "fido_layers SL v purpose bank (i # is) keys =
     (if i \<ge> 4 then None
      else case derive SL v purpose bank i (fv_cipher_key_bytes (ucast (cipher_ids (ec_volume (v_config v)) ! i))) of
        None \<Rightarrow> None
      | Some k \<Rightarrow> fido_layers SL v purpose bank is (keys[i := memcpy (keys ! i) 0 k]))"

definition bank_open ::
  "sha_lib \<Rightarrow> cipher_lib \<Rightarrow> ('a, 'd, 'r) fv_vault_platform \<Rightarrow> fv_vault \<Rightarrow> nat \<Rightarrow> nat \<Rightarrow> 'd \<Rightarrow> bank_context option" where
  "bank_open SL L p v bank image_bytes d =
     (if bank > 1 \<or> (image_bytes \<noteq> 65536 \<and> image_bytes \<noteq> FV_FIDO_STORE_BYTES) then None
      else
        (let vol = ec_volume (v_config v); cnt = unat (layer_count vol); sectors = image_bytes div 512 in
         case fido_layers SL v ''FV2/fido-xts/v1'' bank [0..<cnt] (replicate 4 (zeros 64)) of None \<Rightarrow> None
         | Some keys \<Rightarrow>
           (case derive SL v ''FV2/fido-sector-hmac/v1'' bank 0 32 of None \<Rightarrow> None
            | Some integrity \<Rightarrow>
              (case derive SL v ''FV2/fido-manifest/v1'' bank 0 32 of None \<Rightarrow> None
               | Some manifest_key \<Rightarrow>
                 (case fv_pipeline_init L (session_algorithms vol) keys cnt of (pipeline, st) \<Rightarrow>
                    if st \<noteq> FV_OK then None
                    else case fv_auth_open SL (vp_sd p) d (bank_base bank + 1) sectors (volume_id vol) integrity of
                      (r, store) \<Rightarrow>
                        if r \<noteq> FV_BLOCK_OK then None
                        else Some \<lparr>bc_pipeline = pipeline, bc_sectors = store, bc_manifest_key = manifest_key,
                                   bc_image_sectors = sectors, bc_scratch = zeros (BATCH * 512)\<rparr>)))))"

section \<open>Manifests\<close>

definition manifest_tag :: "sha_lib \<Rightarrow> u8 list \<Rightarrow> u8 list \<Rightarrow> u8 list option" where
  "manifest_tag SL key m =
     (case fv_hmac_init SL key of None \<Rightarrow> None
      | Some h \<Rightarrow> fv_hmac_compute SL h (label ''FV2/fido-commit/v1'') (take 480 m))"

definition manifest_body :: "fv_vault \<Rightarrow> snapshot \<Rightarrow> u8 list" where
  "manifest_body v snap =
     (let m = memcpy (zeros 512) 0 (label ''FV2FIDO'');
          m = put m 8 (if sn_image_bytes snap = 65536 then 1 else 2 :: u32) 4;
          m = put m 12 (of_nat (sn_bank snap) :: u32) 4;
          m = put m 16 (sn_generation snap) 8;
          m = put m 24 (of_nat (sn_image_bytes snap) :: u32) 4;
          m = memcpy m 32 (volume_id (ec_volume (v_config v)))
      in memcpy m 48 (sn_digest snap))"

definition encode_manifest :: "sha_lib \<Rightarrow> fv_vault \<Rightarrow> snapshot \<Rightarrow> u8 list \<Rightarrow> u8 list option" where
  "encode_manifest SL v snap key =
     (case fv_volume_descriptor_encode (ec_volume (v_config v)) UINT64_MAX of None \<Rightarrow> None
      | Some descriptor \<Rightarrow>
        (case sha_oneshot SL descriptor of None \<Rightarrow> None
         | Some hash \<Rightarrow>
           (let m = memcpy (manifest_body v snap) 80 hash in
            case manifest_tag SL key m of None \<Rightarrow> None
            | Some tag \<Rightarrow> Some (memcpy m 480 tag))))"

text \<open>The snapshot a manifest sector claims.\<close>

definition manifest_candidate :: "nat \<Rightarrow> u8 list \<Rightarrow> snapshot" where
  "manifest_candidate bank m =
     \<lparr>sn_generation = get m 16 8, sn_bank = bank, sn_image_bytes = unat (get m 24 4), sn_digest = span m 48 32\<rparr>"

text \<open>The loop of \<^verbatim>\<open>scan\<close>; \<open>latest\<close> is \<open>None\<close> until a manifest was found.\<close>

fun manifest_scan_loop ::
  "sha_lib \<Rightarrow> ('a, 'd, 'r) fv_vault_platform \<Rightarrow> fv_vault \<Rightarrow> nat list \<Rightarrow> snapshot option \<Rightarrow> 'd
   \<Rightarrow> fv_fido_store_result \<times> snapshot option \<times> 'd" where
  "manifest_scan_loop SL p v [] latest d = (if latest \<noteq> None then FV_FIDO_STORE_OK else FV_FIDO_STORE_CORRUPT, latest, d)"
| "manifest_scan_loop SL p v (bank # banks) latest d =
     (case blk_read (vp_sd p) d (bank_base bank) 1 of (r, m, d) \<Rightarrow>
        if r \<noteq> FV_BLOCK_OK then (FV_FIDO_STORE_IO, latest, d)
        else if get m 24 4 \<noteq> 65536 \<and> get m 24 4 \<noteq> of_nat FV_FIDO_STORE_BYTES then manifest_scan_loop SL p v banks latest d
        else
          (let candidate = manifest_candidate bank m in
           case derive SL v ''FV2/fido-manifest/v1'' bank 0 32 of None \<Rightarrow> (FV_FIDO_STORE_INVALID, latest, d)
           | Some key \<Rightarrow>
             (case encode_manifest SL v candidate key of None \<Rightarrow> (FV_FIDO_STORE_INVALID, latest, d)
              | Some canonical \<Rightarrow>
                if sn_generation candidate = 0 \<or> take 480 m \<noteq> take 480 canonical \<or>
                   \<not> fv_tag_equal (drop 480 m) (drop 480 canonical)
                then manifest_scan_loop SL p v banks latest d
                else
                  (case latest of None \<Rightarrow> manifest_scan_loop SL p v banks (Some candidate) d
                   | Some l \<Rightarrow>
                     if sn_generation candidate = sn_generation l then (FV_FIDO_STORE_CORRUPT, latest, d)
                     else manifest_scan_loop SL p v banks
                            (if sn_generation candidate > sn_generation l then Some candidate else latest) d))))"

definition scan ::
  "sha_lib \<Rightarrow> ('a, 'd, 'r) fv_vault_platform \<Rightarrow> fv_vault \<Rightarrow> 'd \<Rightarrow> fv_fido_store_result \<times> snapshot option \<times> 'd" where
  "scan SL p v d = manifest_scan_loop SL p v [0..<2] None d"

section \<open>Images\<close>

text \<open>The first blocks of the batches of an image.\<close>

definition batches :: "nat \<Rightarrow> nat list" where
  "batches sectors = map (\<lambda>i. i * BATCH) [0..<div_ceil sectors BATCH]"

definition read_error :: "fv_block_result \<Rightarrow> u64 \<Rightarrow> fv_fido_store_result" where
  "read_error br unset =
     (if br = FV_BLOCK_ERROR_INTEGRITY \<or> (br = FV_BLOCK_OK \<and> unset \<noteq> 0) then FV_FIDO_STORE_CORRUPT else FV_FIDO_STORE_IO)"

text \<open>The batch loop of \<^verbatim>\<open>read_image\<close>: \<open>sha\<close> is the running hash, \<open>output\<close> is \<open>None\<close> for a NULL output. The
  last component is the digest of a complete read.\<close>

fun read_image_loop ::
  "sha_lib \<Rightarrow> ('a, 'd, 'r) fv_vault_platform \<Rightarrow> nat list \<Rightarrow> bank_context \<Rightarrow> u8 list option \<Rightarrow> u8 list \<Rightarrow> 'd
   \<Rightarrow> fv_fido_store_result \<times> u8 list option \<times> u8 list \<times> bank_context \<times> 'd" where
  "read_image_loop SL p [] c output sha d =
     (case sha_finish SL sha of None \<Rightarrow> (FV_FIDO_STORE_IO, output, [], c, d)
      | Some digest \<Rightarrow> (FV_FIDO_STORE_OK, output, digest, c, d))"
| "read_image_loop SL p (lba # lbas) c output sha d =
     (case fv_auth_read SL (vp_sd p) lba BATCH (4, bc_scratch c) (bc_sectors c, d) of (br, scratch, unset, store, d) \<Rightarrow>
        let c = c\<lparr>bc_sectors := store, bc_scratch := scratch\<rparr> in
        if br \<noteq> FV_BLOCK_OK \<or> unset \<noteq> 0 then (read_error br unset, output, [], c, d)
        else case sha_absorb SL sha scratch of None \<Rightarrow> (FV_FIDO_STORE_IO, output, [], c, d)
        | Some sha \<Rightarrow>
          (case output of None \<Rightarrow> read_image_loop SL p lbas c output sha d
           | Some out \<Rightarrow>
             (case crypt_sectors (bc_pipeline c) False no_unset lba 4 [0..<BATCH] scratch of
                None \<Rightarrow> (FV_FIDO_STORE_IO, output, [], c, d)
              | Some plain \<Rightarrow>
                read_image_loop SL p lbas (c\<lparr>bc_scratch := plain\<rparr>) (Some (memcpy out (lba * 512) plain)) sha d)))"

definition read_image ::
  "sha_lib \<Rightarrow> ('a, 'd, 'r) fv_vault_platform \<Rightarrow> bank_context \<Rightarrow> u8 list option \<Rightarrow> 'd
   \<Rightarrow> fv_fido_store_result \<times> u8 list option \<times> u8 list \<times> bank_context \<times> 'd" where
  "read_image SL p c output d =
     (case (case sha_starts SL of None \<Rightarrow> (FV_FIDO_STORE_IO, output, [], c, d)
            | Some sha \<Rightarrow> read_image_loop SL p (batches (bc_image_sectors c)) c output sha d) of
        (r, output, digest, c, d) \<Rightarrow> (r, output, digest, c\<lparr>bc_scratch := zeros (BATCH * 512)\<rparr>, d))"

definition bind_store :: "fv_vault \<Rightarrow> snapshot \<Rightarrow> fv_fido_store" where
  "bind_store v snap =
     \<lparr>fs_descriptor = (case fv_volume_descriptor_encode (ec_volume (v_config v)) UINT64_MAX of
          None \<Rightarrow> zeros 128 | Some descriptor \<Rightarrow> descriptor),
      fs_digest = sn_digest snap, fs_credential_generation = ec_credential_generation (v_config v),
      fs_generation = sn_generation snap, fs_bank = sn_bank snap, fs_ready = True\<rparr>"

text \<open>The body of \<^verbatim>\<open>fv_fido_store_open\<close> after the authorization. The upgrade is proved to return.\<close>

definition open_snapshot ::
  "sha_lib \<Rightarrow> cipher_lib \<Rightarrow> ('a, 'd, 'r) fv_vault_platform \<Rightarrow> fv_vault \<Rightarrow> 'd
   \<Rightarrow> fv_fido_store_result \<times> fv_fido_store \<times> u8 list \<times> 'd" where
  "open_snapshot SL L p v d =
     (case scan SL p v d of (FV_FIDO_STORE_OK, Some snap, d) \<Rightarrow>
        (case bank_open SL L p v (sn_bank snap) (sn_image_bytes snap) d of
           None \<Rightarrow> (FV_FIDO_STORE_INVALID, fv_fido_store_close, zeros FV_FIDO_STORE_BYTES, d)
         | Some c \<Rightarrow>
           (case read_image SL p c (Some (zeros FV_FIDO_STORE_BYTES)) d of
              (FV_FIDO_STORE_OK, Some img, digest, c, d) \<Rightarrow>
                if \<not> fv_tag_equal digest (sn_digest snap)
                then (FV_FIDO_STORE_CORRUPT, fv_fido_store_close, zeros FV_FIDO_STORE_BYTES, d)
                else if sn_image_bytes snap = 65536
                then (case fv_fido_image_upgrade img of
                        Some (True, img) \<Rightarrow> (FV_FIDO_STORE_OK, bind_store v snap, img, d)
                      | _ \<Rightarrow> (FV_FIDO_STORE_CORRUPT, fv_fido_store_close, zeros FV_FIDO_STORE_BYTES, d))
                else (FV_FIDO_STORE_OK, bind_store v snap, img, d)
            | (r, _, _, _, d) \<Rightarrow> (r, fv_fido_store_close, zeros FV_FIDO_STORE_BYTES, d)))
      | (r, _, d) \<Rightarrow> (r, fv_fido_store_close, zeros FV_FIDO_STORE_BYTES, d))"

definition fv_fido_store_open ::
  "sha_lib \<Rightarrow> cipher_lib \<Rightarrow> ('a, 'd, 'r) fv_vault_platform \<Rightarrow> fv_vault \<Rightarrow> ('a, 'd, 'r) vault_world
   \<Rightarrow> fv_fido_store_result \<times> fv_fido_store \<times> u8 list \<times> ('a, 'd, 'r) vault_world" where
  "fv_fido_store_open SL L p v w =
     (case vault_valid p v w of
        (False, w) \<Rightarrow> (FV_FIDO_STORE_LOCKED, fv_fido_store_close, zeros FV_FIDO_STORE_BYTES, w)
      | (True, w) \<Rightarrow>
        (case open_snapshot SL L p v (w_sd w) of (r, s, img, d) \<Rightarrow> (r, s, img, w\<lparr>w_sd := d\<rparr>)))"

section \<open>Writing a snapshot\<close>

text \<open>The batch loop of \<^verbatim>\<open>write_snapshot\<close>; \<open>None\<close> in place of the digest is a failure.\<close>

fun write_image_loop ::
  "sha_lib \<Rightarrow> ('a, 'd, 'r) fv_vault_platform \<Rightarrow> nat list \<Rightarrow> u8 list \<Rightarrow> bank_context \<Rightarrow> u8 list \<Rightarrow> 'd
   \<Rightarrow> u8 list option \<times> bank_context \<times> 'd" where
  "write_image_loop SL p [] img c sha d = (sha_finish SL sha, c, d)"
| "write_image_loop SL p (lba # lbas) img c sha d =
     (case crypt_sectors (bc_pipeline c) True no_unset lba 4 [0..<BATCH] (span img (lba * 512) (BATCH * 512)) of
        None \<Rightarrow> (None, c, d)
      | Some scratch \<Rightarrow>
        (let c = c\<lparr>bc_scratch := scratch\<rparr> in
         case sha_absorb SL sha scratch of None \<Rightarrow> (None, c, d)
         | Some sha \<Rightarrow>
           (case fv_auth_write SL (vp_sd p) lba BATCH (4, scratch) (bc_sectors c, d) of (r, store, d) \<Rightarrow>
              let c = c\<lparr>bc_sectors := store\<rparr> in
              if r \<noteq> FV_BLOCK_OK then (None, c, d) else write_image_loop SL p lbas img c sha d)))"

text \<open>Write one sector and synchronize.\<close>

definition put_sector :: "('a, 'd, 'r) fv_vault_platform \<Rightarrow> nat \<Rightarrow> u8 list \<Rightarrow> 'd \<Rightarrow> bool \<times> 'd" where
  "put_sector p a m d =
     (case blk_write (vp_sd p) d a 1 m of (r, d) \<Rightarrow>
        if r \<noteq> FV_BLOCK_OK then (False, d)
        else case blk_sync (vp_sd p) d of (r, d) \<Rightarrow> (r = FV_BLOCK_OK, d))"

text \<open>The end of \<^verbatim>\<open>write_snapshot\<close>: readback of the data, then the manifest.\<close>

definition publish_snapshot ::
  "sha_lib \<Rightarrow> ('a, 'd, 'r) fv_vault_platform \<Rightarrow> fv_vault \<Rightarrow> snapshot \<Rightarrow> bank_context \<Rightarrow> 'd \<Rightarrow> fv_fido_store_result \<times> 'd" where
  "publish_snapshot SL p v snap c d =
     (case read_image SL p (c\<lparr>bc_sectors := (bc_sectors c)\<lparr>as_cache_count := 0\<rparr>\<rparr>) None d of (r, _, read_digest, c, d) \<Rightarrow>
        if r \<noteq> FV_FIDO_STORE_OK then (r, d)
        else if \<not> fv_tag_equal read_digest (sn_digest snap) then (FV_FIDO_STORE_IO, d)
        else case encode_manifest SL v snap (bc_manifest_key c) of None \<Rightarrow> (FV_FIDO_STORE_IO, d)
        | Some manifest \<Rightarrow>
          (case put_sector p (bank_base (sn_bank snap)) manifest d of (False, d) \<Rightarrow> (FV_FIDO_STORE_IO, d)
           | (True, d) \<Rightarrow>
             (case blk_read (vp_sd p) d (bank_base (sn_bank snap)) 1 of (r, verify, d) \<Rightarrow>
                (if r \<noteq> FV_BLOCK_OK \<or> manifest \<noteq> verify then FV_FIDO_STORE_IO else FV_FIDO_STORE_OK, d))))"

definition write_snapshot ::
  "sha_lib \<Rightarrow> cipher_lib \<Rightarrow> ('a, 'd, 'r) fv_vault_platform \<Rightarrow> fv_vault \<Rightarrow> snapshot \<Rightarrow> u8 list \<Rightarrow> 'd
   \<Rightarrow> fv_fido_store_result \<times> snapshot \<times> 'd" where
  "write_snapshot SL L p v snap img d =
     (case bank_open SL L p v (sn_bank snap) (sn_image_bytes snap) d of None \<Rightarrow> (FV_FIDO_STORE_INVALID, snap, d)
      | Some c \<Rightarrow>
        (case put_sector p (bank_base (sn_bank snap)) (zeros 512) d of (False, d) \<Rightarrow> (FV_FIDO_STORE_IO, snap, d)
         | (True, d) \<Rightarrow>
           (case fv_auth_format (vp_sd p) (bc_sectors c) d of (r, store, d) \<Rightarrow>
              if r \<noteq> FV_BLOCK_OK then (FV_FIDO_STORE_IO, snap, d)
              else case sha_starts SL of None \<Rightarrow> (FV_FIDO_STORE_IO, snap, d)
              | Some sha \<Rightarrow>
                (case write_image_loop SL p (batches (bc_image_sectors c)) img (c\<lparr>bc_sectors := store\<rparr>) sha d of
                   (None, c, d) \<Rightarrow> (FV_FIDO_STORE_IO, snap, d)
                 | (Some digest, c, d) \<Rightarrow>
                   (let snap = snap\<lparr>sn_digest := digest\<rparr> in
                    case blk_sync (vp_sd p) d of (r, d) \<Rightarrow>
                      if r \<noteq> FV_BLOCK_OK then (FV_FIDO_STORE_IO, snap, d)
                      else case publish_snapshot SL p v snap c d of (r, d) \<Rightarrow> (r, snap, d))))))"

fun erase_manifests :: "('a, 'd, 'r) fv_vault_platform \<Rightarrow> nat list \<Rightarrow> 'd \<Rightarrow> bool \<times> 'd" where
  "erase_manifests p [] d = (case blk_sync (vp_sd p) d of (r, d) \<Rightarrow> (r = FV_BLOCK_OK, d))"
| "erase_manifests p (bank # banks) d =
     (case blk_write (vp_sd p) d (bank_base bank) 1 (zeros 512) of (r, d) \<Rightarrow>
        if r \<noteq> FV_BLOCK_OK then (False, d) else erase_manifests p banks d)"

text \<open>The store is bound when the caller asked for it; the image is all ones, or wiped on failure.\<close>

definition initialize_image ::
  "sha_lib \<Rightarrow> cipher_lib \<Rightarrow> ('a, 'd, 'r) fv_vault_platform \<Rightarrow> fv_vault \<Rightarrow> 'd
   \<Rightarrow> fv_fido_store_result \<times> fv_fido_store \<times> u8 list \<times> 'd" where
  "initialize_image SL L p v d =
     (case erase_manifests p [0..<2] d of
        (False, d) \<Rightarrow> (FV_FIDO_STORE_IO, fv_fido_store_close, zeros FV_FIDO_STORE_BYTES, d)
      | (True, d) \<Rightarrow>
        (let img = replicate FV_FIDO_STORE_BYTES 255;
             snap = \<lparr>sn_generation = 1, sn_bank = 0, sn_image_bytes = FV_FIDO_STORE_BYTES, sn_digest = zeros 32\<rparr>
         in case write_snapshot SL L p v snap img d of (r, snap, d) \<Rightarrow>
              if r = FV_FIDO_STORE_OK then (r, bind_store v snap, img, d)
              else (r, fv_fido_store_close, zeros FV_FIDO_STORE_BYTES, d)))"

definition fv_fido_store_initialize ::
  "sha_lib \<Rightarrow> cipher_lib \<Rightarrow> ('a, 'd, 'r) fv_vault_platform \<Rightarrow> fv_vault \<Rightarrow> bool \<Rightarrow> ('a, 'd, 'r) vault_world
   \<Rightarrow> fv_fido_store_result \<times> fv_fido_store \<times> u8 list \<times> ('a, 'd, 'r) vault_world" where
  "fv_fido_store_initialize SL L p v confirmed w =
     (if \<not> confirmed then (FV_FIDO_STORE_INVALID, fv_fido_store_close, zeros FV_FIDO_STORE_BYTES, w)
      else case vault_valid p v w of
        (False, w) \<Rightarrow> (FV_FIDO_STORE_LOCKED, fv_fido_store_close, zeros FV_FIDO_STORE_BYTES, w)
      | (True, w) \<Rightarrow>
        (case initialize_image SL L p v (w_sd w) of (r, s, img, d) \<Rightarrow> (r, s, img, w\<lparr>w_sd := d\<rparr>)))"

text \<open>The creation session, before the activation of the device: the state is EMPTY.\<close>

definition creation_valid ::
  "('a, 'd, 'r) fv_vault_platform \<Rightarrow> fv_vault \<Rightarrow> ('a, 'd, 'r) vault_world \<Rightarrow> bool \<times> ('a, 'd, 'r) vault_world" where
  "creation_valid p v w =
     (if \<not> vault_usable p v w then (False, w)
      else case vault_load p w of (None, w) \<Rightarrow> (False, w)
      | (Some state, w) \<Rightarrow>
        (ds_status state = FV_ENROLLMENT_EMPTY \<and> \<not> ds_attempt_pending state \<and> ds_attempts state = 0 \<and>
         ds_credential_generation state = 0 \<and> ec_credential_generation (v_config v) = 1 \<and>
         ds_token_slot state = ec_token_slot (v_config v) \<and> ds_device_id state = ec_device_id (v_config v), w))"

definition fv_fido_store_prepare_new ::
  "sha_lib \<Rightarrow> cipher_lib \<Rightarrow> ('a, 'd, 'r) fv_vault_platform \<Rightarrow> fv_vault \<Rightarrow> ('a, 'd, 'r) vault_world
   \<Rightarrow> fv_fido_store_result \<times> u8 list \<times> ('a, 'd, 'r) vault_world" where
  "fv_fido_store_prepare_new SL L p v w =
     (case creation_valid p v w of (False, w) \<Rightarrow> (FV_FIDO_STORE_LOCKED, zeros FV_FIDO_STORE_BYTES, w)
      | (True, w) \<Rightarrow>
        (case initialize_image SL L p v (w_sd w) of (r, _, _, d) \<Rightarrow> (r, zeros FV_FIDO_STORE_BYTES, w\<lparr>w_sd := d\<rparr>)))"

definition commit_snapshot ::
  "sha_lib \<Rightarrow> cipher_lib \<Rightarrow> ('a, 'd, 'r) fv_vault_platform \<Rightarrow> fv_vault \<Rightarrow> fv_fido_store \<Rightarrow> u8 list \<Rightarrow> 'd
   \<Rightarrow> fv_fido_store_result \<times> fv_fido_store \<times> 'd" where
  "commit_snapshot SL L p v s img d =
     (case scan SL p v d of (FV_FIDO_STORE_OK, Some current, d) \<Rightarrow>
        if sn_generation current \<noteq> fs_generation s \<or> sn_bank current \<noteq> fs_bank s \<or>
           \<not> fv_tag_equal (sn_digest current) (fs_digest s) \<or> sn_generation current = UINT64_MAX
        then (FV_FIDO_STORE_STALE, fv_fido_store_close, d)
        else
          (let nxt = \<lparr>sn_generation = sn_generation current + 1, sn_bank = sn_bank current XOR 1,
                      sn_image_bytes = FV_FIDO_STORE_BYTES, sn_digest = zeros 32\<rparr>
           in case write_snapshot SL L p v nxt img d of (r, nxt, d) \<Rightarrow>
                (r, if r = FV_FIDO_STORE_OK then bind_store v nxt else fv_fido_store_close, d))
      | (r, _, d) \<Rightarrow> (r, fv_fido_store_close, d))"

definition fv_fido_store_commit ::
  "sha_lib \<Rightarrow> cipher_lib \<Rightarrow> ('a, 'd, 'r) fv_vault_platform \<Rightarrow> fv_vault \<Rightarrow> fv_fido_store \<Rightarrow> u8 list \<Rightarrow> ('a, 'd, 'r) vault_world
   \<Rightarrow> fv_fido_store_result \<times> fv_fido_store \<times> ('a, 'd, 'r) vault_world" where
  "fv_fido_store_commit SL L p v s img w =
     (case authorized p v s w of (False, w) \<Rightarrow> (FV_FIDO_STORE_LOCKED, fv_fido_store_close, w)
      | (True, w) \<Rightarrow>
        (case commit_snapshot SL L p v s img (w_sd w) of (r, s, d) \<Rightarrow> (r, s, w\<lparr>w_sd := d\<rparr>)))"

end
