(* ===== verification/Fido_Journal.thy ===== *)
theory Fido_Journal
  imports Fido_Store
begin

text \<open>
  The passkey journal (\<^verbatim>\<open>src/src/shared/fido/store.c\<close>, second half): a passkey disk of 824 KiB in an
  authenticated store over an overlay device. Writes go to a redo journal of at most 128 sectors; a
  commit publishes the journal with a control record of the next sequence number, copies it to the
  home sectors and publishes a clean record. The control records alternate between two sectors. The
  journal object's pointer to its vault is the vault argument. The overlay device has the journal
  object as its context, so its state is the object together with the card; it never touches the
  object's own authenticated store, which its client keeps. A result 0 is \<open>True\<close>. Addresses are natural
  numbers below 2048. The content of a buffer after a failed read is not used by any caller; it is zero
  in the model.
\<close>

definition FV_FIDO_DISK_BYTES :: nat where "FV_FIDO_DISK_BYTES = 824 * 1024"
definition FV_FIDO_JOURNAL_ENTRIES :: nat where "FV_FIDO_JOURNAL_ENTRIES = 128"

definition J_DATA :: nat where "J_DATA = 1648"
definition J_META :: nat where "J_META = 110"
definition J_HOME :: nat where "J_HOME = 1758"
definition J_START :: nat where "J_START = 1758"
definition J_CONTROL :: nat where "J_CONTROL = 2046"
definition J_CLEAN :: nat where "J_CLEAN = 0"
definition J_READY :: nat where "J_READY = 1"
definition J_RESET :: nat where "J_RESET = 2"
definition J_MIGRATE :: nat where "J_MIGRATE = 3"

lemmas journal_layout = J_DATA_def J_META_def J_HOME_def J_START_def J_CONTROL_def
lemmas journal_states = J_CLEAN_def J_READY_def J_RESET_def J_MIGRATE_def

record fv_fido_journal =
  fj_descriptor :: "u8 list"
  fj_credential_generation :: u64
  fj_sequence :: u64
  fj_targets :: "nat list"
  fj_count :: nat
  fj_pipeline :: fv_pipeline
  fj_auth :: fv_auth_store
  fj_journal_mac :: fv_hmac
  fj_cache :: "u8 list list"
  fj_cache_lba :: "nat list"
  fj_cache_valid :: u8
  fj_ready :: bool
  fj_recovering :: bool
  fj_creating :: bool

record j_control =
  jc_seq :: u64
  jc_state :: nat
  jc_count :: nat
  jc_old_bank :: nat
  jc_old_bytes :: nat
  jc_policy :: int
  jc_digest :: "u8 list"

definition clean_control :: j_control where
  "clean_control = \<lparr>jc_seq = 0, jc_state = J_CLEAN, jc_count = 0, jc_old_bank = 0, jc_old_bytes = 0, jc_policy = -1,
     jc_digest = zeros 32\<rparr>"

definition fv_fido_journal_close :: fv_fido_journal where
  "fv_fido_journal_close = \<lparr>fj_descriptor = zeros 128, fj_credential_generation = 0, fj_sequence = 0,
     fj_targets = replicate FV_FIDO_JOURNAL_ENTRIES 0, fj_count = 0, fj_pipeline = fv_pipeline_clear, fj_auth = fv_auth_close,
     fj_journal_mac = cleared_hmac, fj_cache = replicate 8 (zeros 512), fj_cache_lba = replicate 8 0, fj_cache_valid = 0,
     fj_ready = False, fj_recovering = False, fj_creating = False\<rparr>"

definition j_fail :: "fv_fido_journal \<Rightarrow> fv_fido_journal" where
  "j_fail s = s\<lparr>fj_ready := False\<rparr>"

section \<open>Sectors of the region\<close>

definition j_read :: "('a, 'd, 'r) fv_vault_platform \<Rightarrow> nat \<Rightarrow> 'd \<Rightarrow> u8 list option \<times> 'd" where
  "j_read p lba d =
     (case blk_read (vp_sd p) d (FV_FIDO_REGION_BASE + lba) 1 of (r, m, d) \<Rightarrow> (if r = FV_BLOCK_OK then Some m else None, d))"

definition j_write :: "('a, 'd, 'r) fv_vault_platform \<Rightarrow> nat \<Rightarrow> u8 list \<Rightarrow> 'd \<Rightarrow> bool \<times> 'd" where
  "j_write p lba m d = (case blk_write (vp_sd p) d (FV_FIDO_REGION_BASE + lba) 1 m of (r, d) \<Rightarrow> (r = FV_BLOCK_OK, d))"

definition j_sync :: "('a, 'd, 'r) fv_vault_platform \<Rightarrow> 'd \<Rightarrow> bool \<times> 'd" where
  "j_sync p d = (case blk_sync (vp_sd p) d of (r, d) \<Rightarrow> (r = FV_BLOCK_OK, d))"

definition j_authorized ::
  "('a, 'd, 'r) fv_vault_platform \<Rightarrow> fv_vault \<Rightarrow> fv_fido_journal \<Rightarrow> ('a, 'd, 'r) vault_world \<Rightarrow> bool \<times> ('a, 'd, 'r) vault_world" where
  "j_authorized p v s w =
     (if \<not> fj_ready s then (False, w)
      else case (if fj_creating s then (True, w) else vault_valid p v w) of (ok, w) \<Rightarrow>
        (ok \<and> fj_credential_generation s = ec_credential_generation (v_config v) \<and>
         fv_volume_descriptor_encode (ec_volume (v_config v)) UINT64_MAX = Some (fj_descriptor s), w))"

section \<open>Control records\<close>

definition control_decode :: "u8 list \<Rightarrow> j_control" where
  "control_decode m = \<lparr>jc_seq = get m 16 8, jc_state = unat (get m 24 4), jc_count = unat (get m 28 4),
     jc_old_bank = unat (get m 32 4), jc_old_bytes = unat (get m 36 4), jc_policy = uint (m ! 40) - 1,
     jc_digest = span m 48 32\<rparr>"

definition control_ok :: "nat \<Rightarrow> j_control \<Rightarrow> bool" where
  "control_ok i c \<longleftrightarrow> \<not> (jc_seq c = 0 \<or> jc_seq c mod 2 \<noteq> of_nat i \<or> jc_state c > J_MIGRATE \<or> jc_count c > 128 \<or> jc_policy c > 1 \<or>
     (jc_state c = J_MIGRATE \<and> (jc_old_bank c > 1 \<or> (jc_old_bytes c \<noteq> 65536 \<and> jc_old_bytes c \<noteq> 131072))))"

text \<open>The loop of \<^verbatim>\<open>j_control_scan\<close>: \<open>None\<close> is an error, \<open>Some None\<close> no record.\<close>

fun control_scan_loop ::
  "sha_lib \<Rightarrow> ('a, 'd, 'r) fv_vault_platform \<Rightarrow> fv_fido_journal \<Rightarrow> nat list \<Rightarrow> j_control option \<Rightarrow> 'd
   \<Rightarrow> j_control option option \<times> 'd" where
  "control_scan_loop SL p s [] found d = (Some found, d)"
| "control_scan_loop SL p s (i # is) found d =
     (case j_read p (J_CONTROL + i) d of (None, d) \<Rightarrow> (None, d)
      | (Some m, d) \<Rightarrow>
        if take 8 m \<noteq> label ''FV3JCTL'' \<or> get m 8 4 \<noteq> 3 then control_scan_loop SL p s is found d
        else case fv_hmac_compute SL (fj_journal_mac s) (take 480 m) [] of None \<Rightarrow> (None, d)
        | Some tag \<Rightarrow>
          if \<not> fv_tag_equal tag (drop 480 m) then control_scan_loop SL p s is found d
          else
            (let c = control_decode m in
             if \<not> control_ok i c then (None, d)
             else control_scan_loop SL p s is
                    (case found of None \<Rightarrow> Some c | Some best \<Rightarrow> if jc_seq c > jc_seq best then Some c else found) d))"

definition j_control_scan ::
  "sha_lib \<Rightarrow> ('a, 'd, 'r) fv_vault_platform \<Rightarrow> fv_fido_journal \<Rightarrow> 'd \<Rightarrow> j_control option option \<times> 'd" where
  "j_control_scan SL p s d = control_scan_loop SL p s [0..<2] None d"

definition control_encode :: "j_control \<Rightarrow> u8 list" where
  "control_encode c =
     (let m = memcpy (zeros 512) 0 (label ''FV3JCTL'');
          m = put m 8 (3 :: u32) 4;
          m = put m 16 (jc_seq c) 8;
          m = put m 24 (of_nat (jc_state c) :: u32) 4;
          m = put m 28 (of_nat (jc_count c) :: u32) 4;
          m = put m 32 (of_nat (jc_old_bank c) :: u32) 4;
          m = put m 36 (of_nat (jc_old_bytes c) :: u32) 4;
          m = m[40 := of_int (jc_policy c + 1)]
      in memcpy m 48 (jc_digest c))"

definition j_control_write ::
  "sha_lib \<Rightarrow> ('a, 'd, 'r) fv_vault_platform \<Rightarrow> j_control \<Rightarrow> fv_fido_journal \<Rightarrow> 'd
   \<Rightarrow> bool \<times> j_control \<times> fv_fido_journal \<times> 'd" where
  "j_control_write SL p c s d =
     (if fj_sequence s = UINT64_MAX then (False, c, s, d)
      else
        (let c = c\<lparr>jc_seq := fj_sequence s + 1\<rparr>; m = control_encode c; a = J_CONTROL + unat (jc_seq c mod 2) in
         case fv_hmac_compute SL (fj_journal_mac s) (take 480 m) [] of None \<Rightarrow> (False, c, s, d)
         | Some tag \<Rightarrow>
           (let m = memcpy m 480 tag in
            case j_write p a m d of (False, d) \<Rightarrow> (False, c, s, d)
            | (True, d) \<Rightarrow>
              (case j_sync p d of (False, d) \<Rightarrow> (False, c, s, d)
               | (True, d) \<Rightarrow>
                 (case j_read p a d of (None, d) \<Rightarrow> (False, c, s, d)
                  | (Some check, d) \<Rightarrow>
                    if m \<noteq> check then (False, c, s, d) else (True, c, s\<lparr>fj_sequence := jc_seq c\<rparr>, d))))))"

text \<open>The journal is the one that was opened: its control record is current and clean.\<close>

definition journal_current ::
  "sha_lib \<Rightarrow> ('a, 'd, 'r) fv_vault_platform \<Rightarrow> fv_fido_journal \<Rightarrow> 'd \<Rightarrow> bool \<times> 'd" where
  "journal_current SL p s d =
     (case j_control_scan SL p s d of (c, d) \<Rightarrow>
        ((case c of Some (Some c) \<Rightarrow> jc_seq c = fj_sequence s \<and> jc_state c = J_CLEAN | _ \<Rightarrow> False), d))"

section \<open>Journal entries and the overlay device\<close>

text \<open>Result: the target, the payload and the header of an entry.\<close>

definition j_entry_read ::
  "sha_lib \<Rightarrow> ('a, 'd, 'r) fv_vault_platform \<Rightarrow> fv_fido_journal \<Rightarrow> nat \<Rightarrow> u64 \<Rightarrow> 'd
   \<Rightarrow> (nat \<times> u8 list \<times> u8 list) option \<times> 'd" where
  "j_entry_read SL p s k seq d =
     (if k \<ge> 128 then (None, d)
      else case j_read p (J_START + k * 2) d of (None, d) \<Rightarrow> (None, d)
      | (Some header, d) \<Rightarrow>
        (case j_read p (J_START + k * 2 + 1) d of (None, d) \<Rightarrow> (None, d)
         | (Some payload, d) \<Rightarrow>
           (let target = unat (get header 24 4) in
            if take 8 header \<noteq> label ''FV3JREC'' \<or> get header 8 8 \<noteq> seq \<or> get header 16 4 \<noteq> of_nat k \<or> target \<ge> J_HOME
            then (None, d)
            else case fv_hmac_compute SL (fj_journal_mac s) (take 480 header) payload of None \<Rightarrow> (None, d)
            | Some tag \<Rightarrow> (if fv_tag_equal tag (drop 480 header) then Some (target, payload, header) else None, d))))"

text \<open>The search for the entry of a sector; the count when there is none.\<close>

definition j_slot :: "fv_fido_journal \<Rightarrow> nat \<Rightarrow> nat" where
  "j_slot s x = length (takeWhile (\<lambda>t. t \<noteq> x) (take (fj_count s) (fj_targets s)))"

fun overlay_read_loop ::
  "sha_lib \<Rightarrow> ('a, 'd, 'r) fv_vault_platform \<Rightarrow> fv_fido_journal \<Rightarrow> nat list \<Rightarrow> 'd \<Rightarrow> u8 list option \<times> 'd" where
  "overlay_read_loop SL p s [] d = (Some [], d)"
| "overlay_read_loop SL p s (x # xs) d =
     (let k = j_slot s x in
      case (if k < fj_count s
            then (case j_entry_read SL p s k (fj_sequence s + 1) d of (None, d) \<Rightarrow> (None, d)
                  | (Some (target, payload, header), d) \<Rightarrow> (if target \<noteq> x then None else Some payload, d))
            else j_read p x d) of
        (None, d) \<Rightarrow> (None, d)
      | (Some m, d) \<Rightarrow>
        (case overlay_read_loop SL p s xs d of (None, d) \<Rightarrow> (None, d) | (Some ms, d) \<Rightarrow> (Some (m @ ms), d)))"

definition j_overlay_read ::
  "sha_lib \<Rightarrow> ('a, 'd, 'r) fv_vault_platform \<Rightarrow> fv_fido_journal \<times> 'd \<Rightarrow> nat \<Rightarrow> nat
   \<Rightarrow> fv_block_result \<times> u8 list \<times> fv_fido_journal \<times> 'd" where
  "j_overlay_read SL p = (\<lambda>(s, d) lba n.
     if lba > J_HOME \<or> n > J_HOME - lba then (FV_BLOCK_ERROR_OUT_OF_RANGE, zeros (n * 512), s, d)
     else if fj_count s = 0
     then (case blk_read (vp_sd p) d (FV_FIDO_REGION_BASE + lba) n of (r, m, d) \<Rightarrow> (r, m, s, d))
     else case overlay_read_loop SL p s [lba..<lba + n] d of
       (None, d) \<Rightarrow> (FV_BLOCK_ERROR_IO, zeros (n * 512), s, d)
     | (Some m, d) \<Rightarrow> (FV_BLOCK_OK, m, s, d))"

definition entry_header :: "u64 \<Rightarrow> nat \<Rightarrow> nat \<Rightarrow> u8 list" where
  "entry_header seq k x =
     (let h = memcpy (zeros 512) 0 (label ''FV3JREC'');
          h = put h 8 seq 8;
          h = put h 16 (of_nat k :: u32) 4
      in put h 24 (of_nat x :: u32) 4)"

fun overlay_write_loop ::
  "sha_lib \<Rightarrow> ('a, 'd, 'r) fv_vault_platform \<Rightarrow> nat list \<Rightarrow> u8 list \<Rightarrow> fv_fido_journal \<Rightarrow> 'd \<Rightarrow> bool \<times> fv_fido_journal \<times> 'd" where
  "overlay_write_loop SL p [] data s d = (True, s, d)"
| "overlay_write_loop SL p (x # xs) data s d =
     (let k = j_slot s x; m = take 512 data in
      if k = 128 \<or> fj_sequence s = UINT64_MAX then (False, s, d)
      else
        (let h = entry_header (fj_sequence s + 1) k x in
         case fv_hmac_compute SL (fj_journal_mac s) (take 480 h) m of None \<Rightarrow> (False, s, d)
         | Some tag \<Rightarrow>
           (case j_write p (J_START + k * 2 + 1) m d of (False, d) \<Rightarrow> (False, s, d)
            | (True, d) \<Rightarrow>
              (case j_write p (J_START + k * 2) (memcpy h 480 tag) d of (False, d) \<Rightarrow> (False, s, d)
               | (True, d) \<Rightarrow>
                 overlay_write_loop SL p xs (drop 512 data)
                   (s\<lparr>fj_targets := (fj_targets s)[k := x], fj_count := (if k = fj_count s then Suc (fj_count s) else fj_count s)\<rparr>) d))))"

definition j_overlay_write ::
  "sha_lib \<Rightarrow> ('a, 'd, 'r) fv_vault_platform \<Rightarrow> fv_fido_journal \<times> 'd \<Rightarrow> nat \<Rightarrow> nat \<Rightarrow> u8 list
   \<Rightarrow> fv_block_result \<times> fv_fido_journal \<times> 'd" where
  "j_overlay_write SL p = (\<lambda>(s, d) lba n data.
     if lba > J_HOME \<or> n > J_HOME - lba then (FV_BLOCK_ERROR_OUT_OF_RANGE, s, d)
     else if fj_recovering s
     then (case blk_write (vp_sd p) d (FV_FIDO_REGION_BASE + lba) n data of (r, d) \<Rightarrow> (r, s, d))
     else case (if fj_count s = 0 then journal_current SL p s d else (True, d)) of
       (False, d) \<Rightarrow> (FV_BLOCK_ERROR_IO, s, d)
     | (True, d) \<Rightarrow>
       (case overlay_write_loop SL p [lba..<lba + n] data s d of (ok, s, d) \<Rightarrow>
          (if ok then FV_BLOCK_OK else FV_BLOCK_ERROR_IO, s, d)))"

definition j_overlay_sync where
  "j_overlay_sync p = (\<lambda>(s, d). case j_sync p d of (ok, d) \<Rightarrow> (if ok then FV_BLOCK_OK else FV_BLOCK_ERROR_IO, s, d))"

definition j_ops ::
  "sha_lib \<Rightarrow> ('a, 'd, 'r) fv_vault_platform \<Rightarrow> (fv_fido_journal \<times> 'd) fv_block_device_ops" where
  "j_ops SL p = \<lparr>blk_read = j_overlay_read SL p, blk_write = j_overlay_write SL p, blk_sync = j_overlay_sync p,
     blk_count = (\<lambda>_. J_HOME), blk_present = (\<lambda>(s, d). blk_present (vp_sd p) d)\<rparr>"

section \<open>Binding\<close>

definition j_bind ::
  "sha_lib \<Rightarrow> cipher_lib \<Rightarrow> ('a, 'd, 'r) fv_vault_platform \<Rightarrow> fv_vault \<Rightarrow> 'd \<Rightarrow> fv_fido_journal option" where
  "j_bind SL L p v d =
     (let vol = ec_volume (v_config v); cnt = unat (layer_count vol) in
      case fv_volume_descriptor_encode vol UINT64_MAX of None \<Rightarrow> None
      | Some descriptor \<Rightarrow>
        (case fido_layers SL v ''FV3/fido-xts'' 0 [0..<cnt] (replicate 4 (zeros 64)) of None \<Rightarrow> None
         | Some keys \<Rightarrow>
           (case fv_pipeline_init L (session_algorithms vol) keys cnt of (pipeline, st) \<Rightarrow>
              if st \<noteq> FV_OK then None
              else case derive SL v ''FV3/fido-sector'' 0 0 32 of None \<Rightarrow> None
              | Some key \<Rightarrow>
                (let s = fv_fido_journal_close\<lparr>fj_descriptor := descriptor,
                       fj_credential_generation := ec_credential_generation (v_config v), fj_pipeline := pipeline\<rparr>
                 in case fv_auth_open SL (j_ops SL p) (s, d) 0 J_DATA (volume_id vol) key of (r, store) \<Rightarrow>
                      if r \<noteq> FV_BLOCK_OK then None
                      else case derive SL v ''FV3/fido-journal'' 0 0 32 of None \<Rightarrow> None
                      | Some key \<Rightarrow>
                        (case fv_hmac_init SL key of None \<Rightarrow> None
                         | Some mac \<Rightarrow> Some (s\<lparr>fj_auth := store, fj_journal_mac := mac, fj_ready := True\<rparr>))))))"

section \<open>Bytes of the passkey disk\<close>

definition j_sector_write ::
  "sha_lib \<Rightarrow> ('a, 'd, 'r) fv_vault_platform \<Rightarrow> nat \<Rightarrow> u8 list \<Rightarrow> fv_fido_journal \<Rightarrow> 'd \<Rightarrow> bool \<times> fv_fido_journal \<times> 'd" where
  "j_sector_write SL p lba buf s d =
     (let s = s\<lparr>fj_cache_valid := fj_cache_valid s AND NOT (push_bit (lba mod 8) 1)\<rparr> in
      case fv_pipeline_encrypt (fj_pipeline s) (of_nat lba) (4, buf) (4, buf) of (st, ct) \<Rightarrow>
        if st \<noteq> FV_OK then (False, s, d)
        else case fv_auth_write SL (j_ops SL p) lba 1 (4, ct) (fj_auth s, s, d) of (r, store, s, d) \<Rightarrow>
          (r = FV_BLOCK_OK, s\<lparr>fj_auth := store\<rparr>, d))"

definition j_sector_read ::
  "sha_lib \<Rightarrow> ('a, 'd, 'r) fv_vault_platform \<Rightarrow> nat \<Rightarrow> fv_fido_journal \<Rightarrow> 'd \<Rightarrow> u8 list option \<times> fv_fido_journal \<times> 'd" where
  "j_sector_read SL p lba s d =
     (let k = lba mod 8 in
      if bit (fj_cache_valid s) k \<and> fj_cache_lba s ! k = lba then (Some (fj_cache s ! k), s, d)
      else case fv_auth_read SL (j_ops SL p) lba 1 (4, zeros 512) (fj_auth s, s, d) of (r, ct, unset, store, s, d) \<Rightarrow>
        let s = s\<lparr>fj_auth := store\<rparr> in
        if r \<noteq> FV_BLOCK_OK \<or> unset \<noteq> 0 then (None, s, d)
        else case fv_pipeline_decrypt (fj_pipeline s) (of_nat lba) (4, ct) (4, ct) of (st, m) \<Rightarrow>
          if st \<noteq> FV_OK then (None, s, d)
          else (Some m, s\<lparr>fj_cache := (fj_cache s)[k := m], fj_cache_lba := (fj_cache_lba s)[k := lba],
                         fj_cache_valid := fj_cache_valid s OR push_bit k 1\<rparr>, d))"

text \<open>The loop of \<^verbatim>\<open>j_access\<close>: \<open>inp\<close> is \<open>None\<close> for a read, whose bytes are the second result.\<close>

function j_access_loop ::
  "sha_lib \<Rightarrow> ('a, 'd, 'r) fv_vault_platform \<Rightarrow> nat \<Rightarrow> u8 list option \<Rightarrow> nat \<Rightarrow> fv_fido_journal \<Rightarrow> 'd
   \<Rightarrow> bool \<times> u8 list \<times> fv_fido_journal \<times> 'd" where
  "j_access_loop SL p offset inp n s d =
     (if n = 0 then (True, [], s, d)
      else
        (let lba = offset div 512; at = offset mod 512; len = min (512 - at) n in
         case j_sector_read SL p lba s d of (None, s, d) \<Rightarrow> (False, [], s, d)
         | (Some m, s, d) \<Rightarrow>
           (case (case inp of None \<Rightarrow> (True, s, d)
                  | Some bytes \<Rightarrow> j_sector_write SL p lba (memcpy m at (take len bytes)) s d) of
              (False, s, d) \<Rightarrow> (False, [], s, d)
            | (True, s, d) \<Rightarrow>
              (case j_access_loop SL p (offset + len) (map_option (drop len) inp) (n - len) s d of
                 (ok, out, s, d) \<Rightarrow> (ok, (if inp = None then span m at len else []) @ out, s, d)))))"
  by pat_completeness auto
termination
  by (relation "measure (\<lambda>(SL, p, offset, inp, n, s, d). n)") (auto simp: min_def)

declare j_access_loop.simps [simp del]

definition j_access ::
  "sha_lib \<Rightarrow> ('a, 'd, 'r) fv_vault_platform \<Rightarrow> fv_vault \<Rightarrow> nat \<Rightarrow> u8 list option \<Rightarrow> nat
   \<Rightarrow> fv_fido_journal \<Rightarrow> ('a, 'd, 'r) vault_world \<Rightarrow> bool \<times> u8 list \<times> fv_fido_journal \<times> ('a, 'd, 'r) vault_world" where
  "j_access SL p v offset inp n s w =
     (case j_authorized p v s w of (ok, w) \<Rightarrow>
        if \<not> ok \<or> offset > FV_FIDO_DISK_BYTES \<or> n > FV_FIDO_DISK_BYTES - offset then (False, [], j_fail s, w)
        else case j_access_loop SL p offset inp n s (w_sd w) of (ok, out, s, d) \<Rightarrow>
          (ok, out, if ok then s else j_fail s, w\<lparr>w_sd := d\<rparr>))"

definition fv_fido_journal_read where
  "fv_fido_journal_read SL p v offset n s w =
     (case j_access SL p v offset None n s w of (ok, out, s, w) \<Rightarrow> (ok, if ok then out else zeros n, s, w))"

definition fv_fido_journal_write where
  "fv_fido_journal_write SL p v offset data s w =
     (case j_access SL p v offset (Some data) (length data) s w of (ok, out, s, w) \<Rightarrow> (ok, s, w))"

section \<open>Commit\<close>

fun digest_loop ::
  "sha_lib \<Rightarrow> ('a, 'd, 'r) fv_vault_platform \<Rightarrow> fv_fido_journal \<Rightarrow> u64 \<Rightarrow> nat list \<Rightarrow> nat list \<Rightarrow> u8 list \<Rightarrow> 'd
   \<Rightarrow> u8 list option \<times> 'd" where
  "digest_loop SL p s seq [] seen sha d = (sha_finish SL sha, d)"
| "digest_loop SL p s seq (i # is) seen sha d =
     (case j_entry_read SL p s i seq d of (None, d) \<Rightarrow> (None, d)
      | (Some (target, payload, header), d) \<Rightarrow>
        if target \<in> set seen then (None, d)
        else case sha_absorb SL sha header of None \<Rightarrow> (None, d)
        | Some sha \<Rightarrow>
          (case sha_absorb SL sha payload of None \<Rightarrow> (None, d)
           | Some sha \<Rightarrow> digest_loop SL p s seq is (seen @ [target]) sha d))"

definition j_digest ::
  "sha_lib \<Rightarrow> ('a, 'd, 'r) fv_vault_platform \<Rightarrow> fv_fido_journal \<Rightarrow> j_control \<Rightarrow> 'd \<Rightarrow> u8 list option \<times> 'd" where
  "j_digest SL p s c d =
     (case sha_starts SL of None \<Rightarrow> (None, d) | Some sha \<Rightarrow> digest_loop SL p s (jc_seq c) [0..<jc_count c] [] sha d)"

text \<open>The two passes of \<^verbatim>\<open>j_replay\<close>: copying the entries home, and verifying them there.\<close>

fun replay_write ::
  "sha_lib \<Rightarrow> ('a, 'd, 'r) fv_vault_platform \<Rightarrow> fv_fido_journal \<Rightarrow> u64 \<Rightarrow> nat list \<Rightarrow> 'd \<Rightarrow> bool \<times> 'd" where
  "replay_write SL p s seq [] d = (True, d)"
| "replay_write SL p s seq (i # is) d =
     (case j_entry_read SL p s i seq d of (None, d) \<Rightarrow> (False, d)
      | (Some (target, payload, header), d) \<Rightarrow>
        (case j_write p target payload d of (False, d) \<Rightarrow> (False, d)
         | (True, d) \<Rightarrow> replay_write SL p s seq is d))"

fun replay_verify ::
  "sha_lib \<Rightarrow> ('a, 'd, 'r) fv_vault_platform \<Rightarrow> fv_fido_journal \<Rightarrow> u64 \<Rightarrow> nat list \<Rightarrow> 'd \<Rightarrow> bool \<times> 'd" where
  "replay_verify SL p s seq [] d = (True, d)"
| "replay_verify SL p s seq (i # is) d =
     (case j_entry_read SL p s i seq d of (None, d) \<Rightarrow> (False, d)
      | (Some (target, payload, header), d) \<Rightarrow>
        (case j_read p target d of (None, d) \<Rightarrow> (False, d)
         | (Some check, d) \<Rightarrow> if payload \<noteq> check then (False, d) else replay_verify SL p s seq is d))"

definition j_replay ::
  "sha_lib \<Rightarrow> ('a, 'd, 'r) fv_vault_platform \<Rightarrow> j_control \<Rightarrow> fv_fido_journal \<Rightarrow> 'd \<Rightarrow> bool \<times> fv_fido_journal \<times> 'd" where
  "j_replay SL p c s d =
     (case j_digest SL p s c d of (None, d) \<Rightarrow> (False, s, d)
      | (Some digest, d) \<Rightarrow>
        if \<not> fv_tag_equal digest (jc_digest c) then (False, s, d)
        else case replay_write SL p s (jc_seq c) [0..<jc_count c] d of (False, d) \<Rightarrow> (False, s, d)
        | (True, d) \<Rightarrow>
          (case j_sync p d of (False, d) \<Rightarrow> (False, s, d)
           | (True, d) \<Rightarrow>
             (case replay_verify SL p s (jc_seq c) [0..<jc_count c] d of (False, d) \<Rightarrow> (False, s, d)
              | (True, d) \<Rightarrow>
                (case j_control_write SL p clean_control s d of (False, _, s, d) \<Rightarrow> (False, s, d)
                 | (True, _, s, d) \<Rightarrow>
                   (True, s\<lparr>fj_count := 0, fj_auth := (fj_auth s)\<lparr>as_cache_count := 0\<rparr>\<rparr>, d)))))"

definition publish_journal ::
  "sha_lib \<Rightarrow> ('a, 'd, 'r) fv_vault_platform \<Rightarrow> fv_fido_journal \<Rightarrow> 'd \<Rightarrow> bool \<times> fv_fido_journal \<times> 'd" where
  "publish_journal SL p s d =
     (let c = clean_control\<lparr>jc_seq := fj_sequence s + 1, jc_state := J_READY, jc_count := fj_count s\<rparr> in
      case j_sync p d of (False, d) \<Rightarrow> (False, s, d)
      | (True, d) \<Rightarrow>
        (case j_digest SL p s c d of (None, d) \<Rightarrow> (False, s, d)
         | (Some digest, d) \<Rightarrow>
           (case j_control_write SL p (c\<lparr>jc_digest := digest\<rparr>) s d of (False, c, s, d) \<Rightarrow> (False, s, d)
            | (True, c, s, d) \<Rightarrow> j_replay SL p c s d)))"

definition fv_fido_journal_commit ::
  "sha_lib \<Rightarrow> ('a, 'd, 'r) fv_vault_platform \<Rightarrow> fv_vault \<Rightarrow> fv_fido_journal \<Rightarrow> ('a, 'd, 'r) vault_world
   \<Rightarrow> bool \<times> fv_fido_journal \<times> ('a, 'd, 'r) vault_world" where
  "fv_fido_journal_commit SL p v s w =
     (case j_authorized p v s w of (False, w) \<Rightarrow> (False, j_fail s, w)
      | (True, w) \<Rightarrow>
        (case journal_current SL p s (w_sd w) of (False, d) \<Rightarrow> (False, j_fail s, w\<lparr>w_sd := d\<rparr>)
         | (True, d) \<Rightarrow>
           if fj_count s = 0 then (True, s, w\<lparr>w_sd := d\<rparr>)
           else case publish_journal SL p s d of (ok, s, d) \<Rightarrow> (ok, if ok then s else j_fail s, w\<lparr>w_sd := d\<rparr>)))"

end
