(* ===== verification/Auth_Store_Frame.thy ===== *)
theory Auth_Store_Frame
  imports Auth_Store_Correct
begin

text \<open>
  What the operations of an authenticated store may touch, whatever their outcome: reads change no
  block, and a store without a bitmap writes only its own metadata and data blocks. Formatting such a
  store keeps it consistent.
\<close>

lemma auth_read_frame:
  assumes "disk_law B cells" "store_inv cells s d" "length data = cnt * 512"
    and "fv_auth_read_batch SL B lba cnt (p, data) (s, d) = (r, out, u, s', d')"
  shows "cells d' = cells d"
proof (cases "store_validate s lba cnt p = FV_BLOCK_OK")
  case True
  note req = validate_ok [OF True]
  obtain r1 s1 d1 where ld: "load B lba cnt (s, d) = (r1, s1, d1)" by (cases "load B lba cnt (s, d)") auto
  obtain r2 u2 where st: "read_states lba s1 [0..<cnt] no_unset = (r2, u2)"
    by (cases "read_states lba s1 [0..<cnt] no_unset")
  obtain r3 data3 d3 where rn: "read_runs B s1 u2 lba cnt 0 data d1 = (r3, data3, d3)"
    by (cases "read_runs B s1 u2 lba cnt 0 data d1") auto
  have "cells d1 = cells d" using load_spec [OF assms(1,2) _ _ _ ld] req by auto
  moreover have "cells d3 = cells d1"
    using read_runs_spec [OF assms(1,3) _ rn] by simp
  moreover have "d' = d1 \<or> d' = d3"
    using assms(4) True ld st rn by (auto simp: fv_auth_read_batch_def read_fail_def Let_def split: if_splits)
  ultimately show ?thesis by auto
next
  case False
  then show ?thesis using assms(4) by (simp add: fv_auth_read_batch_def Let_def)
qed

lemma write_tags_config:
  "write_tags SL lba data is s = (ok, s') \<Longrightarrow> \<exists>c. s' = s\<lparr>as_cache := c\<rparr> \<and> (length c = length (as_cache s))"
proof (induction "is" arbitrary: s)
  case Nil
  then show ?case by (auto intro!: exI [of _ "as_cache s"])
next
  case (Cons i "is")
  show ?case
  proof (cases "store_tag SL s (lba + i) (span data (i * 512) 512)")
    case None
    then show ?thesis using Cons.prems by (auto simp: Let_def intro!: exI [of _ "as_cache s"])
  next
    case (Some t)
    show ?thesis using Cons.IH [OF Cons.prems [unfolded write_tags.simps Some Let_def option.case]] by auto
  qed
qed

lemma auth_write_frame:
  assumes law: "disk_law B cells" and inv: "store_inv cells s d" and plain: "as_bitmap_blocks s = 0"
    and len: "length data = cnt * 512"
    and run: "fv_auth_write SL B lba cnt (p, data) (s, d) = (r, s', d')"
  shows "(\<forall>a. a < as_base s \<or> as_data_base s + as_blocks s \<le> a \<longrightarrow> cells d' a = cells d a)"
proof (cases "store_validate s lba cnt p = FV_BLOCK_OK")
  case True
  note req = validate_ok [OF True]
  have geo: "as_data_base s = as_base s + as_metadata_blocks s" "as_metadata_blocks s = div_ceil (as_blocks s) 15"
    using inv by (auto simp: store_inv_def geometry_inv_def)
  obtain r1 s1 d1 where ld: "load B lba cnt (s, d) = (r1, s1, d1)" by (cases "load B lba cnt (s, d)") auto
  have l: "cells d1 = cells d" "same_config s s1"
    using load_spec [OF law inv _ _ _ ld] req by auto
  show ?thesis
  proof (cases "r1 = FV_BLOCK_OK")
    case ok: True
    have l2: "as_cache_first s1 \<le> lba div 15" "(lba + cnt - 1) div 15 < as_cache_first s1 + as_cache_count s1"
        "as_cache_count s1 \<le> 10" "length (as_cache s1) = 5120"
      using load_spec [OF law inv _ _ _ ld] req ok by (auto simp: store_inv_def cache_inv_def geometry_inv_def)
    define n where "n = (lba + cnt - 1) div 15 - lba div 15 + 1"
    obtain tg s2 where tags: "write_tags SL lba data [0..<cnt] s1 = (tg, s2)" by (cases "write_tags SL lba data [0..<cnt] s1")
    obtain c where s2: "s2 = s1\<lparr>as_cache := c\<rparr>" "length c = 5120" using write_tags_config [OF tags] l2(4) by auto
    have cfg: "as_data_base s2 = as_data_base s" "as_base s2 = as_base s" "as_bitmap_blocks s2 = 0"
      using l(2) plain by (auto simp: same_config_def s2(1))
    obtain r3 d3 where dw: "blk_write B d1 (as_data_base s + lba) cnt data = (r3, d3)"
      by (cases "blk_write B d1 (as_data_base s + lba) cnt data")
    obtain r4 d4 where mw: "meta_write B s2 d3 (lba div 15) n (span (as_cache s2) (store_entry s2 lba) (n * 512)) = (r4, d4)"
      by (cases "meta_write B s2 d3 (lba div 15) n (span (as_cache s2) (store_entry s2 lba) (n * 512))")
    have pub: "publish B (lba div 15) n (s2, x) = (FV_BLOCK_OK, s2, x)" for x by (simp add: publish_def cfg Let_def)
    have div_le: "lba div 15 \<le> (lba + cnt - 1) div 15" using req by (intro div_le_mono) linarith
    have "lba div 15 - as_cache_first s1 + n \<le> 10" using l2(1-3) div_le unfolding n_def by linarith
    then have "(lba div 15 - as_cache_first s1) * 512 + n * 512 \<le> 5120" by simp
    then have len4: "length (span (as_cache s2) (store_entry s2 lba) (n * 512)) = n * 512"
      by (simp add: s2 store_entry_def)
    have lst: "(lba + cnt - 1) div 15 < as_metadata_blocks s"
      unfolding geo(2) using req by (intro div_ceil_greater) auto
    have "\<And>a. a < as_data_base s + lba \<or> as_data_base s + lba + cnt \<le> a \<Longrightarrow> cells d3 a = cells d1 a"
      using disk_lawD(5) [OF law dw len] by blast+
    moreover have "\<And>a. a < as_base s + lba div 15 \<or> as_base s + lba div 15 + n \<le> a \<Longrightarrow> cells d4 a = cells d3 a"
      using disk_lawD(5) [OF law mw [unfolded meta_write_def] len4] cfg by auto
    moreover have "d' = d1 \<or> d' = d3 \<or> d' = d4"
      using run [unfolded fv_auth_write_def Let_def prod.case True ld ok tags, folded n_def] dw mw pub cfg(1)
      by (auto simp: ok tags n_def [symmetric] split: if_splits)
    moreover have "as_base s + lba div 15 + n \<le> as_data_base s" using lst div_le geo(1) by (simp add: n_def)
    moreover have "lba + cnt \<le> as_blocks s" using req by simp
    ultimately show ?thesis using l geo(1) by auto
  next
    case False
    then show ?thesis using run True ld l by (auto simp: fv_auth_write_def Let_def)
  qed
next
  case False
  then show ?thesis using run by (simp add: fv_auth_write_def Let_def)
qed

lemma format_loop_frame:
  assumes law: "disk_law B cells" and plain: "as_bitmap_blocks s = 0"
  shows "format_loop B s k tot first d calls = (r, d', calls') \<Longrightarrow> first \<le> tot \<Longrightarrow>
    (\<forall>a. a < as_base s + first \<or> as_base s + tot \<le> a \<longrightarrow> cells d' a = cells d a)"
proof (induction "tot - first" arbitrary: first d calls rule: less_induct)
  case less
  show ?case
  proof (cases "first < tot")
    case True
    define n where "n = (if tot - first > Suc k then Suc k else tot - first)"
    have n: "0 < n" "first + n \<le> tot" using True by (auto simp: n_def)
    obtain r1 d1 where w: "blk_write B d (as_base s + first) n (zeros (n * 512)) = (r1, d1)"
      by (cases "blk_write B d (as_base s + first) n (zeros (n * 512))")
    note f = disk_lawD(5) [OF law w]
    show ?thesis
    proof (cases "r1 = FV_BLOCK_OK")
      case ok: True
      have "format_loop B s k tot (first + n) d1 (calls @ [(first + n, tot)]) = (r, d', calls')"
        using less.prems(1) True ok w plain
        by (subst (asm) format_loop.simps) (simp add: Let_def meta_write_def n_def [symmetric])
      then have "(\<forall>a. a < as_base s + (first + n) \<or> as_base s + tot \<le> a \<longrightarrow> cells d' a = cells d1 a)"
        by (rule less.hyps [rotated]) (use n True in auto)
      then show ?thesis using f n by auto
    next
      case False
      then have "d' = d1" using less.prems(1) True w plain
        by (subst (asm) format_loop.simps) (simp add: Let_def meta_write_def n_def [symmetric])
      then show ?thesis using f n by auto
    qed
  next
    case False
    then show ?thesis using less.prems by (subst (asm) format_loop.simps) simp
  qed
qed

lemma auth_format_frame:
  assumes law: "disk_law B cells" and inv: "store_inv cells s d" and plain: "as_bitmap_blocks s = 0"
    and run: "fv_auth_format B s d = (r, s', d')"
  shows "(r = FV_BLOCK_OK \<longrightarrow> store_inv cells s' d' \<and> same_config s s' \<and> as_ready s') \<and>
    (\<forall>a. a < as_base s \<or> as_data_base s + as_blocks s \<le> a \<longrightarrow> cells d' a = cells d a)"
proof (cases "as_ready s")
  case True
  define s1 where "s1 = s\<lparr>as_cache_count := 0, as_bitmap_cached := False\<rparr>"
  obtain r1 d1 calls where fl: "format_loop B s1 (FV_TAG_CACHE_BLOCKS - 1) (as_metadata_blocks s) 0 d [(0, as_metadata_blocks s)] = (r1, d1, calls)"
    by (cases "format_loop B s1 (FV_TAG_CACHE_BLOCKS - 1) (as_metadata_blocks s) 0 d [(0, as_metadata_blocks s)]") auto
  have p1: "as_bitmap_blocks s1 = 0" "as_base s1 = as_base s" "as_metadata_blocks s1 = as_metadata_blocks s" using plain by (auto simp: s1_def)
  note f = format_loop_frame [OF law p1(1) fl]
  obtain r2 d2 where sy: "blk_sync B d1 = (r2, d2)" by (cases "blk_sync B d1")
  have k: "FV_TAG_CACHE_BLOCKS = 10" by (simp add: FV_TAG_CACHE_BLOCKS_def FV_AUTH_MAX_BATCH_SECTORS_def FV_TAGS_PER_BLOCK_def)
  have geo: "as_data_base s = as_base s + as_metadata_blocks s" using inv by (simp add: store_inv_def geometry_inv_def)
  have "d' = d1 \<or> d' = d2" and ok: "r = FV_BLOCK_OK \<Longrightarrow> s' = s1\<lparr>as_cache := zeros 5120\<rparr> \<and> d' = d2"
    using run True fl sy p1(1,3)
    by (auto simp: fv_auth_format_def fv_auth_format_buffered_def Let_def s1_def [symmetric] k split: if_splits prod.splits)
  moreover have "cells d2 = cells d1" using disk_lawD(7) [OF law sy] by auto
  moreover have "store_inv cells (s1\<lparr>as_cache := zeros 5120\<rparr>) d2"
    using inv f calculation(3) by (auto simp: store_inv_def geometry_inv_def bitmap_inv_def cache_inv_def s1_def)
  moreover have "same_config s (s1\<lparr>as_cache := zeros 5120\<rparr>)" "as_ready s1" using True by (auto simp: same_config_def s1_def)
  ultimately show ?thesis using f p1 geo by auto
next
  case False
  then show ?thesis using run by (auto simp: fv_auth_format_def fv_auth_format_buffered_def Let_def)
qed

end
