(* ===== verification/Fido_Store_Correct.thy ===== *)
theory Fido_Store_Correct
  imports Fido_Store Auth_Store_Frame
begin

text \<open>
  Correctness of the passkey snapshot store: a commit touches only the inactive bank, whatever happens
  to it; the scan returns the newest authentic manifest; and a committed image is what the next open
  returns.
\<close>

section \<open>Blocks that may change\<close>

text \<open>The sectors of a bank.\<close>

definition in_bank :: "nat \<Rightarrow> nat \<Rightarrow> bool" where
  "in_bank bank a \<longleftrightarrow> bank_base bank \<le> a \<and> a < bank_base bank + FV_FIDO_BANK_SECTORS"

definition same_outside ::
  "('a, 'd, 'r) fv_vault_platform \<Rightarrow> ('d \<Rightarrow> nat \<Rightarrow> u8 list) \<Rightarrow> (nat \<Rightarrow> bool) \<Rightarrow> 'd \<Rightarrow> 'd \<Rightarrow> bool" where
  "same_outside p cells A d d' \<longleftrightarrow> (\<forall>a. \<not> A a \<longrightarrow> cells d' a = cells d a)"

lemma same_outside_refl [simp]: "same_outside p cells A d d"
  by (simp add: same_outside_def)

lemma same_outside_trans: "same_outside p cells A d d' \<Longrightarrow> same_outside p cells A d' d2 \<Longrightarrow> same_outside p cells A d d2"
  by (simp add: same_outside_def)

lemma same_outsideI: "cells d' = cells d \<Longrightarrow> same_outside p cells A d d'"
  by (simp add: same_outside_def)

lemma put_sector_spec:
  assumes "disk_law (vp_sd p) cells" "put_sector p a m d = (ok, d')" "length m = 512"
  shows "same_outside p cells (\<lambda>x. x = a) d d' \<and> (ok \<longrightarrow> cells d' a = m)"
proof -
  obtain r1 d1 where w: "blk_write (vp_sd p) d a 1 m = (r1, d1)" by (cases "blk_write (vp_sd p) d a 1 m")
  obtain r2 d2 where s: "blk_sync (vp_sd p) d1 = (r2, d2)" by (cases "blk_sync (vp_sd p) d1")
  have f: "x \<noteq> a \<Longrightarrow> cells d1 x = cells d x" for x
    using disk_lawD(5) [OF assms(1) w] assms(3) by (auto simp: nat_neq_iff)
  have i: "r1 = FV_BLOCK_OK \<Longrightarrow> cells d1 a = m" using disk_lawD(6) [OF assms(1), of d a 1 m d1 0] w assms(3) by simp
  note g = disk_lawD(7) [OF assms(1) s]
  show ?thesis using assms(2) w s f g i by (auto simp: put_sector_def same_outside_def split: if_splits)
qed

lemma vault_load_sd: "vault_load p w = (s, w') \<Longrightarrow> w_sd w' = w_sd w"
  by (auto simp: vault_load_def split: prod.splits)

lemma vault_valid_sd: "vault_valid p v w = (ok, w') \<Longrightarrow> w_sd w' = w_sd w"
  by (auto simp: vault_valid_def dest: vault_load_sd split: if_splits prod.splits option.splits)

lemma authorized_sd: "authorized p v s w = (ok, w') \<Longrightarrow> w_sd w' = w_sd w"
  by (auto simp: authorized_def dest: vault_valid_sd split: if_splits prod.splits)

section \<open>The scan\<close>

definition authentic :: "sha_lib \<Rightarrow> fv_vault \<Rightarrow> nat \<Rightarrow> u8 list \<Rightarrow> bool" where
  "authentic SL v bank m \<longleftrightarrow> (get m 24 4 = 65536 \<or> get m 24 4 = of_nat FV_FIDO_STORE_BYTES) \<and>
     sn_generation (manifest_candidate bank m) \<noteq> 0 \<and>
     (\<exists>key canonical. derive SL v ''FV2/fido-manifest/v1'' bank 0 32 = Some key \<and>
        encode_manifest SL v (manifest_candidate bank m) key = Some canonical \<and>
        take 480 m = take 480 canonical \<and> fv_tag_equal (drop 480 m) (drop 480 canonical))"

lemma read_one:
  assumes "disk_law B cells" "blk_read B d a 1 = (r, m, d')"
  shows "cells d' = cells d" "length m = 512" "r = FV_BLOCK_OK \<Longrightarrow> m = cells d a"
proof -
  show "cells d' = cells d" "length m = 512" using disk_lawD(2,3) [OF assms] by auto
  show "m = cells d a" if "r = FV_BLOCK_OK"
    using disk_lawD(4) [OF assms(1), of d a 1 m d' 0] disk_lawD(3) [OF assms] assms(2) that by simp
qed

text \<open>Newest so far: \<open>latest\<close> against the banks not yet seen.\<close>

lemma scan_loop_spec:
  assumes "disk_law (vp_sd p) cells"
  shows "manifest_scan_loop SL p v banks latest d = (r, out, d') \<Longrightarrow>
    cells d' = cells d \<and>
    (r = FV_FIDO_STORE_OK \<longrightarrow> (\<exists>snap. out = Some snap \<and>
       (latest = Some snap \<or> (sn_bank snap \<in> set banks \<and> authentic SL v (sn_bank snap) (cells d (bank_base (sn_bank snap))) \<and>
          snap = manifest_candidate (sn_bank snap) (cells d (bank_base (sn_bank snap))))) \<and>
       (\<forall>l. latest = Some l \<longrightarrow> sn_generation l \<le> sn_generation snap) \<and>
       (\<forall>b \<in> set banks. authentic SL v b (cells d (bank_base b)) \<longrightarrow>
          sn_generation (manifest_candidate b (cells d (bank_base b))) \<le> sn_generation snap)))"
proof (induction banks arbitrary: latest d)
  case Nil
  then show ?case by (auto split: if_splits)
next
  case (Cons bank banks)
  obtain r1 m d1 where rd: "blk_read (vp_sd p) d (bank_base bank) 1 = (r1, m, d1)"
    by (cases "blk_read (vp_sd p) d (bank_base bank) 1") auto
  note ro = read_one [OF assms rd]
  define c where "c = manifest_candidate bank m"
  have sb: "sn_bank c = bank" by (simp add: c_def manifest_candidate_def)
  show ?case
  proof (cases "r1 = FV_BLOCK_OK")
    case ok: True
    have m: "m = cells d (bank_base bank)" using ro(3) ok by simp
    have ih: "cells d' = cells d \<and>
      (r = FV_FIDO_STORE_OK \<longrightarrow> (\<exists>snap. out = Some snap \<and>
       (new = Some snap \<or> (sn_bank snap \<in> set banks \<and> authentic SL v (sn_bank snap) (cells d (bank_base (sn_bank snap))) \<and>
          snap = manifest_candidate (sn_bank snap) (cells d (bank_base (sn_bank snap))))) \<and>
       (\<forall>l. new = Some l \<longrightarrow> sn_generation l \<le> sn_generation snap) \<and>
       (\<forall>b \<in> set banks. authentic SL v b (cells d (bank_base b)) \<longrightarrow>
          sn_generation (manifest_candidate b (cells d (bank_base b))) \<le> sn_generation snap)))"
      if "manifest_scan_loop SL p v banks new d1 = (r, out, d')" for new
      using Cons.IH [OF that] ro(1) by simp
    show ?thesis
    proof (cases "authentic SL v bank m")
      case True
      then obtain key canonical where a: "derive SL v ''FV2/fido-manifest/v1'' bank 0 32 = Some key"
        "encode_manifest SL v c key = Some canonical" "sn_generation c \<noteq> 0"
        "take 480 m = take 480 canonical" "fv_tag_equal (drop 480 m) (drop 480 canonical)"
        "get m 24 4 = 65536 \<or> get m 24 4 = of_nat FV_FIDO_STORE_BYTES"
        by (auto simp: authentic_def c_def)
      show ?thesis
      proof (cases latest)
        case None
        then have "manifest_scan_loop SL p v banks (Some c) d1 = (r, out, d')"
          using Cons.prems rd ok a by (auto simp: c_def [symmetric] Let_def)
        from ih [OF this] show ?thesis using True None m sb by (auto simp: c_def)
      next
        case (Some l)
        show ?thesis
        proof (cases "sn_generation c = sn_generation l")
          case True
          then show ?thesis using Cons.prems rd ok a Some ro(1) by (auto simp: c_def [symmetric] Let_def)
        next
          case False
          then have "manifest_scan_loop SL p v banks (if sn_generation c > sn_generation l then Some c else latest) d1 = (r, out, d')"
            using Cons.prems rd ok a Some by (auto simp: c_def [symmetric] Let_def split: if_splits)
          from ih [OF this] show ?thesis using True Some m sb
            by (cases "sn_generation c > sn_generation l") (auto simp: c_def)
        qed
      qed
    next
      case False
      have "manifest_scan_loop SL p v banks latest d1 = (r, out, d') \<or> (r = FV_FIDO_STORE_INVALID \<and> d' = d1)"
        using Cons.prems rd ok False
        by (auto simp: authentic_def c_def [symmetric] Let_def split: if_splits option.splits)
      then show ?thesis
      proof
        assume "manifest_scan_loop SL p v banks latest d1 = (r, out, d')"
        from ih [OF this] show ?thesis using False m by auto
      qed (use ro(1) in auto)
    qed
  next
    case False
    then show ?thesis using Cons.prems rd ro(1) by auto
  qed
qed

lemma scan_frame:
  "disk_law (vp_sd p) cells \<Longrightarrow> scan SL p v d = (r, out, d') \<Longrightarrow> same_outside p cells A d d'"
  using scan_loop_spec [of p cells SL v "[0..<2]" None d r out d'] by (auto simp: scan_def intro: same_outsideI)

lemma scan_newest:
  assumes "disk_law (vp_sd p) cells" "scan SL p v d = (FV_FIDO_STORE_OK, out, d')"
  obtains snap where "out = Some snap" "sn_bank snap < 2" "authentic SL v (sn_bank snap) (cells d (bank_base (sn_bank snap)))"
    "snap = manifest_candidate (sn_bank snap) (cells d (bank_base (sn_bank snap)))"
    "\<And>b. b < 2 \<Longrightarrow> authentic SL v b (cells d (bank_base b)) \<Longrightarrow>
       sn_generation (manifest_candidate b (cells d (bank_base b))) \<le> sn_generation snap"
proof -
  obtain snap where s: "out = Some snap" "sn_bank snap \<in> set [0..<2]"
    "authentic SL v (sn_bank snap) (cells d (bank_base (sn_bank snap)))"
    "snap = manifest_candidate (sn_bank snap) (cells d (bank_base (sn_bank snap)))"
    "\<forall>b \<in> set [0..<2]. authentic SL v b (cells d (bank_base b)) \<longrightarrow>
       sn_generation (manifest_candidate b (cells d (bank_base b))) \<le> sn_generation snap"
    using scan_loop_spec [OF assms(1), of SL v "[0..<2]" None d FV_FIDO_STORE_OK out d'] assms(2)
    unfolding scan_def by (simp only: simp_thms) blast
  from s(2) have lt: "sn_bank snap < 2" by simp
  show thesis by (rule that [OF s(1) lt s(3,4)]) (use s(5) in auto)
qed


section \<open>Banks\<close>

text \<open>An open bank: its store is consistent and lies inside the bank, after the manifest sector.\<close>

definition bank_inv ::
  "('a, 'd, 'r) fv_vault_platform \<Rightarrow> ('d \<Rightarrow> nat \<Rightarrow> u8 list) \<Rightarrow> nat \<Rightarrow> bank_context \<Rightarrow> 'd \<Rightarrow> bool" where
  "bank_inv p cells bank c d \<longleftrightarrow> store_inv cells (bc_sectors c) d \<and>
     as_bitmap_blocks (bc_sectors c) = 0 \<and> as_base (bc_sectors c) = bank_base bank + 1 \<and>
     as_blocks (bc_sectors c) = bc_image_sectors c \<and> (bc_image_sectors c = 128 \<or> bc_image_sectors c = 256) \<and>
     length (bc_scratch c) = 4096"

lemma bank_inv_region:
  "bank_inv p cells bank c d \<Longrightarrow> as_data_base (bc_sectors c) + as_blocks (bc_sectors c) \<le> bank_base bank + FV_FIDO_BANK_SECTORS"
  by (auto simp: bank_inv_def store_inv_def geometry_inv_def div_ceil_def FV_FIDO_BANK_SECTORS_def)

lemma bank_open_spec:
  assumes "bank_open SL L p v bank n d = Some c"
  shows "bank_inv p cells bank c d'" "as_ready (bc_sectors c)" "bank \<le> 1" "bc_image_sectors c = n div 512"
    "cipher_law L \<Longrightarrow> pipeline_ready (bc_pipeline c)" "derive SL v ''FV2/fido-manifest/v1'' bank 0 32 = Some (bc_manifest_key c)"
proof -
  obtain keys integrity pipeline store where
    st: "fv_pipeline_init L (session_algorithms (ec_volume (v_config v))) keys (unat (layer_count (ec_volume (v_config v)))) = (pipeline, FV_OK)"
    "fv_auth_open SL (vp_sd p) d (bank_base bank + 1) (n div 512) (volume_id (ec_volume (v_config v))) integrity = (FV_BLOCK_OK, store)"
    and n: "bank \<le> 1" "n = 65536 \<or> n = FV_FIDO_STORE_BYTES"
    and c: "bc_pipeline c = pipeline" "bc_sectors c = store" "bc_image_sectors c = n div 512" "bc_scratch c = zeros 4096"
    and k: "derive SL v ''FV2/fido-manifest/v1'' bank 0 32 = Some (bc_manifest_key c)"
    using assms by (auto simp: bank_open_def Let_def BATCH_def split: if_splits option.splits prod.splits)
  note o = open_store_inv [OF st(2) [unfolded fv_auth_open_def]]
  have "as_base store = bank_base bank + 1"
    using o(1) [where cells = "\<lambda>_ _. []" and d' = d] o(5,6) by (simp add: store_inv_def geometry_inv_def)
  then show "bank_inv p cells bank c d'" using o n c by (auto simp: bank_inv_def FV_FIDO_STORE_BYTES_def)
  show "as_ready (bc_sectors c)" "bank \<le> 1" "bc_image_sectors c = n div 512" using o n c by auto
  show "cipher_law L \<Longrightarrow> pipeline_ready (bc_pipeline c)" using pipeline_init_ready st(1) c(1) by simp
  show "derive SL v ''FV2/fido-manifest/v1'' bank 0 32 = Some (bc_manifest_key c)" by (fact k)
qed

lemma auth_read_cases:
  assumes "fv_auth_read SL B lba BATCH (4, buf) (s, d) = (br, out, u, s', d')"
  obtains us where "fv_auth_read_batch SL B lba BATCH (4, buf) (s, d) = (br, out, us, s', d')" "u = us ! 0"
  using assms by (auto simp: fv_auth_read_def BATCH_def split: prod.splits)

lemma bank_inv_update:
  assumes "bank_inv p cells bank c d" "store_inv cells store d'" "same_config (bc_sectors c) store" "length buf = 4096"
  shows "bank_inv p cells bank (c\<lparr>bc_sectors := store, bc_scratch := buf\<rparr>) d'"
  using assms by (auto simp: bank_inv_def same_config_def)

lemma read_image_loop_frame:
  assumes law: "disk_law (vp_sd p) cells"
  shows "read_image_loop SL p lbas c output sha d = (r, out, digest, c', d') \<Longrightarrow> bank_inv p cells bank c d \<Longrightarrow>
    cells d' = cells d"
proof (induction lbas arbitrary: c "output" sha d)
  case Nil
  then show ?case by (auto split: option.splits)
next
  case (Cons lba lbas)
  obtain br scratch u store d1 where rd: "fv_auth_read SL (vp_sd p) lba BATCH (4, bc_scratch c) (bc_sectors c, d) = (br, scratch, u, store, d1)"
    by (cases "fv_auth_read SL (vp_sd p) lba BATCH (4, bc_scratch c) (bc_sectors c, d)") auto
  obtain us where rb: "fv_auth_read_batch SL (vp_sd p) lba BATCH (4, bc_scratch c) (bc_sectors c, d) = (br, scratch, us, store, d1)"
    using auth_read_cases [OF rd] .
  have i: "store_inv cells (bc_sectors c) d" "length (bc_scratch c) = BATCH * 512"
    using Cons.prems(2) by (auto simp: bank_inv_def BATCH_def)
  have f: "cells d1 = cells d"
    using auth_read_frame [OF law i rb] by auto
  define c1 where "c1 = c\<lparr>bc_sectors := store, bc_scratch := scratch\<rparr>"
  show ?case
  proof (cases "br \<noteq> FV_BLOCK_OK \<or> u \<noteq> 0")
    case True
    then show ?thesis using Cons.prems(1) rd f by (auto simp: Let_def)
  next
    case False
    note s = read_batch_sound [OF law i, of SL lba 4 scratch us store d1]
    have inv1: "bank_inv p cells bank (c\<lparr>bc_sectors := store, bc_scratch := b\<rparr>) d1" if "length b = 4096" for b
      by (rule bank_inv_update [OF Cons.prems(2) _ _ that]) (use s rb False in auto)
    have ls: "length scratch = 4096" using s rb False by (simp add: BATCH_def)
    show ?thesis
    proof (cases "sha_absorb SL sha scratch")
      case None
      then show ?thesis using Cons.prems(1) rd f False by (auto simp: Let_def)
    next
      case (Some sha')
      show ?thesis
      proof (cases "output")
        case None
        then have "read_image_loop SL p lbas c1 output sha' d1 = (r, out, digest, c', d')"
          using Cons.prems(1) rd False Some by (simp add: Let_def c1_def)
        from Cons.IH [OF this] show ?thesis using inv1 [OF ls] f by (simp add: c1_def)
      next
        case out: (Some img)
        show ?thesis
        proof (cases "crypt_sectors (bc_pipeline c) False no_unset lba 4 [0..<BATCH] scratch")
          case None
          then show ?thesis using Cons.prems(1) rd f False Some out by (auto simp: Let_def)
        next
          case (Some plain)
          then have "read_image_loop SL p lbas (c\<lparr>bc_sectors := store, bc_scratch := plain\<rparr>) (Some (memcpy img (lba * 512) plain)) sha' d1 =
              (r, out, digest, c', d')"
            using Cons.prems(1) rd False \<open>sha_absorb SL sha scratch = Some sha'\<close> out by (simp add: Let_def)
          from Cons.IH [OF this] show ?thesis using inv1 [of plain] crypt_sectors_length [OF Some] ls f by simp
        qed
      qed
    qed
  qed
qed

lemma read_image_frame:
  assumes "disk_law (vp_sd p) cells" "read_image SL p c output d = (r, out, digest, c', d')" "bank_inv p cells bank c d"
  shows "cells d' = cells d"
proof (cases "sha_starts SL")
  case None
  then show ?thesis using assms(2) by (auto simp: read_image_def)
next
  case (Some sha)
  then obtain c1 where "read_image_loop SL p (batches (bc_image_sectors c)) c output sha d = (r, out, digest, c1, d')"
    using assms(2) by (auto simp: read_image_def split: prod.splits)
  from read_image_loop_frame [OF assms(1) this assms(3)] show ?thesis .
qed

lemma write_image_loop_frame:
  assumes law: "disk_law (vp_sd p) cells" and dl: "digest_law SL"
  shows "write_image_loop SL p lbas img c sha d = (r, c', d') \<Longrightarrow> bank_inv p cells bank c d \<Longrightarrow>
    (\<forall>lba \<in> set lbas. lba * 512 + 4096 \<le> length img) \<Longrightarrow> same_outside p cells (in_bank bank) d d'"
proof (induction lbas arbitrary: c sha d)
  case Nil
  then show ?case by auto
next
  case (Cons lba lbas)
  have l: "length (span img (lba * 512) (BATCH * 512)) = BATCH * 512" using Cons.prems(3) by (simp add: BATCH_def)
  show ?case
  proof (cases "crypt_sectors (bc_pipeline c) True no_unset lba 4 [0..<BATCH] (span img (lba * 512) (BATCH * 512))")
    case None
    then show ?thesis using Cons.prems(1) by (auto simp: Let_def)
  next
    case (Some scratch)
    note ls = crypt_sectors_length [OF Some, unfolded l]
    show ?thesis
    proof (cases "sha_absorb SL sha scratch")
      case None
      then show ?thesis using Cons.prems(1) Some by (auto simp: Let_def)
    next
      case sha: (Some sha')
      obtain r1 store d1 where w: "fv_auth_write SL (vp_sd p) lba BATCH (4, scratch) (bc_sectors c, d) = (r1, store, d1)"
        by (cases "fv_auth_write SL (vp_sd p) lba BATCH (4, scratch) (bc_sectors c, d)") auto
      have i: "store_inv cells (bc_sectors c) d" "as_bitmap_blocks (bc_sectors c) = 0"
        "as_base (bc_sectors c) = bank_base bank + 1" using Cons.prems(2) by (auto simp: bank_inv_def)
      have f: "same_outside p cells (in_bank bank) d d1"
        using auth_write_frame [OF law i(1,2) ls w] bank_inv_region [OF Cons.prems(2)] i(3)
        by (auto simp: same_outside_def in_bank_def)
      show ?thesis
      proof (cases "r1 = FV_BLOCK_OK")
        case True
        note ok = auth_write_correct [OF law dl i(1) ls, of lba 4 store d1]
        have "write_image_loop SL p lbas img (c\<lparr>bc_scratch := scratch, bc_sectors := store\<rparr>) sha' d1 = (r, c', d')"
          using Cons.prems(1) Some sha w True by (simp add: Let_def)
        moreover have "bank_inv p cells bank (c\<lparr>bc_scratch := scratch, bc_sectors := store\<rparr>) d1"
          using Cons.prems(2) ok w True ls by (auto simp: bank_inv_def same_config_def BATCH_def)
        ultimately have "same_outside p cells (in_bank bank) d1 d'" using Cons.IH Cons.prems(3) by simp
        with f show ?thesis by (rule same_outside_trans)
      next
        case False
        then show ?thesis using Cons.prems(1) Some sha w f by (auto simp: Let_def)
      qed
    qed
  qed
qed


section \<open>What a bank stores\<close>

text \<open>The ciphertext of a sector, and that it decrypts to the sector of an image.\<close>

definition bank_data ::
  "sha_lib \<Rightarrow> ('d \<Rightarrow> nat \<Rightarrow> u8 list) \<Rightarrow> bank_context \<Rightarrow> 'd \<Rightarrow> nat \<Rightarrow> u8 list" where
  "bank_data SL cells c d x = (case sector_lookup SL cells (bc_sectors c) d x of Sector_Data ct \<Rightarrow> ct | _ \<Rightarrow> [])"

definition bank_stores ::
  "sha_lib \<Rightarrow> ('d \<Rightarrow> nat \<Rightarrow> u8 list) \<Rightarrow> bank_context \<Rightarrow> 'd \<Rightarrow> u8 list \<Rightarrow> nat \<Rightarrow> bool" where
  "bank_stores SL cells c d img x \<longleftrightarrow>
     (\<exists>ct. sector_lookup SL cells (bc_sectors c) d x = Sector_Data ct \<and>
        sector_crypt (bc_pipeline c) False x (0, ct) = (FV_OK, span img (x * 512) 512))"

definition in_batch :: "nat list \<Rightarrow> nat \<Rightarrow> bool" where
  "in_batch lbas x \<longleftrightarrow> (\<exists>lba \<in> set lbas. lba \<le> x \<and> x < lba + BATCH)"

text \<open>Contexts that differ in their caches and buffers only.\<close>

definition same_bank :: "bank_context \<Rightarrow> bank_context \<Rightarrow> bool" where
  "same_bank c c' \<longleftrightarrow> same_config (bc_sectors c) (bc_sectors c') \<and> bc_pipeline c' = bc_pipeline c \<and>
     bc_manifest_key c' = bc_manifest_key c \<and> bc_image_sectors c' = bc_image_sectors c"

lemma same_bank_refl [simp]: "same_bank c c"
  by (simp add: same_bank_def)

lemma same_bank_trans: "same_bank a b \<Longrightarrow> same_bank b c \<Longrightarrow> same_bank a c"
  by (auto simp: same_bank_def intro: same_config_trans)

lemma same_bank_lookup:
  "same_bank c c' \<Longrightarrow> cells d' = cells d \<Longrightarrow>
   sector_lookup SL cells (bc_sectors c') d' = sector_lookup SL cells (bc_sectors c) d"
  by (rule sector_lookup_cong) (auto simp: same_bank_def)

lemma same_bank_data:
  "same_bank c c' \<Longrightarrow> cells d' = cells d \<Longrightarrow> bank_data SL cells c' d' = bank_data SL cells c d"
  by (rule ext) (simp add: bank_data_def same_bank_lookup)

lemma same_bank_stores:
  "same_bank c c' \<Longrightarrow> cells d' = cells d \<Longrightarrow> bank_stores SL cells c' d' = bank_stores SL cells c d"
  using same_bank_lookup [of c c' cells d' d SL] by (simp add: fun_eq_iff bank_stores_def same_bank_def)

lemma crypt_batch:
  assumes "crypt_sectors pl write no_unset lba 4 [0..<BATCH] buf = Some out" "length buf = BATCH * 512" "i < BATCH"
  shows "sector_crypt pl write (lba + i) (4 + i * 512, span buf (i * 512) 512) = (FV_OK, span out (i * 512) 512)"
  using crypt_sectors_spec [OF assms(1) _ _ assms(2)] not_no_unset assms(3) by (auto simp: BATCH_def)

lemma write_image_loop_spec:
  assumes law: "disk_law (vp_sd p) cells" and dl: "digest_law SL"
  shows "write_image_loop SL p lbas img c sha d = (Some digest, c', d') \<Longrightarrow> bank_inv p cells bank c d \<Longrightarrow>
    pipeline_ready (bc_pipeline c) \<Longrightarrow> (\<forall>lba \<in> set lbas. lba * 512 + 4096 \<le> length img) \<Longrightarrow>
    bank_inv p cells bank c' d' \<and> same_bank c c' \<and>
    (\<forall>x < bc_image_sectors c. in_batch lbas x \<or> bank_stores SL cells c d img x \<longrightarrow> bank_stores SL cells c' d' img x) \<and>
    length digest = 32"
proof (induction lbas arbitrary: c sha d)
  case Nil
  then show ?case using dl by (auto simp: in_batch_def digest_law_def)
next
  case (Cons lba lbas)
  have l: "length (span img (lba * 512) (BATCH * 512)) = BATCH * 512" using Cons.prems(4) by (simp add: BATCH_def)
  obtain scratch sha' store d1 where cs: "crypt_sectors (bc_pipeline c) True no_unset lba 4 [0..<BATCH] (span img (lba * 512) (BATCH * 512)) = Some scratch"
    and w: "fv_auth_write SL (vp_sd p) lba BATCH (4, scratch) (bc_sectors c, d) = (FV_BLOCK_OK, store, d1)"
    and rest: "write_image_loop SL p lbas img (c\<lparr>bc_scratch := scratch, bc_sectors := store\<rparr>) sha' d1 = (Some digest, c', d')"
    using Cons.prems(1) by (auto simp: Let_def split: option.splits prod.splits if_splits)
  define c1 where "c1 = c\<lparr>bc_scratch := scratch, bc_sectors := store\<rparr>"
  note ls = crypt_sectors_length [OF cs, unfolded l]
  have i: "store_inv cells (bc_sectors c) d" using Cons.prems(2) by (simp add: bank_inv_def)
  note ok = auth_write_correct [OF law dl i ls w]
  have inv1: "bank_inv p cells bank c1 d1" and same1: "same_bank c c1"
    using Cons.prems(2) ok ls by (auto simp: bank_inv_def same_bank_def same_config_def BATCH_def c1_def)
  have "bank_stores SL cells c1 d1 img x" if x: "x < bc_image_sectors c" "in_batch (lba # lbas) x \<or> bank_stores SL cells c d img x"
      "\<not> in_batch lbas x" for x
  proof (cases "lba \<le> x \<and> x < lba + BATCH")
    case True
    then obtain k where k: "x = lba + k" "k < BATCH" by (metis add_less_cancel_left le_iff_add)
    have lk: "sector_lookup SL cells store d1 x = Sector_Data (span scratch (k * 512) 512)" using ok k by simp
    have sp: "span (span img (lba * 512) (BATCH * 512)) (k * 512) 512 = span img (x * 512) 512"
      using k by (subst span_span) (auto simp: BATCH_def k(1) algebra_simps)
    have "length (span img (x * 512) 512) = 512" using Cons.prems(4) k by (auto simp: BATCH_def)
    from sector_crypt_inverse [OF Cons.prems(3) this crypt_batch [OF cs l k(2), unfolded sp, folded k(1)], of 0]
    show ?thesis using lk by (simp add: bank_stores_def c1_def)
  next
    case False
    then have "bank_stores SL cells c d img x" using x(2,3) by (auto simp: in_batch_def)
    moreover have "x < as_blocks (bc_sectors c)" using x(1) Cons.prems(2) by (simp add: bank_inv_def)
    moreover have "x < lba \<or> lba + BATCH \<le> x" using False by linarith
    ultimately show ?thesis using ok by (auto simp: bank_stores_def c1_def)
  qed
  moreover have "bank_inv p cells bank c' d' \<and> same_bank c1 c' \<and>
    (\<forall>x < bc_image_sectors c1. in_batch lbas x \<or> bank_stores SL cells c1 d1 img x \<longrightarrow> bank_stores SL cells c' d' img x) \<and>
    length digest = 32"
    using Cons.IH [OF rest [folded c1_def] inv1] Cons.prems(3,4) by (simp add: c1_def)
  ultimately show ?case using same_bank_trans [OF same1] by (auto simp: c1_def)
qed

lemma batch_read:
  assumes law: "disk_law (vp_sd p) cells" and inv: "bank_inv p cells bank c d"
    and rd: "fv_auth_read SL (vp_sd p) lba BATCH (4, bc_scratch c) (bc_sectors c, d) = (FV_BLOCK_OK, scratch, 0, store, d1)"
  shows "length scratch = BATCH * 512"
    "length b = 4096 \<Longrightarrow> bank_inv p cells bank (c\<lparr>bc_sectors := store, bc_scratch := b\<rparr>) d1"
    "same_config (bc_sectors c) store" "cells d1 = cells d"
    "i < BATCH \<Longrightarrow> sector_lookup SL cells (bc_sectors c) d (lba + i) = Sector_Data (span scratch (i * 512) 512)"
    "scratch = concat (map (bank_data SL cells c d) [lba..<lba + BATCH])"
proof -
  obtain us where rb: "fv_auth_read_batch SL (vp_sd p) lba BATCH (4, bc_scratch c) (bc_sectors c, d) = (FV_BLOCK_OK, scratch, us, store, d1)"
    "us ! 0 = 0" using auth_read_cases [OF rd] by metis
  have i: "store_inv cells (bc_sectors c) d" "length (bc_scratch c) = BATCH * 512"
    using inv by (auto simp: bank_inv_def BATCH_def)
  note s = read_batch_sound [OF law i rb(1)]
  show l: "length scratch = BATCH * 512" "same_config (bc_sectors c) store" "cells d1 = cells d" using s by auto
  show "bank_inv p cells bank (c\<lparr>bc_sectors := store, bc_scratch := b\<rparr>) d1" if "length b = 4096"
    by (rule bank_inv_update [OF inv _ _ that]) (use s in auto)
  have data: "sector_lookup SL cells (bc_sectors c) d (lba + i) = Sector_Data (span scratch (i * 512) 512)" if "i < BATCH" for i
  proof -
    have "\<not> fv_auth_sector_unset us i" using that rb(2) by (simp add: sector_unset_iff BATCH_def)
    then show ?thesis using s that by (cases "sector_lookup SL cells (bc_sectors c) d (lba + i)") fastforce+
  qed
  then show "i < BATCH \<Longrightarrow> sector_lookup SL cells (bc_sectors c) d (lba + i) = Sector_Data (span scratch (i * 512) 512)" .
  have e: "map (bank_data SL cells c d) [lba..<lba + BATCH] = map (\<lambda>i. take 512 (bank_data SL cells c d (lba + i) @ zeros 512)) [0..<BATCH]"
    using data l(1) by (intro nth_equalityI) (auto simp: bank_data_def BATCH_def)
  show "scratch = concat (map (bank_data SL cells c d) [lba..<lba + BATCH])"
    unfolding e
  proof (rule concat_spans [of _ BATCH])
    fix i
    assume "i < BATCH"
    then show "span scratch (i * 512) 512 = span (concat (map (\<lambda>i. take 512 (bank_data SL cells c d (lba + i) @ zeros 512)) [0..<BATCH])) (i * 512) 512"
      using data [of i] l(1) by (subst span_concat_512) (auto simp: bank_data_def BATCH_def)
  qed (auto simp: l(1) length_concat_512)
qed


text \<open>The digest a complete read returns is a function of the stored sectors.\<close>

definition image_digest :: "sha_lib \<Rightarrow> ('d \<Rightarrow> nat \<Rightarrow> u8 list) \<Rightarrow> bank_context \<Rightarrow> 'd \<Rightarrow> u8 list \<Rightarrow> nat list \<Rightarrow> u8 list option" where
  "image_digest SL cells c d sha lbas =
     (case sha_feed SL sha (map (\<lambda>lba. concat (map (bank_data SL cells c d) [lba..<lba + BATCH])) lbas) of
        None \<Rightarrow> None | Some z \<Rightarrow> sha_finish SL z)"

lemma image_digest_same:
  "same_bank c c' \<Longrightarrow> cells d' = cells d \<Longrightarrow> image_digest SL cells c' d' = image_digest SL cells c d"
  by (intro ext) (simp add: image_digest_def same_bank_data)

lemma read_image_loop_step:
  assumes "read_image_loop SL p (lba # lbas) c output sha d = (FV_FIDO_STORE_OK, out, digest, c', d')"
  obtains scratch store d1 sha' where
    "fv_auth_read SL (vp_sd p) lba BATCH (4, bc_scratch c) (bc_sectors c, d) = (FV_BLOCK_OK, scratch, 0, store, d1)"
    "sha_absorb SL sha scratch = Some sha'"
    "case output of None \<Rightarrow> read_image_loop SL p lbas (c\<lparr>bc_sectors := store, bc_scratch := scratch\<rparr>) None sha' d1 =
         (FV_FIDO_STORE_OK, out, digest, c', d')
     | Some img \<Rightarrow> (\<exists>plain. crypt_sectors (bc_pipeline c) False no_unset lba 4 [0..<BATCH] scratch = Some plain \<and>
         read_image_loop SL p lbas (c\<lparr>bc_sectors := store, bc_scratch := plain\<rparr>) (Some (memcpy img (lba * 512) plain)) sha' d1 =
           (FV_FIDO_STORE_OK, out, digest, c', d'))"
proof -
  obtain br scratch u store d1 where rd: "fv_auth_read SL (vp_sd p) lba BATCH (4, bc_scratch c) (bc_sectors c, d) = (br, scratch, u, store, d1)"
    by (cases "fv_auth_read SL (vp_sd p) lba BATCH (4, bc_scratch c) (bc_sectors c, d)") auto
  have ok: "br = FV_BLOCK_OK" "u = 0" using assms rd by (auto simp: Let_def read_error_def split: if_splits)
  obtain sha' where sha: "sha_absorb SL sha scratch = Some sha'"
    using assms rd ok by (cases "sha_absorb SL sha scratch") (auto simp: Let_def)
  show thesis
    by (rule that [OF rd [unfolded ok] sha])
      (use assms rd ok sha in \<open>auto simp: Let_def split: option.splits\<close>)
qed

lemma read_image_loop_digest:
  assumes law: "disk_law (vp_sd p) cells"
  shows "read_image_loop SL p lbas c output sha d = (FV_FIDO_STORE_OK, out, digest, c', d') \<Longrightarrow> bank_inv p cells bank c d \<Longrightarrow>
    image_digest SL cells c d sha lbas = Some digest \<and> same_bank c c'"
proof (induction lbas arbitrary: c "output" sha d)
  case Nil
  then show ?case by (auto simp: image_digest_def split: option.splits)
next
  case (Cons lba lbas)
  obtain scratch store d1 sha' where rd: "fv_auth_read SL (vp_sd p) lba BATCH (4, bc_scratch c) (bc_sectors c, d) = (FV_BLOCK_OK, scratch, 0, store, d1)"
    and sha: "sha_absorb SL sha scratch = Some sha'"
    and rest: "case output of None \<Rightarrow> read_image_loop SL p lbas (c\<lparr>bc_sectors := store, bc_scratch := scratch\<rparr>) None sha' d1 =
         (FV_FIDO_STORE_OK, out, digest, c', d')
     | Some img \<Rightarrow> (\<exists>plain. crypt_sectors (bc_pipeline c) False no_unset lba 4 [0..<BATCH] scratch = Some plain \<and>
         read_image_loop SL p lbas (c\<lparr>bc_sectors := store, bc_scratch := plain\<rparr>) (Some (memcpy img (lba * 512) plain)) sha' d1 =
           (FV_FIDO_STORE_OK, out, digest, c', d'))"
    using read_image_loop_step [OF Cons.prems(1)] by blast
  note b = batch_read [OF law Cons.prems(2) rd]
  obtain buf out1 where r: "read_image_loop SL p lbas (c\<lparr>bc_sectors := store, bc_scratch := buf\<rparr>) out1 sha' d1 = (FV_FIDO_STORE_OK, out, digest, c', d')"
    and lb: "length buf = 4096"
    using rest b(1) by (cases "output") (auto simp: BATCH_def dest: crypt_sectors_length)
  have sb: "same_bank c (c\<lparr>bc_sectors := store, bc_scratch := buf\<rparr>)" using b(3) by (simp add: same_bank_def)
  have ih: "image_digest SL cells (c\<lparr>bc_sectors := store, bc_scratch := buf\<rparr>) d1 sha' lbas = Some digest \<and>
      same_bank (c\<lparr>bc_sectors := store, bc_scratch := buf\<rparr>) c'"
    by (rule Cons.IH [OF r b(2) [OF lb]])
  have "image_digest SL cells c d sha' lbas = Some digest" using ih image_digest_same [OF sb b(4), of SL] by simp
  then show ?case using sha ih same_bank_trans [OF sb] unfolding image_digest_def by (simp flip: b(6))
qed

text \<open>What a complete read returned is what the bank stores.\<close>

lemma bank_stores_cong: "span img (x * 512) 512 = span img' (x * 512) 512 \<Longrightarrow> bank_stores SL cells c d img x \<longleftrightarrow> bank_stores SL cells c d img' x"
  by (simp add: bank_stores_def)

lemma bank_stores_unique:
  "bank_stores SL cells c d img x \<Longrightarrow> bank_stores SL cells c d img' x \<Longrightarrow> span img (x * 512) 512 = span img' (x * 512) 512"
  by (auto simp: bank_stores_def)

lemma read_image_loop_stores:
  assumes law: "disk_law (vp_sd p) cells"
  shows "read_image_loop SL p lbas c (Some out) sha d = (FV_FIDO_STORE_OK, out', digest, c', d') \<Longrightarrow> bank_inv p cells bank c d \<Longrightarrow>
    (\<forall>lba \<in> set lbas. lba * 512 + 4096 \<le> length out) \<Longrightarrow>
    (\<exists>res. out' = Some res \<and> length res = length out \<and>
      (\<forall>x. in_batch lbas x \<or> bank_stores SL cells c d out x \<longrightarrow> bank_stores SL cells c d res x) \<and>
      (\<forall>x. \<not> in_batch lbas x \<longrightarrow> span res (x * 512) 512 = span out (x * 512) 512))"
proof (induction lbas arbitrary: c out sha d)
  case Nil
  then show ?case by (auto simp: in_batch_def split: option.splits)
next
  case (Cons lba lbas)
  obtain scratch store d1 sha' plain where rd: "fv_auth_read SL (vp_sd p) lba BATCH (4, bc_scratch c) (bc_sectors c, d) = (FV_BLOCK_OK, scratch, 0, store, d1)"
    and cs: "crypt_sectors (bc_pipeline c) False no_unset lba 4 [0..<BATCH] scratch = Some plain"
    and rest: "read_image_loop SL p lbas (c\<lparr>bc_sectors := store, bc_scratch := plain\<rparr>) (Some (memcpy out (lba * 512) plain)) sha' d1 =
           (FV_FIDO_STORE_OK, out', digest, c', d')"
    by (rule read_image_loop_step [OF Cons.prems(1)]) auto
  define c1 where "c1 = c\<lparr>bc_sectors := store, bc_scratch := plain\<rparr>"
  define out1 where "out1 = memcpy out (lba * 512) plain"
  note b = batch_read [OF law Cons.prems(2) rd]
  note lp = crypt_sectors_length [OF cs]
  have inv1: "bank_inv p cells bank c1 d1" using b(1,2) lp by (simp add: c1_def BATCH_def)
  have sb: "same_bank c c1" using b(3) by (simp add: same_bank_def c1_def)
  have lo: "lba * 512 + 4096 \<le> length out" using Cons.prems(3) by simp
  have other: "span out1 (x * 512) 512 = span out (x * 512) 512" if "\<not> (lba \<le> x \<and> x < lba + BATCH)" for x
    using that lp b(1) unfolding out1_def by (intro span_memcpy_other) (auto simp: BATCH_def)
  have new: "bank_stores SL cells c d out1 x" if "lba \<le> x" "x < lba + BATCH" for x
  proof -
    from that obtain k where k: "x = lba + k" "k < BATCH" by (metis add_less_cancel_left le_iff_add)
    have "span (memcpy out (lba * 512) plain) (lba * 512) 4096 = plain"
      using lo lp b(1) by (intro span_memcpy_same) (auto simp: BATCH_def)
    then have "span out1 (x * 512) 512 = span plain (k * 512) 512"
      using span_span [of "k * 512" 512 4096 out1 "lba * 512"] k by (simp add: out1_def BATCH_def algebra_simps)
    then show ?thesis
      using sector_crypt_address [OF crypt_batch [OF cs b(1) k(2)], of 0] b(5) [OF k(2)] k(1) by (simp add: bank_stores_def)
  qed
  have "\<exists>res. out' = Some res \<and> length res = length out1 \<and>
      (\<forall>x. in_batch lbas x \<or> bank_stores SL cells c1 d1 out1 x \<longrightarrow> bank_stores SL cells c1 d1 res x) \<and>
      (\<forall>x. \<not> in_batch lbas x \<longrightarrow> span res (x * 512) 512 = span out1 (x * 512) 512)"
    by (rule Cons.IH [OF rest [folded c1_def out1_def] inv1]) (use Cons.prems(3) in \<open>simp add: out1_def\<close>)
  then obtain res where r: "out' = Some res" "length res = length out1"
    "\<And>x. in_batch lbas x \<or> bank_stores SL cells c d out1 x \<Longrightarrow> bank_stores SL cells c d res x"
    "\<And>x. \<not> in_batch lbas x \<Longrightarrow> span res (x * 512) 512 = span out1 (x * 512) 512"
    using same_bank_stores [OF sb b(4), of SL] by auto
  have "bank_stores SL cells c d res x" if "in_batch (lba # lbas) x \<or> bank_stores SL cells c d out x" for x
  proof (cases "lba \<le> x \<and> x < lba + BATCH")
    case True
    then show ?thesis using r(3) new by blast
  next
    case False
    then show ?thesis using r(3) [of x] that bank_stores_cong [OF other [OF False], of SL cells c d] by (auto simp: in_batch_def)
  qed
  then show ?case using r other by (auto simp: in_batch_def out1_def)
qed

lemma crypt_sectors_total:
  assumes "distinct js" "\<forall>k \<in> set js. k < BATCH" "length buf = 4096"
    "\<forall>k \<in> set js. \<exists>m. sector_crypt pl write (lba + k) (0, span buf (k * 512) 512) = (FV_OK, m)"
  shows "\<exists>out. crypt_sectors pl write no_unset lba 4 js buf = Some out"
  using assms
proof (induction js arbitrary: buf)
  case (Cons k js)
  have k: "k < BATCH" using Cons.prems(2) by simp
  obtain m where "sector_crypt pl write (lba + k) (0, span buf (k * 512) 512) = (FV_OK, m)" using Cons.prems(4) by auto
  from sector_crypt_address [OF this, of "4 + k * 512"]
  have m: "sector_crypt pl write (lba + k) (4 + k * 512, span buf (k * 512) 512) = (FV_OK, m)" .
  have lm: "length m = 512" using sector_crypt_length [OF m] Cons.prems(3) k by (simp add: BATCH_def)
  have "span (memcpy buf (k * 512) m) (j * 512) 512 = span buf (j * 512) 512" if "j \<in> set js" for j
  proof -
    have "j \<noteq> k" using that Cons.prems(1) by auto
    then show ?thesis using lm by (intro span_memcpy_other) (cases "j < k", auto)
  qed
  then have "\<exists>out. crypt_sectors pl write no_unset lba 4 js (memcpy buf (k * 512) m) = Some out"
    using Cons.prems by (intro Cons.IH) auto
  then show ?case using m not_no_unset [of k] k by (auto simp: Let_def BATCH_def sector_crypt_def split: prod.splits)
qed simp

text \<open>On a card that does not fail, with a hash that does not fail, a complete image is read.\<close>

lemma read_image_loop_live:
  assumes law: "disk_law (vp_sd p) cells" and rel: "reliable (vp_sd p)" and tot: "sha_total SL"
  shows "bank_inv p cells bank c d \<Longrightarrow> as_ready (bc_sectors c) \<Longrightarrow> (\<forall>x. in_batch lbas x \<longrightarrow> x < bc_image_sectors c \<and> bank_stores SL cells c d img x) \<Longrightarrow>
    \<exists>out' digest c' d'. read_image_loop SL p lbas c output sha d = (FV_FIDO_STORE_OK, out', digest, c', d') \<and> (out' = None \<longleftrightarrow> output = None)"
proof (induction lbas arbitrary: c "output" sha d)
  case Nil
  obtain dg where "sha_finish SL sha = Some dg" using tot unfolding sha_total_def by blast
  then show ?case by simp
next
  case (Cons lba lbas)
  have i: "store_inv cells (bc_sectors c) d" "length (bc_scratch c) = BATCH * 512"
    using Cons.prems(1) by (auto simp: bank_inv_def BATCH_def)
  have "in_batch (lba # lbas) (lba + 7)" by (auto simp: in_batch_def BATCH_def)
  then have "lba + 7 < bc_image_sectors c" using Cons.prems(3) by blast
  then have v: "store_validate (bc_sectors c) lba BATCH 4 = FV_BLOCK_OK"
    using Cons.prems(1,2) by (auto simp: store_validate_def bank_inv_def BATCH_def FV_AUTH_MAX_BATCH_SECTORS_def)
  have st: "bank_stores SL cells c d img (lba + k)" if "k < BATCH" for k
    using Cons.prems(3) that by (auto simp: in_batch_def)
  have "\<forall>k < BATCH. sector_lookup SL cells (bc_sectors c) d (lba + k) \<noteq> Sector_Corrupt"
    using st by (fastforce simp: bank_stores_def)
  from auth_read_reliable [OF rel law i(1) v i(2) this]
  obtain scratch us store d1 where rb: "fv_auth_read_batch SL (vp_sd p) lba BATCH (4, bc_scratch c) (bc_sectors c, d) = (FV_BLOCK_OK, scratch, us, store, d1)"
    by blast
  note s = read_batch_sound [OF law i rb]
  have un: "\<not> fv_auth_sector_unset us k" if "k < BATCH" for k
    using s st [OF that] that by (fastforce simp: bank_stores_def)
  have u0: "us ! 0 = 0"
  proof (rule bit_word_eqI)
    fix k
    assume k: "k < LENGTH(64)"
    have rs: "read_states lba store [0..<BATCH] no_unset = (FV_BLOCK_OK, us)" using rb by (auto simp: read_batch_ok_iff)
    have "fv_auth_sector_unset us k \<longrightarrow> k < BATCH"
      using read_states_spec [OF rs] k not_no_unset [of k] by (auto simp: no_unset_def BATCH_def)
    then have "\<not> fv_auth_sector_unset us k" using un by blast
    then show "bit (us ! 0) k \<longleftrightarrow> bit (0 :: u64) k" using k by (simp add: sector_unset_iff)
  qed
  have rd: "fv_auth_read SL (vp_sd p) lba BATCH (4, bc_scratch c) (bc_sectors c, d) = (FV_BLOCK_OK, scratch, 0, store, d1)"
    using rb u0 by (simp add: fv_auth_read_def BATCH_def)
  note b = batch_read [OF law Cons.prems(1) rd]
  obtain sha' where sha: "sha_absorb SL sha scratch = Some sha'"
    using tot unfolding sha_total_def by blast
  have ready: "as_ready store" using read_batch_ready [OF law i(1) rb] .
  have next': "\<exists>out' digest c' d'. read_image_loop SL p lbas (c\<lparr>bc_sectors := store, bc_scratch := buf\<rparr>) out1 sha' d1 =
      (FV_FIDO_STORE_OK, out', digest, c', d') \<and> (out' = None \<longleftrightarrow> out1 = None)" if "length buf = 4096" for buf out1
  proof (rule Cons.IH [OF b(2) [OF that]])
    have "same_bank c (c\<lparr>bc_sectors := store, bc_scratch := buf\<rparr>)" using b(3) by (simp add: same_bank_def)
    from same_bank_stores [OF this b(4), of SL]
    show "\<forall>x. in_batch lbas x \<longrightarrow> x < bc_image_sectors (c\<lparr>bc_sectors := store, bc_scratch := buf\<rparr>) \<and>
        bank_stores SL cells (c\<lparr>bc_sectors := store, bc_scratch := buf\<rparr>) d1 img x"
      using Cons.prems(3) by (auto simp: in_batch_def)
  qed (simp add: ready)
  show ?case
  proof (cases "output")
    case None
    then show ?thesis using rd sha next' [of scratch None] b(1) by (simp add: Let_def BATCH_def)
  next
    case (Some out)
    have "\<exists>m. sector_crypt (bc_pipeline c) False (lba + k) (0, span scratch (k * 512) 512) = (FV_OK, m)" if "k < BATCH" for k
      using st [OF that] b(5) [OF that] by (auto simp: bank_stores_def)
    then obtain plain where plain: "crypt_sectors (bc_pipeline c) False no_unset lba 4 [0..<BATCH] scratch = Some plain"
      using crypt_sectors_total [of "[0..<BATCH]" scratch "bc_pipeline c" False lba] b(1) by (auto simp: BATCH_def)
    show ?thesis
      using rd sha Some plain next' [of plain "Some (memcpy out (lba * 512) plain)"] b(1) crypt_sectors_length [OF plain]
      by (simp add: Let_def BATCH_def)
  qed
qed


section \<open>Manifests\<close>

lemma length_manifest_body [simp]: "length (manifest_body v snap) = 512"
  by (simp add: manifest_body_def Let_def)

lemma length_encode_manifest: "encode_manifest SL v snap key = Some m \<Longrightarrow> length m = 512"
  by (auto simp: encode_manifest_def Let_def split: option.splits)

lemma encode_manifest_candidate:
  assumes "encode_manifest SL v snap key = Some m"
    and "sn_image_bytes snap = 65536 \<or> sn_image_bytes snap = FV_FIDO_STORE_BYTES"
    and "length (sn_digest snap) = 32" "length (volume_id (ec_volume (v_config v))) = 16"
  shows "manifest_candidate (sn_bank snap) m = snap" "get m 24 4 = of_nat (sn_image_bytes snap)"
proof -
  obtain hash tag where e: "m = memcpy (memcpy (manifest_body v snap) 80 hash) 480 tag"
    using assms(1) by (auto simp: encode_manifest_def Let_def split: option.splits)
  have f: "get (manifest_body v snap) 24 4 = of_nat (sn_image_bytes snap)" "get (manifest_body v snap) 16 8 = sn_generation snap"
    "span (manifest_body v snap) 48 32 = sn_digest snap"
    using assms(2-4) by (auto simp: manifest_body_def Let_def buffer_simps FV_FIDO_STORE_BYTES_def)
  show "get m 24 4 = of_nat (sn_image_bytes snap)" using f by (simp add: e buffer_simps)
  show "manifest_candidate (sn_bank snap) m = snap"
    using f assms(2) by (auto simp: e buffer_simps manifest_candidate_def FV_FIDO_STORE_BYTES_def)
qed

lemma encoded_authentic:
  assumes "encode_manifest SL v snap key = Some m" "derive SL v ''FV2/fido-manifest/v1'' (sn_bank snap) 0 32 = Some key"
    and "sn_image_bytes snap = FV_FIDO_STORE_BYTES" "sn_generation snap \<noteq> 0"
    and "length (sn_digest snap) = 32" "length (volume_id (ec_volume (v_config v))) = 16"
  shows "authentic SL v (sn_bank snap) m"
  using encode_manifest_candidate [OF assms(1) _ assms(5,6)] assms(1-4) by (auto simp: authentic_def)

section \<open>Writing a snapshot\<close>

text \<open>The view of a bank depends only on the blocks of its store.\<close>

lemma lookup_region:
  assumes "as_bitmap_blocks s = 0" "\<And>a. as_base s \<le> a \<Longrightarrow> cells d' a = cells d a" "as_base s \<le> as_data_base s"
  shows "sector_lookup SL cells s d' = sector_lookup SL cells s d"
proof
  fix x
  have m: "meta_view cells s d' = meta_view cells s d" using assms(1,2) by (auto simp: fun_eq_iff meta_view_def)
  have c: "cells d' (as_data_base s + x) = cells d (as_data_base s + x)" using assms(2,3) by simp
  show "sector_lookup SL cells s d' x = sector_lookup SL cells s d x"
    unfolding sector_lookup_def sector_state_def sector_tag_def m c ..
qed

lemma batches_cover: "n = 128 \<or> n = 256 \<Longrightarrow> in_batch (batches n) x \<longleftrightarrow> x < n"
proof -
  assume n: "n = 128 \<or> n = 256"
  then have c: "div_ceil n BATCH * 8 = n" by (auto simp: div_ceil_def BATCH_def)
  show ?thesis
  proof
    assume "x < n"
    then have "x div 8 < div_ceil n BATCH" using c by (metis less_mult_imp_div_less)
    then show "in_batch (batches n) x" by (auto simp: in_batch_def batches_def BATCH_def intro!: bexI [of _ "x div 8"])
  next
    assume "in_batch (batches n) x"
    then obtain i where i: "i < div_ceil n BATCH" "x < i * 8 + 8" by (auto simp: in_batch_def batches_def BATCH_def)
    have "Suc i \<le> div_ceil n BATCH" using i(1) by simp
    then have "Suc i * 8 \<le> div_ceil n BATCH * 8" by (rule mult_le_mono1)
    then show "x < n" using c i(2) by simp
  qed
qed

lemma batches_fit: "n = 128 \<or> n = 256 \<Longrightarrow> lba \<in> set (batches n) \<Longrightarrow> lba * 512 + 4096 \<le> n * 512"
proof -
  assume n: "n = 128 \<or> n = 256" and "lba \<in> set (batches n)"
  then have "in_batch (batches n) (lba + 7)" by (auto simp: in_batch_def BATCH_def intro!: bexI [of _ lba])
  then show "lba * 512 + 4096 \<le> n * 512" using batches_cover [OF n] by auto
qed

lemma publish_snapshot_spec:
  assumes law: "disk_law (vp_sd p) cells" and inv: "bank_inv p cells (sn_bank snap) c d"
    and run: "publish_snapshot SL p v snap c d = (r, d')"
  shows "same_outside p cells (\<lambda>a. a = bank_base (sn_bank snap)) d d' \<and>
    (r = FV_FIDO_STORE_OK \<longrightarrow> encode_manifest SL v snap (bc_manifest_key c) = Some (cells d' (bank_base (sn_bank snap))) \<and>
       (\<exists>sha digest. sha_starts SL = Some sha \<and> image_digest SL cells c d sha (batches (bc_image_sectors c)) = Some digest \<and>
          fv_tag_equal digest (sn_digest snap)))"
proof -
  define c0 where "c0 = c\<lparr>bc_sectors := (bc_sectors c)\<lparr>as_cache_count := 0\<rparr>\<rparr>"
  have inv0: "bank_inv p cells (sn_bank snap) c0 d" and sb: "same_bank c c0"
    using inv by (auto simp: c0_def bank_inv_def store_inv_def geometry_inv_def bitmap_inv_def cache_inv_def same_bank_def same_config_def)
  obtain r1 o1 dg c1 d1 where rd: "read_image SL p c0 None d = (r1, o1, dg, c1, d1)" by (cases "read_image SL p c0 None d") auto
  have f: "cells d1 = cells d" using read_image_frame [OF law rd inv0] by auto
  show ?thesis
  proof (cases "r1 = FV_FIDO_STORE_OK \<and> fv_tag_equal dg (sn_digest snap) \<and> encode_manifest SL v snap (bc_manifest_key c1) \<noteq> None")
    case False
    then have "r \<noteq> FV_FIDO_STORE_OK \<and> d' = d1"
      using run rd by (auto simp: publish_snapshot_def c0_def [symmetric] split: option.splits if_splits)
    then show ?thesis using f by (auto intro: same_outsideI)
  next
    case True
    then obtain m where m: "encode_manifest SL v snap (bc_manifest_key c1) = Some m" by auto
    obtain sha c2 where sha: "sha_starts SL = Some sha" and lp: "read_image_loop SL p (batches (bc_image_sectors c0)) c0 None sha d = (FV_FIDO_STORE_OK, o1, dg, c2, d1)"
      and c1: "c1 = c2\<lparr>bc_scratch := zeros (BATCH * 512)\<rparr>"
      using rd True by (auto simp: read_image_def split: option.splits prod.splits)
    note dl = read_image_loop_digest [OF law lp inv0]
    have key: "bc_manifest_key c1 = bc_manifest_key c" using dl sb by (simp add: c1 same_bank_def)
    have "image_digest SL cells c d sha (batches (bc_image_sectors c)) = Some dg"
      using dl image_digest_same [OF sb refl, where SL = SL and cells = cells and d = d] by (simp add: c0_def)
    moreover obtain ok d2 where ps: "put_sector p (bank_base (sn_bank snap)) m d1 = (ok, d2)"
      by (cases "put_sector p (bank_base (sn_bank snap)) m d1")
    moreover obtain r3 verify d3 where vf: "blk_read (vp_sd p) d2 (bank_base (sn_bank snap)) 1 = (r3, verify, d3)"
      by (cases "blk_read (vp_sd p) d2 (bank_base (sn_bank snap)) 1") auto
    moreover note p = put_sector_spec [OF law ps length_encode_manifest [OF m]]
    moreover note g = read_one [OF law vf]
    ultimately show ?thesis
      using run rd f True m sha key
      by (auto simp: publish_snapshot_def c0_def [symmetric] same_outside_def split: if_splits bool.splits)
  qed
qed


lemma write_snapshot_spec:
  assumes law: "disk_law (vp_sd p) cells" and dl: "digest_law SL" and cl: "cipher_law L"
    and len: "length img = FV_FIDO_STORE_BYTES" and bytes: "sn_image_bytes snap = FV_FIDO_STORE_BYTES"
    and run: "write_snapshot SL L p v snap img d = (r, snap', d')"
  shows "same_outside p cells (in_bank (sn_bank snap)) d d' \<and>
    (r = FV_FIDO_STORE_OK \<longrightarrow> (\<exists>c digest. snap' = snap\<lparr>sn_digest := digest\<rparr> \<and> length digest = 32 \<and>
       bank_open SL L p v (sn_bank snap) FV_FIDO_STORE_BYTES d = Some c \<and>
       encode_manifest SL v snap' (bc_manifest_key c) = Some (cells d' (bank_base (sn_bank snap))) \<and>
       (\<forall>x < 256. bank_stores SL cells c d' img x) \<and>
       (\<exists>sha dg. sha_starts SL = Some sha \<and> image_digest SL cells c d' sha (batches 256) = Some dg \<and> fv_tag_equal dg digest)))"
proof (cases "bank_open SL L p v (sn_bank snap) (sn_image_bytes snap) d")
  case None
  then show ?thesis using run by (auto simp: write_snapshot_def)
next
  case (Some c)
  define B where "B = in_bank (sn_bank snap)"
  define bb where "bb = bank_base (sn_bank snap)"
  have bb: "B bb" by (simp add: B_def bb_def in_bank_def FV_FIDO_BANK_SECTORS_def)
  have weak: "same_outside p cells B x y" if "same_outside p cells (\<lambda>a. a = bb) x y" for x y
    using that bb by (auto simp: same_outside_def)
  note o = bank_open_spec(2-4) [OF Some] bank_open_spec(5) [OF Some cl]
  have inv: "bank_inv p cells (sn_bank snap) c d" by (rule bank_open_spec(1) [OF Some])
  have n: "bc_image_sectors c = 256" using o(3) by (simp add: bytes FV_FIDO_STORE_BYTES_def)
  obtain ok1 d1 where ps: "put_sector p bb (zeros 512) d = (ok1, d1)" by (cases "put_sector p bb (zeros 512) d")
  note s1 = weak [OF conjunct1 [OF put_sector_spec [OF law ps, simplified]]]
  note run1 = run [unfolded write_snapshot_def Some option.case, folded bb_def]
  have inv1: "bank_inv p cells (sn_bank snap) c d1" if "ok1" by (rule bank_open_spec(1) [OF Some])
  show ?thesis
  proof (cases ok1)
    case False
    then show ?thesis using run1 ps s1 by (auto simp: B_def)
  next
    case ok1: True
    obtain r2 store d2 where fm: "fv_auth_format (vp_sd p) (bc_sectors c) d1 = (r2, store, d2)"
      by (cases "fv_auth_format (vp_sd p) (bc_sectors c) d1") auto
    have b1: "store_inv cells (bc_sectors c) d1" "as_bitmap_blocks (bc_sectors c) = 0"
      "as_base (bc_sectors c) = bb + 1" using inv1 [OF ok1] by (auto simp: bank_inv_def bb_def)
    note ff = auth_format_frame [OF law b1(1,2) fm]
    have s2: "same_outside p cells B d d2"
    proof -
      have "same_outside p cells B d1 d2"
        using ff bank_inv_region [OF inv1 [OF ok1]] b1(3) by (auto simp: same_outside_def B_def in_bank_def bb_def)
      with s1 show ?thesis by (rule same_outside_trans)
    qed
    show ?thesis
    proof (cases "r2 = FV_BLOCK_OK \<and> sha_starts SL \<noteq> None")
      case False
      then show ?thesis using run1 ps ok1 fm s2 by (auto simp: B_def split: if_splits option.splits)
    next
      case True
      then obtain sha where sha: "sha_starts SL = Some sha" by auto
      define c1 where "c1 = c\<lparr>bc_sectors := store\<rparr>"
      have inv2: "bank_inv p cells (sn_bank snap) c1 d2" and sb1: "same_bank c c1"
        using inv1 [OF ok1] ff True by (auto simp: bank_inv_def c1_def same_bank_def same_config_def)
      obtain dg c2 d3 where wl: "write_image_loop SL p (batches (bc_image_sectors c)) img c1 sha d2 = (dg, c2, d3)"
        by (cases "write_image_loop SL p (batches (bc_image_sectors c)) img c1 sha d2") auto
      have fit: "\<forall>lba \<in> set (batches (bc_image_sectors c)). lba * 512 + 4096 \<le> length img"
        using batches_fit [of 256] by (auto simp: n len FV_FIDO_STORE_BYTES_def)
      have s3: "same_outside p cells B d d3"
        using same_outside_trans [OF s2 write_image_loop_frame [OF law dl wl inv2 fit, folded B_def]] .
      show ?thesis
      proof (cases dg)
        case None
        then show ?thesis using run1 ps ok1 fm True sha wl s3 by (auto simp: B_def c1_def)
      next
        case dg: (Some digest)
        have spec: "bank_inv p cells (sn_bank snap) c2 d3 \<and> same_bank c1 c2 \<and>
            (\<forall>x < bc_image_sectors c1. in_batch (batches (bc_image_sectors c)) x \<or> bank_stores SL cells c1 d2 img x \<longrightarrow> bank_stores SL cells c2 d3 img x) \<and>
            length digest = 32"
          by (rule write_image_loop_spec [OF law dl wl [unfolded dg] inv2 _ fit]) (use o(4) in \<open>simp add: c1_def\<close>)
        define snap1 where "snap1 = snap\<lparr>sn_digest := digest\<rparr>"
        obtain r4 d4 where sy: "blk_sync (vp_sd p) d3 = (r4, d4)" by (cases "blk_sync (vp_sd p) d3")
        note g = disk_lawD(7) [OF law sy]
        have s4: "same_outside p cells B d d4" using same_outside_trans [OF s3 same_outsideI [OF g]] .
        have sb2: "same_bank c c2" using same_bank_trans [OF sb1] spec by blast
        show ?thesis
        proof (cases "r4 = FV_BLOCK_OK")
          case False
          then show ?thesis using run1 ps ok1 fm True sha wl dg sy s4 by (auto simp: B_def c1_def Let_def)
        next
          case r4: True
          have inv4: "bank_inv p cells (sn_bank snap1) c2 d4"
            using spec g by (auto simp: bank_inv_def snap1_def intro: store_inv_cong)
          obtain r5 d5 where pb: "publish_snapshot SL p v snap1 c2 d4 = (r5, d5)" by (cases "publish_snapshot SL p v snap1 c2 d4")
          note P = publish_snapshot_spec [OF law inv4 pb]
          have res: "r = r5" "snap' = snap1" "d' = d5"
            using run1 ps ok1 fm True sha wl dg sy r4 pb by (auto simp: c1_def snap1_def Let_def)
          have sb': "sn_bank snap1 = sn_bank snap" by (simp add: snap1_def)
          have s5: "same_outside p cells B d d5" using same_outside_trans [OF s4 weak] P by (simp add: sb' bb_def)
          have keep: "cells d5 a = cells d4 a" if "as_base (bc_sectors c2) \<le> a" for a
            using P that inv4 by (auto simp: same_outside_def bank_inv_def)
          have look: "sector_lookup SL cells (bc_sectors c2) d5 = sector_lookup SL cells (bc_sectors c2) d4"
            by (rule lookup_region) (use keep inv4 in \<open>auto simp: bank_inv_def store_inv_def geometry_inv_def\<close>)
          have lookc: "sector_lookup SL cells (bc_sectors c) d5 = sector_lookup SL cells (bc_sectors c2) d5"
            using same_bank_lookup [OF sb2 refl, where SL = SL and cells = cells and d = d5] by simp
          have st: "bank_stores SL cells c d5 img x" if "x < 256" for x
          proof -
            have "bank_stores SL cells c2 d3 img x"
              using spec that batches_cover [of 256 x] n by (simp add: c1_def)
            then show ?thesis
              using same_bank_lookup [OF same_bank_refl g, where SL = SL and c = c2] look lookc sb2
              by (simp add: bank_stores_def same_bank_def)
          qed
          have "bank_data SL cells c d5 = bank_data SL cells c2 d4" by (rule ext) (simp add: bank_data_def look lookc)
          then have dgst: "image_digest SL cells c d5 = image_digest SL cells c2 d4"
            by (intro ext) (simp add: image_digest_def)
          have k2: "bc_manifest_key c2 = bc_manifest_key c" "bc_image_sectors c2 = 256" using sb2 n by (auto simp: same_bank_def)
          show ?thesis
          proof (intro conjI impI)
            show "same_outside p cells (in_bank (sn_bank snap)) d d'" using s5 res by (simp add: B_def)
            assume "r = FV_FIDO_STORE_OK"
            then have E: "encode_manifest SL v snap1 (bc_manifest_key c2) = Some (cells d5 (bank_base (sn_bank snap1)))"
              and D: "\<exists>sha dg. sha_starts SL = Some sha \<and> image_digest SL cells c2 d4 sha (batches 256) = Some dg \<and> fv_tag_equal dg digest"
              using P res k2 by (auto simp: snap1_def)
            show "\<exists>c digest. snap' = snap\<lparr>sn_digest := digest\<rparr> \<and> length digest = 32 \<and>
               bank_open SL L p v (sn_bank snap) FV_FIDO_STORE_BYTES d = Some c \<and>
               encode_manifest SL v snap' (bc_manifest_key c) = Some (cells d' (bank_base (sn_bank snap))) \<and>
               (\<forall>x < 256. bank_stores SL cells c d' img x) \<and>
               (\<exists>sha dg. sha_starts SL = Some sha \<and> image_digest SL cells c d' sha (batches 256) = Some dg \<and> fv_tag_equal dg digest)"
              using res Some bytes spec E D st dgst k2(1)
              by (intro exI [of _ c] exI [of _ digest]) (auto simp: snap1_def)
          qed
        qed
      qed
    qed
  qed
qed


section \<open>Commit and open\<close>

lemma in_bank_disjoint: "bank \<le> 1 \<Longrightarrow> in_bank (bank XOR 1) a \<Longrightarrow> \<not> in_bank bank a"
  by (cases "bank = 0") (auto simp: in_bank_def bank_base_def FV_FIDO_BANK_SECTORS_def le_Suc_eq)

lemma xor_1_cases: "bank < 2 \<Longrightarrow> bank XOR 1 < (2 :: nat) \<and> bank XOR 1 \<noteq> bank"
  by (cases "bank = 0") (auto simp: less_2_cases_iff)

lemma commit_snapshot_spec:
  assumes law: "disk_law (vp_sd p) cells" and dl: "digest_law SL" and cl: "cipher_law L" and len: "length img = FV_FIDO_STORE_BYTES"
    and run: "commit_snapshot SL L p v s img d = (r, s', d')"
  shows "same_outside p cells (in_bank (fs_bank s XOR 1)) d d' \<and>
    (r = FV_FIDO_STORE_OK \<longrightarrow> (\<exists>current c digest d1.
       scan SL p v d = (FV_FIDO_STORE_OK, Some current, d1) \<and> cells d1 = cells d \<and>
       sn_bank current = fs_bank s \<and> sn_generation current \<noteq> UINT64_MAX \<and> sn_generation current = fs_generation s \<and>
       length digest = 32 \<and> s' = bind_store v \<lparr>sn_generation = sn_generation current + 1, sn_bank = fs_bank s XOR 1,
           sn_image_bytes = FV_FIDO_STORE_BYTES, sn_digest = digest\<rparr> \<and>
       bank_open SL L p v (fs_bank s XOR 1) FV_FIDO_STORE_BYTES d1 = Some c \<and>
       encode_manifest SL v \<lparr>sn_generation = sn_generation current + 1, sn_bank = fs_bank s XOR 1,
           sn_image_bytes = FV_FIDO_STORE_BYTES, sn_digest = digest\<rparr> (bc_manifest_key c) =
         Some (cells d' (bank_base (fs_bank s XOR 1))) \<and>
       (\<forall>x < 256. bank_stores SL cells c d' img x) \<and>
       (\<exists>sha dg. sha_starts SL = Some sha \<and> image_digest SL cells c d' sha (batches 256) = Some dg \<and> fv_tag_equal dg digest)))"
proof -
  obtain r1 out d1 where sc: "scan SL p v d = (r1, out, d1)" by (cases "scan SL p v d") auto
  note f = scan_frame [OF law sc]
  have fc: "cells d1 = cells d"
    using f [of "\<lambda>_. False"] by (auto simp: same_outside_def)
  show ?thesis
  proof (cases "r1 = FV_FIDO_STORE_OK \<and> (\<exists>cur. out = Some cur \<and> sn_generation cur = fs_generation s \<and> sn_bank cur = fs_bank s \<and>
        fv_tag_equal (sn_digest cur) (fs_digest s) \<and> sn_generation cur \<noteq> UINT64_MAX)")
    case False
    moreover have "r1 = FV_FIDO_STORE_OK \<Longrightarrow> out \<noteq> None" using scan_newest [OF law] sc by blast
    ultimately have "r \<noteq> FV_FIDO_STORE_OK \<and> d' = d1"
      using run sc by (cases r1; cases out) (auto simp: commit_snapshot_def split: if_splits)
    then show ?thesis using f by auto
  next
    case True
    then obtain cur where cur: "r1 = FV_FIDO_STORE_OK" "out = Some cur" "sn_generation cur = fs_generation s" "sn_bank cur = fs_bank s"
        "fv_tag_equal (sn_digest cur) (fs_digest s)" "sn_generation cur \<noteq> UINT64_MAX" by blast
    define nxt where "nxt = \<lparr>sn_generation = sn_generation cur + 1, sn_bank = sn_bank cur XOR 1,
                      sn_image_bytes = FV_FIDO_STORE_BYTES, sn_digest = zeros 32\<rparr>"
    obtain r2 nxt' d2 where w: "write_snapshot SL L p v nxt img d1 = (r2, nxt', d2)"
      by (cases "write_snapshot SL L p v nxt img d1") auto
    have res: "r = r2" "d' = d2" "r = FV_FIDO_STORE_OK \<longrightarrow> s' = bind_store v nxt'"
      using run sc cur w by (auto simp: commit_snapshot_def nxt_def Let_def)
    have nb: "sn_bank nxt = fs_bank s XOR 1" "sn_image_bytes nxt = FV_FIDO_STORE_BYTES" by (auto simp: nxt_def cur)
    note W = write_snapshot_spec [OF law dl cl len nb(2) w, unfolded nb]
    have "same_outside p cells (in_bank (fs_bank s XOR 1)) d d'" using same_outside_trans [OF f] W res by blast
    moreover {
      assume "r = FV_FIDO_STORE_OK"
      then obtain c digest where "nxt' = nxt\<lparr>sn_digest := digest\<rparr>" "length digest = 32"
        "bank_open SL L p v (fs_bank s XOR 1) FV_FIDO_STORE_BYTES d1 = Some c"
        "encode_manifest SL v nxt' (bc_manifest_key c) = Some (cells d2 (bank_base (fs_bank s XOR 1)))"
        "\<forall>x < 256. bank_stores SL cells c d2 img x"
        "\<exists>sha dg. sha_starts SL = Some sha \<and> image_digest SL cells c d2 sha (batches 256) = Some dg \<and> fv_tag_equal dg digest"
        using W res by blast
      then have ?thesis using calculation sc cur fc res \<open>r = FV_FIDO_STORE_OK\<close>
        by (intro conjI [OF calculation] impI)
          (rule exI [of _ cur], rule exI [of _ c], rule exI [of _ digest], rule exI [of _ d1], simp add: nxt_def)
    }
    ultimately show ?thesis by blast
  qed
qed

text \<open>The scan after a commit finds the committed snapshot.\<close>

lemma scan_after_commit:
  assumes law: "disk_law (vp_sd p) cells"
    and before: "scan SL p v d = (FV_FIDO_STORE_OK, Some current, d1)" and g: "sn_generation current \<noteq> UINT64_MAX"
    and nxt: "nxt = \<lparr>sn_generation = sn_generation current + 1, sn_bank = sn_bank current XOR 1,
           sn_image_bytes = FV_FIDO_STORE_BYTES, sn_digest = digest\<rparr>" "length digest = 32"
    and key: "derive SL v ''FV2/fido-manifest/v1'' (sn_bank nxt) 0 32 = Some key"
    and m: "encode_manifest SL v nxt key = Some (cells d' (bank_base (sn_bank nxt)))"
    and keep: "same_outside p cells (in_bank (sn_bank nxt)) d d'"
    and vol: "length (volume_id (ec_volume (v_config v))) = 16"
    and after: "scan SL p v d' = (FV_FIDO_STORE_OK, out, d2)"
  shows "out = Some nxt"
proof -
  obtain snap where b: "Some current = Some snap" "sn_bank snap < 2" "authentic SL v (sn_bank snap) (cells d (bank_base (sn_bank snap)))"
    "snap = manifest_candidate (sn_bank snap) (cells d (bank_base (sn_bank snap)))"
    using scan_newest [OF law before] by metis
  have cb: "sn_bank current < 2" "current = manifest_candidate (sn_bank current) (cells d (bank_base (sn_bank current)))" using b by auto
  note x = xor_1_cases [OF cb(1)]
  have gt: "sn_generation current < sn_generation nxt"
    using sequence_next [OF g] by (simp add: nxt(1))
  have bn: "bank_base (sn_bank current) < bank_base (sn_bank nxt) \<or> bank_base (sn_bank nxt) < bank_base (sn_bank current)"
    using x cb(1) by (auto simp: nxt(1) bank_base_def FV_FIDO_BANK_SECTORS_def)
  have "\<not> in_bank (sn_bank nxt) (bank_base (sn_bank current))"
    using in_bank_disjoint [of "sn_bank current" "bank_base (sn_bank current)"] cb(1)
    by (auto simp: nxt(1) in_bank_def FV_FIDO_BANK_SECTORS_def)
  then have same: "cells d' (bank_base (sn_bank current)) = cells d (bank_base (sn_bank current))" using keep by (auto simp: same_outside_def)
  have n: "sn_image_bytes nxt = FV_FIDO_STORE_BYTES" "length (sn_digest nxt) = 32" by (simp_all add: nxt)
  have au: "authentic SL v (sn_bank nxt) (cells d' (bank_base (sn_bank nxt)))"
    using gt by (intro encoded_authentic [OF m key n(1) _ n(2) vol]) auto
  have mc: "manifest_candidate (sn_bank nxt) (cells d' (bank_base (sn_bank nxt))) = nxt"
    using encode_manifest_candidate(1) [OF m _ n(2) vol] n(1) by simp
  obtain snap2 where a: "out = Some snap2" "sn_bank snap2 < 2"
    "snap2 = manifest_candidate (sn_bank snap2) (cells d' (bank_base (sn_bank snap2)))"
    "\<And>b. b < 2 \<Longrightarrow> authentic SL v b (cells d' (bank_base b)) \<Longrightarrow>
       sn_generation (manifest_candidate b (cells d' (bank_base b))) \<le> sn_generation snap2"
    using scan_newest [OF law after] by metis
  have "sn_generation nxt \<le> sn_generation snap2" using a(4) [OF _ au] mc x by (simp add: nxt(1))
  then have "sn_bank snap2 \<noteq> sn_bank current" using a(3) cb(2) same gt by auto
  then have "sn_bank snap2 = sn_bank nxt" using a(2) x cb(1) by (auto simp: nxt(1))
  then show ?thesis using a(1,3) mc by simp
qed


section \<open>Properties\<close>

lemma read_image_ok:
  assumes law: "disk_law (vp_sd p) cells" and inv: "bank_inv p cells bank c d"
    and run: "read_image SL p c (Some (zeros FV_FIDO_STORE_BYTES)) d = (FV_FIDO_STORE_OK, out, digest, c', d')"
  shows "\<exists>sha res. out = Some res \<and> length res = FV_FIDO_STORE_BYTES \<and> sha_starts SL = Some sha \<and>
    image_digest SL cells c d sha (batches (bc_image_sectors c)) = Some digest \<and>
    (\<forall>x < bc_image_sectors c. bank_stores SL cells c d res x)"
proof -
  obtain sha c1 where sha: "sha_starts SL = Some sha"
    and lp: "read_image_loop SL p (batches (bc_image_sectors c)) c (Some (zeros FV_FIDO_STORE_BYTES)) sha d = (FV_FIDO_STORE_OK, out, digest, c1, d')"
    using run by (auto simp: read_image_def split: option.splits prod.splits)
  have n: "bc_image_sectors c = 128 \<or> bc_image_sectors c = 256" using inv by (simp add: bank_inv_def)
  have fit: "\<forall>lba \<in> set (batches (bc_image_sectors c)). lba * 512 + 4096 \<le> length (zeros FV_FIDO_STORE_BYTES)"
    using batches_fit [OF n] n by (fastforce simp: FV_FIDO_STORE_BYTES_def)
  show ?thesis
    using read_image_loop_stores [OF law lp inv fit] read_image_loop_digest [OF law lp inv] sha batches_cover [OF n] by auto
qed

text \<open>C18. An opened passkey store is authentic: the image comes from the bank with the newest authentic
  manifest, every sector of it authenticated and decrypted under that bank's keys, and the hash of its
  ciphertext is the one in the manifest; a legacy image was upgraded. Nothing on the card changes.
  Whenever the open fails, for whatever reason, the caller's image is wiped and the store stays
  closed.\<close>

theorem fido_open_authentic:
  assumes "disk_law (vp_sd p) cells" "fv_fido_store_open SL L p v w = (r, s, img, w')"
  shows "cells (w_sd w') = cells (w_sd w) \<and>
    (r \<noteq> FV_FIDO_STORE_OK \<longrightarrow> img = zeros FV_FIDO_STORE_BYTES \<and> s = fv_fido_store_close) \<and>
    (r = FV_FIDO_STORE_OK \<longrightarrow> (\<exists>snap c d raw sha digest.
       (\<forall>b < 2. authentic SL v b (cells (w_sd w) (bank_base b)) \<longrightarrow>
          sn_generation (manifest_candidate b (cells (w_sd w) (bank_base b))) \<le> sn_generation snap) \<and>
       authentic SL v (sn_bank snap) (cells (w_sd w) (bank_base (sn_bank snap))) \<and>
       snap = manifest_candidate (sn_bank snap) (cells (w_sd w) (bank_base (sn_bank snap))) \<and> s = bind_store v snap \<and>
       bank_open SL L p v (sn_bank snap) (sn_image_bytes snap) d = Some c \<and> cells d = cells (w_sd w) \<and>
       (\<forall>x < sn_image_bytes snap div 512. bank_stores SL cells c d raw x) \<and>
       sha_starts SL = Some sha \<and> image_digest SL cells c d sha (batches (sn_image_bytes snap div 512)) = Some digest \<and>
       fv_tag_equal digest (sn_digest snap) \<and>
       (if sn_image_bytes snap = 65536 then fv_fido_image_upgrade raw = Some (True, img) else img = raw)))"
proof -
  obtain ok w1 where vv: "vault_valid p v w = (ok, w1)" by (cases "vault_valid p v w")
  note w1 = vault_valid_sd [OF vv]
  show ?thesis
  proof (cases ok)
    case False
    then show ?thesis using assms(2) vv w1 by (auto simp: fv_fido_store_open_def)
  next
    case True
    obtain d' where os: "open_snapshot SL L p v (w_sd w) = (r, s, img, d')" and w': "w_sd w' = d'"
      using assms(2) vv True w1 by (auto simp: fv_fido_store_open_def split: prod.splits)
    obtain r1 out d1 where sc: "scan SL p v (w_sd w) = (r1, out, d1)" by (cases "scan SL p v (w_sd w)") auto
    have c1: "cells d1 = cells (w_sd w)" using scan_frame [OF assms(1) sc, of "\<lambda>_. False"] by (auto simp: same_outside_def)
    show ?thesis
    proof (cases "r1 = FV_FIDO_STORE_OK")
      case False
      then have "r = r1 \<and> d' = d1 \<and> img = zeros FV_FIDO_STORE_BYTES \<and> s = fv_fido_store_close"
        using os sc by (cases r1) (auto simp: open_snapshot_def)
      then show ?thesis using False c1 w' by simp
    next
      case ok1: True
      obtain snap where sn: "out = Some snap" "authentic SL v (sn_bank snap) (cells (w_sd w) (bank_base (sn_bank snap)))"
        "snap = manifest_candidate (sn_bank snap) (cells (w_sd w) (bank_base (sn_bank snap)))"
        "\<And>b. b < 2 \<Longrightarrow> authentic SL v b (cells (w_sd w) (bank_base b)) \<Longrightarrow>
           sn_generation (manifest_candidate b (cells (w_sd w) (bank_base b))) \<le> sn_generation snap"
        using scan_newest [OF assms(1) sc [unfolded ok1]] by metis
      show ?thesis
      proof (cases "bank_open SL L p v (sn_bank snap) (sn_image_bytes snap) d1")
        case None
        then show ?thesis using os sc ok1 sn(1) c1 w' by (auto simp: open_snapshot_def)
      next
        case (Some c)
        have inv: "bank_inv p cells (sn_bank snap) c d1" by (rule bank_open_spec(1) [OF Some])
        note n = bank_open_spec(4) [OF Some]
        obtain r2 o2 dg c2 d2 where ri: "read_image SL p c (Some (zeros FV_FIDO_STORE_BYTES)) d1 = (r2, o2, dg, c2, d2)"
          by (cases "read_image SL p c (Some (zeros FV_FIDO_STORE_BYTES)) d1") auto
        have c2: "cells d2 = cells (w_sd w)" using read_image_frame [OF assms(1) ri inv] c1 by simp
        show ?thesis
        proof (cases "r2 = FV_FIDO_STORE_OK")
          case False
          then have "r = r2 \<and> d' = d2 \<and> img = zeros FV_FIDO_STORE_BYTES \<and> s = fv_fido_store_close"
            using os sc ok1 sn(1) Some ri by (cases r2) (auto simp: open_snapshot_def)
          then show ?thesis using False c2 w' by simp
        next
          case ok2: True
          obtain sha raw where rr: "o2 = Some raw" "sha_starts SL = Some sha"
            "image_digest SL cells c d1 sha (batches (bc_image_sectors c)) = Some dg"
            "\<forall>x < bc_image_sectors c. bank_stores SL cells c d1 raw x"
            using read_image_ok [OF assms(1) inv ri [unfolded ok2]] by auto
          have d': "d' = d2" and bad: "r \<noteq> FV_FIDO_STORE_OK \<longrightarrow> img = zeros FV_FIDO_STORE_BYTES \<and> s = fv_fido_store_close"
            and good: "r = FV_FIDO_STORE_OK \<longrightarrow> fv_tag_equal dg (sn_digest snap) \<and> s = bind_store v snap \<and>
              (if sn_image_bytes snap = 65536 then fv_fido_image_upgrade raw = Some (True, img) else img = raw)"
            using os sc ok1 sn(1) Some ri ok2 rr(1)
            by (auto simp: open_snapshot_def split: if_splits option.splits prod.splits bool.splits)
          show ?thesis
          proof (intro conjI impI)
            show "cells (w_sd w') = cells (w_sd w)" using w' d' c2 by simp
            show "img = zeros FV_FIDO_STORE_BYTES" "s = fv_fido_store_close" if "r \<noteq> FV_FIDO_STORE_OK" using bad that by auto
            assume "r = FV_FIDO_STORE_OK"
            with good sn(2-4) Some c1 rr(2-4) n show "\<exists>snap c d raw sha digest.
              (\<forall>b < 2. authentic SL v b (cells (w_sd w) (bank_base b)) \<longrightarrow>
                 sn_generation (manifest_candidate b (cells (w_sd w) (bank_base b))) \<le> sn_generation snap) \<and>
              authentic SL v (sn_bank snap) (cells (w_sd w) (bank_base (sn_bank snap))) \<and>
              snap = manifest_candidate (sn_bank snap) (cells (w_sd w) (bank_base (sn_bank snap))) \<and> s = bind_store v snap \<and>
              bank_open SL L p v (sn_bank snap) (sn_image_bytes snap) d = Some c \<and> cells d = cells (w_sd w) \<and>
              (\<forall>x < sn_image_bytes snap div 512. bank_stores SL cells c d raw x) \<and>
              sha_starts SL = Some sha \<and> image_digest SL cells c d sha (batches (sn_image_bytes snap div 512)) = Some digest \<and>
              fv_tag_equal digest (sn_digest snap) \<and>
              (if sn_image_bytes snap = 65536 then fv_fido_image_upgrade raw = Some (True, img) else img = raw)"
              by (intro exI [of _ snap] exI [of _ c] exI [of _ d1] exI [of _ raw] exI [of _ sha] exI [of _ dg] conjI) auto
          qed
        qed
      qed
    qed
  qed
qed

text \<open>C19. A commit never endangers the current snapshot: whatever its outcome, and wherever it failed, it
  changes no sector outside the inactive bank; and a commit that does not succeed closes the store, so
  that nothing is committed over an unknown state.\<close>

theorem fido_commit_confined:
  assumes "disk_law (vp_sd p) cells" "digest_law SL" "cipher_law L" "length img = FV_FIDO_STORE_BYTES"
    and "fv_fido_store_commit SL L p v s img w = (r, s', w')"
  shows "(\<forall>a. \<not> in_bank (fs_bank s XOR 1) a \<longrightarrow> cells (w_sd w') a = cells (w_sd w) a) \<and>
    (r \<noteq> FV_FIDO_STORE_OK \<longrightarrow> s' = fv_fido_store_close)"
proof -
  obtain ok w1 where au: "authorized p v s w = (ok, w1)" by (cases "authorized p v s w")
  note w1 = authorized_sd [OF au]
  show ?thesis
  proof (cases ok)
    case False
    then show ?thesis using assms(5) au w1 by (auto simp: fv_fido_store_commit_def)
  next
    case True
    obtain d' where cs: "commit_snapshot SL L p v s img (w_sd w) = (r, s', d')" and w': "w_sd w' = d'"
      using assms(5) au True w1 by (auto simp: fv_fido_store_commit_def split: prod.splits)
    have "r \<noteq> FV_FIDO_STORE_OK \<longrightarrow> s' = fv_fido_store_close"
      using cs by (auto simp: commit_snapshot_def Let_def split: prod.splits fv_fido_store_result.splits option.splits if_splits)
    then show ?thesis
      using commit_snapshot_spec [OF assms(1-4) cs] w' by (auto simp: same_outside_def)
  qed
qed


section \<open>The properties at work\<close>

text \<open>A device whose authority reports an active enrollment, with a blank card.\<close>

definition fido_state :: fv_device_state where
  "fido_state = zero_state\<lparr>ds_status := FV_ENROLLMENT_ACTIVE\<rparr>"

definition fido_platform :: "(unit, nat \<Rightarrow> u8 list, unit) fv_vault_platform" where
  "fido_platform = test_platform\<lparr>vp_sd := ram_device 3000,
     vp_authority := test_authority\<lparr>au_load := (\<lambda>a. (Some fido_state, a))\<rparr>\<rparr>"

definition fido_vault :: fv_vault where
  "fido_vault = test_vault\<lparr>v_config := zero_config\<rparr>"

lemma fido_vault_valid: "vault_valid fido_platform fido_vault test_world = (True, test_world)"
  by (simp add: vault_valid_def vault_usable_def fido_platform_def fido_vault_def test_vault_def ram_device_def
      vault_load_def fido_state_def zero_state_def zero_config_def FV_VOLUME_METADATA_BASE_def)

lemma disk_law_fido: "disk_law (vp_sd fido_platform) ram_cells"
  by (simp add: fido_platform_def disk_law_ram)

lemma ram_read_blank: "ram_read blank a (Suc 0) = zeros 512"
  by (simp add: ram_read_def)

lemma fido_scan_blank: "scan SL fido_platform v blank = (FV_FIDO_STORE_CORRUPT, None, blank)"
proof -
  have "get (zeros 512) 24 4 = 0" by (simp add: get_def span_zeros) (simp add: zeros_def eval_nat_numeral)
  then show ?thesis
    by (simp add: scan_def fido_platform_def ram_device_def ram_read_blank upt_rec FV_FIDO_STORE_BYTES_def)
qed

lemma fido_open_authentic_witness:
  "\<exists>img s w'. fv_fido_store_open test_sha test_ciphers fido_platform fido_vault test_world =
     (FV_FIDO_STORE_CORRUPT, s, img, w') \<and> img = zeros FV_FIDO_STORE_BYTES \<and> s = fv_fido_store_close"
proof -
  obtain s img w' where o: "fv_fido_store_open test_sha test_ciphers fido_platform fido_vault test_world =
      (FV_FIDO_STORE_CORRUPT, s, img, w')"
    by (simp add: fv_fido_store_open_def fido_vault_valid open_snapshot_def fido_scan_blank)
  show ?thesis using o fido_open_authentic [OF disk_law_fido o] by blast
qed

lemma fido_commit_confined_witness:
  "\<exists>r s' w'. fv_fido_store_commit test_sha test_ciphers fido_platform fido_vault
       (bind_store fido_vault (manifest_candidate 0 (zeros 512))) (replicate FV_FIDO_STORE_BYTES 7) test_world = (r, s', w') \<and>
     ram_cells (w_sd w') (bank_base 0) = ram_cells blank (bank_base 0)"
proof -
  obtain r s' w' where c: "fv_fido_store_commit test_sha test_ciphers fido_platform fido_vault
       (bind_store fido_vault (manifest_candidate 0 (zeros 512))) (replicate FV_FIDO_STORE_BYTES 7) test_world = (r, s', w')"
    by (cases "fv_fido_store_commit test_sha test_ciphers fido_platform fido_vault
       (bind_store fido_vault (manifest_candidate 0 (zeros 512))) (replicate FV_FIDO_STORE_BYTES 7) test_world") auto
  have n: "\<not> in_bank (fs_bank (bind_store fido_vault (manifest_candidate 0 (zeros 512))) XOR 1) (bank_base 0)"
    by (simp add: bind_store_def manifest_candidate_def in_bank_def bank_base_def FV_FIDO_BANK_SECTORS_def)
  show ?thesis
    using c fido_commit_confined [OF disk_law_fido digest_law_test_sha cipher_law_test _ c] n by simp
qed

end
