(* ===== verification/Fido_Journal_Correct.thy ===== *)
theory Fido_Journal_Correct
  imports Fido_Journal Fido_Store_Correct
begin

text \<open>
  Correctness of the passkey journal at the level of sectors. The interface \<open>transactional_disk\<close> is what
  the passkey engine relies on: writes are invisible to the home sectors until a commit, which installs
  all of them. The journal provides it; a published journal is replayed to the same result from any
  damage that an interrupted replay can leave.
\<close>

section \<open>Transactions\<close>

definition update_view :: "(nat \<Rightarrow> u8 list) \<Rightarrow> nat \<Rightarrow> nat \<Rightarrow> u8 list \<Rightarrow> nat \<Rightarrow> u8 list" where
  "update_view f lba n data x = (if lba \<le> x \<and> x < lba + n then span data ((x - lba) * 512) 512 else f x)"

fun write_all :: "(nat \<Rightarrow> nat \<Rightarrow> u8 list \<Rightarrow> 's \<Rightarrow> bool \<times> 's) \<Rightarrow> (nat \<times> nat \<times> u8 list) list \<Rightarrow> 's \<Rightarrow> bool \<times> 's" where
  "write_all wr [] s = (True, s)"
| "write_all wr ((lba, n, data) # ws) s = (case wr lba n data s of (ok, s) \<Rightarrow> if ok then write_all wr ws s else (False, s))"

fun apply_all :: "(nat \<times> nat \<times> u8 list) list \<Rightarrow> (nat \<Rightarrow> u8 list) \<Rightarrow> nat \<Rightarrow> u8 list" where
  "apply_all [] f = f"
| "apply_all ((lba, n, data) # ws) f = apply_all ws (update_view f lba n data)"

definition writes_wf :: "(nat \<times> nat \<times> u8 list) list \<Rightarrow> bool" where
  "writes_wf ws \<longleftrightarrow> (\<forall>(lba, n, data) \<in> set ws. length data = n * 512)"

text \<open>The bytes of \<open>n\<close> sectors from \<open>lba\<close>.\<close>

definition shows_view :: "u8 list \<Rightarrow> (nat \<Rightarrow> u8 list) \<Rightarrow> nat \<Rightarrow> nat \<Rightarrow> bool" where
  "shows_view m f lba n \<longleftrightarrow> length m = n * 512 \<and> (\<forall>i < n. span m (i * 512) 512 = f (lba + i))"

locale transactional_disk =
  fixes wr :: "nat \<Rightarrow> nat \<Rightarrow> u8 list \<Rightarrow> 's \<Rightarrow> bool \<times> 's"
    and rd :: "nat \<Rightarrow> nat \<Rightarrow> 's \<Rightarrow> u8 list option \<times> 's"
    and commit :: "'s \<Rightarrow> bool \<times> 's"
    and inv :: "'s \<Rightarrow> bool"
    and home :: "'s \<Rightarrow> nat \<Rightarrow> u8 list"
    and view :: "'s \<Rightarrow> nat \<Rightarrow> u8 list"
  assumes write_home: "inv s \<Longrightarrow> length data = n * 512 \<Longrightarrow> wr lba n data s = (ok, s') \<Longrightarrow> home s' = home s"
    and write_view: "inv s \<Longrightarrow> length data = n * 512 \<Longrightarrow> wr lba n data s = (True, s') \<Longrightarrow>
      inv s' \<and> view s' = update_view (view s) lba n data"
    and read_view: "inv s \<Longrightarrow> rd lba n s = (Some m, s') \<Longrightarrow> shows_view m (view s) lba n"
    and commit_home: "inv s \<Longrightarrow> commit s = (True, s') \<Longrightarrow> inv s' \<and> home s' = view s \<and> view s' = view s"
begin

lemma writes_view:
  "write_all wr ws s = (True, s') \<Longrightarrow> inv s \<Longrightarrow> writes_wf ws \<Longrightarrow> inv s' \<and> view s' = apply_all ws (view s)"
proof (induction ws arbitrary: s)
  case (Cons x ws)
  obtain lba n data where x: "x = (lba, n, data)" by (cases x)
  obtain ok s1 where w: "wr lba n data s = (ok, s1)" by (cases "wr lba n data s")
  then show ?case
    using Cons write_view [of s data n lba s1] by (auto simp: x writes_wf_def split: if_splits)
qed simp

lemma writes_home:
  "write_all wr ws s = (ok, s') \<Longrightarrow> inv s \<Longrightarrow> writes_wf ws \<Longrightarrow> home s' = home s"
proof (induction ws arbitrary: s)
  case (Cons x ws)
  obtain lba n data where x: "x = (lba, n, data)" by (cases x)
  obtain ok1 s1 where w: "wr lba n data s = (ok1, s1)" by (cases "wr lba n data s")
  note h = write_home [OF Cons.prems(2) _ w]
  show ?case
  proof (cases ok1)
    case True
    then show ?thesis
      using Cons w h write_view [of s data n lba s1] by (auto simp: x writes_wf_def)
  next
    case False
    then show ?thesis using Cons.prems w h by (auto simp: x writes_wf_def)
  qed
qed simp

lemma all_or_nothing:
  assumes "inv s" "view s = home s" "writes_wf ws" "write_all wr ws s = (ok, s1)"
  shows "home s1 = home s \<and>
    (ok \<longrightarrow> (\<forall>lba n m s'. rd lba n s1 = (Some m, s') \<longrightarrow> shows_view m (apply_all ws (home s)) lba n) \<and>
      (\<forall>s2. commit s1 = (True, s2) \<longrightarrow> home s2 = apply_all ws (home s)))"
  using writes_home [OF assms(4,1,3)] writes_view [of ws s s1] commit_home [of s1] read_view [of s1] assms by metis

end


section \<open>Sectors of the region\<close>

definition region :: "('d \<Rightarrow> nat \<Rightarrow> u8 list) \<Rightarrow> 'd \<Rightarrow> nat \<Rightarrow> u8 list" where
  "region cells d a = cells d (FV_FIDO_REGION_BASE + a)"

definition changes :: "('d \<Rightarrow> nat \<Rightarrow> u8 list) \<Rightarrow> nat set \<Rightarrow> 'd \<Rightarrow> 'd \<Rightarrow> bool" where
  "changes cells A d d' \<longleftrightarrow> (\<forall>a. a \<notin> A \<longrightarrow> region cells d' a = region cells d a)"

lemma changes_refl [simp]: "changes cells A d d"
  by (simp add: changes_def)

lemma changes_trans: "changes cells A d d1 \<Longrightarrow> changes cells A d1 d2 \<Longrightarrow> changes cells A d d2"
  by (simp add: changes_def)

lemma changes_mono: "changes cells A d d' \<Longrightarrow> A \<subseteq> B \<Longrightarrow> changes cells B d d'"
  by (auto simp: changes_def)

lemma changesD: "changes cells A d d' \<Longrightarrow> a \<notin> A \<Longrightarrow> region cells d' a = region cells d a"
  by (simp add: changes_def)

lemma changes_eq: "cells d' = cells d \<Longrightarrow> changes cells A d d'"
  by (simp add: changes_def region_def)

lemma j_read_spec:
  assumes "disk_law (vp_sd p) cells" "j_read p a d = (m, d')"
  shows "cells d' = cells d" "m = Some x \<Longrightarrow> x = region cells d a \<and> length x = 512"
proof -
  obtain r y d1 where rd: "blk_read (vp_sd p) d (FV_FIDO_REGION_BASE + a) 1 = (r, y, d1)"
    by (cases "blk_read (vp_sd p) d (FV_FIDO_REGION_BASE + a) 1") auto
  note ro = read_one [OF assms(1) rd]
  show "cells d' = cells d" "m = Some x \<Longrightarrow> x = region cells d a \<and> length x = 512"
    using assms(2) rd ro by (auto simp: j_read_def region_def split: if_splits)
qed

lemma j_write_spec:
  assumes "disk_law (vp_sd p) cells" "j_write p a m d = (ok, d')" "length m = 512"
  shows "changes cells {a} d d'" "ok \<Longrightarrow> region cells d' a = m"
proof -
  obtain r d1 where w: "blk_write (vp_sd p) d (FV_FIDO_REGION_BASE + a) 1 m = (r, d1)"
    by (cases "blk_write (vp_sd p) d (FV_FIDO_REGION_BASE + a) 1 m")
  have l: "length m = 1 * 512" using assms(3) by simp
  have e: "d' = d1" "ok \<longleftrightarrow> r = FV_BLOCK_OK" using assms(2) w by (auto simp: j_write_def)
  show "changes cells {a} d d'"
    using disk_lawD(5) [OF assms(1) w l] unfolding changes_def region_def e by (auto simp: nat_neq_iff)
  show "ok \<Longrightarrow> region cells d' a = m"
    using disk_lawD(6) [OF assms(1) _ l, of d "FV_FIDO_REGION_BASE + a" d1 0] w e assms(3) by (simp add: region_def)
qed

lemma j_sync_spec: "disk_law (vp_sd p) cells \<Longrightarrow> j_sync p d = (ok, d') \<Longrightarrow> cells d' = cells d"
  using disk_lawD(7) by (auto simp: j_sync_def split: prod.splits)

lemma j_entry_read_spec:
  assumes law: "disk_law (vp_sd p) cells" and run: "j_entry_read SL p s k seq d = (r, d')"
  shows "cells d' = cells d"
    "r = Some (t, m, h) \<Longrightarrow> k < 128 \<and> h = region cells d (J_START + k * 2) \<and> m = region cells d (J_START + k * 2 + 1) \<and>
       length m = 512 \<and> t = unat (get h 24 4) \<and> t < J_HOME"
proof -
  obtain h1 d1 where r1: "j_read p (J_START + k * 2) d = (h1, d1)" by (cases "j_read p (J_START + k * 2) d")
  obtain m1 d2 where r2: "j_read p (J_START + k * 2 + 1) d1 = (m1, d2)" by (cases "j_read p (J_START + k * 2 + 1) d1")
  note a = j_read_spec [OF law r1] and b = j_read_spec [OF law r2]
  have c: "cells d2 = cells d" using a(1) b(1) by simp
  then have reg: "region cells d1 = region cells d" using a(1) by (simp add: region_def fun_eq_iff)
  show "cells d' = cells d"
    using run r1 r2 a(1) c unfolding j_entry_read_def Let_def by (auto split: if_splits option.splits)
  show "k < 128 \<and> h = region cells d (J_START + k * 2) \<and> m = region cells d (J_START + k * 2 + 1) \<and>
       length m = 512 \<and> t = unat (get h 24 4) \<and> t < J_HOME" if "r = Some (t, m, h)"
    using run that r1 r2 a(2) b(2) reg unfolding j_entry_read_def Let_def by (auto split: if_splits option.splits)
qed

section \<open>The overlay\<close>

definition j_view :: "('d \<Rightarrow> nat \<Rightarrow> u8 list) \<Rightarrow> fv_fido_journal \<Rightarrow> 'd \<Rightarrow> nat \<Rightarrow> u8 list" where
  "j_view cells s d x = (if j_slot s x < fj_count s then region cells d (J_START + j_slot s x * 2 + 1) else region cells d x)"

text \<open>The journal in memory and the entries on the card agree.\<close>

definition journal_ok :: "('d \<Rightarrow> nat \<Rightarrow> u8 list) \<Rightarrow> fv_fido_journal \<Rightarrow> 'd \<Rightarrow> bool" where
  "journal_ok cells s d \<longleftrightarrow> length (fj_targets s) = 128 \<and> fj_count s \<le> 128 \<and> distinct (take (fj_count s) (fj_targets s)) \<and>
     (\<forall>k < fj_count s. fj_targets s ! k < J_HOME \<and> unat (get (region cells d (J_START + k * 2)) 24 4) = fj_targets s ! k)"

lemma takeWhile_length_found:
  "length (takeWhile (\<lambda>t. t \<noteq> x) xs) < length xs \<Longrightarrow> xs ! length (takeWhile (\<lambda>t. t \<noteq> x) xs) = x"
  using nth_length_takeWhile [of "\<lambda>t. t \<noteq> x" xs] by simp

lemma takeWhile_unique:
  "distinct xs \<Longrightarrow> k < length xs \<Longrightarrow> xs ! k = x \<Longrightarrow> length (takeWhile (\<lambda>t. t \<noteq> x) xs) = k"
proof -
  assume d: "distinct xs" and k: "k < length xs" "xs ! k = x"
  have "x \<in> set xs" using k nth_mem by blast
  then have "length (takeWhile (\<lambda>t. t \<noteq> x) xs) < length xs" by (induction xs) auto
  then show ?thesis
    using takeWhile_length_found [of x xs] nth_eq_iff_index_eq [OF d, of "length (takeWhile (\<lambda>t. t \<noteq> x) xs)" k] k by simp
qed

lemma j_slot_less:
  assumes "journal_ok cells s d" "j_slot s x < fj_count s"
  shows "fj_targets s ! j_slot s x = x"
  using assms takeWhile_length_found [of x "take (fj_count s) (fj_targets s)"]
  by (simp add: journal_ok_def j_slot_def)

lemma j_slot_le: "journal_ok cells s d \<Longrightarrow> j_slot s x \<le> fj_count s"
  using length_takeWhile_le [of "\<lambda>t. t \<noteq> x" "take (fj_count s) (fj_targets s)"] by (simp add: journal_ok_def j_slot_def)

lemma j_slot_unique:
  assumes "journal_ok cells s d" "k < fj_count s" "fj_targets s ! k = x"
  shows "j_slot s x = k"
  using assms takeWhile_unique [of "take (fj_count s) (fj_targets s)" k x] by (simp add: journal_ok_def j_slot_def)

text \<open>One entry of the journal, written: payload first, then the header that makes it an entry.\<close>

lemma entry_put:
  assumes ok: "journal_ok cells s d" and x: "x < J_HOME" and k: "k = j_slot s x" "k \<noteq> 128"
    and s1: "s1 = s\<lparr>fj_targets := (fj_targets s)[k := x], fj_count := (if k = fj_count s then Suc (fj_count s) else fj_count s)\<rparr>"
    and d1: "changes cells {J_START + k * 2, J_START + k * 2 + 1} d d1"
      "region cells d1 (J_START + k * 2 + 1) = m" "unat (get (region cells d1 (J_START + k * 2)) 24 4) = x"
  shows "journal_ok cells s1 d1 \<and> (\<forall>y < J_HOME. j_view cells s1 d1 y = (if y = x then m else j_view cells s d y))"
proof -
  note o = ok [unfolded journal_ok_def]
  have kc: "k \<le> fj_count s" "k < 128" using j_slot_le [OF ok, of x] o k by auto
  have entry: "region cells d1 (J_START + j * 2) = region cells d (J_START + j * 2)"
    "region cells d1 (J_START + j * 2 + 1) = region cells d (J_START + j * 2 + 1)" if "j \<noteq> k" for j
  proof -
    have "J_START + j * 2 \<noteq> J_START + k * 2 + 1" "J_START + j * 2 + 1 \<noteq> J_START + k * 2" by presburger+
    then show "region cells d1 (J_START + j * 2) = region cells d (J_START + j * 2)"
      "region cells d1 (J_START + j * 2 + 1) = region cells d (J_START + j * 2 + 1)"
      using that changesD [OF d1(1)] by auto
  qed
  have home: "region cells d1 y = region cells d y" if "y < J_HOME" for y
    using that changesD [OF d1(1), of y] by (simp add: journal_layout)
  have t1: "fj_targets s1 ! j = (if j = k then x else fj_targets s ! j)" if "j < 128" for j
    using that o by (simp add: s1 nth_list_update)
  have same: "k < fj_count s \<Longrightarrow> fj_targets s1 = fj_targets s"
    using j_slot_less [OF ok, of x] list_update_id [of "fj_targets s" k] by (simp add: s1 k(1))
  have dist: "distinct (take (fj_count s1) (fj_targets s1))"
  proof (cases "k < fj_count s")
    case True
    then show ?thesis using same o by (simp add: s1)
  next
    case False
    then have kk: "k = fj_count s" using kc by simp
    have "x \<notin> set (take k (fj_targets s))"
    proof
      assume "x \<in> set (take k (fj_targets s))"
      then obtain j where "j < k" "fj_targets s ! j = x" using o kc by (auto simp: in_set_conv_nth)
      then show False using j_slot_unique [OF ok, of j x] k(1) kk by simp
    qed
    moreover have "take (Suc k) ((fj_targets s)[k := x]) = take k (fj_targets s) @ [x]"
      using kc o by (simp add: take_Suc_conv_app_nth)
    ultimately show ?thesis using o kk by (simp add: s1)
  qed
  have ok1: "journal_ok cells s1 d1"
    unfolding journal_ok_def
  proof (intro conjI allI impI)
    show "length (fj_targets s1) = 128" "fj_count s1 \<le> 128" "distinct (take (fj_count s1) (fj_targets s1))"
      using o kc dist by (auto simp: s1)
    fix j
    assume j: "j < fj_count s1"
    then have jl: "j < 128" "j = k \<or> j < fj_count s" using kc o by (auto simp: s1 split: if_splits)
    show "fj_targets s1 ! j < J_HOME" using t1 [OF jl(1)] jl x o by auto
    show "unat (get (region cells d1 (J_START + j * 2)) 24 4) = fj_targets s1 ! j"
      using t1 [OF jl(1)] jl o d1(3) entry(1) [of j] by (cases "j = k") auto
  qed
  have "j_view cells s1 d1 y = (if y = x then m else j_view cells s d y)" if y: "y < J_HOME" for y
  proof (cases "y = x")
    case True
    have "k < fj_count s1" "fj_targets s1 ! k = x" using t1 [OF kc(2)] kc by (auto simp: s1)
    then have "j_slot s1 x = k" by (rule j_slot_unique [OF ok1])
    then show ?thesis using True \<open>k < fj_count s1\<close> d1(2) by (simp add: j_view_def)
  next
    case ne: False
    show ?thesis
    proof (cases "j_slot s y < fj_count s")
      case True
      define j where "j = j_slot s y"
      have tj: "fj_targets s ! j = y" using j_slot_less [OF ok True] by (simp add: j_def)
      have jk: "j \<noteq> k"
      proof
        assume "j = k"
        then have "fj_targets s ! k = y" "k < fj_count s" using tj True by (auto simp: j_def)
        then show False using j_slot_less [OF ok, of x] k(1) ne by simp
      qed
      have "j < 128" using True o by (simp add: j_def)
      then have "j_slot s1 y = j" using t1 [of j] jk tj True by (intro j_slot_unique [OF ok1]) (auto simp: s1 j_def)
      then show ?thesis using True ne jk entry(2) [of j] by (auto simp: j_view_def s1 j_def)
    next
      case False
      have "\<not> j_slot s1 y < fj_count s1"
      proof
        assume a: "j_slot s1 y < fj_count s1"
        define j where "j = j_slot s1 y"
        have tj: "fj_targets s1 ! j = y" using j_slot_less [OF ok1 a] by (simp add: j_def)
        have "j < 128" using a ok1 by (simp add: j_def journal_ok_def)
        then have "j \<noteq> k" "fj_targets s ! j = y" using t1 [of j] tj ne by (auto split: if_splits)
        moreover have "j < fj_count s" using a \<open>j \<noteq> k\<close> kc by (auto simp: s1 j_def split: if_splits)
        ultimately show False using j_slot_unique [OF ok, of j y] False by simp
      qed
      then show ?thesis using False ne home [OF y] by (simp add: j_view_def)
    qed
  qed
  then show ?thesis using ok1 by simp
qed


definition journal_area :: "nat set" where
  "journal_area = {J_START..<J_START + 256}"

lemma unat_ucast_small: "n < 2 ^ 32 \<Longrightarrow> unat (ucast (of_nat n :: u32) :: u64) = n"
  by (simp add: unsigned_ucast_eq unsigned_of_nat take_bit_nat_eq_self)

lemma entry_header_target:
  "x < J_HOME \<Longrightarrow> unat (get (memcpy (entry_header seq k x) 480 tag) 24 4) = x"
  by (simp add: entry_header_def Let_def buffer_simps unat_ucast_small J_HOME_def)

lemma length_entry_header [simp]: "length (entry_header seq k x) = 512"
  by (simp add: entry_header_def Let_def)

definition same_journal :: "fv_fido_journal \<Rightarrow> fv_fido_journal \<Rightarrow> bool" where
  "same_journal s s' \<longleftrightarrow> fj_sequence s' = fj_sequence s \<and> fj_journal_mac s' = fj_journal_mac s \<and> fj_recovering s' = fj_recovering s"

lemma j_view_update:
  "y < J_HOME \<Longrightarrow> (\<forall>y < J_HOME. f y = (if y = lba then take 512 data else g y)) \<Longrightarrow>
   update_view f (Suc lba) n (drop 512 data) y = update_view g lba (Suc n) data y"
proof -
  assume y: "y < J_HOME" and f: "\<forall>y < J_HOME. f y = (if y = lba then take 512 data else g y)"
  show ?thesis
  proof (cases "y \<le> lba")
    case True
    then show ?thesis using f y by (auto simp: update_view_def span_def)
  next
    case False
    then obtain j where j: "y = Suc lba + j" by (metis less_eq_Suc_le not_less le_Suc_ex)
    then show ?thesis using f y by (auto simp: update_view_def span_def add.commute)
  qed
qed

lemma overlay_write_loop_spec:
  assumes law: "disk_law (vp_sd p) cells"
  shows "overlay_write_loop SL p [lba..<lba + n] data s d = (ok, s', d') \<Longrightarrow> journal_ok cells s d \<Longrightarrow>
    length data = n * 512 \<Longrightarrow> lba + n \<le> J_HOME \<Longrightarrow>
    changes cells journal_area d d' \<and> same_journal s s' \<and>
    (ok \<longrightarrow> journal_ok cells s' d' \<and> (\<forall>y < J_HOME. j_view cells s' d' y = update_view (j_view cells s d) lba n data y))"
proof (induction n arbitrary: lba data s d)
  case 0
  then show ?case by (auto simp: update_view_def same_journal_def)
next
  case (Suc n)
  have xs: "[lba..<lba + Suc n] = lba # [Suc lba..<Suc lba + n]" by (simp add: upt_conv_Cons)
  define k where "k = j_slot s lba"
  define m where "m = take 512 data"
  define h where "h = entry_header (fj_sequence s + 1) k lba"
  have x: "lba < J_HOME" and lm: "length m = 512" and ld: "length (drop 512 data) = n * 512"
    using Suc.prems by (auto simp: m_def)
  note run = Suc.prems(1) [unfolded xs overlay_write_loop.simps Let_def, folded k_def m_def, folded h_def]
  show ?case
  proof (cases "k = 128 \<or> fj_sequence s = UINT64_MAX \<or> fv_hmac_compute SL (fj_journal_mac s) (take 480 h) m = None")
    case True
    then show ?thesis using run by (auto simp: same_journal_def split: if_splits)
  next
    case False
    then obtain tag where tag: "fv_hmac_compute SL (fj_journal_mac s) (take 480 h) m = Some tag" by auto
    have k128: "k \<noteq> 128" "fj_sequence s \<noteq> UINT64_MAX" using False by auto
    have kl: "k < 128" using j_slot_le [OF Suc.prems(2), of lba] Suc.prems(2) k128 by (auto simp: k_def journal_ok_def)
    then have area: "J_START + k * 2 \<in> journal_area" "J_START + k * 2 + 1 \<in> journal_area" by (auto simp: journal_area_def)
    obtain ok1 d1 where w1: "j_write p (J_START + k * 2 + 1) m d = (ok1, d1)" by (cases "j_write p (J_START + k * 2 + 1) m d")
    note c1 = j_write_spec [OF law w1 lm]
    have a1: "changes cells journal_area d d1" using changes_mono [OF c1(1)] area by auto
    obtain ok2 d2 where w2: "j_write p (J_START + k * 2) (memcpy h 480 tag) d1 = (ok2, d2)"
      by (cases "j_write p (J_START + k * 2) (memcpy h 480 tag) d1")
    have lh: "length (memcpy h 480 tag) = 512" by (simp add: h_def)
    note c2 = j_write_spec [OF law w2 lh]
    have a2: "changes cells journal_area d d2" using changes_trans [OF a1] changes_mono [OF c2(1)] area by auto
    show ?thesis
    proof (cases "ok1 \<and> ok2")
      case False
      then show ?thesis using run k128 tag w1 w2 a1 a2 by (auto simp: same_journal_def split: bool.splits)
    next
      case True
      define s1 where "s1 = s\<lparr>fj_targets := (fj_targets s)[k := lba], fj_count := (if k = fj_count s then Suc (fj_count s) else fj_count s)\<rparr>"
      have rest: "overlay_write_loop SL p [Suc lba..<Suc lba + n] (drop 512 data) s1 d2 = (ok, s', d')"
        using run k128 tag w1 w2 True by (simp add: s1_def)
      have e: "journal_ok cells s1 d2 \<and> (\<forall>y < J_HOME. j_view cells s1 d2 y = (if y = lba then m else j_view cells s d y))"
      proof (rule entry_put [OF Suc.prems(2) x k_def k128(1) s1_def])
        show "changes cells {J_START + k * 2, J_START + k * 2 + 1} d d2"
          using changes_trans [OF changes_mono [OF c1(1)] changes_mono [OF c2(1)]] by blast
        show "region cells d2 (J_START + k * 2 + 1) = m"
          using changesD [OF c2(1), of "J_START + k * 2 + 1"] c1(2) True by simp
        show "unat (get (region cells d2 (J_START + k * 2)) 24 4) = lba"
          using c2(2) True entry_header_target [OF x] by (simp add: h_def)
      qed
      have ih: "changes cells journal_area d2 d' \<and> same_journal s1 s' \<and>
          (ok \<longrightarrow> journal_ok cells s' d' \<and> (\<forall>y < J_HOME. j_view cells s' d' y = update_view (j_view cells s1 d2) (Suc lba) n (drop 512 data) y))"
        using Suc.IH [OF rest _ ld] e Suc.prems(4) by simp
      have "update_view (j_view cells s1 d2) (Suc lba) n (drop 512 data) y = update_view (j_view cells s d) lba (Suc n) data y"
        if "y < J_HOME" for y using j_view_update [OF that] e by (simp add: m_def)
      then show ?thesis using ih changes_trans [OF a2] by (auto simp: same_journal_def s1_def)
    qed
  qed
qed

lemma control_scan_loop_frame:
  assumes "disk_law (vp_sd p) cells"
  shows "control_scan_loop SL p s is found d = (r, d') \<Longrightarrow> cells d' = cells d"
proof (induction "is" arbitrary: found d)
  case (Cons i "is")
  obtain m d1 where r: "j_read p (J_CONTROL + i) d = (m, d1)" by (cases "j_read p (J_CONTROL + i) d")
  note c = j_read_spec(1) [OF assms r]
  show ?case
    using Cons.prems r c Cons.IH by (auto simp: Let_def split: option.splits if_splits)
qed simp

lemma journal_current_frame:
  "disk_law (vp_sd p) cells \<Longrightarrow> journal_current SL p s d = (ok, d') \<Longrightarrow> cells d' = cells d"
  using control_scan_loop_frame by (fastforce simp: journal_current_def j_control_scan_def split: prod.splits)


lemma shows_view_Suc:
  "length m = 512 \<Longrightarrow> m = f lba \<Longrightarrow> shows_view ms f (Suc lba) n \<Longrightarrow> shows_view (m @ ms) f lba (Suc n)"
  by (auto simp: shows_view_def span_def less_Suc_eq_0_disj)

lemma overlay_read_loop_spec:
  assumes law: "disk_law (vp_sd p) cells"
  shows "overlay_read_loop SL p s [lba..<lba + n] d = (Some m, d') \<Longrightarrow> shows_view m (j_view cells s d) lba n"
proof (induction n arbitrary: lba d m)
  case 0
  then show ?case by (simp add: shows_view_def)
next
  case (Suc n)
  have xs: "[lba..<lba + Suc n] = lba # [Suc lba..<Suc lba + n]" by (simp add: upt_conv_Cons)
  define rd where "rd = (if j_slot s lba < fj_count s
    then (case j_entry_read SL p s (j_slot s lba) (fj_sequence s + 1) d of (None, d) \<Rightarrow> (None, d)
          | (Some (target, payload, header), d) \<Rightarrow> (if target \<noteq> lba then None else Some payload, d))
    else j_read p lba d)"
  obtain x d1 ms where r1: "rd = (Some x, d1)"
    and ms: "overlay_read_loop SL p s [Suc lba..<Suc lba + n] d1 = (Some ms, d')" "m = x @ ms"
    using Suc.prems [unfolded xs overlay_read_loop.simps Let_def, folded rd_def] by (auto simp del: upt_Suc split: prod.splits option.splits)
  have one: "length x = 512 \<and> x = j_view cells s d lba \<and> cells d1 = cells d"
  proof (cases "j_slot s lba < fj_count s")
    case True
    obtain t h where "j_entry_read SL p s (j_slot s lba) (fj_sequence s + 1) d = (Some (t, x, h), d1)"
      using r1 True by (auto simp: rd_def split: prod.splits option.splits if_splits)
    from j_entry_read_spec [OF law this] show ?thesis using True by (auto simp: j_view_def)
  next
    case False
    then have "j_read p lba d = (Some x, d1)" using r1 by (simp add: rd_def)
    from j_read_spec [OF law this] show ?thesis using False by (auto simp: j_view_def)
  qed
  then have "j_view cells s d1 = j_view cells s d" by (simp add: j_view_def region_def fun_eq_iff)
  then show ?case using Suc.IH [OF ms(1)] one ms(2) by (auto intro: shows_view_Suc)
qed

lemma overlay_read_sectors:
  assumes law: "disk_law (vp_sd p) cells" and run: "j_overlay_read SL p (s, d) lba n = (FV_BLOCK_OK, m, s', d')"
  shows "lba + n \<le> J_HOME \<and> shows_view m (j_view cells s d) lba n"
proof -
  have fit: "lba + n \<le> J_HOME" using run by (auto simp: j_overlay_read_def split: if_splits)
  then have range: "\<not> (lba > J_HOME \<or> n > J_HOME - lba)" by auto
  show ?thesis
  proof (cases "fj_count s = 0")
    case True
    then have rd: "blk_read (vp_sd p) d (FV_FIDO_REGION_BASE + lba) n = (FV_BLOCK_OK, m, d')"
      using run range by (auto simp: j_overlay_read_def split: prod.splits)
    show ?thesis
      using fit True disk_lawD(3,4) [OF law rd] by (auto simp: shows_view_def j_view_def region_def add.assoc)
  next
    case False
    then have "overlay_read_loop SL p s [lba..<lba + n] d = (Some m, d')"
      using run range by (auto simp: j_overlay_read_def split: prod.splits option.splits)
    then show ?thesis using fit overlay_read_loop_spec [OF law] by blast
  qed
qed

section \<open>Publication and replay\<close>

text \<open>The target an entry on the card names, and the home sectors with the first \<open>n\<close> entries installed.\<close>

definition entry_target :: "('d \<Rightarrow> nat \<Rightarrow> u8 list) \<Rightarrow> 'd \<Rightarrow> nat \<Rightarrow> nat" where
  "entry_target cells d i = unat (get (region cells d (J_START + i * 2)) 24 4)"

definition entry_payload :: "('d \<Rightarrow> nat \<Rightarrow> u8 list) \<Rightarrow> 'd \<Rightarrow> nat \<Rightarrow> u8 list" where
  "entry_payload cells d i = region cells d (J_START + i * 2 + 1)"

definition committed :: "('d \<Rightarrow> nat \<Rightarrow> u8 list) \<Rightarrow> 'd \<Rightarrow> nat \<Rightarrow> nat \<Rightarrow> u8 list" where
  "committed cells d n x =
     (case find (\<lambda>i. entry_target cells d i = x) [0..<n] of None \<Rightarrow> region cells d x | Some i \<Rightarrow> entry_payload cells d i)"

text \<open>The sectors a replay writes: the targets, and the control sectors.\<close>

definition replay_area :: "('d \<Rightarrow> nat \<Rightarrow> u8 list) \<Rightarrow> 'd \<Rightarrow> nat \<Rightarrow> nat set" where
  "replay_area cells d n = {x. x < J_HOME \<and> (\<exists>i < n. entry_target cells d i = x)} \<union> {J_CONTROL, Suc J_CONTROL}"

lemma changes_entry:
  assumes "changes cells A d d'" "A \<inter> journal_area = {}" "i < 128"
  shows "entry_target cells d' i = entry_target cells d i" "entry_payload cells d' i = entry_payload cells d i"
proof -
  have "J_START + i * 2 \<in> journal_area" "J_START + i * 2 + 1 \<in> journal_area" using assms(3) by (auto simp: journal_area_def)
  then show "entry_target cells d' i = entry_target cells d i" "entry_payload cells d' i = entry_payload cells d i"
    using assms(1,2) by (auto simp: entry_target_def entry_payload_def changes_def)
qed

lemma replay_area_disjoint: "replay_area cells d n \<inter> journal_area = {}"
  by (auto simp: replay_area_def journal_area_def journal_layout)

lemma replay_area_eq:
  assumes "changes cells A d d'" "A \<inter> journal_area = {}" "n \<le> 128"
  shows "replay_area cells d' n = replay_area cells d n"
  using changes_entry(1) [OF assms(1,2)] assms(3) by (auto simp: replay_area_def)

lemma digest_loop_spec:
  assumes law: "disk_law (vp_sd p) cells"
  shows "digest_loop SL p s seq is seen sha d = (r, d') \<Longrightarrow>
    cells d' = cells d \<and> (r \<noteq> None \<longrightarrow> (\<forall>i \<in> set is. i < 128 \<and> entry_target cells d i < J_HOME) \<and>
      (distinct seen \<longrightarrow> distinct (seen @ map (entry_target cells d) is)))"
proof (induction "is" arbitrary: seen sha d)
  case (Cons i "is")
  obtain e d1 where er: "j_entry_read SL p s i seq d = (e, d1)" by (cases "j_entry_read SL p s i seq d")
  note c = j_entry_read_spec(1) [OF law er]
  have reg: "entry_target cells d1 = entry_target cells d" using c by (simp add: fun_eq_iff entry_target_def region_def)
  show ?case
  proof (cases e)
    case None
    then show ?thesis using Cons.prems er c by auto
  next
    case (Some x)
    obtain t m h where x: "e = Some (t, m, h)" using Some by (cases x) auto
    have t: "i < 128" "t = entry_target cells d i" "t < J_HOME"
      using j_entry_read_spec(2) [OF law er x] by (auto simp: entry_target_def)
    show ?thesis
    proof (cases "t \<in> set seen \<or> sha_absorb SL sha h = None \<or> sha_absorb SL (the (sha_absorb SL sha h)) m = None")
      case True
      then have "r = None \<and> d' = d1" using Cons.prems er x by (auto split: option.splits if_splits)
      then show ?thesis using c by simp
    next
      case False
      then obtain sha2 where "digest_loop SL p s seq is (seen @ [t]) sha2 d1 = (r, d')"
        using Cons.prems er x by auto
      from Cons.IH [OF this] show ?thesis using c reg t False by auto
    qed
  qed
qed simp

lemma j_digest_spec:
  assumes law: "disk_law (vp_sd p) cells" and run: "j_digest SL p s c d = (r, d')"
  shows "cells d' = cells d \<and> (r \<noteq> None \<longrightarrow> jc_count c \<le> 128 \<and> (\<forall>i < jc_count c. entry_target cells d i < J_HOME) \<and>
    distinct (map (entry_target cells d) [0..<jc_count c]))"
proof (cases "sha_starts SL")
  case None
  then show ?thesis using run by (simp add: j_digest_def)
next
  case (Some sha)
  then have "digest_loop SL p s (jc_seq c) [0..<jc_count c] [] sha d = (r, d')" using run by (simp add: j_digest_def)
  note d = digest_loop_spec [OF law this]
  have "jc_count c \<le> 128" if "r \<noteq> None"
  proof (rule ccontr)
    assume "\<not> jc_count c \<le> 128"
    then have "128 \<in> set [0..<jc_count c]" by simp
    then show False using d that by fastforce
  qed
  then show ?thesis using d by auto
qed

lemma replay_write_spec:
  assumes law: "disk_law (vp_sd p) cells"
  shows "replay_write SL p s seq is d = (ok, d') \<Longrightarrow>
    changes cells {x. x < J_HOME \<and> (\<exists>i \<in> set is. i < 128 \<and> entry_target cells d i = x)} d d'"
proof (induction "is" arbitrary: d)
  case (Cons i "is")
  define A where "A = {x. x < J_HOME \<and> (\<exists>j \<in> set (i # is). j < 128 \<and> entry_target cells d j = x)}"
  obtain e d1 where er: "j_entry_read SL p s i seq d = (e, d1)" by (cases "j_entry_read SL p s i seq d")
  note c = j_entry_read_spec(1) [OF law er]
  show ?case
  proof (cases e)
    case None
    then show ?thesis using Cons.prems er c changes_eq by auto
  next
    case (Some x)
    obtain t m h where x: "e = Some (t, m, h)" using Some by (cases x) auto
    have t: "i < 128" "t = entry_target cells d i" "t < J_HOME" "length m = 512"
      using j_entry_read_spec(2) [OF law er x] by (auto simp: entry_target_def)
    obtain ok1 d2 where w: "j_write p t m d1 = (ok1, d2)" by (cases "j_write p t m d1")
    have "changes cells {t} d d2" using j_write_spec(1) [OF law w t(4)] c by (simp add: changes_def region_def)
    then have a: "changes cells A d d2" and te: "\<And>j. j < 128 \<Longrightarrow> entry_target cells d2 j = entry_target cells d j"
      using changes_mono [of cells "{t}" d d2 A] changes_entry(1) [of cells "{t}" d d2] t
      by (auto simp: A_def journal_area_def journal_layout)
    show ?thesis
    proof (cases ok1)
      case False
      then show ?thesis using Cons.prems er x w a by (simp add: A_def)
    next
      case True
      then have "replay_write SL p s seq is d2 = (ok, d')" using Cons.prems er x w by simp
      from Cons.IH [OF this] have "changes cells A d2 d'"
        by (rule changes_mono) (use te in \<open>auto simp: A_def\<close>)
      then show ?thesis using changes_trans [OF a] by (simp add: A_def)
    qed
  qed
qed simp

lemma replay_verify_spec:
  assumes law: "disk_law (vp_sd p) cells"
  shows "replay_verify SL p s seq is d = (ok, d') \<Longrightarrow>
    cells d' = cells d \<and> (ok \<longrightarrow> (\<forall>i \<in> set is. region cells d (entry_target cells d i) = entry_payload cells d i))"
proof (induction "is" arbitrary: d)
  case (Cons i "is")
  obtain e d1 where er: "j_entry_read SL p s i seq d = (e, d1)" by (cases "j_entry_read SL p s i seq d")
  note c = j_entry_read_spec(1) [OF law er]
  show ?case
  proof (cases e)
    case None
    then show ?thesis using Cons.prems er c by auto
  next
    case (Some x)
    obtain t m h where x: "e = Some (t, m, h)" using Some by (cases x) auto
    have t: "t = entry_target cells d i" "m = entry_payload cells d i"
      using j_entry_read_spec(2) [OF law er x] by (auto simp: entry_target_def entry_payload_def)
    obtain check d2 where r: "j_read p t d1 = (check, d2)" by (cases "j_read p t d1")
    note cr = j_read_spec [OF law r]
    show ?thesis
    proof (cases "check = Some m")
      case True
      then have "replay_verify SL p s seq is d2 = (ok, d')" using Cons.prems er x r by simp
      from Cons.IH [OF this] show ?thesis
        using c cr True t by (auto simp: entry_target_def entry_payload_def region_def)
    next
      case False
      then show ?thesis using Cons.prems er x r c cr(1) by (auto split: option.splits)
    qed
  qed
qed simp

lemma j_control_write_spec:
  assumes law: "disk_law (vp_sd p) cells" and run: "j_control_write SL p c s d = (ok, c', s', d')"
  shows "changes cells {J_CONTROL, Suc J_CONTROL} d d' \<and> (\<not> ok \<longrightarrow> s' = s) \<and>
    (ok \<longrightarrow> s' = s\<lparr>fj_sequence := fj_sequence s + 1\<rparr> \<and> c' = c\<lparr>jc_seq := fj_sequence s + 1\<rparr> \<and> fj_sequence s \<noteq> UINT64_MAX)"
proof (cases "fj_sequence s = UINT64_MAX")
  case True
  then show ?thesis using run by (auto simp: j_control_write_def)
next
  case False
  define c1 where "c1 = c\<lparr>jc_seq := fj_sequence s + 1\<rparr>"
  define a where "a = J_CONTROL + unat (jc_seq c1 mod 2)"
  have aa: "a \<in> {J_CONTROL, Suc J_CONTROL}"
  proof -
    have "unat (jc_seq c1 mod 2) < 2" by (simp add: unat_mod_distrib)
    then show ?thesis by (auto simp: a_def)
  qed
  note run1 = run [unfolded j_control_write_def if_not_P [OF False] Let_def, folded c1_def, folded a_def]
  show ?thesis
  proof (cases "fv_hmac_compute SL (fj_journal_mac s) (take 480 (control_encode c1)) []")
    case None
    then show ?thesis using run1 by auto
  next
    case (Some tag)
    define m where "m = memcpy (control_encode c1) 480 tag"
    have lm: "length m = 512" by (simp add: m_def control_encode_def Let_def)
    obtain ok1 d1 where w: "j_write p a m d = (ok1, d1)" by (cases "j_write p a m d")
    note ch = changes_mono [OF j_write_spec(1) [OF law w lm], of "{J_CONTROL, Suc J_CONTROL}"]
    obtain ok2 d2 where sy: "j_sync p d1 = (ok2, d2)" by (cases "j_sync p d1")
    obtain chk d3 where rd: "j_read p a d2 = (chk, d3)" by (cases "j_read p a d2")
    have e: "cells d2 = cells d1" "cells d3 = cells d2" using j_sync_spec [OF law sy] j_read_spec(1) [OF law rd] by auto
    have "d' = d1 \<or> d' = d2 \<or> d' = d3" "\<not> ok \<Longrightarrow> s' = s" "ok \<Longrightarrow> s' = s\<lparr>fj_sequence := jc_seq c1\<rparr> \<and> c' = c1"
      using run1 Some w sy rd by (auto simp: m_def [symmetric] split: bool.splits option.splits if_splits)
    then show ?thesis using ch e aa False by (auto simp: c1_def changes_def region_def)
  qed
qed


lemma committed_target:
  assumes "distinct (map (entry_target cells d) [0..<n])" "i < n"
  shows "committed cells d n (entry_target cells d i) = entry_payload cells d i"
proof -
  obtain j where j: "find (\<lambda>j. entry_target cells d j = entry_target cells d i) [0..<n] = Some j"
    using assms(2) by (cases "find (\<lambda>j. entry_target cells d j = entry_target cells d i) [0..<n]") (auto simp: find_None_iff)
  then have "j < n" "entry_target cells d j = entry_target cells d i" by (auto simp: find_Some_iff)
  then have "j = i" using assms by (auto simp: distinct_map inj_on_def)
  then show ?thesis using j by (simp add: committed_def)
qed

lemma committed_other:
  "(\<And>i. i < n \<Longrightarrow> entry_target cells d i \<noteq> x) \<Longrightarrow> committed cells d n x = region cells d x"
proof -
  assume none: "\<And>i. i < n \<Longrightarrow> entry_target cells d i \<noteq> x"
  then have "find (\<lambda>j. entry_target cells d j = x) [0..<n] = None" by (auto simp: find_None_iff)
  then show ?thesis by (simp add: committed_def)
qed

lemma j_replay_spec:
  assumes law: "disk_law (vp_sd p) cells" and n: "jc_count c = n" "n \<le> 128"
    and before: "changes cells (replay_area cells d n) d d1" and run: "j_replay SL p c s d1 = (ok, s', d')"
  shows "changes cells (replay_area cells d n) d d' \<and>
    (ok \<longrightarrow> (\<forall>x < J_HOME. region cells d' x = committed cells d n x) \<and> fj_count s' = 0 \<and>
       fj_targets s' = fj_targets s \<and> fj_recovering s' = fj_recovering s \<and> fj_sequence s' = fj_sequence s + 1)"
proof -
  define A where "A = replay_area cells d n"
  have aj: "A \<inter> journal_area = {}" by (simp add: A_def replay_area_disjoint)
  obtain dg d2 where dgst: "j_digest SL p s c d1 = (dg, d2)" by (cases "j_digest SL p s c d1")
  note D = j_digest_spec [OF law dgst]
  have b2: "changes cells A d d2" using before D by (simp add: A_def changes_def region_def)
  have t2: "entry_target cells d1 i = entry_target cells d i" "entry_target cells d2 i = entry_target cells d i" if "i < 128" for i
    using changes_entry(1) [OF before] changes_entry(1) [OF b2] aj that by (auto simp: A_def)
  obtain ok3 d3 where rw: "replay_write SL p s (jc_seq c) [0..<jc_count c] d2 = (ok3, d3)"
    by (cases "replay_write SL p s (jc_seq c) [0..<jc_count c] d2")
  have "{x. x < J_HOME \<and> (\<exists>i \<in> set [0..<jc_count c]. i < 128 \<and> entry_target cells d2 i = x)} \<subseteq> A"
    using t2(2) n by (auto simp: A_def replay_area_def)
  then have b3: "changes cells A d d3"
    using changes_trans [OF b2 changes_mono [OF replay_write_spec [OF law rw]]] by simp
  obtain ok4 d4 where sy: "j_sync p d3 = (ok4, d4)" by (cases "j_sync p d3")
  have b4: "changes cells A d d4" using b3 j_sync_spec [OF law sy] by (simp add: changes_def region_def)
  obtain ok5 d5 where rv: "replay_verify SL p s (jc_seq c) [0..<jc_count c] d4 = (ok5, d5)"
    by (cases "replay_verify SL p s (jc_seq c) [0..<jc_count c] d4")
  note V = replay_verify_spec [OF law rv]
  have b5: "changes cells A d d5" using b4 V by (simp add: changes_def region_def)
  obtain ok6 c6 s6 d6 where cw: "j_control_write SL p clean_control s d5 = (ok6, c6, s6, d6)"
    by (cases "j_control_write SL p clean_control s d5") auto
  note W = j_control_write_spec [OF law cw]
  have b6: "changes cells A d d6"
    using changes_trans [OF b5 changes_mono] W by (auto simp: A_def replay_area_def)
  have cases: "d' \<in> {d2, d3, d4, d5, d6} \<and> (ok \<longrightarrow> dg \<noteq> None \<and> ok5 \<and> ok6 \<and> d' = d6 \<and>
      s' = s6\<lparr>fj_count := 0, fj_auth := (fj_auth s6)\<lparr>as_cache_count := 0\<rparr>\<rparr>)"
    using run dgst rw sy rv cw by (auto simp: j_replay_def split: option.splits if_splits bool.splits)
  then have frame: "changes cells A d d'" using b2 b3 b4 b5 b6 by auto
  have "region cells d' x = committed cells d n x" if ok and x: "x < J_HOME" for x
  proof -
    have "distinct (map (entry_target cells d1) [0..<n])" using D cases that n by auto
    moreover have "map (entry_target cells d1) [0..<n] = map (entry_target cells d) [0..<n]" using t2(1) n by simp
    ultimately have dist: "distinct (map (entry_target cells d) [0..<n])" by simp
    have d6: "region cells d' x = region cells d5 x"
      using cases that W changesD [of cells "{J_CONTROL, Suc J_CONTROL}" d5 d6 x] x by (auto simp: journal_layout)
    also have "\<dots> = region cells d4 x" using V by (simp add: region_def)
    also have "\<dots> = committed cells d n x"
    proof (cases "\<exists>i < n. entry_target cells d i = x")
      case True
      then obtain i where i: "i < n" "entry_target cells d i = x" by blast
      have i4: "entry_target cells d4 i = x" "entry_payload cells d4 i = entry_payload cells d i"
        using changes_entry [OF b4 aj, of i] i n by auto
      have "region cells d4 (entry_target cells d4 i) = entry_payload cells d4 i" using V cases that i(1) n by simp
      then show ?thesis using i i4 committed_target [OF dist i(1)] by simp
    next
      case False
      then have "x \<notin> A" using x by (auto simp: A_def replay_area_def journal_layout)
      then show ?thesis using changesD [OF b4] committed_other False by metis
    qed
    finally show ?thesis .
  qed
  then show ?thesis using frame cases W by (auto simp: A_def)
qed

section \<open>Commit\<close>

lemma journal_committed:
  assumes "journal_ok cells s d" "x < J_HOME"
  shows "committed cells d (fj_count s) x = j_view cells s d x"
proof -
  note o = assms(1) [unfolded journal_ok_def]
  have t: "entry_target cells d k = fj_targets s ! k" if "k < fj_count s" for k using o that by (simp add: entry_target_def)
  have "map (entry_target cells d) [0..<fj_count s] = take (fj_count s) (fj_targets s)"
    using t o by (intro nth_equalityI) auto
  then have dist: "distinct (map (entry_target cells d) [0..<fj_count s])" using o by simp
  show ?thesis
  proof (cases "j_slot s x < fj_count s")
    case True
    have "entry_target cells d (j_slot s x) = x" using t [OF True] j_slot_less [OF assms(1) True] by simp
    then show ?thesis using committed_target [OF dist True] True by (simp add: j_view_def entry_payload_def)
  next
    case False
    have "entry_target cells d i \<noteq> x" if "i < fj_count s" for i
      using t [OF that] j_slot_unique [OF assms(1) that] False that by auto
    then show ?thesis using committed_other [of "fj_count s" cells d x] False by (simp add: j_view_def)
  qed
qed

text \<open>What a commit that has failed may have left: nothing but the control sectors and the sectors the
  journal was about to write.\<close>

lemma publish_journal_spec:
  assumes law: "disk_law (vp_sd p) cells" and ok: "journal_ok cells s d"
    and run: "publish_journal SL p s d = (r, s', d')"
  shows "changes cells (replay_area cells d (fj_count s)) d d' \<and>
    (r \<longrightarrow> (\<forall>x < J_HOME. region cells d' x = j_view cells s d x) \<and> fj_count s' = 0 \<and>
       fj_targets s' = fj_targets s \<and> fj_recovering s' = fj_recovering s \<and> fj_sequence s' = fj_sequence s + 2)"
proof -
  define n where "n = fj_count s"
  define A where "A = replay_area cells d n"
  have n: "n \<le> 128" using ok by (simp add: n_def journal_ok_def)
  define c where "c = clean_control\<lparr>jc_seq := fj_sequence s + 1, jc_state := J_READY, jc_count := n\<rparr>"
  note run1 = run [unfolded publish_journal_def Let_def, folded n_def, folded c_def]
  obtain ok1 d1 where sy: "j_sync p d = (ok1, d1)" by (cases "j_sync p d")
  obtain dg d2 where dgst: "j_digest SL p s c d1 = (dg, d2)" by (cases "j_digest SL p s c d1")
  have e: "cells d1 = cells d" "cells d2 = cells d" using j_sync_spec [OF law sy] j_digest_spec [OF law dgst] by auto
  then have b: "changes cells A d d1" "changes cells A d d2" by (auto intro: changes_eq)
  show ?thesis
  proof (cases "ok1 \<and> dg \<noteq> None")
    case False
    then have "\<not> r \<and> (d' = d1 \<or> d' = d2)" using run1 sy dgst by (auto split: bool.splits option.splits)
    then show ?thesis using b by (auto simp: A_def n_def)
  next
    case True
    then obtain digest where dg: "dg = Some digest" by auto
    obtain ok3 c3 s3 d3 where cw: "j_control_write SL p (c\<lparr>jc_digest := digest\<rparr>) s d2 = (ok3, c3, s3, d3)"
      by (cases "j_control_write SL p (c\<lparr>jc_digest := digest\<rparr>) s d2") auto
    note W = j_control_write_spec [OF law cw]
    have b3: "changes cells A d d3" using changes_trans [OF b(2) changes_mono] W by (auto simp: A_def replay_area_def)
    show ?thesis
    proof (cases ok3)
      case False
      then have "\<not> r \<and> d' = d3" using run1 sy dgst True dg cw by auto
      then show ?thesis using b3 by (auto simp: A_def n_def)
    next
      case ok3: True
      have rp: "j_replay SL p c3 s3 d3 = (r, s', d')" using run1 sy dgst True dg cw ok3 by simp
      have c3: "jc_count c3 = n" using W ok3 by (simp add: c_def)
      from j_replay_spec [OF law c3 n b3 [unfolded A_def] rp] show ?thesis
        using W ok3 journal_committed [OF ok] by (auto simp: n_def add.assoc)
    qed
  qed
qed

section \<open>The journal is a transactional disk\<close>

definition home_sectors :: "('d \<Rightarrow> nat \<Rightarrow> u8 list) \<Rightarrow> fv_fido_journal \<times> ('a, 'd, 'r) vault_world \<Rightarrow> nat \<Rightarrow> u8 list" where
  "home_sectors cells = (\<lambda>(s, w) x. if x < J_HOME then region cells (w_sd w) x else [])"

definition visible_sectors :: "('d \<Rightarrow> nat \<Rightarrow> u8 list) \<Rightarrow> fv_fido_journal \<times> ('a, 'd, 'r) vault_world \<Rightarrow> nat \<Rightarrow> u8 list" where
  "visible_sectors cells = (\<lambda>(s, w) x. if x < J_HOME then j_view cells s (w_sd w) x else [])"

definition fido_journal_inv ::
  "('a, 'd, 'r) fv_vault_platform \<Rightarrow> ('d \<Rightarrow> nat \<Rightarrow> u8 list) \<Rightarrow> fv_fido_journal \<times> ('a, 'd, 'r) vault_world \<Rightarrow> bool" where
  "fido_journal_inv p cells = (\<lambda>(s, w). disk_law (vp_sd p) cells \<and> \<not> fj_recovering s \<and> journal_ok cells s (w_sd w))"

text \<open>A write and a read of the client through the overlay device, and the commit.\<close>

definition overlay_write where
  "overlay_write SL p lba n data = (\<lambda>(s, w). case j_overlay_write SL p (s, w_sd w) lba n data of
     (r, s, d) \<Rightarrow> (r = FV_BLOCK_OK, s, w\<lparr>w_sd := d\<rparr>))"

definition overlay_read where
  "overlay_read SL p lba n = (\<lambda>(s, w). case j_overlay_read SL p (s, w_sd w) lba n of
     (r, m, s, d) \<Rightarrow> (if r = FV_BLOCK_OK then Some m else None, s, w\<lparr>w_sd := d\<rparr>))"

definition overlay_commit where
  "overlay_commit SL p v = (\<lambda>(s, w). fv_fido_journal_commit SL p v s w)"

lemma update_view_region:
  "lba + n \<le> J_HOME \<Longrightarrow> (\<lambda>x. if x < J_HOME then update_view f lba n data x else []) =
     update_view (\<lambda>x. if x < J_HOME then f x else []) lba n data"
  by (auto simp: update_view_def fun_eq_iff)

lemma overlay_write_spec:
  assumes inv: "fido_journal_inv p cells (s, w)" and len: "length data = n * 512"
    and run: "overlay_write SL p lba n data (s, w) = (ok, s', w')"
  shows "home_sectors cells (s', w') = home_sectors cells (s, w) \<and>
    (ok \<longrightarrow> fido_journal_inv p cells (s', w') \<and> visible_sectors cells (s', w') = update_view (visible_sectors cells (s, w)) lba n data)"
proof -
  have law: "disk_law (vp_sd p) cells" and nr: "\<not> fj_recovering s" and jok: "journal_ok cells s (w_sd w)"
    using inv by (auto simp: fido_journal_inv_def)
  obtain r d' where ow: "j_overlay_write SL p (s, w_sd w) lba n data = (r, s', d')" and w': "w' = w\<lparr>w_sd := d'\<rparr>" "ok \<longleftrightarrow> r = FV_BLOCK_OK"
    using run by (auto simp: overlay_write_def split: prod.splits)
  show ?thesis
  proof (cases "lba > J_HOME \<or> n > J_HOME - lba")
    case True
    then show ?thesis using ow w' by (auto simp: j_overlay_write_def home_sectors_def)
  next
    case False
    obtain ok1 d1 where jc: "(if fj_count s = 0 then journal_current SL p s (w_sd w) else (True, w_sd w)) = (ok1, d1)"
      by (cases "if fj_count s = 0 then journal_current SL p s (w_sd w) else (True, w_sd w)")
    have e: "cells d1 = cells (w_sd w)" using jc journal_current_frame [OF law] by (auto split: if_splits)
    then have reg: "region cells d1 = region cells (w_sd w)" by (simp add: fun_eq_iff region_def)
    obtain ok2 s2 d2 where lp: "overlay_write_loop SL p [lba..<lba + n] data s d1 = (ok2, s2, d2)"
      by (cases "overlay_write_loop SL p [lba..<lba + n] data s d1") auto
    have jok1: "journal_ok cells s d1" using jok reg by (simp add: journal_ok_def)
    have fit: "lba + n \<le> J_HOME" using False by auto
    note L = overlay_write_loop_spec [OF law lp jok1 len fit]
    have view: "j_view cells s d1 = j_view cells s (w_sd w)" by (simp add: j_view_def reg fun_eq_iff)
    have res: "(\<not> ok1 \<and> s' = s \<and> d' = d1 \<and> \<not> ok) \<or> (ok1 \<and> s' = s2 \<and> d' = d2 \<and> ok = ok2)"
      using ow False nr jc lp w'(2) unfolding j_overlay_write_def by (auto split: bool.splits if_splits)
    have home: "home_sectors cells (s', w') = home_sectors cells (s, w)"
    proof -
      have "region cells d2 x = region cells (w_sd w) x" if "x < J_HOME" for x
        using changesD [of cells journal_area d1 d2 x] L reg that by (auto simp: journal_area_def journal_layout)
      then show ?thesis using res reg by (auto simp: home_sectors_def w' fun_eq_iff)
    qed
    moreover have "fido_journal_inv p cells (s', w') \<and> visible_sectors cells (s', w') = update_view (visible_sectors cells (s, w)) lba n data" if ok
    proof -
      have r: "s' = s2" "d' = d2" "ok2" using res that by auto
      have "(\<lambda>x. if x < J_HOME then j_view cells s2 d2 x else []) = (\<lambda>x. if x < J_HOME then update_view (j_view cells s d1) lba n data x else [])"
        using L r(3) by (auto simp: fun_eq_iff)
      then have "visible_sectors cells (s', w') = update_view (visible_sectors cells (s, w)) lba n data"
        using update_view_region [OF fit, of "j_view cells s d1" data] r view by (simp add: visible_sectors_def w' cong: if_cong)
      then show ?thesis using L r law nr by (auto simp: fido_journal_inv_def w' same_journal_def)
    qed
    ultimately show ?thesis by blast
  qed
qed

lemma overlay_commit_spec:
  assumes inv: "fido_journal_inv p cells (s, w)" and run: "overlay_commit SL p v (s, w) = (True, s', w')"
  shows "fido_journal_inv p cells (s', w') \<and> home_sectors cells (s', w') = visible_sectors cells (s, w) \<and>
    visible_sectors cells (s', w') = visible_sectors cells (s, w)"
proof -
  have law: "disk_law (vp_sd p) cells" and nr: "\<not> fj_recovering s" and jok: "journal_ok cells s (w_sd w)"
    using inv by (auto simp: fido_journal_inv_def)
  obtain w1 where au: "j_authorized p v s w = (True, w1)"
    using run by (auto simp: overlay_commit_def fv_fido_journal_commit_def split: prod.splits bool.splits)
  have w1: "w_sd w1 = w_sd w"
    using au by (auto simp: j_authorized_def dest: vault_valid_sd split: if_splits prod.splits)
  obtain d1 where jc: "journal_current SL p s (w_sd w) = (True, d1)"
    using run au w1 by (auto simp: overlay_commit_def fv_fido_journal_commit_def split: prod.splits bool.splits)
  have reg: "region cells d1 = region cells (w_sd w)" using journal_current_frame [OF law jc] by (simp add: fun_eq_iff region_def)
  show ?thesis
  proof (cases "fj_count s = 0")
    case True
    then have "s' = s" "w_sd w' = d1"
      using run au w1 jc by (auto simp: overlay_commit_def fv_fido_journal_commit_def)
    then show ?thesis
      using True inv reg by (auto simp: fido_journal_inv_def journal_ok_def home_sectors_def visible_sectors_def j_view_def fun_eq_iff)
  next
    case False
    then obtain d' where pj: "publish_journal SL p s d1 = (True, s', d')" and w': "w_sd w' = d'"
      using run au w1 jc by (auto simp: overlay_commit_def fv_fido_journal_commit_def split: prod.splits if_splits)
    have jok1: "journal_ok cells s d1" using jok reg by (simp add: journal_ok_def)
    note P = publish_journal_spec [OF law jok1 pj]
    have view: "j_view cells s d1 = j_view cells s (w_sd w)" by (simp add: j_view_def reg fun_eq_iff)
    have "j_view cells s' d' x = region cells d' x" for x using P by (simp add: j_view_def)
    then show ?thesis
      using P view nr law jok by (auto simp: fido_journal_inv_def journal_ok_def home_sectors_def visible_sectors_def w' fun_eq_iff)
  qed
qed

interpretation fido_journal: transactional_disk "overlay_write SL p" "overlay_read SL p" "overlay_commit SL p v" "fido_journal_inv p cells"
  "home_sectors cells" "visible_sectors cells"
  for SL p v cells
proof (unfold_locales, goal_cases)
  case (1 s data n lba ok s')
  then show ?case using overlay_write_spec [of p cells "fst s" "snd s" data n SL lba ok "fst s'" "snd s'"] by simp
next
  case (2 s data n lba s')
  then show ?case using overlay_write_spec [of p cells "fst s" "snd s" data n SL lba True "fst s'" "snd s'"] by simp
next
  case (3 s lba n m s')
  obtain j w where s: "s = (j, w)" by (cases s)
  obtain j' d' where "j_overlay_read SL p (j, w_sd w) lba n = (FV_BLOCK_OK, m, j', d')"
    using 3(2) by (auto simp: s overlay_read_def split: prod.splits if_splits)
  then show ?case
    using 3(1) overlay_read_sectors by (fastforce simp: s fido_journal_inv_def shows_view_def visible_sectors_def)
next
  case (4 s s')
  then show ?case using overlay_commit_spec [of p cells "fst s" "snd s" SL v "fst s'" "snd s'"] by simp
qed

end
