(* ===== verification/Fido_Journal_Live.thy ===== *)
theory Fido_Journal_Live
  imports Fido_Journal_Correct
begin

text \<open>
  Progress of the passkey journal: on a card and with a hash that do not fail, the writes of a transaction
  of at most 128 sectors succeed, and so does its commit.
\<close>

section \<open>Control records\<close>

text \<open>What a control sector holds: an error, no record, or a record.\<close>

definition control_at :: "sha_lib \<Rightarrow> fv_hmac \<Rightarrow> nat \<Rightarrow> u8 list \<Rightarrow> j_control option option" where
  "control_at SL mac i m =
     (if take 8 m \<noteq> label ''FV3JCTL'' \<or> get m 8 4 \<noteq> 3 then Some None
      else case fv_hmac_compute SL mac (take 480 m) [] of None \<Rightarrow> None
      | Some tag \<Rightarrow>
        if \<not> fv_tag_equal tag (drop 480 m) then Some None
        else if control_ok i (control_decode m) then Some (Some (control_decode m)) else None)"

definition control_wf :: "j_control \<Rightarrow> bool" where
  "control_wf c \<longleftrightarrow> jc_state c \<le> J_READY \<and> jc_count c \<le> 128 \<and> jc_old_bank c = 0 \<and> jc_old_bytes c = 0 \<and>
     jc_policy c = -1 \<and> length (jc_digest c) = 32"

text \<open>The newest control record is \<open>c\<close>.\<close>

definition control_is :: "sha_lib \<Rightarrow> ('d \<Rightarrow> nat \<Rightarrow> u8 list) \<Rightarrow> fv_hmac \<Rightarrow> 'd \<Rightarrow> j_control \<Rightarrow> bool" where
  "control_is SL cells mac d c \<longleftrightarrow>
     (\<exists>i < 2. control_at SL mac i (region cells d (J_CONTROL + i)) = Some (Some c) \<and>
        (\<exists>r. control_at SL mac (1 - i) (region cells d (J_CONTROL + (1 - i))) = Some r \<and> (\<forall>c'. r = Some c' \<longrightarrow> jc_seq c' < jc_seq c)))"

lemma j_read_live:
  assumes "disk_law (vp_sd p) cells" "reliable (vp_sd p)"
  obtains d' where "j_read p a d = (Some (region cells d a), d')" "cells d' = cells d"
proof -
  obtain m d' where r: "j_read p a d = (m, d')" by (cases "j_read p a d")
  have "m \<noteq> None" using r reliableD(1) [OF assms(2)] by (auto simp: j_read_def split: prod.splits if_splits)
  then show thesis using that r j_read_spec [OF assms(1) r] by auto
qed

lemma j_write_live:
  assumes "disk_law (vp_sd p) cells" "reliable (vp_sd p)" "length m = 512"
  obtains d' where "j_write p a m d = (True, d')" "changes cells {a} d d'" "region cells d' a = m"
proof -
  obtain ok d' where w: "j_write p a m d = (ok, d')" by (cases "j_write p a m d")
  have "ok" using w reliableD(2) [OF assms(2)] by (auto simp: j_write_def split: prod.splits if_splits)
  then show thesis using that w j_write_spec [OF assms(1) w assms(3)] by auto
qed

lemma j_sync_live:
  assumes "disk_law (vp_sd p) cells" "reliable (vp_sd p)"
  obtains d' where "j_sync p d = (True, d')" "cells d' = cells d"
proof -
  obtain ok d' where w: "j_sync p d = (ok, d')" by (cases "j_sync p d")
  have "ok" using w reliableD(3) [OF assms(2)] by (auto simp: j_sync_def split: prod.splits if_splits)
  then show thesis using that w j_sync_spec [OF assms(1) w] by auto
qed

lemma region_cong: "cells d' = cells d \<Longrightarrow> region cells d' = region cells d"
  by (simp add: region_def fun_eq_iff)

definition newer :: "j_control option \<Rightarrow> j_control option \<Rightarrow> j_control option" where
  "newer r found = (case r of None \<Rightarrow> found
     | Some c \<Rightarrow> (case found of None \<Rightarrow> Some c | Some best \<Rightarrow> if jc_seq c > jc_seq best then Some c else found))"

lemma control_scan_step:
  assumes "disk_law (vp_sd p) cells" "reliable (vp_sd p)"
    and "control_at SL (fj_journal_mac s) i (region cells d (J_CONTROL + i)) = Some r"
  obtains d' where "cells d' = cells d"
    "control_scan_loop SL p s (i # js) found d = control_scan_loop SL p s js (newer r found) d'"
proof -
  obtain d' where r: "j_read p (J_CONTROL + i) d = (Some (region cells d (J_CONTROL + i)), d')" "cells d' = cells d"
    using j_read_live [OF assms(1,2)] by blast
  then show thesis
    using that [OF r(2)] assms(3) by (auto simp: control_at_def newer_def Let_def split: if_splits option.splits)
qed

lemma control_scan_live:
  assumes "disk_law (vp_sd p) cells" "reliable (vp_sd p)" and c: "control_is SL cells (fj_journal_mac s) d c"
  obtains d' where "j_control_scan SL p s d = (Some (Some c), d')" "cells d' = cells d"
proof -
  have two: "[0..<2] = [0, 1 :: nat]" by (simp add: upt_rec)
  obtain r0 r1 where at: "control_at SL (fj_journal_mac s) 0 (region cells d (J_CONTROL + 0)) = Some r0"
    "control_at SL (fj_journal_mac s) 1 (region cells d (J_CONTROL + 1)) = Some r1"
    and best: "(r0 = Some c \<and> (\<forall>c'. r1 = Some c' \<longrightarrow> jc_seq c' < jc_seq c)) \<or> (r1 = Some c \<and> (\<forall>c'. r0 = Some c' \<longrightarrow> jc_seq c' < jc_seq c))"
  proof -
    obtain i r where i: "i < 2" "control_at SL (fj_journal_mac s) i (region cells d (J_CONTROL + i)) = Some (Some c)"
      "control_at SL (fj_journal_mac s) (1 - i) (region cells d (J_CONTROL + (1 - i))) = Some r" "\<forall>c'. r = Some c' \<longrightarrow> jc_seq c' < jc_seq c"
      using c by (auto simp: control_is_def)
    consider "i = 0" | "i = 1" using i(1) by linarith
    then show thesis using i(2-4) that [of "Some c" r] that [of r "Some c"] by cases auto
  qed
  obtain d1 where s1: "cells d1 = cells d" "control_scan_loop SL p s [0, 1] None d = control_scan_loop SL p s [1] (newer r0 None) d1"
    by (rule control_scan_step [OF assms(1,2) at(1), where js = "[1]" and found = None])
  have r0: "newer r0 None = r0" by (cases r0) (auto simp: newer_def)
  have at1: "control_at SL (fj_journal_mac s) 1 (region cells d1 (J_CONTROL + 1)) = Some r1"
    using at(2) region_cong [OF s1(1)] by simp
  obtain d2 where s2: "cells d2 = cells d1" "control_scan_loop SL p s [1] r0 d1 = control_scan_loop SL p s [] (newer r1 r0) d2"
    by (rule control_scan_step [OF assms(1,2) at1, where js = "[]" and found = r0])
  have "newer r1 r0 = Some c"
    using best by (auto simp: newer_def split: option.splits dest: order.asym)
  then have "j_control_scan SL p s d = (Some (Some c), d2)"
    using s1(2) s2(2) r0 by (simp only: j_control_scan_def two control_scan_loop.simps(1))
  then show thesis using that s1(1) s2(1) by simp
qed

lemma span_update_other: "k < off \<or> off + n \<le> k \<Longrightarrow> span (m[k := v]) off n = span m off n"
  by (auto simp: span_def drop_update_swap drop_update_cancel)

lemma get_update_other: "k < off \<or> off + n \<le> k \<Longrightarrow> get (m[k := v]) off n = get m off n"
  by (simp add: get_def span_update_other)

lemma nth_memcpy_other: "k < off \<or> off + length src \<le> k \<Longrightarrow> k < length m \<Longrightarrow> memcpy m off src ! k = m ! k"
  by (auto simp: memcpy_def nth_append min_def)

lemmas control_simps = control_encode_def Let_def buffer_simps span_update_other get_update_other nth_memcpy_other

lemma control_decode_encode:
  assumes "control_wf c" "length tag = 32"
  shows "control_decode (memcpy (control_encode c) 480 tag) = c"
proof -
  define m where "m = memcpy (control_encode c) 480 tag"
  note w = assms(1) [unfolded control_wf_def]
  have st: "jc_state c < 2 ^ 32" "jc_count c < 2 ^ 32" using w by (auto simp: J_READY_def)
  have "get m 16 8 = jc_seq c" "unat (get m 24 4) = jc_state c" "unat (get m 28 4) = jc_count c" "get m 32 4 = 0" "get m 36 4 = 0"
    "span m 48 32 = jc_digest c" "m ! 40 = 0"
    using w assms(2) st
    by (simp_all add: m_def control_simps unat_ucast_small)
  then show ?thesis using w by (simp add: m_def [symmetric] control_decode_def)
qed

lemma control_at_write:
  assumes wf: "control_wf c" "jc_seq c \<noteq> 0" "jc_seq c mod 2 = of_nat i" and dl: "digest_law SL"
    and tag: "fv_hmac_compute SL mac (take 480 (control_encode c)) [] = Some tag"
  shows "control_at SL mac i (memcpy (control_encode c) 480 tag) = Some (Some c)"
proof -
  have lt: "length tag = 32" by (rule length_hmac [OF dl tag])
  have le: "length (control_encode c) = 512" by (simp add: control_encode_def Let_def)
  define m where "m = memcpy (control_encode c) 480 tag"
  have t: "take 480 m = take 480 (control_encode c)" "drop 480 m = tag" using le lt by (auto simp: m_def memcpy_def)
  have "span m 0 8 = label ''FV3JCTL''" "get m 8 4 = 3"
    using wf(1) lt by (simp_all add: m_def control_simps control_wf_def)
  then have "take 8 m = label ''FV3JCTL''" "get m 8 4 = 3" by (auto simp: span_def)
  moreover have "control_ok i c"
    using wf by (auto simp: control_ok_def control_wf_def journal_states)
  ultimately show ?thesis
    using t tag control_decode_encode [OF wf(1) lt] by (simp add: m_def [symmetric] control_at_def)
qed

lemma next_parity:
  assumes "q \<noteq> UINT64_MAX" "q mod 2 = of_nat i" "i < 2"
  shows "unat ((q + 1) mod 2) = 1 - i" "(q + 1) mod 2 = of_nat (1 - i)" "q + 1 \<noteq> 0" "q < q + 1"
proof -
  show less: "q < q + 1" by (rule sequence_next [OF assms(1)])
  then show "q + 1 \<noteq> 0" by auto
  then have s: "unat (q + 1) = Suc (unat q)" using unatSuc [of q] by (simp add: add.commute)
  have "unat (q mod 2) = i" using assms(2,3) by (auto simp: less_2_cases_iff)
  then have "unat q mod 2 = i" by (simp add: unat_mod_distrib)
  then have "Suc (unat q) mod 2 = 1 - i" using assms(3) by presburger
  then show u: "unat ((q + 1) mod 2) = 1 - i" using s by (simp add: unat_mod_distrib)
  then show "(q + 1) mod 2 = of_nat (1 - i)" by (metis of_nat_unat ucast_id)
qed

lemma control_write_live:
  assumes law: "disk_law (vp_sd p) cells" "reliable (vp_sd p)" and sha: "sha_total SL" "digest_law SL" "hm_ready (fj_journal_mac s)"
    and c: "control_wf c" and c0: "control_is SL cells (fj_journal_mac s) d c0" "jc_seq c0 = fj_sequence s" and q: "fj_sequence s \<noteq> UINT64_MAX"
  defines "c1 \<equiv> c\<lparr>jc_seq := fj_sequence s + 1\<rparr>"
  obtains d' where "j_control_write SL p c s d = (True, c1, s\<lparr>fj_sequence := fj_sequence s + 1\<rparr>, d')"
    "changes cells {J_CONTROL, Suc J_CONTROL} d d'" "control_is SL cells (fj_journal_mac s) d' c1"
proof -
  obtain i where i: "i < 2" "control_at SL (fj_journal_mac s) i (region cells d (J_CONTROL + i)) = Some (Some c0)"
    using c0(1) by (auto simp: control_is_def)
  have "control_ok i c0" using i(2) by (auto simp: control_at_def split: if_splits option.splits)
  then have "fj_sequence s mod 2 = of_nat i" using c0(2) by (simp add: control_ok_def)
  note par = next_parity [OF q this i(1)]
  obtain tag where tag: "fv_hmac_compute SL (fj_journal_mac s) (take 480 (control_encode c1)) [] = Some tag"
    using hmac_compute_total [OF sha(1,3)] by blast
  define a where "a = J_CONTROL + (1 - i)"
  define m where "m = memcpy (control_encode c1) 480 tag"
  have lm: "length m = 512" by (simp add: m_def control_encode_def Let_def)
  obtain d1 where w: "j_write p a m d = (True, d1)" "changes cells {a} d d1" "region cells d1 a = m"
    using j_write_live [OF law lm] by blast
  obtain d2 where sy: "j_sync p d1 = (True, d2)" "cells d2 = cells d1" using j_sync_live [OF law] by blast
  obtain d3 where rd: "j_read p a d2 = (Some (region cells d2 a), d3)" "cells d3 = cells d2" using j_read_live [OF law] by blast
  have reg: "region cells d2 = region cells d1" "region cells d3 = region cells d1"
    using region_cong sy(2) rd(2) by metis+
  have run: "j_control_write SL p c s d = (True, c1, s\<lparr>fj_sequence := fj_sequence s + 1\<rparr>, d3)"
    using q tag w sy rd reg par(1) by (simp add: j_control_write_def Let_def c1_def [symmetric] a_def m_def) (simp add: c1_def)
  have wf: "control_wf c1" using c by (simp add: c1_def control_wf_def)
  have new: "control_at SL (fj_journal_mac s) (1 - i) (region cells d3 a) = Some (Some c1)"
    using control_at_write [OF wf _ _ sha(2) tag, of "1 - i"] par w(3) reg by (simp add: c1_def [symmetric] m_def) (simp add: c1_def)
  have "region cells d3 (J_CONTROL + i) = region cells d (J_CONTROL + i)"
    using changesD [OF w(2), of "J_CONTROL + i"] reg i(1) by (auto simp: a_def less_2_cases_iff)
  then have "control_is SL cells (fj_journal_mac s) d3 c1"
    unfolding control_is_def using new i c0(2) par(4) by (intro exI [of _ "1 - i"]) (auto simp: a_def c1_def less_2_cases_iff)
  moreover have "changes cells {J_CONTROL, Suc J_CONTROL} d d3"
    using w(2) reg i(1) unfolding changes_def a_def less_2_cases_iff by auto
  ultimately show thesis using that run by blast
qed

section \<open>Entries\<close>

definition entry_good :: "sha_lib \<Rightarrow> ('d \<Rightarrow> nat \<Rightarrow> u8 list) \<Rightarrow> fv_hmac \<Rightarrow> u64 \<Rightarrow> 'd \<Rightarrow> nat \<Rightarrow> nat \<Rightarrow> bool" where
  "entry_good SL cells mac seq d k t \<longleftrightarrow> k < 128 \<and> t < J_HOME \<and>
     (\<exists>tag. fv_hmac_compute SL mac (take 480 (entry_header seq k t)) (entry_payload cells d k) = Some tag \<and>
        region cells d (J_START + k * 2) = memcpy (entry_header seq k t) 480 tag)"

lemma entry_good_frame:
  assumes "changes cells A d d'" "A \<inter> journal_area = {}" "entry_good SL cells mac seq d k t"
  shows "entry_good SL cells mac seq d' k t" "entry_payload cells d' k = entry_payload cells d k"
proof -
  have "k < 128" using assms(3) by (simp add: entry_good_def)
  then have "J_START + k * 2 \<in> journal_area" "J_START + k * 2 + 1 \<in> journal_area" by (auto simp: journal_area_def)
  then have "region cells d' (J_START + k * 2) = region cells d (J_START + k * 2)"
    "region cells d' (J_START + k * 2 + 1) = region cells d (J_START + k * 2 + 1)"
    using changesD [OF assms(1)] assms(2) by blast+
  then show "entry_good SL cells mac seq d' k t" "entry_payload cells d' k = entry_payload cells d k"
    using assms(3) by (auto simp: entry_good_def entry_payload_def)
qed

lemma entry_read_live:
  assumes law: "disk_law (vp_sd p) cells" "reliable (vp_sd p)" and dl: "digest_law SL"
    and g: "entry_good SL cells (fj_journal_mac s) seq d k t"
  obtains d' where "j_entry_read SL p s k seq d = (Some (t, entry_payload cells d k, region cells d (J_START + k * 2)), d')" "cells d' = cells d"
proof -
  obtain tag where tag: "fv_hmac_compute SL (fj_journal_mac s) (take 480 (entry_header seq k t)) (entry_payload cells d k) = Some tag"
    "region cells d (J_START + k * 2) = memcpy (entry_header seq k t) 480 tag" and k: "k < 128" and t: "t < J_HOME"
    using g by (auto simp: entry_good_def)
  have lt: "length tag = 32" by (rule length_hmac [OF dl tag(1)])
  define h where "h = memcpy (entry_header seq k t) 480 tag"
  have hd: "take 480 h = take 480 (entry_header seq k t)" "drop 480 h = tag"
    using lt by (auto simp: h_def memcpy_def)
  have f: "span h 0 8 = label ''FV3JREC''" "get h 8 8 = seq" "get h 16 4 = of_nat k"
    using lt by (simp_all add: h_def entry_header_def Let_def buffer_simps) (use k in \<open>simp add: unsigned_of_nat take_bit_nat_eq_self\<close>)
  then have f8: "take 8 h = label ''FV3JREC''" by (simp add: span_def)
  have tt: "unat (get h 24 4) = t" using entry_header_target [OF t] by (simp add: h_def)
  obtain d1 where r1: "j_read p (J_START + k * 2) d = (Some h, d1)" "cells d1 = cells d"
    using j_read_live [OF law] tag(2) h_def by metis
  obtain d2 where r2: "j_read p (J_START + k * 2 + 1) d1 = (Some (entry_payload cells d k), d2)" "cells d2 = cells d1"
    using j_read_live [OF law, of "J_START + k * 2 + 1" d1] region_cong [OF r1(2)] unfolding entry_payload_def by metis
  have "j_entry_read SL p s k seq d = (Some (t, entry_payload cells d k, h), d2)"
    using k t r1 r2 f f8 tt hd tag(1) by (simp add: j_entry_read_def Let_def)
  then show thesis using that r1(2) r2(2) tag(2) h_def by metis
qed

text \<open>The digest of the entries, as a function of the sectors.\<close>

fun digest_of :: "sha_lib \<Rightarrow> ('d \<Rightarrow> nat \<Rightarrow> u8 list) \<Rightarrow> 'd \<Rightarrow> nat list \<Rightarrow> u8 list \<Rightarrow> u8 list option" where
  "digest_of SL cells d [] sha = sha_finish SL sha"
| "digest_of SL cells d (i # is) sha =
     (case sha_absorb SL sha (region cells d (J_START + i * 2)) of None \<Rightarrow> None
      | Some sha \<Rightarrow> (case sha_absorb SL sha (entry_payload cells d i) of None \<Rightarrow> None
         | Some sha \<Rightarrow> digest_of SL cells d is sha))"

lemma digest_of_total: "sha_total SL \<Longrightarrow> \<exists>dg. digest_of SL cells d is sha = Some dg"
proof (induction "is" arbitrary: sha)
  case (Cons i "is")
  obtain s1 s2 where "sha_absorb SL sha (region cells d (J_START + i * 2)) = Some s1" "sha_absorb SL s1 (entry_payload cells d i) = Some s2"
    using Cons.prems unfolding sha_total_def by blast
  then show ?case using Cons by simp
qed (auto simp: sha_total_def)

lemma digest_of_cong:
  "(\<forall>i \<in> set is. region cells d' (J_START + i * 2) = region cells d (J_START + i * 2) \<and> entry_payload cells d' i = entry_payload cells d i) \<Longrightarrow>
   digest_of SL cells d' is sha = digest_of SL cells d is sha"
  by (induction "is" arbitrary: sha) (auto split: option.splits)

lemma length_digest_of: "digest_law SL \<Longrightarrow> digest_of SL cells d is sha = Some dg \<Longrightarrow> length dg = 32"
  by (induction "is" arbitrary: sha) (auto simp: digest_law_def split: option.splits)

lemma digest_loop_live:
  assumes law: "disk_law (vp_sd p) cells" "reliable (vp_sd p)" and dl: "digest_law SL"
  shows "(\<forall>i \<in> set is. entry_good SL cells (fj_journal_mac s) seq d i (T i)) \<Longrightarrow> distinct (map T is) \<Longrightarrow> T ` set is \<inter> set seen = {} \<Longrightarrow>
    digest_of SL cells d is sha = Some dg \<Longrightarrow> \<exists>d'. digest_loop SL p s seq is seen sha d = (Some dg, d') \<and> cells d' = cells d"
proof (induction "is" arbitrary: seen sha d)
  case (Cons i "is")
  obtain d1 where r: "j_entry_read SL p s i seq d = (Some (T i, entry_payload cells d i, region cells d (J_START + i * 2)), d1)"
    "cells d1 = cells d" using entry_read_live [OF law dl] Cons.prems(1) by (metis list.set_intros(1))
  obtain s1 s2 where a: "sha_absorb SL sha (region cells d (J_START + i * 2)) = Some s1" "sha_absorb SL s1 (entry_payload cells d i) = Some s2"
    "digest_of SL cells d is s2 = Some dg" using Cons.prems(4) by (auto split: option.splits)
  have reg: "region cells d1 = region cells d" by (rule region_cong [OF r(2)])
  have "\<exists>d'. digest_loop SL p s seq is (seen @ [T i]) s2 d1 = (Some dg, d') \<and> cells d' = cells d1"
  proof (rule Cons.IH)
    show "\<forall>j \<in> set is. entry_good SL cells (fj_journal_mac s) seq d1 j (T j)"
      using Cons.prems(1) reg by (simp add: entry_good_def entry_payload_def)
    show "T ` set is \<inter> set (seen @ [T i]) = {}" using Cons.prems(2,3) by auto
    show "digest_of SL cells d1 is s2 = Some dg" using a(3) digest_of_cong [of "is" cells d1 d] reg by (simp add: entry_payload_def)
  qed (use Cons.prems in simp)
  then show ?case using r a Cons.prems(3) by auto
qed simp

lemma replay_write_live:
  assumes law: "disk_law (vp_sd p) cells" "reliable (vp_sd p)" and dl: "digest_law SL"
  shows "(\<forall>i \<in> set is. entry_good SL cells (fj_journal_mac s) seq d i (T i)) \<Longrightarrow> distinct (map T is) \<Longrightarrow>
    \<exists>d'. replay_write SL p s seq is d = (True, d') \<and> changes cells (T ` set is) d d' \<and>
      (\<forall>i \<in> set is. region cells d' (T i) = entry_payload cells d i)"
proof (induction "is" arbitrary: d)
  case (Cons i "is")
  have g: "entry_good SL cells (fj_journal_mac s) seq d i (T i)" using Cons.prems(1) by simp
  obtain d1 where r: "j_entry_read SL p s i seq d = (Some (T i, entry_payload cells d i, region cells d (J_START + i * 2)), d1)"
    "cells d1 = cells d" using entry_read_live [OF law dl g] by blast
  have reg: "region cells d1 = region cells d" by (rule region_cong [OF r(2)])
  have lp: "length (entry_payload cells d i) = 512"
    using disk_lawD(1) [OF law(1)] by (simp add: entry_payload_def region_def)
  obtain d2 where w: "j_write p (T i) (entry_payload cells d i) d1 = (True, d2)" "changes cells {T i} d1 d2" "region cells d2 (T i) = entry_payload cells d i"
    using j_write_live [OF law lp] by blast
  have ch: "changes cells {T i} d d2" using w(2) reg by (simp add: changes_def)
  have dis: "{T i} \<inter> journal_area = {}" using g by (auto simp: entry_good_def journal_area_def journal_layout)
  note fr = entry_good_frame [OF ch dis]
  have "\<exists>d'. replay_write SL p s seq is d2 = (True, d') \<and> changes cells (T ` set is) d2 d' \<and>
      (\<forall>j \<in> set is. region cells d' (T j) = entry_payload cells d2 j)"
    using Cons.prems fr(1) by (intro Cons.IH) auto
  then obtain d' where d': "replay_write SL p s seq is d2 = (True, d')" "changes cells (T ` set is) d2 d'"
    "\<forall>j \<in> set is. region cells d' (T j) = entry_payload cells d2 j" by blast
  have "region cells d' (T i) = entry_payload cells d i"
    using changesD [OF d'(2), of "T i"] Cons.prems(2) w(3) by auto
  moreover have "region cells d' (T j) = entry_payload cells d j" if "j \<in> set is" for j
    using d'(3) fr(2) [of SL "fj_journal_mac s" seq j "T j"] Cons.prems(1) that by simp
  moreover have "changes cells (T ` set (i # is)) d d'"
    using ch d'(2) by (auto simp: changes_def)
  ultimately show ?case using r w d'(1) by auto
qed simp

lemma replay_verify_live:
  assumes law: "disk_law (vp_sd p) cells" "reliable (vp_sd p)" and dl: "digest_law SL"
  shows "(\<forall>i \<in> set is. entry_good SL cells (fj_journal_mac s) seq d i (T i) \<and> region cells d (T i) = entry_payload cells d i) \<Longrightarrow>
    \<exists>d'. replay_verify SL p s seq is d = (True, d') \<and> cells d' = cells d"
proof (induction "is" arbitrary: d)
  case (Cons i "is")
  have g: "entry_good SL cells (fj_journal_mac s) seq d i (T i)" and home: "region cells d (T i) = entry_payload cells d i" using Cons.prems(1) by auto
  obtain d1 where r: "j_entry_read SL p s i seq d = (Some (T i, entry_payload cells d i, region cells d (J_START + i * 2)), d1)"
    "cells d1 = cells d" using entry_read_live [OF law dl g] by blast
  have reg: "region cells d1 = region cells d" by (rule region_cong [OF r(2)])
  obtain d2 where r2: "j_read p (T i) d1 = (Some (entry_payload cells d i), d2)" "cells d2 = cells d1"
    using j_read_live [OF law, of "T i" d1] reg home by metis
  have reg2: "region cells d2 = region cells d" using region_cong [OF r2(2)] reg by simp
  have "\<exists>d'. replay_verify SL p s seq is d2 = (True, d') \<and> cells d' = cells d2"
    using Cons.prems reg2 by (intro Cons.IH) (auto simp: entry_good_def entry_payload_def)
  then show ?case using r r2 by auto
qed simp

section \<open>Progress\<close>

definition journal_entries :: "sha_lib \<Rightarrow> ('d \<Rightarrow> nat \<Rightarrow> u8 list) \<Rightarrow> fv_fido_journal \<Rightarrow> 'd \<Rightarrow> bool" where
  "journal_entries SL cells s d \<longleftrightarrow>
     (\<forall>k < fj_count s. entry_good SL cells (fj_journal_mac s) (fj_sequence s + 1) d k (fj_targets s ! k))"

text \<open>A journal on a card that does not fail, with a hash that does not fail, whose entries and control
  record are authentic.\<close>

definition journal_live ::
  "sha_lib \<Rightarrow> ('a, 'd, 'r) fv_vault_platform \<Rightarrow> ('d \<Rightarrow> nat \<Rightarrow> u8 list) \<Rightarrow> fv_fido_journal \<Rightarrow> 'd \<Rightarrow> bool" where
  "journal_live SL p cells s d \<longleftrightarrow> disk_law (vp_sd p) cells \<and> reliable (vp_sd p) \<and> sha_total SL \<and> digest_law SL \<and>
     hm_ready (fj_journal_mac s) \<and> \<not> fj_recovering s \<and> journal_ok cells s d \<and> journal_entries SL cells s d \<and>
     (\<exists>c. control_is SL cells (fj_journal_mac s) d c \<and> jc_seq c = fj_sequence s \<and> jc_state c = J_CLEAN)"

lemma control_is_frame:
  "changes cells A d d' \<Longrightarrow> J_CONTROL \<notin> A \<Longrightarrow> Suc J_CONTROL \<notin> A \<Longrightarrow> control_is SL cells mac d' c = control_is SL cells mac d c"
proof -
  assume a: "changes cells A d d'" "J_CONTROL \<notin> A" "Suc J_CONTROL \<notin> A"
  have "region cells d' (J_CONTROL + i) = region cells d (J_CONTROL + i)" if "i < 2" for i
    using changesD [OF a(1)] a(2,3) that by (auto simp: less_2_cases_iff)
  then show ?thesis by (auto simp: control_is_def)
qed

lemma control_wf_clean [simp]: "control_wf clean_control"
  by (simp add: control_wf_def clean_control_def J_CLEAN_def)

lemma replay_live:
  assumes law: "disk_law (vp_sd p) cells" "reliable (vp_sd p)" and sha: "sha_total SL" "digest_law SL" "hm_ready (fj_journal_mac s)"
    and good: "\<forall>i < jc_count c. entry_good SL cells (fj_journal_mac s) (jc_seq c) d i (T i)" "distinct (map T [0..<jc_count c])"
    and dg: "sha_starts SL = Some sh" "digest_of SL cells d [0..<jc_count c] sh = Some (jc_digest c)"
    and c0: "control_is SL cells (fj_journal_mac s) d c" "jc_seq c = fj_sequence s" "fj_sequence s \<noteq> UINT64_MAX"
  obtains d' where "j_replay SL p c s d = (True, s\<lparr>fj_sequence := fj_sequence s + 1, fj_count := 0, fj_auth := (fj_auth s)\<lparr>as_cache_count := 0\<rparr>\<rparr>, d')"
    "control_is SL cells (fj_journal_mac s) d' (clean_control\<lparr>jc_seq := fj_sequence s + 1\<rparr>)"
proof -
  define js where "js = [0..<jc_count c]"
  have g: "\<forall>i \<in> set js. entry_good SL cells (fj_journal_mac s) (jc_seq c) d i (T i)" "distinct (map T js)"
    using good by (auto simp: js_def)
  obtain d1 where d1: "j_digest SL p s c d = (Some (jc_digest c), d1)" "cells d1 = cells d"
    using digest_loop_live [OF law sha(2) g, of "[]" sh] dg by (auto simp: j_digest_def js_def)
  have r1: "region cells d1 = region cells d" by (rule region_cong [OF d1(2)])
  then have g1: "\<forall>i \<in> set js. entry_good SL cells (fj_journal_mac s) (jc_seq c) d1 i (T i)" using g(1) by (simp add: entry_good_def entry_payload_def)
  obtain d2 where d2: "replay_write SL p s (jc_seq c) js d1 = (True, d2)" "changes cells (T ` set js) d1 d2"
    "\<forall>i \<in> set js. region cells d2 (T i) = entry_payload cells d1 i"
    using replay_write_live [OF law sha(2) g1 g(2)] by blast
  obtain d3 where d3: "j_sync p d2 = (True, d3)" "cells d3 = cells d2" using j_sync_live [OF law] by blast
  have r3: "region cells d3 = region cells d2" by (rule region_cong [OF d3(2)])
  then have c3: "changes cells (T ` set js) d1 d3" using d2(2) by (simp add: changes_def)
  have T: "x < J_HOME" if "x \<in> T ` set js" for x using g(1) that by (auto simp: entry_good_def)
  have dis: "T ` set js \<inter> journal_area = {}" "J_CONTROL \<notin> T ` set js" "Suc J_CONTROL \<notin> T ` set js"
    using T by (fastforce simp: journal_area_def journal_layout)+
  have g3: "\<forall>i \<in> set js. entry_good SL cells (fj_journal_mac s) (jc_seq c) d3 i (T i) \<and> region cells d3 (T i) = entry_payload cells d3 i"
    using entry_good_frame [OF c3 dis(1)] g1 d2(3) r3 by metis
  obtain d4 where d4: "replay_verify SL p s (jc_seq c) js d3 = (True, d4)" "cells d4 = cells d3"
    using replay_verify_live [OF law sha(2) g3] by blast
  have r4: "region cells d4 = region cells d3" by (rule region_cong [OF d4(2)])
  have c4: "control_is SL cells (fj_journal_mac s) d4 c"
    using control_is_frame [OF c3 dis(2,3)] c0(1) r1 r4 by (simp add: control_is_def)
  obtain d5 where d5: "j_control_write SL p clean_control s d4 = (True, clean_control\<lparr>jc_seq := fj_sequence s + 1\<rparr>, s\<lparr>fj_sequence := fj_sequence s + 1\<rparr>, d5)"
    "control_is SL cells (fj_journal_mac s) d5 (clean_control\<lparr>jc_seq := fj_sequence s + 1\<rparr>)"
    using control_write_live [OF law sha control_wf_clean c4 c0(2,3)] by blast
  have "j_replay SL p c s d = (True, s\<lparr>fj_sequence := fj_sequence s + 1, fj_count := 0, fj_auth := (fj_auth s)\<lparr>as_cache_count := 0\<rparr>\<rparr>, d5)"
    using d1(1) d2(1) d3(1) d4(1) d5(1) by (simp add: j_replay_def js_def)
  then show thesis using that d5(2) by blast
qed

lemma publish_live:
  assumes live: "journal_live SL p cells s d" and q: "fj_sequence s \<noteq> UINT64_MAX" "fj_sequence s + 1 \<noteq> UINT64_MAX"
  obtains s' d' where "publish_journal SL p s d = (True, s', d')" "journal_live SL p cells s' d'"
proof -
  have law: "disk_law (vp_sd p) cells" "reliable (vp_sd p)" and sha: "sha_total SL" "digest_law SL" "hm_ready (fj_journal_mac s)"
    and ok: "journal_ok cells s d" and en: "journal_entries SL cells s d" and nr: "\<not> fj_recovering s"
    using live by (auto simp: journal_live_def)
  obtain c0 where c0: "control_is SL cells (fj_journal_mac s) d c0" "jc_seq c0 = fj_sequence s" using live by (auto simp: journal_live_def)
  define n where "n = fj_count s"
  define T where "T = (\<lambda>i. fj_targets s ! i)"
  define c where "c = clean_control\<lparr>jc_seq := fj_sequence s + 1, jc_state := J_READY, jc_count := n\<rparr>"
  have n: "n \<le> 128" using ok by (simp add: n_def journal_ok_def)
  have dist: "distinct (map T [0..<n])"
  proof -
    have "map T [0..<n] = take n (fj_targets s)" using ok by (intro nth_equalityI) (auto simp: T_def n_def journal_ok_def)
    then show ?thesis using ok by (simp add: n_def journal_ok_def)
  qed
  obtain d1 where d1: "j_sync p d = (True, d1)" "cells d1 = cells d" using j_sync_live [OF law] by blast
  have r1: "region cells d1 = region cells d" by (rule region_cong [OF d1(2)])
  have g1: "\<forall>i \<in> set [0..<n]. entry_good SL cells (fj_journal_mac s) (fj_sequence s + 1) d1 i (T i)"
    using en r1 by (simp add: journal_entries_def n_def T_def entry_good_def entry_payload_def)
  obtain sh where sh1: "sha_starts SL = Some sh" using sha(1) by (auto simp: sha_total_def)
  obtain dg where sh2: "digest_of SL cells d1 [0..<n] sh = Some dg" using digest_of_total [OF sha(1), of cells d1 "[0..<n]" sh] by blast
  note sh = sh1 sh2
  obtain d2 where d2: "j_digest SL p s c d1 = (Some dg, d2)" "cells d2 = cells d1"
    using digest_loop_live [OF law sha(2) g1 dist, of "[]" sh] sh by (auto simp: j_digest_def c_def)
  have r2: "region cells d2 = region cells d" using region_cong [OF d2(2)] r1 by simp
  have wf: "control_wf (c\<lparr>jc_digest := dg\<rparr>)"
    using n length_digest_of [OF sha(2) sh(2)] by (simp add: control_wf_def c_def clean_control_def J_READY_def)
  have c2: "control_is SL cells (fj_journal_mac s) d2 c0" using c0(1) r2 by (simp add: control_is_def)
  define c3 where "c3 = c\<lparr>jc_digest := dg, jc_seq := fj_sequence s + 1\<rparr>"
  define s3 where "s3 = s\<lparr>fj_sequence := fj_sequence s + 1\<rparr>"
  obtain d3 where d3: "j_control_write SL p (c\<lparr>jc_digest := dg\<rparr>) s d2 = (True, c3, s3, d3)"
    "changes cells {J_CONTROL, Suc J_CONTROL} d2 d3" "control_is SL cells (fj_journal_mac s) d3 c3"
    using control_write_live [OF law sha wf c2 c0(2) q(1)] unfolding c3_def s3_def by blast
  have dis: "{J_CONTROL, Suc J_CONTROL} \<inter> journal_area = {}" by (auto simp: journal_area_def journal_layout)
  have g2: "entry_good SL cells (fj_journal_mac s) (fj_sequence s + 1) d2 i (T i)" if "i < n" for i
    using g1 that r1 r2 by (simp add: entry_good_def entry_payload_def)
  note fr = entry_good_frame [OF d3(2) dis g2]
  have dg3: "digest_of SL cells d3 [0..<n] sh = Some dg"
  proof -
    have "region cells d3 (J_START + i * 2) = region cells d1 (J_START + i * 2)" if "i < n" for i
      using changesD [OF d3(2), of "J_START + i * 2"] that n r1 r2 by (auto simp: journal_layout)
    then have "digest_of SL cells d3 [0..<n] sh = digest_of SL cells d1 [0..<n] sh"
      using fr(2) r1 r2 by (intro digest_of_cong) (auto simp: entry_payload_def)
    then show ?thesis using sh(2) by simp
  qed
  obtain d' where d': "j_replay SL p c3 s3 d3 = (True, s3\<lparr>fj_sequence := fj_sequence s3 + 1, fj_count := 0, fj_auth := (fj_auth s3)\<lparr>as_cache_count := 0\<rparr>\<rparr>, d')"
    "control_is SL cells (fj_journal_mac s) d' (clean_control\<lparr>jc_seq := fj_sequence s3 + 1\<rparr>)"
  proof (rule replay_live [OF law sha(1,2), of s3 c3 d3 T sh])
    show "\<forall>i < jc_count c3. entry_good SL cells (fj_journal_mac s3) (jc_seq c3) d3 i (T i)"
      using fr(1) by (simp add: s3_def c3_def c_def)
  qed (use sha(3) dist sh(1) dg3 d3(3) q(2) in \<open>simp_all add: s3_def c3_def c_def\<close>)
  define s' where "s' = s3\<lparr>fj_sequence := fj_sequence s3 + 1, fj_count := 0, fj_auth := (fj_auth s3)\<lparr>as_cache_count := 0\<rparr>\<rparr>"
  have "publish_journal SL p s d = (True, s', d')"
    using d1 d2 d3 d' by (simp add: publish_journal_def Let_def s'_def c_def n_def)
  moreover have "\<exists>c. control_is SL cells (fj_journal_mac s') d' c \<and> jc_seq c = fj_sequence s' \<and> jc_state c = J_CLEAN"
    using d'(2) by (intro exI [of _ "clean_control\<lparr>jc_seq := fj_sequence s3 + 1\<rparr>"]) (simp add: s'_def s3_def clean_control_def)
  then have "journal_live SL p cells s' d'"
    using law sha ok nr by (simp add: journal_live_def s'_def s3_def journal_ok_def journal_entries_def)
  ultimately show thesis using that by blast
qed

lemma overlay_write_loop_live:
  assumes law: "disk_law (vp_sd p) cells" "reliable (vp_sd p)" and sha: "sha_total SL" "digest_law SL"
  shows "hm_ready (fj_journal_mac s) \<Longrightarrow> fj_sequence s \<noteq> UINT64_MAX \<Longrightarrow> journal_ok cells s d \<Longrightarrow> journal_entries SL cells s d \<Longrightarrow>
    length data = n * 512 \<Longrightarrow> lba + n \<le> J_HOME \<Longrightarrow> fj_count s + n \<le> 128 \<Longrightarrow>
    \<exists>s' d'. overlay_write_loop SL p [lba..<lba + n] data s d = (True, s', d') \<and> journal_entries SL cells s' d' \<and>
      fj_count s' \<le> fj_count s + n"
proof (induction n arbitrary: lba data s d)
  case (Suc n)
  have xs: "[lba..<lba + Suc n] = lba # [Suc lba..<Suc lba + n]" by (simp add: upt_conv_Cons)
  define k where "k = j_slot s lba"
  define m where "m = take 512 data"
  define h where "h = entry_header (fj_sequence s + 1) k lba"
  have x: "lba < J_HOME" and lm: "length m = 512" using Suc.prems by (auto simp: m_def)
  have k: "k \<le> fj_count s" "k < 128" using j_slot_le [OF Suc.prems(3), of lba] Suc.prems(7) by (auto simp: k_def)
  obtain tag where tag: "fv_hmac_compute SL (fj_journal_mac s) (take 480 h) m = Some tag"
    using hmac_compute_total [OF sha(1) Suc.prems(1)] by blast
  have lh: "length (memcpy h 480 tag) = 512" by (simp add: h_def)
  obtain d1 where d1: "j_write p (J_START + k * 2 + 1) m d = (True, d1)" "changes cells {J_START + k * 2 + 1} d d1"
    "region cells d1 (J_START + k * 2 + 1) = m" using j_write_live [OF law lm] by blast
  obtain d2 where d2: "j_write p (J_START + k * 2) (memcpy h 480 tag) d1 = (True, d2)" "changes cells {J_START + k * 2} d1 d2"
    "region cells d2 (J_START + k * 2) = memcpy h 480 tag" using j_write_live [OF law lh] by blast
  define s1 where "s1 = s\<lparr>fj_targets := (fj_targets s)[k := lba], fj_count := (if k = fj_count s then Suc (fj_count s) else fj_count s)\<rparr>"
  have ch: "changes cells {J_START + k * 2, J_START + k * 2 + 1} d d2"
    using d1(2) d2(2) by (auto simp: changes_def)
  have p2: "region cells d2 (J_START + k * 2 + 1) = m" using changesD [OF d2(2), of "J_START + k * 2 + 1"] d1(3) by simp
  have "unat (get (region cells d2 (J_START + k * 2)) 24 4) = lba" using d2(3) entry_header_target [OF x] by (simp add: h_def)
  from entry_put [OF Suc.prems(3) x k_def _ s1_def ch p2 this]
  have ok1: "journal_ok cells s1 d2" using k(2) by simp
  have lt: "length (fj_targets s) = 128" using Suc.prems(3) by (simp add: journal_ok_def)
  have "entry_good SL cells (fj_journal_mac s1) (fj_sequence s1 + 1) d2 j (fj_targets s1 ! j)" if j: "j < fj_count s1" for j
  proof (cases "j = k")
    case True
    then show ?thesis using k x tag d2(3) p2 lt by (simp add: entry_good_def entry_payload_def s1_def h_def)
  next
    case False
    then have "j < fj_count s" using j k by (auto simp: s1_def split: if_splits)
    then have g: "entry_good SL cells (fj_journal_mac s) (fj_sequence s + 1) d j (fj_targets s ! j)"
      using Suc.prems(4) by (simp add: journal_entries_def)
    have "J_START + j * 2 \<noteq> J_START + k * 2 + 1" "J_START + j * 2 + 1 \<noteq> J_START + k * 2" by presburger+
    then have "region cells d2 (J_START + j * 2) = region cells d (J_START + j * 2)"
      "region cells d2 (J_START + j * 2 + 1) = region cells d (J_START + j * 2 + 1)"
      using changesD [OF ch] False by auto
    then show ?thesis using g False by (simp add: entry_good_def entry_payload_def s1_def)
  qed
  then have en1: "journal_entries SL cells s1 d2" by (simp add: journal_entries_def)
  have c1: "fj_count s1 \<le> Suc (fj_count s)" by (simp add: s1_def)
  obtain s' d' where r: "overlay_write_loop SL p [Suc lba..<Suc lba + n] (drop 512 data) s1 d2 = (True, s', d')" "journal_entries SL cells s' d'"
    "fj_count s' \<le> fj_count s1 + n"
    using Suc.IH [of s1 d2 "drop 512 data" "Suc lba"] ok1 en1 Suc.prems c1 by (auto simp: s1_def)
  have "overlay_write_loop SL p [lba..<lba + Suc n] data s d = (True, s', d')"
    using r(1) d1(1) d2(1) tag k(2) Suc.prems(2)
    unfolding xs overlay_write_loop.simps Let_def k_def [symmetric] m_def [symmetric] h_def [symmetric] by (simp add: s1_def)
  then show ?case using r c1 by auto
qed simp

lemma overlay_write_live:
  assumes live: "journal_live SL p cells s (w_sd w)" and q: "fj_sequence s \<noteq> UINT64_MAX"
    and fit: "length data = n * 512" "lba + n \<le> J_HOME" "fj_count s + n \<le> 128"
  obtains s' w' where "overlay_write SL p lba n data (s, w) = (True, s', w')" "journal_live SL p cells s' (w_sd w')"
    "fj_count s' \<le> fj_count s + n" "fj_sequence s' = fj_sequence s"
proof -
  have law: "disk_law (vp_sd p) cells" "reliable (vp_sd p)" and sha: "sha_total SL" "digest_law SL" "hm_ready (fj_journal_mac s)"
    and ok: "journal_ok cells s (w_sd w)" and en: "journal_entries SL cells s (w_sd w)" and nr: "\<not> fj_recovering s"
    using live by (auto simp: journal_live_def)
  obtain c0 where c0: "control_is SL cells (fj_journal_mac s) (w_sd w) c0" "jc_seq c0 = fj_sequence s" "jc_state c0 = J_CLEAN"
    using live by (auto simp: journal_live_def)
  obtain d0 where "j_control_scan SL p s (w_sd w) = (Some (Some c0), d0)" "cells d0 = cells (w_sd w)"
    using control_scan_live [OF law c0(1)] by blast
  then obtain d1 where d1: "(if fj_count s = 0 then journal_current SL p s (w_sd w) else (True, w_sd w)) = (True, d1)" "cells d1 = cells (w_sd w)"
    using c0(2,3) by (cases "fj_count s = 0") (auto simp: journal_current_def)
  have r1: "region cells d1 = region cells (w_sd w)" by (rule region_cong [OF d1(2)])
  have ok1: "journal_ok cells s d1" and en1: "journal_entries SL cells s d1"
    using ok en r1 by (auto simp: journal_ok_def journal_entries_def entry_good_def entry_payload_def)
  obtain s' d' where lp: "overlay_write_loop SL p [lba..<lba + n] data s d1 = (True, s', d')" "journal_entries SL cells s' d'"
    "fj_count s' \<le> fj_count s + n"
    using overlay_write_loop_live [OF law sha(1,2,3) q ok1 en1 fit] by blast
  note L = overlay_write_loop_spec [OF law(1) lp(1) ok1 fit(1,2)]
  then have sm: "same_journal s s'" "changes cells journal_area d1 d'" by auto
  have "control_is SL cells (fj_journal_mac s) d' c0"
    using control_is_frame [OF sm(2)] c0(1) r1 by (simp add: control_is_def journal_area_def journal_layout)
  then have "journal_live SL p cells s' d'"
    using law sha nr L lp(2) c0(2,3) by (auto simp: journal_live_def same_journal_def)
  moreover have "overlay_write SL p lba n data (s, w) = (True, s', w\<lparr>w_sd := d'\<rparr>)"
    using d1(1) lp(1) fit(2) nr by (auto simp: overlay_write_def j_overlay_write_def)
  ultimately show thesis using that lp(3) sm(1) by (auto simp: same_journal_def)
qed

text \<open>Writes change nothing in memory but the targets and their number.\<close>

definition same_binding :: "fv_fido_journal \<Rightarrow> fv_fido_journal \<Rightarrow> bool" where
  "same_binding s s' \<longleftrightarrow> s\<lparr>fj_targets := fj_targets s', fj_count := fj_count s'\<rparr> = s'"

lemma same_binding_refl [simp]: "same_binding s s"
  by (simp add: same_binding_def)

lemma same_binding_trans: "same_binding s s1 \<Longrightarrow> same_binding s1 s2 \<Longrightarrow> same_binding s s2"
  by (cases s, cases s1, cases s2) (simp add: same_binding_def)

lemma overlay_write_loop_binding: "overlay_write_loop SL p xs data s d = (ok, s', d') \<Longrightarrow> same_binding s s'"
proof (induction xs arbitrary: data s d)
  case (Cons x xs)
  define s1 where "s1 = s\<lparr>fj_targets := (fj_targets s)[j_slot s x := x], fj_count := (if j_slot s x = fj_count s then Suc (fj_count s) else fj_count s)\<rparr>"
  have b: "same_binding s s1" by (simp add: same_binding_def s1_def)
  have "s' = s \<or> (\<exists>d1. overlay_write_loop SL p xs (drop 512 data) s1 d1 = (ok, s', d'))"
    using Cons.prems unfolding overlay_write_loop.simps Let_def s1_def [symmetric] by (auto split: if_splits option.splits prod.splits bool.splits)
  then show ?case using Cons.IH same_binding_trans [OF b] by auto
qed simp

lemma overlay_write_binding: "overlay_write SL p lba n data (s, w) = (ok, s', w') \<Longrightarrow> same_binding s s'"
  using overlay_write_loop_binding
  by (auto simp: overlay_write_def j_overlay_write_def split: prod.splits if_splits bool.splits)

lemma same_binding_authorized: "same_binding s s' \<Longrightarrow> j_authorized p v s' w = j_authorized p v s w"
  by (cases s, cases s') (simp add: same_binding_def j_authorized_def)

lemma write_all_live:
  "journal_live SL p cells s (w_sd w) \<Longrightarrow> fj_sequence s \<noteq> UINT64_MAX \<Longrightarrow> writes_wf ws \<Longrightarrow>
   (\<forall>(lba, n, data) \<in> set ws. lba + n \<le> J_HOME) \<Longrightarrow> fj_count s + (\<Sum>(lba, n, data) \<leftarrow> ws. n) \<le> 128 \<Longrightarrow>
   \<exists>s' w'. write_all (overlay_write SL p) ws (s, w) = (True, s', w') \<and> journal_live SL p cells s' (w_sd w') \<and>
     fj_sequence s' = fj_sequence s \<and> same_binding s s'"
proof (induction ws arbitrary: s w)
  case (Cons x ws)
  obtain lba n data where x: "x = (lba, n, data)" by (cases x)
  have fit: "length data = n * 512" "lba + n \<le> J_HOME" "fj_count s + n \<le> 128" using Cons.prems by (auto simp: x writes_wf_def)
  obtain s1 w1 where w1: "overlay_write SL p lba n data (s, w) = (True, s1, w1)" "journal_live SL p cells s1 (w_sd w1)"
    "fj_count s1 \<le> fj_count s + n" "fj_sequence s1 = fj_sequence s"
    using overlay_write_live [OF Cons.prems(1,2) fit] by blast
  have "\<exists>s' w'. write_all (overlay_write SL p) ws (s1, w1) = (True, s', w') \<and> journal_live SL p cells s' (w_sd w') \<and>
     fj_sequence s' = fj_sequence s1 \<and> same_binding s1 s'"
    using Cons.prems w1(2-4) by (intro Cons.IH) (auto simp: x writes_wf_def)
  then show ?case using w1 same_binding_trans [OF overlay_write_binding [OF w1(1)]] by (auto simp: x)
qed simp

lemma commit_live:
  assumes live: "journal_live SL p cells s (w_sd w)" and q: "fj_sequence s \<noteq> UINT64_MAX" "fj_sequence s + 1 \<noteq> UINT64_MAX"
    and au: "j_authorized p v s w = (True, w1)"
  shows "\<exists>s' w'. fv_fido_journal_commit SL p v s w = (True, s', w')"
proof -
  have law: "disk_law (vp_sd p) cells" "reliable (vp_sd p)" using live by (auto simp: journal_live_def)
  have w1: "w_sd w1 = w_sd w" using au by (auto simp: j_authorized_def dest: vault_valid_sd split: if_splits prod.splits)
  obtain c0 where c0: "control_is SL cells (fj_journal_mac s) (w_sd w) c0" "jc_seq c0 = fj_sequence s" "jc_state c0 = J_CLEAN"
    using live by (auto simp: journal_live_def)
  obtain d1 where d1: "j_control_scan SL p s (w_sd w) = (Some (Some c0), d1)" "cells d1 = cells (w_sd w)"
    using control_scan_live [OF law c0(1)] by blast
  have r1: "region cells d1 = region cells (w_sd w)" by (rule region_cong [OF d1(2)])
  have jc: "journal_current SL p s (w_sd w) = (True, d1)" using d1(1) c0(2,3) by (simp add: journal_current_def)
  have live1: "journal_live SL p cells s d1"
    using live r1 by (simp add: journal_live_def journal_ok_def journal_entries_def entry_good_def entry_payload_def control_is_def)
  obtain s' d' where "publish_journal SL p s d1 = (True, s', d')" using publish_live [OF live1 q] by blast
  then show ?thesis using au w1 jc by (cases "fj_count s = 0") (auto simp: fv_fido_journal_commit_def)
qed

lemma journal_progress:
  assumes "journal_live SL p cells s (w_sd w)" "fj_count s = 0"
    and "fj_sequence s \<noteq> UINT64_MAX" "fj_sequence s + 1 \<noteq> UINT64_MAX"
    and "writes_wf ws" "\<forall>(lba, n, data) \<in> set ws. lba + n \<le> J_HOME" "(\<Sum>(lba, n, data) \<leftarrow> ws. n) \<le> 128"
    and "\<forall>w. fst (j_authorized p v s w)"
  shows "\<exists>s1 w1 s2 w2. write_all (overlay_write SL p) ws (s, w) = (True, s1, w1) \<and>
    fv_fido_journal_commit SL p v s1 w1 = (True, s2, w2) \<and>
    home_sectors cells (s2, w2) = apply_all ws (home_sectors cells (s, w))"
proof -
  obtain s1 w1 where w: "write_all (overlay_write SL p) ws (s, w) = (True, s1, w1)" "journal_live SL p cells s1 (w_sd w1)"
    "fj_sequence s1 = fj_sequence s" "same_binding s s1"
    using write_all_live [OF assms(1,3,5,6)] assms(2,7) by auto
  obtain wa where "j_authorized p v s1 w1 = (True, wa)"
    using assms(8) same_binding_authorized [OF w(4)] by (metis prod.collapse)
  then obtain s2 w2 where c: "fv_fido_journal_commit SL p v s1 w1 = (True, s2, w2)"
    using commit_live [OF w(2)] w(3) assms(3,4) by metis
  have inv: "fido_journal_inv p cells (s, w)" using assms(1) by (simp add: fido_journal_inv_def journal_live_def)
  have view: "visible_sectors cells (s, w) = home_sectors cells (s, w)"
    using assms(2) by (simp add: visible_sectors_def home_sectors_def j_view_def cong: if_cong)
  have "home_sectors cells (s2, w2) = apply_all ws (home_sectors cells (s, w))"
    using fido_journal.all_or_nothing [OF inv view assms(5) w(1)] c unfolding overlay_commit_def by simp
  then show ?thesis using w(1) c by blast
qed

text \<open>C15. A transaction of the passkey disk is all or nothing: however the writes of a transaction end, the
  home sectors are what they were; when they succeed, a read through the overlay shows them, and a
  successful commit has installed all of them, in their order, and nothing else.\<close>

theorem fido_journal_transaction:
  assumes "fido_journal_inv p cells (s, w)" "fj_count s = 0" "writes_wf ws"
    and "write_all (overlay_write SL p) ws (s, w) = (ok, s1, w1)"
  shows "home_sectors cells (s1, w1) = home_sectors cells (s, w) \<and>
    (ok \<longrightarrow>
      (\<forall>lba n m sw. overlay_read SL p lba n (s1, w1) = (Some m, sw) \<longrightarrow>
         shows_view m (apply_all ws (home_sectors cells (s, w))) lba n) \<and>
      (\<forall>v s2 w2. fv_fido_journal_commit SL p v s1 w1 = (True, s2, w2) \<longrightarrow>
         home_sectors cells (s2, w2) = apply_all ws (home_sectors cells (s, w))))"
proof -
  have view: "visible_sectors cells (s, w) = home_sectors cells (s, w)"
    using assms(2) by (simp add: visible_sectors_def home_sectors_def j_view_def cong: if_cong)
  note t = fido_journal.all_or_nothing [OF assms(1) view assms(3,4)]
  then show ?thesis unfolding overlay_commit_def by (metis (mono_tags, lifting) case_prod_conv)
qed

text \<open>C16. A published journal survives a power failure: when the sectors have suffered any damage that an
  interrupted replay can cause, in the targets of the journal and in the control sectors, a replay that
  succeeds gives the home sectors the journal stands for; and every replay, whatever its outcome, keeps
  the damage within these sectors, so that it can be run again.\<close>

theorem fido_journal_replay_recovers:
  assumes "disk_law (vp_sd p) cells" "jc_count c \<le> 128"
    and "changes cells (replay_area cells d (jc_count c)) d d1" "j_replay SL p c s d1 = (ok, s', d')"
  shows "changes cells (replay_area cells d (jc_count c)) d d' \<and>
    (ok \<longrightarrow> (\<forall>x < J_HOME. region cells d' x = committed cells d (jc_count c) x))"
  using j_replay_spec [OF assms(1) refl assms(2-4)] by blast


section \<open>The properties at work\<close>

text \<open>A card with the journal of a new vault, and one with a published journal of one entry.\<close>

definition live_vault :: fv_vault where
  "live_vault = fido_vault\<lparr>v_config := zero_config\<lparr>ec_volume := test_descriptor 7000\<rparr>\<rparr>"

definition live_journal :: fv_fido_journal where
  "live_journal = fv_fido_journal_close\<lparr>fj_descriptor :=
       (case fv_volume_descriptor_encode (test_descriptor 7000) UINT64_MAX of Some b \<Rightarrow> b | None \<Rightarrow> []),
     fj_sequence := 2, fj_journal_mac := test_hmac, fj_ready := True, fj_creating := True\<rparr>"

definition test_tag :: "u8 list" where
  "test_tag = take 32 (xor_all (memcpy (zeros 64) 0 [7]) 0x5c)"

definition with_control :: "j_control \<Rightarrow> (nat \<Rightarrow> u8 list) \<Rightarrow> nat \<Rightarrow> u8 list" where
  "with_control c d = d(FV_FIDO_REGION_BASE + J_CONTROL := memcpy (control_encode c) 480 test_tag)"

definition live_world :: "(unit, nat \<Rightarrow> u8 list, unit) vault_world" where
  "live_world = test_world\<lparr>w_sd := with_control (clean_control\<lparr>jc_seq := 2\<rparr>) blank\<rparr>"

lemma test_tag_compute: "fv_hmac_compute test_sha test_hmac m x = Some test_tag"
  by (simp add: test_hmac_compute test_tag_def)

lemma control_is_with_control:
  assumes "control_wf c" "jc_seq c \<noteq> 0" "jc_seq c mod 2 = 0" "d (FV_FIDO_REGION_BASE + Suc J_CONTROL) = []"
  shows "control_is test_sha ram_cells test_hmac (with_control c d) c"
proof -
  have l: "length (memcpy (control_encode c) 480 test_tag) = 512" by (simp add: control_encode_def Let_def)
  have "region ram_cells (with_control c d) J_CONTROL = memcpy (control_encode c) 480 test_tag"
    using l by (simp add: region_def with_control_def ram_cells_def)
  moreover have "control_at test_sha test_hmac 0 (memcpy (control_encode c) 480 test_tag) = Some (Some c)"
    using assms(1-3) by (intro control_at_write) (auto simp: test_tag_compute)
  moreover have "region ram_cells (with_control c d) (Suc J_CONTROL) = zeros 512"
    using assms(4) by (simp add: region_def with_control_def ram_cells_def)
  moreover have "take 8 (zeros 512) \<noteq> label ''FV3JCTL''"
  proof
    assume "take 8 (zeros 512) = label ''FV3JCTL''"
    then have "take 8 (zeros 512) ! 0 = label ''FV3JCTL'' ! 0" by simp
    then show False by (simp add: zeros_def label_def ascii_def)
  qed
  ultimately show ?thesis unfolding control_is_def by (intro exI [of _ 0]) (auto simp: control_at_def)
qed

lemma live_journal_live: "journal_live test_sha fido_platform ram_cells live_journal (w_sd live_world)"
proof -
  have "control_is test_sha ram_cells test_hmac (with_control (clean_control\<lparr>jc_seq := 2\<rparr>) blank) (clean_control\<lparr>jc_seq := 2\<rparr>)"
    by (rule control_is_with_control) (auto simp: control_wf_def clean_control_def J_CLEAN_def)
  then show ?thesis
    by (auto simp: journal_live_def disk_law_fido fido_platform_def reliable_ram disk_law_ram live_journal_def fv_fido_journal_close_def test_hmac_def
        journal_ok_def journal_entries_def live_world_def clean_control_def FV_FIDO_JOURNAL_ENTRIES_def)
qed

lemma live_descriptor_valid: "volume_valid (test_descriptor 7000) UINT64_MAX"
  using test_descriptor_ids [of 7000]
  by (simp add: volume_valid_def volume_fits_def Let_def test_descriptor_def div_up_def volume_bitmap_def
      FV_VOLUME_METADATA_BASE_def UINT64_MAX_def)

lemma live_journal_authorized: "fst (j_authorized fido_platform live_vault live_journal w)"
proof -
  obtain b where "fv_volume_descriptor_encode (test_descriptor 7000) UINT64_MAX = Some b"
    using volume_encode_total [OF live_descriptor_valid] by blast
  then show ?thesis
    by (simp add: j_authorized_def live_journal_def live_vault_def fv_fido_journal_close_def zero_config_def)
qed


lemma fido_journal_transaction_witness:
  "\<exists>s1 w1 s2 w2. write_all (overlay_write test_sha fido_platform) [(5, 1, replicate 512 7)] (live_journal, live_world) = (True, s1, w1) \<and>
     fv_fido_journal_commit test_sha fido_platform live_vault s1 w1 = (True, s2, w2) \<and>
     home_sectors ram_cells (s1, w1) 5 = zeros 512 \<and> home_sectors ram_cells (s2, w2) 5 = replicate 512 7"
proof -
  have wf: "writes_wf [(5, 1, replicate 512 7)]" by (simp add: writes_wf_def)
  have c0: "fj_count live_journal = 0" by (simp add: live_journal_def fv_fido_journal_close_def)
  obtain s1 w1 s2 w2 where w: "write_all (overlay_write test_sha fido_platform) [(5, 1, replicate 512 7)] (live_journal, live_world) = (True, s1, w1)"
    and c: "fv_fido_journal_commit test_sha fido_platform live_vault s1 w1 = (True, s2, w2)"
    using journal_progress [OF live_journal_live c0 _ _ wf, of live_vault] live_journal_authorized
    by (auto simp: live_journal_def fv_fido_journal_close_def UINT64_MAX_def J_HOME_def)
  have inv: "fido_journal_inv fido_platform ram_cells (live_journal, live_world)"
    using live_journal_live by (simp add: fido_journal_inv_def journal_live_def)
  note t = fido_journal_transaction [OF inv c0 wf w]
  have "home_sectors ram_cells (live_journal, live_world) 5 = zeros 512"
    by (simp add: home_sectors_def region_def live_world_def with_control_def ram_cells_def journal_layout)
  then show ?thesis using t w c by (auto simp: update_view_def span_def)
qed

text \<open>A replay that was interrupted after it had begun to write sector 5.\<close>

definition ready_control :: j_control where
  "ready_control = clean_control\<lparr>jc_seq := 2, jc_state := J_READY, jc_count := 1,
     jc_digest := take 32 (memcpy (entry_header 2 0 5) 480 test_tag)\<rparr>"

definition ready_card :: "nat \<Rightarrow> u8 list" where
  "ready_card = with_control ready_control (blank(FV_FIDO_REGION_BASE + J_START := memcpy (entry_header 2 0 5) 480 test_tag,
     FV_FIDO_REGION_BASE + J_START + 1 := replicate 512 7))"

lemma fido_journal_replay_recovers_witness:
  "\<exists>s' d'. j_replay test_sha fido_platform ready_control live_journal (ready_card(FV_FIDO_REGION_BASE + 5 := replicate 512 99)) = (True, s', d') \<and>
     region ram_cells d' 5 = replicate 512 7"
proof -
  define d1 where "d1 = ready_card(FV_FIDO_REGION_BASE + 5 := replicate 512 99)"
  define h where "h = memcpy (entry_header 2 0 5) 480 test_tag"
  have lh: "length h = 512" by (simp add: h_def)
  have at: "region ram_cells d J_START = h" "region ram_cells d (J_START + 1) = replicate 512 7"
    if "d = ready_card \<or> d = d1" for d
    using that lh by (auto simp: region_def ram_cells_def d1_def ready_card_def with_control_def h_def journal_layout)
  have tgt: "entry_target ram_cells ready_card 0 = 5"
    using at(1) [of ready_card] entry_header_target [of 5 2 0 test_tag] by (simp add: entry_target_def h_def J_HOME_def)
  have law: "disk_law (vp_sd fido_platform) ram_cells" "reliable (vp_sd fido_platform)"
    using disk_law_fido by (auto simp: fido_platform_def reliable_ram)
  have good: "entry_good test_sha ram_cells (fj_journal_mac live_journal) 2 d1 0 5"
    using at [of d1] by (simp add: entry_good_def entry_payload_def live_journal_def test_tag_compute h_def J_HOME_def)
  have "ready_card = with_control ready_control (blank(FV_FIDO_REGION_BASE + J_START := h, FV_FIDO_REGION_BASE + J_START + 1 := replicate 512 7))"
    by (simp add: ready_card_def h_def)
  then have d1: "d1 = with_control ready_control (blank(FV_FIDO_REGION_BASE + J_START := h, FV_FIDO_REGION_BASE + J_START + 1 := replicate 512 7,
      FV_FIDO_REGION_BASE + 5 := replicate 512 99))"
    by (auto simp: d1_def with_control_def journal_layout fun_eq_iff)
  have ctl: "control_is test_sha ram_cells test_hmac d1 ready_control"
    unfolding d1 by (rule control_is_with_control)
      (auto simp: control_wf_def ready_control_def clean_control_def J_READY_def journal_layout)
  obtain d' where run: "j_replay test_sha fido_platform ready_control live_journal d1 =
      (True, live_journal\<lparr>fj_sequence := 3, fj_count := 0, fj_auth := (fj_auth live_journal)\<lparr>as_cache_count := 0\<rparr>\<rparr>, d')"
  proof (rule replay_live [OF law sha_total_test_sha digest_law_test_sha, of live_journal ready_control d1 "\<lambda>_. 5" "[]"])
    show "digest_of test_sha ram_cells d1 [0..<jc_count ready_control] [] = Some (jc_digest ready_control)"
      using at [of d1] lh by (simp add: ready_control_def test_sha_def h_def [symmetric])
  qed (use good ctl in \<open>auto simp: ready_control_def live_journal_def test_hmac_def test_sha_def UINT64_MAX_def\<close>)
  have dmg: "changes ram_cells (replay_area ram_cells ready_card (jc_count ready_control)) ready_card d1"
    using tgt by (auto simp: changes_def region_def d1_def ram_cells_def replay_area_def ready_control_def J_HOME_def)
  have n: "jc_count ready_control \<le> 128" by (simp add: ready_control_def)
  have "committed ram_cells ready_card 1 5 = replicate 512 7"
    using tgt at [of ready_card] by (simp add: committed_def entry_payload_def)
  then show ?thesis
    using fido_journal_replay_recovers [OF law(1) n dmg run] run by (auto simp: d1_def ready_control_def J_HOME_def)
qed

end
