(* ===== verification/Fido_Journal_Recovery.thy ===== *)
theory Fido_Journal_Recovery
  imports Fido_Journal
begin

text \<open>
  Reset, migration from the snapshot store and opening of the passkey journal
  (\<^verbatim>\<open>src/src/shared/fido/store.c\<close>, from \<^verbatim>\<open>j_verify_home\<close> on). A reset and a migration publish their intent in
  a control record before they touch the home sectors, and an open finishes what it finds published.
\<close>

section \<open>Blank disk and reset\<close>

fun verify_loop ::
  "sha_lib \<Rightarrow> ('a, 'd, 'r) fv_vault_platform \<Rightarrow> nat list \<Rightarrow> fv_fido_journal \<Rightarrow> 'd \<Rightarrow> bool \<times> fv_fido_journal \<times> 'd" where
  "verify_loop SL p [] s d = (True, s, d)"
| "verify_loop SL p (i # is) s d =
     (case fv_auth_read SL (j_ops SL p) i BATCH (4, zeros (BATCH * 512)) (fj_auth s, s, d) of (r, _, unset, store, s, d) \<Rightarrow>
        let s = s\<lparr>fj_auth := store\<rparr> in
        if r \<noteq> FV_BLOCK_OK \<or> unset \<noteq> 0 then (False, s, d) else verify_loop SL p is s d)"

definition drop_caches :: "fv_fido_journal \<Rightarrow> fv_fido_journal" where
  "drop_caches s = s\<lparr>fj_auth := (fj_auth s)\<lparr>as_cache_count := 0\<rparr>, fj_cache_valid := 0\<rparr>"

definition j_verify_home ::
  "sha_lib \<Rightarrow> ('a, 'd, 'r) fv_vault_platform \<Rightarrow> fv_fido_journal \<Rightarrow> 'd \<Rightarrow> bool \<times> fv_fido_journal \<times> 'd" where
  "j_verify_home SL p s d = verify_loop SL p (batches J_DATA) (drop_caches s) d"

fun blank_loop ::
  "sha_lib \<Rightarrow> ('a, 'd, 'r) fv_vault_platform \<Rightarrow> nat list \<Rightarrow> fv_fido_journal \<Rightarrow> 'd \<Rightarrow> bool \<times> fv_fido_journal \<times> 'd" where
  "blank_loop SL p [] s d = (True, s, d)"
| "blank_loop SL p (i # is) s d =
     (case crypt_sectors (fj_pipeline s) True no_unset i 4 [0..<BATCH] (replicate (BATCH * 512) 255) of None \<Rightarrow> (False, s, d)
      | Some ct \<Rightarrow>
        (case fv_auth_write SL (j_ops SL p) i BATCH (4, ct) (fj_auth s, s, d) of (r, store, s, d) \<Rightarrow>
           let s = s\<lparr>fj_auth := store\<rparr> in
           if r \<noteq> FV_BLOCK_OK then (False, s, d) else blank_loop SL p is s d))"

text \<open>The record of the preserved verification policy: its links, identifier, length, format and value.\<close>

definition policy_record :: "nat \<Rightarrow> int \<Rightarrow> u8 list" where
  "policy_record data policy =
     (let r = put (zeros 14) 4 (of_nat (4096 + data) :: u32) 4;
          r = put r 8 (0x1123 :: u16) 2;
          r = put r 10 (2 :: u16) 2
      in r[12 := 1, 13 := of_int policy])"

definition keep_policy ::
  "sha_lib \<Rightarrow> ('a, 'd, 'r) fv_vault_platform \<Rightarrow> fv_vault \<Rightarrow> int \<Rightarrow> fv_fido_journal \<Rightarrow> ('a, 'd, 'r) vault_world
   \<Rightarrow> bool \<times> fv_fido_journal \<times> ('a, 'd, 'r) vault_world" where
  "keep_policy SL p v policy s w =
     (let rom = FV_FIDO_DISK_BYTES - 12; data = rom - 16384 - 8; rec = data - 14 in
      case j_access SL p v rom (Some (zeros 12)) 12 s w of (False, _, s, w) \<Rightarrow> (False, s, w)
      | (True, _, s, w) \<Rightarrow>
        (case j_access SL p v rec (Some (policy_record data policy)) 14 s w of (False, _, s, w) \<Rightarrow> (False, s, w)
         | (True, _, s, w) \<Rightarrow>
           (case j_access SL p v data (Some (take 8 (put (zeros 12) 0 (of_nat (4096 + rec) :: u32) 4))) 8 s w of
              (ok, _, s, w) \<Rightarrow> (ok, s, w))))"

definition j_blank ::
  "sha_lib \<Rightarrow> ('a, 'd, 'r) fv_vault_platform \<Rightarrow> fv_vault \<Rightarrow> int \<Rightarrow> fv_fido_journal \<Rightarrow> ('a, 'd, 'r) vault_world
   \<Rightarrow> bool \<times> fv_fido_journal \<times> ('a, 'd, 'r) vault_world" where
  "j_blank SL p v policy s w =
     (let s = drop_caches (s\<lparr>fj_recovering := True, fj_count := 0\<rparr>) in
      case fv_auth_format (j_ops SL p) (fj_auth s) (s, w_sd w) of (r, store, s, d) \<Rightarrow>
        let s = s\<lparr>fj_auth := store\<rparr> in
        if r \<noteq> FV_BLOCK_OK then (False, s, w\<lparr>w_sd := d\<rparr>)
        else case blank_loop SL p (batches J_DATA) s d of (False, s, d) \<Rightarrow> (False, s, w\<lparr>w_sd := d\<rparr>)
        | (True, s, d) \<Rightarrow>
          (case (if policy \<ge> 0 then keep_policy SL p v policy s (w\<lparr>w_sd := d\<rparr>) else (True, s, w\<lparr>w_sd := d\<rparr>)) of
             (False, s, w) \<Rightarrow> (False, s, w)
           | (True, s, w) \<Rightarrow>
             (case j_sync p (w_sd w) of (False, d) \<Rightarrow> (False, s, w\<lparr>w_sd := d\<rparr>)
              | (True, d) \<Rightarrow>
                (case j_verify_home SL p s d of (ok, s, d) \<Rightarrow> (ok, s, w\<lparr>w_sd := d\<rparr>)))))"

definition j_finish_reset ::
  "sha_lib \<Rightarrow> ('a, 'd, 'r) fv_vault_platform \<Rightarrow> fv_vault \<Rightarrow> j_control \<Rightarrow> fv_fido_journal \<Rightarrow> ('a, 'd, 'r) vault_world
   \<Rightarrow> bool \<times> fv_fido_journal \<times> ('a, 'd, 'r) vault_world" where
  "j_finish_reset SL p v c s w =
     (case j_blank SL p v (jc_policy c) s w of (False, s, w) \<Rightarrow> (False, s, w)
      | (True, s, w) \<Rightarrow>
        (case j_control_write SL p clean_control s (w_sd w) of (ok, _, s, d) \<Rightarrow>
           (ok, if ok then s\<lparr>fj_recovering := False\<rparr> else s, w\<lparr>w_sd := d\<rparr>)))"

text \<open>Publish the intent, then carry it out.\<close>

definition start_reset ::
  "sha_lib \<Rightarrow> ('a, 'd, 'r) fv_vault_platform \<Rightarrow> fv_vault \<Rightarrow> int \<Rightarrow> fv_fido_journal \<Rightarrow> ('a, 'd, 'r) vault_world
   \<Rightarrow> bool \<times> fv_fido_journal \<times> ('a, 'd, 'r) vault_world" where
  "start_reset SL p v policy s w =
     (case j_control_write SL p (clean_control\<lparr>jc_state := J_RESET, jc_policy := policy\<rparr>) s (w_sd w) of
        (False, _, s, d) \<Rightarrow> (False, s, w\<lparr>w_sd := d\<rparr>)
      | (True, c, s, d) \<Rightarrow> j_finish_reset SL p v c s (w\<lparr>w_sd := d\<rparr>))"

definition fv_fido_journal_reset ::
  "sha_lib \<Rightarrow> ('a, 'd, 'r) fv_vault_platform \<Rightarrow> fv_vault \<Rightarrow> int \<Rightarrow> fv_fido_journal \<Rightarrow> ('a, 'd, 'r) vault_world
   \<Rightarrow> bool \<times> fv_fido_journal \<times> ('a, 'd, 'r) vault_world" where
  "fv_fido_journal_reset SL p v policy s w =
     (if policy < -1 \<or> policy > 1 then (False, j_fail s, w)
      else case j_authorized p v s w of (False, w) \<Rightarrow> (False, j_fail s, w)
      | (True, w) \<Rightarrow>
        (case journal_current SL p s (w_sd w) of (False, d) \<Rightarrow> (False, j_fail s, w\<lparr>w_sd := d\<rparr>)
         | (True, d) \<Rightarrow>
           (case start_reset SL p v policy (s\<lparr>fj_count := 0, fj_auth := (fj_auth s)\<lparr>as_cache_count := 0\<rparr>\<rparr>) (w\<lparr>w_sd := d\<rparr>) of
              (ok, s, w) \<Rightarrow> (ok, if ok then s else j_fail s, w))))"

section \<open>Migration of a snapshot\<close>

text \<open>The staged snapshot, read with its original bank's keys at its staging address.\<close>

definition j_old_open ::
  "sha_lib \<Rightarrow> cipher_lib \<Rightarrow> ('a, 'd, 'r) fv_vault_platform \<Rightarrow> fv_vault \<Rightarrow> j_control \<Rightarrow> 'd \<Rightarrow> bank_context option" where
  "j_old_open SL L p v c d =
     (case bank_open SL L p v (jc_old_bank c) (jc_old_bytes c) d of None \<Rightarrow> None
      | Some old \<Rightarrow>
        (let base = FV_FIDO_REGION_BASE + J_START + 1 in
         Some (old\<lparr>bc_sectors := (bc_sectors old)\<lparr>as_base := base, as_data_base := base + as_metadata_blocks (bc_sectors old)\<rparr>\<rparr>)))"

function j_old_read ::
  "sha_lib \<Rightarrow> ('a, 'd, 'r) fv_vault_platform \<Rightarrow> nat \<Rightarrow> nat \<Rightarrow> bank_context \<Rightarrow> 'd \<Rightarrow> u8 list option \<times> bank_context \<times> 'd" where
  "j_old_read SL p offset n old d =
     (if n = 0 then (Some [], old, d)
      else
        (let lba = offset div 512; at = offset mod 512; len = min (512 - at) n in
         case fv_auth_read SL (vp_sd p) lba 1 (4, span (bc_scratch old) 0 512) (bc_sectors old, d) of (r, ct, unset, store, d) \<Rightarrow>
           let old = old\<lparr>bc_sectors := store, bc_scratch := memcpy (bc_scratch old) 0 ct\<rparr> in
           if r \<noteq> FV_BLOCK_OK \<or> unset \<noteq> 0 then (None, old, d)
           else case fv_pipeline_decrypt (bc_pipeline old) (of_nat lba) (4, ct) (4, ct) of (st, m) \<Rightarrow>
             if st \<noteq> FV_OK then (None, old, d)
             else case j_old_read SL p (offset + len) (n - len) (old\<lparr>bc_scratch := memcpy (bc_scratch old) 0 m\<rparr>) d of
               (None, old, d) \<Rightarrow> (None, old, d)
             | (Some out, old, d) \<Rightarrow> (Some (span m at len @ out), old, d)))"
  by pat_completeness auto
termination
  by (relation "measure (\<lambda>(SL, p, offset, n, old, d). n)") (auto simp: min_def)

declare j_old_read.simps [simp del]

text \<open>The state of the migration: the staged snapshot, the journal and the world.\<close>

type_synonym ('a, 'd, 'r) migration = "bank_context \<times> fv_fido_journal \<times> ('a, 'd, 'r) vault_world"

definition old_read ::
  "sha_lib \<Rightarrow> ('a, 'd, 'r) fv_vault_platform \<Rightarrow> nat \<Rightarrow> nat \<Rightarrow> ('a, 'd, 'r) migration \<Rightarrow> u8 list option \<times> ('a, 'd, 'r) migration" where
  "old_read SL p offset n = (\<lambda>(old, s, w). case j_old_read SL p offset n old (w_sd w) of (m, old, d) \<Rightarrow> (m, old, s, w\<lparr>w_sd := d\<rparr>))"

definition new_write ::
  "sha_lib \<Rightarrow> ('a, 'd, 'r) fv_vault_platform \<Rightarrow> fv_vault \<Rightarrow> nat \<Rightarrow> u8 list \<Rightarrow> ('a, 'd, 'r) migration \<Rightarrow> bool \<times> ('a, 'd, 'r) migration" where
  "new_write SL p v offset m = (\<lambda>(old, s, w). case j_access SL p v offset (Some m) (length m) s w of (ok, _, s, w) \<Rightarrow> (ok, old, s, w))"

fun migrate_copy ::
  "sha_lib \<Rightarrow> ('a, 'd, 'r) fv_vault_platform \<Rightarrow> fv_vault \<Rightarrow> nat \<Rightarrow> nat list \<Rightarrow> ('a, 'd, 'r) migration \<Rightarrow> bool \<times> ('a, 'd, 'r) migration" where
  "migrate_copy SL p v delta [] st = (True, st)"
| "migrate_copy SL p v delta (at # ats) st =
     (case old_read SL p at 512 st of (None, st) \<Rightarrow> (False, st)
      | (Some m, st) \<Rightarrow>
        (case new_write SL p v (delta + at) m st of (False, st) \<Rightarrow> (False, st)
         | (True, st) \<Rightarrow> migrate_copy SL p v delta ats st))"

text \<open>\<open>Some True\<close> when every byte of the snapshot is 255.\<close>

fun migrate_blank ::
  "sha_lib \<Rightarrow> ('a, 'd, 'r) fv_vault_platform \<Rightarrow> nat list \<Rightarrow> ('a, 'd, 'r) migration \<Rightarrow> bool option \<times> ('a, 'd, 'r) migration" where
  "migrate_blank SL p [] st = (Some True, st)"
| "migrate_blank SL p (at # ats) st =
     (case old_read SL p at 512 st of (None, st) \<Rightarrow> (None, st)
      | (Some m, st) \<Rightarrow> if filled m 255 then migrate_blank SL p ats st else (Some False, st))"

text \<open>The link loop of one record list; the links are 32-bit fields read from the staged snapshot.\<close>

function migrate_links ::
  "sha_lib \<Rightarrow> ('a, 'd, 'r) fv_vault_platform \<Rightarrow> fv_vault \<Rightarrow> nat \<Rightarrow> nat \<Rightarrow> nat \<Rightarrow> nat \<Rightarrow> ('a, 'd, 'r) migration
   \<Rightarrow> bool \<times> ('a, 'd, 'r) migration" where
  "migrate_links SL p v delta start previous next st =
     (if next = 0 then (True, st)
      else if next < 4096 + start \<or> next \<ge> 4096 + previous then (False, st)
      else
        (let at = next - 4096 in
         if previous - at < 12 then (False, st)
         else case old_read SL p at 12 st of (None, st) \<Rightarrow> (False, st)
         | (Some m, st) \<Rightarrow>
           if get m 4 4 \<noteq> of_nat (4096 + previous) then (False, st)
           else case (if get m 10 2 = 65535
                      then if previous - at < 16 then (None, st)
                           else (case old_read SL p (at + 12) 4 st of (None, st) \<Rightarrow> (None, st)
                                 | (Some m4, st) \<Rightarrow> (Some (unat (get m4 0 4), 16), st))
                      else (Some (unat (get m 10 2), 12), st)) of
             (None, st) \<Rightarrow> (False, st)
           | (Some (len, header), st) \<Rightarrow>
             if len > previous - at - header then (False, st)
             else
               (let next = image_get m 0 4;
                    m = image_put (image_put m 0 (if next \<noteq> 0 then next + delta else 0)) 4 (4096 + previous + delta)
                in case new_write SL p v (delta + at) (take 8 m) st of (False, st) \<Rightarrow> (False, st)
                   | (True, st) \<Rightarrow> migrate_links SL p v delta start at next st)))"
  by pat_completeness auto
termination
  by (relation "measure (\<lambda>(SL, p, v, delta, start, previous, next, st). previous)") auto

declare migrate_links.simps [simp del]

definition migrate_list ::
  "sha_lib \<Rightarrow> ('a, 'd, 'r) fv_vault_platform \<Rightarrow> fv_vault \<Rightarrow> nat \<Rightarrow> nat \<Rightarrow> nat \<Rightarrow> ('a, 'd, 'r) migration
   \<Rightarrow> bool \<times> ('a, 'd, 'r) migration" where
  "migrate_list SL p v delta start end' st =
     (case old_read SL p end' 4 st of (None, st) \<Rightarrow> (False, st)
      | (Some m, st) \<Rightarrow>
        (let next = image_get m 0 4 in
         case new_write SL p v (delta + end') (image_put m 0 (if next \<noteq> 0 then next + delta else 0)) st of
           (False, st) \<Rightarrow> (False, st)
         | (True, st) \<Rightarrow> migrate_links SL p v delta start end' next st))"

text \<open>The body of \<^verbatim>\<open>j_migrate_finish\<close> after the home sectors are blank.\<close>

definition migrate_contents ::
  "sha_lib \<Rightarrow> ('a, 'd, 'r) fv_vault_platform \<Rightarrow> fv_vault \<Rightarrow> j_control \<Rightarrow> ('a, 'd, 'r) migration \<Rightarrow> bool \<times> ('a, 'd, 'r) migration" where
  "migrate_contents SL p v c st =
     (let delta = FV_FIDO_DISK_BYTES - jc_old_bytes c; ats = map (\<lambda>i. i * 512) [0..<jc_old_bytes c div 512];
          rom = jc_old_bytes c - 12; data = rom - 16384 - 8
      in case migrate_copy SL p v delta ats st of (False, st) \<Rightarrow> (False, st)
         | (True, st) \<Rightarrow>
           (case migrate_blank SL p ats st of (None, st) \<Rightarrow> (False, st)
            | (Some True, st) \<Rightarrow> (True, st)
            | (Some False, st) \<Rightarrow>
              (case migrate_list SL p v delta 0 data st of (False, st) \<Rightarrow> (False, st)
               | (True, st) \<Rightarrow> migrate_list SL p v delta (rom - 16384) rom st)))"

definition migrate_publish ::
  "sha_lib \<Rightarrow> ('a, 'd, 'r) fv_vault_platform \<Rightarrow> fv_fido_journal \<Rightarrow> 'd \<Rightarrow> bool \<times> fv_fido_journal \<times> 'd" where
  "migrate_publish SL p s d =
     (case j_sync p d of (False, d) \<Rightarrow> (False, s, d)
      | (True, d) \<Rightarrow>
        (case j_verify_home SL p s d of (False, s, d) \<Rightarrow> (False, s, d)
         | (True, s, d) \<Rightarrow>
           (case j_control_write SL p clean_control s d of (False, _, s, d) \<Rightarrow> (False, s, d)
            | (True, c, s, d) \<Rightarrow>
              (case j_control_write SL p c s d of (ok, _, s, d) \<Rightarrow>
                 (ok, if ok then s\<lparr>fj_recovering := False\<rparr> else s, d)))))"

definition old_digest_matches ::
  "sha_lib \<Rightarrow> cipher_lib \<Rightarrow> ('a, 'd, 'r) fv_vault_platform \<Rightarrow> fv_vault \<Rightarrow> j_control \<Rightarrow> 'd \<Rightarrow> bank_context option \<times> 'd" where
  "old_digest_matches SL L p v c d =
     (case j_old_open SL L p v c d of None \<Rightarrow> (None, d)
      | Some old \<Rightarrow>
        (case read_image SL p old None d of (r, _, digest, old, d) \<Rightarrow>
           (if r = FV_FIDO_STORE_OK \<and> fv_tag_equal digest (jc_digest c) then Some old else None, d)))"

definition j_migrate_finish ::
  "sha_lib \<Rightarrow> cipher_lib \<Rightarrow> ('a, 'd, 'r) fv_vault_platform \<Rightarrow> fv_vault \<Rightarrow> j_control \<Rightarrow> fv_fido_journal \<Rightarrow> ('a, 'd, 'r) vault_world
   \<Rightarrow> bool \<times> fv_fido_journal \<times> ('a, 'd, 'r) vault_world" where
  "j_migrate_finish SL L p v c s w =
     (case old_digest_matches SL L p v c (w_sd w) of (None, d) \<Rightarrow> (False, s, w\<lparr>w_sd := d\<rparr>)
      | (Some old, d) \<Rightarrow>
        (case j_blank SL p v (-1) s (w\<lparr>w_sd := d\<rparr>) of (False, s, w) \<Rightarrow> (False, s, w)
         | (True, s, w) \<Rightarrow>
           (case migrate_contents SL p v c (old, s, w) of (False, _, s, w) \<Rightarrow> (False, s, w)
            | (True, _, s, w) \<Rightarrow>
              (case migrate_publish SL p s (w_sd w) of (ok, s, d) \<Rightarrow> (ok, s, w\<lparr>w_sd := d\<rparr>)))))"

fun stage_blocks :: "('a, 'd, 'r) fv_vault_platform \<Rightarrow> nat \<Rightarrow> nat list \<Rightarrow> 'd \<Rightarrow> bool \<times> 'd" where
  "stage_blocks p bank [] d = (True, d)"
| "stage_blocks p bank (i # is) d =
     (case blk_read (vp_sd p) d (bank_base bank + i) 1 of (r, m, d) \<Rightarrow>
        if r \<noteq> FV_BLOCK_OK then (False, d)
        else case j_write p (J_START + i) m d of (False, d) \<Rightarrow> (False, d) | (True, d) \<Rightarrow> stage_blocks p bank is d)"

definition j_migrate_start ::
  "sha_lib \<Rightarrow> cipher_lib \<Rightarrow> ('a, 'd, 'r) fv_vault_platform \<Rightarrow> fv_vault \<Rightarrow> fv_fido_journal \<Rightarrow> ('a, 'd, 'r) vault_world
   \<Rightarrow> bool \<times> fv_fido_journal \<times> ('a, 'd, 'r) vault_world" where
  "j_migrate_start SL L p v s w =
     (case scan SL p v (w_sd w) of (FV_FIDO_STORE_OK, Some snap, d) \<Rightarrow>
        (case bank_open SL L p v (sn_bank snap) (sn_image_bytes snap) d of None \<Rightarrow> (False, s, w\<lparr>w_sd := d\<rparr>)
         | Some old \<Rightarrow>
           (case read_image SL p old None d of (r, _, digest, old, d) \<Rightarrow>
              if r \<noteq> FV_FIDO_STORE_OK \<or> \<not> fv_tag_equal digest (sn_digest snap) then (False, s, w\<lparr>w_sd := d\<rparr>)
              else
                (let blocks = 1 + (sn_image_bytes snap div 512 + 14) div 15 + sn_image_bytes snap div 512 in
                 case stage_blocks p (sn_bank snap) [0..<blocks] d of (False, d) \<Rightarrow> (False, s, w\<lparr>w_sd := d\<rparr>)
                 | (True, d) \<Rightarrow>
                   (case j_sync p d of (False, d) \<Rightarrow> (False, s, w\<lparr>w_sd := d\<rparr>)
                    | (True, d) \<Rightarrow>
                      (let c = clean_control\<lparr>jc_state := J_MIGRATE, jc_old_bank := sn_bank snap,
                             jc_old_bytes := sn_image_bytes snap, jc_digest := sn_digest snap\<rparr>
                       in case old_digest_matches SL L p v c d of (None, d) \<Rightarrow> (False, s, w\<lparr>w_sd := d\<rparr>)
                          | (Some old, d) \<Rightarrow>
                            (case j_control_write SL p c s d of (False, _, s, d) \<Rightarrow> (False, s, w\<lparr>w_sd := d\<rparr>)
                             | (True, c, s, d) \<Rightarrow> j_migrate_finish SL L p v c s (w\<lparr>w_sd := d\<rparr>)))))))
      | (_, _, d) \<Rightarrow> (False, s, w\<lparr>w_sd := d\<rparr>))"

section \<open>Opening\<close>

definition finish_published ::
  "sha_lib \<Rightarrow> cipher_lib \<Rightarrow> ('a, 'd, 'r) fv_vault_platform \<Rightarrow> fv_vault \<Rightarrow> j_control \<Rightarrow> fv_fido_journal \<Rightarrow> ('a, 'd, 'r) vault_world
   \<Rightarrow> bool \<times> fv_fido_journal \<times> ('a, 'd, 'r) vault_world" where
  "finish_published SL L p v c s w =
     (if jc_state c = J_READY then (case j_replay SL p c s (w_sd w) of (ok, s, d) \<Rightarrow> (ok, s, w\<lparr>w_sd := d\<rparr>))
      else if jc_state c = J_RESET then j_finish_reset SL p v c s w
      else if jc_state c = J_MIGRATE then j_migrate_finish SL L p v c s w
      else (True, s, w))"

definition fv_fido_journal_open ::
  "sha_lib \<Rightarrow> cipher_lib \<Rightarrow> ('a, 'd, 'r) fv_vault_platform \<Rightarrow> fv_vault \<Rightarrow> ('a, 'd, 'r) vault_world
   \<Rightarrow> bool \<times> fv_fido_journal \<times> ('a, 'd, 'r) vault_world" where
  "fv_fido_journal_open SL L p v w =
     (case vault_valid p v w of (False, w) \<Rightarrow> (False, fv_fido_journal_close, w)
      | (True, w) \<Rightarrow>
        (case j_bind SL L p v (w_sd w) of None \<Rightarrow> (False, fv_fido_journal_close, w)
         | Some s \<Rightarrow>
           (case (case j_control_scan SL p s (w_sd w) of
                    (None, d) \<Rightarrow> (False, s, w\<lparr>w_sd := d\<rparr>)
                  | (Some None, d) \<Rightarrow> j_migrate_start SL L p v s (w\<lparr>w_sd := d\<rparr>)
                  | (Some (Some c), d) \<Rightarrow> finish_published SL L p v c (s\<lparr>fj_sequence := jc_seq c\<rparr>) (w\<lparr>w_sd := d\<rparr>)) of
              (ok, s, w) \<Rightarrow> (ok, if ok then s else fv_fido_journal_close, w))))"

definition j_initialize ::
  "sha_lib \<Rightarrow> cipher_lib \<Rightarrow> ('a, 'd, 'r) fv_vault_platform \<Rightarrow> fv_vault \<Rightarrow> bool \<Rightarrow> ('a, 'd, 'r) vault_world
   \<Rightarrow> bool \<times> fv_fido_journal \<times> ('a, 'd, 'r) vault_world" where
  "j_initialize SL L p v creating w =
     (case j_bind SL L p v (w_sd w) of None \<Rightarrow> (False, fv_fido_journal_close, w)
      | Some s \<Rightarrow>
        (case j_control_scan SL p (s\<lparr>fj_creating := creating\<rparr>) (w_sd w) of
           (None, d) \<Rightarrow> (False, fv_fido_journal_close, w\<lparr>w_sd := d\<rparr>)
         | (Some c, d) \<Rightarrow>
           (let s = s\<lparr>fj_creating := creating\<rparr>;
                s = (case c of None \<Rightarrow> s | Some c \<Rightarrow> s\<lparr>fj_sequence := jc_seq c\<rparr>)
            in case start_reset SL p v (-1) s (w\<lparr>w_sd := d\<rparr>) of (ok, s, w) \<Rightarrow>
                 (ok, if ok then s else fv_fido_journal_close, w))))"

definition fv_fido_journal_initialize ::
  "sha_lib \<Rightarrow> cipher_lib \<Rightarrow> ('a, 'd, 'r) fv_vault_platform \<Rightarrow> fv_vault \<Rightarrow> bool \<Rightarrow> ('a, 'd, 'r) vault_world
   \<Rightarrow> bool \<times> fv_fido_journal \<times> ('a, 'd, 'r) vault_world" where
  "fv_fido_journal_initialize SL L p v confirmed w =
     (if \<not> confirmed then (False, fv_fido_journal_close, w)
      else case vault_valid p v w of (False, w) \<Rightarrow> (False, fv_fido_journal_close, w)
      | (True, w) \<Rightarrow> j_initialize SL L p v False w)"

definition fv_fido_journal_prepare_new ::
  "sha_lib \<Rightarrow> cipher_lib \<Rightarrow> ('a, 'd, 'r) fv_vault_platform \<Rightarrow> fv_vault \<Rightarrow> ('a, 'd, 'r) vault_world
   \<Rightarrow> bool \<times> fv_fido_journal \<times> ('a, 'd, 'r) vault_world" where
  "fv_fido_journal_prepare_new SL L p v w =
     (case creation_valid p v w of (False, w) \<Rightarrow> (False, fv_fido_journal_close, w)
      | (True, w) \<Rightarrow> (case j_initialize SL L p v True w of (ok, _, w) \<Rightarrow> (ok, fv_fido_journal_close, w)))"

definition fv_fido_journal_key ::
  "sha_lib \<Rightarrow> ('a, 'd, 'r) fv_vault_platform \<Rightarrow> fv_vault \<Rightarrow> fv_fido_journal \<Rightarrow> ('a, 'd, 'r) vault_world
   \<Rightarrow> u8 list option \<times> ('a, 'd, 'r) vault_world" where
  "fv_fido_journal_key SL p v s w =
     (case j_authorized p v s w of (ok, w) \<Rightarrow> (if ok then derive SL v ''FV2/fido-engine/v1'' 0 0 32 else None, w))"

end
