(* ===== verification/Fido_Hid.thy ===== *)
theory Fido_Hid
  imports Bytes
begin

text \<open>
  The CTAPHID transport (\<^verbatim>\<open>src/src/shared/fido/hid.c\<close>, \<^verbatim>\<open>fido_hid.h\<close>) and the verification window
  (\<^verbatim>\<open>verification.c\<close>). A report is a list of 64 bytes. Every operation is a function of the transport
  state; the receive and transmit buffers are lists of 4096 bytes. A response of length 0 stands for a null
  pointer too, which the code treats alike.
\<close>

section \<open>State\<close>

definition FV_FIDO_MESSAGE_SIZE :: nat where "FV_FIDO_MESSAGE_SIZE = 4096"

definition PING :: u8 where "PING = 0x81"
definition INIT :: u8 where "INIT = 0x86"
definition CBOR :: u8 where "CBOR = 0x90"
definition CANCEL :: u8 where "CANCEL = 0x91"
definition HID_ERROR :: u8 where "HID_ERROR = 0xbf"

lemmas hid_commands = PING_def INIT_def CBOR_def CANCEL_def HID_ERROR_def

definition BROADCAST :: u32 where "BROADCAST = 0xffffffff"

record fv_fido_hid_t =
  h_channels :: "u32 list"
  h_next_channel :: u32
  h_active_channel :: u32
  h_rx_time :: u32
  h_tx_channel :: u32
  h_rx_size :: u16
  h_rx_used :: u16
  h_tx_size :: u16
  h_tx_used :: u16
  h_rx_command :: u8
  h_rx_sequence :: u8
  h_tx_command :: u8
  h_tx_sequence :: u8
  h_receiving :: bool
  h_transmitting :: bool
  h_processing :: bool
  h_cancelled :: bool
  h_resync_requested :: bool
  h_control_pending :: bool
  h_resync_nonce :: "u8 list"
  h_control_report :: "u8 list"
  h_pending :: bool
  h_rx :: "u8 list"
  h_tx :: "u8 list"

text \<open>Big-endian words.\<close>

definition get32 :: "u8 list \<Rightarrow> u32" where
  "get32 r = push_bit 24 (ucast (r ! 0)) OR push_bit 16 (ucast (r ! 1)) OR push_bit 8 (ucast (r ! 2)) OR ucast (r ! 3)"

definition put32 :: "u32 \<Rightarrow> u8 list" where
  "put32 n = [ucast (drop_bit 24 n), ucast (drop_bit 16 n), ucast (drop_bit 8 n), ucast n]"

section \<open>Replies\<close>

definition fv_fido_hid_reset :: fv_fido_hid_t where
  "fv_fido_hid_reset = \<lparr>h_channels = [0, 0, 0, 0], h_next_channel = 1, h_active_channel = 0, h_rx_time = 0, h_tx_channel = 0,
     h_rx_size = 0, h_rx_used = 0, h_tx_size = 0, h_tx_used = 0, h_rx_command = 0, h_rx_sequence = 0, h_tx_command = 0,
     h_tx_sequence = 0, h_receiving = False, h_transmitting = False, h_processing = False, h_cancelled = False,
     h_resync_requested = False, h_control_pending = False, h_resync_nonce = zeros 8, h_control_report = zeros 64,
     h_pending = False, h_rx = zeros 4096, h_tx = zeros 4096\<rparr>"

definition hid_reply :: "fv_fido_hid_t \<Rightarrow> u32 \<Rightarrow> u8 \<Rightarrow> nat \<Rightarrow> fv_fido_hid_t" where
  "hid_reply p cid cmd n = p\<lparr>h_tx_channel := cid, h_tx_command := cmd, h_tx_size := of_nat n, h_tx_used := 0,
     h_tx_sequence := 0, h_transmitting := True\<rparr>"

definition hid_error :: "fv_fido_hid_t \<Rightarrow> u32 \<Rightarrow> u8 \<Rightarrow> fv_fido_hid_t" where
  "hid_error p cid code = hid_reply (p\<lparr>h_tx := (h_tx p)[0 := code]\<rparr>) cid HID_ERROR 1"

definition hid_known :: "fv_fido_hid_t \<Rightarrow> u32 \<Rightarrow> bool" where
  "hid_known p cid \<longleftrightarrow> cid \<noteq> 0 \<and> cid \<noteq> BROADCAST \<and> cid \<in> set (take 4 (h_channels p))"

definition drop_rx :: "fv_fido_hid_t \<Rightarrow> fv_fido_hid_t" where
  "drop_rx p = p\<lparr>h_receiving := False, h_rx := zeros 4096\<rparr>"

text \<open>The reply to INIT: the nonce, the channel, the protocol and device versions, the capabilities.\<close>

definition init_reply :: "fv_fido_hid_t \<Rightarrow> u8 list \<Rightarrow> u32 \<Rightarrow> u32 \<Rightarrow> fv_fido_hid_t" where
  "init_reply p nonce assigned cid =
     (let tx = memcpy (memcpy (h_tx p) 0 nonce) 8 (put32 assigned)
      in hid_reply (p\<lparr>h_tx := tx[12 := 2, 13 := 0, 14 := 1, 15 := 0, 16 := 0x0c]\<rparr>) cid INIT 17)"

definition rx_complete :: "fv_fido_hid_t \<Rightarrow> fv_fido_hid_t" where
  "rx_complete p =
     (let p = p\<lparr>h_receiving := False\<rparr> in
      if h_rx_command p = PING
      then (hid_reply (p\<lparr>h_tx := memcpy (h_tx p) 0 (take (unat (h_rx_size p)) (h_rx p))\<rparr>)
              (h_active_channel p) PING (unat (h_rx_size p)))\<lparr>h_rx := zeros 4096\<rparr>
      else if h_rx_command p = CBOR
      then p\<lparr>h_processing := True, h_cancelled := False, h_resync_requested := False, h_pending := True\<rparr>
      else p\<lparr>h_rx := zeros 4096\<rparr>)"

section \<open>Receiving\<close>

text \<open>While the worker owns the request: cancellation, resynchronisation, and a separate busy report.\<close>

definition receive_processing :: "fv_fido_hid_t \<Rightarrow> u8 list \<Rightarrow> u32 \<Rightarrow> fv_fido_hid_t" where
  "receive_processing p r cid =
     (if r ! 4 = CANCEL \<and> r ! 5 = 0 \<and> r ! 6 = 0
      then (if cid = h_active_channel p then p\<lparr>h_cancelled := True\<rparr> else p)
      else if cid = h_active_channel p \<and> r ! 4 = INIT \<and> r ! 5 = 0 \<and> r ! 6 = 8
      then p\<lparr>h_cancelled := True, h_resync_requested := True, h_resync_nonce := span r 7 8\<rparr>
      else if r ! 4 AND 0x80 \<noteq> 0 \<and> \<not> h_control_pending p
      then p\<lparr>h_control_report :=
               (memcpy (zeros 64) 0 (put32 cid))
                 [4 := HID_ERROR, 6 := 1, 7 := if hid_known p cid \<or> (cid = BROADCAST \<and> r ! 4 = INIT) then 6 else 0x0b],
             h_control_pending := True\<rparr>
      else p)"

text \<open>The channel an INIT assigns: a free slot, or the oldest one.\<close>

definition assign_channel :: "fv_fido_hid_t \<Rightarrow> u32 \<Rightarrow> fv_fido_hid_t \<times> u32" where
  "assign_channel p cid =
     (if cid = BROADCAST
      then (let free = length (takeWhile (\<lambda>c. c \<noteq> 0) (take 4 (h_channels p)));
                slot = (if free = 4 then unat ((h_next_channel p - 1) mod 4) else free)
            in (p\<lparr>h_next_channel := h_next_channel p + 1, h_channels := (h_channels p)[slot := h_next_channel p]\<rparr>,
                h_next_channel p))
      else (p, cid))"

definition receive_init :: "fv_fido_hid_t \<Rightarrow> u8 list \<Rightarrow> u32 \<Rightarrow> fv_fido_hid_t" where
  "receive_init p r cid =
     (if r ! 5 \<noteq> 0 \<or> r ! 6 \<noteq> 8 then hid_error p cid 3
      else if h_receiving p \<and> cid \<noteq> h_active_channel p then hid_error p cid 6
      else case assign_channel p cid of (p, assigned) \<Rightarrow> init_reply (drop_rx p) (span r 7 8) assigned cid)"

definition receive_cancel :: "fv_fido_hid_t \<Rightarrow> u8 list \<Rightarrow> u32 \<Rightarrow> fv_fido_hid_t" where
  "receive_cancel p r cid =
     (if r ! 5 \<noteq> 0 \<or> r ! 6 \<noteq> 0 then hid_error p cid 3
      else if cid = h_active_channel p then drop_rx p else p)"

text \<open>\<^verbatim>\<open>(size_t)(size-used)\<close> with a 32-bit \<^verbatim>\<open>size_t\<close>.\<close>

definition remaining :: "u16 \<Rightarrow> u16 \<Rightarrow> nat" where
  "remaining n used = unat (ucast n - ucast used :: u32)"

definition receive_data :: "fv_fido_hid_t \<Rightarrow> u8 list \<Rightarrow> nat \<Rightarrow> u32 \<Rightarrow> fv_fido_hid_t" where
  "receive_data p r offset now =
     (let cnt = min (remaining (h_rx_size p) (h_rx_used p)) (64 - offset);
          p = p\<lparr>h_rx := memcpy (h_rx p) (unat (h_rx_used p)) (span r offset cnt),
                h_rx_used := h_rx_used p + of_nat cnt, h_rx_time := now\<rparr>
      in if h_rx_used p = h_rx_size p then rx_complete p else p)"

definition report_size :: "u8 list \<Rightarrow> u16" where
  "report_size r = push_bit 8 (ucast (r ! 5)) OR ucast (r ! 6)"

definition receive_start :: "fv_fido_hid_t \<Rightarrow> u8 list \<Rightarrow> u32 \<Rightarrow> u32 \<Rightarrow> fv_fido_hid_t" where
  "receive_start p r cid now =
     (if h_receiving p then hid_error p cid 6
      else if unat (report_size r) > FV_FIDO_MESSAGE_SIZE \<or> (r ! 4 = CBOR \<and> report_size r = 0) then hid_error p cid 3
      else if r ! 4 \<noteq> PING \<and> r ! 4 \<noteq> CBOR then hid_error p cid 1
      else receive_data (p\<lparr>h_active_channel := cid, h_rx_command := r ! 4, h_rx_size := report_size r, h_rx_used := 0,
                           h_rx_sequence := 0, h_receiving := True\<rparr>) r 7 now)"

definition receive_continuation :: "fv_fido_hid_t \<Rightarrow> u8 list \<Rightarrow> u32 \<Rightarrow> u32 \<Rightarrow> fv_fido_hid_t" where
  "receive_continuation p r cid now =
     (if \<not> h_receiving p then p
      else
        (let seq = h_rx_sequence p; p = p\<lparr>h_rx_sequence := seq + 1\<rparr> in
         if r ! 4 \<noteq> seq then hid_error (drop_rx p) cid 4 else receive_data p r 5 now))"

definition fv_fido_hid_receive :: "u8 list \<Rightarrow> u32 \<Rightarrow> fv_fido_hid_t \<Rightarrow> fv_fido_hid_t" where
  "fv_fido_hid_receive r now p =
     (let cid = get32 r in
      if h_processing p then receive_processing p r cid
      else if h_transmitting p then p
      else if cid = 0 \<or> (cid = BROADCAST \<and> r ! 4 \<noteq> INIT) then hid_error p cid 0x0b
      else if cid \<noteq> BROADCAST \<and> \<not> hid_known p cid then hid_error p cid 0x0b
      else if r ! 4 = INIT then receive_init p r cid
      else if r ! 4 = CANCEL then receive_cancel p r cid
      else if h_receiving p \<and> cid \<noteq> h_active_channel p then hid_error p cid 6
      else if r ! 4 AND 0x80 \<noteq> 0 then receive_start p r cid now
      else receive_continuation p r cid now)"

definition fv_fido_hid_tick :: "u32 \<Rightarrow> fv_fido_hid_t \<Rightarrow> fv_fido_hid_t" where
  "fv_fido_hid_tick now p =
     (if h_receiving p \<and> \<not> h_transmitting p \<and> now - h_rx_time p \<ge> 3000
      then hid_error (drop_rx p) (h_active_channel p) 5 else p)"

section \<open>Sending\<close>

definition fv_fido_hid_peek :: "fv_fido_hid_t \<Rightarrow> u8 list option" where
  "fv_fido_hid_peek p =
     (if \<not> h_transmitting p then None
      else
        (let r = memcpy (zeros 64) 0 (put32 (h_tx_channel p)) in
         case (if h_tx_used p = 0
               then (r[4 := h_tx_command p, 5 := ucast (drop_bit 8 (h_tx_size p)), 6 := ucast (h_tx_size p)], 7)
               else (r[4 := h_tx_sequence p], 5)) of
           (r, offset) \<Rightarrow>
             (let cnt = min (remaining (h_tx_size p) (h_tx_used p)) (64 - offset)
              in Some (memcpy r offset (span (h_tx p) (unat (h_tx_used p)) cnt)))))"

definition fv_fido_hid_sent :: "fv_fido_hid_t \<Rightarrow> fv_fido_hid_t" where
  "fv_fido_hid_sent p =
     (if \<not> h_transmitting p then p
      else
        (let cnt = (if h_tx_used p = 0 then 57 else 59);
             p = (if h_tx_used p \<noteq> 0 then p\<lparr>h_tx_sequence := h_tx_sequence p + 1\<rparr> else p)
         in if cnt \<ge> remaining (h_tx_size p) (h_tx_used p)
            then p\<lparr>h_transmitting := False, h_tx := zeros 4096\<rparr>
            else p\<lparr>h_tx_used := h_tx_used p + of_nat cnt\<rparr>))"

definition fv_fido_hid_complete :: "u8 list \<Rightarrow> fv_fido_hid_t \<Rightarrow> fv_fido_hid_t" where
  "fv_fido_hid_complete response p =
     (if \<not> h_processing p then p
      else
        (let p = p\<lparr>h_processing := False, h_pending := False\<rparr>;
             q = (if h_resync_requested p then init_reply p (h_resync_nonce p) (h_active_channel p) (h_active_channel p)
                  else if h_cancelled p then hid_reply (p\<lparr>h_tx := (h_tx p)[0 := 0x2d]\<rparr>) (h_active_channel p) CBOR 1
                  else if response = [] \<or> length response > FV_FIDO_MESSAGE_SIZE
                  then hid_reply (p\<lparr>h_tx := (h_tx p)[0 := 0x7f]\<rparr>) (h_active_channel p) CBOR 1
                  else hid_reply (p\<lparr>h_tx := memcpy (h_tx p) 0 response\<rparr>) (h_active_channel p) CBOR (length response))
         in q\<lparr>h_rx := zeros 4096\<rparr>))"

text \<open>The worker takes the request; the control report has gone out. Both are steps of the owner.\<close>

definition hid_take :: "fv_fido_hid_t \<Rightarrow> fv_fido_hid_t" where "hid_take p = p\<lparr>h_pending := False\<rparr>"
definition hid_control_sent :: "fv_fido_hid_t \<Rightarrow> fv_fido_hid_t" where "hid_control_sent p = p\<lparr>h_control_pending := False\<rparr>"

end
