(* ===== verification/Fido_Hid_Correct.thy ===== *)
theory Fido_Hid_Correct
  imports Fido_Hid
begin

text \<open>
  Correctness of the CTAPHID transport: its buffers and counters stay in bounds in every reachable state,
  the worker's request is immutable until it is completed, and messages survive fragmentation.
\<close>

section \<open>Reachable states\<close>

datatype hid_op = Hid_Receive "u8 list" u32 | Hid_Tick u32 | Hid_Sent | Hid_Take | Hid_Control_Sent | Hid_Complete "u8 list"

fun hid_do :: "hid_op \<Rightarrow> fv_fido_hid_t \<Rightarrow> fv_fido_hid_t" where
  "hid_do (Hid_Receive r now) p = fv_fido_hid_receive r now p"
| "hid_do (Hid_Tick now) p = fv_fido_hid_tick now p"
| "hid_do Hid_Sent p = fv_fido_hid_sent p"
| "hid_do Hid_Take p = hid_take p"
| "hid_do Hid_Control_Sent p = hid_control_sent p"
| "hid_do (Hid_Complete response) p = fv_fido_hid_complete response p"

fun op_wf :: "hid_op \<Rightarrow> bool" where
  "op_wf (Hid_Receive r now) = (length r = 64)"
| "op_wf _ = True"

text \<open>The sizes of the C arrays, one owner of the buffers at a time, and counters within the message.\<close>

definition hid_wf :: "fv_fido_hid_t \<Rightarrow> bool" where
  "hid_wf p \<longleftrightarrow> length (h_channels p) = 4 \<and> length (h_rx p) = 4096 \<and> length (h_tx p) = 4096 \<and>
     length (h_control_report p) = 64 \<and> length (h_resync_nonce p) = 8 \<and>
     \<not> (h_processing p \<and> h_transmitting p) \<and> \<not> (h_processing p \<and> h_receiving p) \<and>
     (h_receiving p \<longrightarrow> unat (h_rx_used p) < unat (h_rx_size p) \<and> unat (h_rx_size p) \<le> 4096) \<and>
     (h_processing p \<longrightarrow> 0 < unat (h_rx_size p) \<and> unat (h_rx_size p) \<le> 4096) \<and>
     (h_transmitting p \<longrightarrow> (unat (h_tx_used p) < unat (h_tx_size p) \<or> h_tx_used p = 0) \<and> unat (h_tx_size p) \<le> 4096) \<and>
     (h_pending p \<longrightarrow> h_processing p)"

lemma length_put32 [simp]: "length (put32 n) = 4"
  by (simp add: put32_def)

lemma hid_wf_reset [simp]: "hid_wf fv_fido_hid_reset"
  by (simp add: hid_wf_def fv_fido_hid_reset_def)

lemma hid_wf_reply:
  "hid_wf p \<Longrightarrow> \<not> h_processing p \<Longrightarrow> n \<le> 4096 \<Longrightarrow> hid_wf (hid_reply p cid cmd n)"
  by (simp add: hid_wf_def hid_reply_def unsigned_of_nat take_bit_nat_eq_self)

lemma hid_wf_error: "hid_wf p \<Longrightarrow> \<not> h_processing p \<Longrightarrow> hid_wf (hid_error p cid code)"
  unfolding hid_error_def by (rule hid_wf_reply) (simp_all add: hid_wf_def)

lemma hid_wf_drop_rx: "hid_wf p \<Longrightarrow> hid_wf (drop_rx p)"
  by (simp add: hid_wf_def drop_rx_def)

lemma hid_wf_init_reply: "hid_wf p \<Longrightarrow> \<not> h_processing p \<Longrightarrow> hid_wf (init_reply p nonce a cid)"
  unfolding init_reply_def Let_def by (rule hid_wf_reply) (simp_all add: hid_wf_def)

lemma unat_u16_u32: "unat (ucast (n :: u16) :: u32) = unat n"
  by (simp add: unsigned_ucast_eq take_bit_nat_eq_self unsigned_less [THEN less_trans])

lemma remaining_le: "unat used \<le> unat n \<Longrightarrow> remaining n used = unat n - unat used"
  by (simp add: remaining_def unat_sub_if' unat_u16_u32)

lemma unat_advance:
  "unat (used :: u16) + k \<le> 4096 \<Longrightarrow> unat (used + of_nat k) = unat used + k"
  by (subst unat_add_lem [THEN iffD1]) (simp_all add: unsigned_of_nat take_bit_nat_eq_self)

lemma hid_wf_rx_complete:
  "hid_wf p \<Longrightarrow> \<not> h_processing p \<Longrightarrow> \<not> h_transmitting p \<Longrightarrow> unat (h_rx_size p) \<le> 4096 \<Longrightarrow>
   (h_rx_command p = CBOR \<Longrightarrow> 0 < unat (h_rx_size p)) \<Longrightarrow> hid_wf (rx_complete p)"
  by (auto simp: rx_complete_def Let_def hid_wf_def hid_reply_def unsigned_of_nat take_bit_nat_eq_self)

lemma hid_wf_receive_data:
  assumes "hid_wf (p\<lparr>h_receiving := False\<rparr>)" "\<not> h_processing p" "\<not> h_transmitting p" "unat (h_rx_used p) \<le> unat (h_rx_size p)"
    "unat (h_rx_size p) \<le> 4096" "h_rx_command p = CBOR \<Longrightarrow> 0 < unat (h_rx_size p)" "offset < 64"
  shows "hid_wf (receive_data p r offset now)"
proof -
  define k where "k = min (remaining (h_rx_size p) (h_rx_used p)) (64 - offset)"
  define q where "q = p\<lparr>h_rx := memcpy (h_rx p) (unat (h_rx_used p)) (span r offset k), h_rx_used := h_rx_used p + of_nat k, h_rx_time := now\<rparr>"
  have rd: "receive_data p r offset now = (if h_rx_used q = h_rx_size q then rx_complete q else q)"
    by (simp add: receive_data_def Let_def q_def k_def)
  have u: "unat (h_rx_used q) = unat (h_rx_used p) + k" "unat (h_rx_used q) \<le> unat (h_rx_size p)"
    using assms(4,5) remaining_le [OF assms(4)] unat_advance [of "h_rx_used p" k] by (auto simp: q_def k_def)
  show ?thesis
  proof (cases "h_rx_used q = h_rx_size q")
    case True
    have "rx_complete q = rx_complete (q\<lparr>h_receiving := False\<rparr>)" by (simp add: rx_complete_def)
    moreover have "hid_wf (rx_complete (q\<lparr>h_receiving := False\<rparr>))"
      using assms by (intro hid_wf_rx_complete) (auto simp: q_def hid_wf_def)
    ultimately show ?thesis using True rd by simp
  next
    case False
    then have "unat (h_rx_used q) \<noteq> unat (h_rx_size p)" using unsigned_word_eqI by (auto simp: q_def)
    then have "unat (h_rx_used q) < unat (h_rx_size p)" using u(2) by simp
    then show ?thesis using False rd assms by (auto simp: q_def hid_wf_def)
  qed
qed

lemma hid_wf_receive_processing: "hid_wf p \<Longrightarrow> length r = 64 \<Longrightarrow> hid_wf (receive_processing p r cid)"
  by (auto simp: receive_processing_def hid_wf_def)

lemma hid_wf_receive_init: "hid_wf p \<Longrightarrow> \<not> h_processing p \<Longrightarrow> hid_wf (receive_init p r cid)"
proof -
  assume w: "hid_wf p" "\<not> h_processing p"
  obtain q a where q: "assign_channel p cid = (q, a)" by (cases "assign_channel p cid")
  then have "hid_wf q \<and> \<not> h_processing q" using w by (auto simp: assign_channel_def Let_def hid_wf_def split: if_splits)
  then have "hid_wf (init_reply (drop_rx q) (span r 7 8) a cid)"
    by (intro hid_wf_init_reply hid_wf_drop_rx) (auto simp: drop_rx_def)
  then show ?thesis using w q by (simp add: receive_init_def hid_wf_error)
qed

lemma hid_wf_receive:
  assumes "hid_wf p" "length r = 64"
  shows "hid_wf (fv_fido_hid_receive r now p)"
proof (cases "h_processing p \<or> h_transmitting p")
  case True
  then show ?thesis using assms hid_wf_receive_processing by (auto simp: fv_fido_hid_receive_def Let_def)
next
  case False
  then have n: "\<not> h_processing p" "\<not> h_transmitting p" by auto
  have s: "hid_wf (receive_start p r cid now)" for cid
  proof -
    have "hid_wf (receive_data (p\<lparr>h_active_channel := cid, h_rx_command := r ! 4, h_rx_size := report_size r, h_rx_used := 0,
        h_rx_sequence := 0, h_receiving := True\<rparr>) r 7 now)"
      if "unat (report_size r) \<le> 4096" "r ! 4 = CBOR \<Longrightarrow> report_size r \<noteq> 0"
      using assms(1) n that by (intro hid_wf_receive_data) (auto simp: hid_wf_def unat_gt_0)
    then show ?thesis
      using hid_wf_error [OF assms(1) n(1)] by (auto simp: receive_start_def FV_FIDO_MESSAGE_SIZE_def)
  qed
  have c: "hid_wf (receive_continuation p r cid now)" for cid
  proof (cases "h_receiving p \<and> r ! 4 = h_rx_sequence p")
    case True
    moreover have "hid_wf (receive_data (p\<lparr>h_rx_sequence := x\<rparr>) r 5 now)" for x
      using assms(1) n True by (intro hid_wf_receive_data) (auto simp: hid_wf_def)
    ultimately show ?thesis by (auto simp: receive_continuation_def Let_def)
  next
    case False
    have "hid_wf (hid_error (drop_rx (p\<lparr>h_rx_sequence := x\<rparr>)) cid 4)" for x
      using assms(1) n by (intro hid_wf_error hid_wf_drop_rx) (auto simp: hid_wf_def drop_rx_def)
    then show ?thesis using False assms(1) by (auto simp: receive_continuation_def Let_def)
  qed
  show ?thesis
    using n s c assms hid_wf_error [OF assms(1) n(1)] hid_wf_receive_init [OF assms(1) n(1)] hid_wf_drop_rx [OF assms(1)]
    by (auto simp: fv_fido_hid_receive_def Let_def receive_cancel_def)
qed

lemma hid_wf_tick: "hid_wf p \<Longrightarrow> hid_wf (fv_fido_hid_tick now p)"
proof -
  assume w: "hid_wf p"
  have "hid_wf (hid_error (drop_rx p) (h_active_channel p) 5)" if "h_receiving p"
    using w that by (intro hid_wf_error hid_wf_drop_rx) (auto simp: drop_rx_def hid_wf_def)
  then show ?thesis using w by (simp add: fv_fido_hid_tick_def)
qed

lemma hid_wf_sent: "hid_wf p \<Longrightarrow> hid_wf (fv_fido_hid_sent p)"
proof (cases "h_transmitting p")
  case True
  assume w: "hid_wf p"
  define k where "k = (if h_tx_used p = 0 then 57 else 59 :: nat)"
  define q where "q = (if h_tx_used p \<noteq> 0 then p\<lparr>h_tx_sequence := h_tx_sequence p + 1\<rparr> else p)"
  have le: "unat (h_tx_used p) \<le> unat (h_tx_size p)" "unat (h_tx_size p) \<le> 4096" using w True by (auto simp: hid_wf_def)
  have run: "fv_fido_hid_sent p = (if k \<ge> remaining (h_tx_size q) (h_tx_used q)
      then q\<lparr>h_transmitting := False, h_tx := zeros 4096\<rparr> else q\<lparr>h_tx_used := h_tx_used q + of_nat k\<rparr>)"
    using True by (simp add: fv_fido_hid_sent_def Let_def k_def q_def)
  have q: "hid_wf q" "h_tx_used q = h_tx_used p" "h_tx_size q = h_tx_size p" "\<not> h_processing q"
    using w True by (auto simp: q_def hid_wf_def)
  show ?thesis
  proof (cases "k \<ge> remaining (h_tx_size q) (h_tx_used q)")
    case True
    then show ?thesis using run q by (simp add: hid_wf_def)
  next
    case False
    then have "unat (h_tx_used p) + k < unat (h_tx_size p)" using remaining_le [OF le(1)] q by simp
    then have "unat (h_tx_used p + of_nat k) < unat (h_tx_size p)" using unat_advance [of "h_tx_used p" k] le(2) by simp
    then show ?thesis using run False q le(2) by (simp add: hid_wf_def)
  qed
qed (simp add: fv_fido_hid_sent_def)

lemma hid_wf_complete: "hid_wf p \<Longrightarrow> hid_wf (fv_fido_hid_complete response p)"
proof (cases "h_processing p")
  case True
  assume w: "hid_wf p"
  define q where "q = p\<lparr>h_processing := False, h_pending := False\<rparr>"
  have q: "hid_wf q" "\<not> h_processing q" using w by (auto simp: q_def hid_wf_def)
  have t: "hid_wf (q\<lparr>h_tx := x\<rparr>)" "\<not> h_processing (q\<lparr>h_tx := x\<rparr>)" if "length x = 4096" for x
    using q that by (auto simp: hid_wf_def)
  have l: "length (h_tx q) = 4096" using q by (simp add: hid_wf_def)
  have z: "hid_wf (x\<lparr>h_rx := zeros 4096\<rparr>)" if "hid_wf x" for x using that by (simp add: hid_wf_def)
  have one: "hid_wf (hid_reply (q\<lparr>h_tx := x\<rparr>) c CBOR n)" if "length x = 4096" "n \<le> 4096" for x c n
    using t [OF that(1)] that(2) by (intro hid_wf_reply) auto
  define u where "u = (if h_resync_requested q then init_reply q (h_resync_nonce q) (h_active_channel q) (h_active_channel q)
      else if h_cancelled q then hid_reply (q\<lparr>h_tx := (h_tx q)[0 := 0x2d]\<rparr>) (h_active_channel q) CBOR 1
      else if response = [] \<or> length response > FV_FIDO_MESSAGE_SIZE
      then hid_reply (q\<lparr>h_tx := (h_tx q)[0 := 0x7f]\<rparr>) (h_active_channel q) CBOR 1
      else hid_reply (q\<lparr>h_tx := memcpy (h_tx q) 0 response\<rparr>) (h_active_channel q) CBOR (length response))"
  have "hid_wf u"
    using hid_wf_init_reply [OF q] one l by (simp add: u_def FV_FIDO_MESSAGE_SIZE_def)
  moreover have "fv_fido_hid_complete response p = u\<lparr>h_rx := zeros 4096\<rparr>"
    using True unfolding fv_fido_hid_complete_def Let_def q_def u_def by simp
  ultimately show ?thesis using z by simp
qed (simp add: fv_fido_hid_complete_def)

lemma hid_wf_do: "hid_wf p \<Longrightarrow> op_wf x \<Longrightarrow> hid_wf (hid_do x p)"
proof (cases x)
  case Hid_Take
  assume "hid_wf p"
  then show ?thesis by (simp add: Hid_Take hid_take_def hid_wf_def)
next
  case Hid_Control_Sent
  assume "hid_wf p"
  then show ?thesis by (simp add: Hid_Control_Sent hid_control_sent_def hid_wf_def)
qed (simp_all add: hid_wf_receive hid_wf_tick hid_wf_sent hid_wf_complete)

lemma hid_wf_run: "hid_wf p \<Longrightarrow> \<forall>x \<in> set ops. op_wf x \<Longrightarrow> hid_wf (fold hid_do ops p)"
  by (induction ops arbitrary: p) (auto simp: hid_wf_do)

section \<open>Ownership of the request\<close>

text \<open>The reports that cancel the request of a channel: CANCEL, and INIT on the channel itself.\<close>

definition cancels :: "u32 \<Rightarrow> u8 list \<Rightarrow> bool" where
  "cancels cid r \<longleftrightarrow> get32 r = cid \<and> (r ! 4 = CANCEL \<and> r ! 5 = 0 \<and> r ! 6 = 0 \<or> r ! 4 = INIT \<and> r ! 5 = 0 \<and> r ! 6 = 8)"

definition hid_request :: "fv_fido_hid_t \<Rightarrow> bool \<times> u32 \<times> u8 \<times> u16 \<times> u8 list" where
  "hid_request p = (h_processing p, h_active_channel p, h_rx_command p, h_rx_size p, h_rx p)"

fun completes :: "hid_op \<Rightarrow> bool" where
  "completes (Hid_Complete response) = True"
| "completes _ = False"

fun op_cancels :: "u32 \<Rightarrow> hid_op \<Rightarrow> bool" where
  "op_cancels cid (Hid_Receive r now) = cancels cid r"
| "op_cancels cid _ = False"

lemma processing_step:
  assumes "hid_wf p" "h_processing p" "\<not> completes x"
  shows "hid_request (hid_do x p) = hid_request p" "h_cancelled (hid_do x p) \<longleftrightarrow> h_cancelled p \<or> op_cancels (h_active_channel p) x"
proof -
  have n: "\<not> h_transmitting p" "\<not> h_receiving p" using assms by (auto simp: hid_wf_def)
  have c: "CANCEL \<noteq> INIT" by (simp add: hid_commands)
  have "hid_request (hid_do x p) = hid_request p \<and> (h_cancelled (hid_do x p) \<longleftrightarrow> h_cancelled p \<or> op_cancels (h_active_channel p) x)"
  proof (cases x)
    case (Hid_Receive r now)
    have "fv_fido_hid_receive r now p = receive_processing p r (get32 r)"
      using assms(2) by (simp add: fv_fido_hid_receive_def Let_def)
    then show ?thesis using Hid_Receive c by (simp add: receive_processing_def hid_request_def cancels_def) blast
  next
    case (Hid_Complete response)
    then show ?thesis using assms(3) by simp
  qed (use n in \<open>simp_all add: fv_fido_hid_tick_def fv_fido_hid_sent_def hid_take_def hid_control_sent_def hid_request_def\<close>)
  then show "hid_request (hid_do x p) = hid_request p" "h_cancelled (hid_do x p) \<longleftrightarrow> h_cancelled p \<or> op_cancels (h_active_channel p) x" by auto
qed

lemma processing_run:
  "hid_wf p \<Longrightarrow> h_processing p \<Longrightarrow> \<forall>x \<in> set ops. op_wf x \<and> \<not> completes x \<Longrightarrow>
   hid_request (fold hid_do ops p) = hid_request p \<and>
   (h_cancelled (fold hid_do ops p) \<longleftrightarrow> h_cancelled p \<or> (\<exists>x \<in> set ops. op_cancels (h_active_channel p) x))"
proof (induction ops arbitrary: p)
  case (Cons x ops)
  note s = processing_step [OF Cons.prems(1,2), of x]
  have "hid_wf (hid_do x p)" "h_processing (hid_do x p)" "h_active_channel (hid_do x p) = h_active_channel p"
    using Cons.prems s(1) hid_wf_do by (auto simp: hid_request_def)
  then show ?case using Cons.IH [of "hid_do x p"] Cons.prems(3) s by auto
qed simp

section \<open>Fragmentation\<close>

text \<open>The reports of a message, as the CTAP specification lays them out: one initial report of up to 57
  bytes and continuations of up to 59, numbered from 0.\<close>

definition pad :: "nat \<Rightarrow> u8 list \<Rightarrow> u8 list" where
  "pad n xs = take n xs @ replicate (n - length xs) 0"

function continuations :: "u32 \<Rightarrow> u8 \<Rightarrow> u8 list \<Rightarrow> u8 list list" where
  "continuations cid seq data =
     (if data = [] then [] else (put32 cid @ [seq] @ pad 59 data) # continuations cid (seq + 1) (drop 59 data))"
  by pat_completeness auto
termination by (relation "measure (\<lambda>(cid, seq, data). length data)") auto

declare continuations.simps [simp del]

definition message_reports :: "u32 \<Rightarrow> u8 \<Rightarrow> u8 list \<Rightarrow> u8 list list" where
  "message_reports cid cmd data =
     (put32 cid @ [cmd, of_nat (length data div 256), of_nat (length data mod 256)] @ pad 57 data) #
     continuations cid 0 (drop 57 data)"

text \<open>What the transport sends until it is idle, with at most \<open>fuel\<close> reports.\<close>

fun hid_drain :: "nat \<Rightarrow> fv_fido_hid_t \<Rightarrow> u8 list list \<times> fv_fido_hid_t" where
  "hid_drain 0 p = ([], p)"
| "hid_drain (Suc fuel) p =
     (case fv_fido_hid_peek p of None \<Rightarrow> ([], p)
      | Some r \<Rightarrow> (case hid_drain fuel (fv_fido_hid_sent p) of (rs, p) \<Rightarrow> (r # rs, p)))"

lemma length_continuations: "length (continuations cid seq data) = (length data + 58) div 59"
proof (induction cid seq data rule: continuations.induct)
  case (1 cid seq data)
  show ?case
  proof (cases "data = []")
    case False
    then have "length (continuations cid seq data) = Suc ((length data - 59 + 58) div 59)"
      using 1 by (subst continuations.simps) simp
    moreover have "Suc ((length data - 59 + 58) div 59) = (length data + 58) div 59"
      using False by (cases "length data \<le> 59") (auto simp: le_div_geq Suc_le_eq)
    ultimately show ?thesis by simp
  qed (simp add: continuations.simps)
qed

lemma get32_put32: "get32 (put32 n @ xs) = n"
proof (rule bit_word_eqI)
  fix k
  assume k: "k < LENGTH(32)"
  consider "k < 8" | "8 \<le> k" "k < 16" | "16 \<le> k" "k < 24" | "24 \<le> k" by linarith
  then show "bit (get32 (put32 n @ xs)) k = bit n k"
    using k by cases (auto simp: get32_def put32_def bit_simps)
qed

lemma memcpy_append:
  "off + length x + length y \<le> length b \<Longrightarrow> memcpy (memcpy b off x) (off + length x) y = memcpy b off (x @ y)"
  by (rule nth_equalityI) (auto simp: nth_memcpy nth_append)

lemma span_report: "n \<le> length data \<Longrightarrow> n \<le> m \<Longrightarrow> length pre = off \<Longrightarrow> span (pre @ pad m data) off n = take n data"
  by (simp add: span_def pad_def min_def)

lemma small_sequence:
  assumes "s < 128"
  shows "(of_nat s :: u8) AND 0x80 = 0" "(of_nat s :: u8) \<noteq> INIT" "(of_nat s :: u8) \<noteq> CANCEL"
proof -
  have s: "unat (of_nat s :: u8) = s" using assms by (simp add: unsigned_of_nat take_bit_nat_eq_self)
  have "\<not> bit s 7" using assms by (simp add: bit_iff_odd)
  then have "\<not> bit (of_nat s :: u8) 7" by (simp add: bit_simps)
  moreover have "bit (0x80 :: u8) k \<longleftrightarrow> k = 7" if "k < 8" for k
  proof -
    have "(0x80 :: u8) = 2 ^ 7" by simp
    then show ?thesis using that by (simp only: bit_exp_iff) auto
  qed
  ultimately show "(of_nat s :: u8) AND 0x80 = 0" by (intro bit_word_eqI) (auto simp: bit_and_iff)
  show "(of_nat s :: u8) \<noteq> INIT" "(of_nat s :: u8) \<noteq> CANCEL" using s assms by (auto simp: hid_commands)
qed

lemma receive_continuation_report:
  fixes now :: u32 and p :: fv_fido_hid_t and data :: "u8 list" and s :: nat
  assumes p: "h_receiving p" "\<not> h_processing p" "\<not> h_transmitting p" "hid_known p cid" "h_active_channel p = cid"
    "h_rx_sequence p = of_nat s" "s < 128" "unat (h_rx_used p) + length data = unat (h_rx_size p)" "unat (h_rx_size p) \<le> 4096"
  defines "q \<equiv> p\<lparr>h_rx := memcpy (h_rx p) (unat (h_rx_used p)) (take 59 data), h_rx_used := h_rx_used p + of_nat (min (length data) 59),
      h_rx_sequence := of_nat (Suc s), h_rx_time := now\<rparr>"
  shows "fv_fido_hid_receive (put32 cid @ [of_nat s] @ pad 59 data) now p = (if length data \<le> 59 then rx_complete q else q)"
proof -
  define r where "r = put32 cid @ [of_nat s] @ pad 59 data"
  have r: "get32 r = cid" "r ! 4 = of_nat s" by (simp_all add: r_def get32_put32 nth_append)
  have "fv_fido_hid_receive r now p = receive_continuation p r cid now"
    using p(2-5) r small_sequence [OF p(7)] by (auto simp: fv_fido_hid_receive_def hid_known_def Let_def)
  also have "\<dots> = receive_data (p\<lparr>h_rx_sequence := of_nat (Suc s)\<rparr>) r 5 now"
    using p(1,6) r(2) by (simp add: receive_continuation_def Let_def add.commute)
  finally have run: "fv_fido_hid_receive r now p = receive_data (p\<lparr>h_rx_sequence := of_nat (Suc s)\<rparr>) r 5 now" .
  have cnt: "min (remaining (h_rx_size p) (h_rx_used p)) (64 - 5) = min (length data) 59"
    using p(8) remaining_le [of "h_rx_used p" "h_rx_size p"] by simp
  have sp: "span r 5 (min (length data) 59) = take 59 data"
    using span_report [of "min (length data) 59" data 59 "put32 cid @ [of_nat s]" 5] by (simp add: r_def min_def)
  have u: "unat (h_rx_used p + of_nat (min (length data) 59)) = unat (h_rx_used p) + min (length data) 59"
    using p(8,9) by (intro unat_advance) auto
  have "h_rx_used p + of_nat (min (length data) 59) = h_rx_size p \<longleftrightarrow> length data \<le> 59"
    using u p(8) unsigned_word_eqI [of "h_rx_used p + of_nat (min (length data) 59)" "h_rx_size p"] by (auto simp: min_def split: if_splits)
  then show ?thesis
    unfolding r_def [symmetric] run receive_data_def Let_def q_def using cnt sp
    by (cases "length data \<le> 59") (simp_all add: min_def, rule arg_cong [where f = rx_complete], simp)
qed

lemma receive_continuations:
  "h_receiving p \<Longrightarrow> \<not> h_processing p \<Longrightarrow> \<not> h_transmitting p \<Longrightarrow> hid_known p cid \<Longrightarrow> h_active_channel p = cid \<Longrightarrow>
   h_rx_sequence p = of_nat s \<Longrightarrow> s + length (continuations cid (of_nat s) data) \<le> 128 \<Longrightarrow> data \<noteq> [] \<Longrightarrow>
   unat (h_rx_used p) + length data = unat (h_rx_size p) \<Longrightarrow> unat (h_rx_size p) \<le> 4096 \<Longrightarrow> length (h_rx p) = 4096 \<Longrightarrow>
   \<exists>seq. fold (\<lambda>r. fv_fido_hid_receive r now) (continuations cid (of_nat s) data) p =
     rx_complete (p\<lparr>h_rx := memcpy (h_rx p) (unat (h_rx_used p)) data, h_rx_used := h_rx_size p, h_rx_sequence := seq, h_rx_time := now\<rparr>)"
proof (induction "length data" arbitrary: s data p rule: less_induct)
  case less
  have cons: "continuations cid (of_nat s) data = (put32 cid @ [of_nat s] @ pad 59 data) # continuations cid (of_nat (Suc s)) (drop 59 data)"
    using less.prems(8) by (subst continuations.simps) (simp add: add.commute)
  have s: "s < 128" using less.prems(7) cons by simp
  define q where "q = p\<lparr>h_rx := memcpy (h_rx p) (unat (h_rx_used p)) (take 59 data), h_rx_used := h_rx_used p + of_nat (min (length data) 59),
      h_rx_sequence := of_nat (Suc s), h_rx_time := now\<rparr>"
  have step: "fv_fido_hid_receive (put32 cid @ [of_nat s] @ pad 59 data) now p = (if length data \<le> 59 then rx_complete q else q)"
    unfolding q_def using less.prems s by (intro receive_continuation_report) auto
  have u: "unat (h_rx_used q) = unat (h_rx_used p) + min (length data) 59"
    unfolding q_def using less.prems(9,10) by (simp add: unat_advance)
  show ?case
  proof (cases "length data \<le> 59")
    case True
    have "h_rx_used q = h_rx_size p" using u True less.prems(9) by (intro unsigned_word_eqI) simp
    then have "q = p\<lparr>h_rx := memcpy (h_rx p) (unat (h_rx_used p)) data, h_rx_used := h_rx_size p, h_rx_sequence := of_nat (Suc s), h_rx_time := now\<rparr>"
      using True by (simp add: q_def)
    moreover have "continuations cid (of_nat (Suc s)) (drop 59 data) = []" using True by (simp add: continuations.simps)
    ultimately show ?thesis using cons step True by auto
  next
    case False
    define q' where "q' = q"
    have "\<exists>seq. fold (\<lambda>r. fv_fido_hid_receive r now) (continuations cid (of_nat (Suc s)) (drop 59 data)) q =
       rx_complete (q\<lparr>h_rx := memcpy (h_rx q) (unat (h_rx_used q)) (drop 59 data), h_rx_used := h_rx_size q, h_rx_sequence := seq, h_rx_time := now\<rparr>)"
    proof (rule less.hyps)
      show "hid_known q cid" using less.prems(4) by (simp add: q_def hid_known_def)
      show "unat (h_rx_used q) + length (drop 59 data) = unat (h_rx_size q)"
        using u False less.prems(9) by (simp add: q_def)
      show "Suc s + length (continuations cid (of_nat (Suc s)) (drop 59 data)) \<le> 128" using less.prems(7) cons by simp
    qed (use False less.prems in \<open>simp_all add: q_def\<close>)
    moreover have "memcpy (h_rx q) (unat (h_rx_used q)) (drop 59 data) = memcpy (h_rx p) (unat (h_rx_used p)) data"
      using memcpy_append [of "unat (h_rx_used p)" "take 59 data" "drop 59 data" "h_rx p"] u False less.prems(9-11)
      by (simp add: q_def min_def)
    ultimately show ?thesis using cons step False by (auto simp: q_def)
  qed
qed

lemma report_size_split:
  "n \<le> 4096 \<Longrightarrow> r ! 5 = of_nat (n div 256) \<Longrightarrow> r ! 6 = of_nat (n mod 256) \<Longrightarrow> unat (report_size r) = n"
proof -
  assume n: "n \<le> 4096" and r: "r ! 5 = of_nat (n div 256)" "r ! 6 = of_nat (n mod 256)"
  have h: "n div 256 < 256" using n by simp
  have "report_size r = of_nat n"
  proof (rule bit_word_eqI)
    fix k
    assume k: "k < LENGTH(16)"
    have "bit (n mod 256) k \<longleftrightarrow> k < 8 \<and> bit n k" using bit_take_bit_iff [of 8 n k] by (simp add: take_bit_eq_mod)
    moreover have "bit (n div 256) (k - 8) \<longleftrightarrow> bit n (8 + (k - 8))" using bit_drop_bit_eq [of 8 n] by (simp add: drop_bit_eq_div)
    ultimately show "bit (report_size r) k = bit (of_nat n :: u16) k"
      using k by (cases "k < 8") (auto simp: report_size_def r bit_simps)
  qed
  then show ?thesis using n by (simp add: unsigned_of_nat take_bit_nat_eq_self)
qed

definition hid_idle :: "fv_fido_hid_t \<Rightarrow> bool" where
  "hid_idle p \<longleftrightarrow> \<not> h_processing p \<and> \<not> h_transmitting p \<and> \<not> h_receiving p"

text \<open>What the last report of a message leaves to \<^verbatim>\<open>complete\<close>.\<close>

definition received :: "fv_fido_hid_t \<Rightarrow> u32 \<Rightarrow> u8 \<Rightarrow> u8 list \<Rightarrow> u8 \<Rightarrow> u32 \<Rightarrow> fv_fido_hid_t" where
  "received p cid cmd data seq now = p\<lparr>h_active_channel := cid, h_rx_command := cmd, h_rx_size := of_nat (length data),
     h_receiving := True, h_rx := memcpy (h_rx p) 0 data, h_rx_used := of_nat (length data), h_rx_sequence := seq, h_rx_time := now\<rparr>"

lemma receive_first_report:
  assumes p: "hid_wf p" "hid_idle p" "hid_known p cid" and cmd: "cmd = PING \<or> cmd = CBOR" "cmd = CBOR \<Longrightarrow> data \<noteq> []"
    and n: "length data \<le> 4096"
  defines "r \<equiv> put32 cid @ [cmd, of_nat (length data div 256), of_nat (length data mod 256)] @ pad 57 data"
    and "q \<equiv> p\<lparr>h_active_channel := cid, h_rx_command := cmd, h_rx_size := of_nat (length data), h_rx_used := 0,
      h_rx_sequence := 0, h_receiving := True\<rparr>"
  shows "fv_fido_hid_receive r now p = receive_data q r 7 now"
proof -
  have r: "get32 r = cid" "r ! 4 = cmd" "r ! 5 = of_nat (length data div 256)" "r ! 6 = of_nat (length data mod 256)"
    by (simp_all add: r_def get32_put32 nth_append)
  have sz: "unat (report_size r) = length data" by (rule report_size_split [OF n r(3,4)])
  have "report_size r = of_nat (unat (report_size r))" by simp
  then have szw: "report_size r = of_nat (length data)" by (simp only: sz)
  have c: "cmd AND 0x80 \<noteq> 0" "cmd \<noteq> INIT" "cmd \<noteq> CANCEL" using cmd(1) by (auto simp: hid_commands)
  have "fv_fido_hid_receive r now p = receive_start p r cid now"
    using p(2,3) c r(1,2) by (auto simp: fv_fido_hid_receive_def hid_idle_def hid_known_def Let_def)
  also have "\<dots> = receive_data q r 7 now"
  proof -
    have "r ! 4 = CBOR \<Longrightarrow> report_size r \<noteq> 0" using cmd(2) r(2) sz by auto
    then show ?thesis using p(2) cmd(1) r(2) sz szw n by (auto simp: receive_start_def hid_idle_def FV_FIDO_MESSAGE_SIZE_def q_def)
  qed
  finally show ?thesis .
qed

lemma receive_message:
  assumes p: "hid_wf p" "hid_idle p" "hid_known p cid" and cmd: "cmd = PING \<or> cmd = CBOR" "cmd = CBOR \<Longrightarrow> data \<noteq> []"
    and n: "length data \<le> 4096"
  shows "\<exists>seq. fold (\<lambda>r. fv_fido_hid_receive r now) (message_reports cid cmd data) p = rx_complete (received p cid cmd data seq now)"
proof -
  define r where "r = put32 cid @ [cmd, of_nat (length data div 256), of_nat (length data mod 256)] @ pad 57 data"
  define q where "q = p\<lparr>h_active_channel := cid, h_rx_command := cmd, h_rx_size := of_nat (length data), h_rx_used := 0,
      h_rx_sequence := 0, h_receiving := True\<rparr>"
  define q1 where "q1 = q\<lparr>h_rx := memcpy (h_rx p) 0 (take 57 data), h_rx_used := of_nat (min (length data) 57), h_rx_time := now\<rparr>"
  have sz: "unat (of_nat (length data) :: u16) = length data" "unat (of_nat (min (length data) 57) :: u16) = min (length data) 57"
    using n by (simp_all add: unsigned_of_nat take_bit_nat_eq_self)
  have cnt: "min (remaining (h_rx_size q) (h_rx_used q)) (64 - 7) = min (length data) 57"
    using remaining_le [of "h_rx_used q" "h_rx_size q"] sz by (simp add: q_def)
  have sp: "span r 7 (min (length data) 57) = take 57 data"
    using span_report [of "min (length data) 57" data 57 "put32 cid @ [cmd, of_nat (length data div 256), of_nat (length data mod 256)]" 7]
    by (simp add: r_def min_def)
  have full: "(of_nat (min (length data) 57) :: u16) = of_nat (length data) \<longleftrightarrow> length data \<le> 57"
  proof
    assume "(of_nat (min (length data) 57) :: u16) = of_nat (length data)"
    then have "unat (of_nat (min (length data) 57) :: u16) = unat (of_nat (length data) :: u16)" by (rule arg_cong)
    then show "length data \<le> 57" unfolding sz by linarith
  qed (simp add: min_def)
  have first: "fv_fido_hid_receive r now p = (if length data \<le> 57 then rx_complete q1 else q1)"
  proof -
    have "q\<lparr>h_rx := memcpy (h_rx q) (unat (h_rx_used q)) (take 57 data), h_rx_used := h_rx_used q + of_nat (min (length data) 57), h_rx_time := now\<rparr> = q1"
      by (simp add: q_def q1_def)
    moreover have "h_rx_used q1 = h_rx_size q1 \<longleftrightarrow> length data \<le> 57" using full by (simp add: q_def q1_def)
    moreover have "fv_fido_hid_receive r now p = receive_data q r 7 now"
      unfolding r_def q_def by (rule receive_first_report [OF p cmd n])
    ultimately show ?thesis by (simp only: receive_data_def Let_def cnt sp)
  qed
  have reports: "message_reports cid cmd data = r # continuations cid (of_nat 0) (drop 57 data)"
    by (simp add: message_reports_def r_def)
  show ?thesis
  proof (cases "length data \<le> 57")
    case True
    then have "q1 = received p cid cmd data 0 now" by (simp add: q1_def q_def received_def min_def)
    moreover have "continuations cid (of_nat 0) (drop 57 data) = []" using True by (simp add: continuations.simps)
    ultimately show ?thesis using reports first True by auto
  next
    case False
    have l: "length (h_rx p) = 4096" using p(1) by (simp add: hid_wf_def)
    have "\<exists>seq. fold (\<lambda>r. fv_fido_hid_receive r now) (continuations cid (of_nat 0) (drop 57 data)) q1 =
        rx_complete (q1\<lparr>h_rx := memcpy (h_rx q1) (unat (h_rx_used q1)) (drop 57 data), h_rx_used := h_rx_size q1, h_rx_sequence := seq, h_rx_time := now\<rparr>)"
    proof (rule receive_continuations)
      show "hid_known q1 cid" using p(3) by (simp add: q1_def q_def hid_known_def)
      show "0 + length (continuations cid (of_nat 0) (drop 57 data)) \<le> 128"
        using n by (simp add: length_continuations)
    qed (use False p(2) n sz l in \<open>simp_all add: q1_def q_def hid_idle_def\<close>)
    moreover have "memcpy (h_rx q1) (unat (h_rx_used q1)) (drop 57 data) = memcpy (h_rx p) 0 data"
      using memcpy_append [of 0 "take 57 data" "drop 57 data" "h_rx p"] False n l sz by (simp add: q1_def q_def min_def)
    ultimately show ?thesis using reports first False by (auto simp: q1_def q_def received_def)
  qed
qed

section \<open>Sending\<close>

lemma report_bytes:
  assumes "length pre = off" "off \<le> 64" "length r = 64" "take off r = pre" "\<forall>i. off \<le> i \<longrightarrow> i < 64 \<longrightarrow> r ! i = 0" "m = 64 - off"
  shows "memcpy r off (take m data) = pre @ pad m data"
proof (rule nth_equalityI)
  show "length (memcpy r off (take m data)) = length (pre @ pad m data)" using assms by (simp add: pad_def)
  fix i
  assume i: "i < length (memcpy r off (take m data))"
  have "i < off \<Longrightarrow> r ! i = pre ! i" using assms(1,4) nth_take by metis
  then show "memcpy r off (take m data) ! i = (pre @ pad m data) ! i"
    using i assms by (auto simp: nth_memcpy nth_append pad_def min_def)
qed

lemma continuations_not_Nil: "data \<noteq> [] \<Longrightarrow> continuations cid seq data \<noteq> []"
  by (subst continuations.simps) simp

lemma drain_continuations:
  "h_transmitting p \<Longrightarrow> unat (h_tx_used p) > 0 \<Longrightarrow> unat (h_tx_size p) \<le> 4096 \<Longrightarrow> length (h_tx p) = 4096 \<Longrightarrow> data \<noteq> [] \<Longrightarrow>
   unat (h_tx_used p) + length data = unat (h_tx_size p) \<Longrightarrow> span (h_tx p) (unat (h_tx_used p)) (length data) = data \<Longrightarrow>
   length (continuations (h_tx_channel p) (h_tx_sequence p) data) \<le> fuel \<Longrightarrow>
   \<exists>p'. hid_drain fuel p = (continuations (h_tx_channel p) (h_tx_sequence p) data, p') \<and> \<not> h_transmitting p' \<and>
     h_processing p' = h_processing p \<and> h_receiving p' = h_receiving p"
proof (induction fuel arbitrary: p data)
  case 0
  then show ?case using continuations_not_Nil by simp
next
  case (Suc fuel)
  define r where "r = put32 (h_tx_channel p) @ [h_tx_sequence p] @ pad 59 data"
  have cons: "continuations (h_tx_channel p) (h_tx_sequence p) data = r # continuations (h_tx_channel p) (h_tx_sequence p + 1) (drop 59 data)"
    using Suc.prems(5) by (subst continuations.simps) (simp add: r_def)
  have used: "h_tx_used p \<noteq> 0" using Suc.prems(2) by auto
  have rem: "remaining (h_tx_size p) (h_tx_used p) = length data"
    using Suc.prems(6) remaining_le [of "h_tx_used p" "h_tx_size p"] by simp
  have sp: "span (h_tx p) (unat (h_tx_used p)) (min (length data) 59) = take 59 data"
  proof -
    have "take (min (length data) 59) (span (h_tx p) (unat (h_tx_used p)) (length data)) = span (h_tx p) (unat (h_tx_used p)) (min (length data) 59)"
      by (simp add: span_def min_def)
    then show ?thesis using Suc.prems(7) by (simp add: min_def split: if_splits)
  qed
  have "memcpy ((memcpy (zeros 64) 0 (put32 (h_tx_channel p)))[4 := h_tx_sequence p]) 5 (take 59 data) =
      (put32 (h_tx_channel p) @ [h_tx_sequence p]) @ pad 59 data"
  proof (rule report_bytes)
    have "memcpy (zeros 64) 0 (put32 (h_tx_channel p)) = put32 (h_tx_channel p) @ zeros 60" by (simp add: memcpy_def zeros_def)
    then show "take 5 ((memcpy (zeros 64) 0 (put32 (h_tx_channel p)))[4 := h_tx_sequence p]) = put32 (h_tx_channel p) @ [h_tx_sequence p]"
      "\<forall>i. 5 \<le> i \<longrightarrow> i < 64 \<longrightarrow> (memcpy (zeros 64) 0 (put32 (h_tx_channel p)))[4 := h_tx_sequence p] ! i = 0"
      by (auto simp: zeros_def list_update_append nth_append take_Suc_conv_app_nth)
  qed simp_all
  then have peek: "fv_fido_hid_peek p = Some r"
    using Suc.prems(1) used rem sp by (simp add: fv_fido_hid_peek_def Let_def r_def)
  define q where "q = p\<lparr>h_tx_sequence := h_tx_sequence p + 1\<rparr>"
  have sent: "fv_fido_hid_sent p = (if length data \<le> 59 then q\<lparr>h_transmitting := False, h_tx := zeros 4096\<rparr> else q\<lparr>h_tx_used := h_tx_used p + of_nat 59\<rparr>)"
    using Suc.prems(1) used rem by (simp add: fv_fido_hid_sent_def Let_def q_def)
  show ?case
  proof (cases "length data \<le> 59")
    case True
    then have "continuations (h_tx_channel p) (h_tx_sequence p + 1) (drop 59 data) = []" by (simp add: continuations.simps)
    moreover have "hid_drain fuel (q\<lparr>h_transmitting := False, h_tx := zeros 4096\<rparr>) = ([], q\<lparr>h_transmitting := False, h_tx := zeros 4096\<rparr>)"
      by (cases fuel) (simp_all add: fv_fido_hid_peek_def)
    ultimately show ?thesis using True peek sent cons by (simp add: q_def)
  next
    case False
    define q1 where "q1 = q\<lparr>h_tx_used := h_tx_used p + of_nat 59\<rparr>"
    have u: "unat (h_tx_used q1) = unat (h_tx_used p) + 59"
      unfolding q1_def using unat_advance [of "h_tx_used p" 59] False Suc.prems(3,6) by simp
    have q1: "h_tx_channel q1 = h_tx_channel p" "h_tx_sequence q1 = h_tx_sequence p + 1" "h_tx q1 = h_tx p" "h_tx_size q1 = h_tx_size p"
      "h_transmitting q1" "h_processing q1 = h_processing p" "h_receiving q1 = h_receiving p"
      using Suc.prems(1) by (simp_all add: q1_def q_def)
    have "span (h_tx p) (unat (h_tx_used p) + 59) (length data - 59) = drop 59 (span (h_tx p) (unat (h_tx_used p)) (length data))"
      by (simp add: span_def drop_take add.commute)
    then obtain p' where d: "hid_drain fuel q1 = (continuations (h_tx_channel q1) (h_tx_sequence q1) (drop 59 data), p')" "\<not> h_transmitting p'"
        "h_processing p' = h_processing q1" "h_receiving p' = h_receiving q1"
      using Suc.IH [of q1 "drop 59 data"] Suc.prems False u q1 cons by auto
    have "fv_fido_hid_sent p = q1" using sent False by (simp add: q1_def)
    then show ?thesis using peek cons d q1 by simp
  qed
qed

text \<open>A message of at most 4096 bytes that has been handed to \<^verbatim>\<open>reply\<close> goes out as its reports.\<close>

lemma drain_message:
  assumes t: "h_transmitting p" "h_tx_used p = 0" "h_tx_sequence p = 0" "h_tx_size p = of_nat (length data)" "length (h_tx p) = 4096"
    and n: "length data \<le> 4096" "take (length data) (h_tx p) = data" and fuel: "70 \<le> fuel"
  shows "\<exists>p'. hid_drain fuel p = (message_reports (h_tx_channel p) (h_tx_command p) data, p') \<and> \<not> h_transmitting p' \<and>
    h_processing p' = h_processing p \<and> h_receiving p' = h_receiving p"
proof -
  obtain f where f: "fuel = Suc f" using fuel by (cases fuel) auto
  have sz: "unat (h_tx_size p) = length data" using t(4) n(1) by (simp add: unsigned_of_nat take_bit_nat_eq_self)
  define pre where "pre = put32 (h_tx_channel p) @ [h_tx_command p, of_nat (length data div 256), of_nat (length data mod 256)]"
  have rem: "remaining (h_tx_size p) (h_tx_used p) = length data"
    using remaining_le [of "h_tx_used p" "h_tx_size p"] sz t(2) by simp
  have hi: "ucast (drop_bit 8 (h_tx_size p)) = (of_nat (length data div 256) :: u8)"
  proof (rule bit_word_eqI)
    fix k
    assume k: "k < LENGTH(8)"
    have "bit (length data div 256) k \<longleftrightarrow> bit (length data) (8 + k)" using bit_drop_bit_eq [of 8 "length data"] by (simp add: drop_bit_eq_div)
    then show "bit (ucast (drop_bit 8 (h_tx_size p)) :: u8) k = bit (of_nat (length data div 256) :: u8) k"
      using k by (auto simp: t(4) bit_simps)
  qed
  have lo: "ucast (h_tx_size p) = (of_nat (length data mod 256) :: u8)"
  proof (rule bit_word_eqI)
    fix k
    assume k: "k < LENGTH(8)"
    have "bit (length data mod 256) k \<longleftrightarrow> k < 8 \<and> bit (length data) k" using bit_take_bit_iff [of 8 "length data" k] by (simp add: take_bit_eq_mod)
    then show "bit (ucast (h_tx_size p) :: u8) k = bit (of_nat (length data mod 256) :: u8) k"
      using k by (auto simp: t(4) bit_simps)
  qed
  have sp: "span (h_tx p) 0 (min (length data) 57) = take 57 data"
  proof -
    have "take (min (length data) 57) (take (length data) (h_tx p)) = span (h_tx p) 0 (min (length data) 57)"
      by (simp add: span_def min_def)
    then show ?thesis using n(2) by (simp add: min_def split: if_splits)
  qed
  define b where "b = (memcpy (zeros 64) 0 (put32 (h_tx_channel p)))[4 := h_tx_command p, 5 := of_nat (length data div 256), 6 := of_nat (length data mod 256)]"
  have "memcpy b 7 (take 57 data) = pre @ pad 57 data"
  proof (rule report_bytes)
    have "memcpy (zeros 64) 0 (put32 (h_tx_channel p)) = put32 (h_tx_channel p) @ zeros 60" by (simp add: memcpy_def zeros_def)
    moreover have "zeros 60 = 0 # 0 # 0 # zeros 57" by (simp add: zeros_def numeral_eq_Suc)
    ultimately have b: "b = pre @ zeros 57" by (simp add: b_def pre_def list_update_append)
    show "take 7 b = pre" "\<forall>i. 7 \<le> i \<longrightarrow> i < 64 \<longrightarrow> b ! i = 0" by (auto simp: b pre_def zeros_def nth_append)
  qed (simp_all add: b_def pre_def)
  then have peek: "fv_fido_hid_peek p = Some (pre @ pad 57 data)"
    using t(1,2) rem sp hi lo by (simp add: fv_fido_hid_peek_def Let_def b_def)
  have sent: "fv_fido_hid_sent p = (if length data \<le> 57 then p\<lparr>h_transmitting := False, h_tx := zeros 4096\<rparr> else p\<lparr>h_tx_used := of_nat 57\<rparr>)"
    using t(1,2) rem by (simp add: fv_fido_hid_sent_def Let_def)
  have reports: "message_reports (h_tx_channel p) (h_tx_command p) data = (pre @ pad 57 data) # continuations (h_tx_channel p) 0 (drop 57 data)"
    by (simp add: message_reports_def pre_def)
  show ?thesis
  proof (cases "length data \<le> 57")
    case True
    then have "continuations (h_tx_channel p) 0 (drop 57 data) = []" by (simp add: continuations.simps)
    moreover have "hid_drain f (p\<lparr>h_transmitting := False, h_tx := zeros 4096\<rparr>) = ([], p\<lparr>h_transmitting := False, h_tx := zeros 4096\<rparr>)"
      by (cases f) (simp_all add: fv_fido_hid_peek_def)
    ultimately show ?thesis using True peek sent reports by (simp add: f)
  next
    case False
    define q where "q = p\<lparr>h_tx_used := of_nat 57\<rparr>"
    have "span (h_tx p) 57 (length data - 57) = drop 57 data"
      using n(2) by (metis span_def drop_take)
    then have "\<exists>p'. hid_drain f q = (continuations (h_tx_channel q) (h_tx_sequence q) (drop 57 data), p') \<and> \<not> h_transmitting p' \<and>
        h_processing p' = h_processing q \<and> h_receiving p' = h_receiving q"
      using t n False sz fuel f by (intro drain_continuations) (auto simp: q_def length_continuations)
    then obtain p' where d: "hid_drain f q = (continuations (h_tx_channel p) 0 (drop 57 data), p')" "\<not> h_transmitting p'"
        "h_processing p' = h_processing p" "h_receiving p' = h_receiving p"
      using t(3) by (auto simp: q_def)
    have "fv_fido_hid_sent p = q" using sent False by (simp add: q_def)
    then show ?thesis using peek reports d by (simp add: f)
  qed
qed

section \<open>Properties\<close>

text \<open>C26. Every state the transport can reach, by any sequence of reports, ticks, transmissions and
  completions, is well formed: the buffers keep their sizes, every counter stays within its message and
  every message within its buffer, so no copy leaves a buffer; a request is owned either by the receiver, the
  worker or the sender, never by two of them, apart from an error report to another channel that is sent
  while a message is being received.\<close>

theorem hid_reachable_wf:
  assumes "\<forall>x \<in> set ops. op_wf x"
  shows "hid_wf (fold hid_do ops fv_fido_hid_reset)"
  by (rule hid_wf_run [OF hid_wf_reset assms])


lemma deliver_cbor:
  fixes now :: u32
  assumes "hid_wf p" "hid_idle p" "hid_known p cid" "request \<noteq> []" "length request \<le> 4096"
  defines "q \<equiv> fold (\<lambda>r. fv_fido_hid_receive r now) (message_reports cid CBOR request) p"
  shows "h_pending q \<and> h_processing q \<and> \<not> h_cancelled q \<and> \<not> h_resync_requested q \<and> h_active_channel q = cid \<and>
    take (unat (h_rx_size q)) (h_rx q) = request \<and> length (h_tx q) = 4096 \<and> \<not> h_receiving q"
proof -
  obtain seq where q: "q = rx_complete (received p cid CBOR request seq now)"
    using receive_message [OF assms(1-3), of CBOR request now] assms(4,5) by (auto simp: q_def)
  have l: "length (h_rx p) = 4096" "length (h_tx p) = 4096" using assms(1) by (auto simp: hid_wf_def)
  have "unat (of_nat (length request) :: u16) = length request" using assms(5) by (simp add: unsigned_of_nat take_bit_nat_eq_self)
  moreover have "take (length request) (memcpy (h_rx p) 0 request) = request" using l assms(5) by (simp add: memcpy_def)
  ultimately show ?thesis using l by (simp add: q rx_complete_def received_def hid_commands)
qed


section \<open>The properties at work\<close>

definition one_channel :: fv_fido_hid_t where
  "one_channel = fv_fido_hid_reset\<lparr>h_channels := [1, 0, 0, 0], h_next_channel := 2\<rparr>"

lemma one_channel_facts: "hid_wf one_channel" "hid_idle one_channel" "hid_known one_channel 1"
  by (simp_all add: one_channel_def hid_wf_def hid_idle_def hid_known_def fv_fido_hid_reset_def BROADCAST_def)

text \<open>A report that asks for a channel.\<close>

definition init_report :: "u8 list" where
  "init_report = put32 BROADCAST @ [INIT, 0, 8] @ pad 57 [1, 2, 3, 4, 5, 6, 7, 8]"

lemma hid_reachable_wf_witness:
  "hid_wf (fold hid_do [Hid_Receive init_report 5, Hid_Sent, Hid_Tick 4000] fv_fido_hid_reset) \<and>
   h_channels (fv_fido_hid_receive init_report 5 fv_fido_hid_reset) = [1, 0, 0, 0]"
proof
  show "hid_wf (fold hid_do [Hid_Receive init_report 5, Hid_Sent, Hid_Tick 4000] fv_fido_hid_reset)"
    by (rule hid_reachable_wf) (simp add: init_report_def pad_def)
  have "get32 init_report = BROADCAST" "init_report ! 4 = INIT" "init_report ! 5 = 0" "init_report ! 6 = 8"
    by (simp_all add: init_report_def get32_put32 nth_append)
  then show "h_channels (fv_fido_hid_receive init_report 5 fv_fido_hid_reset) = [1, 0, 0, 0]"
    by (simp add: fv_fido_hid_receive_def receive_init_def assign_channel_def init_reply_def hid_reply_def drop_rx_def fv_fido_hid_reset_def
        Let_def BROADCAST_def)
qed

definition one_request :: fv_fido_hid_t where
  "one_request = fold (\<lambda>r. fv_fido_hid_receive r 3) (message_reports 1 CBOR [4]) one_channel"

lemma one_request_facts: "hid_wf one_request" "h_processing one_request" "h_active_channel one_request = 1" "\<not> h_cancelled one_request"
proof -
  note d = deliver_cbor [OF one_channel_facts, of "[4]" 3]
  show "h_processing one_request" "h_active_channel one_request = 1" "\<not> h_cancelled one_request" using d by (simp_all add: one_request_def)
  have "message_reports 1 CBOR [4] = [put32 1 @ [CBOR, 0, 1] @ pad 57 [4]]" by (simp add: message_reports_def continuations.simps)
  then show "hid_wf one_request"
    using hid_wf_receive [OF one_channel_facts(1), of "put32 1 @ [CBOR, 0, 1] @ pad 57 [4]" 3] by (simp add: one_request_def pad_def)
qed



section \<open>A busy report to another channel\<close>

text \<open>While an error report to another channel waits to be sent, the owner's next continuation is dropped,
  and the one after it aborts the owner's message with a sequence error: a second channel that writes in
  the middle of a message can make the first one fail.\<close>

lemma busy_report_drops_continuation:
  assumes "h_receiving p" "\<not> h_processing p" "h_transmitting p"
  shows "fv_fido_hid_receive r now p = p"
  using assms by (simp add: fv_fido_hid_receive_def Let_def)

end
