(* ===== verification/Fido_Verification.thy ===== *)
theory Fido_Verification
  imports Bytes
begin

text \<open>
  The window of a user verification (\<^verbatim>\<open>src/src/shared/fido/verification.c\<close>): after a verification,
  passkey operations may use it for a limited time and for one site, unless the policy lets it last as long
  as the session. \<open>None\<close> is a null pointer for the site. The policy is the integer the adapter casts from the
  stored byte.
\<close>

definition FV_FIDO_UV_START_MS :: u32 where "FV_FIDO_UV_START_MS = 30000"
definition FV_FIDO_UV_COMPLETE_MS :: u32 where "FV_FIDO_UV_COMPLETE_MS = 600000"

type_synonym fv_fido_uv_policy = u32

abbreviation FV_FIDO_UV_STRICT :: fv_fido_uv_policy where "FV_FIDO_UV_STRICT \<equiv> 0"
abbreviation FV_FIDO_UV_SESSION :: fv_fido_uv_policy where "FV_FIDO_UV_SESSION \<equiv> 1"

record fv_fido_verification_t =
  uv_verified_at :: u32
  uv_rp_hash :: "u8 list"
  uv_valid :: bool
  uv_started :: bool
  uv_bound :: bool

definition fv_fido_verification_clear :: fv_fido_verification_t where
  "fv_fido_verification_clear =
     \<lparr>uv_verified_at = 0, uv_rp_hash = zeros 32, uv_valid = False, uv_started = False, uv_bound = False\<rparr>"

definition fv_fido_verification_begin :: "u32 \<Rightarrow> fv_fido_verification_t" where
  "fv_fido_verification_begin now = fv_fido_verification_clear\<lparr>uv_verified_at := now, uv_valid := True\<rparr>"

definition fv_fido_verification_use_policy ::
  "u32 \<Rightarrow> u8 list option \<Rightarrow> fv_fido_uv_policy \<Rightarrow> fv_fido_verification_t \<Rightarrow> bool \<times> fv_fido_verification_t" where
  "fv_fido_verification_use_policy now rp policy s =
     (if \<not> uv_valid s then (False, s)
      else if policy = FV_FIDO_UV_SESSION then (True, s)
      else if policy \<noteq> FV_FIDO_UV_STRICT then (False, fv_fido_verification_clear)
      else
        (let age = now - uv_verified_at s in
         if age \<ge> FV_FIDO_UV_COMPLETE_MS \<or> (\<not> uv_started s \<and> age \<ge> FV_FIDO_UV_START_MS) \<or>
            (uv_bound s \<and> rp \<noteq> None \<and> rp \<noteq> Some (uv_rp_hash s))
         then (False, fv_fido_verification_clear)
         else
           (let s = s\<lparr>uv_started := True\<rparr> in
            (True, case rp of Some h \<Rightarrow> if uv_bound s then s else s\<lparr>uv_rp_hash := h, uv_bound := True\<rparr> | None \<Rightarrow> s))))"

definition fv_fido_verification_use :: "u32 \<Rightarrow> u8 list option \<Rightarrow> fv_fido_verification_t \<Rightarrow> bool \<times> fv_fido_verification_t" where
  "fv_fido_verification_use now rp s = fv_fido_verification_use_policy now rp FV_FIDO_UV_STRICT s"

section \<open>One verification, one site\<close>

text \<open>The results of a sequence of strict uses, each with its time and site.\<close>

fun uses :: "(u32 \<times> u8 list option) list \<Rightarrow> fv_fido_verification_t \<Rightarrow> bool list" where
  "uses [] s = []"
| "uses ((now, rp) # us) s = (case fv_fido_verification_use now rp s of (ok, s) \<Rightarrow> ok # uses us s)"

lemma use_invalid: "\<not> uv_valid s \<Longrightarrow> uses us s = replicate (length us) False"
  by (induction us) (auto simp: fv_fido_verification_use_def fv_fido_verification_use_policy_def)

text \<open>The uses that were granted form a prefix; they lie in the window and name at most one site.\<close>

definition granted :: "(u32 \<times> u8 list option) list \<Rightarrow> fv_fido_verification_t \<Rightarrow> nat" where
  "granted us s = length (takeWhile id (uses us s))"

lemma use_granted:
  assumes "fv_fido_verification_use now rp s = (True, s')"
  shows "uv_valid s" "now - uv_verified_at s < FV_FIDO_UV_COMPLETE_MS" "uv_started s \<or> now - uv_verified_at s < FV_FIDO_UV_START_MS"
    "uv_bound s \<Longrightarrow> rp = None \<or> rp = Some (uv_rp_hash s)" "uv_valid s'" "uv_verified_at s' = uv_verified_at s" "uv_started s'"
    "uv_bound s' \<longleftrightarrow> uv_bound s \<or> rp \<noteq> None" "uv_bound s \<Longrightarrow> uv_rp_hash s' = uv_rp_hash s"
    "\<not> uv_bound s \<Longrightarrow> rp = Some h \<Longrightarrow> uv_rp_hash s' = h"
  using assms
  by (auto simp: fv_fido_verification_use_def fv_fido_verification_use_policy_def Let_def not_le split: if_splits option.splits)

lemma use_refused: "fv_fido_verification_use now rp s = (False, s') \<Longrightarrow> \<not> uv_valid s'"
  by (auto simp: fv_fido_verification_use_def fv_fido_verification_use_policy_def fv_fido_verification_clear_def Let_def
      split: if_splits option.splits)

lemma uses_window:
  "i < length us \<Longrightarrow> uses us s ! i \<Longrightarrow> us ! i = (now, rp) \<Longrightarrow>
   (\<forall>j \<le> i. uses us s ! j) \<and> now - uv_verified_at s < FV_FIDO_UV_COMPLETE_MS \<and>
   (i = 0 \<longrightarrow> uv_started s \<or> now - uv_verified_at s < FV_FIDO_UV_START_MS) \<and>
   (uv_bound s \<longrightarrow> rp = None \<or> rp = Some (uv_rp_hash s)) \<and>
   (\<forall>j < i. \<forall>a b. snd (us ! j) = Some a \<longrightarrow> rp = Some b \<longrightarrow> a = b)"
proof (induction us arbitrary: s i)
  case (Cons u us)
  obtain n r where u: "u = (n, r)" by (cases u)
  obtain ok s1 where use: "fv_fido_verification_use n r s = (ok, s1)" by (cases "fv_fido_verification_use n r s")
  show ?case
  proof (cases i)
    case 0
    then have "fv_fido_verification_use now rp s = (True, s1)" using Cons.prems u use by auto
    from use_granted [OF this] show ?thesis using 0 Cons.prems u use by auto
  next
    case (Suc k)
    then have k: "k < length us" "uses us s1 ! k" "us ! k = (now, rp)" using Cons.prems u use by auto
    have ok: ok
    proof (rule ccontr)
      assume "\<not> ok"
      then have "\<not> uv_valid s1" using use use_refused by simp
      then show False using k use_invalid [of s1 us] by simp
    qed
    then have g: "fv_fido_verification_use n r s = (True, s1)" using use by simp
    note G = use_granted [OF g] and ih = Cons.IH [OF k]
    have "\<forall>j \<le> i. uses (u # us) s ! j"
      using ih ok use u Suc by (auto simp: nth_Cons split: nat.splits)
    moreover have "a = b" if "j < i" "snd ((u # us) ! j) = Some a" "rp = Some b" for j a b
    proof (cases j)
      case 0
      then have r: "r = Some a" using that u by simp
      then have "uv_bound s1" using G(8) by simp
      then have "b = uv_rp_hash s1" using ih that(3) by auto
      also have "\<dots> = a" using G(4,9,10) r by (cases "uv_bound s") auto
      finally show ?thesis by simp
    next
      case (Suc l)
      then show ?thesis using ih that \<open>i = Suc k\<close> by auto
    qed
    moreover have "uv_bound s \<longrightarrow> rp = None \<or> rp = Some (uv_rp_hash s)" using ih G(8,9) by auto
    ultimately show ?thesis using ih G(6) Suc by auto
  qed
qed simp

text \<open>C27. Under the strict policy one verification is good for one site, for ten minutes, and only if it is
  used within thirty seconds: of any sequence of uses after it, the granted ones come first, the first of
  them within the start window, all of them within the completion window, and no two of them name different
  sites; the first refusal ends the verification.\<close>

theorem uv_one_site_one_window:
  assumes "i < length us" "uses us (fv_fido_verification_begin t0) ! i" "us ! i = (now, rp)"
  shows "(\<forall>j \<le> i. uses us (fv_fido_verification_begin t0) ! j) \<and> now - t0 < FV_FIDO_UV_COMPLETE_MS \<and>
    fst (us ! 0) - t0 < FV_FIDO_UV_START_MS \<and>
    (\<forall>j < i. \<forall>a b. snd (us ! j) = Some a \<longrightarrow> rp = Some b \<longrightarrow> a = b)"
proof -
  have b: "uv_verified_at (fv_fido_verification_begin t0) = t0" "\<not> uv_started (fv_fido_verification_begin t0)"
    by (simp_all add: fv_fido_verification_begin_def fv_fido_verification_clear_def)
  note w = uses_window [OF assms]
  obtain n0 r0 where u0: "us ! 0 = (n0, r0)" by (cases "us ! 0")
  have "0 < length us" using assms(1) by (cases us) auto
  moreover have "uses us (fv_fido_verification_begin t0) ! 0" using w by blast
  ultimately have "n0 - t0 < FV_FIDO_UV_START_MS" using uses_window [of 0 us "fv_fido_verification_begin t0"] u0 b by simp
  then show ?thesis using w b u0 by simp
qed

text \<open>A clock that wraps between the verification and its use, and a second site that is refused.\<close>

lemma uv_one_site_one_window_witness:
  "uses [(20, None), (1000, Some [1]), (2000, Some [2]), (3000, Some [1])] (fv_fido_verification_begin 0xfffffff0) =
     [True, True, False, False] \<and> 1000 - (0xfffffff0 :: u32) < FV_FIDO_UV_COMPLETE_MS"
proof
  show u: "uses [(20, None), (1000, Some [1]), (2000, Some [2]), (3000, Some [1])] (fv_fido_verification_begin 0xfffffff0) =
      [True, True, False, False]"
    by (simp add: fv_fido_verification_use_def fv_fido_verification_use_policy_def fv_fido_verification_begin_def
        fv_fido_verification_clear_def FV_FIDO_UV_COMPLETE_MS_def FV_FIDO_UV_START_MS_def)
  show "1000 - (0xfffffff0 :: u32) < FV_FIDO_UV_COMPLETE_MS"
    using uv_one_site_one_window [of 1 "[(20, None), (1000, Some [1]), (2000, Some [2]), (3000, Some [1])]" "0xfffffff0" 1000 "Some [1]"] u
    by simp
qed

end
