(* ===== verification/Ui_Entry.thy ===== *)
theory Ui_Entry
  imports Bytes
begin

text \<open>
  Entering a credential with the six buttons (\<^verbatim>\<open>src/src/shared/ui/credential_entry.c\<close>): four code
  wheels of two digits (profile 3) or four words of a list of 64, each chosen by three directions
  (profile 4). Both profiles encode the credential as four bytes.
\<close>

section \<open>Keys\<close>

datatype fv_ui_key = UI_UP | UI_DOWN | UI_LEFT | UI_RIGHT | UI_SELECT | UI_BACK

text \<open>The numbers of the enumeration; a direction is stored as its number.\<close>

fun key_code :: "fv_ui_key \<Rightarrow> u8" where
  "key_code UI_UP = 1"
| "key_code UI_DOWN = 2"
| "key_code UI_LEFT = 3"
| "key_code UI_RIGHT = 4"
| "key_code UI_SELECT = 5"
| "key_code UI_BACK = 6"

definition key_is_direction :: "fv_ui_key \<Rightarrow> bool" where
  "key_is_direction key \<longleftrightarrow> key \<noteq> UI_SELECT \<and> key \<noteq> UI_BACK"

section \<open>The entry\<close>

record fv_credential_entry =
  entry_profile :: u16
  entry_values :: "u8 list"
  entry_selected :: nat
  entry_count :: nat
  entry_depth :: nat
  entry_prefix :: u8

definition entry_zero :: fv_credential_entry where
  "entry_zero = \<lparr>entry_profile = 0, entry_values = zeros 4, entry_selected = 0, entry_count = 0, entry_depth = 0, entry_prefix = 0\<rparr>"

definition entry_word_list :: "string list" where
  "entry_word_list =
    [''amber'', ''apple'', ''atlas'', ''baker'', ''beach'', ''birch'', ''bloom'', ''brave'', ''cedar'', ''charm'',
     ''cloud'', ''coral'', ''delta'', ''dream'', ''eagle'', ''ember'', ''fable'', ''field'', ''flame'', ''flora'',
     ''frost'', ''giant'', ''globe'', ''grape'', ''haven'', ''hazel'', ''honey'', ''ivory'', ''jolly'', ''karma'',
     ''lemon'', ''light'', ''lunar'', ''maple'', ''metal'', ''mint'', ''noble'', ''north'', ''ocean'', ''olive'',
     ''orbit'', ''pearl'', ''piano'', ''pixel'', ''prism'', ''queen'', ''quiet'', ''raven'', ''river'', ''robin'',
     ''solar'', ''spark'', ''stone'', ''storm'', ''tiger'', ''trail'', ''union'', ''valley'', ''vivid'', ''water'',
     ''whale'', ''willow'', ''world'', ''zebra'']"

definition fv_entry_word :: "nat \<Rightarrow> string" where
  "fv_entry_word index = (if index < 64 then entry_word_list ! index else ''?'')"

lemma entry_word_list_distinct: "distinct entry_word_list"
  by code_simp

lemma entry_word_list_length: "length entry_word_list = 64"
  by code_simp

lemma shown_words_distinct: "inj_on fv_entry_word {..<64}"
  using entry_word_list_distinct entry_word_list_length
  by (auto simp: inj_on_def fv_entry_word_def nth_eq_iff_index_eq)

definition fv_entry_begin :: "u16 \<Rightarrow> fv_credential_entry" where
  "fv_entry_begin profile = entry_zero\<lparr>entry_profile := profile\<rparr>"

definition wheel_turn :: "fv_credential_entry \<Rightarrow> nat \<Rightarrow> fv_credential_entry" where
  "wheel_turn e n =
     e\<lparr>entry_values := (entry_values e)[entry_selected e := of_nat ((unat (entry_values e ! entry_selected e) + n) mod 100)]\<rparr>"

definition wheel_key :: "fv_ui_key \<Rightarrow> fv_credential_entry \<Rightarrow> int \<times> fv_credential_entry" where
  "wheel_key key e =
     (case key of
        UI_UP \<Rightarrow> (0, wheel_turn e 1)
      | UI_DOWN \<Rightarrow> (0, wheel_turn e 99)
      | UI_LEFT \<Rightarrow> (0, e\<lparr>entry_selected := (entry_selected e + 3) mod 4\<rparr>)
      | UI_RIGHT \<Rightarrow> (0, e\<lparr>entry_selected := (entry_selected e + 1) mod 4\<rparr>)
      | UI_SELECT \<Rightarrow> (1, e)
      | UI_BACK \<Rightarrow> (-1, e))"

definition word_choice :: "fv_ui_key \<Rightarrow> nat" where
  "word_choice key = (if key = UI_UP then 0 else if key = UI_RIGHT then 1 else if key = UI_DOWN then 2 else 3)"

definition word_back :: "fv_credential_entry \<Rightarrow> int \<times> fv_credential_entry" where
  "word_back e =
     (if entry_depth e \<noteq> 0 then (0, e\<lparr>entry_depth := entry_depth e - 1, entry_prefix := entry_prefix e div 4\<rparr>)
      else if entry_count e \<noteq> 0
      then (0, e\<lparr>entry_count := entry_count e - 1, entry_values := (entry_values e)[entry_count e - 1 := 0]\<rparr>)
      else (-1, e))"

definition word_direction :: "fv_ui_key \<Rightarrow> fv_credential_entry \<Rightarrow> fv_credential_entry" where
  "word_direction key e =
     (let choice = word_choice key; step = entry_prefix e * 4 + of_nat choice in
      if entry_count e = 4
      then e\<lparr>entry_count := choice, entry_values := memset (entry_values e) choice 0 (4 - choice)\<rparr>
      else if entry_depth e < 2 then e\<lparr>entry_prefix := step, entry_depth := entry_depth e + 1\<rparr>
      else e\<lparr>entry_values := (entry_values e)[entry_count e := step], entry_count := entry_count e + 1,
             entry_depth := 0, entry_prefix := 0\<rparr>)"

definition word_key :: "fv_ui_key \<Rightarrow> fv_credential_entry \<Rightarrow> int \<times> fv_credential_entry" where
  "word_key key e =
     (if key = UI_BACK then word_back e
      else if key = UI_SELECT then (if entry_count e = 4 then 1 else 0, e)
      else (0, word_direction key e))"

definition fv_entry_key :: "fv_ui_key \<Rightarrow> fv_credential_entry \<Rightarrow> int \<times> fv_credential_entry" where
  "fv_entry_key key e =
     (if entry_profile e = 3 then wheel_key key e else if entry_profile e = 4 then word_key key e else (0, e))"

section \<open>Well-formed entries\<close>

text \<open>What the worker accepts as a value of the profile.\<close>

definition value_limit :: "u16 \<Rightarrow> u8" where
  "value_limit profile = (if profile = 3 then 100 else 64)"

definition entry_wf :: "fv_credential_entry \<Rightarrow> bool" where
  "entry_wf e \<longleftrightarrow>
     length (entry_values e) = 4 \<and> list_all (\<lambda>v. v < value_limit (entry_profile e)) (entry_values e) \<and>
     entry_selected e < 4 \<and> entry_count e \<le> 4 \<and> entry_depth e \<le> 2 \<and>
     unat (entry_prefix e) < 4 ^ entry_depth e \<and> (entry_count e = 4 \<longrightarrow> entry_depth e = 0)"

lemma entry_wf_begin [simp]: "entry_wf (fv_entry_begin profile)"
  by (simp add: entry_wf_def fv_entry_begin_def entry_zero_def value_limit_def zeros_def list_all_iff)

lemma entry_wf_zero [simp]: "entry_wf entry_zero"
  by (simp add: entry_wf_def entry_zero_def value_limit_def zeros_def list_all_iff)

lemma wheel_value_less: "of_nat (n mod 100) < (100 :: u8)"
proof -
  have "n mod 100 < 100" by simp
  then show ?thesis by (simp add: word_less_nat_alt unat_of_nat)
qed

lemma list_all_update [simp]: "list_all P xs \<Longrightarrow> P x \<Longrightarrow> list_all P (xs[i := x])"
  using set_update_subset_insert by (fastforce simp: list_all_iff)

lemma list_all_memset [simp]: "list_all P xs \<Longrightarrow> P x \<Longrightarrow> list_all P (memset xs off x n)"
  using set_take_subset set_drop_subset by (fastforce simp: memset_def memcpy_def list_all_iff)

lemma entry_wf_wheel: "entry_wf e \<Longrightarrow> entry_profile e = 3 \<Longrightarrow> entry_wf (snd (wheel_key key e))"
  by (cases key) (auto simp: wheel_key_def entry_wf_def wheel_turn_def value_limit_def wheel_value_less wheel_value_less [of "Suc n" for n, simplified])

lemma word_step:
  assumes "unat (p :: u8) < 4 ^ d" "d \<le> 2" "c < 4"
  shows "unat (p * 4 + of_nat c) = unat p * 4 + c" "unat (p * 4 + of_nat c) < 4 ^ Suc d" "p * 4 + of_nat c < (64 :: u8)"
proof -
  have "unat p < 16" using assms(1,2) power_increasing [of d 2 "4 :: nat"] by simp
  then have "unat p * 4 + c < 64" using assms(3) by simp
  then show u: "unat (p * 4 + of_nat c) = unat p * 4 + c"
    by (simp add: unat_word_ariths unat_of_nat)
  show "unat (p * 4 + of_nat c) < 4 ^ Suc d" using u assms(1,3) by simp
  show "p * 4 + of_nat c < (64 :: u8)" using u \<open>unat p * 4 + c < 64\<close> by (simp add: word_less_nat_alt)
qed

lemma word_choice_less: "word_choice key < 4"
  by (simp add: word_choice_def)

lemma prefix_div: "unat (p :: u8) < 4 ^ Suc d \<Longrightarrow> unat (p div 4) < 4 ^ d"
  by (simp add: unat_div less_mult_imp_div_less mult.commute)

lemma entry_wf_word: 
  assumes "entry_wf e" "entry_profile e = 4"
  shows "entry_wf (snd (word_key key e))"
proof -
  note wf = assms [unfolded entry_wf_def]
  have d: "entry_wf (word_direction key e)"
    using wf word_step [of "entry_prefix e" "entry_depth e" "word_choice key"] word_choice_less [of key]
    by (auto simp: entry_wf_def word_direction_def Let_def value_limit_def)
  have b: "entry_wf (snd (word_back e))"
  proof (cases "entry_depth e")
    case 0
    then show ?thesis using wf by (auto simp: entry_wf_def word_back_def value_limit_def)
  next
    case (Suc k)
    then show ?thesis using wf prefix_div [of "entry_prefix e" k] by (auto simp: entry_wf_def word_back_def)
  qed
  show ?thesis using d b assms(1) by (simp add: word_key_def)
qed

lemma entry_profile_key [simp]: "entry_profile (snd (fv_entry_key key e)) = entry_profile e"
  by (cases key) (auto simp: fv_entry_key_def wheel_key_def wheel_turn_def word_key_def word_back_def word_direction_def Let_def)

lemma entry_wf_key: "entry_wf e \<Longrightarrow> entry_wf (snd (fv_entry_key key e))"
  using entry_wf_wheel [of e key] entry_wf_word [of e key] by (simp add: fv_entry_key_def)

section \<open>Typing words\<close>

definition entry_run :: "fv_ui_key list \<Rightarrow> fv_credential_entry \<Rightarrow> fv_credential_entry" where
  "entry_run keys = fold (\<lambda>k e. snd (fv_entry_key k e)) keys"

lemma entry_run_simps [simp]:
  "entry_run [] e = e" "entry_run (k # ks) e = entry_run ks (snd (fv_entry_key k e))"
  "entry_run (ks @ ks') e = entry_run ks' (entry_run ks e)"
  by (simp_all add: entry_run_def)

lemma entry_wf_run: "entry_wf e \<Longrightarrow> entry_wf (entry_run keys e)"
  by (induction keys arbitrary: e) (simp_all add: entry_wf_key)

lemma entry_profile_run [simp]: "entry_profile (entry_run keys e) = entry_profile e"
  by (induction keys arbitrary: e) simp_all

text \<open>The directions in the order the screen numbers them, and the three that choose a word.\<close>

definition arrow :: "nat \<Rightarrow> fv_ui_key" where
  "arrow c = [UI_UP, UI_RIGHT, UI_DOWN, UI_LEFT] ! c"

definition word_keys :: "nat \<Rightarrow> fv_ui_key list" where
  "word_keys w = [arrow (w div 16), arrow (w div 4 mod 4), arrow (w mod 4)]"

lemma word_choice_arrow: "c < 4 \<Longrightarrow> word_choice (arrow c) = c \<and> arrow c \<noteq> UI_SELECT \<and> arrow c \<noteq> UI_BACK"
  by (auto simp: arrow_def word_choice_def nth_Cons split: nat.splits) (presburger+)?

lemma word_typed:
  assumes "w < 64" "entry_profile e = 4" "entry_count e < 4" "entry_depth e = 0" "entry_prefix e = 0"
  shows "entry_run (word_keys w) e =
    e\<lparr>entry_values := (entry_values e)[entry_count e := of_nat w], entry_count := entry_count e + 1\<rparr>"
proof -
  have "w div 16 < 4" using assms(1) by simp
  note c = word_choice_arrow [OF this] word_choice_arrow [of "w div 4 mod 4"] word_choice_arrow [of "w mod 4"]
  have "w div 16 = w div 4 div 4" by (simp add: div_mult2_eq [symmetric])
  then have "(w div 16 * 4 + w div 4 mod 4) * 4 + w mod 4 = w" by (simp only: div_mult_mod_eq)
  then have "of_nat ((w div 16 * 4 + w div 4 mod 4) * 4 + w mod 4) = (of_nat w :: u8)" by (rule arg_cong)
  then have s: "(of_nat (w div 16) * 4 + of_nat (w div 4 mod 4)) * 4 + of_nat (w mod 4) = (of_nat w :: u8)"
    by (simp only: of_nat_add of_nat_mult of_nat_numeral)
  have c0: "word_choice (arrow (w div 16)) = w div 16" "word_choice (arrow (w div 4 mod 4)) = w div 4 mod 4"
    "word_choice (arrow (w mod 4)) = w mod 4" "\<forall>k \<in> {arrow (w div 16), arrow (w div 4 mod 4), arrow (w mod 4)}. k \<noteq> UI_SELECT \<and> k \<noteq> UI_BACK"
    using c by simp_all
  then show ?thesis using assms(2-5) s
    by (simp add: word_keys_def fv_entry_key_def word_key_def word_direction_def Let_def del: of_nat_add of_nat_mult)
qed

lemma words_typed:
  assumes "\<forall>w \<in> set ws. w < 64" "entry_profile e = 4" "entry_count e + length ws \<le> 4" "length (entry_values e) = 4"
    "entry_depth e = 0" "entry_prefix e = 0"
  shows "entry_run (concat (map word_keys ws)) e =
    e\<lparr>entry_values := memcpy (entry_values e) (entry_count e) (map of_nat ws), entry_count := entry_count e + length ws\<rparr>"
  using assms
proof (induction ws arbitrary: e)
  case (Cons w ws)
  then have "entry_run (word_keys w) e =
      e\<lparr>entry_values := (entry_values e)[entry_count e := of_nat w], entry_count := entry_count e + 1\<rparr>" (is "_ = ?e")
    by (intro word_typed) simp_all
  moreover have "entry_run (concat (map word_keys ws)) ?e =
      ?e\<lparr>entry_values := memcpy (entry_values ?e) (entry_count ?e) (map of_nat ws), entry_count := entry_count ?e + length ws\<rparr>"
    using Cons.prems by (intro Cons.IH) simp_all
  moreover have "memcpy (entry_values ?e) (entry_count ?e) (map of_nat ws) =
      memcpy (entry_values e) (entry_count e) (map of_nat (w # ws))"
    using Cons.prems(3,4) by (intro nth_equalityI) (auto simp: nth_memcpy nth_list_update nth_Cons' less_Suc_eq_le)
  ultimately show ?case by simp
qed simp

text \<open>What the buttons can produce is what the worker accepts, and every word can be typed. However the
  entry is edited, its four bytes stay below 100 (wheels) or 64 (words) and its counters in bounds. Typing
  the three directions of each of any four words stores exactly the four word numbers, in order, ready to be
  submitted; no two numbers show the same word, so what is read from the screen determines the credential.\<close>

theorem entry_words_round_trip:
  "entry_wf (entry_run keys (fv_entry_begin profile)) \<and> inj_on fv_entry_word {..<64} \<and>
   (length ws = 4 \<longrightarrow> (\<forall>w \<in> set ws. w < 64) \<longrightarrow>
    (let e = entry_run (concat (map word_keys ws)) (fv_entry_begin 4)
     in map unat (entry_values e) = ws \<and> fst (fv_entry_key UI_SELECT e) = 1))"
proof (intro conjI impI)
  show "entry_wf (entry_run keys (fv_entry_begin profile))" by (rule entry_wf_run) simp
  show "inj_on fv_entry_word {..<64}" by (rule shown_words_distinct)
  assume ws: "length ws = 4" "\<forall>w \<in> set ws. w < 64"
  let ?e = "fv_entry_begin 4"
  have "entry_run (concat (map word_keys ws)) ?e =
      ?e\<lparr>entry_values := memcpy (entry_values ?e) (entry_count ?e) (map of_nat ws), entry_count := entry_count ?e + length ws\<rparr>"
    using ws by (intro words_typed) (simp_all add: fv_entry_begin_def entry_zero_def)
  moreover have "map (unat \<circ> (of_nat :: nat \<Rightarrow> u8)) ws = ws"
    using ws(2) by (intro map_idI) (auto simp: unat_of_nat)
  ultimately show "let e = entry_run (concat (map word_keys ws)) ?e
      in map unat (entry_values e) = ws \<and> fst (fv_entry_key UI_SELECT e) = 1"
    using ws(1) by (simp add: Let_def fv_entry_key_def word_key_def fv_entry_begin_def entry_zero_def memcpy_def)
qed

lemma entry_words_round_trip_witness:
  "map unat (entry_values (entry_run (concat (map word_keys [0, 63, 27, 5])) (fv_entry_begin 4))) = [0, 63, 27, 5]"
  using entry_words_round_trip [of "[]" 4 "[0, 63, 27, 5]"] by (simp add: Let_def)

end
