(* ===== verification/Ui_State.thy ===== *)
theory Ui_State
  imports Ui_Entry Block_Device
begin

text \<open>
  The state of the user interface (\<^verbatim>\<open>src/src/shared/ui/device_ui.h\<close>) and the transitions between its scenes
  (\<^verbatim>\<open>device_ui.c\<close>, \<^verbatim>\<open>scene.c\<close>, \<^verbatim>\<open>widgets/menu.c\<close>, the enter functions under \<^verbatim>\<open>scenes\<close>). Every operation is a
  function of the state; the framebuffer is written from the state, read by none of them, and left out. An
  operation number of zero (a cleared job) is \<open>None\<close>; the character arrays are the text they hold.
\<close>

section \<open>State\<close>

definition FV_UI_SECRET_MAX :: nat where "FV_UI_SECRET_MAX = 64"
definition FV_UI_HISTORY_SAMPLES :: nat where "FV_UI_HISTORY_SAMPLES = 60"

datatype fv_ui_operation =
  UI_STATUS | UI_CREATE | UI_UNLOCK | UI_LOCK | UI_POLICY | UI_ERASE | UI_CHANGE | UI_FIDO_INIT | UI_FIDO_POLICY
  | UI_PASSKEY_LIST | UI_PASSKEY_DELETE

record fv_ui_job =
  job_op :: "fv_ui_operation option"
  job_mode :: fv_access_mode
  job_secret :: "u8 list"
  job_length :: nat
  job_count :: nat
  job_current :: "u8 list"
  job_current_length :: nat
  job_algorithms :: "u16 list"
  job_profile :: u16
  job_attempts :: u32
  job_action :: u32
  job_auto_lock_seconds :: u32
  job_screen_sleep_seconds :: u16
  job_fido_policy :: u8
  job_passkey_index :: u16
  job_passkey_id :: "u8 list"

record fv_ui_result =
  res_result :: int
  res_status :: int
  res_profile :: u16
  res_unlocked :: bool
  res_mode :: fv_access_mode
  res_blocks :: u64
  res_attempts :: u32
  res_action :: u32
  res_auto_lock_seconds :: u32
  res_screen_sleep_seconds :: u16
  res_fido_policy :: u8
  res_passkey_index :: u16
  res_passkey_count :: u16
  res_passkey_id :: "u8 list"
  res_passkey_site :: string
  res_passkey_account :: string

datatype fv_ui_screen =
  UI_WAIT | UI_HOME | UI_SECRET | UI_CONFIRM | UI_STACK | UI_OPTIONS | UI_REVIEW | UI_ERASE_CONFIRM | UI_ERROR
  | UI_METHOD | UI_SETTINGS | UI_FIDO_APPROVE | UI_FIDO_INIT_CONFIRM | UI_FIDO_POLICY_SCREEN | UI_PASSKEYS
  | UI_PASSKEY_DELETE_CONFIRM | UI_DASHBOARD | UI_DASHBOARD_SETTING

datatype fv_ui_flow = UI_FLOW_SETUP | UI_FLOW_UNLOCK | UI_FLOW_POLICY | UI_FLOW_CHANGE

record fv_ui =
  ui_screen :: fv_ui_screen
  ui_flow :: fv_ui_flow
  ui_device :: fv_ui_result
  ui_job :: fv_ui_job
  ui_entry :: fv_credential_entry
  ui_pending :: bool
  ui_flipped :: bool
  ui_fido_enabled :: bool
  ui_fido_modal :: bool
  ui_fido_done :: bool
  ui_fido_approved :: bool
  ui_fido_label :: string
  ui_fido_generation :: u32
  ui_cursor :: nat
  ui_passkey_page :: nat
  ui_confirmation :: "u8 list"
  ui_confirmation_length :: nat
  ui_error :: int
  ui_read_kib_tenths :: u32
  ui_write_kib_tenths :: u32
  ui_timer_remaining_seconds :: u32
  ui_read_active :: bool
  ui_write_active :: bool
  ui_read_history :: "u32 list"
  ui_write_history :: "u32 list"
  ui_history_next :: nat
  ui_history_count :: nat
  ui_dashboard_bars :: bool
  ui_busy_frame :: nat
  ui_format_done :: u32
  ui_format_total :: u32
  ui_format_milliseconds :: u32

definition job_zero :: fv_ui_job where
  "job_zero = \<lparr>job_op = None, job_mode = FV_ACCESS_LOCKED, job_secret = zeros 64, job_length = 0, job_count = 0,
     job_current = zeros 64, job_current_length = 0, job_algorithms = replicate 4 0, job_profile = 0, job_attempts = 0,
     job_action = 0, job_auto_lock_seconds = 0, job_screen_sleep_seconds = 0, job_fido_policy = 0, job_passkey_index = 0,
     job_passkey_id = zeros 42\<rparr>"

definition result_zero :: fv_ui_result where
  "result_zero = \<lparr>res_result = 0, res_status = 0, res_profile = 0, res_unlocked = False, res_mode = FV_ACCESS_LOCKED,
     res_blocks = 0, res_attempts = 0, res_action = 0, res_auto_lock_seconds = 0, res_screen_sleep_seconds = 0,
     res_fido_policy = 0, res_passkey_index = 0, res_passkey_count = 0, res_passkey_id = zeros 42, res_passkey_site = [],
     res_passkey_account = []\<rparr>"

definition ui_zero :: fv_ui where
  "ui_zero = \<lparr>ui_screen = UI_WAIT, ui_flow = UI_FLOW_SETUP, ui_device = result_zero, ui_job = job_zero, ui_entry = entry_zero,
     ui_pending = False, ui_flipped = False, ui_fido_enabled = False, ui_fido_modal = False, ui_fido_done = False,
     ui_fido_approved = False, ui_fido_label = [], ui_fido_generation = 0, ui_cursor = 0, ui_passkey_page = 0,
     ui_confirmation = zeros 64, ui_confirmation_length = 0, ui_error = 0, ui_read_kib_tenths = 0, ui_write_kib_tenths = 0,
     ui_timer_remaining_seconds = 0, ui_read_active = False, ui_write_active = False, ui_read_history = replicate 60 0,
     ui_write_history = replicate 60 0, ui_history_next = 0, ui_history_count = 0, ui_dashboard_bars = False,
     ui_busy_frame = 0, ui_format_done = 0, ui_format_total = 0, ui_format_milliseconds = 0\<rparr>"

text \<open>Updates of the job and the answer that lie inside the state.\<close>

abbreviation upd_job :: "(fv_ui_job \<Rightarrow> fv_ui_job) \<Rightarrow> fv_ui \<Rightarrow> fv_ui" where
  "upd_job f u \<equiv> u\<lparr>ui_job := f (ui_job u)\<rparr>"

section \<open>Clearing input\<close>

definition wipe_job_input :: "fv_ui_job \<Rightarrow> fv_ui_job" where
  "wipe_job_input j = j\<lparr>job_mode := FV_ACCESS_LOCKED, job_secret := zeros 64, job_current := zeros 64, job_length := 0,
     job_current_length := 0\<rparr>"

definition ui_clear_input :: "fv_ui \<Rightarrow> fv_ui" where
  "ui_clear_input u = (upd_job wipe_job_input u)
     \<lparr>ui_flow := UI_FLOW_SETUP, ui_confirmation := zeros 64, ui_entry := entry_zero, ui_confirmation_length := 0\<rparr>"

section \<open>Scenes\<close>

definition credential_enter :: "fv_ui \<Rightarrow> fv_ui" where
  "credential_enter u = u\<lparr>ui_fido_generation := ui_fido_generation u + 1, ui_entry := fv_entry_begin (job_profile (ui_job u))\<rparr>"

definition policy_enter :: "fv_ui \<Rightarrow> fv_ui" where
  "policy_enter u = upd_job (\<lambda>j. j\<lparr>job_fido_policy := res_fido_policy (ui_device u)\<rparr>) u"

definition passkeys_enter :: "fv_ui \<Rightarrow> fv_ui" where
  "passkeys_enter u = u\<lparr>ui_fido_generation := ui_fido_generation u + 1\<rparr>"

definition dashboard_setting_enter :: "fv_ui \<Rightarrow> fv_ui" where
  "dashboard_setting_enter u = u\<lparr>ui_cursor := (if ui_dashboard_bars u then 1 else 0)\<rparr>"

text \<open>The enter functions of the scene table.\<close>

definition scene_enter :: "fv_ui_screen \<Rightarrow> fv_ui \<Rightarrow> fv_ui" where
  "scene_enter screen =
     (case screen of
        UI_SECRET \<Rightarrow> credential_enter
      | UI_CONFIRM \<Rightarrow> credential_enter
      | UI_FIDO_POLICY_SCREEN \<Rightarrow> policy_enter
      | UI_PASSKEYS \<Rightarrow> passkeys_enter
      | UI_PASSKEY_DELETE_CONFIRM \<Rightarrow> passkeys_enter
      | UI_DASHBOARD_SETTING \<Rightarrow> dashboard_setting_enter
      | _ \<Rightarrow> id)"

definition ui_scene_show :: "fv_ui_screen \<Rightarrow> fv_ui \<Rightarrow> fv_ui" where
  "ui_scene_show screen u = scene_enter screen (u\<lparr>ui_screen := screen, ui_cursor := 0\<rparr>)"

definition ui_submit :: "fv_ui_operation \<Rightarrow> fv_ui \<Rightarrow> fv_ui" where
  "ui_submit operation u =
     ui_scene_show UI_WAIT
       ((upd_job (\<lambda>j. j\<lparr>job_op := Some operation\<rparr>) u)
         \<lparr>ui_format_done := 0, ui_format_total := 0, ui_format_milliseconds := 0, ui_busy_frame := 0, ui_pending := True\<rparr>)"

definition ui_go_home :: "fv_ui \<Rightarrow> fv_ui" where
  "ui_go_home u = ui_scene_show (if res_unlocked (ui_device u) then UI_DASHBOARD else UI_HOME) (ui_clear_input u)"

section \<open>Menus\<close>

definition ui_selection_move :: "nat \<Rightarrow> fv_ui_key \<Rightarrow> nat \<Rightarrow> nat" where
  "ui_selection_move cnt key cursor =
     (if cnt = 0 then cursor
      else
        (let cursor = (if cursor \<ge> cnt then 0 else cursor);
             cursor = (if key = UI_UP then (cursor + cnt - 1) mod cnt else cursor)
         in if key = UI_DOWN then (cursor + 1) mod cnt else cursor))"

definition selection_move :: "nat \<Rightarrow> fv_ui_key \<Rightarrow> fv_ui \<Rightarrow> fv_ui" where
  "selection_move cnt key u = u\<lparr>ui_cursor := ui_selection_move cnt key (ui_cursor u)\<rparr>"

text \<open>A menu is the list of what its items do.\<close>

definition ui_menu_key :: "(fv_ui \<Rightarrow> fv_ui) list \<Rightarrow> fv_ui_key \<Rightarrow> fv_ui \<Rightarrow> fv_ui" where
  "ui_menu_key items key u =
     (let u = selection_move (length items) key u
      in if key = UI_SELECT \<and> ui_cursor u < length items then (items ! ui_cursor u) u else u)"

definition ui_confirmation_key :: "fv_ui_key \<Rightarrow> (fv_ui \<Rightarrow> fv_ui) \<Rightarrow> (fv_ui \<Rightarrow> fv_ui) \<Rightarrow> fv_ui \<Rightarrow> fv_ui" where
  "ui_confirmation_key key confirm cancel u =
     (let u = selection_move 2 key u
      in if key = UI_BACK \<or> (key = UI_SELECT \<and> ui_cursor u = 0) then cancel u
         else if key = UI_SELECT then confirm u else u)"

lemma selection_move_bound: "0 < cnt \<Longrightarrow> ui_selection_move cnt key cursor < cnt"
  by (auto simp: ui_selection_move_def Let_def)

end
