(* ===== verification/Ui_Scenes.thy ===== *)
theory Ui_Scenes
  imports Ui_State
begin

text \<open>
  The key handlers of the scenes (\<^verbatim>\<open>src/src/shared/ui/scenes\<close>): what each button does on each screen. The
  handlers only change the state and request transitions; drawing is left out.
\<close>

section \<open>Home and dashboard\<close>

definition lock_vault :: "fv_ui \<Rightarrow> fv_ui" where "lock_vault = ui_submit UI_LOCK"
definition open_settings :: "fv_ui \<Rightarrow> fv_ui" where "open_settings = ui_scene_show UI_SETTINGS"

definition begin_vault_flow :: "fv_access_mode \<Rightarrow> fv_ui \<Rightarrow> fv_ui" where
  "begin_vault_flow mode u =
     (let d = ui_device u;
          u = u\<lparr>ui_job := job_zero\<lparr>job_count := 1, job_algorithms := [1, 0, 0, 0], job_attempts := 10, job_action := 1,
                  job_auto_lock_seconds := 300, job_profile := (if res_profile d \<noteq> 0 then res_profile d else 2)\<rparr>,
                ui_error := 0\<rparr>
      in if res_status d = 2
         then (let u = (upd_job (\<lambda>j. j\<lparr>job_mode := mode\<rparr>) u)\<lparr>ui_flow := UI_FLOW_UNLOCK\<rparr>
               in if job_profile (ui_job u) = 1 then ui_scene_show UI_ERROR (u\<lparr>ui_error := -6\<rparr>)
                  else ui_scene_show UI_SECRET u)
         else ui_scene_show UI_METHOD (u\<lparr>ui_flow := UI_FLOW_SETUP\<rparr>))"

definition home_key :: "fv_ui_key \<Rightarrow> fv_ui \<Rightarrow> fv_ui" where
  "home_key key u =
     (if key = UI_LEFT \<or> key = UI_RIGHT then u\<lparr>ui_flipped := \<not> ui_flipped u\<rparr>
      else if key = UI_BACK then (if res_unlocked (ui_device u) then ui_scene_show UI_DASHBOARD u else ui_go_home u)
      else if res_unlocked (ui_device u) then ui_menu_key [lock_vault, open_settings] key u
      else if res_status (ui_device u) = 2
      then (if key = UI_SELECT then begin_vault_flow FV_ACCESS_FULL u
            else if key = UI_UP \<and> ui_fido_enabled u then begin_vault_flow FV_ACCESS_PASSKEYS_ONLY u
            else if key = UI_DOWN then begin_vault_flow FV_ACCESS_FILES_READ_ONLY u
            else u)
      else if key = UI_SELECT \<and> (res_status (ui_device u) = 0 \<or> res_status (ui_device u) = 1 \<or> res_status (ui_device u) = 5)
      then begin_vault_flow FV_ACCESS_LOCKED u
      else u)"

definition dashboard_key :: "fv_ui_key \<Rightarrow> fv_ui \<Rightarrow> fv_ui" where
  "dashboard_key key u =
     (if key = UI_BACK then ui_submit UI_LOCK u
      else if key = UI_SELECT then ui_scene_show UI_SETTINGS u
      else if key = UI_LEFT \<or> key = UI_RIGHT then u\<lparr>ui_flipped := \<not> ui_flipped u\<rparr>
      else u)"

section \<open>Settings\<close>

datatype ui_setting =
  UI_SETTING_POLICY | UI_SETTING_ERASE | UI_SETTING_METHOD | UI_SETTING_FIDO_INIT | UI_SETTING_FIDO_POLICY
  | UI_SETTING_PASSKEYS | UI_SETTING_DASHBOARD

definition ui_settings :: "ui_setting list" where
  "ui_settings = [UI_SETTING_POLICY, UI_SETTING_ERASE, UI_SETTING_METHOD, UI_SETTING_FIDO_INIT, UI_SETTING_FIDO_POLICY,
     UI_SETTING_PASSKEYS, UI_SETTING_DASHBOARD]"

definition device_profile :: "fv_ui \<Rightarrow> u16" where
  "device_profile u = (if res_profile (ui_device u) \<noteq> 0 then res_profile (ui_device u) else 2)"

definition begin_policy :: "fv_ui \<Rightarrow> fv_ui" where
  "begin_policy u =
     (let u = ui_clear_input u; d = ui_device u;
          action = (if res_action d = 5 then 5 else 1);
          attempts = (if action = 5 then 0 else res_attempts d);
          attempts = (if action = 1 \<and> (attempts = 0 \<or> attempts > 100) then 10 else attempts)
      in ui_scene_show UI_SECRET
           ((upd_job (\<lambda>j. j\<lparr>job_action := action, job_attempts := attempts,
               job_auto_lock_seconds := res_auto_lock_seconds d, job_screen_sleep_seconds := res_screen_sleep_seconds d,
               job_profile := device_profile u\<rparr>) u)\<lparr>ui_flow := UI_FLOW_POLICY\<rparr>))"

definition begin_change :: "fv_ui \<Rightarrow> fv_ui" where
  "begin_change u =
     (let u = ui_clear_input u; d = ui_device u
      in ui_scene_show UI_SECRET
           ((upd_job (\<lambda>j. j\<lparr>job_profile := device_profile u, job_attempts := res_attempts d, job_action := res_action d,
               job_auto_lock_seconds := res_auto_lock_seconds d, job_screen_sleep_seconds := res_screen_sleep_seconds d\<rparr>) u)
             \<lparr>ui_flow := UI_FLOW_CHANGE\<rparr>))"

definition begin_passkeys :: "fv_ui \<Rightarrow> fv_ui" where
  "begin_passkeys u = ui_submit UI_PASSKEY_LIST (upd_job (\<lambda>j. j\<lparr>job_passkey_index := 0\<rparr>) u)"

definition settings_item :: "ui_setting \<Rightarrow> fv_ui \<Rightarrow> fv_ui" where
  "settings_item item =
     (case item of
        UI_SETTING_POLICY \<Rightarrow> begin_policy
      | UI_SETTING_ERASE \<Rightarrow> ui_scene_show UI_ERASE_CONFIRM
      | UI_SETTING_METHOD \<Rightarrow> begin_change
      | UI_SETTING_FIDO_INIT \<Rightarrow> ui_scene_show UI_FIDO_INIT_CONFIRM
      | UI_SETTING_FIDO_POLICY \<Rightarrow> ui_scene_show UI_FIDO_POLICY_SCREEN
      | UI_SETTING_PASSKEYS \<Rightarrow> begin_passkeys
      | UI_SETTING_DASHBOARD \<Rightarrow> ui_scene_show UI_DASHBOARD_SETTING)"

definition setting_allowed :: "fv_ui \<Rightarrow> ui_setting \<Rightarrow> bool" where
  "setting_allowed u item =
     (if \<not> res_unlocked (ui_device u) \<or> \<not> fv_access_valid (res_mode (ui_device u)) then False
      else if item = UI_SETTING_DASHBOARD then True
      else if item \<in> {UI_SETTING_FIDO_INIT, UI_SETTING_FIDO_POLICY, UI_SETTING_PASSKEYS}
      then ui_fido_enabled u \<and> fv_access_fido (res_mode (ui_device u))
      else fv_access_admin (res_mode (ui_device u)))"

definition settings_menu :: "fv_ui \<Rightarrow> ui_setting list" where
  "settings_menu u = filter (setting_allowed u) ui_settings"

definition ui_settings_return :: "ui_setting \<Rightarrow> fv_ui \<Rightarrow> fv_ui" where
  "ui_settings_return item u =
     (let u = ui_scene_show UI_SETTINGS (ui_clear_input u); ids = settings_menu u
      in foldl (\<lambda>u index. if ids ! index = item then u\<lparr>ui_cursor := index\<rparr> else u) u [0..<length ids])"

definition settings_key :: "fv_ui_key \<Rightarrow> fv_ui \<Rightarrow> fv_ui" where
  "settings_key key u =
     (if key = UI_BACK then ui_go_home u
      else
        (let menu = settings_menu u;
             u = (if ui_cursor u \<ge> length menu then u\<lparr>ui_cursor := 0\<rparr> else u)
         in ui_menu_key (map settings_item menu) key u))"

definition dashboard_setting_key :: "fv_ui_key \<Rightarrow> fv_ui \<Rightarrow> fv_ui" where
  "dashboard_setting_key key u =
     (if key = UI_UP \<or> key = UI_DOWN then u\<lparr>ui_cursor := (if ui_cursor u = 0 then 1 else 0)\<rparr>
      else if key = UI_SELECT \<or> key = UI_BACK
      then ui_settings_return UI_SETTING_DASHBOARD
             (if key = UI_SELECT then u\<lparr>ui_dashboard_bars := (ui_cursor u \<noteq> 0)\<rparr> else u)
      else u)"

definition erase_key :: "fv_ui_key \<Rightarrow> fv_ui \<Rightarrow> fv_ui" where
  "erase_key key = ui_confirmation_key key (ui_submit UI_ERASE) (ui_settings_return UI_SETTING_ERASE)"

definition error_key :: "fv_ui_key \<Rightarrow> fv_ui \<Rightarrow> fv_ui" where
  "error_key key u = (if key = UI_SELECT \<or> key = UI_BACK then ui_submit UI_STATUS u else u)"

section \<open>FIDO\<close>

definition initialize_key :: "fv_ui_key \<Rightarrow> fv_ui \<Rightarrow> fv_ui" where
  "initialize_key key = ui_confirmation_key key (ui_submit UI_FIDO_INIT) (ui_settings_return UI_SETTING_FIDO_INIT)"

definition policy_key :: "fv_ui_key \<Rightarrow> fv_ui \<Rightarrow> fv_ui" where
  "policy_key key u =
     (if key = UI_BACK then ui_settings_return UI_SETTING_FIDO_POLICY u
      else if key = UI_SELECT then ui_submit UI_FIDO_POLICY u
      else upd_job (\<lambda>j. j\<lparr>job_fido_policy := job_fido_policy j XOR 1\<rparr>) u)"

definition approve_key :: "fv_ui_key \<Rightarrow> fv_ui \<Rightarrow> fv_ui" where
  "approve_key key u =
     (if key = UI_SELECT \<or> key = UI_BACK then u\<lparr>ui_fido_done := True, ui_fido_approved := (key = UI_SELECT)\<rparr> else u)"

section \<open>Passkeys\<close>

definition ui_passkey_pages :: "fv_ui \<Rightarrow> nat" where
  "ui_passkey_pages u =
     (let n = max (length (res_passkey_site (ui_device u))) (length (res_passkey_account (ui_device u)))
      in if n \<noteq> 0 then (n + 49) div 50 else 1)"

definition page_key :: "fv_ui_key \<Rightarrow> fv_ui \<Rightarrow> fv_ui" where
  "page_key key u =
     (let u = (if key = UI_LEFT \<and> ui_passkey_page u \<noteq> 0 then u\<lparr>ui_passkey_page := ui_passkey_page u - 1\<rparr> else u)
      in if key = UI_RIGHT \<and> ui_passkey_page u + 1 < ui_passkey_pages u
         then u\<lparr>ui_passkey_page := ui_passkey_page u + 1\<rparr> else u)"

definition passkeys_key :: "fv_ui_key \<Rightarrow> fv_ui \<Rightarrow> fv_ui" where
  "passkeys_key key u =
     (if key = UI_BACK then ui_settings_return UI_SETTING_PASSKEYS u
      else if res_passkey_count (ui_device u) \<noteq> 0
      then (if key = UI_UP \<or> key = UI_DOWN
            then (let cnt = unat (res_passkey_count (ui_device u));
                      i = (unat (res_passkey_index (ui_device u)) + (if key = UI_UP then cnt - 1 else 1)) mod cnt
                  in ui_submit UI_PASSKEY_LIST (upd_job (\<lambda>j. j\<lparr>job_passkey_index := of_nat i\<rparr>) u))
            else if key = UI_SELECT then ui_scene_show UI_PASSKEY_DELETE_CONFIRM u
            else page_key key u)
      else u)"

definition delete_key :: "fv_ui_key \<Rightarrow> fv_ui \<Rightarrow> fv_ui" where
  "delete_key key u =
     ui_confirmation_key key (ui_submit UI_PASSKEY_DELETE) (ui_scene_show UI_PASSKEYS) (page_key key u)"

section \<open>Setting up\<close>

definition stack_key :: "fv_ui_key \<Rightarrow> fv_ui \<Rightarrow> fv_ui" where
  "stack_key key u =
     (if key = UI_BACK then ui_go_home u
      else
        (let u = selection_move (job_count (ui_job u) + 3) key u; j = ui_job u; c = ui_cursor u in
         if (key = UI_LEFT \<or> key = UI_RIGHT \<or> key = UI_SELECT) \<and> c < job_count j
         then upd_job (\<lambda>j. j\<lparr>job_algorithms := (job_algorithms j)[c := job_algorithms j ! c mod 5 + 1]\<rparr>) u
         else if key = UI_SELECT
         then (if c = job_count j
               then (if job_count j < 4
                     then upd_job (\<lambda>j. j\<lparr>job_algorithms := (job_algorithms j)[job_count j := 1], job_count := job_count j + 1\<rparr>) u
                     else u)
               else if c = job_count j + 1
               then (if job_count j > 1
                     then (upd_job (\<lambda>j. j\<lparr>job_algorithms := (job_algorithms j)[job_count j - 1 := 0],
                             job_count := job_count j - 1\<rparr>) u)\<lparr>ui_cursor := job_count j\<rparr>
                     else u)
               else ui_scene_show UI_OPTIONS u)
         else u))"

definition auto_lock_durations :: "u32 list" where
  "auto_lock_durations = [0, 60, 120, 300, 600, 900, 1800]"

definition sleep_durations :: "u16 list" where
  "sleep_durations = [0, 30, 60, 120, 300, 600, 0xffff]"

text \<open>The next or previous duration; an unknown one counts as the first.\<close>

definition duration_step :: "'a list \<Rightarrow> fv_ui_key \<Rightarrow> 'a \<Rightarrow> 'a" where
  "duration_step durations key current =
     (let choice = foldl (\<lambda>choice i. if durations ! i = current then i else choice) 0 [0..<length durations];
          choice = (if key = UI_RIGHT then (choice + 1) mod 7 else (choice + 6) mod 7)
      in durations ! choice)"

definition options_change :: "fv_ui_key \<Rightarrow> nat \<Rightarrow> fv_ui_job \<Rightarrow> fv_ui_job" where
  "options_change key cursor j =
     (if cursor = 0
      then (let action = (if job_action j = 5 then 1 else 5)
            in j\<lparr>job_action := action, job_attempts := (if action = 5 then 0 else 10)\<rparr>)
      else if cursor = 1 \<and> job_action j = 1
      then (let j = (if key = UI_RIGHT \<and> job_attempts j < 100 then j\<lparr>job_attempts := job_attempts j + 1\<rparr> else j)
            in if key = UI_LEFT \<and> job_attempts j > 1 then j\<lparr>job_attempts := job_attempts j - 1\<rparr> else j)
      else if cursor = 2
      then j\<lparr>job_auto_lock_seconds := duration_step auto_lock_durations key (job_auto_lock_seconds j)\<rparr>
      else if cursor = 3
      then j\<lparr>job_screen_sleep_seconds := duration_step sleep_durations key (job_screen_sleep_seconds j)\<rparr>
      else j)"

definition options_key :: "fv_ui_key \<Rightarrow> fv_ui \<Rightarrow> fv_ui" where
  "options_key key u =
     (if key = UI_BACK then ui_go_home u
      else
        (let u = selection_move 5 key u;
             u = (if key = UI_LEFT \<or> key = UI_RIGHT then upd_job (options_change key (ui_cursor u)) u else u)
         in if key = UI_SELECT
            then (if ui_cursor u < 4 then u\<lparr>ui_cursor := ui_cursor u + 1\<rparr> else ui_scene_show UI_REVIEW u)
            else u))"

definition save_review :: "fv_ui \<Rightarrow> fv_ui" where
  "save_review u =
     ui_submit (if ui_flow u = UI_FLOW_CHANGE then UI_CHANGE else if ui_flow u = UI_FLOW_POLICY then UI_POLICY else UI_CREATE) u"

definition review_key :: "fv_ui_key \<Rightarrow> fv_ui \<Rightarrow> fv_ui" where
  "review_key key = ui_confirmation_key key save_review ui_go_home"

section \<open>Credentials\<close>

definition choose_method :: "u16 \<Rightarrow> fv_ui \<Rightarrow> fv_ui" where
  "choose_method profile u = ui_scene_show UI_SECRET (upd_job (\<lambda>j. j\<lparr>job_profile := profile\<rparr>) u)"

definition method_key :: "fv_ui_key \<Rightarrow> fv_ui \<Rightarrow> fv_ui" where
  "method_key key u =
     (if key = UI_BACK then ui_go_home u
      else ui_menu_key [choose_method 2, choose_method 3, choose_method 4] key u)"

text \<open>The current credential of a change becomes the job's second secret.\<close>

definition keep_current :: "fv_ui \<Rightarrow> fv_ui" where
  "keep_current u =
     ui_scene_show UI_METHOD
       ((upd_job (\<lambda>j. j\<lparr>job_current := memcpy (job_current j) 0 (take (job_length j) (job_secret j)),
           job_current_length := job_length j, job_secret := zeros 64, job_length := 0\<rparr>) u)\<lparr>ui_entry := entry_zero\<rparr>)"

definition confirmation_matches :: "fv_ui \<Rightarrow> fv_ui" where
  "confirmation_matches u =
     ui_scene_show (if ui_flow u = UI_FLOW_CHANGE then UI_REVIEW else UI_STACK)
       (u\<lparr>ui_confirmation := zeros 64, ui_confirmation_length := 0, ui_entry := entry_zero\<rparr>)"

definition confirmation_differs :: "fv_ui \<Rightarrow> fv_ui" where
  "confirmation_differs u =
     ui_scene_show UI_SECRET
       ((upd_job (\<lambda>j. j\<lparr>job_secret := zeros 64, job_length := 0\<rparr>) u)
         \<lparr>ui_confirmation := zeros 64, ui_confirmation_length := 0, ui_error := 1\<rparr>)"

definition credential_submitted :: "u8 list \<Rightarrow> nat \<Rightarrow> fv_ui \<Rightarrow> fv_ui" where
  "credential_submitted input n u =
     (if ui_fido_modal u then u\<lparr>ui_fido_done := True, ui_fido_approved := True\<rparr>
      else if ui_flow u = UI_FLOW_CHANGE \<and> job_current_length (ui_job u) = 0 then keep_current u
      else if ui_flow u = UI_FLOW_POLICY then ui_scene_show UI_OPTIONS (u\<lparr>ui_entry := entry_zero\<rparr>)
      else if ui_flow u = UI_FLOW_UNLOCK then ui_submit UI_UNLOCK u
      else if ui_screen u = UI_SECRET
      then (if job_profile (ui_job u) \<noteq> 2 \<or> n \<ge> 8 then ui_scene_show UI_CONFIRM u else u\<lparr>ui_error := 2\<rparr>)
      else if job_length (ui_job u) = n \<and> take n (job_secret (ui_job u)) = take n input then confirmation_matches u
      else confirmation_differs u)"

text \<open>The buffer the keys go to: the secret, or its confirmation.\<close>

definition input_buffer :: "fv_ui \<Rightarrow> u8 list \<times> nat" where
  "input_buffer u =
     (if ui_screen u = UI_SECRET then (job_secret (ui_job u), job_length (ui_job u))
      else (ui_confirmation u, ui_confirmation_length u))"

definition set_input :: "u8 list \<Rightarrow> nat \<Rightarrow> fv_ui \<Rightarrow> fv_ui" where
  "set_input input n u =
     (if ui_screen u = UI_SECRET then upd_job (\<lambda>j. j\<lparr>job_secret := input, job_length := n\<rparr>) u
      else u\<lparr>ui_confirmation := input, ui_confirmation_length := n\<rparr>)"

definition entry_input :: "fv_ui_key \<Rightarrow> fv_ui \<Rightarrow> fv_ui" where
  "entry_input key u =
     (let u = (if key_is_direction key then u\<lparr>ui_error := 0\<rparr> else u) in
      case fv_entry_key key (ui_entry u) of (result, e) \<Rightarrow>
        let u = u\<lparr>ui_entry := e\<rparr> in
        if result < 0 then ui_go_home u
        else if result > 0
        then (let u = set_input (memcpy (fst (input_buffer u)) 0 (take 4 (entry_values e))) 4 (u\<lparr>ui_error := 0\<rparr>)
              in credential_submitted (fst (input_buffer u)) 4 u)
        else u)"

definition pattern_input :: "fv_ui_key \<Rightarrow> fv_ui \<Rightarrow> fv_ui" where
  "pattern_input key u =
     (case input_buffer u of (input, n) \<Rightarrow>
        if key_is_direction key
        then (let u = u\<lparr>ui_error := 0\<rparr>
              in if n < FV_UI_SECRET_MAX then set_input (input[n := key_code key]) (n + 1) u else u)
        else if key = UI_BACK
        then (if n \<noteq> 0 then set_input (input[n - 1 := 0]) (n - 1) u else ui_go_home u)
        else if n \<noteq> 0 then credential_submitted input n u
        else u)"

definition credential_key :: "fv_ui_key \<Rightarrow> fv_ui \<Rightarrow> fv_ui" where
  "credential_key key u =
     (if job_profile (ui_job u) = 3 \<or> job_profile (ui_job u) = 4 then entry_input key u else pattern_input key u)"

section \<open>The scene table\<close>

definition scene_key :: "fv_ui_screen \<Rightarrow> fv_ui_key \<Rightarrow> fv_ui \<Rightarrow> fv_ui" where
  "scene_key screen =
     (case screen of
        UI_WAIT \<Rightarrow> \<lambda>_. id
      | UI_HOME \<Rightarrow> home_key
      | UI_SECRET \<Rightarrow> credential_key
      | UI_CONFIRM \<Rightarrow> credential_key
      | UI_STACK \<Rightarrow> stack_key
      | UI_OPTIONS \<Rightarrow> options_key
      | UI_REVIEW \<Rightarrow> review_key
      | UI_ERASE_CONFIRM \<Rightarrow> erase_key
      | UI_ERROR \<Rightarrow> error_key
      | UI_METHOD \<Rightarrow> method_key
      | UI_SETTINGS \<Rightarrow> settings_key
      | UI_FIDO_APPROVE \<Rightarrow> approve_key
      | UI_FIDO_INIT_CONFIRM \<Rightarrow> initialize_key
      | UI_FIDO_POLICY_SCREEN \<Rightarrow> policy_key
      | UI_PASSKEYS \<Rightarrow> passkeys_key
      | UI_PASSKEY_DELETE_CONFIRM \<Rightarrow> delete_key
      | UI_DASHBOARD \<Rightarrow> dashboard_key
      | UI_DASHBOARD_SETTING \<Rightarrow> dashboard_setting_key)"

end
