(* ===== verification/Device_Ui.thy ===== *)
theory Device_Ui
  imports Ui_Scenes
begin

text \<open>
  The operations of the user interface (\<^verbatim>\<open>src/src/shared/ui/device_ui.c\<close>): keys, the answers of the worker, the
  modal prompt of a FIDO request, cancellation, and the figures of the dashboard.
\<close>

definition fv_ui_init :: fv_ui where
  "fv_ui_init = ui_submit UI_STATUS ui_zero"

definition fv_ui_cancel :: "fv_ui \<Rightarrow> fv_ui" where
  "fv_ui_cancel u =
     (let u = (ui_clear_input u)\<lparr>ui_cursor := 0\<rparr>
      in if ui_screen u \<noteq> UI_WAIT \<or> ui_pending u then ui_submit UI_STATUS u else u)"

text \<open>An answer without a valid scope counts as locked.\<close>

definition checked_result :: "fv_ui_result \<Rightarrow> fv_ui_result" where
  "checked_result r =
     (if \<not> res_unlocked r \<or> \<not> fv_access_valid (res_mode r) then r\<lparr>res_unlocked := False, res_mode := FV_ACCESS_LOCKED\<rparr> else r)"

definition clear_history :: "fv_ui \<Rightarrow> fv_ui" where
  "clear_history u = u\<lparr>ui_read_history := replicate 60 0, ui_write_history := replicate 60 0, ui_history_next := 0,
     ui_history_count := 0, ui_read_kib_tenths := 0, ui_write_kib_tenths := 0, ui_read_active := False, ui_write_active := False\<rparr>"

definition fv_ui_complete :: "fv_ui_result \<Rightarrow> fv_ui \<Rightarrow> fv_ui" where
  "fv_ui_complete r u =
     (let u = (ui_clear_input u)\<lparr>ui_pending := False\<rparr>;
          r = checked_result r;
          u = (if \<not> res_unlocked r \<or> \<not> res_unlocked (ui_device u) \<or> res_mode r \<noteq> res_mode (ui_device u)
               then clear_history u else u);
          u = u\<lparr>ui_device := r\<rparr>;
          u = (if \<not> res_unlocked r \<or> res_auto_lock_seconds r = 0 then u\<lparr>ui_timer_remaining_seconds := 0\<rparr> else u);
          u = u\<lparr>ui_error := res_result r\<rparr>
      in if res_result r \<noteq> 0 then ui_scene_show UI_ERROR u
         else if job_op (ui_job u) = Some UI_PASSKEY_LIST \<or> job_op (ui_job u) = Some UI_PASSKEY_DELETE
         then ui_scene_show UI_PASSKEYS
                ((upd_job (\<lambda>j. j\<lparr>job_passkey_index := res_passkey_index r, job_passkey_id := res_passkey_id r\<rparr>) u)
                  \<lparr>ui_passkey_page := 0\<rparr>)
         else ui_scene_show (if res_unlocked r then UI_DASHBOARD else UI_HOME) u)"

definition fv_ui_fido_begin :: "bool \<Rightarrow> u16 \<Rightarrow> string \<Rightarrow> fv_ui \<Rightarrow> fv_ui" where
  "fv_ui_fido_begin secret profile lbl u =
     (let u = ui_clear_input u; d = ui_device u;
          mode = (if res_unlocked d \<and> fv_access_valid (res_mode d) then res_mode d else FV_ACCESS_PASSKEYS_ONLY)
      in ui_scene_show (if secret then UI_SECRET else UI_FIDO_APPROVE)
           ((upd_job (\<lambda>j. j\<lparr>job_profile := profile, job_mode := mode\<rparr>) u)
             \<lparr>ui_fido_generation := ui_fido_generation u + 1, ui_pending := False, ui_fido_modal := True, ui_fido_done := False,
              ui_fido_approved := False, ui_error := 0, ui_fido_label := take 127 lbl\<rparr>))"

definition fv_ui_fido_end :: "fv_ui \<Rightarrow> fv_ui" where
  "fv_ui_fido_end u =
     (let u = ui_clear_input u
      in ui_submit UI_STATUS
           (u\<lparr>ui_fido_generation := ui_fido_generation u + 1, ui_fido_modal := False, ui_fido_done := False,
              ui_fido_approved := False, ui_fido_label := []\<rparr>))"

text \<open>On a flipped display the directions are rotated.\<close>

fun rotated :: "fv_ui_key \<Rightarrow> fv_ui_key" where
  "rotated UI_UP = UI_DOWN"
| "rotated UI_DOWN = UI_UP"
| "rotated UI_LEFT = UI_RIGHT"
| "rotated UI_RIGHT = UI_LEFT"
| "rotated UI_SELECT = UI_SELECT"
| "rotated UI_BACK = UI_BACK"

definition fv_ui_keypress :: "fv_ui_key \<Rightarrow> fv_ui \<Rightarrow> fv_ui" where
  "fv_ui_keypress key u =
     (if ui_screen u = UI_WAIT \<or> ui_fido_done u then u
      else if ui_fido_modal u \<and> key = UI_BACK then u\<lparr>ui_fido_done := True, ui_fido_approved := False\<rparr>
      else scene_key (ui_screen u) (if ui_flipped u then rotated key else key) u)"

section \<open>The dashboard\<close>

definition transfer_rate :: "u32 \<Rightarrow> u64 \<Rightarrow> u32" where
  "transfer_rate bytes elapsed_us =
     (let rate = ucast bytes * 10000000 div elapsed_us div 1024 :: u64
      in if rate > 0xffffffff then 0xffffffff else ucast rate)"

definition fv_ui_activity :: "u32 \<Rightarrow> u32 \<Rightarrow> u64 \<Rightarrow> fv_ui \<Rightarrow> fv_ui" where
  "fv_ui_activity reads writes elapsed_us u =
     (if \<not> res_unlocked (ui_device u) \<or> elapsed_us = 0 then u
      else
        (let r = transfer_rate reads elapsed_us; w = transfer_rate writes elapsed_us; i = ui_history_next u
         in u\<lparr>ui_read_kib_tenths := r, ui_write_kib_tenths := w, ui_read_active := (reads \<noteq> 0), ui_write_active := (writes \<noteq> 0),
              ui_read_history := (ui_read_history u)[i := r], ui_write_history := (ui_write_history u)[i := w],
              ui_history_next := (i + 1) mod FV_UI_HISTORY_SAMPLES,
              ui_history_count := (if ui_history_count u < FV_UI_HISTORY_SAMPLES then ui_history_count u + 1
                                   else ui_history_count u)\<rparr>))"

definition fv_ui_animate :: "u32 \<Rightarrow> fv_ui \<Rightarrow> fv_ui" where
  "fv_ui_animate milliseconds u =
     (let frame = unat (milliseconds div 100) mod 12
      in if ui_screen u \<noteq> UI_WAIT \<or> frame = ui_busy_frame u then u else u\<lparr>ui_busy_frame := frame\<rparr>)"

definition fv_ui_countdown :: "u32 \<Rightarrow> fv_ui \<Rightarrow> fv_ui" where
  "fv_ui_countdown remaining_seconds u =
     (let r = (if \<not> res_unlocked (ui_device u) \<or> res_auto_lock_seconds (ui_device u) = 0 then 0 else remaining_seconds);
          r = min r (res_auto_lock_seconds (ui_device u))
      in if r = ui_timer_remaining_seconds u then u else u\<lparr>ui_timer_remaining_seconds := r\<rparr>)"

end
