(* ===== verification/Ui_Button.thy ===== *)
theory Ui_Button
  imports Ui_Entry
begin

text \<open>
  The six buttons (\<^verbatim>\<open>src/src/shared/ui/button_input.c\<close> and \<^verbatim>\<open>src/src/pico/platform/buttons.c\<close>): debouncing
  of the sampled levels, suppression of chords, and the release a new prompt requires before any button
  counts. The word read from the pins is an input; the diagnostic counters of the debug build are not
  modelled.
\<close>

definition FV_BUTTON_DEBOUNCE_US :: u64 where "FV_BUTTON_DEBOUNCE_US = 25000"
definition FV_BUTTON_MASK :: u32 where "FV_BUTTON_MASK = 0x3f"

record fv_button_input =
  b_previous :: u32
  b_candidate :: u32
  b_changed_us :: u64
  b_armed :: bool

definition fv_button_input_init :: fv_button_input where
  "fv_button_input_init = \<lparr>b_previous = 0, b_candidate = 0, b_changed_us = 0, b_armed = True\<rparr>"

definition fv_button_input_require_release :: "u64 \<Rightarrow> fv_button_input \<Rightarrow> fv_button_input" where
  "fv_button_input_require_release now_us b = b\<lparr>b_armed := False, b_changed_us := now_us\<rparr>"

text \<open>The three statements of a sample: arming after a release, following the level, reporting a press.\<close>

definition button_arm :: "u32 \<Rightarrow> u64 \<Rightarrow> fv_button_input \<Rightarrow> fv_button_input" where
  "button_arm pressed now_us b =
     (if pressed = 0 \<and> b_candidate b = pressed \<and> now_us - b_changed_us b \<ge> FV_BUTTON_DEBOUNCE_US
      then b\<lparr>b_armed := True\<rparr> else b)"

definition button_follow :: "u32 \<Rightarrow> u64 \<Rightarrow> fv_button_input \<Rightarrow> fv_button_input" where
  "button_follow pressed now_us b =
     (if pressed \<noteq> b_candidate b then b\<lparr>b_candidate := pressed, b_changed_us := now_us\<rparr> else b)"

definition button_report :: "u32 \<Rightarrow> u64 \<Rightarrow> fv_button_input \<Rightarrow> u32 \<times> fv_button_input" where
  "button_report pressed now_us b =
     (if pressed = b_previous b \<or> now_us - b_changed_us b < FV_BUTTON_DEBOUNCE_US then (0, b)
      else
        (let newly_pressed = pressed AND NOT (b_previous b) in
         (if b_armed b \<and> newly_pressed \<noteq> 0 \<and> newly_pressed AND (newly_pressed - 1) = 0 then newly_pressed else 0,
          b\<lparr>b_previous := pressed\<rparr>)))"

definition fv_button_input_sample :: "u32 \<Rightarrow> u64 \<Rightarrow> fv_button_input \<Rightarrow> u32 \<times> fv_button_input" where
  "fv_button_input_sample raw now_us b =
     (let pressed = raw AND FV_BUTTON_MASK
      in button_report pressed now_us (button_follow pressed now_us (button_arm pressed now_us b)))"

section \<open>The pins\<close>

definition button_pins :: "nat list" where "button_pins = [10, 11, 12, 13, 14, 15]"
definition button_keys :: "fv_ui_key list" where
  "button_keys = [UI_UP, UI_LEFT, UI_DOWN, UI_RIGHT, UI_SELECT, UI_BACK]"

record pico_buttons =
  pb_input :: fv_button_input
  pb_prompt_generation :: u32

definition fv_pico_buttons_init :: pico_buttons where
  "fv_pico_buttons_init = \<lparr>pb_input = fv_button_input_init, pb_prompt_generation = 0\<rparr>"

definition pins_sample :: "u32 \<Rightarrow> u32" where
  "pins_sample gpio =
     foldl (\<lambda>sample i. if gpio AND push_bit (button_pins ! i) 1 = 0 then sample OR push_bit i 1 else sample) 0 [0..<6]"

definition pressed_key :: "u32 \<Rightarrow> fv_ui_key option" where
  "pressed_key pressed = map_option (\<lambda>i. button_keys ! i) (List.find (\<lambda>i. pressed AND push_bit i 1 \<noteq> 0) [0..<6])"

definition fv_pico_buttons_poll :: "u32 \<Rightarrow> u32 \<Rightarrow> u64 \<Rightarrow> pico_buttons \<Rightarrow> fv_ui_key option \<times> pico_buttons" where
  "fv_pico_buttons_poll generation gpio now s =
     (let input = (if pb_prompt_generation s \<noteq> generation then fv_button_input_require_release now (pb_input s) else pb_input s)
      in case fv_button_input_sample (pins_sample gpio) now input of
           (pressed, input) \<Rightarrow> (pressed_key pressed, \<lparr>pb_input = input, pb_prompt_generation = generation\<rparr>))"

section \<open>Runs of samples\<close>

type_synonym button_sample = "u32 \<times> u64"

abbreviation level :: "button_sample \<Rightarrow> u32" where "level x \<equiv> fst x AND FV_BUTTON_MASK"

definition button_state :: "button_sample list \<Rightarrow> fv_button_input \<Rightarrow> fv_button_input" where
  "button_state xs b = fold (\<lambda>(p, t) b. snd (fv_button_input_sample p t b)) xs b"

text \<open>What sample \<open>i\<close> of a run reports.\<close>

definition button_reported :: "button_sample list \<Rightarrow> fv_button_input \<Rightarrow> nat \<Rightarrow> u32" where
  "button_reported xs b i = (case xs ! i of (p, t) \<Rightarrow> fst (fv_button_input_sample p t (button_state (take i xs) b)))"

lemma button_state_Suc:
  "i < length xs \<Longrightarrow>
   button_state (take (Suc i) xs) b = snd (fv_button_input_sample (fst (xs ! i)) (snd (xs ! i)) (button_state (take i xs) b))"
  by (simp add: button_state_def take_Suc_conv_app_nth split_beta)

lemmas sample_defs = fv_button_input_sample_def button_arm_def button_follow_def button_report_def Let_def

text \<open>Samples \<open>m\<close> to \<open>i\<close> all show one level, and span the debounce time.\<close>

definition steady :: "button_sample list \<Rightarrow> nat \<Rightarrow> nat \<Rightarrow> bool" where
  "steady xs m i \<longleftrightarrow> m \<le> i \<and> (\<forall>x \<in> {m..i}. level (xs ! x) = level (xs ! i))"

lemma candidate_since:
  assumes "n \<le> length xs"
  shows "(\<forall>x < n. level (xs ! x) = b_candidate b) \<and>
      b_candidate (button_state (take n xs) b) = b_candidate b \<and> b_changed_us (button_state (take n xs) b) = b_changed_us b \<or>
    (\<exists>m < n. b_changed_us (button_state (take n xs) b) = snd (xs ! m) \<and>
      (\<forall>x. m \<le> x \<longrightarrow> x < n \<longrightarrow> level (xs ! x) = b_candidate (button_state (take n xs) b)))"
  using assms
proof (induction n)
  case 0
  then show ?case by (simp add: button_state_def)
next
  case (Suc n)
  let ?s = "button_state (take n xs) b" and ?t = "button_state (take (Suc n) xs) b"
  have t: "?t = snd (fv_button_input_sample (fst (xs ! n)) (snd (xs ! n)) ?s)" using Suc.prems by (simp add: button_state_Suc)
  show ?case
  proof (cases "level (xs ! n) = b_candidate ?s")
    case True
    then have "b_candidate ?t = b_candidate ?s" "b_changed_us ?t = b_changed_us ?s"
      unfolding t by (simp_all add: sample_defs)
    then show ?thesis using Suc True by (simp add: less_Suc_eq) blast
  next
    case False
    then have "b_candidate ?t = level (xs ! n)" "b_changed_us ?t = snd (xs ! n)"
      unfolding t by (simp_all add: sample_defs)
    then show ?thesis by (metis le_less_Suc_eq lessI)
  qed
qed

text \<open>The release before a prompt: zero samples spanning the debounce time, counted from the prompt on.\<close>

definition released :: "button_sample list \<Rightarrow> u64 \<Rightarrow> nat \<Rightarrow> bool" where
  "released xs t0 n \<longleftrightarrow> (\<exists>k < n. level (xs ! k) = 0 \<and>
     ((\<forall>x \<le> k. level (xs ! x) = 0) \<and> snd (xs ! k) - t0 \<ge> FV_BUTTON_DEBOUNCE_US \<or>
      (\<exists>j \<le> k. steady xs j k \<and> snd (xs ! k) - snd (xs ! j) \<ge> FV_BUTTON_DEBOUNCE_US)))"

lemma released_Suc: "released xs t0 n \<Longrightarrow> released xs t0 (Suc n)"
  by (auto simp: released_def less_Suc_eq)

lemma arm_released:
  assumes "n < length xs" "\<not> b_armed (button_state (take n xs) b)" "b_changed_us b = t0"
    "b_armed (snd (fv_button_input_sample (fst (xs ! n)) (snd (xs ! n)) (button_state (take n xs) b)))"
  shows "released xs t0 (Suc n)"
proof -
  let ?s = "button_state (take n xs) b"
  have z: "level (xs ! n) = 0" "b_candidate ?s = 0" "snd (xs ! n) - b_changed_us ?s \<ge> FV_BUTTON_DEBOUNCE_US"
    using assms(2,4) by (auto simp: sample_defs split: if_splits)
  from candidate_since [of n xs b] assms(1) consider
    "\<forall>x < n. level (xs ! x) = 0" "b_changed_us ?s = t0" |
    m where "m < n" "b_changed_us ?s = snd (xs ! m)" "\<forall>x. m \<le> x \<longrightarrow> x < n \<longrightarrow> level (xs ! x) = 0"
    using z(2) assms(3) by fastforce
  then show ?thesis
  proof cases
    case 1
    then have "\<forall>x \<le> n. level (xs ! x) = 0" using z(1) by (metis le_neq_implies_less)
    then show ?thesis using z 1 by (auto simp: released_def)
  next
    case 2
    then have "steady xs m n" using z(1) by (auto simp: steady_def le_less)
    then show ?thesis using z 2 unfolding released_def by (metis lessI less_imp_le)
  qed
qed

lemma armed_released:
  assumes "n \<le> length xs" "\<not> b_armed b" "b_changed_us b = t0" "b_armed (button_state (take n xs) b)"
  shows "released xs t0 n"
  using assms
proof (induction n)
  case 0
  then show ?case by (simp add: button_state_def)
next
  case (Suc n)
  show ?case
  proof (cases "b_armed (button_state (take n xs) b)")
    case True
    then show ?thesis using Suc released_Suc by simp
  next
    case False
    then show ?thesis using Suc arm_released [of n xs b t0] by (simp add: button_state_Suc)
  qed
qed

lemma one_bit:
  assumes "(x :: u32) \<noteq> 0" "x AND (x - 1) = 0" "x AND FV_BUTTON_MASK = x"
  shows "\<exists>i < 6. x = push_bit i 1"
proof -
  have x: "(of_nat (unat x) :: u32) = x" by simp
  have "x \<le> FV_BUTTON_MASK" using assms(3) word_and_le1 [of x FV_BUTTON_MASK] by simp
  then have "unat x < 64" by (simp add: FV_BUTTON_MASK_def word_le_nat_alt)
  moreover have "\<forall>n \<in> set [1..<64]. (of_nat n :: u32) AND (of_nat n - 1) = 0 \<longrightarrow> n \<in> {1, 2, 4, 8, 16, 32}"
    by (simp add: upt_rec)
  moreover have "unat x \<noteq> 0" using assms(1) by (simp add: unat_eq_zero)
  ultimately have "unat x \<in> set [1..<64]" "\<forall>n \<in> set [1..<64]. (of_nat n :: u32) AND (of_nat n - 1) = 0 \<longrightarrow> n \<in> {1, 2, 4, 8, 16, 32}"
    by simp_all
  from bspec [OF this(2,1)] have "unat x \<in> {1, 2, 4, 8, 16, 32}" using assms(2) by (simp only: x simp_thms)
  then have "of_nat (unat x) \<in> (of_nat :: nat \<Rightarrow> u32) ` {1, 2, 4, 8, 16, 32}" by (rule imageI)
  then have "x \<in> {1, 2, 4, 8, 16, 32}" unfolding x by simp
  then show ?thesis by (auto intro: exI [of _ 0] exI [of _ 1] exI [of _ 2] exI [of _ 3] exI [of _ 4] exI [of _ 5])
qed

lemma sample_reports:
  assumes "fst (fv_button_input_sample raw now s) \<noteq> 0" "r = fst (fv_button_input_sample raw now s)" "p = raw AND FV_BUTTON_MASK"
  shows "p = b_candidate s" "now - b_changed_us s \<ge> FV_BUTTON_DEBOUNCE_US" "b_armed s" "r = p AND NOT (b_previous s)"
    "r AND (r - 1) = 0"
proof -
  let ?a = "button_arm p now s" and ?f = "button_follow p now (button_arm p now s)"
  have r: "r = fst (button_report p now ?f)" "r \<noteq> 0" using assms by (simp_all add: fv_button_input_sample_def Let_def)
  have f: "p \<noteq> b_previous ?f" "\<not> now - b_changed_us ?f < FV_BUTTON_DEBOUNCE_US" "b_armed ?f"
    "r = p AND NOT (b_previous ?f)" "r AND (r - 1) = 0"
    using r by (simp_all add: button_report_def Let_def split: if_splits)
  have a: "b_candidate ?a = b_candidate s" "b_changed_us ?a = b_changed_us s" "b_previous ?a = b_previous s"
    by (simp_all add: button_arm_def)
  have "0 < FV_BUTTON_DEBOUNCE_US" by (simp add: FV_BUTTON_DEBOUNCE_US_def)
  then show c: "p = b_candidate s" using f(2) a by (auto simp: button_follow_def split: if_splits)
  then have "?f = ?a" using a by (simp add: button_follow_def)
  then show "now - b_changed_us s \<ge> FV_BUTTON_DEBOUNCE_US" "r = p AND NOT (b_previous s)" "r AND (r - 1) = 0"
    using f a by simp_all
  have "p \<noteq> 0" using f(4) r(2) by auto
  then show "b_armed s" using f(3) \<open>?f = ?a\<close> by (auto simp: button_arm_def split: if_splits)
qed

text \<open>A held button cannot answer a prompt. After a prompt demanded a release, a sample reports a press only
  if all buttons were seen released for at least 25 ms since the prompt, and then the present combination
  was held steadily for at least 25 ms; and what it reports is exactly one of the six buttons, never a
  chord. The statement holds for every sequence of samples and every state the prompt found.\<close>

theorem held_button_never_answers:
  assumes "i < length xs" "button_reported xs (fv_button_input_require_release t0 b) i \<noteq> 0"
  shows "released xs t0 i \<and> (\<exists>m \<le> i. steady xs m i \<and> snd (xs ! i) - snd (xs ! m) \<ge> FV_BUTTON_DEBOUNCE_US) \<and>
    (\<exists>k < 6. button_reported xs (fv_button_input_require_release t0 b) i = push_bit k 1 \<and> bit (level (xs ! i)) k)"
proof -
  let ?b = "fv_button_input_require_release t0 b"
  let ?s = "button_state (take i xs) ?b" and ?p = "level (xs ! i)" and ?r = "button_reported xs ?b i"
  have b: "\<not> b_armed ?b" "b_changed_us ?b = t0" by (simp_all add: fv_button_input_require_release_def)
  have r: "fst (fv_button_input_sample (fst (xs ! i)) (snd (xs ! i)) ?s) = ?r" by (simp add: button_reported_def split_beta)
  note p = sample_reports [of "fst (xs ! i)" "snd (xs ! i)" ?s ?r ?p, unfolded r, OF assms(2) refl refl]
  have "?p \<noteq> 0" using p(4) assms(2) by auto
  have rel: "released xs t0 i" by (rule armed_released [OF _ b p(3)]) (use assms(1) in simp)
  then obtain k where k: "k < i" "level (xs ! k) = 0" by (auto simp: released_def)
  with candidate_since [of i xs ?b] p(1) \<open>?p \<noteq> 0\<close> assms(1) obtain m where
    m: "m < i" "b_changed_us ?s = snd (xs ! m)" "\<forall>x. m \<le> x \<longrightarrow> x < i \<longrightarrow> level (xs ! x) = ?p"
    by fastforce
  then have st: "steady xs m i" by (auto simp: steady_def le_less)
  have "?r AND FV_BUTTON_MASK = ?r" unfolding p(4) by (simp add: and.assoc and.left_commute and.commute)
  then obtain n where n: "n < 6" "?r = push_bit n 1" using one_bit [OF assms(2) p(5)] by blast
  then have "bit ?r n" by (simp add: bit_simps)
  then have "bit ?p n" unfolding p(4) by (simp add: bit_simps)
  then show ?thesis using rel st m p(2) n by (auto intro: less_imp_le)
qed

text \<open>SELECT is held when the prompt appears, released, and pressed again.\<close>

lemma held_button_never_answers_witness:
  "button_reported [(16, 1000), (16, 40000), (0, 41000), (0, 70000), (16, 71000), (16, 97000)]
     (fv_button_input_require_release 0 fv_button_input_init) 5 = 16 \<and>
   released [(16, 1000), (16, 40000), (0, 41000), (0, 70000), (16, 71000), (16, 97000)] 0 5"
proof
  show r: "button_reported [(16, 1000), (16, 40000), (0, 41000), (0, 70000), (16, 71000), (16, 97000)]
     (fv_button_input_require_release 0 fv_button_input_init) 5 = 16"
    by (simp add: button_reported_def button_state_def sample_defs fv_button_input_require_release_def
        fv_button_input_init_def FV_BUTTON_DEBOUNCE_US_def FV_BUTTON_MASK_def)
  show "released [(16, 1000), (16, 40000), (0, 41000), (0, 70000), (16, 71000), (16, 97000)] 0 5"
    using held_button_never_answers
      [of 5 "[(16, 1000), (16, 40000), (0, 41000), (0, 70000), (16, 71000), (16, 97000)]" 0 fv_button_input_init] r
    by simp
qed

end
