(* ===== verification/Ui_Adapter.thy ===== *)
theory Ui_Adapter
  imports Device_Ui Ui_Button
begin

text \<open>
  The loop that drives the user interface on core 0 (\<^verbatim>\<open>src/src/pico/device/device_ui_adapter.c\<close>) and the
  mailbox of FIDO prompts (\<^verbatim>\<open>fv_fido_ui_poll\<close> and \<^verbatim>\<open>ask\<close> of \<^verbatim>\<open>fido_adapter.c\<close>). One poll is a function of
  what it reads (an answer of the worker, the pins, the clock, the counters) and of the adapter's state; its
  effects on other components are a list of outputs. One reading of the clock stands for the readings of a
  poll. The build is the product build: USB, display and FIDO on, diagnostics off.
\<close>

section \<open>The prompt mailbox\<close>

record fido_prompt =
  pr_secret :: bool
  pr_approved :: bool
  pr_profile :: u16
  pr_value :: "u8 list"
  pr_length :: nat
  pr_label :: string

definition prompt_zero :: fido_prompt where
  "prompt_zero = \<lparr>pr_secret = False, pr_approved = False, pr_profile = 0, pr_value = zeros 64, pr_length = 0, pr_label = []\<rparr>"

text \<open>The states of the mailbox: 0 idle, 1 published, 2 shown, 3 answered, 4 dismissed.\<close>

record ui_adapter =
  ua_ui :: fv_ui
  ua_buttons :: pico_buttons
  ua_maintenance :: bool
  ua_disconnected :: bool
  ua_refresh :: bool
  ua_startup_until :: u64
  ua_format_done :: u32
  ua_format_total :: u32
  ua_format_started_ms :: u32
  ua_format_redraw :: u64
  ua_activity_sample :: u64
  ua_prompt_state :: nat
  ua_prompt :: fido_prompt
  ua_prompt_abort :: bool
  ua_request_ui_owned :: bool
  ua_fido_busy :: bool

definition fv_device_ui_init :: "u64 \<Rightarrow> ui_adapter" where
  "fv_device_ui_init now =
     \<lparr>ua_ui = fv_ui_init\<lparr>ui_fido_enabled := True\<rparr>, ua_buttons = fv_pico_buttons_init, ua_maintenance = False,
      ua_disconnected = False, ua_refresh = False, ua_startup_until = now + 500000, ua_format_done = 0, ua_format_total = 0,
      ua_format_started_ms = 0, ua_format_redraw = 0, ua_activity_sample = 0, ua_prompt_state = 0, ua_prompt = prompt_zero,
      ua_prompt_abort = False, ua_request_ui_owned = False, ua_fido_busy = False\<rparr>"

definition fv_device_ui_fido_available :: "ui_adapter \<Rightarrow> bool" where
  "fv_device_ui_fido_available a \<longleftrightarrow>
     \<not> ua_disconnected a \<and> \<not> ui_pending (ua_ui a) \<and> \<not> ui_fido_modal (ua_ui a) \<and> \<not> ua_maintenance a \<and>
     (ui_screen (ua_ui a) = UI_HOME \<or> ui_screen (ua_ui a) = UI_DASHBOARD)"

text \<open>The worker publishes a prompt and dismisses it after the answer.\<close>

definition ask_publish :: "bool \<Rightarrow> u16 \<Rightarrow> string \<Rightarrow> ui_adapter \<Rightarrow> ui_adapter" where
  "ask_publish secret profile lbl a =
     a\<lparr>ua_prompt := prompt_zero\<lparr>pr_secret := secret, pr_profile := profile, pr_label := take 127 lbl\<rparr>,
       ua_prompt_abort := False, ua_prompt_state := 1\<rparr>"

definition ask_ok :: "bool \<Rightarrow> ui_adapter \<Rightarrow> bool" where
  "ask_ok cancelled a \<longleftrightarrow> ua_prompt_state a = 3 \<and> pr_approved (ua_prompt a) \<and> \<not> cancelled"

definition prompt_show :: "ui_adapter \<Rightarrow> ui_adapter" where
  "prompt_show a =
     (if \<not> ua_request_ui_owned a \<and> \<not> fv_device_ui_fido_available a
      then a\<lparr>ua_prompt := (ua_prompt a)\<lparr>pr_approved := False, pr_length := 0\<rparr>, ua_prompt_state := 3\<rparr>
      else a\<lparr>ua_request_ui_owned := True,
             ua_ui := fv_ui_fido_begin (pr_secret (ua_prompt a)) (pr_profile (ua_prompt a)) (pr_label (ua_prompt a)) (ua_ui a),
             ua_prompt_state := 2\<rparr>)"

definition prompt_answer :: "ui_adapter \<Rightarrow> ui_adapter" where
  "prompt_answer a =
     (let u = ua_ui a in
      a\<lparr>ua_prompt := (ua_prompt a)\<lparr>pr_approved := ui_fido_approved u \<and> \<not> ua_prompt_abort a,
          pr_length := job_length (ui_job u), pr_value := job_secret (ui_job u)\<rparr>,
        ua_ui := (upd_job (\<lambda>j. j\<lparr>job_secret := zeros 64\<rparr>) u)\<lparr>ui_entry := entry_zero\<rparr>,
        ua_prompt_state := 3\<rparr>)"

definition fv_fido_ui_poll :: "ui_adapter \<Rightarrow> ui_adapter" where
  "fv_fido_ui_poll a =
     (if ua_prompt_state a = 1 then prompt_show a
      else if ua_prompt_state a = 2 \<and> (ui_fido_done (ua_ui a) \<or> ua_prompt_abort a) then prompt_answer a
      else if ua_prompt_state a = 4
      then a\<lparr>ua_ui := (if ui_fido_modal (ua_ui a) then fv_ui_fido_end (ua_ui a) else ua_ui a), ua_prompt_state := 0\<rparr>
      else a)"

section \<open>One poll\<close>

record poll_input =
  pi_response :: "fv_ui_result option"
  pi_gpio :: u32
  pi_now :: u64
  pi_dark :: bool
  pi_remaining :: u32
  pi_generation :: u32
  pi_reads :: u32
  pi_writes :: u32
  pi_accepts :: bool

datatype ui_output = Clear_Transport | Local_Activity u32 | Worker_Command fv_ui_job

definition poll_disconnect :: "ui_adapter \<Rightarrow> ui_adapter" where
  "poll_disconnect a =
     (if ua_disconnected a
      then a\<lparr>ua_disconnected := False, ua_refresh := True,
             ua_ui := (if ui_fido_modal (ua_ui a) then ua_ui a else fv_ui_cancel (ua_ui a))\<rparr>
      else a)"

definition poll_response :: "fv_ui_result option \<Rightarrow> ui_adapter \<Rightarrow> ui_adapter \<times> ui_output list" where
  "poll_response response a =
     (case response of
        None \<Rightarrow> (a, [])
      | Some r \<Rightarrow> (a\<lparr>ua_ui := fv_ui_complete r (ua_ui a), ua_maintenance := False\<rparr>,
                  if res_unlocked r then [] else [Clear_Transport]))"

definition poll_refresh :: "ui_adapter \<Rightarrow> ui_adapter" where
  "poll_refresh a =
     (if ua_refresh a \<and> \<not> ui_fido_modal (ua_ui a) \<and> \<not> ua_fido_busy a \<and> ui_screen (ua_ui a) \<noteq> UI_WAIT
      then a\<lparr>ua_ui := fv_ui_cancel (ua_ui a), ua_refresh := False\<rparr> else a)"

text \<open>A press renews the idle time; in the dark it only wakes the display.\<close>

definition poll_buttons :: "poll_input \<Rightarrow> ui_adapter \<Rightarrow> ui_adapter \<times> ui_output list" where
  "poll_buttons i a =
     (case fv_pico_buttons_poll (ui_fido_generation (ua_ui a)) (pi_gpio i) (pi_now i) (ua_buttons a) of
        (key, buttons) \<Rightarrow>
          (let a = a\<lparr>ua_buttons := buttons\<rparr> in
           case key of
             None \<Rightarrow> (a, [])
           | Some k \<Rightarrow> (if \<not> pi_dark i \<and> pi_now i \<ge> ua_startup_until a then a\<lparr>ua_ui := fv_ui_keypress k (ua_ui a)\<rparr> else a,
                       [Local_Activity (pi_generation i)])))"

definition poll_format :: "u64 \<Rightarrow> ui_adapter \<Rightarrow> ui_adapter" where
  "poll_format now a =
     (let u = ua_ui a in
      if ui_screen u = UI_WAIT \<and> job_op (ui_job u) = Some UI_CREATE \<and> ua_format_total a \<noteq> 0 \<and>
         (ua_format_redraw a = 0 \<or> now - ua_format_redraw a \<ge> 250000)
      then a\<lparr>ua_ui := u\<lparr>ui_format_total := ua_format_total a, ui_format_done := ua_format_done a,
                        ui_format_milliseconds := ucast (now div 1000) - ua_format_started_ms a\<rparr>,
             ua_format_redraw := now\<rparr>
      else a)"

definition poll_display :: "poll_input \<Rightarrow> ui_adapter \<Rightarrow> ui_adapter" where
  "poll_display i a =
     (let now = pi_now i;
          a = poll_format now a;
          a = a\<lparr>ua_ui := fv_ui_countdown (pi_remaining i) (fv_ui_animate (ucast (now div 1000)) (ua_ui a))\<rparr>;
          elapsed = now - ua_activity_sample a
      in if elapsed \<ge> 500000
         then a\<lparr>ua_activity_sample := now, ua_ui := fv_ui_activity (pi_reads i) (pi_writes i) elapsed (ua_ui a)\<rparr>
         else a)"

text \<open>A pending job goes to the worker; the secrets leave the user interface with it.\<close>

definition wipe_sent :: "fv_ui \<Rightarrow> fv_ui" where
  "wipe_sent u =
     (upd_job (\<lambda>j. j\<lparr>job_secret := zeros 64, job_length := 0, job_current := zeros 64, job_current_length := 0\<rparr>) u)
       \<lparr>ui_pending := False, ui_entry := entry_zero\<rparr>"

definition poll_submit :: "bool \<Rightarrow> ui_adapter \<Rightarrow> ui_adapter \<times> ui_output list" where
  "poll_submit accepts a =
     (if ui_pending (ua_ui a) \<and> \<not> ua_fido_busy a
      then
        (let job = ui_job (ua_ui a);
             a = a\<lparr>ua_format_done := 0, ua_format_total := 0, ua_format_redraw := 0, ua_maintenance := True\<rparr>
         in (if accepts then a\<lparr>ua_ui := wipe_sent (ua_ui a)\<rparr> else a,
             (if job_op job \<noteq> Some UI_STATUS then [Clear_Transport] else []) @ (if accepts then [Worker_Command job] else [])))
      else (a, []))"

definition fv_device_ui_poll :: "poll_input \<Rightarrow> ui_adapter \<Rightarrow> ui_adapter \<times> ui_output list" where
  "fv_device_ui_poll i a =
     (case poll_response (pi_response i) (fv_fido_ui_poll (poll_disconnect a)) of (a, o1) \<Rightarrow>
      case poll_buttons i (poll_refresh a) of (a, o2) \<Rightarrow>
      case poll_submit (pi_accepts i) (poll_display i a) of (a, o3) \<Rightarrow> (a, o1 @ o2 @ o3))"

section \<open>The steps of the system around it\<close>

text \<open>
  The second component says that a job is with the worker. Besides the polls: interrupts, the FIDO transport
  on the same core, which starts a request only when no job is under way, and the FIDO worker, which owns the
  mailbox in states 0 and 3.
\<close>

type_synonym ui_system = "ui_adapter \<times> bool"

definition sends_job :: "ui_output list \<Rightarrow> bool" where
  "sends_job out \<longleftrightarrow> (\<exists>j. Worker_Command j \<in> set out)"

inductive ui_step :: "ui_system \<Rightarrow> ui_output list \<Rightarrow> ui_system \<Rightarrow> bool" where
  Poll: "pi_response i = None \<or> busy \<Longrightarrow> fv_device_ui_poll i a = (a', out) \<Longrightarrow>
         ui_step (a, busy) out (a', (busy \<and> pi_response i = None) \<or> sends_job out)"
| Disconnect: "ui_step (a, busy) [] (a\<lparr>ua_disconnected := True\<rparr>, busy)"
| Refresh: "ui_step (a, busy) [] (a\<lparr>ua_refresh := True\<rparr>, busy)"
| Format_Progress: "ui_step (a, busy) [] (a\<lparr>ua_format_done := d, ua_format_total := t, ua_format_started_ms := m\<rparr>, busy)"
| Fido_Start: "\<not> ua_fido_busy a \<Longrightarrow> \<not> ua_maintenance a \<Longrightarrow> ui_step (a, busy) [] (a\<lparr>ua_fido_busy := True\<rparr>, busy)"
| Ask: "ua_fido_busy a \<Longrightarrow> ua_prompt_state a = 0 \<Longrightarrow> ui_step (a, busy) [] (ask_publish secret profile lbl a, busy)"
| Abort: "ui_step (a, busy) [] (a\<lparr>ua_prompt_abort := True\<rparr>, busy)"
| Dismiss: "ua_prompt_state a = 3 \<Longrightarrow> ui_step (a, busy) [] (a\<lparr>ua_prompt_state := 4\<rparr>, busy)"
| Fido_Done: "ua_fido_busy a \<Longrightarrow> ua_prompt_state a = 0 \<Longrightarrow>
              ui_step (a, busy) [] (a\<lparr>ua_fido_busy := False, ua_request_ui_owned := False\<rparr>, busy)"

text \<open>What a run can reach, with all its outputs in order.\<close>

inductive ui_reachable :: "ui_system \<Rightarrow> ui_output list \<Rightarrow> bool" where
  Init: "ui_reachable (fv_device_ui_init now, False) []"
| Step: "ui_reachable s out \<Longrightarrow> ui_step s out' s' \<Longrightarrow> ui_reachable s' (out @ out')"

inductive_cases ui_step_cases: "ui_step s out s'"

end
