(* ===== verification/Ui_Job.thy ===== *)
theory Ui_Job
  imports Ui_State Policy Cipher
begin

text \<open>
  What the worker checks of a job before it acts on it (the first part of \<^verbatim>\<open>fv_device_ui_execute\<close>,
  \<^verbatim>\<open>src/src/pico/device/commands.c\<close>).
\<close>

definition job_value_ok :: "u16 \<Rightarrow> u8 \<Rightarrow> bool" where
  "job_value_ok profile v =
     (if profile = 2 then \<not> (v < 1 \<or> v > 4) else \<not> v \<ge> (if profile = 3 then 100 else 64))"

definition job_credential_ok :: "fv_ui_job \<Rightarrow> bool" where
  "job_credential_ok j =
     (if job_op j \<notin> {Some UI_STATUS, Some UI_ERASE, Some UI_LOCK, Some UI_FIDO_INIT, Some UI_FIDO_POLICY, Some UI_PASSKEY_LIST,
                     Some UI_PASSKEY_DELETE}
      then \<not> (job_length j = 0 \<or> job_length j > 64) \<and> \<not> (job_profile j < 2 \<or> job_profile j > 4) \<and>
           \<not> (job_profile j \<ge> 3 \<and> job_length j \<noteq> 4) \<and>
           (\<forall>i \<in> set [0..<job_length j]. job_value_ok (job_profile j) (job_secret j ! i))
      else True)"

definition job_policy :: "fv_ui_job \<Rightarrow> fv_auth_policy" where
  "job_policy j = \<lparr>max_attempts = job_attempts j, limit_action = job_action j, auto_lock_seconds = job_auto_lock_seconds j,
     screen_sleep_seconds = job_screen_sleep_seconds j\<rparr>"

definition job_policy_ok :: "fv_ui_job \<Rightarrow> bool" where
  "job_policy_ok j =
     (if job_op j = Some UI_CREATE \<or> job_op j = Some UI_POLICY
      then \<not> (fv_auth_policy_encode (job_policy j) = None \<or>
              (job_action j \<noteq> FV_LIMIT_DESTROY \<and> job_action j \<noteq> FV_LIMIT_NONE) \<or>
              (job_action j = FV_LIMIT_DESTROY \<and> job_attempts j > 100))
      else True)"

definition job_change_ok :: "fv_ui_job \<Rightarrow> bool" where
  "job_change_ok j =
     (if job_op j = Some UI_CHANGE
      then \<not> (job_current_length j = 0 \<or> job_current_length j > 64 \<or> (job_profile j = 2 \<and> job_length j < 8))
      else True)"

definition job_create_ok :: "fv_ui_job \<Rightarrow> bool" where
  "job_create_ok j =
     (if job_op j = Some UI_CREATE
      then \<not> ((job_profile j = 2 \<and> job_length j < 8) \<or> job_count j = 0 \<or> job_count j > 4) \<and>
           (\<forall>i \<in> set [0..<4]. if i < job_count j then fv_cipher_key_bytes (ucast (job_algorithms j ! i)) \<noteq> 0
                           else job_algorithms j ! i = 0)
      else True)"

definition ui_job_valid :: "fv_ui_job \<Rightarrow> bool" where
  "ui_job_valid j \<longleftrightarrow> job_credential_ok j \<and> job_policy_ok j \<and> job_change_ok j \<and> job_create_ok j"

end
