(* ===== verification/Ui_Correct.thy ===== *)
theory Ui_Correct
  imports Ui_Adapter Ui_Job
begin

text \<open>
  The invariant of the user interface: which screen may show with which scope of the device, what the job
  holds by then, and where secrets may be.
\<close>

section \<open>The invariant\<close>

definition ui_admin :: "fv_ui \<Rightarrow> bool" where
  "ui_admin u \<longleftrightarrow> res_unlocked (ui_device u) \<and> fv_access_admin (res_mode (ui_device u))"

definition ui_fido_scope :: "fv_ui \<Rightarrow> bool" where
  "ui_fido_scope u \<longleftrightarrow> res_unlocked (ui_device u) \<and> ui_fido_enabled u \<and> fv_access_fido (res_mode (ui_device u))"

definition ui_unlockable :: "fv_ui \<Rightarrow> bool" where
  "ui_unlockable u \<longleftrightarrow> \<not> res_unlocked (ui_device u) \<and> res_status (ui_device u) = 2"

definition ui_virgin :: "fv_ui \<Rightarrow> bool" where
  "ui_virgin u \<longleftrightarrow> \<not> res_unlocked (ui_device u) \<and> res_status (ui_device u) \<in> {0, 1, 5}"

definition shape :: "fv_ui \<Rightarrow> bool" where
  "shape u \<longleftrightarrow>
     length (job_secret (ui_job u)) = 64 \<and> length (job_current (ui_job u)) = 64 \<and> length (ui_confirmation u) = 64 \<and>
     length (job_algorithms (ui_job u)) = 4 \<and> entry_wf (ui_entry u)"

text \<open>No secret anywhere in the state.\<close>

definition confirmation_clean :: "fv_ui \<Rightarrow> bool" where
  "confirmation_clean u \<longleftrightarrow> ui_confirmation u = zeros 64 \<and> ui_confirmation_length u = 0"

definition current_clean :: "fv_ui_job \<Rightarrow> bool" where
  "current_clean j \<longleftrightarrow> job_current j = zeros 64 \<and> job_current_length j = 0"

definition secret_clean :: "fv_ui_job \<Rightarrow> bool" where
  "secret_clean j \<longleftrightarrow> job_secret j = zeros 64 \<and> job_length j = 0"

definition ui_clean :: "fv_ui \<Rightarrow> bool" where
  "ui_clean u \<longleftrightarrow> secret_clean (ui_job u) \<and> current_clean (ui_job u) \<and> confirmation_clean u \<and> ui_entry u = entry_zero"

text \<open>What has been typed so far: a pattern of directions, or nothing or four values.\<close>

definition typed_ok :: "u16 \<Rightarrow> u8 list \<Rightarrow> nat \<Rightarrow> bool" where
  "typed_ok profile buf n \<longleftrightarrow>
     (if profile = 3 \<or> profile = 4 then n = 0 \<or> n = 4 \<and> list_all (\<lambda>v. v < value_limit profile) (take 4 buf)
      else n \<le> 64 \<and> list_all (\<lambda>v. 1 \<le> v \<and> v \<le> 4) (take n buf))"

definition secret_ready :: "fv_ui_job \<Rightarrow> bool" where
  "secret_ready j \<longleftrightarrow>
     job_profile j \<in> {2, 3, 4} \<and> typed_ok (job_profile j) (job_secret j) (job_length j) \<and> job_length j \<noteq> 0 \<and>
     (job_profile j = 2 \<longrightarrow> 8 \<le> job_length j)"

definition current_ready :: "fv_ui_job \<Rightarrow> bool" where
  "current_ready j \<longleftrightarrow> job_current_length j \<noteq> 0 \<and> job_current_length j \<le> 64"

definition layers_ok :: "fv_ui_job \<Rightarrow> bool" where
  "layers_ok j \<longleftrightarrow> job_count j \<noteq> 0 \<and> job_count j \<le> 4 \<and>
     (\<forall>i < 4. if i < job_count j then 1 \<le> job_algorithms j ! i \<and> job_algorithms j ! i \<le> 5 else job_algorithms j ! i = 0)"

definition limits_ok :: "fv_ui_job \<Rightarrow> bool" where
  "limits_ok j \<longleftrightarrow> (job_action j = 5 \<and> job_attempts j = 0 \<or> job_action j = 1 \<and> 1 \<le> job_attempts j \<and> job_attempts j \<le> 100) \<and>
     job_auto_lock_seconds j \<in> set auto_lock_durations \<and> job_screen_sleep_seconds j \<in> set sleep_durations"

definition setup_ok :: "fv_ui \<Rightarrow> bool" where
  "setup_ok u \<longleftrightarrow> ui_flow u = UI_FLOW_SETUP \<and> ui_virgin u \<and> layers_ok (ui_job u) \<and> limits_ok (ui_job u) \<and> current_clean (ui_job u)"

definition change_ok :: "fv_ui \<Rightarrow> bool" where
  "change_ok u \<longleftrightarrow> ui_flow u = UI_FLOW_CHANGE \<and> ui_admin u \<and> current_ready (ui_job u)"

definition policy_flow_ok :: "fv_ui \<Rightarrow> bool" where
  "policy_flow_ok u \<longleftrightarrow> ui_flow u = UI_FLOW_POLICY \<and> ui_admin u \<and> current_clean (ui_job u)"

definition first_entry :: "fv_ui \<Rightarrow> bool" where
  "first_entry u \<longleftrightarrow> current_clean (ui_job u) \<and>
     (ui_flow u = UI_FLOW_UNLOCK \<and> ui_unlockable u \<or> ui_flow u = UI_FLOW_POLICY \<and> ui_admin u \<or> ui_flow u = UI_FLOW_CHANGE \<and> ui_admin u)"

definition new_entry :: "fv_ui \<Rightarrow> bool" where
  "new_entry u \<longleftrightarrow> (setup_ok u \<or> change_ok u) \<and> job_profile (ui_job u) \<in> {2, 3, 4}"

definition typing :: "fv_ui \<Rightarrow> bool" where
  "typing u \<longleftrightarrow> typed_ok (job_profile (ui_job u)) (job_secret (ui_job u)) (job_length (ui_job u)) \<and>
     entry_profile (ui_entry u) = job_profile (ui_job u)"

text \<open>A job that waits to be picked up.\<close>

fun pending_inv :: "fv_ui_operation \<Rightarrow> fv_ui \<Rightarrow> bool" where
  "pending_inv UI_CREATE u \<longleftrightarrow> setup_ok u \<and> secret_ready (ui_job u)"
| "pending_inv UI_UNLOCK u \<longleftrightarrow> ui_unlockable u \<and> current_clean (ui_job u)"
| "pending_inv UI_POLICY u \<longleftrightarrow> policy_flow_ok u"
| "pending_inv UI_CHANGE u \<longleftrightarrow> change_ok u \<and> secret_ready (ui_job u)"
| "pending_inv UI_ERASE u \<longleftrightarrow> ui_clean u \<and> ui_admin u"
| "pending_inv UI_FIDO_INIT u \<longleftrightarrow> ui_clean u \<and> ui_fido_scope u"
| "pending_inv UI_FIDO_POLICY u \<longleftrightarrow> ui_clean u \<and> ui_fido_scope u"
| "pending_inv UI_STATUS u \<longleftrightarrow> ui_clean u"
| "pending_inv UI_LOCK u \<longleftrightarrow> ui_clean u"
| "pending_inv UI_PASSKEY_LIST u \<longleftrightarrow> ui_clean u"
| "pending_inv UI_PASSKEY_DELETE u \<longleftrightarrow> ui_clean u"

fun screen_inv :: "fv_ui_screen \<Rightarrow> fv_ui \<Rightarrow> bool" where
  "screen_inv UI_WAIT u \<longleftrightarrow> confirmation_clean u \<and>
     (if ui_pending u then (\<exists>op. job_op (ui_job u) = Some op \<and> pending_inv op u) else ui_clean u)"
| "screen_inv UI_HOME u \<longleftrightarrow> ui_clean u"
| "screen_inv UI_DASHBOARD u \<longleftrightarrow> ui_clean u"
| "screen_inv UI_SETTINGS u \<longleftrightarrow> ui_clean u"
| "screen_inv UI_DASHBOARD_SETTING u \<longleftrightarrow> ui_clean u"
| "screen_inv UI_ERROR u \<longleftrightarrow> ui_clean u"
| "screen_inv UI_PASSKEYS u \<longleftrightarrow> ui_clean u"
| "screen_inv UI_PASSKEY_DELETE_CONFIRM u \<longleftrightarrow> ui_clean u"
| "screen_inv UI_ERASE_CONFIRM u \<longleftrightarrow> ui_clean u \<and> ui_admin u"
| "screen_inv UI_FIDO_INIT_CONFIRM u \<longleftrightarrow> ui_clean u \<and> ui_fido_scope u"
| "screen_inv UI_FIDO_POLICY_SCREEN u \<longleftrightarrow> ui_clean u \<and> ui_fido_scope u"
| "screen_inv UI_FIDO_APPROVE u \<longleftrightarrow> False"
| "screen_inv UI_SECRET u \<longleftrightarrow> confirmation_clean u \<and> typing u \<and> (first_entry u \<or> new_entry u)"
| "screen_inv UI_CONFIRM u \<longleftrightarrow> new_entry u \<and> secret_ready (ui_job u) \<and> entry_profile (ui_entry u) = job_profile (ui_job u) \<and>
     typed_ok (job_profile (ui_job u)) (ui_confirmation u) (ui_confirmation_length u)"
| "screen_inv UI_METHOD u \<longleftrightarrow> secret_clean (ui_job u) \<and> confirmation_clean u \<and> ui_entry u = entry_zero \<and> (setup_ok u \<or> change_ok u)"
| "screen_inv UI_STACK u \<longleftrightarrow> setup_ok u \<and> secret_ready (ui_job u) \<and> confirmation_clean u \<and> ui_entry u = entry_zero"
| "screen_inv UI_OPTIONS u \<longleftrightarrow> (setup_ok u \<and> secret_ready (ui_job u) \<or> policy_flow_ok u) \<and> confirmation_clean u \<and> ui_entry u = entry_zero"
| "screen_inv UI_REVIEW u \<longleftrightarrow> (setup_ok u \<and> secret_ready (ui_job u) \<or> policy_flow_ok u \<or> change_ok u \<and> secret_ready (ui_job u)) \<and>
     confirmation_clean u \<and> ui_entry u = entry_zero"

text \<open>While a FIDO prompt is shown, nothing else is under way.\<close>

definition modal_inv :: "fv_ui \<Rightarrow> bool" where
  "modal_inv u \<longleftrightarrow> ui_screen u \<in> {UI_SECRET, UI_FIDO_APPROVE} \<and> current_clean (ui_job u) \<and> confirmation_clean u \<and>
     (ui_screen u = UI_FIDO_APPROVE \<longrightarrow> ui_clean u)"

definition ui_inv :: "fv_ui \<Rightarrow> bool" where
  "ui_inv u \<longleftrightarrow> shape u \<and> (ui_pending u \<longrightarrow> ui_screen u = UI_WAIT) \<and>
     (if ui_fido_modal u then modal_inv u else screen_inv (ui_screen u) u)"

lemmas scope_defs = ui_admin_def ui_fido_scope_def ui_unlockable_def ui_virgin_def
lemmas clean_defs = ui_clean_def secret_clean_def current_clean_def confirmation_clean_def
lemmas show_defs = ui_scene_show_def scene_enter_def credential_enter_def policy_enter_def passkeys_enter_def dashboard_setting_enter_def
lemmas flow_defs = setup_ok_def change_ok_def policy_flow_ok_def first_entry_def new_entry_def current_ready_def

text \<open>The invariant does not look at the rest of the state: cursor, errors, orientation, figures.\<close>

definition ui_view where
  "ui_view u = ((ui_screen u, ui_flow u, ui_device u, ui_job u, ui_entry u, ui_pending u),
     (ui_fido_enabled u, ui_fido_modal u, ui_fido_done u, ui_confirmation u, ui_confirmation_length u))"

lemma pending_inv_cong: "ui_view u = ui_view v \<Longrightarrow> pending_inv op u = pending_inv op v"
  by (cases op) (simp_all add: ui_view_def clean_defs flow_defs scope_defs)

lemma screen_inv_cong: "ui_view u = ui_view v \<Longrightarrow> screen_inv S u = screen_inv S v"
  using pending_inv_cong [of u v]
  by (cases S) (simp_all add: ui_view_def clean_defs flow_defs scope_defs typing_def)

lemma ui_inv_cong: "ui_view u = ui_view v \<Longrightarrow> ui_inv u = ui_inv v"
  using screen_inv_cong [of u v "ui_screen v"]
  by (simp add: ui_inv_def shape_def modal_inv_def clean_defs ui_view_def)

lemma ui_inv_cursor [simp]: "ui_inv (u\<lparr>ui_cursor := n\<rparr>) = ui_inv u"
  by (rule ui_inv_cong) (simp add: ui_view_def)

section \<open>Transitions\<close>

lemma shape_clear [simp]: "shape u \<Longrightarrow> shape (ui_clear_input u)"
  by (simp add: shape_def ui_clear_input_def wipe_job_input_def)

lemma clean_clear [simp]: "ui_clean (ui_clear_input u)"
  by (simp add: clean_defs ui_clear_input_def wipe_job_input_def)

lemma clear_same [simp]:
  "ui_device (ui_clear_input u) = ui_device u" "ui_pending (ui_clear_input u) = ui_pending u"
  "ui_fido_modal (ui_clear_input u) = ui_fido_modal u" "ui_fido_enabled (ui_clear_input u) = ui_fido_enabled u"
  "ui_screen (ui_clear_input u) = ui_screen u" "job_op (ui_job (ui_clear_input u)) = job_op (ui_job u)"
  by (simp_all add: ui_clear_input_def wipe_job_input_def)

text \<open>Showing a screen establishes the invariant when the screen's own condition holds.\<close>

abbreviation plain :: "fv_ui \<Rightarrow> bool" where "plain u \<equiv> shape u \<and> \<not> ui_pending u \<and> \<not> ui_fido_modal u"

lemma show_plain:
  "plain u \<Longrightarrow> screen_inv S (ui_scene_show S u) \<Longrightarrow> ui_inv (ui_scene_show S u)"
  by (cases S) (simp_all add: ui_inv_def show_defs shape_def)

lemma show_clean:
  assumes "plain u" "ui_clean u" "S \<in> {UI_HOME, UI_DASHBOARD, UI_SETTINGS, UI_DASHBOARD_SETTING, UI_ERROR, UI_PASSKEYS, UI_PASSKEY_DELETE_CONFIRM}"
  shows "ui_inv (ui_scene_show S u)"
  by (rule show_plain) (use assms in \<open>auto simp: show_defs clean_defs\<close>)

lemma inv_go_home: "plain u \<Longrightarrow> ui_inv (ui_go_home u)"
  unfolding ui_go_home_def by (rule show_clean) auto

lemma inv_settings_return:
  assumes "plain u"
  shows "ui_inv (ui_settings_return item u)"
proof -
  have "ui_inv (foldl (\<lambda>u index. if ids ! index = item then u\<lparr>ui_cursor := index\<rparr> else u) v js)"
    if "ui_inv v" for ids js v
    using that
    by (induction js arbitrary: v) simp_all
  moreover have "ui_inv (ui_scene_show UI_SETTINGS (ui_clear_input u))"
    by (rule show_clean) (use assms in simp_all)
  ultimately show ?thesis by (simp add: ui_settings_return_def Let_def)
qed

lemma submit_inv:
  assumes "shape u" "\<not> ui_fido_modal u" "confirmation_clean u" "pending_inv op u"
  shows "ui_inv (ui_submit op u)"
  using assms
  by (cases op) (simp_all add: ui_inv_def ui_submit_def show_defs shape_def clean_defs flow_defs scope_defs secret_ready_def layers_ok_def limits_ok_def)


text \<open>Each handler, on its own screen and without a prompt.\<close>

lemma invD:
  assumes "ui_inv u" "\<not> ui_fido_modal u" "ui_screen u = S"
  shows "shape u" "ui_pending u \<Longrightarrow> S = UI_WAIT" "screen_inv S u"
  using assms by (simp_all add: ui_inv_def split: if_splits)

lemma inv_selection: "ui_inv u \<Longrightarrow> ui_inv (selection_move n key u)"
  by (simp add: selection_move_def)

lemma selection_same [simp]:
  "ui_screen (selection_move n key u) = ui_screen u" "ui_fido_modal (selection_move n key u) = ui_fido_modal u"
  "ui_job (selection_move n key u) = ui_job u"
  by (simp_all add: selection_move_def)

lemma inv_confirmation:
  assumes "ui_inv u" "\<And>v. ui_inv v \<Longrightarrow> ui_screen v = ui_screen u \<Longrightarrow> ui_fido_modal v = ui_fido_modal u \<Longrightarrow> ui_inv (yes v) \<and> ui_inv (no v)"
  shows "ui_inv (ui_confirmation_key key yes no u)"
  using assms(1) assms(2) [of "selection_move 2 key u"] inv_selection [of u 2 key]
  by (auto simp: ui_confirmation_key_def Let_def)

lemma inv_menu:
  assumes "ui_inv u" "\<And>v f. ui_inv v \<Longrightarrow> ui_screen v = ui_screen u \<Longrightarrow> ui_fido_modal v = ui_fido_modal u \<Longrightarrow> ui_device v = ui_device u \<Longrightarrow>
      ui_fido_enabled v = ui_fido_enabled u \<Longrightarrow> f \<in> set items \<Longrightarrow> ui_inv (f v)"
  shows "ui_inv (ui_menu_key items key u)"
  using assms(1) assms(2) [of "selection_move (length items) key u" "items ! ui_cursor (selection_move (length items) key u)"]
    inv_selection [of u "length items" key]
  by (auto simp: ui_menu_key_def Let_def) (simp_all add: selection_move_def)

lemma inv_plain: "ui_inv u \<Longrightarrow> \<not> ui_fido_modal u \<Longrightarrow> ui_screen u \<noteq> UI_WAIT \<Longrightarrow> plain u"
  by (auto simp: ui_inv_def)

definition clean_screens :: "fv_ui_screen set" where
  "clean_screens = {UI_HOME, UI_DASHBOARD, UI_SETTINGS, UI_DASHBOARD_SETTING, UI_ERROR, UI_PASSKEYS, UI_PASSKEY_DELETE_CONFIRM,
     UI_ERASE_CONFIRM, UI_FIDO_INIT_CONFIRM, UI_FIDO_POLICY_SCREEN}"

lemma clean_screen:
  assumes "ui_inv u" "\<not> ui_fido_modal u" "ui_screen u \<in> clean_screens"
  shows "plain u" "ui_clean u"
  using inv_plain [OF assms(1,2)] invD(3) [OF assms(1,2) refl] assms(3) by (auto simp: clean_screens_def)

lemma submit_clean:
  assumes "shape u" "\<not> ui_fido_modal u" "ui_clean u" "op \<in> {UI_STATUS, UI_LOCK, UI_PASSKEY_LIST, UI_PASSKEY_DELETE}"
  shows "ui_inv (ui_submit op u)"
  by (rule submit_inv) (use assms in \<open>auto simp: ui_clean_def\<close>)

section \<open>The handlers\<close>

lemma begin_job:
  "layers_ok (job_zero\<lparr>job_count := 1, job_algorithms := [1, 0, 0, 0], job_attempts := 10, job_action := 1,
     job_auto_lock_seconds := 300, job_profile := p\<rparr>)"
  "limits_ok (job_zero\<lparr>job_count := 1, job_algorithms := [1, 0, 0, 0], job_attempts := 10, job_action := 1,
     job_auto_lock_seconds := 300, job_profile := p\<rparr>)"
  by (auto simp: layers_ok_def limits_ok_def job_zero_def nth_Cons' auto_lock_durations_def sleep_durations_def)

lemma inv_begin_vault_flow:
  assumes "plain u" "ui_clean u" "ui_unlockable u \<or> ui_virgin u"
  shows "ui_inv (begin_vault_flow mode u)"
proof -
  define j where "j = job_zero\<lparr>job_count := 1, job_algorithms := [1, 0, 0, 0], job_attempts := 10, job_action := 1,
     job_auto_lock_seconds := 300, job_profile := (if res_profile (ui_device u) \<noteq> 0 then res_profile (ui_device u) else 2)\<rparr>"
  have j: "layers_ok j" "limits_ok j" "secret_clean j" "current_clean j" "length (job_algorithms j) = 4"
    unfolding j_def by (rule begin_job)+ (simp_all add: job_zero_def clean_defs)
  show ?thesis
  proof (cases "res_status (ui_device u) = 2")
    case False
    then have "ui_virgin u" using assms(3) by (simp add: scope_defs)
    then have "ui_inv (ui_scene_show UI_METHOD (u\<lparr>ui_job := j, ui_error := 0, ui_flow := UI_FLOW_SETUP\<rparr>))"
      by (intro show_plain) (use assms(1,2) j in \<open>simp_all add: shape_def clean_defs show_defs flow_defs scope_defs\<close>)
    then show ?thesis using False unfolding begin_vault_flow_def j_def [symmetric] Let_def by simp
  next
    case True
    then have n: "ui_unlockable u" using assms(3) by (auto simp: scope_defs)
    have e: "ui_inv (ui_scene_show UI_ERROR (u\<lparr>ui_job := j\<lparr>job_mode := mode\<rparr>, ui_flow := UI_FLOW_UNLOCK, ui_error := -6\<rparr>))"
      by (rule show_clean) (use assms(1,2) j in \<open>simp_all add: shape_def clean_defs\<close>)
    have t: "ui_inv (ui_scene_show UI_SECRET (u\<lparr>ui_error := 0, ui_job := j\<lparr>job_mode := mode\<rparr>, ui_flow := UI_FLOW_UNLOCK\<rparr>))"
      by (rule show_plain) (use assms(1,2) j n in \<open>simp_all add: shape_def clean_defs show_defs typing_def typed_ok_def flow_defs scope_defs
          fv_entry_begin_def entry_zero_def\<close>)
    show ?thesis using True e t unfolding begin_vault_flow_def Let_def j_def [symmetric] by simp
  qed
qed

lemma inv_home:
  assumes "ui_inv u" "\<not> ui_fido_modal u" "ui_screen u = UI_HOME"
  shows "ui_inv (home_key key u)"
proof -
  have p: "plain u" and c: "ui_clean u" using clean_screen [OF assms(1,2)] assms(3) by (simp_all add: clean_screens_def)
  have m: "ui_inv (ui_menu_key [lock_vault, open_settings] key u)"
  proof (rule inv_menu [OF assms(1)])
    fix v f assume v: "ui_inv v" "ui_screen v = ui_screen u" "ui_fido_modal v = ui_fido_modal u" "f \<in> set [lock_vault, open_settings]"
    then have "plain v" "ui_clean v" using clean_screen [of v] assms by (simp_all add: clean_screens_def)
    then show "ui_inv (f v)" using v(4) by (auto simp: lock_vault_def open_settings_def submit_clean show_clean)
  qed
  have f: "ui_inv (u\<lparr>ui_flipped := \<not> ui_flipped u\<rparr>)" using assms(1) ui_inv_cong [of "u\<lparr>ui_flipped := \<not> ui_flipped u\<rparr>" u] by (simp add: ui_view_def)
  show ?thesis
    using assms(1) p c m f inv_go_home [OF p] show_clean [OF p c, of UI_DASHBOARD] inv_begin_vault_flow [OF p c]
    by (auto simp: home_key_def scope_defs)
qed

lemma inv_dashboard:
  assumes "ui_inv u" "\<not> ui_fido_modal u" "ui_screen u = UI_DASHBOARD"
  shows "ui_inv (dashboard_key key u)"
proof -
  have p: "plain u" and c: "ui_clean u" using clean_screen [OF assms(1,2)] assms(3) by (simp_all add: clean_screens_def)
  have f: "ui_inv (u\<lparr>ui_flipped := \<not> ui_flipped u\<rparr>)" using assms(1) ui_inv_cong [of "u\<lparr>ui_flipped := \<not> ui_flipped u\<rparr>" u] by (simp add: ui_view_def)
  show ?thesis using p c f assms(1) by (auto simp: dashboard_key_def submit_clean show_clean)
qed

lemma inv_error:
  assumes "ui_inv u" "\<not> ui_fido_modal u" "ui_screen u = UI_ERROR"
  shows "ui_inv (error_key key u)"
proof -
  have "plain u" "ui_clean u" using clean_screen [OF assms(1,2)] assms(3) by (simp_all add: clean_screens_def)
  then show ?thesis using assms(1) by (auto simp: error_key_def submit_clean)
qed

lemma inv_begin_policy:
  assumes "plain u" "ui_admin u"
  shows "ui_inv (begin_policy u)"
  unfolding begin_policy_def Let_def
  by (rule show_plain)
    (use assms clean_clear [of u] shape_clear [of u] in \<open>simp_all add: shape_def clean_defs show_defs typing_def typed_ok_def flow_defs scope_defs
      fv_entry_begin_def entry_zero_def\<close>)

lemma inv_begin_change:
  assumes "plain u" "ui_admin u"
  shows "ui_inv (begin_change u)"
  unfolding begin_change_def Let_def
  by (rule show_plain)
    (use assms clean_clear [of u] shape_clear [of u] in \<open>simp_all add: shape_def clean_defs show_defs typing_def typed_ok_def flow_defs scope_defs
      fv_entry_begin_def entry_zero_def\<close>)

lemma inv_settings:
  assumes "ui_inv u" "\<not> ui_fido_modal u" "ui_screen u = UI_SETTINGS"
  shows "ui_inv (settings_key key u)"
proof -
  have p: "plain u" using inv_plain assms by auto
  have "ui_inv (ui_menu_key (map settings_item (settings_menu u)) key v)"
    if v: "ui_inv v" "ui_screen v = UI_SETTINGS" "\<not> ui_fido_modal v" "ui_device v = ui_device u" "ui_fido_enabled v = ui_fido_enabled u" for v
  proof (rule inv_menu [OF v(1)])
    fix w f assume w: "ui_inv w" "ui_screen w = ui_screen v" "ui_fido_modal w = ui_fido_modal v" "ui_device w = ui_device v"
      "ui_fido_enabled w = ui_fido_enabled v" "f \<in> set (map settings_item (settings_menu u))"
    then obtain item where i: "setting_allowed u item" "f = settings_item item" by (auto simp: settings_menu_def)
    have p: "plain w" and c: "ui_clean w" using clean_screen [OF w(1)] w(2,3) v(2,3) by (simp_all add: clean_screens_def)
    have "setting_allowed w item = setting_allowed u item" unfolding setting_allowed_def w(4,5) v(4,5) ..
    then have a: "setting_allowed w item" using i(1) by simp
    show "ui_inv (f w)"
    proof (cases item)
      case UI_SETTING_POLICY
      then show ?thesis using a p unfolding i(2) by (simp add: settings_item_def inv_begin_policy setting_allowed_def ui_admin_def split: if_splits)
    next
      case UI_SETTING_METHOD
      then show ?thesis using a p unfolding i(2) by (simp add: settings_item_def inv_begin_change setting_allowed_def ui_admin_def split: if_splits)
    next
      case UI_SETTING_PASSKEYS
      have "ui_inv (begin_passkeys w)" unfolding begin_passkeys_def
        by (rule submit_clean) (use p c in \<open>simp_all add: shape_def clean_defs\<close>)
      then show ?thesis using UI_SETTING_PASSKEYS by (simp add: i(2) settings_item_def)
    next
      case UI_SETTING_ERASE
      have "ui_inv (ui_scene_show UI_ERASE_CONFIRM w)"
        by (rule show_plain) (use p c a UI_SETTING_ERASE in \<open>auto simp: show_defs clean_defs setting_allowed_def ui_admin_def split: if_splits\<close>)
      then show ?thesis using UI_SETTING_ERASE by (simp add: i(2) settings_item_def)
    next
      case UI_SETTING_FIDO_INIT
      have "ui_inv (ui_scene_show UI_FIDO_INIT_CONFIRM w)"
        by (rule show_plain) (use p c a UI_SETTING_FIDO_INIT in \<open>auto simp: show_defs clean_defs setting_allowed_def ui_fido_scope_def split: if_splits\<close>)
      then show ?thesis using UI_SETTING_FIDO_INIT by (simp add: i(2) settings_item_def)
    next
      case UI_SETTING_FIDO_POLICY
      have "ui_inv (ui_scene_show UI_FIDO_POLICY_SCREEN w)"
        by (rule show_plain) (use p c a UI_SETTING_FIDO_POLICY in \<open>auto simp: show_defs clean_defs setting_allowed_def ui_fido_scope_def split: if_splits\<close>)
      then show ?thesis using UI_SETTING_FIDO_POLICY by (simp add: i(2) settings_item_def)
    next
      case UI_SETTING_DASHBOARD
      then show ?thesis using p c by (simp add: i(2) settings_item_def show_clean)
    qed
  qed
  then show ?thesis using assms p inv_go_home [OF p] by (simp add: settings_key_def Let_def)
qed

lemma inv_dashboard_setting:
  assumes "ui_inv u" "\<not> ui_fido_modal u" "ui_screen u = UI_DASHBOARD_SETTING"
  shows "ui_inv (dashboard_setting_key key u)"
proof -
  have p: "plain u" using inv_plain assms by auto
  then have "plain (u\<lparr>ui_dashboard_bars := b\<rparr>)" for b by (simp add: shape_def)
  then show ?thesis using p assms(1) by (simp add: dashboard_setting_key_def inv_settings_return)
qed

lemma clean_screen_frame:
  assumes "ui_clean u" "ui_clean v \<longleftrightarrow> ui_clean u" shows "ui_clean v"
  using assms by simp

lemma inv_erase:
  assumes "ui_inv u" "\<not> ui_fido_modal u" "ui_screen u = UI_ERASE_CONFIRM"
  shows "ui_inv (erase_key key u)"
  unfolding erase_key_def
proof (rule inv_confirmation [OF assms(1)])
  fix v assume v: "ui_inv v" "ui_screen v = ui_screen u" "ui_fido_modal v = ui_fido_modal u"
  then have "plain v" "ui_clean v" "ui_admin v" using clean_screen [OF v(1)] invD(3) [OF v(1)] assms(2,3) by (simp_all add: clean_screens_def)
  then show "ui_inv (ui_submit UI_ERASE v) \<and> ui_inv (ui_settings_return UI_SETTING_ERASE v)"
    by (simp add: submit_inv inv_settings_return ui_clean_def)
qed

lemma inv_initialize:
  assumes "ui_inv u" "\<not> ui_fido_modal u" "ui_screen u = UI_FIDO_INIT_CONFIRM"
  shows "ui_inv (initialize_key key u)"
  unfolding initialize_key_def
proof (rule inv_confirmation [OF assms(1)])
  fix v assume v: "ui_inv v" "ui_screen v = ui_screen u" "ui_fido_modal v = ui_fido_modal u"
  then have "plain v" "ui_clean v" "ui_fido_scope v" using clean_screen [OF v(1)] invD(3) [OF v(1)] assms(2,3) by (simp_all add: clean_screens_def)
  then show "ui_inv (ui_submit UI_FIDO_INIT v) \<and> ui_inv (ui_settings_return UI_SETTING_FIDO_INIT v)"
    by (simp add: submit_inv inv_settings_return ui_clean_def)
qed

lemma inv_policy:
  assumes "ui_inv u" "\<not> ui_fido_modal u" "ui_screen u = UI_FIDO_POLICY_SCREEN"
  shows "ui_inv (policy_key key u)"
proof -
  have p: "plain u" "ui_clean u" "ui_fido_scope u"
    using clean_screen [OF assms(1)] invD(3) [OF assms(1)] assms(2,3) by (simp_all add: clean_screens_def)
  have "ui_inv (upd_job (\<lambda>j. j\<lparr>job_fido_policy := job_fido_policy j XOR 1\<rparr>) u)"
    using p assms by (simp add: ui_inv_def shape_def clean_defs ui_fido_scope_def)
  then show ?thesis using p by (simp add: policy_key_def inv_settings_return submit_inv ui_clean_def)
qed

lemma inv_page: "ui_inv u \<Longrightarrow> ui_inv (page_key key u)"
  by (rule ui_inv_cong [THEN iffD1, of u]) (simp_all add: ui_view_def page_key_def Let_def)

lemma page_same [simp]: "ui_screen (page_key key u) = ui_screen u" "ui_fido_modal (page_key key u) = ui_fido_modal u"
  by (simp_all add: page_key_def Let_def)

lemma inv_delete:
  assumes "ui_inv u" "\<not> ui_fido_modal u" "ui_screen u = UI_PASSKEY_DELETE_CONFIRM"
  shows "ui_inv (delete_key key u)"
  unfolding delete_key_def
proof (rule inv_confirmation [OF inv_page [OF assms(1)]])
  fix v assume v: "ui_inv v" "ui_screen v = ui_screen (page_key key u)" "ui_fido_modal v = ui_fido_modal (page_key key u)"
  then have "plain v" "ui_clean v" using clean_screen [OF v(1)] assms(2,3) by (simp_all add: clean_screens_def)
  then show "ui_inv (ui_submit UI_PASSKEY_DELETE v) \<and> ui_inv (ui_scene_show UI_PASSKEYS v)"
    by (simp add: submit_clean show_clean)
qed

lemma inv_passkeys:
  assumes "ui_inv u" "\<not> ui_fido_modal u" "ui_screen u = UI_PASSKEYS"
  shows "ui_inv (passkeys_key key u)"
proof -
  have p: "plain u" "ui_clean u" using clean_screen [OF assms(1)] assms(2,3) by (simp_all add: clean_screens_def)
  have "ui_inv (ui_submit UI_PASSKEY_LIST (upd_job (\<lambda>j. j\<lparr>job_passkey_index := n\<rparr>) u))" for n
    by (rule submit_clean) (use p in \<open>simp_all add: shape_def clean_defs\<close>)
  then show ?thesis using p assms(1) by (simp add: passkeys_key_def Let_def inv_settings_return show_clean inv_page)
qed

text \<open>Setting up a vault.\<close>

lemma inv_job_only:
  assumes "ui_inv u" "\<not> ui_fido_modal u" "ui_screen u = S" "S \<noteq> UI_WAIT"
    "length (job_secret j) = 64" "length (job_current j) = 64" "length (job_algorithms j) = 4" "screen_inv S (u\<lparr>ui_job := j\<rparr>)"
  shows "ui_inv (u\<lparr>ui_job := j\<rparr>)"
  using assms by (simp add: ui_inv_def shape_def)

lemma layer_cycle: "(a :: u16) mod 5 + 1 \<le> 5" "1 \<le> a mod 5 + 1"
proof -
  have "unat (a mod 5) < 5" by (simp add: unat_mod)
  then have u: "unat (a mod 5 + 1) = unat (a mod 5) + 1" by (simp add: unat_word_ariths)
  show "a mod 5 + 1 \<le> 5" "1 \<le> a mod 5 + 1" using u \<open>unat (a mod 5) < 5\<close> by (simp_all add: word_le_nat_alt)
qed

lemma layers_cycle: "layers_ok j \<Longrightarrow> c < job_count j \<Longrightarrow> length (job_algorithms j) = 4 \<Longrightarrow>
    layers_ok (j\<lparr>job_algorithms := (job_algorithms j)[c := job_algorithms j ! c mod 5 + 1]\<rparr>)"
  by (auto simp: layers_ok_def nth_list_update layer_cycle)

lemma layers_add: "layers_ok j \<Longrightarrow> job_count j < 4 \<Longrightarrow> length (job_algorithms j) = 4 \<Longrightarrow>
    layers_ok (j\<lparr>job_algorithms := (job_algorithms j)[job_count j := 1], job_count := job_count j + 1\<rparr>)"
  by (auto simp: layers_ok_def nth_list_update less_Suc_eq split: if_splits)

lemma layers_remove: "layers_ok j \<Longrightarrow> job_count j > 1 \<Longrightarrow> length (job_algorithms j) = 4 \<Longrightarrow>
    layers_ok (j\<lparr>job_algorithms := (job_algorithms j)[job_count j - 1 := 0], job_count := job_count j - 1\<rparr>)"
  by (auto simp: layers_ok_def nth_list_update split: if_splits)

lemma setup_job:
  assumes "setup_ok u" "secret_ready (ui_job u)" "layers_ok j" "limits_ok j" "current_clean j" "job_profile j = job_profile (ui_job u)"
    "job_secret j = job_secret (ui_job u)" "job_length j = job_length (ui_job u)"
  shows "setup_ok (u\<lparr>ui_job := j\<rparr>)" "secret_ready j"
  using assms by (simp_all add: setup_ok_def scope_defs secret_ready_def)

lemma inv_stack_job:
  assumes "ui_inv u" "\<not> ui_fido_modal u" "ui_screen u = UI_STACK" "layers_ok j" "length (job_algorithms j) = 4"
    "limits_ok j = limits_ok (ui_job u)" "job_profile j = job_profile (ui_job u)" "job_secret j = job_secret (ui_job u)"
    "job_length j = job_length (ui_job u)" "job_current j = job_current (ui_job u)" "job_current_length j = job_current_length (ui_job u)"
  shows "ui_inv (u\<lparr>ui_job := j\<rparr>)"
  using assms invD(3) [OF assms(1-3)] setup_job [of u j] invD(1) [OF assms(1-3)]
  by (intro inv_job_only [of u UI_STACK]) (simp_all add: shape_def clean_defs setup_ok_def)

lemma limits_stack [simp]: "limits_ok (j\<lparr>job_algorithms := a\<rparr>) = limits_ok j" "limits_ok (j\<lparr>job_count := n\<rparr>) = limits_ok j"
  by (simp_all add: limits_ok_def)

lemma inv_stack:
  assumes "ui_inv u" "\<not> ui_fido_modal u" "ui_screen u = UI_STACK"
  shows "ui_inv (stack_key key u)"
proof -
  let ?v = "selection_move (job_count (ui_job u) + 3) key u" and ?j = "ui_job u"
  have v: "ui_inv ?v" "\<not> ui_fido_modal ?v" "ui_screen ?v = UI_STACK" "ui_job ?v = ?j" using assms inv_selection by simp_all
  have p: "plain ?v" using inv_plain [OF v(1,2)] v(3) by simp
  have s: "setup_ok ?v" "secret_ready ?j" "confirmation_clean ?v" "ui_entry ?v = entry_zero" using invD(3) [OF v(1-3)] v(4) by simp_all
  have l: "layers_ok ?j" "length (job_algorithms ?j) = 4" using s(1) p v(4) by (simp_all add: setup_ok_def shape_def)
  note I = inv_stack_job [OF v(1-3)]
  have "ui_inv (ui_scene_show UI_OPTIONS ?v)"
    by (rule show_plain) (use p s v(4) in \<open>simp_all add: show_defs flow_defs scope_defs clean_defs\<close>)
  moreover have "ui_inv (?v\<lparr>ui_job := ?j\<lparr>job_algorithms := (job_algorithms ?j)[c := job_algorithms ?j ! c mod 5 + 1]\<rparr>\<rparr>)" if "c < job_count ?j" for c
    by (rule I) (use l v(4) layers_cycle [OF l(1) that l(2)] in simp_all)
  moreover have "ui_inv (?v\<lparr>ui_job := ?j\<lparr>job_algorithms := (job_algorithms ?j)[job_count ?j := 1], job_count := job_count ?j + 1\<rparr>\<rparr>)" if "job_count ?j < 4"
    by (rule I) (use l v(4) layers_add [OF l(1) that l(2)] in simp_all)
  moreover have "ui_inv (?v\<lparr>ui_job := ?j\<lparr>job_algorithms := (job_algorithms ?j)[job_count ?j - 1 := 0], job_count := job_count ?j - 1\<rparr>\<rparr>)" if "job_count ?j > 1"
    by (rule I) (use l v(4) layers_remove [OF l(1) that l(2)] in simp_all)
  moreover have "ui_inv (ui_go_home u)" using inv_go_home inv_plain [OF assms(1,2)] assms(3) by simp
  ultimately show ?thesis using v(1,4) by (auto simp: stack_key_def Let_def)
qed

lemma duration_step_mem: "length ds = 7 \<Longrightarrow> duration_step ds key x \<in> set ds"
  by (simp add: duration_step_def Let_def)

lemma attempts_step: "(a :: u32) < 100 \<Longrightarrow> 1 \<le> a \<Longrightarrow> 1 \<le> a + 1 \<and> a + 1 \<le> 100" "1 < a \<Longrightarrow> a \<le> 100 \<Longrightarrow> 1 \<le> a - 1 \<and> a - 1 \<le> 100"
proof -
  show "1 \<le> a + 1 \<and> a + 1 \<le> 100" if "a < 100" "1 \<le> a"
    using that by (simp add: word_le_nat_alt word_less_nat_alt unat_word_ariths)
  show "1 \<le> a - 1 \<and> a - 1 \<le> 100" if "1 < a" "a \<le> 100"
  proof -
    have "unat (a - 1) = unat a - 1" using that(1) by (subst unat_sub) (simp_all add: word_le_nat_alt word_less_nat_alt)
    then show ?thesis using that by (auto simp: word_le_nat_alt word_less_nat_alt)
  qed
qed

lemma options_limits:
  assumes "limits_ok j"
  shows "limits_ok (options_change key c j)"
proof -
  have "duration_step auto_lock_durations key x \<in> set auto_lock_durations" for x
    by (rule duration_step_mem) (simp add: auto_lock_durations_def)
  moreover have "duration_step sleep_durations key x \<in> set sleep_durations" for x
    by (rule duration_step_mem) (simp add: sleep_durations_def)
  moreover have "limits_ok (options_change key 1 j)"
  proof (cases "job_action j = 1")
    case True
    then have "1 \<le> job_attempts j" "job_attempts j \<le> 100" using assms by (simp_all add: limits_ok_def)
    then show ?thesis using assms True attempts_step [of "job_attempts j"] by (simp add: options_change_def Let_def limits_ok_def)
  qed (use assms in \<open>simp add: options_change_def\<close>)
  ultimately show ?thesis using assms
    by (cases "c = 1") (simp_all add: options_change_def Let_def limits_ok_def)
qed

lemma options_same [simp]:
  "layers_ok (options_change key c j) = layers_ok j" "job_secret (options_change key c j) = job_secret j"
  "job_length (options_change key c j) = job_length j" "job_profile (options_change key c j) = job_profile j"
  "job_current (options_change key c j) = job_current j" "job_current_length (options_change key c j) = job_current_length j"
  "job_algorithms (options_change key c j) = job_algorithms j"
  by (simp_all add: options_change_def Let_def layers_ok_def)

lemma inv_options:
  assumes "ui_inv u" "\<not> ui_fido_modal u" "ui_screen u = UI_OPTIONS"
  shows "ui_inv (options_key key u)"
proof -
  let ?v = "selection_move 5 key u" and ?j = "ui_job u"
  have v: "ui_inv ?v" "\<not> ui_fido_modal ?v" "ui_screen ?v = UI_OPTIONS" "ui_job ?v = ?j" using assms inv_selection by simp_all
  have p: "plain ?v" using inv_plain [OF v(1,2)] v(3) by simp
  have s: "screen_inv UI_OPTIONS ?v" by (rule invD(3) [OF v(1-3)])
  have "ui_inv (ui_scene_show UI_REVIEW ?v)"
    by (rule show_plain) (use p s v(4) in \<open>auto simp: show_defs flow_defs scope_defs clean_defs\<close>)
  moreover have "ui_inv (?v\<lparr>ui_job := options_change key c ?j\<rparr>)" for c
    by (rule inv_job_only [OF v(1-3)])
      (use p s v(4) options_limits in \<open>auto simp: shape_def setup_ok_def policy_flow_ok_def scope_defs clean_defs secret_ready_def\<close>)
  moreover have "ui_inv (ui_go_home u)" using inv_go_home inv_plain [OF assms(1,2)] assms(3) by simp
  ultimately show ?thesis using v(1,4) by (auto simp: options_key_def Let_def)
qed

lemma inv_review:
  assumes "ui_inv u" "\<not> ui_fido_modal u" "ui_screen u = UI_REVIEW"
  shows "ui_inv (review_key key u)"
  unfolding review_key_def
proof (rule inv_confirmation [OF assms(1)])
  fix v assume v: "ui_inv v" "ui_screen v = ui_screen u" "ui_fido_modal v = ui_fido_modal u"
  then have "plain v" "screen_inv UI_REVIEW v" using inv_plain [OF v(1)] invD(3) [OF v(1)] assms(2,3) by simp_all
  then show "ui_inv (save_review v) \<and> ui_inv (ui_go_home v)"
    by (auto simp: save_review_def submit_inv inv_go_home setup_ok_def policy_flow_ok_def change_ok_def intro!: submit_inv)
qed

section \<open>Credentials\<close>

lemma job_update_same [simp]:
  "layers_ok (j\<lparr>job_profile := n\<rparr>) = layers_ok j" "limits_ok (j\<lparr>job_profile := n\<rparr>) = limits_ok j"
  "layers_ok (j\<lparr>job_secret := b\<rparr>) = layers_ok j" "limits_ok (j\<lparr>job_secret := b\<rparr>) = limits_ok j"
  "layers_ok (j\<lparr>job_length := k\<rparr>) = layers_ok j" "limits_ok (j\<lparr>job_length := k\<rparr>) = limits_ok j"
  "current_clean (j\<lparr>job_profile := n\<rparr>) = current_clean j" "current_ready (j\<lparr>job_profile := n\<rparr>) = current_ready j"
  "current_clean (j\<lparr>job_secret := b\<rparr>) = current_clean j" "current_ready (j\<lparr>job_secret := b\<rparr>) = current_ready j"
  "current_clean (j\<lparr>job_length := k\<rparr>) = current_clean j" "current_ready (j\<lparr>job_length := k\<rparr>) = current_ready j"
  by (simp_all add: layers_ok_def limits_ok_def current_clean_def current_ready_def)

text \<open>The conditions of the new credential depend on the flow, the device and the rest of the job.\<close>

lemma new_entry_frame:
  assumes "setup_ok u \<or> change_ok u" "ui_flow v = ui_flow u" "ui_device v = ui_device u" "layers_ok (ui_job v) = layers_ok (ui_job u)"
    "limits_ok (ui_job v) = limits_ok (ui_job u)" "current_clean (ui_job v) = current_clean (ui_job u)"
    "current_ready (ui_job v) = current_ready (ui_job u)" "job_profile (ui_job v) \<in> {2, 3, 4}"
  shows "new_entry v"
  using assms by (simp add: new_entry_def setup_ok_def change_ok_def ui_virgin_def ui_admin_def)

lemma typing_empty: "typed_ok profile buf 0"
  by (simp add: typed_ok_def)

lemma inv_method:
  assumes "ui_inv u" "\<not> ui_fido_modal u" "ui_screen u = UI_METHOD"
  shows "ui_inv (method_key key u)"
proof -
  have "ui_inv (ui_menu_key [choose_method 2, choose_method 3, choose_method 4] key u)"
  proof (rule inv_menu [OF assms(1)])
    fix v f assume v: "ui_inv v" "ui_screen v = ui_screen u" "ui_fido_modal v = ui_fido_modal u"
      "f \<in> set [choose_method 2, choose_method 3, choose_method 4]"
    then obtain n where n: "f = choose_method n" "n \<in> {2, 3, 4}" by auto
    have p: "plain v" "screen_inv UI_METHOD v" using inv_plain [OF v(1)] invD(3) [OF v(1)] v(2,3) assms(2,3) by simp_all
    have t: "setup_ok v \<or> change_ok v" "confirmation_clean v" "job_length (ui_job v) = 0" "shape v" using p by (auto simp: secret_clean_def)
    show "ui_inv (f v)" unfolding n(1) choose_method_def
    proof (rule show_plain)
      show "plain (upd_job (\<lambda>j. j\<lparr>job_profile := n\<rparr>) v)" using p by (simp add: shape_def)
      have "new_entry (ui_scene_show UI_SECRET (upd_job (\<lambda>j. j\<lparr>job_profile := n\<rparr>) v))"
        by (rule new_entry_frame [OF t(1)]) (use n(2) in \<open>simp_all add: show_defs\<close>)
      then show "screen_inv UI_SECRET (ui_scene_show UI_SECRET (upd_job (\<lambda>j. j\<lparr>job_profile := n\<rparr>) v))"
        using t(2,3) by (simp add: show_defs confirmation_clean_def typing_def typing_empty fv_entry_begin_def)
    qed
  qed
  then show ?thesis using inv_go_home inv_plain [OF assms(1,2)] assms(3) by (simp add: method_key_def)
qed

lemma typed_le: "typed_ok profile buf n \<Longrightarrow> n \<le> 64"
  by (auto simp: typed_ok_def split: if_splits)

lemma submitted_secret:
  assumes "ui_inv u" "\<not> ui_fido_modal u" "ui_screen u = UI_SECRET" "job_length (ui_job u) \<noteq> 0"
  shows "ui_inv (credential_submitted (job_secret (ui_job u)) (job_length (ui_job u)) u)"
proof -
  have p: "plain u" using inv_plain [OF assms(1,2)] assms(3) by simp
  have s: "confirmation_clean u" "typing u" "first_entry u \<or> new_entry u" using invD(3) [OF assms(1-3)] by simp_all
  have l: "job_length (ui_job u) \<le> 64" using s(2) typed_le by (auto simp: typing_def)
  consider (current) "ui_flow u = UI_FLOW_CHANGE" "job_current_length (ui_job u) = 0" "ui_admin u"
    | (policy) "ui_flow u = UI_FLOW_POLICY" "policy_flow_ok u"
    | (unlock) "ui_flow u = UI_FLOW_UNLOCK" "ui_unlockable u" "current_clean (ui_job u)"
    | (new) "new_entry u" "ui_flow u \<noteq> UI_FLOW_POLICY" "ui_flow u \<noteq> UI_FLOW_UNLOCK" "ui_flow u = UI_FLOW_CHANGE \<longrightarrow> job_current_length (ui_job u) \<noteq> 0"
    using s(3) by (auto simp: flow_defs current_clean_def)
  then show ?thesis
  proof cases
    case current
    have "ui_inv (keep_current u)" unfolding keep_current_def
      by (rule show_plain) (use p s(1) l current assms(4) in \<open>auto simp: show_defs shape_def clean_defs flow_defs scope_defs\<close>)
    then show ?thesis using current assms(2) by (simp add: credential_submitted_def)
  next
    case policy
    have "ui_inv (ui_scene_show UI_OPTIONS (u\<lparr>ui_entry := entry_zero\<rparr>))"
      by (rule show_plain) (use p s(1) policy in \<open>auto simp: show_defs shape_def clean_defs flow_defs scope_defs\<close>)
    then show ?thesis using policy assms(2) by (simp add: credential_submitted_def)
  next
    case unlock
    then show ?thesis using p s(1) assms(2) by (simp add: credential_submitted_def submit_inv)
  next
    case new
    have "ui_inv (ui_scene_show UI_CONFIRM u)" if "job_profile (ui_job u) \<noteq> 2 \<or> job_length (ui_job u) \<ge> 8"
      by (rule show_plain) (use p s(1,2) new that assms(4) in \<open>auto simp: show_defs shape_def clean_defs flow_defs scope_defs secret_ready_def
          typing_def typed_ok_def [of _ "zeros 64"] fv_entry_begin_def\<close>)
    moreover have "ui_inv (u\<lparr>ui_error := 2\<rparr>)" using assms(1) ui_inv_cong [of "u\<lparr>ui_error := 2\<rparr>" u] by (simp add: ui_view_def)
    ultimately show ?thesis using new assms(2,3) by (auto simp: credential_submitted_def)
  qed
qed

lemma submitted_confirmation:
  assumes "ui_inv u" "\<not> ui_fido_modal u" "ui_screen u = UI_CONFIRM"
  shows "ui_inv (credential_submitted input n u)"
proof -
  have p: "plain u" using inv_plain [OF assms(1,2)] assms(3) by simp
  have s: "new_entry u" "secret_ready (ui_job u)" using invD(3) [OF assms(1-3)] by simp_all
  have f: "ui_flow u = UI_FLOW_CHANGE \<longrightarrow> job_current_length (ui_job u) \<noteq> 0" "ui_flow u \<noteq> UI_FLOW_POLICY" "ui_flow u \<noteq> UI_FLOW_UNLOCK"
    using s(1) by (auto simp: flow_defs)
  have "ui_inv (confirmation_matches u)" unfolding confirmation_matches_def
    by (rule show_plain) (use p s in \<open>auto simp: show_defs shape_def clean_defs flow_defs scope_defs\<close>)
  moreover have "ui_inv (confirmation_differs u)" unfolding confirmation_differs_def
  proof (rule show_plain)
    let ?v = "(upd_job (\<lambda>j. j\<lparr>job_secret := zeros 64, job_length := 0\<rparr>) u)\<lparr>ui_confirmation := zeros 64, ui_confirmation_length := 0, ui_error := 1\<rparr>"
    show "plain ?v" using p by (simp add: shape_def)
    have "new_entry (ui_scene_show UI_SECRET ?v)"
      by (rule new_entry_frame [of u]) (use s(1) in \<open>simp_all add: show_defs new_entry_def\<close>)
    then show "screen_inv UI_SECRET (ui_scene_show UI_SECRET ?v)"
      by (simp add: show_defs confirmation_clean_def typing_def typing_empty fv_entry_begin_def)
  qed
  ultimately show ?thesis using f assms(2,3) by (auto simp: credential_submitted_def)
qed

lemma inv_set_input:
  assumes "ui_inv u" "\<not> ui_fido_modal u" "ui_screen u \<in> {UI_SECRET, UI_CONFIRM}" "length buf = 64"
    "typed_ok (job_profile (ui_job u)) buf n"
  shows "ui_inv (set_input buf n u)"
proof (cases "ui_screen u = UI_SECRET")
  case True
  let ?v = "upd_job (\<lambda>j. j\<lparr>job_secret := buf, job_length := n\<rparr>) u"
  have s: "confirmation_clean u" "typing u" "first_entry u \<or> new_entry u" "shape u"
    using invD(1,3) [OF assms(1,2) True] by simp_all
  have "new_entry ?v" if "new_entry u"
    by (rule new_entry_frame [of u]) (use that in \<open>simp_all add: new_entry_def\<close>)
  moreover have "first_entry ?v" if "first_entry u" using that by (auto simp: first_entry_def scope_defs)
  ultimately have "ui_inv ?v"
    using s assms(4,5) by (intro inv_job_only [OF assms(1,2) True]) (auto simp: shape_def confirmation_clean_def typing_def)
  then show ?thesis using True by (simp add: set_input_def)
next
  case False
  then have c: "ui_screen u = UI_CONFIRM" using assms(3) by simp
  let ?v = "u\<lparr>ui_confirmation := buf, ui_confirmation_length := n\<rparr>"
  have s: "new_entry u" "secret_ready (ui_job u)" "entry_profile (ui_entry u) = job_profile (ui_job u)" "shape u"
    using invD(1,3) [OF assms(1,2) c] by simp_all
  have "new_entry ?v" by (rule new_entry_frame [of u]) (use s(1) in \<open>simp_all add: new_entry_def\<close>)
  then show ?thesis using assms(1,2,4,5) s c by (simp add: set_input_def ui_inv_def shape_def)
qed

lemma set_input_same [simp]:
  "ui_fido_modal (set_input b n u) = ui_fido_modal u" "ui_screen (set_input b n u) = ui_screen u"
  "input_buffer (set_input b n u) = (b, n)" "ui_entry (set_input b n u) = ui_entry u" "ui_error (set_input b n u) = ui_error u"
  "job_profile (ui_job (set_input b n u)) = job_profile (ui_job u)"
  by (simp_all add: set_input_def input_buffer_def)

lemma input_buffer_error [simp]: "input_buffer (u\<lparr>ui_error := e\<rparr>) = input_buffer u"
  by (simp add: input_buffer_def)

lemma inv_submitted:
  assumes "ui_inv u" "\<not> ui_fido_modal u" "ui_screen u \<in> {UI_SECRET, UI_CONFIRM}" "input_buffer u = (buf, n)" "n \<noteq> 0"
  shows "ui_inv (credential_submitted buf n u)"
  using submitted_secret [of u] submitted_confirmation [of u] assms by (auto simp: input_buffer_def split: if_splits)

lemma inv_input_buffer:
  assumes "ui_inv u" "\<not> ui_fido_modal u" "ui_screen u \<in> {UI_SECRET, UI_CONFIRM}" "input_buffer u = (buf, n)"
  shows "length buf = 64" "typed_ok (job_profile (ui_job u)) buf n" "entry_profile (ui_entry u) = job_profile (ui_job u)" "entry_wf (ui_entry u)"
  using assms invD(1,3) [OF assms(1,2) refl]
  by (auto simp: input_buffer_def shape_def typing_def split: if_splits)

lemma inv_screen_home:
  assumes "ui_inv u" "\<not> ui_fido_modal u" "ui_screen u \<in> {UI_SECRET, UI_CONFIRM}"
  shows "ui_inv (ui_go_home u)"
  using inv_go_home inv_plain [OF assms(1,2)] assms(3) by auto

lemma inv_error_0: "ui_inv u \<Longrightarrow> ui_inv (u\<lparr>ui_error := e\<rparr>)"
  using ui_inv_cong [of "u\<lparr>ui_error := e\<rparr>" u] by (simp add: ui_view_def)

lemma key_code_range: "key_is_direction key \<Longrightarrow> 1 \<le> key_code key \<and> key_code key \<le> 4"
  by (cases key) (simp_all add: key_is_direction_def)

lemma take_Suc_update: "n < length xs \<Longrightarrow> take (Suc n) (xs[n := x]) = take n xs @ [x]"
  by (simp add: take_Suc_conv_app_nth)

lemma inv_pattern:
  assumes "ui_inv u" "\<not> ui_fido_modal u" "ui_screen u \<in> {UI_SECRET, UI_CONFIRM}" "job_profile (ui_job u) \<noteq> 3" "job_profile (ui_job u) \<noteq> 4"
  shows "ui_inv (pattern_input key u)"
proof -
  obtain buf n where b: "input_buffer u = (buf, n)" by fastforce
  note B = inv_input_buffer [OF assms(1-3) b]
  have n: "n \<le> 64" by (rule typed_le [OF B(2)])
  let ?e = "u\<lparr>ui_error := 0\<rparr>"
  have "ui_inv (set_input (buf[n := key_code key]) (Suc n) ?e)" if "key_is_direction key" "n < 64"
    by (rule inv_set_input [OF inv_error_0 [OF assms(1)]])
      (use assms B that key_code_range in \<open>auto simp: typed_ok_def take_Suc_update\<close>)
  moreover have "ui_inv (set_input (buf[n - 1 := 0]) (n - 1) u)" if "n \<noteq> 0"
    by (rule inv_set_input [OF assms(1-3)])
      (use assms(4,5) B(1,2) that in \<open>auto simp: typed_ok_def list_all_iff dest: in_set_takeD [of _ "n - 1" "take n buf", simplified]\<close>)
  moreover have "ui_inv (credential_submitted buf n u)" if "n \<noteq> 0" by (rule inv_submitted [OF assms(1-3) b that])
  ultimately show ?thesis
    using assms(1) b inv_error_0 [OF assms(1)] inv_screen_home [OF assms(1-3)]
    by (auto simp: pattern_input_def Let_def FV_UI_SECRET_MAX_def)
qed

lemma inv_set_entry:
  assumes "ui_inv u" "\<not> ui_fido_modal u" "ui_screen u \<in> {UI_SECRET, UI_CONFIRM}" "entry_wf e" "entry_profile e = entry_profile (ui_entry u)"
  shows "ui_inv (u\<lparr>ui_entry := e\<rparr>)"
proof -
  note D = invD(1,3) [OF assms(1,2) refl]
  have "new_entry (u\<lparr>ui_entry := e\<rparr>)" if "new_entry u"
    by (rule new_entry_frame [of u]) (use that in \<open>simp_all add: new_entry_def\<close>)
  moreover have "first_entry (u\<lparr>ui_entry := e\<rparr>)" if "first_entry u" using that by (auto simp: first_entry_def scope_defs)
  ultimately show ?thesis using assms D
    by (auto simp: ui_inv_def shape_def typing_def confirmation_clean_def)
qed

lemma inv_entry:
  assumes "ui_inv u" "\<not> ui_fido_modal u" "ui_screen u \<in> {UI_SECRET, UI_CONFIRM}" "job_profile (ui_job u) = 3 \<or> job_profile (ui_job u) = 4"
  shows "ui_inv (entry_input key u)"
proof -
  obtain buf n where b: "input_buffer u = (buf, n)" by fastforce
  note B = inv_input_buffer [OF assms(1-3) b]
  define v where "v = (if key_is_direction key then u\<lparr>ui_error := 0\<rparr> else u)"
  obtain r e where k: "fv_entry_key key (ui_entry v) = (r, e)" by fastforce
  have v: "ui_inv v" "\<not> ui_fido_modal v" "ui_screen v = ui_screen u" "job_profile (ui_job v) = job_profile (ui_job u)" "ui_entry v = ui_entry u"
    using assms inv_error_0 by (simp_all add: v_def)
  have e: "entry_wf e" "entry_profile e = job_profile (ui_job u)"
    using entry_wf_key [of "ui_entry v" key] entry_profile_key [of key "ui_entry v"] k v(5) B by (metis snd_conv)+
  let ?w = "v\<lparr>ui_entry := e\<rparr>"
  have w: "ui_inv ?w" "\<not> ui_fido_modal ?w" "ui_screen ?w \<in> {UI_SECRET, UI_CONFIRM}"
    using inv_set_entry [of v e] v e B(3) assms(3) by auto
  let ?x = "?w\<lparr>ui_error := 0\<rparr>"
  have x: "ui_inv ?x" by (rule inv_error_0 [OF w(1)])
  have vals: "length (entry_values e) = 4" "list_all (\<lambda>a. a < value_limit (job_profile (ui_job u))) (entry_values e)"
    using e by (simp_all add: entry_wf_def)
  have len: "length (fst (input_buffer ?x)) = 64" using x w(2,3) invD(1) [OF x] by (auto simp: input_buffer_def shape_def)
  have "take 4 (memcpy (fst (input_buffer ?x)) 0 (entry_values e)) = entry_values e"
    using span_memcpy_same [of 4 "entry_values e" 0 "fst (input_buffer ?x)"] vals(1) len by (simp add: span_def)
  then have "typed_ok (job_profile (ui_job u)) (memcpy (fst (input_buffer ?x)) 0 (entry_values e)) 4"
    using vals(2) assms(4) by (simp add: typed_ok_def)
  then have y: "ui_inv (set_input (memcpy (fst (input_buffer ?x)) 0 (entry_values e)) 4 ?x)"
    using inv_set_input [OF x] w(2,3) v(4) len by simp
  have "ui_inv (credential_submitted (memcpy (fst (input_buffer ?x)) 0 (entry_values e)) 4 (set_input (memcpy (fst (input_buffer ?x)) 0 (entry_values e)) 4 ?x))"
    by (rule inv_submitted [OF y]) (use w(2,3) in simp_all)
  then show ?thesis
    using w(1) inv_screen_home [OF w] vals(1) unfolding entry_input_def v_def [symmetric] Let_def k by simp
qed

lemma inv_credential:
  assumes "ui_inv u" "\<not> ui_fido_modal u" "ui_screen u \<in> {UI_SECRET, UI_CONFIRM}"
  shows "ui_inv (credential_key key u)"
  using inv_entry [OF assms] inv_pattern [OF assms] by (simp add: credential_key_def)

lemma inv_scene_key:
  assumes "ui_inv u" "\<not> ui_fido_modal u"
  shows "ui_inv (scene_key (ui_screen u) key u)"
  using assms invD(3) [OF assms refl]
    inv_home inv_dashboard inv_error inv_settings inv_dashboard_setting inv_erase inv_initialize inv_policy inv_delete inv_passkeys
    inv_stack inv_options inv_review inv_method inv_credential
  by (cases "ui_screen u") (simp_all add: scene_key_def)

section \<open>Prompts\<close>

lemma entry_result_not_back: "key \<noteq> UI_BACK \<Longrightarrow> 0 \<le> fst (fv_entry_key key e)"
  by (cases key) (simp_all add: fv_entry_key_def wheel_key_def word_key_def)

lemma entry_submits: "0 < fst (fv_entry_key key e) \<Longrightarrow> key = UI_SELECT"
  by (cases key) (simp_all add: fv_entry_key_def wheel_key_def word_key_def word_back_def split: if_splits)

text \<open>A key on the screens of a prompt edits the credential or decides, and changes nothing else.\<close>

definition modal_same :: "fv_ui \<Rightarrow> fv_ui \<Rightarrow> bool" where
  "modal_same u v \<longleftrightarrow>
     ui_screen v = ui_screen u \<and> ui_fido_modal v = ui_fido_modal u \<and> ui_pending v = ui_pending u \<and> ui_device v = ui_device u \<and>
     ui_confirmation v = ui_confirmation u \<and> ui_confirmation_length v = ui_confirmation_length u \<and>
     job_current (ui_job v) = job_current (ui_job u) \<and> job_current_length (ui_job v) = job_current_length (ui_job u) \<and>
     job_op (ui_job v) = job_op (ui_job u) \<and> ui_flipped v = ui_flipped u \<and> ui_fido_generation v = ui_fido_generation u \<and>
     ui_fido_enabled v = ui_fido_enabled u \<and> (shape u \<longrightarrow> shape v)"

lemma modal_submitted:
  "ui_fido_modal u \<Longrightarrow> credential_submitted buf n u = u\<lparr>ui_fido_done := True, ui_fido_approved := True\<rparr>"
  by (simp add: credential_submitted_def)

lemma shape_update [simp]:
  "shape (u\<lparr>ui_error := e\<rparr>) = shape u" "shape (u\<lparr>ui_fido_done := d\<rparr>) = shape u" "shape (u\<lparr>ui_fido_approved := d\<rparr>) = shape u"
  by (simp_all add: shape_def)

lemma modal_pattern:
  assumes "ui_fido_modal u" "ui_screen u = UI_SECRET" "key \<noteq> UI_BACK" "v = pattern_input key u"
  shows "modal_same u v" "ui_fido_done v = (ui_fido_done u \<or> key = UI_SELECT \<and> job_length (ui_job v) \<noteq> 0)"
    "ui_fido_approved v = (ui_fido_approved u \<or> key = UI_SELECT \<and> job_length (ui_job v) \<noteq> 0)"
  using assms
  by (auto simp: pattern_input_def input_buffer_def set_input_def modal_submitted key_is_direction_def Let_def modal_same_def shape_def)

lemma modal_entry:
  assumes "ui_fido_modal u" "ui_screen u = UI_SECRET" "key \<noteq> UI_BACK" "v = entry_input key u"
  shows "modal_same u v" "ui_fido_done v \<Longrightarrow> ui_fido_done u \<or> key = UI_SELECT \<and> job_length (ui_job v) = 4 \<and> ui_fido_approved v"
    "\<not> ui_fido_done v \<Longrightarrow> ui_fido_approved v = ui_fido_approved u"
proof -
  obtain r e where k: "fv_entry_key key (ui_entry u) = (r, e)" by fastforce
  have r: "0 \<le> r" "entry_wf (ui_entry u) \<longrightarrow> entry_wf e" "0 < r \<longrightarrow> key = UI_SELECT"
    using entry_result_not_back [OF assms(3), of "ui_entry u"] entry_wf_key [of "ui_entry u" key] entry_submits [of key "ui_entry u"]
    unfolding k by simp_all
  show "modal_same u v" "ui_fido_done v \<Longrightarrow> ui_fido_done u \<or> key = UI_SELECT \<and> job_length (ui_job v) = 4 \<and> ui_fido_approved v"
    "\<not> ui_fido_done v \<Longrightarrow> ui_fido_approved v = ui_fido_approved u"
    using assms(1,2,4) r
    by (auto simp: entry_input_def k set_input_def input_buffer_def modal_submitted Let_def modal_same_def shape_def split: if_splits)
qed

text \<open>The one place where a prompt is decided.\<close>

lemma modal_key:
  assumes "ui_fido_modal u" "ui_screen u \<in> {UI_SECRET, UI_FIDO_APPROVE}" "\<not> ui_fido_done u" "v = fv_ui_keypress key u"
  shows "modal_same u v \<and>
    (ui_fido_done v \<longrightarrow> (key = UI_SELECT \<or> key = UI_BACK) \<and> ui_fido_approved v = (key = UI_SELECT) \<and>
       (key = UI_SELECT \<and> ui_screen u = UI_SECRET \<longrightarrow> job_length (ui_job v) \<noteq> 0)) \<and>
    (key = UI_BACK \<or> key = UI_SELECT \<and> ui_screen u = UI_FIDO_APPROVE \<longrightarrow> ui_fido_done v) \<and>
    (\<not> ui_fido_done v \<longrightarrow> ui_fido_approved v = ui_fido_approved u) \<and>
    (ui_screen u = UI_FIDO_APPROVE \<longrightarrow> ui_job v = ui_job u \<and> ui_entry v = ui_entry u)"
proof -
  define k where "k = (if ui_flipped u then rotated key else key)"
  have k: "k = UI_SELECT \<longleftrightarrow> key = UI_SELECT" "k = UI_BACK \<longleftrightarrow> key = UI_BACK" by (cases key; simp add: k_def)+
  have v: "v = (if key = UI_BACK then u\<lparr>ui_fido_done := True, ui_fido_approved := False\<rparr> else scene_key (ui_screen u) k u)"
    using assms by (auto simp: fv_ui_keypress_def k_def)
  have s: "modal_same u (u\<lparr>ui_fido_done := True, ui_fido_approved := b\<rparr>)" "modal_same u u" for b
    by (simp_all add: modal_same_def)
  consider (rejected) "key = UI_BACK" | (approve) "key \<noteq> UI_BACK" "ui_screen u = UI_FIDO_APPROVE" "v = approve_key k u"
    | (pattern) "key \<noteq> UI_BACK" "ui_screen u = UI_SECRET" "v = pattern_input k u"
    | (entry) "key \<noteq> UI_BACK" "ui_screen u = UI_SECRET" "v = entry_input k u"
    using assms(2) v by (cases "job_profile (ui_job u) = 3 \<or> job_profile (ui_job u) = 4") (auto simp: scene_key_def credential_key_def)
  then show ?thesis
  proof cases
    case rejected
    then show ?thesis using v s by simp
  next
    case approve
    then show ?thesis using s k assms(3) by (simp add: approve_key_def)
  next
    case pattern
    have n: "k \<noteq> UI_BACK" using pattern(1) k by simp
    show ?thesis using modal_pattern [OF assms(1) pattern(2) n pattern(3)] k assms(3) pattern(1,2) by auto
  next
    case entry
    have n: "k \<noteq> UI_BACK" using entry(1) k by simp
    show ?thesis using modal_entry [OF assms(1) entry(2) n entry(3)] k assms(3) entry(1,2) by auto
  qed
qed

lemma keypress_inv:
  assumes "ui_inv u"
  shows "ui_inv (fv_ui_keypress key u)"
proof (cases "ui_fido_modal u")
  case False
  then show ?thesis using assms inv_scene_key [OF assms False] by (simp add: fv_ui_keypress_def)
next
  case True
  show ?thesis
  proof (cases "ui_fido_done u")
    case True
    then show ?thesis using assms by (simp add: fv_ui_keypress_def)
  next
    case False
    have m: "modal_inv u" "shape u" "ui_pending u \<longrightarrow> ui_screen u = UI_WAIT" using assms True by (simp_all add: ui_inv_def)
    then have "ui_screen u \<in> {UI_SECRET, UI_FIDO_APPROVE}" by (simp add: modal_inv_def)
    from modal_key [OF True this False refl, of key] show ?thesis
      using m True by (auto simp: ui_inv_def modal_inv_def modal_same_def clean_defs)
  qed
qed

section \<open>The other operations\<close>

lemma init_inv: "ui_inv fv_ui_init"
  unfolding fv_ui_init_def
  by (rule submit_clean) (simp_all add: ui_zero_def shape_def clean_defs job_zero_def)

lemma cancel_inv:
  assumes "ui_inv u" "\<not> ui_fido_modal u"
  shows "ui_inv (fv_ui_cancel u)"
proof -
  have "shape u" using assms(1) by (simp add: ui_inv_def)
  then have "shape (ui_clear_input u)" by simp
  then have c: "shape ((ui_clear_input u)\<lparr>ui_cursor := 0\<rparr>)" "ui_clean ((ui_clear_input u)\<lparr>ui_cursor := 0\<rparr>)"
    using clean_clear [of u] by (simp_all add: shape_def clean_defs)
  have "ui_inv ((ui_clear_input u)\<lparr>ui_cursor := 0\<rparr>)" if "ui_screen u = UI_WAIT" "\<not> ui_pending u"
    using c that assms(2) clean_clear [of u] unfolding ui_inv_def by (simp add: clean_defs)
  then show ?thesis using submit_clean [OF c(1) _ c(2)] assms(2) by (auto simp: fv_ui_cancel_def Let_def)
qed

lemma complete_inv:
  assumes "shape u" "\<not> ui_fido_modal u"
  shows "ui_inv (fv_ui_complete r u)"
proof -
  let ?r = "checked_result r"
  define v where "v = (let u = (ui_clear_input u)\<lparr>ui_pending := False\<rparr>;
          u = (if \<not> res_unlocked ?r \<or> \<not> res_unlocked (ui_device u) \<or> res_mode ?r \<noteq> res_mode (ui_device u)
               then clear_history u else u);
          u = u\<lparr>ui_device := ?r\<rparr>;
          u = (if \<not> res_unlocked ?r \<or> res_auto_lock_seconds ?r = 0 then u\<lparr>ui_timer_remaining_seconds := 0\<rparr> else u)
      in u\<lparr>ui_error := res_result ?r\<rparr>)"
  have v: "plain v" "ui_clean v"
    using assms shape_clear [OF assms(1)] clean_clear [of u]
    by (auto simp: v_def Let_def clear_history_def shape_def clean_defs)
  have "fv_ui_complete r u =
      (if res_result ?r \<noteq> 0 then ui_scene_show UI_ERROR v
       else if job_op (ui_job v) = Some UI_PASSKEY_LIST \<or> job_op (ui_job v) = Some UI_PASSKEY_DELETE
       then ui_scene_show UI_PASSKEYS
              ((upd_job (\<lambda>j. j\<lparr>job_passkey_index := res_passkey_index ?r, job_passkey_id := res_passkey_id ?r\<rparr>) v)
                \<lparr>ui_passkey_page := 0\<rparr>)
       else ui_scene_show (if res_unlocked ?r then UI_DASHBOARD else UI_HOME) v)"
    by (simp add: fv_ui_complete_def v_def Let_def)
  moreover have "ui_inv (ui_scene_show UI_PASSKEYS
      ((upd_job (\<lambda>j. j\<lparr>job_passkey_index := i, job_passkey_id := n\<rparr>) v)\<lparr>ui_passkey_page := 0\<rparr>))" for i n
    by (rule show_clean) (use v in \<open>simp_all add: shape_def clean_defs\<close>)
  ultimately show ?thesis using v by (simp add: show_clean)
qed

lemma fido_begin_inv:
  assumes "shape u"
  shows "ui_inv (fv_ui_fido_begin secret profile lbl u)" "ui_fido_modal (fv_ui_fido_begin secret profile lbl u)"
    "\<not> ui_fido_done (fv_ui_fido_begin secret profile lbl u)" "\<not> ui_pending (fv_ui_fido_begin secret profile lbl u)"
    "\<not> ui_fido_approved (fv_ui_fido_begin secret profile lbl u)"
    "ui_screen (fv_ui_fido_begin secret profile lbl u) = (if secret then UI_SECRET else UI_FIDO_APPROVE)"
  using shape_clear [OF assms] clean_clear [of u]
  by (auto simp: fv_ui_fido_begin_def Let_def show_defs ui_inv_def modal_inv_def shape_def clean_defs)

lemma fido_end_inv:
  assumes "shape u"
  shows "ui_inv (fv_ui_fido_end u)" "\<not> ui_fido_modal (fv_ui_fido_end u)"
proof -
  show "ui_inv (fv_ui_fido_end u)" unfolding fv_ui_fido_end_def Let_def
    by (rule submit_clean) (use shape_clear [OF assms] clean_clear [of u] in \<open>simp_all add: shape_def clean_defs\<close>)
  show "\<not> ui_fido_modal (fv_ui_fido_end u)" by (simp add: fv_ui_fido_end_def Let_def ui_submit_def show_defs)
qed

lemma display_view: "ui_view (fv_ui_countdown r u) = ui_view u" "ui_view (fv_ui_animate m u) = ui_view u"
  "ui_view (fv_ui_activity rd wr e u) = ui_view u"
  by (simp_all add: ui_view_def fv_ui_countdown_def fv_ui_animate_def fv_ui_activity_def Let_def)

end
