(* ===== verification/Ui_Adapter_Correct.thy ===== *)
theory Ui_Adapter_Correct
  imports Ui_Correct
begin

text \<open>
  The properties of the user interface: secrets are confined to the credential screens, every job handed to
  the worker is allowed by the scope the device last reported and passes the worker's own checks, and a FIDO
  prompt is decided by one key.
\<close>

section \<open>The invariant of the loop\<close>

definition ad_inv :: "ui_adapter \<Rightarrow> bool \<Rightarrow> bool" where
  "ad_inv a busy \<longleftrightarrow>
     ui_inv (ua_ui a) \<and>
     (busy \<longrightarrow> ua_maintenance a \<and> \<not> ua_fido_busy a \<and> ui_screen (ua_ui a) = UI_WAIT \<and> \<not> ui_pending (ua_ui a)) \<and>
     (ua_prompt_state a \<noteq> 0 \<longrightarrow> ua_fido_busy a) \<and>
     (ui_fido_modal (ua_ui a) \<longrightarrow> ua_prompt_state a \<in> {2, 3, 4}) \<and>
     (ua_prompt_state a = 2 \<longrightarrow> ui_fido_modal (ua_ui a))"

lemma ad_inv_modal: "ad_inv a busy \<Longrightarrow> busy \<Longrightarrow> \<not> ui_fido_modal (ua_ui a)"
  by (auto simp: ad_inv_def)

lemma ad_inv_shape: "ad_inv a busy \<Longrightarrow> shape (ua_ui a)"
  by (simp add: ad_inv_def ui_inv_def)

lemma cancel_same [simp]: "ui_fido_modal (fv_ui_cancel u) = ui_fido_modal u"
  by (simp add: fv_ui_cancel_def Let_def ui_submit_def show_defs)

lemma cancel_waiting: "ui_screen u = UI_WAIT \<Longrightarrow> \<not> ui_pending u \<Longrightarrow> ui_screen (fv_ui_cancel u) = UI_WAIT \<and> \<not> ui_pending (fv_ui_cancel u)"
  by (simp add: fv_ui_cancel_def Let_def)

lemma ad_disconnect: "ad_inv a busy \<Longrightarrow> ad_inv (poll_disconnect a) busy"
  using cancel_inv [of "ua_ui a"] cancel_waiting [of "ua_ui a"]
  by (auto simp: ad_inv_def poll_disconnect_def)

lemma ad_refresh: "ad_inv a busy \<Longrightarrow> ad_inv (poll_refresh a) busy"
  using cancel_inv [of "ua_ui a"] by (auto simp: ad_inv_def poll_refresh_def)

lemma answer_inv: "ui_inv u \<Longrightarrow> ui_fido_modal u \<Longrightarrow> ui_inv ((upd_job (\<lambda>j. j\<lparr>job_secret := zeros 64\<rparr>) u)\<lparr>ui_entry := entry_zero\<rparr>)"
  by (auto simp: ui_inv_def modal_inv_def shape_def clean_defs)

lemma ad_fido: "ad_inv a busy \<Longrightarrow> ad_inv (fv_fido_ui_poll a) busy"
  using fido_begin_inv [of "ua_ui a"] fido_end_inv [of "ua_ui a"] answer_inv [of "ua_ui a"] ad_inv_shape [of a busy]
  by (auto simp: fv_fido_ui_poll_def prompt_show_def prompt_answer_def Let_def ad_inv_def split: if_splits)

lemma complete_modal [simp]: "ui_fido_modal (fv_ui_complete r u) = ui_fido_modal u"
  by (simp add: fv_ui_complete_def Let_def show_defs clear_history_def)

lemma ad_response:
  assumes "ad_inv a busy" "response = None \<or> busy" "poll_response response a = (a', out)"
  shows "ad_inv a' (busy \<and> response = None)" "\<not> sends_job out"
  using assms complete_inv [OF ad_inv_shape [OF assms(1)]] ad_inv_modal [OF assms(1)]
  by (auto simp: poll_response_def ad_inv_def sends_job_def split: option.splits if_splits)

lemma keypress_waiting: "ui_screen u = UI_WAIT \<Longrightarrow> fv_ui_keypress key u = u"
  by (simp add: fv_ui_keypress_def)

lemma scene_show_modal [simp]: "ui_fido_modal (ui_scene_show S u) = ui_fido_modal u"
  by (cases S) (simp_all add: show_defs)

lemma settings_return_modal [simp]: "ui_fido_modal (ui_settings_return item u) = ui_fido_modal u"
proof -
  have m: "ui_fido_modal (foldl (\<lambda>u index. if ids ! index = item then u\<lparr>ui_cursor := index\<rparr> else u) v js) = ui_fido_modal v" for ids js v
    by (induction js arbitrary: v) simp_all
  show ?thesis by (simp only: ui_settings_return_def Let_def m scene_show_modal clear_same)
qed

lemma submit_modal [simp]: "ui_fido_modal (ui_submit op u) = ui_fido_modal u"
  by (simp add: ui_submit_def)

lemma go_home_modal [simp]: "ui_fido_modal (ui_go_home u) = ui_fido_modal u"
  by (simp add: ui_go_home_def)

lemma begin_flow_modal [simp]: "ui_fido_modal (begin_vault_flow m u) = ui_fido_modal u"
  by (simp add: begin_vault_flow_def Let_def)

lemma settings_item_modal [simp]: "ui_fido_modal (settings_item i u) = ui_fido_modal u"
  by (cases i) (simp_all add: settings_item_def begin_policy_def begin_change_def begin_passkeys_def Let_def)

lemma menu_modal:
  assumes "list_all (\<lambda>f. \<forall>v. ui_fido_modal (f v) = ui_fido_modal v) items"
  shows "ui_fido_modal (ui_menu_key items key u) = ui_fido_modal u"
  using assms by (auto simp: ui_menu_key_def Let_def list_all_length)

lemma confirmation_modal:
  assumes "\<And>v. ui_fido_modal (yes v) = ui_fido_modal v" "\<And>v. ui_fido_modal (no v) = ui_fido_modal v"
  shows "ui_fido_modal (ui_confirmation_key key yes no u) = ui_fido_modal u"
  using assms by (simp add: ui_confirmation_key_def Let_def)

lemma submitted_modal [simp]: "ui_fido_modal (credential_submitted b n u) = ui_fido_modal u"
  by (simp add: credential_submitted_def keep_current_def confirmation_matches_def confirmation_differs_def)

lemma scene_key_modal: "ui_fido_modal (scene_key S key u) = ui_fido_modal u"
  by (cases S)
    (simp_all add: scene_key_def home_key_def dashboard_key_def error_key_def settings_key_def dashboard_setting_key_def erase_key_def
      initialize_key_def policy_key_def delete_key_def passkeys_key_def stack_key_def options_key_def review_key_def method_key_def
      credential_key_def approve_key_def entry_input_def pattern_input_def confirmation_modal menu_modal Let_def save_review_def list.pred_map comp_def list_all_iff
      choose_method_def lock_vault_def open_settings_def split: prod.splits)

lemma keypress_modal [simp]: "ui_fido_modal (fv_ui_keypress key u) = ui_fido_modal u"
  by (simp add: fv_ui_keypress_def scene_key_modal)

lemma ad_keypress: "ad_inv a busy \<Longrightarrow> ad_inv (a\<lparr>ua_ui := fv_ui_keypress k (ua_ui a)\<rparr>) busy"
  using keypress_inv [of "ua_ui a" k] keypress_waiting [of "ua_ui a" k] by (simp add: ad_inv_def)

lemma ad_inv_buttons [simp]: "ad_inv (a\<lparr>ua_buttons := b\<rparr>) busy = ad_inv a busy"
  by (simp add: ad_inv_def)

lemma ad_buttons:
  assumes "ad_inv a busy" "poll_buttons i a = (a', out)"
  shows "ad_inv a' busy" "\<not> sends_job out"
proof -
  obtain key b where k: "fv_pico_buttons_poll (ui_fido_generation (ua_ui a)) (pi_gpio i) (pi_now i) (ua_buttons a) = (key, b)"
    by fastforce
  show "ad_inv a' busy" "\<not> sends_job out"
    using assms ad_keypress [of "a\<lparr>ua_buttons := b\<rparr>" busy]
    by (cases key; auto simp: poll_buttons_def k Let_def sends_job_def split: if_splits)+
qed

lemma view_inv:
  assumes "ui_view v = ui_view u"
  shows "ui_inv v = ui_inv u" "ui_screen v = ui_screen u" "ui_pending v = ui_pending u" "ui_fido_modal v = ui_fido_modal u"
  using assms ui_inv_cong [OF assms] by (simp_all add: ui_view_def)

lemma poll_display_view: "ui_view (ua_ui (poll_display i a)) = ui_view (ua_ui a)"
  by (simp add: poll_display_def poll_format_def Let_def display_view) (simp add: ui_view_def)

lemma poll_display_same [simp]:
  "ua_maintenance (poll_display i a) = ua_maintenance a" "ua_fido_busy (poll_display i a) = ua_fido_busy a"
  "ua_prompt_state (poll_display i a) = ua_prompt_state a"
  by (simp_all add: poll_display_def poll_format_def Let_def)

lemma ad_display: "ad_inv a busy \<Longrightarrow> ad_inv (poll_display i a) busy"
  using view_inv [OF poll_display_view [of i a]] by (simp add: ad_inv_def)

lemma sent_inv: "ui_inv u \<Longrightarrow> ui_pending u \<Longrightarrow> ui_inv (wipe_sent u)"
  by (auto simp: ui_inv_def wipe_sent_def modal_inv_def shape_def clean_defs split: if_splits)

lemma inv_pending: "ui_inv u \<Longrightarrow> ui_pending u \<Longrightarrow> ui_screen u = UI_WAIT \<and> \<not> ui_fido_modal u \<and> screen_inv UI_WAIT u"
  by (auto simp: ui_inv_def modal_inv_def split: if_splits)

lemma sent_same [simp]: "ui_screen (wipe_sent u) = ui_screen u" "ui_fido_modal (wipe_sent u) = ui_fido_modal u" "\<not> ui_pending (wipe_sent u)"
  "ui_device (wipe_sent u) = ui_device u" "ui_fido_enabled (wipe_sent u) = ui_fido_enabled u"
  by (simp_all add: wipe_sent_def)

lemma ad_submit:
  assumes "ad_inv a busy" "poll_submit accepts a = (a', out)"
  shows "ad_inv a' (busy \<or> sends_job out)"
proof (cases "ui_pending (ua_ui a) \<and> \<not> ua_fido_busy a")
  case False
  then have "poll_submit accepts a = (a, [])" unfolding poll_submit_def by (simp only: if_False)
  then have "a' = a" "out = []" using assms(2) by simp_all
  then show ?thesis using assms(1) by (simp add: sends_job_def)
next
  case True
  have i: "ui_inv (ua_ui a)" using assms(1) by (simp add: ad_inv_def)
  have "\<not> busy" "ua_prompt_state a = 0" using True assms(1) by (auto simp: ad_inv_def)
  then show ?thesis
    using True assms(2) inv_pending [OF i] sent_inv [OF i] i
    by (cases accepts) (auto simp: poll_submit_def Let_def ad_inv_def sends_job_def)
qed

section \<open>Polls and steps\<close>

lemma sends_append [simp]: "sends_job (xs @ ys) = (sends_job xs \<or> sends_job ys)"
  by (auto simp: sends_job_def)

text \<open>The parts of a poll, named.\<close>

lemma poll_parts:
  assumes "fv_device_ui_poll i a = (a', out)"
  obtains a1 o1 a2 o2 o3 where
    "poll_response (pi_response i) (fv_fido_ui_poll (poll_disconnect a)) = (a1, o1)"
    "poll_buttons i (poll_refresh a1) = (a2, o2)"
    "poll_submit (pi_accepts i) (poll_display i a2) = (a', o3)" "out = o1 @ o2 @ o3"
  using assms by (auto simp: fv_device_ui_poll_def split: prod.splits)

lemma ad_poll:
  assumes "ad_inv a busy" "pi_response i = None \<or> busy" "fv_device_ui_poll i a = (a', out)"
  shows "ad_inv a' (busy \<and> pi_response i = None \<or> sends_job out)"
proof -
  obtain a1 o1 a2 o2 o3 where p: "poll_response (pi_response i) (fv_fido_ui_poll (poll_disconnect a)) = (a1, o1)"
    "poll_buttons i (poll_refresh a1) = (a2, o2)" "poll_submit (pi_accepts i) (poll_display i a2) = (a', o3)" "out = o1 @ o2 @ o3"
    by (rule poll_parts [OF assms(3)])
  have r: "ad_inv a1 (busy \<and> pi_response i = None)" "\<not> sends_job o1"
    using ad_response [OF ad_fido [OF ad_disconnect [OF assms(1)]] assms(2) p(1)] by simp_all
  have b: "ad_inv a2 (busy \<and> pi_response i = None)" "\<not> sends_job o2" using ad_buttons [OF ad_refresh [OF r(1)] p(2)] by simp_all
  show ?thesis using ad_submit [OF ad_display [OF b(1)] p(3)] r(2) b(2) p(4) by simp
qed

lemma ad_step: "ui_step s out s' \<Longrightarrow> ad_inv (fst s) (snd s) \<Longrightarrow> ad_inv (fst s') (snd s')"
proof (induction rule: ui_step.induct)
  case (Poll i busy a a' out)
  then show ?case using ad_poll [of a busy i a' out] by simp
qed (auto simp: ad_inv_def ask_publish_def)

lemma ad_init: "ad_inv (fv_device_ui_init now) False"
proof -
  have "\<not> ui_fido_modal fv_ui_init" by (simp add: fv_ui_init_def ui_zero_def)
  moreover have "ui_inv (fv_ui_init\<lparr>ui_fido_enabled := True\<rparr>)"
    unfolding fv_ui_init_def
    by (simp add: ui_submit_def show_defs ui_inv_def shape_def clean_defs ui_zero_def job_zero_def)
  ultimately show ?thesis by (simp add: ad_inv_def fv_device_ui_init_def)
qed

lemma ad_reachable: "ui_reachable s out \<Longrightarrow> ad_inv (fst s) (snd s)"
  by (induction rule: ui_reachable.induct) (simp_all add: ad_init ad_step)

section \<open>Secrets\<close>

definition credential_screens :: "fv_ui_screen set" where
  "credential_screens = {UI_SECRET, UI_CONFIRM, UI_METHOD, UI_STACK, UI_OPTIONS, UI_REVIEW}"

lemma inv_secrets:
  assumes "ui_inv u"
  shows "ui_screen u \<notin> credential_screens \<Longrightarrow> ui_screen u \<noteq> UI_WAIT \<or> \<not> ui_pending u \<Longrightarrow> ui_clean u"
    "ui_screen u \<noteq> UI_CONFIRM \<Longrightarrow> confirmation_clean u"
    "ui_screen u \<notin> {UI_SECRET, UI_CONFIRM, UI_WAIT} \<Longrightarrow> ui_entry u = entry_zero"
    "ui_pending u \<Longrightarrow> job_op (ui_job u) \<notin> {Some UI_CREATE, Some UI_UNLOCK, Some UI_POLICY, Some UI_CHANGE} \<Longrightarrow> ui_clean u"
proof -
  have m: "ui_fido_modal u \<Longrightarrow> modal_inv u" and s: "\<not> ui_fido_modal u \<Longrightarrow> screen_inv (ui_screen u) u"
    using assms by (simp_all add: ui_inv_def)
  show "ui_screen u \<notin> credential_screens \<Longrightarrow> ui_screen u \<noteq> UI_WAIT \<or> \<not> ui_pending u \<Longrightarrow> ui_clean u"
    using m s by (cases "ui_screen u") (auto simp: credential_screens_def modal_inv_def)
  show "ui_screen u \<noteq> UI_CONFIRM \<Longrightarrow> confirmation_clean u"
    using m s by (cases "ui_screen u") (auto simp: modal_inv_def ui_clean_def)
  show "ui_screen u \<notin> {UI_SECRET, UI_CONFIRM, UI_WAIT} \<Longrightarrow> ui_entry u = entry_zero"
    using m s by (cases "ui_screen u") (auto simp: modal_inv_def ui_clean_def)
  show "ui_clean u" if p: "ui_pending u" and j: "job_op (ui_job u) \<notin> {Some UI_CREATE, Some UI_UNLOCK, Some UI_POLICY, Some UI_CHANGE}"
  proof -
    obtain op where op: "job_op (ui_job u) = Some op" "pending_inv op u" using inv_pending [OF assms p] p by auto
    then show ?thesis using j by (cases op) simp_all
  qed
qed

text \<open>The first poll after power-on hands over the status request.\<close>

definition quiet_input :: poll_input where
  "quiet_input = \<lparr>pi_response = None, pi_gpio = 0xfc00, pi_now = 1000000, pi_dark = False, pi_remaining = 0, pi_generation = 0,
     pi_reads = 0, pi_writes = 0, pi_accepts = True\<rparr>"

lemma first_poll:
  "snd (fv_device_ui_poll quiet_input (fv_device_ui_init 0)) = [Worker_Command (job_zero\<lparr>job_op := Some UI_STATUS\<rparr>)]"
  by code_simp

lemma first_poll_reachable:
  "ui_reachable (fst (fv_device_ui_poll quiet_input (fv_device_ui_init 0)), True)
     [Worker_Command (job_zero\<lparr>job_op := Some UI_STATUS\<rparr>)]"
proof -
  let ?p = "fv_device_ui_poll quiet_input (fv_device_ui_init 0)"
  have "ui_step (fv_device_ui_init 0, False) (snd ?p) (fst ?p, (False \<and> pi_response quiet_input = None) \<or> sends_job (snd ?p))"
    by (rule ui_step.Poll) (simp_all add: quiet_input_def)
  from ui_reachable.Step [OF ui_reachable.Init this] show ?thesis by (simp add: first_poll sends_job_def)
qed

text \<open>C23. Secrets are confined to where they are needed. In every state the user interface can reach, by any
  interleaving of polls, buttons, worker answers, disconnections and FIDO prompts: outside the credential
  screens, and as soon as a job has been handed to the worker, no buffer of the interface holds any part of a
  credential (all bytes and lengths are zero); the repeated credential exists only while it is being
  repeated; and a waiting job that is not about credentials carries none.\<close>

theorem ui_secrets_confined:
  assumes "ui_reachable (a, busy) out"
  shows "(ui_screen (ua_ui a) \<notin> credential_screens \<and> \<not> ui_pending (ua_ui a) \<longrightarrow> ui_clean (ua_ui a)) \<and>
    (busy \<longrightarrow> ui_clean (ua_ui a)) \<and>
    (ui_screen (ua_ui a) \<noteq> UI_CONFIRM \<longrightarrow> confirmation_clean (ua_ui a)) \<and>
    (ui_screen (ua_ui a) \<notin> {UI_SECRET, UI_CONFIRM, UI_WAIT} \<longrightarrow> ui_entry (ua_ui a) = entry_zero) \<and>
    (ui_pending (ua_ui a) \<longrightarrow> job_op (ui_job (ua_ui a)) \<notin> {Some UI_CREATE, Some UI_UNLOCK, Some UI_POLICY, Some UI_CHANGE}
       \<longrightarrow> ui_clean (ua_ui a))"
proof -
  have i: "ad_inv a busy" using ad_reachable [OF assms] by simp
  then have u: "ui_inv (ua_ui a)" by (simp add: ad_inv_def)
  have "busy \<longrightarrow> ui_screen (ua_ui a) \<notin> credential_screens \<and> \<not> ui_pending (ua_ui a)"
    using i by (simp add: ad_inv_def credential_screens_def)
  then show ?thesis using inv_secrets [OF u] by blast
qed

lemma ui_secrets_confined_witness:
  "ui_clean (ua_ui (fst (fv_device_ui_poll quiet_input (fv_device_ui_init 0))))"
  using ui_secrets_confined [OF first_poll_reachable] by simp

section \<open>Jobs\<close>

text \<open>What the device must have reported last for a job to be offered.\<close>

fun job_authorised :: "fv_ui \<Rightarrow> fv_ui_operation \<Rightarrow> bool" where
  "job_authorised u UI_ERASE = ui_admin u"
| "job_authorised u UI_POLICY = ui_admin u"
| "job_authorised u UI_CHANGE = ui_admin u"
| "job_authorised u UI_FIDO_INIT = ui_fido_scope u"
| "job_authorised u UI_FIDO_POLICY = ui_fido_scope u"
| "job_authorised u UI_UNLOCK = ui_unlockable u"
| "job_authorised u UI_CREATE = ui_virgin u"
| "job_authorised u UI_STATUS = True"
| "job_authorised u UI_LOCK = True"
| "job_authorised u UI_PASSKEY_LIST = True"
| "job_authorised u UI_PASSKEY_DELETE = True"

lemma pending_authorised: "pending_inv op u \<Longrightarrow> job_authorised u op"
  by (cases op) (auto simp: setup_ok_def policy_flow_ok_def change_ok_def)

lemma value_limits:
  "job_value_ok 2 v \<longleftrightarrow> 1 \<le> v \<and> v \<le> 4"
  "p = 3 \<or> p = 4 \<Longrightarrow> job_value_ok p v \<longleftrightarrow> v < value_limit p"
proof -
  have "v < 1 \<longleftrightarrow> \<not> 1 \<le> v" "v > 4 \<longleftrightarrow> \<not> v \<le> 4" by (simp_all only: not_le)
  then show "job_value_ok 2 v \<longleftrightarrow> 1 \<le> v \<and> v \<le> 4" by (simp only: job_value_ok_def if_True simp_thms de_Morgan_disj not_not)
  show "p = 3 \<or> p = 4 \<Longrightarrow> job_value_ok p v \<longleftrightarrow> v < value_limit p"
    by (auto simp: job_value_ok_def value_limit_def not_le)
qed

lemma ready_credential:
  assumes "secret_ready j" "length (job_secret j) = 64"
  shows "job_credential_ok j" "job_profile j = 2 \<Longrightarrow> \<not> job_length j < 8" "job_length j \<noteq> 0" "job_length j \<le> 64"
proof -
  have p: "job_profile j = 2 \<or> job_profile j = 3 \<or> job_profile j = 4" and t: "typed_ok (job_profile j) (job_secret j) (job_length j)"
    and l: "job_length j \<noteq> 0" "job_profile j = 2 \<longrightarrow> 8 \<le> job_length j"
    using assms(1) by (auto simp: secret_ready_def)
  show "job_length j \<le> 64" by (rule typed_le [OF t])
  show "job_profile j = 2 \<Longrightarrow> \<not> job_length j < 8" "job_length j \<noteq> 0" using l by simp_all
  have four: "job_length j = 4" if "job_profile j = 3 \<or> job_profile j = 4" using that t l(1) by (auto simp: typed_ok_def)
  have "job_value_ok (job_profile j) (job_secret j ! i)" if i: "i < job_length j" for i
  proof (cases "job_profile j = 2")
    case True
    then have "list_all (\<lambda>v. 1 \<le> v \<and> v \<le> 4) (take (job_length j) (job_secret j))" using t by (simp add: typed_ok_def)
    then show ?thesis using True i \<open>job_length j \<le> 64\<close> assms(2) by (simp add: list_all_length value_limits)
  next
    case False
    then have p3: "job_profile j = 3 \<or> job_profile j = 4" using p by simp
    then have "list_all (\<lambda>v. v < value_limit (job_profile j)) (take 4 (job_secret j))" using t l(1) by (auto simp: typed_ok_def)
    then show ?thesis using p3 i four assms(2) by (simp add: list_all_length value_limits)
  qed
  then show "job_credential_ok j" using p l four \<open>job_length j \<le> 64\<close> by (auto simp: job_credential_ok_def)
qed

lemma layer_bytes: "1 \<le> (a :: u16) \<Longrightarrow> a \<le> 5 \<Longrightarrow> fv_cipher_key_bytes (ucast a) \<noteq> 0"
proof -
  assume "1 \<le> a" "a \<le> 5"
  then have "unat a \<in> {1, 2, 3, 4, 5}" by (auto simp: word_le_nat_alt)
  then have "of_nat (unat a) \<in> (of_nat :: nat \<Rightarrow> u16) ` {1, 2, 3, 4, 5}" by (rule imageI)
  then have "a \<in> {1, 2, 3, 4, 5}" by simp
  then show "fv_cipher_key_bytes (ucast a) \<noteq> 0"
    by (auto simp: fv_cipher_key_bytes_def FV_AES_256_XTS_def FV_CAMELLIA_256_XTS_def FV_SM4_128_XTS_def FV_ARIA_256_XTS_def FV_TWOFISH_256_XTS_def)
qed

lemma setup_policy: "limits_ok j \<Longrightarrow> job_policy_ok j"
  by (auto simp: limits_ok_def job_policy_ok_def job_policy_def fv_auth_policy_encode_def limit_defs auto_lock_allowed_def
      screen_sleep_allowed_def auto_lock_durations_def sleep_durations_def Let_def)

lemma pending_valid:
  assumes "shape u" "job_op (ui_job u) = Some op" "pending_inv op u" "op \<in> {UI_CREATE, UI_CHANGE}"
  shows "ui_job_valid (ui_job u)"
proof -
  have r: "secret_ready (ui_job u)" "length (job_secret (ui_job u)) = 64" using assms by (auto simp: shape_def)
  note R = ready_credential [OF r]
  show ?thesis
  proof (cases "op = UI_CREATE")
    case True
    then have "layers_ok (ui_job u)" "limits_ok (ui_job u)" using assms(3) by (simp_all add: setup_ok_def)
    then have "job_create_ok (ui_job u)" "job_policy_ok (ui_job u)" using R layer_bytes setup_policy
      by (auto simp: layers_ok_def job_create_ok_def)
    then show ?thesis using R True assms(2) by (simp add: ui_job_valid_def job_change_ok_def)
  next
    case False
    then have "current_ready (ui_job u)" using assms(3,4) by (simp add: change_ok_def)
    then show ?thesis using R False assms(2,4)
      by (auto simp: ui_job_valid_def job_change_ok_def job_create_ok_def job_policy_ok_def current_ready_def)
  qed
qed



section \<open>Prompts\<close>

definition decides :: "bool \<Rightarrow> fv_ui_key \<Rightarrow> bool" where
  "decides secret key \<longleftrightarrow> key = UI_BACK \<or> \<not> secret \<and> key = UI_SELECT"

definition ui_keys :: "fv_ui_key list \<Rightarrow> fv_ui \<Rightarrow> fv_ui" where
  "ui_keys keys = fold fv_ui_keypress keys"

lemma ui_keys_done: "ui_fido_done u \<Longrightarrow> ui_keys keys u = u"
  by (induction keys) (simp_all add: ui_keys_def fv_ui_keypress_def)

lemma ui_keys_Cons [simp]: "ui_keys (k # ks) u = ui_keys ks (fv_ui_keypress k u)" "ui_keys [] u = u"
  by (simp_all add: ui_keys_def)

lemma prompt_keys:
  assumes "ui_fido_modal u" "ui_screen u = (if secret then UI_SECRET else UI_FIDO_APPROVE)" "\<not> ui_fido_done u" "\<not> ui_fido_approved u"
    "\<not> ui_pending u"
  shows "let v = ui_keys keys u in
    ui_fido_modal v \<and> ui_screen v = ui_screen u \<and> ui_device v = ui_device u \<and> \<not> ui_pending v \<and>
    (\<not> ui_fido_done v \<longrightarrow> \<not> ui_fido_approved v \<and> (\<forall>k \<in> set keys. \<not> decides secret k)) \<and>
    (ui_fido_done v \<longrightarrow> (\<exists>n < length keys. (keys ! n = UI_SELECT \<or> keys ! n = UI_BACK) \<and> (\<forall>m < n. \<not> decides secret (keys ! m)) \<and>
       (ui_fido_approved v \<longleftrightarrow> keys ! n = UI_SELECT) \<and> v = ui_keys (take (Suc n) keys) u)) \<and>
    (ui_fido_approved v \<and> secret \<longrightarrow> job_length (ui_job v) \<noteq> 0)"
  using assms
proof (induction keys arbitrary: u)
  case Nil
  then show ?case by (simp add: Let_def)
next
  case (Cons k ks)
  let ?w = "fv_ui_keypress k u"
  have sc: "ui_screen u \<in> {UI_SECRET, UI_FIDO_APPROVE}" using Cons.prems(2) by simp
  note K = modal_key [OF Cons.prems(1) sc Cons.prems(3) refl, of k]
  show ?case
  proof (cases "ui_fido_done ?w")
    case True
    have "\<exists>n < length (k # ks). ((k # ks) ! n = UI_SELECT \<or> (k # ks) ! n = UI_BACK) \<and> (\<forall>m < n. \<not> decides secret ((k # ks) ! m)) \<and>
       (ui_fido_approved ?w \<longleftrightarrow> (k # ks) ! n = UI_SELECT) \<and> ?w = ui_keys (take (Suc n) (k # ks)) u"
      by (rule exI [of _ 0]) (use K True in simp)
    then show ?thesis
      using K True Cons.prems(1,2,5) by (auto simp: ui_keys_done Let_def modal_same_def)
  next
    case False
    have "\<not> decides secret k" using K False Cons.prems(2) by (auto simp: decides_def split: if_splits)
    have w: "ui_fido_modal ?w" "ui_screen ?w = (if secret then UI_SECRET else UI_FIDO_APPROVE)" "\<not> ui_fido_approved ?w"
      "\<not> ui_pending ?w" "ui_device ?w = ui_device u" "ui_screen ?w = ui_screen u"
      using K False Cons.prems by (auto simp: modal_same_def)
    let ?v = "ui_keys ks ?w"
    note ih = Cons.IH [OF w(1,2) False w(3,4), unfolded Let_def]
    have "\<exists>n < length (k # ks). ((k # ks) ! n = UI_SELECT \<or> (k # ks) ! n = UI_BACK) \<and> (\<forall>m < n. \<not> decides secret ((k # ks) ! m)) \<and>
       (ui_fido_approved ?v \<longleftrightarrow> (k # ks) ! n = UI_SELECT) \<and> ?v = ui_keys (take (Suc n) (k # ks)) u" if "ui_fido_done ?v"
    proof -
      from ih that obtain n where n: "n < length ks" "ks ! n = UI_SELECT \<or> ks ! n = UI_BACK" "\<forall>m < n. \<not> decides secret (ks ! m)"
        "ui_fido_approved ?v \<longleftrightarrow> ks ! n = UI_SELECT" "?v = ui_keys (take (Suc n) ks) ?w" by blast
      show ?thesis
        by (rule exI [of _ "Suc n"]) (use n \<open>\<not> decides secret k\<close> in \<open>auto simp: nth_Cons split: nat.splits\<close>)
    qed
    then show ?thesis using ih w(5,6) \<open>\<not> decides secret k\<close> by (auto simp: Let_def)
  qed
qed

text \<open>A FIDO prompt is decided by exactly one key, and by nothing else. From the moment the prompt is shown,
  in whatever state that happened: Back rejects at once; on a request for approval Select approves; on a
  request for the credential Select approves only when something was entered; after the decision no key
  changes anything. The prompt never leaves its screen, never touches what is known of the device and never
  submits a job.\<close>

theorem fido_prompt_decided:
  "let v = ui_keys keys (fv_ui_fido_begin secret profile lbl u) in
   ui_fido_modal v \<and> ui_screen v = (if secret then UI_SECRET else UI_FIDO_APPROVE) \<and> ui_device v = ui_device u \<and> \<not> ui_pending v \<and>
   (if ui_fido_done v
    then (\<exists>n < length keys. (keys ! n = UI_SELECT \<or> keys ! n = UI_BACK) \<and> \<not> (\<exists>m < n. decides secret (keys ! m)) \<and>
            (ui_fido_approved v \<longleftrightarrow> keys ! n = UI_SELECT) \<and> v = ui_keys (take (Suc n) keys) (fv_ui_fido_begin secret profile lbl u))
    else \<not> ui_fido_approved v \<and> \<not> (\<exists>k \<in> set keys. decides secret k)) \<and>
   \<not> (ui_fido_approved v \<and> secret \<and> job_length (ui_job v) = 0)"
proof -
  let ?b = "fv_ui_fido_begin secret profile lbl u"
  have b: "ui_fido_modal ?b" "\<not> ui_fido_done ?b" "\<not> ui_fido_approved ?b" "\<not> ui_pending ?b" "ui_device ?b = ui_device u"
    "ui_screen ?b = (if secret then UI_SECRET else UI_FIDO_APPROVE)"
    by (simp_all add: fv_ui_fido_begin_def Let_def show_defs)
  show ?thesis using prompt_keys [OF b(1,6,2,3,4), of keys] b(5,6) by (auto simp: Let_def)
qed

end
