(* ===== verification/Session_Timeout.thy ===== *)
theory Session_Timeout
  imports Session_Timer
begin

text \<open>
  The inactivity lock (\<^verbatim>\<open>src/src/pico/device/session_timeout.c\<close>): the worker on core 1 owns the timer, and
  button presses reach it from core 0 through a sequence number and a generation, both atomic words. An event
  is published in three steps; an odd sequence marks a half-written event. The lock callback of an expired
  poll is called by the worker's model (\<open>Session_Worker\<close>).
\<close>

section \<open>State and operations\<close>

record session_timeout =
  to_timer :: fv_session_timer
  to_generation :: u32
  to_consumed :: u32
  to_remaining :: u32
  to_local_sequence :: u32
  to_local_generation :: u32

definition timeout_boot :: session_timeout where
  "timeout_boot = \<lparr>to_timer = fv_session_timer_stop, to_generation = 0, to_consumed = 0, to_remaining = 0,
     to_local_sequence = 0, to_local_generation = 0\<rparr>"

definition fv_session_timeout_start :: "u32 \<Rightarrow> u64 \<Rightarrow> u32 \<Rightarrow> session_timeout \<Rightarrow> session_timeout" where
  "fv_session_timeout_start seconds now_ms generation s =
     (let t = fv_session_timer_start seconds now_ms
      in s\<lparr>to_generation := generation, to_consumed := to_local_sequence s, to_timer := t,
           to_remaining := fv_session_timer_remaining t now_ms\<rparr>)"

definition fv_session_timeout_stop :: "session_timeout \<Rightarrow> session_timeout" where
  "fv_session_timeout_stop s =
     s\<lparr>to_timer := fv_session_timer_stop, to_generation := 0, to_consumed := to_local_sequence s, to_remaining := 0\<rparr>"

text \<open>The three stores of a local event.\<close>

definition local_count :: "session_timeout \<Rightarrow> session_timeout" where
  "local_count s = s\<lparr>to_local_sequence := to_local_sequence s + 1\<rparr>"

definition local_store :: "u32 \<Rightarrow> session_timeout \<Rightarrow> session_timeout" where
  "local_store generation s = s\<lparr>to_local_generation := generation\<rparr>"

definition fv_session_timeout_local_activity :: "u32 \<Rightarrow> session_timeout \<Rightarrow> session_timeout" where
  "fv_session_timeout_local_activity generation s = local_count (local_store generation (local_count s))"

text \<open>The worker's three loads: the sequence, the generation, the sequence again.\<close>

definition take_event :: "u32 \<Rightarrow> u32 \<Rightarrow> u32 \<Rightarrow> u32 \<Rightarrow> u32 \<Rightarrow> bool \<times> u32" where
  "take_event sequence event_generation again generation consumed =
     (if sequence AND 1 \<noteq> 0 \<or> sequence = consumed then (False, consumed)
      else if sequence \<noteq> again then (False, consumed)
      else (event_generation = generation, sequence))"

definition take_local_activity :: "u32 \<Rightarrow> session_timeout \<Rightarrow> bool \<times> session_timeout" where
  "take_local_activity generation s =
     (case take_event (to_local_sequence s) (to_local_generation s) (to_local_sequence s) generation (to_consumed s) of
        (taken, consumed) \<Rightarrow> (taken, s\<lparr>to_consumed := consumed\<rparr>))"

definition timeout_touch :: "u64 \<Rightarrow> session_timeout \<Rightarrow> session_timeout" where
  "timeout_touch now_ms s = s\<lparr>to_timer := snd (fv_session_timer_touch (to_timer s) now_ms)\<rparr>"

definition timeout_show :: "u64 \<Rightarrow> session_timeout \<Rightarrow> session_timeout" where
  "timeout_show now_ms s = s\<lparr>to_remaining := fv_session_timer_remaining (to_timer s) now_ms\<rparr>"

text \<open>\<open>True\<close> when this call expired the session; the caller locks it.\<close>

definition fv_session_timeout_poll :: "u64 \<Rightarrow> u32 \<Rightarrow> session_timeout \<Rightarrow> bool \<times> session_timeout" where
  "fv_session_timeout_poll now_ms generation s =
     (if generation \<noteq> to_generation s then (False, fv_session_timeout_stop s)
      else if fv_session_timer_expired (to_timer s) now_ms then (True, fv_session_timeout_stop s)
      else case take_local_activity generation s of (taken, s) \<Rightarrow>
        (False, timeout_show now_ms (if taken then timeout_touch now_ms s else s)))"

definition fv_session_timeout_activity :: "u64 \<Rightarrow> u32 \<Rightarrow> session_timeout \<Rightarrow> bool \<times> session_timeout" where
  "fv_session_timeout_activity now_ms generation s =
     (case fv_session_timeout_poll now_ms generation s of (expired, s) \<Rightarrow>
        if expired then (True, s) else (False, timeout_show now_ms (timeout_touch now_ms s)))"

definition fv_session_timeout_remaining :: "session_timeout \<Rightarrow> u32" where
  "fv_session_timeout_remaining s = to_remaining s"

section \<open>Events are never torn\<close>

text \<open>The shared words after \<open>n\<close> of the stores core 0 makes when it publishes the events \<open>gens\<close>.\<close>

primrec local_words :: "u32 \<times> u32 \<Rightarrow> (nat \<Rightarrow> u32) \<Rightarrow> nat \<Rightarrow> u32 \<times> u32" where
  "local_words m gens 0 = m"
| "local_words m gens (Suc n) =
     (case local_words m gens n of (sequence, generation) \<Rightarrow>
        if n mod 3 = 1 then (sequence, gens (n div 3)) else (sequence + 1, generation))"

lemma local_words_event:
  "local_words (to_local_sequence s, to_local_generation s) (\<lambda>_. g) (Suc (Suc (Suc 0))) =
     (to_local_sequence (fv_session_timeout_local_activity g s), to_local_generation (fv_session_timeout_local_activity g s))"
  by (simp add: fv_session_timeout_local_activity_def local_count_def local_store_def)

lemma third_cases: "n mod 3 = 0 \<and> Suc n mod 3 = 1 \<and> Suc n div 3 = n div 3 \<or>
    n mod 3 = 1 \<and> Suc n mod 3 = 2 \<and> Suc n div 3 = n div 3 \<or> n mod 3 = 2 \<and> Suc n mod 3 = 0 \<and> Suc n div 3 = Suc (n div 3)"
  for n :: nat
proof -
  have "n mod 3 < 3" by simp
  then have "n mod 3 = 0 \<or> n mod 3 = 1 \<or> n mod 3 = 2" by linarith
  then show ?thesis by (auto simp: mod_Suc div_Suc)
qed

definition counted :: "nat \<Rightarrow> nat" where
  "counted n = 2 * (n div 3) + (if n mod 3 = 0 then 0 else 1)"

lemma counted_Suc: "counted (Suc n) = (if n mod 3 = 1 then counted n else counted n + 1)"
  using third_cases [of n] by (auto simp: counted_def)

lemma counted_0 [simp]: "counted 0 = 0"
  by (simp add: counted_def)

lemma local_sequence: "fst (local_words (s0, g0) gens n) = s0 + of_nat (counted n)"
  by (induction n) (simp_all add: counted_Suc split_beta add.assoc)

lemma counted_mono: "counted n \<le> counted (n + k) \<and> counted (n + k) \<le> counted n + k"
proof (induction k)
  case (Suc k)
  then show ?case using counted_Suc [of "n + k"] by (simp split: if_splits)
qed simp

lemma counted_even: "even (counted n) \<longleftrightarrow> n mod 3 = 0"
  by (simp add: counted_def)

lemma counted_even_inj:
  assumes "even (counted n)" "counted n = counted m"
  shows "n = m"
proof -
  have "n mod 3 = 0" "m mod 3 = 0" using assms by (simp_all add: counted_even [symmetric])
  moreover from this have "n div 3 = m div 3" using assms(2) by (simp add: counted_def)
  ultimately show ?thesis by (metis mult_div_mod_eq)
qed

lemma local_generation: "snd (local_words (s0, g0) gens (3 * Suc k)) = gens k"
proof -
  have n: "3 * Suc k = Suc (Suc (Suc (3 * k)))" by simp
  have "Suc (3 * k) mod 3 = 1" "Suc (Suc (3 * k)) mod 3 = 2" "Suc (3 * k) div 3 = k" by (simp_all add: mod_Suc div_Suc)
  then show ?thesis unfolding n by (simp add: split_beta)
qed

text \<open>C40. A button press is never torn. Core 0 publishes an event in three atomic stores, the worker takes one
  in three loads, in any interleaving. If the worker takes an event, its three loads all saw one quiet point
  between two events, and the generation it compared with the session's is the one of the last event
  published before that point, provided fewer than 2^31 stores fit between the first and the last load. So a
  press in an old session never extends a new one.\<close>

theorem button_event_never_torn:
  assumes "n1 \<le> n2" "n2 \<le> n3" "n3 - n1 < 2 ^ 31" "even s0"
    "take_event (fst (local_words (s0, g0) gens n1)) (snd (local_words (s0, g0) gens n2)) (fst (local_words (s0, g0) gens n3))
       generation consumed = (taken, consumed')" "consumed' \<noteq> consumed"
  shows "n2 = n1 \<and> n3 = n1 \<and> n1 mod 3 = 0 \<and> taken = (generation = (if n1 = 0 then g0 else gens (n1 div 3 - 1)))"
proof -
  have seq: "fst (local_words (s0, g0) gens n) = s0 + of_nat (counted n)" for n by (rule local_sequence)
  have t: "(s0 + of_nat (counted n1)) AND 1 = 0" "s0 + of_nat (counted n1) = s0 + of_nat (counted n3)"
    "taken = (snd (local_words (s0, g0) gens n2) = generation)"
    using assms(5,6) unfolding seq by (auto simp: take_event_def split: if_splits)
  obtain k where k: "n3 = n1 + k" using assms(1,2) le_Suc_ex le_trans by blast
  have "counted n1 \<le> counted n3" "counted n3 < counted n1 + 2 ^ 31" using counted_mono [of n1 k] assms(3) k by simp_all
  then obtain d where d: "counted n3 = counted n1 + d" "d < 2 ^ 31" by (metis le_Suc_ex nat_add_left_cancel_less)
  then have "(of_nat d :: u32) = 0" using t(2) by simp
  then have dvd: "2 ^ 32 dvd d" by (simp add: word_of_nat_eq_0_iff)
  have "d < 2 ^ 32" using d(2) by simp
  with dvd have "d = 0" by (cases "d = 0") (auto dest: dvd_imp_le)
  then have c: "counted n1 = counted n3" using d(1) by simp
  have "\<not> bit (s0 + of_nat (counted n1)) 0" using t(1) by (metis and_push_bit_1 push_bit_0_id id_apply)
  then have "even (counted n1)" using assms(4) by (simp add: bit_0)
  then have n: "n3 = n1" "n1 mod 3 = 0" using counted_even_inj [of n1 n3] c counted_even by simp_all
  then have n2: "n2 = n1" using assms(1,2) by simp
  have e: "snd (local_words (s0, g0) gens n1) = (if n1 = 0 then g0 else gens (n1 div 3 - 1))"
  proof (cases "n1 div 3")
    case 0
    then have "n1 = 0" using n(2) by (metis mult_div_mod_eq mult_0_right add_0)
    then show ?thesis by simp
  next
    case (Suc k)
    then have "n1 = 3 * Suc k" using n(2) by (metis mult_div_mod_eq add_0_right)
    then show ?thesis using local_generation [of s0 g0 gens k] Suc by simp
  qed
  have "taken = (generation = snd (local_words (s0, g0) gens n1))" using t(3) unfolding n2 by blast
  then show ?thesis using n n2 e by simp
qed

lemma button_event_never_torn_witness:
  "take_event (fst (local_words (0, 0) (\<lambda>_. 5) 3)) (snd (local_words (0, 0) (\<lambda>_. 5) 3)) (fst (local_words (0, 0) (\<lambda>_. 5) 3)) 5 0 = (True, 2)
   \<and> (3 :: nat) mod 3 = 0"
proof -
  have "local_words (0, 0) (\<lambda>_. 5) (Suc (Suc (Suc 0))) = (2, 5)" by simp
  then have w: "local_words (0, 0) (\<lambda>_. 5) 3 = (2, 5)" by (simp only: numeral_3_eq_3)
  have t: "take_event (fst (local_words (0, 0) (\<lambda>_. 5) 3)) (snd (local_words (0, 0) (\<lambda>_. 5) 3)) (fst (local_words (0, 0) (\<lambda>_. 5) 3)) 5 0 = (True, 2)"
    unfolding w by (simp add: take_event_def)
  show ?thesis using button_event_never_torn [OF le_refl le_refl _ _ t] t by simp
qed

end
