(* ===== verification/Session_Worker.thy ===== *)
theory Session_Worker
  imports Session_Scope Session_Timeout Fido_Verification Fido_Journal_Recovery Ui_Adapter Ui_Job
begin

text \<open>
  The security worker on core 1 (\<^verbatim>\<open>src/src/pico/device/commands.c\<close>): it alone owns the open vault, its scope,
  its inactivity timer and the FIDO store, and executes the requests of the USB transport
  (\<^verbatim>\<open>usb_vault_io.h\<close>). Core 0 runs concurrently: before every read of shared state by the worker (the clock,
  the invalidation flag, the cancellation flag) it may have done anything. So the state carries a schedule
  \<open>wk_core0\<close>: what core 0 has done before the n-th such read, namely button events and the new values of the
  flags; and \<open>wk_prompts\<close>: how the n-th FIDO prompt is answered. All theorems hold for every schedule. The published generation is an atomic word that only the
  worker writes. The build is the product build with USB storage, FIDO and the user interface.
\<close>

section \<open>Requests\<close>

datatype fv_usb_op = FV_USB_NONE | FV_USB_STATUS | FV_USB_READ | FV_USB_WRITE | FV_USB_LOCK | FV_USB_SYNC

text \<open>The data are a buffer at an address; address 0 is NULL.\<close>

record fv_usb_request =
  rq_op :: fv_usb_op
  rq_lba :: u32
  rq_count :: u32
  rq_generation :: u32
  rq_data :: "nat \<times> u8 list"

record fv_usb_response =
  rs_result :: fv_block_result
  rs_blocks :: u32
  rs_generation :: u32
  rs_unlocked :: bool
  rs_mode :: fv_access_mode

text \<open>What the queue between the cores carries; a FIDO command is the request already in the HID buffer.\<close>

datatype worker_command =
    Storage_Command fv_usb_request
  | Ui_Command fv_ui_job
  | Fido_Command u32 "u8 list"
  | Text_Command string

section \<open>State\<close>

record core0_input =
  c0_now_ms :: u64
  c0_invalidate :: bool
  c0_cancel :: bool
  c0_enumerated :: "u32 option"
  c0_activity :: "u32 list"

text \<open>How core 0 and the user treat one prompt: the commands queued in each turn of the loop that waits for the
  answer, the answer, and the commands queued while the prompt is dismissed.\<close>

record prompt_input =
  pi_waiting :: "worker_command option list"
  pi_approved :: bool
  pi_value :: "u8 list"
  pi_length :: nat
  pi_drained :: "worker_command option"
  pi_dismissing :: "worker_command option list"

record ('a, 'd, 'r, 'e) worker =
  wk_core0 :: "nat \<Rightarrow> core0_input"
  wk_read :: nat
  wk_vault :: fv_vault
  wk_access :: fv_session_access
  wk_world :: "('a, 'd, 'r) vault_world"
  wk_timeout :: session_timeout
  wk_published :: u32
  wk_ui_disconnected :: bool
  wk_sd_initialized :: bool
  wk_rng_ready :: bool
  wk_verification :: fv_fido_verification_t
  wk_store :: fv_fido_journal
  wk_engine :: 'e
  wk_engine_open :: bool
  wk_executing :: bool
  wk_invalidated :: bool
  wk_uv_policy :: u8
  wk_label :: string
  wk_prompts :: "nat \<Rightarrow> prompt_input"
  wk_asked :: nat
  wk_mailbox :: fido_prompt
  wk_prompt_abort :: bool

text \<open>Code that is not part of the repository or drives the hardware: the libraries, the platform, the card
  driver, the set-up and clearing of the random source, the parsing of the site in a request (TinyCBOR), and
  the closing of the FIDO engine.\<close>

record ('a, 'd, 'r, 'e) worker_lib =
  wl_sha :: sha_lib
  wl_ciphers :: cipher_lib
  wl_platform :: "('a, 'd, 'r) fv_vault_platform"
  wl_sd_init :: "'d \<Rightarrow> bool \<times> 'd"
  wl_sd_reinitialize :: "'d \<Rightarrow> bool \<times> 'd"
  wl_start_random :: "'r \<Rightarrow> bool \<times> 'r"
  wl_random_clear :: "'r \<Rightarrow> 'r"
  wl_rp_name :: "u8 \<Rightarrow> u8 list \<Rightarrow> string option"
  wl_engine_close :: "'e \<Rightarrow> 'e"

definition core0 :: "('a, 'd, 'r, 'e) worker \<Rightarrow> core0_input \<times> ('a, 'd, 'r, 'e) worker" where
  "core0 w =
     (let i = wk_core0 w (wk_read w) in
      (i, w\<lparr>wk_read := Suc (wk_read w), wk_timeout := fold fv_session_timeout_local_activity (c0_activity i) (wk_timeout w)\<rparr>))"

definition time_ms :: "('a, 'd, 'r, 'e) worker \<Rightarrow> u64 \<times> ('a, 'd, 'r, 'e) worker" where
  "time_ms w = (case core0 w of (i, w) \<Rightarrow> (c0_now_ms i, w))"

definition fv_usb_session_invalidated :: "('a, 'd, 'r, 'e) worker \<Rightarrow> bool \<times> ('a, 'd, 'r, 'e) worker" where
  "fv_usb_session_invalidated w = (case core0 w of (i, w) \<Rightarrow> (c0_invalidate i, w))"

definition fv_usb_publish_generation :: "u32 \<Rightarrow> ('a, 'd, 'r, 'e) worker \<Rightarrow> ('a, 'd, 'r, 'e) worker" where
  "fv_usb_publish_generation generation w = w\<lparr>wk_published := generation\<rparr>"

section \<open>Locking\<close>

definition usb_mode :: "('a, 'd, 'r, 'e) worker \<Rightarrow> fv_access_mode" where
  "usb_mode w = fv_session_mode (wk_access w) (wk_vault w)"

definition fv_fido_close ::
  "('a, 'd, 'r, 'e) worker_lib \<Rightarrow> ('a, 'd, 'r, 'e) worker \<Rightarrow> ('a, 'd, 'r, 'e) worker" where
  "fv_fido_close W w =
     (let w = w\<lparr>wk_verification := fv_fido_verification_clear\<rparr> in
      if wk_executing w then w\<lparr>wk_invalidated := True\<rparr>
      else w\<lparr>wk_engine := (if wk_engine_open w then wl_engine_close W (wk_engine w) else wk_engine w),
             wk_engine_open := False, wk_store := fv_fido_journal_close\<rparr>)"

definition worker_session_lock :: "('a, 'd, 'r, 'e) worker \<Rightarrow> ('a, 'd, 'r, 'e) worker" where
  "worker_session_lock w = (case fv_session_lock (wk_access w) of (a, v) \<Rightarrow> w\<lparr>wk_access := a, wk_vault := v\<rparr>)"

definition usb_lock ::
  "('a, 'd, 'r, 'e) worker_lib \<Rightarrow> ('a, 'd, 'r, 'e) worker \<Rightarrow> ('a, 'd, 'r, 'e) worker" where
  "usb_lock W w =
     (let w = fv_usb_publish_generation (sa_generation (wk_access w) + 1) w;
          w = w\<lparr>wk_timeout := fv_session_timeout_stop (wk_timeout w)\<rparr>
      in worker_session_lock (fv_fido_close W w))"

definition fv_session_timeout_lock ::
  "('a, 'd, 'r, 'e) worker_lib \<Rightarrow> ('a, 'd, 'r, 'e) worker \<Rightarrow> ('a, 'd, 'r, 'e) worker" where
  "fv_session_timeout_lock W w = (usb_lock W w)\<lparr>wk_ui_disconnected := True\<rparr>"

section \<open>The timer\<close>

definition usb_timer_start :: "('a, 'd, 'r, 'e) worker \<Rightarrow> ('a, 'd, 'r, 'e) worker" where
  "usb_timer_start w =
     (case time_ms w of (now, w) \<Rightarrow>
        w\<lparr>wk_timeout := fv_session_timeout_start (auto_lock_seconds (ec_policy (v_config (wk_vault w)))) now
                          (sa_generation (wk_access w)) (wk_timeout w)\<rparr>)"

text \<open>\<^verbatim>\<open>fv_session_timeout_poll\<close> and \<^verbatim>\<open>fv_session_timeout_activity\<close> with their lock callback.\<close>

definition worker_timer ::
  "('a, 'd, 'r, 'e) worker_lib \<Rightarrow> (u64 \<Rightarrow> u32 \<Rightarrow> session_timeout \<Rightarrow> bool \<times> session_timeout) \<Rightarrow> u32
   \<Rightarrow> ('a, 'd, 'r, 'e) worker \<Rightarrow> bool \<times> ('a, 'd, 'r, 'e) worker" where
  "worker_timer W op generation w =
     (case time_ms w of (now, w) \<Rightarrow>
      case op now generation (wk_timeout w) of (expired, s) \<Rightarrow>
        (let w = w\<lparr>wk_timeout := s\<rparr> in (expired, if expired then fv_session_timeout_lock W w else w)))"

definition usb_timer_poll ::
  "('a, 'd, 'r, 'e) worker_lib \<Rightarrow> ('a, 'd, 'r, 'e) worker \<Rightarrow> bool \<times> ('a, 'd, 'r, 'e) worker" where
  "usb_timer_poll W w = worker_timer W fv_session_timeout_poll (sa_generation (wk_access w)) w"

definition usb_timer_activity ::
  "('a, 'd, 'r, 'e) worker_lib \<Rightarrow> u32 \<Rightarrow> ('a, 'd, 'r, 'e) worker \<Rightarrow> bool \<times> ('a, 'd, 'r, 'e) worker" where
  "usb_timer_activity W generation w = worker_timer W fv_session_timeout_activity generation w"

section \<open>Requests of the USB transport\<close>

definition FV_USB_IO_BYTES :: nat where "FV_USB_IO_BYTES = 32768"

definition fv_usb_vault_io ::
  "('a, 'd, 'r, 'e) worker_lib \<Rightarrow> fv_usb_request \<Rightarrow> fv_access_mode \<Rightarrow> u32 \<Rightarrow> fv_vault \<times> ('a, 'd, 'r) vault_world
   \<Rightarrow> fv_block_result \<times> u8 list \<times> fv_vault \<times> ('a, 'd, 'r) vault_world" where
  "fv_usb_vault_io W rq mode generation = (\<lambda>(v, w).
     let blocks = logical_blocks (ec_volume (v_config v)); buf = snd (rq_data rq) in
     if fst (rq_data rq) = 0 \<or> rq_count rq = 0 \<or> unat (rq_count rq) > FV_USB_IO_BYTES div 512 \<or>
        rq_op rq \<noteq> FV_USB_READ \<and> rq_op rq \<noteq> FV_USB_WRITE
     then (FV_BLOCK_ERROR_INVALID_ARGUMENT, buf, v, w)
     else if \<not> v_unlocked v \<or> \<not> fv_access_files mode \<or> rq_generation rq \<noteq> generation
     then (FV_BLOCK_ERROR_NOT_READY, buf, v, w)
     else if rq_op rq = FV_USB_WRITE \<and> \<not> fv_access_writable mode then (FV_BLOCK_ERROR_READ_ONLY, buf, v, w)
     else if ucast (rq_lba rq) \<ge> blocks \<or> ucast (rq_count rq) > blocks - ucast (rq_lba rq)
     then (FV_BLOCK_ERROR_OUT_OF_RANGE, buf, v, w)
     else if rq_op rq = FV_USB_READ
     then fv_vault_read (wl_sha W) (wl_platform W) (unat (rq_lba rq)) (unat (rq_count rq)) (rq_data rq) (v, w)
     else fv_vault_write (wl_sha W) (wl_platform W) (unat (rq_lba rq)) (unat (rq_count rq)) (rq_data rq) (v, w))"

text \<open>The branch \<^verbatim>\<open>FV_USB_READ\<close>, \<^verbatim>\<open>FV_USB_WRITE\<close> of the switch.\<close>

definition storage_io ::
  "('a, 'd, 'r, 'e) worker_lib \<Rightarrow> fv_usb_request \<Rightarrow> ('a, 'd, 'r, 'e) worker
   \<Rightarrow> fv_block_result \<times> u8 list \<times> ('a, 'd, 'r, 'e) worker" where
  "storage_io W rq w =
     (case fv_usb_vault_io W rq (usb_mode w) (sa_generation (wk_access w)) (wk_vault w, wk_world w) of
        (result, buf, v, vw) \<Rightarrow>
      let w = w\<lparr>wk_vault := v, wk_world := vw\<rparr>;
          w = (if result \<notin> {FV_BLOCK_OK, FV_BLOCK_ERROR_OUT_OF_RANGE, FV_BLOCK_ERROR_INVALID_ARGUMENT,
                             FV_BLOCK_ERROR_READ_ONLY, FV_BLOCK_ERROR_NOT_READY} then usb_lock W w else w);
          w = (if \<not> v_unlocked (wk_vault w) \<and> sa_mode (wk_access w) \<noteq> FV_ACCESS_LOCKED then usb_lock W w else w)
      in if result = FV_BLOCK_OK \<and> rq_count rq \<noteq> 0
         then (case usb_timer_activity W (sa_generation (wk_access w)) w of (expired, w) \<Rightarrow>
                 if expired then (FV_BLOCK_ERROR_NOT_READY, memset buf 0 0 (unat (rq_count rq) * 512), w)
                 else (result, buf, w))
         else (result, buf, w))"

definition storage_response :: "fv_block_result \<Rightarrow> ('a, 'd, 'r, 'e) worker \<Rightarrow> fv_usb_response" where
  "storage_response result w =
     \<lparr>rs_result = result,
      rs_blocks = (if fv_access_files (usb_mode w) then ucast (logical_blocks (ec_volume (v_config (wk_vault w)))) else 0),
      rs_generation = sa_generation (wk_access w), rs_unlocked = v_unlocked (wk_vault w), rs_mode = usb_mode w\<rparr>"

text \<open>What precedes the switch: the deadline and a bus event come first.\<close>

definition storage_enter ::
  "('a, 'd, 'r, 'e) worker_lib \<Rightarrow> ('a, 'd, 'r, 'e) worker \<Rightarrow> ('a, 'd, 'r, 'e) worker" where
  "storage_enter W w =
     (case usb_timer_poll W w of (_, w) \<Rightarrow>
      case fv_usb_session_invalidated w of (invalid, w) \<Rightarrow> if invalid then usb_lock W w else w)"

definition fv_usb_storage_execute ::
  "('a, 'd, 'r, 'e) worker_lib \<Rightarrow> fv_usb_request \<Rightarrow> ('a, 'd, 'r, 'e) worker
   \<Rightarrow> fv_usb_response \<times> u8 list \<times> ('a, 'd, 'r, 'e) worker" where
  "fv_usb_storage_execute W rq w =
     (let w = storage_enter W w; buf = snd (rq_data rq) in
      case (case rq_op rq of
              FV_USB_LOCK \<Rightarrow> (FV_BLOCK_OK, buf, usb_lock W w)
            | FV_USB_READ \<Rightarrow> storage_io W rq w
            | FV_USB_WRITE \<Rightarrow> storage_io W rq w
            | FV_USB_SYNC \<Rightarrow> (if fv_access_files (usb_mode w) then FV_BLOCK_OK else FV_BLOCK_ERROR_NOT_READY, buf, w)
            | FV_USB_STATUS \<Rightarrow> (FV_BLOCK_OK, buf, w)
            | FV_USB_NONE \<Rightarrow> (FV_BLOCK_ERROR_INVALID_ARGUMENT, buf, w)) of
        (result, buf, w) \<Rightarrow> (storage_response result w, buf, w))"

section \<open>A credential for FIDO\<close>

text \<open>The secret opens or reverifies the session.\<close>

definition verify_session ::
  "('a, 'd, 'r, 'e) worker_lib \<Rightarrow> u8 list \<Rightarrow> ('a, 'd, 'r, 'e) worker \<Rightarrow> fv_vault_result \<times> ('a, 'd, 'r, 'e) worker" where
  "verify_session W secret w =
     (case (if v_unlocked (wk_vault w)
            then fv_session_reverify_fido (wl_sha W) (wl_ciphers W) (wl_platform W) secret (wk_access w, wk_vault w, wk_world w)
            else fv_session_unlock (wl_sha W) (wl_ciphers W) (wl_platform W) secret FV_ACCESS_PASSKEYS_ONLY
                   (wk_access w, wk_vault w, wk_world w)) of
        (r, a, v, vw) \<Rightarrow> (r, fv_usb_publish_generation (sa_generation a) (w\<lparr>wk_access := a, wk_vault := v, wk_world := vw\<rparr>)))"

definition fv_fido_verify_secret ::
  "('a, 'd, 'r, 'e) worker_lib \<Rightarrow> u8 list \<Rightarrow> ('a, 'd, 'r, 'e) worker \<Rightarrow> fv_vault_result \<times> ('a, 'd, 'r, 'e) worker" where
  "fv_fido_verify_secret W secret w =
     (case usb_timer_poll W w of (expired, w) \<Rightarrow>
      if expired then (FV_VAULT_DENIED, w)
      else if v_unlocked (wk_vault w) \<and> \<not> fv_access_fido (usb_mode w) then (FV_VAULT_DENIED, w)
      else case fv_usb_session_invalidated w of (invalid, w) \<Rightarrow>
      if invalid then (FV_VAULT_DENIED, usb_lock W w)
      else
        (let was_unlocked = v_unlocked (wk_vault w) in
         case verify_session W secret w of (r, w) \<Rightarrow>
         if r \<noteq> FV_VAULT_OK \<or> logical_blocks (ec_volume (v_config (wk_vault w))) > UINT32_MAX
         then (if r \<noteq> FV_VAULT_OK then r else FV_VAULT_INVALID, usb_lock W w)
         else case fv_usb_session_invalidated w of (invalid, w) \<Rightarrow>
         if invalid then (FV_VAULT_DENIED, usb_lock W w)
         else if was_unlocked
         then (case usb_timer_activity W (sa_generation (wk_access w)) w of (expired, w) \<Rightarrow>
                 (if expired then FV_VAULT_DENIED else FV_VAULT_OK, w))
         else (FV_VAULT_OK, usb_timer_start w)))"

end
