(* ===== verification/Usb_Transport.thy ===== *)
theory Usb_Transport
  imports Session_Worker
begin

text \<open>
  USB mass storage on core 0: the bridge to the worker (\<^verbatim>\<open>src/src/pico/device/usb_storage_bridge.c\<close>) and
  the transfer pipeline behind the USB stack's callbacks (\<^verbatim>\<open>usb_storage.c\<close>). The worker, the interrupts and
  the other parts of core 0 act between any two accesses to shared state. So the state carries a schedule
  \<open>us_turns\<close>: what happened before the n-th access, and what it finds. The theorems hold for every schedule.

  The queue to the worker carries one storage request; from the moment it is submitted to the moment its
  response is taken, the worker owns the part of the batch buffer it refers to. \<open>us_race\<close> is a monitor, not a
  variable of the code: it is set when core 0 writes that buffer while the worker owns it.
\<close>

section \<open>State\<close>

datatype dcd_event = DCD_EVENT_BUS_RESET | DCD_EVENT_UNPLUGGED | DCD_EVENT_SUSPEND | DCD_EVENT_OTHER

record usb_turn =
  ut_event :: "dcd_event option"
  ut_generation :: u32
  ut_answered :: bool
  ut_answer :: "fv_usb_request \<Rightarrow> fv_usb_response \<times> u8 list"
  ut_accepts :: bool
  ut_fido_busy :: bool
  ut_disk_available :: bool
  ut_maintenance :: bool

datatype scsi_key =
  SCSI_SENSE_NOT_READY | SCSI_SENSE_MEDIUM_ERROR | SCSI_SENSE_ILLEGAL_REQUEST | SCSI_SENSE_UNIT_ATTENTION | SCSI_SENSE_DATA_PROTECT

record usb_core =
  us_turns :: "nat \<Rightarrow> usb_turn"
  us_read :: nat
  us_invalidate :: bool
  us_commands :: "fv_usb_request option"
  us_async_pending :: bool
  us_async_ready :: bool
  us_async_response :: fv_usb_response
  us_cached_status :: fv_usb_response
  us_fido_cancel :: bool
  us_fido_disconnected :: bool
  us_fido_enumerated :: bool
  us_ui_disconnected :: bool
  us_ui_unlocked :: bool
  us_ui_refresh :: bool
  us_scratch :: "u8 list"
  us_observed_generation :: u32
  us_activity_read :: u32
  us_activity_write :: u32
  us_transport_buffer :: nat
  us_transport_bytes :: u32
  us_memory :: "nat \<Rightarrow> u8 list"
  us_command_active :: bool
  us_command_write :: bool
  us_pending :: bool
  us_ready :: bool
  us_final_write :: bool
  us_command_lba :: u32
  us_command_left :: u32
  us_pending_bytes :: u32
  us_command_generation :: u32
  us_command_mode :: fv_access_mode
  us_completed :: fv_usb_response
  us_sense :: "(u8 \<times> scsi_key \<times> u8) option"
  us_race :: bool

definition response_zero :: fv_usb_response where
  "response_zero = \<lparr>rs_result = FV_BLOCK_OK, rs_blocks = 0, rs_generation = 0, rs_unlocked = False, rs_mode = FV_ACCESS_LOCKED\<rparr>"

definition response_not_ready :: fv_usb_response where
  "response_not_ready = response_zero\<lparr>rs_result := FV_BLOCK_ERROR_NOT_READY\<rparr>"

text \<open>The batch buffer is aligned; its address in the model only has to be an aligned one.\<close>

definition SCRATCH :: nat where "SCRATCH = 4"

section \<open>Shared state\<close>

definition fv_fido_disconnect :: "usb_core \<Rightarrow> usb_core" where
  "fv_fido_disconnect s = s\<lparr>us_fido_cancel := True, us_fido_disconnected := True, us_fido_enumerated := False\<rparr>"

definition tud_umount_cb :: "usb_core \<Rightarrow> usb_core" where
  "tud_umount_cb s = (fv_fido_disconnect (s\<lparr>us_invalidate := True\<rparr>))\<lparr>us_ui_disconnected := True\<rparr>"

definition tud_event_hook_cb :: "dcd_event \<Rightarrow> usb_core \<Rightarrow> usb_core" where
  "tud_event_hook_cb e s =
     (if e \<in> {DCD_EVENT_BUS_RESET, DCD_EVENT_UNPLUGGED, DCD_EVENT_SUSPEND}
      then (fv_fido_disconnect (s\<lparr>us_invalidate := True\<rparr>))\<lparr>us_ui_disconnected := True\<rparr> else s)"

text \<open>One access to shared state: an interrupt may come first.\<close>

definition turn :: "usb_core \<Rightarrow> usb_turn \<times> usb_core" where
  "turn s =
     (let t = us_turns s (us_read s);
          s = (case ut_event t of None \<Rightarrow> s | Some e \<Rightarrow> tud_event_hook_cb e s)
      in (t, s\<lparr>us_read := Suc (us_read s)\<rparr>))"

definition load_invalidate :: "usb_core \<Rightarrow> bool \<times> usb_core" where
  "load_invalidate s = (case turn s of (t, s) \<Rightarrow> (us_invalidate s, s))"

definition exchange_invalidate :: "usb_core \<Rightarrow> bool \<times> usb_core" where
  "exchange_invalidate s = (case turn s of (t, s) \<Rightarrow> (us_invalidate s, s\<lparr>us_invalidate := False\<rparr>))"

definition fv_usb_session_generation :: "usb_core \<Rightarrow> u32 \<times> usb_core" where
  "fv_usb_session_generation s = (case turn s of (t, s) \<Rightarrow> (ut_generation t, s))"

definition load_fido_busy :: "usb_core \<Rightarrow> bool \<times> usb_core" where
  "load_fido_busy s = (case turn s of (t, s) \<Rightarrow> (ut_fido_busy t, s))"

definition load_disk_available :: "usb_core \<Rightarrow> bool \<times> usb_core" where
  "load_disk_available s = (case turn s of (t, s) \<Rightarrow> (ut_disk_available t, s))"

definition load_maintenance :: "usb_core \<Rightarrow> bool \<times> usb_core" where
  "load_maintenance s = (case turn s of (t, s) \<Rightarrow> (ut_maintenance t, s))"

text \<open>The user interface learns whether the vault is open.\<close>

definition fv_device_ui_media_changed :: "bool \<Rightarrow> usb_core \<Rightarrow> usb_core" where
  "fv_device_ui_media_changed unlocked s = (if us_ui_unlocked s \<noteq> unlocked then s\<lparr>us_ui_refresh := True\<rparr> else s)"

definition fv_device_ui_refresh :: "usb_core \<Rightarrow> usb_core" where
  "fv_device_ui_refresh s = s\<lparr>us_ui_refresh := True\<rparr>"

section \<open>The queue\<close>

definition worker_owns :: "usb_core \<Rightarrow> bool" where
  "worker_owns s \<longleftrightarrow> (case us_commands s of None \<Rightarrow> False | Some rq \<Rightarrow> fst (rq_data rq) \<noteq> 0)"

definition set_scratch :: "u8 list \<Rightarrow> usb_core \<Rightarrow> usb_core" where
  "set_scratch b s = s\<lparr>us_scratch := b, us_race := us_race s \<or> worker_owns s\<rparr>"

text \<open>The worker has executed the request; its buffer belongs to core 0 again.\<close>

definition worker_answer :: "usb_turn \<Rightarrow> fv_usb_request \<Rightarrow> usb_core \<Rightarrow> fv_usb_response \<times> usb_core" where
  "worker_answer t rq s =
     (case ut_answer t rq of (r, out) \<Rightarrow>
        (r, s\<lparr>us_commands := None,
              us_scratch := (if fst (rq_data rq) = 0 then us_scratch s else memcpy (us_scratch s) 0 out)\<rparr>))"

definition queue_try_remove :: "usb_core \<Rightarrow> fv_usb_response option \<times> usb_core" where
  "queue_try_remove s =
     (case turn s of (t, s) \<Rightarrow>
      case us_commands s of
        None \<Rightarrow> (None, s)
      | Some rq \<Rightarrow> if ut_answered t then (case worker_answer t rq s of (r, s) \<Rightarrow> (Some r, s)) else (None, s))"

text \<open>Waiting for a response; without a request in the queue it would last for ever.\<close>

definition queue_remove_blocking :: "usb_core \<Rightarrow> fv_usb_response option \<times> usb_core" where
  "queue_remove_blocking s =
     (case turn s of (t, s) \<Rightarrow>
      case us_commands s of
        None \<Rightarrow> (None, s)
      | Some rq \<Rightarrow> (case worker_answer t rq s of (r, s) \<Rightarrow> (Some r, s)))"

section \<open>The bridge\<close>

definition usb_control :: "fv_usb_op \<Rightarrow> fv_usb_request" where
  "usb_control op = \<lparr>rq_op = op, rq_lba = 0, rq_count = 0, rq_generation = 0, rq_data = (0, [])\<rparr>"

definition fv_usb_forget_status :: "usb_core \<Rightarrow> usb_core" where
  "fv_usb_forget_status s = s\<lparr>us_cached_status := response_not_ready\<rparr>"

definition suppressed :: "fv_usb_response \<Rightarrow> fv_usb_response" where
  "suppressed r = r\<lparr>rs_result := FV_BLOCK_ERROR_NOT_READY, rs_unlocked := False, rs_blocks := 0, rs_mode := FV_ACCESS_LOCKED\<rparr>"

definition suppress_invalidated :: "fv_usb_response \<Rightarrow> usb_core \<Rightarrow> fv_usb_response \<times> usb_core" where
  "suppress_invalidated r s =
     (case load_invalidate s of (invalid, s) \<Rightarrow>
      if invalid then (suppressed r, s)
      else case fv_usb_session_generation s of (g, s) \<Rightarrow> (if rs_generation r \<noteq> g then suppressed r else r, s))"

definition async_settle :: "fv_usb_response option \<Rightarrow> usb_core \<Rightarrow> usb_core" where
  "async_settle r s =
     (case r of None \<Rightarrow> s | Some r \<Rightarrow> s\<lparr>us_async_pending := False, us_async_ready := True, us_async_response := r\<rparr>)"

definition async_poll :: "usb_core \<Rightarrow> usb_core" where
  "async_poll s = (if us_async_pending s then case queue_try_remove s of (r, s) \<Rightarrow> async_settle r s else s)"

definition fv_usb_worker_idle :: "usb_core \<Rightarrow> bool \<times> usb_core" where
  "fv_usb_worker_idle s = (let s = async_poll s in (\<not> us_async_pending s, s))"

definition fv_usb_async_wait :: "usb_core \<Rightarrow> usb_core" where
  "fv_usb_async_wait s = (if us_async_pending s then case queue_remove_blocking s of (r, s) \<Rightarrow> async_settle r s else s)"

definition fv_usb_async_take :: "usb_core \<Rightarrow> fv_usb_response option \<times> usb_core" where
  "fv_usb_async_take s =
     (let s = async_poll s in
      if \<not> us_async_ready s then (None, s)
      else case suppress_invalidated (us_async_response s) (s\<lparr>us_async_ready := False\<rparr>) of (r, s) \<Rightarrow>
        (Some r, fv_device_ui_media_changed (rs_unlocked r) s))"

text \<open>The two gates of a submission: FIDO work, and maintenance by the front panel.\<close>

definition submit_deferred :: "usb_core \<Rightarrow> bool \<times> usb_core" where
  "submit_deferred s =
     (case load_fido_busy s of (busy, s) \<Rightarrow>
      case (if busy then load_disk_available s else (True, s)) of (available, s) \<Rightarrow>
      if busy \<and> \<not> available then (True, s) else load_maintenance s)"

definition fv_usb_async_submit :: "fv_usb_request \<Rightarrow> usb_core \<Rightarrow> bool \<times> usb_core" where
  "fv_usb_async_submit rq s =
     (case submit_deferred s of (deferred, s) \<Rightarrow>
      if deferred then (False, s)
      else case load_invalidate s of (invalid, s) \<Rightarrow>
      if invalid \<or> us_async_pending s \<or> us_async_ready s then (False, s)
      else case (if rq_op rq = FV_USB_READ \<or> rq_op rq = FV_USB_WRITE then fv_usb_session_generation s
                 else (rq_generation rq, s)) of (g, s) \<Rightarrow>
      if rq_generation rq \<noteq> g then (False, s)
      else case turn s of (t, s) \<Rightarrow>
      if ut_accepts t then (True, s\<lparr>us_commands := Some rq, us_async_pending := True\<rparr>) else (False, s))"

definition transact :: "fv_usb_request \<Rightarrow> usb_core \<Rightarrow> fv_usb_response \<times> usb_core" where
  "transact rq s =
     (case turn (fv_usb_async_wait s) of (t, s) \<Rightarrow>
      case worker_answer t rq s of (r, s) \<Rightarrow> (r, fv_device_ui_media_changed (rs_unlocked r) s))"

section \<open>Clearing\<close>

definition wipe :: "nat \<Rightarrow> u32 \<Rightarrow> usb_core \<Rightarrow> usb_core" where
  "wipe buffer bytes s = s\<lparr>us_memory := (us_memory s)(buffer := memset (us_memory s buffer) 0 0 (unat bytes))\<rparr>"

definition wipe_scratch :: "usb_core \<Rightarrow> usb_core" where
  "wipe_scratch s = set_scratch (zeros FV_USB_IO_BYTES) s"

definition clear_pipeline :: "usb_core \<Rightarrow> usb_core" where
  "clear_pipeline s =
     (case fv_usb_async_take (fv_usb_async_wait s) of (_, s) \<Rightarrow>
      let s = s\<lparr>us_pending := False, us_ready := False, us_final_write := False, us_command_active := False,
                us_command_mode := FV_ACCESS_LOCKED\<rparr>;
          s = wipe_scratch s
      in if us_transport_buffer s \<noteq> 0 then wipe (us_transport_buffer s) (us_transport_bytes s) s else s)"

definition fv_usb_storage_clear_transport :: "usb_core \<Rightarrow> usb_core" where
  "fv_usb_storage_clear_transport s =
     fv_usb_forget_status ((clear_pipeline s)\<lparr>us_activity_read := 0, us_activity_write := 0\<rparr>)"

section \<open>Synchronous requests\<close>

definition fv_usb_storage_poll :: "usb_core \<Rightarrow> usb_core" where
  "fv_usb_storage_poll s =
     (case load_fido_busy s of (busy, s) \<Rightarrow>
      if busy then s
      else case load_maintenance s of (maintenance, s) \<Rightarrow>
      if maintenance then s
      else case exchange_invalidate s of (invalid, s) \<Rightarrow>
      if \<not> invalid then s
      else case transact (usb_control FV_USB_LOCK) s of (_, s) \<Rightarrow>
        fv_device_ui_refresh (fv_usb_storage_clear_transport s))"

text \<open>While FIDO work runs only the cached status is served.\<close>

definition rpc_busy :: "fv_usb_request \<Rightarrow> usb_core \<Rightarrow> fv_usb_response \<times> usb_core" where
  "rpc_busy rq s =
     (case load_invalidate s of (invalid, s) \<Rightarrow>
      if \<not> invalid \<and> rq_op rq \<in> {FV_USB_STATUS, FV_USB_SYNC}
      then (case suppress_invalidated (us_cached_status s) s of (r, s) \<Rightarrow>
              (if rq_op rq = FV_USB_SYNC \<and> (\<not> rs_unlocked r \<or> \<not> fv_access_files (rs_mode r))
               then r\<lparr>rs_result := FV_BLOCK_ERROR_NOT_READY\<rparr> else r, s))
      else (response_not_ready, if rq_op rq = FV_USB_LOCK then fv_fido_disconnect (s\<lparr>us_invalidate := True\<rparr>) else s))"

definition fv_usb_rpc :: "fv_usb_request \<Rightarrow> usb_core \<Rightarrow> fv_usb_response \<times> usb_core" where
  "fv_usb_rpc rq s =
     (case load_maintenance s of (maintenance, s) \<Rightarrow>
      if maintenance then (response_not_ready, s)
      else case load_fido_busy s of (busy, s) \<Rightarrow>
      if busy then rpc_busy rq s
      else case transact rq (fv_usb_storage_poll s) of (r, s) \<Rightarrow>
      case load_invalidate s of (invalid, s) \<Rightarrow>
      case (if invalid then (suppressed r, fv_usb_storage_poll s) else (r, s)) of (r, s) \<Rightarrow>
      case suppress_invalidated r s of (r, s) \<Rightarrow> (r, s\<lparr>us_cached_status := r\<rparr>))"

section \<open>Batches\<close>

definition fv_usb_storage_take_activity :: "usb_core \<Rightarrow> u32 \<times> u32 \<times> usb_core" where
  "fv_usb_storage_take_activity s =
     (us_activity_read s, us_activity_write s, s\<lparr>us_activity_read := 0, us_activity_write := 0\<rparr>)"

text \<open>A completed write counts as activity of the host, if it belongs to the session.\<close>

definition count_write :: "usb_core \<Rightarrow> usb_core" where
  "count_write s =
     (if \<not> us_command_write s then s
      else case fv_usb_session_generation s of (g, s) \<Rightarrow>
      if us_command_generation s = g \<and> rs_result (us_completed s) = FV_BLOCK_OK \<and> rs_unlocked (us_completed s) \<and>
         rs_generation (us_completed s) = us_command_generation s \<and> fv_access_writable (rs_mode (us_completed s))
      then s\<lparr>us_activity_write := us_activity_write s + us_pending_bytes s\<rparr> else s)"

definition harvest :: "usb_core \<Rightarrow> bool \<times> usb_core" where
  "harvest s =
     (case (if us_pending s then fv_usb_async_take s else (None, s)) of (r, s) \<Rightarrow>
      let s = (case r of None \<Rightarrow> s
               | Some r \<Rightarrow> count_write (s\<lparr>us_completed := r, us_pending := False, us_ready := True\<rparr>))
      in (us_ready s, s))"

definition batch_request :: "bool \<Rightarrow> u32 \<Rightarrow> usb_core \<Rightarrow> fv_usb_request" where
  "batch_request write bytes s =
     \<lparr>rq_op = (if write then FV_USB_WRITE else FV_USB_READ), rq_lba = us_command_lba s, rq_count = bytes div 512,
      rq_generation = us_command_generation s, rq_data = (SCRATCH, take (unat bytes) (us_scratch s))\<rparr>"

definition start_batch :: "bool \<Rightarrow> u32 \<Rightarrow> usb_core \<Rightarrow> bool \<times> usb_core" where
  "start_batch write bytes s =
     (case fv_usb_session_generation s of (g, s) \<Rightarrow>
      if us_command_generation s \<noteq> g then (False, s)
      else case fv_usb_async_submit (batch_request write bytes s) s of (ok, s) \<Rightarrow>
      if \<not> ok then (False, s)
      else (True, s\<lparr>us_pending_bytes := bytes, us_pending := True, us_ready := False\<rparr>))"

section \<open>Callbacks of the USB stack\<close>

definition set_sense :: "u8 \<Rightarrow> scsi_key \<Rightarrow> u8 \<Rightarrow> usb_core \<Rightarrow> usb_core" where
  "set_sense lun key asc s = s\<lparr>us_sense := Some (lun, key, asc)\<rparr>"

definition valid_lun :: "u8 \<Rightarrow> usb_core \<Rightarrow> bool \<times> usb_core" where
  "valid_lun lun s = (if lun = 0 then (True, s) else (False, set_sense lun SCSI_SENSE_ILLEGAL_REQUEST 0x25 s))"

definition available :: "u8 \<Rightarrow> fv_usb_response \<Rightarrow> usb_core \<Rightarrow> bool \<times> usb_core" where
  "available lun r s =
     (if \<not> rs_unlocked r \<or> rs_blocks r = 0 \<or> \<not> fv_access_files (rs_mode r)
      then (False, set_sense lun SCSI_SENSE_NOT_READY 0x3a s) else (True, s))"

definition io_error :: "u8 \<Rightarrow> fv_block_result \<Rightarrow> bool \<Rightarrow> usb_core \<Rightarrow> int \<times> usb_core" where
  "io_error lun result write s =
     (- 1, case result of
        FV_BLOCK_ERROR_NOT_READY \<Rightarrow> set_sense lun SCSI_SENSE_NOT_READY 0x3a s
      | FV_BLOCK_ERROR_OUT_OF_RANGE \<Rightarrow> set_sense lun SCSI_SENSE_ILLEGAL_REQUEST 0x21 s
      | FV_BLOCK_ERROR_INVALID_ARGUMENT \<Rightarrow> set_sense lun SCSI_SENSE_ILLEGAL_REQUEST 0x24 s
      | FV_BLOCK_ERROR_READ_ONLY \<Rightarrow> set_sense lun SCSI_SENSE_DATA_PROTECT 0x27 s
      | _ \<Rightarrow> set_sense lun SCSI_SENSE_MEDIUM_ERROR (if write then 0x0c else 0x11) s)"

definition tud_msc_test_unit_ready_cb :: "u8 \<Rightarrow> usb_core \<Rightarrow> bool \<times> usb_core" where
  "tud_msc_test_unit_ready_cb lun s =
     (case valid_lun lun s of (ok, s) \<Rightarrow>
      if \<not> ok then (False, s)
      else case fv_usb_rpc (usb_control FV_USB_STATUS) s of (r, s) \<Rightarrow>
      case available lun r s of (ok, s) \<Rightarrow>
      if \<not> ok then (False, s\<lparr>us_observed_generation := rs_generation r\<rparr>)
      else if us_observed_generation s \<noteq> rs_generation r
      then (False, set_sense lun SCSI_SENSE_UNIT_ATTENTION 0x28 (s\<lparr>us_observed_generation := rs_generation r\<rparr>))
      else (True, s))"

definition tud_msc_capacity_cb :: "u8 \<Rightarrow> usb_core \<Rightarrow> u32 \<times> u16 \<times> usb_core" where
  "tud_msc_capacity_cb lun s =
     (case valid_lun lun s of (ok, s) \<Rightarrow>
      if \<not> ok then (0, 512, s)
      else case fv_usb_rpc (usb_control FV_USB_STATUS) s of (r, s) \<Rightarrow>
      case available lun r s of (ok, s) \<Rightarrow> (if ok then rs_blocks r else 0, 512, s))"

text \<open>The acceptance of a READ or WRITE command, after the pipeline is cleared.\<close>

definition begin_command :: "u8 \<Rightarrow> bool \<Rightarrow> u32 \<Rightarrow> u32 \<Rightarrow> usb_core \<Rightarrow> bool \<times> usb_core" where
  "begin_command lun write lba bytes s =
     (case fv_usb_rpc (usb_control FV_USB_STATUS) s of (r, s) \<Rightarrow>
      case available lun r s of (ok, s) \<Rightarrow>
      if \<not> ok then (False, s)
      else if write \<and> \<not> fv_access_writable (rs_mode r) then (False, snd (io_error lun FV_BLOCK_ERROR_READ_ONLY True s))
      else if lba \<ge> rs_blocks r \<or> bytes div 512 > rs_blocks r - lba
      then (False, snd (io_error lun FV_BLOCK_ERROR_OUT_OF_RANGE write s))
      else (True, s\<lparr>us_command_active := True, us_command_write := write, us_command_lba := lba, us_command_left := bytes,
                    us_command_generation := rs_generation r, us_command_mode := rs_mode r\<rparr>))"

definition fv_usb_storage_begin :: "u8 \<Rightarrow> bool \<Rightarrow> u32 \<Rightarrow> u32 \<Rightarrow> u16 \<Rightarrow> usb_core \<Rightarrow> bool \<times> usb_core" where
  "fv_usb_storage_begin lun write lba bytes block_size s =
     (case valid_lun lun (clear_pipeline s) of (ok, s) \<Rightarrow>
      if \<not> ok then (False, s)
      else if block_size \<noteq> 512 \<or> bytes = 0 \<or> bytes mod 512 \<noteq> 0
      then (False, snd (io_error lun FV_BLOCK_ERROR_INVALID_ARGUMENT write s))
      else begin_command lun write lba bytes s)"

definition tud_msc_is_writable_cb :: "u8 \<Rightarrow> usb_core \<Rightarrow> bool \<times> usb_core" where
  "tud_msc_is_writable_cb lun s =
     (case valid_lun lun s of (ok, s) \<Rightarrow>
      if \<not> ok then (False, s)
      else case load_invalidate s of (invalid, s) \<Rightarrow>
      if invalid then (False, s)
      else if us_command_active s \<and> us_command_write s
      then (if \<not> fv_access_writable (us_command_mode s) then (False, s)
            else case fv_usb_session_generation s of (g, s) \<Rightarrow> (us_command_generation s = g, s))
      else case fv_usb_rpc (usb_control FV_USB_STATUS) s of (r, s) \<Rightarrow>
      case available lun r s of (ok, s) \<Rightarrow> (ok \<and> fv_access_writable (rs_mode r), s))"

section \<open>The transfer\<close>

text \<open>A command outlives its session: the batch is drained, nothing of it is delivered.\<close>

definition transfer_revoked :: "u8 \<Rightarrow> nat \<Rightarrow> u32 \<Rightarrow> bool \<Rightarrow> usb_core \<Rightarrow> int \<times> usb_core" where
  "transfer_revoked lun buffer bytes write s =
     (case (if us_pending s then harvest s else (True, s)) of (settled, s) \<Rightarrow>
      if \<not> settled then (0, s) else io_error lun FV_BLOCK_ERROR_NOT_READY write (wipe buffer bytes (clear_pipeline s)))"

text \<open>Does the completed batch belong to the session, and did it succeed?\<close>

definition completed_good :: "bool \<Rightarrow> usb_core \<Rightarrow> bool \<times> usb_core" where
  "completed_good write s =
     (let r = us_completed s in
      if rs_result r \<noteq> FV_BLOCK_OK \<or> \<not> rs_unlocked r then (False, s)
      else case fv_usb_session_generation s of (g, s) \<Rightarrow>
        (us_command_generation s = g \<and> fv_access_files (rs_mode r) \<and> rs_generation r = us_command_generation s \<and>
         (write \<longrightarrow> fv_access_writable (rs_mode r)), s))"

definition completed_error :: "bool \<Rightarrow> usb_core \<Rightarrow> fv_block_result" where
  "completed_error write s =
     (let r = us_completed s in
      if rs_result r \<noteq> FV_BLOCK_OK then rs_result r
      else if rs_generation r = us_command_generation s \<and> rs_unlocked r \<and> fv_access_files (rs_mode r) \<and>
              write \<and> \<not> fv_access_writable (rs_mode r) then FV_BLOCK_ERROR_READ_ONLY
      else FV_BLOCK_ERROR_NOT_READY)"

definition transfer_write :: "nat \<Rightarrow> u32 \<Rightarrow> usb_core \<Rightarrow> int \<times> usb_core" where
  "transfer_write buffer bytes s =
     (if us_final_write s
      then (int (unat bytes),
            wipe buffer bytes (wipe_scratch (s\<lparr>us_final_write := False, us_ready := False, us_command_active := False\<rparr>)))
      else
        (let s = (if us_ready s then wipe_scratch (s\<lparr>us_ready := False\<rparr>) else s);
             s = set_scratch (memcpy (us_scratch s) 0 (take (unat bytes) (us_memory s buffer))) s
         in case start_batch True bytes s of (ok, s) \<Rightarrow>
            if \<not> ok then (0, wipe_scratch s)
            else if bytes = us_command_left s then (0, s\<lparr>us_final_write := True\<rparr>)
            else (int (unat bytes),
                  wipe buffer bytes (s\<lparr>us_command_left := us_command_left s - bytes,
                                       us_command_lba := us_command_lba s + bytes div 512\<rparr>))))"

definition deliver :: "nat \<Rightarrow> u32 \<Rightarrow> usb_core \<Rightarrow> usb_core" where
  "deliver buffer bytes s =
     (let s = s\<lparr>us_memory := (us_memory s)(buffer := memcpy (us_memory s buffer) 0 (take (unat bytes) (us_scratch s)))\<rparr>;
          s = wipe_scratch s
      in s\<lparr>us_ready := False, us_command_left := us_command_left s - bytes,
           us_command_lba := us_command_lba s + bytes div 512, us_activity_read := us_activity_read s + bytes\<rparr>)"

definition transfer_read :: "nat \<Rightarrow> u32 \<Rightarrow> usb_core \<Rightarrow> int \<times> usb_core" where
  "transfer_read buffer bytes s =
     (if \<not> us_ready s then (0, snd (start_batch False bytes (wipe buffer bytes s)))
      else
        (let s = deliver buffer bytes s
         in (int (unat bytes),
             if us_command_left s \<noteq> 0
             then snd (start_batch False (if us_command_left s < of_nat FV_USB_IO_BYTES then us_command_left s
                                          else of_nat FV_USB_IO_BYTES) s)
             else s\<lparr>us_command_active := False\<rparr>)))"

text \<open>The stages of a transfer: arguments, the session, the position in the command, the previous batch.\<close>

definition remember_buffer :: "nat \<Rightarrow> u32 \<Rightarrow> usb_core \<Rightarrow> usb_core" where
  "remember_buffer buffer bytes s =
     (if us_transport_buffer s \<noteq> buffer then s\<lparr>us_transport_buffer := buffer, us_transport_bytes := bytes\<rparr>
      else if bytes > us_transport_bytes s then s\<lparr>us_transport_bytes := bytes\<rparr> else s)"

definition transfer_gate :: "usb_core \<Rightarrow> bool \<times> usb_core" where
  "transfer_gate s =
     (case load_invalidate (fv_usb_storage_poll s) of (invalid, s) \<Rightarrow>
      if invalid then (False, s)
      else if us_command_active s
      then (case fv_usb_session_generation s of (g, s) \<Rightarrow> (us_command_generation s = g, s))
      else (True, s))"

definition transfer_batch :: "u8 \<Rightarrow> nat \<Rightarrow> u32 \<Rightarrow> bool \<Rightarrow> usb_core \<Rightarrow> int \<times> usb_core" where
  "transfer_batch lun buffer bytes write s =
     (case (if us_pending s then harvest s else (True, s)) of (settled, s) \<Rightarrow>
      if \<not> settled then (0, s)
      else case (if us_ready s then completed_good write s else (True, s)) of (good, s) \<Rightarrow>
      if \<not> good then io_error lun (completed_error write s) write (clear_pipeline s)
      else if write then transfer_write buffer bytes s
      else transfer_read buffer bytes s)"

definition transfer :: "u8 \<Rightarrow> u32 \<Rightarrow> u32 \<Rightarrow> nat \<Rightarrow> u32 \<Rightarrow> bool \<Rightarrow> usb_core \<Rightarrow> int \<times> usb_core" where
  "transfer lun lba offset buffer bytes write s =
     (case valid_lun lun s of (ok, s) \<Rightarrow>
      if \<not> ok then (- 1, s)
      else if buffer = 0 \<or> bytes = 0 \<or> unat bytes > FV_USB_IO_BYTES \<or> bytes mod 512 \<noteq> 0 \<or> offset mod 512 \<noteq> 0
      then io_error lun FV_BLOCK_ERROR_INVALID_ARGUMENT write s
      else case transfer_gate (remember_buffer buffer bytes s) of (current, s) \<Rightarrow>
      if \<not> current then transfer_revoked lun buffer bytes write s
      else if \<not> us_command_active s \<or> us_command_write s \<noteq> write
      then io_error lun FV_BLOCK_ERROR_NOT_READY write (wipe buffer bytes s)
      else if lba > 0xffffffff - offset div 512 \<or> lba + offset div 512 \<noteq> us_command_lba s \<or> bytes > us_command_left s
      then io_error lun FV_BLOCK_ERROR_INVALID_ARGUMENT write s
      else transfer_batch lun buffer bytes write s)"

definition tud_msc_start_stop_cb :: "u8 \<Rightarrow> bool \<Rightarrow> bool \<Rightarrow> usb_core \<Rightarrow> bool \<times> usb_core" where
  "tud_msc_start_stop_cb lun start eject s =
     (case valid_lun lun s of (ok, s) \<Rightarrow>
      if \<not> ok then (False, s)
      else if eject \<and> \<not> start
      then (case fv_usb_rpc (usb_control FV_USB_LOCK) s of (r, s) \<Rightarrow>
              (rs_result r = FV_BLOCK_OK, fv_usb_storage_clear_transport s))
      else case fv_usb_rpc (usb_control FV_USB_STATUS) s of (r, s) \<Rightarrow> available lun r s)"

definition tud_msc_scsi_cb :: "u8 \<Rightarrow> u8 \<Rightarrow> usb_core \<Rightarrow> int \<times> usb_core" where
  "tud_msc_scsi_cb lun opcode s =
     (case valid_lun lun s of (ok, s) \<Rightarrow>
      if \<not> ok then (- 1, s)
      else if opcode = 0x35
      then (case fv_usb_rpc (usb_control FV_USB_SYNC) s of (r, s) \<Rightarrow>
              if rs_result r = FV_BLOCK_OK then (0, s) else io_error lun (rs_result r) True s)
      else (- 1, set_sense lun SCSI_SENSE_ILLEGAL_REQUEST 0x20 s))"

definition usb_boot :: "(nat \<Rightarrow> usb_turn) \<Rightarrow> usb_core" where
  "usb_boot turns =
     \<lparr>us_turns = turns, us_read = 0, us_invalidate = False, us_commands = None, us_async_pending = False,
      us_async_ready = False, us_async_response = response_zero, us_cached_status = response_zero, us_fido_cancel = False,
      us_fido_disconnected = False, us_fido_enumerated = False, us_ui_disconnected = False, us_ui_unlocked = False,
      us_ui_refresh = False, us_scratch = zeros FV_USB_IO_BYTES, us_observed_generation = 0, us_activity_read = 0,
      us_activity_write = 0, us_transport_buffer = 0, us_transport_bytes = 0, us_memory = (\<lambda>_. []),
      us_command_active = False, us_command_write = False, us_pending = False, us_ready = False, us_final_write = False,
      us_command_lba = 0, us_command_left = 0, us_pending_bytes = 0, us_command_generation = 0,
      us_command_mode = FV_ACCESS_LOCKED, us_completed = response_zero, us_sense = None, us_race = False\<rparr>"

end
