(* ===== verification/Usb_Pipeline.thy ===== *)
theory Usb_Pipeline
  imports Usb_Transport
begin

text \<open>
  The invariant of the transfer pipeline on core 0 (\<^verbatim>\<open>usb_storage.c\<close>, \<^verbatim>\<open>usb_storage_bridge.c\<close>): who owns the batch
  buffer, what the outstanding request is, and what the worker answered to it. \<open>d\<close> is the data of the
  outstanding batch. An operation either keeps the command and its batch (\<open>settles\<close>) or ends both (\<open>drained\<close>).
\<close>

section \<open>The invariant\<close>

definition batch :: "usb_core \<Rightarrow> u8 list \<Rightarrow> fv_usb_request" where
  "batch s d =
     \<lparr>rq_op = (if us_command_write s then FV_USB_WRITE else FV_USB_READ),
      rq_lba = (if us_command_write s \<and> \<not> us_final_write s then us_command_lba s - us_pending_bytes s div 512 else us_command_lba s),
      rq_count = us_pending_bytes s div 512, rq_generation = us_command_generation s, rq_data = (SCRATCH, d)\<rparr>"

definition landed :: "usb_core \<Rightarrow> u8 list \<Rightarrow> fv_usb_response \<Rightarrow> bool" where
  "landed s d r \<longleftrightarrow> (\<exists>n. ut_answer (us_turns s n) (batch s d) = (r, take (length d) (us_scratch s)))"

definition sized :: "(nat \<Rightarrow> usb_turn) \<Rightarrow> bool" where
  "sized turns \<longleftrightarrow> (\<forall>n rq. length (snd (ut_answer (turns n) rq)) = length (snd (rq_data rq)))"

definition pipe_inv :: "usb_core \<Rightarrow> u8 list \<Rightarrow> bool" where
  "pipe_inv s d \<longleftrightarrow>
     \<not> us_race s \<and> length (us_scratch s) = FV_USB_IO_BYTES \<and>
     (us_async_pending s \<longleftrightarrow> us_commands s \<noteq> None) \<and> \<not> (us_async_pending s \<and> us_async_ready s) \<and>
     (us_pending s \<longleftrightarrow> us_async_pending s \<or> us_async_ready s) \<and> \<not> (us_pending s \<and> us_ready s) \<and>
     (us_final_write s \<longrightarrow> us_pending s \<or> us_ready s) \<and>
     (us_pending s \<or> us_ready s \<longrightarrow>
        us_command_active s \<and> length d = unat (us_pending_bytes s) \<and> length d \<le> FV_USB_IO_BYTES) \<and>
     (us_async_pending s \<longrightarrow> us_commands s = Some (batch s d)) \<and>
     (us_async_ready s \<longrightarrow> landed s d (us_async_response s)) \<and>
     (us_ready s \<longrightarrow> (\<exists>r. landed s d r \<and> us_completed s \<in> {r, suppressed r}))"

text \<open>Nothing changed that the command or its batch depends on.\<close>

definition same_command :: "usb_core \<Rightarrow> usb_core \<Rightarrow> bool" where
  "same_command s s' \<longleftrightarrow>
     us_turns s' = us_turns s \<and> us_memory s' = us_memory s \<and> us_command_active s' = us_command_active s \<and>
     us_command_write s' = us_command_write s \<and> us_final_write s' = us_final_write s \<and>
     us_command_lba s' = us_command_lba s \<and> us_command_left s' = us_command_left s \<and>
     us_pending_bytes s' = us_pending_bytes s \<and> us_command_generation s' = us_command_generation s \<and>
     (us_pending s' \<or> us_ready s') = (us_pending s \<or> us_ready s)"

definition settles :: "u8 list \<Rightarrow> usb_core \<Rightarrow> usb_core \<Rightarrow> bool" where
  "settles d s s' \<longleftrightarrow> pipe_inv s' d \<and> same_command s s'"

definition drained :: "usb_core \<Rightarrow> usb_core \<Rightarrow> bool" where
  "drained s s' \<longleftrightarrow> pipe_inv s' [] \<and> us_turns s' = us_turns s \<and> \<not> us_command_active s' \<and> \<not> us_pending s' \<and> \<not> us_ready s'"

lemma settles_refl: "pipe_inv s d \<Longrightarrow> settles d s s"
  by (simp add: settles_def same_command_def)

lemma settles_inv: "settles d s s' \<Longrightarrow> pipe_inv s' d"
  by (simp add: settles_def)

lemma settles_trans: "settles d s s1 \<Longrightarrow> settles d s1 s2 \<Longrightarrow> settles d s s2"
  by (simp add: settles_def same_command_def)

lemma settles_turns: "settles d s s' \<Longrightarrow> us_turns s' = us_turns s"
  by (simp add: settles_def same_command_def)

lemma drained_settles: "settles d s s1 \<Longrightarrow> drained s1 s2 \<Longrightarrow> drained s s2"
  by (simp add: settles_def drained_def same_command_def)

lemma settles_drained: "drained s s1 \<Longrightarrow> settles [] s1 s2 \<Longrightarrow> drained s s2"
  by (auto simp: settles_def drained_def same_command_def)

text \<open>Without a batch the data do not matter.\<close>

lemma pipe_inv_idle: "pipe_inv s d \<Longrightarrow> \<not> us_pending s \<Longrightarrow> \<not> us_ready s \<Longrightarrow> pipe_inv s d'"
  by (auto simp: pipe_inv_def)

section \<open>Interrupts\<close>

definition interrupted :: "usb_core \<Rightarrow> usb_core \<Rightarrow> bool" where
  "interrupted s s' \<longleftrightarrow>
     us_turns s' = us_turns s \<and>
     us_commands s' = us_commands s \<and>
     us_async_pending s' = us_async_pending s \<and>
     us_async_ready s' = us_async_ready s \<and>
     us_async_response s' = us_async_response s \<and>
     us_scratch s' = us_scratch s \<and>
     us_race s' = us_race s \<and>
     us_memory s' = us_memory s \<and>
     us_command_active s' = us_command_active s \<and>
     us_command_write s' = us_command_write s \<and>
     us_pending s' = us_pending s \<and>
     us_ready s' = us_ready s \<and>
     us_final_write s' = us_final_write s \<and>
     us_command_lba s' = us_command_lba s \<and>
     us_command_left s' = us_command_left s \<and>
     us_pending_bytes s' = us_pending_bytes s \<and>
     us_command_generation s' = us_command_generation s \<and>
     us_command_mode s' = us_command_mode s \<and>
     us_completed s' = us_completed s"

lemma interrupted_refl [simp]: "interrupted s s" by (simp add: interrupted_def)

lemma interrupted_trans: "interrupted s s1 \<Longrightarrow> interrupted s1 s2 \<Longrightarrow> interrupted s s2"
  by (simp add: interrupted_def)

lemma interrupted_settles:
  assumes "interrupted s s'"
  shows "batch s' d = batch s d" "landed s' d r = landed s d r" "pipe_inv s' d = pipe_inv s d" "same_command s s'"
    "pipe_inv s d \<Longrightarrow> settles d s s'"
proof -
  show b: "batch s' d = batch s d" using assms by (simp add: interrupted_def batch_def)
  show l: "landed s' d r = landed s d r" for r using assms b by (simp add: interrupted_def landed_def)
  show "pipe_inv s' d = pipe_inv s d" using assms b l by (simp add: interrupted_def pipe_inv_def)
  moreover show "same_command s s'" using assms by (simp add: interrupted_def same_command_def)
  ultimately show "pipe_inv s d \<Longrightarrow> settles d s s'" by (simp add: settles_def)
qed

lemma turn_interrupted: "turn s = (t, s') \<Longrightarrow> interrupted s s' \<and> t = us_turns s (us_read s)"
  by (auto simp: turn_def Let_def interrupted_def tud_event_hook_cb_def fv_fido_disconnect_def split: option.splits if_splits)

lemma loads_interrupted:
  "load_invalidate s = (b, s') \<Longrightarrow> interrupted s s' \<and> b = us_invalidate s'"
  "fv_usb_session_generation s = (g, s') \<Longrightarrow> interrupted s s' \<and> g = ut_generation (us_turns s (us_read s))"
  "load_fido_busy s = (b, s') \<Longrightarrow> interrupted s s'"
  "load_disk_available s = (b, s') \<Longrightarrow> interrupted s s'"
  "load_maintenance s = (b, s') \<Longrightarrow> interrupted s s'"
  "exchange_invalidate s = (b, s') \<Longrightarrow> interrupted s s'"
  by (auto simp: load_invalidate_def fv_usb_session_generation_def load_fido_busy_def load_disk_available_def load_maintenance_def
      exchange_invalidate_def split: prod.splits dest!: turn_interrupted) (simp_all add: interrupted_def)

text \<open>Bookkeeping that no batch depends on.\<close>

lemma bookkeeping [simp]:
  "interrupted s (fv_device_ui_media_changed b s)" "interrupted s (fv_device_ui_refresh s)" "interrupted s (fv_fido_disconnect s)"
  "interrupted s (fv_usb_forget_status s)" "interrupted s (set_sense lun key asc s)" "interrupted s (snd (valid_lun lun s))"
  "interrupted s (snd (available lun r s))" "interrupted s (snd (io_error lun e write s))" "interrupted s (remember_buffer buffer bytes s)"
  by (auto simp: interrupted_def fv_device_ui_media_changed_def fv_device_ui_refresh_def fv_fido_disconnect_def fv_usb_forget_status_def
      set_sense_def valid_lun_def available_def io_error_def remember_buffer_def split: fv_block_result.splits)

lemma suppress_interrupted:
  assumes "suppress_invalidated r s = (r', s')"
  shows "interrupted s s' \<and> r' \<in> {r, suppressed r}"
  using assms by (auto simp: suppress_invalidated_def split: prod.splits if_splits dest!: loads_interrupted(1,2) intro: interrupted_trans)

section \<open>Completion of a batch\<close>

lemma answer_lands:
  assumes "pipe_inv s d" "sized (us_turns s)" "us_async_pending s" "worker_answer (us_turns s n) (batch s d) s = (r, s')"
  shows "settles d s (async_settle (Some r) s')"
proof -
  obtain out where o: "ut_answer (us_turns s n) (batch s d) = (r, out)"
    "s' = s\<lparr>us_commands := None, us_scratch := memcpy (us_scratch s) 0 out\<rparr>"
    using assms(4) by (auto simp: worker_answer_def batch_def SCRATCH_def split: prod.splits)
  have "length out = length d" using assms(2) o(1) by (metis (no_types) sized_def batch_def fv_usb_request.select_convs(5) snd_conv)
  moreover have "length d \<le> length (us_scratch s)" using assms(1,3) by (auto simp: pipe_inv_def)
  ultimately have t: "take (length d) (memcpy (us_scratch s) 0 out) = out" by (simp add: memcpy_def)
  have b: "batch (async_settle (Some r) s') d = batch s d" by (simp add: o(2) async_settle_def batch_def)
  have "landed (async_settle (Some r) s') d r"
    unfolding landed_def b using o t by (auto simp: async_settle_def)
  then show ?thesis using assms(1,3) b
    by (auto simp: settles_def same_command_def pipe_inv_def o(2) async_settle_def)
qed

lemma removes:
  assumes "pipe_inv s d" "sized (us_turns s)" "us_async_pending s"
  shows "queue_try_remove s = (x, s') \<Longrightarrow> settles d s (async_settle x s')"
    and "queue_remove_blocking s = (x, s') \<Longrightarrow> settles d s (async_settle x s') \<and> \<not> us_async_pending (async_settle x s')"
proof -
  obtain t s1 where t: "turn s = (t, s1)" by (cases "turn s")
  note i = turn_interrupted [OF t]
  have p: "pipe_inv s1 d" "settles d s s1" "batch s1 d = batch s d" using i assms(1) by (auto simp: interrupted_settles)
  have q: "sized (us_turns s1)" "us_async_pending s1" "us_commands s1 = Some (batch s1 d)" "t = us_turns s1 (us_read s)"
    using i assms p(3) by (auto simp: interrupted_def pipe_inv_def)
  obtain r s2 where w: "worker_answer t (batch s1 d) s1 = (r, s2)" by (cases "worker_answer t (batch s1 d) s1")
  note l = settles_trans [OF p(2) answer_lands [OF p(1) q(1,2) w [unfolded q(4)]]]
  show "settles d s (async_settle x s')" if "queue_try_remove s = (x, s')"
    using that t w q(3) l p(2) by (auto simp: queue_try_remove_def async_settle_def split: if_splits)
  show "settles d s (async_settle x s') \<and> \<not> us_async_pending (async_settle x s')" if "queue_remove_blocking s = (x, s')"
    using that t w q(3) l by (auto simp: queue_remove_blocking_def async_settle_def)
qed

lemma async_wait_settles:
  assumes "pipe_inv s d" "sized (us_turns s)"
  shows "settles d s (fv_usb_async_wait s) \<and> \<not> us_async_pending (fv_usb_async_wait s)"
  using assms removes(2) [OF assms] by (auto simp: fv_usb_async_wait_def settles_refl split: prod.splits)

lemma async_poll_settles:
  assumes "pipe_inv s d" "sized (us_turns s)"
  shows "settles d s (async_poll s)"
  using assms removes(1) [OF assms] by (auto simp: async_poll_def settles_refl split: prod.splits)

lemma async_take_cases:
  assumes "pipe_inv s d" "sized (us_turns s)" "fv_usb_async_take s = (x, s')"
  shows "(x = None \<and> settles d s s' \<and> \<not> us_async_ready s' \<and> (us_async_pending s' \<longrightarrow> us_async_pending s)) \<or>
    (\<exists>r s1. x = Some r \<and> settles d s s1 \<and> us_async_ready s1 \<and> interrupted (s1\<lparr>us_async_ready := False\<rparr>) s' \<and>
       r \<in> {us_async_response s1, suppressed (us_async_response s1)})"
proof (cases "us_async_ready (async_poll s)")
  case False
  have "us_async_pending (async_poll s) \<longrightarrow> us_async_pending s" by (simp add: async_poll_def)
  then show ?thesis using False assms async_poll_settles [OF assms(1,2)] by (auto simp: fv_usb_async_take_def Let_def)
next
  case True
  obtain r s2 where s: "suppress_invalidated (us_async_response (async_poll s)) ((async_poll s)\<lparr>us_async_ready := False\<rparr>) = (r, s2)"
    by (cases "suppress_invalidated (us_async_response (async_poll s)) ((async_poll s)\<lparr>us_async_ready := False\<rparr>)")
  have "x = Some r" "s' = fv_device_ui_media_changed (rs_unlocked r) s2"
    using assms(3) True s by (auto simp: fv_usb_async_take_def Let_def)
  moreover have "interrupted s2 (fv_device_ui_media_changed (rs_unlocked r) s2)" by simp
  ultimately show ?thesis
    using True suppress_interrupted [OF s] async_poll_settles [OF assms(1,2)] by (blast intro: interrupted_trans)
qed

section \<open>Clearing and synchronous requests\<close>

lemma drained_intro:
  assumes "us_turns s' = us_turns s" "\<not> us_race s'" "length (us_scratch s') = FV_USB_IO_BYTES" "us_commands s' = None"
    "\<not> us_async_pending s'" "\<not> us_async_ready s'" "\<not> us_pending s'" "\<not> us_ready s'" "\<not> us_final_write s'" "\<not> us_command_active s'"
  shows "drained s s'"
  using assms by (simp add: drained_def pipe_inv_def)

lemma clear_pipeline_drained:
  assumes "pipe_inv s d" "sized (us_turns s)"
  shows "drained s (clear_pipeline s)"
proof -
  define s1 where "s1 = fv_usb_async_wait s"
  have w: "settles d s s1" "\<not> us_async_pending s1" using async_wait_settles [OF assms] by (simp_all add: s1_def)
  obtain x s2 where t: "fv_usb_async_take s1 = (x, s2)" by (cases "fv_usb_async_take s1")
  have z: "sized (us_turns s1)" using assms(2) settles_turns [OF w(1)] by simp
  have "us_turns s2 = us_turns s1 \<and> \<not> us_race s2 \<and> us_commands s2 = None \<and> \<not> us_async_pending s2 \<and> \<not> us_async_ready s2"
    using async_take_cases [OF settles_inv [OF w(1)] z t]
  proof (elim disjE exE conjE)
    assume a: "settles d s1 s2" "\<not> us_async_ready s2" "us_async_pending s2 \<longrightarrow> us_async_pending s1"
    have "\<not> us_race s2 \<and> (us_async_pending s2 \<longleftrightarrow> us_commands s2 \<noteq> None)"
      using settles_inv [OF a(1)] unfolding pipe_inv_def by blast
    then show ?thesis using a(2,3) w(2) settles_turns [OF a(1)] by simp
  next
    fix r s3 assume a: "settles d s1 s3" "us_async_ready s3" "interrupted (s3\<lparr>us_async_ready := False\<rparr>) s2"
    have "\<not> us_race s3 \<and> us_commands s3 = None \<and> \<not> us_async_pending s3"
      using settles_inv [OF a(1)] a(2) by (auto simp: pipe_inv_def)
    then show ?thesis using a(3) settles_turns [OF a(1)] by (simp add: interrupted_def)
  qed
  then have "us_turns s2 = us_turns s \<and> \<not> us_race s2 \<and> us_commands s2 = None \<and> \<not> us_async_pending s2 \<and> \<not> us_async_ready s2"
    using settles_turns [OF w(1)] by simp
  then show ?thesis
    by (intro drained_intro)
      (simp_all add: clear_pipeline_def s1_def [symmetric] t Let_def wipe_scratch_def set_scratch_def wipe_def worker_owns_def)
qed

lemma clear_transport_drained:
  assumes "pipe_inv s d" "sized (us_turns s)"
  shows "drained s (fv_usb_storage_clear_transport s)"
proof -
  have "interrupted (clear_pipeline s) (fv_usb_storage_clear_transport s)"
    by (simp add: fv_usb_storage_clear_transport_def fv_usb_forget_status_def interrupted_def)
  moreover have c: "drained s (clear_pipeline s)" by (rule clear_pipeline_drained [OF assms])
  then have "pipe_inv (clear_pipeline s) []" by (simp add: drained_def)
  ultimately show ?thesis using settles_drained [OF c] interrupted_settles(5) by blast
qed

lemma transact_settles:
  assumes "pipe_inv s d" "sized (us_turns s)" "transact rq s = (r, s')" "fst (rq_data rq) = 0"
  shows "settles d s s'"
proof -
  define s1 where "s1 = fv_usb_async_wait s"
  have w: "settles d s s1" "\<not> us_async_pending s1" using async_wait_settles [OF assms(1,2)] by (simp_all add: s1_def)
  obtain t s2 where t: "turn s1 = (t, s2)" by (cases "turn s1")
  have i: "interrupted s1 s2" using turn_interrupted [OF t] by simp
  obtain r' s3 where a: "worker_answer t rq s2 = (r', s3)" by (cases "worker_answer t rq s2")
  have "us_commands s2 = None" using w i by (auto simp: settles_def pipe_inv_def interrupted_def)
  then have "interrupted s2 s3" using a assms(4) by (auto simp: worker_answer_def interrupted_def split: prod.splits)
  moreover have "s' = fv_device_ui_media_changed (rs_unlocked r') s3"
    using assms(3) t a by (auto simp: transact_def s1_def [symmetric])
  ultimately have "interrupted s1 s'" using i by (auto intro: interrupted_trans)
  then show ?thesis using w(1) interrupted_settles(5) settles_trans settles_inv by blast
qed

text \<open>What an operation does to the command: it keeps it, or ends it.\<close>

definition keeps_or_ends :: "u8 list \<Rightarrow> usb_core \<Rightarrow> usb_core \<Rightarrow> bool" where
  "keeps_or_ends d s s' \<longleftrightarrow> settles d s s' \<or> drained s s'"

lemma keeps_or_endsI: "settles d s s' \<Longrightarrow> keeps_or_ends d s s'" "drained s s' \<Longrightarrow> keeps_or_ends d s s'"
  by (simp_all add: keeps_or_ends_def)

lemma keeps_or_ends_trans:
  assumes "keeps_or_ends d s s1" "\<And>d. pipe_inv s1 d \<Longrightarrow> keeps_or_ends d s1 s2"
  shows "keeps_or_ends d s s2"
  using assms(1) unfolding keeps_or_ends_def
proof
  assume a: "settles d s s1"
  then show "settles d s s2 \<or> drained s s2"
    using assms(2) [OF settles_inv [OF a]] by (auto simp: keeps_or_ends_def intro: settles_trans drained_settles)
next
  assume a: "drained s s1"
  then have "keeps_or_ends [] s1 s2" using assms(2) by (simp add: drained_def)
  then have "drained s s2" using a by (auto simp: keeps_or_ends_def intro: settles_drained) (simp add: drained_def)
  then show "settles d s s2 \<or> drained s s2" ..
qed

lemma keeps_or_ends_interrupted: "pipe_inv s d \<Longrightarrow> interrupted s s' \<Longrightarrow> keeps_or_ends d s s'"
  by (simp add: keeps_or_ends_def interrupted_settles(5))

lemma keeps_or_ends_turns: "keeps_or_ends d s s' \<Longrightarrow> us_turns s' = us_turns s"
  by (auto simp: keeps_or_ends_def drained_def dest: settles_turns)

lemma storage_poll_keeps:
  assumes "pipe_inv s d" "sized (us_turns s)"
  shows "keeps_or_ends d s (fv_usb_storage_poll s)"
proof -
  obtain b1 s1 where l1: "load_fido_busy s = (b1, s1)" by (cases "load_fido_busy s")
  obtain b2 s2 where l2: "load_maintenance s1 = (b2, s2)" by (cases "load_maintenance s1")
  obtain b3 s3 where l3: "exchange_invalidate s2 = (b3, s3)" by (cases "exchange_invalidate s2")
  obtain r s4 where t: "transact (usb_control FV_USB_LOCK) s3 = (r, s4)" by (cases "transact (usb_control FV_USB_LOCK) s3")
  have i: "interrupted s s1" "interrupted s s2" "interrupted s s3"
    using loads_interrupted(3) [OF l1] loads_interrupted(5) [OF l2] loads_interrupted(6) [OF l3] by (blast intro: interrupted_trans)+
  have s3: "settles d s s3" using interrupted_settles(5) [OF i(3) assms(1)] .
  have s4: "settles d s3 s4"
    by (rule transact_settles [OF settles_inv [OF s3] _ t]) (use assms(2) settles_turns [OF s3] in \<open>simp_all add: usb_control_def\<close>)
  have "drained s4 (fv_usb_storage_clear_transport s4)"
    by (rule clear_transport_drained [OF settles_inv [OF s4]]) (use assms(2) settles_turns [OF s3] settles_turns [OF s4] in simp)
  then have "drained s (fv_device_ui_refresh (fv_usb_storage_clear_transport s4))"
    using s3 s4 settles_drained [OF _ interrupted_settles(5) [OF bookkeeping(2)]]
    by (metis drained_settles drained_def)
  then show ?thesis
    using i assms(1) by (auto simp: fv_usb_storage_poll_def l1 l2 l3 t intro: keeps_or_ends_interrupted keeps_or_endsI)
qed

lemma rpc_busy_interrupted:
  assumes "rpc_busy rq s = (r, s')"
  shows "interrupted s s'"
proof -
  obtain i s1 where l: "load_invalidate s = (i, s1)" by (cases "load_invalidate s")
  have a: "interrupted s s1" using loads_interrupted(1) [OF l] by simp
  obtain c s2 where p: "suppress_invalidated (us_cached_status s1) s1 = (c, s2)" by (cases "suppress_invalidated (us_cached_status s1) s1")
  have "interrupted s s2" using a suppress_interrupted [OF p] by (blast intro: interrupted_trans)
  moreover have "interrupted s (fv_fido_disconnect (s1\<lparr>us_invalidate := True\<rparr>))"
    using a by (simp add: interrupted_def fv_fido_disconnect_def)
  ultimately show ?thesis using assms a by (auto simp: rpc_busy_def l p split: if_splits)
qed

lemma rpc_keeps:
  assumes "pipe_inv s d" "sized (us_turns s)" "fv_usb_rpc rq s = (r, s')" "fst (rq_data rq) = 0"
  shows "keeps_or_ends d s s'"
proof -
  obtain b1 s1 where l1: "load_maintenance s = (b1, s1)" by (cases "load_maintenance s")
  obtain b2 s2 where l2: "load_fido_busy s1 = (b2, s2)" by (cases "load_fido_busy s1")
  have i: "interrupted s s1" "interrupted s s2"
    using loads_interrupted(5) [OF l1] loads_interrupted(3) [OF l2] by (blast intro: interrupted_trans)+
  note k2 = keeps_or_ends_interrupted [OF assms(1) i(2)]
  define s3 where "s3 = fv_usb_storage_poll s2"
  have k3: "keeps_or_ends d s s3"
    unfolding s3_def by (rule keeps_or_ends_trans [OF k2 storage_poll_keeps]) (use assms(2) keeps_or_ends_turns [OF k2] in simp_all)
  obtain r4 s4 where t: "transact rq s3 = (r4, s4)" by (cases "transact rq s3")
  have k4: "keeps_or_ends d s s4"
    by (rule keeps_or_ends_trans [OF k3 keeps_or_endsI(1) [OF transact_settles [OF _ _ t assms(4)]]])
      (use assms(2) keeps_or_ends_turns [OF k3] in simp_all)
  obtain b5 s5 where l5: "load_invalidate s4 = (b5, s5)" by (cases "load_invalidate s4")
  have k5: "keeps_or_ends d s s5"
    by (rule keeps_or_ends_trans [OF k4 keeps_or_ends_interrupted]) (use loads_interrupted(1) [OF l5] in simp_all)
  define r6 s6 where "r6 = (if b5 then suppressed r4 else r4)" and "s6 = (if b5 then fv_usb_storage_poll s5 else s5)"
  have k6: "keeps_or_ends d s s6"
    using k5 keeps_or_ends_trans [OF k5 storage_poll_keeps] assms(2) keeps_or_ends_turns [OF k5] by (simp add: s6_def)
  obtain r7 s7 where l7: "suppress_invalidated r6 s6 = (r7, s7)" by (cases "suppress_invalidated r6 s6")
  have "interrupted s6 (s7\<lparr>us_cached_status := r7\<rparr>)" using suppress_interrupted [OF l7] by (simp add: interrupted_def)
  then have k8: "keeps_or_ends d s (s7\<lparr>us_cached_status := r7\<rparr>)"
    by (rule keeps_or_ends_trans [OF k6 keeps_or_ends_interrupted, rotated])
  have e: "(if b5 then (suppressed r4, fv_usb_storage_poll s5) else (r4, s5)) = (r6, s6)" by (simp add: r6_def s6_def)
  show ?thesis
    using assms(3) i k8 keeps_or_ends_interrupted [OF assms(1)]
    by (auto simp: fv_usb_rpc_def l1 l2 s3_def [symmetric] t l5 e l7 split: if_splits
        dest!: rpc_busy_interrupted intro: interrupted_trans)
qed

lemma count_write_interrupted: "interrupted s (count_write s)"
proof -
  obtain g s1 where l: "fv_usb_session_generation s = (g, s1)" by (cases "fv_usb_session_generation s")
  show ?thesis using loads_interrupted(2) [OF l] by (auto simp: count_write_def l interrupted_def)
qed

lemma harvest_settles:
  assumes "pipe_inv s d" "sized (us_turns s)" "us_pending s" "harvest s = (b, s')"
  shows "settles d s s'" "b = us_ready s'"
proof -
  obtain x s1 where t: "fv_usb_async_take s = (x, s1)" by (cases "fv_usb_async_take s")
  have "settles d s s' \<and> b = us_ready s'"
    using async_take_cases [OF assms(1,2) t]
  proof (elim disjE exE conjE)
    assume "x = None" "settles d s s1"
    then show ?thesis using assms(3,4) t by (auto simp: harvest_def)
  next
    fix r s2 assume a: "x = Some r" "settles d s s2" "us_async_ready s2" "interrupted (s2\<lparr>us_async_ready := False\<rparr>) s1"
      "r \<in> {us_async_response s2, suppressed (us_async_response s2)}"
    define s3 where "s3 = s1\<lparr>us_completed := r, us_pending := False, us_ready := True\<rparr>"
    have s': "s' = count_write s3" "b = us_ready s'" using assms(3,4) t a(1) by (auto simp: harvest_def s3_def Let_def)
    have p: "pipe_inv s2 d" using a(2) by (rule settles_inv)
    have q: "us_pending s2" "\<not> us_ready s2" "\<not> us_async_pending s2" "us_commands s2 = None" "landed s2 d (us_async_response s2)"
      using p a(3) by (auto simp: pipe_inv_def)
    have e: "batch s3 d = batch s2 d" using a(4) by (simp add: s3_def interrupted_def batch_def)
    have l: "landed s3 d (us_async_response s2)" using q(5) a(4) e by (simp add: s3_def interrupted_def landed_def)
    have "settles d s2 s3"
      using p q l a(4,5) by (auto simp: settles_def same_command_def pipe_inv_def s3_def interrupted_def)
    then have "settles d s s3" using a(2) by (blast intro: settles_trans)
    then show ?thesis
      using s' interrupted_settles(5) [OF count_write_interrupted] settles_inv settles_trans by blast
  qed
  then show "settles d s s'" "b = us_ready s'" by simp_all
qed

section \<open>Starting a batch\<close>

lemma submit_cases:
  assumes "fv_usb_async_submit rq s = (ok, s')"
  shows "interrupted s s' \<and> \<not> ok \<or>
    ok \<and> \<not> us_async_pending s \<and> \<not> us_async_ready s \<and>
      (\<exists>s1. interrupted s s1 \<and> s' = s1\<lparr>us_commands := Some rq, us_async_pending := True\<rparr>)"
proof -
  obtain b1 s1 where l1: "load_fido_busy s = (b1, s1)" by (cases "load_fido_busy s")
  obtain b2 s2 where l2: "(if b1 then load_disk_available s1 else (True, s1)) = (b2, s2)"
    by (cases "(if b1 then load_disk_available s1 else (True, s1))")
  obtain b3 s3 where l3: "load_maintenance s2 = (b3, s3)" by (cases "load_maintenance s2")
  have i2: "interrupted s s2"
    using loads_interrupted(3) [OF l1] l2 loads_interrupted(4) [of s1 b2 s2] by (auto split: if_splits intro: interrupted_trans)
  have i3: "interrupted s s3" using i2 loads_interrupted(5) [OF l3] by (rule interrupted_trans)
  obtain e s4 where d: "submit_deferred s = (e, s4)" by (cases "submit_deferred s")
  have i4: "interrupted s s4"
    using d i2 i3 unfolding submit_deferred_def l1 prod.case l2 by (auto simp: l3 split: if_splits)
  obtain b5 s5 where l5: "load_invalidate s4 = (b5, s5)" by (cases "load_invalidate s4")
  have i5: "interrupted s s5" using i4 loads_interrupted(1) [OF l5] by (blast intro: interrupted_trans)
  obtain g s6 where l6: "(if rq_op rq = FV_USB_READ \<or> rq_op rq = FV_USB_WRITE then fv_usb_session_generation s5
      else (rq_generation rq, s5)) = (g, s6)"
    by (cases "if rq_op rq = FV_USB_READ \<or> rq_op rq = FV_USB_WRITE then fv_usb_session_generation s5 else (rq_generation rq, s5)")
  have i6: "interrupted s s6"
    using i5 l6 loads_interrupted(2) [of s5 g s6] by (auto split: if_splits intro: interrupted_trans)
  obtain t s7 where l7: "turn s6 = (t, s7)" by (cases "turn s6")
  have i7: "interrupted s s7" using i6 turn_interrupted [OF l7] by (blast intro: interrupted_trans)
  have a: "us_async_pending s5 = us_async_pending s" "us_async_ready s5 = us_async_ready s" using i5 by (simp_all add: interrupted_def)
  show ?thesis
    using assms i4 i5 i6 i7 a unfolding fv_usb_async_submit_def d prod.case l5 l6 l7 by (auto split: if_splits)
qed

lemma start_batch_cases:
  assumes "start_batch w bytes s = (ok, s')"
  shows "interrupted s s' \<and> \<not> ok \<or>
    ok \<and> \<not> us_async_pending s \<and> \<not> us_async_ready s \<and>
      (\<exists>s1. interrupted s s1 \<and> s' = s1\<lparr>us_commands := Some (batch_request w bytes s), us_async_pending := True,
         us_pending_bytes := bytes, us_pending := True, us_ready := False\<rparr>)"
proof -
  obtain g s1 where l: "fv_usb_session_generation s = (g, s1)" by (cases "fv_usb_session_generation s")
  have i: "interrupted s s1" using loads_interrupted(2) [OF l] by simp
  obtain ok1 s2 where b: "fv_usb_async_submit (batch_request w bytes s1) s1 = (ok1, s2)"
    by (cases "fv_usb_async_submit (batch_request w bytes s1) s1")
  have e: "batch_request w bytes s1 = batch_request w bytes s" using i by (simp add: interrupted_def batch_request_def)
  have a: "us_async_pending s1 = us_async_pending s" "us_async_ready s1 = us_async_ready s" using i by (simp_all add: interrupted_def)
  show ?thesis
    using submit_cases [OF b [unfolded e]] assms i a unfolding start_batch_def l prod.case e b [unfolded e]
    by (auto split: if_splits intro: interrupted_trans)
qed

text \<open>The state of a pipeline without a batch.\<close>

definition at_rest :: "usb_core \<Rightarrow> bool" where
  "at_rest s \<longleftrightarrow> pipe_inv s [] \<and> \<not> us_pending s \<and> \<not> us_ready s"

lemma at_rest_simps:
  "at_rest s \<longleftrightarrow> \<not> us_race s \<and> length (us_scratch s) = FV_USB_IO_BYTES \<and> us_commands s = None \<and> \<not> us_async_pending s \<and>
     \<not> us_async_ready s \<and> \<not> us_pending s \<and> \<not> us_ready s \<and> \<not> us_final_write s"
  by (auto simp: at_rest_def pipe_inv_def)

lemma at_rest_interrupted: "interrupted s s' \<Longrightarrow> at_rest s' = at_rest s"
  by (simp add: at_rest_simps interrupted_def)

lemma drained_rest: "drained s s' \<Longrightarrow> at_rest s'"
  by (simp add: drained_def at_rest_def)

text \<open>A completed batch is taken off the pipeline.\<close>

lemma not_pending_quiet: "pipe_inv s d \<Longrightarrow> \<not> us_pending s \<Longrightarrow> us_commands s = None \<and> \<not> us_async_pending s \<and> \<not> us_async_ready s"
  by (auto simp: pipe_inv_def)

section \<open>A completed batch\<close>

definition good_response :: "bool \<Rightarrow> u32 \<Rightarrow> fv_usb_response \<Rightarrow> bool" where
  "good_response write g r \<longleftrightarrow>
     rs_result r = FV_BLOCK_OK \<and> rs_unlocked r \<and> rs_generation r = g \<and> fv_access_files (rs_mode r) \<and>
     (write \<longrightarrow> fv_access_writable (rs_mode r))"

lemma completed_good_lands:
  assumes "completed_good write s = (good, s')"
  shows "interrupted s s'" "pipe_inv s d \<Longrightarrow> us_ready s \<Longrightarrow> good \<Longrightarrow> \<exists>r. landed s d r \<and> good_response write (us_command_generation s) r"
proof -
  obtain g s1 where l: "fv_usb_session_generation s = (g, s1)" by (cases "fv_usb_session_generation s")
  have i: "interrupted s s1" using loads_interrupted(2) [OF l] by simp
  show "interrupted s s'" using assms i by (auto simp: completed_good_def Let_def l split: if_splits)
  show "\<exists>r. landed s d r \<and> good_response write (us_command_generation s) r" if p: "pipe_inv s d" "us_ready s" "good"
  proof -
    obtain r where r: "landed s d r" "us_completed s \<in> {r, suppressed r}" using p(1,2) by (auto simp: pipe_inv_def)
    have c: "rs_result (us_completed s) = FV_BLOCK_OK" "rs_unlocked (us_completed s)" "us_command_generation s1 = us_command_generation s"
      using assms p(3) i by (auto simp: completed_good_def Let_def interrupted_def split: if_splits)
    then have "us_completed s = r" using r(2) by (auto simp: suppressed_def)
    then show ?thesis using assms p(3) r(1) c by (auto simp: completed_good_def Let_def l good_response_def)
  qed
qed

end
