(* ===== verification/Usb_Command.thy ===== *)
theory Usb_Command
  imports Usb_Pipeline
begin

text \<open>
  READ10 and WRITE10 commands from beginning to end: the USB stack's documented calling sequence (a callback that
  returned 0 is called again with the same arguments, one that returned an error ends its command), the pieces
  accepted from or delivered to the host so far, and their relation to what the worker was asked and answered.
\<close>

section \<open>Pieces of a command\<close>

type_synonym piece = "u32 \<times> u8 list"

definition piece_bytes :: "piece list \<Rightarrow> nat" where
  "piece_bytes h = sum_list (map (length \<circ> snd) h)"

fun consecutive :: "u32 \<Rightarrow> piece list \<Rightarrow> bool" where
  "consecutive lba [] = True"
| "consecutive lba ((x, d) # h) =
     (x = lba \<and> d \<noteq> [] \<and> length d mod 512 = 0 \<and> consecutive (lba + of_nat (length d div 512)) h)"

lemma piece_bytes_simps [simp]: "piece_bytes [] = 0" "piece_bytes (h @ [p]) = piece_bytes h + length (snd p)"
  "piece_bytes (p # h) = length (snd p) + piece_bytes h"
  by (simp_all add: piece_bytes_def)

lemma consecutive_mod: "consecutive lba h \<Longrightarrow> piece_bytes h mod 512 = 0"
  by (induction lba h rule: consecutive.induct) (auto simp: mod_add_eq [symmetric] mod_eq_0_iff_dvd)

lemma div_add_512: "(a :: nat) mod 512 = 0 \<Longrightarrow> (a + b) div 512 = a div 512 + b div 512"
  using div_plus_div_distrib_dvd_left [of 512 a b] by (simp add: mod_eq_0_iff_dvd)

lemma consecutive_append:
  "consecutive lba (h @ [(x, d)]) \<longleftrightarrow>
     consecutive lba h \<and> x = lba + of_nat (piece_bytes h div 512) \<and> d \<noteq> [] \<and> length d mod 512 = 0"
proof (induction h arbitrary: lba)
  case (Cons p h)
  then show ?case by (cases p) (auto simp: div_add_512 add.assoc)
qed auto

text \<open>The worker wrote the piece, or read it, under the generation of the command.\<close>

definition stored :: "(nat \<Rightarrow> usb_turn) \<Rightarrow> u32 \<Rightarrow> piece \<Rightarrow> bool" where
  "stored turns g p \<longleftrightarrow>
     (\<exists>n r out. ut_answer (turns n) \<lparr>rq_op = FV_USB_WRITE, rq_lba = fst p, rq_count = of_nat (length (snd p) div 512),
                    rq_generation = g, rq_data = (SCRATCH, snd p)\<rparr> = (r, out) \<and> good_response True g r)"

definition fetched :: "(nat \<Rightarrow> usb_turn) \<Rightarrow> u32 \<Rightarrow> piece \<Rightarrow> bool" where
  "fetched turns g p \<longleftrightarrow>
     (\<exists>n b r out. ut_answer (turns n) \<lparr>rq_op = FV_USB_READ, rq_lba = fst p, rq_count = of_nat (length b div 512),
                    rq_generation = g, rq_data = (SCRATCH, b)\<rparr> = (r, out) \<and> good_response False g r \<and>
        length (snd p) \<le> length b \<and> length b \<le> FV_USB_IO_BYTES \<and> length b mod 512 = 0 \<and> snd p = take (length (snd p)) out)"

section \<open>The USB stack\<close>

record usb_call =
  tc_write :: bool
  tc_lba :: u32
  tc_offset :: u32
  tc_buffer :: nat
  tc_bytes :: u32

datatype stack_phase = Next | Retry usb_call | Failed

definition phase_after :: "usb_call \<Rightarrow> int \<Rightarrow> stack_phase" where
  "phase_after k n = (if n < 0 then Failed else if n = 0 then Retry k else Next)"

text \<open>A positive result accepts the bytes the host sent, or delivers the bytes now in the stack's buffer.\<close>

definition pieces_after :: "usb_call \<Rightarrow> int \<Rightarrow> usb_core \<Rightarrow> usb_core \<Rightarrow> piece list \<Rightarrow> piece list" where
  "pieces_after k n s s' h =
     (if 0 < n then h @ [(tc_lba k + tc_offset k div 512,
        take (unat (tc_bytes k)) (us_memory (if tc_write k then s else s') (tc_buffer k)))] else h)"

text \<open>Everything else that happens on core 0 to this state.\<close>

inductive usb_other :: "usb_core \<Rightarrow> usb_core \<Rightarrow> bool" where
  "usb_other s (fv_usb_storage_poll s)"
| "usb_other s (fv_usb_storage_clear_transport s)"
| "op \<in> {FV_USB_STATUS, FV_USB_LOCK, FV_USB_SYNC} \<Longrightarrow> fv_usb_rpc (usb_control op) s = (r, s') \<Longrightarrow> usb_other s s'"
| "fv_usb_worker_idle s = (b, s') \<Longrightarrow> usb_other s s'"
| "fv_usb_storage_take_activity s = (x, y, s') \<Longrightarrow> usb_other s s'"
| "tud_msc_test_unit_ready_cb lun s = (b, s') \<Longrightarrow> usb_other s s'"
| "tud_msc_capacity_cb lun s = (x, y, s') \<Longrightarrow> usb_other s s'"
| "tud_msc_is_writable_cb lun s = (b, s') \<Longrightarrow> usb_other s s'"
| "tud_msc_start_stop_cb lun start eject s = (b, s') \<Longrightarrow> usb_other s s'"
| "tud_msc_scsi_cb lun opcode s = (n, s') \<Longrightarrow> usb_other s s'"
| "usb_other s (tud_umount_cb s)"
| "usb_other s (s\<lparr>us_ui_unlocked := b, us_ui_refresh := c\<rparr>)"
| "usb_other s (s\<lparr>us_fido_cancel := b, us_fido_disconnected := c, us_fido_enumerated := e, us_ui_disconnected := f\<rparr>)"

text \<open>The reachable states, with the phase of the stack, the current command and its pieces so far.\<close>

inductive usb_run ::
  "(nat \<Rightarrow> usb_turn) \<Rightarrow> usb_core \<Rightarrow> stack_phase \<Rightarrow> (bool \<times> u32 \<times> u32) option \<Rightarrow> piece list \<Rightarrow> bool" for turns where
  Boot: "usb_run turns (usb_boot turns) Failed None []"
| Receive: "usb_run turns s ph c h \<Longrightarrow> (\<And>k. ph \<noteq> Retry k) \<Longrightarrow> usb_run turns (s\<lparr>us_memory := m\<rparr>) ph c h"
| Command: "usb_run turns s ph c h \<Longrightarrow> fv_usb_storage_begin lun write lba bytes block_size s = (ok, s') \<Longrightarrow>
    usb_run turns s' (if ok then Next else Failed) (if ok then Some (write, lba, bytes) else None) []"
| Transfer: "usb_run turns s ph c h \<Longrightarrow> ph = Next \<or> ph = Retry k \<Longrightarrow>
    unat (tc_bytes k) \<le> length (us_memory s (tc_buffer k)) \<Longrightarrow>
    transfer lun (tc_lba k) (tc_offset k) (tc_buffer k) (tc_bytes k) (tc_write k) s = (n, s') \<Longrightarrow>
    usb_run turns s' (phase_after k n) c (pieces_after k n s s' h)"
| Other: "usb_run turns s ph c h \<Longrightarrow> usb_other s s' \<Longrightarrow> usb_run turns s' ph c h"

section \<open>The invariant\<close>

definition acked :: "bool \<Rightarrow> usb_core \<Rightarrow> bool" where
  "acked w s \<longleftrightarrow> \<not> (w \<and> (us_pending s \<or> us_ready s) \<and> \<not> us_final_write s)"

definition retry_fits :: "stack_phase \<Rightarrow> usb_core \<Rightarrow> bool" where
  "retry_fits ph s \<longleftrightarrow>
     (ph = Next \<longrightarrow> unat (us_pending_bytes s) = min (unat (us_command_left s)) FV_USB_IO_BYTES) \<and>
     (\<forall>k. ph = Retry k \<longrightarrow> unat (tc_bytes k) \<le> unat (us_command_left s) \<longrightarrow> unat (tc_bytes k) \<le> unat (us_pending_bytes s))"

definition final_fits :: "stack_phase \<Rightarrow> u8 list \<Rightarrow> usb_core \<Rightarrow> bool" where
  "final_fits ph d s \<longleftrightarrow> us_pending_bytes s = us_command_left s \<and> ph \<noteq> Next \<and>
     (\<forall>k. ph = Retry k \<longrightarrow> tc_write k \<longrightarrow> tc_bytes k = us_pending_bytes s \<and> take (unat (tc_bytes k)) (us_memory s (tc_buffer k)) = d)"

definition active_inv :: "stack_phase \<Rightarrow> bool \<Rightarrow> u32 \<Rightarrow> u32 \<Rightarrow> piece list \<Rightarrow> u8 list \<Rightarrow> u32 \<Rightarrow> usb_core \<Rightarrow> bool" where
  "active_inv ph w lba0 n0 h d g s \<longleftrightarrow>
     w = us_command_write s \<and> g = us_command_generation s \<and> piece_bytes h + unat (us_command_left s) = unat n0 \<and>
     us_command_left s \<noteq> 0 \<and> us_command_left s mod 512 = 0 \<and> us_command_lba s = lba0 + of_nat (piece_bytes h div 512) \<and>
     (us_pending s \<or> us_ready s \<longrightarrow>
        us_pending_bytes s mod 512 = 0 \<and> (w \<or> unat (us_pending_bytes s) \<le> unat (us_command_left s))) \<and>
     (w \<and> acked w s \<longrightarrow> (\<forall>x \<in> set h. stored (us_turns s) g x)) \<and>
     (\<not> acked w s \<longrightarrow> h \<noteq> [] \<and> last h = (us_command_lba s - us_pending_bytes s div 512, d)) \<and>
     (us_final_write s \<longrightarrow> w \<and> final_fits ph d s) \<and>
     (\<not> w \<and> (us_pending s \<or> us_ready s) \<longrightarrow> retry_fits ph s)"

definition history_inv :: "bool \<Rightarrow> u32 \<Rightarrow> u32 \<Rightarrow> piece list \<Rightarrow> u32 \<Rightarrow> (nat \<Rightarrow> usb_turn) \<Rightarrow> bool" where
  "history_inv w lba0 n0 h g turns \<longleftrightarrow>
     consecutive lba0 h \<and> piece_bytes h \<le> unat n0 \<and>
     (w \<longrightarrow> (\<forall>x \<in> set (butlast h). stored turns g x) \<and> (piece_bytes h = unat n0 \<longrightarrow> (\<forall>x \<in> set h. stored turns g x))) \<and>
     (\<not> w \<longrightarrow> (\<forall>x \<in> set h. fetched turns g x))"

definition command_inv :: "stack_phase \<Rightarrow> (bool \<times> u32 \<times> u32) option \<Rightarrow> piece list \<Rightarrow> u8 list \<Rightarrow> u32 \<Rightarrow> usb_core \<Rightarrow> bool" where
  "command_inv ph c h d g s \<longleftrightarrow>
     (c = None \<longrightarrow> \<not> us_command_active s \<and> h = []) \<and>
     (\<forall>w lba0 n0. c = Some (w, lba0, n0) \<longrightarrow>
        history_inv w lba0 n0 h g (us_turns s) \<and> (us_command_active s \<longrightarrow> active_inv ph w lba0 n0 h d g s))"

definition run_inv :: "(nat \<Rightarrow> usb_turn) \<Rightarrow> usb_core \<Rightarrow> stack_phase \<Rightarrow> (bool \<times> u32 \<times> u32) option \<Rightarrow> piece list \<Rightarrow> bool" where
  "run_inv turns s ph c h \<longleftrightarrow> us_turns s = turns \<and> (\<exists>d g. pipe_inv s d \<and> command_inv ph c h d g s)"

text \<open>Keeping or ending the command keeps the invariant.\<close>

lemma same_command_inv:
  assumes "same_command s s'"
  shows "command_inv ph c h d g s' = command_inv ph c h d g s"
  unfolding command_inv_def active_inv_def acked_def retry_fits_def final_fits_def by (simp only: assms [unfolded same_command_def])

lemma keeps_command:
  assumes "keeps_or_ends d s s'" "command_inv ph c h d g s" "us_turns s = turns"
  shows "\<exists>d'. pipe_inv s' d' \<and> command_inv ph c h d' g s' \<and> us_turns s' = turns \<and> (us_command_active s' \<longrightarrow> settles d s s' \<and> d' = d)"
  using assms(1) unfolding keeps_or_ends_def
proof
  assume a: "settles d s s'"
  have "command_inv ph c h d g s'" using same_command_inv a assms(2) unfolding settles_def by blast
  moreover have "us_turns s' = turns" using settles_turns [OF a] assms(3) by simp
  ultimately show ?thesis using a settles_inv [OF a] by blast
next
  assume a: "drained s s'"
  then have "command_inv ph c h [] g s'" using assms(2) by (auto simp: drained_def command_inv_def)
  then show ?thesis using a assms(3) by (auto simp: drained_def)
qed

text \<open>A command that failed is no longer retried.\<close>

lemma command_failed:
  "command_inv ph c h d g s \<Longrightarrow> command_inv Failed c h d g (s\<lparr>us_memory := m\<rparr>)"
  by (auto simp: command_inv_def active_inv_def acked_def retry_fits_def final_fits_def)

end
