(* ===== verification/Usb_Transfer.thy ===== *)
theory Usb_Transfer
  imports Usb_Command
begin

text \<open>
  The invariant of \<^verbatim>\<open>Usb_Command\<close> is kept by every operation of \<^verbatim>\<open>src/src/pico/device/usb_storage.c\<close>.
\<close>

section \<open>Other operations\<close>

lemma keeps_or_ends_then:
  "keeps_or_ends d s s1 \<Longrightarrow> interrupted s1 s2 \<Longrightarrow> keeps_or_ends d s s2"
  by (rule keeps_or_ends_trans [OF _ keeps_or_ends_interrupted])

lemma after_lun:
  assumes "valid_lun lun s = (ok, s')"
  shows "interrupted s s'"
  using assms bookkeeping(6) [of s lun] by simp

lemma after_available:
  assumes "available lun r s = (ok, s')"
  shows "interrupted s s'"
  using assms bookkeeping(7) [of s lun r] by simp

lemma rpc_control_keeps:
  "pipe_inv s d \<Longrightarrow> sized (us_turns s) \<Longrightarrow> fv_usb_rpc (usb_control op) s = (r, s') \<Longrightarrow> keeps_or_ends d s s'"
proof -
  assume a: "pipe_inv s d" "sized (us_turns s)" "fv_usb_rpc (usb_control op) s = (r, s')"
  show "keeps_or_ends d s s'" by (rule rpc_keeps [OF a]) (simp add: usb_control_def)
qed

text \<open>A request for the status that may end the command, between steps that do not touch it.\<close>

lemma lun_rpc_keeps:
  assumes "pipe_inv s d" "sized (us_turns s)" "interrupted s s1" "fv_usb_rpc (usb_control op) s1 = (r, s2)"
  shows "keeps_or_ends d s s2"
proof -
  have "keeps_or_ends d s s1" by (rule keeps_or_ends_interrupted [OF assms(1,3)])
  then show ?thesis using keeps_or_ends_trans rpc_control_keeps assms(2,4) keeps_or_ends_turns by metis
qed

lemma clear_transport_keeps:
  assumes "keeps_or_ends d s s1" "sized (us_turns s)" "pipe_inv s d"
  shows "keeps_or_ends d s (fv_usb_storage_clear_transport s1)"
proof (rule keeps_or_ends_trans [OF assms(1)])
  show "keeps_or_ends d' s1 (fv_usb_storage_clear_transport s1)" if "pipe_inv s1 d'" for d'
    using clear_transport_drained [OF that] assms(2) keeps_or_ends_turns [OF assms(1)] by (simp add: keeps_or_ends_def)
qed

lemma test_unit_ready_keeps:
  assumes "pipe_inv s d" "sized (us_turns s)" "tud_msc_test_unit_ready_cb lun s = (b, s')"
  shows "keeps_or_ends d s s'"
proof -
  obtain ok1 s1 where l: "valid_lun lun s = (ok1, s1)" by (cases "valid_lun lun s")
  obtain r s2 where q: "fv_usb_rpc (usb_control FV_USB_STATUS) s1 = (r, s2)" by (cases "fv_usb_rpc (usb_control FV_USB_STATUS) s1")
  obtain ok3 s3 where a: "available lun r s2 = (ok3, s3)" by (cases "available lun r s2")
  note k = lun_rpc_keeps [OF assms(1,2) after_lun [OF l] q]
  note i = after_available [OF a]
  have "interrupted s2 (s3\<lparr>us_observed_generation := x\<rparr>)" for x using i by (simp add: interrupted_def)
  moreover have "interrupted s2 (set_sense lun key y (s3\<lparr>us_observed_generation := x\<rparr>))" for x y key
    using i by (simp add: interrupted_def set_sense_def)
  ultimately show ?thesis
    using assms(3) i keeps_or_ends_then [OF k] keeps_or_ends_interrupted [OF assms(1) after_lun [OF l]]
    by (auto simp: tud_msc_test_unit_ready_cb_def l q a split: if_splits)
qed

lemma capacity_keeps:
  assumes "pipe_inv s d" "sized (us_turns s)" "tud_msc_capacity_cb lun s = (x, y, s')"
  shows "keeps_or_ends d s s'"
proof -
  obtain ok1 s1 where l: "valid_lun lun s = (ok1, s1)" by (cases "valid_lun lun s")
  obtain r s2 where q: "fv_usb_rpc (usb_control FV_USB_STATUS) s1 = (r, s2)" by (cases "fv_usb_rpc (usb_control FV_USB_STATUS) s1")
  obtain ok3 s3 where a: "available lun r s2 = (ok3, s3)" by (cases "available lun r s2")
  note k = keeps_or_ends_then [OF lun_rpc_keeps [OF assms(1,2) after_lun [OF l] q] after_available [OF a]]
  show ?thesis using assms(3) k keeps_or_ends_interrupted [OF assms(1) after_lun [OF l]]
    by (auto simp: tud_msc_capacity_cb_def l q a split: if_splits)
qed

lemma is_writable_keeps:
  assumes "pipe_inv s d" "sized (us_turns s)" "tud_msc_is_writable_cb lun s = (b, s')"
  shows "keeps_or_ends d s s'"
proof -
  obtain ok1 s1 where l: "valid_lun lun s = (ok1, s1)" by (cases "valid_lun lun s")
  obtain i s2 where v: "load_invalidate s1 = (i, s2)" by (cases "load_invalidate s1")
  obtain g s3 where u: "fv_usb_session_generation s2 = (g, s3)" by (cases "fv_usb_session_generation s2")
  obtain r s4 where q: "fv_usb_rpc (usb_control FV_USB_STATUS) s2 = (r, s4)" by (cases "fv_usb_rpc (usb_control FV_USB_STATUS) s2")
  obtain ok5 s5 where a: "available lun r s4 = (ok5, s5)" by (cases "available lun r s4")
  have i: "interrupted s s1" "interrupted s s2" "interrupted s s3"
    using after_lun [OF l] loads_interrupted(1) [OF v] loads_interrupted(2) [OF u] by (blast intro: interrupted_trans)+
  note k = keeps_or_ends_then [OF lun_rpc_keeps [OF assms(1,2) i(2) q] after_available [OF a]]
  show ?thesis using assms(3) k i keeps_or_ends_interrupted [OF assms(1)]
    by (auto simp: tud_msc_is_writable_cb_def l v u q a split: if_splits)
qed

lemma start_stop_keeps:
  assumes "pipe_inv s d" "sized (us_turns s)" "tud_msc_start_stop_cb lun start eject s = (b, s')"
  shows "keeps_or_ends d s s'"
proof -
  obtain ok1 s1 where l: "valid_lun lun s = (ok1, s1)" by (cases "valid_lun lun s")
  obtain r s2 where q: "fv_usb_rpc (usb_control FV_USB_LOCK) s1 = (r, s2)" by (cases "fv_usb_rpc (usb_control FV_USB_LOCK) s1")
  obtain r3 s3 where q3: "fv_usb_rpc (usb_control FV_USB_STATUS) s1 = (r3, s3)" by (cases "fv_usb_rpc (usb_control FV_USB_STATUS) s1")
  obtain ok4 s4 where a: "available lun r3 s3 = (ok4, s4)" by (cases "available lun r3 s3")
  note k = clear_transport_keeps [OF lun_rpc_keeps [OF assms(1,2) after_lun [OF l] q] assms(2,1)]
  note k4 = keeps_or_ends_then [OF lun_rpc_keeps [OF assms(1,2) after_lun [OF l] q3] after_available [OF a]]
  show ?thesis using assms(3) k k4 keeps_or_ends_interrupted [OF assms(1) after_lun [OF l]]
    by (auto simp: tud_msc_start_stop_cb_def l q q3 a split: if_splits)
qed

lemma scsi_keeps:
  assumes "pipe_inv s d" "sized (us_turns s)" "tud_msc_scsi_cb lun opcode s = (n, s')"
  shows "keeps_or_ends d s s'"
proof -
  obtain ok1 s1 where l: "valid_lun lun s = (ok1, s1)" by (cases "valid_lun lun s")
  obtain r s2 where q: "fv_usb_rpc (usb_control FV_USB_SYNC) s1 = (r, s2)" by (cases "fv_usb_rpc (usb_control FV_USB_SYNC) s1")
  note k = lun_rpc_keeps [OF assms(1,2) after_lun [OF l] q]
  have e: "keeps_or_ends d s (snd (io_error lun (rs_result r) True s2))" using keeps_or_ends_then [OF k bookkeeping(8)] .
  have f: "interrupted s (set_sense lun key asc s1)" for key asc
    using interrupted_trans [OF after_lun [OF l] bookkeeping(5)] .
  show ?thesis using assms(3) k e keeps_or_ends_interrupted [OF assms(1) f] keeps_or_ends_interrupted [OF assms(1) after_lun [OF l]]
    by (auto simp: tud_msc_scsi_cb_def l q split: if_splits)
qed

lemma other_keeps:
  assumes "usb_other s s'" "pipe_inv s d" "sized (us_turns s)"
  shows "keeps_or_ends d s s'"
  using assms
proof (cases rule: usb_other.cases)
  case 1 then show ?thesis using storage_poll_keeps [OF assms(2,3)] by simp
next
  case 2 then show ?thesis using clear_transport_drained [OF assms(2,3)] by (simp add: keeps_or_ends_def)
next
  case (3 op r) then show ?thesis using rpc_control_keeps [OF assms(2,3)] by blast
next
  case 4 then show ?thesis using async_poll_settles [OF assms(2,3)] by (auto simp: fv_usb_worker_idle_def Let_def keeps_or_ends_def)
next
  case 5 then have "interrupted s s'" by (auto simp: fv_usb_storage_take_activity_def interrupted_def)
  then show ?thesis by (rule keeps_or_ends_interrupted [OF assms(2)])
next
  case 6 then show ?thesis using test_unit_ready_keeps [OF assms(2,3)] by blast
next
  case 7 then show ?thesis using capacity_keeps [OF assms(2,3)] by blast
next
  case 8 then show ?thesis using is_writable_keeps [OF assms(2,3)] by blast
next
  case 9 then show ?thesis using start_stop_keeps [OF assms(2,3)] by blast
next
  case 10 then show ?thesis using scsi_keeps [OF assms(2,3)] by blast
next
  case 11 then have "interrupted s s'" by (simp add: tud_umount_cb_def fv_fido_disconnect_def interrupted_def)
  then show ?thesis by (rule keeps_or_ends_interrupted [OF assms(2)])
next
  case 12 then have "interrupted s s'" by (simp add: interrupted_def)
  then show ?thesis by (rule keeps_or_ends_interrupted [OF assms(2)])
next
  case 13 then have "interrupted s s'" by (simp add: interrupted_def)
  then show ?thesis by (rule keeps_or_ends_interrupted [OF assms(2)])
qed

lemma run_inv_keeps:
  assumes "run_inv turns s ph c h" "sized turns" "\<And>d. pipe_inv s d \<Longrightarrow> keeps_or_ends d s s'"
  shows "run_inv turns s' ph c h"
  using assms keeps_command unfolding run_inv_def by blast

section \<open>A new command\<close>

lemma begin_inv:
  assumes "run_inv turns s ph c h" "sized turns" "fv_usb_storage_begin lun write lba bytes block_size s = (ok, s')"
  shows "run_inv turns s' (if ok then Next else Failed) (if ok then Some (write, lba, bytes) else None) []"
proof -
  obtain d where p: "pipe_inv s d" "us_turns s = turns" using assms(1) by (auto simp: run_inv_def)
  have dr: "drained s (clear_pipeline s)" using clear_pipeline_drained [OF p(1)] assms(2) p(2) by simp
  obtain ok1 s1 where l: "valid_lun lun (clear_pipeline s) = (ok1, s1)" by (cases "valid_lun lun (clear_pipeline s)")
  obtain r s2 where q: "fv_usb_rpc (usb_control FV_USB_STATUS) s1 = (r, s2)" by (cases "fv_usb_rpc (usb_control FV_USB_STATUS) s1")
  obtain ok3 s3 where a: "available lun r s2 = (ok3, s3)" by (cases "available lun r s2")
  have t: "sized (us_turns (clear_pipeline s))" using dr assms(2) p(2) by (simp add: drained_def)
  have ci: "pipe_inv (clear_pipeline s) []" using dr by (simp add: drained_def)
  have idle: "at_rest s'' \<and> us_turns s'' = turns \<and> \<not> us_command_active s''" if "keeps_or_ends [] (clear_pipeline s) s''" for s''
    using that dr p(2) unfolding keeps_or_ends_def
    by (auto simp: settles_def drained_def same_command_def at_rest_def)
  have k1: "keeps_or_ends [] (clear_pipeline s) s1" using keeps_or_ends_interrupted [OF ci after_lun [OF l]] .
  have k3: "keeps_or_ends [] (clear_pipeline s) s3"
    using keeps_or_ends_then [OF lun_rpc_keeps [OF ci t after_lun [OF l] q] after_available [OF a]] .
  have e: "keeps_or_ends [] (clear_pipeline s) (snd (io_error lun x y s1))" "keeps_or_ends [] (clear_pipeline s) (snd (io_error lun x y s3))" for x y
    using keeps_or_ends_then [OF k1 bookkeeping(8)] keeps_or_ends_then [OF k3 bookkeeping(8)] by blast+
  have fail: "run_inv turns s'' Failed None []" if "keeps_or_ends [] (clear_pipeline s) s''" for s''
    using idle [OF that] by (auto simp: run_inv_def at_rest_def command_inv_def)
  show ?thesis
  proof (cases ok)
    case False
    then have "keeps_or_ends [] (clear_pipeline s) s'"
      using assms(3) k1 k3 e by (auto simp: fv_usb_storage_begin_def begin_command_def l q a split: if_splits)
    then show ?thesis using fail False by simp
  next
    case True
    then have b: "bytes \<noteq> 0" "bytes mod 512 = 0" and s': "s' = s3\<lparr>us_command_active := True, us_command_write := write,
        us_command_lba := lba, us_command_left := bytes, us_command_generation := rs_generation r, us_command_mode := rs_mode r\<rparr>"
      using assms(3) by (auto simp: fv_usb_storage_begin_def begin_command_def l q a split: if_splits)
    have "at_rest s'" using idle [OF k3] by (simp add: s' at_rest_simps)
    moreover have "command_inv Next (Some (write, lba, bytes)) [] [] (rs_generation r) s'"
      using idle [OF k3] b by (simp add: s' at_rest_simps command_inv_def history_inv_def active_inv_def acked_def)
    moreover have "us_turns s' = turns" using idle [OF k3] by (simp add: s')
    ultimately show ?thesis using True by (auto simp: run_inv_def at_rest_def)
  qed
qed

section \<open>The pieces\<close>

lemma batch_count:
  fixes pb :: u32
  assumes "length d = unat pb"
  shows "of_nat (length d div 512) = pb div 512"
proof -
  have "unat (pb div 512) = length d div 512" using assms by (simp add: unat_div)
  moreover have "of_nat (unat (pb div 512)) = pb div 512" by simp
  ultimately show ?thesis by simp
qed

lemma chunk_mod:
  fixes b :: u32
  shows "b mod 512 = 0 \<longleftrightarrow> unat b mod 512 = 0"
proof -
  have "unat (b mod 512) = unat b mod 512" by (simp add: unat_mod)
  then show ?thesis by (metis unat_eq_0)
qed

lemma chunk_div: "unat (b div 512 :: u32) = unat b div 512"
  by (simp add: unat_div)

text \<open>What the worker answered to the batch that has landed.\<close>

lemma landed_stored:
  assumes "landed s d r" "good_response True (us_command_generation s) r" "us_command_write s" "length d = unat (us_pending_bytes s)"
  shows "stored (us_turns s) (us_command_generation s) (rq_lba (batch s d), d)"
proof -
  obtain n where n: "ut_answer (us_turns s n) (batch s d) = (r, take (length d) (us_scratch s))"
    using assms(1) by (auto simp: landed_def)
  have "batch s d = \<lparr>rq_op = FV_USB_WRITE, rq_lba = rq_lba (batch s d), rq_count = of_nat (length d div 512),
      rq_generation = us_command_generation s, rq_data = (SCRATCH, d)\<rparr>"
    using batch_count [OF assms(4)] assms(3) by (simp add: batch_def)
  then show ?thesis using n assms(2) unfolding stored_def by (metis fst_conv snd_conv)
qed

lemma landed_fetched:
  assumes "landed s d r" "good_response False (us_command_generation s) r" "\<not> us_command_write s" "length d = unat (us_pending_bytes s)"
    "length d \<le> FV_USB_IO_BYTES" "us_pending_bytes s mod 512 = 0" "m \<le> length d" "length (us_scratch s) = FV_USB_IO_BYTES"
  shows "fetched (us_turns s) (us_command_generation s) (us_command_lba s, take m (us_scratch s))"
proof -
  obtain n where n: "ut_answer (us_turns s n) (batch s d) = (r, take (length d) (us_scratch s))"
    using assms(1) by (auto simp: landed_def)
  have b: "batch s d = \<lparr>rq_op = FV_USB_READ, rq_lba = us_command_lba s, rq_count = of_nat (length d div 512),
      rq_generation = us_command_generation s, rq_data = (SCRATCH, d)\<rparr>"
    using batch_count [OF assms(4)] assms(3) by (simp add: batch_def)
  have l: "length (take m (us_scratch s)) = m" "length d mod 512 = 0" using assms(4-8) chunk_mod by simp_all
  have "take m (us_scratch s) = take m (take (length d) (us_scratch s))" using assms(7) by (simp add: min_absorb1)
  then show ?thesis unfolding fetched_def using n b l assms(2,5,7) 
    by (intro exI [of _ n] exI [of _ d] exI [of _ r] exI [of _ "take (length d) (us_scratch s)"] conjI) simp_all
qed

lemma history_append:
  assumes "history_inv w lba0 n0 h g turns" "length d mod 512 = 0" "d \<noteq> []" "x = lba0 + of_nat (piece_bytes h div 512)"
    "piece_bytes h + length d \<le> unat n0"
    "w \<Longrightarrow> \<forall>p \<in> set h. stored turns g p" "w \<Longrightarrow> piece_bytes h + length d = unat n0 \<Longrightarrow> stored turns g (x, d)"
    "\<not> w \<Longrightarrow> fetched turns g (x, d)"
  shows "history_inv w lba0 n0 (h @ [(x, d)]) g turns"
  using assms by (auto simp: history_inv_def consecutive_append)

section \<open>Transfers\<close>

text \<open>The call is inside the command.\<close>

definition call_ok :: "usb_call \<Rightarrow> usb_core \<Rightarrow> bool" where
  "call_ok k s \<longleftrightarrow> us_command_active s \<and> us_command_write s = tc_write k \<and> 0 < unat (tc_bytes k) \<and>
     unat (tc_bytes k) \<le> FV_USB_IO_BYTES \<and> tc_bytes k mod 512 = 0 \<and> unat (tc_bytes k) \<le> unat (us_command_left s) \<and>
     unat (tc_bytes k) \<le> length (us_memory s (tc_buffer k)) \<and> tc_lba k + tc_offset k div 512 = us_command_lba s"

lemma left_after:
  fixes left b :: u32
  assumes "unat b \<le> unat left" "left mod 512 = 0" "b mod 512 = 0"
  shows "unat (left - b) = unat left - unat b" "(left - b) mod 512 = 0" "left - b = 0 \<longleftrightarrow> b = left"
proof -
  show u: "unat (left - b) = unat left - unat b" using assms(1) by (simp add: unat_sub word_le_nat_alt)
  show "(left - b) mod 512 = 0"
    using assms unfolding chunk_mod u by (simp add: mod_eq_0_iff_dvd)
  show "left - b = 0 \<longleftrightarrow> b = left" by auto
qed

lemma lba_after:
  fixes b :: u32
  assumes "n mod 512 = 0"
  shows "lba0 + of_nat (n div 512) + b div 512 = (lba0 :: u32) + of_nat ((n + unat b) div 512)"
proof -
  have "of_nat (unat b div 512) = b div 512" using batch_count [of "replicate (unat b) ()" b] by simp
  then show ?thesis using assms by (simp add: div_add_512)
qed

lemma command_invD:
  assumes "command_inv ph (Some (w, lba0, n0)) h d g s"
  shows "history_inv w lba0 n0 h g (us_turns s)" "us_command_active s \<Longrightarrow> active_inv ph w lba0 n0 h d g s"
  using assms unfolding command_inv_def by blast+

lemma command_active:
  assumes "command_inv ph c h d g s" "us_command_active s"
  obtains lba0 n0 where "c = Some (us_command_write s, lba0, n0)" "history_inv (us_command_write s) lba0 n0 h g (us_turns s)"
    "active_inv ph (us_command_write s) lba0 n0 h d g s"
proof -
  obtain w lba0 n0 where c: "c = Some (w, lba0, n0)" using assms by (cases c) (auto simp: command_inv_def)
  note i = command_invD [OF assms(1) [unfolded c]]
  have "w = us_command_write s" using i(2) [OF assms(2)] by (simp add: active_inv_def)
  then show ?thesis using that c i assms(2) by simp
qed

lemma writes_stored:
  assumes "pipe_inv s d" "\<not> us_pending s" "us_command_write s" "us_command_active s" "command_inv ph (Some (True, lba0, n0)) h d g s"
    "us_ready s \<longrightarrow> (\<exists>r. landed s d r \<and> good_response True (us_command_generation s) r)"
  shows "(\<forall>p \<in> set h. stored (us_turns s) g p) \<and> (us_final_write s \<longrightarrow> stored (us_turns s) g (us_command_lba s, d))"
proof -
  have a: "active_inv ph True lba0 n0 h d g s" "history_inv True lba0 n0 h g (us_turns s)"
    using command_invD [OF assms(5)] assms(4) by simp_all
  have st: "us_ready s \<Longrightarrow> stored (us_turns s) g (rq_lba (batch s d), d)"
    using landed_stored assms(1,3,6) a(1) by (auto simp: pipe_inv_def active_inv_def)
  have "\<forall>p \<in> set h. stored (us_turns s) g p"
  proof (cases "acked True s")
    case True
    then show ?thesis using a(1) unfolding active_inv_def by blast
  next
    case False
    then have "h \<noteq> []" "last h = (us_command_lba s - us_pending_bytes s div 512, d)" "us_ready s" "\<not> us_final_write s"
      using a(1) assms(2) by (auto simp: active_inv_def acked_def)
    then have "stored (us_turns s) g (last h)" using st assms(3) by (simp add: batch_def)
    moreover have "h = butlast h @ [last h]" using \<open>h \<noteq> []\<close> by simp
    ultimately show ?thesis using a(2) unfolding history_inv_def by (metis Un_iff list.set(1,2) set_append singletonD insert_iff)
  qed
  moreover have "us_final_write s \<longrightarrow> us_ready s" using assms(1,2) by (auto simp: pipe_inv_def)
  ultimately show ?thesis using st by (auto simp: batch_def)
qed

text \<open>The invariant after a step, from its parts.\<close>

lemma run_invI:
  assumes "us_turns s = turns" "pipe_inv s d" "c = Some (w, lba0, n0)" "history_inv w lba0 n0 h g turns"
    "us_command_active s \<Longrightarrow> active_inv ph w lba0 n0 h d g s"
  shows "run_inv turns s ph c h"
  using assms by (auto simp: run_inv_def command_inv_def)

lemma rest_active:
  assumes "at_rest s" "active_inv ph w lba0 n0 h d g s0" "w \<longrightarrow> (\<forall>x \<in> set h. stored (us_turns s0) g x)"
    "us_turns s = us_turns s0" "us_command_write s = us_command_write s0" "us_command_generation s = us_command_generation s0"
    "us_command_left s = us_command_left s0" "us_command_lba s = us_command_lba s0"
  shows "active_inv ph' w lba0 n0 h d' g s"
  using assms(2) assms(1) [unfolded at_rest_simps] assms(3) unfolding active_inv_def acked_def assms(4-8) by blast

text \<open>Write: a batch that was completed well is followed by the next one, or ends the command.\<close>

lemma transfer_write_inv:
  assumes "pipe_inv s d" "us_turns s = turns" "\<not> us_pending s" "call_ok k s" "tc_write k" "command_inv (Retry k) c h d g s"
    "us_ready s \<longrightarrow> (\<exists>r. landed s d r \<and> good_response True (us_command_generation s) r)"
    "transfer_write (tc_buffer k) (tc_bytes k) s = (n, s')"
  shows "run_inv turns s' (phase_after k n) c (pieces_after k n s s' h)"
proof -
  let ?b = "tc_bytes k" and ?data = "take (unat (tc_bytes k)) (us_memory s (tc_buffer k))"
  note k = assms(4) [unfolded call_ok_def]
  have cw: "us_command_write s" using k assms(5) by simp
  obtain lba0 n0 where c: "c = Some (True, lba0, n0)" and hi: "history_inv True lba0 n0 h g (us_turns s)"
    and ai: "active_inv (Retry k) True lba0 n0 h d g s"
    using command_active [OF assms(6)] k cw by auto
  have st: "\<forall>p \<in> set h. stored (us_turns s) g p" "us_final_write s \<Longrightarrow> stored (us_turns s) g (us_command_lba s, d)"
    using writes_stored [OF assms(1,3) cw _ assms(6) [unfolded c] assms(7)] k by simp_all
  have q: "us_commands s = None" "\<not> us_async_pending s" "\<not> us_async_ready s" "\<not> us_race s" "length (us_scratch s) = FV_USB_IO_BYTES"
    using assms(1,3) by (auto simp: pipe_inv_def)
  have dat: "length ?data = unat ?b" "?data \<noteq> []" "length ?data mod 512 = 0" using k chunk_mod by (auto simp: min_absorb2)
  have pos: "tc_lba k + tc_offset k div 512 = lba0 + of_nat (piece_bytes h div 512)" using k ai by (simp add: active_inv_def)
  show ?thesis
  proof (cases "us_final_write s")
    case True
    then have f: "us_pending_bytes s = us_command_left s" "?b = us_pending_bytes s" "?data = d"
      using ai assms(5) True unfolding active_inv_def final_fits_def by auto
    have r: "n = int (unat ?b)" "s' = wipe (tc_buffer k) ?b (wipe_scratch (s\<lparr>us_final_write := False, us_ready := False, us_command_active := False\<rparr>))"
      using assms(8) True by (simp_all add: transfer_write_def)
    have rest: "at_rest s'" "\<not> us_command_active s'" "us_turns s' = turns"
      using q assms(2,3) by (simp_all add: r(2) at_rest_simps wipe_def wipe_scratch_def set_scratch_def worker_owns_def)
    have "history_inv True lba0 n0 (h @ [(tc_lba k + tc_offset k div 512, ?data)]) g turns"
      using history_append [OF hi dat(3,2) pos] ai st k f dat(1) assms(2) by (simp add: active_inv_def True)
    then have "run_inv turns s' Next c (h @ [(tc_lba k + tc_offset k div 512, ?data)])"
      using rest c by (intro run_invI [where d = "[]" and g = g]) (simp_all add: at_rest_def)
    moreover have "0 < n" unfolding r(1) of_nat_0_less_iff using k by blast
    ultimately show ?thesis using assms(5) by (simp add: phase_after_def pieces_after_def)
  next
    case False
    define s0 where "s0 = (if us_ready s then wipe_scratch (s\<lparr>us_ready := False\<rparr>) else s)"
    define s1 where "s1 = set_scratch (memcpy (us_scratch s0) 0 (take (unat ?b) (us_memory s0 (tc_buffer k)))) s0"
    have m0: "us_memory s0 = us_memory s" by (simp add: s0_def wipe_scratch_def set_scratch_def)
    have r1: "at_rest s1" using q assms(3) False
      by (auto simp: s1_def s0_def at_rest_simps wipe_scratch_def set_scratch_def worker_owns_def)
    have t1: "take (unat ?b) (us_scratch s1) = ?data" using dat(1) q k
      by (auto simp: s1_def m0 set_scratch_def memcpy_def) (auto simp: s0_def wipe_scratch_def set_scratch_def)
    have e1: "us_turns s1 = us_turns s" "us_command_write s1 = us_command_write s" "us_command_generation s1 = us_command_generation s"
      "us_command_left s1 = us_command_left s" "us_command_lba s1 = us_command_lba s" "us_memory s1 = us_memory s"
      "us_command_active s1" "\<not> us_final_write s1"
      using k False by (simp_all add: s1_def s0_def wipe_scratch_def set_scratch_def)
    obtain ok s2 where b: "start_batch True ?b s1 = (ok, s2)" by (cases "start_batch True ?b s1")
    have step: "(if \<not> ok then (0, wipe_scratch s2)
            else if ?b = us_command_left s2 then (0, s2\<lparr>us_final_write := True\<rparr>)
            else (int (unat ?b), wipe (tc_buffer k) ?b (s2\<lparr>us_command_left := us_command_left s2 - ?b,
                                       us_command_lba := us_command_lba s2 + ?b div 512\<rparr>))) = (n, s')"
      using assms(8) unfolding transfer_write_def Let_def s0_def [symmetric] s1_def [symmetric] b prod.case by (simp only: False if_False)
    show ?thesis
    proof (cases ok)
      case no: False
      then have i: "interrupted s1 s2" using start_batch_cases [OF b] by simp
      have r: "n = 0" "s' = wipe_scratch s2" using step no by simp_all
      have r2: "at_rest s2" using at_rest_interrupted [OF i] r1 by simp
      then have rest: "at_rest s'" by (simp add: r(2) at_rest_simps wipe_scratch_def set_scratch_def worker_owns_def)
      have e: "us_turns s' = us_turns s" "us_command_write s' = us_command_write s" "us_command_generation s' = us_command_generation s"
        "us_command_left s' = us_command_left s" "us_command_lba s' = us_command_lba s"
        using e1 i by (simp_all add: r(2) wipe_scratch_def set_scratch_def interrupted_def)
      have "active_inv (Retry k) True lba0 n0 h [] g s'" by (rule rest_active [OF rest ai _ e]) (use st(1) in simp)
      then have "run_inv turns s' (Retry k) c h"
        using rest e(1) c hi assms(2) by (intro run_invI [where d = "[]" and g = g]) (simp_all add: at_rest_def)
      then show ?thesis by (simp add: r(1) phase_after_def pieces_after_def)
    next
      case yes: True
      then obtain s3 where i: "interrupted s1 s3" and s2: "s2 = s3\<lparr>us_commands := Some (batch_request True ?b s1), us_async_pending := True,
         us_pending_bytes := ?b, us_pending := True, us_ready := False\<rparr>"
        using start_batch_cases [OF b] by auto
      have e3: "us_turns s3 = turns" "us_command_write s3" "us_command_generation s3 = us_command_generation s"
        "us_command_left s3 = us_command_left s" "us_command_lba s3 = us_command_lba s" "us_memory s3 = us_memory s"
        "us_command_active s3" "\<not> us_final_write s3" "at_rest s3"
        using e1 i cw assms(2) at_rest_interrupted [OF i] r1 by (simp_all add: interrupted_def)
      have rq: "batch_request True ?b s1 = \<lparr>rq_op = FV_USB_WRITE, rq_lba = us_command_lba s, rq_count = ?b div 512,
          rq_generation = us_command_generation s, rq_data = (SCRATCH, ?data)\<rparr>"
        using e1 t1 by (simp add: batch_request_def)
      show ?thesis
      proof (cases "?b = us_command_left s")
        case last: True
        have r: "n = 0" "s' = s2\<lparr>us_final_write := True\<rparr>" using step yes last e3 by (simp_all add: s2)
        have p: "pipe_inv s' ?data" using e3 rq dat(1) k
          by (simp add: r(2) s2 pipe_inv_def at_rest_simps batch_def)
        have "active_inv (Retry k) True lba0 n0 h ?data g s'"
          using ai e3 st(1) last k assms(2) by (simp add: r(2) s2 active_inv_def acked_def final_fits_def)
        then have "run_inv turns s' (Retry k) c h"
          using p c hi e3 assms(2) by (intro run_invI [where d = "?data" and g = g]) (simp_all add: r(2) s2)
        then show ?thesis by (simp add: r(1) phase_after_def pieces_after_def)
      next
        case more: False
        have r: "n = int (unat ?b)" "s' = wipe (tc_buffer k) ?b (s2\<lparr>us_command_left := us_command_left s - ?b,
            us_command_lba := us_command_lba s + ?b div 512\<rparr>)" using step yes more e3 by (simp_all add: s2)
        have p: "pipe_inv s' ?data" using e3 rq dat(1) k
          by (simp add: r(2) s2 pipe_inv_def at_rest_simps batch_def wipe_def)
        have lf: "unat (us_command_left s - ?b) = unat (us_command_left s) - unat ?b" "(us_command_left s - ?b) mod 512 = 0"
          "us_command_left s - ?b \<noteq> 0"
          using left_after [of ?b "us_command_left s"] k ai more by (auto simp: active_inv_def)
        let ?h = "h @ [(tc_lba k + tc_offset k div 512, ?data)]"
        have hm: "piece_bytes h mod 512 = 0" using hi consecutive_mod [of lba0 h] by (simp add: history_inv_def)
        have tot: "piece_bytes h + unat (us_command_left s) = unat n0" "us_command_lba s = lba0 + of_nat (piece_bytes h div 512)"
          "g = us_command_generation s" using ai by (simp_all add: active_inv_def)
        have "unat ?b \<noteq> unat (us_command_left s)" using more by (simp add: word_unat_eq_iff)
        then have less: "piece_bytes h + unat ?b < unat n0" using tot(1) k by simp
        have "history_inv True lba0 n0 ?h g turns"
          by (rule history_append [OF hi [unfolded assms(2)] dat(3,2) pos]) (use less st(1) dat(1) assms(2) in simp_all)
        moreover have "active_inv Next True lba0 n0 ?h ?data g s'"
          using e3 lf tot(1,3) k dat(1) lba_after [OF hm, of lba0 ?b] pos
          by (simp add: r(2) s2 active_inv_def acked_def wipe_def tot(2))
        ultimately have "run_inv turns s' Next c ?h"
          using p c e3 by (intro run_invI [where d = "?data" and g = g]) (simp_all add: r(2) s2 wipe_def)
        moreover have "0 < n" unfolding r(1) of_nat_0_less_iff using k by blast
        ultimately show ?thesis using assms(5) by (simp add: phase_after_def pieces_after_def)
      qed
    qed
  qed
qed

text \<open>Read: a started batch, and the delivery of one that was completed well.\<close>

lemma read_started:
  assumes "at_rest s" "start_batch False b s = (ok, s')" "us_command_active s" "\<not> us_command_write s" "us_turns s = turns"
    "c = Some (False, lba0, n0)" "history_inv False lba0 n0 h g turns" "active_inv ph0 False lba0 n0 h d0 g s"
    "unat b \<le> FV_USB_IO_BYTES" "b mod 512 = 0 \<and> unat b \<le> unat (us_command_left s)"
    "ph = Next \<Longrightarrow> unat b = min (unat (us_command_left s)) FV_USB_IO_BYTES" "\<And>k. ph = Retry k \<Longrightarrow> tc_bytes k = b"
  shows "run_inv turns s' ph c h" "us_memory s' = us_memory s"
proof -
  have "run_inv turns s' ph c h \<and> us_memory s' = us_memory s"
    using start_batch_cases [OF assms(2)]
  proof (elim disjE conjE exE)
    assume i: "interrupted s s'"
    have e: "us_turns s' = us_turns s" "us_command_write s' = us_command_write s" "us_command_generation s' = us_command_generation s"
        "us_command_left s' = us_command_left s" "us_command_lba s' = us_command_lba s" "us_memory s' = us_memory s"
      using i by (simp_all add: interrupted_def)
    have r: "at_rest s'" using at_rest_interrupted [OF i] assms(1) by simp
    have "active_inv ph False lba0 n0 h [] g s'" by (rule rest_active [OF r assms(8) _ e(1-5)]) simp
    then have "run_inv turns s' ph c h" using r e assms(5-7) by (intro run_invI [where d = "[]" and g = g]) (simp_all add: at_rest_def)
    then show ?thesis using e by simp
  next
    fix s1 assume i: "interrupted s s1" and s': "s' = s1\<lparr>us_commands := Some (batch_request False b s), us_async_pending := True,
         us_pending_bytes := b, us_pending := True, us_ready := False\<rparr>"
    have e: "us_turns s1 = turns" "\<not> us_command_write s1" "us_command_generation s1 = us_command_generation s"
        "us_command_left s1 = us_command_left s" "us_command_lba s1 = us_command_lba s" "us_memory s1 = us_memory s" "us_scratch s1 = us_scratch s"
        "us_command_active s1" "at_rest s1"
      using i assms(3,4,5) at_rest_interrupted [OF i] assms(1) by (simp_all add: interrupted_def)
    have l: "length (take (unat b) (us_scratch s)) = unat b" using assms(1,9) by (simp add: at_rest_simps)
    have "pipe_inv s' (take (unat b) (us_scratch s))"
      using e l assms(9) by (simp add: s' pipe_inv_def at_rest_simps batch_def batch_request_def)
    moreover have "active_inv ph False lba0 n0 h (take (unat b) (us_scratch s)) g s'"
      using assms(8) e assms(10,11,12) by (simp add: s' active_inv_def acked_def at_rest_simps retry_fits_def)
    ultimately have "run_inv turns s' ph c h"
      using assms(6,7) e by (intro run_invI [where d = "take (unat b) (us_scratch s)" and g = g]) (simp_all add: s')
    then show ?thesis using e by (simp add: s')
  qed
  then show "run_inv turns s' ph c h" "us_memory s' = us_memory s" by simp_all
qed

lemma prefetch_size:
  fixes left :: u32
  shows "unat (if left < of_nat FV_USB_IO_BYTES then left else of_nat FV_USB_IO_BYTES) = min (unat left) FV_USB_IO_BYTES"
  by (simp add: FV_USB_IO_BYTES_def word_less_nat_alt)

lemma transfer_read_inv:
  assumes "pipe_inv s d" "us_turns s = turns" "\<not> us_pending s" "call_ok k s" "\<not> tc_write k" "command_inv (Retry k) c h d g s"
    "us_ready s \<longrightarrow> (\<exists>r. landed s d r \<and> good_response False (us_command_generation s) r)"
    "transfer_read (tc_buffer k) (tc_bytes k) s = (n, s')"
  shows "run_inv turns s' (phase_after k n) c (pieces_after k n s0 s' h)"
proof -
  let ?b = "tc_bytes k"
  note k = assms(4) [unfolded call_ok_def]
  have cw: "\<not> us_command_write s" using k assms(5) by simp
  obtain lba0 n0 where c: "c = Some (False, lba0, n0)" and hi: "history_inv False lba0 n0 h g turns"
    and ai: "active_inv (Retry k) False lba0 n0 h d g s"
    using command_active [OF assms(6)] k cw assms(2) by auto
  have nf: "\<not> us_final_write s" using ai by (auto simp: active_inv_def)
  have q: "us_commands s = None" "\<not> us_async_pending s" "\<not> us_async_ready s" "\<not> us_race s" "length (us_scratch s) = FV_USB_IO_BYTES"
    using assms(1,3) by (auto simp: pipe_inv_def)
  show ?thesis
  proof (cases "us_ready s")
    case False
    define s1 where "s1 = wipe (tc_buffer k) ?b s"
    obtain ok s2 where b: "start_batch False ?b s1 = (ok, s2)" by (cases "start_batch False ?b s1")
    have r: "n = 0" "s' = s2" using assms(8) False b by (simp_all add: transfer_read_def s1_def)
    have rest: "at_rest s1" using q assms(3) False nf by (simp add: s1_def wipe_def at_rest_simps)
    have a1: "active_inv (Retry k) False lba0 n0 h d g s1"
      by (rule rest_active [OF rest ai]) (simp_all add: s1_def wipe_def)
    have "run_inv turns s' (Retry k) c h"
      unfolding r(2) by (rule read_started(1) [OF rest b _ _ _ c hi a1]) (use k cw assms(2) in \<open>simp_all add: s1_def wipe_def\<close>)
    then show ?thesis by (simp add: r(1) phase_after_def pieces_after_def)
  next
    case True
    then obtain r where lr: "landed s d r" "good_response False (us_command_generation s) r" using assms(7) by blast
    have ld: "length d = unat (us_pending_bytes s)" "length d \<le> FV_USB_IO_BYTES" using assms(1) True by (auto simp: pipe_inv_def)
    have bp: "unat ?b \<le> length d" "us_pending_bytes s mod 512 = 0" using ai True k ld by (simp_all add: active_inv_def retry_fits_def)
    let ?data = "take (unat ?b) (us_scratch s)"
    define s1 where "s1 = deliver (tc_buffer k) ?b s"
    have e1: "us_turns s1 = turns" "\<not> us_command_write s1" "us_command_generation s1 = us_command_generation s"
      "us_command_left s1 = us_command_left s - ?b" "us_command_lba s1 = us_command_lba s + ?b div 512" "us_command_active s1" "at_rest s1"
      using q assms(2,3) k cw nf
      by (simp_all add: s1_def deliver_def Let_def wipe_scratch_def set_scratch_def worker_owns_def at_rest_simps)
    have dl: "length ?data = unat ?b" using k q by simp
    have m1: "take (unat ?b) (us_memory s1 (tc_buffer k)) = ?data"
      using k dl by (simp add: s1_def deliver_def Let_def wipe_scratch_def set_scratch_def memcpy_def)
    have fe: "fetched turns g (us_command_lba s, ?data)"
      using landed_fetched [OF lr cw ld bp(2,1) q(5)] ai assms(2) by (simp add: active_inv_def)
    have tot: "piece_bytes h + unat (us_command_left s) = unat n0" "us_command_lba s = lba0 + of_nat (piece_bytes h div 512)"
      "us_command_left s mod 512 = 0" "g = us_command_generation s"
      using ai by (simp_all add: active_inv_def)
    let ?h = "h @ [(tc_lba k + tc_offset k div 512, ?data)]"
    have hm: "piece_bytes h mod 512 = 0" using hi consecutive_mod [of lba0 h] by (simp add: history_inv_def)
    have dm: "length ?data mod 512 = 0" "?data \<noteq> []" using k dl chunk_mod by auto
    have h': "history_inv False lba0 n0 ?h g turns"
      by (rule history_append [OF hi dm]) (use k tot dl fe in simp_all)
    have lf: "unat (us_command_left s - ?b) = unat (us_command_left s) - unat ?b" "(us_command_left s - ?b) mod 512 = 0"
      using left_after [of ?b "us_command_left s"] k tot(3) by auto
    have np: "0 < int (unat ?b)" unfolding of_nat_0_less_iff using k by blast
    show ?thesis
    proof (cases "us_command_left s1 = 0")
      case True
      have r: "n = int (unat ?b)" "s' = s1\<lparr>us_command_active := False\<rparr>"
        using assms(8) \<open>us_ready s\<close> True by (simp_all add: transfer_read_def s1_def Let_def)
      have "run_inv turns s' Next c ?h"
        using e1 h' c by (intro run_invI [where d = "[]" and g = g]) (simp_all add: r(2) at_rest_simps at_rest_def pipe_inv_def)
      moreover have "take (unat ?b) (us_memory s' (tc_buffer k)) = ?data" using m1 by (simp add: r(2))
      ultimately show ?thesis using np assms(5) by (simp only: r(1) phase_after_def pieces_after_def) simp
    next
      case False
      let ?next = "if us_command_left s1 < of_nat FV_USB_IO_BYTES then us_command_left s1 else of_nat FV_USB_IO_BYTES"
      obtain ok s2 where b: "start_batch False ?next s1 = (ok, s2)" by (cases "start_batch False ?next s1")
      have r: "n = int (unat ?b)" "s' = s2"
        using assms(8) \<open>us_ready s\<close> False unfolding transfer_read_def Let_def s1_def [symmetric] b by auto
      have a1: "active_inv Next False lba0 n0 ?h [] g s1"
        using e1 lf tot k dl lba_after [OF hm, of lba0 ?b] False by (simp add: active_inv_def acked_def at_rest_simps)
      have nm: "?next mod 512 = 0 \<and> unat ?next \<le> unat (us_command_left s1)"
        using e1(4) lf(2) prefetch_size [of "us_command_left s1"] by (simp add: FV_USB_IO_BYTES_def)
      have s: "run_inv turns s2 Next c ?h" "us_memory s2 = us_memory s1"
        using read_started [OF e1(7) b e1(6,2,1) c h' a1 _ nm, of Next] prefetch_size [of "us_command_left s1"] by simp_all
      have "take (unat ?b) (us_memory s' (tc_buffer k)) = ?data" using m1 s(2) by (simp add: r(2))
      then show ?thesis using np s(1) assms(5) by (simp only: r phase_after_def pieces_after_def) simp
    qed
  qed
qed

text \<open>The previous batch comes first.\<close>

lemma pieces_none: "n \<le> 0 \<Longrightarrow> pieces_after k n s s' h = h"
  by (simp add: pieces_after_def)

lemma failed_inv:
  assumes "run_inv turns s ph c h"
  shows "run_inv turns (s\<lparr>us_memory := m\<rparr>) Failed c h"
proof -
  obtain d g where p: "us_turns s = turns" "pipe_inv s d" "command_inv ph c h d g s" using assms by (auto simp: run_inv_def)
  have b: "batch (s\<lparr>us_memory := m\<rparr>) d = batch s d" by (simp add: batch_def)
  have "landed (s\<lparr>us_memory := m\<rparr>) d r = landed s d r" for r by (simp add: landed_def b)
  then have "pipe_inv (s\<lparr>us_memory := m\<rparr>) d = pipe_inv s d" by (simp add: pipe_inv_def b)
  then have "pipe_inv (s\<lparr>us_memory := m\<rparr>) d" using p(2) by simp
  then show ?thesis using p(1) command_failed [OF p(3), of m] unfolding run_inv_def by (intro conjI exI) simp_all
qed

lemma failed_same: "run_inv turns s ph c h \<Longrightarrow> run_inv turns s Failed c h"
  using failed_inv [of turns s ph c h "us_memory s"] by simp

lemma run_inv_interrupted: "run_inv turns s ph c h \<Longrightarrow> interrupted s s' \<Longrightarrow> sized turns \<Longrightarrow> run_inv turns s' ph c h"
  by (erule run_inv_keeps) (simp_all add: keeps_or_ends_interrupted)

lemma clear_inv: "run_inv turns s ph c h \<Longrightarrow> sized turns \<Longrightarrow> run_inv turns (clear_pipeline s) ph c h"
  by (rule run_inv_keeps) (auto simp: run_inv_def keeps_or_ends_def intro!: clear_pipeline_drained)

lemma transfer_batch_inv:
  assumes "run_inv turns s (Retry k) c h" "sized turns" "call_ok k s" "us_memory s (tc_buffer k) = us_memory s0 (tc_buffer k)"
    "transfer_batch lun (tc_buffer k) (tc_bytes k) (tc_write k) s = (n, s')"
  shows "run_inv turns s' (phase_after k n) c (pieces_after k n s0 s' h)"
proof -
  obtain d g where p: "us_turns s = turns" "pipe_inv s d" "command_inv (Retry k) c h d g s" using assms(1) by (auto simp: run_inv_def)
  have sz: "sized (us_turns s)" using assms(2) p(1) by simp
  obtain settled s1 where hv: "(if us_pending s then harvest s else (True, s)) = (settled, s1)"
    by (cases "if us_pending s then harvest s else (True, s)")
  have s1: "settles d s s1" "settled = (us_pending s \<longrightarrow> us_ready s1)"
    using hv harvest_settles [OF p(2) sz] settles_refl [OF p(2)] by (auto split: if_splits)
  have i1: "pipe_inv s1 d" "us_turns s1 = turns" "command_inv (Retry k) c h d g s1" "same_command s s1"
    using settles_inv [OF s1(1)] settles_turns [OF s1(1)] p same_command_inv [of s s1] s1(1) by (simp_all add: settles_def)
  have r1: "run_inv turns s1 (Retry k) c h" using i1 by (auto simp: run_inv_def)
  show ?thesis
  proof (cases settled)
    case False
    then have "n = 0" "s' = s1" using assms(5) hv by (simp_all add: transfer_batch_def)
    then show ?thesis using r1 by (simp add: phase_after_def pieces_after_def)
  next
    case True
    have np: "\<not> us_pending s1"
    proof (cases "us_pending s")
      case True
      then have "us_ready s1" using s1(2) \<open>settled\<close> by simp
      then show ?thesis using i1(1) by (auto simp: pipe_inv_def)
    next
      case False
      then show ?thesis using hv by simp
    qed
    obtain good s2 where gd: "(if us_ready s1 then completed_good (tc_write k) s1 else (True, s1)) = (good, s2)"
      by (cases "if us_ready s1 then completed_good (tc_write k) s1 else (True, s1)")
    have i2: "interrupted s1 s2" using gd completed_good_lands(1) [of "tc_write k" s1 good s2] by (auto split: if_splits)
    have r2: "run_inv turns s2 (Retry k) c h" by (rule run_inv_interrupted [OF r1 i2 assms(2)])
    show ?thesis
    proof (cases good)
      case False
      then have "n = - 1" "s' = snd (io_error lun (completed_error (tc_write k) s2) (tc_write k) (clear_pipeline s2))"
        using assms(5) hv gd True unfolding transfer_batch_def by (simp_all add: io_error_def)
      moreover have "run_inv turns (snd (io_error lun (completed_error (tc_write k) s2) (tc_write k) (clear_pipeline s2))) Failed c h"
        by (rule failed_same [OF run_inv_interrupted [OF clear_inv [OF r2 assms(2)] bookkeeping(8) assms(2)]])
      ultimately show ?thesis by (simp add: phase_after_def pieces_after_def)
    next
      case True
      note sc = interrupted_settles(4) [OF i2]
      have i3: "pipe_inv s2 d" "us_turns s2 = turns" "command_inv (Retry k) c h d g s2" "\<not> us_pending s2" "same_command s s2"
        using i1(1-3) np interrupted_settles(3) [OF i2] same_command_inv [OF sc] i2
          settles_trans [OF s1(1) interrupted_settles(5) [OF i2 i1(1)]]
        by (simp_all add: interrupted_def settles_def)
      have k: "call_ok k s2" using assms(3) i3(5) by (simp add: call_ok_def same_command_def)
      have ld: "us_ready s2 \<longrightarrow> (\<exists>r. landed s2 d r \<and> good_response (tc_write k) (us_command_generation s2) r)"
        using completed_good_lands(2) [of "tc_write k" s1 good s2 d] gd True i1(1) interrupted_settles(2) [OF i2] i2
        by (auto simp: interrupted_def)
      have m: "us_memory s2 (tc_buffer k) = us_memory s0 (tc_buffer k)" using assms(4) i3(5) by (simp add: same_command_def)
      have st: "(if tc_write k then transfer_write (tc_buffer k) (tc_bytes k) s2 else transfer_read (tc_buffer k) (tc_bytes k) s2) = (n, s')"
        using assms(5) hv gd \<open>settled\<close> True unfolding transfer_batch_def by simp
      show ?thesis
      proof (cases "tc_write k")
        case True
        then have "run_inv turns s' (phase_after k n) c (pieces_after k n s2 s' h)"
          using transfer_write_inv [OF i3(1,2,4) k True i3(3)] ld st by simp
        moreover have "pieces_after k n s2 s' h = pieces_after k n s0 s' h" using m True by (simp add: pieces_after_def)
        ultimately show ?thesis by simp
      next
        case False
        then show ?thesis using transfer_read_inv [OF i3(1,2,4) k False i3(3)] ld st by simp
      qed
    qed
  qed
qed

lemma retry_inv:
  assumes "run_inv turns s ph c h" "ph = Next \<or> ph = Retry k" "unat (tc_bytes k) \<le> FV_USB_IO_BYTES"
  shows "run_inv turns s (Retry k) c h"
  using assms(2)
proof
  assume "ph = Next"
  obtain d g where p: "us_turns s = turns" "pipe_inv s d" "command_inv ph c h d g s" using assms(1) by (auto simp: run_inv_def)
  have "command_inv (Retry k) c h d g s"
    using p(3) assms(3) \<open>ph = Next\<close> unfolding command_inv_def active_inv_def retry_fits_def final_fits_def by auto
  then show ?thesis using p by (auto simp: run_inv_def)
qed (use assms(1) in simp)

end
