(* ===== verification/Fido_Worker.thy ===== *)
theory Fido_Worker
  imports Session_Worker
begin

text \<open>
  The worker side of the FIDO adapter (\<^verbatim>\<open>src/src/pico/device/fido_adapter.c\<close> and the \<^verbatim>\<open>fv_fido_*\<close> functions of
  \<^verbatim>\<open>commands.c\<close>): prompts, user verification, the storage of the FIDO engine, and the execution of a request.
  The engine itself (bundled third-party code) is the parameter \<open>fido_engine\<close>: functions on the worker's
  state, because the engine calls back into it. Its law (\<open>engine_law\<close>) says that it changes the worker only
  through the callbacks it was given.
\<close>

section \<open>Authority and cancellation\<close>

definition fido_authorized :: "('a, 'd, 'r, 'e) worker \<Rightarrow> bool \<times> ('a, 'd, 'r, 'e) worker" where
  "fido_authorized w =
     (case fv_usb_session_invalidated w of (invalid, w) \<Rightarrow>
        (\<not> invalid \<and> v_unlocked (wk_vault w) \<and> fv_access_fido (usb_mode w), w))"

definition cancel_requested :: "('a, 'd, 'r, 'e) worker \<Rightarrow> bool \<times> ('a, 'd, 'r, 'e) worker" where
  "cancel_requested w = (case core0 w of (i, w) \<Rightarrow> (c0_cancel i, w))"

definition fv_fido_cancelled ::
  "('a, 'd, 'r, 'e) worker_lib \<Rightarrow> ('a, 'd, 'r, 'e) worker \<Rightarrow> bool \<times> ('a, 'd, 'r, 'e) worker" where
  "fv_fido_cancelled W w =
     (case worker_timer W fv_session_timeout_poll (wk_published w) w of (_, w) \<Rightarrow>
      case cancel_requested w of (cancel, w) \<Rightarrow>
        if cancel \<or> wk_invalidated w then (True, w) else fv_usb_session_invalidated w)"

definition fv_fido_unlocked :: "('a, 'd, 'r, 'e) worker \<Rightarrow> ('a, 'd, 'r, 'e) worker" where
  "fv_fido_unlocked w = (case time_ms w of (now, w) \<Rightarrow> w\<lparr>wk_verification := fv_fido_verification_begin (ucast now)\<rparr>)"

definition fv_fido_random ::
  "('a, 'd, 'r, 'e) worker_lib \<Rightarrow> nat \<Rightarrow> ('a, 'd, 'r, 'e) worker \<Rightarrow> u8 list option \<times> ('a, 'd, 'r, 'e) worker" where
  "fv_fido_random W n w =
     (let w = (if wk_rng_ready w then w
               else case wl_start_random W (w_random (wk_world w)) of (ok, r) \<Rightarrow>
                      w\<lparr>wk_rng_ready := ok, wk_world := (wk_world w)\<lparr>w_random := r\<rparr>\<rparr>)
      in if \<not> wk_rng_ready w then (None, w)
         else case vault_random (wl_platform W) n (wk_world w) of (out, vw) \<Rightarrow> (out, w\<lparr>wk_world := vw\<rparr>))"

text \<open>\<^verbatim>\<open>is_present\<close>, or the first initialization of the card.\<close>

definition card_ready ::
  "('a, 'd, 'r, 'e) worker_lib \<Rightarrow> ('a, 'd, 'r, 'e) worker \<Rightarrow> bool \<times> ('a, 'd, 'r, 'e) worker" where
  "card_ready W w =
     (if wk_sd_initialized w then (blk_present (vp_sd (wl_platform W)) (w_sd (wk_world w)), w)
      else case wl_sd_init W (w_sd (wk_world w)) of (ok, d) \<Rightarrow>
        (ok, w\<lparr>wk_sd_initialized := True, wk_world := (wk_world w)\<lparr>w_sd := d\<rparr>\<rparr>))"

definition fv_fido_profile ::
  "('a, 'd, 'r, 'e) worker_lib \<Rightarrow> ('a, 'd, 'r, 'e) worker \<Rightarrow> u16 \<times> ('a, 'd, 'r, 'e) worker" where
  "fv_fido_profile W w =
     (if wk_sd_initialized w \<and> \<not> blk_present (vp_sd (wl_platform W)) (w_sd (wk_world w)) then (0, usb_lock W w)
      else if v_unlocked (wk_vault w) then (ec_credential_profile (v_config (wk_vault w)), w)
      else case card_ready W w of (ready, w) \<Rightarrow>
        if ready
        then (case fv_vault_credential_profile (wl_sha W) (wl_platform W) (wk_world w) of (_, profile, vw) \<Rightarrow>
                (profile, w\<lparr>wk_world := vw\<rparr>))
        else (0, w))"

section \<open>Prompts\<close>

text \<open>While a prompt waits, only the disk is served; other commands are answered as busy.\<close>

definition fv_fido_pump ::
  "('a, 'd, 'r, 'e) worker_lib \<Rightarrow> worker_command option \<Rightarrow> ('a, 'd, 'r, 'e) worker \<Rightarrow> ('a, 'd, 'r, 'e) worker" where
  "fv_fido_pump W c w =
     (case usb_timer_poll W w of (_, w) \<Rightarrow>
        (case c of Some (Storage_Command rq) \<Rightarrow> (case fv_usb_storage_execute W rq w of (_, _, w) \<Rightarrow> w) | _ \<Rightarrow> w))"

text \<open>One turn of the loop that waits for the answer: after 60 seconds, or when cancelled, core 0 is told to abort.\<close>

definition ask_turn ::
  "('a, 'd, 'r, 'e) worker_lib \<Rightarrow> u32 \<Rightarrow> worker_command option \<Rightarrow> ('a, 'd, 'r, 'e) worker \<Rightarrow> ('a, 'd, 'r, 'e) worker" where
  "ask_turn W start c w =
     (case fv_fido_cancelled W w of (cancelled, w) \<Rightarrow>
      case (if cancelled then (True, w) else case time_ms w of (now, w) \<Rightarrow> (ucast now - start \<ge> 60000, w)) of (abort, w) \<Rightarrow>
        fv_fido_pump W c (if abort then w\<lparr>wk_prompt_abort := True\<rparr> else w))"

definition ask ::
  "('a, 'd, 'r, 'e) worker_lib \<Rightarrow> bool \<Rightarrow> u16 \<Rightarrow> ('a, 'd, 'r, 'e) worker \<Rightarrow> bool \<times> ('a, 'd, 'r, 'e) worker" where
  "ask W secret profile w =
     (let i = wk_prompts w (wk_asked w);
          w = w\<lparr>wk_asked := Suc (wk_asked w), wk_prompt_abort := False,
                wk_mailbox := prompt_zero\<lparr>pr_secret := secret, pr_profile := profile, pr_label := wk_label w\<rparr>\<rparr>
      in case time_ms w of (start, w) \<Rightarrow>
         let w = fold (ask_turn W (ucast start)) (pi_waiting i) w;
             w = w\<lparr>wk_mailbox := (wk_mailbox w)\<lparr>pr_approved := pi_approved i, pr_value := pi_value i, pr_length := pi_length i\<rparr>\<rparr>
         in case (if pi_approved i then fv_fido_cancelled W w else (True, w)) of (refused, w) \<Rightarrow>
            (\<not> refused, fold (fv_fido_pump W) (pi_drained i # pi_dismissing i) w))"

section \<open>User verification and the other callbacks\<close>

definition use_verification ::
  "u8 list option \<Rightarrow> ('a, 'd, 'r, 'e) worker \<Rightarrow> bool \<times> ('a, 'd, 'r, 'e) worker" where
  "use_verification rp w =
     (case time_ms w of (now, w) \<Rightarrow>
      case fv_fido_verification_use_policy (ucast now) rp (ucast (wk_uv_policy w)) (wk_verification w) of (ok, s) \<Rightarrow>
        (ok, w\<lparr>wk_verification := s\<rparr>))"

definition wipe_prompt :: "('a, 'd, 'r, 'e) worker \<Rightarrow> ('a, 'd, 'r, 'e) worker" where
  "wipe_prompt w = w\<lparr>wk_mailbox := (wk_mailbox w)\<lparr>pr_value := zeros 64, pr_length := 0\<rparr>\<rparr>"

text \<open>The second half of \<^verbatim>\<open>verify\<close>: the credential is asked for and checked.\<close>

definition verify_prompt ::
  "('a, 'd, 'r, 'e) worker_lib \<Rightarrow> ('a, 'd, 'r, 'e) worker \<Rightarrow> bool \<times> ('a, 'd, 'r, 'e) worker" where
  "verify_prompt W w =
     (case fv_fido_profile W w of (profile, w) \<Rightarrow>
      case (if profile \<ge> 2 \<and> profile \<le> 4 then ask W True profile w else (False, w)) of (ok, w) \<Rightarrow>
      case (if ok
            then case fv_fido_verify_secret W (take (pr_length (wk_mailbox w)) (pr_value (wk_mailbox w))) w of (r, w) \<Rightarrow>
                   (r = FV_VAULT_OK, w)
            else (False, w)) of (ok, w) \<Rightarrow> (ok, wipe_prompt w))"

definition verify ::
  "('a, 'd, 'r, 'e) worker_lib \<Rightarrow> u8 list option \<Rightarrow> ('a, 'd, 'r, 'e) worker \<Rightarrow> bool \<times> ('a, 'd, 'r, 'e) worker" where
  "verify W rp w =
     (case fv_fido_cancelled W w of (True, w) \<Rightarrow> (False, w)
      | (False, w) \<Rightarrow>
        (case (if usb_mode w \<noteq> FV_ACCESS_LOCKED then fido_authorized w else (True, w)) of (False, w) \<Rightarrow> (False, w)
         | (True, w) \<Rightarrow>
           (case (case fido_authorized w of (ok, w) \<Rightarrow> if ok then use_verification rp w else (False, w)) of
              (True, w) \<Rightarrow> (True, w)
            | (False, w) \<Rightarrow>
              (case verify_prompt W w of (ok, w) \<Rightarrow>
               case (if ok then fido_authorized w else (False, w)) of (ok, w) \<Rightarrow>
               case (if ok then fv_fido_cancelled W w else (True, w)) of (refused, w) \<Rightarrow>
                 if refused then (False, w\<lparr>wk_verification := fv_fido_verification_clear\<rparr>)
                 else use_verification rp (fv_fido_unlocked w)))))"

definition presence ::
  "('a, 'd, 'r, 'e) worker_lib \<Rightarrow> ('a, 'd, 'r, 'e) worker \<Rightarrow> nat \<times> ('a, 'd, 'r, 'e) worker" where
  "presence W w =
     (case fido_authorized w of (ok, w) \<Rightarrow>
      case (if ok then ask W False 0 w else (False, w)) of (ok, w) \<Rightarrow> (if ok then 0 else 2, w))"

text \<open>\<^verbatim>\<open>!executing || !fv_fido_cancelled(NULL)\<close>.\<close>

definition not_cancelled ::
  "('a, 'd, 'r, 'e) worker_lib \<Rightarrow> ('a, 'd, 'r, 'e) worker \<Rightarrow> bool \<times> ('a, 'd, 'r, 'e) worker" where
  "not_cancelled W w = (if wk_executing w then case fv_fido_cancelled W w of (c, w) \<Rightarrow> (\<not> c, w) else (True, w))"

definition commit_disk ::
  "('a, 'd, 'r, 'e) worker_lib \<Rightarrow> ('a, 'd, 'r, 'e) worker \<Rightarrow> bool \<times> ('a, 'd, 'r, 'e) worker" where
  "commit_disk W w =
     (case fido_authorized w of (False, w) \<Rightarrow> (False, w)
      | (True, w) \<Rightarrow>
        (case not_cancelled W w of (False, w) \<Rightarrow> (False, w)
         | (True, w) \<Rightarrow>
           (case fv_fido_journal_commit (wl_sha W) (wl_platform W) (wk_vault w) (wk_store w) (wk_world w) of (ok, s, vw) \<Rightarrow>
              (ok, w\<lparr>wk_store := s, wk_world := vw\<rparr>))))"

definition retries ::
  "('a, 'd, 'r, 'e) worker_lib \<Rightarrow> ('a, 'd, 'r, 'e) worker \<Rightarrow> u8 \<times> ('a, 'd, 'r, 'e) worker" where
  "retries W w =
     (case fido_authorized w of (False, w) \<Rightarrow> (0, w)
      | (True, w) \<Rightarrow>
        (case vault_load (wl_platform W) (wk_world w) of (state, vw) \<Rightarrow>
           (case state of None \<Rightarrow> 0
            | Some s \<Rightarrow>
              if ds_status s \<noteq> FV_ENROLLMENT_ACTIVE then 0
              else if limit_action (ds_policy s) = FV_LIMIT_NONE then 255
              else
                (let remaining = (if max_attempts (ds_policy s) > ds_attempts s
                                  then max_attempts (ds_policy s) - ds_attempts s else 0)
                 in if remaining > 255 then 255 else ucast remaining),
            w\<lparr>wk_world := vw\<rparr>)))"

definition reset_allowed :: "('a, 'd, 'r, 'e) worker \<Rightarrow> bool \<times> ('a, 'd, 'r, 'e) worker" where
  "reset_allowed w =
     (case core0 w of (i, w) \<Rightarrow>
        (case c0_enumerated i of None \<Rightarrow> (False, w) | Some since \<Rightarrow> (ucast (c0_now_ms i) - since < 10000, w)))"

definition local_authorized ::
  "('a, 'd, 'r, 'e) worker_lib \<Rightarrow> ('a, 'd, 'r, 'e) worker \<Rightarrow> bool \<times> ('a, 'd, 'r, 'e) worker" where
  "local_authorized W w =
     (case not_cancelled W w of (False, w) \<Rightarrow> (False, w) | (True, w) \<Rightarrow> fido_authorized w)"

definition storage_read ::
  "('a, 'd, 'r, 'e) worker_lib \<Rightarrow> nat \<Rightarrow> nat \<Rightarrow> ('a, 'd, 'r, 'e) worker \<Rightarrow> bool \<times> u8 list \<times> ('a, 'd, 'r, 'e) worker" where
  "storage_read W offset n w =
     (case fv_fido_journal_read (wl_sha W) (wl_platform W) (wk_vault w) offset n (wk_store w) (wk_world w) of
        (ok, out, s, vw) \<Rightarrow> (ok, out, w\<lparr>wk_store := s, wk_world := vw\<rparr>))"

definition storage_write ::
  "('a, 'd, 'r, 'e) worker_lib \<Rightarrow> nat \<Rightarrow> u8 list \<Rightarrow> ('a, 'd, 'r, 'e) worker \<Rightarrow> bool \<times> ('a, 'd, 'r, 'e) worker" where
  "storage_write W offset data w =
     (case fv_fido_journal_write (wl_sha W) (wl_platform W) (wk_vault w) offset data (wk_store w) (wk_world w) of
        (ok, s, vw) \<Rightarrow> (ok, w\<lparr>wk_store := s, wk_world := vw\<rparr>))"

definition storage_reset ::
  "('a, 'd, 'r, 'e) worker_lib \<Rightarrow> int \<Rightarrow> ('a, 'd, 'r, 'e) worker \<Rightarrow> bool \<times> ('a, 'd, 'r, 'e) worker" where
  "storage_reset W policy w =
     (case fv_fido_journal_reset (wl_sha W) (wl_platform W) (wk_vault w) policy (wk_store w) (wk_world w) of
        (ok, s, vw) \<Rightarrow> (ok, w\<lparr>wk_store := s, wk_world := vw\<rparr>))"

end
