(* ===== verification/Fido_Engine.thy ===== *)
theory Fido_Engine
  imports Fido_Worker
begin

text \<open>
  The FIDO engine seen from the worker: its interface, the law that it reaches the worker only through its
  callbacks, opening it on the journal, and the execution of one request
  (\<^verbatim>\<open>src/src/pico/device/fido_adapter.c\<close>).
\<close>

section \<open>The engine and its law\<close>

datatype passkey_action = FV_PASSKEY_BEGIN | FV_PASSKEY_READ | FV_PASSKEY_DELETE | FV_PASSKEY_END

record fv_passkey =
  pk_site :: string
  pk_account :: string
  pk_id :: "u8 list"

definition passkey_zero :: fv_passkey where
  "passkey_zero = \<lparr>pk_site = [], pk_account = [], pk_id = zeros 42\<rparr>"

type_synonym passkey_args = "u16 \<times> u16 \<times> fv_passkey"

text \<open>\<^verbatim>\<open>fv_fido_engine.h\<close>: a reply is its length and the response buffer.\<close>

record ('a, 'd, 'r, 'e) fido_engine =
  en_open :: "u8 list \<Rightarrow> u8 list \<Rightarrow> ('a, 'd, 'r, 'e) worker \<Rightarrow> bool \<times> ('a, 'd, 'r, 'e) worker"
  en_uv_policy :: "u8 option \<Rightarrow> ('a, 'd, 'r, 'e) worker \<Rightarrow> u8 option \<times> ('a, 'd, 'r, 'e) worker"
  en_manage :: "passkey_action \<Rightarrow> passkey_args \<Rightarrow> ('a, 'd, 'r, 'e) worker \<Rightarrow> bool \<times> passkey_args \<times> ('a, 'd, 'r, 'e) worker"
  en_info :: "bool \<Rightarrow> nat \<times> u8 list"
  en_command :: "u32 \<Rightarrow> u8 list \<Rightarrow> ('a, 'd, 'r, 'e) worker \<Rightarrow> (nat \<times> u8 list) \<times> ('a, 'd, 'r, 'e) worker"

text \<open>What the engine can do to the worker. A request may use every callback; the local operations (opening, the
  policy, the management of passkeys) use the storage, the random source and the check of local authority.\<close>

inductive local_callback ::
  "('a, 'd, 'r, 'e) worker_lib \<Rightarrow> ('a, 'd, 'r, 'e) worker \<Rightarrow> ('a, 'd, 'r, 'e) worker \<Rightarrow> bool" for W where
  Own: "local_callback W w (w\<lparr>wk_engine := e\<rparr>)"
| Random: "local_callback W w (snd (fv_fido_random W n w))"
| Storage_Read: "local_callback W w (snd (snd (storage_read W offset n w)))"
| Storage_Write: "local_callback W w (snd (storage_write W offset data w))"
| Storage_Reset: "local_callback W w (snd (storage_reset W policy w))"
| Storage_Commit: "local_callback W w (snd (commit_disk W w))"
| Local_Authorized: "local_callback W w (snd (local_authorized W w))"
| Millis: "local_callback W w (snd (time_ms w))"

inductive request_callback ::
  "('a, 'd, 'r, 'e) worker_lib \<Rightarrow> ('a, 'd, 'r, 'e) worker \<Rightarrow> ('a, 'd, 'r, 'e) worker \<Rightarrow> bool" for W where
  Local: "local_callback W w w' \<Longrightarrow> request_callback W w w'"
| Presence: "request_callback W w (snd (presence W w))"
| Verify_User: "request_callback W w (snd (verify W rp w))"
| Uv_Retries: "request_callback W w (snd (retries W w))"
| Cancelled: "request_callback W w (snd (fv_fido_cancelled W w))"
| Reset_Allowed: "request_callback W w (snd (reset_allowed w))"

definition engine_law :: "('a, 'd, 'r, 'e) worker_lib \<Rightarrow> ('a, 'd, 'r, 'e) fido_engine \<Rightarrow> bool" where
  "engine_law W E \<longleftrightarrow>
     (\<forall>key dev w. (local_callback W)\<^sup>*\<^sup>* w (snd (en_open E key dev w))) \<and>
     (\<forall>m w. (local_callback W)\<^sup>*\<^sup>* w (snd (en_uv_policy E m w))) \<and>
     (\<forall>a x w. (local_callback W)\<^sup>*\<^sup>* w (snd (snd (en_manage E a x w)))) \<and>
     (\<forall>c rx w. (request_callback W)\<^sup>*\<^sup>* w (snd (en_command E c rx w)))"

section \<open>Opening\<close>

definition close_store :: "('a, 'd, 'r, 'e) worker \<Rightarrow> ('a, 'd, 'r, 'e) worker" where
  "close_store w = w\<lparr>wk_store := fv_fido_journal_close\<rparr>"

definition open_engine ::
  "('a, 'd, 'r, 'e) worker_lib \<Rightarrow> ('a, 'd, 'r, 'e) fido_engine \<Rightarrow> ('a, 'd, 'r, 'e) worker \<Rightarrow> bool \<times> ('a, 'd, 'r, 'e) worker" where
  "open_engine W E w =
     (case fv_fido_journal_open (wl_sha W) (wl_ciphers W) (wl_platform W) (wk_vault w) (wk_world w) of (ok, s, vw) \<Rightarrow>
      let w = w\<lparr>wk_store := s, wk_world := vw\<rparr> in
      if \<not> ok then (False, w)
      else case fv_fido_journal_key (wl_sha W) (wl_platform W) (wk_vault w) (wk_store w) (wk_world w) of (key, vw) \<Rightarrow>
        let w = w\<lparr>wk_world := vw\<rparr> in
        (case key of None \<Rightarrow> (False, w)
         | Some k \<Rightarrow>
           (case en_open E k (ec_device_id (v_config (wk_vault w))) w of (ok, w) \<Rightarrow>
              (ok, if ok then w\<lparr>wk_engine_open := True\<rparr> else w))))"

definition ensure_engine ::
  "('a, 'd, 'r, 'e) worker_lib \<Rightarrow> ('a, 'd, 'r, 'e) fido_engine \<Rightarrow> ('a, 'd, 'r, 'e) worker \<Rightarrow> bool \<times> ('a, 'd, 'r, 'e) worker" where
  "ensure_engine W E w =
     (case fido_authorized w of (False, w) \<Rightarrow> (False, w)
      | (True, w) \<Rightarrow>
        (case (if wk_engine_open w then (True, w) else open_engine W E w) of (False, w) \<Rightarrow> (False, w)
         | (True, w) \<Rightarrow>
           (case en_uv_policy E None w of (m, w) \<Rightarrow>
              (case m of None \<Rightarrow> (False, w) | Some mode \<Rightarrow> (True, w\<lparr>wk_uv_policy := mode\<rparr>)))))"

section \<open>Local operations\<close>

definition fv_fido_policy_get ::
  "('a, 'd, 'r, 'e) worker_lib \<Rightarrow> ('a, 'd, 'r, 'e) fido_engine \<Rightarrow> ('a, 'd, 'r, 'e) worker \<Rightarrow> u8 \<times> ('a, 'd, 'r, 'e) worker" where
  "fv_fido_policy_get W E w =
     (case fido_authorized w of (False, w) \<Rightarrow> (0, w)
      | (True, w) \<Rightarrow>
        (case ensure_engine W E w of (ok, w) \<Rightarrow> if ok then (wk_uv_policy w, w) else (0, fv_fido_close W w)))"

definition fv_fido_policy_set ::
  "('a, 'd, 'r, 'e) worker_lib \<Rightarrow> ('a, 'd, 'r, 'e) fido_engine \<Rightarrow> u8 \<Rightarrow> ('a, 'd, 'r, 'e) worker \<Rightarrow> bool \<times> ('a, 'd, 'r, 'e) worker" where
  "fv_fido_policy_set W E mode w =
     (if mode > 1 then (False, w)
      else case fido_authorized w of (False, w) \<Rightarrow> (False, w)
      | (True, w) \<Rightarrow>
        (case ensure_engine W E w of (False, w) \<Rightarrow> (False, w)
         | (True, w) \<Rightarrow>
           (case en_uv_policy E (Some mode) w of (r, w) \<Rightarrow>
              (case r of None \<Rightarrow> (False, fv_fido_close W w)
               | Some mode \<Rightarrow> (True, w\<lparr>wk_uv_policy := mode, wk_verification := fv_fido_verification_clear\<rparr>)))))"

definition manage_delete ::
  "('a, 'd, 'r, 'e) fido_engine \<Rightarrow> u8 list \<Rightarrow> passkey_args \<Rightarrow> ('a, 'd, 'r, 'e) worker
   \<Rightarrow> bool \<times> passkey_args \<times> ('a, 'd, 'r, 'e) worker" where
  "manage_delete E wanted x w =
     (case x of (index, n, entry) \<Rightarrow>
      case en_manage E FV_PASSKEY_DELETE (index, n, entry\<lparr>pk_id := wanted\<rparr>) w of (ok, x, w) \<Rightarrow>
        if ok then en_manage E FV_PASSKEY_READ x w else (False, x, w))"

definition fv_fido_manage ::
  "('a, 'd, 'r, 'e) worker_lib \<Rightarrow> ('a, 'd, 'r, 'e) fido_engine \<Rightarrow> bool \<Rightarrow> passkey_args \<Rightarrow> ('a, 'd, 'r, 'e) worker
   \<Rightarrow> bool \<times> passkey_args \<times> ('a, 'd, 'r, 'e) worker" where
  "fv_fido_manage W E remove x w =
     (case (case fido_authorized w of (ok, w) \<Rightarrow> if ok then ensure_engine W E w else (False, w)) of
        (False, w) \<Rightarrow> (False, x, w)
      | (True, w) \<Rightarrow>
        (case en_manage E FV_PASSKEY_BEGIN x w of (ok, y, w) \<Rightarrow>
         case (if ok \<and> remove then manage_delete E (pk_id (snd (snd x))) y w else (ok, y, w)) of (ok, (index, n, entry), w) \<Rightarrow>
         case en_manage E FV_PASSKEY_END (0, 0, passkey_zero) w of (ended, _, w) \<Rightarrow>
           if ok \<and> ended then (True, (index, n, entry), w)
           else (False, (index, 0, passkey_zero), fv_fido_close W w)))"

definition fv_fido_initialize ::
  "('a, 'd, 'r, 'e) worker_lib \<Rightarrow> ('a, 'd, 'r, 'e) worker \<Rightarrow> bool \<times> ('a, 'd, 'r, 'e) worker" where
  "fv_fido_initialize W w =
     (case fido_authorized w of (False, w) \<Rightarrow> (False, w)
      | (True, w) \<Rightarrow>
        (let w = fv_fido_close W w in
         case fv_fido_journal_initialize (wl_sha W) (wl_ciphers W) (wl_platform W) (wk_vault w) True (wk_world w) of
           (ok, s, vw) \<Rightarrow> (ok, close_store (w\<lparr>wk_store := s, wk_world := vw\<rparr>))))"

definition fv_fido_prepare_new ::
  "('a, 'd, 'r, 'e) worker_lib \<Rightarrow> fv_vault \<Rightarrow> ('a, 'd, 'r, 'e) worker \<Rightarrow> bool \<times> ('a, 'd, 'r, 'e) worker" where
  "fv_fido_prepare_new W v w =
     (let w = fv_fido_close W w in
      case fv_fido_journal_prepare_new (wl_sha W) (wl_ciphers W) (wl_platform W) v (wk_world w) of
        (ok, s, vw) \<Rightarrow> (ok, w\<lparr>wk_store := s, wk_world := vw\<rparr>))"

section \<open>One request\<close>

text \<open>The label of the prompt: only printable site names that are not too long, never truncated.\<close>

definition fido_label ::
  "('a, 'd, 'r, 'e) worker_lib \<Rightarrow> u8 list \<Rightarrow> bool \<times> string" where
  "fido_label W rx =
     (let base = (if rx ! 0 = 7 then ''RESET ALL PASSKEYS'' else if rx ! 0 = 6 then ''VERIFY DEVICE FOR FIDO''
                  else ''MANAGE PASSKEYS'') in
      if rx ! 0 \<noteq> 1 \<and> rx ! 0 \<noteq> 2 then (True, base)
      else if length rx < 2 then (False, base)
      else case wl_rp_name W (rx ! 0) (tl rx) of None \<Rightarrow> (False, base)
      | Some site \<Rightarrow>
        if site = [] \<or> length site \<ge> 101 \<or> (\<exists>c \<in> set site. of_char c < (33 :: nat) \<or> of_char c > (126 :: nat)) then (False, base)
        else (True, (if rx ! 0 = 1 then ''REGISTER'' else ''SIGN IN'') @ '' '' @ site))"

definition fido_status :: "u8 \<Rightarrow> nat \<times> u8 list" where
  "fido_status code = (1, code # zeros 4095)"

text \<open>The public discovery request; every other one is denied in a session without FIDO, before anything else.\<close>

definition fido_gate ::
  "u8 list \<Rightarrow> ('a, 'd, 'r, 'e) worker \<Rightarrow> (nat \<times> u8 list) option \<times> ('a, 'd, 'r, 'e) worker" where
  "fido_gate rx w =
     (if rx = [4] then (None, w)
      else case fv_usb_session_invalidated w of (invalid, w) \<Rightarrow>
        if invalid then (Some (fido_status 0x2d), w)
        else case (if usb_mode w \<noteq> FV_ACCESS_LOCKED then fido_authorized w else (True, w)) of (ok, w) \<Rightarrow>
          (if ok then None else Some (fido_status 0x27), w))"

text \<open>From the gate to the label \<^verbatim>\<open>finish\<close>.\<close>

definition fido_command ::
  "('a, 'd, 'r, 'e) worker_lib \<Rightarrow> ('a, 'd, 'r, 'e) fido_engine \<Rightarrow> u32 \<Rightarrow> u8 list \<Rightarrow> ('a, 'd, 'r, 'e) worker
   \<Rightarrow> (nat \<times> u8 list) \<times> ('a, 'd, 'r, 'e) worker" where
  "fido_command W E channel rx w =
     (case fv_fido_cancelled W w of (True, w) \<Rightarrow> (fido_status 0x7f, w)
      | (False, w) \<Rightarrow>
        (case fv_fido_profile W w of (profile, w) \<Rightarrow>
         if rx = [4] then (en_info E (profile \<ge> 2 \<and> profile \<le> 4), w)
         else if profile = 0 then (fido_status 0x30, w)
         else if rx = [] then (fido_status 0x12, w)
         else case fido_label W rx of (ok, lbl) \<Rightarrow>
           (let w = w\<lparr>wk_label := lbl\<rparr> in
            if \<not> ok then (fido_status 0x12, w)
            else case (if v_unlocked (wk_vault w) then (True, w) else verify W None w) of (False, w) \<Rightarrow> (fido_status 0x2d, w)
            | (True, w) \<Rightarrow>
              (case ensure_engine W E w of (False, w) \<Rightarrow> (fido_status 0x30, w)
               | (True, w) \<Rightarrow> en_command E channel rx w))))"

text \<open>No private output of an operation that was cancelled or whose deadline passed; using a passkey is activity.\<close>

definition fido_finish ::
  "('a, 'd, 'r, 'e) worker_lib \<Rightarrow> u8 list \<Rightarrow> nat \<times> u8 list \<Rightarrow> ('a, 'd, 'r, 'e) worker
   \<Rightarrow> (nat \<times> u8 list) \<times> ('a, 'd, 'r, 'e) worker" where
  "fido_finish W rx reply w =
     (case fv_fido_cancelled W w of (True, w) \<Rightarrow> (fido_status 0x2d, w)
      | (False, w) \<Rightarrow>
        (case (if snd reply ! 0 = 0 \<and> rx \<noteq> [] \<and> (rx ! 0 = 1 \<or> rx ! 0 = 2 \<or> rx ! 0 = 8) then fido_authorized w else (False, w)) of
           (False, w) \<Rightarrow> (reply, w)
         | (True, w) \<Rightarrow>
           (case usb_timer_activity W (wk_published w) w of (expired, w) \<Rightarrow>
              (if expired then fido_status 0x2d else reply, w))))"

record fido_done =
  fd_reply :: "nat \<times> u8 list"
  fd_generation :: u32
  fd_unlocked :: bool
  fd_locks_session :: bool

definition fido_leave ::
  "('a, 'd, 'r, 'e) worker_lib \<Rightarrow> bool \<Rightarrow> nat \<times> u8 list \<Rightarrow> ('a, 'd, 'r, 'e) worker \<Rightarrow> fido_done \<times> ('a, 'd, 'r, 'e) worker" where
  "fido_leave W locks reply w =
     (let generation = wk_published w; w = w\<lparr>wk_executing := False\<rparr> in
      case fv_fido_cancelled W w of (cancelled, w) \<Rightarrow>
      let w = (if cancelled \<or> \<not> v_unlocked (wk_vault w) \<or> snd reply ! 0 = 0x7f then fv_fido_close W w else w) in
      case fv_usb_session_invalidated w of (invalid, w) \<Rightarrow>
      case (if invalid then (True, w) else case cancel_requested w of (cancel, w) \<Rightarrow> (cancel \<and> locks, w)) of (lock, w) \<Rightarrow>
      let w = (if lock then usb_lock W w else w) in
      (\<lparr>fd_reply = (if fst reply = 0 then (1, snd reply) else reply), fd_generation = generation,
        fd_unlocked = v_unlocked (wk_vault w), fd_locks_session = locks\<rparr>, w))"

definition fv_fido_execute ::
  "('a, 'd, 'r, 'e) worker_lib \<Rightarrow> ('a, 'd, 'r, 'e) fido_engine \<Rightarrow> u32 \<Rightarrow> u8 list \<Rightarrow> ('a, 'd, 'r, 'e) worker
   \<Rightarrow> fido_done \<times> ('a, 'd, 'r, 'e) worker" where
  "fv_fido_execute W E channel rx w =
     (let w = w\<lparr>wk_invalidated := False, wk_executing := True\<rparr> in
      case fido_gate rx w of (denied, w) \<Rightarrow>
      case (case denied of Some reply \<Rightarrow> (reply, w) | None \<Rightarrow> fido_command W E channel rx w) of (reply, w) \<Rightarrow>
      case fido_finish W rx reply w of (reply, w) \<Rightarrow>
        fido_leave W (rx \<noteq> [4] \<and> denied = None) reply w)"

text \<open>The worker's loop around it: a fresh random source for each request.\<close>

definition worker_fido ::
  "('a, 'd, 'r, 'e) worker_lib \<Rightarrow> ('a, 'd, 'r, 'e) fido_engine \<Rightarrow> u32 \<Rightarrow> u8 list \<Rightarrow> ('a, 'd, 'r, 'e) worker
   \<Rightarrow> fido_done \<times> ('a, 'd, 'r, 'e) worker" where
  "worker_fido W E channel rx w =
     (case wl_start_random W (w_random (wk_world w)) of (ok, r) \<Rightarrow>
      case fv_fido_execute W E channel rx (w\<lparr>wk_rng_ready := ok, wk_world := (wk_world w)\<lparr>w_random := r\<rparr>\<rparr>) of (fin, w) \<Rightarrow>
        (fin, w\<lparr>wk_rng_ready := False, wk_world := (wk_world w)\<lparr>w_random := wl_random_clear W (w_random (wk_world w))\<rparr>\<rparr>))"

end
