(* ===== verification/Ui_Worker.thy ===== *)
theory Ui_Worker
  imports Fido_Engine Enrollment_Authority
begin

text \<open>
  The worker's execution of a user interface job (\<^verbatim>\<open>fv_device_ui_execute\<close>,
  \<^verbatim>\<open>src/src/pico/device/commands.c\<close>). The authority behind the platform is the enrollment of this device. What a
  new vault is filled with (\<^verbatim>\<open>initialize_new_vault\<close>: FatFs and the preparation of the FIDO area) is the
  platform's parameter \<open>vp_initialize_contents\<close>. Results are the integers of the code.
\<close>

type_synonym ('h, 'd, 'r, 'e) device_worker = "(fv_enrollment_device \<times> 'h, 'd, 'r, 'e) worker"
type_synonym ('h, 'd, 'r, 'e) device_lib = "(fv_enrollment_device \<times> 'h, 'd, 'r, 'e) worker_lib"
type_synonym ('h, 'd, 'r, 'e) device_engine = "(fv_enrollment_device \<times> 'h, 'd, 'r, 'e) fido_engine"

record 'h otp_flash =
  of_otp :: "'h fv_otp_io"
  of_journal :: "'h fv_journal_io"

fun vault_code :: "fv_vault_result \<Rightarrow> int" where
  "vault_code FV_VAULT_OK = 0"
| "vault_code FV_VAULT_INVALID = - 1"
| "vault_code FV_VAULT_STATE = - 2"
| "vault_code FV_VAULT_IO = - 3"
| "vault_code FV_VAULT_AUTH = - 4"
| "vault_code FV_VAULT_DENIED = - 5"
| "vault_code FV_VAULT_CHANGED_NEEDS_MIRROR = 1"

abbreviation VAULT_DENIED :: int where "VAULT_DENIED \<equiv> vault_code FV_VAULT_DENIED"
abbreviation VAULT_INVALID :: int where "VAULT_INVALID \<equiv> vault_code FV_VAULT_INVALID"

definition FV_ENROLLMENT_ITERATIONS :: u32 where "FV_ENROLLMENT_ITERATIONS = 60000"

section \<open>Admission\<close>

text \<open>\<^verbatim>\<open>job->op!=UI_STATUS && job->op!=UI_LOCK\<close>.\<close>

definition job_demanding :: "fv_ui_job \<Rightarrow> bool" where
  "job_demanding j \<longleftrightarrow> job_op j \<noteq> Some UI_STATUS \<and> job_op j \<noteq> Some UI_LOCK"

definition job_denied :: "fv_ui_job \<Rightarrow> ('h, 'd, 'r, 'e) device_worker \<Rightarrow> bool" where
  "job_denied j w \<longleftrightarrow>
     job_op j \<in> {Some UI_ERASE, Some UI_POLICY, Some UI_CHANGE} \<and> \<not> fv_access_admin (usb_mode w) \<or>
     job_op j = Some UI_UNLOCK \<and> (\<not> fv_access_valid (job_mode j) \<or> v_unlocked (wk_vault w))"

text \<open>Everything before the operations; \<open>0\<close> admits the job.\<close>

definition job_admit ::
  "('h, 'd, 'r, 'e) device_lib \<Rightarrow> fv_ui_job \<Rightarrow> ('h, 'd, 'r, 'e) device_worker \<Rightarrow> int \<times> ('h, 'd, 'r, 'e) device_worker" where
  "job_admit W j w =
     (case usb_timer_poll W w of (expired, w) \<Rightarrow>
      if expired \<and> job_demanding j then (VAULT_DENIED, w)
      else case fv_usb_session_invalidated w of (invalid, w) \<Rightarrow>
      (let w = (if invalid then usb_lock W w else w) in
       if invalid \<and> job_demanding j \<or> job_denied j w then (VAULT_DENIED, w)
       else if \<not> ui_job_valid j then (VAULT_INVALID, w)
       else (0, w)))"

section \<open>Operations\<close>

text \<open>The card is initialized again.\<close>

definition card_restart ::
  "('h, 'd, 'r, 'e) device_lib \<Rightarrow> ('h, 'd, 'r, 'e) device_worker \<Rightarrow> bool \<times> ('h, 'd, 'r, 'e) device_worker" where
  "card_restart W w =
     (case (if wk_sd_initialized w then wl_sd_reinitialize W else wl_sd_init W) (w_sd (wk_world w)) of (ok, d) \<Rightarrow>
        (ok, w\<lparr>wk_sd_initialized := True, wk_world := (wk_world w)\<lparr>w_sd := d\<rparr>\<rparr>))"

definition job_random ::
  "('h, 'd, 'r, 'e) device_lib \<Rightarrow> ('h, 'd, 'r, 'e) device_worker \<Rightarrow> bool \<times> ('h, 'd, 'r, 'e) device_worker" where
  "job_random W w =
     (case wl_start_random W (w_random (wk_world w)) of (ok, r) \<Rightarrow> (ok, w\<lparr>wk_world := (wk_world w)\<lparr>w_random := r\<rparr>\<rparr>))"

definition job_secret_bytes :: "fv_ui_job \<Rightarrow> u8 list" where
  "job_secret_bytes j = take (job_length j) (job_secret j)"

text \<open>The session is unlocked with the scope of the job; a volume that does not fit the transport, or a bus
  event during the unlock, closes it again.\<close>

definition job_unlock ::
  "('h, 'd, 'r, 'e) device_lib \<Rightarrow> fv_ui_job \<Rightarrow> ('h, 'd, 'r, 'e) device_worker \<Rightarrow> int \<times> ('h, 'd, 'r, 'e) device_worker" where
  "job_unlock W j w =
     (case fv_session_unlock (wl_sha W) (wl_ciphers W) (wl_platform W) (job_secret_bytes j) (job_mode j)
             (wk_access w, wk_vault w, wk_world w) of (r, a, v, vw) \<Rightarrow>
      let w = fv_usb_publish_generation (sa_generation a) (w\<lparr>wk_access := a, wk_vault := v, wk_world := vw\<rparr>) in
      if r \<noteq> FV_VAULT_OK then (vault_code r, w)
      else if logical_blocks (ec_volume (v_config (wk_vault w))) > UINT32_MAX then (VAULT_INVALID, usb_lock W w)
      else case fv_usb_session_invalidated w of (invalid, w) \<Rightarrow>
      if invalid then (VAULT_DENIED, usb_lock W w)
      else
        (let w = usb_timer_start w
         in (0, if fv_access_fido (usb_mode w) then fv_fido_unlocked w else w)))"

definition change_vault ::
  "('h, 'd, 'r, 'e) device_lib \<Rightarrow> u8 list \<Rightarrow> fv_ui_job \<Rightarrow> fv_auth_policy \<Rightarrow> bool \<Rightarrow> ('h, 'd, 'r, 'e) device_worker
   \<Rightarrow> int \<times> ('h, 'd, 'r, 'e) device_worker" where
  "change_vault W current j policy approved w =
     (case fv_vault_change_credential (wl_sha W) (wl_ciphers W) (wl_platform W) current (job_secret_bytes j) (job_profile j)
             FV_ENROLLMENT_ITERATIONS policy approved (wk_world w) of (r, v, vw) \<Rightarrow>
        (vault_code r, w\<lparr>wk_vault := v, wk_world := vw\<rparr>))"

definition job_change ::
  "('h, 'd, 'r, 'e) device_lib \<Rightarrow> fv_ui_job \<Rightarrow> ('h, 'd, 'r, 'e) device_worker \<Rightarrow> int \<times> ('h, 'd, 'r, 'e) device_worker" where
  "job_change W j w =
     (case vault_load (wl_platform W) (wk_world w) of (state, vw) \<Rightarrow>
      let w = w\<lparr>wk_world := vw\<rparr> in
      case state of None \<Rightarrow> (- 1, w)
      | Some s \<Rightarrow> change_vault W (take (job_current_length j) (job_current j)) j (ds_policy s) False w)"

text \<open>A new token is provisioned only where there is none, or the old one is destroyed.\<close>

definition provision_token ::
  "('h, 'd, 'r, 'e) device_lib \<Rightarrow> 'h otp_flash \<Rightarrow> ('h, 'd, 'r, 'e) device_worker \<Rightarrow> int \<times> ('h, 'd, 'r, 'e) device_worker" where
  "provision_token W H w =
     (case vp_random (wl_platform W) of None \<Rightarrow> (- 1, w)
      | Some rng \<Rightarrow>
        (case fv_enrollment_provision (wl_sha W) (of_otp H) (of_journal H) rng
                (fst (w_authority (wk_world w)), snd (w_authority (wk_world w)), w_random (wk_world w)) of (ok, d, h, r) \<Rightarrow>
           (if ok then 0 else - 1, w\<lparr>wk_world := (wk_world w)\<lparr>w_authority := (d, h), w_random := r\<rparr>\<rparr>)))"

definition token_open ::
  "('h, 'd, 'r, 'e) device_lib \<Rightarrow> 'h otp_flash \<Rightarrow> ('h, 'd, 'r, 'e) device_worker \<Rightarrow> int \<times> ('h, 'd, 'r, 'e) device_worker" where
  "token_open W H w =
     (case fv_enrollment_open (wl_sha W) (of_otp H) (of_journal H) (w_authority (wk_world w)) of (opened, d, h) \<Rightarrow>
        (opened, w\<lparr>wk_world := (wk_world w)\<lparr>w_authority := (d, h)\<rparr>\<rparr>))"

definition create_token ::
  "('h, 'd, 'r, 'e) device_lib \<Rightarrow> 'h otp_flash \<Rightarrow> ('h, 'd, 'r, 'e) device_worker \<Rightarrow> int \<times> ('h, 'd, 'r, 'e) device_worker" where
  "create_token W H w =
     (case token_open W H w of (opened, w) \<Rightarrow>
      if opened = 1 \<or> opened = 2 then provision_token W H w
      else if opened \<noteq> 0 then (opened, w)
      else case vault_load (wl_platform W) (wk_world w) of (state, vw) \<Rightarrow>
        (let w = w\<lparr>wk_world := vw\<rparr> in
         case state of None \<Rightarrow> (- 1, w)
         | Some s \<Rightarrow>
           if ds_status s = FV_ENROLLMENT_DESTROYED then provision_token W H w
           else if ds_status s \<noteq> FV_ENROLLMENT_EMPTY then (vault_code FV_VAULT_STATE, w)
           else (0, w)))"

definition job_create ::
  "('h, 'd, 'r, 'e) device_lib \<Rightarrow> 'h otp_flash \<Rightarrow> fv_ui_job \<Rightarrow> ('h, 'd, 'r, 'e) device_worker
   \<Rightarrow> int \<times> ('h, 'd, 'r, 'e) device_worker" where
  "job_create W H j w =
     (case fv_volume_max_blocks (of_nat (blk_count (vp_sd (wl_platform W)) (w_sd (wk_world w)))) of None \<Rightarrow> (VAULT_INVALID, w)
      | Some blocks \<Rightarrow>
        if blocks = 0 then (VAULT_INVALID, w)
        else case create_token W H w of (r, w) \<Rightarrow>
          if r \<noteq> 0 then (r, w)
          else case fv_vault_create (wl_sha W) (wl_ciphers W) (wl_platform W) blocks (job_algorithms j) (of_nat (job_count j))
                      (job_profile j) FV_ENROLLMENT_ITERATIONS (job_policy j) (job_secret_bytes j) (wk_world w) of (r, vw) \<Rightarrow>
            (vault_code r, w\<lparr>wk_world := vw\<rparr>))"

text \<open>The operations that replace the session: the old one is locked first.\<close>

definition job_replace ::
  "('h, 'd, 'r, 'e) device_lib \<Rightarrow> 'h otp_flash \<Rightarrow> fv_ui_job \<Rightarrow> ('h, 'd, 'r, 'e) device_worker
   \<Rightarrow> int \<times> ('h, 'd, 'r, 'e) device_worker" where
  "job_replace W H j w =
     (case card_restart W (usb_lock W w) of (ready, w) \<Rightarrow>
      if \<not> ready then (vault_code FV_VAULT_IO, w)
      else if job_op j = Some UI_UNLOCK then job_unlock W j w
      else case job_random W w of (ok, w) \<Rightarrow>
      if \<not> ok then (vault_code FV_VAULT_IO, w)
      else if job_op j = Some UI_CHANGE then job_change W j w
      else if job_op j = Some UI_POLICY then change_vault W (job_secret_bytes j) j (job_policy j) True w
      else job_create W H j w)"

definition job_erase ::
  "('h, 'd, 'r, 'e) device_lib \<Rightarrow> 'h otp_flash \<Rightarrow> ('h, 'd, 'r, 'e) device_worker \<Rightarrow> int \<times> ('h, 'd, 'r, 'e) device_worker" where
  "job_erase W H w =
     (if \<not> v_unlocked (wk_vault w) then (VAULT_DENIED, w)
      else
        (let w = usb_lock W w in
         case fv_enrollment_request_destruction (wl_sha W) (of_otp H) (of_journal H) (w_authority (wk_world w)) of (ok, a) \<Rightarrow>
           (if ok then 0 else - 1, w\<lparr>wk_world := (wk_world w)\<lparr>w_authority := a\<rparr>\<rparr>)))"

definition bool_code :: "bool \<Rightarrow> int" where
  "bool_code ok = (if ok then 0 else - 1)"

text \<open>The operations, with the passkey entry they show.\<close>

definition job_run ::
  "('h, 'd, 'r, 'e) device_lib \<Rightarrow> ('h, 'd, 'r, 'e) device_engine \<Rightarrow> 'h otp_flash \<Rightarrow> fv_ui_job \<Rightarrow> ('h, 'd, 'r, 'e) device_worker
   \<Rightarrow> int \<times> passkey_args \<times> ('h, 'd, 'r, 'e) device_worker" where
  "job_run W E H j w =
     (let none = (job_passkey_index j, 0, passkey_zero) in
      case job_op j of
        Some UI_LOCK \<Rightarrow> (0, none, usb_lock W w)
      | Some UI_ERASE \<Rightarrow> (case job_erase W H w of (r, w) \<Rightarrow> (r, none, w))
      | Some UI_STATUS \<Rightarrow> (0, none, w)
      | Some UI_FIDO_INIT \<Rightarrow> (case fv_fido_initialize W w of (ok, w) \<Rightarrow> (bool_code ok, none, w))
      | Some UI_FIDO_POLICY \<Rightarrow> (case fv_fido_policy_set W E (job_fido_policy j) w of (ok, w) \<Rightarrow> (bool_code ok, none, w))
      | Some UI_PASSKEY_LIST \<Rightarrow>
          (case fv_fido_manage W E False (job_passkey_index j, 0, passkey_zero\<lparr>pk_id := job_passkey_id j\<rparr>) w of (ok, x, w) \<Rightarrow>
             (bool_code ok, x, w))
      | Some UI_PASSKEY_DELETE \<Rightarrow>
          (case fv_fido_manage W E True (job_passkey_index j, 0, passkey_zero\<lparr>pk_id := job_passkey_id j\<rparr>) w of (ok, x, w) \<Rightarrow>
             (bool_code ok, x, w))
      | None \<Rightarrow> (VAULT_INVALID, none, w)
      | _ \<Rightarrow> (case job_replace W H j w of (r, w) \<Rightarrow> (r, none, w)))"

section \<open>The answer\<close>

text \<open>What the enrollment says.\<close>

definition report_state ::
  "('h, 'd, 'r, 'e) device_lib \<Rightarrow> 'h otp_flash \<Rightarrow> fv_ui_result \<Rightarrow> ('h, 'd, 'r, 'e) device_worker
   \<Rightarrow> fv_ui_result \<times> ('h, 'd, 'r, 'e) device_worker" where
  "report_state W H out w =
     (case token_open W H w of (opened, w) \<Rightarrow>
      if opened = 0
      then (case vault_load (wl_platform W) (wk_world w) of (state, vw) \<Rightarrow>
              (case state of
                 None \<Rightarrow> (if res_result out = 0 then out\<lparr>res_result := - 1\<rparr> else out)
               | Some s \<Rightarrow>
                 out\<lparr>res_status := int (unat (ds_status s)), res_attempts := max_attempts (ds_policy s),
                     res_action := limit_action (ds_policy s), res_auto_lock_seconds := auto_lock_seconds (ds_policy s),
                     res_screen_sleep_seconds := screen_sleep_seconds (ds_policy s)\<rparr>, w\<lparr>wk_world := vw\<rparr>))
      else (if opened \<noteq> 1 \<and> opened \<noteq> 2 \<and> res_result out = 0 then out\<lparr>res_result := opened\<rparr> else out, w))"

text \<open>The input profile of an enrolled vault, read from the card when it is locked.\<close>

definition report_profile ::
  "('h, 'd, 'r, 'e) device_lib \<Rightarrow> fv_ui_result \<Rightarrow> ('h, 'd, 'r, 'e) device_worker \<Rightarrow> fv_ui_result \<times> ('h, 'd, 'r, 'e) device_worker" where
  "report_profile W out w =
     (if res_result out \<noteq> 0 \<or> res_status out \<noteq> int (unat FV_ENROLLMENT_ACTIVE) then (out, w)
      else if v_unlocked (wk_vault w) then (out\<lparr>res_profile := ec_credential_profile (v_config (wk_vault w))\<rparr>, w)
      else case (if \<not> wk_sd_initialized w \<or> \<not> blk_present (vp_sd (wl_platform W)) (w_sd (wk_world w))
                 then card_restart W w else (True, w)) of (ready, w) \<Rightarrow>
        if \<not> ready then (out\<lparr>res_result := vault_code FV_VAULT_IO\<rparr>, w)
        else case fv_vault_credential_profile (wl_sha W) (wl_platform W) (wk_world w) of (r, profile, vw) \<Rightarrow>
          (out\<lparr>res_result := vault_code r, res_profile := profile\<rparr>, w\<lparr>wk_world := vw\<rparr>))"

definition report_fido ::
  "('h, 'd, 'r, 'e) device_lib \<Rightarrow> ('h, 'd, 'r, 'e) device_engine \<Rightarrow> passkey_args \<Rightarrow> fv_ui_result \<Rightarrow> ('h, 'd, 'r, 'e) device_worker
   \<Rightarrow> fv_ui_result \<times> ('h, 'd, 'r, 'e) device_worker" where
  "report_fido W E x out w =
     (case x of (index, n, entry) \<Rightarrow>
      let out = out\<lparr>res_passkey_index := index, res_passkey_count := n, res_passkey_id := pk_id entry,
                    res_passkey_site := pk_site entry, res_passkey_account := pk_account entry\<rparr> in
      case (if fv_access_fido (usb_mode w)
            then case fv_fido_policy_get W E w of (m, w) \<Rightarrow> (out\<lparr>res_fido_policy := m\<rparr>, w) else (out, w)) of (out, w) \<Rightarrow>
        (out, w\<lparr>wk_rng_ready := False, wk_world := (wk_world w)\<lparr>w_random := wl_random_clear W (w_random (wk_world w))\<rparr>\<rparr>))"

definition fv_device_ui_execute ::
  "('h, 'd, 'r, 'e) device_lib \<Rightarrow> ('h, 'd, 'r, 'e) device_engine \<Rightarrow> 'h otp_flash \<Rightarrow> fv_ui_job \<Rightarrow> ('h, 'd, 'r, 'e) device_worker
   \<Rightarrow> fv_ui_result \<times> ('h, 'd, 'r, 'e) device_worker" where
  "fv_device_ui_execute W E H j w =
     (case job_admit W j w of (r, w) \<Rightarrow>
      case (if r = 0 then job_run W E H j w else (r, (job_passkey_index j, 0, passkey_zero), w)) of (r, x, w) \<Rightarrow>
      case usb_timer_poll W w of (expired, w) \<Rightarrow>
      let out = result_zero\<lparr>res_result := (if expired \<and> r = 0 \<and> job_demanding j then VAULT_DENIED else r)\<rparr> in
      case report_state W H out w of (out, w) \<Rightarrow>
      case report_profile W out w of (out, w) \<Rightarrow>
      case report_fido W E x out w of (out, w) \<Rightarrow>
      case usb_timer_poll W w of (expired, w) \<Rightarrow>
      let out = (if expired \<and> res_result out = 0 \<and> job_demanding j then out\<lparr>res_result := VAULT_DENIED\<rparr> else out) in
      (out\<lparr>res_unlocked := v_unlocked (wk_vault w), res_mode := usb_mode w,
           res_blocks := (if fv_access_files (usb_mode w) then logical_blocks (ec_volume (v_config (wk_vault w))) else 0)\<rparr>, w))"

end
