(* ===== verification/Worker_Session.thy ===== *)
theory Worker_Session
  imports Ui_Worker
begin

text \<open>
  The invariant of the worker and its preservation by the session, the timer and the USB requests. A locked
  session is an erased one, a session that is open has its timer armed, and the FIDO engine, its store and a
  user verification exist only in a session that serves FIDO (or, in the middle of a FIDO command, until the
  end of that command, which is then marked invalid).
\<close>

section \<open>The invariant\<close>

definition session_erased :: "('a, 'd, 'r, 'e) worker \<Rightarrow> bool" where
  "session_erased w \<longleftrightarrow>
     wk_vault w = fv_vault_lock \<and> sa_mode (wk_access w) = FV_ACCESS_LOCKED \<and>
     to_timer (wk_timeout w) = fv_session_timer_stop \<and> wk_verification w = fv_fido_verification_clear"

definition session_armed :: "('a, 'd, 'r, 'e) worker \<Rightarrow> bool" where
  "session_armed w \<longleftrightarrow>
     fv_access_valid (sa_mode (wk_access w)) \<and> to_generation (wk_timeout w) = sa_generation (wk_access w) \<and>
     timeout_seconds (to_timer (wk_timeout w)) = auto_lock_seconds (ec_policy (v_config (wk_vault w))) \<and>
     (uv_valid (wk_verification w) \<longrightarrow> fv_access_fido (sa_mode (wk_access w)))"

definition fido_live :: "('a, 'd, 'r, 'e) worker \<Rightarrow> bool" where
  "fido_live w \<longleftrightarrow>
     v_unlocked (wk_vault w) \<and> fv_access_fido (sa_mode (wk_access w)) \<or> wk_executing w \<and> wk_invalidated w"

definition worker_inv :: "('a, 'd, 'r, 'e) worker \<Rightarrow> bool" where
  "worker_inv w \<longleftrightarrow>
     wk_published w = sa_generation (wk_access w) \<and>
     (v_unlocked (wk_vault w) \<longrightarrow> session_armed w) \<and> (\<not> v_unlocked (wk_vault w) \<longrightarrow> session_erased w) \<and>
     (wk_engine_open w \<or> wk_store w \<noteq> fv_fido_journal_close \<longrightarrow> fido_live w)"

lemmas worker_inv_defs = worker_inv_def session_erased_def session_armed_def fido_live_def

text \<open>The invariant depends on the session, the timer and the FIDO part only.\<close>

lemma worker_inv_cong:
  assumes "worker_inv w" "wk_published w' = wk_published w" "wk_access w' = wk_access w" "wk_vault w' = wk_vault w"
    "to_timer (wk_timeout w') = to_timer (wk_timeout w)" "to_generation (wk_timeout w') = to_generation (wk_timeout w)"
    "wk_verification w' = wk_verification w" "wk_engine_open w' = wk_engine_open w" "wk_store w' = wk_store w"
    "wk_executing w' = wk_executing w" "wk_invalidated w' = wk_invalidated w"
  shows "worker_inv w'"
  using assms by (simp add: worker_inv_defs)

text \<open>What every operation but the unlocking from the front panel keeps: the invariant, whether a FIDO command is
  running, and that file access is never gained, only lost.\<close>

definition narrows :: "('a, 'd, 'r, 'e) worker \<Rightarrow> ('a, 'd, 'r, 'e) worker \<Rightarrow> bool" where
  "narrows w w' \<longleftrightarrow> (fv_access_files (sa_mode (wk_access w')) \<longrightarrow> wk_access w' = wk_access w)"

definition keeps :: "('a, 'd, 'r, 'e) worker \<Rightarrow> ('a, 'd, 'r, 'e) worker \<Rightarrow> bool" where
  "keeps w w' \<longleftrightarrow> (worker_inv w \<longrightarrow> worker_inv w') \<and> wk_executing w' = wk_executing w \<and> narrows w w'"

lemma no_files [simp]: "\<not> fv_access_files FV_ACCESS_LOCKED" "\<not> fv_access_files FV_ACCESS_PASSKEYS_ONLY"
  by (simp_all add: fv_access_files_def)

lemma narrows_same: "wk_access w' = wk_access w \<Longrightarrow> narrows w w'"
  by (simp add: narrows_def)

lemma narrows_locked: "sa_mode (wk_access w') = FV_ACCESS_LOCKED \<Longrightarrow> narrows w w'"
  by (simp add: narrows_def fv_access_files_def)

lemma narrows_trans: "narrows a b \<Longrightarrow> narrows b c \<Longrightarrow> narrows a c"
  by (auto simp: narrows_def)

lemma keepsI: "(worker_inv w \<Longrightarrow> worker_inv w') \<Longrightarrow> wk_executing w' = wk_executing w \<Longrightarrow> narrows w w' \<Longrightarrow> keeps w w'"
  by (simp add: keeps_def)

text \<open>An operation that does not touch the scope.\<close>

lemma keeps_sameI:
  "(worker_inv w \<Longrightarrow> worker_inv w') \<Longrightarrow> wk_executing w' = wk_executing w \<Longrightarrow> wk_access w' = wk_access w \<Longrightarrow> keeps w w'"
  by (simp add: keeps_def narrows_same)

lemma keepsD:
  "keeps w w' \<Longrightarrow> worker_inv w \<Longrightarrow> worker_inv w'" "keeps w w' \<Longrightarrow> wk_executing w' = wk_executing w" "keeps w w' \<Longrightarrow> narrows w w'"
  by (simp_all add: keeps_def)

lemma keeps_refl [simp]: "keeps w w"
  by (simp add: keeps_def narrows_same)

lemma keeps_trans [trans]: "keeps a b \<Longrightarrow> keeps b c \<Longrightarrow> keeps a c"
  by (auto simp: keeps_def intro: narrows_trans)

section \<open>Reads of shared state\<close>

lemma local_activity_frame [simp]:
  "to_timer (fold fv_session_timeout_local_activity gs s) = to_timer s"
  "to_generation (fold fv_session_timeout_local_activity gs s) = to_generation s"
  by (induction gs arbitrary: s) (simp_all add: fv_session_timeout_local_activity_def local_count_def local_store_def)

lemma core0_frame:
  assumes "core0 w = (i, w')"
  shows "wk_published w' = wk_published w" "wk_access w' = wk_access w" "wk_vault w' = wk_vault w"
    "to_timer (wk_timeout w') = to_timer (wk_timeout w)" "to_generation (wk_timeout w') = to_generation (wk_timeout w)"
    "wk_verification w' = wk_verification w" "wk_engine_open w' = wk_engine_open w" "wk_store w' = wk_store w"
    "wk_executing w' = wk_executing w" "wk_invalidated w' = wk_invalidated w" "wk_world w' = wk_world w"
    "wk_core0 w' = wk_core0 w"
  using assms by (auto simp: core0_def Let_def)

lemma core0_keeps: "core0 w = (i, w') \<Longrightarrow> keeps w w'"
  by (rule keeps_sameI) (auto intro: worker_inv_cong dest: core0_frame simp: core0_frame)

text \<open>Every read of shared state is such a read.\<close>

lemma shared_reads:
  "time_ms w = (t, w') \<Longrightarrow> \<exists>i. core0 w = (i, w') \<and> t = c0_now_ms i"
  "fv_usb_session_invalidated w = (b, w') \<Longrightarrow> \<exists>i. core0 w = (i, w') \<and> b = c0_invalidate i"
  "cancel_requested w = (b, w') \<Longrightarrow> \<exists>i. core0 w = (i, w') \<and> b = c0_cancel i"
  by (auto simp: time_ms_def fv_usb_session_invalidated_def cancel_requested_def split: prod.splits)

lemma time_keeps: "time_ms w = (t, w') \<Longrightarrow> keeps w w'"
  and invalidated_keeps: "fv_usb_session_invalidated w = (b, w') \<Longrightarrow> keeps w w'"
  and cancel_keeps: "cancel_requested w = (b, w') \<Longrightarrow> keeps w w'"
  using shared_reads core0_keeps by blast+

section \<open>Locking\<close>

lemma fido_close_inv: "worker_inv w \<Longrightarrow> worker_inv (fv_fido_close W w)"
  by (auto simp: fv_fido_close_def worker_inv_defs Let_def fv_fido_verification_clear_def)

lemma fido_close_frame [simp]:
  "wk_published (fv_fido_close W w) = wk_published w" "wk_access (fv_fido_close W w) = wk_access w"
  "wk_vault (fv_fido_close W w) = wk_vault w" "wk_timeout (fv_fido_close W w) = wk_timeout w"
  "wk_executing (fv_fido_close W w) = wk_executing w" "wk_world (fv_fido_close W w) = wk_world w"
  "wk_verification (fv_fido_close W w) = fv_fido_verification_clear"
  by (simp_all add: fv_fido_close_def Let_def)

lemma fido_close_keeps: "keeps w (fv_fido_close W w)"
  by (rule keeps_sameI) (auto intro: fido_close_inv)

lemma fido_close_erases: "\<not> wk_executing w \<Longrightarrow> \<not> wk_engine_open (fv_fido_close W w) \<and> wk_store (fv_fido_close W w) = fv_fido_journal_close"
  by (simp add: fv_fido_close_def Let_def)

lemma fido_close_invalidates: "wk_executing w \<Longrightarrow> wk_invalidated (fv_fido_close W w)"
  by (simp add: fv_fido_close_def Let_def)

text \<open>Whatever the state was, locking establishes the invariant.\<close>

lemma usb_lock_locked:
  "wk_vault (usb_lock W w) = fv_vault_lock" "wk_executing (usb_lock W w) = wk_executing w"
  "wk_access (usb_lock W w) = \<lparr>sa_mode = FV_ACCESS_LOCKED, sa_generation = sa_generation (wk_access w) + 1\<rparr>"
  "wk_world (usb_lock W w) = wk_world w" "wk_verification (usb_lock W w) = fv_fido_verification_clear"
  by (simp_all add: usb_lock_def Let_def worker_session_lock_def fv_session_lock_def fv_usb_publish_generation_def)

lemma usb_lock_inv: "worker_inv (usb_lock W w)"
  by (auto simp: usb_lock_def Let_def worker_session_lock_def fv_session_lock_def fv_usb_publish_generation_def
      fv_session_timeout_stop_def fv_fido_close_def worker_inv_defs)

lemma usb_lock_keeps: "keeps w (usb_lock W w)"
  by (rule keepsI) (simp_all add: usb_lock_inv usb_lock_locked narrows_locked)

lemma usb_lock_erases:
  "\<not> wk_executing w \<Longrightarrow> \<not> wk_engine_open (usb_lock W w) \<and> wk_store (usb_lock W w) = fv_fido_journal_close"
  by (simp add: usb_lock_def Let_def worker_session_lock_def fv_session_lock_def fv_usb_publish_generation_def fv_fido_close_def)

lemma usb_lock_invalidates: "wk_executing w \<Longrightarrow> wk_invalidated (usb_lock W w)"
  by (simp add: usb_lock_def Let_def worker_session_lock_def fv_session_lock_def fv_usb_publish_generation_def fv_fido_close_def)

lemma timeout_lock_inv: "worker_inv (fv_session_timeout_lock W w)"
  by (rule worker_inv_cong [OF usb_lock_inv]) (simp_all add: fv_session_timeout_lock_def)

lemma timeout_lock_frame:
  "wk_executing (fv_session_timeout_lock W w) = wk_executing w" "sa_mode (wk_access (fv_session_timeout_lock W w)) = FV_ACCESS_LOCKED"
  "wk_vault (fv_session_timeout_lock W w) = fv_vault_lock"
  "wk_world (fv_session_timeout_lock W w) = wk_world w"
  "wk_executing w \<Longrightarrow> wk_invalidated (fv_session_timeout_lock W w)"
  by (simp_all add: fv_session_timeout_lock_def usb_lock_locked usb_lock_invalidates)

section \<open>The timer\<close>

lemma stop_timer [simp]: "timeout_seconds fv_session_timer_stop = 0"
  by (simp add: fv_session_timer_stop_def)

lemma timer_touch_frame [simp]: "timeout_seconds (snd (fv_session_timer_touch t now)) = timeout_seconds t"
  by (simp add: fv_session_timer_touch_def Let_def)

lemma timer_touch_stopped: "timeout_seconds t = 0 \<Longrightarrow> snd (fv_session_timer_touch t now) = t"
  by (simp add: fv_session_timer_touch_def)

text \<open>A poll or an activity that does not expire keeps the generation and the timeout of a matching session, and
  a stopped timer stopped.\<close>

lemma timeout_op_frame:
  assumes "op = fv_session_timeout_poll \<or> op = fv_session_timeout_activity" "op now gen s = (False, s')"
  shows "gen = to_generation s \<Longrightarrow> to_generation s' = to_generation s \<and> timeout_seconds (to_timer s') = timeout_seconds (to_timer s)"
    and "to_timer s = fv_session_timer_stop \<Longrightarrow> to_timer s' = fv_session_timer_stop"
  using assms
  by (auto simp: fv_session_timeout_poll_def fv_session_timeout_activity_def fv_session_timeout_stop_def timeout_show_def
      timeout_touch_def take_local_activity_def timer_touch_stopped split: if_splits prod.splits)

lemma timer_cases:
  assumes "worker_timer W op gen w = (expired, w')"
  obtains now w1 s where "time_ms w = (now, w1)" "op now gen (wk_timeout w1) = (expired, s)"
    "w' = (if expired then fv_session_timeout_lock W (w1\<lparr>wk_timeout := s\<rparr>) else w1\<lparr>wk_timeout := s\<rparr>)"
  using assms by (auto simp: worker_timer_def Let_def split: prod.splits)

lemma timer_keeps:
  assumes "op = fv_session_timeout_poll \<or> op = fv_session_timeout_activity" "worker_timer W op gen w = (expired, w')"
    "worker_inv w \<Longrightarrow> gen = sa_generation (wk_access w)"
  shows "keeps w w'"
proof -
  obtain now w1 s where t: "time_ms w = (now, w1)" "op now gen (wk_timeout w1) = (expired, s)"
    "w' = (if expired then fv_session_timeout_lock W (w1\<lparr>wk_timeout := s\<rparr>) else w1\<lparr>wk_timeout := s\<rparr>)"
    by (rule timer_cases [OF assms(2)])
  obtain i where i: "core0 w = (i, w1)" using shared_reads(1) [OF t(1)] by blast
  note f = core0_frame [OF i]
  show ?thesis
  proof (rule keepsI)
    show "wk_executing w' = wk_executing w" using t(3) f by (simp add: timeout_lock_frame)
    show "narrows w w'" using t(3) f by (cases expired) (simp_all add: narrows_same narrows_locked timeout_lock_frame)
    assume inv: "worker_inv w"
    show "worker_inv w'"
    proof (cases expired)
      case True
      then show ?thesis using t(3) by (simp add: timeout_lock_inv)
    next
      case False
      have inv1: "worker_inv w1" using keepsD(1) [OF core0_keeps [OF i] inv] .
      have op: "op now gen (wk_timeout w1) = (False, s)" using t(2) False by simp
      have g: "gen = sa_generation (wk_access w1)" using assms(3) [OF inv] f by simp
      note fr = timeout_op_frame [OF assms(1) op]
      show ?thesis using inv1 t(3) False g fr by (auto simp: worker_inv_defs)
    qed
  qed
qed

lemma poll_keeps: "usb_timer_poll W w = (expired, w') \<Longrightarrow> keeps w w'"
  unfolding usb_timer_poll_def by (erule timer_keeps [rotated]) simp_all

lemma activity_keeps: "usb_timer_activity W (sa_generation (wk_access w)) w = (expired, w') \<Longrightarrow> keeps w w'"
  unfolding usb_timer_activity_def by (erule timer_keeps [rotated]) simp_all

lemma published_activity_keeps: "usb_timer_activity W (wk_published w) w = (expired, w') \<Longrightarrow> keeps w w'"
  unfolding usb_timer_activity_def by (erule timer_keeps [rotated]) (simp_all add: worker_inv_def)

lemma published_poll_keeps: "worker_timer W fv_session_timeout_poll (wk_published w) w = (expired, w') \<Longrightarrow> keeps w w'"
  by (erule timer_keeps [rotated]) (simp_all add: worker_inv_def)

text \<open>A timer operation that does not expire leaves the session and the FIDO part alone; one that does, locks.\<close>

lemma timer_frame:
  assumes "worker_timer W op gen w = (False, w')"
  shows "wk_vault w' = wk_vault w" "wk_access w' = wk_access w" "wk_world w' = wk_world w" "wk_published w' = wk_published w"
    "wk_invalidated w' = wk_invalidated w" "wk_executing w' = wk_executing w" "wk_verification w' = wk_verification w"
    "wk_engine_open w' = wk_engine_open w" "wk_store w' = wk_store w"
  by (rule timer_cases [OF assms]; auto dest!: shared_reads(1) simp: core0_frame)+

lemma timer_expired:
  assumes "worker_timer W op gen w = (True, w')"
  shows "wk_vault w' = fv_vault_lock" "wk_world w' = wk_world w" "wk_executing w' = wk_executing w"
    "wk_executing w \<Longrightarrow> wk_invalidated w'"
  by (rule timer_cases [OF assms]; auto dest!: shared_reads(1) simp: core0_frame timeout_lock_frame)+

lemma timer_start_inv:
  assumes "wk_published w = sa_generation (wk_access w)" "v_unlocked (wk_vault w)" "fv_access_valid (sa_mode (wk_access w))"
    "uv_valid (wk_verification w) \<longrightarrow> fv_access_fido (sa_mode (wk_access w))"
    "wk_engine_open w \<or> wk_store w \<noteq> fv_fido_journal_close \<longrightarrow> fido_live w"
  shows "worker_inv (usb_timer_start w)"
proof -
  obtain now w1 where t: "time_ms w = (now, w1)" by (cases "time_ms w")
  then obtain i where i: "core0 w = (i, w1)" using shared_reads(1) by blast
  note f = core0_frame [OF i]
  have "fido_live w1 = fido_live w" by (simp add: fido_live_def f)
  then show ?thesis
    using assms t f by (simp add: usb_timer_start_def fv_session_timeout_start_def fv_session_timer_start_def worker_inv_def
        session_armed_def fido_live_def Let_def)
qed

lemma timer_start_frame [simp]:
  "wk_executing (usb_timer_start w) = wk_executing w" "wk_vault (usb_timer_start w) = wk_vault w"
  "wk_access (usb_timer_start w) = wk_access w" "wk_world (usb_timer_start w) = wk_world w"
  by (auto simp: usb_timer_start_def split: prod.splits dest!: shared_reads(1) simp: core0_frame)

section \<open>Requests of the USB transport\<close>

lemma storage_enter_keeps: "keeps w (storage_enter W w)"
  by (auto simp: storage_enter_def split: prod.splits dest!: poll_keeps invalidated_keeps elim!: keeps_trans intro: usb_lock_keeps)

text \<open>The vault that sector I/O leaves behind: the same session, or none.\<close>

lemma io_done_vault:
  assumes "io_done write cnt r b v w = (r', out, v', w')"
  shows "v' = fv_vault_lock \<or> v' = v"
  using assms by (auto simp: io_done_def split: if_splits)

lemma vault_io_vault:
  assumes "vault_io SL p write lba cnt buf (v, w) = (r, out, v', w')"
  shows "v' = fv_vault_lock \<or> v' = v \<or> v_unlocked v \<and> (\<exists>store. v' = v\<lparr>v_store := store\<rparr>)"
  using assms by (cases buf) (auto simp: vault_io_def split: if_splits prod.splits option.splits dest!: io_done_vault)

lemma usb_vault_io_vault:
  assumes "fv_usb_vault_io W rq mode gen (v, vw) = (r, out, v', vw')"
  shows "v' = fv_vault_lock \<or> v' = v \<or> v_unlocked v \<and> (\<exists>store. v' = v\<lparr>v_store := store\<rparr>)"
  using assms
  by (auto simp: fv_usb_vault_io_def Let_def fv_vault_read_def fv_vault_write_def split: if_splits dest!: vault_io_vault)

lemma vault_lock_frame [simp]: "v_unlocked (v\<lparr>v_store := st\<rparr>) = v_unlocked v" "v_config (v\<lparr>v_store := st\<rparr>) = v_config v"
  by simp_all

text \<open>A request that closed the vault also closes its scope.\<close>

definition after_io :: "('a, 'd, 'r, 'e) worker_lib \<Rightarrow> fv_block_result \<Rightarrow> ('a, 'd, 'r, 'e) worker \<Rightarrow> ('a, 'd, 'r, 'e) worker" where
  "after_io W result w =
     (let w = (if result \<notin> {FV_BLOCK_OK, FV_BLOCK_ERROR_OUT_OF_RANGE, FV_BLOCK_ERROR_INVALID_ARGUMENT,
                             FV_BLOCK_ERROR_READ_ONLY, FV_BLOCK_ERROR_NOT_READY} then usb_lock W w else w)
      in if \<not> v_unlocked (wk_vault w) \<and> sa_mode (wk_access w) \<noteq> FV_ACCESS_LOCKED then usb_lock W w else w)"

lemma after_io_keeps:
  assumes "v' = fv_vault_lock \<or> v' = wk_vault w \<or> v_unlocked (wk_vault w) \<and> (\<exists>store. v' = wk_vault w\<lparr>v_store := store\<rparr>)"
  shows "keeps w (after_io W result (w\<lparr>wk_vault := v', wk_world := vw\<rparr>))"
proof (rule keepsI)
  let ?w = "w\<lparr>wk_vault := v', wk_world := vw\<rparr>"
  show "wk_executing (after_io W result ?w) = wk_executing w" by (simp add: after_io_def Let_def usb_lock_locked)
  show "narrows w (after_io W result ?w)" by (simp add: after_io_def Let_def usb_lock_locked narrows_def fv_access_files_def)
  assume inv: "worker_inv w"
  have u: "worker_inv ?w" if "v_unlocked v' \<or> sa_mode (wk_access w) = FV_ACCESS_LOCKED"
  proof (cases "v_unlocked (wk_vault w)")
    case True
    then have "sa_mode (wk_access w) \<noteq> FV_ACCESS_LOCKED"
      using inv by (auto simp: worker_inv_def session_armed_def fv_access_valid_def)
    then have "v_unlocked v'" "v_config v' = v_config (wk_vault w)" using that assms by auto
    then show ?thesis using inv True by (simp add: worker_inv_defs)
  next
    case False
    then have "v' = wk_vault w" using assms inv by (auto simp: worker_inv_def session_erased_def)
    then show ?thesis using worker_inv_cong [OF inv, of ?w] by simp
  qed
  then show "worker_inv (after_io W result ?w)" by (simp add: after_io_def Let_def usb_lock_inv)
qed

lemma storage_io_after:
  "storage_io W rq w =
     (case fv_usb_vault_io W rq (usb_mode w) (sa_generation (wk_access w)) (wk_vault w, wk_world w) of (result, buf, v, vw) \<Rightarrow>
      let w = after_io W result (w\<lparr>wk_vault := v, wk_world := vw\<rparr>)
      in if result = FV_BLOCK_OK \<and> rq_count rq \<noteq> 0
         then (case usb_timer_activity W (sa_generation (wk_access w)) w of (expired, w) \<Rightarrow>
                 if expired then (FV_BLOCK_ERROR_NOT_READY, memset buf 0 0 (unat (rq_count rq) * 512), w)
                 else (result, buf, w))
         else (result, buf, w))"
  unfolding storage_io_def after_io_def Let_def by (rule refl)

lemma storage_io_keeps:
  assumes "storage_io W rq w = (result, buf, w')"
  shows "keeps w w'"
proof -
  obtain r b v vw where io: "fv_usb_vault_io W rq (usb_mode w) (sa_generation (wk_access w)) (wk_vault w, wk_world w) = (r, b, v, vw)"
    by (cases "fv_usb_vault_io W rq (usb_mode w) (sa_generation (wk_access w)) (wk_vault w, wk_world w)")
  have k: "keeps w (after_io W r (w\<lparr>wk_vault := v, wk_world := vw\<rparr>))"
    by (rule after_io_keeps) (use usb_vault_io_vault [OF io] in simp)
  define w1 where "w1 = after_io W r (w\<lparr>wk_vault := v, wk_world := vw\<rparr>)"
  obtain e w2 where t: "usb_timer_activity W (sa_generation (wk_access w1)) w1 = (e, w2)"
    by (cases "usb_timer_activity W (sa_generation (wk_access w1)) w1")
  have "w' = w1 \<or> w' = w2" using assms t by (auto simp: storage_io_after io w1_def [symmetric] split: if_splits)
  then show ?thesis using k keeps_trans [OF k] activity_keeps [OF t] by (auto simp: w1_def)
qed

lemma storage_execute_keeps: "fv_usb_storage_execute W rq w = (resp, buf, w') \<Longrightarrow> keeps w w'"
  using storage_enter_keeps [of w W]
  by (auto simp: fv_usb_storage_execute_def Let_def split: prod.splits fv_usb_op.splits dest!: storage_io_keeps
      elim!: keeps_trans intro: usb_lock_keeps)

section \<open>Unlocking\<close>

lemma session_unlock_cases:
  assumes "fv_session_unlock SL L p secret mode (a, v, vw) = (r, a', v', vw')" "r = FV_VAULT_OK"
  shows "\<not> v_unlocked v \<and> sa_mode a = FV_ACCESS_LOCKED \<and> fv_access_valid mode \<and> sa_mode a' = mode \<and> v_unlocked v' \<and>
    sa_generation a' = sa_generation a + 1"
  using assms vault_unlock_result [of SL L p secret True vw]
  by (auto simp: fv_session_unlock_def fv_vault_unlock_def fv_session_lock_def split: if_splits prod.splits)

lemma session_reverify_cases:
  assumes "fv_session_reverify_fido SL L p secret (a, v, vw) = (r, a', v', vw')" "r = FV_VAULT_OK"
  shows "a' = a \<and> v' = v \<and> fv_access_fido (fv_session_mode a v)"
  using assms
  by (auto simp: fv_session_reverify_fido_def fv_vault_reverify_def fv_session_lock_def Let_def split: if_splits prod.splits)

text \<open>The session that a successful check leaves: the same one, or a fresh one for passkeys only whose timer is not
  started yet.\<close>

lemma verify_session_ok:
  assumes "verify_session W secret w = (FV_VAULT_OK, w')" "worker_inv w"
  shows "v_unlocked (wk_vault w') \<and> fv_access_fido (sa_mode (wk_access w')) \<and> wk_published w' = sa_generation (wk_access w') \<and>
    (v_unlocked (wk_vault w) \<longrightarrow> worker_inv w')"
proof (cases "v_unlocked (wk_vault w)")
  case True
  obtain a v vw where r: "fv_session_reverify_fido (wl_sha W) (wl_ciphers W) (wl_platform W) secret
      (wk_access w, wk_vault w, wk_world w) = (FV_VAULT_OK, a, v, vw)"
    "w' = fv_usb_publish_generation (sa_generation a) (w\<lparr>wk_access := a, wk_vault := v, wk_world := vw\<rparr>)"
    using assms(1) True by (auto simp: verify_session_def split: prod.splits)
  note c = session_reverify_cases [OF r(1) refl]
  have g: "sa_generation (wk_access w) = wk_published w" using assms(2) by (simp add: worker_inv_def)
  have "worker_inv w'" by (rule worker_inv_cong [OF assms(2)]) (use r(2) c g in \<open>simp_all add: fv_usb_publish_generation_def\<close>)
  moreover have "fv_access_fido (sa_mode (wk_access w))"
    using c True by (auto simp: fv_session_mode_def fv_access_fido_def split: if_splits)
  ultimately show ?thesis using c r(2) True by (simp add: fv_usb_publish_generation_def)
next
  case False
  obtain a v vw where r: "fv_session_unlock (wl_sha W) (wl_ciphers W) (wl_platform W) secret FV_ACCESS_PASSKEYS_ONLY
      (wk_access w, wk_vault w, wk_world w) = (FV_VAULT_OK, a, v, vw)"
    "w' = fv_usb_publish_generation (sa_generation a) (w\<lparr>wk_access := a, wk_vault := v, wk_world := vw\<rparr>)"
    using assms(1) False by (auto simp: verify_session_def split: prod.splits)
  show ?thesis using session_unlock_cases [OF r(1) refl] r(2) False by (simp add: fv_usb_publish_generation_def fv_access_fido_def)
qed

lemma verify_session_frame:
  assumes "verify_session W secret w = (r, w')"
  shows "wk_executing w' = wk_executing w" "wk_verification w' = wk_verification w" "wk_invalidated w' = wk_invalidated w"
    "wk_engine_open w' = wk_engine_open w" "wk_store w' = wk_store w"
  using assms by (auto simp: verify_session_def fv_usb_publish_generation_def split: prod.splits)

lemma session_unlock_access:
  assumes "fv_session_unlock SL L p secret mode (a, v, vw) = (r, a', v', vw')"
  shows "a' = a \<or> sa_mode a' = FV_ACCESS_LOCKED \<or> sa_mode a' = mode"
  using assms by (auto simp: fv_session_unlock_def fv_session_lock_def split: if_splits prod.splits)

lemma session_reverify_access:
  assumes "fv_session_reverify_fido SL L p secret (a, v, vw) = (r, a', v', vw')"
  shows "a' = a \<or> sa_mode a' = FV_ACCESS_LOCKED"
  using assms by (auto simp: fv_session_reverify_fido_def fv_session_lock_def split: if_splits prod.splits)

lemma verify_session_narrows: "verify_session W secret w = (r, w') \<Longrightarrow> narrows w w'"
  by (auto simp: verify_session_def fv_usb_publish_generation_def narrows_def fv_access_files_def split: prod.splits if_splits
      dest!: session_unlock_access session_reverify_access)

end
