(* ===== verification/Worker_Fido.thy ===== *)
theory Worker_Fido
  imports Worker_Session
begin

text \<open>
  The FIDO adapter keeps the invariant of the worker: prompts with the disk requests served while they wait,
  user verification, the engine's callbacks, and a whole request, for every engine that obeys its law.
\<close>

section \<open>Verification of a secret\<close>

lemma verify_secret_keeps:
  assumes "fv_fido_verify_secret W secret w = (r, w')"
  shows "keeps w w'"
proof -
  obtain e w1 where p: "usb_timer_poll W w = (e, w1)" by (cases "usb_timer_poll W w")
  obtain i1 w2 where i: "fv_usb_session_invalidated w1 = (i1, w2)" by (cases "fv_usb_session_invalidated w1")
  obtain q w3 where q: "verify_session W secret w2 = (q, w3)" by (cases "verify_session W secret w2")
  obtain i2 w4 where j: "fv_usb_session_invalidated w3 = (i2, w4)" by (cases "fv_usb_session_invalidated w3")
  obtain c4 where c4: "core0 w3 = (c4, w4)" using shared_reads(2) [OF j] by blast
  note f4 = core0_frame [OF c4]
  obtain e2 w5 where t: "usb_timer_activity W (sa_generation (wk_access w4)) w4 = (e2, w5)"
    by (cases "usb_timer_activity W (sa_generation (wk_access w4)) w4")
  have k2: "keeps w w1" "keeps w w2" using poll_keeps [OF p] keeps_trans [OF poll_keeps [OF p] invalidated_keeps [OF i]] by simp_all
  note vf = verify_session_frame [OF q]
  have out: "w' = w1 \<or> w' = usb_lock W w2 \<or> w' = usb_lock W w3 \<or> w' = usb_lock W w4 \<or>
      q = FV_VAULT_OK \<and> (v_unlocked (wk_vault w2) \<and> w' = w5 \<or> \<not> v_unlocked (wk_vault w2) \<and> w' = usb_timer_start w4)"
    using assms p i q j t by (auto simp: fv_fido_verify_secret_def Let_def split: if_splits)
  have ex: "wk_executing w' = wk_executing w"
  proof -
    have e: "wk_executing w1 = wk_executing w" "wk_executing w2 = wk_executing w" using k2 by (simp_all add: keepsD(2))
    have e4: "wk_executing w3 = wk_executing w" "wk_executing w4 = wk_executing w" "wk_executing w5 = wk_executing w"
      using e vf(1) f4(9) keepsD(2) [OF activity_keeps [OF t]] by simp_all
    show ?thesis using out by (elim disjE conjE) (simp_all add: e e4 usb_lock_locked(2))
  qed
  have "worker_inv w'" if inv: "worker_inv w"
  proof -
    have inv2: "worker_inv w2" "worker_inv w1" using k2 inv by (simp_all add: keeps_def)
    have "worker_inv w'" if ok: "q = FV_VAULT_OK" "v_unlocked (wk_vault w2)" "w' = w5"
    proof -
      have "worker_inv w3" using verify_session_ok [OF q [unfolded ok(1)] inv2(1)] ok(2) by simp
      then have "worker_inv w4" by (rule keepsD(1) [OF invalidated_keeps [OF j]])
      then show ?thesis using keepsD(1) [OF activity_keeps [OF t]] ok(3) by simp
    qed
    moreover have "worker_inv w'" if ok: "q = FV_VAULT_OK" "\<not> v_unlocked (wk_vault w2)" "w' = usb_timer_start w4"
      unfolding ok(3)
    proof (rule timer_start_inv)
      note v = verify_session_ok [OF q [unfolded ok(1)] inv2(1)]
      then show "v_unlocked (wk_vault w4)" "wk_published w4 = sa_generation (wk_access w4)" using f4 by simp_all
      have g: "fv_access_fido (sa_mode (wk_access w4))" using v f4 by simp
      then show "fv_access_valid (sa_mode (wk_access w4))" by (auto simp: fv_access_fido_def fv_access_valid_def)
      show "uv_valid (wk_verification w4) \<longrightarrow> fv_access_fido (sa_mode (wk_access w4))" using g by simp
      show "wk_engine_open w4 \<or> wk_store w4 \<noteq> fv_fido_journal_close \<longrightarrow> fido_live w4"
        using v f4 by (simp add: fido_live_def)
    qed
    ultimately show ?thesis using out inv2 by (auto simp: usb_lock_inv)
  qed
  moreover have "narrows w w'"
  proof -
    have n5: "narrows w5 w'" if "w' = w5" using that by (simp add: narrows_same)
    have n24: "narrows w2 w4" using verify_session_narrows [OF q] f4(2) by (simp add: narrows_def)
    have n25: "narrows w2 w5" by (rule narrows_trans [OF n24 keepsD(3) [OF activity_keeps [OF t]]])
    have "narrows w2 w' \<or> w' = w1"
      using out n24 n25 by (elim disjE conjE) (simp_all add: narrows_locked usb_lock_locked narrows_def)
    then show ?thesis using k2 keepsD(3) [OF k2(1)] narrows_trans [OF keepsD(3) [OF k2(2)]] by blast
  qed
  ultimately show ?thesis using ex by (simp add: keeps_def)
qed

section \<open>Authority and cancellation\<close>

lemma authorized_keeps: "fido_authorized w = (ok, w') \<Longrightarrow> keeps w w'"
  by (auto simp: fido_authorized_def split: prod.splits dest: invalidated_keeps)

lemma authorized_frame:
  assumes "fido_authorized w = (ok, w')"
  shows "wk_vault w' = wk_vault w" "wk_access w' = wk_access w" "wk_executing w' = wk_executing w" "wk_store w' = wk_store w"
    "wk_invalidated w' = wk_invalidated w" "wk_world w' = wk_world w" "wk_engine_open w' = wk_engine_open w"
  using assms by (auto simp: fido_authorized_def split: prod.splits dest!: shared_reads(2) simp: core0_frame)

lemma authorized_live:
  assumes "fido_authorized w = (True, w')"
  shows "v_unlocked (wk_vault w')" "fv_access_fido (sa_mode (wk_access w'))"
  using assms by (auto simp: fido_authorized_def fv_session_mode_def usb_mode_def fv_access_fido_def split: prod.splits if_splits
      dest!: shared_reads(2) simp: core0_frame)

lemma cancelled_parts:
  assumes "fv_fido_cancelled W w = (c, w')"
  obtains e w1 cancel w2 where "worker_timer W fv_session_timeout_poll (wk_published w) w = (e, w1)"
    "cancel_requested w1 = (cancel, w2)"
    "cancel \<or> wk_invalidated w2 \<longrightarrow> c \<and> w' = w2" "\<not> (cancel \<or> wk_invalidated w2) \<longrightarrow> fv_usb_session_invalidated w2 = (c, w')"
  using assms by (auto simp: fv_fido_cancelled_def split: prod.splits if_splits)

lemma cancelled_keeps:
  assumes "fv_fido_cancelled W w = (c, w')"
  shows "keeps w w'"
proof -
  obtain e w1 cancel w2 where p: "worker_timer W fv_session_timeout_poll (wk_published w) w = (e, w1)" "cancel_requested w1 = (cancel, w2)"
    "cancel \<or> wk_invalidated w2 \<longrightarrow> c \<and> w' = w2" "\<not> (cancel \<or> wk_invalidated w2) \<longrightarrow> fv_usb_session_invalidated w2 = (c, w')"
    by (rule cancelled_parts [OF assms])
  have "keeps w w2" by (rule keeps_trans [OF published_poll_keeps [OF p(1)] cancel_keeps [OF p(2)]])
  then show ?thesis using p(3,4) invalidated_keeps [of w2 c w'] keeps_trans by blast
qed

text \<open>In the middle of a command, an operation that was not cancelled still has its session.\<close>

lemma cancelled_False:
  assumes "fv_fido_cancelled W w = (False, w')"
  shows "wk_executing w \<Longrightarrow> wk_vault w' = wk_vault w \<and> wk_access w' = wk_access w \<and> \<not> wk_invalidated w'"
    and "\<not> wk_invalidated w'"
proof -
  obtain e w1 cancel w2 where p: "worker_timer W fv_session_timeout_poll (wk_published w) w = (e, w1)" "cancel_requested w1 = (cancel, w2)"
    "cancel \<or> wk_invalidated w2 \<longrightarrow> False \<and> w' = w2" "\<not> (cancel \<or> wk_invalidated w2) \<longrightarrow> fv_usb_session_invalidated w2 = (False, w')"
    by (rule cancelled_parts [OF assms])
  have n: "\<not> cancel" "\<not> wk_invalidated w2" "fv_usb_session_invalidated w2 = (False, w')" using p(3,4) by auto
  obtain i j where c: "core0 w1 = (i, w2)" "core0 w2 = (j, w')" using shared_reads(3) [OF p(2)] shared_reads(2) [OF n(3)] by blast
  show "\<not> wk_invalidated w'" using n(2) core0_frame [OF c(2)] by simp
  assume "wk_executing w"
  then have "\<not> e" using timer_expired(4) [of W fv_session_timeout_poll "wk_published w" w w1] p(1) n(2) core0_frame [OF c(1)] by auto
  then show "wk_vault w' = wk_vault w \<and> wk_access w' = wk_access w \<and> \<not> wk_invalidated w'"
    using timer_frame [of W fv_session_timeout_poll "wk_published w" w w1] p(1) n(2) core0_frame [OF c(1)] core0_frame [OF c(2)] by simp
qed

lemma not_cancelled_keeps: "not_cancelled W w = (ok, w') \<Longrightarrow> keeps w w'"
  by (auto simp: not_cancelled_def split: if_splits prod.splits dest: cancelled_keeps)

section \<open>Operations that leave the session alone\<close>

lemma fido_random_keeps: "keeps w (snd (fv_fido_random W n w))"
  by (rule keeps_sameI) (auto intro: worker_inv_cong simp: fv_fido_random_def Let_def split: prod.splits if_splits)

lemma card_ready_keeps: "card_ready W w = (ok, w') \<Longrightarrow> keeps w w'"
  by (rule keeps_sameI) (auto intro: worker_inv_cong simp: card_ready_def split: prod.splits if_splits)

lemma world_keeps: "keeps w (w\<lparr>wk_world := vw\<rparr>)"
  by (rule keeps_sameI) (auto intro: worker_inv_cong)

lemma fido_profile_keeps:
  assumes "fv_fido_profile W w = (profile, w')"
  shows "keeps w w'"
proof -
  obtain ready w1 where c: "card_ready W w = (ready, w1)" by (cases "card_ready W w")
  obtain q pr vw where v: "fv_vault_credential_profile (wl_sha W) (wl_platform W) (wk_world w1) = (q, pr, vw)"
    by (cases "fv_vault_credential_profile (wl_sha W) (wl_platform W) (wk_world w1)")
  have "w' = usb_lock W w \<or> w' = w \<or> w' = w1 \<or> w' = w1\<lparr>wk_world := vw\<rparr>"
    using assms c v by (auto simp: fv_fido_profile_def split: if_splits)
  then show ?thesis using usb_lock_keeps card_ready_keeps [OF c] keeps_trans [OF card_ready_keeps [OF c] world_keeps] by auto
qed

lemma mailbox_keeps:
  "keeps w (w\<lparr>wk_mailbox := m\<rparr>)" "keeps w (w\<lparr>wk_prompt_abort := b\<rparr>)" "keeps w (w\<lparr>wk_label := l\<rparr>)"
  "keeps w (w\<lparr>wk_asked := n, wk_prompt_abort := b, wk_mailbox := m\<rparr>)" "keeps w (w\<lparr>wk_uv_policy := u\<rparr>)"
  by (rule keeps_sameI; auto intro: worker_inv_cong)+

section \<open>Prompts\<close>

lemma pump_keeps: "keeps w (fv_fido_pump W c w)"
  by (auto simp: fv_fido_pump_def split: prod.splits option.splits worker_command.splits
      dest!: poll_keeps storage_execute_keeps elim!: keeps_trans)

lemma fold_keeps: "(\<And>x w. keeps w (f x w)) \<Longrightarrow> keeps w (fold f xs w)"
  by (induction xs arbitrary: w) (auto intro: keeps_trans)

lemma ask_turn_keeps: "keeps w (ask_turn W start c w)"
proof -
  obtain cancelled w1 where c: "fv_fido_cancelled W w = (cancelled, w1)" by (cases "fv_fido_cancelled W w")
  obtain now w2 where t: "time_ms w1 = (now, w2)" by (cases "time_ms w1")
  obtain w3 where "ask_turn W start c w = fv_fido_pump W c w3" "w3 \<in> {w1, w2, w1\<lparr>wk_prompt_abort := True\<rparr>, w2\<lparr>wk_prompt_abort := True\<rparr>}"
    using c t by (cases cancelled) (auto simp: ask_turn_def)
  moreover have "keeps w w1" "keeps w w2" using cancelled_keeps [OF c] keeps_trans [OF _ time_keeps [OF t]] by auto
  ultimately have "keeps w w3" using keeps_trans [OF _ mailbox_keeps(2)] by auto
  then show ?thesis using \<open>ask_turn W start c w = _\<close> keeps_trans [OF _ pump_keeps] by simp
qed

lemma ask_keeps:
  assumes "ask W secret profile w = (ok, w')"
  shows "keeps w w'"
proof -
  let ?i = "wk_prompts w (wk_asked w)"
  define w1 where "w1 = w\<lparr>wk_asked := Suc (wk_asked w), wk_prompt_abort := False,
      wk_mailbox := prompt_zero\<lparr>pr_secret := secret, pr_profile := profile, pr_label := wk_label w\<rparr>\<rparr>"
  obtain start w2 where t: "time_ms w1 = (start, w2)" by (cases "time_ms w1")
  define w3 where "w3 = fold (ask_turn W (ucast start)) (pi_waiting ?i) w2"
  define w4 where "w4 = w3\<lparr>wk_mailbox := (wk_mailbox w3)\<lparr>pr_approved := pi_approved ?i, pr_value := pi_value ?i, pr_length := pi_length ?i\<rparr>\<rparr>"
  obtain refused w5 where r: "(if pi_approved ?i then fv_fido_cancelled W w4 else (True, w4)) = (refused, w5)"
    by (cases "if pi_approved ?i then fv_fido_cancelled W w4 else (True, w4)")
  have w': "w' = fold (fv_fido_pump W) (pi_drained ?i # pi_dismissing ?i) w5"
    using assms unfolding ask_def Let_def w1_def [symmetric] t prod.case w3_def [symmetric] w4_def [symmetric] r by simp
  have "keeps w w1" unfolding w1_def by (rule mailbox_keeps)
  also have "keeps w1 w2" by (rule time_keeps [OF t])
  also have "keeps w2 w3" unfolding w3_def by (rule fold_keeps [OF ask_turn_keeps])
  also have "keeps w3 w4" unfolding w4_def by (rule mailbox_keeps)
  also have "keeps w4 w5" using r by (auto split: if_splits dest: cancelled_keeps)
  also have "keeps w5 w'" unfolding w' by (rule fold_keeps [OF pump_keeps])
  finally show ?thesis .
qed

section \<open>User verification\<close>

lemma use_policy_cases:
  assumes "fv_fido_verification_use_policy now rp policy s = (ok, s')"
  shows "(uv_valid s' \<longrightarrow> uv_valid s) \<and> (s = fv_fido_verification_clear \<longrightarrow> s' = fv_fido_verification_clear)"
  using assms by (auto simp: fv_fido_verification_use_policy_def fv_fido_verification_clear_def Let_def split: if_splits option.splits)

lemma verification_inv:
  assumes "worker_inv w" "uv_valid s \<longrightarrow> uv_valid (wk_verification w)"
    "wk_verification w = fv_fido_verification_clear \<longrightarrow> s = fv_fido_verification_clear"
  shows "worker_inv (w\<lparr>wk_verification := s\<rparr>)"
  using assms by (auto simp: worker_inv_defs)

lemma use_verification_keeps:
  assumes "use_verification rp w = (ok, w')"
  shows "keeps w w'"
proof -
  obtain now w1 where t: "time_ms w = (now, w1)" by (cases "time_ms w")
  obtain s where s: "fv_fido_verification_use_policy (ucast now) rp (ucast (wk_uv_policy w1)) (wk_verification w1) = (ok, s)"
    "w' = w1\<lparr>wk_verification := s\<rparr>"
    using assms t by (auto simp: use_verification_def split: prod.splits)
  have "keeps w1 w'" unfolding s(2)
    by (rule keeps_sameI) (use use_policy_cases [OF s(1)] in \<open>auto intro: verification_inv\<close>)
  with time_keeps [OF t] show ?thesis by (rule keeps_trans)
qed

lemma wipe_keeps: "keeps w (wipe_prompt w)"
  unfolding wipe_prompt_def by (rule mailbox_keeps)

lemma clear_verification_keeps: "keeps w (w\<lparr>wk_verification := fv_fido_verification_clear\<rparr>)"
  by (rule keeps_sameI) (auto intro: verification_inv simp: fv_fido_verification_clear_def)

lemma verify_prompt_keeps:
  assumes "verify_prompt W w = (ok, w')"
  shows "keeps w w'"
proof -
  obtain pr w1 where p: "fv_fido_profile W w = (pr, w1)" by (cases "fv_fido_profile W w")
  obtain a w2 where a: "(if pr \<ge> 2 \<and> pr \<le> 4 then ask W True pr w1 else (False, w1)) = (a, w2)"
    by (cases "if pr \<ge> 2 \<and> pr \<le> 4 then ask W True pr w1 else (False, w1)")
  obtain r w3 where v: "fv_fido_verify_secret W (take (pr_length (wk_mailbox w2)) (pr_value (wk_mailbox w2))) w2 = (r, w3)"
    by (cases "fv_fido_verify_secret W (take (pr_length (wk_mailbox w2)) (pr_value (wk_mailbox w2))) w2")
  have "w' = wipe_prompt w2 \<or> w' = wipe_prompt w3"
    using assms unfolding verify_prompt_def p prod.case a by (cases a) (simp_all add: v)
  moreover have "keeps w1 w2" using a by (auto split: if_splits dest: ask_keeps)
  then have "keeps w w2" by (rule keeps_trans [OF fido_profile_keeps [OF p]])
  ultimately show ?thesis using keeps_trans [OF _ wipe_keeps] keeps_trans [OF _ verify_secret_keeps [OF v]] by blast
qed

lemma unlocked_inv:
  assumes "worker_inv w" "v_unlocked (wk_vault w)" "fv_access_fido (sa_mode (wk_access w))"
  shows "worker_inv (fv_fido_unlocked w)"
proof -
  obtain now w1 where t: "time_ms w = (now, w1)" by (cases "time_ms w")
  then obtain i where i: "core0 w = (i, w1)" using shared_reads(1) by blast
  have "worker_inv w1" by (rule keepsD(1) [OF time_keeps [OF t] assms(1)])
  then show ?thesis using assms(2,3) t core0_frame [OF i] by (simp add: fv_fido_unlocked_def worker_inv_defs)
qed

lemma unlocked_frame [simp]:
  "wk_executing (fv_fido_unlocked w) = wk_executing w" "wk_access (fv_fido_unlocked w) = wk_access w"
  "wk_vault (fv_fido_unlocked w) = wk_vault w"
  by (auto simp: fv_fido_unlocked_def split: prod.splits dest!: shared_reads(1) simp: core0_frame)

text \<open>The parts of \<open>verify\<close>, in the order of its returns.\<close>

lemma verify_cases:
  assumes "verify W rp w = (ok, w')"
  obtains w1 where "fv_fido_cancelled W w = (True, w1)" "\<not> ok" "w' = w1"
  | w1 w2 where "fv_fido_cancelled W w = (False, w1)" "keeps w1 w2" "w' = w2"
  | w1 w2 p w3 w4 w5 where "fv_fido_cancelled W w = (False, w1)" "keeps w1 w2" "verify_prompt W w2 = (p, w3)"
      "fido_authorized w3 = (True, w4)" "fv_fido_cancelled W w4 = (False, w5)" "use_verification rp (fv_fido_unlocked w5) = (ok, w')"
proof -
  obtain c w1 where c: "fv_fido_cancelled W w = (c, w1)" by (cases "fv_fido_cancelled W w")
  show thesis
  proof (cases c)
    case True
    then show thesis using that(1) [of w1] assms c by (simp add: verify_def)
  next
    case False
    then have c: "fv_fido_cancelled W w = (False, w1)" using c by simp
    obtain m w2 where m: "(if usb_mode w1 \<noteq> FV_ACCESS_LOCKED then fido_authorized w1 else (True, w1)) = (m, w2)"
      by (cases "if usb_mode w1 \<noteq> FV_ACCESS_LOCKED then fido_authorized w1 else (True, w1)")
    have k2: "keeps w1 w2" using m authorized_keeps by (auto split: if_splits)
    obtain u w3 where u: "(case fido_authorized w2 of (ok, w) \<Rightarrow> if ok then use_verification rp w else (False, w)) = (u, w3)"
      by (cases "case fido_authorized w2 of (ok, w) \<Rightarrow> if ok then use_verification rp w else (False, w)")
    have k3: "keeps w2 w3" using u
      by (auto split: prod.splits if_splits dest!: authorized_keeps use_verification_keeps elim: keeps_trans)
    have k13: "keeps w1 w3" by (rule keeps_trans [OF k2 k3])
    have v: "verify W rp w = (if m then if u then (True, w3) else
          (case verify_prompt W w3 of (ok, w) \<Rightarrow>
               case (if ok then fido_authorized w else (False, w)) of (ok, w) \<Rightarrow>
               case (if ok then fv_fido_cancelled W w else (True, w)) of (refused, w) \<Rightarrow>
                 if refused then (False, w\<lparr>wk_verification := fv_fido_verification_clear\<rparr>)
                 else use_verification rp (fv_fido_unlocked w)) else (False, w2))"
      unfolding verify_def c prod.case m u by (cases m; cases u) simp_all
    show thesis
    proof (cases "m \<and> \<not> u")
      case False
      then show thesis using that(2) [OF c] v assms k2 k13 by (cases m) auto
    next
      case True
      obtain p w4 where p: "verify_prompt W w3 = (p, w4)" by (cases "verify_prompt W w3")
      obtain a w5 where a: "(if p then fido_authorized w4 else (False, w4)) = (a, w5)"
        by (cases "if p then fido_authorized w4 else (False, w4)")
      obtain r w6 where r: "(if a then fv_fido_cancelled W w5 else (True, w5)) = (r, w6)"
        by (cases "if a then fv_fido_cancelled W w5 else (True, w5)")
      have v': "(ok, w') = (if r then (False, w6\<lparr>wk_verification := fv_fido_verification_clear\<rparr>)
          else use_verification rp (fv_fido_unlocked w6))"
        using assms True unfolding v p prod.case a r by simp
      have k6: "keeps w3 w6" using p a r
        by (auto split: if_splits dest!: verify_prompt_keeps authorized_keeps cancelled_keeps elim!: keeps_trans)
      show thesis
      proof (cases r)
        case True
        then show thesis using that(2) [OF c _ _, of w'] v' keeps_trans [OF k13 keeps_trans [OF k6 clear_verification_keeps]] by simp
      next
        case False
        then have a': "a" "p" using r a by (auto split: if_splits)
        show thesis by (rule that(3) [OF c k13 p]) (use a' a r False v' in auto)
      qed
    qed
  qed
qed

lemma verify_keeps:
  assumes "verify W rp w = (ok, w')" "wk_executing w"
  shows "keeps w w'"
  using assms(1)
proof (cases rule: verify_cases)
  case (1 w1)
  then show ?thesis using cancelled_keeps by simp
next
  case (2 w1 w2)
  then show ?thesis using keeps_trans [OF cancelled_keeps [OF 2(1)]] by simp
next
  case (3 w1 w2 p w3 w4 w5)
  have k4: "keeps w w4"
    by (rule keeps_trans [OF cancelled_keeps [OF 3(1)] keeps_trans [OF 3(2) keeps_trans [OF verify_prompt_keeps [OF 3(3)]
          authorized_keeps [OF 3(4)]]]])
  have k5: "keeps w w5" by (rule keeps_trans [OF k4 cancelled_keeps [OF 3(5)]])
  note f = cancelled_False(1) [OF 3(5)]
  have ex: "wk_executing w4" using k4 assms(2) by (simp add: keeps_def)
  have "keeps w (fv_fido_unlocked w5)"
  proof (rule keepsI)
    show "wk_executing (fv_fido_unlocked w5) = wk_executing w" using k5 by (simp add: keeps_def)
    show "narrows w (fv_fido_unlocked w5)" using keepsD(3) [OF k5] by (simp add: narrows_def)
    assume "worker_inv w"
    then have "worker_inv w5" using k5 by (simp add: keeps_def)
    then show "worker_inv (fv_fido_unlocked w5)"
      by (rule unlocked_inv) (use f [OF ex] authorized_live [OF 3(4)] in simp_all)
  qed
  then show ?thesis by (rule keeps_trans [OF _ use_verification_keeps [OF 3(6)]])
qed

lemma presence_keeps:
  assumes "presence W w = (r, w')"
  shows "keeps w w'"
proof -
  obtain a w1 where a: "fido_authorized w = (a, w1)" by (cases "fido_authorized w")
  obtain k w2 where k: "ask W False 0 w1 = (k, w2)" by (cases "ask W False 0 w1")
  have "w' = w1 \<or> w' = w2" using assms a k by (auto simp: presence_def split: if_splits)
  then show ?thesis using authorized_keeps [OF a] keeps_trans [OF authorized_keeps [OF a] ask_keeps [OF k]] by blast
qed

lemma retries_keeps: "retries W w = (n, w') \<Longrightarrow> keeps w w'"
  by (auto simp: retries_def split: prod.splits bool.splits dest!: authorized_keeps elim!: keeps_trans intro: world_keeps)

lemma reset_allowed_keeps: "reset_allowed w = (ok, w') \<Longrightarrow> keeps w w'"
  by (auto simp: reset_allowed_def split: prod.splits option.splits dest!: core0_keeps)

end
