(* ===== verification/Worker_Engine.thy ===== *)
theory Worker_Engine
  imports Worker_Fido
begin

text \<open>
  The FIDO engine and a whole FIDO request keep the invariant of the worker, whatever the engine does through
  its callbacks; after the request no FIDO state is left behind outside a session that serves FIDO.
\<close>

section \<open>Callbacks\<close>

text \<open>A local operation of the engine also keeps the session that it works for, or marks the command invalid.\<close>

definition serves :: "('a, 'd, 'r, 'e) worker \<Rightarrow> ('a, 'd, 'r, 'e) worker \<Rightarrow> bool" where
  "serves w w' \<longleftrightarrow> keeps w w' \<and> (fido_live w \<longrightarrow> fido_live w')"

lemma serves_refl [simp]: "serves w w"
  by (simp add: serves_def)

lemma serves_trans: "serves a b \<Longrightarrow> serves b c \<Longrightarrow> serves a c"
  by (auto simp: serves_def intro: keeps_trans)

lemma serves_same:
  assumes "keeps w w'" "wk_vault w' = wk_vault w" "wk_access w' = wk_access w" "wk_invalidated w' = wk_invalidated w"
  shows "serves w w'"
  using assms keepsD(2) [OF assms(1)] by (simp add: serves_def fido_live_def)

lemma invalidated_serves: "fv_usb_session_invalidated w = (b, w') \<Longrightarrow> serves w w'"
  by (rule serves_same [OF invalidated_keeps]) (auto dest!: shared_reads(2) simp: core0_frame)

lemma authorized_serves: "fido_authorized w = (ok, w') \<Longrightarrow> serves w w'"
  by (rule serves_same [OF authorized_keeps]) (auto dest: authorized_frame)

lemma cancel_serves: "cancel_requested w = (b, w') \<Longrightarrow> serves w w'"
  by (rule serves_same [OF cancel_keeps]) (auto dest!: shared_reads(3) simp: core0_frame)

lemma time_serves: "time_ms w = (t, w') \<Longrightarrow> serves w w'"
  by (rule serves_same [OF time_keeps]) (auto dest!: shared_reads(1) simp: core0_frame)

lemma timer_serves:
  assumes "worker_timer W fv_session_timeout_poll (wk_published w) w = (e, w')" "wk_executing w"
  shows "serves w w'"
proof (cases e)
  case True
  then show ?thesis using assms timer_expired [of W fv_session_timeout_poll "wk_published w" w w'] published_poll_keeps [OF assms(1)]
    by (simp add: serves_def fido_live_def)
next
  case False
  then have t: "worker_timer W fv_session_timeout_poll (wk_published w) w = (False, w')" using assms(1) by simp
  show ?thesis by (rule serves_same [OF published_poll_keeps [OF assms(1)]]) (simp_all add: timer_frame [OF t])
qed

lemma cancelled_serves:
  assumes "fv_fido_cancelled W w = (c, w')" "wk_executing w"
  shows "serves w w'"
proof -
  obtain e w1 cancel w2 where p: "worker_timer W fv_session_timeout_poll (wk_published w) w = (e, w1)" "cancel_requested w1 = (cancel, w2)"
    "cancel \<or> wk_invalidated w2 \<longrightarrow> c \<and> w' = w2" "\<not> (cancel \<or> wk_invalidated w2) \<longrightarrow> fv_usb_session_invalidated w2 = (c, w')"
    by (rule cancelled_parts [OF assms(1)])
  have "serves w w2" by (rule serves_trans [OF timer_serves [OF p(1) assms(2)] cancel_serves [OF p(2)]])
  then show ?thesis using p(3,4) serves_trans [OF _ invalidated_serves] by blast
qed

lemma not_cancelled_serves: "not_cancelled W w = (ok, w') \<Longrightarrow> serves w w'"
  by (auto simp: not_cancelled_def split: if_splits prod.splits dest: cancelled_serves)

text \<open>A closed store stays closed.\<close>

lemma closed_not_ready [simp]: "fj_ready fv_fido_journal_close = False"
  by (simp add: fv_fido_journal_close_def)

lemma closed_fail [simp]: "j_fail fv_fido_journal_close = fv_fido_journal_close"
  by (simp add: j_fail_def fv_fido_journal_close_def)

lemma closed_authorized [simp]: "j_authorized p v fv_fido_journal_close w = (False, w)"
  by (simp add: j_authorized_def)

lemma closed_store:
  "fv_fido_journal_read SL p v offset n fv_fido_journal_close w = (ok, out, s, w') \<Longrightarrow> s = fv_fido_journal_close"
  "fv_fido_journal_write SL p v offset data fv_fido_journal_close w = (ok, s, w') \<Longrightarrow> s = fv_fido_journal_close"
  "fv_fido_journal_reset SL p v policy fv_fido_journal_close w = (ok, s, w') \<Longrightarrow> s = fv_fido_journal_close"
  "fv_fido_journal_commit SL p v fv_fido_journal_close w = (ok, s, w') \<Longrightarrow> s = fv_fido_journal_close"
  by (auto simp: fv_fido_journal_read_def fv_fido_journal_write_def fv_fido_journal_reset_def fv_fido_journal_commit_def
      j_access_def split: if_splits)

lemma store_serves:
  assumes "wk_store w = fv_fido_journal_close \<longrightarrow> s = fv_fido_journal_close"
  shows "serves w (w\<lparr>wk_store := s, wk_world := vw\<rparr>)"
  by (rule serves_same; (rule keeps_sameI)?) (use assms in \<open>auto simp: worker_inv_defs\<close>)

lemma storage_serves:
  "serves w (snd (snd (storage_read W offset n w)))" "serves w (snd (storage_write W offset data w))"
  "serves w (snd (storage_reset W policy w))"
  by (auto simp: storage_read_def storage_write_def storage_reset_def split: prod.splits intro!: store_serves dest: closed_store)

lemma commit_disk_serves: "serves w (snd (commit_disk W w))"
proof -
  obtain a w1 where a: "fido_authorized w = (a, w1)" by (cases "fido_authorized w")
  obtain n w2 where n: "not_cancelled W w1 = (n, w2)" by (cases "not_cancelled W w1")
  obtain ok s vw where c: "fv_fido_journal_commit (wl_sha W) (wl_platform W) (wk_vault w2) (wk_store w2) (wk_world w2) = (ok, s, vw)"
    by (cases "fv_fido_journal_commit (wl_sha W) (wl_platform W) (wk_vault w2) (wk_store w2) (wk_world w2)")
  have "serves w2 (w2\<lparr>wk_store := s, wk_world := vw\<rparr>)" by (rule store_serves) (use c in \<open>auto dest: closed_store\<close>)
  moreover have "serves w w1" "serves w w2"
    using authorized_serves [OF a] serves_trans [OF authorized_serves [OF a] not_cancelled_serves [OF n]] by simp_all
  ultimately show ?thesis using a n c serves_trans by (auto simp: commit_disk_def split: bool.splits)
qed

lemma local_authorized_serves: "serves w (snd (local_authorized W w))"
proof -
  obtain n w1 where n: "not_cancelled W w = (n, w1)" by (cases "not_cancelled W w")
  obtain a w2 where a: "fido_authorized w1 = (a, w2)" by (cases "fido_authorized w1")
  show ?thesis using not_cancelled_serves [OF n] serves_trans [OF not_cancelled_serves [OF n] authorized_serves [OF a]] n a
    by (cases n) (simp_all add: local_authorized_def)
qed

lemma local_callback_serves: "local_callback W w w' \<Longrightarrow> serves w w'"
proof (induction rule: local_callback.induct)
  case (Own w e)
  show ?case by (rule serves_same; (rule keeps_sameI)?) (auto intro: worker_inv_cong)
next
  case (Random w n)
  show ?case by (rule serves_same [OF fido_random_keeps]) (auto simp: fv_fido_random_def Let_def split: prod.splits if_splits)
next
  case (Millis w)
  then show ?case by (cases "time_ms w") (auto dest: time_serves)
qed (rule storage_serves commit_disk_serves local_authorized_serves)+

lemma local_callbacks_serve: "(local_callback W)\<^sup>*\<^sup>* w w' \<Longrightarrow> serves w w'"
  by (induction rule: rtranclp_induct) (auto intro: serves_trans local_callback_serves)

lemma request_callback_keeps: "request_callback W w w' \<Longrightarrow> wk_executing w \<Longrightarrow> keeps w w'"
proof (induction rule: request_callback.induct)
  case (Local w w')
  then show ?case using local_callback_serves by (auto simp: serves_def)
next
  case (Presence w)
  then show ?case by (cases "presence W w") (auto dest: presence_keeps)
next
  case (Verify_User w rp)
  then show ?case by (cases "verify W rp w") (auto dest: verify_keeps)
next
  case (Uv_Retries w)
  then show ?case by (cases "retries W w") (auto dest: retries_keeps)
next
  case (Cancelled w)
  then show ?case by (cases "fv_fido_cancelled W w") (auto dest: cancelled_keeps)
next
  case (Reset_Allowed w)
  then show ?case by (cases "reset_allowed w") (auto dest: reset_allowed_keeps)
qed

lemma request_callbacks_keep: "(request_callback W)\<^sup>*\<^sup>* w w' \<Longrightarrow> wk_executing w \<Longrightarrow> keeps w w'"
proof (induction rule: rtranclp_induct)
  case (step y z)
  then have k: "keeps w y" by simp
  then have "wk_executing y" using step.prems by (simp add: keeps_def)
  then show ?case using keeps_trans [OF k] request_callback_keeps [OF step.hyps(2)] by blast
qed simp

lemma engine_lawD:
  assumes "engine_law W E"
  shows "en_open E key dev w = (ok, w') \<Longrightarrow> serves w w'" "en_uv_policy E m w = (r, w') \<Longrightarrow> serves w w'"
    "en_manage E a x w = (ok, y, w') \<Longrightarrow> serves w w'"
    "en_command E c rx w = (reply, w') \<Longrightarrow> wk_executing w \<Longrightarrow> keeps w w'"
  using assms local_callbacks_serve request_callbacks_keep unfolding engine_law_def by (metis snd_conv)+

section \<open>Opening the engine\<close>

lemma servesD: "serves w w' \<Longrightarrow> keeps w w'" "serves w w' \<Longrightarrow> fido_live w \<Longrightarrow> fido_live w'"
  by (simp_all add: serves_def)

text \<open>With a live session, the FIDO part of the state is free.\<close>

definition opens :: "('a, 'd, 'r, 'e) worker \<Rightarrow> ('a, 'd, 'r, 'e) worker \<Rightarrow> bool" where
  "opens w w' \<longleftrightarrow> wk_executing w' = wk_executing w \<and> narrows w w' \<and> (worker_inv w \<and> fido_live w \<longrightarrow> worker_inv w' \<and> fido_live w')"

lemma serves_opens: "serves w w' \<Longrightarrow> opens w w'"
  by (auto simp: serves_def keeps_def opens_def)

lemma opens_trans: "opens a b \<Longrightarrow> opens b c \<Longrightarrow> opens a c"
  by (auto simp: opens_def intro: narrows_trans)

lemma opens_fido:
  "opens w (w\<lparr>wk_store := s, wk_world := vw\<rparr>)" "opens w (w\<lparr>wk_world := vw\<rparr>)" "opens w (w\<lparr>wk_engine_open := b\<rparr>)"
  by (simp_all add: opens_def worker_inv_defs narrows_same)

lemma open_engine_opens:
  assumes "engine_law W E" "open_engine W E w = (ok, w')"
  shows "opens w w'"
proof -
  obtain a s vw where o: "fv_fido_journal_open (wl_sha W) (wl_ciphers W) (wl_platform W) (wk_vault w) (wk_world w) = (a, s, vw)"
    by (cases "fv_fido_journal_open (wl_sha W) (wl_ciphers W) (wl_platform W) (wk_vault w) (wk_world w)")
  let ?w1 = "w\<lparr>wk_store := s, wk_world := vw\<rparr>"
  obtain key vw2 where k: "fv_fido_journal_key (wl_sha W) (wl_platform W) (wk_vault w) s vw = (key, vw2)"
    by (cases "fv_fido_journal_key (wl_sha W) (wl_platform W) (wk_vault w) s vw")
  let ?w2 = "?w1\<lparr>wk_world := vw2\<rparr>"
  have o1: "opens w ?w1" by (rule opens_fido)
  have o2: "opens w ?w2" by (rule opens_trans [OF o1 opens_fido(2)])
  show ?thesis
  proof (cases "a \<and> key \<noteq> None")
    case False
    then show ?thesis using assms(2) o k o1 o2 by (auto simp: open_engine_def Let_def split: if_splits)
  next
    case True
    then obtain x where x: "key = Some x" by blast
    obtain b w3 where e: "en_open E x (ec_device_id (v_config (wk_vault w))) ?w2 = (b, w3)"
      by (cases "en_open E x (ec_device_id (v_config (wk_vault w))) ?w2")
    have o3: "opens w w3" by (rule opens_trans [OF o2 serves_opens [OF engine_lawD(1) [OF assms(1) e]]])
    have "w' = (if b then w3\<lparr>wk_engine_open := True\<rparr> else w3)"
      using assms(2) o k e True x by (auto simp: open_engine_def)
    then show ?thesis using o3 opens_trans [OF o3 opens_fido(3)] by simp
  qed
qed

lemma ensure_engine_keeps:
  assumes "engine_law W E" "ensure_engine W E w = (ok, w')"
  shows "keeps w w'"
proof -
  obtain a w1 where a: "fido_authorized w = (a, w1)" by (cases "fido_authorized w")
  obtain b w2 where b: "(if wk_engine_open w1 then (True, w1) else open_engine W E w1) = (b, w2)"
    by (cases "if wk_engine_open w1 then (True, w1) else open_engine W E w1")
  obtain m w3 where m: "en_uv_policy E None w2 = (m, w3)" by (cases "en_uv_policy E None w2")
  have o: "opens w1 w2" using b open_engine_opens [OF assms(1)] by (auto simp: opens_def narrows_same split: if_splits)
  have k3: "keeps w2 w3" using engine_lawD(2) [OF assms(1) m] by (simp add: serves_def)
  have w': "w' = w1 \<or> a \<and> (w' = w2 \<or> w' = w3 \<or> (\<exists>u. w' = w3\<lparr>wk_uv_policy := u\<rparr>))"
    using assms(2) a b m unfolding ensure_engine_def by (cases a; cases b) (auto split: option.splits)
  have "keeps w w2" if a: "a"
  proof (rule keepsI)
    have ex: "wk_executing w1 = wk_executing w" using authorized_keeps [OF \<open>fido_authorized w = _\<close>] by (simp add: keeps_def)
    then show "wk_executing w2 = wk_executing w" using o by (simp add: opens_def)
    show "narrows w w2" using narrows_trans [OF keepsD(3) [OF authorized_keeps [OF \<open>fido_authorized w = _\<close>]]] o by (simp add: opens_def)
    assume "worker_inv w"
    then have "worker_inv w1" by (rule keepsD(1) [OF authorized_keeps [OF \<open>fido_authorized w = _\<close>]])
    moreover have "fido_live w1" using authorized_live [of w w1] a \<open>fido_authorized w = _\<close> by (simp add: fido_live_def)
    ultimately show "worker_inv w2" using o by (simp add: opens_def)
  qed
  then show ?thesis using w' authorized_keeps [OF a] k3 keeps_trans mailbox_keeps(5) by metis
qed

section \<open>Local operations\<close>

lemma policy_get_keeps:
  assumes "engine_law W E" "fv_fido_policy_get W E w = (m, w')"
  shows "keeps w w'"
proof -
  obtain a w1 where a: "fido_authorized w = (a, w1)" by (cases "fido_authorized w")
  obtain b w2 where b: "ensure_engine W E w1 = (b, w2)" by (cases "ensure_engine W E w1")
  have k: "keeps w w1" "keeps w w2"
    using authorized_keeps [OF a] keeps_trans [OF authorized_keeps [OF a] ensure_engine_keeps [OF assms(1) b]] by simp_all
  have "w' \<in> {w1, w2, fv_fido_close W w2}" using assms(2) a b by (cases a) (auto simp: fv_fido_policy_get_def split: if_splits)
  then show ?thesis using k keeps_trans [OF _ fido_close_keeps] by blast
qed

lemma policy_set_keeps:
  assumes "engine_law W E" "fv_fido_policy_set W E mode w = (ok, w')"
  shows "keeps w w'"
proof -
  obtain a w1 where a: "fido_authorized w = (a, w1)" by (cases "fido_authorized w")
  obtain b w2 where b: "ensure_engine W E w1 = (b, w2)" by (cases "ensure_engine W E w1")
  obtain m w3 where m: "en_uv_policy E (Some mode) w2 = (m, w3)" by (cases "en_uv_policy E (Some mode) w2")
  have k: "keeps w w1" "keeps w w2" "keeps w w3"
    using authorized_keeps [OF a] keeps_trans [OF authorized_keeps [OF a] ensure_engine_keeps [OF assms(1) b]]
      keeps_trans [OF keeps_trans [OF authorized_keeps [OF a] ensure_engine_keeps [OF assms(1) b]]
        servesD(1) [OF engine_lawD(2) [OF assms(1) m]]] by simp_all
  have "w' \<in> {w, w1, w2, fv_fido_close W w3} \<or>
      (\<exists>u. w' = (w3\<lparr>wk_uv_policy := u\<rparr>)\<lparr>wk_verification := fv_fido_verification_clear\<rparr>)"
    using assms(2) a b m by (cases a; cases b) (auto simp: fv_fido_policy_set_def split: if_splits option.splits)
  moreover have "keeps w (fv_fido_close W w3)" by (rule keeps_trans [OF k(3) fido_close_keeps])
  moreover have "keeps w ((w3\<lparr>wk_uv_policy := u\<rparr>)\<lparr>wk_verification := fv_fido_verification_clear\<rparr>)" for u
    by (rule keeps_trans [OF k(3) keeps_trans [OF mailbox_keeps(5) clear_verification_keeps]])
  ultimately show ?thesis using k by (elim disjE exE) auto
qed

lemma manage_keeps:
  assumes "engine_law W E" "fv_fido_manage W E remove x w = (ok, y, w')"
  shows "keeps w w'"
proof -
  obtain b w2 where b: "(case fido_authorized w of (ok, w) \<Rightarrow> if ok then ensure_engine W E w else (False, w)) = (b, w2)"
    by (cases "case fido_authorized w of (ok, w) \<Rightarrow> if ok then ensure_engine W E w else (False, w)")
  have k2: "keeps w w2" using b
    by (auto split: prod.splits if_splits dest!: authorized_keeps ensure_engine_keeps [OF assms(1)] elim!: keeps_trans)
  obtain c z w3 where c: "en_manage E FV_PASSKEY_BEGIN x w2 = (c, z, w3)" by (cases "en_manage E FV_PASSKEY_BEGIN x w2")
  have k3: "keeps w w3" by (rule keeps_trans [OF k2 servesD(1) [OF engine_lawD(3) [OF assms(1) c]]])
  obtain d i n e w4 where d: "(if c \<and> remove then manage_delete E (pk_id (snd (snd x))) z w3 else (c, z, w3)) = (d, (i, n, e), w4)"
    by (cases "if c \<and> remove then manage_delete E (pk_id (snd (snd x))) z w3 else (c, z, w3)") auto
  have k4: "keeps w3 w4" using d
    by (auto simp: manage_delete_def split: if_splits prod.splits dest!: engine_lawD(3) [OF assms(1)] servesD(1) elim!: keeps_trans)
  obtain f u w5 where f: "en_manage E FV_PASSKEY_END (0, 0, passkey_zero) w4 = (f, u, w5)"
    by (cases "en_manage E FV_PASSKEY_END (0, 0, passkey_zero) w4")
  have k5: "keeps w w5" by (rule keeps_trans [OF keeps_trans [OF k3 k4] servesD(1) [OF engine_lawD(3) [OF assms(1) f]]])
  have "w' \<in> {w2, w5, fv_fido_close W w5}"
    using assms(2) unfolding fv_fido_manage_def b prod.case c d f by (cases b) (auto split: if_splits)
  then show ?thesis using k2 k5 keeps_trans [OF k5 fido_close_keeps] by blast
qed

lemma initialize_keeps:
  assumes "fv_fido_initialize W w = (ok, w')" "\<not> wk_executing w"
  shows "keeps w w'"
proof -
  obtain a w1 where a: "fido_authorized w = (a, w1)" by (cases "fido_authorized w")
  let ?w2 = "fv_fido_close W w1"
  obtain b s vw where j: "fv_fido_journal_initialize (wl_sha W) (wl_ciphers W) (wl_platform W) (wk_vault ?w2) True (wk_world ?w2) = (b, s, vw)"
    by (cases "fv_fido_journal_initialize (wl_sha W) (wl_ciphers W) (wl_platform W) (wk_vault ?w2) True (wk_world ?w2)")
  have k: "keeps w w1" "keeps w ?w2" using authorized_keeps [OF a] keeps_trans [OF authorized_keeps [OF a] fido_close_keeps] by simp_all
  have ex: "\<not> wk_executing ?w2" using k assms(2) by (simp add: keeps_def)
  have "keeps ?w2 (close_store (?w2\<lparr>wk_store := s, wk_world := vw\<rparr>))"
    by (rule keeps_sameI) (use ex fido_close_erases [of w1 W] in \<open>auto simp: close_store_def worker_inv_defs\<close>)
  moreover have "w' = w1 \<or> w' = close_store (?w2\<lparr>wk_store := s, wk_world := vw\<rparr>)"
    using assms(1) a j by (cases a) (simp_all add: fv_fido_initialize_def Let_def)
  ultimately show ?thesis using k keeps_trans [OF k(2)] by auto
qed

section \<open>One request\<close>

lemma gate_keeps:
  assumes "fido_gate rx w = (r, w')"
  shows "keeps w w'"
proof -
  obtain i w1 where i: "fv_usb_session_invalidated w = (i, w1)" by (cases "fv_usb_session_invalidated w")
  obtain a w2 where a: "(if usb_mode w1 \<noteq> FV_ACCESS_LOCKED then fido_authorized w1 else (True, w1)) = (a, w2)"
    by (cases "if usb_mode w1 \<noteq> FV_ACCESS_LOCKED then fido_authorized w1 else (True, w1)")
  have "keeps w1 w2" using a by (auto split: if_splits dest: authorized_keeps)
  then have "keeps w w2" by (rule keeps_trans [OF invalidated_keeps [OF i]])
  moreover have "w' \<in> {w, w1, w2}" using assms unfolding fido_gate_def i prod.case a by (auto split: if_splits)
  ultimately show ?thesis using invalidated_keeps [OF i] by auto
qed

lemma command_keeps:
  assumes "engine_law W E" "fido_command W E channel rx w = (reply, w')" "wk_executing w"
  shows "keeps w w'"
proof -
  obtain c w1 where c: "fv_fido_cancelled W w = (c, w1)" by (cases "fv_fido_cancelled W w")
  obtain pr w2 where p: "fv_fido_profile W w1 = (pr, w2)" by (cases "fv_fido_profile W w1")
  have k1: "keeps w w1" by (rule cancelled_keeps [OF c])
  have k2: "keeps w w2" by (rule keeps_trans [OF k1 fido_profile_keeps [OF p]])
  obtain ok lbl where l: "fido_label W rx = (ok, lbl)" by (cases "fido_label W rx")
  define w3 where "w3 = w2\<lparr>wk_label := lbl\<rparr>"
  have k3: "keeps w w3" unfolding w3_def by (rule keeps_trans [OF k2 mailbox_keeps(3)])
  obtain v w4 where v: "(if v_unlocked (wk_vault w3) then (True, w3) else verify W None w3) = (v, w4)"
    by (cases "if v_unlocked (wk_vault w3) then (True, w3) else verify W None w3")
  have ex3: "wk_executing w3" using k3 assms(3) by (simp add: keeps_def)
  have k4: "keeps w w4" using v keeps_trans [OF k3 verify_keeps [OF _ ex3]] k3 by (auto split: if_splits)
  obtain e w5 where e: "ensure_engine W E w4 = (e, w5)" by (cases "ensure_engine W E w4")
  have k5: "keeps w w5" by (rule keeps_trans [OF k4 ensure_engine_keeps [OF assms(1) e]])
  obtain q w6 where q: "en_command E channel rx w5 = (q, w6)" by (cases "en_command E channel rx w5")
  have ex5: "wk_executing w5" using k5 assms(3) by (simp add: keeps_def)
  have k6: "keeps w w6" by (rule keeps_trans [OF k5 engine_lawD(4) [OF assms(1) q ex5]])
  have "fido_command W E channel rx w = (if c then (fido_status 0x7f, w1)
      else if rx = [4] then (en_info E (pr \<ge> 2 \<and> pr \<le> 4), w2) else if pr = 0 then (fido_status 0x30, w2)
      else if rx = [] then (fido_status 0x12, w2) else if \<not> ok then (fido_status 0x12, w3)
      else if \<not> v then (fido_status 0x2d, w4) else if \<not> e then (fido_status 0x30, w5) else (q, w6))"
    unfolding fido_command_def c prod.case p l Let_def w3_def [symmetric] v e q by (simp add: bool.case_eq_if e q)
  then have "w' \<in> {w1, w2, w3, w4, w5, w6}" using assms(2) by (auto split: if_splits)
  then show ?thesis using k1 k2 k3 k4 k5 k6 by auto
qed

lemma finish_keeps:
  assumes "fido_finish W rx reply w = (reply', w')"
  shows "keeps w w'"
proof -
  obtain c w1 where c: "fv_fido_cancelled W w = (c, w1)" by (cases "fv_fido_cancelled W w")
  obtain a w2 where a: "(if snd reply ! 0 = 0 \<and> rx \<noteq> [] \<and> (rx ! 0 = 1 \<or> rx ! 0 = 2 \<or> rx ! 0 = 8) then fido_authorized w1 else (False, w1)) = (a, w2)"
    by (cases "if snd reply ! 0 = 0 \<and> rx \<noteq> [] \<and> (rx ! 0 = 1 \<or> rx ! 0 = 2 \<or> rx ! 0 = 8) then fido_authorized w1 else (False, w1)")
  obtain e w3 where e: "usb_timer_activity W (wk_published w2) w2 = (e, w3)" by (cases "usb_timer_activity W (wk_published w2) w2")
  have "keeps w1 w2" using a by (auto split: if_splits dest: authorized_keeps)
  then have k: "keeps w w1" "keeps w w2" using cancelled_keeps [OF c] keeps_trans by blast+
  have "w' \<in> {w1, w2, w3}" using assms unfolding fido_finish_def c prod.case a by (cases c; cases a) (auto simp: e split: if_splits)
  then show ?thesis using k keeps_trans [OF k(2) published_activity_keeps [OF e]] by auto
qed

text \<open>Leaving: what an invalidated command still holds is closed.\<close>

definition session_inv :: "('a, 'd, 'r, 'e) worker \<Rightarrow> bool" where
  "session_inv w \<longleftrightarrow> wk_published w = sa_generation (wk_access w) \<and>
     (v_unlocked (wk_vault w) \<longrightarrow> session_armed w) \<and> (\<not> v_unlocked (wk_vault w) \<longrightarrow> session_erased w)"

lemma inv_session: "worker_inv w \<Longrightarrow> session_inv w"
  by (simp add: worker_inv_def session_inv_def)

lemma close_session: "session_inv w \<Longrightarrow> \<not> wk_executing w \<Longrightarrow> worker_inv (fv_fido_close W w)"
  by (auto simp: fv_fido_close_def worker_inv_defs session_inv_def Let_def fv_fido_verification_clear_def)

lemma core0_session: "core0 w = (i, w') \<Longrightarrow> session_inv w \<Longrightarrow> session_inv w'"
  by (simp add: session_inv_def session_armed_def session_erased_def core0_frame)

lemma poll_session:
  assumes "worker_timer W fv_session_timeout_poll (wk_published w) w = (e, w')" "session_inv w"
  shows "session_inv w'"
proof -
  obtain now w1 s where t: "time_ms w = (now, w1)" "fv_session_timeout_poll now (wk_published w) (wk_timeout w1) = (e, s)"
    "w' = (if e then fv_session_timeout_lock W (w1\<lparr>wk_timeout := s\<rparr>) else w1\<lparr>wk_timeout := s\<rparr>)"
    by (rule timer_cases [OF assms(1)])
  obtain i where i: "core0 w = (i, w1)" using shared_reads(1) [OF t(1)] by blast
  show ?thesis
  proof (cases e)
    case True
    then show ?thesis using t(3) by (simp add: inv_session timeout_lock_inv)
  next
    case False
    have i1: "session_inv w1" by (rule core0_session [OF i assms(2)])
    have g: "wk_published w = sa_generation (wk_access w1)" using assms(2) core0_frame [OF i] by (simp add: session_inv_def)
    note fr = timeout_op_frame [of fv_session_timeout_poll, OF _ t(2) [unfolded False [THEN eq_False [THEN iffD2]]]]
    show ?thesis using i1 t(3) False g fr by (auto simp: session_inv_def session_armed_def session_erased_def)
  qed
qed

lemma cancelled_invalidated:
  assumes "fv_fido_cancelled W w = (c, w')" "wk_invalidated w" "\<not> wk_executing w" "session_inv w"
  shows "c \<and> session_inv w' \<and> \<not> wk_executing w'"
proof -
  obtain e w1 cancel w2 where p: "worker_timer W fv_session_timeout_poll (wk_published w) w = (e, w1)" "cancel_requested w1 = (cancel, w2)"
    "cancel \<or> wk_invalidated w2 \<longrightarrow> c \<and> w' = w2" "\<not> (cancel \<or> wk_invalidated w2) \<longrightarrow> fv_usb_session_invalidated w2 = (c, w')"
    by (rule cancelled_parts [OF assms(1)])
  obtain now w0 s where t: "time_ms w = (now, w0)"
    "w1 = (if e then fv_session_timeout_lock W (w0\<lparr>wk_timeout := s\<rparr>) else w0\<lparr>wk_timeout := s\<rparr>)"
    by (rule timer_cases [OF p(1)])
  obtain i where i: "core0 w = (i, w0)" using shared_reads(1) [OF t(1)] by blast
  have "wk_invalidated w1" "\<not> wk_executing w1"
    using t(2) core0_frame [OF i] assms(2,3)
    by (auto simp: fv_session_timeout_lock_def usb_lock_def worker_session_lock_def fv_session_lock_def fv_fido_close_def
        fv_usb_publish_generation_def Let_def)
  moreover obtain j where j: "core0 w1 = (j, w2)" using shared_reads(3) [OF p(2)] by blast
  ultimately have n: "wk_invalidated w2" "\<not> wk_executing w2" using core0_frame [OF j] by simp_all
  moreover have "session_inv w2" by (rule core0_session [OF j poll_session [OF p(1) assms(4)]])
  ultimately show ?thesis using p(3) by simp
qed

lemma cancelled_narrows: "fv_fido_cancelled W w = (c, w') \<Longrightarrow> narrows w w'"
  by (rule keepsD(3) [OF cancelled_keeps])

lemma leave_idle:
  assumes "fido_leave W locks reply w = (fin, w')" "worker_inv w" "wk_executing w"
  shows "worker_inv w' \<and> \<not> wk_executing w' \<and> narrows w w'"
proof -
  let ?w0 = "w\<lparr>wk_executing := False\<rparr>"
  obtain c w1 where c: "fv_fido_cancelled W ?w0 = (c, w1)" by (cases "fv_fido_cancelled W ?w0")
  define w2 where "w2 = (if c \<or> \<not> v_unlocked (wk_vault w1) \<or> snd reply ! 0 = 0x7f then fv_fido_close W w1 else w1)"
  have s0: "session_inv ?w0" using assms(2) by (simp add: worker_inv_def session_inv_def session_armed_def session_erased_def)
  have w2: "worker_inv w2 \<and> \<not> wk_executing w2"
  proof (cases "wk_invalidated w")
    case True
    then have i: "c \<and> session_inv w1 \<and> \<not> wk_executing w1" using cancelled_invalidated [OF c _ _ s0] by simp
    then show ?thesis using close_session [of w1 W] by (simp add: w2_def)
  next
    case False
    then have "worker_inv ?w0" using assms(2) by (simp add: worker_inv_defs)
    then have k: "worker_inv w1 \<and> \<not> wk_executing w1" using cancelled_keeps [OF c] by (simp add: keeps_def)
    then show ?thesis using fido_close_inv [of w1 W] by (simp add: w2_def)
  qed
  obtain i w3 where i: "fv_usb_session_invalidated w2 = (i, w3)" by (cases "fv_usb_session_invalidated w2")
  obtain l w4 where l: "(if i then (True, w3) else case cancel_requested w3 of (cancel, w) \<Rightarrow> (cancel \<and> locks, w)) = (l, w4)"
    by (cases "if i then (True, w3) else case cancel_requested w3 of (cancel, w) \<Rightarrow> (cancel \<and> locks, w)")
  have "keeps w3 w4" using l by (auto split: if_splits prod.splits dest: cancel_keeps)
  then have k4: "keeps w2 w4" by (rule keeps_trans [OF invalidated_keeps [OF i]])
  have "w' = (if l then usb_lock W w4 else w4)"
    using assms(1) unfolding fido_leave_def Let_def c prod.case w2_def [symmetric] i l by simp
  moreover have "narrows w w4"
  proof -
    have "narrows w w1" using cancelled_narrows [OF c] by (simp add: narrows_def)
    then have "narrows w w2" by (simp add: w2_def narrows_def)
    then show ?thesis by (rule narrows_trans) (rule keepsD(3) [OF k4])
  qed
  ultimately show ?thesis using w2 k4 usb_lock_keeps [of w4 W] by (auto simp: keeps_def intro: narrows_trans)
qed

text \<open>A FIDO request, from one idle state to the next.\<close>

lemma fido_execute_idle:
  assumes "engine_law W E" "fv_fido_execute W E channel rx w = (fin, w')" "worker_inv w" "\<not> wk_executing w"
  shows "worker_inv w' \<and> \<not> wk_executing w' \<and> narrows w w'"
proof -
  let ?w0 = "w\<lparr>wk_invalidated := False, wk_executing := True\<rparr>"
  have i0: "worker_inv ?w0" using assms(3,4) by (simp add: worker_inv_defs)
  obtain d w1 where d: "fido_gate rx ?w0 = (d, w1)" by (cases "fido_gate rx ?w0")
  have k1: "keeps ?w0 w1" by (rule gate_keeps [OF d])
  have ex1: "wk_executing w1" using k1 by (simp add: keeps_def)
  obtain q w2 where q: "(case d of Some reply \<Rightarrow> (reply, w1) | None \<Rightarrow> fido_command W E channel rx w1) = (q, w2)"
    by (cases "case d of Some reply \<Rightarrow> (reply, w1) | None \<Rightarrow> fido_command W E channel rx w1")
  have k2: "keeps w1 w2" using q command_keeps [OF assms(1) _ ex1] by (auto split: option.splits)
  obtain u w3 where u: "fido_finish W rx q w2 = (u, w3)" by (cases "fido_finish W rx q w2")
  have k3: "keeps ?w0 w3" by (rule keeps_trans [OF k1 keeps_trans [OF k2 finish_keeps [OF u]]])
  have "fido_leave W (rx \<noteq> [4] \<and> d = None) u w3 = (fin, w')"
    using assms(2) unfolding fv_fido_execute_def Let_def d prod.case q u by simp
  then have l: "worker_inv w' \<and> \<not> wk_executing w' \<and> narrows w3 w'"
    by (rule leave_idle) (use k3 i0 in \<open>simp_all add: keeps_def\<close>)
  moreover have "narrows w w3" using keepsD(3) [OF k3] by (simp add: narrows_def)
  ultimately show ?thesis using narrows_trans by blast
qed

end
