(* ===== verification/Worker_Loop.thy ===== *)
theory Worker_Loop
  imports Ui_Worker
begin

text \<open>
  The loop of the worker (\<^verbatim>\<open>security_worker\<close>, \<^verbatim>\<open>src/src/pico/device/commands.c\<close>): every turn looks at the deadline
  first, then executes at most one queued command. Of the text commands the product build accepts only LOCK,
  STATE, INFO and MEDIA; their JSON replies are not modelled. The state after boot is the one the loop starts in;
  the recovery at boot has already happened in the world.
\<close>

definition persistent_status ::
  "('h, 'd, 'r, 'e) device_lib \<Rightarrow> 'h otp_flash \<Rightarrow> ('h, 'd, 'r, 'e) device_worker \<Rightarrow> ('h, 'd, 'r, 'e) device_worker" where
  "persistent_status W H w =
     (case w_authority (wk_world w) of (d, h) \<Rightarrow>
      case fv_enrollment_inspect (of_otp H) (of_journal H) h of (_, h) \<Rightarrow>
      case token_open W H (w\<lparr>wk_world := (wk_world w)\<lparr>w_authority := (d, h)\<rparr>\<rparr>) of (opened, w) \<Rightarrow>
        if opened = 0 then w\<lparr>wk_world := snd (vault_load (wl_platform W) (wk_world w))\<rparr> else w)"

definition security_execute ::
  "('h, 'd, 'r, 'e) device_lib \<Rightarrow> 'h otp_flash \<Rightarrow> string \<Rightarrow> ('h, 'd, 'r, 'e) device_worker \<Rightarrow> ('h, 'd, 'r, 'e) device_worker" where
  "security_execute W H command w =
     (if command = ''LOCK'' then usb_lock W w else if command = ''STATE'' then persistent_status W H w else w)"

definition worker_command_run ::
  "('h, 'd, 'r, 'e) device_lib \<Rightarrow> ('h, 'd, 'r, 'e) device_engine \<Rightarrow> 'h otp_flash \<Rightarrow> worker_command
   \<Rightarrow> ('h, 'd, 'r, 'e) device_worker \<Rightarrow> ('h, 'd, 'r, 'e) device_worker" where
  "worker_command_run W E H c w =
     (case c of
        Fido_Command channel rx \<Rightarrow> snd (worker_fido W E channel rx w)
      | Ui_Command j \<Rightarrow> snd (fv_device_ui_execute W E H j w)
      | Storage_Command rq \<Rightarrow> snd (snd (fv_usb_storage_execute W rq w))
      | Text_Command t \<Rightarrow> security_execute W H t w)"

definition security_worker ::
  "('h, 'd, 'r, 'e) device_lib \<Rightarrow> ('h, 'd, 'r, 'e) device_engine \<Rightarrow> 'h otp_flash \<Rightarrow> worker_command option
   \<Rightarrow> ('h, 'd, 'r, 'e) device_worker \<Rightarrow> ('h, 'd, 'r, 'e) device_worker" where
  "security_worker W E H c w =
     (case usb_timer_poll W w of (_, w) \<Rightarrow> (case c of None \<Rightarrow> w | Some c \<Rightarrow> worker_command_run W E H c w))"

definition worker_boot ::
  "(nat \<Rightarrow> core0_input) \<Rightarrow> (nat \<Rightarrow> prompt_input) \<Rightarrow> ('a, 'd, 'r) vault_world \<Rightarrow> 'e \<Rightarrow> ('a, 'd, 'r, 'e) worker" where
  "worker_boot inputs prompts vw engine =
     \<lparr>wk_core0 = inputs, wk_read = 0, wk_vault = fv_vault_lock,
      wk_access = \<lparr>sa_mode = FV_ACCESS_LOCKED, sa_generation = 0\<rparr>, wk_world = vw, wk_timeout = timeout_boot,
      wk_published = 0, wk_ui_disconnected = False, wk_sd_initialized = False, wk_rng_ready = False,
      wk_verification = fv_fido_verification_clear, wk_store = fv_fido_journal_close, wk_engine = engine,
      wk_engine_open = False, wk_executing = False, wk_invalidated = False, wk_uv_policy = 0, wk_label = [],
      wk_prompts = prompts, wk_asked = 0, wk_mailbox = prompt_zero, wk_prompt_abort = False\<rparr>"

text \<open>The states between two turns, whatever core 0, the users, the hosts, the card, the OTP and the flash do.\<close>

inductive worker_reachable ::
  "('h, 'd, 'r, 'e) device_lib \<Rightarrow> ('h, 'd, 'r, 'e) device_engine \<Rightarrow> 'h otp_flash \<Rightarrow> ('h, 'd, 'r, 'e) device_worker \<Rightarrow> bool"
  for W E H where
  Boot: "worker_reachable W E H (worker_boot inputs prompts vw engine)"
| Turn: "worker_reachable W E H w \<Longrightarrow> worker_reachable W E H (security_worker W E H c w)"
| Card: "worker_reachable W E H w \<Longrightarrow> worker_reachable W E H (w\<lparr>wk_world := (wk_world w)\<lparr>w_sd := d\<rparr>\<rparr>)"

inductive_cases worker_turnE: "worker_reachable W E H w"

end
