(* ===== verification/Worker_Correct.thy ===== *)
theory Worker_Correct
  imports Worker_Engine Worker_Loop
begin

text \<open>
  The worker as a whole (\<^verbatim>\<open>src/src/pico/device/commands.c\<close>): jobs of the front panel, the loop of
  \<^verbatim>\<open>security_worker\<close>, its reachable states, and the properties that hold in all of them for every behaviour of
  core 0, every host and every FIDO engine that obeys its law.
\<close>

section \<open>Jobs of the front panel\<close>

text \<open>Between commands no FIDO command is running.\<close>

definition idle :: "('a, 'd, 'r, 'e) worker \<Rightarrow> bool" where
  "idle w \<longleftrightarrow> worker_inv w \<and> \<not> wk_executing w"

lemma idle_keeps: "idle w \<Longrightarrow> keeps w w' \<Longrightarrow> idle w'"
  by (simp add: idle_def keeps_def)

lemma idle_locked: "idle (usb_lock W w) = (\<not> wk_executing w)"
  by (simp add: idle_def usb_lock_inv usb_lock_locked)

lemma admit_keeps:
  assumes "job_admit W j w = (r, w')"
  shows "keeps w w'"
proof -
  obtain e w1 where e: "usb_timer_poll W w = (e, w1)" by (cases "usb_timer_poll W w")
  obtain i w2 where i: "fv_usb_session_invalidated w1 = (i, w2)" by (cases "fv_usb_session_invalidated w1")
  have k: "keeps w w1" "keeps w w2" using poll_keeps [OF e] keeps_trans [OF poll_keeps [OF e] invalidated_keeps [OF i]] by simp_all
  have "w' \<in> {w1, w2, usb_lock W w2}" using assms e i by (auto simp: job_admit_def Let_def split: if_splits)
  then show ?thesis using k keeps_trans [OF k(2) usb_lock_keeps] by blast
qed

lemma restart_keeps: "card_restart W w = (ok, w') \<Longrightarrow> keeps w w'"
  by (rule keeps_sameI) (auto intro: worker_inv_cong simp: card_restart_def split: prod.splits)

lemma restart_frame: "card_restart W w = (ok, w') \<Longrightarrow> wk_vault w' = wk_vault w \<and> wk_access w' = wk_access w"
  by (auto simp: card_restart_def split: prod.splits)

lemma job_random_keeps: "job_random W w = (ok, w') \<Longrightarrow> keeps w w'"
  by (auto simp: job_random_def split: prod.splits intro: world_keeps)

lemma job_random_frame: "job_random W w = (ok, w') \<Longrightarrow> wk_vault w' = wk_vault w \<and> wk_access w' = wk_access w"
  by (auto simp: job_random_def split: prod.splits)

lemma change_credential_locks:
  "fv_vault_change_credential SL L p current replacement profile iterations policy approved w = (r, v, w') \<Longrightarrow> v = fv_vault_lock"
  using vault_unlock_result [of SL L p current False w]
  by (auto simp: fv_vault_change_credential_def Let_def split: prod.splits if_splits option.splits)

lemma change_vault_idle:
  assumes "change_vault W current j policy approved w = (r, w')" "idle w" "\<not> v_unlocked (wk_vault w)"
  shows "idle w' \<and> narrows w w'"
proof -
  obtain v vw where c: "w' = w\<lparr>wk_vault := v, wk_world := vw\<rparr>" "v = fv_vault_lock"
    using assms(1) by (auto simp: change_vault_def split: prod.splits dest: change_credential_locks)
  then have "v = wk_vault w" using assms(2,3) by (simp add: idle_def worker_inv_def session_erased_def)
  then have "keeps w w'" unfolding c(1) by (intro keeps_sameI) (auto intro: worker_inv_cong)
  then show ?thesis using idle_keeps [OF assms(2)] keepsD(3) by blast
qed

lemma token_open_keeps: "token_open W H w = (r, w') \<Longrightarrow> keeps w w'"
  by (auto simp: token_open_def split: prod.splits intro: world_keeps)

lemma worker_provision_keeps: "provision_token W H w = (r, w') \<Longrightarrow> keeps w w'"
  by (auto simp: provision_token_def split: prod.splits option.splits intro: world_keeps)

lemma create_token_keeps:
  assumes "create_token W H w = (r, w')"
  shows "keeps w w'"
proof -
  obtain q w1 where o: "token_open W H w = (q, w1)" by (cases "token_open W H w")
  obtain s vw where l: "vault_load (wl_platform W) (wk_world w1) = (s, vw)" by (cases "vault_load (wl_platform W) (wk_world w1)")
  let ?w2 = "w1\<lparr>wk_world := vw\<rparr>"
  have k: "keeps w w1" "keeps w ?w2" using token_open_keeps [OF o] keeps_trans [OF token_open_keeps [OF o] world_keeps] by simp_all
  have "w' = w1 \<or> w' = ?w2 \<or> provision_token W H w1 = (r, w') \<or> provision_token W H ?w2 = (r, w')"
    using assms o l by (auto simp: create_token_def Let_def split: if_splits option.splits)
  then show ?thesis using k keeps_trans [OF k(1) worker_provision_keeps] keeps_trans [OF k(2) worker_provision_keeps] by blast
qed

lemma job_create_keeps:
  assumes "job_create W H j w = (r, w')"
  shows "keeps w w'"
proof -
  obtain q w1 where t: "create_token W H w = (q, w1)" by (cases "create_token W H w")
  have "w' = w \<or> w' = w1 \<or> (\<exists>vw. w' = w1\<lparr>wk_world := vw\<rparr>)"
    using assms t by (auto simp: job_create_def split: option.splits if_splits prod.splits)
  then show ?thesis using create_token_keeps [OF t] keeps_trans [OF create_token_keeps [OF t] world_keeps] by auto
qed

lemma job_change_idle:
  assumes "job_change W j w = (r, w')" "idle w" "\<not> v_unlocked (wk_vault w)"
  shows "idle w' \<and> narrows w w'"
proof -
  obtain s vw where l: "vault_load (wl_platform W) (wk_world w) = (s, vw)" by (cases "vault_load (wl_platform W) (wk_world w)")
  let ?w1 = "w\<lparr>wk_world := vw\<rparr>"
  have k: "keeps w ?w1" by (rule world_keeps)
  have i: "idle ?w1" by (rule idle_keeps [OF assms(2) k])
  show ?thesis
  proof (cases s)
    case None
    then show ?thesis using assms(1) l i k by (simp add: job_change_def keeps_def)
  next
    case (Some x)
    then have "change_vault W (take (job_current_length j) (job_current j)) j (ds_policy x) False ?w1 = (r, w')"
      using assms(1) l by (simp add: job_change_def)
    then have "idle w' \<and> narrows ?w1 w'" by (rule change_vault_idle [OF _ i]) (simp add: assms(3))
    then show ?thesis by (simp add: narrows_def)
  qed
qed

text \<open>Unlocking, from a locked idle state: the only way to gain the scope of a job.\<close>

lemma job_unlock_idle:
  assumes "job_unlock W j w = (r, w')" "idle w" "\<not> v_unlocked (wk_vault w)"
  shows "idle w' \<and> (narrows w w' \<or> sa_mode (wk_access w') = job_mode j)"
proof -
  obtain q a v vw where u: "fv_session_unlock (wl_sha W) (wl_ciphers W) (wl_platform W) (job_secret_bytes j) (job_mode j)
      (wk_access w, wk_vault w, wk_world w) = (q, a, v, vw)"
    by (cases "fv_session_unlock (wl_sha W) (wl_ciphers W) (wl_platform W) (job_secret_bytes j) (job_mode j)
      (wk_access w, wk_vault w, wk_world w)")
  define w1 where "w1 = fv_usb_publish_generation (sa_generation a) (w\<lparr>wk_access := a, wk_vault := v, wk_world := vw\<rparr>)"
  obtain i w2 where i: "fv_usb_session_invalidated w1 = (i, w2)" by (cases "fv_usb_session_invalidated w1")
  obtain c where c: "core0 w1 = (c, w2)" using shared_reads(2) [OF i] by blast
  note f = core0_frame [OF c]
  let ?w3 = "usb_timer_start w2"
  have w1: "wk_access w1 = a" "wk_vault w1 = v" "wk_executing w1 = wk_executing w" "wk_published w1 = sa_generation a"
    "wk_verification w1 = wk_verification w" "wk_timeout w1 = wk_timeout w" "wk_engine_open w1 = wk_engine_open w"
    "wk_store w1 = wk_store w" by (simp_all add: w1_def fv_usb_publish_generation_def)
  have er: "session_erased w" "\<not> wk_engine_open w" "wk_store w = fv_fido_journal_close" "\<not> wk_executing w"
    using assms(2,3) by (auto simp: idle_def worker_inv_def fido_live_def)
  have out: "q \<noteq> FV_VAULT_OK \<and> w' = w1 \<or> w' = usb_lock W w1 \<or> w' = usb_lock W w2 \<or>
      q = FV_VAULT_OK \<and> w' = (if fv_access_fido (usb_mode ?w3) then fv_fido_unlocked ?w3 else ?w3)"
    using assms(1) unfolding job_unlock_def u prod.case Let_def w1_def [symmetric] i by (auto split: if_splits)
  consider (fail) "q \<noteq> FV_VAULT_OK" "w' = w1" | (lock) "w' = usb_lock W w1 \<or> w' = usb_lock W w2"
    | (ok) "q = FV_VAULT_OK" "w' = (if fv_access_fido (usb_mode ?w3) then fv_fido_unlocked ?w3 else ?w3)"
    using out by blast
  then show ?thesis
  proof cases
    case fail
    have "a = wk_access w \<and> v = wk_vault w \<or> sa_mode a = FV_ACCESS_LOCKED \<and> v = fv_vault_lock"
      using u fail(1) by (auto simp: fv_session_unlock_def fv_session_lock_def split: if_splits prod.splits)
    then have "sa_mode a = FV_ACCESS_LOCKED \<and> v = fv_vault_lock" using er(1) by (auto simp: session_erased_def)
    then show ?thesis using fail(2) er w1 by (simp add: idle_def worker_inv_def session_erased_def narrows_locked)
  next
    case lock
    then show ?thesis using er(4) w1 f by (auto simp: idle_locked narrows_locked usb_lock_locked)
  next
    case ok
    note s = session_unlock_cases [OF u ok(1)]
    have inv: "worker_inv ?w3"
      by (rule timer_start_inv) (use s f w1 er in \<open>simp_all add: session_erased_def fv_fido_verification_clear_def\<close>)
    then have "worker_inv w'"
      using ok(2) s f w1 by (auto intro!: unlocked_inv simp: usb_mode_def fv_session_mode_def)
    moreover have "\<not> wk_executing w'" "wk_access w' = a" using ok(2) f w1 er(4) by auto
    ultimately show ?thesis using s by (simp add: idle_def)
  qed
qed

lemma job_replace_idle:
  assumes "job_replace W H j w = (r, w')" "idle w"
  shows "idle w' \<and> (narrows w w' \<or> job_op j = Some UI_UNLOCK \<and> sa_mode (wk_access w') = job_mode j)"
proof -
  let ?w0 = "usb_lock W w"
  obtain c w1 where c: "card_restart W ?w0 = (c, w1)" by (cases "card_restart W ?w0")
  obtain ok w2 where k: "job_random W w1 = (ok, w2)" by (cases "job_random W w1")
  have i0: "idle ?w0" using assms(2) by (simp add: idle_locked) (simp add: idle_def)
  have i1: "idle w1" "\<not> v_unlocked (wk_vault w1)"
    using idle_keeps [OF i0 restart_keeps [OF c]] restart_frame [OF c] by (simp_all add: usb_lock_locked)
  have i2: "idle w2" "\<not> v_unlocked (wk_vault w2)"
    using idle_keeps [OF i1(1) job_random_keeps [OF k]] job_random_frame [OF k] i1(2) by simp_all
  have n: "narrows w w1" "narrows w w2"
    using restart_frame [OF c] job_random_frame [OF k] by (simp_all add: narrows_locked usb_lock_locked)
  show ?thesis
  proof (cases "c \<and> (job_op j = Some UI_UNLOCK \<or> ok)")
    case False
    then show ?thesis using assms(1) c k i1 i2 n unfolding job_replace_def c prod.case by (auto split: if_splits)
  next
    case True
    show ?thesis
    proof (cases "job_op j = Some UI_UNLOCK")
      case unlock: True
      then have "job_unlock W j w1 = (r, w')" using assms(1) True c by (simp add: job_replace_def)
      from job_unlock_idle [OF this i1] show ?thesis using unlock narrows_trans [OF n(1)] by blast
    next
      case False
      then have "job_change W j w2 = (r, w') \<or> change_vault W (job_secret_bytes j) j (job_policy j) True w2 = (r, w') \<or> job_create W H j w2 = (r, w')"
        using assms(1) True c k by (auto simp: job_replace_def split: if_splits)
      then have "idle w' \<and> narrows w2 w'"
        using idle_keeps [OF i2(1) job_create_keeps] keepsD(3) [OF job_create_keeps]
        by (elim disjE) (auto dest: job_change_idle [OF _ i2] change_vault_idle [OF _ i2])
      then show ?thesis using narrows_trans [OF n(2)] by blast
    qed
  qed
qed

lemma job_erase_idle:
  assumes "job_erase W H w = (r, w')" "idle w"
  shows "idle w' \<and> narrows w w'"
proof -
  have "w' = w \<or> (\<exists>vw. w' = (usb_lock W w)\<lparr>wk_world := vw\<rparr>)"
    using assms(1) by (auto simp: job_erase_def Let_def split: if_splits prod.splits)
  moreover have "keeps w ((usb_lock W w)\<lparr>wk_world := vw\<rparr>)" for vw by (rule keeps_trans [OF usb_lock_keeps world_keeps])
  ultimately have "keeps w w'" by auto
  then show ?thesis using idle_keeps [OF assms(2)] keepsD(3) by blast
qed

lemma job_run_idle:
  assumes "engine_law W E" "job_run W E H j w = (r, x, w')" "idle w"
  shows "idle w' \<and> (narrows w w' \<or> job_op j = Some UI_UNLOCK \<and> sa_mode (wk_access w') = job_mode j)"
proof -
  have ex: "\<not> wk_executing w" using assms(3) by (simp add: idle_def)
  have "keeps w w' \<or> (\<exists>r. job_erase W H w = (r, w')) \<or> (\<exists>r. job_replace W H j w = (r, w'))"
    using assms(2) unfolding job_run_def Let_def
    by (cases "job_op j")
      (auto split: fv_ui_operation.splits prod.splits intro: usb_lock_keeps initialize_keeps [OF _ ex]
        policy_set_keeps [OF assms(1)] manage_keeps [OF assms(1)])
  then show ?thesis
    using idle_keeps [OF assms(3), of w'] job_erase_idle [OF _ assms(3)] job_replace_idle [OF _ assms(3)] keepsD(3) [of w w'] by blast
qed

section \<open>The answer\<close>

lemma report_state_keeps:
  assumes "report_state W H out w = (out', w')"
  shows "keeps w w'"
proof -
  obtain q w1 where o: "token_open W H w = (q, w1)" by (cases "token_open W H w")
  have "w' = w1 \<or> (\<exists>vw. w' = w1\<lparr>wk_world := vw\<rparr>)"
    using assms o by (auto simp: report_state_def split: if_splits prod.splits)
  then show ?thesis using token_open_keeps [OF o] keeps_trans [OF token_open_keeps [OF o] world_keeps] by auto
qed

lemma report_profile_keeps:
  assumes "report_profile W out w = (out', w')"
  shows "keeps w w'"
proof -
  obtain ok w1 where r: "(if \<not> wk_sd_initialized w \<or> \<not> blk_present (vp_sd (wl_platform W)) (w_sd (wk_world w))
      then card_restart W w else (True, w)) = (ok, w1)"
    by (cases "if \<not> wk_sd_initialized w \<or> \<not> blk_present (vp_sd (wl_platform W)) (w_sd (wk_world w))
      then card_restart W w else (True, w)")
  have k: "keeps w w1" using r by (auto split: if_splits dest: restart_keeps)
  have "w' = w \<or> w' = w1 \<or> (\<exists>vw. w' = w1\<lparr>wk_world := vw\<rparr>)"
    using assms unfolding report_profile_def r prod.case by (auto split: if_splits prod.splits)
  then show ?thesis using k keeps_trans [OF k world_keeps] by auto
qed

lemma report_fido_keeps:
  assumes "engine_law W E" "report_fido W E x out w = (out', w')"
  shows "keeps w w'"
proof -
  obtain m w1 where p: "fv_fido_policy_get W E w = (m, w1)" by (cases "fv_fido_policy_get W E w")
  have f: "keeps v (v\<lparr>wk_rng_ready := b, wk_world := vw\<rparr>)" for v :: "('a, 'b, 'c, 'd) device_worker" and b vw
    by (rule keeps_sameI) (auto intro: worker_inv_cong)
  have "\<exists>v \<in> {w, w1}. \<exists>vw. w' = v\<lparr>wk_rng_ready := False, wk_world := vw\<rparr>"
    using assms(2) p by (auto simp: report_fido_def Let_def split: prod.splits if_splits)
  then show ?thesis using f keeps_trans [OF policy_get_keeps [OF assms(1) p]] by auto
qed

lemma ui_execute_idle:
  assumes "engine_law W E" "fv_device_ui_execute W E H j w = (out, w')" "idle w"
  shows "idle w' \<and> (narrows w w' \<or> job_op j = Some UI_UNLOCK \<and> sa_mode (wk_access w') = job_mode j)"
proof -
  obtain r w1 where a: "job_admit W j w = (r, w1)" by (cases "job_admit W j w")
  have k1: "keeps w w1" by (rule admit_keeps [OF a])
  have i1: "idle w1" by (rule idle_keeps [OF assms(3) k1])
  obtain r2 x w2 where j: "(if r = 0 then job_run W E H j w1 else (r, (job_passkey_index j, 0, passkey_zero), w1)) = (r2, x, w2)"
    by (cases "if r = 0 then job_run W E H j w1 else (r, (job_passkey_index j, 0, passkey_zero), w1)") auto
  have i2: "idle w2 \<and> (narrows w1 w2 \<or> job_op j = Some UI_UNLOCK \<and> sa_mode (wk_access w2) = job_mode j)"
    using j job_run_idle [OF assms(1) _ i1] i1 by (auto split: if_splits simp: narrows_same)
  obtain e w3 where e: "usb_timer_poll W w2 = (e, w3)" by (cases "usb_timer_poll W w2")
  define o1 where "o1 = result_zero\<lparr>res_result := (if e \<and> r2 = 0 \<and> job_demanding j then VAULT_DENIED else r2)\<rparr>"
  obtain o2 w4 where s: "report_state W H o1 w3 = (o2, w4)" by (cases "report_state W H o1 w3")
  obtain o3 w5 where p: "report_profile W o2 w4 = (o3, w5)" by (cases "report_profile W o2 w4")
  obtain o4 w6 where f: "report_fido W E x o3 w5 = (o4, w6)" by (cases "report_fido W E x o3 w5")
  obtain e2 w7 where t: "usb_timer_poll W w6 = (e2, w7)" by (cases "usb_timer_poll W w6")
  have w': "w' = w7"
    using assms(2) unfolding fv_device_ui_execute_def a prod.case j e Let_def o1_def [symmetric] s p f t by (simp split: if_splits)
  have k: "keeps w2 w'" unfolding w'
    by (rule keeps_trans [OF poll_keeps [OF e] keeps_trans [OF report_state_keeps [OF s] keeps_trans [OF report_profile_keeps [OF p]
            keeps_trans [OF report_fido_keeps [OF assms(1) f] poll_keeps [OF t]]]]])
  have "idle w'" using i2 idle_keeps k by blast
  moreover have n: "narrows w2 w'" by (rule keepsD(3) [OF k])
  ultimately show ?thesis using i2 narrows_trans [OF keepsD(3) [OF k1]] narrows_trans
    by (metis narrows_def)
qed

section \<open>The loop\<close>

lemma fido_request_idle:
  assumes "engine_law W E" "worker_fido W E channel rx w = (fin, w')" "idle w"
  shows "idle w' \<and> narrows w w'"
proof -
  obtain ok r where r: "wl_start_random W (w_random (wk_world w)) = (ok, r)" by (cases "wl_start_random W (w_random (wk_world w))")
  let ?w0 = "w\<lparr>wk_rng_ready := ok, wk_world := (wk_world w)\<lparr>w_random := r\<rparr>\<rparr>"
  obtain f w1 where e: "fv_fido_execute W E channel rx ?w0 = (f, w1)" by (cases "fv_fido_execute W E channel rx ?w0")
  have "worker_inv ?w0" "\<not> wk_executing ?w0" using assms(3) by (auto simp: idle_def intro: worker_inv_cong)
  then have i1: "worker_inv w1 \<and> \<not> wk_executing w1 \<and> narrows ?w0 w1" by (rule fido_execute_idle [OF assms(1) e])
  obtain vw where w': "w' = w1\<lparr>wk_rng_ready := False, wk_world := vw\<rparr>" using assms(2) r e by (auto simp: worker_fido_def)
  have "worker_inv w'" using worker_inv_cong [of w1 w'] i1 w' by simp
  then show ?thesis using i1 w' by (simp add: idle_def narrows_def)
qed

lemma text_keeps: "keeps w (security_execute W H t w)"
proof -
  obtain d h where a: "w_authority (wk_world w) = (d, h)" by (cases "w_authority (wk_world w)")
  obtain v h1 where i: "fv_enrollment_inspect (of_otp H) (of_journal H) h = (v, h1)"
    by (cases "fv_enrollment_inspect (of_otp H) (of_journal H) h")
  let ?w1 = "w\<lparr>wk_world := (wk_world w)\<lparr>w_authority := (d, h1)\<rparr>\<rparr>"
  obtain q w2 where o: "token_open W H ?w1 = (q, w2)" by (cases "token_open W H ?w1")
  have k: "keeps w w2" by (rule keeps_trans [OF world_keeps token_open_keeps [OF o]])
  then have "keeps w (persistent_status W H w)"
    using keeps_trans [OF k world_keeps] by (simp add: persistent_status_def a i o)
  then show ?thesis by (simp add: security_execute_def usb_lock_keeps)
qed

lemma turn_idle:
  assumes "engine_law W E" "idle w"
  shows "idle (security_worker W E H c w) \<and> (narrows w (security_worker W E H c w) \<or>
    (\<exists>j. c = Some (Ui_Command j) \<and> job_op j = Some UI_UNLOCK \<and> sa_mode (wk_access (security_worker W E H c w)) = job_mode j))"
proof -
  obtain e w1 where e: "usb_timer_poll W w = (e, w1)" by (cases "usb_timer_poll W w")
  have i1: "idle w1" by (rule idle_keeps [OF assms(2) poll_keeps [OF e]])
  have n1: "narrows w w1" by (rule keepsD(3) [OF poll_keeps [OF e]])
  note k = keepsD(3) idle_keeps [OF i1]
  show ?thesis
  proof (cases c)
    case None
    then show ?thesis using i1 n1 e by (simp add: security_worker_def)
  next
    case (Some x)
    have s: "security_worker W E H c w = worker_command_run W E H x w1" using Some e by (simp add: security_worker_def)
    show ?thesis
    proof (cases x)
      case (Storage_Command rq)
      obtain resp buf w2 where r: "fv_usb_storage_execute W rq w1 = (resp, buf, w2)" by (cases "fv_usb_storage_execute W rq w1")
      then show ?thesis using k [OF storage_execute_keeps [OF r]] s Storage_Command narrows_trans [OF n1]
        by (simp add: worker_command_run_def)
    next
      case (Ui_Command j)
      obtain out w2 where r: "fv_device_ui_execute W E H j w1 = (out, w2)" by (cases "fv_device_ui_execute W E H j w1")
      then show ?thesis using ui_execute_idle [OF assms(1) r i1] s Ui_Command Some narrows_trans [OF n1]
        by (auto simp: worker_command_run_def)
    next
      case (Fido_Command channel rx)
      obtain fin w2 where r: "worker_fido W E channel rx w1 = (fin, w2)" by (cases "worker_fido W E channel rx w1")
      then show ?thesis using fido_request_idle [OF assms(1) r i1] s Fido_Command narrows_trans [OF n1]
        by (simp add: worker_command_run_def)
    next
      case (Text_Command t)
      then have "keeps w1 (security_worker W E H c w)" using text_keeps s by (simp add: worker_command_run_def)
      then show ?thesis using k narrows_trans [OF n1] by blast
    qed
  qed
qed

lemma boot_idle: "idle (worker_boot inputs prompts vw engine)"
  by (simp add: idle_def worker_boot_def worker_inv_defs timeout_boot_def fv_vault_lock_def)

lemma reachable_idle:
  assumes "engine_law W E" "worker_reachable W E H w"
  shows "idle w"
  using assms(2)
proof (induction rule: worker_reachable.induct)
  case (Card w d)
  then show ?case by (auto simp: idle_def intro: worker_inv_cong)
qed (simp_all add: boot_idle turn_idle [OF assms(1)])

lemma inv_mode: "worker_inv w \<Longrightarrow> usb_mode w = sa_mode (wk_access w)"
  by (cases "v_unlocked (wk_vault w)")
    (auto simp: worker_inv_def session_armed_def session_erased_def usb_mode_def fv_session_mode_def fv_access_valid_def)

text \<open>C9. A locked device holds nothing. In every state between two commands of the worker, for every history of
  USB requests, FIDO requests, jobs, bus events, button presses and card contents and every engine that obeys
  its law: the published generation is the session's; a locked session has an erased vault, no scope, a
  stopped timer and no user verification; an open session has a valid scope, and its timer runs for this
  generation with the timeout of its policy; and unless the session serves FIDO, the FIDO engine is closed,
  its store holds no keys, and no user verification is valid.\<close>

theorem locked_device_erased:
  assumes "engine_law W E" "worker_reachable W E H w"
  shows "\<not> wk_executing w \<and> wk_published w = sa_generation (wk_access w) \<and>
    (if v_unlocked (wk_vault w)
     then fv_access_valid (usb_mode w) \<and> to_generation (wk_timeout w) = sa_generation (wk_access w) \<and>
       timeout_seconds (to_timer (wk_timeout w)) = auto_lock_seconds (ec_policy (v_config (wk_vault w)))
     else wk_vault w = fv_vault_lock \<and> usb_mode w = FV_ACCESS_LOCKED \<and> sa_mode (wk_access w) = FV_ACCESS_LOCKED \<and>
       to_timer (wk_timeout w) = fv_session_timer_stop \<and> wk_verification w = fv_fido_verification_clear) \<and>
    (\<not> fv_access_fido (usb_mode w) \<longrightarrow>
       \<not> wk_engine_open w \<and> wk_store w = fv_fido_journal_close \<and> \<not> uv_valid (wk_verification w))"
proof -
  have i: "worker_inv w" "\<not> wk_executing w" using reachable_idle [OF assms] by (simp_all add: idle_def)
  note m = inv_mode [OF i(1)]
  show ?thesis
  proof (cases "v_unlocked (wk_vault w)")
    case True
    then show ?thesis using i m by (auto simp: worker_inv_def session_armed_def fido_live_def)
  next
    case False
    have "\<not> uv_valid fv_fido_verification_clear" by (simp add: fv_fido_verification_clear_def)
    then show ?thesis using False i m by (auto simp: worker_inv_def session_erased_def fido_live_def)
  qed
qed

text \<open>C10. Files are opened at the front panel only. One turn of the worker, whatever the command, leaves the
  session without access to files, or with the scope and generation it had before, or it executed an unlock
  job from the front panel that asked for exactly the scope that is now granted. So no USB or FIDO traffic, no
  credential given to a FIDO prompt, no expiry and no error ever opens files or widens read-only access.\<close>

theorem files_open_at_panel_only:
  assumes "engine_law W E" "worker_reachable W E H w" "w' = security_worker W E H c w"
  shows "usb_mode w' \<in> {FV_ACCESS_LOCKED, FV_ACCESS_PASSKEYS_ONLY} \<or>
    usb_mode w' = usb_mode w \<and> sa_generation (wk_access w') = sa_generation (wk_access w) \<or>
    (\<exists>j. c = Some (Ui_Command j) \<and> job_op j = Some UI_UNLOCK \<and> job_mode j = usb_mode w')"
proof -
  note i = reachable_idle [OF assms(1,2)]
  note t = turn_idle [OF assms(1) i, of H c, folded assms(3)]
  have m: "usb_mode w = sa_mode (wk_access w)" "usb_mode w' = sa_mode (wk_access w')"
    using i t by (simp_all add: idle_def inv_mode)
  have "usb_mode w' = FV_ACCESS_LOCKED \<or> fv_access_valid (usb_mode w')"
    by (auto simp: usb_mode_def fv_session_mode_def)
  then have "usb_mode w' \<in> {FV_ACCESS_LOCKED, FV_ACCESS_PASSKEYS_ONLY} \<or> fv_access_files (usb_mode w')"
    by (auto simp: fv_access_valid_def fv_access_files_def)
  then show ?thesis using t m by (auto simp: narrows_def)
qed

end
