(* ===== verification/Host_IO.thy ===== *)
theory Host_IO
  imports Worker_Correct
begin

text \<open>
  What a host can reach through USB mass storage: the worker's execution of one READ or WRITE batch
  (\<^verbatim>\<open>fv_usb_storage_execute\<close> of \<^verbatim>\<open>src/src/pico/device/commands.c\<close> over \<^verbatim>\<open>usb_vault_io.h\<close>), and the witnesses of the
  worker's properties on a concrete device.
\<close>

section \<open>One batch\<close>

definition request_authorised :: "fv_usb_request \<Rightarrow> ('a, 'd, 'r, 'e) worker \<Rightarrow> bool" where
  "request_authorised rq w \<longleftrightarrow>
     v_unlocked (wk_vault w) \<and> fv_access_files (usb_mode w) \<and> rq_generation rq = sa_generation (wk_access w) \<and>
     (rq_op rq = FV_USB_WRITE \<longrightarrow> fv_access_writable (usb_mode w)) \<and>
     unat (rq_lba rq) + unat (rq_count rq) \<le> unat (logical_blocks (ec_volume (v_config (wk_vault w)))) \<and>
     0 < unat (rq_count rq) \<and> unat (rq_count rq) \<le> 64 \<and> fst (rq_data rq) \<noteq> 0"

definition batch_io ::
  "('a, 'd, 'r, 'e) worker_lib \<Rightarrow> fv_usb_request \<Rightarrow> fv_vault \<times> ('a, 'd, 'r) vault_world
   \<Rightarrow> fv_block_result \<times> u8 list \<times> fv_vault \<times> ('a, 'd, 'r) vault_world" where
  "batch_io W rq =
     vault_io (wl_sha W) (wl_platform W) (rq_op rq = FV_USB_WRITE) (unat (rq_lba rq)) (unat (rq_count rq)) (rq_data rq)"

lemma unat_widen: "unat (ucast (x :: u32) :: u64) = unat x"
proof -
  have "unat x < 2 ^ 32" using unsigned_less [of x, where 'a = nat] by simp
  then show ?thesis by (simp add: unsigned_ucast_eq take_bit_eq_mod)
qed

lemma batch_range:
  fixes lba cnt :: u32 and blocks :: u64
  assumes "0 < unat cnt"
  shows "(ucast lba \<ge> blocks \<or> ucast cnt > blocks - ucast lba) = (\<not> unat lba + unat cnt \<le> unat blocks)"
proof (cases "ucast lba \<ge> blocks")
  case True
  then have "unat blocks \<le> unat lba" by (simp add: word_le_nat_alt unat_widen)
  then show ?thesis using True assms by auto
next
  case False
  have l: "unat (ucast lba :: u64) = unat lba" "unat (ucast cnt :: u64) = unat cnt" by (rule unat_widen)+
  then have "unat (blocks - ucast lba) = unat blocks - unat lba" using False by (subst unat_sub) (simp_all add: word_le_nat_alt)
  then show ?thesis using False l by (auto simp: word_less_nat_alt word_le_nat_alt)
qed

text \<open>The gate in front of the vault.\<close>

lemma usb_vault_io_gate:
  assumes "rq_op rq \<in> {FV_USB_READ, FV_USB_WRITE}"
  shows "\<not> request_authorised rq w \<Longrightarrow>
      \<exists>r. r \<noteq> FV_BLOCK_OK \<and> fv_usb_vault_io W rq (usb_mode w) (sa_generation (wk_access w)) (wk_vault w, wk_world w) =
        (r, snd (rq_data rq), wk_vault w, wk_world w)"
    and "request_authorised rq w \<Longrightarrow>
      fv_usb_vault_io W rq (usb_mode w) (sa_generation (wk_access w)) (wk_vault w, wk_world w) = batch_io W rq (wk_vault w, wk_world w)"
proof -
  have z: "rq_count rq = 0 \<longleftrightarrow> unat (rq_count rq) = 0" by (simp add: unat_eq_0)
  have s: "FV_USB_IO_BYTES div 512 = 64" by (simp add: FV_USB_IO_BYTES_def)
  show "\<exists>r. r \<noteq> FV_BLOCK_OK \<and> fv_usb_vault_io W rq (usb_mode w) (sa_generation (wk_access w)) (wk_vault w, wk_world w) =
      (r, snd (rq_data rq), wk_vault w, wk_world w)" if "\<not> request_authorised rq w"
    using that assms batch_range [where cnt = "rq_count rq" and lba = "rq_lba rq" and blocks = "logical_blocks (ec_volume (v_config (wk_vault w)))"]
    unfolding fv_usb_vault_io_def prod.case Let_def s z request_authorised_def by (auto simp: not_le)
  show "fv_usb_vault_io W rq (usb_mode w) (sa_generation (wk_access w)) (wk_vault w, wk_world w) = batch_io W rq (wk_vault w, wk_world w)"
    if "request_authorised rq w"
    using that assms batch_range [where cnt = "rq_count rq" and lba = "rq_lba rq" and blocks = "logical_blocks (ec_volume (v_config (wk_vault w)))"]
    unfolding fv_usb_vault_io_def prod.case Let_def s z request_authorised_def batch_io_def
    by (auto simp: fv_vault_read_def fv_vault_write_def not_le)
qed

text \<open>What sector I/O leaves in the buffer.\<close>

lemma batch_io_buffer:
  assumes "batch_io W rq (v, vw) = (r, out, v', vw')" "length (snd (rq_data rq)) = unat (rq_count rq) * 512"
  shows "length out = unat (rq_count rq) * 512 \<and>
    (r \<noteq> FV_BLOCK_OK \<longrightarrow> out = snd (rq_data rq) \<or> out = zeros (unat (rq_count rq) * 512)) \<and>
    (r = FV_BLOCK_OK \<and> rq_op rq = FV_USB_WRITE \<longrightarrow> out = zeros (unat (rq_count rq) * 512))"
proof -
  let ?n = "unat (rq_count rq)"
  obtain a buf where d: "rq_data rq = (a, buf)" by (cases "rq_data rq")
  show ?thesis
  proof (cases "a \<noteq> 0 \<and> a mod 4 = 0 \<and> 0 < ?n \<and> ?n \<le> FV_AUTH_MAX_BATCH_SECTORS")
    case False
    then show ?thesis using assms d by (auto simp: batch_io_def vault_io_def)
  next
    case True
    then have p: "a \<noteq> 0" "a mod 4 = 0" "0 < ?n" "?n \<le> FV_AUTH_MAX_BATCH_SECTORS" by simp_all
    obtain b v1 w1 where i: "io_done (rq_op rq = FV_USB_WRITE) ?n r b v1 w1 = (r, out, v', vw')" "length b = ?n * 512"
      using vault_io_done [OF assms(1) [unfolded batch_io_def d] assms(2) [unfolded d snd_conv] p] by blast
    have "length out = ?n * 512" using i by (auto simp: io_done_def memset_zero)
    then show ?thesis using io_done_fails [OF i] by auto
  qed
qed

lemma after_io_world: "wk_world (after_io W r w) = wk_world w"
  by (simp add: after_io_def Let_def usb_lock_locked)

text \<open>The steps of one batch after the entry.\<close>

lemma storage_io_cases:
  assumes "storage_io W rq w = (result, out, w')"
    "fv_usb_vault_io W rq (usb_mode w) (sa_generation (wk_access w)) (wk_vault w, wk_world w) = (r, b, v, vw)"
    "rq_op rq \<in> {FV_USB_READ, FV_USB_WRITE}"
  shows "wk_world w' = vw \<and>
    (r = result \<and> out = b \<or> r = FV_BLOCK_OK \<and> result = FV_BLOCK_ERROR_NOT_READY \<and> out = memset b 0 0 (unat (rq_count rq) * 512))"
proof -
  define w1 where "w1 = after_io W r (w\<lparr>wk_vault := v, wk_world := vw\<rparr>)"
  have x: "wk_world w1 = vw" by (simp add: w1_def after_io_world)
  obtain e w2 where t: "usb_timer_activity W (sa_generation (wk_access w1)) w1 = (e, w2)"
    by (cases "usb_timer_activity W (sa_generation (wk_access w1)) w1")
  have y: "wk_world w2 = vw"
  proof (cases e)
    case True
    then show ?thesis using t timer_expired(2) x unfolding usb_timer_activity_def by metis
  next
    case False
    then show ?thesis using t timer_frame(3) x unfolding usb_timer_activity_def by metis
  qed
  show ?thesis
    using assms(1) unfolding storage_io_after assms(2) prod.case Let_def w1_def [symmetric] t
    using x y by (auto split: if_splits)
qed

lemma storage_enter_world: "wk_world (storage_enter W w) = wk_world w"
proof -
  obtain e w1 where e: "usb_timer_poll W w = (e, w1)" by (cases "usb_timer_poll W w")
  obtain i w2 where i: "fv_usb_session_invalidated w1 = (i, w2)" by (cases "fv_usb_session_invalidated w1")
  have "wk_world w1 = wk_world w"
    using e timer_expired(2) [of W fv_session_timeout_poll "sa_generation (wk_access w)" w w1]
      timer_frame(3) [of W fv_session_timeout_poll "sa_generation (wk_access w)" w w1]
    by (cases e) (simp_all add: usb_timer_poll_def)
  moreover have "wk_world w2 = wk_world w1" using shared_reads(2) [OF i] by (auto simp: core0_frame)
  ultimately show ?thesis using e i by (simp add: storage_enter_def usb_lock_locked)
qed

text \<open>A deadline that has passed, or a bus event, locks before the request is looked at.\<close>

lemma storage_enter_locks:
  assumes "usb_timer_poll W w = (e, w1)" "fv_usb_session_invalidated w1 = (i, w2)" "e \<or> i"
  shows "wk_vault (storage_enter W w) = fv_vault_lock"
proof (cases i)
  case True
  then show ?thesis using assms by (simp add: storage_enter_def usb_lock_locked)
next
  case False
  then have "e" using assms(3) by simp
  then have "wk_vault w1 = fv_vault_lock"
    using assms(1) timer_expired(1) [of W fv_session_timeout_poll "sa_generation (wk_access w)" w w1] by (simp add: usb_timer_poll_def)
  moreover have "wk_vault w2 = wk_vault w1" using shared_reads(2) [OF assms(2)] by (auto simp: core0_frame)
  ultimately show ?thesis using assms(1,2) False by (simp add: storage_enter_def)
qed

lemma storage_batch:
  assumes "fv_usb_storage_execute W rq w = (resp, out, w')" "rq_op rq \<in> {FV_USB_READ, FV_USB_WRITE}"
    "length (snd (rq_data rq)) = unat (rq_count rq) * 512"
    "disk_law (vp_sd (wl_platform W)) cells" "digest_law (wl_sha W)"
  shows "(usb_timer_poll W w = (e, w0) \<and> fv_usb_session_invalidated w0 = (i, w1) \<and> (e \<or> i) \<longrightarrow> rs_result resp \<noteq> FV_BLOCK_OK) \<and>
    (\<not> request_authorised rq (storage_enter W w) \<longrightarrow>
       rs_result resp \<noteq> FV_BLOCK_OK \<and> out = snd (rq_data rq) \<and> wk_world w' = wk_world w) \<and>
    (rs_result resp \<noteq> FV_BLOCK_OK \<longrightarrow> out = snd (rq_data rq) \<or> out = zeros (unat (rq_count rq) * 512)) \<and>
    (rs_result resp = FV_BLOCK_OK \<longrightarrow> request_authorised rq (storage_enter W w) \<and>
       (\<exists>v. batch_io W rq (wk_vault (storage_enter W w), wk_world w) = (FV_BLOCK_OK, out, v, wk_world w') \<and>
          (vault_inv (wl_platform W) cells (wk_vault (storage_enter W w), wk_world w) \<longrightarrow>
             (rq_op rq = FV_USB_READ \<longrightarrow> (\<forall>k < unat (rq_count rq).
                vault_sector (wl_sha W) cells (wk_vault (storage_enter W w), wk_world w) (unat (rq_lba rq) + k) =
                  Some (span out (k * 512) 512))) \<and>
             (rq_op rq = FV_USB_WRITE \<longrightarrow> out = zeros (unat (rq_count rq) * 512) \<and> (\<forall>k < unat (rq_count rq).
                vault_sector (wl_sha W) cells (v, wk_world w') (unat (rq_lba rq) + k) =
                  Some (span (snd (rq_data rq)) (k * 512) 512))))))"
proof -
  let ?w = "storage_enter W w"
  obtain result where io: "storage_io W rq ?w = (result, out, w')" "rs_result resp = result"
    using assms(1,2) by (auto simp: fv_usb_storage_execute_def Let_def storage_response_def split: prod.splits)
  obtain r b v vw where u: "fv_usb_vault_io W rq (usb_mode ?w) (sa_generation (wk_access ?w)) (wk_vault ?w, wk_world ?w) = (r, b, v, vw)"
    by (cases "fv_usb_vault_io W rq (usb_mode ?w) (sa_generation (wk_access ?w)) (wk_vault ?w, wk_world ?w)")
  note c = storage_io_cases [OF io(1) u assms(2)]
  note g = usb_vault_io_gate [OF assms(2), of ?w W]
  have world: "wk_world ?w = wk_world w" by (rule storage_enter_world)
  show ?thesis
  proof (cases "request_authorised rq ?w")
    case False
    then have n: "r \<noteq> FV_BLOCK_OK" "b = snd (rq_data rq)" "vw = wk_world w" using g(1) u world by auto
    then show ?thesis using c False io(2) by auto
  next
    case True
    then have bio: "batch_io W rq (wk_vault ?w, wk_world w) = (r, b, v, vw)" using g(2) u world by simp
    note buf = batch_io_buffer [OF bio assms(3)]
    have fails: "result \<noteq> FV_BLOCK_OK \<longrightarrow> out = snd (rq_data rq) \<or> out = zeros (unat (rq_count rq) * 512)"
      using c buf memset_zero by auto
    have locked: "\<not> (usb_timer_poll W w = (e, w0) \<and> fv_usb_session_invalidated w0 = (i, w1) \<and> (e \<or> i))"
      using storage_enter_locks [of W w e w0 i w1] True by (auto simp: request_authorised_def)
    have ok: "\<exists>v. batch_io W rq (wk_vault ?w, wk_world w) = (FV_BLOCK_OK, out, v, wk_world w') \<and>
          (vault_inv (wl_platform W) cells (wk_vault ?w, wk_world w) \<longrightarrow>
             (rq_op rq = FV_USB_READ \<longrightarrow> (\<forall>k < unat (rq_count rq).
                vault_sector (wl_sha W) cells (wk_vault ?w, wk_world w) (unat (rq_lba rq) + k) = Some (span out (k * 512) 512))) \<and>
             (rq_op rq = FV_USB_WRITE \<longrightarrow> out = zeros (unat (rq_count rq) * 512) \<and> (\<forall>k < unat (rq_count rq).
                vault_sector (wl_sha W) cells (v, wk_world w') (unat (rq_lba rq) + k) = Some (span (snd (rq_data rq)) (k * 512) 512))))"
      if res: "result = FV_BLOCK_OK"
    proof -
      have x: "batch_io W rq (wk_vault ?w, wk_world w) = (FV_BLOCK_OK, out, v, wk_world w')" using bio c res by auto
      obtain a dat where d: "rq_data rq = (a, dat)" by (cases "rq_data rq")
      have "?thesis" if inv: "vault_inv (wl_platform W) cells (wk_vault ?w, wk_world w)"
      proof -
        have i: "vault_disk_inv (wl_sha W) (wl_platform W) cells (wk_vault ?w, wk_world w)" using inv assms(4,5) by (simp add: vault_disk_inv_def)
        have l: "length dat = unat (rq_count rq) * 512" using assms(3) d by simp
        have rd: "\<forall>k < unat (rq_count rq).
            vault_sector (wl_sha W) cells (wk_vault ?w, wk_world w) (unat (rq_lba rq) + k) = Some (span out (k * 512) 512)"
          if "rq_op rq = FV_USB_READ"
          using vault_disk.read_ok [OF i l, of "unat (rq_lba rq)" a out "(v, wk_world w')"] x d that
          by (simp add: batch_io_def fv_vault_read_def)
        have wr: "\<forall>k < unat (rq_count rq). vault_sector (wl_sha W) cells (v, wk_world w') (unat (rq_lba rq) + k) = Some (span dat (k * 512) 512)"
          if "rq_op rq = FV_USB_WRITE"
        proof -
          have "unat (rq_lba rq) + unat (rq_count rq) \<le> vault_blocks (wk_vault ?w, wk_world w) \<and>
              (\<forall>y < vault_blocks (wk_vault ?w, wk_world w). vault_sector (wl_sha W) cells (v, wk_world w') y =
                 (if unat (rq_lba rq) \<le> y \<and> y < unat (rq_lba rq) + unat (rq_count rq)
                  then Some (span dat ((y - unat (rq_lba rq)) * 512) 512) else vault_sector (wl_sha W) cells (wk_vault ?w, wk_world w) y))"
            using vault_disk.write_ok [OF i l, of "unat (rq_lba rq)" a out "(v, wk_world w')"] x d that
            by (simp add: batch_io_def fv_vault_write_def)
          then show ?thesis by auto
        qed
        have "rq_op rq = FV_USB_WRITE \<longrightarrow> out = zeros (unat (rq_count rq) * 512)" using buf c res by auto
        then show ?thesis using x rd wr d by auto
      qed
      then show ?thesis using x by blast
    qed
    show ?thesis using True fails locked ok io(2) by auto
  qed
qed

text \<open>C6. A host reaches the card only through an authorised request. Let one READ or WRITE batch be executed in
  any state of the worker. If the deadline had passed or a bus event was pending, it fails. Unless, after
  those checks, the session is open for files under the request's generation, the request lies in the volume
  and has at most 64 sectors, and a WRITE has a writable scope, it fails, touches neither card nor buffer. If
  it succeeds, the vault performed exactly this batch: a WRITE has erased the caller's plaintext, and the
  plaintext view of the disk is, in terms of the vault's refinement, what was read or written. If it fails,
  the buffer holds what it held before or zeros, even when the deadline passed during the transfer.\<close>

theorem host_io_authorised:
  assumes "fv_usb_storage_execute W rq w = (resp, out, w')" "rq_op rq \<in> {FV_USB_READ, FV_USB_WRITE}"
    "length (snd (rq_data rq)) = unat (rq_count rq) * 512"
    "disk_law (vp_sd (wl_platform W)) cells" "digest_law (wl_sha W)"
  shows "(usb_timer_poll W w = (e, w0) \<and> fv_usb_session_invalidated w0 = (i, w1) \<and> (e \<or> i) \<longrightarrow> rs_result resp \<noteq> FV_BLOCK_OK) \<and>
    (\<not> request_authorised rq (storage_enter W w) \<longrightarrow>
       rs_result resp \<noteq> FV_BLOCK_OK \<and> out = snd (rq_data rq) \<and> wk_world w' = wk_world w) \<and>
    (rs_result resp \<noteq> FV_BLOCK_OK \<longrightarrow> out = snd (rq_data rq) \<or> out = zeros (unat (rq_count rq) * 512)) \<and>
    (rs_result resp = FV_BLOCK_OK \<longrightarrow> request_authorised rq (storage_enter W w) \<and>
       (\<exists>v. batch_io W rq (wk_vault (storage_enter W w), wk_world w) = (FV_BLOCK_OK, out, v, wk_world w') \<and>
          (vault_inv (wl_platform W) cells (wk_vault (storage_enter W w), wk_world w) \<longrightarrow>
             (rq_op rq = FV_USB_READ \<longrightarrow> (\<forall>k < unat (rq_count rq).
                vault_sector (wl_sha W) cells (wk_vault (storage_enter W w), wk_world w) (unat (rq_lba rq) + k) =
                  Some (span out (k * 512) 512))) \<and>
             (rq_op rq = FV_USB_WRITE \<longrightarrow> out = zeros (unat (rq_count rq) * 512) \<and> (\<forall>k < unat (rq_count rq).
                vault_sector (wl_sha W) cells (v, wk_world w') (unat (rq_lba rq) + k) =
                  Some (span (snd (rq_data rq)) (k * 512) 512))))))"
  by (rule storage_batch [OF assms])

section \<open>The properties at work\<close>

text \<open>A silent core 0, prompts that are refused, and libraries that do nothing of their own.\<close>

definition quiet_core0 :: core0_input where
  "quiet_core0 = \<lparr>c0_now_ms = 0, c0_invalidate = False, c0_cancel = False, c0_enumerated = None, c0_activity = []\<rparr>"

definition refused_prompt :: prompt_input where
  "refused_prompt = \<lparr>pi_waiting = [], pi_approved = False, pi_value = [], pi_length = 0, pi_drained = None, pi_dismissing = []\<rparr>"

definition test_lib :: "('a, 'd, 'r) fv_vault_platform \<Rightarrow> ('a, 'd, 'r, unit) worker_lib" where
  "test_lib p = \<lparr>wl_sha = test_sha, wl_ciphers = test_ciphers, wl_platform = p, wl_sd_init = Pair True, wl_sd_reinitialize = Pair True,
     wl_start_random = Pair True, wl_random_clear = id, wl_rp_name = (\<lambda>_ _. None), wl_engine_close = id\<rparr>"

text \<open>An engine that asks for the presence of the user and then answers.\<close>

definition test_engine :: "('a, 'd, 'r, unit) worker_lib \<Rightarrow> ('a, 'd, 'r, unit) fido_engine" where
  "test_engine W = \<lparr>en_open = (\<lambda>_ _ w. (True, w)), en_uv_policy = (\<lambda>m w. (Some 0, w)), en_manage = (\<lambda>_ x w. (True, x, w)),
     en_info = (\<lambda>_. (1, zeros 4096)), en_command = (\<lambda>_ _ w. ((1, zeros 4096), snd (presence W w)))\<rparr>"

lemma test_engine_law: "engine_law W (test_engine W)"
  by (simp add: engine_law_def test_engine_def r_into_rtranclp request_callback.Presence)

text \<open>A session with full access to the test vault, and a write of three sectors.\<close>

definition open_worker :: "(unit, nat \<Rightarrow> u8 list, unit, unit) worker" where
  "open_worker = (worker_boot (\<lambda>_. quiet_core0) (\<lambda>_. refused_prompt) test_world ())
     \<lparr>wk_vault := test_vault, wk_access := \<lparr>sa_mode = FV_ACCESS_FULL, sa_generation = 1\<rparr>, wk_published := 1,
      wk_timeout := timeout_boot\<lparr>to_generation := 1\<rparr>\<rparr>"

definition write_request :: fv_usb_request where
  "write_request = \<lparr>rq_op = FV_USB_WRITE, rq_lba = 14, rq_count = 3, rq_generation = 1, rq_data = (4, replicate 1536 9)\<rparr>"

lemma open_worker_enter: "\<exists>w1. storage_enter (test_lib test_platform) open_worker = w1 \<and> wk_vault w1 = test_vault \<and>
    wk_access w1 = \<lparr>sa_mode = FV_ACCESS_FULL, sa_generation = 1\<rparr> \<and> wk_world w1 = test_world \<and>
    wk_timeout w1 = timeout_boot\<lparr>to_generation := 1\<rparr> \<and> wk_core0 w1 = (\<lambda>_. quiet_core0)"
  by (simp add: storage_enter_def usb_timer_poll_def worker_timer_def time_ms_def core0_def Let_def open_worker_def worker_boot_def
      quiet_core0_def timeout_boot_def fv_session_timeout_poll_def fv_session_timer_expired_def take_local_activity_def
      take_event_def timeout_show_def fv_session_timer_remaining_def fv_usb_session_invalidated_def)

lemma open_worker_write:
  "\<exists>resp w'. fv_usb_storage_execute (test_lib test_platform) write_request open_worker = (resp, zeros 1536, w') \<and>
     rs_result resp = FV_BLOCK_OK \<and> rs_unlocked resp \<and> rs_generation resp = 1 \<and> rs_mode resp = FV_ACCESS_FULL"
proof -
  let ?W = "test_lib test_platform" and ?w = "storage_enter (test_lib test_platform) open_worker"
  have w: "wk_vault ?w = test_vault" "wk_access ?w = \<lparr>sa_mode = FV_ACCESS_FULL, sa_generation = 1\<rparr>" "wk_world ?w = test_world"
    "wk_timeout ?w = timeout_boot\<lparr>to_generation := 1\<rparr>" "wk_core0 ?w = (\<lambda>_. quiet_core0)"
    using open_worker_enter by auto
  have m: "usb_mode ?w = FV_ACCESS_FULL" "v_unlocked test_vault" "logical_blocks (ec_volume (v_config test_vault)) = 100"
    using w by (simp_all add: usb_mode_def fv_session_mode_def fv_access_valid_def test_vault_def)
  obtain v vw where v: "fv_vault_write test_sha test_platform 14 3 (4, replicate 1536 9) (test_vault, test_world) =
      (FV_BLOCK_OK, zeros 1536, v, vw)" using test_vault_write by auto
  have i: "vault_disk_inv test_sha test_platform ram_cells (test_vault, test_world)"
    using test_vault_inv by (simp add: vault_disk_inv_def test_platform_def disk_law_ram digest_law_test_sha)
  have "vault_disk_inv test_sha test_platform ram_cells (v, vw)" using vault_disk.write_ok [OF i _ v] by simp
  then have u: "v_unlocked v" by (simp add: vault_disk_inv_def vault_inv_def)
  have a: "request_authorised write_request ?w"
    using w m by (simp add: request_authorised_def write_request_def fv_access_files_def fv_access_writable_def)
  have g: "fv_usb_vault_io ?W write_request (usb_mode ?w) (sa_generation (wk_access ?w)) (wk_vault ?w, wk_world ?w) =
      (FV_BLOCK_OK, zeros 1536, v, vw)"
    using usb_vault_io_gate(2) [OF _ a, of ?W] v w by (simp add: batch_io_def write_request_def test_lib_def fv_vault_write_def)
  define w1 where "w1 = after_io ?W FV_BLOCK_OK (?w\<lparr>wk_vault := v, wk_world := vw\<rparr>)"
  have "w1 = ?w\<lparr>wk_vault := v, wk_world := vw\<rparr>" using u by (simp add: w1_def after_io_def)
  then have f: "wk_timeout w1 = timeout_boot\<lparr>to_generation := 1\<rparr>" "wk_core0 w1 = (\<lambda>_. quiet_core0)" "sa_generation (wk_access w1) = 1"
    "wk_vault w1 = v" "wk_access w1 = \<lparr>sa_mode = FV_ACCESS_FULL, sa_generation = 1\<rparr>"
    using w by simp_all
  obtain w2 where t: "usb_timer_activity ?W (sa_generation (wk_access w1)) w1 = (False, w2)"
    and w2: "wk_vault w2 = v" "wk_access w2 = \<lparr>sa_mode = FV_ACCESS_FULL, sa_generation = 1\<rparr>"
    using f by (simp add: usb_timer_activity_def worker_timer_def time_ms_def core0_def Let_def quiet_core0_def timeout_boot_def
        fv_session_timeout_activity_def fv_session_timeout_poll_def fv_session_timer_expired_def take_local_activity_def take_event_def
        timeout_show_def timeout_touch_def fv_session_timer_remaining_def)
  have "storage_io ?W write_request ?w = (FV_BLOCK_OK, zeros 1536, w2)"
    unfolding storage_io_after g prod.case Let_def w1_def [symmetric] t by (simp add: write_request_def)
  then show ?thesis using w2 u
    by (simp add: fv_usb_storage_execute_def write_request_def storage_response_def usb_mode_def fv_session_mode_def fv_access_valid_def)
qed

lemma host_io_authorised_witness:
  "\<exists>resp w' v. fv_usb_storage_execute (test_lib test_platform) write_request open_worker = (resp, zeros 1536, w') \<and>
     rs_result resp = FV_BLOCK_OK \<and> request_authorised write_request (storage_enter (test_lib test_platform) open_worker) \<and>
     vault_sector test_sha ram_cells (v, wk_world w') 15 = Some (replicate 512 9)"
proof -
  obtain resp w' where x: "fv_usb_storage_execute (test_lib test_platform) write_request open_worker = (resp, zeros 1536, w')"
    "rs_result resp = FV_BLOCK_OK" using open_worker_write by blast
  have law: "disk_law (vp_sd (wl_platform (test_lib test_platform))) ram_cells" "digest_law (wl_sha (test_lib test_platform))"
    by (simp_all add: test_lib_def test_platform_def disk_law_ram digest_law_test_sha)
  have inv: "vault_inv (wl_platform (test_lib test_platform)) ram_cells
      (wk_vault (storage_enter (test_lib test_platform) open_worker), wk_world open_worker)"
    using open_worker_enter test_vault_inv by (auto simp: test_lib_def open_worker_def worker_boot_def)
  have rq: "rq_op write_request \<in> {FV_USB_READ, FV_USB_WRITE}" "length (snd (rq_data write_request)) = unat (rq_count write_request) * 512"
    by (simp_all add: write_request_def)
  obtain v where v: "request_authorised write_request (storage_enter (test_lib test_platform) open_worker)"
    "\<forall>k < unat (rq_count write_request). vault_sector (wl_sha (test_lib test_platform)) ram_cells (v, wk_world w')
       (unat (rq_lba write_request) + k) = Some (span (snd (rq_data write_request)) (k * 512) 512)"
    using host_io_authorised [OF x(1) rq law, THEN conjunct2, THEN conjunct2, THEN conjunct2, THEN mp, OF x(2)] inv
    by (auto simp: write_request_def)
  have "vault_sector test_sha ram_cells (v, wk_world w') 15 = Some (replicate 512 9)"
    using v(2) [THEN spec, of 1] by (simp add: write_request_def test_lib_def span_def)
  then show ?thesis using x v(1) by blast
qed

text \<open>A device after a LOCK, and after a FIDO request.\<close>

abbreviation device_lib :: "(u8 list, nat \<Rightarrow> u8 list, unit, unit) device_lib" where
  "device_lib \<equiv> test_lib test_enrolled_platform"

abbreviation device_hardware :: "u8 list otp_flash" where
  "device_hardware \<equiv> \<lparr>of_otp = test_otp, of_journal = ram_flash\<rparr>"

definition device_boot :: "(u8 list, nat \<Rightarrow> u8 list, unit, unit) device_worker" where
  "device_boot = worker_boot (\<lambda>_. quiet_core0) (\<lambda>_. refused_prompt)
     \<lparr>w_authority = (test_device, []), w_sd = blank, w_random = ()\<rparr> ()"

lemma device_reachable: "worker_reachable device_lib (test_engine device_lib) device_hardware
    (security_worker device_lib (test_engine device_lib) device_hardware (Some c) device_boot)"
  unfolding device_boot_def by (rule worker_reachable.Turn [OF worker_reachable.Boot])

lemma locked_device_erased_witness:
  "\<exists>w. w = security_worker device_lib (test_engine device_lib) device_hardware (Some (Text_Command ''LOCK'')) device_boot \<and>
     wk_published w = sa_generation (wk_access w) \<and> to_timer (wk_timeout w) = fv_session_timer_stop \<and>
     wk_store w = fv_fido_journal_close \<and> \<not> wk_engine_open w"
proof -
  define w where "w = security_worker device_lib (test_engine device_lib) device_hardware (Some (Text_Command ''LOCK'')) device_boot"
  have l: "\<not> v_unlocked (wk_vault w)"
    by (auto simp: w_def security_worker_def worker_command_run_def security_execute_def usb_lock_locked split: prod.splits)
  then have "\<not> fv_access_fido (usb_mode w)" by (simp add: usb_mode_def fv_session_mode_def fv_access_fido_def)
  then show ?thesis
    using locked_device_erased [OF test_engine_law device_reachable, of "Text_Command ''LOCK''", folded w_def] l
    by (auto simp: w_def [symmetric])
qed

lemma files_open_at_panel_only_witness:
  "usb_mode (security_worker device_lib (test_engine device_lib) device_hardware (Some (Fido_Command 1 [4]))
     (security_worker device_lib (test_engine device_lib) device_hardware (Some (Text_Command ''LOCK'')) device_boot))
   \<in> {FV_ACCESS_LOCKED, FV_ACCESS_PASSKEYS_ONLY}"
proof -
  define w where "w = security_worker device_lib (test_engine device_lib) device_hardware (Some (Text_Command ''LOCK'')) device_boot"
  have "\<not> v_unlocked (wk_vault w)"
    by (auto simp: w_def security_worker_def worker_command_run_def security_execute_def usb_lock_locked split: prod.splits)
  then have "usb_mode w = FV_ACCESS_LOCKED" by (simp add: usb_mode_def fv_session_mode_def)
  then show ?thesis
    using files_open_at_panel_only [OF test_engine_law device_reachable [of "Text_Command ''LOCK''", folded w_def] refl,
        of "Some (Fido_Command 1 [4])"] by (auto simp: w_def)
qed

end
