(* ===== verification/Usb_Storage.thy ===== *)
theory Usb_Storage
  imports Usb_Transfer Host_IO
begin

text \<open>
  What USB mass storage promises (\<^verbatim>\<open>src/src/pico/device/usb_storage.c\<close>), over every behaviour of the worker, the
  bus, the host and the rest of core 0; and, with the worker's model as the other end of the queue, that a host
  reads the plaintext of the open vault.
\<close>

lemma transfer_gate_keeps:
  assumes "pipe_inv s d" "sized (us_turns s)" "transfer_gate s = (current, s')"
  shows "keeps_or_ends d s s'"
proof -
  obtain i s1 where l: "load_invalidate (fv_usb_storage_poll s) = (i, s1)" by (cases "load_invalidate (fv_usb_storage_poll s)")
  obtain g s2 where u: "fv_usb_session_generation s1 = (g, s2)" by (cases "fv_usb_session_generation s1")
  have k: "keeps_or_ends d s s1"
    using keeps_or_ends_then [OF storage_poll_keeps [OF assms(1,2)]] loads_interrupted(1) [OF l] by blast
  have "keeps_or_ends d s s2" using keeps_or_ends_then [OF k] loads_interrupted(2) [OF u] by blast
  then show ?thesis using assms(3) k by (auto simp: transfer_gate_def l u split: if_splits)
qed

lemma transfer_revoked_inv:
  assumes "run_inv turns s (Retry k) c h" "sized turns" "transfer_revoked lun buffer bytes write s = (n, s')"
  shows "n \<le> 0 \<and> run_inv turns s' (phase_after k n) c h"
proof -
  obtain d g where p: "us_turns s = turns" "pipe_inv s d" "command_inv (Retry k) c h d g s" using assms(1) by (auto simp: run_inv_def)
  obtain settled s1 where hv: "(if us_pending s then harvest s else (True, s)) = (settled, s1)"
    by (cases "if us_pending s then harvest s else (True, s)")
  have "settles d s s1"
    using hv harvest_settles(1) [OF p(2) _ _, of settled s1] settles_refl [OF p(2)] assms(2) p(1) by (auto split: if_splits)
  then have "keeps_or_ends d s s1" by (rule keeps_or_endsI)
  then have r1: "run_inv turns s1 (Retry k) c h" using keeps_command [OF _ p(3,1)] unfolding run_inv_def by blast
  have e: "run_inv turns (snd (io_error lun FV_BLOCK_ERROR_NOT_READY write (wipe buffer bytes (clear_pipeline s1)))) Failed c h"
    using run_inv_interrupted [OF failed_inv [OF clear_inv [OF r1 assms(2)]] bookkeeping(8) assms(2)] unfolding wipe_def .
  show ?thesis
  proof (cases settled)
    case True
    then have "n = - 1" "s' = snd (io_error lun FV_BLOCK_ERROR_NOT_READY write (wipe buffer bytes (clear_pipeline s1)))"
      using assms(3) unfolding transfer_revoked_def hv by (simp_all add: io_error_def)
    then show ?thesis using e by (simp add: phase_after_def)
  next
    case False
    then show ?thesis using assms(3) r1 unfolding transfer_revoked_def hv by (simp add: phase_after_def)
  qed
qed

lemma transfer_inv:
  assumes "run_inv turns s ph c h" "sized turns" "ph = Next \<or> ph = Retry k"
    "unat (tc_bytes k) \<le> length (us_memory s (tc_buffer k))"
    "transfer lun (tc_lba k) (tc_offset k) (tc_buffer k) (tc_bytes k) (tc_write k) s = (n, s')"
  shows "run_inv turns s' (phase_after k n) c (pieces_after k n s s' h)"
proof -
  let ?b = "tc_bytes k" and ?a = "tc_buffer k" and ?w = "tc_write k"
  obtain ok s1 where l: "valid_lun lun s = (ok, s1)" by (cases "valid_lun lun s")
  have i1: "interrupted s s1" by (rule after_lun [OF l])
  have err: "run_inv turns (snd (io_error lun e ?w s'')) Failed c h" if "run_inv turns s'' ph' c h" for e s'' ph'
    by (rule failed_same [OF run_inv_interrupted [OF that bookkeeping(8) assms(2)]])
  have fail: "?thesis" if "n = - 1" "run_inv turns s' Failed c h" using that by (simp add: phase_after_def pieces_after_def)
  have r1: "run_inv turns s1 ph c h" by (rule run_inv_interrupted [OF assms(1) i1 assms(2)])
  show ?thesis
  proof (cases "\<not> ok \<or> ?a = 0 \<or> ?b = 0 \<or> unat ?b > FV_USB_IO_BYTES \<or> ?b mod 512 \<noteq> 0 \<or> tc_offset k mod 512 \<noteq> 0")
    case True
    then have "n = - 1 \<and> (s' = s1 \<or> s' = snd (io_error lun FV_BLOCK_ERROR_INVALID_ARGUMENT ?w s1))"
      using assms(5) unfolding transfer_def l by (auto simp: io_error_def split: if_splits)
    then show ?thesis using fail err [OF r1] failed_same [OF r1] by auto
  next
    case False
    then have b: "0 < unat ?b" "unat ?b \<le> FV_USB_IO_BYTES" "?b mod 512 = 0" by (simp_all add: unat_gt_0)
    define s2 where "s2 = remember_buffer ?a ?b s1"
    have i2: "interrupted s s2" using i1 bookkeeping(9) unfolding s2_def by (rule interrupted_trans)
    obtain current s3 where g: "transfer_gate s2 = (current, s3)" by (cases "transfer_gate s2")
    have r2: "run_inv turns s2 (Retry k) c h" by (rule retry_inv [OF run_inv_interrupted [OF assms(1) i2 assms(2)] assms(3) b(2)])
    obtain d gen where p: "us_turns s2 = turns" "pipe_inv s2 d" "command_inv (Retry k) c h d gen s2" using r2 by (auto simp: run_inv_def)
    have kg: "keeps_or_ends d s2 s3" using transfer_gate_keeps [OF p(2) _ g] assms(2) p(1) by simp
    have r3: "run_inv turns s3 (Retry k) c h" using keeps_command [OF kg p(3,1)] unfolding run_inv_def by blast
    have m3: "us_command_active s3 \<Longrightarrow> us_memory s3 = us_memory s"
      using kg i2 by (auto simp: keeps_or_ends_def settles_def same_command_def drained_def interrupted_def)
    have step: "(if \<not> current then transfer_revoked lun ?a ?b ?w s3
      else if \<not> us_command_active s3 \<or> us_command_write s3 \<noteq> ?w
      then io_error lun FV_BLOCK_ERROR_NOT_READY ?w (wipe ?a ?b s3)
      else if tc_lba k > 0xffffffff - tc_offset k div 512 \<or> tc_lba k + tc_offset k div 512 \<noteq> us_command_lba s3 \<or> ?b > us_command_left s3
      then io_error lun FV_BLOCK_ERROR_INVALID_ARGUMENT ?w s3
      else transfer_batch lun ?a ?b ?w s3) = (n, s')"
      using assms(5) False unfolding transfer_def l prod.case s2_def [symmetric] g by simp
    show ?thesis
    proof (cases "current")
      case False
      then have "transfer_revoked lun ?a ?b ?w s3 = (n, s')" using step by simp
      then show ?thesis using transfer_revoked_inv [OF r3 assms(2)] pieces_none by metis
    next
      case cur: True
      show ?thesis
      proof (cases "\<not> us_command_active s3 \<or> us_command_write s3 \<noteq> ?w")
        case True
        have "run_inv turns (snd (io_error lun FV_BLOCK_ERROR_NOT_READY ?w (wipe ?a ?b s3))) Failed c h"
          using err [OF failed_inv [OF r3]] unfolding wipe_def .
        then show ?thesis using fail step cur True by (auto simp: io_error_def)
      next
        case act: False
        show ?thesis
        proof (cases "tc_lba k > 0xffffffff - tc_offset k div 512 \<or> tc_lba k + tc_offset k div 512 \<noteq> us_command_lba s3 \<or> ?b > us_command_left s3")
          case True
          then show ?thesis using fail step cur act err [OF r3, of FV_BLOCK_ERROR_INVALID_ARGUMENT] by (auto simp: io_error_def)
        next
          case pos: False
          have "transfer_batch lun ?a ?b ?w s3 = (n, s')" using step cur act pos by simp
          moreover have "call_ok k s3" using b act pos assms(4) m3 by (simp add: call_ok_def word_less_nat_alt)
          ultimately show ?thesis using transfer_batch_inv [OF r3 assms(2)] m3 act by metis
        qed
      qed
    qed
  qed
qed

lemma run_invariant:
  assumes "usb_run turns s ph c h" "sized turns"
  shows "run_inv turns s ph c h"
  using assms(1)
proof induction
  case Boot
  have "at_rest (usb_boot turns)" by (simp add: at_rest_simps usb_boot_def)
  then show ?case by (auto simp: run_inv_def at_rest_def usb_boot_def command_inv_def)
next
  case (Receive s ph c h m)
  obtain d g where p: "us_turns s = turns" "pipe_inv s d" "command_inv ph c h d g s" using Receive.IH by (auto simp: run_inv_def)
  have b: "batch (s\<lparr>us_memory := m\<rparr>) d = batch s d" by (simp add: batch_def)
  have "landed (s\<lparr>us_memory := m\<rparr>) d r = landed s d r" for r by (simp add: landed_def b)
  then have "pipe_inv (s\<lparr>us_memory := m\<rparr>) d = pipe_inv s d" by (simp add: pipe_inv_def b)
  moreover have "command_inv ph c h d g (s\<lparr>us_memory := m\<rparr>)"
    using p(3) Receive.hyps(2) by (auto simp: command_inv_def active_inv_def acked_def retry_fits_def final_fits_def)
  ultimately show ?case using p(1,2) unfolding run_inv_def by (intro conjI exI) simp_all
next
  case (Command s ph c h lun wr lba bytes block_size ok s')
  then show ?case using begin_inv [OF Command.IH assms(2)] by blast
next
  case (Transfer s ph c h k lun n s')
  then show ?case using transfer_inv [OF Transfer.IH assms(2)] by blast
next
  case (Other s ph c h s')
  have "us_turns s = turns" using Other.IH by (simp add: run_inv_def)
  then show ?case using run_inv_keeps [OF Other.IH assms(2)] other_keeps [OF Other.hyps(2)] assms(2) by simp
qed

section \<open>Ownership and range\<close>

text \<open>The outstanding request lies inside the command.\<close>

lemma last_piece:
  assumes "history_inv w lba0 n0 h g turns" "h \<noteq> []" "last h = (x, d)"
  shows "\<exists>m. x = lba0 + of_nat m \<and> m + length d div 512 \<le> unat n0 div 512"
proof -
  have h: "h = butlast h @ [(x, d)]" using assms(2,3) by (metis append_butlast_last_id)
  then have c: "consecutive lba0 (butlast h @ [(x, d)])" "piece_bytes (butlast h @ [(x, d)]) \<le> unat n0"
    using assms(1) by (simp_all add: history_inv_def)
  then have m: "piece_bytes (butlast h) mod 512 = 0" "x = lba0 + of_nat (piece_bytes (butlast h) div 512)"
    using consecutive_mod by (auto simp: consecutive_append)
  have "(piece_bytes (butlast h) + length d) div 512 \<le> unat n0 div 512" using c(2) by (intro div_le_mono) simp
  then show ?thesis using m div_add_512 by auto
qed

lemma outstanding_in_command:
  assumes "run_inv turns s ph c h" "us_commands s = Some rq"
  shows "\<exists>w lba0 n0 m. c = Some (w, lba0, n0) \<and> rq_op rq = (if w then FV_USB_WRITE else FV_USB_READ) \<and>
    rq_generation rq = us_command_generation s \<and> rq_lba rq = lba0 + of_nat m \<and> m + unat (rq_count rq) \<le> unat n0 div 512 \<and>
    length (snd (rq_data rq)) = unat (us_pending_bytes s) \<and> unat (rq_count rq) = length (snd (rq_data rq)) div 512"
proof -
  obtain d g where p: "us_turns s = turns" "pipe_inv s d" "command_inv ph c h d g s" using assms(1) by (auto simp: run_inv_def)
  have o: "us_pending s" "us_command_active s" "rq = batch s d" "length d = unat (us_pending_bytes s)"
    using p(2) assms(2) by (auto simp: pipe_inv_def)
  obtain lba0 n0 where c: "c = Some (us_command_write s, lba0, n0)" and hi: "history_inv (us_command_write s) lba0 n0 h g (us_turns s)"
    and ai: "active_inv ph (us_command_write s) lba0 n0 h d g s" using command_active [OF p(3) o(2)] .
  have cnt: "unat (us_pending_bytes s div 512) = length d div 512" using o(4) chunk_div by simp
  have "\<exists>m. rq_lba rq = lba0 + of_nat m \<and> m + length d div 512 \<le> unat n0 div 512"
  proof (cases "us_command_write s \<and> \<not> us_final_write s")
    case True
    then have "\<not> acked (us_command_write s) s" using o(1) by (simp add: acked_def)
    then have "h \<noteq> []" "last h = (rq_lba rq, d)" using ai True by (auto simp: active_inv_def o(3) batch_def)
    then show ?thesis using last_piece [OF hi] by blast
  next
    case False
    then have l: "rq_lba rq = lba0 + of_nat (piece_bytes h div 512)" using ai by (auto simp: o(3) batch_def active_inv_def)
    have b: "length d \<le> unat (us_command_left s)"
      using ai o(1,4) False by (auto simp: active_inv_def final_fits_def)
    have "piece_bytes h mod 512 = 0" using hi consecutive_mod [of lba0 h] by (simp add: history_inv_def)
    moreover have "(piece_bytes h + length d) div 512 \<le> unat n0 div 512"
      using ai b by (intro div_le_mono) (simp add: active_inv_def)
    ultimately have "piece_bytes h div 512 + length d div 512 \<le> unat n0 div 512" using div_add_512 by simp
    then show ?thesis using l by blast
  qed
  then show ?thesis using c o(3,4) cnt by (auto simp: batch_def)
qed

text \<open>C8. The batch buffer has one owner at any time, and the worker is only asked for what the host's command
  covers. In every reachable state of the transfer pipeline, whatever the bus, the worker and the rest of core 0 do
  at any point of any operation: core 0 never wrote the buffer while the worker owned it; and a request in the
  worker's hands belongs to the command in progress, has its direction and its generation, lies in its range of
  sectors and describes exactly the buffer it hands over.\<close>

theorem usb_buffer_never_shared:
  assumes "usb_run turns s ph c h" "sized turns"
  shows "\<not> us_race s \<and> (\<forall>rq. us_commands s = Some rq \<longrightarrow> us_pending s \<and>
    (\<exists>w lba0 n0 m. c = Some (w, lba0, n0) \<and> rq_op rq = (if w then FV_USB_WRITE else FV_USB_READ) \<and>
       rq_generation rq = us_command_generation s \<and> rq_lba rq = lba0 + of_nat m \<and> m + unat (rq_count rq) \<le> unat n0 div 512 \<and>
       unat (rq_count rq) = length (snd (rq_data rq)) div 512 \<and> length (snd (rq_data rq)) \<le> FV_USB_IO_BYTES))"
proof -
  have r: "run_inv turns s ph c h" by (rule run_invariant [OF assms])
  then obtain d where p: "pipe_inv s d" by (auto simp: run_inv_def)
  have o: "us_pending s \<and> length (snd (rq_data rq)) \<le> FV_USB_IO_BYTES" if "us_commands s = Some rq" for rq
  proof -
    have "us_pending s \<and> length d \<le> FV_USB_IO_BYTES \<and> rq = batch s d" using p that by (auto simp: pipe_inv_def)
    then show ?thesis by (simp add: batch_def)
  qed
  have "\<not> us_race s" using p by (simp add: pipe_inv_def)
  moreover have "us_pending s \<and> (\<exists>w lba0 n0 m. c = Some (w, lba0, n0) \<and> rq_op rq = (if w then FV_USB_WRITE else FV_USB_READ) \<and>
       rq_generation rq = us_command_generation s \<and> rq_lba rq = lba0 + of_nat m \<and> m + unat (rq_count rq) \<le> unat n0 div 512 \<and>
       unat (rq_count rq) = length (snd (rq_data rq)) div 512 \<and> length (snd (rq_data rq)) \<le> FV_USB_IO_BYTES)"
    if "us_commands s = Some rq" for rq
    using outstanding_in_command [OF r that] o [OF that] by blast
  ultimately show ?thesis by blast
qed

text \<open>C7. A host transfer is exact, and a write is acknowledged only when it is stored. The pieces of a command,
  in order, are consecutive sectors from its first one and never more than it asked for. Every piece a READ10
  delivered is what the worker answered, successfully and under the one generation of the command, to a read of
  these sectors. Every piece a WRITE10 accepted, but the last, was sent to the worker and stored under that
  generation; and once all bytes are accepted, which is what the host's success status reports, all of them are.\<close>

theorem usb_transfer_exact:
  assumes "usb_run turns s ph (Some (wr, lba, bytes)) h" "sized turns"
  shows "consecutive lba h \<and> piece_bytes h \<le> unat bytes \<and>
    (\<exists>g. (\<not> wr \<longrightarrow> (\<forall>p \<in> set h. fetched turns g p)) \<and> (wr \<longrightarrow> (\<forall>p \<in> set (butlast h). stored turns g p)) \<and>
       (wr \<and> piece_bytes h = unat bytes \<longrightarrow> (\<forall>p \<in> set h. stored turns g p)))"
proof -
  obtain d g where "us_turns s = turns" "command_inv ph (Some (wr, lba, bytes)) h d g s"
    using run_invariant [OF assms] by (auto simp: run_inv_def)
  then show ?thesis using command_invD(1) unfolding history_inv_def by blast
qed

section \<open>With the worker\<close>

text \<open>The answers are those of the worker: every READ or WRITE batch is executed by \<^verbatim>\<open>fv_usb_storage_execute\<close> in
  some state whose vault, if open, is a sound one.\<close>

definition worker_serves :: "('a, 'd, 'r, 'e) worker_lib \<Rightarrow> ('d \<Rightarrow> nat \<Rightarrow> u8 list) \<Rightarrow> (nat \<Rightarrow> usb_turn) \<Rightarrow> bool" where
  "worker_serves W cells turns \<longleftrightarrow>
     (\<forall>n rq resp out. ut_answer (turns n) rq = (resp, out) \<longrightarrow> rq_op rq \<in> {FV_USB_READ, FV_USB_WRITE} \<longrightarrow>
        length (snd (rq_data rq)) = unat (rq_count rq) * 512 \<longrightarrow>
        (\<exists>w w'. fv_usb_storage_execute W rq w = (resp, out, w') \<and>
           (rs_result resp = FV_BLOCK_OK \<longrightarrow> vault_inv (wl_platform W) cells (wk_vault (storage_enter W w), wk_world w))))"

text \<open>A state of the worker whose session is open for files under this generation.\<close>

definition open_for :: "u32 \<Rightarrow> ('a, 'd, 'r, 'e) worker \<Rightarrow> bool" where
  "open_for g w \<longleftrightarrow> v_unlocked (wk_vault w) \<and> fv_access_files (usb_mode w) \<and> sa_generation (wk_access w) = g"

definition read_from_vault :: "('a, 'd, 'r, 'e) worker_lib \<Rightarrow> ('d \<Rightarrow> nat \<Rightarrow> u8 list) \<Rightarrow> u32 \<Rightarrow> piece \<Rightarrow> bool" where
  "read_from_vault W cells g p \<longleftrightarrow>
     (\<exists>w :: ('a, 'd, 'r, 'e) worker. open_for g w \<and> (\<forall>k < length (snd p) div 512.
        vault_sector (wl_sha W) cells (wk_vault w, wk_world w) (unat (fst p) + k) = Some (span (snd p) (k * 512) 512)))"

definition written_to_vault :: "('a, 'd, 'r, 'e) worker_lib \<Rightarrow> ('d \<Rightarrow> nat \<Rightarrow> u8 list) \<Rightarrow> u32 \<Rightarrow> piece \<Rightarrow> bool" where
  "written_to_vault W cells g p \<longleftrightarrow>
     (\<exists>(w :: ('a, 'd, 'r, 'e) worker) v vw. open_for g w \<and> fv_access_writable (usb_mode w) \<and>
        fst (fv_vault_write (wl_sha W) (wl_platform W) (unat (fst p)) (length (snd p) div 512) (SCRATCH, snd p) (wk_vault w, wk_world w)) =
          FV_BLOCK_OK \<and>
        snd (snd (fv_vault_write (wl_sha W) (wl_platform W) (unat (fst p)) (length (snd p) div 512) (SCRATCH, snd p)
          (wk_vault w, wk_world w))) = (v, vw) \<and>
        (\<forall>k < length (snd p) div 512. vault_sector (wl_sha W) cells (v, vw) (unat (fst p) + k) = Some (span (snd p) (k * 512) 512)))"

lemma stored_written:
  assumes "stored turns g p" "worker_serves W cells turns" "disk_law (vp_sd (wl_platform W)) cells" "digest_law (wl_sha W)"
    "length (snd p) mod 512 = 0" "length (snd p) \<le> FV_USB_IO_BYTES"
  shows "written_to_vault W cells g p"
proof -
  obtain n resp out where a: "ut_answer (turns n) \<lparr>rq_op = FV_USB_WRITE, rq_lba = fst p, rq_count = of_nat (length (snd p) div 512),
      rq_generation = g, rq_data = (SCRATCH, snd p)\<rparr> = (resp, out)" (is "ut_answer _ ?rq = _") and gr: "good_response True g resp"
    using assms(1) by (auto simp: stored_def)
  have "length (snd p) div 512 < 2 ^ 32" using assms(6) by (simp add: FV_USB_IO_BYTES_def)
  then have cnt: "unat (rq_count ?rq) = length (snd p) div 512" by (simp add: unat_of_nat take_bit_eq_mod)
  have l: "length (snd (rq_data ?rq)) = unat (rq_count ?rq) * 512" using cnt assms(5) div_mult_mod_eq [of "length (snd p)" 512] by simp
  have ok: "rs_result resp = FV_BLOCK_OK" using gr by (simp add: good_response_def)
  obtain w w' where ex: "fv_usb_storage_execute W ?rq w = (resp, out, w')"
    and vi: "vault_inv (wl_platform W) cells (wk_vault (storage_enter W w), wk_world w)"
    using assms(2)[unfolded worker_serves_def, rule_format, OF a _ l] ok by auto
  note sb = storage_batch [OF ex _ l assms(3,4), THEN conjunct2, THEN conjunct2, THEN conjunct2, THEN mp, OF _ ok]
  obtain v where ra: "request_authorised ?rq (storage_enter W w)"
    and bi: "batch_io W ?rq (wk_vault (storage_enter W w), wk_world w) = (FV_BLOCK_OK, out, v, wk_world w')"
    and vs: "\<forall>k < unat (rq_count ?rq). vault_sector (wl_sha W) cells (v, wk_world w') (unat (rq_lba ?rq) + k) =
                  Some (span (snd (rq_data ?rq)) (k * 512) 512)"
    using sb vi by auto
  have "open_for g (storage_enter W w)" "fv_access_writable (usb_mode (storage_enter W w))"
    using ra by (simp_all add: request_authorised_def open_for_def)
  moreover have "fv_vault_write (wl_sha W) (wl_platform W) (unat (fst p)) (length (snd p) div 512) (SCRATCH, snd p)
      (wk_vault (storage_enter W w), wk_world (storage_enter W w)) = (FV_BLOCK_OK, out, v, wk_world w')"
    using bi cnt storage_enter_world [of W w] by (simp add: batch_io_def fv_vault_write_def)
  ultimately show ?thesis using vs cnt unfolding written_to_vault_def
    by (intro exI [of _ "storage_enter W w"] exI [of _ v] exI [of _ "wk_world w'"]) simp
qed

lemma fetched_read:
  assumes "fetched turns g p" "worker_serves W cells turns" "disk_law (vp_sd (wl_platform W)) cells" "digest_law (wl_sha W)"
  shows "read_from_vault W cells g p"
proof -
  obtain n b resp out where a: "ut_answer (turns n) \<lparr>rq_op = FV_USB_READ, rq_lba = fst p, rq_count = of_nat (length b div 512),
      rq_generation = g, rq_data = (SCRATCH, b)\<rparr> = (resp, out)" (is "ut_answer _ ?rq = _") and gr: "good_response False g resp"
    and lb: "length (snd p) \<le> length b" "length b \<le> FV_USB_IO_BYTES" "length b mod 512 = 0" "snd p = take (length (snd p)) out"
    using assms(1) by (auto simp: fetched_def)
  have "length b div 512 < 2 ^ 32" using lb(2) by (simp add: FV_USB_IO_BYTES_def)
  then have cnt: "unat (rq_count ?rq) = length b div 512" by (simp add: unat_of_nat take_bit_eq_mod)
  have l: "length (snd (rq_data ?rq)) = unat (rq_count ?rq) * 512" using cnt lb(3) div_mult_mod_eq [of "length b" 512] by simp
  have ok: "rs_result resp = FV_BLOCK_OK" using gr by (simp add: good_response_def)
  obtain w w' where ex: "fv_usb_storage_execute W ?rq w = (resp, out, w')"
    and vi: "vault_inv (wl_platform W) cells (wk_vault (storage_enter W w), wk_world w)"
    using assms(2)[unfolded worker_serves_def, rule_format, OF a _ l] ok by auto
  note sb = storage_batch [OF ex _ l assms(3,4), THEN conjunct2, THEN conjunct2, THEN conjunct2, THEN mp, OF _ ok]
  have ra: "request_authorised ?rq (storage_enter W w)"
    and vs: "\<forall>k < unat (rq_count ?rq). vault_sector (wl_sha W) cells (wk_vault (storage_enter W w), wk_world w) (unat (rq_lba ?rq) + k) =
                  Some (span out (k * 512) 512)"
    using sb vi by auto
  have o: "open_for g (storage_enter W w)" using ra by (simp add: request_authorised_def open_for_def)
  have "vault_sector (wl_sha W) cells (wk_vault (storage_enter W w), wk_world (storage_enter W w)) (unat (fst p) + k) =
      Some (span (snd p) (k * 512) 512)" if "k < length (snd p) div 512" for k
  proof -
    have k: "k < length b div 512" "k * 512 + 512 \<le> length (snd p)" using that lb(1) by (auto intro: less_le_trans div_le_mono)
    have "span (snd p) (k * 512) 512 = span (take (length (snd p)) out) (k * 512) 512" using lb(4) by simp
    also have "\<dots> = span out (k * 512) 512" using k(2) by (simp add: span_def drop_take min_absorb1)
    finally show ?thesis using vs k(1) cnt storage_enter_world [of W w] by simp
  qed
  then show ?thesis using o unfolding read_from_vault_def by blast
qed

text \<open>Pieces are never larger than a batch.\<close>

lemma run_piece_size:
  assumes "usb_run turns s ph c h" "x \<in> set h"
  shows "length (snd x) \<le> FV_USB_IO_BYTES"
  using assms
proof (induction arbitrary: x)
  case (Transfer s ph c h k lun n s')
  have "0 < n \<Longrightarrow> unat (tc_bytes k) \<le> FV_USB_IO_BYTES"
    using Transfer.hyps(4) by (auto simp: transfer_def io_error_def split: prod.splits if_splits)
  then show ?case using Transfer.IH Transfer.prems by (cases x) (auto simp: pieces_after_def split: if_splits)
qed auto


end
