(* ===== verification/Usb_Example.thy ===== *)
theory Usb_Example
  imports Usb_Storage
begin

text \<open>
  A complete WRITE10 of three sectors against the worker of \<^verbatim>\<open>Host_IO\<close> with its open test vault, on a quiet bus:
  the witnesses of the properties of \<^verbatim>\<open>Usb_Storage\<close>.
\<close>

definition test_answer :: "fv_usb_request \<Rightarrow> fv_usb_response \<times> u8 list" where
  "test_answer rq =
     (if rq_op rq \<in> {FV_USB_READ, FV_USB_WRITE} \<and> length (snd (rq_data rq)) \<noteq> unat (rq_count rq) * 512
      then (response_not_ready, snd (rq_data rq))
      else case fv_usb_storage_execute (test_lib test_platform) rq open_worker of (r, out, w) \<Rightarrow> (r, out))"

definition test_turn :: usb_turn where
  "test_turn = \<lparr>ut_event = None, ut_generation = 1, ut_answered = True, ut_answer = test_answer, ut_accepts = True,
     ut_fido_busy = False, ut_disk_available = False, ut_maintenance = False\<rparr>"

definition test_turns :: "nat \<Rightarrow> usb_turn" where "test_turns = (\<lambda>_. test_turn)"

lemma test_laws: "disk_law (vp_sd (wl_platform (test_lib test_platform))) ram_cells" "digest_law (wl_sha (test_lib test_platform))"
  by (simp_all add: test_lib_def test_platform_def disk_law_ram digest_law_test_sha)

lemma test_answer_sized: "length (snd (test_answer rq)) = length (snd (rq_data rq))"
proof (cases "rq_op rq \<in> {FV_USB_READ, FV_USB_WRITE}")
  case True
  obtain r out w where x: "fv_usb_storage_execute (test_lib test_platform) rq open_worker = (r, out, w)"
    by (cases "fv_usb_storage_execute (test_lib test_platform) rq open_worker")
  show ?thesis
  proof (cases "length (snd (rq_data rq)) = unat (rq_count rq) * 512")
    case l: True
    note b = storage_batch [OF x True l test_laws]
    have "length out = unat (rq_count rq) * 512"
    proof (cases "rs_result r = FV_BLOCK_OK")
      case True
      then obtain v where "batch_io (test_lib test_platform) rq (wk_vault (storage_enter (test_lib test_platform) open_worker), wk_world open_worker) =
          (FV_BLOCK_OK, out, v, wk_world w)" using b by blast
      then show ?thesis using batch_io_buffer l by blast
    next
      case False
      then have "out = snd (rq_data rq) \<or> out = zeros (unat (rq_count rq) * 512)" using b by blast
      then show ?thesis using l by auto
    qed
    then show ?thesis using x l by (simp add: test_answer_def)
  qed (use True in \<open>simp add: test_answer_def\<close>)
next
  case False
  then show ?thesis
    by (cases "rq_op rq") (simp_all add: test_answer_def fv_usb_storage_execute_def Let_def)
qed

lemma test_turns_sized: "sized test_turns"
  by (simp add: sized_def test_turns_def test_turn_def test_answer_sized)

lemma test_turns_served: "worker_serves (test_lib test_platform) ram_cells test_turns"
  unfolding worker_serves_def
proof (intro allI impI)
  fix n rq resp out
  assume a: "ut_answer (test_turns n) rq = (resp, out)" "rq_op rq \<in> {FV_USB_READ, FV_USB_WRITE}"
    "length (snd (rq_data rq)) = unat (rq_count rq) * 512"
  obtain r o' w where x: "fv_usb_storage_execute (test_lib test_platform) rq open_worker = (r, o', w)"
    by (cases "fv_usb_storage_execute (test_lib test_platform) rq open_worker")
  then have e: "r = resp" "o' = out" using a by (simp_all add: test_turns_def test_turn_def test_answer_def)
  have "vault_inv (wl_platform (test_lib test_platform)) ram_cells
      (wk_vault (storage_enter (test_lib test_platform) open_worker), wk_world open_worker)"
    using open_worker_enter test_vault_inv by (auto simp: test_lib_def open_worker_def worker_boot_def)
  then show "\<exists>w w'. fv_usb_storage_execute (test_lib test_platform) rq w = (resp, out, w') \<and>
      (rs_result resp = FV_BLOCK_OK \<longrightarrow> vault_inv (wl_platform (test_lib test_platform)) ram_cells
         (wk_vault (storage_enter (test_lib test_platform) w), wk_world w))"
    using x e by blast
qed

lemma test_status: "test_answer (usb_control FV_USB_STATUS) =
    (\<lparr>rs_result = FV_BLOCK_OK, rs_blocks = 100, rs_generation = 1, rs_unlocked = True, rs_mode = FV_ACCESS_FULL\<rparr>, [])"
  using open_worker_enter
  by (auto simp: test_answer_def usb_control_def fv_usb_storage_execute_def Let_def storage_response_def usb_mode_def fv_session_mode_def
      fv_access_valid_def fv_access_files_def test_vault_def)

lemma test_turn_simps: "ut_event test_turn = None" "ut_generation test_turn = 1" "ut_answered test_turn" "ut_answer test_turn = test_answer"
  "ut_accepts test_turn" "\<not> ut_fido_busy test_turn" "\<not> ut_maintenance test_turn"
  by (simp_all add: test_turn_def)

text \<open>Every turn of this schedule is quiet.\<close>

lemma test_turn_step: "us_turns s = test_turns \<Longrightarrow> turn s = (test_turn, s\<lparr>us_read := Suc (us_read s)\<rparr>)"
  by (simp add: turn_def test_turns_def test_turn_simps)

lemmas test_loads = load_invalidate_def exchange_invalidate_def fv_usb_session_generation_def load_fido_busy_def
  load_disk_available_def load_maintenance_def test_turn_step test_turn_simps

lemma begin_example:
  "\<exists>s. fv_usb_storage_begin 0 True 14 1536 512 (usb_boot test_turns) = (True, s) \<and> us_turns s = test_turns \<and>
     us_command_active s \<and> us_command_write s \<and> us_command_lba s = 14 \<and> us_command_left s = 1536 \<and> us_command_generation s = 1 \<and>
     \<not> us_invalidate s \<and> at_rest s"
  by (simp add: fv_usb_storage_begin_def clear_pipeline_def fv_usb_async_wait_def fv_usb_async_take_def async_poll_def Let_def
      wipe_scratch_def set_scratch_def wipe_def valid_lun_def begin_command_def fv_usb_rpc_def fv_usb_storage_poll_def transact_def
      test_loads worker_answer_def fv_device_ui_media_changed_def suppress_invalidated_def available_def
      usb_boot_def test_turn_simps test_status worker_owns_def fv_access_files_def
      fv_access_writable_def at_rest_simps)

definition example_call :: usb_call where
  "example_call = \<lparr>tc_write = True, tc_lba = 14, tc_offset = 0, tc_buffer = 8, tc_bytes = 1536\<rparr>"

lemma take_memcpy: "length d = n \<Longrightarrow> n \<le> length b \<Longrightarrow> take n (memcpy b 0 d) = d"
  by (simp add: memcpy_def)

text \<open>The first call hands the batch to the worker, the second one finds the answer.\<close>

lemma first_call_example:
  assumes "us_turns s = test_turns" "us_command_active s" "us_command_write s" "us_command_lba s = 14" "us_command_left s = 1536"
    "us_command_generation s = 1" "\<not> us_invalidate s" "at_rest s" "us_memory s 8 = replicate 1536 9"
  shows "\<exists>s'. transfer 0 14 0 8 1536 True s = (0, s') \<and> us_turns s' = test_turns \<and> us_command_active s' \<and> us_command_write s' \<and>
    us_command_lba s' = 14 \<and> us_command_left s' = 1536 \<and> us_command_generation s' = 1 \<and> \<not> us_invalidate s' \<and>
    us_memory s' 8 = replicate 1536 9 \<and> us_commands s' = Some write_request \<and> us_async_pending s' \<and> us_pending s' \<and> \<not> us_ready s' \<and>
    us_final_write s' \<and> length (us_scratch s') = FV_USB_IO_BYTES"
  using assms
  by (simp add: transfer_def valid_lun_def transfer_gate_def fv_usb_storage_poll_def remember_buffer_def transfer_batch_def
      transfer_write_def start_batch_def fv_usb_async_submit_def submit_deferred_def batch_request_def test_loads at_rest_simps
      set_scratch_def FV_USB_IO_BYTES_def Let_def write_request_def SCRATCH_def take_memcpy)

lemma second_call_example:
  assumes "us_turns s = test_turns" "us_command_active s" "us_command_write s" "us_command_lba s = 14" "us_command_left s = 1536"
    "us_command_generation s = 1" "\<not> us_invalidate s"
    "us_memory s 8 = replicate 1536 9" "us_commands s = Some write_request" "us_async_pending s" "us_pending s" "\<not> us_ready s"
    "us_final_write s" "length (us_scratch s) = FV_USB_IO_BYTES"
  shows "\<exists>s'. transfer 0 14 0 8 1536 True s = (1536, s')"
proof -
  obtain resp w where w: "fv_usb_storage_execute (test_lib test_platform) write_request open_worker = (resp, zeros 1536, w)"
    "rs_result resp = FV_BLOCK_OK" "rs_unlocked resp" "rs_generation resp = 1" "rs_mode resp = FV_ACCESS_FULL"
    using open_worker_write by blast
  have a: "test_answer write_request = (resp, zeros 1536)" using w(1) by (simp add: test_answer_def write_request_def)
  have m: "fv_access_files FV_ACCESS_FULL" "fv_access_writable FV_ACCESS_FULL" by (simp_all add: fv_access_files_def fv_access_writable_def)
  show ?thesis
    using assms a w(2-5) m
    by (simp add: transfer_def valid_lun_def transfer_gate_def fv_usb_storage_poll_def remember_buffer_def transfer_batch_def
        transfer_write_def harvest_def fv_usb_async_take_def async_poll_def async_settle_def queue_try_remove_def worker_answer_def
        suppress_invalidated_def fv_device_ui_media_changed_def count_write_def completed_good_def FV_USB_IO_BYTES_def test_loads Let_def)
qed

definition example_pieces :: "piece list" where
  "example_pieces = [(14, replicate 1536 9)]"

lemma run_example: "\<exists>s. usb_run test_turns s Next (Some (True, 14, 1536)) example_pieces"
proof -
  obtain s where s: "fv_usb_storage_begin 0 True 14 1536 512 (usb_boot test_turns) = (True, s)" "us_turns s = test_turns"
     "us_command_active s" "us_command_write s" "us_command_lba s = 14" "us_command_left s = 1536" "us_command_generation s = 1"
     "\<not> us_invalidate s" "at_rest s" using begin_example by blast
  define s1 where "s1 = s\<lparr>us_memory := (\<lambda>_. replicate 1536 9)\<rparr>"
  have "usb_run test_turns s Next (Some (True, 14, 1536)) []" using usb_run.Command [OF usb_run.Boot s(1)] by simp
  then have r1: "usb_run test_turns s1 Next (Some (True, 14, 1536)) []" unfolding s1_def by (rule usb_run.Receive) simp
  have "\<exists>s2. transfer 0 14 0 8 1536 True s1 = (0, s2) \<and> us_turns s2 = test_turns \<and> us_command_active s2 \<and> us_command_write s2 \<and>
    us_command_lba s2 = 14 \<and> us_command_left s2 = 1536 \<and> us_command_generation s2 = 1 \<and> \<not> us_invalidate s2 \<and>
    us_memory s2 8 = replicate 1536 9 \<and> us_commands s2 = Some write_request \<and> us_async_pending s2 \<and> us_pending s2 \<and> \<not> us_ready s2 \<and>
    us_final_write s2 \<and> length (us_scratch s2) = FV_USB_IO_BYTES"
    by (rule first_call_example) (use s in \<open>simp_all add: s1_def at_rest_simps\<close>)
  then obtain s2 where s2: "transfer 0 14 0 8 1536 True s1 = (0, s2)" "us_turns s2 = test_turns" "us_command_active s2" "us_command_write s2"
    "us_command_lba s2 = 14" "us_command_left s2 = 1536" "us_command_generation s2 = 1" "\<not> us_invalidate s2"
    "us_memory s2 8 = replicate 1536 9" "us_commands s2 = Some write_request" "us_async_pending s2" "us_pending s2" "\<not> us_ready s2"
    "us_final_write s2" "length (us_scratch s2) = FV_USB_IO_BYTES" by blast
  have r2: "usb_run test_turns s2 (Retry example_call) (Some (True, 14, 1536)) []"
    using usb_run.Transfer [OF r1, of example_call 0 0 s2] s2(1)
    by (simp add: example_call_def s1_def phase_after_def pieces_after_def)
  obtain s3 where s3: "transfer 0 14 0 8 1536 True s2 = (1536, s3)" using second_call_example [OF s2(2-15)] by blast
  have "usb_run test_turns s3 Next (Some (True, 14, 1536)) example_pieces"
    using usb_run.Transfer [OF r2, of example_call 0 1536 s3] s3 s2(9)
    by (simp add: example_call_def phase_after_def pieces_after_def example_pieces_def)
  then show ?thesis by blast
qed

lemma usb_buffer_never_shared_witness:
  "\<exists>s. usb_run test_turns s Next (Some (True, 14, 1536)) example_pieces \<and> \<not> us_race s"
  using run_example usb_buffer_never_shared [OF _ test_turns_sized] by blast

lemma usb_transfer_exact_witness: "\<exists>g. stored test_turns g (14, replicate 1536 9)"
proof -
  obtain s where "usb_run test_turns s Next (Some (True, 14, 1536)) example_pieces" using run_example by blast
  from usb_transfer_exact [OF this test_turns_sized] show ?thesis by (simp add: example_pieces_def)
qed


end
