(* ===== verification/Fido_Poll.thy ===== *)
theory Fido_Poll
  imports Fido_Hid_Correct Fido_Engine Usb_Pipeline
begin

text \<open>
  The FIDO poll of core 0 (\<^verbatim>\<open>fv_fido_poll\<close>, \<^verbatim>\<open>src/src/pico/device/fido_adapter.c\<close>): it takes a finished reply from the
  worker, hands the next request over, and sends reports. A fragmented reply is sent over many polls, and
  the session it belongs to may end in between. Shared state is read through the schedule of
  \<^verbatim>\<open>Usb_Transport\<close>; the worker's reply, the state of the front panel and of the endpoint, and the clock (one reading
  stands for those of a poll) are inputs.
\<close>

section \<open>State\<close>

record fido_core0 =
  fc_usb :: usb_core
  fc_hid :: fv_fido_hid_t
  fc_initialized :: bool
  fc_busy :: bool
  fc_discard :: bool
  fc_response_scoped :: bool
  fc_response_generation :: u32
  fc_request_ui_owned :: bool
  fc_keepalive_at :: u32
  fc_enumerated_at :: u32

record fido_input =
  fi_done :: "fido_done option"
  fi_now :: u32
  fi_ui_available :: bool
  fi_prompt :: bool
  fi_hid_ready :: bool
  fi_report_sent :: bool

datatype fido_report = Control_Report "u8 list" | Data_Report "u8 list" | Keepalive_Report "u8 list"

definition load_cancel :: "usb_core \<Rightarrow> bool \<times> usb_core" where
  "load_cancel u = (case turn u of (t, u) \<Rightarrow> (us_fido_cancel u, u))"

definition exchange_disconnected :: "usb_core \<Rightarrow> bool \<times> usb_core" where
  "exchange_disconnected u = (case turn u of (t, u) \<Rightarrow> (us_fido_disconnected u, u\<lparr>us_fido_disconnected := False\<rparr>))"

section \<open>The stages of a poll\<close>

definition fido_disconnect :: "fido_core0 \<Rightarrow> fido_core0" where
  "fido_disconnect s =
     (let s = (if fc_initialized s then s else s\<lparr>fc_hid := fv_fido_hid_reset, fc_initialized := True\<rparr>) in
      case exchange_disconnected (fc_usb s) of (gone, u) \<Rightarrow>
      let s = s\<lparr>fc_usb := u\<rparr> in
      if \<not> gone then s
      else if fc_busy s then s\<lparr>fc_discard := True\<rparr>
      else s\<lparr>fc_hid := fv_fido_hid_reset, fc_discard := False\<rparr>)"

text \<open>A reply of another session is reported as cancelled.\<close>

definition done_stale :: "fido_done \<Rightarrow> fido_core0 \<Rightarrow> bool \<times> bool \<times> fido_core0" where
  "done_stale d s =
     (case fv_usb_session_generation (fc_usb s) of (g, u) \<Rightarrow>
      case (if fd_generation d = g then load_invalidate u else (True, u)) of (stale, u) \<Rightarrow>
        (fd_generation d = g, fd_unlocked d \<and> \<not> stale,
         s\<lparr>fc_usb := u, fc_hid := (if stale then (fc_hid s)\<lparr>h_cancelled := True\<rparr> else fc_hid s)\<rparr>))"

text \<open>A cancellation that came after the worker was done locks the session it belonged to.\<close>

definition done_cancel :: "fido_done \<Rightarrow> bool \<Rightarrow> bool \<Rightarrow> fido_core0 \<Rightarrow> bool \<times> fido_core0" where
  "done_cancel d same unlocked s =
     (case load_cancel (fc_usb s) of (cancel, u) \<Rightarrow>
      if \<not> cancel then (unlocked, s\<lparr>fc_usb := u\<rparr>)
      else
        (let s = s\<lparr>fc_usb := u, fc_hid := (fc_hid s)\<lparr>h_cancelled := True\<rparr>, fc_busy := False\<rparr> in
         if fd_locks_session d \<and> same
         then (False, s\<lparr>fc_usb := snd (fv_usb_rpc (usb_control FV_USB_LOCK) (fc_usb s))\<rparr>) else (unlocked, s)))"

definition done_bytes :: "fido_done \<Rightarrow> u8 list" where
  "done_bytes d = (if fst (fd_reply d) > FV_FIDO_MESSAGE_SIZE then [] else take (fst (fd_reply d)) (snd (fd_reply d)))"

definition fido_done_poll :: "fido_done option \<Rightarrow> fido_core0 \<Rightarrow> fido_core0" where
  "fido_done_poll fin s =
     (case fin of None \<Rightarrow> s
      | Some d \<Rightarrow>
        (case done_stale d (s\<lparr>fc_request_ui_owned := False\<rparr>) of (same, unlocked, s) \<Rightarrow>
         case done_cancel d same unlocked s of (unlocked, s) \<Rightarrow>
         let u = (if unlocked then fc_usb s else fv_usb_storage_clear_transport (fc_usb s));
             s = s\<lparr>fc_usb := fv_device_ui_media_changed unlocked u\<rparr>;
             s = (if fc_discard s then s\<lparr>fc_hid := fv_fido_hid_reset, fc_discard := False\<rparr>
                  else
                    (let p = fv_fido_hid_complete (done_bytes d) (fc_hid s) in
                     s\<lparr>fc_hid := p, fc_response_scoped := \<not> h_cancelled p, fc_response_generation := fd_generation d\<rparr>))
         in s\<lparr>fc_busy := False\<rparr>))"

text \<open>The next request goes to the worker; while the front panel is in use only discovery does.\<close>

definition fido_request :: "fido_input \<Rightarrow> fido_core0 \<Rightarrow> fido_core0" where
  "fido_request i s =
     (if \<not> h_pending (fc_hid s) \<or> fc_busy s then s
      else case load_maintenance (fc_usb s) of (maintenance, u) \<Rightarrow>
      if maintenance then s\<lparr>fc_usb := u\<rparr>
      else case fv_usb_worker_idle u of (idle, u) \<Rightarrow>
      if \<not> idle then s\<lparr>fc_usb := u\<rparr>
      else if \<not> (h_rx_size (fc_hid s) = 1 \<and> h_rx (fc_hid s) ! 0 = 4) \<and> \<not> fi_ui_available i
      then s\<lparr>fc_usb := u, fc_hid := fv_fido_hid_complete [0x27] (fc_hid s)\<rparr>
      else case turn (u\<lparr>us_fido_cancel := h_cancelled (fc_hid s)\<rparr>) of (t, u) \<Rightarrow>
        if ut_accepts t
        then s\<lparr>fc_usb := u, fc_busy := True, fc_hid := (fc_hid s)\<lparr>h_pending := False\<rparr>, fc_keepalive_at := fi_now i\<rparr>
        else s\<lparr>fc_usb := u, fc_busy := False\<rparr>)"

definition wipe_reply :: "fido_core0 \<Rightarrow> fido_core0" where
  "wipe_reply s =
     s\<lparr>fc_hid := (fc_hid s)\<lparr>h_tx := zeros 4096, h_transmitting := False, h_tx_size := 0, h_tx_used := 0, h_tx_sequence := 0\<rparr>,
       fc_response_scoped := False\<rparr>"

text \<open>The rest of a reply is dropped when its session has ended.\<close>

definition fido_scope :: "fido_core0 \<Rightarrow> fido_core0" where
  "fido_scope s =
     (if \<not> fc_response_scoped s then s
      else case fv_usb_session_generation (fc_usb s) of (g, u) \<Rightarrow>
      case (if fc_response_generation s = g then load_invalidate u else (True, u)) of (stale, u) \<Rightarrow>
        (if stale then wipe_reply (s\<lparr>fc_usb := u\<rparr>) else s\<lparr>fc_usb := u\<rparr>))"

definition keepalive_report :: "bool \<Rightarrow> fv_fido_hid_t \<Rightarrow> u8 list" where
  "keepalive_report prompted p =
     (memcpy (zeros 64) 0 (put32 (h_active_channel p)))[4 := 0xbb, 6 := 1, 7 := (if prompted then 2 else 1)]"

definition fido_send :: "fido_input \<Rightarrow> fido_core0 \<Rightarrow> fido_report option \<times> fido_core0" where
  "fido_send i s =
     (if \<not> fi_hid_ready i then (None, s)
      else if h_control_pending (fc_hid s)
      then (if fi_report_sent i
            then (Some (Control_Report (h_control_report (fc_hid s))), s\<lparr>fc_hid := (fc_hid s)\<lparr>h_control_pending := False\<rparr>\<rparr>)
            else (None, s))
      else case fv_fido_hid_peek (fc_hid s) of
        Some r \<Rightarrow>
          (if fi_report_sent i
           then (let p = fv_fido_hid_sent (fc_hid s) in
                 (Some (Data_Report r),
                  s\<lparr>fc_hid := p, fc_response_scoped := fc_response_scoped s \<and> h_transmitting p\<rparr>))
           else (None, s))
      | None \<Rightarrow>
          (if h_processing (fc_hid s) \<and> fi_now i - fc_keepalive_at s \<ge> 50 \<and> fi_report_sent i
           then (Some (Keepalive_Report (keepalive_report (fi_prompt i) (fc_hid s))), s\<lparr>fc_keepalive_at := fi_now i\<rparr>)
           else (None, s)))"

text \<open>The part of the poll before reports are sent; a disconnected bus ends the poll early.\<close>

definition fido_early :: "fido_input \<Rightarrow> fido_core0 \<Rightarrow> fido_core0" where
  "fido_early i s =
     (let s = fido_done_poll (fi_done i) (fido_disconnect s) in
      if fc_discard s then s
      else
        (let s = (if h_cancelled (fc_hid s) then s\<lparr>fc_usb := (fc_usb s)\<lparr>us_fido_cancel := True\<rparr>\<rparr> else s);
             s = s\<lparr>fc_hid := fv_fido_hid_tick (fi_now i) (fc_hid s)\<rparr>
         in fido_request i s))"

definition fv_fido_poll :: "fido_input \<Rightarrow> fido_core0 \<Rightarrow> fido_report option \<times> fido_core0" where
  "fv_fido_poll i s =
     (let s = fido_early i s in if fc_discard s then (None, s) else fido_send i (fido_scope s))"

definition tud_hid_set_report_cb :: "u8 list \<Rightarrow> u32 \<Rightarrow> fido_core0 \<Rightarrow> fido_core0" where
  "tud_hid_set_report_cb report now s =
     (if length report \<noteq> 64 \<or> fc_discard s then s
      else
        (let p = fv_fido_hid_receive report now (fc_hid s) in
         s\<lparr>fc_hid := p, fc_usb := (if h_cancelled p then (fc_usb s)\<lparr>us_fido_cancel := True\<rparr> else fc_usb s)\<rparr>))"

definition tud_mount_cb :: "u32 \<Rightarrow> fido_core0 \<Rightarrow> fido_core0" where
  "tud_mount_cb now s = s\<lparr>fc_enumerated_at := now, fc_usb := (fc_usb s)\<lparr>us_fido_enumerated := True\<rparr>\<rparr>"

definition fido_boot :: "(nat \<Rightarrow> usb_turn) \<Rightarrow> fido_core0" where
  "fido_boot turns = \<lparr>fc_usb = usb_boot turns, fc_hid = fv_fido_hid_reset, fc_initialized = False, fc_busy = False, fc_discard = False,
     fc_response_scoped = False, fc_response_generation = 0, fc_request_ui_owned = False, fc_keepalive_at = 0, fc_enumerated_at = 0\<rparr>"

section \<open>Runs\<close>

text \<open>The origin of the bytes being sent: the generation of the session in which the worker produced them. A
  cancelled reply and the transport's own replies have none.\<close>

definition done_origin :: "fido_done option \<Rightarrow> fido_core0 \<Rightarrow> fido_core0 \<Rightarrow> u32 option \<Rightarrow> u32 option" where
  "done_origin fin before after origin =
     (case fin of
        Some d \<Rightarrow> (if fc_discard (fido_disconnect before) \<or> h_cancelled (fc_hid after) then None else Some (fd_generation d))
      | None \<Rightarrow> (if h_transmitting (fc_hid before) then origin else None))"

inductive fido_run :: "fido_core0 \<Rightarrow> u32 option \<Rightarrow> bool" where
  Boot: "fido_run (fido_boot turns) None"
| Poll: "fido_run s og \<Longrightarrow> (fi_done i \<noteq> None \<Longrightarrow> fc_busy s) \<Longrightarrow> fv_fido_poll i s = (r, s') \<Longrightarrow>
    fido_run s' (done_origin (fi_done i) s (fido_early i s) og)"
| Report: "fido_run s og \<Longrightarrow> fido_run (tud_hid_set_report_cb report now s) (if h_transmitting (fc_hid s) then og else None)"
| Mount: "fido_run s og \<Longrightarrow> fido_run (tud_mount_cb now s) og"
| Storage: "fido_run s og \<Longrightarrow> fido_run (s\<lparr>fc_usb := u\<rparr>) og"

section \<open>The invariant\<close>

text \<open>The worker is busy only with a request of the transport, and a reply with an origin carries its scope.\<close>

definition fido_inv :: "fido_core0 \<Rightarrow> u32 option \<Rightarrow> bool" where
  "fido_inv s og \<longleftrightarrow> hid_wf (fc_hid s) \<and> (fc_busy s \<longrightarrow> h_processing (fc_hid s)) \<and> (\<not> fc_initialized s \<longrightarrow> \<not> fc_busy s) \<and>
     (\<forall>g. og = Some g \<and> h_transmitting (fc_hid s) \<longrightarrow> fc_response_scoped s \<and> fc_response_generation s = g)"

lemma receive_keeps:
  "h_processing p \<Longrightarrow> h_processing (fv_fido_hid_receive r now p)"
  "\<not> h_processing p \<Longrightarrow> h_transmitting p \<Longrightarrow> fv_fido_hid_receive r now p = p"
  by (simp_all add: fv_fido_hid_receive_def Let_def receive_processing_def)

lemma tick_keeps:
  assumes "hid_wf p"
  shows "h_processing p \<Longrightarrow> fv_fido_hid_tick now p = p" "h_transmitting p \<Longrightarrow> fv_fido_hid_tick now p = p"
    "h_cancelled (fv_fido_hid_tick now p) = h_cancelled p" "h_pending (fv_fido_hid_tick now p) = h_pending p"
  using assms by (auto simp: fv_fido_hid_tick_def hid_wf_def hid_error_def hid_reply_def drop_rx_def)

lemma complete_keeps:
  "h_cancelled (fv_fido_hid_complete x p) = h_cancelled p"
  "h_processing p \<Longrightarrow> \<not> h_pending (fv_fido_hid_complete x p)"
  by (auto simp: fv_fido_hid_complete_def Let_def init_reply_def hid_reply_def)

lemma sent_keeps:
  "h_processing (fv_fido_hid_sent p) = h_processing p" "h_transmitting (fv_fido_hid_sent p) \<Longrightarrow> h_transmitting p"
  by (auto simp: fv_fido_hid_sent_def Let_def split: if_splits)

lemma reset_idle [simp]: "\<not> h_transmitting fv_fido_hid_reset" "\<not> h_processing fv_fido_hid_reset" "\<not> h_pending fv_fido_hid_reset"
  by (simp_all add: fv_fido_hid_reset_def)

lemma wf_cancelled [simp]: "hid_wf (p\<lparr>h_cancelled := b\<rparr>) = hid_wf p"
  by (simp add: hid_wf_def)

lemma disconnect_inv:
  assumes "fido_inv s og"
  shows "fido_inv (fido_disconnect s) og" "fc_busy (fido_disconnect s) = fc_busy s"
    "h_transmitting (fc_hid (fido_disconnect s)) \<Longrightarrow> h_transmitting (fc_hid s)"
  using assms by (auto simp: fido_inv_def fido_disconnect_def Let_def split: prod.splits if_splits)

lemma stale_keeps:
  assumes "done_stale d s = (same, unlocked, s')"
  shows "hid_wf (fc_hid s) \<Longrightarrow> hid_wf (fc_hid s')" "h_processing (fc_hid s') = h_processing (fc_hid s)" "fc_discard s' = fc_discard s"
    "fc_busy s' = fc_busy s" "fc_initialized s' = fc_initialized s"
proof -
  obtain g u where g: "fv_usb_session_generation (fc_usb s) = (g, u)" by (cases "fv_usb_session_generation (fc_usb s)")
  obtain stale v where v: "(if fd_generation d = g then load_invalidate u else (True, u)) = (stale, v)" by (metis surj_pair)
  have s': "s' = s\<lparr>fc_usb := v, fc_hid := (if stale then (fc_hid s)\<lparr>h_cancelled := True\<rparr> else fc_hid s)\<rparr>"
    using assms unfolding done_stale_def g prod.case v by simp
  show "hid_wf (fc_hid s) \<Longrightarrow> hid_wf (fc_hid s')" "h_processing (fc_hid s') = h_processing (fc_hid s)" "fc_discard s' = fc_discard s"
    "fc_busy s' = fc_busy s" "fc_initialized s' = fc_initialized s" by (simp_all add: s')
qed

lemma done_cancel_keeps:
  assumes "done_cancel d same u s = (u', s')"
  shows "hid_wf (fc_hid s) \<Longrightarrow> hid_wf (fc_hid s')" "h_processing (fc_hid s') = h_processing (fc_hid s)" "fc_discard s' = fc_discard s"
    "fc_initialized s' = fc_initialized s"
  using assms by (auto simp: done_cancel_def Let_def split: prod.splits if_splits)

lemma done_poll_inv:
  fixes s fin
  assumes "fido_inv s og"
  defines "s' \<equiv> fido_done_poll fin s"
  shows "hid_wf (fc_hid s')" "fc_busy s' \<longrightarrow> h_processing (fc_hid s')" "fin = None \<Longrightarrow> s' = s"
    "fc_initialized s' = fc_initialized s" "fin \<noteq> None \<Longrightarrow> \<not> fc_busy s' \<and> \<not> fc_discard s'"
    "fin = Some d \<Longrightarrow> \<not> fc_discard s \<Longrightarrow> fc_response_scoped s' = (\<not> h_cancelled (fc_hid s')) \<and> fc_response_generation s' = fd_generation d"
    "fin = Some d \<Longrightarrow> fc_discard s \<Longrightarrow> fc_hid s' = fv_fido_hid_reset"
proof -
  have "hid_wf (fc_hid s') \<and> (fc_busy s' \<longrightarrow> h_processing (fc_hid s')) \<and> (fin = None \<longrightarrow> s' = s) \<and> fc_initialized s' = fc_initialized s \<and>
    (fin \<noteq> None \<longrightarrow> \<not> fc_busy s' \<and> \<not> fc_discard s') \<and>
    (fin = Some d \<and> \<not> fc_discard s \<longrightarrow> fc_response_scoped s' = (\<not> h_cancelled (fc_hid s')) \<and> fc_response_generation s' = fd_generation d) \<and>
    (fin = Some d \<and> fc_discard s \<longrightarrow> fc_hid s' = fv_fido_hid_reset)" for d
  proof (cases fin)
    case None
    then show ?thesis using assms by (simp add: fido_done_poll_def fido_inv_def)
  next
    case (Some e)
    obtain same u s1 where a: "done_stale e (s\<lparr>fc_request_ui_owned := False\<rparr>) = (same, u, s1)" by (cases "done_stale e (s\<lparr>fc_request_ui_owned := False\<rparr>)") auto
    obtain u2 s2 where b: "done_cancel e same u s1 = (u2, s2)" by (cases "done_cancel e same u s1") auto
    have w: "hid_wf (fc_hid s2)" "fc_discard s2 = fc_discard s" "fc_initialized s2 = fc_initialized s"
      using assms(1) stale_keeps [OF a] done_cancel_keeps [OF b] by (simp_all add: fido_inv_def)
    then show ?thesis using Some a b
      by (auto simp: s'_def fido_done_poll_def Let_def hid_wf_complete complete_keeps)
  qed
  then show "hid_wf (fc_hid s')" "fc_busy s' \<longrightarrow> h_processing (fc_hid s')" "fin = None \<Longrightarrow> s' = s"
    "fc_initialized s' = fc_initialized s" "fin \<noteq> None \<Longrightarrow> \<not> fc_busy s' \<and> \<not> fc_discard s'"
    "fin = Some d \<Longrightarrow> \<not> fc_discard s \<Longrightarrow> fc_response_scoped s' = (\<not> h_cancelled (fc_hid s')) \<and> fc_response_generation s' = fd_generation d"
    "fin = Some d \<Longrightarrow> fc_discard s \<Longrightarrow> fc_hid s' = fv_fido_hid_reset" by auto
qed

lemma request_keeps:
  fixes s i
  assumes "hid_wf (fc_hid s)"
  defines "s' \<equiv> fido_request i s"
  shows "hid_wf (fc_hid s')" "fc_initialized s' = fc_initialized s" "fc_discard s' = fc_discard s"
    "fc_response_scoped s' = fc_response_scoped s" "fc_response_generation s' = fc_response_generation s"
    "h_cancelled (fc_hid s') = h_cancelled (fc_hid s)"
    "(fc_busy s \<longrightarrow> h_processing (fc_hid s)) \<Longrightarrow> fc_busy s' \<Longrightarrow> h_processing (fc_hid s')"
    "h_transmitting (fc_hid s) \<Longrightarrow> s' = s" "\<not> h_pending (fc_hid s) \<Longrightarrow> s' = s"
proof -
  have p: "h_pending (fc_hid s) \<Longrightarrow> h_processing (fc_hid s) \<and> \<not> h_transmitting (fc_hid s)" using assms by (auto simp: hid_wf_def)
  have t: "hid_wf ((fc_hid s)\<lparr>h_pending := False\<rparr>)" using assms by (simp add: hid_wf_def)
  show "hid_wf (fc_hid s')" "fc_initialized s' = fc_initialized s" "fc_discard s' = fc_discard s"
    "fc_response_scoped s' = fc_response_scoped s" "fc_response_generation s' = fc_response_generation s"
    "h_cancelled (fc_hid s') = h_cancelled (fc_hid s)"
    "(fc_busy s \<longrightarrow> h_processing (fc_hid s)) \<Longrightarrow> fc_busy s' \<Longrightarrow> h_processing (fc_hid s')"
    "h_transmitting (fc_hid s) \<Longrightarrow> s' = s" "\<not> h_pending (fc_hid s) \<Longrightarrow> s' = s"
    using assms(1) p t
    by (auto simp: s'_def fido_request_def hid_wf_complete complete_keeps split: prod.splits if_splits)
qed

text \<open>The state at the scope check of a poll.\<close>

lemma early_inv:
  assumes v: "fido_inv s og"
  shows "fido_inv (fido_early i s) (done_origin (fi_done i) s (fido_early i s) og)"
proof -
  define s0 where "s0 = fido_disconnect s"
  define s1 where "s1 = fido_done_poll (fi_done i) s0"
  define s2 where "s2 = (if h_cancelled (fc_hid s1) then s1\<lparr>fc_usb := (fc_usb s1)\<lparr>us_fido_cancel := True\<rparr>\<rparr> else s1)"
  define s3 where "s3 = s2\<lparr>fc_hid := fv_fido_hid_tick (fi_now i) (fc_hid s2)\<rparr>"
  define e where "e = fido_early i s"
  have e: "e = (if fc_discard s1 then s1 else fido_request i s3)"
    by (simp add: e_def fido_early_def s0_def s1_def s2_def s3_def Let_def)
  have v0: "fido_inv s0 og" "h_transmitting (fc_hid s0) \<Longrightarrow> h_transmitting (fc_hid s)"
    using disconnect_inv [OF v] by (simp_all add: s0_def)
  note v1 = done_poll_inv [where fin = "fi_done i" and s = s0 and og = og, folded s1_def, OF v0(1)]
  have s2: "fc_hid s2 = fc_hid s1" "fc_busy s2 = fc_busy s1" "fc_initialized s2 = fc_initialized s1" "fc_discard s2 = fc_discard s1"
    "fc_response_scoped s2 = fc_response_scoped s1" "fc_response_generation s2 = fc_response_generation s1"
    by (simp_all add: s2_def)
  have t: "hid_wf (fc_hid s3)" "h_cancelled (fc_hid s3) = h_cancelled (fc_hid s1)" "fc_busy s3 = fc_busy s1"
    "fc_busy s3 \<longrightarrow> h_processing (fc_hid s3)" "h_transmitting (fc_hid s1) \<Longrightarrow> fc_hid s3 = fc_hid s1"
    using tick_keeps [OF v1(1)] v1(2) hid_wf_tick [OF v1(1)] by (auto simp: s3_def s2)
  note r = request_keeps [OF t(1), of i]
  have wf: "hid_wf (fc_hid e)" "fc_busy e \<longrightarrow> h_processing (fc_hid e)" "fc_initialized e = fc_initialized s0"
    "h_cancelled (fc_hid e) = h_cancelled (fc_hid s1)" "fc_response_scoped e = fc_response_scoped s1"
    "fc_response_generation e = fc_response_generation s1"
    using v1 t r by (simp_all add: e s3_def s2)
  have i0: "\<not> fc_initialized e \<longrightarrow> \<not> fc_busy e"
  proof -
    have "fc_initialized s0" by (simp add: s0_def fido_disconnect_def Let_def split: prod.splits)
    then show ?thesis using wf by simp
  qed
  have "fc_response_scoped e \<and> fc_response_generation e = g"
    if g: "done_origin (fi_done i) s e og = Some g" "h_transmitting (fc_hid e)" for g
  proof (cases "fi_done i")
    case None
    then have a: "h_transmitting (fc_hid s)" "og = Some g" using g by (auto simp: done_origin_def split: if_splits)
    have s1: "s1 = s0" using None v1(3) by simp
    have "h_transmitting (fc_hid s0)"
    proof (rule ccontr)
      assume n: "\<not> h_transmitting (fc_hid s0)"
      then have "fc_hid s0 = fv_fido_hid_reset"
        using a by (auto simp: s0_def fido_disconnect_def Let_def split: prod.splits if_splits)
      then have "fc_hid s3 = fv_fido_hid_reset"
        using s1 by (simp add: s3_def s2 fv_fido_hid_tick_def fv_fido_hid_reset_def)
      then have "fc_hid e = fv_fido_hid_reset" using r(9) s1 \<open>fc_hid s0 = fv_fido_hid_reset\<close> by (simp add: e)
      then show False using g(2) by simp
    qed
    then show ?thesis using v0(1) a s1 wf by (simp add: fido_inv_def)
  next
    case (Some d)
    then have "\<not> fc_discard s0" "\<not> h_cancelled (fc_hid e)" "g = fd_generation d"
      using g(1) by (auto simp: done_origin_def s0_def split: if_splits)
    then show ?thesis using v1(6) [OF Some] wf by simp
  qed
  then show ?thesis using wf i0 by (simp add: fido_inv_def e_def)
qed

section \<open>The scope of a reply\<close>

definition scope_current :: "u32 \<Rightarrow> usb_core \<Rightarrow> bool" where
  "scope_current g u = (case fv_usb_session_generation u of (published, u) \<Rightarrow> published = g \<and> \<not> fst (load_invalidate u))"

lemma scope_cases:
  assumes "fc_response_scoped s" "fc_response_generation s = g"
  shows "scope_current g (fc_usb s) \<Longrightarrow> fc_hid (fido_scope s) = fc_hid s \<and> fc_response_scoped (fido_scope s)"
    "\<not> scope_current g (fc_usb s) \<Longrightarrow> h_tx (fc_hid (fido_scope s)) = zeros 4096 \<and> \<not> h_transmitting (fc_hid (fido_scope s))"
  using assms by (auto simp: fido_scope_def scope_current_def wipe_reply_def split: prod.splits if_splits)

lemma scope_keeps:
  "hid_wf (fc_hid s) \<Longrightarrow> hid_wf (fc_hid (fido_scope s))" "h_processing (fc_hid (fido_scope s)) = h_processing (fc_hid s)"
  "fc_busy (fido_scope s) = fc_busy s" "fc_initialized (fido_scope s) = fc_initialized s"
  "fc_response_generation (fido_scope s) = fc_response_generation s"
  "h_transmitting (fc_hid (fido_scope s)) \<Longrightarrow>
     h_transmitting (fc_hid s) \<and> fc_response_scoped (fido_scope s) = fc_response_scoped s"
  by (auto simp: fido_scope_def wipe_reply_def hid_wf_def split: prod.splits if_splits)

lemma fido_inv_scope: "fido_inv s og \<Longrightarrow> fido_inv (fido_scope s) og"
  using scope_keeps [of s] by (auto simp: fido_inv_def)

lemma fido_inv_control: "fido_inv s og \<Longrightarrow> fido_inv (s\<lparr>fc_hid := (fc_hid s)\<lparr>h_control_pending := False\<rparr>\<rparr>) og"
  by (simp add: fido_inv_def hid_wf_def)

lemma fido_inv_send:
  assumes "fido_inv s og" "fido_send i s = (r, s')"
  shows "fido_inv s' og"
proof -
  have "fido_inv (s\<lparr>fc_hid := fv_fido_hid_sent (fc_hid s),
      fc_response_scoped := fc_response_scoped s \<and> h_transmitting (fv_fido_hid_sent (fc_hid s))\<rparr>) og"
    using assms(1) sent_keeps [of "fc_hid s"] hid_wf_sent [of "fc_hid s"] by (auto simp: fido_inv_def)
  moreover have "fido_inv (s\<lparr>fc_keepalive_at := n\<rparr>) og" for n using assms(1) by (simp add: fido_inv_def)
  ultimately show ?thesis
    using assms fido_inv_control [OF assms(1)] by (auto simp: fido_send_def Let_def split: if_splits option.splits)
qed

lemma poll_inv:
  assumes "fido_inv s og" "fv_fido_poll i s = (r, s')"
  shows "fido_inv s' (done_origin (fi_done i) s (fido_early i s) og)"
  using early_inv [OF assms(1), of i] assms(2) fido_inv_send [OF fido_inv_scope [OF early_inv [OF assms(1), of i]]]
  by (auto simp: fv_fido_poll_def Let_def split: if_splits)

lemma report_inv:
  assumes v: "fido_inv s og"
  shows "fido_inv (tud_hid_set_report_cb report now s) (if h_transmitting (fc_hid s) then og else None)"
proof -
  have q: "\<not> (h_processing (fc_hid s) \<and> h_transmitting (fc_hid s))" using v by (auto simp: fido_inv_def hid_wf_def)
  have "length report = 64 \<Longrightarrow> hid_wf (fv_fido_hid_receive report now (fc_hid s))"
    using v hid_wf_receive [of "fc_hid s" report now] by (simp add: fido_inv_def)
  then show ?thesis
    using v q receive_keeps [of "fc_hid s" report now] by (auto simp: tud_hid_set_report_cb_def fido_inv_def Let_def)
qed

lemma fido_run_inv: "fido_run s og \<Longrightarrow> fido_inv s og"
proof (induction rule: fido_run.induct)
  case (Boot turns)
  show ?case by (simp add: fido_inv_def fido_boot_def)
next
  case (Mount s og now)
  then show ?case by (simp add: fido_inv_def tud_mount_cb_def)
next
  case (Storage s og u)
  then show ?case by (simp add: fido_inv_def)
next
  case (Report s og report now)
  show ?case by (rule report_inv [OF Report.IH])
next
  case (Poll s og i r s')
  show ?case by (rule poll_inv [OF Poll.IH Poll.hyps(3)])
qed

lemma send_data:
  assumes "fido_send i s = (Some (Data_Report x), s')"
  shows "h_transmitting (fc_hid s)"
  using assms by (auto simp: fido_send_def fv_fido_hid_peek_def Let_def split: if_splits option.splits)

lemma send_idle:
  assumes "fido_send i s = (r, s')" "\<not> h_transmitting (fc_hid s)"
  shows "h_tx (fc_hid s') = h_tx (fc_hid s)"
  using assms by (auto simp: fido_send_def fv_fido_hid_peek_def Let_def split: if_splits option.splits)

text \<open>C36. The bytes of a reply leave the device only in the session that produced them. In every state core 0
  can reach, with interrupts and the worker acting between any two accesses, a poll sends a part of a worker's reply
  only if, in that poll, the published session is the one the worker had when it produced the reply and
  no invalidation is pending. If the session has ended in the middle of a reply, what is left of it is
  erased in the same poll.\<close>

theorem fido_reply_scoped:
  assumes "fido_run s og" and "fi_done i \<noteq> None \<Longrightarrow> fc_busy s" and "fv_fido_poll i s = (r, s')"
    and "done_origin (fi_done i) s (fido_early i s) og = Some g"
  shows "(\<forall>x. r = Some (Data_Report x) \<longrightarrow> scope_current g (fc_usb (fido_early i s))) \<and>
    (h_transmitting (fc_hid (fido_early i s)) \<and> \<not> fc_discard (fido_early i s) \<and> \<not> scope_current g (fc_usb (fido_early i s)) \<longrightarrow>
       h_tx (fc_hid s') = zeros 4096 \<and> \<not> h_transmitting (fc_hid s'))"
proof -
  define e where "e = fido_early i s"
  have v: "fido_inv e (Some g)" using early_inv [OF fido_run_inv [OF assms(1)], of i] assms(4) by (simp add: e_def)
  have p: "(if fc_discard e then (None, e) else fido_send i (fido_scope e)) = (r, s')"
    using assms(3) by (simp only: fv_fido_poll_def e_def Let_def)
  have scoped: "h_transmitting (fc_hid e) \<Longrightarrow> fc_response_scoped e \<and> fc_response_generation e = g"
    using v by (simp add: fido_inv_def)
  have a: "scope_current g (fc_usb e)" if "r = Some (Data_Report x)" for x
  proof -
    have t: "h_transmitting (fc_hid (fido_scope e))" using p that send_data by (auto split: if_splits)
    then show ?thesis using scoped scope_keeps(6) [of e] scope_cases(2) [of e g] by blast
  qed
  have b: "h_tx (fc_hid s') = zeros 4096 \<and> \<not> h_transmitting (fc_hid s')"
    if "h_transmitting (fc_hid e)" "\<not> fc_discard e" "\<not> scope_current g (fc_usb e)"
  proof -
    have w: "h_tx (fc_hid (fido_scope e)) = zeros 4096" "\<not> h_transmitting (fc_hid (fido_scope e))"
      using that scoped scope_cases(2) [of e g] by auto
    moreover have "fido_send i (fido_scope e) = (r, s')" using p that by simp
    moreover have "\<not> h_transmitting (fc_hid s')"
      using w(2) \<open>fido_send i (fido_scope e) = (r, s')\<close>
      by (auto simp: fido_send_def fv_fido_hid_peek_def Let_def split: if_splits option.splits)
    ultimately show ?thesis using send_idle by metis
  qed
  show ?thesis using a b by (auto simp: e_def)
qed

section \<open>An example\<close>

definition quiet_turn :: usb_turn where
  "quiet_turn = \<lparr>ut_event = None, ut_generation = 1, ut_answered = True, ut_answer = (\<lambda>rq. (response_zero, [])), ut_accepts = True,
     ut_fido_busy = False, ut_disk_available = False, ut_maintenance = False\<rparr>"

definition quiet_core :: "fv_fido_hid_t \<Rightarrow> bool \<Rightarrow> fido_core0" where
  "quiet_core p busy = (fido_boot (\<lambda>_. quiet_turn))\<lparr>fc_hid := p, fc_busy := busy, fc_initialized := True\<rparr>"

definition quiet_input :: "fido_done option \<Rightarrow> fido_input" where
  "quiet_input fin = \<lparr>fi_done = fin, fi_now = 0, fi_ui_available = True, fi_prompt = False, fi_hid_ready = True, fi_report_sent = True\<rparr>"

lemma quiet_turn_step: "us_turns s = (\<lambda>_. quiet_turn) \<Longrightarrow> turn s = (quiet_turn, s\<lparr>us_read := Suc (us_read s)\<rparr>)"
  by (simp add: turn_def quiet_turn_def)

lemma quiet_loads:
  assumes "us_turns s = (\<lambda>_. quiet_turn)"
  shows "exchange_disconnected s = (us_fido_disconnected s, s\<lparr>us_read := Suc (us_read s), us_fido_disconnected := False\<rparr>)"
    "load_cancel s = (us_fido_cancel s, s\<lparr>us_read := Suc (us_read s)\<rparr>)"
    "load_invalidate s = (us_invalidate s, s\<lparr>us_read := Suc (us_read s)\<rparr>)"
    "load_maintenance s = (False, s\<lparr>us_read := Suc (us_read s)\<rparr>)"
    "fv_usb_session_generation s = (1, s\<lparr>us_read := Suc (us_read s)\<rparr>)"
  by (simp_all add: assms exchange_disconnected_def load_cancel_def load_invalidate_def load_maintenance_def
      fv_usb_session_generation_def quiet_turn_step) (simp_all add: quiet_turn_def)

lemma quiet_disconnect:
  assumes "s = quiet_core p b \<or> (s = fido_boot (\<lambda>_. quiet_turn) \<and> p = fv_fido_hid_reset \<and> \<not> b)"
  shows "fido_disconnect s = (quiet_core p b)\<lparr>fc_usb := (fc_usb (quiet_core p b))\<lparr>us_read := Suc 0\<rparr>\<rparr>"
  using assms by (auto simp: fido_disconnect_def quiet_core_def fido_boot_def usb_boot_def quiet_loads)

text \<open>The states between polls, up to the position in the schedule.\<close>

lemma quiet_poll:
  assumes "fido_run s None" "s = quiet_core p b \<or> (s = fido_boot (\<lambda>_. quiet_turn) \<and> p = fv_fido_hid_reset \<and> \<not> b)"
    "fido_send (quiet_input None) (fido_scope (fido_request (quiet_input None)
       ((quiet_core p b)\<lparr>fc_usb := (fc_usb (quiet_core p b))\<lparr>us_read := Suc 0\<rparr>\<rparr>))) = (r, (quiet_core q b')\<lparr>fc_usb := u\<rparr>)"
    "\<not> h_cancelled p" "\<not> h_receiving p"
  shows "fido_run (quiet_core q b') None"
proof -
  have "fc_discard (fido_request (quiet_input None) s) = fc_discard s" for s
    by (auto simp: fido_request_def split: prod.splits)
  then have "fv_fido_poll (quiet_input None) s = (r, (quiet_core q b')\<lparr>fc_usb := u\<rparr>)"
    using assms(3-5) quiet_disconnect [OF assms(2)]
    by (simp add: fv_fido_poll_def fido_early_def fido_done_poll_def Let_def quiet_core_def fido_boot_def quiet_input_def
        fv_fido_hid_tick_def)
  then have "fido_run ((quiet_core q b')\<lparr>fc_usb := u\<rparr>) None"
    using fido_run.Poll [OF assms(1), of "quiet_input None"] by (simp add: quiet_input_def done_origin_def)
  then have "fido_run ((quiet_core q b')\<lparr>fc_usb := u, fc_usb := fc_usb (quiet_core q b')\<rparr>) None"
    by (rule fido_run.Storage)
  then show ?thesis by simp
qed

lemma quiet_report:
  assumes "fido_run (quiet_core p b) None" "length r = 64" "\<not> h_cancelled (fv_fido_hid_receive r 0 p)"
  shows "fido_run (quiet_core (fv_fido_hid_receive r 0 p) b) None"
  using fido_run.Report [OF assms(1), of r 0] assms(2,3)
  by (simp add: tud_hid_set_report_cb_def quiet_core_def fido_boot_def Let_def split: if_splits)

definition quiet_opened :: fv_fido_hid_t where
  "quiet_opened = fv_fido_hid_receive init_report 0 fv_fido_hid_reset"

definition quiet_requested :: fv_fido_hid_t where
  "quiet_requested = fold (\<lambda>r. fv_fido_hid_receive r 0) (message_reports 1 CBOR [4]) (fv_fido_hid_sent quiet_opened)"

lemma quiet_opened_facts: "hid_wf quiet_opened" "h_channels quiet_opened = [1, 0, 0, 0]" "\<not> h_processing quiet_opened"
  "h_transmitting quiet_opened" "\<not> h_receiving quiet_opened" "\<not> h_cancelled quiet_opened" "\<not> h_control_pending quiet_opened"
  "\<not> h_pending quiet_opened" "h_tx_size quiet_opened = 17" "h_tx_used quiet_opened = 0"
proof -
  have i: "get32 init_report = BROADCAST" "init_report ! 4 = INIT" "init_report ! 5 = 0" "init_report ! 6 = 8"
    by (simp_all add: init_report_def get32_put32 nth_append)
  show "hid_wf quiet_opened" unfolding quiet_opened_def by (rule hid_wf_receive) (simp_all add: init_report_def pad_def)
  show "h_channels quiet_opened = [1, 0, 0, 0]" "\<not> h_processing quiet_opened" "h_transmitting quiet_opened" "\<not> h_receiving quiet_opened"
    "\<not> h_cancelled quiet_opened" "\<not> h_control_pending quiet_opened" "\<not> h_pending quiet_opened" "h_tx_size quiet_opened = 17"
    "h_tx_used quiet_opened = 0"
    by (simp_all add: quiet_opened_def i fv_fido_hid_receive_def receive_init_def assign_channel_def init_reply_def hid_reply_def
        drop_rx_def fv_fido_hid_reset_def Let_def BROADCAST_def)
qed

lemma rx_complete_control: "h_control_pending (rx_complete p) = h_control_pending p"
  by (simp add: rx_complete_def hid_reply_def Let_def)

lemma receive_data_control: "h_control_pending (receive_data p r k now) = h_control_pending p"
  by (simp add: receive_data_def Let_def rx_complete_control)

lemma hid_error_control: "h_control_pending (hid_error p c e) = h_control_pending p" "h_control_pending (drop_rx p) = h_control_pending p"
  by (simp_all add: hid_error_def hid_reply_def drop_rx_def)

lemma assign_channel_control: "assign_channel p c = (q, a) \<Longrightarrow> h_control_pending q = h_control_pending p"
  by (auto simp: assign_channel_def Let_def split: if_splits)

lemma receive_init_control: "h_control_pending (receive_init p r c) = h_control_pending p"
  using assign_channel_control [of p c]
  by (auto simp: receive_init_def hid_error_control init_reply_def hid_reply_def split: prod.splits)

lemma receive_control: "\<not> h_processing p \<Longrightarrow> h_control_pending (fv_fido_hid_receive r now p) = h_control_pending p"
  by (simp add: fv_fido_hid_receive_def Let_def hid_error_control receive_init_control receive_cancel_def receive_start_def
      receive_data_control receive_continuation_def)

lemma quiet_requested_facts: "h_pending quiet_requested" "h_processing quiet_requested" "\<not> h_cancelled quiet_requested"
  "\<not> h_transmitting quiet_requested" "\<not> h_receiving quiet_requested" "\<not> h_resync_requested quiet_requested"
  "\<not> h_control_pending quiet_requested" "\<exists>r. length r = 64 \<and> quiet_requested = fv_fido_hid_receive r 0 (fv_fido_hid_sent quiet_opened)"
proof -
  have p: "hid_idle (fv_fido_hid_sent quiet_opened)" "h_channels (fv_fido_hid_sent quiet_opened) = [1, 0, 0, 0]"
    "\<not> h_control_pending (fv_fido_hid_sent quiet_opened)"
    using quiet_opened_facts by (simp_all add: hid_idle_def fv_fido_hid_sent_def Let_def remaining_def)
  then have k: "hid_known (fv_fido_hid_sent quiet_opened) 1" by (simp add: hid_known_def BROADCAST_def)
  note d = deliver_cbor [OF hid_wf_sent [OF quiet_opened_facts(1)] p(1) k, of "[4]" 0, folded quiet_requested_def]
  show f: "h_pending quiet_requested" "h_processing quiet_requested" "\<not> h_cancelled quiet_requested" "\<not> h_receiving quiet_requested"
    "\<not> h_resync_requested quiet_requested" using d by simp_all
  have m: "message_reports 1 CBOR [4] = [put32 1 @ [CBOR, 0, 1] @ pad 57 [4]]" by (simp add: message_reports_def continuations.simps)
  let ?r = "put32 1 @ [CBOR, 0, 1] @ pad 57 [4]"
  have q: "quiet_requested = fv_fido_hid_receive ?r 0 (fv_fido_hid_sent quiet_opened)" by (simp add: quiet_requested_def m)
  then show "\<exists>r. length r = 64 \<and> quiet_requested = fv_fido_hid_receive r 0 (fv_fido_hid_sent quiet_opened)"
    by (intro exI [of _ ?r]) (simp add: pad_def)
  have "hid_wf quiet_requested"
    unfolding q by (rule hid_wf_receive [OF hid_wf_sent [OF quiet_opened_facts(1)]]) (simp add: pad_def)
  then show "\<not> h_transmitting quiet_requested" using f by (auto simp: hid_wf_def)
  show "\<not> h_control_pending quiet_requested"
    using p receive_control unfolding q by (simp add: hid_idle_def)
qed

lemma quiet_scope: "fido_scope ((quiet_core p b)\<lparr>fc_usb := u\<rparr>) = (quiet_core p b)\<lparr>fc_usb := u\<rparr>"
  by (simp add: fido_scope_def quiet_core_def fido_boot_def)

lemma quiet_send:
  assumes "\<not> h_transmitting p" "\<not> h_control_pending p"
  shows "fido_send (quiet_input f) ((quiet_core p b)\<lparr>fc_usb := u\<rparr>) = (None, (quiet_core p b)\<lparr>fc_usb := u\<rparr>)"
  using assms by (simp add: fido_send_def fv_fido_hid_peek_def quiet_input_def quiet_core_def fido_boot_def)

lemma quiet_send_data:
  assumes "h_transmitting p" "\<not> h_control_pending p" "fv_fido_hid_peek p = Some x"
  shows "fido_send (quiet_input f) ((quiet_core p b)\<lparr>fc_usb := u\<rparr>) = (Some (Data_Report x), (quiet_core (fv_fido_hid_sent p) b)\<lparr>fc_usb := u\<rparr>)"
  using assms by (simp add: fido_send_def quiet_input_def quiet_core_def fido_boot_def Let_def)

lemma quiet_no_request:
  "\<not> h_pending p \<Longrightarrow> fido_request i ((quiet_core p b)\<lparr>fc_usb := u\<rparr>) = (quiet_core p b)\<lparr>fc_usb := u\<rparr>"
  by (simp add: fido_request_def quiet_core_def)

lemma quiet_request:
  assumes "h_pending p" "\<not> h_cancelled p"
  shows "\<exists>u. fido_request (quiet_input None) ((quiet_core p False)\<lparr>fc_usb := (fc_usb (quiet_core p False))\<lparr>us_read := Suc 0\<rparr>\<rparr>) =
    (quiet_core (p\<lparr>h_pending := False\<rparr>) True)\<lparr>fc_usb := u\<rparr>"
  using assms
  by (simp add: fido_request_def quiet_core_def fido_boot_def usb_boot_def quiet_loads fv_usb_worker_idle_def async_poll_def
      quiet_turn_step quiet_input_def) (simp add: quiet_turn_def)

lemma quiet_peek: "h_transmitting p \<Longrightarrow> \<exists>x. fv_fido_hid_peek p = Some x"
  by (simp add: fv_fido_hid_peek_def Let_def split: prod.splits)

lemma quiet_run: "fido_run (quiet_core (quiet_requested\<lparr>h_pending := False\<rparr>) True) None"
proof -
  have z: "\<not> h_control_pending fv_fido_hid_reset" "\<not> h_receiving fv_fido_hid_reset" "\<not> h_cancelled fv_fido_hid_reset"
    by (simp_all add: fv_fido_hid_reset_def)
  have r0: "fido_run (quiet_core fv_fido_hid_reset False) None"
    by (rule quiet_poll [OF fido_run.Boot [of "\<lambda>_. quiet_turn"], of fv_fido_hid_reset False])
       (simp_all add: quiet_no_request quiet_scope quiet_send z)
  have r1: "fido_run (quiet_core quiet_opened False) None"
    using quiet_report [OF r0, of init_report] quiet_opened_facts(6) unfolding quiet_opened_def by (simp add: init_report_def pad_def)
  obtain x where x: "fv_fido_hid_peek quiet_opened = Some x" using quiet_peek quiet_opened_facts(4) by blast
  have r2: "fido_run (quiet_core (fv_fido_hid_sent quiet_opened) False) None"
    by (rule quiet_poll [OF r1, of quiet_opened False])
       (simp_all add: quiet_no_request quiet_scope quiet_send_data [OF _ _ x] quiet_opened_facts)
  have r3: "fido_run (quiet_core quiet_requested False) None"
  proof -
    obtain r where r: "length r = 64" "quiet_requested = fv_fido_hid_receive r 0 (fv_fido_hid_sent quiet_opened)"
      using quiet_requested_facts(8) by blast
    show ?thesis unfolding r(2) by (rule quiet_report [OF r2 r(1)]) (use quiet_requested_facts(3) r(2) in simp)
  qed
  obtain u where u: "fido_request (quiet_input None)
      ((quiet_core quiet_requested False)\<lparr>fc_usb := (fc_usb (quiet_core quiet_requested False))\<lparr>us_read := Suc 0\<rparr>\<rparr>) =
    (quiet_core (quiet_requested\<lparr>h_pending := False\<rparr>) True)\<lparr>fc_usb := u\<rparr>"
    using quiet_request [of quiet_requested] quiet_requested_facts by blast
  show ?thesis
    by (rule quiet_poll [OF r3, of quiet_requested False]) (simp_all add: u quiet_scope quiet_send quiet_requested_facts)
qed

definition quiet_done :: fido_done where
  "quiet_done = \<lparr>fd_reply = (2, 0 # zeros 4095), fd_generation = 1, fd_unlocked = True, fd_locks_session = False\<rparr>"

lemma done_facts: "fd_generation quiet_done = 1" "fd_unlocked quiet_done" "\<not> fd_locks_session quiet_done"
  by (simp_all add: quiet_done_def)

definition quiet_busy :: fido_core0 where
  "quiet_busy = quiet_core (quiet_requested\<lparr>h_pending := False\<rparr>) True"

lemma quiet_early:
  defines "p \<equiv> fv_fido_hid_complete (done_bytes quiet_done) (quiet_requested\<lparr>h_pending := False\<rparr>)"
  shows "\<exists>u. fido_early (quiet_input (Some quiet_done)) quiet_busy =
     (quiet_core p False)\<lparr>fc_usb := u, fc_response_scoped := True, fc_response_generation := 1\<rparr> \<and> us_turns u = (\<lambda>_. quiet_turn) \<and>
     \<not> us_invalidate u" "h_transmitting p" "\<not> h_control_pending p" "\<not> h_cancelled p"
proof -
  show p: "h_transmitting p" "\<not> h_control_pending p" "\<not> h_cancelled p"
    using quiet_requested_facts by (auto simp: p_def fv_fido_hid_complete_def Let_def hid_reply_def)
  have "\<not> h_pending p" using quiet_requested_facts by (auto simp: p_def fv_fido_hid_complete_def Let_def hid_reply_def)
  moreover have d: "fido_disconnect quiet_busy =
      (quiet_core (quiet_requested\<lparr>h_pending := False\<rparr>) True)\<lparr>fc_usb := (usb_boot (\<lambda>_. quiet_turn))\<lparr>us_read := Suc 0\<rparr>\<rparr>"
    using quiet_disconnect [of quiet_busy "quiet_requested\<lparr>h_pending := False\<rparr>" True] by (simp add: quiet_busy_def quiet_core_def fido_boot_def)
  ultimately show "\<exists>u. fido_early (quiet_input (Some quiet_done)) quiet_busy =
     (quiet_core p False)\<lparr>fc_usb := u, fc_response_scoped := True, fc_response_generation := 1\<rparr> \<and> us_turns u = (\<lambda>_. quiet_turn) \<and>
     \<not> us_invalidate u"
    using p quiet_requested_facts
    by (simp add: d fido_early_def fido_done_poll_def Let_def quiet_core_def fido_boot_def usb_boot_def quiet_loads
        quiet_input_def done_facts done_stale_def done_cancel_def p_def [symmetric]
        fv_device_ui_media_changed_def fv_fido_hid_tick_def fido_request_def)
qed

lemma fido_reply_scoped_witness:
  "\<exists>s og i r s' g x. fido_run s og \<and> (fi_done i \<noteq> None \<longrightarrow> fc_busy s) \<and> fv_fido_poll i s = (r, s') \<and>
     done_origin (fi_done i) s (fido_early i s) og = Some g \<and> r = Some (Data_Report x) \<and> scope_current g (fc_usb (fido_early i s))"
proof -
  let ?i = "quiet_input (Some quiet_done)"
  define p where "p = fv_fido_hid_complete (done_bytes quiet_done) (quiet_requested\<lparr>h_pending := False\<rparr>)"
  obtain u where u: "fido_early ?i quiet_busy =
      (quiet_core p False)\<lparr>fc_usb := u, fc_response_scoped := True, fc_response_generation := 1\<rparr>"
    "us_turns u = (\<lambda>_. quiet_turn)" "\<not> us_invalidate u"
    using quiet_early(1) unfolding p_def by blast
  note p = quiet_early(2-4) [folded p_def]
  obtain x where x: "fv_fido_hid_peek p = Some x" using quiet_peek p(1) by blast
  have run: "fido_run quiet_busy None" "fi_done ?i \<noteq> None \<Longrightarrow> fc_busy quiet_busy"
    using quiet_run by (simp_all add: quiet_busy_def quiet_core_def)
  obtain r s' where poll: "fv_fido_poll ?i quiet_busy = (r, s')" by (cases "fv_fido_poll ?i quiet_busy")
  let ?e = "(quiet_core p False)\<lparr>fc_usb := u, fc_response_scoped := True, fc_response_generation := 1\<rparr>"
  have i: "fi_hid_ready ?i" "fi_report_sent ?i" "fi_done ?i = Some quiet_done" by (simp_all add: quiet_input_def)
  have "fv_fido_poll ?i quiet_busy = fido_send ?i (fido_scope ?e)"
    by (simp add: fv_fido_poll_def u(1) Let_def quiet_core_def fido_boot_def)
  moreover have "fst (fido_send ?i (fido_scope ?e)) = Some (Data_Report x)"
    using x p u(2,3) by (simp add: i Let_def quiet_core_def fido_boot_def fido_scope_def quiet_loads fido_send_def)
  ultimately have r: "r = Some (Data_Report x)" using poll by (metis fst_conv)
  have "\<not> fc_discard (fido_disconnect quiet_busy)"
    using quiet_disconnect [of quiet_busy "quiet_requested\<lparr>h_pending := False\<rparr>" True] by (simp add: quiet_busy_def quiet_core_def fido_boot_def)
  then have og: "done_origin (fi_done ?i) quiet_busy (fido_early ?i quiet_busy) None = Some 1"
    using p by (simp add: done_origin_def u(1) i quiet_core_def done_facts)
  have "scope_current 1 (fc_usb (fido_early ?i quiet_busy))"
    using fido_reply_scoped [OF run poll og] r by blast
  then show ?thesis using run poll og r by blast
qed

end
