(* ===== verification/Sd_Native.thy ===== *)
theory Sd_Native
  imports Block_Device
begin

text \<open>
  The driver of the native SD card (\<^verbatim>\<open>src/src/pico/platform/sd_native.c\<close>): the block device that the vault,
  the authenticated store and the passkey journal stand on. The card library (\<^verbatim>\<open>pico_sd\<close>, third party), its SDIO
  engine and the pins are parameters that thread the state \<open>'c\<close> of the hardware. A failing transfer
  stops the engine and closes the driver until the card is initialised again. The interface has no buffer
  addresses, so the checks of buffer alignment are left out.
\<close>

section \<open>The card library\<close>

text \<open>\<open>sdl_patience\<close> is the number of status requests that fit before the deadline of \<^verbatim>\<open>finish\<close>.\<close>

record 'c sd_card_lib =
  sdl_detected :: "'c \<Rightarrow> bool"
  sdl_init_driver :: "'c \<Rightarrow> bool \<times> 'c"
  sdl_init :: "'c \<Rightarrow> bool \<times> 'c"
  sdl_sectors :: "'c \<Rightarrow> u32"
  sdl_ocr :: "'c \<Rightarrow> u32"
  sdl_read :: "u32 \<Rightarrow> nat \<Rightarrow> 'c \<Rightarrow> bool \<times> u8 list \<times> 'c"
  sdl_write :: "u32 \<Rightarrow> nat \<Rightarrow> u8 list \<Rightarrow> 'c \<Rightarrow> bool \<times> 'c"
  sdl_sync :: "'c \<Rightarrow> bool \<times> 'c"
  sdl_status :: "'c \<Rightarrow> u32 option \<times> 'c"
  sdl_patience :: "'c \<Rightarrow> nat"
  sdl_claimed :: "'c \<Rightarrow> bool"
  sdl_abort :: "'c \<Rightarrow> 'c"
  sdl_forget_write :: "'c \<Rightarrow> 'c"
  sdl_no_init :: "'c \<Rightarrow> 'c"
  sdl_deinit :: "'c \<Rightarrow> 'c"

definition SDIO_MAX_BLOCKS :: nat where "SDIO_MAX_BLOCKS = 256"

text \<open>The cached size is only ever assigned a 32-bit sector count or zero.\<close>

record fv_rp2354_sd =
  sd_blocks :: u32
  sd_initialized :: bool
  sd_high_capacity :: bool
  sd_detect_configured :: bool
  sd_physical_present :: bool
  sd_insertion_pending :: bool
  sd_removal_pending :: bool
  sd_failure_pending :: bool

definition sd_zero :: fv_rp2354_sd where
  "sd_zero = \<lparr>sd_blocks = 0, sd_initialized = False, sd_high_capacity = False, sd_detect_configured = False,
     sd_physical_present = False, sd_insertion_pending = False, sd_removal_pending = False, sd_failure_pending = False\<rparr>"

section \<open>Faults and initialisation\<close>

definition sd_halt :: "'c sd_card_lib \<Rightarrow> 'c \<Rightarrow> 'c" where
  "sd_halt C c = sdl_no_init C (sdl_forget_write C (if sdl_claimed C c then sdl_abort C c else c))"

definition sd_fault :: "'c sd_card_lib \<Rightarrow> fv_rp2354_sd \<times> 'c \<Rightarrow> fv_rp2354_sd \<times> 'c" where
  "sd_fault C = (\<lambda>(s, c).
     let c = sd_halt C c;
         s = (if \<not> sdl_detected C c then s\<lparr>sd_removal_pending := True\<rparr> else s\<lparr>sd_failure_pending := True\<rparr>)
     in (s\<lparr>sd_initialized := False, sd_blocks := 0\<rparr>, c))"

definition sd_initialize :: "'c sd_card_lib \<Rightarrow> fv_rp2354_sd \<times> 'c \<Rightarrow> bool \<times> fv_rp2354_sd \<times> 'c" where
  "sd_initialize C = (\<lambda>(s, c).
     let s = s\<lparr>sd_initialized := False, sd_blocks := 0\<rparr> in
     if \<not> sdl_detected C c then (False, s, c)
     else case sdl_init_driver C c of (ok, c) \<Rightarrow>
       if \<not> ok then (False, s, c)
       else case sdl_init C (sdl_no_init C c) of (ok, c) \<Rightarrow>
         if \<not> ok \<or> sdl_sectors C c = 0 \<or> \<not> bit (sdl_ocr C c) 30 then (False, s, sd_halt C c)
         else (True, s\<lparr>sd_blocks := sdl_sectors C c, sd_high_capacity := True, sd_initialized := True\<rparr>, c))"

section \<open>Transfers\<close>

definition sd_validate :: "'c sd_card_lib \<Rightarrow> nat \<Rightarrow> nat \<Rightarrow> fv_rp2354_sd \<times> 'c \<Rightarrow> fv_block_result \<times> fv_rp2354_sd \<times> 'c" where
  "sd_validate C first cnt = (\<lambda>(s, c).
     if cnt = 0 then (FV_BLOCK_ERROR_INVALID_ARGUMENT, s, c)
     else if \<not> sd_initialized s then (FV_BLOCK_ERROR_NOT_READY, s, c)
     else if \<not> sdl_detected C c then (FV_BLOCK_ERROR_NOT_READY, sd_fault C (s, c))
     else if first \<ge> unat (sd_blocks s) \<or> cnt > unat (sd_blocks s) - first then (FV_BLOCK_ERROR_OUT_OF_RANGE, s, c)
     else (FV_BLOCK_OK, s, c))"

text \<open>The card must report no error, be ready for data and back in the transfer state.\<close>

fun sd_ready_loop :: "'c sd_card_lib \<Rightarrow> nat \<Rightarrow> 'c \<Rightarrow> bool \<times> 'c" where
  "sd_ready_loop C n c =
     (case sdl_status C c of (None, c) \<Rightarrow> (False, c)
      | (Some status, c) \<Rightarrow>
          if status AND 0xfdffe008 \<noteq> 0 then (False, c)
          else if status AND 0x100 \<noteq> 0 \<and> drop_bit 9 status AND 15 = 4 then (True, c)
          else (case n of 0 \<Rightarrow> (False, c) | Suc n \<Rightarrow> sd_ready_loop C n c))"

declare sd_ready_loop.simps [simp del]

definition sd_finish :: "'c sd_card_lib \<Rightarrow> 'c \<Rightarrow> bool \<times> 'c" where
  "sd_finish C c = (case sdl_sync C c of (ok, c) \<Rightarrow> if \<not> ok then (False, c) else sd_ready_loop C (sdl_patience C c) c)"

text \<open>The card address of a piece, computed in 32 bits.\<close>

definition sd_address :: "nat \<Rightarrow> nat \<Rightarrow> u32" where
  "sd_address first i = of_nat first + of_nat i"

function sd_read_loop :: "'c sd_card_lib \<Rightarrow> nat \<Rightarrow> nat \<Rightarrow> nat \<Rightarrow> u8 list \<Rightarrow> fv_rp2354_sd \<times> 'c
    \<Rightarrow> fv_block_result \<times> u8 list \<times> fv_rp2354_sd \<times> 'c" where
  "sd_read_loop C first cnt i out (s, c) =
     (if i \<ge> cnt then (FV_BLOCK_OK, out, s, c)
      else
        (let n = min (cnt - i) SDIO_MAX_BLOCKS in
         case sdl_read C (sd_address first i) n c of (ok, bytes, c) \<Rightarrow>
           if \<not> ok then (FV_BLOCK_ERROR_IO, zeros (cnt * 512), sd_fault C (s, c))
           else sd_read_loop C first cnt (i + n) (memcpy out (i * 512) bytes) (s, c)))"
  by pat_completeness auto
termination
  by (relation "measure (\<lambda>(C, first, cnt, i, out, x). cnt - i)") (auto simp: SDIO_MAX_BLOCKS_def)

function sd_write_loop :: "'c sd_card_lib \<Rightarrow> nat \<Rightarrow> nat \<Rightarrow> nat \<Rightarrow> u8 list \<Rightarrow> fv_rp2354_sd \<times> 'c
    \<Rightarrow> fv_block_result \<times> fv_rp2354_sd \<times> 'c" where
  "sd_write_loop C first cnt i data (s, c) =
     (if i \<ge> cnt then (FV_BLOCK_OK, s, c)
      else
        (let n = min (cnt - i) SDIO_MAX_BLOCKS in
         case sdl_write C (sd_address first i) n (span data (i * 512) (n * 512)) c of (ok, c) \<Rightarrow>
           if \<not> ok then (FV_BLOCK_ERROR_IO, sd_fault C (s, c))
           else case sd_finish C c of (ok, c) \<Rightarrow>
             if \<not> ok then (FV_BLOCK_ERROR_IO, sd_fault C (s, c))
             else sd_write_loop C first cnt (i + n) data (s, c)))"
  by pat_completeness auto
termination
  by (relation "measure (\<lambda>(C, first, cnt, i, out, x). cnt - i)") (auto simp: SDIO_MAX_BLOCKS_def)

declare sd_read_loop.simps [simp del] sd_write_loop.simps [simp del]

text \<open>The caller's buffer is not touched when the request is refused; it is taken as zeros.\<close>

definition sd_read_blocks :: "'c sd_card_lib \<Rightarrow> fv_rp2354_sd \<times> 'c \<Rightarrow> nat \<Rightarrow> nat \<Rightarrow> fv_block_result \<times> u8 list \<times> fv_rp2354_sd \<times> 'c" where
  "sd_read_blocks C d first cnt =
     (case sd_validate C first cnt d of (r, d) \<Rightarrow>
        if r \<noteq> FV_BLOCK_OK then (r, zeros (cnt * 512), d) else sd_read_loop C first cnt 0 (zeros (cnt * 512)) d)"

definition sd_write_blocks :: "'c sd_card_lib \<Rightarrow> fv_rp2354_sd \<times> 'c \<Rightarrow> nat \<Rightarrow> nat \<Rightarrow> u8 list \<Rightarrow> fv_block_result \<times> fv_rp2354_sd \<times> 'c" where
  "sd_write_blocks C d first cnt data =
     (case sd_validate C first cnt d of (r, d) \<Rightarrow> if r \<noteq> FV_BLOCK_OK then (r, d) else sd_write_loop C first cnt 0 data d)"

definition sd_sync_blocks :: "'c sd_card_lib \<Rightarrow> fv_rp2354_sd \<times> 'c \<Rightarrow> fv_block_result \<times> fv_rp2354_sd \<times> 'c" where
  "sd_sync_blocks C = (\<lambda>(s, c).
     if \<not> sd_initialized s then (FV_BLOCK_ERROR_NOT_READY, s, c)
     else case (if sdl_detected C c then sd_finish C c else (False, c)) of (ok, c) \<Rightarrow>
       if ok then (FV_BLOCK_OK, s, c) else (FV_BLOCK_ERROR_IO, sd_fault C (s, c)))"

definition sd_block_count :: "'c sd_card_lib \<Rightarrow> fv_rp2354_sd \<times> 'c \<Rightarrow> nat" where
  "sd_block_count C = (\<lambda>(s, c). if sd_initialized s \<and> sdl_detected C c then unat (sd_blocks s) else 0)"

definition sd_is_present :: "'c sd_card_lib \<Rightarrow> fv_rp2354_sd \<times> 'c \<Rightarrow> bool" where
  "sd_is_present C d \<longleftrightarrow> sd_block_count C d \<noteq> 0"

definition sd_ops :: "'c sd_card_lib \<Rightarrow> (fv_rp2354_sd \<times> 'c) fv_block_device_ops" where
  "sd_ops C = \<lparr>blk_read = sd_read_blocks C, blk_write = sd_write_blocks C, blk_sync = sd_sync_blocks C,
     blk_count = sd_block_count C, blk_present = sd_is_present C\<rparr>"

section \<open>Life cycle and events\<close>

definition fv_rp2354_sd_init :: "'c sd_card_lib \<Rightarrow> bool \<Rightarrow> 'c \<Rightarrow> bool \<times> fv_rp2354_sd \<times> 'c" where
  "fv_rp2354_sd_init C configured c =
     (let s = sd_zero\<lparr>sd_detect_configured := configured, sd_physical_present := sdl_detected C c\<rparr> in
      if sd_physical_present s
      then (case sd_initialize C (s, c) of (ok, s, c) \<Rightarrow> (True, if ok then s else s\<lparr>sd_failure_pending := True\<rparr>, c))
      else (True, s, c))"

definition fv_rp2354_sd_reinitialize :: "'c sd_card_lib \<Rightarrow> fv_rp2354_sd \<times> 'c \<Rightarrow> bool \<times> fv_rp2354_sd \<times> 'c" where
  "fv_rp2354_sd_reinitialize C = (\<lambda>(s, c).
     let c = sd_halt C c; s = s\<lparr>sd_physical_present := sdl_detected C c\<rparr> in
     case sd_initialize C (s, c) of (ok, s, c) \<Rightarrow>
       if \<not> ok then (False, s\<lparr>sd_failure_pending := sd_physical_present s\<rparr>, c)
       else (True, s\<lparr>sd_insertion_pending := True\<rparr>, c))"

definition fv_rp2354_sd_poll :: "'c sd_card_lib \<Rightarrow> fv_rp2354_sd \<times> 'c \<Rightarrow> fv_rp2354_sd \<times> 'c" where
  "fv_rp2354_sd_poll C = (\<lambda>(s, c).
     let present = sdl_detected C c in
     case (if sd_initialized s \<and> \<not> present then sd_fault C (s, c) else (s, c)) of (s, c) \<Rightarrow>
       if \<not> present then (s\<lparr>sd_physical_present := False\<rparr>, c)
       else if \<not> sd_initialized s \<and> \<not> sd_physical_present s
       then (case sd_initialize C (s\<lparr>sd_physical_present := True\<rparr>, c) of (ok, s, c) \<Rightarrow>
               (if ok then s\<lparr>sd_insertion_pending := True\<rparr> else s\<lparr>sd_failure_pending := True\<rparr>, c))
       else (s, c))"

definition fv_rp2354_sd_take_insertion_event :: "fv_rp2354_sd \<Rightarrow> bool \<times> fv_rp2354_sd" where
  "fv_rp2354_sd_take_insertion_event s = (sd_insertion_pending s, s\<lparr>sd_insertion_pending := False\<rparr>)"

definition fv_rp2354_sd_take_removal_event :: "fv_rp2354_sd \<Rightarrow> bool \<times> fv_rp2354_sd" where
  "fv_rp2354_sd_take_removal_event s = (sd_removal_pending s, s\<lparr>sd_removal_pending := False\<rparr>)"

definition fv_rp2354_sd_take_failure_event :: "fv_rp2354_sd \<Rightarrow> bool \<times> fv_rp2354_sd" where
  "fv_rp2354_sd_take_failure_event s = (sd_failure_pending s, s\<lparr>sd_failure_pending := False\<rparr>)"

definition fv_rp2354_sd_deinit :: "'c sd_card_lib \<Rightarrow> fv_rp2354_sd \<times> 'c \<Rightarrow> fv_rp2354_sd \<times> 'c" where
  "fv_rp2354_sd_deinit C = (\<lambda>(s, c).
     (s\<lparr>sd_initialized := False, sd_blocks := 0, sd_physical_present := False, sd_insertion_pending := False,
        sd_removal_pending := False, sd_failure_pending := False\<rparr>, sdl_deinit C (sd_halt C c)))"

section \<open>What the driver relies on\<close>

text \<open>The documented behaviour of the card library: a transfer that is reported good moves the addressed sectors, a
  bad one may damage those it addressed, and nothing else changes the content \<open>cells\<close> of the card.\<close>

definition card_law :: "'c sd_card_lib \<Rightarrow> ('c \<Rightarrow> nat \<Rightarrow> u8 list) \<Rightarrow> bool" where
  "card_law C cells \<longleftrightarrow>
     (\<forall>c a. length (cells c a) = 512) \<and>
     (\<forall>a n c ok bs c'. sdl_read C a n c = (ok, bs, c') \<longrightarrow> cells c' = cells c \<and> length bs = n * 512 \<and>
        (ok \<longrightarrow> (\<forall>i < n. span bs (i * 512) 512 = cells c (unat a + i)))) \<and>
     (\<forall>a n data c ok c'. sdl_write C a n data c = (ok, c') \<longrightarrow> length data = n * 512 \<longrightarrow>
        (\<forall>x. x < unat a \<or> unat a + n \<le> x \<longrightarrow> cells c' x = cells c x) \<and>
        (ok \<longrightarrow> (\<forall>i < n. cells c' (unat a + i) = span data (i * 512) 512))) \<and>
     (\<forall>c. cells (snd (sdl_sync C c)) = cells c) \<and> (\<forall>c. cells (snd (sdl_status C c)) = cells c) \<and>
     (\<forall>c. cells (sdl_abort C c) = cells c) \<and> (\<forall>c. cells (sdl_forget_write C c) = cells c) \<and>
     (\<forall>c. cells (sdl_no_init C c) = cells c)"

lemma card_lawD:
  assumes "card_law C cells"
  shows "length (cells c a) = 512"
    "sdl_read C q n c = (ok, bs, c') \<Longrightarrow> cells c' = cells c"
    "sdl_read C q n c = (ok, bs, c') \<Longrightarrow> length bs = n * 512"
    "sdl_read C q n c = (True, bs, c') \<Longrightarrow> i < n \<Longrightarrow> span bs (i * 512) 512 = cells c (unat q + i)"
    "sdl_write C q n data c = (ok, c') \<Longrightarrow> length data = n * 512 \<Longrightarrow> x < unat q \<or> unat q + n \<le> x \<Longrightarrow> cells c' x = cells c x"
    "sdl_write C q n data c = (True, c') \<Longrightarrow> length data = n * 512 \<Longrightarrow> i < n \<Longrightarrow> cells c' (unat q + i) = span data (i * 512) 512"
    "sdl_sync C c = (ok, c') \<Longrightarrow> cells c' = cells c"
    "sdl_status C c = (st, c') \<Longrightarrow> cells c' = cells c"
    "cells (sd_halt C c) = cells c"
proof -
  note l = assms [unfolded card_law_def]
  have r: "sdl_read C q n c = (ok, bs, c') \<longrightarrow> cells c' = cells c \<and> length bs = n * 512 \<and>
        (ok \<longrightarrow> (\<forall>i < n. span bs (i * 512) 512 = cells c (unat q + i)))" for q n c ok bs c'
    using l by (elim conjE) simp
  have w: "sdl_write C q n data c = (ok, c') \<longrightarrow> length data = n * 512 \<longrightarrow>
        (\<forall>x. x < unat q \<or> unat q + n \<le> x \<longrightarrow> cells c' x = cells c x) \<and>
        (ok \<longrightarrow> (\<forall>i < n. cells c' (unat q + i) = span data (i * 512) 512))" for q n data c ok c'
    using l by (elim conjE) simp
  show "length (cells c a) = 512" using l by (elim conjE) simp
  show "sdl_read C q n c = (ok, bs, c') \<Longrightarrow> cells c' = cells c"
    "sdl_read C q n c = (ok, bs, c') \<Longrightarrow> length bs = n * 512"
    "sdl_read C q n c = (True, bs, c') \<Longrightarrow> i < n \<Longrightarrow> span bs (i * 512) 512 = cells c (unat q + i)"
    using r by blast+
  show "sdl_write C q n data c = (ok, c') \<Longrightarrow> length data = n * 512 \<Longrightarrow> x < unat q \<or> unat q + n \<le> x \<Longrightarrow> cells c' x = cells c x"
    "sdl_write C q n data c = (True, c') \<Longrightarrow> length data = n * 512 \<Longrightarrow> i < n \<Longrightarrow> cells c' (unat q + i) = span data (i * 512) 512"
    using w by blast+
  have y1: "\<forall>c. cells (snd (sdl_sync C c)) = cells c" using l by (elim conjE)
  have y2: "\<forall>c. cells (snd (sdl_status C c)) = cells c" using l by (elim conjE)
  have y3: "\<forall>c. cells (sdl_abort C c) = cells c" using l by (elim conjE)
  have y4: "\<forall>c. cells (sdl_forget_write C c) = cells c" using l by (elim conjE)
  have y5: "\<forall>c. cells (sdl_no_init C c) = cells c" using l by (elim conjE)
  show "sdl_sync C c = (ok, c') \<Longrightarrow> cells c' = cells c" "sdl_status C c = (st, c') \<Longrightarrow> cells c' = cells c"
    using y1 [rule_format, of c] y2 [rule_format, of c] by simp_all
  show "cells (sd_halt C c) = cells c" by (simp add: sd_halt_def y3 y4 y5)
qed

section \<open>The driver is a disk\<close>

text \<open>The state of a fault: nothing can be transferred until the card is initialised again.\<close>

definition sd_closed :: "fv_rp2354_sd \<Rightarrow> bool" where
  "sd_closed s \<longleftrightarrow> \<not> sd_initialized s \<and> sd_blocks s = 0 \<and> (sd_removal_pending s \<or> sd_failure_pending s)"

lemma fault_spec:
  assumes "card_law C cells" "sd_fault C (s, c) = (s', c')"
  shows "cells c' = cells c" "sd_closed s'"
  using assms card_lawD(9) [OF assms(1)] by (auto simp: sd_fault_def sd_closed_def Let_def split: if_splits)

lemma ready_loop_cells:
  assumes "card_law C cells"
  shows "cells (snd (sd_ready_loop C n c)) = cells c"
proof (induction n arbitrary: c)
  case 0
  obtain st c1 where s: "sdl_status C c = (st, c1)" by (cases "sdl_status C c")
  then show ?case using card_lawD(8) [OF assms s] by (simp add: sd_ready_loop.simps split: option.split)
next
  case (Suc n)
  obtain st c1 where s: "sdl_status C c = (st, c1)" by (cases "sdl_status C c")
  then show ?case using card_lawD(8) [OF assms s] Suc.IH [of c1] by (simp add: sd_ready_loop.simps [of C "Suc n"] split: option.split)
qed

lemma finish_cells:
  assumes "card_law C cells" "sd_finish C c = (ok, c')"
  shows "cells c' = cells c"
proof -
  obtain y c1 where y: "sdl_sync C c = (y, c1)" by (cases "sdl_sync C c")
  then show ?thesis
    using assms(2) card_lawD(7) [OF assms(1) y] ready_loop_cells [OF assms(1), of "sdl_patience C c1" c1]
    by (auto simp: sd_finish_def split: if_splits)
qed

lemma address_exact:
  assumes "first + i < 2 ^ 32"
  shows "unat (sd_address first i) = first + i"
  using assms unfolding sd_address_def of_nat_add [symmetric] by (simp add: unsigned_of_nat take_bit_nat_eq_self del: of_nat_add)

lemma sd_read_loop_spec:
  assumes law: "card_law C cells" and fit: "first + cnt \<le> 2 ^ 32"
  shows "i \<le> cnt \<Longrightarrow> length out = cnt * 512 \<Longrightarrow> \<forall>j < i. span out (j * 512) 512 = cells c (first + j) \<Longrightarrow>
    sd_read_loop C first cnt i out (s, c) = (r, out', s', c') \<Longrightarrow>
    cells c' = cells c \<and> length out' = cnt * 512 \<and>
    (r = FV_BLOCK_OK \<longrightarrow> s' = s \<and> (\<forall>j < cnt. span out' (j * 512) 512 = cells c (first + j))) \<and>
    (r \<noteq> FV_BLOCK_OK \<longrightarrow> r = FV_BLOCK_ERROR_IO \<and> out' = zeros (cnt * 512) \<and> sd_closed s')"
proof (induction "cnt - i" arbitrary: i out c rule: less_induct)
  case less
  show ?case
  proof (cases "i \<ge> cnt")
    case True
    then have "sd_read_loop C first cnt i out (s, c) = (FV_BLOCK_OK, out, s, c)" by (subst sd_read_loop.simps) simp
    then show ?thesis using less.prems True by auto
  next
    case False
    define n where "n = min (cnt - i) SDIO_MAX_BLOCKS"
    have n: "0 < n" "i + n \<le> cnt" using False by (auto simp: n_def SDIO_MAX_BLOCKS_def)
    obtain ok bs c1 where rd: "sdl_read C (sd_address first i) n c = (ok, bs, c1)" by (cases "sdl_read C (sd_address first i) n c") auto
    note L = card_lawD(2,3) [OF law rd]
    have a: "unat (sd_address first i) = first + i" using fit False by (intro address_exact) linarith
    show ?thesis
    proof (cases ok)
      case False
      obtain s2 c2 where f: "sd_fault C (s, c1) = (s2, c2)" by (cases "sd_fault C (s, c1)")
      have "r = FV_BLOCK_ERROR_IO \<and> out' = zeros (cnt * 512) \<and> s' = s2 \<and> c' = c2"
        using less.prems(4) \<open>\<not> i \<ge> cnt\<close> rd False f by (simp add: sd_read_loop.simps [of C first cnt i out] n_def [symmetric])
      then show ?thesis using fault_spec [OF law f] L(1) by simp
    next
      case True
      define out1 where "out1 = memcpy out (i * 512) bs"
      have run: "sd_read_loop C first cnt (i + n) out1 (s, c1) = (r, out', s', c')"
        using less.prems(4) \<open>\<not> i \<ge> cnt\<close> rd True by (simp add: sd_read_loop.simps [of C first cnt i out] n_def [symmetric] out1_def)
      have "i * 512 + n * 512 \<le> cnt * 512" using n(2) by (metis add_mult_distrib mult_le_mono1)
      then have l1: "length out1 = cnt * 512" using less.prems(2) L(2) by (simp add: out1_def)
      have "span out1 (j * 512) 512 = cells c1 (first + j)" if j: "j < i + n" for j
      proof -
        have "span out1 (j * 512) 512 = (if i \<le> j \<and> j < i + n then span bs ((j - i) * 512) 512 else span out (j * 512) 512)"
          unfolding out1_def using span_memcpy_block [OF L(2), of i out j] \<open>i * 512 + n * 512 \<le> cnt * 512\<close> less.prems(2)
          by (simp add: add_mult_distrib)
        then show ?thesis
          using less.prems(3) j card_lawD(4) [OF law rd [unfolded eqTrueI [OF True]], of "j - i"] a L(1) by (auto simp: not_le)
      qed
      then show ?thesis using less.hyps [OF _ n(2) l1 _ run] n False L(1) by (simp add: \<open>\<not> i \<ge> cnt\<close>)
    qed
  qed
qed

lemma sd_write_loop_spec:
  assumes law: "card_law C cells" and fit: "first + cnt \<le> 2 ^ 32" and len: "length data = cnt * 512"
  shows "i \<le> cnt \<Longrightarrow> sd_write_loop C first cnt i data (s, c) = (r, s', c') \<Longrightarrow>
    (\<forall>x. x < first + i \<or> first + cnt \<le> x \<longrightarrow> cells c' x = cells c x) \<and>
    (r = FV_BLOCK_OK \<longrightarrow> s' = s \<and> (\<forall>j. i \<le> j \<and> j < cnt \<longrightarrow> cells c' (first + j) = span data (j * 512) 512)) \<and>
    (r \<noteq> FV_BLOCK_OK \<longrightarrow> r = FV_BLOCK_ERROR_IO \<and> sd_closed s')"
proof (induction "cnt - i" arbitrary: i c rule: less_induct)
  case less
  show ?case
  proof (cases "i \<ge> cnt")
    case True
    then have "sd_write_loop C first cnt i data (s, c) = (FV_BLOCK_OK, s, c)" by (subst sd_write_loop.simps) simp
    then show ?thesis using less.prems True by auto
  next
    case False
    define n where "n = min (cnt - i) SDIO_MAX_BLOCKS"
    have n: "0 < n" "i + n \<le> cnt" using False by (auto simp: n_def SDIO_MAX_BLOCKS_def)
    define piece where "piece = span data (i * 512) (n * 512)"
    have "i * 512 + n * 512 \<le> cnt * 512" using n(2) by (metis add_mult_distrib mult_le_mono1)
    then have pl: "length piece = n * 512" using len by (simp add: piece_def)
    obtain ok c1 where w: "sdl_write C (sd_address first i) n piece c = (ok, c1)" by (cases "sdl_write C (sd_address first i) n piece c")
    have a: "unat (sd_address first i) = first + i" using fit False by (intro address_exact) linarith
    have out: "x < first + i \<or> first + i + n \<le> x \<Longrightarrow> cells c1 x = cells c x" for x
      using card_lawD(5) [OF law w pl] a by simp
    have ins: "cells c1 (first + i + k) = span data ((i + k) * 512) 512" if "ok" "k < n" for k
    proof -
      have "cells c1 (first + i + k) = span piece (k * 512) 512"
        using card_lawD(6) [OF law w [unfolded eqTrueI [OF that(1)]] pl that(2)] a by simp
      also have "k * 512 + 512 \<le> n * 512" using that(2) by simp
      then have "span piece (k * 512) 512 = span data (i * 512 + k * 512) 512"
        unfolding piece_def by (intro span_span) simp
      finally show ?thesis by (simp add: add_mult_distrib)
    qed
    obtain ok2 c2 where fi: "sd_finish C c1 = (ok2, c2)" by (cases "sd_finish C c1")
    have c2: "cells c2 = cells c1" by (rule finish_cells [OF law fi])
    have fail: ?thesis if f: "sd_fault C (s, ce) = (s', c')" "r = FV_BLOCK_ERROR_IO" "cells ce = cells c1" for ce
      using fault_spec [OF law f(1)] f(2,3) out n(2) by auto
    show ?thesis
    proof (cases "ok \<and> ok2")
      case False
      then have "sd_fault C (s, c1) = (s', c') \<and> r = FV_BLOCK_ERROR_IO \<or> sd_fault C (s, c2) = (s', c') \<and> r = FV_BLOCK_ERROR_IO"
        using less.prems(2) \<open>\<not> i \<ge> cnt\<close> w fi
        by (auto simp: sd_write_loop.simps [of C first cnt i data] n_def [symmetric] piece_def [symmetric] split: if_splits)
      then show ?thesis using fail c2 by blast
    next
      case True
      then have run: "sd_write_loop C first cnt (i + n) data (s, c2) = (r, s', c')"
        using less.prems(2) \<open>\<not> i \<ge> cnt\<close> w fi by (simp add: sd_write_loop.simps [of C first cnt i data] n_def [symmetric] piece_def [symmetric])
      have ih: "(\<forall>x. x < first + (i + n) \<or> first + cnt \<le> x \<longrightarrow> cells c' x = cells c2 x) \<and>
          (r = FV_BLOCK_OK \<longrightarrow> s' = s \<and> (\<forall>j. i + n \<le> j \<and> j < cnt \<longrightarrow> cells c' (first + j) = span data (j * 512) 512)) \<and>
          (r \<noteq> FV_BLOCK_OK \<longrightarrow> r = FV_BLOCK_ERROR_IO \<and> sd_closed s')"
        using less.hyps [OF _ n(2) run] n False \<open>\<not> i \<ge> cnt\<close> by simp
      have mid: "cells c' (first + j) = span data (j * 512) 512" if "i \<le> j" "j < i + n" for j
      proof -
        have "cells c' (first + j) = cells c2 (first + j)" using ih that by simp
        then show ?thesis using ins [of "j - i"] that True c2 by simp
      qed
      have "cells c' (first + j) = span data (j * 512) 512" if "r = FV_BLOCK_OK" "i \<le> j" "j < cnt" for j
        using mid ih that by (cases "j < i + n") simp_all
      moreover have "cells c' x = cells c x" if "x < first + i \<or> first + cnt \<le> x" for x
      proof -
        have "cells c' x = cells c2 x" "x < first + i \<or> first + i + n \<le> x" using ih that n(2) by auto
        then show ?thesis using c2 out by metis
      qed
      ultimately show ?thesis using ih by blast
    qed
  qed
qed

lemma validate_cases:
  assumes "sd_validate C first cnt (s, c) = (r, s', c')"
  shows "r = FV_BLOCK_OK \<Longrightarrow> s' = s \<and> c' = c \<and> 0 < cnt \<and> first + cnt \<le> unat (sd_blocks s) \<and> sd_initialized s"
    "r \<noteq> FV_BLOCK_OK \<Longrightarrow> (s', c') = (s, c) \<or> sd_initialized s \<and> (s', c') = sd_fault C (s, c)"
  using assms by (auto simp: sd_validate_def split: if_splits)

lemma sd_read_spec:
  assumes law: "card_law C cells" and run: "sd_read_blocks C (s, c) first cnt = (r, bs, s', c')"
  shows "cells c' = cells c \<and> length bs = cnt * 512 \<and>
    (r = FV_BLOCK_OK \<longrightarrow> s' = s \<and> (\<forall>i < cnt. span bs (i * 512) 512 = cells c (first + i))) \<and>
    (r \<noteq> FV_BLOCK_OK \<longrightarrow> bs = zeros (cnt * 512) \<and> (s' = s \<and> c' = c \<or> sd_closed s'))"
proof -
  obtain r1 s1 c1 where v: "sd_validate C first cnt (s, c) = (r1, s1, c1)" by (cases "sd_validate C first cnt (s, c)") auto
  show ?thesis
  proof (cases "r1 = FV_BLOCK_OK")
    case False
    then have "r = r1" "bs = zeros (cnt * 512)" "s' = s1" "c' = c1" using run v by (auto simp: sd_read_blocks_def)
    then show ?thesis using False validate_cases(2) [OF v] fault_spec [OF law, of s c s1 c1] by auto
  next
    case True
    note o = validate_cases(1) [OF v True]
    have "unat (sd_blocks s) < 2 ^ 32" by (rule order_less_le_trans [OF unsigned_less]) simp
    then have fit: "first + cnt \<le> 2 ^ 32" using o by linarith
    have "sd_read_loop C first cnt 0 (zeros (cnt * 512)) (s, c) = (r, bs, s', c')"
      using run v True o by (simp add: sd_read_blocks_def)
    then show ?thesis using sd_read_loop_spec [OF law fit, of 0 "zeros (cnt * 512)" c s r bs s' c'] by auto
  qed
qed

lemma sd_write_spec:
  assumes law: "card_law C cells" and run: "sd_write_blocks C (s, c) first cnt data = (r, s', c')" and len: "length data = cnt * 512"
  shows "(\<forall>a. a < first \<or> first + cnt \<le> a \<longrightarrow> cells c' a = cells c a) \<and>
    (r = FV_BLOCK_OK \<longrightarrow> s' = s \<and> (\<forall>i < cnt. cells c' (first + i) = span data (i * 512) 512)) \<and>
    (r \<noteq> FV_BLOCK_OK \<longrightarrow> s' = s \<and> c' = c \<or> sd_closed s')"
proof -
  obtain r1 s1 c1 where v: "sd_validate C first cnt (s, c) = (r1, s1, c1)" by (cases "sd_validate C first cnt (s, c)") auto
  show ?thesis
  proof (cases "r1 = FV_BLOCK_OK")
    case False
    then have "r = r1" "s' = s1" "c' = c1" using run v by (auto simp: sd_write_blocks_def)
    then show ?thesis using False validate_cases(2) [OF v] fault_spec [OF law, of s c s1 c1] by auto
  next
    case True
    note o = validate_cases(1) [OF v True]
    have "unat (sd_blocks s) < 2 ^ 32" by (rule order_less_le_trans [OF unsigned_less]) simp
    then have fit: "first + cnt \<le> 2 ^ 32" using o by linarith
    have "sd_write_loop C first cnt 0 data (s, c) = (r, s', c')"
      using run v True o by (simp add: sd_write_blocks_def)
    then show ?thesis using sd_write_loop_spec [OF law fit len, of 0 s c r s' c'] by auto
  qed
qed

lemma sd_sync_spec:
  assumes law: "card_law C cells" and run: "sd_sync_blocks C (s, c) = (r, s', c')"
  shows "cells c' = cells c \<and> (r = FV_BLOCK_OK \<longrightarrow> s' = s) \<and> (r \<noteq> FV_BLOCK_OK \<longrightarrow> s' = s \<and> c' = c \<or> sd_closed s')"
proof -
  have "cells c1 = cells c" if "(if sdl_detected C c then sd_finish C c else (False, c)) = (ok, c1)" for ok c1
    using that finish_cells [OF law] by (auto split: if_splits)
  then show ?thesis
    using run fault_spec [OF law] by (fastforce simp: sd_sync_blocks_def split: if_splits prod.splits)
qed


section \<open>The property at work\<close>

text \<open>A card of 4096 sectors that works until it is pulled out.\<close>

definition test_card :: "(bool \<times> (nat \<Rightarrow> u8 list)) sd_card_lib" where
  "test_card = \<lparr>sdl_detected = (\<lambda>c. True), sdl_init_driver = (\<lambda>c. (True, c)), sdl_init = (\<lambda>c. (True, c)), sdl_sectors = (\<lambda>c. 4096),
     sdl_ocr = (\<lambda>c. 0x40000000), sdl_read = (\<lambda>a n (ok, m). (ok, ram_read m (unat a) n, ok, m)),
     sdl_write = (\<lambda>a n data (ok, m). (ok, ok, if ok then write_cells m (unat a) n data else m)),
     sdl_sync = (\<lambda>c. (True, c)), sdl_status = (\<lambda>c. (Some 0x900, c)), sdl_patience = (\<lambda>c. 100), sdl_claimed = (\<lambda>c. True),
     sdl_abort = (\<lambda>c. c), sdl_forget_write = (\<lambda>c. c), sdl_no_init = (\<lambda>c. c), sdl_deinit = (\<lambda>c. c)\<rparr>"

lemma test_card_law: "card_law test_card (\<lambda>(ok, m). ram_cells m)"
  unfolding card_law_def test_card_def
  by (auto simp: ram_read_cells length_concat_512 span_concat_512 ram_cells_def split: if_splits)


end
