(* ===== verification/Rp2354_Authority.thy ===== *)
theory Rp2354_Authority
  imports Enrollment_OTP
begin

text \<open>
  One-time-programmable memory and flash of the RP2354 (\<^verbatim>\<open>src/src/pico/platform/authority.c\<close>): the adapters
  between enrollment and the boot ROM. The ROM's OTP entry point, the page locks, the flash of the board and
  the SDK's flash operations are parameters over the state \<open>'h\<close> of the board. The adapters refuse everything but
  the status mask, blank token rows, the destruction of a token, and the two journal banks.
\<close>

section \<open>The board\<close>

text \<open>The command word of the ROM: a row with a write and an error-correction flag.\<close>

record otp_cmd =
  cmd_row :: nat
  cmd_write :: bool
  cmd_ecc :: bool

text \<open>\<open>rp_flash\<close> is the memory-mapped flash; \<open>rp_flash_safe\<close> runs an operation while the other core is parked.\<close>

record 'h rp2354 =
  rp_otp_access :: "otp_cmd \<Rightarrow> u8 list \<Rightarrow> 'h \<Rightarrow> bool \<times> u8 list \<times> 'h"
  rp_sw_lock :: "'h \<Rightarrow> nat \<Rightarrow> u32"
  rp_flash :: "'h \<Rightarrow> nat \<Rightarrow> u8"
  rp_flash_safe :: "('h \<Rightarrow> 'h) \<Rightarrow> 'h \<Rightarrow> bool \<times> 'h"
  rp_flash_erase :: "nat \<Rightarrow> nat \<Rightarrow> 'h \<Rightarrow> 'h"
  rp_flash_program :: "nat \<Rightarrow> u8 list \<Rightarrow> 'h \<Rightarrow> 'h"
  rp_board_id :: "u8 list"

definition OTP_DATA_PAGE0_LOCK0_ROW :: nat where "OTP_DATA_PAGE0_LOCK0_ROW = 0xf80"
definition FV_SECURITY_FLASH_OFFSET :: nat where "FV_SECURITY_FLASH_OFFSET = 0x1fe000"
definition FV_OTP_MASK_ROWS :: nat where "FV_OTP_MASK_ROWS = 29"

section \<open>OTP\<close>

definition app_page :: "nat \<Rightarrow> bool" where
  "app_page page \<longleftrightarrow> page \<ge> FV_OTP_MASK_PAGE \<and>
     page < FV_OTP_TOKEN_PAGE + (FV_OTP_SLOTS + FV_OTP_TOKENS_PER_PAGE - 1) div FV_OTP_TOKENS_PER_PAGE"

definition raw_read :: "'h rp2354 \<Rightarrow> nat \<Rightarrow> 'h \<Rightarrow> u32 option \<times> 'h" where
  "raw_read R row h =
     (if row \<ge> 4096 then (None, h)
      else case rp_otp_access R \<lparr>cmd_row = row, cmd_write = False, cmd_ecc = False\<rparr> (zeros 4) h of (ok, b, h) \<Rightarrow>
        (if ok then Some (ucast (get b 0 4)) else None, h))"

definition programmable :: "'h rp2354 \<Rightarrow> nat \<Rightarrow> 'h \<Rightarrow> bool \<times> 'h" where
  "programmable R page h =
     (if \<not> app_page page then (False, h)
      else case raw_read R (OTP_DATA_PAGE0_LOCK0_ROW + 2 * page) h of
        (None, h) \<Rightarrow> (False, h)
      | (Some l0, h) \<Rightarrow>
          (case raw_read R (OTP_DATA_PAGE0_LOCK0_ROW + 2 * page + 1) h of
             (None, h) \<Rightarrow> (False, h)
           | (Some l1, h) \<Rightarrow> (l0 = 0 \<and> l1 = 0 \<and> rp_sw_lock R h page = 0, h)))"

text \<open>The current value of a mask row may only gain bits; a token row can only be destroyed.\<close>

definition raw_write_allowed :: "'h rp2354 \<Rightarrow> nat \<Rightarrow> u32 \<Rightarrow> 'h \<Rightarrow> bool \<times> 'h" where
  "raw_write_allowed R row value h =
     (if row div 64 = FV_OTP_MASK_PAGE
      then (if row mod 64 \<ge> FV_OTP_MASK_ROWS then (False, h)
            else case raw_read R row h of (None, h) \<Rightarrow> (False, h) | (Some current, h) \<Rightarrow> (current AND NOT value = 0, h))
      else (value = 0xffffff, h))"

definition raw_write :: "'h rp2354 \<Rightarrow> nat \<Rightarrow> u32 \<Rightarrow> 'h \<Rightarrow> bool \<times> 'h" where
  "raw_write R row value h =
     (if \<not> app_page (row div 64) \<or> value > 0xffffff then (False, h)
      else case programmable R (row div 64) h of (ok, h) \<Rightarrow>
        if \<not> ok then (False, h)
        else case raw_write_allowed R row value h of (ok, h) \<Rightarrow>
          if \<not> ok then (False, h)
          else case rp_otp_access R \<lparr>cmd_row = row, cmd_write = True, cmd_ecc = False\<rparr> (le_bytes value 4) h of (ok, b, h) \<Rightarrow> (ok, h))"

definition secret_read :: "'h rp2354 \<Rightarrow> nat \<Rightarrow> 'h \<Rightarrow> u8 list option \<times> 'h" where
  "secret_read R row h =
     (if row div 64 < FV_OTP_TOKEN_PAGE \<or> \<not> app_page (row div 64) \<or> row mod FV_OTP_SECRET_ROWS \<noteq> 0 then (None, h)
      else case rp_otp_access R \<lparr>cmd_row = row, cmd_write = False, cmd_ecc = True\<rparr> (zeros 32) h of (ok, b, h) \<Rightarrow>
        (if ok then Some b else None, h))"

fun rows_zero :: "'h rp2354 \<Rightarrow> nat list \<Rightarrow> 'h \<Rightarrow> bool \<times> 'h" where
  "rows_zero R [] h = (True, h)"
| "rows_zero R (row # rows) h =
     (case raw_read R row h of (None, h) \<Rightarrow> (False, h)
      | (Some raw, h) \<Rightarrow> if raw \<noteq> 0 then (False, h) else rows_zero R rows h)"

definition secret_write :: "'h rp2354 \<Rightarrow> nat \<Rightarrow> u8 list \<Rightarrow> 'h \<Rightarrow> bool \<times> 'h" where
  "secret_write R row bytes h =
     (if row div 64 < FV_OTP_TOKEN_PAGE \<or> row mod FV_OTP_SECRET_ROWS \<noteq> 0 then (False, h)
      else case programmable R (row div 64) h of (ok, h) \<Rightarrow>
        if \<not> ok then (False, h)
        else case rows_zero R (map ((+) row) [0..<FV_OTP_SECRET_ROWS]) h of (ok, h) \<Rightarrow>
          if \<not> ok then (False, h)
          else case rp_otp_access R \<lparr>cmd_row = row, cmd_write = True, cmd_ecc = True\<rparr> (take 32 bytes) h of (ok, b, h) \<Rightarrow> (ok, h))"

section \<open>Flash\<close>

definition flash_bank :: "'h rp2354 \<Rightarrow> 'h \<Rightarrow> u8 list" where
  "flash_bank R h = map (\<lambda>i. rp_flash R h (FV_SECURITY_FLASH_OFFSET + i)) [0..<FV_JOURNAL_BYTES]"

definition flash_read :: "'h rp2354 \<Rightarrow> nat \<Rightarrow> nat \<Rightarrow> 'h \<Rightarrow> u8 list option \<times> 'h" where
  "flash_read R off n h =
     (if off > FV_JOURNAL_BYTES \<or> n > FV_JOURNAL_BYTES - off then (None, h)
      else (Some (map (\<lambda>i. rp_flash R h (FV_SECURITY_FLASH_OFFSET + off + i)) [0..<n]), h))"

datatype flash_operation = Flash_Erase nat | Flash_Program nat "u8 list"

fun perform :: "'h rp2354 \<Rightarrow> flash_operation \<Rightarrow> 'h \<Rightarrow> 'h" where
  "perform R (Flash_Erase off) h = rp_flash_erase R (FV_SECURITY_FLASH_OFFSET + off) 4096 h"
| "perform R (Flash_Program off bytes) h = rp_flash_program R (FV_SECURITY_FLASH_OFFSET + off) bytes h"

definition flash_program :: "'h rp2354 \<Rightarrow> nat \<Rightarrow> u8 list \<Rightarrow> 'h \<Rightarrow> bool \<times> 'h" where
  "flash_program R off bytes h =
     (if off > FV_JOURNAL_BYTES - 256 \<or> off mod 256 \<noteq> 0 then (False, h)
      else rp_flash_safe R (perform R (Flash_Program off (take 256 bytes))) h)"

definition flash_erase :: "'h rp2354 \<Rightarrow> nat \<Rightarrow> 'h \<Rightarrow> bool \<times> 'h" where
  "flash_erase R bank h =
     (if bank > 1 then (False, h) else rp_flash_safe R (perform R (Flash_Erase (bank * 4096))) h)"

section \<open>The adapters\<close>

definition rp2354_otp :: "'h rp2354 \<Rightarrow> 'h fv_otp_io" where
  "rp2354_otp R = \<lparr>otp_read_raw = raw_read R, otp_write_raw = raw_write R, otp_read_secret = secret_read R,
     otp_write_secret = secret_write R, otp_can_program = programmable R\<rparr>"

definition rp2354_flash :: "'h rp2354 \<Rightarrow> 'h fv_journal_io" where
  "rp2354_flash R = \<lparr>io_read = flash_read R, io_program = flash_program R, io_erase = flash_erase R\<rparr>"

text \<open>The identity of the device; \<open>None\<close> is the panic when hashing fails.\<close>

definition fv_rp2354_authority_init :: "sha_lib \<Rightarrow> 'h rp2354 \<Rightarrow> fv_enrollment_device option" where
  "fv_rp2354_authority_init SL R =
     (case sha_oneshot SL (label ''FV2/device-id/v1'' @ take 8 (rp_board_id R)) of
        None \<Rightarrow> None | Some digest \<Rightarrow> Some (fv_enrollment_init (take 16 digest)))"

section \<open>What the adapters rely on\<close>

text \<open>The documented behaviour of the ROM and the SDK. Reads change nothing and report the row. A raw write sets bits
  of its row that were asked for; a corrected write of 32 bytes sets bits of its sixteen rows; no write clears
  a bit or touches another row. Flash operations change only their range. A parked operation runs or does not.\<close>

definition same_board :: "'h rp2354 \<Rightarrow> ('h \<Rightarrow> nat \<Rightarrow> u32) \<Rightarrow> 'h \<Rightarrow> 'h \<Rightarrow> bool" where
  "same_board R rows h h' \<longleftrightarrow> rows h' = rows h \<and> rp_flash R h' = rp_flash R h \<and> rp_sw_lock R h' = rp_sw_lock R h"

definition rom_law :: "'h rp2354 \<Rightarrow> ('h \<Rightarrow> nat \<Rightarrow> u32) \<Rightarrow> bool" where
  "rom_law R rows \<longleftrightarrow>
     (\<forall>row ecc b h ok b' h'. rp_otp_access R \<lparr>cmd_row = row, cmd_write = False, cmd_ecc = ecc\<rparr> b h = (ok, b', h') \<longrightarrow>
        same_board R rows h h' \<and> (ok \<and> \<not> ecc \<longrightarrow> ucast (get b' 0 4) = rows h row)) \<and>
     (\<forall>row ecc b h ok b' h'. rp_otp_access R \<lparr>cmd_row = row, cmd_write = True, cmd_ecc = ecc\<rparr> b h = (ok, b', h') \<longrightarrow>
        rp_flash R h' = rp_flash R h \<and> (\<forall>k i. bit (rows h k) i \<longrightarrow> bit (rows h' k) i) \<and>
        (\<forall>k. rows h' k \<noteq> rows h k \<longrightarrow> (if ecc then row \<le> k \<and> k < row + 16 else k = row)) \<and>
        (\<not> ecc \<longrightarrow> (\<forall>i. bit (rows h' row) i \<longrightarrow> bit (rows h row) i \<or> bit (ucast (get b 0 4) :: u32) i))) \<and>
     (\<forall>off n h. rows (rp_flash_erase R off n h) = rows h \<and>
        (\<forall>a. a < off \<or> off + n \<le> a \<longrightarrow> rp_flash R (rp_flash_erase R off n h) a = rp_flash R h a)) \<and>
     (\<forall>off b h. rows (rp_flash_program R off b h) = rows h \<and>
        (\<forall>a. a < off \<or> off + length b \<le> a \<longrightarrow> rp_flash R (rp_flash_program R off b h) a = rp_flash R h a)) \<and>
     (\<forall>f h. \<exists>h1. same_board R rows h h1 \<and>
        (same_board R rows h1 (snd (rp_flash_safe R f h)) \<or> same_board R rows (f h1) (snd (rp_flash_safe R f h))))"

lemma rom_lawD:
  assumes "rom_law R rows"
  shows "rp_otp_access R \<lparr>cmd_row = row, cmd_write = False, cmd_ecc = ecc\<rparr> b h = (ok, b', h') \<Longrightarrow>
      same_board R rows h h' \<and> (ok \<and> \<not> ecc \<longrightarrow> ucast (get b' 0 4) = rows h row)"
    "rp_otp_access R \<lparr>cmd_row = row, cmd_write = True, cmd_ecc = ecc\<rparr> b h = (ok, b', h') \<Longrightarrow>
      rp_flash R h' = rp_flash R h \<and> (\<forall>k i. bit (rows h k) i \<longrightarrow> bit (rows h' k) i) \<and>
        (\<forall>k. rows h' k \<noteq> rows h k \<longrightarrow> (if ecc then row \<le> k \<and> k < row + 16 else k = row)) \<and>
        (\<not> ecc \<longrightarrow> (\<forall>i. bit (rows h' row) i \<longrightarrow> bit (rows h row) i \<or> bit (ucast (get b 0 4) :: u32) i))"
    "rows (rp_flash_erase R off n h) = rows h"
    "a < off \<or> off + n \<le> a \<Longrightarrow> rp_flash R (rp_flash_erase R off n h) a = rp_flash R h a"
    "rows (rp_flash_program R off b h) = rows h"
    "a < off \<or> off + length b \<le> a \<Longrightarrow> rp_flash R (rp_flash_program R off b h) a = rp_flash R h a"
    "\<exists>h1. same_board R rows h h1 \<and>
        (same_board R rows h1 (snd (rp_flash_safe R f h)) \<or> same_board R rows (f h1) (snd (rp_flash_safe R f h)))"
proof -
  note l = assms [unfolded rom_law_def]
  have r: "\<forall>row ecc b h ok b' h'. rp_otp_access R \<lparr>cmd_row = row, cmd_write = False, cmd_ecc = ecc\<rparr> b h = (ok, b', h') \<longrightarrow>
        same_board R rows h h' \<and> (ok \<and> \<not> ecc \<longrightarrow> ucast (get b' 0 4) = rows h row)"
    using l by (elim conjE)
  have w: "\<forall>row ecc b h ok b' h'. rp_otp_access R \<lparr>cmd_row = row, cmd_write = True, cmd_ecc = ecc\<rparr> b h = (ok, b', h') \<longrightarrow>
        rp_flash R h' = rp_flash R h \<and> (\<forall>k i. bit (rows h k) i \<longrightarrow> bit (rows h' k) i) \<and>
        (\<forall>k. rows h' k \<noteq> rows h k \<longrightarrow> (if ecc then row \<le> k \<and> k < row + 16 else k = row)) \<and>
        (\<not> ecc \<longrightarrow> (\<forall>i. bit (rows h' row) i \<longrightarrow> bit (rows h row) i \<or> bit (ucast (get b 0 4) :: u32) i))"
    using l by (elim conjE)
  have e: "\<forall>off n h. rows (rp_flash_erase R off n h) = rows h \<and>
        (\<forall>a. a < off \<or> off + n \<le> a \<longrightarrow> rp_flash R (rp_flash_erase R off n h) a = rp_flash R h a)"
    using l by (elim conjE)
  have p: "\<forall>off b h. rows (rp_flash_program R off b h) = rows h \<and>
        (\<forall>a. a < off \<or> off + length b \<le> a \<longrightarrow> rp_flash R (rp_flash_program R off b h) a = rp_flash R h a)"
    using l by (elim conjE)
  have s: "\<forall>f h. \<exists>h1. same_board R rows h h1 \<and>
        (same_board R rows h1 (snd (rp_flash_safe R f h)) \<or> same_board R rows (f h1) (snd (rp_flash_safe R f h)))"
    using l by (elim conjE)
  show "rp_otp_access R \<lparr>cmd_row = row, cmd_write = False, cmd_ecc = ecc\<rparr> b h = (ok, b', h') \<Longrightarrow>
      same_board R rows h h' \<and> (ok \<and> \<not> ecc \<longrightarrow> ucast (get b' 0 4) = rows h row)" using r by blast
  show "rp_otp_access R \<lparr>cmd_row = row, cmd_write = True, cmd_ecc = ecc\<rparr> b h = (ok, b', h') \<Longrightarrow>
      rp_flash R h' = rp_flash R h \<and> (\<forall>k i. bit (rows h k) i \<longrightarrow> bit (rows h' k) i) \<and>
        (\<forall>k. rows h' k \<noteq> rows h k \<longrightarrow> (if ecc then row \<le> k \<and> k < row + 16 else k = row)) \<and>
        (\<not> ecc \<longrightarrow> (\<forall>i. bit (rows h' row) i \<longrightarrow> bit (rows h row) i \<or> bit (ucast (get b 0 4) :: u32) i))"
    using w [rule_format] by blast
  show "rows (rp_flash_erase R off n h) = rows h" "rows (rp_flash_program R off b h) = rows h"
    "a < off \<or> off + n \<le> a \<Longrightarrow> rp_flash R (rp_flash_erase R off n h) a = rp_flash R h a"
    "a < off \<or> off + length b \<le> a \<Longrightarrow> rp_flash R (rp_flash_program R off b h) a = rp_flash R h a"
    using e p by blast+
  show "\<exists>h1. same_board R rows h h1 \<and>
        (same_board R rows h1 (snd (rp_flash_safe R f h)) \<or> same_board R rows (f h1) (snd (rp_flash_safe R f h)))" using s by blast
qed

lemma same_board_refl [simp]: "same_board R rows h h"
  by (simp add: same_board_def)

lemma same_board_trans: "same_board R rows a b \<Longrightarrow> same_board R rows b c \<Longrightarrow> same_board R rows a c"
  by (simp add: same_board_def)

section \<open>The OTP adapters\<close>

text \<open>A page without hardware or software locks.\<close>

definition page_open :: "'h rp2354 \<Rightarrow> ('h \<Rightarrow> nat \<Rightarrow> u32) \<Rightarrow> 'h \<Rightarrow> nat \<Rightarrow> bool" where
  "page_open R rows h page \<longleftrightarrow> app_page page \<and> rows h (OTP_DATA_PAGE0_LOCK0_ROW + 2 * page) = 0 \<and>
     rows h (OTP_DATA_PAGE0_LOCK0_ROW + 2 * page + 1) = 0 \<and> rp_sw_lock R h page = 0"

lemma raw_read_spec:
  assumes "rom_law R rows" "raw_read R q h = (x, h')"
  shows "same_board R rows h h'" "x = Some v \<Longrightarrow> v = rows h q"
  using assms(2) rom_lawD(1) [OF assms(1), of q False "zeros 4" h] by (auto simp: raw_read_def split: if_splits prod.splits)

lemma programmable_spec:
  assumes law: "rom_law R rows" and run: "programmable R page h = (ok, h')"
  shows "same_board R rows h h'" "ok \<Longrightarrow> page_open R rows h page"
proof -
  let ?l = "OTP_DATA_PAGE0_LOCK0_ROW + 2 * page"
  obtain x h1 where a: "raw_read R ?l h = (x, h1)" by (cases "raw_read R ?l h")
  obtain y h2 where b: "raw_read R (?l + 1) h1 = (y, h2)" by (cases "raw_read R (?l + 1) h1")
  note A = raw_read_spec [OF law a] and B = raw_read_spec [OF law b]
  have h': "h' \<in> {h, h1, h2}" and ok: "ok \<Longrightarrow> app_page page \<and> x = Some 0 \<and> y = Some 0 \<and> rp_sw_lock R h2 page = 0"
    using run a b by (auto simp: programmable_def split: if_splits option.splits)
  show "same_board R rows h h'" using h' A(1) B(1) same_board_trans by auto
  show "page_open R rows h page" if "ok"
    using ok [OF that] A B by (auto simp: page_open_def same_board_def)
qed

lemma rows_zero_spec:
  assumes "rom_law R rows"
  shows "rows_zero R qs h = (ok, h') \<Longrightarrow> same_board R rows h h' \<and> (ok \<longrightarrow> (\<forall>q \<in> set qs. rows h q = 0))"
proof (induction qs arbitrary: h)
  case (Cons q qs)
  obtain x h1 where a: "raw_read R q h = (x, h1)" by (cases "raw_read R q h")
  note A = raw_read_spec [OF assms a]
  show ?case
  proof (cases "x = Some 0")
    case True
    then have "rows_zero R qs h1 = (ok, h')" using Cons.prems a by simp
    from Cons.IH [OF this] have "same_board R rows h1 h'" "ok \<Longrightarrow> \<forall>q \<in> set qs. rows h1 q = 0" by auto
    then show ?thesis using A True by (auto simp: same_board_def)
  next
    case False
    then show ?thesis using Cons.prems a A by (auto split: option.splits if_splits)
  qed
qed auto

text \<open>What a raw write did to the board.\<close>

lemma raw_write_spec:
  assumes law: "rom_law R rows" and run: "raw_write R row v h = (ok, h')"
  shows "rp_flash R h' = rp_flash R h" "bit (rows h k) i \<Longrightarrow> bit (rows h' k) i"
    "rows h' k \<noteq> rows h k \<Longrightarrow> k = row \<and> page_open R rows h (row div 64) \<and>
       (if row div 64 = FV_OTP_MASK_PAGE then row mod 64 < FV_OTP_MASK_ROWS \<and> rows h row AND NOT v = 0 else v = 0xffffff)"
    "bit (rows h' row) i \<Longrightarrow> bit (rows h row) i \<or> bit v i"
proof -
  obtain p h1 where a: "programmable R (row div 64) h = (p, h1)" by (cases "programmable R (row div 64) h")
  obtain q h2 where b: "raw_write_allowed R row v h1 = (q, h2)" by (cases "raw_write_allowed R row v h1")
  obtain w c h3 where d: "rp_otp_access R \<lparr>cmd_row = row, cmd_write = True, cmd_ecc = False\<rparr> (le_bytes v 4) h2 = (w, c, h3)"
    by (cases "rp_otp_access R \<lparr>cmd_row = row, cmd_write = True, cmd_ecc = False\<rparr> (le_bytes v 4) h2") auto
  note A = programmable_spec [OF law a]
  have B: "same_board R rows h1 h2" and ok: "q \<Longrightarrow> (if row div 64 = FV_OTP_MASK_PAGE then row mod 64 < FV_OTP_MASK_ROWS \<and> rows h1 row AND NOT v = 0
      else v = 0xffffff)"
    using b raw_read_spec [OF law] by (auto simp: raw_write_allowed_def split: if_splits option.splits prod.splits)
  have h2: "same_board R rows h h2" using A(1) B by (rule same_board_trans)
  note D = rom_lawD(2) [OF law d]
  have v: "(ucast (get (le_bytes v 4) 0 4) :: u32) = v"
    by (simp add: get_def span_def get_le_bytes)
  have cases: "same_board R rows h h' \<or> (p \<and> q \<and> h' = h3)"
    using run a b d A(1) h2 by (auto simp: raw_write_def split: if_splits)
  show "rp_flash R h' = rp_flash R h" using cases D h2 by (auto simp: same_board_def)
  show "bit (rows h' k) i" if "bit (rows h k) i" using cases D h2 that by (auto simp: same_board_def)
  show "k = row \<and> page_open R rows h (row div 64) \<and>
       (if row div 64 = FV_OTP_MASK_PAGE then row mod 64 < FV_OTP_MASK_ROWS \<and> rows h row AND NOT v = 0 else v = 0xffffff)"
    if "rows h' k \<noteq> rows h k"
  proof -
    have c: "p" "q" "h' = h3" using cases that by (auto simp: same_board_def)
    have "k = row" using D that c h2 by (auto simp: same_board_def)
    moreover have "rows h1 = rows h" using A(1) by (simp add: same_board_def)
    ultimately show ?thesis using A(2) [OF c(1)] ok [OF c(2)] by (auto split: if_splits)
  qed
  show "bit (rows h row) i \<or> bit v i" if "bit (rows h' row) i"
    using cases D h2 that v by (auto simp: same_board_def)
qed

lemma secret_write_spec:
  assumes law: "rom_law R rows" and run: "secret_write R row bytes h = (ok, h')"
  shows "rp_flash R h' = rp_flash R h" "bit (rows h k) i \<Longrightarrow> bit (rows h' k) i"
    "rows h' k \<noteq> rows h k \<Longrightarrow> row \<le> k \<and> k < row + 16 \<and> page_open R rows h (row div 64) \<and> FV_OTP_TOKEN_PAGE \<le> row div 64 \<and>
       row mod 16 = 0 \<and> (\<forall>i < 16. rows h (row + i) = 0)"
proof -
  obtain p h1 where a: "programmable R (row div 64) h = (p, h1)" by (cases "programmable R (row div 64) h")
  obtain q h2 where b: "rows_zero R (map ((+) row) [0..<FV_OTP_SECRET_ROWS]) h1 = (q, h2)"
    by (cases "rows_zero R (map ((+) row) [0..<FV_OTP_SECRET_ROWS]) h1")
  obtain w c h3 where d: "rp_otp_access R \<lparr>cmd_row = row, cmd_write = True, cmd_ecc = True\<rparr> (take 32 bytes) h2 = (w, c, h3)"
    by (cases "rp_otp_access R \<lparr>cmd_row = row, cmd_write = True, cmd_ecc = True\<rparr> (take 32 bytes) h2") auto
  note A = programmable_spec [OF law a] and B = rows_zero_spec [OF law b]
  have h2: "same_board R rows h h2" using A(1) B by (blast intro: same_board_trans)
  note D = rom_lawD(2) [OF law d]
  have cases: "same_board R rows h h' \<or> (p \<and> q \<and> h' = h3 \<and> FV_OTP_TOKEN_PAGE \<le> row div 64 \<and> row mod 16 = 0)"
    using run a b d A(1) h2 unfolding secret_write_def by (auto split: if_splits simp del: One_nat_def)
  show "rp_flash R h' = rp_flash R h" using cases D h2 by (auto simp: same_board_def)
  show "bit (rows h' k) i" if "bit (rows h k) i" using cases D h2 that by (auto simp: same_board_def)
  show "row \<le> k \<and> k < row + 16 \<and> page_open R rows h (row div 64) \<and> FV_OTP_TOKEN_PAGE \<le> row div 64 \<and>
       row mod 16 = 0 \<and> (\<forall>i < 16. rows h (row + i) = 0)" if "rows h' k \<noteq> rows h k"
  proof -
    have c: "p" "q" "h' = h3" "FV_OTP_TOKEN_PAGE \<le> row div 64" "row mod 16 = 0" using cases that by (auto simp: same_board_def)
    have "row \<le> k \<and> k < row + 16" using D that c h2 by (auto simp: same_board_def)
    moreover have "rows h1 = rows h" using A(1) by (simp add: same_board_def)
    moreover have "\<forall>i < 16. rows h1 (row + i) = 0" using B c(2) by simp
    ultimately show ?thesis using A(2) [OF c(1)] c(4,5) by simp
  qed
qed

lemma secret_read_spec: "rom_law R rows \<Longrightarrow> secret_read R row h = (x, h') \<Longrightarrow> same_board R rows h h'"
  using rom_lawD(1) [of R rows row True "zeros 32" h] by (auto simp: secret_read_def split: if_splits prod.splits)

section \<open>The flash adapters\<close>

lemma length_flash_bank [simp]: "length (flash_bank R h) = 8192"
  by (simp add: flash_bank_def FV_JOURNAL_BYTES_def)

lemma nth_flash_bank: "k < 8192 \<Longrightarrow> flash_bank R h ! k = rp_flash R h (FV_SECURITY_FLASH_OFFSET + k)"
  by (simp add: flash_bank_def FV_JOURNAL_BYTES_def)

lemma same_bank_bytes: "same_board R rows h h' \<Longrightarrow> flash_bank R h' = flash_bank R h"
  by (simp add: same_board_def flash_bank_def)

lemma flash_safe_frame:
  assumes law: "rom_law R rows" and run: "rp_flash_safe R f h = (ok, h')"
    and f: "\<And>h. rows (f h) = rows h" "\<And>h a. A a \<Longrightarrow> rp_flash R (f h) a = rp_flash R h a"
  shows "rows h' = rows h" "A a \<Longrightarrow> rp_flash R h' a = rp_flash R h a"
proof -
  obtain h1 where "same_board R rows h h1" "same_board R rows h1 h' \<or> same_board R rows (f h1) h'"
    using rom_lawD(7) [OF law, of h f] run by auto
  then show "rows h' = rows h" "A a \<Longrightarrow> rp_flash R h' a = rp_flash R h a" using f by (auto simp: same_board_def)
qed

lemma flash_program_spec:
  assumes law: "rom_law R rows" and run: "flash_program R off bytes h = (ok, h')"
  shows "rows h' = rows h"
    "a < FV_SECURITY_FLASH_OFFSET + off \<or> FV_SECURITY_FLASH_OFFSET + off + 256 \<le> a \<Longrightarrow> rp_flash R h' a = rp_flash R h a"
    "a < FV_SECURITY_FLASH_OFFSET \<or> FV_SECURITY_FLASH_OFFSET + 8192 \<le> a \<Longrightarrow> rp_flash R h' a = rp_flash R h a"
proof -
  let ?f = "perform R (Flash_Program off (take 256 bytes))"
  have "rows h' = rows h \<and> (\<forall>a. a < FV_SECURITY_FLASH_OFFSET + off \<or> FV_SECURITY_FLASH_OFFSET + off + 256 \<le> a \<longrightarrow> rp_flash R h' a = rp_flash R h a) \<and>
      (h' = h \<or> off + 256 \<le> 8192)"
  proof (cases "off > FV_JOURNAL_BYTES - 256 \<or> off mod 256 \<noteq> 0")
    case True
    then show ?thesis using run by (auto simp: flash_program_def)
  next
    case False
    then have r: "rp_flash_safe R ?f h = (ok, h')" using run by (simp add: flash_program_def)
    have "rows (?f h) = rows h" for h using rom_lawD(5) [OF law] by simp
    moreover have "rp_flash R (?f h) a = rp_flash R h a"
      if "a < FV_SECURITY_FLASH_OFFSET + off \<or> FV_SECURITY_FLASH_OFFSET + off + 256 \<le> a" for h a
      unfolding perform.simps by (rule rom_lawD(6) [OF law]) (use that in auto)
    ultimately show ?thesis
      using flash_safe_frame [OF law r, of "\<lambda>a. a < FV_SECURITY_FLASH_OFFSET + off \<or> FV_SECURITY_FLASH_OFFSET + off + 256 \<le> a"] False
      by (auto simp: FV_JOURNAL_BYTES_def)
  qed
  then show "rows h' = rows h"
    "a < FV_SECURITY_FLASH_OFFSET + off \<or> FV_SECURITY_FLASH_OFFSET + off + 256 \<le> a \<Longrightarrow> rp_flash R h' a = rp_flash R h a"
    "a < FV_SECURITY_FLASH_OFFSET \<or> FV_SECURITY_FLASH_OFFSET + 8192 \<le> a \<Longrightarrow> rp_flash R h' a = rp_flash R h a" by auto
qed

lemma flash_erase_spec:
  assumes law: "rom_law R rows" and run: "flash_erase R bank h = (ok, h')"
  shows "rows h' = rows h"
    "a < FV_SECURITY_FLASH_OFFSET + bank * 4096 \<or> FV_SECURITY_FLASH_OFFSET + bank * 4096 + 4096 \<le> a \<Longrightarrow> rp_flash R h' a = rp_flash R h a"
    "a < FV_SECURITY_FLASH_OFFSET \<or> FV_SECURITY_FLASH_OFFSET + 8192 \<le> a \<Longrightarrow> rp_flash R h' a = rp_flash R h a"
proof -
  let ?f = "perform R (Flash_Erase (bank * 4096))"
  let ?A = "\<lambda>a. a < FV_SECURITY_FLASH_OFFSET + bank * 4096 \<or> FV_SECURITY_FLASH_OFFSET + bank * 4096 + 4096 \<le> a"
  have "rows h' = rows h \<and> (\<forall>a. ?A a \<longrightarrow> rp_flash R h' a = rp_flash R h a) \<and> (h' = h \<or> bank \<le> 1)"
  proof (cases "bank > 1")
    case True
    then show ?thesis using run by (auto simp: flash_erase_def)
  next
    case False
    then have r: "rp_flash_safe R ?f h = (ok, h')" using run by (simp add: flash_erase_def)
    have "rows (?f h) = rows h" for h using rom_lawD(3) [OF law] by simp
    moreover have "rp_flash R (?f h) a = rp_flash R h a" if "?A a" for h a
      unfolding perform.simps by (rule rom_lawD(4) [OF law]) (use that in auto)
    ultimately show ?thesis using flash_safe_frame [OF law r, of ?A] False by auto
  qed
  then show "rows h' = rows h" "?A a \<Longrightarrow> rp_flash R h' a = rp_flash R h a"
    "a < FV_SECURITY_FLASH_OFFSET \<or> FV_SECURITY_FLASH_OFFSET + 8192 \<le> a \<Longrightarrow> rp_flash R h' a = rp_flash R h a" by auto
qed

lemma flash_read_spec:
  assumes "flash_read R off n h = (x, h')"
  shows "h' = h" "x = Some b \<Longrightarrow> b = span (flash_bank R h) off n"
proof -
  show "h' = h" using assms by (auto simp: flash_read_def split: if_splits)
  assume "x = Some b"
  then have b: "off + n \<le> 8192" "b = map (\<lambda>i. rp_flash R h (FV_SECURITY_FLASH_OFFSET + off + i)) [0..<n]"
    using assms by (auto simp: flash_read_def FV_JOURNAL_BYTES_def split: if_splits)
  show "b = span (flash_bank R h) off n"
    unfolding b(2) by (rule nth_equalityI) (use b(1) in \<open>auto simp: nth_span nth_flash_bank add.assoc\<close>)
qed

section \<open>Properties\<close>

text \<open>C35. The adapters of the board provide what enrollment and its journal stand on. With a ROM that only sets the
  bits it is asked to set and flash operations that stay in their range, the OTP adapter obeys the law of
  one-time-programmable memory and the flash adapter the law of the journal's flash, for the two banks
  at the end of the board's flash. So the finality of a destruction and the atomicity of a journal commit hold on the board.\<close>

theorem authority_provides:
  assumes "rom_law R rows"
  shows "otp_law (rp2354_otp R) (rp2354_flash R) rows (flash_bank R) \<and> flash_law (rp2354_flash R) (flash_bank R)"
proof
  note R = raw_read_spec [OF assms] and W = raw_write_spec [OF assms] and P = programmable_spec [OF assms]
    and S = secret_read_spec [OF assms] and T = secret_write_spec [OF assms] and F = flash_program_spec [OF assms]
    and E = flash_erase_spec [OF assms]
  have same: "rows h' = rows h \<and> flash_bank R h' = flash_bank R h" if "same_board R rows h h'" for h h'
    using that same_bank_bytes by (simp add: same_board_def)
  show "otp_law (rp2354_otp R) (rp2354_flash R) rows (flash_bank R)"
    unfolding otp_law_def rp2354_otp_def rp2354_flash_def fv_otp_io.simps fv_journal_io.simps
  proof (intro conjI allI impI)
    fix q h
    obtain x h' where r: "raw_read R q h = (x, h')" by (cases "raw_read R q h")
    show "rows (snd (raw_read R q h)) = rows h" "flash_bank R (snd (raw_read R q h)) = flash_bank R h"
      using same [OF R(1) [OF r]] r by simp_all
    show "v = rows h q" if "fst (raw_read R q h) = Some v" for v using R(2) [OF r] r that by simp
  next
    fix q v h k i
    obtain ok h' where w: "raw_write R q v h = (ok, h')" by (cases "raw_write R q v h")
    show "bit (rows (snd (raw_write R q v h)) k) i" if "bit (rows h k) i" using W(2) [OF w that] w by simp
    show "bit (rows h q) i \<or> bit v i" if "bit (rows (snd (raw_write R q v h)) q) i" using W(4) [OF w] that w by simp
    show "rows (snd (raw_write R q v h)) k = rows h k" if "k \<noteq> q" using W(3) [OF w, of k] that w by auto
  next
    fix q h
    obtain x h' where r: "secret_read R q h = (x, h')" by (cases "secret_read R q h")
    show "rows (snd (secret_read R q h)) = rows h" "flash_bank R (snd (secret_read R q h)) = flash_bank R h"
      using same [OF S [OF r]] r by simp_all
  next
    fix q b h k i
    obtain ok h' where w: "secret_write R q b h = (ok, h')" by (cases "secret_write R q b h")
    show "bit (rows (snd (secret_write R q b h)) k) i" if "bit (rows h k) i" using T(2) [OF w that] w by simp
  next
    fix q h
    obtain ok h' where p: "programmable R q h = (ok, h')" by (cases "programmable R q h")
    show "rows (snd (programmable R q h)) = rows h" "flash_bank R (snd (programmable R q h)) = flash_bank R h"
      using same [OF P(1) [OF p]] p by simp_all
  next
    fix a n h
    obtain x h' where r: "flash_read R a n h = (x, h')" by (cases "flash_read R a n h")
    show "rows (snd (flash_read R a n h)) = rows h" "flash_bank R (snd (flash_read R a n h)) = flash_bank R h"
      using flash_read_spec(1) [OF r] r by simp_all
  next
    fix a b h
    obtain ok h' where p: "flash_program R a b h = (ok, h')" by (cases "flash_program R a b h")
    show "rows (snd (flash_program R a b h)) = rows h" using F(1) [OF p] p by simp
  next
    fix b h
    obtain ok h' where p: "flash_erase R b h = (ok, h')" by (cases "flash_erase R b h")
    show "rows (snd (flash_erase R b h)) = rows h" using E(1) [OF p] p by simp
  qed
  show "flash_law (rp2354_flash R) (flash_bank R)"
    unfolding flash_law_def rp2354_flash_def fv_journal_io.simps
  proof (intro conjI allI impI)
    fix h show "length (flash_bank R h) = 8192" by simp
  next
    fix off n h b h'
    assume r: "flash_read R off n h = (b, h')"
    show "flash_bank R h' = flash_bank R h" using flash_read_spec(1) [OF r] by simp
    show "b = None \<or> b = Some (span (flash_bank R h) off n)" using flash_read_spec(2) [OF r] by (cases b) auto
  next
    fix off page h ok h' k
    assume "flash_program R off page h = (ok, h')" "k < 8192" "k < off \<or> off + 256 \<le> k"
    then show "flash_bank R h' ! k = flash_bank R h ! k"
      using F(2) [of off page h ok h' "FV_SECURITY_FLASH_OFFSET + k"] by (auto simp: nth_flash_bank)
  next
    fix bank h ok h' k
    assume "flash_erase R bank h = (ok, h')" "k < 8192" "k < bank * 4096 \<or> bank * 4096 + 4096 \<le> k"
    then show "flash_bank R h' ! k = flash_bank R h ! k"
      using E(2) [of bank h ok h' "FV_SECURITY_FLASH_OFFSET + k"] by (auto simp: nth_flash_bank)
  qed
qed

text \<open>C34. Whatever arguments the adapters are called with, they write nothing but the application's own memory. A
  raw write changes at most the row it names, on an unlocked application page: a mask row, which only gains
  bits, or a token row, and then only by the all-ones value that destroys it. Writing a secret changes at most the
  sixteen rows of one token, all blank before. Flash operations change nothing outside the two journal banks and no OTP.\<close>

theorem authority_confined:
  assumes "rom_law R rows"
  shows "(\<forall>row v h ok h' k. raw_write R row v h = (ok, h') \<and> rows h' k \<noteq> rows h k \<longrightarrow>
       k = row \<and> page_open R rows h (row div 64) \<and>
       (if row div 64 = 3 then row mod 64 < 29 \<and> rows h row AND NOT v = 0 else v = 0xffffff)) \<and>
     (\<forall>row b h ok h' k. secret_write R row b h = (ok, h') \<and> rows h' k \<noteq> rows h k \<longrightarrow>
       row \<le> k \<and> k < row + 16 \<and> page_open R rows h (row div 64) \<and> row div 64 \<noteq> 3 \<and> (\<forall>i < 16. rows h (row + i) = 0)) \<and>
     (\<forall>off b h ok h' a. flash_program R off b h = (ok, h') \<and> rp_flash R h' a \<noteq> rp_flash R h a \<longrightarrow> 0x1fe000 \<le> a \<and> a < 0x200000) \<and>
     (\<forall>bank h ok h' a. flash_erase R bank h = (ok, h') \<and> rp_flash R h' a \<noteq> rp_flash R h a \<longrightarrow> 0x1fe000 \<le> a \<and> a < 0x200000)"
proof (intro conjI allI impI; elim conjE)
  fix row v h ok h' k
  assume "raw_write R row v h = (ok, h')" "rows h' k \<noteq> rows h k"
  from raw_write_spec(3) [OF assms this]
  show "k = row" "page_open R rows h (row div 64)"
    "if row div 64 = 3 then row mod 64 < 29 \<and> rows h row AND NOT v = 0 else v = 0xffffff"
    by (auto simp: FV_OTP_MASK_ROWS_def split: if_splits)
next
  fix row b h ok h' k
  assume "secret_write R row b h = (ok, h')" "rows h' k \<noteq> rows h k"
  from secret_write_spec(3) [OF assms this]
  show "row \<le> k" "k < row + 16" "page_open R rows h (row div 64)" "row div 64 \<noteq> 3" by auto
  show "rows h (row + i) = 0" if "i < 16" for i
    using secret_write_spec(3) [OF assms \<open>secret_write R row b h = (ok, h')\<close> \<open>rows h' k \<noteq> rows h k\<close>] that by blast
next
  fix off b h ok h' a
  assume "flash_program R off b h = (ok, h')" "rp_flash R h' a \<noteq> rp_flash R h a"
  then show "0x1fe000 \<le> a" "a < 0x200000"
    using flash_program_spec(3) [OF assms, of off b h ok h' a] by (simp_all add: FV_SECURITY_FLASH_OFFSET_def) (metis not_le)+
next
  fix bank h ok h' a
  assume "flash_erase R bank h = (ok, h')" "rp_flash R h' a \<noteq> rp_flash R h a"
  then show "0x1fe000 \<le> a" "a < 0x200000"
    using flash_erase_spec(3) [OF assms, of bank h ok h' a] by (simp_all add: FV_SECURITY_FLASH_OFFSET_def) (metis not_le)+
qed

section \<open>The properties at work\<close>

text \<open>A board in memory: OTP rows, whose corrected writes mark sixteen rows, and flash.\<close>

type_synonym test_board = "(nat \<Rightarrow> u32) \<times> (nat \<Rightarrow> u8)"

definition test_rom :: "test_board rp2354" where
  "test_rom = \<lparr>rp_otp_access = (\<lambda>c b (m, f).
       if \<not> cmd_write c then (True, if cmd_ecc c then replicate 32 6 else le_bytes (m (cmd_row c)) 4, m, f)
       else if cmd_ecc c then (True, b, \<lambda>k. if cmd_row c \<le> k \<and> k < cmd_row c + 16 then m k OR 1 else m k, f)
       else (True, b, m(cmd_row c := m (cmd_row c) OR ucast (get b 0 4)), f)),
     rp_sw_lock = (\<lambda>h page. 0), rp_flash = snd, rp_flash_safe = (\<lambda>f h. (True, f h)),
     rp_flash_erase = (\<lambda>off n (m, f). (m, \<lambda>a. if off \<le> a \<and> a < off + n then 255 else f a)),
     rp_flash_program = (\<lambda>off b (m, f). (m, \<lambda>a. if off \<le> a \<and> a < off + length b then f a AND b ! (a - off) else f a)),
     rp_board_id = [1, 2, 3, 4, 5, 6, 7, 8]\<rparr>"

lemma test_rom_law: "rom_law test_rom fst"
proof -
  have g: "(ucast (get (le_bytes (v :: u32) 4) 0 4) :: u32) = v" for v
    by (simp add: get_def span_def get_le_bytes)
  show ?thesis
    unfolding rom_law_def
    by (intro conjI allI impI) (auto simp: test_rom_def same_board_def g bit_or_iff split: if_splits prod.splits)
qed

lemma authority_provides_witness:
  "otp_law (rp2354_otp test_rom) (rp2354_flash test_rom) fst (flash_bank test_rom) \<and>
   io_read (rp2354_flash test_rom) 4096 3 ((\<lambda>_. 0), (\<lambda>_. 255)) = (Some [255, 255, 255], (\<lambda>_. 0), (\<lambda>_. 255))"
  using authority_provides [OF test_rom_law]
  by (simp add: rp2354_flash_def flash_read_def FV_JOURNAL_BYTES_def test_rom_def upt_rec)

lemma authority_confined_witness:
  "raw_write test_rom 195 6 ((\<lambda>_. 0), (\<lambda>_. 255)) = (True, (\<lambda>_. 0)(195 := 6), (\<lambda>_. 255)) \<and>
   (\<exists>h'. raw_write test_rom 260 6 ((\<lambda>_. 0), (\<lambda>_. 255)) = (False, h') \<and> fst h' 260 = 0)"
proof
  have g: "(ucast (get (le_bytes (v :: u32) 4) 0 4) :: u32) = v" for v
    by (simp add: get_def span_def get_le_bytes)
  note D = raw_write_def programmable_def raw_read_def raw_write_allowed_def app_page_def OTP_DATA_PAGE0_LOCK0_ROW_def
    FV_OTP_MASK_ROWS_def test_rom_def
  show "raw_write test_rom 195 6 ((\<lambda>_. 0), (\<lambda>_. 255)) = (True, (\<lambda>_. 0)(195 := 6), (\<lambda>_. 255))"
    by (simp add: D g)
  obtain ok h' where w: "raw_write test_rom 260 6 ((\<lambda>_. 0), (\<lambda>_. 255)) = (ok, h')" by (cases "raw_write test_rom 260 6 ((\<lambda>_. 0), (\<lambda>_. 255))")
  have "\<not> ok" using w by (simp add: D g)
  moreover have "fst h' 260 = 0"
    using conjunct1 [OF authority_confined [OF test_rom_law], rule_format, of 260 6 "((\<lambda>_. 0), (\<lambda>_. 255))" ok h' 260] w by auto
  ultimately show "\<exists>h'. raw_write test_rom 260 6 ((\<lambda>_. 0), (\<lambda>_. 255)) = (False, h') \<and> fst h' 260 = 0" using w by auto
qed

end
