(* ===== verification/Rp2354_Entropy.thy ===== *)
theory Rp2354_Entropy
  imports Random_Bytes
begin

text \<open>
  The driver of the hardware entropy source (\<^verbatim>\<open>src/src/pico/platform/entropy.c\<close>). The registers of the
  peripheral and the microsecond timer are parameters over the state \<open>'h\<close> of the hardware; reading changes it, for
  time passes and results are consumed. The wait for a sample is a loop that ends only because the timer
  runs, so its value is optional.
\<close>

section \<open>The code\<close>

datatype trng_register =
    RND_SOURCE_ENABLE
  | TRNG_SW_RESET
  | RNG_IMR
  | RNG_ISR
  | RNG_ICR
  | TRNG_CONFIG
  | SAMPLE_CNT1
  | TRNG_DEBUG_CONTROL
  | RNG_DEBUG_EN_INPUT
  | EHR_DATA nat
  | AUTOCORR_STATISTIC

record 'h trng_hw =
  trng_read :: "trng_register \<Rightarrow> 'h \<Rightarrow> u32 \<times> 'h"
  trng_write :: "trng_register \<Rightarrow> u32 \<Rightarrow> 'h \<Rightarrow> 'h"
  time_us_64 :: "'h \<Rightarrow> u64 \<times> 'h"

record fv_rp2354_entropy =
  re_blocks :: u32
  re_last_status :: u32
  re_autocorrelation :: u32
  re_failures :: u32
  re_timeouts :: u32
  re_elapsed_us :: u64
  re_failed :: bool

definition fv_rp2354_entropy_init :: "'h trng_hw \<Rightarrow> 'h \<Rightarrow> fv_rp2354_entropy \<times> 'h" where
  "fv_rp2354_entropy_init T h =
     (let h = trng_write T RND_SOURCE_ENABLE 0 h;
          h = trng_write T TRNG_SW_RESET 1 h;
          h = snd (trng_read T TRNG_SW_RESET (snd (trng_read T TRNG_SW_RESET h)));
          h = trng_write T RNG_IMR 15 h;
          h = trng_write T TRNG_CONFIG 0 h;
          h = trng_write T SAMPLE_CNT1 100 h;
          h = trng_write T TRNG_DEBUG_CONTROL 0 h;
          h = trng_write T RNG_DEBUG_EN_INPUT 0 h
      in (\<lparr>re_blocks = 0, re_last_status = 0, re_autocorrelation = 0, re_failures = 0, re_timeouts = 0, re_elapsed_us = 0,
           re_failed = False\<rparr>, trng_write T RNG_ICR 15 h))"

text \<open>The configuration is checked before every block.\<close>

definition trng_configured :: "'h trng_hw \<Rightarrow> 'h \<Rightarrow> bool \<times> 'h" where
  "trng_configured T h =
     (case trng_read T TRNG_DEBUG_CONTROL h of (a, h) \<Rightarrow> if a \<noteq> 0 then (False, h) else
      case trng_read T RNG_DEBUG_EN_INPUT h of (a, h) \<Rightarrow> if a \<noteq> 0 then (False, h) else
      case trng_read T SAMPLE_CNT1 h of (a, h) \<Rightarrow> if a \<noteq> 100 then (False, h) else
      case trng_read T TRNG_CONFIG h of (a, h) \<Rightarrow> (a = 0, h))"

partial_function (option) trng_wait ::
  "'h trng_hw \<Rightarrow> u64 \<Rightarrow> fv_rp2354_entropy \<Rightarrow> 'h \<Rightarrow> (bool \<times> fv_rp2354_entropy \<times> 'h) option" where
  "trng_wait T start e h =
     (case trng_read T RNG_ISR h of (status, h) \<Rightarrow>
      let e = e\<lparr>re_last_status := status\<rparr> in
      if status AND 14 \<noteq> 0 then Some (False, e, h)
      else if status AND 1 \<noteq> 0 then Some (True, e, h)
      else case time_us_64 T h of (now, h) \<Rightarrow>
      if now - start \<ge> 1000000 then Some (False, e\<lparr>re_timeouts := re_timeouts e + 1\<rparr>, h)
      else trng_wait T start e h)"

fun trng_result :: "'h trng_hw \<Rightarrow> nat list \<Rightarrow> 'h \<Rightarrow> u8 list \<times> 'h" where
  "trng_result T [] h = ([], h)"
| "trng_result T (i # is) h =
     (case trng_read T (EHR_DATA i) h of (word, h) \<Rightarrow>
      case trng_result T is h of (bytes, h) \<Rightarrow> (le_bytes word 4 @ bytes, h))"

definition trng_sample :: "'h trng_hw \<Rightarrow> u64 \<Rightarrow> fv_rp2354_entropy \<Rightarrow> 'h \<Rightarrow> (u8 list option \<times> fv_rp2354_entropy \<times> 'h) option" where
  "trng_sample T start e h =
     (case trng_configured T h of (ok, h) \<Rightarrow>
      if \<not> ok then Some (None, e, h)
      else case trng_wait T start e (trng_write T RND_SOURCE_ENABLE 1 (trng_write T RNG_ICR 1 h)) of
        None \<Rightarrow> None
      | Some (False, e, h) \<Rightarrow> Some (None, e, h)
      | Some (True, e, h) \<Rightarrow>
        (case trng_result T [0..<6] h of (out, h) \<Rightarrow> Some (Some out, e\<lparr>re_blocks := re_blocks e + 1\<rparr>, h)))"

definition trng_done :: "'h trng_hw \<Rightarrow> u64 \<Rightarrow> u8 list option \<times> fv_rp2354_entropy \<times> 'h \<Rightarrow> u8 list option \<times> fv_rp2354_entropy \<times> 'h" where
  "trng_done T start r =
     (case r of (out, e, h) \<Rightarrow>
      case trng_read T AUTOCORR_STATISTIC (trng_write T RND_SOURCE_ENABLE 0 h) of (stat, h) \<Rightarrow>
      case time_us_64 T h of (now, h) \<Rightarrow>
      let e = e\<lparr>re_autocorrelation := stat, re_elapsed_us := re_elapsed_us e + (now - start)\<rparr> in
      (out, if out = None then e\<lparr>re_failed := True, re_failures := re_failures e + 1\<rparr> else e, h))"

definition fv_rp2354_entropy_block ::
  "'h trng_hw \<Rightarrow> fv_rp2354_entropy \<times> 'h \<Rightarrow> (u8 list option \<times> fv_rp2354_entropy \<times> 'h) option" where
  "fv_rp2354_entropy_block T s =
     (case s of (e, h) \<Rightarrow>
      if re_failed e then Some (None, e, h)
      else case time_us_64 T h of (start, h) \<Rightarrow> map_option (trng_done T start) (trng_sample T start e h))"

section \<open>The hardware the driver relies on\<close>

text \<open>One turn of the waiting loop, and the timer reading that ends it.\<close>

definition wait_turn :: "'h trng_hw \<Rightarrow> 'h \<Rightarrow> u64 \<times> 'h" where
  "wait_turn T h = time_us_64 T (snd (trng_read T RNG_ISR h))"

text \<open>The timer runs while the loop polls; the source is on exactly when it was last enabled.\<close>

definition trng_law :: "'h trng_hw \<Rightarrow> ('h \<Rightarrow> bool) \<Rightarrow> bool" where
  "trng_law T on \<longleftrightarrow>
     (\<forall>h start. \<exists>n. 1000000 \<le> fst (wait_turn T (((\<lambda>h. snd (wait_turn T h)) ^^ n) h)) - start) \<and>
     (\<forall>r h. on (snd (trng_read T r h)) = on h) \<and>
     (\<forall>h. on (snd (time_us_64 T h)) = on h) \<and>
     (\<forall>r v h. on (trng_write T r v h) = (if r = RND_SOURCE_ENABLE then v \<noteq> 0 else on h))"

lemma trng_law_keeps:
  assumes "trng_law T on"
  shows "on (snd (trng_read T r h)) = on h" "on (snd (time_us_64 T h)) = on h"
    "on (trng_write T r v h) = (if r = RND_SOURCE_ENABLE then v \<noteq> 0 else on h)"
  using assms by (simp_all add: trng_law_def)

text \<open>A status that reports a finished sample and no error.\<close>

definition sample_ready :: "u32 \<Rightarrow> bool" where
  "sample_ready status \<longleftrightarrow> status AND 14 = 0 \<and> status AND 1 \<noteq> 0"

lemma trng_wait_returns:
  assumes "1000000 \<le> fst (wait_turn T (((\<lambda>h. snd (wait_turn T h)) ^^ n) h)) - start"
  shows "\<exists>ok e' h'. trng_wait T start e h = Some (ok, e', h') \<and> re_failed e' = re_failed e \<and> (ok \<longrightarrow> sample_ready (re_last_status e'))"
  using assms
proof (induction n arbitrary: e h)
  case 0
  then show ?case
    by (subst trng_wait.simps) (auto simp: Let_def wait_turn_def sample_ready_def split: prod.split)
next
  case (Suc n)
  define h1 where "h1 = snd (wait_turn T h)"
  have "1000000 \<le> fst (wait_turn T (((\<lambda>h. snd (wait_turn T h)) ^^ n) h1)) - start"
    using Suc.prems by (simp add: h1_def funpow_Suc_right del: funpow.simps)
  note IH = Suc.IH [OF this]
  obtain status h0 where r: "trng_read T RNG_ISR h = (status, h0)" by fastforce
  obtain now where t: "time_us_64 T h0 = (now, h1)" using r by (cases "time_us_64 T h0") (simp add: h1_def wait_turn_def)
  show ?case
    using IH [of "e\<lparr>re_last_status := status\<rparr>"]
    by (subst trng_wait.simps) (auto simp: Let_def r t sample_ready_def)
qed

lemma trng_result_length: "length (fst (trng_result T is h)) = 4 * length is"
  by (induction "is" arbitrary: h) (auto split: prod.split simp: split_beta)

lemma trng_result_word:
  "trng_result T is h = (out, h') \<Longrightarrow> k < length is \<Longrightarrow>
   \<exists>h1. take 4 (drop (4 * k) out) = le_bytes (fst (trng_read T (EHR_DATA (is ! k)) h1)) 4"
proof (induction "is" arbitrary: h out h' k)
  case (Cons i "is")
  obtain word h1 where r: "trng_read T (EHR_DATA i) h = (word, h1)" by fastforce
  obtain bytes h2 where b: "trng_result T is h1 = (bytes, h2)" by fastforce
  have out: "out = le_bytes word 4 @ bytes" using Cons.prems(1) r b by simp
  show ?case
  proof (cases k)
    case 0
    then show ?thesis using out r by (intro exI [of _ h]) simp
  next
    case (Suc j)
    then have "take 4 (drop (4 * k) out) = take 4 (drop (4 * j) bytes)" using out by simp
    then show ?thesis using Cons.IH [OF b, of j] Cons.prems(2) Suc by simp
  qed
qed simp

text \<open>What a block request does, whatever it returns.\<close>

lemma entropy_block_spec:
  assumes law: "trng_law T on" and e: "\<not> re_failed e"
  shows "\<exists>out e' h'. fv_rp2354_entropy_block T (e, h) = Some (out, e', h') \<and> \<not> on h' \<and> re_failed e' = (out = None) \<and>
    (\<forall>b. out = Some b \<longrightarrow> length b = 24 \<and> sample_ready (re_last_status e') \<and>
      (\<forall>k < 6. \<exists>h1. take 4 (drop (4 * k) b) = le_bytes (fst (trng_read T (EHR_DATA k) h1)) 4))"
proof -
  obtain start h0 where t: "time_us_64 T h = (start, h0)" by fastforce
  have "\<exists>out e' h'. trng_sample T start e h0 = Some (out, e', h') \<and> \<not> re_failed e' \<and>
    (\<forall>b. out = Some b \<longrightarrow> length b = 24 \<and> sample_ready (re_last_status e') \<and>
      (\<forall>k < 6. \<exists>h1. take 4 (drop (4 * k) b) = le_bytes (fst (trng_read T (EHR_DATA k) h1)) 4))"
  proof -
    obtain ok h1 where c: "trng_configured T h0 = (ok, h1)" by fastforce
    define h2 where "h2 = trng_write T RND_SOURCE_ENABLE 1 (trng_write T RNG_ICR 1 h1)"
    obtain n where "1000000 \<le> fst (wait_turn T (((\<lambda>h. snd (wait_turn T h)) ^^ n) h2)) - start"
      using law unfolding trng_law_def by blast
    from trng_wait_returns [OF this, of e] obtain go e2 h3
      where w: "trng_wait T start e h2 = Some (go, e2, h3)" "re_failed e2 = re_failed e" "go \<Longrightarrow> sample_ready (re_last_status e2)" by blast
    obtain b h4 where r: "trng_result T [0..<6] h3 = (b, h4)" by fastforce
    have "length b = 24" using trng_result_length [of T "[0..<6]" h3] r by simp
    moreover have "\<exists>h1. take 4 (drop (4 * k) b) = le_bytes (fst (trng_read T (EHR_DATA k) h1)) 4" if "k < 6" for k
      using trng_result_word [OF r, of k] that by (simp del: upt_Suc)
    ultimately show ?thesis using w e
      by (cases ok; cases go) (simp_all add: trng_sample_def c h2_def [symmetric] r del: upt_Suc)
  qed
  then obtain out e1 h1 where s: "trng_sample T start e h0 = Some (out, e1, h1)" "\<not> re_failed e1"
    "\<forall>b. out = Some b \<longrightarrow> length b = 24 \<and> sample_ready (re_last_status e1) \<and>
      (\<forall>k < 6. \<exists>h1. take 4 (drop (4 * k) b) = le_bytes (fst (trng_read T (EHR_DATA k) h1)) 4)" by blast
  obtain stat h2 where r: "trng_read T AUTOCORR_STATISTIC (trng_write T RND_SOURCE_ENABLE 0 h1) = (stat, h2)" by fastforce
  obtain now h3 where n: "time_us_64 T h2 = (now, h3)" by fastforce
  have "\<not> on h3"
    using trng_law_keeps(1) [OF law, of AUTOCORR_STATISTIC "trng_write T RND_SOURCE_ENABLE 0 h1"]
      trng_law_keeps(2) [OF law, of h2] trng_law_keeps(3) [OF law, of RND_SOURCE_ENABLE 0 h1] r n by simp
  then show ?thesis
    using s e by (auto simp: fv_rp2354_entropy_block_def t trng_done_def r n Let_def)
qed


text \<open>A peripheral that has a sample ready and a clock of one tick per reading.\<close>

definition test_trng :: "(u64 \<times> bool) trng_hw" where
  "test_trng = \<lparr>trng_read = (\<lambda>r h. (case r of EHR_DATA i \<Rightarrow> of_nat i + 1 | RNG_ISR \<Rightarrow> 1 | SAMPLE_CNT1 \<Rightarrow> 100 | _ \<Rightarrow> 0, h)),
     trng_write = (\<lambda>r v h. if r = RND_SOURCE_ENABLE then (fst h, v \<noteq> 0) else h),
     time_us_64 = (\<lambda>h. (fst h, fst h + 1, snd h))\<rparr>"

lemma test_trng_law: "trng_law test_trng snd"
proof -
  have turn: "wait_turn test_trng h = (fst h, fst h + 1, snd h)" for h by (simp add: wait_turn_def test_trng_def)
  have turns: "fst (((\<lambda>h. (fst h + 1, snd h)) ^^ n) h) = fst h + of_nat n" for n and h :: "u64 \<times> bool"
    by (induction n) (simp_all add: algebra_simps)
  have "\<exists>n. 1000000 \<le> fst (wait_turn test_trng (((\<lambda>h. snd (wait_turn test_trng h)) ^^ n) h)) - start" for h start
    by (intro exI [of _ "unat (start + 1000000 - fst h)"]) (simp add: turn turns)
  then show ?thesis by (simp add: trng_law_def test_trng_def)
qed


end
