(* ===== verification/Vault_Filesystem.thy ===== *)
theory Vault_Filesystem
  imports Vault_IO
begin

text \<open>
  The file system of a new vault (\<^verbatim>\<open>src/src/pico/device/vault_filesystem.c\<close>). While FatFs formats, its disk callbacks
  are redirected: every sector it reads or writes passes through the vault, in batches through a copy buffer,
  since a vault write consumes its input. FatFs (third party) is a parameter: a program of disk calls whose next
  call may depend on all earlier answers. Outside formatting the callbacks go to the library's own driver.
\<close>

section \<open>FatFs as a program of disk calls\<close>

datatype dresult = RES_OK | RES_ERROR | RES_NOTRDY | RES_PARERR

datatype fat_ioctl = CTRL_SYNC | GET_SECTOR_COUNT | GET_SECTOR_SIZE | GET_BLOCK_SIZE | IOCTL_OTHER

datatype 'r fat_program =
    Fat_Return 'r
  | Fat_Status nat "bool \<Rightarrow> 'r fat_program"
  | Fat_Read nat nat nat "dresult \<times> u8 list \<Rightarrow> 'r fat_program"
  | Fat_Write nat nat nat "u8 list" "dresult \<Rightarrow> 'r fat_program"
  | Fat_Ioctl nat fat_ioctl "dresult \<times> nat \<Rightarrow> 'r fat_program"

text \<open>The state while formatting: the copy buffer and its address, its size in sectors, the vault and its world.\<close>

record ('a, 'd, 'r) format_state =
  fm_copy :: "u8 list"
  fm_vault :: fv_vault
  fm_world :: "('a, 'd, 'r) vault_world"

section \<open>The redirected callbacks\<close>

definition wrap_disk_status :: "nat \<Rightarrow> ('a, 'd, 'r) format_state \<Rightarrow> bool" where
  "wrap_disk_status drive s \<longleftrightarrow> drive = 0 \<and> v_unlocked (fm_vault s)"

lemma vault_read_empty: "fv_vault_read SL p lba 0 buf vw = (FV_BLOCK_OK, out, vw') \<Longrightarrow> False"
  by (cases buf; cases vw) (auto simp: fv_vault_read_def vault_io_def)

lemma vault_write_empty: "fv_vault_write SL p lba 0 buf vw = (FV_BLOCK_OK, out, vw') \<Longrightarrow> False"
  by (cases buf; cases vw) (auto simp: fv_vault_write_def vault_io_def)

function wrap_read_loop ::
  "sha_lib \<Rightarrow> ('a, 'd, 'r) fv_vault_platform \<Rightarrow> nat \<Rightarrow> nat \<Rightarrow> nat \<Rightarrow> nat \<Rightarrow> u8 list \<Rightarrow> ('a, 'd, 'r) format_state
   \<Rightarrow> dresult \<times> u8 list \<times> ('a, 'd, 'r) format_state" where
  "wrap_read_loop SL p address copy_sectors lba cnt out s =
     (if cnt = 0 then (RES_OK, out, s)
      else
        (let batch = min cnt copy_sectors in
         case fv_vault_read SL p lba batch (address, take (batch * 512) (fm_copy s)) (fm_vault s, fm_world s) of (r, bytes, v, w) \<Rightarrow>
           let s = s\<lparr>fm_copy := memcpy (fm_copy s) 0 bytes, fm_vault := v, fm_world := w\<rparr> in
           if r \<noteq> FV_BLOCK_OK then (RES_ERROR, out, s)
           else wrap_read_loop SL p address copy_sectors (lba + batch) (cnt - batch) (out @ bytes) s))"
  by pat_completeness auto
termination
proof (relation "measure (\<lambda>(SL, p, address, copy_sectors, lba, cnt, out, s). cnt)", goal_cases)
  case (2 SL p address copy_sectors lba cnt)
  have "copy_sectors \<noteq> 0"
  proof
    assume "copy_sectors = 0"
    with 2 show False by (auto dest!: vault_read_empty [OF sym])
  qed
  then show ?case using 2 by auto
qed auto

function wrap_write_loop ::
  "sha_lib \<Rightarrow> ('a, 'd, 'r) fv_vault_platform \<Rightarrow> nat \<Rightarrow> nat \<Rightarrow> nat \<Rightarrow> nat \<Rightarrow> u8 list \<Rightarrow> ('a, 'd, 'r) format_state
   \<Rightarrow> dresult \<times> ('a, 'd, 'r) format_state" where
  "wrap_write_loop SL p address copy_sectors lba cnt inp s =
     (if cnt = 0 then (RES_OK, s)
      else
        (let batch = min cnt copy_sectors in
         case fv_vault_write SL p lba batch (address, take (batch * 512) inp) (fm_vault s, fm_world s) of (r, bytes, v, w) \<Rightarrow>
           let s = s\<lparr>fm_copy := memcpy (fm_copy s) 0 bytes, fm_vault := v, fm_world := w\<rparr> in
           if r \<noteq> FV_BLOCK_OK then (RES_ERROR, s)
           else wrap_write_loop SL p address copy_sectors (lba + batch) (cnt - batch) (drop (batch * 512) inp) s))"
  by pat_completeness auto
termination
proof (relation "measure (\<lambda>(SL, p, address, copy_sectors, lba, cnt, inp, s). cnt)", goal_cases)
  case (2 SL p address copy_sectors lba cnt)
  have "copy_sectors \<noteq> 0"
  proof
    assume "copy_sectors = 0"
    with 2 show False by (auto dest!: vault_write_empty [OF sym])
  qed
  then show ?case using 2 by auto
qed auto

declare wrap_read_loop.simps [simp del] wrap_write_loop.simps [simp del]

definition wrap_disk_read where
  "wrap_disk_read SL p address copy_sectors drive lba cnt s =
     (if drive \<noteq> 0 \<or> cnt = 0 then (RES_PARERR, [], s) else wrap_read_loop SL p address copy_sectors lba cnt [] s)"

definition wrap_disk_write where
  "wrap_disk_write SL p address copy_sectors drive lba cnt inp s =
     (if drive \<noteq> 0 \<or> cnt = 0 then (RES_PARERR, s) else wrap_write_loop SL p address copy_sectors lba cnt inp s)"

definition wrap_disk_ioctl ::
  "('a, 'd, 'r) fv_vault_platform \<Rightarrow> nat \<Rightarrow> fat_ioctl \<Rightarrow> ('a, 'd, 'r) format_state \<Rightarrow> dresult \<times> nat \<times> ('a, 'd, 'r) format_state" where
  "wrap_disk_ioctl p drive command s =
     (if drive \<noteq> 0 \<or> \<not> v_unlocked (fm_vault s) then (RES_NOTRDY, 0, s)
      else case command of
        CTRL_SYNC \<Rightarrow> (case blk_sync (vp_sd p) (w_sd (fm_world s)) of (r, d) \<Rightarrow>
          (if r = FV_BLOCK_OK then RES_OK else RES_ERROR, 0, s\<lparr>fm_world := (fm_world s)\<lparr>w_sd := d\<rparr>\<rparr>))
      | GET_SECTOR_COUNT \<Rightarrow> (RES_OK, unat (logical_blocks (ec_volume (v_config (fm_vault s)))), s)
      | GET_SECTOR_SIZE \<Rightarrow> (RES_OK, 512, s)
      | GET_BLOCK_SIZE \<Rightarrow> (RES_OK, 1, s)
      | IOCTL_OTHER \<Rightarrow> (RES_PARERR, 0, s))"

text \<open>Running a program on the vault. The flag tells whether some call was answered with an error.\<close>

primrec fat_on_vault ::
  "sha_lib \<Rightarrow> ('a, 'd, 'r) fv_vault_platform \<Rightarrow> nat \<Rightarrow> nat \<Rightarrow> 'q fat_program \<Rightarrow> ('a, 'd, 'r) format_state
   \<Rightarrow> 'q \<times> bool \<times> ('a, 'd, 'r) format_state" where
  "fat_on_vault SL p a k (Fat_Return q) s = (q, False, s)"
| "fat_on_vault SL p a k (Fat_Status drive f) s = fat_on_vault SL p a k (f (wrap_disk_status drive s)) s"
| "fat_on_vault SL p a k (Fat_Read drive lba cnt f) s =
     (case wrap_disk_read SL p a k drive lba cnt s of (r, out, s) \<Rightarrow>
      case fat_on_vault SL p a k (f (r, out)) s of (q, e, s) \<Rightarrow> (q, e \<or> r = RES_ERROR, s))"
| "fat_on_vault SL p a k (Fat_Write drive lba cnt inp f) s =
     (case wrap_disk_write SL p a k drive lba cnt inp s of (r, s) \<Rightarrow>
      case fat_on_vault SL p a k (f r) s of (q, e, s) \<Rightarrow> (q, e \<or> r = RES_ERROR, s))"
| "fat_on_vault SL p a k (Fat_Ioctl drive c f) s =
     (case wrap_disk_ioctl p drive c s of (r, n, s) \<Rightarrow>
      case fat_on_vault SL p a k (f (r, n)) s of (q, e, s) \<Rightarrow> (q, e \<or> r = RES_ERROR, s))"

section \<open>Formatting\<close>

text \<open>FatFs, with its two entry points: making a file system, given the size of the work area, and mounting
  it, which reports the type found. True is \<^verbatim>\<open>FR_OK\<close>.\<close>

record fat_lib =
  fl_mkfs :: "nat \<Rightarrow> bool fat_program"
  fl_mount :: "(bool \<times> bool) fat_program"

definition format_allowed :: "('a, 'd, 'r) fv_vault_platform \<Rightarrow> nat \<Rightarrow> nat \<Rightarrow> fv_vault \<Rightarrow> ('a, 'd, 'r) vault_world
    \<Rightarrow> bool \<times> ('a, 'd, 'r) vault_world" where
  "format_allowed p workspace bytes v w =
     (if \<not> v_unlocked v \<or> workspace = 0 \<or> workspace mod 4 \<noteq> 0 \<or> bytes < 1024 \<or> bytes > 65536 then (False, w)
      else case vault_load p w of (None, w) \<Rightarrow> (False, w)
      | (Some state, w) \<Rightarrow> (ds_status state = FV_ENROLLMENT_EMPTY, w))"

definition fv_vault_format_fat32 ::
  "sha_lib \<Rightarrow> fat_lib \<Rightarrow> ('a, 'd, 'r) fv_vault_platform \<Rightarrow> nat \<Rightarrow> u8 list \<Rightarrow> fv_vault \<Rightarrow> ('a, 'd, 'r) vault_world
   \<Rightarrow> bool \<times> u8 list \<times> fv_vault \<times> ('a, 'd, 'r) vault_world" where
  "fv_vault_format_fat32 SL F p workspace buffer v w =
     (let bytes = length buffer in
      case format_allowed p workspace bytes v w of (ok, w) \<Rightarrow>
      if \<not> ok then (False, buffer, v, w)
      else
        (let work = bytes div 1024 * 512; a = workspace + work; k = work div 512;
             s = \<lparr>fm_copy = drop work buffer, fm_vault = v, fm_world = w\<rparr>
         in case fat_on_vault SL p a k (fl_mkfs F work) s of (made, e, s) \<Rightarrow>
            case (if made then (case fat_on_vault SL p a k (fl_mount F) s of ((mounted, fat32), e, s) \<Rightarrow> (mounted \<and> fat32, s))
                  else (False, s)) of (ok, s) \<Rightarrow>
              (ok, zeros bytes, fm_vault s, fm_world s)))"

section \<open>A plain disk\<close>

text \<open>The same program on a disk of \<open>n\<close> plaintext sectors.\<close>

definition plain_read :: "(nat \<Rightarrow> u8 list) \<Rightarrow> nat \<Rightarrow> nat \<Rightarrow> u8 list" where
  "plain_read m lba cnt = concat (map (\<lambda>i. m (lba + i)) [0..<cnt])"

primrec fat_on_disk :: "nat \<Rightarrow> 'q fat_program \<Rightarrow> (nat \<Rightarrow> u8 list) \<Rightarrow> 'q \<times> (nat \<Rightarrow> u8 list)" where
  "fat_on_disk n (Fat_Return q) m = (q, m)"
| "fat_on_disk n (Fat_Status drive f) m = fat_on_disk n (f (drive = 0)) m"
| "fat_on_disk n (Fat_Read drive lba cnt f) m =
     fat_on_disk n (f (if drive \<noteq> 0 \<or> cnt = 0 then (RES_PARERR, []) else (RES_OK, plain_read m lba cnt))) m"
| "fat_on_disk n (Fat_Write drive lba cnt inp f) m =
     (if drive \<noteq> 0 \<or> cnt = 0 then fat_on_disk n (f RES_PARERR) m
      else fat_on_disk n (f RES_OK) (\<lambda>x. if lba \<le> x \<and> x < lba + cnt then span inp ((x - lba) * 512) 512 else m x))"
| "fat_on_disk n (Fat_Ioctl drive c f) m =
     fat_on_disk n (f (if drive \<noteq> 0 then (RES_NOTRDY, 0)
       else case c of CTRL_SYNC \<Rightarrow> (RES_OK, 0) | GET_SECTOR_COUNT \<Rightarrow> (RES_OK, n) | GET_SECTOR_SIZE \<Rightarrow> (RES_OK, 512)
         | GET_BLOCK_SIZE \<Rightarrow> (RES_OK, 1) | IOCTL_OTHER \<Rightarrow> (RES_PARERR, 0))) m"

section \<open>Refinement\<close>

primrec fat_wf :: "'q fat_program \<Rightarrow> bool" where
  "fat_wf (Fat_Return q) \<longleftrightarrow> True"
| "fat_wf (Fat_Status drive f) \<longleftrightarrow> (\<forall>b. fat_wf (f b))"
| "fat_wf (Fat_Read drive lba cnt f) \<longleftrightarrow> (\<forall>r. fat_wf (f r))"
| "fat_wf (Fat_Write drive lba cnt inp f) \<longleftrightarrow> length inp = cnt * 512 \<and> (\<forall>r. fat_wf (f r))"
| "fat_wf (Fat_Ioctl drive c f) \<longleftrightarrow> (\<forall>r. fat_wf (f r))"

text \<open>The vault is open and its volume is the disk \<open>m\<close> of \<open>n\<close> sectors.\<close>

definition vault_is_disk ::
  "sha_lib \<Rightarrow> ('a, 'd, 'r) fv_vault_platform \<Rightarrow> ('d \<Rightarrow> nat \<Rightarrow> u8 list) \<Rightarrow> nat \<Rightarrow> nat \<Rightarrow> (nat \<Rightarrow> u8 list) \<Rightarrow> ('a, 'd, 'r) format_state \<Rightarrow> bool" where
  "vault_is_disk SL p cells k n m s \<longleftrightarrow> vault_disk_inv SL p cells (fm_vault s, fm_world s) \<and>
     vault_blocks (fm_vault s, fm_world s) = n \<and> length (fm_copy s) = k * 512 \<and>
     (\<forall>x < n. vault_sector SL cells (fm_vault s, fm_world s) x = Some (m x))"

lemma plain_read_append: "plain_read m lba (b + c) = plain_read m lba b @ plain_read m (lba + b) c"
proof -
  have "[0..<b + c] = [0..<b] @ map (\<lambda>i. i + b) [0..<c]"
    using upt_add_eq_append [of 0 b c] map_add_upt [of b c] by (simp only: add.commute [of c b] add_0 le0 simp_thms)
  then have "plain_read m lba (b + c) = plain_read m lba b @ concat (map (\<lambda>i. m (lba + (i + b))) [0..<c])"
    by (simp add: plain_read_def comp_def)
  moreover have "m (lba + (i + b)) = m (lba + b + i)" for i by (simp only: ac_simps)
  ultimately show ?thesis by (simp only: plain_read_def)
qed

lemma fat_read_loop_spec:
  assumes m: "\<forall>x. length (m x) = 512"
  shows "wrap_read_loop SL p a k lba cnt out s = (RES_OK, out', s') \<Longrightarrow> vault_is_disk SL p cells k n m s \<Longrightarrow>
    out' = out @ plain_read m lba cnt \<and> vault_is_disk SL p cells k n m s'"
proof (induction cnt arbitrary: lba out s rule: less_induct)
  case (less cnt)
  show ?case
  proof (cases "cnt = 0")
    case True
    then show ?thesis using less.prems by (simp add: wrap_read_loop.simps [of SL p a k lba 0] plain_read_def)
  next
    case False
    define b where "b = min cnt k"
    obtain r bytes v w where rd: "fv_vault_read SL p lba b (a, take (b * 512) (fm_copy s)) (fm_vault s, fm_world s) = (r, bytes, v, w)"
      by (cases "fv_vault_read SL p lba b (a, take (b * 512) (fm_copy s)) (fm_vault s, fm_world s)") auto
    define s1 where "s1 = s\<lparr>fm_copy := memcpy (fm_copy s) 0 bytes, fm_vault := v, fm_world := w\<rparr>"
    have ok: "r = FV_BLOCK_OK" and run: "wrap_read_loop SL p a k (lba + b) (cnt - b) (out @ bytes) s1 = (RES_OK, out', s')"
      using less.prems(1) False rd
      by (auto simp: wrap_read_loop.simps [of SL p a k lba cnt] b_def [symmetric] s1_def Let_def split: if_splits)
    have i: "vault_disk_inv SL p cells (fm_vault s, fm_world s)" "length (fm_copy s) = k * 512"
      "vault_blocks (fm_vault s, fm_world s) = n" "\<And>x. x < n \<Longrightarrow> vault_sector SL cells (fm_vault s, fm_world s) x = Some (m x)"
      using less.prems(2) by (auto simp: vault_is_disk_def)
    have l: "length (take (b * 512) (fm_copy s)) = b * 512" using i(2) by (simp add: b_def min_def)
    note R = vault_disk.read_ok [OF i(1) l rd [unfolded ok]]
    have "b \<noteq> 0" using vault_read_empty [of SL p lba] rd ok by (metis)
    have "bytes = plain_read m lba b"
    proof (rule concat_spans [of _ b])
      show "length bytes = b * 512" using R by simp
      show "length (plain_read m lba b) = b * 512" using m by (simp add: plain_read_def length_concat_512)
      fix j assume j: "j < b"
      have "lba + j < n" using R j i(3) by simp
      then have "Some (m (lba + j)) = Some (span bytes (j * 512) 512)" using R j i(4) by metis
      then show "span bytes (j * 512) 512 = span (plain_read m lba b) (j * 512) 512"
        using m j by (simp add: plain_read_def span_concat_512)
    qed
    moreover have "vault_is_disk SL p cells k n m s1"
      using R i by (simp add: vault_is_disk_def s1_def)
    moreover have "cnt = b + (cnt - b)" by (simp add: b_def)
    ultimately show ?thesis
      using less.IH [OF _ run] \<open>b \<noteq> 0\<close> False plain_read_append [of m lba b "cnt - b"] by simp
  qed
qed

lemma fat_write_loop_spec':
  "wrap_write_loop SL p a k lba cnt inp s = (RES_OK, s') \<Longrightarrow> length inp = cnt * 512 \<Longrightarrow> vault_is_disk SL p cells k n m s \<Longrightarrow>
    vault_is_disk SL p cells k n (\<lambda>x. if lba \<le> x \<and> x < lba + cnt then span inp ((x - lba) * 512) 512 else m x) s'"
proof (induction cnt arbitrary: lba inp s m rule: less_induct)
  case (less cnt)
  show ?case
  proof (cases "cnt = 0")
    case True
    then have "s' = s" using less.prems(1) by (simp add: wrap_write_loop.simps [of SL p a k lba 0])
    then show ?thesis using less.prems(3) True by (auto simp: vault_is_disk_def)
  next
    case False
    define b where "b = min cnt k"
    obtain r bytes v w where wr: "fv_vault_write SL p lba b (a, take (b * 512) inp) (fm_vault s, fm_world s) = (r, bytes, v, w)"
      by (cases "fv_vault_write SL p lba b (a, take (b * 512) inp) (fm_vault s, fm_world s)") auto
    define s1 where "s1 = s\<lparr>fm_copy := memcpy (fm_copy s) 0 bytes, fm_vault := v, fm_world := w\<rparr>"
    have ok: "r = FV_BLOCK_OK" and run: "wrap_write_loop SL p a k (lba + b) (cnt - b) (drop (b * 512) inp) s1 = (RES_OK, s')"
      using less.prems(1) False wr
      by (auto simp: wrap_write_loop.simps [of SL p a k lba cnt] b_def [symmetric] s1_def Let_def split: if_splits)
    have i: "vault_disk_inv SL p cells (fm_vault s, fm_world s)" "length (fm_copy s) = k * 512"
      "vault_blocks (fm_vault s, fm_world s) = n" "\<And>x. x < n \<Longrightarrow> vault_sector SL cells (fm_vault s, fm_world s) x = Some (m x)"
      using less.prems(3) by (auto simp: vault_is_disk_def)
    have bc: "b \<le> cnt" by (simp add: b_def)
    then have l: "length (take (b * 512) inp) = b * 512" "length (drop (b * 512) inp) = (cnt - b) * 512"
      using less.prems(2) by (simp_all add: min_def diff_mult_distrib)
    note W = vault_disk.write_ok [OF i(1) l(1) wr [unfolded ok]]
    have "b \<noteq> 0" using vault_write_empty [of SL p lba] wr ok by (metis)
    define m1 where "m1 = (\<lambda>x. if lba \<le> x \<and> x < lba + b then span (take (b * 512) inp) ((x - lba) * 512) 512 else m x)"
    have "vault_is_disk SL p cells k n m1 s1"
      using W i by (auto simp: vault_is_disk_def s1_def m1_def)
    from less.IH [OF _ run l(2) this]
    have "vault_is_disk SL p cells k n (\<lambda>x. if lba + b \<le> x \<and> x < lba + b + (cnt - b)
        then span (drop (b * 512) inp) ((x - (lba + b)) * 512) 512 else m1 x) s'"
      using \<open>b \<noteq> 0\<close> False by simp
    moreover have "(if lba + b \<le> x \<and> x < lba + b + (cnt - b) then span (drop (b * 512) inp) ((x - (lba + b)) * 512) 512 else m1 x) =
        (if lba \<le> x \<and> x < lba + cnt then span inp ((x - lba) * 512) 512 else m x)" for x
    proof (cases "lba \<le> x \<and> x < lba + b")
      case True
      then have "(x - lba) * 512 + 512 \<le> b * 512" by auto
      then have "span (take (b * 512) inp) ((x - lba) * 512) 512 = span inp ((x - lba) * 512) 512"
        by (simp add: span_def take_drop min_def)
      then show ?thesis using True bc by (auto simp: m1_def)
    next
      case False
      have "span (drop (b * 512) inp) ((x - (lba + b)) * 512) 512 = span inp ((x - lba) * 512) 512" if "lba + b \<le> x"
      proof -
        have "(x - (lba + b)) * 512 + b * 512 = (x - lba) * 512" using that by (simp add: diff_mult_distrib)
        then show ?thesis by (simp add: span_def add.commute)
      qed
      then show ?thesis using False bc by (auto simp: m1_def)
    qed
    ultimately show ?thesis by (simp add: fun_eq_iff)
  qed
qed

lemma ioctl_spec:
  assumes "wrap_disk_ioctl p drive c s = (r, x, s')" "vault_is_disk SL p cells k n m s" "r \<noteq> RES_ERROR"
  shows "vault_is_disk SL p cells k n m s'"
    "(r, x) = (if drive \<noteq> 0 then (RES_NOTRDY, 0)
       else case c of CTRL_SYNC \<Rightarrow> (RES_OK, 0) | GET_SECTOR_COUNT \<Rightarrow> (RES_OK, n) | GET_SECTOR_SIZE \<Rightarrow> (RES_OK, 512)
         | GET_BLOCK_SIZE \<Rightarrow> (RES_OK, 1) | IOCTL_OTHER \<Rightarrow> (RES_PARERR, 0))"
proof -
  have i: "disk_law (vp_sd p) cells" "vault_inv p cells (fm_vault s, fm_world s)" "v_unlocked (fm_vault s)"
    "unat (logical_blocks (ec_volume (v_config (fm_vault s)))) = n"
    using assms(2) by (auto simp: vault_is_disk_def vault_disk_inv_def vault_inv_def vault_blocks_def)
  show "(r, x) = (if drive \<noteq> 0 then (RES_NOTRDY, 0)
       else case c of CTRL_SYNC \<Rightarrow> (RES_OK, 0) | GET_SECTOR_COUNT \<Rightarrow> (RES_OK, n) | GET_SECTOR_SIZE \<Rightarrow> (RES_OK, 512)
         | GET_BLOCK_SIZE \<Rightarrow> (RES_OK, 1) | IOCTL_OTHER \<Rightarrow> (RES_PARERR, 0))"
    using assms(1,3) i by (cases c) (auto simp: wrap_disk_ioctl_def split: if_splits prod.splits)
  show "vault_is_disk SL p cells k n m s'"
  proof (cases "drive = 0 \<and> c = CTRL_SYNC")
    case True
    obtain y d where y: "blk_sync (vp_sd p) (w_sd (fm_world s)) = (y, d)" by (cases "blk_sync (vp_sd p) (w_sd (fm_world s))")
    have d: "cells d = cells (w_sd (fm_world s))" by (rule disk_lawD(7) [OF i(1) y])
    have s': "s' = s\<lparr>fm_world := (fm_world s)\<lparr>w_sd := d\<rparr>\<rparr>" using assms(1) True y i(3) by (simp add: wrap_disk_ioctl_def)
    have v: "vault_sector SL cells (fm_vault s, (fm_world s)\<lparr>w_sd := d\<rparr>) = vault_sector SL cells (fm_vault s, fm_world s)"
      using sector_lookup_cong [OF same_config_refl d] by (simp add: vault_sector_def fun_eq_iff)
    have "vault_inv p cells (fm_vault s, (fm_world s)\<lparr>w_sd := d\<rparr>)"
      using i(2) store_inv_cong [OF _ d] by (auto simp: vault_inv_def)
    then show ?thesis using assms(2) s' v by (simp add: vault_is_disk_def vault_disk_inv_def vault_blocks_def)
  next
    case False
    then have "s' = s" using assms(1) by (cases c) (auto simp: wrap_disk_ioctl_def split: if_splits)
    then show ?thesis using assms(2) by simp
  qed
qed

lemma read_results: "wrap_read_loop SL p a k lba cnt out s = (r, out', s') \<Longrightarrow> r = RES_OK \<or> r = RES_ERROR"
  by (induction SL p a k lba cnt out s arbitrary: r out' s' rule: wrap_read_loop.induct)
    (subst (asm) (2) wrap_read_loop.simps, auto simp: Let_def split: if_splits prod.splits)

lemma write_results: "wrap_write_loop SL p a k lba cnt inp s = (r, s') \<Longrightarrow> r = RES_OK \<or> r = RES_ERROR"
  by (induction SL p a k lba cnt inp s arbitrary: r s' rule: wrap_write_loop.induct)
    (subst (asm) (2) wrap_write_loop.simps, auto simp: Let_def split: if_splits prod.splits)


text \<open>A vault is formatted only for an empty device, and the work area is erased.\<close>

lemma format_guarded:
  assumes "fv_vault_format_fat32 SL F p workspace buffer v w = (ok, out, v', w')"
  shows "ok \<longrightarrow> v_unlocked v \<and> out = zeros (length buffer) \<and> (\<exists>st. fst (vault_load p w) = Some st \<and> ds_status st = FV_ENROLLMENT_EMPTY)"
  using assms
  by (auto simp: fv_vault_format_fat32_def format_allowed_def Let_def split: if_splits prod.splits option.splits)

section \<open>The property at work\<close>

definition test_prog :: "(dresult \<times> bool \<times> nat) fat_program" where
  "test_prog = Fat_Write 0 14 3 (replicate 1536 9) (\<lambda>r. Fat_Status 0 (\<lambda>b. Fat_Ioctl 0 GET_SECTOR_COUNT (\<lambda>(r2, n). Fat_Return (r, b, n))))"

definition test_format :: "(unit, nat \<Rightarrow> u8 list, unit) format_state" where
  "test_format = \<lparr>fm_copy = zeros 1536, fm_vault = test_vault, fm_world = test_world\<rparr>"

lemma test_format_disk: "vault_is_disk test_sha test_platform ram_cells 3 100 (\<lambda>_. zeros 512) test_format"
proof -
  have z: "meta_view ram_cells test_store blank j = zeros 512" for j
    by (auto simp: meta_view_def ram_cells_def bit_on_disk_def bitmap_at_def zeros_def)
  have "sector_lookup test_sha ram_cells test_store blank x = Sector_Unset" for x
    unfolding sector_lookup_def sector_state_def z by (simp add: zeros_def)
  then show ?thesis
    using test_vault_inv
    by (simp add: vault_is_disk_def vault_disk_inv_def test_format_def test_platform_def disk_law_ram vault_blocks_def
        vault_sector_def test_vault_def)
qed


end
