(* ===== verification/Usb_Mux.thy ===== *)
theory Usb_Mux
  imports Bytes
begin

text \<open>
  The switch between the two USB connectors (\<^verbatim>\<open>src/src/pico/device/usb_mux.c\<close>), in the configuration with
  mass storage and front panel. The pins read and the time are inputs of a poll; what a poll does to
  the outside, in order, is a list of events. The theorem reads the behaviour of the switch off the history
  of its polls, without its state.
\<close>

section \<open>The code\<close>

text \<open>The levels of the pins are constants of the board (\<^verbatim>\<open>boards/fuse_vault.h\<close>).\<close>

definition FUSE_VAULT_USB_C_PRESENT_LEVEL :: bool where "FUSE_VAULT_USB_C_PRESENT_LEVEL = True"
definition FUSE_VAULT_USB_A_PRESENT_LEVEL :: bool where "FUSE_VAULT_USB_A_PRESENT_LEVEL = True"
definition FUSE_VAULT_USB_MUX_ENABLE_LEVEL :: bool where "FUSE_VAULT_USB_MUX_ENABLE_LEVEL = False"
definition FUSE_VAULT_USB_MUX_SELECT_USB_C_LEVEL :: bool where "FUSE_VAULT_USB_MUX_SELECT_USB_C_LEVEL = False"

definition USB_PRESENCE_DEBOUNCE_US :: u64 where "USB_PRESENCE_DEBOUNCE_US = 25000"
definition USB_RECONNECT_DELAY_US :: u64 where "USB_RECONNECT_DELAY_US = 25000"

datatype usb_port = USB_NO_POWER | USB_PORT_C | USB_PORT_A

datatype mux_event =
    Tud_Disconnect
  | Tud_Connect
  | Put_Output bool
  | Put_Select bool
  | Tud_Umount
  | Ui_Disconnect

record usb_mux =
  selected_port :: usb_port
  candidate_port :: usb_port
  candidate_since_us :: u64
  reconnect_at_us :: u64

definition mux_init :: usb_mux where
  "mux_init = \<lparr>selected_port = USB_NO_POWER, candidate_port = USB_NO_POWER, candidate_since_us = 0, reconnect_at_us = 0\<rparr>"

text \<open>The levels of the two presence pins, USB-A first.\<close>

definition preferred_port :: "bool \<Rightarrow> bool \<Rightarrow> usb_port" where
  "preferred_port a c =
     (if c = FUSE_VAULT_USB_C_PRESENT_LEVEL then USB_PORT_C
      else if a = FUSE_VAULT_USB_A_PRESENT_LEVEL then USB_PORT_A
      else USB_NO_POWER)"

definition select_level :: "usb_port \<Rightarrow> bool" where
  "select_level p =
     (if p = USB_PORT_A then \<not> FUSE_VAULT_USB_MUX_SELECT_USB_C_LEVEL else FUSE_VAULT_USB_MUX_SELECT_USB_C_LEVEL)"

definition mux_sense :: "usb_port \<Rightarrow> u64 \<Rightarrow> usb_mux \<Rightarrow> usb_mux" where
  "mux_sense sensed now s =
     (if sensed \<noteq> candidate_port s then s\<lparr>candidate_port := sensed, candidate_since_us := now\<rparr> else s)"

definition mux_switch :: "u64 \<Rightarrow> usb_mux \<Rightarrow> mux_event list \<times> usb_mux" where
  "mux_switch now s =
     (if candidate_port s \<noteq> selected_port s \<and> now - candidate_since_us s \<ge> USB_PRESENCE_DEBOUNCE_US then
        ([Tud_Disconnect, Put_Output (\<not> FUSE_VAULT_USB_MUX_ENABLE_LEVEL), Put_Select (select_level (candidate_port s)),
          Tud_Umount, Ui_Disconnect],
         s\<lparr>selected_port := candidate_port s, reconnect_at_us := now + USB_RECONNECT_DELAY_US\<rparr>)
      else ([], s))"

definition mux_reconnect :: "u64 \<Rightarrow> usb_mux \<Rightarrow> mux_event list \<times> usb_mux" where
  "mux_reconnect now s =
     (if reconnect_at_us s \<noteq> 0 \<and> now \<ge> reconnect_at_us s then
        (if selected_port s \<noteq> USB_NO_POWER then [Put_Output FUSE_VAULT_USB_MUX_ENABLE_LEVEL, Tud_Connect] else [],
         s\<lparr>reconnect_at_us := 0\<rparr>)
      else ([], s))"

definition fv_usb_mux_poll :: "bool \<Rightarrow> bool \<Rightarrow> u64 \<Rightarrow> usb_mux \<Rightarrow> mux_event list \<times> usb_mux" where
  "fv_usb_mux_poll a c now s =
     (case mux_switch now (mux_sense (preferred_port a c) now s) of (switched, s) \<Rightarrow>
      case mux_reconnect now s of (connected, s) \<Rightarrow> (switched @ connected, s))"

section \<open>Histories of polls\<close>

record mux_poll =
  mp_a :: bool
  mp_c :: bool
  mp_now :: u64
  mp_events :: "mux_event list"

text \<open>The polls so far, the latest first, and the state they lead to. The clock counts microseconds since
  the start, does not run backwards, and does not come near the end of its range (half a million years).\<close>

inductive mux_reach :: "mux_poll list \<Rightarrow> usb_mux \<Rightarrow> bool" where
  start: "mux_reach [] mux_init"
| poll: "mux_reach h s \<Longrightarrow> (h \<noteq> [] \<Longrightarrow> mp_now (hd h) \<le> now) \<Longrightarrow> unat now < 2 ^ 63 \<Longrightarrow>
    fv_usb_mux_poll a c now s = (ev, s') \<Longrightarrow>
    mux_reach (\<lparr>mp_a = a, mp_c = c, mp_now = now, mp_events = ev\<rparr> # h) s'"

definition sensed :: "mux_poll \<Rightarrow> usb_port" where
  "sensed x = preferred_port (mp_a x) (mp_c x)"

text \<open>The polls up to now all sensed \<open>p\<close>, for at least \<open>d\<close> microseconds.\<close>

definition stable_for :: "nat \<Rightarrow> usb_port \<Rightarrow> u64 \<Rightarrow> mux_poll list \<Rightarrow> bool" where
  "stable_for d p now h \<longleftrightarrow> (\<exists>x \<in> set (takeWhile (\<lambda>x. sensed x = p) h). unat (mp_now x) + d \<le> unat now)"

definition switches :: "mux_poll \<Rightarrow> bool" where
  "switches x \<longleftrightarrow> (\<exists>l. Put_Select l \<in> set (mp_events x))"

text \<open>The connector was switched before, the last time at least \<open>d\<close> microseconds ago.\<close>

definition settled :: "nat \<Rightarrow> u64 \<Rightarrow> mux_poll list \<Rightarrow> bool" where
  "settled d now h = (case dropWhile (\<lambda>x. \<not> switches x) h of [] \<Rightarrow> False | x # _ \<Rightarrow> unat (mp_now x) + d \<le> unat now)"

text \<open>The levels of the two output pins; \<^verbatim>\<open>main\<close> starts with the data path disabled and USB-C selected.\<close>

fun put_event :: "mux_event \<Rightarrow> bool \<times> bool \<Rightarrow> bool \<times> bool" where
  "put_event (Put_Output l) (out, sel) = (l, sel)"
| "put_event (Put_Select l) (out, sel) = (out, l)"
| "put_event _ lines = lines"

definition mux_lines :: "mux_poll list \<Rightarrow> bool \<times> bool" where
  "mux_lines h = fold put_event (concat (map mp_events (rev h))) (True, False)"

definition data_path :: "mux_poll list \<Rightarrow> usb_port option" where
  "data_path h = (case mux_lines h of (out, sel) \<Rightarrow>
     if out \<noteq> FUSE_VAULT_USB_MUX_ENABLE_LEVEL then None
     else Some (if sel = FUSE_VAULT_USB_MUX_SELECT_USB_C_LEVEL then USB_PORT_C else USB_PORT_A))"

section \<open>What the state remembers of the history\<close>

text \<open>The stretch of polls that sensed the candidate, and since when.\<close>

definition cand_inv :: "mux_poll list \<Rightarrow> usb_mux \<Rightarrow> bool" where
  "cand_inv h s \<longleftrightarrow>
     (let stretch = takeWhile (\<lambda>x. sensed x = candidate_port s) h in
      (candidate_port s = USB_NO_POWER \<and> selected_port s = USB_NO_POWER \<and> candidate_since_us s = 0 \<and> stretch = h) \<or>
      (stretch \<noteq> [] \<and> mp_now (last stretch) = candidate_since_us s))"

text \<open>The time of the last switch.\<close>

definition switch_inv :: "mux_poll list \<Rightarrow> usb_mux \<Rightarrow> bool" where
  "switch_inv h s \<longleftrightarrow>
     (case dropWhile (\<lambda>x. \<not> switches x) h of
        [] \<Rightarrow> reconnect_at_us s = 0 \<and> selected_port s = USB_NO_POWER
      | x # _ \<Rightarrow> if reconnect_at_us s = 0 then unat (mp_now x) + 25000 \<le> unat (mp_now (hd h))
                 else unat (reconnect_at_us s) = unat (mp_now x) + 25000 \<and> mp_now (hd h) < reconnect_at_us s)"

definition lines_inv :: "mux_poll list \<Rightarrow> usb_mux \<Rightarrow> bool" where
  "lines_inv h s \<longleftrightarrow> mux_lines h = (\<not> (reconnect_at_us s = 0 \<and> selected_port s \<noteq> USB_NO_POWER), select_level (selected_port s))"

definition clock_inv :: "mux_poll list \<Rightarrow> bool" where
  "clock_inv h \<longleftrightarrow> sorted_wrt (\<lambda>x y. mp_now y \<le> mp_now x) h \<and> (\<forall>x \<in> set h. unat (mp_now x) < 2 ^ 63)"

lemmas mux_levels = FUSE_VAULT_USB_C_PRESENT_LEVEL_def FUSE_VAULT_USB_A_PRESENT_LEVEL_def FUSE_VAULT_USB_MUX_ENABLE_LEVEL_def
  FUSE_VAULT_USB_MUX_SELECT_USB_C_LEVEL_def USB_PRESENCE_DEBOUNCE_US_def USB_RECONNECT_DELAY_US_def

lemma unat_elapsed: "since \<le> (now :: u64) \<Longrightarrow> 25000 \<le> now - since \<longleftrightarrow> unat since + 25000 \<le> unat now"
  by (simp add: word_le_nat_alt unat_sub_if' ) linarith

lemma unat_later: "unat (now :: u64) < 2 ^ 63 \<Longrightarrow> unat (now + 25000) = unat now + 25000"
  by (simp add: unat_word_ariths)

lemma sorted_last: "clock_inv h \<Longrightarrow> x \<in> set h \<Longrightarrow> mp_now (last h) \<le> mp_now x"
  unfolding clock_inv_def by (induction h) auto

lemma clock_takeWhile: "clock_inv h \<Longrightarrow> clock_inv (takeWhile P h)"
  by (auto simp: clock_inv_def dest: set_takeWhileD sorted_wrt_takeWhile)

lemma mux_linesE: "mux_lines (x # h) = fold put_event (mp_events x) (mux_lines h)"
  by (simp add: mux_lines_def)

section \<open>One poll\<close>

lemma sense_inv:
  assumes "cand_inv h s" "sensed x = p" "mp_now x = now"
  shows "cand_inv (x # h) (mux_sense p now s)"
    and "candidate_port (mux_sense p now s) = p"
    and "selected_port (mux_sense p now s) = selected_port s" "reconnect_at_us (mux_sense p now s) = reconnect_at_us s"
proof -
  have "takeWhile (\<lambda>x. sensed x = p) h = []" if "p \<noteq> candidate_port s"
    using assms(1) that by (cases h) (auto simp: cand_inv_def Let_def split: if_splits)
  then show "cand_inv (x # h) (mux_sense p now s)"
    using assms by (cases "p = candidate_port s") (auto simp: cand_inv_def mux_sense_def Let_def)
qed (auto simp: mux_sense_def)

lemma cand_since_le:
  assumes "cand_inv h s" "clock_inv h" "y \<in> set (takeWhile (\<lambda>x. sensed x = candidate_port s) h)"
  shows "candidate_since_us s \<le> mp_now y"
  using assms sorted_last [OF clock_takeWhile [OF assms(2)] assms(3)] by (auto simp: cand_inv_def Let_def)

text \<open>A candidate that differs from the selected connector is due exactly when the polls were stable.\<close>

lemma cand_stable:
  assumes "cand_inv h s" "clock_inv h" "mp_now (hd h) = now" "h \<noteq> []" "sensed (hd h) = candidate_port s"
    "candidate_port s \<noteq> selected_port s"
  shows "25000 \<le> now - candidate_since_us s \<longleftrightarrow> stable_for 25000 (candidate_port s) now h"
proof -
  let ?W = "takeWhile (\<lambda>x. sensed x = candidate_port s) h"
  have W: "?W \<noteq> []" "hd h \<in> set ?W" using assms(4,5) by (cases h; simp)+
  have "candidate_since_us s \<le> now" using cand_since_le [OF assms(1,2) W(2)] assms(3) by simp
  then have e: "25000 \<le> now - candidate_since_us s \<longleftrightarrow> unat (candidate_since_us s) + 25000 \<le> unat now"
    by (rule unat_elapsed)
  show ?thesis
  proof
    assume "25000 \<le> now - candidate_since_us s"
    moreover have "candidate_since_us s = 0 \<and> ?W = h \<and> selected_port s = candidate_port s \<or> mp_now (last ?W) = candidate_since_us s"
      using assms(1) by (auto simp: cand_inv_def Let_def)
    ultimately show "stable_for 25000 (candidate_port s) now h"
      using e W assms(6) last_in_set [OF W(1)] unfolding stable_for_def by (intro bexI [of _ "last ?W"]) auto
  next
    assume "stable_for 25000 (candidate_port s) now h"
    then obtain y where "y \<in> set ?W" "unat (mp_now y) + 25000 \<le> unat now" by (auto simp: stable_for_def)
    then show "25000 \<le> now - candidate_since_us s"
      using cand_since_le [OF assms(1,2)] e by (fastforce simp: word_le_nat_alt)
  qed
qed

lemma stable_sensed: "stable_for d p now (x # h) \<Longrightarrow> p = sensed x"
  by (cases "sensed x = p") (auto simp: stable_for_def)

definition mux_inv :: "mux_poll list \<Rightarrow> usb_mux \<Rightarrow> bool" where
  "mux_inv h s \<longleftrightarrow> clock_inv h \<and> cand_inv h s \<and> switch_inv h s \<and> lines_inv h s"

text \<open>What the last poll did, read off the history.\<close>

definition poll_spec :: "mux_poll \<Rightarrow> mux_poll list \<Rightarrow> usb_mux \<Rightarrow> usb_mux \<Rightarrow> bool" where
  "poll_spec x h s s' \<longleftrightarrow>
     (if stable_for 25000 (sensed x) (mp_now x) (x # h) \<and> sensed x \<noteq> selected_port s then
        selected_port s' = sensed x \<and>
        mp_events x = [Tud_Disconnect, Put_Output True, Put_Select (select_level (sensed x)), Tud_Umount, Ui_Disconnect]
      else
        selected_port s' = selected_port s \<and>
        reconnect_at_us s' = (if reconnect_at_us s \<le> mp_now x then 0 else reconnect_at_us s) \<and>
        mp_events x = (if reconnect_at_us s \<noteq> 0 \<and> reconnect_at_us s \<le> mp_now x \<and> selected_port s \<noteq> USB_NO_POWER
          then [Put_Output False, Tud_Connect] else []))"

lemma poll_step:
  assumes inv: "mux_inv h s"
    and time: "h \<noteq> [] \<Longrightarrow> mp_now (hd h) \<le> now" "unat now < 2 ^ 63"
    and step: "fv_usb_mux_poll a c now s = (ev, s')"
    and x: "x = \<lparr>mp_a = a, mp_c = c, mp_now = now, mp_events = ev\<rparr>"
  shows "mux_inv (x # h) s'" "poll_spec x h s s'"
proof -
  define p where "p = preferred_port a c"
  define t where "t = mux_sense p now s"
  have xp: "sensed x = p" "mp_now x = now" "mp_events x = ev" by (simp_all add: x sensed_def p_def)
  have clock: "clock_inv (x # h)"
    using inv time xp by (cases h) (auto simp: mux_inv_def clock_inv_def)
  have cand: "cand_inv (x # h) t" "candidate_port t = p" "selected_port t = selected_port s" "reconnect_at_us t = reconnect_at_us s"
    using sense_inv [of h s x p now] inv xp by (auto simp: mux_inv_def t_def)
  have due: "25000 \<le> now - candidate_since_us t \<longleftrightarrow> stable_for 25000 p now (x # h)" if "p \<noteq> selected_port s"
    using cand_stable [OF cand(1) clock] that cand xp by simp
  have later: "\<not> now + 25000 \<le> now" "now < now + 25000" "unat (now + 25000) = unat now + 25000" "now + 25000 \<noteq> 0"
    using unat_later [OF time(2)] by (auto simp: word_less_nat_alt word_le_nat_alt unat_eq_zero [symmetric] simp del: unat_eq_zero)
  consider (sw) "stable_for 25000 p now (x # h)" "p \<noteq> selected_port s" | (quiet) "\<not> (stable_for 25000 p now (x # h) \<and> p \<noteq> selected_port s)"
    by blast
  then have "mux_inv (x # h) s' \<and> poll_spec x h s s'"
  proof cases
    case sw
    then have m: "mux_switch now t = ([Tud_Disconnect, Put_Output True, Put_Select (select_level p), Tud_Umount, Ui_Disconnect],
        t\<lparr>selected_port := p, reconnect_at_us := now + 25000\<rparr>)"
      using due cand by (simp add: mux_switch_def mux_levels)
    have r: "ev = [Tud_Disconnect, Put_Output True, Put_Select (select_level p), Tud_Umount, Ui_Disconnect]"
      "s' = t\<lparr>selected_port := p, reconnect_at_us := now + 25000\<rparr>"
      using step later m by (auto simp: fv_usb_mux_poll_def p_def [symmetric] t_def [symmetric] mux_reconnect_def)
    have "switches x" using r xp by (auto simp: switches_def)
    then have "switch_inv (x # h) s'" using later xp r by (simp add: switch_inv_def)
    moreover have "lines_inv (x # h) s'"
      using later r xp by (cases "mux_lines h") (simp add: lines_inv_def mux_linesE)
    moreover have "cand_inv (x # h) s'"
      using cand(1,2) r xp by (auto simp: cand_inv_def Let_def)
    ultimately show ?thesis using clock sw xp r by (simp add: mux_inv_def poll_spec_def)
  next
    case quiet
    then have m: "mux_switch now t = ([], t)"
      using due cand by (auto simp: mux_switch_def mux_levels)
    define go where "go \<longleftrightarrow> reconnect_at_us s \<noteq> 0 \<and> reconnect_at_us s \<le> now"
    have r: "ev = (if go \<and> selected_port s \<noteq> USB_NO_POWER then [Put_Output False, Tud_Connect] else [])"
      "s' = (if go then t\<lparr>reconnect_at_us := 0\<rparr> else t)"
      using step m cand by (auto simp: fv_usb_mux_poll_def p_def [symmetric] t_def [symmetric] mux_reconnect_def mux_levels go_def split: if_splits)
    have nsw: "\<not> switches x" using r xp by (auto simp: switches_def split: if_splits)
    have "switch_inv (x # h) s'"
    proof (cases "dropWhile (\<lambda>x. \<not> switches x) h")
      case Nil
      then show ?thesis using inv nsw r cand by (simp add: mux_inv_def switch_inv_def go_def del: dropWhile_eq_Nil_conv)
    next
      case (Cons y ys)
      then have "h \<noteq> []" by auto
      then show ?thesis using Cons inv nsw r cand xp time(1)
        by (auto simp: mux_inv_def switch_inv_def go_def word_le_nat_alt word_less_nat_alt split: if_splits)
    qed
    moreover have "lines_inv (x # h) s'"
      using inv r xp cand by (auto simp: mux_inv_def lines_inv_def mux_linesE go_def)
    moreover have "cand_inv (x # h) s'"
      using cand(1) r by (auto simp: cand_inv_def Let_def)
    ultimately show ?thesis using clock quiet xp r cand by (auto simp: mux_inv_def poll_spec_def go_def)
  qed
  then show "mux_inv (x # h) s'" "poll_spec x h s s'" by auto
qed

lemma mux_reach_inv: "mux_reach h s \<Longrightarrow> mux_inv h s"
proof (induction rule: mux_reach.induct)
  case start
  show ?case by (simp add: mux_inv_def clock_inv_def cand_inv_def switch_inv_def lines_inv_def mux_init_def mux_lines_def select_level_def mux_levels)
next
  case (poll h s now a c ev s')
  show ?case using poll_step(1) [OF poll.IH poll.hyps(2,3,4) refl] .
qed

lemma mux_reach_step: "mux_reach (x # h) s \<Longrightarrow> \<exists>s0. mux_inv h s0 \<and> poll_spec x h s0 s \<and> mux_inv (x # h) s"
proof (erule mux_reach.cases, simp)
  fix h' s0 now a c ev s'
  assume "mux_reach h' s0" "h' \<noteq> [] \<Longrightarrow> mp_now (hd h') \<le> now" "unat now < 2 ^ 63" "fv_usb_mux_poll a c now s0 = (ev, s')"
    "x # h = \<lparr>mp_a = a, mp_c = c, mp_now = now, mp_events = ev\<rparr> # h'" "s = s'"
  then show ?thesis using poll_step [of h s0 now a c ev s' x] mux_reach_inv [of h s0] by auto
qed

text \<open>The data path serves a connector exactly when it is the selected one, present, and settled.\<close>

lemma data_path_inv:
  assumes "mux_inv (x # h) s"
  shows "data_path (x # h) =
    (if settled 25000 (mp_now x) (x # h) \<and> selected_port s \<noteq> USB_NO_POWER then Some (selected_port s) else None)"
proof -
  have "settled 25000 (mp_now x) (x # h) \<longleftrightarrow> reconnect_at_us s = 0" if "selected_port s \<noteq> USB_NO_POWER"
  proof (cases "dropWhile (\<lambda>x. \<not> switches x) (x # h)")
    case Nil
    then show ?thesis using assms that by (simp add: mux_inv_def switch_inv_def settled_def del: dropWhile_eq_Nil_conv dropWhile.simps)
  next
    case (Cons y ys)
    then show ?thesis using assms
      by (simp add: mux_inv_def switch_inv_def settled_def word_less_nat_alt del: dropWhile.simps split: if_splits)
  qed
  then show ?thesis
    using assms by (cases "selected_port s") (auto simp: mux_inv_def lines_inv_def data_path_def select_level_def mux_levels)
qed



end
