(* ===== verification/Spec2Isabelle.thy ===== *)
theory Spec2Isabelle
  imports Random_Bytes Session_Timer Enrollment_OTP Session_Scope Fido_Journal_Live Fido_Journal_Recovery
    Fido_Hid_Correct Fido_Verification Ui_Adapter_Correct Usb_Example
    Fido_Poll Sd_Native Rp2354_Authority Rp2354_Entropy Vault_Filesystem Usb_Mux
begin

text \<open>
  A verification development for the Fuse Vault firmware: an encrypted USB drive and FIDO authenticator on a
  two-core RP2354. It models the current program, \<^verbatim>\<open>src/src/shared\<close> (portable code) and \<^verbatim>\<open>src/src/pico\<close> (the
  device), as HOL functions over records that follow the C structures, and proves what makes each part correct.

  \<^bold>\<open>The program.\<close> Core 1 runs the security worker (\<^verbatim>\<open>commands.c\<close>). It alone owns the vault (\<^verbatim>\<open>vault.c\<close>: header,
  credential, attempt budget, sector I/O), the session scope and timer, and the FIDO engine with its journal. The vault
  reaches the card through the authenticated sector store (\<^verbatim>\<open>auth_store.c\<close>) and the cipher cascade
  (\<^verbatim>\<open>pipeline.c\<close>, \<^verbatim>\<open>cipher.c\<close>), and the device state through an authority: enrollment (\<^verbatim>\<open>enrollment.c\<close>) over
  one-time-programmable memory and a flash journal (\<^verbatim>\<open>journal.c\<close>). Core 0 runs the USB stack's callbacks (mass storage,
  HID), the front panel (buttons, screens) and the connector switch; it hands the worker one job at a time through queues and atomics.

  \<^bold>\<open>Data and cryptography.\<close>
  \<^item> \<open>Bytes\<close> is the prelude: byte buffers, little-endian fields and the \<open>buffer_simps\<close> collection; \<open>Codec\<close> is the
    locale of canonical codecs (a decoder that re-encodes accepts exactly the encodings), interpreted by \<open>Policy\<close>
    (\<^verbatim>\<open>policy.c\<close>), \<open>Volume\<close> (\<^verbatim>\<open>volume_format.c\<close>) and \<open>Journal\<close>.
  \<^item> \<open>Hash\<close> (\<^verbatim>\<open>hmac.c\<close>, \<^verbatim>\<open>key_derivation.c\<close>): HMAC with prepared pads equals RFC 2104, HKDF, PBKDF2 over an arbitrary digest.
  \<^item> \<open>Twofish\<close>, \<open>Cipher\<close>, \<open>Pipeline\<close> (\<^verbatim>\<open>crypto\<close>): Twofish in full, XTS over any registered block cipher (round trip,
    tweak update as multiplication in GF(2^128)), cascades of layers.
  \<^item> \<open>Key_Wrap\<close>, \<open>Working_Keys\<close>, \<open>Envelope\<close> (\<^verbatim>\<open>key_wrap.c\<close>, \<^verbatim>\<open>envelope.c\<close>): domain separation, sealing and opening of the header.
  \<^item> \<open>Random_Bytes\<close> (\<^verbatim>\<open>random.c\<close>) and \<open>Rp2354_Entropy\<close> (\<^verbatim>\<open>entropy.c\<close>): the continuous test, latched failures, the driver of the
    hardware source.

  \<^bold>\<open>Storage.\<close>
  \<^item> \<open>Block_Device\<close> (\<^verbatim>\<open>block_device.h\<close>) states the law of a card, \<open>disk_law\<close>; \<open>Sd_Native\<close> (\<^verbatim>\<open>sd_native.c\<close>) proves it of the driver
    over the SDIO library.
  \<^item> \<open>Auth_Store\<close> (\<^verbatim>\<open>auth_store.c\<close>) with \<open>Auth_Store_Cache\<close>, \<open>_Read\<close>, \<open>_Write\<close>, \<open>_Frame\<close>, \<open>_Correct\<close>: the cache invariant ties cached bitmap
    and metadata sectors to the card; reads return authentic or unset sectors, writes are read back.
  \<^item> \<open>Vault_IO\<close> interprets the locale \<open>sector_disk\<close>: an unlocked vault is a disk of plaintext sectors. \<open>Vault_Filesystem\<close>
    (\<^verbatim>\<open>vault_filesystem.c\<close>) runs any FatFs program on that disk.

  \<^bold>\<open>Device state and authority.\<close>
  \<^item> \<open>Device_State\<close>, \<open>Versioned_Cell\<close>: the state and the locale of a durable state with sequence numbers; \<open>Journal\<close>,
    \<open>Journal_Scan\<close>, \<open>_Commit\<close>, \<open>_Correct\<close>, \<open>_Live\<close> show that two flash banks implement it under arbitrary interruption.
  \<^item> \<open>Enrollment\<close>, \<open>Enrollment_OTP\<close>, \<open>Enrollment_Authority\<close> (\<^verbatim>\<open>enrollment.c\<close>): token slots and their status mask, torn rows, final
    destruction; the enrollment as the authority of the vault. \<open>Rp2354_Authority\<close> (\<^verbatim>\<open>authority.c\<close>) proves the OTP and flash laws of the
    adapters from a law of the boot ROM, and that they write nothing else.
  \<^item> \<open>Vault\<close>, \<open>Vault_Attempts\<close> (\<^verbatim>\<open>vault.c\<close>): recovery, unlocking, creation, change of credential; the locale \<open>device_authority\<close> and the attempt
    budget over any history of attempts.

  \<^bold>\<open>FIDO.\<close>
  \<^item> \<open>Fido_Store\<close>, \<open>Fido_Store_Correct\<close>, \<open>Fido_Journal\<close>, \<open>_Correct\<close>, \<open>_Recovery\<close>, \<open>_Live\<close> (\<^verbatim>\<open>store.c\<close>): the snapshot store and the sector journal; the
    journal interprets \<open>transactional_disk\<close>. \<open>Fido_Image\<close> (\<^verbatim>\<open>image_upgrade.c\<close>): relocation of linked records, with its unbounded loop.
  \<^item> \<open>Fido_Hid\<close>, \<open>Fido_Hid_Correct\<close> (\<^verbatim>\<open>hid.c\<close>), \<open>Fido_Verification\<close> (\<^verbatim>\<open>verification.c\<close>), \<open>Fido_Worker\<close>, \<open>Fido_Engine\<close>,
    \<open>Fido_Poll\<close> (\<^verbatim>\<open>fido_adapter.c\<close>, worker and core 0).

  \<^bold>\<open>Front panel, session and USB.\<close>
  \<^item> \<open>Ui_Entry\<close>, \<open>Ui_Button\<close>, \<open>Ui_State\<close>, \<open>Ui_Scenes\<close>, \<open>Device_Ui\<close>, \<open>Ui_Adapter\<close> (\<^verbatim>\<open>ui\<close>, \<^verbatim>\<open>device_ui_adapter.c\<close>) with \<open>Ui_Correct\<close> and
    \<open>Ui_Adapter_Correct\<close>: which secrets and jobs can exist on which screen. \<open>Usb_Mux\<close> (\<^verbatim>\<open>usb_mux.c\<close>).
  \<^item> \<open>Session_Scope\<close>, \<open>Session_Access\<close>, \<open>Session_Timer\<close>, \<open>Session_Timeout\<close> (two cores at the level of atomic accesses).
  \<^item> \<open>Session_Worker\<close>, \<open>Ui_Job\<close>, \<open>Ui_Worker\<close>, \<open>Worker_Loop\<close> (\<^verbatim>\<open>commands.c\<close>, \<^verbatim>\<open>usb_vault_io.h\<close>) with \<open>Worker_Session\<close>, \<open>Worker_Fido\<close>,
    \<open>Worker_Engine\<close>, \<open>Worker_Correct\<close>, \<open>Host_IO\<close>: the invariant of the worker, inductively over its reachable turns.
  \<^item> \<open>Usb_Transport\<close> (\<^verbatim>\<open>usb_storage.c\<close>, \<^verbatim>\<open>usb_storage_bridge.c\<close>) with \<open>Usb_Pipeline\<close>, \<open>Usb_Command\<close>, \<open>Usb_Transfer\<close>, \<open>Usb_Storage\<close>,
    \<open>Usb_Example\<close>: the transfer pipeline against every behaviour of the worker and the host.
\<close>

text \<open>
  \<^bold>\<open>How code becomes definitions.\<close> Stateful functions take and return the state; an \<^verbatim>\<open>int\<close> result that only means success is a
  \<open>bool\<close> or an option, result enumerations are datatypes, and enumerations read from storage stay 32-bit words. Fixed-width integers are
  words where wrap-around can matter, sector numbers and array indices naturals with their bounds proved. Buffers are lists of bytes; a
  NULL pointer is an absent value. A buffer that the code zeroizes on failure is an absent or zero result. Memory that two parties share
  (the batch buffer, the button event, the prompt mailbox) is explicit state, and each access to it a step.

  \<^bold>\<open>Parameters.\<close> Code that is not part of the repository's own sources is an argument, with a law stating its documented behaviour:
  the hash, digest and block ciphers (\<open>sha_lib\<close>, \<open>cipher\<close> tables: Mbed TLS, GmSSL, with \<open>digest_law\<close>, \<open>sha_law\<close>, \<open>cipher_law\<close>), the random
  generator (\<open>drbg_lib\<close>), the SDIO library (\<open>card_law\<close>), the boot ROM and flash operations (\<open>rom_law\<close>), the entropy peripheral (\<open>trng_law\<close>), FatFs
  (any \<open>fat_program\<close>), the FIDO engine (\<open>engine_law\<close>: it reaches the worker only through its callbacks), and the USB stack (a callback that
  returned 0 is called again). Every law is instantiated by a concrete model in the witnesses. \<open>disk_law\<close>, \<open>otp_law\<close> and \<open>flash_law\<close> are the
  interfaces between the layers; \<open>Sd_Native\<close> and \<open>Rp2354_Authority\<close> derive them for the device's own drivers.

  \<^bold>\<open>Bounds, loops and schedules.\<close> Loops with a counter are structural or have a measure. The readiness wait of the card is bounded by a time of one
  second, here a number of status reads given with the library; the entropy wait and the relocation loop of the image upgrade are
  \<^theory_text>\<open>partial_function (option)\<close>, and theorems show that they return. What the other core, the user, the host and
  the card do is an arbitrary infinite schedule (\<open>us_turns\<close>, the fields of the worker's library), so a theorem about a function of a schedule is one
  about every interleaving at the granularity of shared accesses; \<open>us_race\<close> records an access of core 0 to the batch buffer while the worker owns it.

  \<^bold>\<open>What the lemmas show.\<close> For each component an invariant and its preservation by every operation, the behaviour on every branch that
  matters to its clients, and progress where the code promises any; locales state the contracts between components and are interpreted on the
  model's definitions. The numbered properties are the conclusions, each at the end of the theory of its component.

  \<^bold>\<open>Not modelled.\<close> Zeroization of locals (the model has none that outlive a call), timing statistics,
  alignment and NULL checks of out-pointers where a value is returned instead, progress callbacks, the text commands of
  bring-up builds and their JSON output, boot tracing and the constant USB descriptors; the hardware acceleration of SHA-256 and AES, checked by a
  self test of the firmware against the software path; the benchmark firmware, host tests and tools; the superseded first-generation firmware
  under \<^verbatim>\<open>src/v1\<close>; third-party libraries, which are parameters.
\<close>

end
